(* ===== verification/Prelude.thy ===== *)
theory Prelude
  imports Main "HOL-Library.Word" "HOL-Library.Multiset"
begin

text \<open>
  Shared vocabulary of the development: the named collections the component theories fill,
  and the pieces of the Rust standard library the sources use on vectors and strings
  (\<^verbatim>\<open>Iterator::position\<close>, \<^verbatim>\<open>Vec::swap_remove\<close>, \<^verbatim>\<open>str::split\<close>, \<^verbatim>\<open>[T]::join\<close>,
  \<^verbatim>\<open>str::starts_with\<close>, \<^verbatim>\<open>HashMap::extend\<close>), with the lemmas every component needs about them.
  A Rust \<^verbatim>\<open>HashMap\<close> is a partial map; a \<^verbatim>\<open>Vec\<close> is a list; a \<^verbatim>\<open>&str\<close> is a list of
  characters, each read as one code point below 256.
\<close>

named_theorems vm_simps \<open>unfolding rules of the runtime model\<close>
named_theorems lex_simps \<open>evaluation rules of the lexer\<close>
named_theorems parse_safe \<open>safety rules of the parser combinators\<close>
named_theorems gc_simps \<open>frame and projection rules of the collector\<close>

type_synonym u8 = "8 word"
type_synonym u32 = "32 word"
type_synonym u64 = "64 word"

section \<open>Vectors\<close>

text \<open>\<^verbatim>\<open>iter().position(p)\<close>: the index of the first element that satisfies the predicate.\<close>

fun position :: "('a \<Rightarrow> bool) \<Rightarrow> 'a list \<Rightarrow> nat option" where
  "position P [] = None"
| "position P (x # xs) = (if P x then Some 0 else map_option Suc (position P xs))"

lemma position_Some:
  "position P xs = Some i \<Longrightarrow> i < length xs \<and> P (xs ! i) \<and> (\<forall>j < i. \<not> P (xs ! j))"
proof (induction xs arbitrary: i)
  case (Cons x xs)
  then show ?case
    by (auto split: if_splits simp: nth_Cons' less_Suc_eq_0_disj)
qed simp

lemma position_SomeD:
  assumes "position P xs = Some i"
  shows "i < length xs" and "P (xs ! i)"
  using position_Some [OF assms] by auto

lemma position_None_iff: "position P xs = None \<longleftrightarrow> (\<forall>x \<in> set xs. \<not> P x)"
  by (induction xs) auto

lemma find_SomeD: "find P xs = Some x \<Longrightarrow> x \<in> set xs \<and> P x"
  by (auto simp: find_Some_iff)

text \<open>\<^verbatim>\<open>Vec::swap_remove(i)\<close>: the last element takes the place of the removed one.\<close>

definition swap_remove :: "nat \<Rightarrow> 'a list \<Rightarrow> 'a list" where
  "swap_remove i xs = butlast (xs[i := last xs])"

lemma length_swap_remove [simp]: "length (swap_remove i xs) = length xs - 1"
  by (simp add: swap_remove_def)

lemma swap_remove_last: "i = length xs - 1 \<Longrightarrow> xs \<noteq> [] \<Longrightarrow> swap_remove i xs = butlast xs"
  by (simp add: swap_remove_def last_conv_nth list_update_id)

lemma mset_swap_remove:
  assumes "i < length xs"
  shows "mset (swap_remove i xs) = mset xs - {#xs ! i#}"
proof (cases "i = length xs - 1")
  case True
  from assms have ne: "xs \<noteq> []" by auto
  have "mset xs = mset (butlast xs @ [last xs])" using ne by simp
  also have "\<dots> = add_mset (xs ! i) (mset (butlast xs))"
    using True ne by (simp add: last_conv_nth)
  finally show ?thesis using swap_remove_last [OF True ne] by simp
next
  case False
  from assms have ne: "xs \<noteq> []" by auto
  let ?ys = "butlast xs"
  have xs: "xs = ?ys @ [last xs]" using ne by simp
  have i: "i < length ?ys" using False assms by simp
  have "xs[i := last xs] = ?ys[i := last xs] @ [last xs]"
    using i ne by (metis list_update_append1 xs)
  then have "swap_remove i xs = ?ys[i := last xs]"
    by (simp add: swap_remove_def)
  moreover have "mset (?ys[i := last xs]) = add_mset (last xs) (mset ?ys - {#?ys ! i#})"
    using i by (rule mset_update)
  moreover have "?ys ! i = xs ! i" using i by (simp add: nth_butlast)
  moreover have "mset xs = add_mset (last xs) (mset ?ys)"
    using xs by (metis add.right_neutral add_mset_add_single mset.simps(1) mset.simps(2) mset_append union_commute)
  moreover have "xs ! i \<in># mset ?ys"
    using i by (metis nth_butlast nth_mem_mset)
  ultimately show ?thesis by (auto dest!: multi_member_split)
qed

lemma set_swap_remove_subset: "set (swap_remove i xs) \<subseteq> set xs"
proof (cases "xs = []")
  case False
  have "set (swap_remove i xs) \<subseteq> set (xs[i := last xs])"
    unfolding swap_remove_def by (meson in_set_butlastD subsetI)
  also have "\<dots> \<subseteq> insert (last xs) (set xs)" by (rule set_update_subset_insert)
  finally show ?thesis using False by auto
qed (simp add: swap_remove_def)

section \<open>Strings\<close>

text \<open>\<^verbatim>\<open>s.split(c)\<close>: the pieces between separators; an empty string has one empty piece.\<close>

fun split_on :: "('a \<Rightarrow> bool) \<Rightarrow> 'a list \<Rightarrow> 'a list list" where
  "split_on P [] = [[]]"
| "split_on P (c # cs) =
     (if P c then [] # split_on P cs
      else (case split_on P cs of [] \<Rightarrow> [[c]] | p # ps \<Rightarrow> (c # p) # ps))"

text \<open>\<^verbatim>\<open>parts.join(sep)\<close> for a one-character separator.\<close>

fun join_with :: "'a \<Rightarrow> 'a list list \<Rightarrow> 'a list" where
  "join_with sep [] = []"
| "join_with sep [x] = x"
| "join_with sep (x # y # ys) = x @ sep # join_with sep (y # ys)"

fun starts_with :: "'a list \<Rightarrow> 'a list \<Rightarrow> bool" where
  "starts_with xs [] = True"
| "starts_with [] (y # ys) = False"
| "starts_with (x # xs) (y # ys) = (x = y \<and> starts_with xs ys)"

definition ends_with :: "'a list \<Rightarrow> 'a list \<Rightarrow> bool" where
  "ends_with xs ys = starts_with (rev xs) (rev ys)"

lemma split_on_not_Nil [simp]: "split_on P cs \<noteq> []"
  by (induction cs) (auto split: list.splits)

lemma split_on_no_sep: "p \<in> set (split_on P cs) \<Longrightarrow> c \<in> set p \<Longrightarrow> \<not> P c"
proof (induction cs arbitrary: p)
  case (Cons a cs)
  then show ?case by (cases "split_on P cs") (fastforce split: if_splits)+
qed auto

lemma split_on_clean: "(\<forall>c \<in> set cs. \<not> P c) \<Longrightarrow> split_on P cs = [cs]"
  by (induction cs) auto

lemma split_on_append_sep:
  "(\<forall>c \<in> set cs. \<not> P c) \<Longrightarrow> P s \<Longrightarrow> split_on P (cs @ s # ds) = cs # split_on P ds"
  by (induction cs) (auto split: list.splits)

lemma split_on_join:
  assumes "ps \<noteq> []" and "\<forall>p \<in> set ps. \<forall>c \<in> set p. \<not> P c" and "P sep"
  shows "split_on P (join_with sep ps) = ps"
  using assms
proof (induction sep ps rule: join_with.induct)
  case (2 sep x)
  then show ?case by (simp add: split_on_clean)
next
  case (3 sep x y ys)
  then show ?case by (simp add: split_on_append_sep)
qed simp

lemma starts_with_append [simp]: "starts_with (xs @ ys) xs"
  by (induction xs) auto

lemma starts_with_iff: "starts_with xs ys \<longleftrightarrow> (\<exists>zs. xs = ys @ zs)"
  by (induction xs ys rule: starts_with.induct) auto

section \<open>Maps\<close>

text \<open>\<^verbatim>\<open>map.get(a).or_else(|| map.get(b))\<close>.\<close>

definition or_else :: "'a option \<Rightarrow> 'a option \<Rightarrow> 'a option" where
  "or_else a b = (case a of Some x \<Rightarrow> Some x | None \<Rightarrow> b)"

lemma or_else_Some [simp]: "or_else (Some x) b = Some x"
  and or_else_None [simp]: "or_else None b = b"
  by (simp_all add: or_else_def)

lemma or_else_eq_None [simp]: "or_else a b = None \<longleftrightarrow> a = None \<and> b = None"
  by (simp add: or_else_def split: option.splits)

fun first_some :: "'a option list \<Rightarrow> 'a option" where
  "first_some [] = None"
| "first_some (x # xs) = or_else x (first_some xs)"

lemma or_else_assoc: "or_else (or_else a b) c = or_else a (or_else b c)"
  by (cases a) simp_all

lemma or_else_eq_Some: "or_else a b = Some x \<longleftrightarrow> a = Some x \<or> a = None \<and> b = Some x"
  by (cases a) auto

lemma map_option_or_else: "map_option f (or_else a b) = or_else (map_option f a) (map_option f b)"
  by (cases a) simp_all

lemma first_some_None_iff: "first_some xs = None \<longleftrightarrow> (\<forall>x \<in> set xs. x = None)"
  by (induction xs) auto

lemma first_some_SomeD: "first_some xs = Some y \<Longrightarrow> Some y \<in> set xs"
  by (induction xs) (auto simp: or_else_eq_Some)

lemma map_option_first_some: "map_option f (first_some xs) = first_some (map (map_option f) xs)"
  by (induction xs) (simp_all add: map_option_or_else)

section \<open>Machine words\<close>

lemma unat_of_nat_u64 [simp]: "n < 18446744073709551616 \<Longrightarrow> unat (of_nat n :: u64) = n"
  by (simp add: unsigned_of_nat take_bit_eq_mod)

lemma unat_u64_less [simp]: "unat (w :: u64) < 18446744073709551616"
  using unsigned_less [of w] by simp

end
