(* ===== verification/Doubles.thy ===== *)
theory Doubles
  imports Prelude
begin

text \<open>
  The IEEE 754 binary64 numbers of Rust's \<^verbatim>\<open>f64\<close>, as far as the sources use them. A double
  is its bit pattern (\<^verbatim>\<open>f64::to_bits\<close>), because the runtime packs values into those bits.
  Arithmetic is exact on a signed ratio of naturals and then rounded once, to nearest and
  ties to even. The bits of a NaN that an operation produces are left open by Rust (they
  differ between processors), so every operation that can produce one takes them as the
  argument \<open>qn\<close>. Decimal text goes both ways: \<open>f64_parse\<close> is \<^verbatim>\<open>str::parse::<f64>\<close> on the
  lexemes the lexer builds, \<open>f64_display\<close> is the \<^verbatim>\<open>Display\<close> of \<^verbatim>\<open>f64\<close> (the shortest digits that
  read back as the same number, never in exponent form).
\<close>

type_synonym f64 = u64

section \<open>Fields of a double\<close>

definition f64_neg_bit :: "f64 \<Rightarrow> bool" where
  "f64_neg_bit b \<longleftrightarrow> 9223372036854775808 \<le> unat b"

definition f64_mag :: "f64 \<Rightarrow> nat" where
  "f64_mag b = unat b mod 9223372036854775808"

definition f64_biased :: "f64 \<Rightarrow> nat" where
  "f64_biased b = f64_mag b div 4503599627370496"

definition f64_frac :: "f64 \<Rightarrow> nat" where
  "f64_frac b = f64_mag b mod 4503599627370496"

definition f64_inf_mag :: nat where
  "f64_inf_mag = 9218868437227405312"

definition f64_is_nan :: "f64 \<Rightarrow> bool" where
  "f64_is_nan b \<longleftrightarrow> f64_inf_mag < f64_mag b"

definition f64_is_inf :: "f64 \<Rightarrow> bool" where
  "f64_is_inf b \<longleftrightarrow> f64_mag b = f64_inf_mag"

definition f64_is_zero :: "f64 \<Rightarrow> bool" where
  "f64_is_zero b \<longleftrightarrow> f64_mag b = 0"

definition f64_make :: "bool \<Rightarrow> nat \<Rightarrow> f64" where
  "f64_make neg m = of_nat ((if neg then 9223372036854775808 else 0) + m)"

text \<open>A finite double is (-1)^sign * significand * 2^exponent.\<close>

definition f64_signif :: "f64 \<Rightarrow> nat" where
  "f64_signif b = (if f64_biased b = 0 then f64_frac b else 4503599627370496 + f64_frac b)"

definition f64_expo :: "f64 \<Rightarrow> int" where
  "f64_expo b = int (max 1 (f64_biased b)) - 1075"

text \<open>The absolute value as a ratio of naturals.\<close>

definition f64_num :: "f64 \<Rightarrow> nat" where
  "f64_num b = (if 0 \<le> f64_expo b then f64_signif b * 2 ^ nat (f64_expo b) else f64_signif b)"

definition f64_den :: "f64 \<Rightarrow> nat" where
  "f64_den b = (if 0 \<le> f64_expo b then 1 else 2 ^ nat (- f64_expo b))"

section \<open>Rounding a ratio to the nearest double\<close>

fun bitlen :: "nat \<Rightarrow> nat" where
  "bitlen n = (if n = 0 then 0 else Suc (bitlen (n div 2)))"

declare bitlen.simps [simp del]

definition f64_round :: "bool \<Rightarrow> nat \<Rightarrow> nat \<Rightarrow> f64" where
  "f64_round neg n d =
     (if n = 0 then f64_make neg 0
      else let e0 = int (bitlen n) - int (bitlen d);
               below = (if 0 \<le> e0 then n < d * 2 ^ nat e0 else n * 2 ^ nat (- e0) < d);
               e = max (-1022) (if below then e0 - 1 else e0);
               q = e - 52;
               num = (if 0 \<le> q then n else n * 2 ^ nat (- q));
               den = (if 0 \<le> q then d * 2 ^ nat q else d);
               m = num div den;
               r = num mod den;
               m' = (if den < 2 * r \<or> (2 * r = den \<and> odd m) then m + 1 else m);
               mag = nat (e + 1022) * 4503599627370496 + m'
           in f64_make neg (min mag f64_inf_mag))"

definition f64_of_nat :: "nat \<Rightarrow> f64" where
  "f64_of_nat n = f64_round False n 1"

definition f64_of_int :: "int \<Rightarrow> f64" where
  "f64_of_int i = f64_round (i < 0) (nat \<bar>i\<bar>) 1"

section \<open>Comparison and sign\<close>

definition f64_key :: "f64 \<Rightarrow> int" where
  "f64_key b = (if f64_neg_bit b then - int (f64_mag b) else int (f64_mag b))"

definition f64_eq :: "f64 \<Rightarrow> f64 \<Rightarrow> bool" where
  "f64_eq a b \<longleftrightarrow> \<not> f64_is_nan a \<and> \<not> f64_is_nan b \<and> f64_key a = f64_key b"

definition f64_lt :: "f64 \<Rightarrow> f64 \<Rightarrow> bool" where
  "f64_lt a b \<longleftrightarrow> \<not> f64_is_nan a \<and> \<not> f64_is_nan b \<and> f64_key a < f64_key b"

definition f64_le :: "f64 \<Rightarrow> f64 \<Rightarrow> bool" where
  "f64_le a b \<longleftrightarrow> f64_lt a b \<or> f64_eq a b"

definition f64_neg :: "f64 \<Rightarrow> f64" where
  "f64_neg b = b + 9223372036854775808"

section \<open>Arithmetic\<close>

definition f64_signed :: "f64 \<Rightarrow> int \<Rightarrow> int" where
  "f64_signed a x = (if f64_neg_bit a then - x else x)"

definition f64_add :: "f64 \<Rightarrow> f64 \<Rightarrow> f64 \<Rightarrow> f64" where
  "f64_add qn a b =
     (if f64_is_nan a \<or> f64_is_nan b then qn
      else if f64_is_inf a then
        (if f64_is_inf b \<and> f64_neg_bit a \<noteq> f64_neg_bit b then qn else a)
      else if f64_is_inf b then b
      else let s = f64_signed a (int (f64_num a * f64_den b))
                   + f64_signed b (int (f64_num b * f64_den a))
           in if s = 0 then f64_make (f64_neg_bit a \<and> f64_neg_bit b) 0
              else f64_round (s < 0) (nat \<bar>s\<bar>) (f64_den a * f64_den b))"

definition f64_sub :: "f64 \<Rightarrow> f64 \<Rightarrow> f64 \<Rightarrow> f64" where
  "f64_sub qn a b = f64_add qn a (if f64_is_nan b then b else f64_neg b)"

definition f64_mul :: "f64 \<Rightarrow> f64 \<Rightarrow> f64 \<Rightarrow> f64" where
  "f64_mul qn a b =
     (let neg = (f64_neg_bit a \<noteq> f64_neg_bit b)
      in if f64_is_nan a \<or> f64_is_nan b then qn
         else if f64_is_inf a \<or> f64_is_inf b then
           (if f64_is_zero a \<or> f64_is_zero b then qn else f64_make neg f64_inf_mag)
         else f64_round neg (f64_num a * f64_num b) (f64_den a * f64_den b))"

definition f64_div :: "f64 \<Rightarrow> f64 \<Rightarrow> f64 \<Rightarrow> f64" where
  "f64_div qn a b =
     (let neg = (f64_neg_bit a \<noteq> f64_neg_bit b)
      in if f64_is_nan a \<or> f64_is_nan b then qn
         else if f64_is_inf a then (if f64_is_inf b then qn else f64_make neg f64_inf_mag)
         else if f64_is_inf b then f64_make neg 0
         else if f64_is_zero b then
           (if f64_is_zero a then qn else f64_make neg f64_inf_mag)
         else f64_round neg (f64_num a * f64_den b) (f64_den a * f64_num b))"

text \<open>Rust's \<^verbatim>\<open>%\<close> on doubles is \<^verbatim>\<open>fmod\<close>: the sign of the dividend, an exact result.\<close>

definition f64_rem :: "f64 \<Rightarrow> f64 \<Rightarrow> f64 \<Rightarrow> f64" where
  "f64_rem qn a b =
     (if f64_is_nan a \<or> f64_is_nan b \<or> f64_is_inf a \<or> f64_is_zero b then qn
      else if f64_is_inf b then a
      else f64_round (f64_neg_bit a)
             ((f64_num a * f64_den b) mod (f64_num b * f64_den a)) (f64_den a * f64_den b))"

section \<open>Conversions to integers\<close>

text \<open>Truncation towards zero, saturating at the bounds; a NaN becomes 0.\<close>

definition f64_trunc_mag :: "f64 \<Rightarrow> nat" where
  "f64_trunc_mag b = f64_num b div f64_den b"

definition f64_to_int_sat :: "int \<Rightarrow> int \<Rightarrow> f64 \<Rightarrow> int" where
  "f64_to_int_sat lo hi b =
     (if f64_is_nan b then 0
      else if f64_is_inf b then (if f64_neg_bit b then lo else hi)
      else max lo (min hi (f64_signed b (int (f64_trunc_mag b)))))"

definition f64_to_u64 :: "f64 \<Rightarrow> u64" where
  "f64_to_u64 b = word_of_int (f64_to_int_sat 0 18446744073709551615 b)"

definition f64_to_i64 :: "f64 \<Rightarrow> u64" where
  "f64_to_i64 b = word_of_int (f64_to_int_sat (-9223372036854775808) 9223372036854775807 b)"

definition f64_to_u32 :: "f64 \<Rightarrow> u32" where
  "f64_to_u32 b = word_of_int (f64_to_int_sat 0 4294967295 b)"

text \<open>\<^verbatim>\<open>val == val.trunc()\<close>.\<close>

definition f64_is_integral :: "f64 \<Rightarrow> bool" where
  "f64_is_integral b \<longleftrightarrow>
     f64_is_inf b \<or> (\<not> f64_is_nan b \<and> f64_num b mod f64_den b = 0)"

section \<open>Decimal text\<close>

definition digit_char :: "nat \<Rightarrow> char" where
  "digit_char d = char_of (48 + d)"

definition char_digit :: "char \<Rightarrow> nat" where
  "char_digit c = of_char c - 48"

definition is_digit :: "char \<Rightarrow> bool" where
  "is_digit c \<longleftrightarrow> 48 \<le> (of_char c :: nat) \<and> (of_char c :: nat) \<le> 57"

fun nat_of_digits :: "nat \<Rightarrow> string \<Rightarrow> nat" where
  "nat_of_digits acc [] = acc"
| "nat_of_digits acc (c # cs) = nat_of_digits (10 * acc + char_digit c) cs"

fun digits_of_nat :: "nat \<Rightarrow> string" where
  "digits_of_nat n = (if n < 10 then [digit_char n] else digits_of_nat (n div 10) @ [digit_char (n mod 10)])"

declare digits_of_nat.simps [simp del]

text \<open>
  \<^verbatim>\<open>str::parse::<f64>\<close> on text made of decimal digits and dots that starts with a digit,
  the only text the lexer hands it: at most one dot, rounded once; otherwise an error.
\<close>

definition f64_parse :: "string \<Rightarrow> f64 option" where
  "f64_parse s =
     (case split_on (\<lambda>c. c = CHR ''.'') s of
        [ip] \<Rightarrow> Some (f64_round False (nat_of_digits 0 ip) 1)
      | [ip, fp] \<Rightarrow> Some (f64_round False (nat_of_digits 0 (ip @ fp)) (10 ^ length fp))
      | _ \<Rightarrow> None)"

text \<open>The decimal exponent of a positive ratio: 10^(p-1) \<le> n/d < 10^p.\<close>

fun dec_expo :: "nat \<Rightarrow> nat \<Rightarrow> nat \<Rightarrow> int" where
  "dec_expo 0 n d = 0"
| "dec_expo (Suc fuel) n d = (if d \<le> n then int (length (digits_of_nat (n div d)))
                              else dec_expo fuel (10 * n) d - 1)"

text \<open>One candidate length of the shortest-digits search: the two decimals with k digits
  around the value, kept when they read back as the same bits; the nearer one, ties upwards.\<close>

definition short_at :: "nat \<Rightarrow> int \<Rightarrow> nat \<Rightarrow> nat option" where
  "short_at mag p k =
     (let b = f64_make False mag;
          sc = int k - p;
          num = f64_num b * (if 0 \<le> sc then 10 ^ nat sc else 1);
          den = f64_den b * (if 0 \<le> sc then 1 else 10 ^ nat (- sc));
          back = (\<lambda>c. f64_round False (if 0 \<le> sc then c else c * 10 ^ nat (- sc))
                                       (if 0 \<le> sc then 10 ^ nat sc else 1) = b);
          lo = num div den;
          r = num mod den
      in if r = 0 \<and> back lo then Some lo
         else if back (lo + 1) \<and> (\<not> back lo \<or> den \<le> 2 * r) then Some (lo + 1)
         else if back lo then Some lo else None)"

fun shortest :: "nat \<Rightarrow> int \<Rightarrow> nat \<Rightarrow> nat \<Rightarrow> nat \<times> nat" where
  "shortest mag p k 0 = (0, k)"
| "shortest mag p k (Suc fuel) =
     (case short_at mag p k of Some c \<Rightarrow> (c, k) | None \<Rightarrow> shortest mag p (Suc k) fuel)"

definition place_point :: "string \<Rightarrow> int \<Rightarrow> string" where
  "place_point ds p =
     (if p \<le> 0 then ''0.'' @ replicate (nat (- p)) (CHR ''0'') @ ds
      else if nat p < length ds then take (nat p) ds @ ''.'' @ drop (nat p) ds
      else ds @ replicate (nat p - length ds) (CHR ''0''))"

definition f64_display :: "f64 \<Rightarrow> string" where
  "f64_display b =
     (let sgn = (if f64_neg_bit b then ''-'' else '''')
      in if f64_is_nan b then ''NaN''
         else if f64_is_inf b then sgn @ ''inf''
         else if f64_is_zero b then sgn @ ''0''
         else let mag = f64_mag b;
                  p = dec_expo 400 (f64_num b) (f64_den b);
                  (c, k) = shortest mag p 1 17;
                  ds = digits_of_nat c
              in sgn @ place_point ds (p + int (length ds) - int k))"

section \<open>Decimal digits\<close>

lemma digit_char_0: "digit_char 0 = CHR ''0''"
  by code_simp

lemma char_digit_char: "d < 10 \<Longrightarrow> char_digit (digit_char d) = d"
  by (simp add: char_digit_def digit_char_def)

lemma nat_of_digits_append: "nat_of_digits acc (xs @ ys) = nat_of_digits (nat_of_digits acc xs) ys"
  by (induction xs arbitrary: acc) auto

lemma nat_of_digits_of_nat: "nat_of_digits 0 (digits_of_nat n) = n"
proof (induction n rule: digits_of_nat.induct)
  case (1 n)
  then show ?case
    by (subst digits_of_nat.simps) (auto simp: nat_of_digits_append char_digit_char)
qed

lemma digits_of_nat_not_Nil [simp]: "digits_of_nat n \<noteq> []"
  by (subst digits_of_nat.simps) auto

lemma length_digits_of_nat: "n < 10 ^ k \<Longrightarrow> 0 < k \<Longrightarrow> length (digits_of_nat n) \<le> k"
proof (induction n arbitrary: k rule: digits_of_nat.induct)
  case (1 n)
  show ?case
  proof (cases "n < 10")
    case True
    with 1 show ?thesis by (subst digits_of_nat.simps) auto
  next
    case False
    obtain j where k: "k = Suc j" using 1(3) by (cases k) auto
    then have "0 < j" using 1(2) False by (cases j) auto
    note k = k this
    with 1 have "n div 10 < 10 ^ j" by auto
    with 1(1) [OF False this] k have "length (digits_of_nat (n div 10)) \<le> j" by simp
    with False k show ?thesis by (subst digits_of_nat.simps) auto
  qed
qed

end
