(* ===== verification/Values.thy ===== *)
theory Values
  imports Doubles
begin

text \<open>
  The tagged 64-bit word of \<^verbatim>\<open>crates/eronom-core/src/value.rs\<close>: a \<^verbatim>\<open>Value\<close> is either the bits
  of a double below \<open>TAG_NUMBER_MASK\<close>, an inline string of at most six bytes, or a 16-bit tag
  over a 48-bit payload. Constructors, predicates, equality and the map-key equality and hash
  are translated one by one. Reading the text of a heap string needs the heap, which enters
  as \<open>rd\<close>: \<open>rd p = Some s\<close> when the object at \<open>p\<close> is \<^verbatim>\<open>GcData::String\<close> with text \<open>s\<close>, and
  \<open>None\<close> when it is another kind of object. Inline strings are read little-endian, as the
  source's cast of \<^verbatim>\<open>&self\<close> to a byte pointer does on the supported targets.
\<close>

unbundle bit_operations_syntax

datatype er_value = Value (vbits: u64)

section \<open>Tags\<close>

definition TAG_NUMBER_MASK :: u64 where [vm_simps]: "TAG_NUMBER_MASK = 0xffe8000000000000"
definition TAG_INLINE_STR_BASE :: u64 where [vm_simps]: "TAG_INLINE_STR_BASE = 0xffe8000000000000"
definition TAG_INLINE_STR_MAX :: u64 where [vm_simps]: "TAG_INLINE_STR_MAX = 0xffefffffffffffff"
definition TAG_METHOD_FILE :: u64 where [vm_simps]: "TAG_METHOD_FILE = 0xfff0000000000000"
definition TAG_NULL :: u64 where [vm_simps]: "TAG_NULL = 0xfff1000000000000"
definition TAG_FALSE :: u64 where [vm_simps]: "TAG_FALSE = 0xfff2000000000000"
definition TAG_TRUE :: u64 where [vm_simps]: "TAG_TRUE = 0xfff3000000000000"
definition TAG_STRING :: u64 where [vm_simps]: "TAG_STRING = 0xfff4000000000000"
definition TAG_ARRAY :: u64 where [vm_simps]: "TAG_ARRAY = 0xfff5000000000000"
definition TAG_OBJECT :: u64 where [vm_simps]: "TAG_OBJECT = 0xfff6000000000000"
definition TAG_FUNCTION :: u64 where [vm_simps]: "TAG_FUNCTION = 0xfff7000000000000"
definition TAG_NATIVE :: u64 where [vm_simps]: "TAG_NATIVE = 0xfff8000000000000"
definition TAG_METHOD_PUSH :: u64 where [vm_simps]: "TAG_METHOD_PUSH = 0xfff9000000000000"
definition TAG_METHOD_POP :: u64 where [vm_simps]: "TAG_METHOD_POP = 0xfffa000000000000"
definition TAG_METHOD_JSON :: u64 where [vm_simps]: "TAG_METHOD_JSON = 0xfffb000000000000"
definition TAG_METHOD_TEXT :: u64 where [vm_simps]: "TAG_METHOD_TEXT = 0xfffc000000000000"
definition TAG_METHOD_SEND_JSON :: u64 where [vm_simps]: "TAG_METHOD_SEND_JSON = 0xfffd000000000000"
definition TAG_PROMISE :: u64 where [vm_simps]: "TAG_PROMISE = 0xfffe000000000000"
definition TAG_METHOD_RESOLVE :: u64 where [vm_simps]: "TAG_METHOD_RESOLVE = 0xffff000000000000"
definition PTR_MASK :: u64 where [vm_simps]: "PTR_MASK = 0x0000ffffffffffff"

definition TAG_FIELD :: u64 where [vm_simps]: "TAG_FIELD = 0xffff000000000000"

text \<open>\<open>self.0 & 0xffff_0000_0000_0000\<close>, and the payload \<open>self.0 & PTR_MASK\<close>.\<close>

definition val_tag :: "er_value \<Rightarrow> u64" where
  "val_tag v = vbits v AND TAG_FIELD"

definition as_gc_ptr :: "er_value \<Rightarrow> u64" where
  "as_gc_ptr v = vbits v AND PTR_MASK"

section \<open>Constructors\<close>

definition val_null :: "er_value" where
  "val_null = Value TAG_NULL"

definition val_boolean :: "bool \<Rightarrow> er_value" where
  "val_boolean b = Value (TAG_FALSE + of_bool b * 0x0001000000000000)"

definition is_truthy :: "er_value \<Rightarrow> bool" where
  "is_truthy v \<longleftrightarrow> vbits v \<noteq> TAG_FALSE \<and> vbits v \<noteq> TAG_NULL"

definition val_number :: "f64 \<Rightarrow> er_value" where
  "val_number n = (if TAG_NUMBER_MASK \<le> n then Value 0x7ff8000000000000 else Value n)"

definition number_unchecked :: "f64 \<Rightarrow> er_value" where
  "number_unchecked n = Value n"

definition tagged :: "u64 \<Rightarrow> u64 \<Rightarrow> er_value" where
  "tagged tag p = Value (tag OR (p AND PTR_MASK))"

definition val_string :: "u64 \<Rightarrow> er_value" where "val_string p = tagged TAG_STRING p"
definition val_array :: "u64 \<Rightarrow> er_value" where "val_array p = tagged TAG_ARRAY p"
definition val_object :: "u64 \<Rightarrow> er_value" where "val_object p = tagged TAG_OBJECT p"
definition val_function :: "u64 \<Rightarrow> er_value" where "val_function p = tagged TAG_FUNCTION p"
definition val_promise :: "u64 \<Rightarrow> er_value" where "val_promise p = tagged TAG_PROMISE p"
definition val_native_function :: "u64 \<Rightarrow> er_value" where "val_native_function p = tagged TAG_NATIVE p"
definition array_method_push :: "u64 \<Rightarrow> er_value" where "array_method_push p = tagged TAG_METHOD_PUSH p"
definition array_method_pop :: "u64 \<Rightarrow> er_value" where "array_method_pop p = tagged TAG_METHOD_POP p"

text \<open>The byte loop of \<^verbatim>\<open>inline_string\<close>: byte \<open>i\<close> goes to bits \<open>8 * i\<close> and up.\<close>

fun pack_bytes :: "u64 \<Rightarrow> nat \<Rightarrow> u8 list \<Rightarrow> u64" where
  "pack_bytes bits i [] = bits"
| "pack_bytes bits i (b # bs) = pack_bytes (bits OR push_bit (i * 8) (ucast b)) (Suc i) bs"

definition inline_string :: "u8 list \<Rightarrow> er_value option" where
  "inline_string s =
     (if length s \<le> 6
      then Some (Value (pack_bytes (TAG_INLINE_STR_BASE OR push_bit 48 (of_nat (length s))) 0 s))
      else None)"

section \<open>Predicates\<close>

definition is_number :: "er_value \<Rightarrow> bool" where "is_number v \<longleftrightarrow> vbits v < TAG_NUMBER_MASK"
definition as_number :: "er_value \<Rightarrow> f64" where "as_number v = vbits v"
definition is_null :: "er_value \<Rightarrow> bool" where "is_null v \<longleftrightarrow> vbits v = TAG_NULL"
definition is_boolean :: "er_value \<Rightarrow> bool" where
  "is_boolean v \<longleftrightarrow> val_tag v = TAG_FALSE \<or> val_tag v = TAG_TRUE"
definition as_boolean :: "er_value \<Rightarrow> bool" where "as_boolean v \<longleftrightarrow> vbits v = TAG_TRUE"
definition is_inline_string :: "er_value \<Rightarrow> bool" where
  "is_inline_string v \<longleftrightarrow> TAG_INLINE_STR_BASE \<le> vbits v \<and> vbits v \<le> TAG_INLINE_STR_MAX"
definition is_string :: "er_value \<Rightarrow> bool" where
  "is_string v \<longleftrightarrow> is_inline_string v \<or> val_tag v = TAG_STRING"
definition is_array :: "er_value \<Rightarrow> bool" where "is_array v \<longleftrightarrow> val_tag v = TAG_ARRAY"
definition is_object :: "er_value \<Rightarrow> bool" where "is_object v \<longleftrightarrow> val_tag v = TAG_OBJECT"
definition is_function :: "er_value \<Rightarrow> bool" where "is_function v \<longleftrightarrow> val_tag v = TAG_FUNCTION"
definition is_native_function :: "er_value \<Rightarrow> bool" where
  "is_native_function v \<longleftrightarrow> val_tag v = TAG_NATIVE"
definition is_array_method_push :: "er_value \<Rightarrow> bool" where
  "is_array_method_push v \<longleftrightarrow> val_tag v = TAG_METHOD_PUSH"
definition is_array_method_pop :: "er_value \<Rightarrow> bool" where
  "is_array_method_pop v \<longleftrightarrow> val_tag v = TAG_METHOD_POP"
definition is_method_json :: "er_value \<Rightarrow> bool" where
  "is_method_json v \<longleftrightarrow> val_tag v = TAG_METHOD_JSON"
definition is_method_text :: "er_value \<Rightarrow> bool" where
  "is_method_text v \<longleftrightarrow> val_tag v = TAG_METHOD_TEXT"
definition is_method_send_json :: "er_value \<Rightarrow> bool" where
  "is_method_send_json v \<longleftrightarrow> val_tag v = TAG_METHOD_SEND_JSON"
definition is_method_resolve :: "er_value \<Rightarrow> bool" where
  "is_method_resolve v \<longleftrightarrow> val_tag v = TAG_METHOD_RESOLVE"
definition is_method_file :: "er_value \<Rightarrow> bool" where
  "is_method_file v \<longleftrightarrow> val_tag v = TAG_METHOD_FILE"
definition is_promise :: "er_value \<Rightarrow> bool" where "is_promise v \<longleftrightarrow> val_tag v = TAG_PROMISE"

lemmas val_pred_defs =
  is_number_def is_null_def is_boolean_def is_inline_string_def is_string_def is_array_def
  is_object_def is_function_def is_native_function_def is_array_method_push_def
  is_array_method_pop_def is_method_json_def is_method_text_def is_method_send_json_def
  is_method_resolve_def is_method_file_def is_promise_def

section \<open>Reading text\<close>

text \<open>\<^verbatim>\<open>std::str::from_utf8\<close> accepts exactly these byte sequences.\<close>

definition cont_byte :: "u8 \<Rightarrow> bool" where
  "cont_byte b \<longleftrightarrow> 128 \<le> b \<and> b \<le> 191"

fun utf8_valid :: "u8 list \<Rightarrow> bool" where
  "utf8_valid [] = True"
| "utf8_valid (a # bs) =
     (if a < 128 then utf8_valid bs
      else (case bs of
        [] \<Rightarrow> False
      | b # cs \<Rightarrow>
          if 194 \<le> a \<and> a \<le> 223 then cont_byte b \<and> utf8_valid cs
          else (case cs of
            [] \<Rightarrow> False
          | c # ds \<Rightarrow>
              if 224 \<le> a \<and> a \<le> 239 then
                cont_byte b \<and> cont_byte c \<and> (a = 224 \<longrightarrow> 160 \<le> b) \<and> (a = 237 \<longrightarrow> b \<le> 159)
                \<and> utf8_valid ds
              else (case ds of
                [] \<Rightarrow> False
              | d # es \<Rightarrow>
                  240 \<le> a \<and> a \<le> 244 \<and> cont_byte b \<and> cont_byte c \<and> cont_byte d
                  \<and> (a = 240 \<longrightarrow> 144 \<le> b) \<and> (a = 244 \<longrightarrow> b \<le> 143) \<and> utf8_valid es))))"

definition inline_bytes :: "er_value \<Rightarrow> nat \<Rightarrow> u8 list" where
  "inline_bytes v len = map (\<lambda>i. ucast (drop_bit (8 * i) (vbits v))) [0..<len]"

definition as_str :: "(u64 \<Rightarrow> u8 list option) \<Rightarrow> er_value \<Rightarrow> u8 list option" where
  "as_str rd v =
     (if is_inline_string v then
        (let len = unat (drop_bit 48 (vbits v) AND 7)
         in if len \<le> 6 then
              (let s = inline_bytes v len in if utf8_valid s then Some s else None)
            else None)
      else if val_tag v = TAG_STRING then rd (as_gc_ptr v)
      else None)"

text \<open>\<open>as_str().unwrap_or("")\<close>.\<close>

definition str_or_empty :: "(u64 \<Rightarrow> u8 list option) \<Rightarrow> er_value \<Rightarrow> u8 list" where
  "str_or_empty rd v = (case as_str rd v of Some s \<Rightarrow> s | None \<Rightarrow> [])"

section \<open>Equality of values and of map keys\<close>

definition value_eq :: "(u64 \<Rightarrow> u8 list option) \<Rightarrow> er_value \<Rightarrow> er_value \<Rightarrow> bool" where
  "value_eq rd a b =
     (if vbits a = vbits b then True
      else if is_number a \<and> is_number b then f64_eq (as_number a) (as_number b)
      else if is_string a \<and> is_string b then
        (if is_inline_string a \<and> is_inline_string b then False
         else str_or_empty rd a = str_or_empty rd b)
      else False)"

definition mapkey_eq :: "(u64 \<Rightarrow> u8 list option) \<Rightarrow> er_value \<Rightarrow> er_value \<Rightarrow> bool" where
  "mapkey_eq rd a b =
     (if vbits a = vbits b then True
      else if is_string a \<and> is_string b then str_or_empty rd a = str_or_empty rd b
      else False)"

text \<open>What the \<^verbatim>\<open>Hash\<close> of a \<^verbatim>\<open>MapKey\<close> feeds to the hasher: a string's text, or the bits.\<close>

datatype hash_input = HashStr "u8 list" | HashBits u64

definition mapkey_hash :: "(u64 \<Rightarrow> u8 list option) \<Rightarrow> er_value \<Rightarrow> hash_input" where
  "mapkey_hash rd v =
     (if is_string v then
        (case as_str rd v of Some s \<Rightarrow> HashStr s | None \<Rightarrow> HashBits (vbits v))
      else HashBits (vbits v))"

section \<open>Writing a positive integer\<close>

text \<open>
  \<^verbatim>\<open>push_positive_integer\<close> fills a 20-byte buffer from the end. \<open>None\<close> stands for the panic
  of \<open>idx -= 1\<close> at 0.
\<close>

fun digits_loop :: "nat \<Rightarrow> nat \<Rightarrow> string \<Rightarrow> (nat \<times> string) option" where
  "digits_loop n idx buf =
     (if n = 0 then Some (idx, buf)
      else if idx = 0 then None
      else digits_loop (n div 10) (idx - 1) (buf[idx - 1 := digit_char (n mod 10)]))"

declare digits_loop.simps [simp del]

definition push_positive_integer :: "string \<Rightarrow> u64 \<Rightarrow> string option" where
  "push_positive_integer s n =
     (if n = 0 then Some (s @ ''0'')
      else (case digits_loop (unat n) 20 (replicate 20 (char_of (0 :: nat))) of
              None \<Rightarrow> None
            | Some (idx, buf) \<Rightarrow> Some (s @ drop idx buf)))"

section \<open>The tag field and the kinds of a value\<close>

text \<open>The top sixteen bits decide the kind.\<close>

definition hi16 :: "er_value \<Rightarrow> nat" where
  "hi16 v = unat (vbits v) div 281474976710656"

lemma tag_field_bits: "TAG_FIELD = push_bit 48 (mask 16)"
  by (simp add: TAG_FIELD_def mask_eq_decr_exp)

lemma val_tag_push: "val_tag v = push_bit 48 (drop_bit 48 (vbits v))"
  unfolding val_tag_def tag_field_bits
  by (rule bit_word_eqI) (auto simp: bit_simps)

lemma unat_val_tag: "unat (val_tag v) = hi16 v * 281474976710656"
proof -
  have "unat (drop_bit 48 (vbits v)) = hi16 v"
    by (simp only: unsigned_drop_bit_eq) (simp add: take_bit_eq_mod drop_bit_eq_div hi16_def)
  moreover have "hi16 v * 281474976710656 < 18446744073709551616"
    unfolding hi16_def by (rule le_less_trans [OF div_times_less_eq_dividend unat_u64_less])
  ultimately show ?thesis
    by (simp only: val_tag_push unsigned_push_bit_eq) (simp add: take_bit_eq_mod push_bit_eq_mult)
qed

lemma val_tag_eq_iff: "val_tag v = t \<longleftrightarrow> hi16 v * 281474976710656 = unat t"
  by (metis unat_val_tag word_unat_eq_iff)

lemma hi16_less: "hi16 v < 65536"
  unfolding hi16_def by (rule less_mult_imp_div_less) simp

lemma hi16_tag:
  "val_tag v = TAG_METHOD_FILE \<longleftrightarrow> hi16 v = 0xfff0"
  "val_tag v = TAG_FALSE \<longleftrightarrow> hi16 v = 0xfff2"
  "val_tag v = TAG_TRUE \<longleftrightarrow> hi16 v = 0xfff3"
  "val_tag v = TAG_STRING \<longleftrightarrow> hi16 v = 0xfff4"
  "val_tag v = TAG_ARRAY \<longleftrightarrow> hi16 v = 0xfff5"
  "val_tag v = TAG_OBJECT \<longleftrightarrow> hi16 v = 0xfff6"
  "val_tag v = TAG_FUNCTION \<longleftrightarrow> hi16 v = 0xfff7"
  "val_tag v = TAG_NATIVE \<longleftrightarrow> hi16 v = 0xfff8"
  "val_tag v = TAG_METHOD_PUSH \<longleftrightarrow> hi16 v = 0xfff9"
  "val_tag v = TAG_METHOD_POP \<longleftrightarrow> hi16 v = 0xfffa"
  "val_tag v = TAG_METHOD_JSON \<longleftrightarrow> hi16 v = 0xfffb"
  "val_tag v = TAG_METHOD_TEXT \<longleftrightarrow> hi16 v = 0xfffc"
  "val_tag v = TAG_METHOD_SEND_JSON \<longleftrightarrow> hi16 v = 0xfffd"
  "val_tag v = TAG_PROMISE \<longleftrightarrow> hi16 v = 0xfffe"
  "val_tag v = TAG_METHOD_RESOLVE \<longleftrightarrow> hi16 v = 0xffff"
  by (auto simp: val_tag_eq_iff vm_simps)

lemma is_number_hi16: "is_number v \<longleftrightarrow> hi16 v < 0xffe8"
  unfolding is_number_def word_less_nat_alt TAG_NUMBER_MASK_def hi16_def
  by (auto simp: div_less_iff_less_mult)

lemma is_inline_hi16: "is_inline_string v \<longleftrightarrow> 0xffe8 \<le> hi16 v \<and> hi16 v \<le> 0xffef"
  unfolding is_inline_string_def word_le_nat_alt TAG_INLINE_STR_BASE_def TAG_INLINE_STR_MAX_def hi16_def
  by auto 

lemma is_null_hi16: "is_null v \<Longrightarrow> hi16 v = 0xfff1"
  by (simp add: is_null_def TAG_NULL_def hi16_def)

lemmas kind_hi16 =
  is_number_hi16 is_inline_hi16 is_boolean_def is_string_def is_array_def is_object_def
  is_function_def is_native_function_def is_array_method_push_def is_array_method_pop_def
  is_method_json_def is_method_text_def is_method_send_json_def is_method_resolve_def
  is_method_file_def is_promise_def hi16_tag

lemma null_range: "hi16 v = 0xfff1 \<longleftrightarrow> TAG_NULL \<le> vbits v \<and> vbits v < TAG_FALSE"
  unfolding word_le_nat_alt word_less_nat_alt TAG_NULL_def TAG_FALSE_def hi16_def
  by auto

text \<open>C13: Every 64-bit value is of exactly one kind: exactly one of the sixteen type tests accepts it,
  apart from the words strictly between the null tag and the false tag, which no constructor makes
  and which no test accepts.\<close>

theorem kinds_partition:
  "length (filter (\<lambda>p. p v)
     [is_number, is_string, is_null, is_boolean, is_array, is_object, is_function,
      is_native_function, is_array_method_push, is_array_method_pop, is_method_json,
      is_method_text, is_method_send_json, is_method_resolve, is_method_file, is_promise])
   = (if TAG_NULL < vbits v \<and> vbits v < TAG_FALSE then 0 else 1)"
proof -
  have null: "is_null v \<longleftrightarrow> hi16 v = 0xfff1 \<and> \<not> (TAG_NULL < vbits v \<and> vbits v < TAG_FALSE)"
    using null_range [of v] by (auto simp: is_null_def vm_simps)
  have inval: "TAG_NULL < vbits v \<and> vbits v < TAG_FALSE \<longrightarrow> hi16 v = 0xfff1"
    using null_range [of v] by auto
  consider "hi16 v < 0xfff0" | "hi16 v \<in> {0xfff0..0xffff}"
    using hi16_less [of v] by fastforce
  then show ?thesis
  proof cases
    case 1
    with inval null show ?thesis by (auto simp: kind_hi16)
  next
    case 2
    then have "hi16 v = 0xfff0 \<or> hi16 v = 0xfff1 \<or> hi16 v = 0xfff2 \<or> hi16 v = 0xfff3 \<or> hi16 v = 0xfff4
      \<or> hi16 v = 0xfff5 \<or> hi16 v = 0xfff6 \<or> hi16 v = 0xfff7 \<or> hi16 v = 0xfff8 \<or> hi16 v = 0xfff9
      \<or> hi16 v = 0xfffa \<or> hi16 v = 0xfffb \<or> hi16 v = 0xfffc \<or> hi16 v = 0xfffd \<or> hi16 v = 0xfffe
      \<or> hi16 v = 0xffff"
      by (simp, presburger)
    with inval null show ?thesis by (elim disjE) (simp_all add: kind_hi16)
  qed
qed

lemma bit_pack_bytes:
  "bit (pack_bytes w i s) n \<longleftrightarrow>
     bit w n \<or> (\<exists>k < length s. bit (push_bit ((i + k) * 8) (ucast (s ! k) :: u64)) n)"
proof (induction s arbitrary: w i)
  case (Cons b bs)
  show ?case
    unfolding pack_bytes.simps Cons.IH bit_or_iff length_Cons Ex_less_Suc2
      nth_Cons_0 nth_Cons_Suc add_0_right add_Suc_right add_Suc
    by blast
qed simp

definition inline_bits :: "u8 list \<Rightarrow> u64" where
  "inline_bits s = pack_bytes (TAG_INLINE_STR_BASE OR push_bit 48 (of_nat (length s))) 0 s"

lemma inline_base_bits: "(TAG_INLINE_STR_BASE :: u64) = push_bit 48 0xffe8"
  by (simp add: TAG_INLINE_STR_BASE_def)

lemma inline_base_low: "n < 48 \<Longrightarrow> \<not> bit TAG_INLINE_STR_BASE n"
  unfolding inline_base_bits bit_push_bit_iff by simp

lemma inline_bits_low:
  assumes "length s \<le> 6" "k < length s"
  shows "ucast (drop_bit (8 * k) (inline_bits s)) = s ! k"
proof (rule bit_word_eqI)
  fix m assume m: "m < LENGTH(8)"
  have "8 * k + m < 48" using assms m by auto
  moreover have "(\<exists>j < length s. bit (push_bit ((0 + j) * 8) (ucast (s ! j) :: u64)) (8 * k + m))
      \<longleftrightarrow> bit (s ! k) m"
  proof
    assume "bit (s ! k) m"
    then show "\<exists>j < length s. bit (push_bit ((0 + j) * 8) (ucast (s ! j) :: u64)) (8 * k + m)"
      using assms m by (intro exI [of _ k]) (auto simp: bit_simps)
  next
    assume "\<exists>j < length s. bit (push_bit ((0 + j) * 8) (ucast (s ! j) :: u64)) (8 * k + m)"
    then obtain j where j: "j < length s" "j * 8 \<le> 8 * k + m" "bit (s ! j) (8 * k + m - j * 8)"
      by (auto simp: bit_simps)
    have "8 * k + m - j * 8 < 8" using j(3) bit_imp_le_length by fastforce
    then have "j = k" using j(2) m by auto
    then show "bit (s ! k) m" using j(3) by (simp add: mult.commute)
  qed
  ultimately show "bit (ucast (drop_bit (8 * k) (inline_bits s)) :: u8) m = bit (s ! k) m"
    using m assms inline_base_low
    by (auto simp: inline_bits_def bit_simps bit_pack_bytes)
qed

lemma inline_string_def2:
  "inline_string s = (if length s \<le> 6 then Some (Value (inline_bits s)) else None)"
  by (simp add: inline_string_def inline_bits_def)

lemma le6_cases:
  "n \<le> 6 \<Longrightarrow> n = 0 \<or> n = 1 \<or> n = 2 \<or> n = 3 \<or> n = 4 \<or> n = 5 \<or> (n :: nat) = 6"
  by presburger

lemma bit_inline_bits_high:
  assumes "length s \<le> 6" "48 \<le> n"
  shows "bit (inline_bits s) n \<longleftrightarrow> bit (push_bit 48 (of_nat (0xffe8 + length s)) :: u64) n"
proof -
  have no: "\<not> bit (push_bit ((0 + k) * 8) (ucast (s ! k)) :: u64) n" if k: "k < length s" for k
  proof
    assume "bit (push_bit ((0 + k) * 8) (ucast (s ! k)) :: u64) n"
    then have "bit (s ! k) (n - k * 8)" by (auto simp: bit_simps)
    then have "n - k * 8 < 8" using bit_imp_le_length by fastforce
    with assms k show False by auto
  qed
  have "TAG_INLINE_STR_BASE OR push_bit 48 (of_nat (length s)) = (push_bit 48 (of_nat (0xffe8 + length s)) :: u64)"
    using le6_cases [OF assms(1)] by (elim disjE) (simp_all add: TAG_INLINE_STR_BASE_def)
  with no show ?thesis unfolding inline_bits_def bit_pack_bytes by auto
qed

lemma drop_inline_bits:
  assumes "length s \<le> 6"
  shows "drop_bit 48 (inline_bits s) = of_nat (0xffe8 + length s)"
proof -
  have "drop_bit 48 (inline_bits s) = drop_bit 48 (push_bit 48 (of_nat (0xffe8 + length s)) :: u64)"
    by (rule bit_word_eqI) (simp only: bit_drop_bit_eq o_apply, rule bit_inline_bits_high, use assms in auto)
  also have "\<dots> = of_nat (0xffe8 + length s)"
    using le6_cases [OF assms] by (elim disjE) simp_all
  finally show ?thesis .
qed

lemma hi16_drop: "hi16 v = unat (drop_bit 48 (vbits v))"
  by (simp only: unsigned_drop_bit_eq) (simp add: take_bit_eq_mod drop_bit_eq_div hi16_def)

lemma hi16_inline: "length s \<le> 6 \<Longrightarrow> hi16 (Value (inline_bits s)) = 0xffe8 + length s"
  by (drule le6_cases [THEN disjE]) (auto simp: hi16_drop drop_inline_bits)

lemma inline_len: "length s \<le> 6 \<Longrightarrow> unat (drop_bit 48 (inline_bits s) AND 7) = length s"
  using le6_cases [of "length s"] by (auto simp: drop_inline_bits)

lemma inline_bytes_bits: "length s \<le> 6 \<Longrightarrow> inline_bytes (Value (inline_bits s)) (length s) = s"
  by (rule nth_equalityI) (auto simp: inline_bytes_def inline_bits_low)

text \<open>C14: A valid UTF-8 text of at most six bytes packs into an inline string, which is
  recognised as a string and not as a number, and reads back as the same text.\<close>

theorem inline_string_roundtrip:
  assumes "utf8_valid s" and "length s \<le> 6"
  shows "\<exists>v. inline_string s = Some v \<and> is_inline_string v \<and> is_string v \<and> \<not> is_number v
             \<and> as_str rd v = Some s"
  using assms
  by (simp add: inline_string_def2 as_str_def inline_len inline_bytes_bits kind_hi16 hi16_inline)

theorem inline_string_roundtrip_witness:
  "\<exists>v. inline_string [104, 195, 169] = Some v \<and> is_inline_string v \<and> is_string v \<and> \<not> is_number v
      \<and> as_str (\<lambda>_. None) v = Some [104, 195, 169]"
  by (rule inline_string_roundtrip) code_simp+


section \<open>Equality laws\<close>

text \<open>
  A string value is well formed when its text can be read and an inline one is what
  \<open>inline_string\<close> builds for that text; every constructor of the source makes such values.
\<close>

definition wf_text :: "(u64 \<Rightarrow> u8 list option) \<Rightarrow> er_value \<Rightarrow> bool" where
  "wf_text rd v \<longleftrightarrow>
     (is_string v \<longrightarrow>
       (case as_str rd v of None \<Rightarrow> False
        | Some s \<Rightarrow> (is_inline_string v \<longrightarrow> inline_string s = Some v)))"

lemma wf_textE:
  assumes "wf_text rd v" "is_string v"
  obtains s where "as_str rd v = Some s" "is_inline_string v \<longrightarrow> inline_string s = Some v"
  using assms by (auto simp: wf_text_def split: option.splits)

lemma value_eq_text:
  assumes "wf_text rd a" "wf_text rd b" "is_string a" "is_string b"
  shows "value_eq rd a b \<longleftrightarrow> as_str rd a = as_str rd b"
proof -
  obtain s where s: "as_str rd a = Some s" "is_inline_string a \<longrightarrow> inline_string s = Some a"
    using assms by (blast elim: wf_textE)
  obtain t where t: "as_str rd b = Some t" "is_inline_string b \<longrightarrow> inline_string t = Some b"
    using assms by (blast elim: wf_textE)
  have num: "\<not> is_number a" using assms(3) by (auto simp: kind_hi16)
  show ?thesis
  proof (cases "vbits a = vbits b")
    case True
    then have "a = b" by (rule er_value.expand)
    then show ?thesis by (simp add: value_eq_def)
  next
    case False
    with s t num assms show ?thesis by (auto simp: value_eq_def str_or_empty_def)
  qed
qed

lemma value_eq_other:
  assumes "\<not> (is_string a \<and> is_string b)"
  shows "value_eq rd a b \<longleftrightarrow>
     a = b \<or> (is_number a \<and> is_number b \<and> f64_eq (as_number a) (as_number b))"
  using assms by (auto simp: value_eq_def er_value.expand)

lemma f64_eq_sym: "f64_eq a b \<Longrightarrow> f64_eq b a"
  by (auto simp: f64_eq_def)

lemma f64_eq_trans: "f64_eq a b \<Longrightarrow> f64_eq b c \<Longrightarrow> f64_eq a c"
  by (auto simp: f64_eq_def)

lemma number_not_string: "is_number v \<Longrightarrow> \<not> is_string v"
  by (auto simp: kind_hi16)

lemma value_eq_kind: "value_eq rd a b \<Longrightarrow> is_string a \<longleftrightarrow> is_string b"
  by (auto simp: value_eq_def er_value.expand number_not_string dest: er_value.expand split: if_splits)

text \<open>C11: On values whose strings are well formed, equality is an equivalence, although strings
  compare by text, inline or on the heap, numbers as doubles (so 0 and -0 are equal) and a
  value is always equal to itself bit for bit, a NaN included.\<close>

theorem value_eq_equivalence:
  assumes "wf_text rd a" "wf_text rd b" "wf_text rd c"
  shows "value_eq rd a a \<and> (value_eq rd a b \<longrightarrow> value_eq rd b a)
     \<and> (value_eq rd a b \<and> value_eq rd b c \<longrightarrow> value_eq rd a c)"
proof -
  have refl: "value_eq rd a a" by (simp add: value_eq_def)
  have sym: "value_eq rd a b \<longrightarrow> value_eq rd b a"
  proof (cases "is_string a \<and> is_string b")
    case True
    with assms show ?thesis by (simp add: value_eq_text)
  next
    case False
    then show ?thesis by (auto simp: value_eq_other dest: f64_eq_sym)
  qed
  have trans: "value_eq rd a b \<and> value_eq rd b c \<longrightarrow> value_eq rd a c"
  proof
    assume ab: "value_eq rd a b \<and> value_eq rd b c"
    then have k: "is_string a \<longleftrightarrow> is_string b" "is_string b \<longleftrightarrow> is_string c"
      by (auto dest: value_eq_kind)
    show "value_eq rd a c"
    proof (cases "is_string a")
      case True
      with ab k assms show ?thesis by (simp add: value_eq_text)
    next
      case False
      with ab k show ?thesis by (auto simp: value_eq_other dest: f64_eq_trans)
    qed
  qed
  from refl sym trans show ?thesis by blast
qed

theorem value_eq_equivalence_witness:
  "value_eq (\<lambda>_. Some [97]) (val_string 8) (val_string 16) \<and>
   value_eq (\<lambda>_. Some [97]) (val_string 16) (val_string 8)"
proof -
  have "wf_text (\<lambda>_. Some [97]) (val_string 8)" "wf_text (\<lambda>_. Some [97]) (val_string 16)"
    "value_eq (\<lambda>_. Some [97]) (val_string 8) (val_string 16)"
    by code_simp+
  then show ?thesis using value_eq_equivalence by blast
qed

lemma mapkey_eq_text:
  assumes "wf_text rd a" "wf_text rd b"
  shows "mapkey_eq rd a b \<longleftrightarrow> a = b \<or> (is_string a \<and> is_string b \<and> as_str rd a = as_str rd b)"
  using assms
  by (auto simp: mapkey_eq_def er_value.expand str_or_empty_def wf_text_def split: option.splits)

text \<open>
  \<^verbatim>\<open>HashMap<MapKey, Value>\<close>, the properties of an object: a table of entries with their
  hashes; a lookup compares the hash first and then the key.
\<close>

definition hm_get :: "('k \<Rightarrow> 'k \<Rightarrow> bool) \<Rightarrow> ('k \<Rightarrow> 'h) \<Rightarrow> 'k \<Rightarrow> ('h \<times> 'k \<times> 'v) list \<Rightarrow> 'v option" where
  "hm_get eq hash k m = map_option (snd \<circ> snd) (find (\<lambda>(h, k', v). h = hash k \<and> eq k' k) m)"

fun hm_insert :: "('k \<Rightarrow> 'k \<Rightarrow> bool) \<Rightarrow> ('k \<Rightarrow> 'h) \<Rightarrow> 'k \<Rightarrow> 'v \<Rightarrow> ('h \<times> 'k \<times> 'v) list \<Rightarrow> ('h \<times> 'k \<times> 'v) list" where
  "hm_insert eq hash k v [] = [(hash k, k, v)]"
| "hm_insert eq hash k v ((h, k', w) # m) =
     (if h = hash k \<and> eq k' k then (h, k', v) # m else (h, k', w) # hm_insert eq hash k v m)"

definition table_ok :: "('k \<Rightarrow> 'h) \<Rightarrow> ('k \<Rightarrow> bool) \<Rightarrow> ('h \<times> 'k \<times> 'v) list \<Rightarrow> bool" where
  "table_ok hash valid m \<longleftrightarrow> (\<forall>(h, k, v) \<in> set m. h = hash k \<and> valid k)"

text \<open>What a hash table needs of its keys, and what it then promises.\<close>

locale hash_key =
  fixes eq :: "'k \<Rightarrow> 'k \<Rightarrow> bool" and hash :: "'k \<Rightarrow> 'h" and valid :: "'k \<Rightarrow> bool"
  assumes eq_refl: "valid a \<Longrightarrow> eq a a"
    and eq_sym: "valid a \<Longrightarrow> valid b \<Longrightarrow> eq a b \<Longrightarrow> eq b a"
    and eq_trans: "valid a \<Longrightarrow> valid b \<Longrightarrow> valid c \<Longrightarrow> eq a b \<Longrightarrow> eq b c \<Longrightarrow> eq a c"
    and eq_hash: "valid a \<Longrightarrow> valid b \<Longrightarrow> eq a b \<Longrightarrow> hash a = hash b"
begin

lemma hm_get_insert:
  assumes "table_ok hash valid m" "valid j" "valid k"
  shows "hm_get eq hash j (hm_insert eq hash k v m) = (if eq k j then Some v else hm_get eq hash j m)"
  using assms
proof (induction m)
  case Nil
  then show ?case by (auto simp: hm_get_def dest: eq_hash)
next
  case (Cons e m)
  obtain h k' w where e: "e = (h, k', w)" by (cases e)
  then have k': "valid k'" "h = hash k'" and m: "table_ok hash valid m"
    using Cons.prems by (auto simp: table_ok_def)
  show ?case
  proof (cases "eq k' k")
    case True
    moreover have "eq k j \<longleftrightarrow> eq k' j"
      using True k' Cons.prems eq_trans eq_sym by blast
    ultimately show ?thesis
      using e k' Cons.prems eq_hash [of k' k] eq_hash [of k' j] by (simp add: hm_get_def)
  next
    case False
    then have "eq k' j \<Longrightarrow> \<not> eq k j"
      using k' Cons.prems eq_trans eq_sym by blast
    then show ?thesis using False e k' Cons.IH [OF m] Cons.prems by (auto simp: hm_get_def)
  qed
qed

lemma table_ok_insert:
  "table_ok hash valid m \<Longrightarrow> valid k \<Longrightarrow> table_ok hash valid (hm_insert eq hash k v m)"
  by (induction m) (auto simp: table_ok_def split: if_splits)

end

interpretation mk: hash_key "mapkey_eq rd" "mapkey_hash rd" "wf_text rd" for rd
  by unfold_locales (auto simp: mapkey_eq_text mapkey_hash_def wf_text_def split: option.splits)

text \<open>C12: Object properties behave as a finite map whose keys are compared by text: after storing under
  a key, a lookup under any equal key (inline or heap string alike) finds the stored value, and a
  lookup under any other key is unchanged; so the hash of a key agrees with its equality.\<close>

theorem property_store_lookup:
  assumes "table_ok (mapkey_hash rd) (wf_text rd) m" "wf_text rd j" "wf_text rd k"
  shows "hm_get (mapkey_eq rd) (mapkey_hash rd) j (hm_insert (mapkey_eq rd) (mapkey_hash rd) k v m) =
     (if mapkey_eq rd k j then Some v else hm_get (mapkey_eq rd) (mapkey_hash rd) j m)
   \<and> table_ok (mapkey_hash rd) (wf_text rd) (hm_insert (mapkey_eq rd) (mapkey_hash rd) k v m)"
  using mk.hm_get_insert [OF assms] mk.table_ok_insert [OF assms(1,3)] by simp

theorem property_store_lookup_witness:
  "hm_get (mapkey_eq (\<lambda>_. Some [97])) (mapkey_hash (\<lambda>_. Some [97])) (val_string 8)
     (hm_insert (mapkey_eq (\<lambda>_. Some [97])) (mapkey_hash (\<lambda>_. Some [97])) (val_string 16) val_null []) =
   Some val_null"
proof -
  let ?rd = "\<lambda>_ :: u64. Some [97 :: u8]"
  have w: "wf_text ?rd (val_string 8)" "wf_text ?rd (val_string 16)" by code_simp+
  have "mapkey_eq ?rd (val_string 16) (val_string 8)" by code_simp
  then show ?thesis
    using property_store_lookup [where rd = ?rd and m = "[]" and v = val_null, OF _ w] by (simp add: table_ok_def)
qed

lemma digits_loop_correct:
  assumes "0 < n" "length (digits_of_nat n) \<le> idx" "idx \<le> length buf"
  shows "\<exists>buf'. digits_loop n idx buf = Some (idx - length (digits_of_nat n), buf')
     \<and> length buf' = length buf
     \<and> drop (idx - length (digits_of_nat n)) buf' = digits_of_nat n @ drop idx buf"
  using assms
proof (induction n arbitrary: idx buf rule: digits_of_nat.induct)
  case (1 n)
  let ?buf = "buf[idx - 1 := digit_char (n mod 10)]"
  from 1 have idx: "0 < idx" by (cases idx) auto
  have dr: "drop (idx - 1) ?buf = digit_char (n mod 10) # drop idx buf"
    using idx 1(4) by (simp add: drop_update_swap Cons_nth_drop_Suc [symmetric])
  show ?case
  proof (cases "n < 10")
    case True
    with 1 idx dr show ?thesis
      by (subst digits_loop.simps) (simp add: digits_of_nat.simps [of n] digits_loop.simps [of 0])
  next
    case False
    then have d: "digits_of_nat n = digits_of_nat (n div 10) @ [digit_char (n mod 10)]"
      by (subst digits_of_nat.simps) simp
    have len: "length (digits_of_nat (n div 10)) \<le> idx - 1" using 1(3) d by simp
    have "idx - 1 \<le> length ?buf" using 1(4) by simp
    moreover have "0 < n div 10" using False by (simp add: div_greater_zero_iff)
    ultimately obtain buf' where
      "digits_loop (n div 10) (idx - 1) ?buf = Some (idx - 1 - length (digits_of_nat (n div 10)), buf')"
      "length buf' = length buf"
      "drop (idx - 1 - length (digits_of_nat (n div 10))) buf'
         = digits_of_nat (n div 10) @ digit_char (n mod 10) # drop idx buf"
      using "1.IH" [OF False, of "idx - 1" ?buf] len unfolding dr by auto
    with idx False show ?thesis
      by (subst digits_loop.simps) (simp add: d)
  qed
qed

text \<open>C16: Appending an unsigned 64-bit integer to a string appends exactly its decimal digits, without
  leading zeros: the twenty-byte buffer never underflows, and the digits denote the number.\<close>

theorem push_positive_integer_correct:
  "push_positive_integer s n = Some (s @ digits_of_nat (unat n))
     \<and> nat_of_digits 0 (digits_of_nat (unat n)) = unat n"
proof (cases "n = 0")
  case True
  then show ?thesis
    by (simp add: push_positive_integer_def digits_of_nat.simps [of 0] digit_char_0 char_digit_char
        flip: digit_char_0)
next
  case False
  then have pos: "0 < unat n" by (simp add: unat_gt_0)
  have "unat n < 10 ^ 20" by (rule less_trans [OF unat_u64_less]) simp
  then have len: "length (digits_of_nat (unat n)) \<le> 20" by (rule length_digits_of_nat) simp
  from digits_loop_correct [OF pos len, of "replicate 20 (char_of (0 :: nat))"]
  have "push_positive_integer s n = Some (s @ digits_of_nat (unat n))"
    using False by (auto simp: push_positive_integer_def)
  then show ?thesis by (simp add: nat_of_digits_of_nat)
qed

text \<open>C15: A number made by the checked constructor is always recognised as a number: bit patterns
  below the tag space are kept as they are and every other pattern becomes a NaN, so no double can
  be mistaken for a pointer or a tag.\<close>

theorem val_number_canonical:
  "is_number (val_number n)
   \<and> (if TAG_NUMBER_MASK \<le> n then f64_is_nan (as_number (val_number n)) else as_number (val_number n) = n)"
  by (cases "TAG_NUMBER_MASK \<le> n")
    (simp_all add: val_number_def is_number_def as_number_def TAG_NUMBER_MASK_def f64_is_nan_def
      f64_mag_def f64_inf_mag_def)

end
