(* ===== verification/Bytecode.thy ===== *)
theory Bytecode
  imports Values
begin

text \<open>
  The bytecode container of \<^verbatim>\<open>crates/eronom-core/src/bytecode.rs\<close> and the call frame of
  \<^verbatim>\<open>frame.rs\<close>: instructions with three byte registers and a 32-bit operand, a chunk with
  its constants and exception handlers, and functions. The lemmas are about the handler
  lookup, which must return the innermost \<^verbatim>\<open>try\<close> that covers an instruction.
\<close>

datatype op_code =
    LoadConst | LoadNull | LoadBool | Move | Negate | NotOp | Add | Sub | Mul | Div | ModOp
  | BitAnd | BitOr | BitXor | BitNot | ShiftLeft | ShiftRight | TypeOf | ToIter | ArrayLen
  | Equal | Greater | Less | DefineGlobal | GetGlobal | SetGlobal | GetUpvalue | SetUpvalue
  | ClosureOp | CloseUpvalue | Jump | JumpIfFalse | Loop | Call | MakeArray | MakeObject
  | GetProperty | SetProperty | GetIndex | SetIndex | Await | Return | DefineStruct | Throw

record instruction =
  op :: op_code
  ra :: u8
  rb :: u8
  rc :: u8
  operand :: u32

record upvalue_descriptor =
  is_local :: bool
  uv_index :: u8

record exception_handler =
  try_start :: nat
  try_end :: nat
  catch_ip :: nat
  err_reg :: u8
  finally_ip :: "nat option"

record chunk =
  code :: "instruction list"
  constants :: "er_value list"
  handlers :: "exception_handler list"

record er_function =
  fn_name :: "u8 list option"
  fn_chunk :: chunk
  arity :: nat
  jit_ptr :: "u64 option"
  invocation_count :: nat
  is_async :: bool
  has_loop :: bool
  upvalues :: "upvalue_descriptor list"
  is_pure :: bool
  can_suspend :: bool

record call_frame =
  frame_function :: u64
  ip :: nat
  slots_offset :: nat
  frame_dest_reg :: nat

definition chunk_default :: chunk where
  "chunk_default = \<lparr>code = [], constants = [], handlers = []\<rparr>"

definition function_default :: er_function where
  "function_default =
     \<lparr>fn_name = None, fn_chunk = chunk_default, arity = 0, jit_ptr = None, invocation_count = 0,
      is_async = False, has_loop = False, upvalues = [], is_pure = False, can_suspend = True\<rparr>"

definition add_constant :: "er_value \<Rightarrow> chunk \<Rightarrow> nat \<times> chunk" where
  "add_constant v c =
     (let c' = c\<lparr>constants := constants c @ [v]\<rparr> in (length (constants c') - 1, c'))"

definition write_instruction :: "op_code \<Rightarrow> u8 \<Rightarrow> u8 \<Rightarrow> u8 \<Rightarrow> u32 \<Rightarrow> chunk \<Rightarrow> chunk" where
  "write_instruction o1 a b c1 n c =
     c\<lparr>code := code c @ [\<lparr>op = o1, ra = a, rb = b, rc = c1, operand = n\<rparr>]\<rparr>"

text \<open>\<^verbatim>\<open>Iterator::min_by_key\<close>: the first element with the least key.\<close>

fun min_by_key :: "('a \<Rightarrow> nat) \<Rightarrow> 'a list \<Rightarrow> 'a option" where
  "min_by_key f [] = None"
| "min_by_key f (x # xs) =
     (case min_by_key f xs of None \<Rightarrow> Some x | Some y \<Rightarrow> if f x \<le> f y then Some x else Some y)"

definition find_handler :: "nat \<Rightarrow> chunk \<Rightarrow> exception_handler option" where
  "find_handler pc c =
     min_by_key (\<lambda>h. try_end h - try_start h)
       (filter (\<lambda>h. try_start h \<le> pc \<and> pc < try_end h) (handlers c))"

section \<open>Laws\<close>

lemma min_by_key_None [simp]: "min_by_key f xs = None \<longleftrightarrow> xs = []"
  by (cases xs) (auto split: option.splits)

lemma min_by_key_Some: "min_by_key f xs = Some x \<Longrightarrow> x \<in> set xs \<and> (\<forall>y \<in> set xs. f x \<le> f y)"
proof (induction xs arbitrary: x)
  case (Cons a xs)
  then show ?case by (fastforce split: option.splits if_splits)
qed simp

lemma add_constant_index:
  "add_constant v c = (i, c') \<Longrightarrow> i < length (constants c') \<and> constants c' ! i = v"
  by (auto simp: add_constant_def Let_def)

text \<open>C17: The handler search returns a handler exactly when the program counter is protected by some try
  block, and then one that protects it and whose protected range is no longer than that of any other
  such handler: the innermost one.\<close>

theorem find_handler_innermost:
  "(case find_handler pc c of
      None \<Rightarrow> \<not> (\<exists>h \<in> set (handlers c). try_start h \<le> pc \<and> pc < try_end h)
    | Some h \<Rightarrow> h \<in> set (handlers c) \<and> try_start h \<le> pc \<and> pc < try_end h
        \<and> list_all (\<lambda>h'. \<not> (try_start h' \<le> pc \<and> pc < try_end h'
                            \<and> try_end h' - try_start h' < try_end h - try_start h)) (handlers c))"
proof (cases "find_handler pc c")
  case None
  then show ?thesis by (auto simp: find_handler_def filter_empty_conv)
next
  case (Some h)
  from min_by_key_Some [OF Some [unfolded find_handler_def]]
  have "h \<in> set (handlers c)" "try_start h \<le> pc" "pc < try_end h"
    and least: "\<forall>h' \<in> set (handlers c). try_start h' \<le> pc \<and> pc < try_end h' \<longrightarrow>
      try_end h - try_start h \<le> try_end h' - try_start h'"
    by auto
  moreover from least have "list_all (\<lambda>h'. \<not> (try_start h' \<le> pc \<and> pc < try_end h'
      \<and> try_end h' - try_start h' < try_end h - try_start h)) (handlers c)"
    unfolding list_all_iff by (meson not_le)
  ultimately show ?thesis using Some by simp
qed

end
