(* ===== verification/Gc_State.thy ===== *)
theory Gc_State
  imports Bytecode "HOL-Library.Monad_Syntax"
begin

text \<open>
  The heap and the collector's operations: \<^verbatim>\<open>crates/eronom-core/src/gc/\<close> (types, trace,
  string cache, allocation and pools) and the collector of
  \<^verbatim>\<open>crates/eronom-vm/src/execute/gc_integration.rs\<close>.

  Memory is a partial map from addresses to object cells: the cells the allocator has
  written. A raw pointer is its address and 0 is null. Following a pointer whose cell was
  never written is undefined behaviour in the source; here the operation returns \<open>None\<close>.
  A freed cell stays in memory with the data \<open>D_Empty\<close>, as in the source, where cells live in
  chunks until \<^verbatim>\<open>gc_free_all\<close>. The thread-local \<^verbatim>\<open>GC_STATE\<close>, the string cache, the epoch and
  the atomic \<^verbatim>\<open>GC_NEEDS_STEP\<close> are fields of one state. Capacities of pooled vectors are not
  modelled: a pooled vector is an empty list.
\<close>

section \<open>Objects\<close>

datatype gc_color = White | Gray | Black

datatype gc_phase = Pause | Mark | Atomic | Sweep

datatype promise_state = Pending | Fulfilled "er_value" | Rejected "u8 list"

record gc_promise =
  pr_state :: promise_state
  suspended_stack :: "er_value list"
  suspended_frames :: "call_frame list"

record struct_descriptor =
  sd_id :: u32
  fast_fields :: "(er_value \<times> nat) list"
  sd_name :: "u8 list"
  field_indices :: "(er_value \<times> nat) list"
  sd_methods :: "(er_value \<times> er_value) list"

record gc_struct =
  descriptor :: struct_descriptor
  st_fields :: "er_value list"

datatype upvalue_location = Open nat | Closed "er_value"

record gc_closure =
  clo_function :: u64
  clo_upvalues :: "u64 list"

record gc_bound_method =
  bm_receiver :: "er_value"
  bm_function :: u64

datatype (plugins only: code size) builtin_method_id =
    StringToUpperCase | StringToLowerCase | StringTrim | StringTrimStart | StringTrimEnd
    | StringSplit | StringSlice | StringSubstring | StringIndexOf | StringLastIndexOf
    | StringIncludes | StringStartsWith | StringEndsWith | StringReplace | StringReplaceAll
    | StringCharAt | StringCharCodeAt | StringRepeat | StringPadStart | StringPadEnd
    | StringConcat | ArrayPush | ArrayPop | ArrayShift | ArrayUnshift | ArrayMap | ArrayFilter
    | ArrayReduce | ArrayForEach | ArrayFind | ArrayFindIndex | ArraySome | ArrayEvery
    | ArrayIncludes | ArrayIndexOf | ArrayLastIndexOf | ArraySlice | ArrayJoin | ArrayConcat
    | ArrayReverse | ArraySort | ArrayFlat | ArrayFlatMap | ArrayFill | ObjectKeys
    | ObjectValues | ObjectEntries | ObjectHasOwnProperty

record gc_builtin_method =
  bi_receiver :: "er_value"
  bi_method :: builtin_method_id

datatype gc_data =
    D_Empty
  | D_String "u8 list"
  | D_Array "er_value list"
  | D_Object "(er_value \<times> er_value) list"
  | D_Function er_function
  | D_Promise gc_promise
  | D_Struct gc_struct
  | D_BoundMethod gc_bound_method
  | D_BuiltinMethod gc_builtin_method
  | D_StructConstructor struct_descriptor
  | D_Closure gc_closure
  | D_Upvalue upvalue_location

record gc_object =
  color :: gc_color
  nxt :: u64
  obj_data :: gc_data

record gc_state =
  mem :: "u64 \<rightharpoonup> gc_object"
  head :: u64
  alloc_count :: nat
  alloc_threshold :: nat
  live_count :: nat
  phase :: gc_phase
  gray_stack :: "u64 list"
  sweep_ptr :: u64
  prev_sweep_ptr :: u64
  free_list :: "u64 list"
  current_chunk_ptr :: u64
  chunk_remaining :: nat
  chunks :: "u64 list"
  vector_pool :: "er_value list list"
  map_pool :: "(er_value \<times> er_value) list list"
  needs_step :: bool
  string_cache :: "(u8 list \<times> u64) list"
  gc_epoch :: nat

definition gc_init :: gc_state where
  "gc_init =
     \<lparr>mem = Map.empty, head = 0, alloc_count = 0, alloc_threshold = 512, live_count = 0,
      phase = Pause, gray_stack = [], sweep_ptr = 0, prev_sweep_ptr = 0, free_list = [],
      current_chunk_ptr = 0, chunk_remaining = 0, chunks = [], vector_pool = [], map_pool = [],
      needs_step = False, string_cache = [], gc_epoch = 0\<rparr>"

text \<open>Reads and writes through a raw pointer.\<close>

definition deref :: "u64 \<Rightarrow> gc_state \<Rightarrow> gc_object option" where
  "deref p s = mem s p"

definition write_obj :: "u64 \<Rightarrow> gc_object \<Rightarrow> gc_state \<Rightarrow> gc_state" where
  "write_obj p ob s = s\<lparr>mem := (mem s)(p \<mapsto> ob)\<rparr>"

text \<open>The text of a heap string, the \<open>rd\<close> of the value operations.\<close>

definition heap_str :: "gc_state \<Rightarrow> u64 \<Rightarrow> u8 list option" where
  "heap_str s p =
     (case deref p s of
        Some ob \<Rightarrow> (case obj_data ob of D_String t \<Rightarrow> Some t | _ \<Rightarrow> None)
      | None \<Rightarrow> None)"

section \<open>Tracing (trace.rs)\<close>

definition is_traced :: "er_value \<Rightarrow> bool" where
  "is_traced v \<longleftrightarrow> \<not> is_number v \<and> \<not> is_inline_string v \<and>
     TAG_STRING \<le> val_tag v \<and> val_tag v \<noteq> TAG_NATIVE"

definition gc_mark_object :: "u64 \<Rightarrow> gc_state \<Rightarrow> gc_state option" where
  "gc_mark_object p s =
     (if p = 0 then Some s
      else do {
        ob \<leftarrow> deref p s;
        if color ob = White
        then Some ((write_obj p (ob\<lparr>color := Gray\<rparr>) s)\<lparr>gray_stack := p # gray_stack s\<rparr>)
        else Some s })"

definition gc_mark_value :: "er_value \<Rightarrow> gc_state \<Rightarrow> gc_state option" where
  "gc_mark_value v s =
     (if is_traced v then
        (let p = as_gc_ptr v
         in if p = 0 then Some s
            else do {
              ob \<leftarrow> deref p s;
              if color ob = White
              then Some ((write_obj p (ob\<lparr>color := Gray\<rparr>) s)\<lparr>gray_stack := p # gray_stack s\<rparr>)
              else Some s })
      else Some s)"

fun for_each :: "('a \<Rightarrow> 's \<Rightarrow> 's option) \<Rightarrow> 'a list \<Rightarrow> 's \<Rightarrow> 's option" where
  "for_each f [] s = Some s"
| "for_each f (x # xs) s = do { s' \<leftarrow> f x s; for_each f xs s' }"

definition gc_blacken_object :: "u64 \<Rightarrow> gc_state \<Rightarrow> gc_state option" where
  "gc_blacken_object p s =
     (if p = 0 then Some s
      else do {
        ob \<leftarrow> deref p s;
        let s = write_obj p (ob\<lparr>color := Black\<rparr>) s;
        (case obj_data ob of
           D_Empty \<Rightarrow> Some s
         | D_String _ \<Rightarrow> Some s
         | D_Array arr \<Rightarrow> for_each gc_mark_value arr s
         | D_Object obj \<Rightarrow>
             for_each (\<lambda>(key, val) s. do { s' \<leftarrow> gc_mark_value key s; gc_mark_value val s' }) obj s
         | D_Struct st \<Rightarrow> for_each gc_mark_value (st_fields st) s
         | D_Function func \<Rightarrow> for_each gc_mark_value (constants (fn_chunk func)) s
         | D_Promise prom \<Rightarrow>
             do {
               s \<leftarrow> for_each gc_mark_value (suspended_stack prom) s;
               for_each (\<lambda>fr. gc_mark_value (val_function (frame_function fr)))
                 (suspended_frames prom) s }
         | D_BoundMethod bm \<Rightarrow>
             do { s \<leftarrow> gc_mark_value (bm_receiver bm) s; gc_mark_object (bm_function bm) s }
         | D_BuiltinMethod bm \<Rightarrow> gc_mark_value (bi_receiver bm) s
         | D_StructConstructor _ \<Rightarrow> Some s
         | D_Closure c \<Rightarrow>
             do {
               s \<leftarrow> gc_mark_object (clo_function c) s;
               for_each gc_mark_object (clo_upvalues c) s }
         | D_Upvalue u \<Rightarrow>
             (case u of Closed v \<Rightarrow> gc_mark_value v s | Open _ \<Rightarrow> Some s)) })"

definition gc_write_barrier :: "u64 \<Rightarrow> er_value \<Rightarrow> gc_state \<Rightarrow> gc_state option" where
  "gc_write_barrier parent child s =
     (if parent = 0 then Some s
      else do {
        pob \<leftarrow> deref parent s;
        if color pob = Black \<and> is_traced child then
          (let cp = as_gc_ptr child
           in if cp = 0 then Some s
              else do {
                cob \<leftarrow> deref cp s;
                if color cob = White
                then Some ((write_obj cp (cob\<lparr>color := Gray\<rparr>) s)\<lparr>gray_stack := cp # gray_stack s\<rparr>)
                else Some s })
        else Some s })"

section \<open>Allocation and recycling (mod.rs)\<close>

definition GC_POOL_MAX :: nat where "GC_POOL_MAX = 128"

definition CHUNK_COUNT :: nat where "CHUNK_COUNT = 256"

text \<open>
  \<^verbatim>\<open>gc_alloc_object\<close>: the free list first, then the current chunk, then a new chunk. \<open>raw\<close> is
  what the system allocator returns for a new chunk (null aborts the process) and \<open>osz\<close> the
  size of a cell, by which \<^verbatim>\<open>ptr.add(1)\<close> advances.
\<close>

definition fresh_object :: "gc_data \<Rightarrow> gc_object" where
  "fresh_object d = \<lparr>color = White, nxt = 0, obj_data = d\<rparr>"

definition gc_alloc_object :: "u64 \<Rightarrow> u64 \<Rightarrow> gc_data \<Rightarrow> gc_state \<Rightarrow> (u64 \<times> gc_state) option" where
  "gc_alloc_object osz raw d s =
     (case free_list s of
        p # ps \<Rightarrow> Some (p, write_obj p (fresh_object d) (s\<lparr>free_list := ps\<rparr>))
      | [] \<Rightarrow>
        (if 0 < chunk_remaining s then
           (let p = current_chunk_ptr s
            in Some (p, write_obj p (fresh_object d)
                 (s\<lparr>current_chunk_ptr := p + osz, chunk_remaining := chunk_remaining s - 1\<rparr>)))
         else if raw = 0 then None
         else Some (raw, write_obj raw (fresh_object d)
                 (s\<lparr>chunks := chunks s @ [raw], current_chunk_ptr := raw + osz,
                    chunk_remaining := CHUNK_COUNT - 1\<rparr>))))"

definition bump_alloc_count :: "gc_state \<Rightarrow> gc_state" where
  "bump_alloc_count s =
     (let s = s\<lparr>alloc_count := alloc_count s + 1\<rparr>
      in if alloc_threshold s \<le> alloc_count s then s\<lparr>needs_step := True\<rparr> else s)"

definition gc_allocate :: "u64 \<Rightarrow> u64 \<Rightarrow> gc_data \<Rightarrow> gc_state \<Rightarrow> (u64 \<times> gc_state) option" where
  "gc_allocate osz raw d s = do {
     (p, s) \<leftarrow> gc_alloc_object osz raw d s;
     ob \<leftarrow> deref p s;
     let s = (write_obj p (ob\<lparr>nxt := head s\<rparr>) s)\<lparr>head := p\<rparr>;
     let s = (if phase s = Sweep \<and> prev_sweep_ptr s = 0 then s\<lparr>prev_sweep_ptr := p\<rparr> else s);
     Some (p, bump_alloc_count s) }"

definition gc_alloc_array :: "u64 \<Rightarrow> u64 \<Rightarrow> er_value list \<Rightarrow> gc_state \<Rightarrow> (u64 \<times> gc_state) option" where
  "gc_alloc_array osz raw elems s = do {
     let s = s\<lparr>vector_pool := butlast (vector_pool s)\<rparr>;
     (p, s) \<leftarrow> gc_alloc_object osz raw (D_Array elems) s;
     ob \<leftarrow> deref p s;
     let s = (write_obj p (ob\<lparr>nxt := head s\<rparr>) s)\<lparr>head := p\<rparr>;
     Some (p, bump_alloc_count s) }"

definition pool_vec :: "gc_state \<Rightarrow> gc_state" where
  "pool_vec s = (if length (vector_pool s) < GC_POOL_MAX
                 then s\<lparr>vector_pool := vector_pool s @ [[]]\<rparr> else s)"

definition pool_map :: "gc_state \<Rightarrow> gc_state" where
  "pool_map s = (if length (map_pool s) < GC_POOL_MAX
                 then s\<lparr>map_pool := map_pool s @ [[]]\<rparr> else s)"

text \<open>\<^verbatim>\<open>gc_recycle_data\<close> on the cell at \<open>p\<close>: buffers go back to a pool, the data becomes Empty.\<close>

definition gc_recycle_data :: "u64 \<Rightarrow> gc_state \<Rightarrow> gc_state option" where
  "gc_recycle_data p s = do {
     ob \<leftarrow> deref p s;
     let s = (case obj_data ob of
                D_Array _ \<Rightarrow> pool_vec s
              | D_Object _ \<Rightarrow> pool_map s
              | D_Struct _ \<Rightarrow> pool_vec s
              | _ \<Rightarrow> s);
     Some (write_obj p (ob\<lparr>obj_data := D_Empty\<rparr>) s) }"

definition gc_dealloc_object :: "u64 \<Rightarrow> gc_state \<Rightarrow> gc_state option" where
  "gc_dealloc_object p s = do {
     s \<leftarrow> gc_recycle_data p s;
     Some (s\<lparr>free_list := p # free_list s\<rparr>) }"

section \<open>String interning (string_cache.rs)\<close>

definition gc_alloc_string :: "u64 \<Rightarrow> u64 \<Rightarrow> u8 list \<Rightarrow> gc_state \<Rightarrow> (u64 \<times> gc_state) option" where
  "gc_alloc_string osz raw t s = gc_allocate osz raw (D_String t) s"

definition intern_string :: "u64 \<Rightarrow> u64 \<Rightarrow> u8 list \<Rightarrow> gc_state \<Rightarrow> (u64 \<times> gc_state) option" where
  "intern_string osz raw t s =
     (case map_of (string_cache s) t of
        Some p \<Rightarrow> Some (p, s)
      | None \<Rightarrow> do {
          (p, s) \<leftarrow> gc_alloc_string osz raw t s;
          Some (p, s\<lparr>string_cache := (t, p) # string_cache s\<rparr>) })"

fun retain_marked :: "gc_state \<Rightarrow> (u8 list \<times> u64) list \<Rightarrow> (u8 list \<times> u64) list option" where
  "retain_marked s [] = Some []"
| "retain_marked s ((t, p) # es) =
     (if p = 0 then retain_marked s es
      else do {
        ob \<leftarrow> deref p s;
        es' \<leftarrow> retain_marked s es;
        Some (if color ob \<noteq> White then (t, p) # es' else es') })"

definition gc_sweep_string_cache :: "gc_state \<Rightarrow> gc_state option" where
  "gc_sweep_string_cache s = do {
     es \<leftarrow> retain_marked s (string_cache s);
     Some (s\<lparr>string_cache := es\<rparr>) }"

section \<open>The collector (gc_integration.rs)\<close>

text \<open>A root is a value, or a raw object pointer; the VM hands them over in marking order.\<close>

datatype gc_root = RootValue "er_value" | RootObject u64

definition mark_root :: "gc_root \<Rightarrow> gc_state \<Rightarrow> gc_state option" where
  "mark_root r s = (case r of RootValue v \<Rightarrow> gc_mark_value v s | RootObject p \<Rightarrow> gc_mark_object p s)"

definition mark_roots :: "gc_root list \<Rightarrow> gc_state \<Rightarrow> gc_state option" where
  "mark_roots rs s = for_each mark_root rs s"

text \<open>Process the gray stack until it is empty; \<open>None\<close> also if that never happened.\<close>

partial_function (option) drain_gray :: "gc_state \<Rightarrow> gc_state option" where
  "drain_gray s =
     (case gray_stack s of
        [] \<Rightarrow> Some s
      | p # ps \<Rightarrow> do {
          s' \<leftarrow> gc_blacken_object p (s\<lparr>gray_stack := ps\<rparr>);
          drain_gray s' })"

text \<open>The sweep of \<^verbatim>\<open>collect_garbage\<close>: relink the marked cells, free the others.\<close>

partial_function (option) sweep_list :: "u64 \<Rightarrow> u64 \<Rightarrow> gc_state \<Rightarrow> gc_state option" where
  "sweep_list cur prev s =
     (if cur = 0 then Some s
      else do {
        ob \<leftarrow> deref cur s;
        (if color ob = White then
           do {
             s' \<leftarrow> gc_dealloc_object cur s;
             sweep_list (nxt ob) prev s' }
         else
           do {
             let s' = write_obj cur (ob\<lparr>color := White, nxt := 0\<rparr>) s;
             s'' \<leftarrow> (if prev = 0 then Some (s'\<lparr>head := cur\<rparr>)
                     else do {
                       pob \<leftarrow> deref prev s';
                       Some (write_obj prev (pob\<lparr>nxt := cur\<rparr>) s') });
             sweep_list (nxt ob) cur s'' }) })"

partial_function (option) count_list :: "u64 \<Rightarrow> nat \<Rightarrow> gc_state \<Rightarrow> nat option" where
  "count_list cur n s =
     (if cur = 0 then Some n
      else do { ob \<leftarrow> deref cur s; count_list (nxt ob) (n + 1) s })"

definition clamp_threshold :: "nat \<Rightarrow> nat" where
  "clamp_threshold live = min (max (live * 2) 512) 2048"

definition collect_garbage :: "gc_root list \<Rightarrow> gc_state \<Rightarrow> gc_state option" where
  "collect_garbage rs s = do {
     let s = s\<lparr>gray_stack := []\<rparr>;
     s \<leftarrow> mark_roots rs s;
     s \<leftarrow> drain_gray s;
     s \<leftarrow> gc_sweep_string_cache s;
     s \<leftarrow> sweep_list (head s) 0 (s\<lparr>head := 0\<rparr>);
     live \<leftarrow> count_list (head s) 0 s;
     Some (s\<lparr>live_count := live, alloc_threshold := clamp_threshold live, alloc_count := 0,
            phase := Pause, sweep_ptr := 0, prev_sweep_ptr := 0, needs_step := False\<rparr>) }"

definition gc_trigger :: "gc_root list \<Rightarrow> gc_state \<Rightarrow> gc_state option" where
  "gc_trigger rs s = (if needs_step s then collect_garbage rs s else Some s)"

section \<open>The incremental collector\<close>

text \<open>
  \<^verbatim>\<open>gc_step\<close> does a bounded piece of work per call: at most 128 gray objects in the mark
  phase, at most 256 cells in the sweep phase.
\<close>

fun mark_batch :: "nat \<Rightarrow> gc_state \<Rightarrow> gc_state option" where
  "mark_batch 0 s = Some s"
| "mark_batch (Suc n) s =
     (case gray_stack s of
        p # ps \<Rightarrow> do {
          s' \<leftarrow> gc_blacken_object p (s\<lparr>gray_stack := ps\<rparr>);
          mark_batch n s' }
      | [] \<Rightarrow> Some (s\<lparr>phase := Atomic\<rparr>))"

fun sweep_batch :: "nat \<Rightarrow> gc_state \<Rightarrow> gc_state option" where
  "sweep_batch 0 s = Some s"
| "sweep_batch (Suc n) s =
     (let cur = sweep_ptr s
      in if cur = 0
         then Some (s\<lparr>phase := Pause, alloc_count := 0, needs_step := False\<rparr>)
         else do {
           ob \<leftarrow> deref cur s;
           (if color ob = White then
              do {
                s' \<leftarrow> (if prev_sweep_ptr s = 0 then Some (s\<lparr>head := nxt ob\<rparr>)
                       else do {
                         pob \<leftarrow> deref (prev_sweep_ptr s) s;
                         Some (write_obj (prev_sweep_ptr s) (pob\<lparr>nxt := nxt ob\<rparr>) s) });
                s'' \<leftarrow> gc_dealloc_object cur s';
                sweep_batch n (s''\<lparr>sweep_ptr := nxt ob\<rparr>) }
            else
              sweep_batch n
                ((write_obj cur (ob\<lparr>color := White\<rparr>) s)
                   \<lparr>prev_sweep_ptr := cur, sweep_ptr := nxt ob\<rparr>)) })"

definition gc_step :: "gc_root list \<Rightarrow> gc_state \<Rightarrow> gc_state option" where
  "gc_step rs s =
     (case phase s of
        Pause \<Rightarrow>
          (if alloc_threshold s \<le> alloc_count s
           then mark_roots rs (s\<lparr>phase := Mark, gray_stack := []\<rparr>)
           else Some s)
      | Mark \<Rightarrow> mark_batch 128 s
      | Atomic \<Rightarrow> do {
          s \<leftarrow> mark_roots rs (s\<lparr>phase := Sweep, sweep_ptr := head s, prev_sweep_ptr := 0\<rparr>);
          s \<leftarrow> drain_gray s;
          gc_sweep_string_cache s }
      | Sweep \<Rightarrow> sweep_batch 256 s)"

section \<open>Releasing the whole heap\<close>

partial_function (option) recycle_walk :: "u64 \<Rightarrow> gc_state \<Rightarrow> gc_state option" where
  "recycle_walk cur s =
     (if cur = 0 then Some s
      else do {
        ob \<leftarrow> deref cur s;
        s' \<leftarrow> gc_recycle_data cur s;
        recycle_walk (nxt ob) s' })"

definition gc_free_all :: "gc_state \<Rightarrow> gc_state option" where
  "gc_free_all s = do {
     let s = s\<lparr>gc_epoch := gc_epoch s + 1\<rparr>;
     s \<leftarrow> recycle_walk (head s) (s\<lparr>head := 0\<rparr>);
     Some (s\<lparr>mem := Map.empty, free_list := [], current_chunk_ptr := 0, chunk_remaining := 0,
            chunks := [], vector_pool := [], map_pool := [], alloc_count := 0, live_count := 0,
            phase := Pause, gray_stack := [], sweep_ptr := 0, prev_sweep_ptr := 0,
            needs_step := False, string_cache := []\<rparr>) }"

end
