(* ===== verification/Gc_Mark.thy ===== *)
theory Gc_Mark
  imports Gc_State
begin

text \<open>
  The mark phase. The objects the tracer follows from a cell are read off \<^verbatim>\<open>gc_blacken_object\<close> as a
  list (\<open>traced\<close>; what a cell holds is a question of its own, see \<open>Gc_Collect\<close>); marking a list of pointers greys exactly its white cells; draining the gray stack
  keeps the tri-colour invariant, terminates, and ends with exactly the reachable cells black.
\<close>

section \<open>Outgoing pointers\<close>

definition optr :: "u64 \<Rightarrow> u64 list" where
  "optr p = (if p = 0 then [] else [p])"

definition vptr :: "er_value \<Rightarrow> u64 list" where
  "vptr v = (if is_traced v then optr (as_gc_ptr v) else [])"

definition root_ptr :: "gc_root \<Rightarrow> u64 list" where
  "root_ptr r = (case r of RootValue v \<Rightarrow> vptr v | RootObject p \<Rightarrow> optr p)"

fun traced :: "gc_data \<Rightarrow> u64 list" where
  "traced D_Empty = []"
| "traced (D_String _) = []"
| "traced (D_Array arr) = concat (map vptr arr)"
| "traced (D_Object obj) = concat (map (\<lambda>(k, v). vptr k @ vptr v) obj)"
| "traced (D_Struct st) = concat (map vptr (st_fields st))"
| "traced (D_Function f) = concat (map vptr (constants (fn_chunk f)))"
| "traced (D_Promise pr) = concat (map vptr (suspended_stack pr)) @
     concat (map (\<lambda>fr. vptr (val_function (frame_function fr))) (suspended_frames pr))"
| "traced (D_BoundMethod bm) = vptr (bm_receiver bm) @ optr (bm_function bm)"
| "traced (D_BuiltinMethod bm) = vptr (bi_receiver bm)"
| "traced (D_StructConstructor _) = []"
| "traced (D_Closure c) = optr (clo_function c) @ concat (map optr (clo_upvalues c))"
| "traced (D_Upvalue (Closed v)) = vptr v"
| "traced (D_Upvalue (Open _)) = []"

lemma zero_notin_optr [simp]: "0 \<notin> set (optr p)"
  by (simp add: optr_def)

lemma zero_notin_vptr [simp]: "0 \<notin> set (vptr v)"
  by (simp add: vptr_def)

lemma zero_notin_root_ptr [simp]: "0 \<notin> set (root_ptr r)"
  by (simp add: root_ptr_def split: gc_root.split)

lemma zero_notin_refs [simp]: "0 \<notin> set (traced d)"
  by (cases d rule: traced.cases) auto

section \<open>Marking as a loop over pointers\<close>

lemma for_each_single [simp]: "for_each f [x] s = f x s"
  by (cases "f x s") simp_all

lemma for_each_append:
  "for_each f (xs @ ys) s = do { s' \<leftarrow> for_each f xs s; for_each f ys s' }"
proof (induction xs arbitrary: s)
  case (Cons x xs)
  then show ?case by (cases "f x s") simp_all
qed simp

lemma for_each_cong:
  "(\<And>x s. x \<in> set xs \<Longrightarrow> f x s = g x s) \<Longrightarrow> for_each f xs s = for_each g xs s"
proof (induction xs arbitrary: s)
  case (Cons x xs)
  then show ?case by (cases "g x s") simp_all
qed simp

lemma for_each_concat:
  "for_each f (concat (map g xs)) s = for_each (\<lambda>x. for_each f (g x)) xs s"
proof (induction xs arbitrary: s)
  case (Cons x xs)
  then show ?case by (cases "for_each f (g x) s") (simp_all add: for_each_append)
qed simp

lemma mark_object_optr: "gc_mark_object p s = for_each gc_mark_object (optr p) s"
proof (cases "p = 0")
  case True
  then show ?thesis by (simp add: optr_def gc_mark_object_def)
next
  case False
  then show ?thesis by (simp add: optr_def del: for_each.simps)
qed

lemma mark_value_vptr: "gc_mark_value v s = for_each gc_mark_object (vptr v) s"
proof (cases "is_traced v")
  case True
  then have "gc_mark_value v s = gc_mark_object (as_gc_ptr v) s"
    by (simp add: gc_mark_value_def gc_mark_object_def Let_def)
  then show ?thesis using True mark_object_optr by (simp add: vptr_def)
next
  case False
  then show ?thesis by (simp add: gc_mark_value_def vptr_def)
qed

lemma mark_root_ptr: "mark_root r s = for_each gc_mark_object (root_ptr r) s"
  by (cases r) (simp_all add: mark_root_def root_ptr_def mark_value_vptr mark_object_optr [symmetric])

lemma for_each_mark_value:
  "for_each gc_mark_value vs s = for_each gc_mark_object (concat (map vptr vs)) s"
  by (simp add: for_each_concat mark_value_vptr cong: for_each_cong)

lemma for_each_mark_object:
  "for_each gc_mark_object ps s = for_each gc_mark_object (concat (map optr ps)) s"
  unfolding for_each_concat by (rule for_each_cong) (rule mark_object_optr)

lemma mark_roots_ptrs:
  "mark_roots rs s = for_each gc_mark_object (concat (map root_ptr rs)) s"
  by (simp add: mark_roots_def for_each_concat mark_root_ptr cong: for_each_cong)

lemma for_each_mark_entries:
  "for_each (\<lambda>(k, v) s. do { s' \<leftarrow> gc_mark_value k s; gc_mark_value v s' }) obj s =
     for_each gc_mark_object (concat (map (\<lambda>(k, v). vptr k @ vptr v) obj)) s"
  unfolding for_each_concat
  by (rule for_each_cong) (auto simp: for_each_append mark_value_vptr split: prod.split)

lemma for_each_mark_frames:
  "for_each (\<lambda>fr. gc_mark_value (val_function (frame_function fr))) frs s =
     for_each gc_mark_object (concat (map (\<lambda>fr. vptr (val_function (frame_function fr))) frs)) s"
  by (simp add: for_each_concat mark_value_vptr cong: for_each_cong)

lemma blacken_refs:
  assumes "p \<noteq> 0" and "mem s p = Some ob"
  shows "gc_blacken_object p s =
     for_each gc_mark_object (traced (obj_data ob)) (write_obj p (ob\<lparr>color := Black\<rparr>) s)"
proof (cases "obj_data ob")
  case (D_BoundMethod bm)
  then show ?thesis using assms
    by (simp add: gc_blacken_object_def deref_def for_each_append mark_value_vptr
        mark_object_optr [of "bm_function bm", abs_def])
next
  case (D_Closure c)
  then show ?thesis using assms
    by (simp add: gc_blacken_object_def deref_def for_each_append
        mark_object_optr [of "clo_function c"] for_each_mark_object [of "clo_upvalues c", abs_def])
next
  case (D_Promise pr)
  then show ?thesis using assms
    by (simp add: gc_blacken_object_def deref_def for_each_append for_each_mark_value
        for_each_mark_frames [of "suspended_frames pr", abs_def])
next
  case (D_Upvalue u)
  then show ?thesis using assms
    by (cases u) (simp_all add: gc_blacken_object_def deref_def mark_value_vptr)
qed (use assms in \<open>simp_all add: gc_blacken_object_def deref_def
      for_each_mark_value for_each_mark_entries mark_value_vptr [of "bi_receiver _"]\<close>)

section \<open>The effect of marking\<close>

text \<open>
  \<open>same_heap\<close>: two states that differ only in colours and in the gray stack.
\<close>

definition skeleton :: "gc_state \<Rightarrow> u64 \<Rightarrow> (u64 \<times> gc_data) option" where
  "skeleton s p = map_option (\<lambda>ob. (nxt ob, obj_data ob)) (mem s p)"

definition same_heap :: "gc_state \<Rightarrow> gc_state \<Rightarrow> bool" where
  "same_heap s s' \<longleftrightarrow>
     s'\<lparr>mem := mem s, gray_stack := gray_stack s\<rparr> = s \<and> skeleton s' = skeleton s"

definition coloured :: "gc_color \<Rightarrow> gc_state \<Rightarrow> u64 set" where
  "coloured c s = {p. \<exists>ob. mem s p = Some ob \<and> color ob = c}"

lemma same_heap_refl [simp]: "same_heap s s"
  by (simp add: same_heap_def)

lemma same_heap_trans: 
  assumes "same_heap s t" and "same_heap t u"
  shows "same_heap s u"
proof -
  let ?F = "\<lambda>x. x\<lparr>mem := mem s, gray_stack := gray_stack s\<rparr>"
  have s: "?F t = s" and t: "u\<lparr>mem := mem t, gray_stack := gray_stack t\<rparr> = t"
    using assms unfolding same_heap_def by auto
  from arg_cong [OF t, of ?F] s have "?F u = s" by simp
  then show ?thesis using assms unfolding same_heap_def by simp
qed

lemma skeleton_eqD:
  assumes "skeleton s' = skeleton s" and "mem s p = Some ob"
  obtains ob' where "mem s' p = Some ob'" and "nxt ob' = nxt ob" and "obj_data ob' = obj_data ob"
proof -
  from assms have "skeleton s' p = Some (nxt ob, obj_data ob)" by (simp add: skeleton_def)
  then show thesis using that by (auto simp: skeleton_def)
qed

lemma skeleton_dom: "skeleton s' = skeleton s \<Longrightarrow> dom (mem s') = dom (mem s)"
  unfolding skeleton_def [abs_def] fun_eq_iff dom_def
  by (metis (mono_tags) None_eq_map_option_iff)

lemma same_heap_dom: "same_heap s s' \<Longrightarrow> dom (mem s') = dom (mem s)"
  unfolding same_heap_def by (blast dest: skeleton_dom)

lemma coloured_write:
  "coloured c (write_obj p ob s) =
     (if color ob = c then insert p (coloured c s) else coloured c s - {p})"
  by (auto simp: coloured_def write_obj_def)

lemma gray_stack_write [simp]: "gray_stack (write_obj p ob s) = gray_stack s"
  by (simp add: write_obj_def)

lemma coloured_disjoint: "c \<noteq> c' \<Longrightarrow> coloured c s \<inter> coloured c' s = {}"
  by (auto simp: coloured_def)

lemma coloured_dom: "coloured c s \<subseteq> dom (mem s)"
  by (auto simp: coloured_def)

lemma coloured_cover: "coloured White s \<union> coloured Gray s \<union> coloured Black s = dom (mem s)"
  by (auto simp: coloured_def) (metis gc_color.exhaust)

lemma coloured_gray_stack [simp]: "coloured c (s\<lparr>gray_stack := gs\<rparr>) = coloured c s"
  by (simp add: coloured_def)

lemma same_heap_recolour:
  "mem s p = Some ob \<Longrightarrow> same_heap s ((write_obj p (ob\<lparr>color := c\<rparr>) s)\<lparr>gray_stack := gs\<rparr>)"
  by (auto simp: same_heap_def write_obj_def skeleton_def fun_eq_iff)

text \<open>
  \<open>greyed qs s s'\<close>: from \<open>s\<close> to \<open>s'\<close> exactly the white cells among \<open>qs\<close> turned gray, and they
  were pushed.
\<close>

definition greyed :: "u64 set \<Rightarrow> gc_state \<Rightarrow> gc_state \<Rightarrow> bool" where
  "greyed Q s s' \<longleftrightarrow>
     same_heap s s' \<and>
     coloured White s' = coloured White s - Q \<and>
     coloured Gray s' = coloured Gray s \<union> (Q \<inter> coloured White s) \<and>
     coloured Black s' = coloured Black s \<and>
     (\<exists>new. gray_stack s' = new @ gray_stack s \<and> distinct new \<and> set new = Q \<inter> coloured White s)"

lemma greyed_empty [simp]: "greyed {} s s"
  by (simp add: greyed_def)

lemma greyed_trans:
  assumes "greyed Q s t" and "greyed R t u"
  shows "greyed (Q \<union> R) s u"
proof -
  from assms obtain n1 n2 where
    n1: "gray_stack t = n1 @ gray_stack s" "distinct n1" "set n1 = Q \<inter> coloured White s" and
    n2: "gray_stack u = n2 @ gray_stack t" "distinct n2" "set n2 = R \<inter> coloured White t"
    unfolding greyed_def by blast
  have "coloured White t = coloured White s - Q" using assms unfolding greyed_def by blast
  then have "gray_stack u = (n2 @ n1) @ gray_stack s \<and> distinct (n2 @ n1) \<and>
      set (n2 @ n1) = (Q \<union> R) \<inter> coloured White s"
    using n1 n2 by auto
  moreover have "same_heap s u" using assms unfolding greyed_def by (blast intro: same_heap_trans)
  ultimately show ?thesis using assms unfolding greyed_def by blast
qed

lemma mark_object_greyed:
  assumes "p \<in> dom (mem s)" and "p \<noteq> 0"
  shows "\<exists>s'. gc_mark_object p s = Some s' \<and> greyed {p} s s'"
proof -
  from assms obtain ob where ob: "mem s p = Some ob" by auto
  show ?thesis
  proof (cases "color ob = White")
    case True
    have "greyed {p} s ((write_obj p (ob\<lparr>color := Gray\<rparr>) s)\<lparr>gray_stack := p # gray_stack s\<rparr>)"
      unfolding greyed_def using ob True
      by (auto simp: same_heap_recolour coloured_write) (auto simp: coloured_def)
    then show ?thesis using assms ob True by (simp add: gc_mark_object_def deref_def)
  next
    case False
    have "greyed {p} s s" unfolding greyed_def using ob False by (auto simp: coloured_def)
    then show ?thesis using assms ob False by (simp add: gc_mark_object_def deref_def)
  qed
qed

lemma mark_list_greyed:
  "set qs \<subseteq> dom (mem s) \<Longrightarrow> 0 \<notin> set qs \<Longrightarrow>
     \<exists>s'. for_each gc_mark_object qs s = Some s' \<and> greyed (set qs) s s'"
proof (induction qs arbitrary: s)
  case (Cons q qs)
  then obtain t where t: "gc_mark_object q s = Some t" "greyed {q} s t"
    using mark_object_greyed [of q s] by auto
  then have "dom (mem t) = dom (mem s)" by (simp add: greyed_def same_heap_dom)
  then obtain u where u: "for_each gc_mark_object qs t = Some u" "greyed (set qs) t u"
    using Cons.IH [of t] Cons.prems by auto
  with t show ?case using greyed_trans [of "{q}" s t "set qs" u] by simp
qed simp

section \<open>Reachability and the tri-colour invariant\<close>

text \<open>The cells the tracer reaches from a set of pointers.\<close>

inductive_set reach :: "gc_state \<Rightarrow> u64 set \<Rightarrow> u64 set" for s :: gc_state and R :: "u64 set" where
  reach_root: "p \<in> R \<Longrightarrow> p \<in> reach s R"
| reach_step: "p \<in> reach s R \<Longrightarrow> mem s p = Some ob \<Longrightarrow> q \<in> set (traced (obj_data ob)) \<Longrightarrow> q \<in> reach s R"

lemma reach_mono: "p \<in> reach s R \<Longrightarrow> R \<subseteq> R' \<Longrightarrow> p \<in> reach s R'"
  by (induction rule: reach.induct) (auto intro: reach.intros)

lemma reach_skeleton:
  assumes "p \<in> reach s R" and "skeleton s' = skeleton s"
  shows "p \<in> reach s' R"
  using assms(1)
proof induction
  case (reach_step p ob q)
  obtain ob' where "mem s' p = Some ob'" "obj_data ob' = obj_data ob"
    using skeleton_eqD [OF assms(2) reach_step(2)] by metis
  then show ?case using reach_step reach.reach_step [of p s' R ob'] by simp
qed (rule reach_root)

definition closed_under_refs :: "u64 set \<Rightarrow> gc_state \<Rightarrow> bool" where
  "closed_under_refs L s \<longleftrightarrow> L \<subseteq> dom (mem s) \<and>
     (\<forall>p ob. p \<in> L \<longrightarrow> mem s p = Some ob \<longrightarrow> set (traced (obj_data ob)) \<subseteq> L)"

lemma reach_closed:
  assumes "p \<in> reach s R" and "closed_under_refs L s" and "R \<subseteq> L"
  shows "p \<in> L"
  using assms by induction (unfold closed_under_refs_def, blast+)

lemma closed_skeleton:
  assumes "skeleton s' = skeleton s" and "closed_under_refs L s"
  shows "closed_under_refs L s'"
  unfolding closed_under_refs_def
proof (intro conjI allI impI)
  show "L \<subseteq> dom (mem s')" using assms skeleton_dom unfolding closed_under_refs_def by blast
  fix p ob assume p: "p \<in> L" "mem s' p = Some ob"
  obtain ob' where "mem s p = Some ob'" "obj_data ob' = obj_data ob"
    using skeleton_eqD [OF assms(1) [symmetric] p(2)] by metis
  then show "set (traced (obj_data ob)) \<subseteq> L" using p assms unfolding closed_under_refs_def by metis
qed

text \<open>
  The tri-colour invariant during marking from the roots \<open>R\<close>: the gray cells are exactly the
  entries of the gray stack, once each; no black cell refers to a white one; every root and
  nothing unreachable is marked.
\<close>

definition tricolour :: "gc_state \<Rightarrow> bool" where
  "tricolour s \<longleftrightarrow>
     distinct (gray_stack s) \<and> set (gray_stack s) = coloured Gray s \<and>
     (\<forall>p ob. p \<in> coloured Black s \<longrightarrow> mem s p = Some ob \<longrightarrow>
        set (traced (obj_data ob)) \<inter> coloured White s = {})"

definition marking :: "u64 set \<Rightarrow> u64 set \<Rightarrow> gc_state \<Rightarrow> gc_state \<Rightarrow> bool" where
  "marking L R s0 s \<longleftrightarrow>
     same_heap s0 s \<and> closed_under_refs L s0 \<and> R \<subseteq> L \<and> tricolour s \<and>
     R \<inter> coloured White s = {} \<and> dom (mem s) - coloured White s \<subseteq> reach s0 R"

lemma roots_start_marking:
  assumes "closed_under_refs L s0" and "coloured White s0 = dom (mem s0)"
    and "set qs \<subseteq> L" and "0 \<notin> set qs" and "gray_stack s0 = []"
  shows "\<exists>s. for_each gc_mark_object qs s0 = Some s \<and> marking L (set qs) s0 s"
proof -
  have sub: "set qs \<subseteq> dom (mem s0)" using assms unfolding closed_under_refs_def by auto
  then obtain s where s: "for_each gc_mark_object qs s0 = Some s" "greyed (set qs) s0 s"
    using mark_list_greyed assms by blast
  have nw: "coloured Gray s0 = {}" "coloured Black s0 = {}"
    using assms coloured_disjoint coloured_dom by (fastforce simp: coloured_def)+
  then have "tricolour s" using s assms unfolding tricolour_def greyed_def by auto
  moreover have "dom (mem s) = dom (mem s0)" using s(2) by (simp add: greyed_def same_heap_dom)
  then have "dom (mem s) - coloured White s \<subseteq> reach s0 (set qs)"
    using s assms by (auto simp: greyed_def intro: reach_root)
  ultimately show ?thesis using s assms unfolding marking_def greyed_def by auto
qed

lemma blacken_greyed:
  assumes "marking L R s0 s" and "gray_stack s = p # ps" and "0 \<notin> L"
  obtains ob u s' where "mem s p = Some ob" and "p \<in> reach s0 R" and "p \<in> L"
    and "set (traced (obj_data ob)) \<subseteq> L"
    and "u = write_obj p (ob\<lparr>color := Black\<rparr>) (s\<lparr>gray_stack := ps\<rparr>)"
    and "gc_blacken_object p (s\<lparr>gray_stack := ps\<rparr>) = Some s'"
    and "greyed (set (traced (obj_data ob))) u s'"
proof -
  have pg: "p \<in> coloured Gray s" using assms unfolding marking_def tricolour_def by auto
  then obtain ob where ob: "mem s p = Some ob" by (auto simp: coloured_def)
  have "p \<in> dom (mem s) - coloured White s" using pg ob by (auto simp: coloured_def)
  then have pr: "p \<in> reach s0 R" using assms unfolding marking_def by blast
  have cl: "closed_under_refs L s0" and sub: "R \<subseteq> L" and sh: "same_heap s0 s"
    using assms unfolding marking_def by auto
  have pL: "p \<in> L" using reach_closed [OF pr cl sub] .
  have cls: "closed_under_refs L s"
    using closed_skeleton [OF _ cl] sh unfolding same_heap_def by simp
  then have rL: "set (traced (obj_data ob)) \<subseteq> L"
    using pL ob unfolding closed_under_refs_def by blast
  define u where "u = write_obj p (ob\<lparr>color := Black\<rparr>) (s\<lparr>gray_stack := ps\<rparr>)"
  have "set (traced (obj_data ob)) \<subseteq> dom (mem u)"
    using rL cls unfolding closed_under_refs_def u_def write_obj_def by auto
  then obtain s' where "for_each gc_mark_object (traced (obj_data ob)) u = Some s'"
    "greyed (set (traced (obj_data ob))) u s'" using mark_list_greyed zero_notin_refs by blast
  moreover have "p \<noteq> 0" using pL assms by auto
  ultimately show thesis
    using that [of ob u s'] blacken_refs [of p "s\<lparr>gray_stack := ps\<rparr>" ob] ob pr pL rL u_def by auto
qed

lemma blacken_keeps_marking:
  assumes m: "marking L R s0 s" and g: "gray_stack s = p # ps" and "0 \<notin> L"
    and "finite (dom (mem s0))"
  shows "\<exists>s'. gc_blacken_object p (s\<lparr>gray_stack := ps\<rparr>) = Some s' \<and> marking L R s0 s' \<and>
    2 * card (coloured White s') + length (gray_stack s')
      < 2 * card (coloured White s) + length (gray_stack s)"
proof -
  obtain ob u s' where ob: "mem s p = Some ob" and pr: "p \<in> reach s0 R" and pL: "p \<in> L"
    and rL: "set (traced (obj_data ob)) \<subseteq> L"
    and u: "u = write_obj p (ob\<lparr>color := Black\<rparr>) (s\<lparr>gray_stack := ps\<rparr>)"
    and s': "gc_blacken_object p (s\<lparr>gray_stack := ps\<rparr>) = Some s'"
    and gr: "greyed (set (traced (obj_data ob))) u s'"
    using blacken_greyed [OF m g assms(3)] by blast
  let ?Q = "set (traced (obj_data ob))"
  have pg: "p \<in> coloured Gray s" and dist: "distinct (p # ps)"
    and gs: "coloured Gray s = insert p (set ps)" and p_ps: "p \<notin> set ps"
    using m g unfolding marking_def tricolour_def by auto
  have cu: "coloured White u = coloured White s" "coloured Gray u = set ps"
    "coloured Black u = insert p (coloured Black s)" "gray_stack u = ps"
    using pg gs p_ps coloured_disjoint [of White Gray s] by (auto simp: u coloured_write)
  have "same_heap s u" using ob by (auto simp: u same_heap_def write_obj_def skeleton_def fun_eq_iff)
  moreover have "same_heap u s'" using gr unfolding greyed_def by blast
  ultimately have shs: "same_heap s s'" by (rule same_heap_trans)
  then have sh: "same_heap s0 s'" using m same_heap_trans unfolding marking_def by blast
  from gr obtain new where new: "gray_stack s' = new @ ps" "distinct new"
      "set new = ?Q \<inter> coloured White s" and
    cs: "coloured White s' = coloured White s - ?Q"
      "coloured Gray s' = set ps \<union> (?Q \<inter> coloured White s)"
      "coloured Black s' = insert p (coloured Black s)"
    unfolding greyed_def cu by blast
  have "set ps \<inter> coloured White s = {}" using gs coloured_disjoint [of Gray White s] by auto
  then have "distinct (gray_stack s')" and "set (gray_stack s') = coloured Gray s'"
    using new cs dist by auto
  moreover have "set (traced (obj_data obq)) \<inter> coloured White s' = {}"
    if q: "q \<in> coloured Black s'" "mem s' q = Some obq" for q obq
  proof -
    obtain obq' where q': "mem s q = Some obq'" "obj_data obq' = obj_data obq"
      using skeleton_eqD [of s s' q obq] shs q unfolding same_heap_def by metis
    show ?thesis
    proof (cases "q = p")
      case True
      then show ?thesis using q' ob cs by auto
    next
      case False
      then have "q \<in> coloured Black s" using q cs by auto
      then have "set (traced (obj_data obq')) \<inter> coloured White s = {}"
        using m q' unfolding marking_def tricolour_def by blast
      then show ?thesis using q' cs by auto
    qed
  qed
  ultimately have tri: "tricolour s'" unfolding tricolour_def by blast
  have "?Q \<subseteq> reach s0 R"
  proof
    fix q assume q: "q \<in> ?Q"
    obtain ob0 where "mem s0 p = Some ob0" "obj_data ob0 = obj_data ob"
      using skeleton_eqD [of s0 s p ob] m ob unfolding marking_def same_heap_def by metis
    then show "q \<in> reach s0 R" using q pr reach_step by metis
  qed
  then have "dom (mem s') - coloured White s' \<subseteq> reach s0 R"
    using m cs same_heap_dom [OF shs] unfolding marking_def by blast
  then have "marking L R s0 s'" using m sh tri cs unfolding marking_def by auto
  moreover
  have fin: "finite (coloured White s)"
    using m assms(4) same_heap_dom coloured_dom unfolding marking_def by (metis finite_subset)
  have "length new = card (?Q \<inter> coloured White s)" using new distinct_card by metis
  moreover have "card (coloured White s) = card (coloured White s - ?Q) + card (?Q \<inter> coloured White s)"
    using card_Diff_subset_Int [of "coloured White s" ?Q] fin
    by (simp add: Int_commute card_mono)
  ultimately show ?thesis using s' new cs g by simp
qed

lemma drain_gray_marks:
  assumes "marking L R s0 s" and "0 \<notin> L" and "finite (dom (mem s0))"
  shows "\<exists>s'. drain_gray s = Some s' \<and> marking L R s0 s' \<and> gray_stack s' = []"
  using assms(1)
proof (induction "2 * card (coloured White s) + length (gray_stack s)" arbitrary: s rule: less_induct)
  case less
  show ?case
  proof (cases "gray_stack s")
    case Nil
    then show ?thesis using less.prems by (simp add: drain_gray.simps [of s])
  next
    case (Cons p ps)
    then obtain t where t: "gc_blacken_object p (s\<lparr>gray_stack := ps\<rparr>) = Some t" "marking L R s0 t"
      "2 * card (coloured White t) + length (gray_stack t)
        < 2 * card (coloured White s) + length (gray_stack s)"
      using blacken_keeps_marking less.prems assms by blast
    then show ?thesis using less.hyps [OF t(3) t(2)] Cons by (simp add: drain_gray.simps [of s])
  qed
qed

text \<open>The end of the mark phase: the marked cells are exactly the reachable ones.\<close>

lemma marking_finished:
  assumes m: "marking L R s0 s" and "gray_stack s = []" and d: "dom (mem s0) = dom (mem s)"
  shows "coloured White s = dom (mem s) - reach s0 R"
proof -
  have nogray: "coloured Gray s = {}" using assms unfolding marking_def tricolour_def by simp
  have "q \<notin> coloured White s" if "q \<in> reach s0 R" for q
    using that
  proof induction
    case (reach_root p)
    then show ?case using m unfolding marking_def by blast
  next
    case (reach_step p ob q)
    obtain ob' where ob': "mem s p = Some ob'" "obj_data ob' = obj_data ob"
      using skeleton_eqD [of s s0 p ob] m reach_step unfolding marking_def same_heap_def by metis
    then have "p \<in> coloured Black s"
      using reach_step nogray coloured_cover [of s] by blast
    then have "set (traced (obj_data ob')) \<inter> coloured White s = {}"
      using m ob' unfolding marking_def tricolour_def by blast
    then show ?case using ob' reach_step by auto
  qed
  then show ?thesis using m coloured_dom [of White s] unfolding marking_def by blast
qed

end
