(* ===== verification/Gc_Sweep.thy ===== *)
theory Gc_Sweep
  imports Gc_Mark
begin

text \<open>
  The sweep phase. The all-objects list threads the cells through their \<open>nxt\<close> fields
  (\<open>obj_list\<close>). Sweeping relinks exactly the marked cells in their order, turns them white,
  empties the others and puts them on the free list; counting gives the length of the result.
\<close>

section \<open>The all-objects list\<close>

fun obj_list :: "(u64 \<rightharpoonup> gc_object) \<Rightarrow> u64 \<Rightarrow> u64 list \<Rightarrow> bool" where
  "obj_list m p [] = (p = 0)"
| "obj_list m p (x # xs) = (p = x \<and> x \<noteq> 0 \<and> (\<exists>ob. m x = Some ob \<and> obj_list m (nxt ob) xs))"

lemma obj_list_frame:
  "obj_list m p xs \<Longrightarrow> (\<forall>x \<in> set xs. m' x = m x) \<Longrightarrow> obj_list m' p xs"
  by (induction xs arbitrary: p) auto

lemma obj_list_frame_nxt:
  "obj_list m p xs \<Longrightarrow>
     (\<forall>x \<in> set xs. map_option nxt (m' x) = map_option nxt (m x)) \<Longrightarrow> obj_list m' p xs"
  by (induction xs arbitrary: p) auto

lemma obj_list_dom: "obj_list m p xs \<Longrightarrow> set xs \<subseteq> dom m"
  by (induction xs arbitrary: p) auto

lemma obj_list_nonzero: "obj_list m p xs \<Longrightarrow> 0 \<notin> set xs"
  by (induction xs arbitrary: p) auto

lemma obj_list_snoc:
  assumes "obj_list m p ks" and "ks \<noteq> []" and "distinct ks" and "c \<notin> set ks" and "c \<noteq> 0"
    and "m (last ks) = Some ob" and "m c = Some oc" and "nxt oc = 0"
  shows "obj_list (m(last ks \<mapsto> ob\<lparr>nxt := c\<rparr>)) p (ks @ [c])"
  using assms
proof (induction ks arbitrary: p)
  case (Cons k ks)
  show ?case
  proof (cases "ks = []")
    case True
    then show ?thesis using Cons.prems by auto
  next
    case False
    then have "last ks \<noteq> k" using Cons.prems by (metis distinct.simps(2) last_in_set)
    then show ?thesis using Cons False by auto
  qed
qed simp

lemma obj_list_unique: "obj_list m p xs \<Longrightarrow> obj_list m p ys \<Longrightarrow> xs = ys"
proof (induction xs arbitrary: p ys)
  case Nil
  then show ?case by (cases ys) auto
next
  case (Cons x xs)
  then show ?case by (cases ys) auto
qed

lemma count_obj_list: "obj_list (mem s) p xs \<Longrightarrow> count_list p n s = Some (n + length xs)"
proof (induction xs arbitrary: p n)
  case Nil
  then show ?case by (simp add: count_list.simps)
next
  case (Cons x xs)
  then show ?case by (subst count_list.simps) (auto simp: deref_def)
qed

section \<open>Freeing a cell\<close>

text \<open>The fields no sweep step touches.\<close>

definition outside_sweep where
  "outside_sweep s = (alloc_count s, alloc_threshold s, live_count s, phase s, gray_stack s,
     sweep_ptr s, prev_sweep_ptr s, current_chunk_ptr s, chunk_remaining s, chunks s,
     needs_step s, string_cache s, gc_epoch s)"

definition pools_bounded :: "gc_state \<Rightarrow> bool" where
  "pools_bounded s \<longleftrightarrow> length (vector_pool s) \<le> GC_POOL_MAX \<and> length (map_pool s) \<le> GC_POOL_MAX"

lemma outside_sweep_write [simp]: "outside_sweep (write_obj p ob s) = outside_sweep s"
  and outside_sweep_head [simp]: "outside_sweep (s\<lparr>head := h\<rparr>) = outside_sweep s"
  by (simp_all add: outside_sweep_def write_obj_def)

lemma pools_bounded_write [simp]: "pools_bounded (write_obj p ob s) = pools_bounded s"
  and pools_bounded_head [simp]: "pools_bounded (s\<lparr>head := h\<rparr>) = pools_bounded s"
  by (simp_all add: pools_bounded_def write_obj_def)

lemma pool_vec_frame [simp]:
  "mem (pool_vec s) = mem s" "head (pool_vec s) = head s" "free_list (pool_vec s) = free_list s"
  "outside_sweep (pool_vec s) = outside_sweep s" "pools_bounded s \<Longrightarrow> pools_bounded (pool_vec s)"
  by (simp_all add: pool_vec_def outside_sweep_def pools_bounded_def)

lemma pool_map_frame [simp]:
  "mem (pool_map s) = mem s" "head (pool_map s) = head s" "free_list (pool_map s) = free_list s"
  "outside_sweep (pool_map s) = outside_sweep s" "pools_bounded s \<Longrightarrow> pools_bounded (pool_map s)"
  by (simp_all add: pool_map_def outside_sweep_def pools_bounded_def)

lemma mem_write [simp]: "mem (write_obj p ob s) = (mem s)(p \<mapsto> ob)"
  and head_write [simp]: "head (write_obj p ob s) = head s"
  and free_list_write [simp]: "free_list (write_obj p ob s) = free_list s"
  by (simp_all add: write_obj_def)

lemma recycle_effect:
  assumes "mem s p = Some ob"
  obtains s' where "gc_recycle_data p s = Some s'"
    and "mem s' = (mem s)(p \<mapsto> ob\<lparr>obj_data := D_Empty\<rparr>)" and "head s' = head s"
    and "free_list s' = free_list s" and "outside_sweep s' = outside_sweep s"
    and "pools_bounded s \<longrightarrow> pools_bounded s'"
  using assms that
  by (cases "obj_data ob") (auto simp: gc_recycle_data_def deref_def)

lemma dealloc_effect:
  assumes "mem s p = Some ob"
  obtains s' where "gc_dealloc_object p s = Some s'"
    and "mem s' = (mem s)(p \<mapsto> ob\<lparr>obj_data := D_Empty\<rparr>)" and "head s' = head s"
    and "free_list s' = p # free_list s" and "outside_sweep s' = outside_sweep s"
    and "pools_bounded s \<longrightarrow> pools_bounded s'"
proof -
  obtain t where t: "gc_recycle_data p s = Some t"
    "mem t = (mem s)(p \<mapsto> ob\<lparr>obj_data := D_Empty\<rparr>)" "head t = head s"
    "free_list t = free_list s" "outside_sweep t = outside_sweep s"
    "pools_bounded s \<longrightarrow> pools_bounded t"
    using recycle_effect [OF assms] by blast
  show thesis
    by (rule that [of "t\<lparr>free_list := p # free_list t\<rparr>"])
      (use t in \<open>auto simp: gc_dealloc_object_def outside_sweep_def pools_bounded_def\<close>)
qed

section \<open>The sweep loop\<close>

definition marked :: "gc_state \<Rightarrow> u64 \<Rightarrow> bool" where
  "marked s p \<longleftrightarrow> p \<notin> coloured White s"

lemma marked_simp: "mem s p = Some ob \<Longrightarrow> marked s p \<longleftrightarrow> color ob \<noteq> White"
  by (simp add: marked_def coloured_def)

text \<open>What sweeping the cells \<open>xs\<close> does, cell by cell.\<close>

definition swept_cell :: "gc_object \<Rightarrow> gc_object \<Rightarrow> bool" where
  "swept_cell ob ob' \<longleftrightarrow> color ob' = White \<and>
     obj_data ob' = (if color ob = White then D_Empty else obj_data ob)"

definition swept :: "u64 list \<Rightarrow> u64 list \<Rightarrow> gc_state \<Rightarrow> gc_state \<Rightarrow> bool" where
  "swept ks xs s s' \<longleftrightarrow>
     obj_list (mem s') (head s') (ks @ filter (marked s) xs) \<and>
     (\<forall>x \<in> set xs. \<exists>ob ob'. mem s x = Some ob \<and> mem s' x = Some ob' \<and> swept_cell ob ob') \<and>
     (\<forall>x \<in> set ks. map_option (\<lambda>ob. (color ob, obj_data ob)) (mem s' x) =
        map_option (\<lambda>ob. (color ob, obj_data ob)) (mem s x)) \<and>
     (\<forall>x. x \<notin> set ks \<union> set xs \<longrightarrow> mem s' x = mem s x) \<and>
     free_list s' = rev (filter (\<lambda>x. \<not> marked s x) xs) @ free_list s \<and>
     outside_sweep s' = outside_sweep s \<and> (pools_bounded s \<longrightarrow> pools_bounded s')"

text \<open>Relinking a marked cell \<open>x\<close> behind the kept prefix \<open>ks\<close>.\<close>

definition appended :: "u64 list \<Rightarrow> u64 \<Rightarrow> gc_object \<Rightarrow> gc_state \<Rightarrow> gc_state \<Rightarrow> bool" where
  "appended ks x ob s t \<longleftrightarrow>
     obj_list (mem t) (head t) (ks @ [x]) \<and>
     (\<exists>n. mem t x = Some (ob\<lparr>color := White, nxt := n\<rparr>)) \<and>
     (\<forall>y \<in> set ks. map_option (\<lambda>ob. (color ob, obj_data ob)) (mem t y) =
        map_option (\<lambda>ob. (color ob, obj_data ob)) (mem s y)) \<and>
     (\<forall>y. y \<notin> set ks \<union> {x} \<longrightarrow> mem t y = mem s y) \<and>
     free_list t = free_list s \<and> outside_sweep t = outside_sweep s \<and>
     (pools_bounded s \<longrightarrow> pools_bounded t)"

lemma append_kept:
  assumes ks: "obj_list (mem s) (head s) ks" and x: "x \<noteq> 0" "x \<notin> set ks" "mem s x = Some ob"
    and d: "distinct ks" and prev: "prev = (if ks = [] then 0 else last ks)"
  shows "\<exists>t. (if prev = 0 then Some ((write_obj x (ob\<lparr>color := White, nxt := 0\<rparr>) s)\<lparr>head := x\<rparr>)
     else do { pob \<leftarrow> deref prev (write_obj x (ob\<lparr>color := White, nxt := 0\<rparr>) s);
               Some (write_obj prev (pob\<lparr>nxt := x\<rparr>)
                 (write_obj x (ob\<lparr>color := White, nxt := 0\<rparr>) s)) }) = Some t
     \<and> appended ks x ob s t"
proof (cases "ks = []")
  case True
  then show ?thesis using x prev by (auto simp: appended_def)
next
  case False
  let ?s1 = "write_obj x (ob\<lparr>color := White, nxt := 0\<rparr>) s"
  have l: "last ks \<in> set ks" and lx: "last ks \<noteq> x" using False x by auto
  then have nz: "last ks \<noteq> 0" using obj_list_nonzero ks by metis
  obtain pob where pob: "mem s (last ks) = Some pob" using l obj_list_dom [OF ks] by auto
  have "obj_list (mem ?s1) (head s) ks" using ks x by (auto intro: obj_list_frame)
  then have "obj_list ((mem ?s1)(last ks \<mapsto> pob\<lparr>nxt := x\<rparr>)) (head s) (ks @ [x])"
    using False d x lx pob by (auto intro!: obj_list_snoc)
  then have "appended ks x ob s (write_obj (last ks) (pob\<lparr>nxt := x\<rparr>) ?s1)"
    unfolding appended_def using lx l pob x
    by auto
  then show ?thesis using False nz prev pob lx by (simp add: deref_def)
qed

lemma swept_kept_step:
  assumes sw: "swept (ks @ [x]) xs t s'" and app: "appended ks x ob s t"
    and ob: "mem s x = Some ob" "color ob \<noteq> White" and x: "x \<notin> set ks" "x \<notin> set xs"
    and f: "filter (marked t) xs = filter (marked s) xs"
      "filter (\<lambda>y. \<not> marked t y) xs = filter (\<lambda>y. \<not> marked s y) xs"
    and d: "set ks \<inter> set xs = {}"
  shows "swept ks (x # xs) s s'"
proof -
  have frame: "mem t y = mem s y" if "y \<in> set xs" for y
    using app x d that unfolding appended_def by auto
  obtain ox where "mem s' x = Some ox" "color ox = White" "obj_data ox = obj_data ob"
    using sw app unfolding swept_def appended_def by auto
  then have "\<forall>y \<in> set (x # xs). \<exists>ob ob'. mem s y = Some ob \<and> mem s' y = Some ob' \<and> swept_cell ob ob'"
    using sw ob frame unfolding swept_def by (auto simp: swept_cell_def)
  then show ?thesis
    using sw app ob x d f unfolding swept_def appended_def by (simp add: marked_simp)
qed

lemma swept_freed_step:
  assumes sw: "swept ks xs t s'" and mt: "mem t = (mem s)(x \<mapsto> ob\<lparr>obj_data := D_Empty\<rparr>)"
    and ob: "mem s x = Some ob" "color ob = White" and x: "x \<notin> set ks" "x \<notin> set xs"
    and f: "filter (marked t) xs = filter (marked s) xs"
      "filter (\<lambda>y. \<not> marked t y) xs = filter (\<lambda>y. \<not> marked s y) xs"
    and t: "free_list t = x # free_list s" "outside_sweep t = outside_sweep s"
      "pools_bounded s \<longrightarrow> pools_bounded t"
  shows "swept ks (x # xs) s s'"
proof -
  have frame: "mem t y = mem s y" if "y \<noteq> x" for y using mt that by simp
  have "mem s' x = Some (ob\<lparr>obj_data := D_Empty\<rparr>)"
    using sw mt x unfolding swept_def by auto
  moreover have "\<exists>oy oy'. mem s y = Some oy \<and> mem s' y = Some oy' \<and> swept_cell oy oy'"
    if "y \<in> set xs" for y
  proof -
    have "y \<noteq> x" using that x by auto
    then show ?thesis using sw that frame unfolding swept_def by fastforce
  qed
  ultimately have "\<forall>y \<in> set (x # xs). \<exists>oy oy'. mem s y = Some oy \<and> mem s' y = Some oy' \<and> swept_cell oy oy'"
    using ob by (auto simp: swept_cell_def)
  moreover have "map_option (\<lambda>ob. (color ob, obj_data ob)) (mem s' y) =
      map_option (\<lambda>ob. (color ob, obj_data ob)) (mem s y)" if "y \<in> set ks" for y
  proof -
    have "y \<noteq> x" using that x by auto
    then show ?thesis using sw that frame unfolding swept_def by simp
  qed
  moreover have "mem s' y = mem s y" if "y \<notin> set ks \<union> set (x # xs)" for y
    using sw that frame [of y] unfolding swept_def by auto
  ultimately show ?thesis
    using sw ob t f unfolding swept_def by (simp add: marked_simp)
qed

lemma sweep_list_kept:
  assumes "mem s x = Some ob" and "x \<noteq> 0" and "color ob \<noteq> White"
  shows "sweep_list x prev s =
    (if prev = 0 then Some ((write_obj x (ob\<lparr>color := White, nxt := 0\<rparr>) s)\<lparr>head := x\<rparr>)
     else do { pob \<leftarrow> deref prev (write_obj x (ob\<lparr>color := White, nxt := 0\<rparr>) s);
               Some (write_obj prev (pob\<lparr>nxt := x\<rparr>)
                 (write_obj x (ob\<lparr>color := White, nxt := 0\<rparr>) s)) })
    \<bind> sweep_list (nxt ob) x"
  using assms by (subst sweep_list.simps) (simp add: deref_def [of x] Let_def)

lemma sweep_list_correct:
  assumes "obj_list (mem s) cur xs" and "obj_list (mem s) (head s) ks"
    and "distinct (ks @ xs)" and "prev = (if ks = [] then 0 else last ks)"
  shows "\<exists>s'. sweep_list cur prev s = Some s' \<and> swept ks xs s s'"
  using assms
proof (induction xs arbitrary: cur prev s ks)
  case Nil
  then show ?case by (simp add: sweep_list.simps swept_def)
next
  case (Cons x xs)
  then obtain ob where ob: "mem s x = Some ob" and x: "cur = x" "x \<noteq> 0" "x \<notin> set ks" "x \<notin> set xs"
    and rest: "obj_list (mem s) (nxt ob) xs" by auto
  show ?case
  proof (cases "color ob = White")
    case True
    obtain t where t: "gc_dealloc_object x s = Some t"
      "mem t = (mem s)(x \<mapsto> ob\<lparr>obj_data := D_Empty\<rparr>)" "head t = head s"
      "free_list t = x # free_list s" "outside_sweep t = outside_sweep s"
      "pools_bounded s \<longrightarrow> pools_bounded t"
      using dealloc_effect [OF ob] by blast
    have "obj_list (mem t) (nxt ob) xs" "obj_list (mem t) (head t) ks"
      using t x rest Cons.prems by (auto intro: obj_list_frame)
    then obtain s' where s': "sweep_list (nxt ob) prev t = Some s'" "swept ks xs t s'"
      using Cons.IH [of t "nxt ob" ks prev] Cons.prems by auto
    have eq: "\<And>y. y \<in> set xs \<Longrightarrow> marked t y = marked s y"
      using t x by (auto simp: marked_def coloured_def)
    then have f: "filter (marked t) xs = filter (marked s) xs"
      "filter (\<lambda>y. \<not> marked t y) xs = filter (\<lambda>y. \<not> marked s y) xs"
      by (auto intro: filter_cong)
    have "swept ks (x # xs) s s'"
      by (rule swept_freed_step [OF s'(2) t(2) ob True x(3,4) f t(4-6)])
    moreover have "sweep_list cur prev s = Some s'"
      using s' t x ob True by (subst sweep_list.simps) (simp add: deref_def)
    ultimately show ?thesis by blast
  next
    case False
    obtain t where t:
      "(if prev = 0 then Some ((write_obj x (ob\<lparr>color := White, nxt := 0\<rparr>) s)\<lparr>head := x\<rparr>)
        else do { pob \<leftarrow> deref prev (write_obj x (ob\<lparr>color := White, nxt := 0\<rparr>) s);
                  Some (write_obj prev (pob\<lparr>nxt := x\<rparr>)
                    (write_obj x (ob\<lparr>color := White, nxt := 0\<rparr>) s)) }) = Some t"
      and app: "appended ks x ob s t"
      using append_kept [OF Cons.prems(2) x(2,3) ob] Cons.prems by auto
    have "\<forall>y \<in> set xs. mem t y = mem s y"
      using app x Cons.prems unfolding appended_def by auto
    with rest have "obj_list (mem t) (nxt ob) xs" by (rule obj_list_frame)
    then obtain s' where s': "sweep_list (nxt ob) x t = Some s'" "swept (ks @ [x]) xs t s'"
      using Cons.IH [of t "nxt ob" "ks @ [x]" x] Cons.prems app unfolding appended_def by auto
    have "marked t y = marked s y" if "y \<in> set xs" for y
    proof -
      have "mem t y = mem s y" using that app x Cons.prems unfolding appended_def by auto
      then show ?thesis by (simp add: marked_def coloured_def)
    qed
    then have f: "filter (marked t) xs = filter (marked s) xs"
      "filter (\<lambda>y. \<not> marked t y) xs = filter (\<lambda>y. \<not> marked s y) xs"
      by (auto intro: filter_cong)
    have "swept ks (x # xs) s s'" by (rule swept_kept_step [OF s'(2) app ob False x(3,4) f]) (use Cons.prems in auto)
    moreover have "sweep_list cur prev s = Some s'"
      by (simp only: sweep_list_kept [of s x ob prev, OF ob x(2) False] x(1) t s'(1) Option.bind.simps(2))
    ultimately show ?thesis by blast
  qed
qed

end
