(* ===== verification/Gc_Collect.thy ===== *)
theory Gc_Collect
  imports Gc_Sweep
begin

text \<open>
  The heap between collections: the invariant \<open>wf_heap\<close>, what \<^verbatim>\<open>gc_allocate\<close>,
  \<^verbatim>\<open>intern_string\<close>, the write barrier and \<^verbatim>\<open>gc_free_all\<close> do to it, and the correctness
  of a whole \<^verbatim>\<open>collect_garbage\<close>.
\<close>

section \<open>The heap invariant\<close>

text \<open>The cells still to be handed out of the current chunk: \<open>n\<close> of them, \<open>osz\<close> bytes apart.\<close>

fun chunk_cells :: "u64 \<Rightarrow> u64 \<Rightarrow> nat \<Rightarrow> u64 list" where
  "chunk_cells osz p 0 = []"
| "chunk_cells osz p (Suc n) = p # chunk_cells osz (p + osz) n"

definition fresh_chunk :: "u64 \<Rightarrow> u64 \<Rightarrow> nat \<Rightarrow> gc_state \<Rightarrow> bool" where
  "fresh_chunk osz p n s \<longleftrightarrow> distinct (chunk_cells osz p n) \<and> 0 \<notin> set (chunk_cells osz p n) \<and>
     set (chunk_cells osz p n) \<inter> dom (mem s) = {}"

definition cache_ok :: "u64 set \<Rightarrow> gc_state \<Rightarrow> bool" where
  "cache_ok L s \<longleftrightarrow> distinct (map fst (string_cache s)) \<and>
     (\<forall>t p. (t, p) \<in> set (string_cache s) \<longrightarrow>
        p \<in> L \<and> map_option obj_data (mem s p) = Some (D_String t))"

text \<open>
  \<open>wf_heap osz s xs\<close>: no collection is under way; \<open>xs\<close> are the allocated cells in list order;
  every written cell is either on the list or free, never both; free cells are empty; live cells
  refer only to live cells; the string cache points to live strings.
\<close>

definition wf_heap :: "u64 \<Rightarrow> gc_state \<Rightarrow> u64 list \<Rightarrow> bool" where
  "wf_heap osz s xs \<longleftrightarrow>
     obj_list (mem s) (head s) xs \<and> distinct xs \<and>
     dom (mem s) = set xs \<union> set (free_list s) \<and> set xs \<inter> set (free_list s) = {} \<and>
     distinct (free_list s) \<and> 0 \<notin> set (free_list s) \<and>
     (\<forall>p \<in> set (free_list s). map_option obj_data (mem s p) = Some D_Empty) \<and>
     coloured White s = dom (mem s) \<and> closed_under_refs (set xs) s \<and> cache_ok (set xs) s \<and>
     fresh_chunk osz (current_chunk_ptr s) (chunk_remaining s) s \<and> pools_bounded s"

lemma wf_heap_init: "wf_heap osz gc_init []"
  unfolding wf_heap_def gc_init_def coloured_def closed_under_refs_def cache_ok_def
      fresh_chunk_def pools_bounded_def by simp

lemma wf_heap_unique: "wf_heap osz s xs \<Longrightarrow> wf_heap osz s ys \<Longrightarrow> xs = ys"
  unfolding wf_heap_def by (elim conjE) (rule obj_list_unique)

section \<open>Allocation\<close>

text \<open>What the source expects of the system allocator when it asks for a new chunk.\<close>

definition chunk_grant :: "u64 \<Rightarrow> u64 \<Rightarrow> gc_state \<Rightarrow> bool" where
  "chunk_grant osz raw s \<longleftrightarrow> raw \<noteq> 0 \<and> fresh_chunk osz raw CHUNK_COUNT s"

lemma fresh_chunk_step:
  assumes "fresh_chunk osz p (Suc n) s"
    and "mem t = (mem s)(p \<mapsto> ob)"
  shows "fresh_chunk osz (p + osz) n t \<and> p \<noteq> 0 \<and> p \<notin> dom (mem s)"
  using assms unfolding fresh_chunk_def by auto

lemma fresh_chunk_reuse:
  assumes "fresh_chunk osz p n s" and "dom (mem t) = dom (mem s)"
  shows "fresh_chunk osz p n t"
  using assms unfolding fresh_chunk_def by simp

lemma alloc_object_effect:
  assumes wf: "wf_heap osz s xs" and "chunk_grant osz raw s"
  obtains p t where "gc_alloc_object osz raw d s = Some (p, t)"
    and "p \<noteq> 0" and "p \<notin> set xs" and "mem t = (mem s)(p \<mapsto> fresh_object d)"
    and "head t = head s" and "free_list t = tl (free_list s)"
    and "p \<in> set (free_list s) \<longrightarrow> p \<notin> set (free_list t)"
    and "set (free_list s) \<subseteq> insert p (set (free_list t))"
    and "fresh_chunk osz (current_chunk_ptr t) (chunk_remaining t) t"
    and "string_cache t = string_cache s" and "pools_bounded t"
    and "p \<notin> set (free_list t)"
proof (cases "free_list s")
  case (Cons p ps)
  let ?t = "write_obj p (fresh_object d) (s\<lparr>free_list := ps\<rparr>)"
  have "dom (mem ?t) = dom (mem s)" using wf Cons unfolding wf_heap_def by auto
  then have "fresh_chunk osz (current_chunk_ptr s) (chunk_remaining s) ?t"
    using wf fresh_chunk_reuse unfolding wf_heap_def by blast
  then show thesis
    by (intro that [of p ?t])
      (use wf Cons in \<open>auto simp: wf_heap_def gc_alloc_object_def write_obj_def pools_bounded_def\<close>)
next
  case Nil
  show thesis
  proof (cases "chunk_remaining s")
    case (Suc n)
    let ?p = "current_chunk_ptr s"
    let ?t = "write_obj ?p (fresh_object d)
      (s\<lparr>current_chunk_ptr := ?p + osz, chunk_remaining := chunk_remaining s - 1\<rparr>)"
    have "fresh_chunk osz ?p (Suc n) s" using wf Suc unfolding wf_heap_def by simp
    from fresh_chunk_step [OF this, of ?t "fresh_object d"]
    show thesis
      by (intro that [of ?p ?t])
        (use wf Nil Suc in \<open>auto simp: wf_heap_def gc_alloc_object_def write_obj_def pools_bounded_def Let_def\<close>)
  next
    case 0
    let ?t = "write_obj raw (fresh_object d)
      (s\<lparr>chunks := chunks s @ [raw], current_chunk_ptr := raw + osz,
         chunk_remaining := CHUNK_COUNT - 1\<rparr>)"
    have "fresh_chunk osz raw (Suc (CHUNK_COUNT - 1)) s" and raw: "raw \<noteq> 0"
      using assms(2) unfolding chunk_grant_def CHUNK_COUNT_def by simp_all
    from fresh_chunk_step [OF this(1), of ?t "fresh_object d"]
    show thesis
      by (intro that [of raw ?t])
        (use wf Nil 0 raw in \<open>auto simp: wf_heap_def gc_alloc_object_def write_obj_def pools_bounded_def\<close>)
  qed
qed

lemma bump_frame [simp]:
  "mem (bump_alloc_count s) = mem s" "head (bump_alloc_count s) = head s"
  "free_list (bump_alloc_count s) = free_list s"
  "current_chunk_ptr (bump_alloc_count s) = current_chunk_ptr s"
  "chunk_remaining (bump_alloc_count s) = chunk_remaining s"
  "string_cache (bump_alloc_count s) = string_cache s"
  "vector_pool (bump_alloc_count s) = vector_pool s" "map_pool (bump_alloc_count s) = map_pool s"
  by (simp_all add: bump_alloc_count_def Let_def)

lemma wf_heap_congI:
  assumes "wf_heap osz s xs" and "mem t = mem s" "head t = head s" "free_list t = free_list s"
    and "current_chunk_ptr t = current_chunk_ptr s" "chunk_remaining t = chunk_remaining s"
    and "cache_ok (set xs) t" and "pools_bounded t"
  shows "wf_heap osz t xs"
proof -
  have "coloured White t = coloured White s" and "\<And>L. closed_under_refs L t = closed_under_refs L s"
    and "\<And>p n. fresh_chunk osz p n t = fresh_chunk osz p n s"
    by (simp_all add: coloured_def closed_under_refs_def fresh_chunk_def assms(2))
  note eqs = this
  show ?thesis using assms(1,7,8) unfolding wf_heap_def eqs assms(2-6) by (elim conjE, intro conjI)
qed

lemma wf_heap_cong:
  assumes "wf_heap osz s xs" and "mem t = mem s" "head t = head s" "free_list t = free_list s"
    and "current_chunk_ptr t = current_chunk_ptr s" "chunk_remaining t = chunk_remaining s"
    and "string_cache t = string_cache s" and "pools_bounded t"
  shows "wf_heap osz t xs"
proof (rule wf_heap_congI [OF assms(1-6) _ assms(8)])
  have "cache_ok (set xs) s" using assms(1) unfolding wf_heap_def by simp
  then show "cache_ok (set xs) t" by (simp add: cache_ok_def assms(2,7))
qed

text \<open>
  Allocation returns a new cell that holds the data, at the front of the list, and leaves every
  other cell as it was.
\<close>

definition allocated :: "gc_data \<Rightarrow> u64 \<Rightarrow> gc_state \<Rightarrow> gc_state \<Rightarrow> bool" where
  "allocated d p s s' \<longleftrightarrow>
     p \<noteq> 0 \<and> mem s' = (mem s)(p \<mapsto> (fresh_object d)\<lparr>nxt := head s\<rparr>) \<and> head s' = p \<and>
     string_cache s' = string_cache s"

lemma link_new_cell:
  assumes wf: "wf_heap osz s xs" and t: "p \<noteq> 0" "p \<notin> set xs" "mem t = (mem s)(p \<mapsto> fresh_object d)"
    "head t = head s" "free_list t = tl (free_list s)"
    "set (free_list s) \<subseteq> insert p (set (free_list t))"
    "fresh_chunk osz (current_chunk_ptr t) (chunk_remaining t) t"
    "string_cache t = string_cache s" "pools_bounded t" "p \<notin> set (free_list t)"
    and d: "set (traced d) \<subseteq> insert p (set xs)"
    and u: "mem u = (mem t)(p \<mapsto> (fresh_object d)\<lparr>nxt := head s\<rparr>)" "head u = p"
      "free_list u = free_list t" "current_chunk_ptr u = current_chunk_ptr t"
      "chunk_remaining u = chunk_remaining t" "string_cache u = string_cache t" "pools_bounded u"
  shows "wf_heap osz u (p # xs) \<and> allocated d p s u"
proof -
  have m: "mem u = (mem s)(p \<mapsto> (fresh_object d)\<lparr>nxt := head s\<rparr>)" using t u by simp
  have frame: "mem u q = mem s q" if "q \<noteq> p" for q using m that by simp
  have ol: "obj_list (mem u) (head u) (p # xs)"
    using wf t u(2) m unfolding wf_heap_def by (auto intro: obj_list_frame)
  have fl: "set (free_list u) \<subseteq> set (free_list s)" "distinct (free_list u)"
    using wf t u unfolding wf_heap_def by (auto simp: distinct_tl dest: list.set_sel(2)[rotated])
      (metis list.set_sel(2) list.sel(2))
  have dm: "dom (mem u) = set (p # xs) \<union> set (free_list u)"
    using wf t u fl m unfolding wf_heap_def by auto
  have "u = write_obj p ((fresh_object d)\<lparr>nxt := head s\<rparr>) (u\<lparr>mem := mem s\<rparr>)"
    using m by (simp add: write_obj_def)
  then have cw: "coloured White u = insert p (coloured White s)"
    using coloured_write [of White p "(fresh_object d)\<lparr>nxt := head s\<rparr>" "u\<lparr>mem := mem s\<rparr>"]
    by (simp add: fresh_object_def coloured_def)
  have "coloured White s = dom (mem s)" "closed_under_refs (set xs) s" "cache_ok (set xs) s"
    "\<forall>p\<in>set (free_list s). map_option obj_data (mem s p) = Some D_Empty"
    using wf unfolding wf_heap_def by simp_all
  note w = this
  have "coloured White u = dom (mem u)" using cw w(1) m by simp
  moreover have "closed_under_refs (set (p # xs)) u"
    unfolding closed_under_refs_def
  proof (intro conjI allI impI)
    show "set (p # xs) \<subseteq> dom (mem u)" using dm by blast
    fix q ob assume q: "q \<in> set (p # xs)" "mem u q = Some ob"
    show "set (traced (obj_data ob)) \<subseteq> set (p # xs)"
    proof (cases "q = p")
      case True
      then show ?thesis using q d m by (auto simp: fresh_object_def)
    next
      case False
      then have "q \<in> set xs" "mem s q = Some ob" using q frame [of q] by auto
      then have "set (traced (obj_data ob)) \<subseteq> set xs"
        using w(2) unfolding closed_under_refs_def by blast
      then show ?thesis by auto
    qed
  qed
  moreover have "cache_ok (set (p # xs)) u"
    unfolding cache_ok_def
  proof (intro conjI allI impI)
    have sc: "string_cache u = string_cache s" using t u by simp
    show "distinct (map fst (string_cache u))" using w(3) sc unfolding cache_ok_def by simp
    fix k q assume "(k, q) \<in> set (string_cache u)"
    then have "q \<in> set xs \<and> map_option obj_data (mem s q) = Some (D_String k)"
      using w(3) sc unfolding cache_ok_def by metis
    moreover from this t(2) have "q \<noteq> p" by auto
    ultimately show "q \<in> set (p # xs)" "map_option obj_data (mem u q) = Some (D_String k)"
      using frame [of q] by auto
  qed
  moreover have "fresh_chunk osz (current_chunk_ptr u) (chunk_remaining u) u"
    using t(7) u(4,5) u(1) t(3) unfolding fresh_chunk_def by auto
  moreover have "\<forall>q \<in> set (free_list u). map_option obj_data (mem u q) = Some D_Empty"
  proof
    fix q assume q: "q \<in> set (free_list u)"
    then have "q \<noteq> p" using t(10) u(3) by auto
    then show "map_option obj_data (mem u q) = Some D_Empty" using w(4) q fl(1) frame by auto
  qed
  ultimately have "wf_heap osz u (p # xs)"
    using ol wf t u fl dm unfolding wf_heap_def by auto
  then show ?thesis using m t u unfolding allocated_def by simp
qed

lemma allocate_correct:
  assumes wf: "wf_heap osz s xs" and gr: "chunk_grant osz raw s" and d: "set (traced d) \<subseteq> set xs"
  shows "\<exists>p s'. gc_allocate osz raw d s = Some (p, s') \<and> p \<notin> set xs \<and>
    wf_heap osz s' (p # xs) \<and> allocated d p s s'"
proof -
  obtain p t where t: "gc_alloc_object osz raw d s = Some (p, t)"
    "p \<noteq> 0" "p \<notin> set xs" "mem t = (mem s)(p \<mapsto> fresh_object d)"
    "head t = head s" "free_list t = tl (free_list s)"
    "set (free_list s) \<subseteq> insert p (set (free_list t))"
    "fresh_chunk osz (current_chunk_ptr t) (chunk_remaining t) t"
    "string_cache t = string_cache s" "pools_bounded t" "p \<notin> set (free_list t)"
    using alloc_object_effect [OF wf gr, of d] by metis
  define u0 where "u0 = (write_obj p ((fresh_object d)\<lparr>nxt := head t\<rparr>) t)\<lparr>head := p\<rparr>"
  define u where "u = bump_alloc_count
    (if phase u0 = Sweep \<and> prev_sweep_ptr u0 = 0 then u0\<lparr>prev_sweep_ptr := p\<rparr> else u0)"
  have "gc_allocate osz raw d s = Some (p, u)"
    using t by (simp add: gc_allocate_def deref_def u_def u0_def Let_def)
  moreover have "wf_heap osz u (p # xs) \<and> allocated d p s u"
    by (rule link_new_cell [OF wf t(2-11)])
      (use t d in \<open>auto simp: u_def u0_def pools_bounded_def write_obj_def\<close>)
  ultimately show ?thesis using t by blast
qed

lemma alloc_array_correct:
  assumes wf: "wf_heap osz s xs" and gr: "chunk_grant osz raw s"
    and d: "set (concat (map vptr vs)) \<subseteq> set xs"
  shows "\<exists>p s'. gc_alloc_array osz raw vs s = Some (p, s') \<and> p \<notin> set xs \<and>
    wf_heap osz s' (p # xs) \<and> allocated (D_Array vs) p s s'"
proof -
  define s1 where "s1 = s\<lparr>vector_pool := butlast (vector_pool s)\<rparr>"
  have wf1: "wf_heap osz s1 xs"
    using wf by (rule wf_heap_cong) (use wf in \<open>auto simp: s1_def wf_heap_def pools_bounded_def\<close>)
  have gr1: "chunk_grant osz raw s1" using gr by (simp add: chunk_grant_def fresh_chunk_def s1_def)
  obtain p t where t: "gc_alloc_object osz raw (D_Array vs) s1 = Some (p, t)"
    "p \<noteq> 0" "p \<notin> set xs" "mem t = (mem s1)(p \<mapsto> fresh_object (D_Array vs))"
    "head t = head s1" "free_list t = tl (free_list s1)"
    "set (free_list s1) \<subseteq> insert p (set (free_list t))"
    "fresh_chunk osz (current_chunk_ptr t) (chunk_remaining t) t"
    "string_cache t = string_cache s1" "pools_bounded t" "p \<notin> set (free_list t)"
    using alloc_object_effect [OF wf1 gr1, of "D_Array vs"] by metis
  define u where "u = bump_alloc_count
    ((write_obj p ((fresh_object (D_Array vs))\<lparr>nxt := head t\<rparr>) t)\<lparr>head := p\<rparr>)"
  have "gc_alloc_array osz raw vs s = Some (p, u)"
    using t by (simp add: gc_alloc_array_def deref_def u_def Let_def flip: s1_def)
  moreover have "wf_heap osz u (p # xs) \<and> allocated (D_Array vs) p s1 u"
    by (rule link_new_cell [OF wf1 t(2-11)])
      (use t d in \<open>auto simp: u_def pools_bounded_def write_obj_def\<close>)
  moreover have "allocated (D_Array vs) p s1 u = allocated (D_Array vs) p s u"
    by (simp add: allocated_def s1_def)
  ultimately show ?thesis using t by blast
qed

section \<open>String interning\<close>

text \<open>C7: Interning a string succeeds and keeps the heap invariant; the pointer it returns is a live
  cell holding exactly that text and is the one the cache now maps the text to; at most one
  cell is allocated, and none when the text was already interned; no live cell changes.\<close>

theorem intern_correct:
  assumes wf: "wf_heap osz s xs" and gr: "chunk_grant osz raw s"
  shows "\<exists>p s' ys. intern_string osz raw t s = Some (p, s') \<and> wf_heap osz s' (ys @ xs) \<and>
    p \<in> set (ys @ xs) \<and> heap_str s' p = Some t \<and> map_of (string_cache s') t = Some p \<and>
    length ys \<le> 1 \<and> (\<forall>q \<in> set xs. mem s' q = mem s q)"
proof (cases "map_of (string_cache s) t")
  case (Some p)
  then have "(t, p) \<in> set (string_cache s)" by (rule map_of_SomeD)
  then have "p \<in> set xs" "map_option obj_data (mem s p) = Some (D_String t)"
    using wf unfolding wf_heap_def cache_ok_def by metis+
  then show ?thesis using Some wf
    by (intro exI [of _ p] exI [of _ s] exI [of _ "[]"])
      (auto simp: intern_string_def heap_str_def deref_def)
next
  case None
  obtain p u where u: "gc_allocate osz raw (D_String t) s = Some (p, u)" "p \<notin> set xs"
    "wf_heap osz u (p # xs)" "allocated (D_String t) p s u"
    using allocate_correct [OF wf gr, of "D_String t"] by auto
  define s' where "s' = u\<lparr>string_cache := (t, p) # string_cache u\<rparr>"
  have mp: "mem u p = Some ((fresh_object (D_String t))\<lparr>nxt := head s\<rparr>)"
    using u(4) unfolding allocated_def by simp
  have "cache_ok (set (p # xs)) s'"
    using u None mp unfolding wf_heap_def cache_ok_def allocated_def
    by (auto simp: s'_def fresh_object_def map_of_eq_None_iff)
  then have "wf_heap osz s' (p # xs)"
    by (intro wf_heap_congI [OF u(3)])
      (use u(3) in \<open>simp_all add: s'_def wf_heap_def pools_bounded_def\<close>)
  moreover have "heap_str s' p = Some t"
    using mp by (simp add: s'_def heap_str_def deref_def fresh_object_def)
  moreover have "\<forall>q \<in> set xs. mem s' q = mem s q"
    using u unfolding allocated_def by (auto simp: s'_def)
  ultimately show ?thesis using None u
    by (intro exI [of _ p] exI [of _ s'] exI [of _ "[p]"])
      (auto simp: intern_string_def gc_alloc_string_def s'_def)
qed

section \<open>Collection\<close>

lemma retain_marked_filter:
  "(\<forall>t p. (t, p) \<in> set es \<longrightarrow> p \<noteq> 0 \<and> p \<in> dom (mem s)) \<Longrightarrow>
     retain_marked s es = Some (filter (\<lambda>(t, p). marked s p) es)"
proof (induction s es rule: retain_marked.induct)
  case (2 s t p es)
  then have "p \<noteq> 0" "p \<in> dom (mem s)" by auto
  moreover from this obtain ob where "mem s p = Some ob" by auto
  moreover have "retain_marked s es = Some (filter (\<lambda>(t, p). marked s p) es)"
    using 2 by (auto simp: deref_def)
  ultimately show ?case by (simp add: deref_def marked_simp)
qed simp

definition root_ptrs :: "gc_root list \<Rightarrow> u64 set" where
  "root_ptrs rs = set (concat (map root_ptr rs))"

lemma zero_notin_root_ptrs: "0 \<notin> root_ptrs rs"
  by (auto simp: root_ptrs_def)

text \<open>The state after marking, as one statement.\<close>

lemma mark_phase:
  assumes wf: "wf_heap osz s xs" and r: "root_ptrs rs \<subseteq> set xs"
  obtains t u where "mark_roots rs (s\<lparr>gray_stack := []\<rparr>) = Some t" and "drain_gray t = Some u"
    and "same_heap (s\<lparr>gray_stack := []\<rparr>) u" and "gray_stack u = []"
    and "coloured White u = dom (mem s) - reach s (root_ptrs rs)"
    and "dom (mem u) = dom (mem s)"
proof -
  let ?s = "s\<lparr>gray_stack := []\<rparr>"
  have cl: "closed_under_refs (set xs) ?s" and cw: "coloured White ?s = dom (mem ?s)"
    and fin: "finite (dom (mem ?s))" and nz: "0 \<notin> set xs"
    using wf obj_list_nonzero unfolding wf_heap_def by (auto simp: closed_under_refs_def)
  obtain t where t: "mark_roots rs ?s = Some t" "marking (set xs) (root_ptrs rs) ?s t"
    using roots_start_marking [OF cl cw, of "concat (map root_ptr rs)"] r zero_notin_root_ptrs [of rs]
    unfolding mark_roots_ptrs root_ptrs_def by auto
  obtain u where u: "drain_gray t = Some u" "marking (set xs) (root_ptrs rs) ?s u" "gray_stack u = []"
    using drain_gray_marks [OF t(2) nz fin] by blast
  have sh: "same_heap ?s u" using u unfolding marking_def by blast
  then have d: "dom (mem u) = dom (mem ?s)" by (rule same_heap_dom)
  have "reach ?s (root_ptrs rs) = reach s (root_ptrs rs)"
    by (auto intro: reach_skeleton simp: skeleton_def fun_eq_iff)
  then have "coloured White u = dom (mem s) - reach s (root_ptrs rs)"
    using marking_finished [OF u(2,3) d [symmetric]] d by simp
  with d show thesis by (intro that [OF t(1) u(1) sh u(3)]) auto
qed

text \<open>
  A collection from a well-formed heap succeeds. What remains on the list is what the roots reach,
  in the old order; each of those cells holds the data it held; every other listed cell is empty and
  free; the string cache has lost exactly the entries of dead strings.
\<close>

definition collected :: "u64 \<Rightarrow> gc_root list \<Rightarrow> gc_state \<Rightarrow> u64 list \<Rightarrow> gc_state \<Rightarrow> bool" where
  "collected osz rs s xs s' \<longleftrightarrow>
     wf_heap osz s' (filter (\<lambda>p. p \<in> reach s (root_ptrs rs)) xs) \<and>
     (\<forall>p \<in> reach s (root_ptrs rs). map_option obj_data (mem s' p) = map_option obj_data (mem s p)) \<and>
     set (free_list s') = set (free_list s) \<union> (set xs - reach s (root_ptrs rs)) \<and>
     string_cache s' = filter (\<lambda>(t, p). p \<in> reach s (root_ptrs rs)) (string_cache s) \<and>
     live_count s' = length (filter (\<lambda>p. p \<in> reach s (root_ptrs rs)) xs) \<and>
     alloc_threshold s' = clamp_threshold (live_count s') \<and> alloc_count s' = 0 \<and>
     phase s' = Pause \<and> gray_stack s' = [] \<and> \<not> needs_step s'"

lemma skeleton_data:
  assumes "skeleton t = skeleton s"
  shows "map_option obj_data (mem t p) = map_option obj_data (mem s p)"
    and "map_option nxt (mem t p) = map_option nxt (mem s p)"
proof -
  have "skeleton t p = skeleton s p" using assms by simp
  then show "map_option obj_data (mem t p) = map_option obj_data (mem s p)"
    "map_option nxt (mem t p) = map_option nxt (mem s p)"
    by (cases "mem t p"; cases "mem s p"; simp add: skeleton_def)+
qed

text \<open>What the sweep leaves, in terms of the state before marking.\<close>

lemma swept_heap:
  assumes wf: "wf_heap osz s xs" and sub: "L \<subseteq> set xs" and cl: "closed_under_refs L s"
    and sk: "skeleton u = skeleton s" and cw: "coloured White u = dom (mem s) - L"
    and pb: "pools_bounded u" "free_list u = free_list s"
    and sw: "swept [] xs u v"
  shows "obj_list (mem v) (head v) (filter (\<lambda>p. p \<in> L) xs)"
    and "coloured White v = dom (mem v)" and "dom (mem v) = dom (mem s)"
    and "\<And>p. p \<in> L \<Longrightarrow> map_option obj_data (mem v p) = map_option obj_data (mem s p)"
    and "\<And>p. p \<in> dom (mem s) - L \<Longrightarrow> map_option obj_data (mem v p) = Some D_Empty"
    and "free_list v = rev (filter (\<lambda>p. p \<notin> L) xs) @ free_list s"
    and "closed_under_refs L v" and "outside_sweep v = outside_sweep u" and "pools_bounded v"
proof -
  have dm: "dom (mem s) = set xs \<union> set (free_list s)" and disj: "set xs \<inter> set (free_list s) = {}"
    and emp: "\<And>p. p \<in> set (free_list s) \<Longrightarrow> map_option obj_data (mem s p) = Some D_Empty"
    using wf unfolding wf_heap_def by blast+
  have mk: "marked u p \<longleftrightarrow> p \<in> L" if "p \<in> set xs" for p
    using that dm sub by (auto simp: marked_def cw)
  have f: "filter (marked u) xs = filter (\<lambda>p. p \<in> L) xs"
    "filter (\<lambda>p. \<not> marked u p) xs = filter (\<lambda>p. p \<notin> L) xs"
    using mk by (auto intro: filter_cong)
  show "obj_list (mem v) (head v) (filter (\<lambda>p. p \<in> L) xs)"
    "free_list v = rev (filter (\<lambda>p. p \<notin> L) xs) @ free_list s"
    "outside_sweep v = outside_sweep u" "pools_bounded v"
    using sw pb unfolding swept_def f by simp_all
  have cell: "\<exists>ob ob'. mem u p = Some ob \<and> mem v p = Some ob' \<and> swept_cell ob ob'" if "p \<in> set xs" for p
    using sw that unfolding swept_def by blast
  have other: "mem v p = mem u p" if "p \<notin> set xs" for p
    using sw that unfolding swept_def by simp
  have du: "dom (mem u) = dom (mem s)" using sk by (rule skeleton_dom)
  have ux: "set xs \<subseteq> dom (mem u)" using du dm by blast
  have vx: "set xs \<subseteq> dom (mem v)" using cell by blast
  show dv: "dom (mem v) = dom (mem s)"
    using ux vx other du unfolding dom_def by (metis (mono_tags, lifting) Collect_cong mem_Collect_eq subsetD)
  show "coloured White v = dom (mem v)"
  proof -
    have "p \<in> coloured White v" if p: "p \<in> dom (mem v)" for p
    proof (cases "p \<in> set xs")
      case True
      then show ?thesis using cell [OF True] by (auto simp: coloured_def swept_cell_def)
    next
      case False
      then have "p \<in> coloured White u" using p dv sub cw by blast
      then show ?thesis using other [OF False] by (simp add: coloured_def)
    qed
    then show ?thesis using coloured_dom by blast
  qed
  show dL: "map_option obj_data (mem v p) = map_option obj_data (mem s p)" if p: "p \<in> L" for p
  proof -
    have "p \<in> set xs" using p sub by blast
    then obtain ob ob' where o: "mem u p = Some ob" "mem v p = Some ob'" "swept_cell ob ob'"
      using cell by blast
    have "p \<notin> coloured White u" using p cw by blast
    then have "color ob \<noteq> White" using o by (simp add: coloured_def)
    then show ?thesis using o skeleton_data(1) [OF sk, of p] by (simp add: swept_cell_def)
  qed
  show "map_option obj_data (mem v p) = Some D_Empty" if "p \<in> dom (mem s) - L" for p
  proof (cases "p \<in> set xs")
    case True
    then obtain ob ob' where o: "mem u p = Some ob" "mem v p = Some ob'" "swept_cell ob ob'"
      using cell by blast
    have "p \<in> coloured White u" using that cw by blast
    then have "color ob = White" using o by (simp add: coloured_def)
    then show ?thesis using o by (simp add: swept_cell_def)
  next
    case False
    then show ?thesis using that dm emp [of p] other skeleton_data(1) [OF sk, of p] by auto
  qed
  show "closed_under_refs L v"
    unfolding closed_under_refs_def
  proof (intro conjI allI impI)
    show "L \<subseteq> dom (mem v)" using dv sub dm by blast
    fix p ob assume p: "p \<in> L" "mem v p = Some ob"
    then obtain ob' where "mem s p = Some ob'" "obj_data ob' = obj_data ob"
      using dL [OF p(1)] by (cases "mem s p") auto
    then show "set (traced (obj_data ob)) \<subseteq> L" using cl p unfolding closed_under_refs_def by metis
  qed
qed

lemma collect_garbage_traced:
  assumes wf: "wf_heap osz s xs" and r: "root_ptrs rs \<subseteq> set xs"
  shows "\<exists>s'. collect_garbage rs s = Some s' \<and> collected osz rs s xs s'"
proof -
  define L where "L = reach s (root_ptrs rs)"
  obtain t u where t: "mark_roots rs (s\<lparr>gray_stack := []\<rparr>) = Some t" and u: "drain_gray t = Some u"
    and sh: "same_heap (s\<lparr>gray_stack := []\<rparr>) u" and gs: "gray_stack u = []"
    and cw: "coloured White u = dom (mem s) - L" and du: "dom (mem u) = dom (mem s)"
    using mark_phase [OF wf r] unfolding L_def by metis
  have sk: "skeleton u = skeleton s"
    using sh unfolding same_heap_def by (simp add: skeleton_def fun_eq_iff)
  have E: "u\<lparr>mem := mem s, gray_stack := []\<rparr> = s\<lparr>gray_stack := []\<rparr>"
    using sh unfolding same_heap_def by simp
  have rest: "head u = head s" "free_list u = free_list s" "string_cache u = string_cache s"
    "current_chunk_ptr u = current_chunk_ptr s" "chunk_remaining u = chunk_remaining s"
    "vector_pool u = vector_pool s" "map_pool u = map_pool s"
    using arg_cong [OF E, of head] arg_cong [OF E, of free_list] arg_cong [OF E, of string_cache]
      arg_cong [OF E, of current_chunk_ptr] arg_cong [OF E, of chunk_remaining]
      arg_cong [OF E, of vector_pool] arg_cong [OF E, of map_pool] by simp_all
  have cls: "closed_under_refs (set xs) s" and ol: "obj_list (mem s) (head s) xs" and dx: "distinct xs"
    and co: "cache_ok (set xs) s" and pb: "pools_bounded s"
    and fl: "distinct (free_list s)" "0 \<notin> set (free_list s)" "set xs \<inter> set (free_list s) = {}"
      "dom (mem s) = set xs \<union> set (free_list s)"
      "\<forall>p \<in> set (free_list s). map_option obj_data (mem s p) = Some D_Empty"
    and fc: "fresh_chunk osz (current_chunk_ptr s) (chunk_remaining s) s"
    using wf unfolding wf_heap_def by blast+
  have sub: "L \<subseteq> set xs" unfolding L_def using reach_closed [OF _ cls r] by blast
  have nz: "0 \<notin> set xs" using obj_list_nonzero [OF ol] .
  have cl: "closed_under_refs L s"
    using sub fl(4) unfolding closed_under_refs_def L_def by (auto intro: reach_step)
  have mk: "marked u p \<longleftrightarrow> p \<in> L" if "p \<in> set xs" for p
    using that sub fl(4) by (auto simp: marked_def cw)
  define c where "c = filter (\<lambda>(t, p). p \<in> L) (string_cache s)"
  have cin: "p \<in> set xs" if "(k, p) \<in> set (string_cache s)" for k p
    using co that unfolding cache_ok_def by blast
  have "retain_marked u (string_cache u) = Some (filter (\<lambda>(t, p). marked u p) (string_cache s))"
    unfolding rest(3) by (rule retain_marked_filter) (use cin nz du fl(4) in blast)
  also have "filter (\<lambda>(t, p). marked u p) (string_cache s) = c"
    unfolding c_def by (rule filter_cong) (use cin mk in auto)
  finally have sc: "gc_sweep_string_cache u = Some (u\<lparr>string_cache := c\<rparr>)"
    by (simp add: gc_sweep_string_cache_def)
  define w where "w = u\<lparr>string_cache := c, head := 0\<rparr>"
  have olw: "obj_list (mem w) (head s) xs"
    using obj_list_frame_nxt [OF ol, of "mem u"] skeleton_data(2) [OF sk] by (simp add: w_def)
  obtain v where v: "sweep_list (head s) 0 w = Some v" "swept [] xs w v"
    using sweep_list_correct [OF olw, of "[]" 0] dx by (auto simp: w_def)
  have skw: "skeleton w = skeleton s" using sk by (simp add: w_def skeleton_def fun_eq_iff)
  have cww: "coloured White w = dom (mem s) - L" using cw by (simp add: w_def coloured_def)
  have pw: "pools_bounded w" "free_list w = free_list s"
    using pb rest by (simp_all add: w_def pools_bounded_def)
  note V = swept_heap [OF wf sub cl skw cww pw v(2)]
  have os: "string_cache v = c" "current_chunk_ptr v = current_chunk_ptr s"
    "chunk_remaining v = chunk_remaining s" "gray_stack v = []"
    using V(8) rest gs by (simp_all add: outside_sweep_def w_def)
  define s' where "s' = v\<lparr>live_count := length (filter (\<lambda>p. p \<in> L) xs),
    alloc_threshold := clamp_threshold (length (filter (\<lambda>p. p \<in> L) xs)), alloc_count := 0,
    phase := Pause, sweep_ptr := 0, prev_sweep_ptr := 0, needs_step := False\<rparr>"
  have run: "collect_garbage rs s = Some s'"
    using t u sc v(1) count_obj_list [OF V(1), of 0] rest(1)
    by (simp add: collect_garbage_def w_def s'_def Let_def)
  have "cache_ok L v"
    unfolding cache_ok_def os(1)
  proof (intro conjI allI impI)
    show "distinct (map fst c)"
      using co unfolding cache_ok_def c_def by (simp add: distinct_map_filter)
    fix k p assume "(k, p) \<in> set c"
    then have "p \<in> L" "(k, p) \<in> set (string_cache s)" by (auto simp: c_def)
    then show "p \<in> L" "map_option obj_data (mem v p) = Some (D_String k)"
      using V(4) [of p] co unfolding cache_ok_def by auto
  qed
  have "wf_heap osz v (filter (\<lambda>p. p \<in> L) xs)"
    unfolding wf_heap_def
  proof (intro conjI)
    show "dom (mem v) = set (filter (\<lambda>p. p \<in> L) xs) \<union> set (free_list v)"
      using V(3,6) fl(4) sub by auto
    show "\<forall>p \<in> set (free_list v). map_option obj_data (mem v p) = Some D_Empty"
    proof
      fix p assume "p \<in> set (free_list v)"
      then have "p \<in> dom (mem s) - L" using V(6) fl(3,4) sub by auto
      then show "map_option obj_data (mem v p) = Some D_Empty" by (rule V(5))
    qed
    have "set (filter (\<lambda>p. p \<in> L) xs) = L" using sub by auto
    then show "closed_under_refs (set (filter (\<lambda>p. p \<in> L) xs)) v"
      "cache_ok (set (filter (\<lambda>p. p \<in> L) xs)) v"
      using V(7) \<open>cache_ok L v\<close> by simp_all
    show "fresh_chunk osz (current_chunk_ptr v) (chunk_remaining v) v"
      using fresh_chunk_reuse [OF fc V(3)] os by simp
  qed (use V fl dx nz in auto)
  then have wf': "wf_heap osz s' (filter (\<lambda>p. p \<in> L) xs)"
    by (rule wf_heap_cong) (use V(9) in \<open>simp_all add: s'_def pools_bounded_def\<close>)
  have "collected osz rs s xs s'"
    unfolding collected_def L_def [symmetric]
    using wf' V(4,6) os by (auto simp: s'_def c_def)
  then show ?thesis using run by blast
qed

section \<open>What the program holds\<close>

text \<open>
  Every pointer stored in a cell, read off the types of \<^verbatim>\<open>gc/types.rs\<close>. The tracer leaves out the value of
  a fulfilled promise and the keys and methods of a descriptor.
\<close>

definition descriptor_ptrs :: "struct_descriptor \<Rightarrow> u64 list" where
  "descriptor_ptrs d =
     concat (map (\<lambda>(k, i). vptr k) (fast_fields d @ field_indices d)) @
     concat (map (\<lambda>(k, v). vptr k @ vptr v) (sd_methods d))"

definition outcome_ptrs :: "promise_state \<Rightarrow> u64 list" where
  "outcome_ptrs st = (case st of Fulfilled v \<Rightarrow> vptr v | _ \<Rightarrow> [])"

fun held :: "gc_data \<Rightarrow> u64 list" where
  "held D_Empty = []"
| "held (D_String t) = []"
| "held (D_Array arr) = concat (map vptr arr)"
| "held (D_Object obj) = concat (map (\<lambda>(k, v). vptr k @ vptr v) obj)"
| "held (D_Function f) = concat (map vptr (constants (fn_chunk f)))"
| "held (D_Promise pr) =
     outcome_ptrs (pr_state pr) @ concat (map vptr (suspended_stack pr)) @
     concat (map (\<lambda>fr. vptr (val_function (frame_function fr))) (suspended_frames pr))"
| "held (D_Struct st) = descriptor_ptrs (descriptor st) @ concat (map vptr (st_fields st))"
| "held (D_BoundMethod bm) = vptr (bm_receiver bm) @ optr (bm_function bm)"
| "held (D_BuiltinMethod bm) = vptr (bi_receiver bm)"
| "held (D_StructConstructor d) = descriptor_ptrs d"
| "held (D_Closure c) = optr (clo_function c) @ concat (map optr (clo_upvalues c))"
| "held (D_Upvalue (Closed v)) = vptr v"
| "held (D_Upvalue (Open n)) = []"

definition untraced :: "gc_data \<Rightarrow> u64 list" where
  "untraced d =
     (case d of
        D_Promise pr \<Rightarrow> outcome_ptrs (pr_state pr)
      | D_Struct st \<Rightarrow> descriptor_ptrs (descriptor st)
      | D_StructConstructor ds \<Rightarrow> descriptor_ptrs ds
      | _ \<Rightarrow> [])"

lemma held_split: "set (held d) = set (traced d) \<union> set (untraced d)"
  by (cases d rule: held.cases) (auto simp: untraced_def)

text \<open>The cells the program can reach, through everything a cell holds.\<close>

inductive_set reach_held :: "gc_state \<Rightarrow> u64 set \<Rightarrow> u64 set" for s :: gc_state and R :: "u64 set" where
  held_root: "p \<in> R \<Longrightarrow> p \<in> reach_held s R"
| held_step: "p \<in> reach_held s R \<Longrightarrow> mem s p = Some ob \<Longrightarrow> q \<in> set (held (obj_data ob)) \<Longrightarrow> q \<in> reach_held s R"

text \<open>What the tracer leaves out in a cell it reaches, it reaches on another way.\<close>

definition anchored :: "gc_state \<Rightarrow> u64 set \<Rightarrow> bool" where
  "anchored s R \<longleftrightarrow> (\<forall>p \<in> reach s R. \<forall>ob. mem s p = Some ob \<longrightarrow> set (untraced (obj_data ob)) \<subseteq> reach s R)"

lemma reach_held_reach: "p \<in> reach s R \<Longrightarrow> p \<in> reach_held s R"
  by (induction rule: reach.induct) (auto simp: held_split intro: reach_held.intros)

lemma reach_held_anchored:
  assumes "anchored s R"
  shows "reach_held s R = reach s R"
proof
  show "reach_held s R \<subseteq> reach s R"
  proof
    fix p assume "p \<in> reach_held s R"
    then show "p \<in> reach s R"
    proof induction
      case (held_step p ob q)
      then show ?case using assms by (auto simp: held_split anchored_def intro: reach_step)
    qed (rule reach_root)
  qed
  show "reach s R \<subseteq> reach_held s R" using reach_held_reach by blast
qed

lemma collected_data:
  assumes "collected osz rs s xs s'" "p \<in> reach s (root_ptrs rs)" "mem s' p = Some ob'"
  obtains ob where "mem s p = Some ob" "obj_data ob = obj_data ob'"
proof -
  have "map_option obj_data (mem s' p) = map_option obj_data (mem s p)"
    using assms(1,2) unfolding collected_def by blast
  then show ?thesis using that assms(3) by (cases "mem s p") auto
qed

text \<open>C2: A full collection of a well-formed heap whose roots are live always succeeds: exactly the
  cells the tracer reaches from the roots stay on the object list, in their old order and with the data they
  held; every other cell is emptied and put on the free list; the string cache keeps exactly its
  traced entries; the heap invariant holds again; the live count is exact, the next threshold is twice it
  clamped to 512..2048, and the collector is back in its resting state. A pointer that a kept cell holds
  to a freed one is the value of a fulfilled promise or lies in a descriptor. When what these two hold is
  reached on another way, the kept cells are exactly those the program can reach
  through everything cells hold, and none of them holds a pointer to a freed cell.\<close>

theorem collect_garbage_correct:
  assumes wf: "wf_heap osz s xs" and r: "root_ptrs rs \<subseteq> set xs"
  shows "\<exists>s'. collect_garbage rs s = Some s' \<and> collected osz rs s xs s' \<and>
    (\<forall>p \<in> reach s (root_ptrs rs). \<forall>ob. mem s' p = Some ob \<longrightarrow>
       set (held (obj_data ob)) \<inter> set (free_list s') \<subseteq> set (untraced (obj_data ob))) \<and>
    (anchored s (root_ptrs rs) \<longrightarrow>
       reach s (root_ptrs rs) = reach_held s (root_ptrs rs) \<and>
       (\<forall>p \<in> reach_held s (root_ptrs rs). \<forall>ob. mem s' p = Some ob \<longrightarrow>
          set (held (obj_data ob)) \<inter> set (free_list s') = {}))"
proof -
  let ?L = "reach s (root_ptrs rs)"
  obtain s' where s': "collect_garbage rs s = Some s'" "collected osz rs s xs s'"
    using collect_garbage_traced [OF wf r] by blast
  have cl: "closed_under_refs (set xs) s" and fl: "set xs \<inter> set (free_list s) = {}"
    using wf unfolding wf_heap_def by blast+
  have "?L \<subseteq> set xs" using reach_closed [OF _ cl r] by blast
  then have free: "?L \<inter> set (free_list s') = {}" using s'(2) fl unfolding collected_def by blast
  have traced: "set (traced (obj_data ob)) \<subseteq> ?L" if p: "p \<in> ?L" "mem s' p = Some ob" for p ob
  proof -
    obtain o1 where "mem s p = Some o1" "obj_data o1 = obj_data ob" using collected_data [OF s'(2) p] .
    then show ?thesis using reach_step [OF p(1)] by auto
  qed
  have held: "set (held (obj_data ob)) \<subseteq> ?L" if a: "anchored s (root_ptrs rs)" and p: "p \<in> ?L" "mem s' p = Some ob" for p ob
  proof -
    obtain o1 where o1: "mem s p = Some o1" "obj_data o1 = obj_data ob" using collected_data [OF s'(2) p] .
    then have "set (untraced (obj_data ob)) \<subseteq> ?L" using a p(1) unfolding anchored_def by metis
    then show ?thesis using traced [OF p] unfolding held_split by simp
  qed
  have "set (held (obj_data ob)) \<inter> set (free_list s') \<subseteq> set (untraced (obj_data ob))"
    if "p \<in> ?L" "mem s' p = Some ob" for p ob
    using traced [OF that] free by (auto simp: held_split)
  moreover have "reach_held s (root_ptrs rs) = ?L \<and> (\<forall>p \<in> ?L. \<forall>ob. mem s' p = Some ob \<longrightarrow>
      set (held (obj_data ob)) \<inter> set (free_list s') = {})" if a: "anchored s (root_ptrs rs)"
    using reach_held_anchored [OF a] held [OF a] free by blast
  ultimately show ?thesis using s' by (intro exI [of _ s']) auto
qed

text \<open>C36: What the tracer leaves out is lost: when a kept cell holds, as the value of a fulfilled promise or in a
  descriptor, a pointer to a cell that is not reached otherwise, the collection leaves the pointer in
  place and empties the cell behind it for the next allocation.\<close>

theorem untraced_pointer_dangles:
  assumes "wf_heap osz s xs" and "root_ptrs rs \<subseteq> set xs"
    and "p \<in> reach s (root_ptrs rs)" and "mem s p = Some ob"
    and "q \<in> set (untraced (obj_data ob))" and "q \<in> set xs" and "q \<notin> reach s (root_ptrs rs)"
  shows "\<exists>s'. collect_garbage rs s = Some s' \<and>
    map_option obj_data (mem s' p) = Some (obj_data ob) \<and> q \<in> set (held (obj_data ob)) \<and>
    map_option obj_data (mem s' q) = Some D_Empty \<and> q \<in> set (free_list s')"
proof -
  obtain s' where s': "collect_garbage rs s = Some s'" "collected osz rs s xs s'"
    using collect_garbage_traced [OF assms(1,2)] by blast
  have "map_option obj_data (mem s' p) = Some (obj_data ob)"
    using s'(2) assms(3,4) unfolding collected_def by auto
  moreover have free: "q \<in> set (free_list s')" using s'(2) assms(6,7) unfolding collected_def by blast
  moreover have "map_option obj_data (mem s' q) = Some D_Empty"
    using s'(2) free unfolding collected_def wf_heap_def by blast
  moreover have "q \<in> set (held (obj_data ob))" using assms(5) held_split by blast
  ultimately show ?thesis using s'(1) by blast
qed

section \<open>The allocator's contract\<close>

text \<open>
  What clients of the heap rely on: an allocation succeeds, returns a cell that was not live, which
  holds the requested data, and changes the content of no live cell. \<open>alloc_all\<close> is a
  client that builds several objects one after the other.
\<close>

fun alloc_all :: "('r \<Rightarrow> 'd \<Rightarrow> 's \<Rightarrow> ('p \<times> 's) option) \<Rightarrow> ('r \<times> 'd) list \<Rightarrow> 's \<Rightarrow> ('p list \<times> 's) option" where
  "alloc_all alloc [] s = Some ([], s)"
| "alloc_all alloc ((r, d) # ds) s = do {
     (p, s') \<leftarrow> alloc r d s;
     (ps, s'') \<leftarrow> alloc_all alloc ds s';
     Some (p # ps, s'') }"

fun all_granted :: "('r \<Rightarrow> 'd \<Rightarrow> 's \<Rightarrow> ('p \<times> 's) option) \<Rightarrow> ('r \<Rightarrow> 's \<Rightarrow> bool) \<Rightarrow>
    ('r \<times> 'd) list \<Rightarrow> 's \<Rightarrow> bool" where
  "all_granted alloc grant [] s = True"
| "all_granted alloc grant ((r, d) # ds) s =
     (grant r s \<and> (case alloc r d s of None \<Rightarrow> True | Some (p, s') \<Rightarrow> all_granted alloc grant ds s'))"

locale cell_allocator =
  fixes alloc :: "'r \<Rightarrow> 'd \<Rightarrow> 's \<Rightarrow> ('p \<times> 's) option"
    and grant :: "'r \<Rightarrow> 's \<Rightarrow> bool"
    and heap_inv :: "'s \<Rightarrow> 'p list \<Rightarrow> bool"
    and content :: "'s \<Rightarrow> 'p \<Rightarrow> 'd option"
    and links :: "'d \<Rightarrow> 'p list"
  assumes alloc_step: "heap_inv s xs \<Longrightarrow> grant r s \<Longrightarrow> set (links d) \<subseteq> set xs \<Longrightarrow>
    \<exists>p s'. alloc r d s = Some (p, s') \<and> p \<notin> set xs \<and> heap_inv s' (p # xs) \<and>
      content s' p = Some d \<and> (\<forall>q \<in> set xs. content s' q = content s q)"
begin

lemma alloc_all_correct:
  assumes "heap_inv s xs" and "all_granted alloc grant ds s"
    and "\<forall>rd \<in> set ds. set (links (snd rd)) \<subseteq> set xs"
  shows "\<exists>ps s'. alloc_all alloc ds s = Some (ps, s') \<and> heap_inv s' (rev ps @ xs) \<and>
    length ps = length ds \<and> distinct ps \<and> set ps \<inter> set xs = {} \<and>
    (\<forall>i < length ds. content s' (ps ! i) = Some (snd (ds ! i))) \<and>
    (\<forall>q \<in> set xs. content s' q = content s q)"
  using assms
proof (induction ds arbitrary: s xs)
  case Nil
  then show ?case by auto
next
  case (Cons rd ds)
  obtain r d where rd: "rd = (r, d)" by (cases rd)
  obtain p t where t: "alloc r d s = Some (p, t)" "p \<notin> set xs" "heap_inv t (p # xs)"
    "content t p = Some d" "\<forall>q \<in> set xs. content t q = content s q"
    using alloc_step [of s xs r d] Cons.prems rd by fastforce
  have "\<exists>ps s'. alloc_all alloc ds t = Some (ps, s') \<and> heap_inv s' (rev ps @ p # xs) \<and>
    length ps = length ds \<and> distinct ps \<and> set ps \<inter> set (p # xs) = {} \<and>
    (\<forall>i < length ds. content s' (ps ! i) = Some (snd (ds ! i))) \<and>
    (\<forall>q \<in> set (p # xs). content s' q = content t q)"
  proof (rule Cons.IH [OF t(3)])
    show "all_granted alloc grant ds t" using Cons.prems(2) rd t(1) by simp
    show "\<forall>rd \<in> set ds. set (links (snd rd)) \<subseteq> set (p # xs)" using Cons.prems(3) by auto
  qed
  then obtain ps s' where s': "alloc_all alloc ds t = Some (ps, s')" "heap_inv s' (rev ps @ p # xs)"
    "length ps = length ds" "distinct ps" "set ps \<inter> set (p # xs) = {}"
    "\<forall>i < length ds. content s' (ps ! i) = Some (snd (ds ! i))"
    "\<forall>q \<in> set (p # xs). content s' q = content t q" by blast
  have "\<forall>i < length (rd # ds). content s' ((p # ps) ! i) = Some (snd ((rd # ds) ! i))"
    using s' t rd by (auto simp: less_Suc_eq_0_disj)
  then show ?case
    using s' t rd by (intro exI [of _ "p # ps"] exI [of _ s']) auto
qed

end

interpretation heap: cell_allocator "gc_allocate osz" "chunk_grant osz" "wf_heap osz"
  "\<lambda>s p. map_option obj_data (mem s p)" traced for osz
proof
  fix s xs raw d
  assume "wf_heap osz s xs" "chunk_grant osz raw s" "set (traced d) \<subseteq> set xs"
  then obtain p s' where "gc_allocate osz raw d s = Some (p, s')" "p \<notin> set xs"
    "wf_heap osz s' (p # xs)" "allocated d p s s'" using allocate_correct by blast
  then show "\<exists>p s'. gc_allocate osz raw d s = Some (p, s') \<and> p \<notin> set xs \<and> wf_heap osz s' (p # xs) \<and>
      map_option obj_data (mem s' p) = Some d \<and>
      (\<forall>q\<in>set xs. map_option obj_data (mem s' q) = map_option obj_data (mem s q))"
    by (intro exI [of _ p] exI [of _ s']) (auto simp: allocated_def fresh_object_def)
qed

section \<open>The write barrier\<close>

text \<open>
  Storing \<open>child\<close> into \<open>parent\<close> and then running the barrier: whatever the colours were, no black
  cell ends up referring to a white one.
\<close>

lemma barrier_effect:
  assumes "mem s parent = Some pob" and "parent \<noteq> 0" and "set (vptr child) \<subseteq> dom (mem s)"
  shows "\<exists>s'. gc_write_barrier parent child s = Some s' \<and>
    greyed (if color pob = Black then set (vptr child) else {}) s s'"
proof (cases "color pob = Black \<and> is_traced child \<and> as_gc_ptr child \<noteq> 0")
  case True
  then have v: "vptr child = [as_gc_ptr child]" by (simp add: vptr_def optr_def)
  then obtain s' where s': "gc_mark_object (as_gc_ptr child) s = Some s'" "greyed {as_gc_ptr child} s s'"
    using mark_object_greyed [of "as_gc_ptr child" s] True assms by auto
  have "gc_write_barrier parent child s = gc_mark_object (as_gc_ptr child) s"
    using True assms by (simp add: gc_write_barrier_def gc_mark_object_def deref_def [of parent] Let_def)
  then show ?thesis using True v s' by simp
next
  case False
  then have "color pob = Black \<longrightarrow> vptr child = []" by (auto simp: vptr_def optr_def)
  moreover have "gc_write_barrier parent child s = Some s"
    using False assms by (auto simp: gc_write_barrier_def deref_def Let_def)
  ultimately show ?thesis by auto
qed

text \<open>C5: Storing a value into an object in the middle of marking and then running the write barrier
  keeps the tri-colour invariant: no black object refers to a white one, and the gray
  stack holds exactly the gray objects, without repetition.\<close>

theorem barrier_keeps_tricolour:
  assumes tri: "tricolour s" and p: "mem s parent = Some pob" "parent \<noteq> 0"
    and c: "set (vptr child) \<subseteq> dom (mem s)"
    and d: "set (traced d) \<subseteq> set (traced (obj_data pob)) \<union> set (vptr child)"
  shows "\<exists>s'. gc_write_barrier parent child (write_obj parent (pob\<lparr>obj_data := d\<rparr>) s) = Some s' \<and>
    tricolour s' \<and> map_option obj_data (mem s' parent) = Some d"
proof -
  let ?s1 = "write_obj parent (pob\<lparr>obj_data := d\<rparr>) s"
  have col: "coloured k ?s1 = coloured k s" for k
    using p by (auto simp: coloured_write) (auto simp: coloured_def)
  obtain s' where s': "gc_write_barrier parent child ?s1 = Some s'"
    and g: "greyed (if color pob = Black then set (vptr child) else {}) ?s1 s'"
    using barrier_effect [of ?s1 parent "pob\<lparr>obj_data := d\<rparr>" child] p c by auto
  let ?Q = "if color pob = Black then set (vptr child) else {}"
  obtain new where new: "gray_stack s' = new @ gray_stack s" "distinct new" "set new = ?Q \<inter> coloured White s"
    using g unfolding greyed_def by (auto simp: col)
  have cs: "coloured White s' = coloured White s - ?Q" "coloured Black s' = coloured Black s"
    "coloured Gray s' = coloured Gray s \<union> (?Q \<inter> coloured White s)"
    using g unfolding greyed_def by (simp_all add: col)
  have sk: "skeleton s' = skeleton ?s1" using g unfolding greyed_def same_heap_def by blast
  have "set (traced (obj_data ob)) \<inter> coloured White s' = {}"
    if q: "q \<in> coloured Black s'" "mem s' q = Some ob" for q ob
  proof -
    obtain ob1 where o1: "mem ?s1 q = Some ob1" "obj_data ob1 = obj_data ob"
      using skeleton_eqD [OF sk [symmetric] q(2)] by metis
    show ?thesis
    proof (cases "q = parent")
      case True
      then have "parent \<in> coloured Black s" using q cs by simp
      then have "color pob = Black" using p by (simp add: coloured_def)
      moreover have "set (traced (obj_data pob)) \<inter> coloured White s = {}"
        using tri q cs p True unfolding tricolour_def by blast
      moreover have "obj_data ob = d" using o1 True by auto
      ultimately show ?thesis using d cs by auto
    next
      case False
      then have "mem s q = Some ob1" using o1 by simp
      then have "set (traced (obj_data ob1)) \<inter> coloured White s = {}"
        using tri q cs unfolding tricolour_def by blast
      then show ?thesis using o1 cs by auto
    qed
  qed
  moreover have "distinct (gray_stack s')" "set (gray_stack s') = coloured Gray s'"
    using new cs tri coloured_disjoint [of Gray White s] unfolding tricolour_def by auto
  moreover have "map_option obj_data (mem s' parent) = Some d"
    using skeleton_data(1) [OF sk, of parent] by simp
  ultimately show ?thesis using s' unfolding tricolour_def by blast
qed

section \<open>Releasing the heap\<close>

lemma recycle_walk_total:
  assumes "obj_list (mem s) p xs" and "distinct xs"
  shows "\<exists>s'. recycle_walk p s = Some s' \<and> head s' = head s \<and> outside_sweep s' = outside_sweep s"
  using assms
proof (induction xs arbitrary: p s)
  case Nil
  then show ?case by (simp add: recycle_walk.simps)
next
  case (Cons x xs)
  then obtain ob where ob: "mem s x = Some ob" "p = x" "x \<noteq> 0" "obj_list (mem s) (nxt ob) xs" by auto
  obtain t where t: "gc_recycle_data x s = Some t"
    "mem t = (mem s)(x \<mapsto> ob\<lparr>obj_data := D_Empty\<rparr>)" "head t = head s"
    "outside_sweep t = outside_sweep s"
    using recycle_effect [OF ob(1)] by metis
  have "obj_list (mem t) (nxt ob) xs" using ob(4) t(2) Cons.prems by (auto intro: obj_list_frame)
  then obtain s' where "recycle_walk (nxt ob) t = Some s'" "head s' = head t"
    "outside_sweep s' = outside_sweep t" using Cons by fastforce
  then show ?case using t ob by (subst recycle_walk.simps) (simp add: deref_def)
qed

text \<open>C18: Releasing the heap succeeds on every well-formed heap and leaves the initial collector state,
  except that the threshold keeps its value and the epoch is one higher.\<close>

theorem free_all_resets:
  assumes "wf_heap osz s xs"
  shows "gc_free_all s = Some (gc_init\<lparr>alloc_threshold := alloc_threshold s, gc_epoch := gc_epoch s + 1\<rparr>)"
proof -
  define s1 where "s1 = s\<lparr>gc_epoch := gc_epoch s + 1, head := 0\<rparr>"
  have "obj_list (mem s1) (head s) xs" "distinct xs"
    using assms unfolding wf_heap_def s1_def by simp_all
  then obtain u where "recycle_walk (head s) s1 = Some u" "head u = 0" "outside_sweep u = outside_sweep s1"
    using recycle_walk_total [of s1 "head s" xs] by (auto simp: s1_def)
  then show ?thesis
    by (simp add: gc_free_all_def gc_init_def Let_def s1_def outside_sweep_def)
qed

text \<open>C6: Allocating a sequence of objects succeeds, returns pairwise distinct cells disjoint from the live
  ones, puts them in front of the object list, leaves each holding its data, changes no cell
  that was live before, and keeps the heap invariant.\<close>

theorem allocate_many_correct:
  assumes "wf_heap osz s xs" and "all_granted (gc_allocate osz) (chunk_grant osz) ds s"
    and "\<forall>rd \<in> set ds. set (traced (snd rd)) \<subseteq> set xs"
  shows "\<exists>ps s'. alloc_all (gc_allocate osz) ds s = Some (ps, s') \<and> wf_heap osz s' (rev ps @ xs) \<and>
    length ps = length ds \<and> distinct ps \<and> set ps \<inter> set xs = {} \<and>
    (\<forall>i < length ds. map_option obj_data (mem s' (ps ! i)) = Some (snd (ds ! i))) \<and>
    (\<forall>q \<in> set xs. map_option obj_data (mem s' q) = map_option obj_data (mem s q))"
  by (rule heap.alloc_all_correct [OF assms])

section \<open>A concrete heap\<close>

text \<open>
  An array that refers to a string, and an unreferenced string that is still in the cache; a cell is
  40 bytes and the rest of the chunk follows.
\<close>

definition demo_heap :: gc_state where
  "demo_heap = gc_init
     \<lparr>mem := [4096 \<mapsto> \<lparr>color = White, nxt = 4136, obj_data = D_Array [val_string 4136]\<rparr>,
              4136 \<mapsto> \<lparr>color = White, nxt = 4176, obj_data = D_String [104, 105]\<rparr>,
              4176 \<mapsto> \<lparr>color = White, nxt = 0, obj_data = D_String [120]\<rparr>],
      head := 4096, alloc_count := 3, string_cache := [([120], 4176)],
      current_chunk_ptr := 4216, chunk_remaining := 1, chunks := [4096]\<rparr>"

lemma demo_vptr: "vptr (val_string 4136) = [4136]"
  by code_simp

lemma demo_wf: "wf_heap 40 demo_heap [4096, 4136, 4176]"
  unfolding wf_heap_def demo_heap_def gc_init_def
  by (auto simp: closed_under_refs_def cache_ok_def fresh_chunk_def pools_bounded_def coloured_def
      demo_vptr split: if_splits)

lemma demo_reach:
  assumes "mem s p = Some ob" "traced (obj_data ob) = []"
  shows "reach s {p} = {p}"
proof -
  have "q = p" if "q \<in> reach s {p}" for q
    using that by induction (use assms in auto)
  then show ?thesis by (auto intro: reach_root)
qed

lemma demo_roots: "root_ptrs [RootValue (val_string 4136)] = {4136}"
  by (simp add: root_ptrs_def root_ptr_def demo_vptr)

theorem collect_garbage_correct_witness:
  "\<exists>s'. collect_garbage [RootValue (val_string 4136)] demo_heap = Some s' \<and>
     collected 40 [RootValue (val_string 4136)] demo_heap [4096, 4136, 4176] s' \<and>
     reach_held demo_heap {4136} = {4136} \<and> set (free_list s') = {4096, 4176}"
proof -
  have reach: "reach demo_heap {4136} = {4136}"
    by (rule demo_reach [where ob = "\<lparr>color = White, nxt = 4176, obj_data = D_String [104, 105]\<rparr>"])
      (simp_all add: demo_heap_def gc_init_def)
  then have "anchored demo_heap {4136}"
    by (auto simp: anchored_def untraced_def demo_heap_def gc_init_def)
  then obtain s' where s': "collect_garbage [RootValue (val_string 4136)] demo_heap = Some s'"
    "collected 40 [RootValue (val_string 4136)] demo_heap [4096, 4136, 4176] s'"
    "reach_held demo_heap {4136} = {4136}"
    using collect_garbage_correct [OF demo_wf, of "[RootValue (val_string 4136)]"] reach unfolding demo_roots by auto
  moreover have "set (free_list s') = {4096, 4176}"
    using s'(2) reach unfolding collected_def demo_roots by (auto simp: demo_heap_def gc_init_def)
  ultimately show ?thesis by blast
qed

text \<open>A promise that has been fulfilled with a string nothing else refers to.\<close>

definition demo_promise :: gc_data where
  "demo_promise = D_Promise \<lparr>pr_state = Fulfilled (val_string 4136), suspended_stack = [], suspended_frames = []\<rparr>"

definition demo_awaiting :: gc_state where
  "demo_awaiting = gc_init
     \<lparr>mem := [4096 \<mapsto> \<lparr>color = White, nxt = 4136, obj_data = demo_promise\<rparr>,
              4136 \<mapsto> \<lparr>color = White, nxt = 0, obj_data = D_String [104, 105]\<rparr>],
      head := 4096, alloc_count := 2, chunks := [4096]\<rparr>"

lemma demo_awaiting_wf: "wf_heap 40 demo_awaiting [4096, 4136]"
  unfolding wf_heap_def demo_awaiting_def gc_init_def
  by (auto simp: closed_under_refs_def cache_ok_def fresh_chunk_def pools_bounded_def coloured_def
      demo_promise_def split: if_splits)

theorem untraced_pointer_dangles_witness:
  "\<exists>s'. collect_garbage [RootValue (val_promise 4096)] demo_awaiting = Some s' \<and>
    map_option obj_data (mem s' 4096) = Some demo_promise \<and>
    map_option obj_data (mem s' 4136) = Some D_Empty \<and> 4136 \<in> set (free_list s')"
proof -
  have "vptr (val_promise 4096) = [4096]" by code_simp
  then have roots: "root_ptrs [RootValue (val_promise 4096)] = {4096}"
    by (simp add: root_ptrs_def root_ptr_def)
  have "reach demo_awaiting {4096} = {4096}"
    by (rule demo_reach [where ob = "\<lparr>color = White, nxt = 4136, obj_data = demo_promise\<rparr>"])
      (simp_all add: demo_awaiting_def gc_init_def demo_promise_def)
  then show ?thesis
    using untraced_pointer_dangles [OF demo_awaiting_wf, of "[RootValue (val_promise 4096)]" 4096
        "\<lparr>color = White, nxt = 4136, obj_data = demo_promise\<rparr>" 4136]
    unfolding roots by (auto simp: demo_awaiting_def gc_init_def untraced_def demo_promise_def outcome_ptrs_def demo_vptr)
qed

theorem free_all_resets_witness:
  "gc_free_all demo_heap = Some (gc_init\<lparr>alloc_threshold := 512, gc_epoch := 1\<rparr>)"
  using free_all_resets [OF demo_wf] by (simp add: demo_heap_def gc_init_def)

text \<open>A heap just started, and the system allocator's first answer.\<close>

lemma chunk_cells_above:
  "unat p + n * unat osz < 18446744073709551616 \<Longrightarrow> 0 < unat osz \<Longrightarrow> 0 < unat p \<Longrightarrow>
     distinct (chunk_cells osz p n) \<and> (\<forall>c \<in> set (chunk_cells osz p n). unat p \<le> unat c)"
proof (induction n arbitrary: p)
  case (Suc n)
  have u: "unat (p + osz) = unat p + unat osz"
    using Suc.prems by (simp add: unat_word_ariths)
  have "distinct (chunk_cells osz (p + osz) n) \<and>
      (\<forall>c \<in> set (chunk_cells osz (p + osz) n). unat (p + osz) \<le> unat c)"
    by (rule Suc.IH) (use Suc.prems u in simp_all)
  then show ?case using u Suc.prems(2) by fastforce
qed simp

lemma demo_grant: "chunk_grant 40 8192 gc_init" "chunk_grant 40 8192 demo_heap"
  using chunk_cells_above [of 8192 256 40]
  unfolding chunk_grant_def fresh_chunk_def CHUNK_COUNT_def
  by (force simp: gc_init_def demo_heap_def split: if_splits)+

theorem intern_correct_witness:
  "\<exists>p s' ys. intern_string 40 8192 [104] demo_heap = Some (p, s') \<and>
     wf_heap 40 s' (ys @ [4096, 4136, 4176]) \<and> p \<in> set (ys @ [4096, 4136, 4176]) \<and>
     heap_str s' p = Some [104] \<and> map_of (string_cache s') [104] = Some p \<and> length ys \<le> 1"
  using intern_correct [OF demo_wf demo_grant(2), of "[104]"] by blast

lemma demo_first_alloc:
  "\<exists>s'. gc_allocate 40 8192 (D_String [1]) gc_init = Some (8192, s') \<and> dom (mem s') = {8192}"
  by (simp add: gc_allocate_def gc_alloc_object_def gc_init_def deref_def Let_def)

lemma demo_all_granted:
  "all_granted (gc_allocate 40) (chunk_grant 40) [(8192, D_String [1]), (65536, D_Array [])] gc_init"
proof -
  obtain s' where s': "gc_allocate 40 8192 (D_String [1]) gc_init = Some (8192, s')" "dom (mem s') = {8192}"
    using demo_first_alloc by blast
  have "chunk_grant 40 65536 s'"
    using chunk_cells_above [of 65536 256 40] s'(2)
    unfolding chunk_grant_def fresh_chunk_def CHUNK_COUNT_def by force
  then show ?thesis using s' demo_grant(1) by (simp split: option.splits)
qed

theorem allocate_many_correct_witness:
  "\<exists>ps s'. alloc_all (gc_allocate 40) [(8192, D_String [1]), (65536, D_Array [])] gc_init = Some (ps, s') \<and>
     wf_heap 40 s' (rev ps) \<and> length ps = 2 \<and> distinct ps"
proof -
  let ?ds = "[(8192 :: u64, D_String [1]), (65536, D_Array [])]"
  have "\<forall>rd \<in> set ?ds. set (traced (snd rd)) \<subseteq> set ([] :: u64 list)" by simp
  from allocate_many_correct [OF wf_heap_init demo_all_granted this]
  obtain ps s' where "alloc_all (gc_allocate 40) ?ds gc_init = Some (ps, s')"
    "wf_heap 40 s' (rev ps @ [])" "length ps = length ?ds" "distinct ps" by blast
  then show ?thesis by (intro exI [of _ ps] exI [of _ s']) (simp del: alloc_all.simps)
qed

text \<open>A heap in the middle of marking: the array is black, the string still white.\<close>

definition demo_marking :: gc_state where
  "demo_marking = gc_init
     \<lparr>mem := [4096 \<mapsto> \<lparr>color = Black, nxt = 4136, obj_data = D_Array []\<rparr>,
              4136 \<mapsto> \<lparr>color = White, nxt = 0, obj_data = D_String [104, 105]\<rparr>],
      head := 4096, phase := Mark\<rparr>"

theorem barrier_keeps_tricolour_witness:
  "\<exists>s'. gc_write_barrier 4096 (val_string 4136)
      (write_obj 4096 \<lparr>color = Black, nxt = 4136, obj_data = D_Array [val_string 4136]\<rparr> demo_marking) = Some s' \<and>
    tricolour s' \<and> map_option obj_data (mem s' 4096) = Some (D_Array [val_string 4136])"
proof -
  have "tricolour demo_marking"
    by (auto simp: tricolour_def coloured_def demo_marking_def gc_init_def split: if_splits)
  moreover have "mem demo_marking 4096 = Some \<lparr>color = Black, nxt = 4136, obj_data = D_Array []\<rparr>"
    by (simp add: demo_marking_def gc_init_def)
  ultimately show ?thesis
    using barrier_keeps_tricolour [of demo_marking 4096
        "\<lparr>color = Black, nxt = 4136, obj_data = D_Array []\<rparr>" "val_string 4136" "D_Array [val_string 4136]"]
    by (simp add: demo_vptr) (simp add: demo_marking_def gc_init_def)
qed

end
