(* ===== verification/Shapes.thy ===== *)
theory Shapes
  imports Gc_State
begin

text \<open>
  Hidden classes: the struct descriptors of \<^verbatim>\<open>gc/types.rs\<close> with their fast-field table and the
  field accessors of \<^verbatim>\<open>GcStruct\<close>, and the anonymous-shape caches and transitions of
  \<^verbatim>\<open>crates/eronom-core/src/shape.rs\<close>. A \<^verbatim>\<open>FnvHashMap<MapKey, usize>\<close> is a list of entries
  searched with the map-key equality. Its iteration order is not specified: it is the parameter
  \<open>ord\<close>, of which only that it lists the same entries is assumed. Thread-local caches and the
  descriptor counter are the fields of one state. Indexing a vector out of range panics; such a
  result is the outer \<open>None\<close>.
\<close>

section \<open>Maps keyed by property names\<close>

definition km_get :: "(u64 \<Rightarrow> u8 list option) \<Rightarrow> er_value \<Rightarrow> (er_value \<times> 'a) list \<Rightarrow> 'a option" where
  "km_get rd k m = map_option snd (find (\<lambda>e. mapkey_eq rd (fst e) k) m)"

fun km_insert :: "(u64 \<Rightarrow> u8 list option) \<Rightarrow> er_value \<Rightarrow> 'a \<Rightarrow> (er_value \<times> 'a) list \<Rightarrow> (er_value \<times> 'a) list" where
  "km_insert rd k v [] = [(k, v)]"
| "km_insert rd k v ((k', w) # m) =
     (if mapkey_eq rd k' k then (k', v) # m else (k', w) # km_insert rd k v m)"

definition keys_ok :: "(u64 \<Rightarrow> u8 list option) \<Rightarrow> (er_value \<times> 'a) list \<Rightarrow> bool" where
  "keys_ok rd m \<longleftrightarrow> (\<forall>e \<in> set m. wf_text rd (fst e)) \<and>
     sorted_wrt (\<lambda>a b. \<not> mapkey_eq rd (fst a) (fst b)) m"

lemma keys_ok_Cons:
  "keys_ok rd ((k, v) # m) \<longleftrightarrow>
     wf_text rd k \<and> (\<forall>e \<in> set m. \<not> mapkey_eq rd k (fst e)) \<and> keys_ok rd m"
  by (auto simp: keys_ok_def)

lemma km_get_Cons [simp]:
  "km_get rd k [] = None"
  "km_get rd k ((k', v) # m) = (if mapkey_eq rd k' k then Some v else km_get rd k m)"
  by (simp_all add: km_get_def)

lemma km_get_in: "km_get rd k m = Some v \<Longrightarrow> \<exists>k'. (k', v) \<in> set m \<and> mapkey_eq rd k' k"
  by (induction m) (auto split: if_splits)

lemma km_get_None: "km_get rd k m = None \<longleftrightarrow> (\<forall>e \<in> set m. \<not> mapkey_eq rd (fst e) k)"
  by (auto simp: km_get_def find_None_iff)

lemma km_get_member:
  assumes "keys_ok rd m" and "(k', v) \<in> set m" and "mapkey_eq rd k' k" and "wf_text rd k"
  shows "km_get rd k m = Some v"
  using assms
proof (induction m)
  case (Cons e m)
  obtain k1 v1 where e: "e = (k1, v1)" by (cases e)
  show ?case
  proof (cases "(k', v) = (k1, v1)")
    case True
    then show ?thesis using Cons.prems e by simp
  next
    case False
    then have m: "(k', v) \<in> set m" using Cons.prems e by auto
    then have w: "wf_text rd k'" "wf_text rd k1" "\<not> mapkey_eq rd k1 k'"
      using Cons.prems e by (auto simp: keys_ok_def)
    have "\<not> mapkey_eq rd k1 k"
      using w Cons.prems(3,4) mk.eq_trans mk.eq_sym by blast
    then show ?thesis using Cons e m by (simp add: keys_ok_Cons)
  qed
qed simp

lemma km_insert_new:
  "(\<forall>e \<in> set m. \<not> mapkey_eq rd (fst e) k) \<Longrightarrow> km_insert rd k v m = m @ [(k, v)]"
  by (induction m) auto

section \<open>Struct descriptors\<close>

text \<open>\<^verbatim>\<open>StructDescriptor::new\<close>: the first eight entries in iteration order become fast fields.\<close>

definition struct_descriptor_new ::
  "((er_value \<times> nat) list \<Rightarrow> (er_value \<times> nat) list) \<Rightarrow> u8 list \<Rightarrow> (er_value \<times> nat) list \<Rightarrow>
     (er_value \<times> er_value) list \<Rightarrow> u32 \<Rightarrow> struct_descriptor \<times> u32" where
  "struct_descriptor_new ord name fi methods next_id =
     (\<lparr>sd_id = next_id, fast_fields = take 8 (ord fi), sd_name = name, field_indices = fi,
       sd_methods = methods\<rparr>, next_id + 1)"

definition vec_index :: "'a list \<Rightarrow> nat \<Rightarrow> 'a option" where
  "vec_index xs i = (if i < length xs then Some (xs ! i) else None)"

definition fast_index :: "er_value \<Rightarrow> struct_descriptor \<Rightarrow> nat option" where
  "fast_index k d = map_option snd (find (\<lambda>e. vbits (fst e) = vbits k) (fast_fields d))"

definition get_field :: "(u64 \<Rightarrow> u8 list option) \<Rightarrow> gc_struct \<Rightarrow> er_value \<Rightarrow> er_value option option" where
  "get_field rd s k =
     (case fast_index k (descriptor s) of
        Some i \<Rightarrow> map_option Some (vec_index (st_fields s) i)
      | None \<Rightarrow>
        (case km_get rd k (field_indices (descriptor s)) of
           None \<Rightarrow> Some None
         | Some i \<Rightarrow> map_option Some (vec_index (st_fields s) i)))"

definition get_field_by_name ::
  "(u64 \<Rightarrow> u8 list option) \<Rightarrow> ((er_value \<times> nat) list \<Rightarrow> (er_value \<times> nat) list) \<Rightarrow>
     gc_struct \<Rightarrow> u8 list \<Rightarrow> er_value option option" where
  "get_field_by_name rd ord s name =
     (case find (\<lambda>e. str_or_empty rd (fst e) = name) (ord (field_indices (descriptor s))) of
        None \<Rightarrow> Some None
      | Some (_, i) \<Rightarrow> map_option Some (vec_index (st_fields s) i))"

text \<open>The value returned is whether the field exists; the struct is returned updated.\<close>

definition vec_set :: "'a list \<Rightarrow> nat \<Rightarrow> 'a \<Rightarrow> 'a list option" where
  "vec_set xs i x = (if i < length xs then Some (xs[i := x]) else None)"

definition set_field :: "(u64 \<Rightarrow> u8 list option) \<Rightarrow> gc_struct \<Rightarrow> er_value \<Rightarrow> er_value \<Rightarrow> (bool \<times> gc_struct) option" where
  "set_field rd s k v =
     (case fast_index k (descriptor s) of
        Some i \<Rightarrow> map_option (\<lambda>fs. (True, s\<lparr>st_fields := fs\<rparr>)) (vec_set (st_fields s) i v)
      | None \<Rightarrow>
        (case km_get rd k (field_indices (descriptor s)) of
           None \<Rightarrow> Some (False, s)
         | Some i \<Rightarrow> map_option (\<lambda>fs. (True, s\<lparr>st_fields := fs\<rparr>)) (vec_set (st_fields s) i v)))"

text \<open>
  A descriptor is well formed when its keys are pairwise different, its indices are
  \<open>0, \<dots>, n - 1\<close>, each once, and its fast fields are entries of the full table.
\<close>

definition desc_ok :: "(u64 \<Rightarrow> u8 list option) \<Rightarrow> struct_descriptor \<Rightarrow> bool" where
  "desc_ok rd d \<longleftrightarrow> keys_ok rd (field_indices d) \<and>
     map snd (field_indices d) = [0..<length (field_indices d)] \<and>
     set (fast_fields d) \<subseteq> set (field_indices d) \<and> length (fast_fields d) \<le> 8"

definition struct_ok :: "(u64 \<Rightarrow> u8 list option) \<Rightarrow> gc_struct \<Rightarrow> bool" where
  "struct_ok rd s \<longleftrightarrow> desc_ok rd (descriptor s) \<and>
     length (st_fields s) = length (field_indices (descriptor s))"

lemma fast_index_agrees:
  assumes "desc_ok rd d" and "wf_text rd k" and "fast_index k d = Some i"
  shows "km_get rd k (field_indices d) = Some i"
proof -
  obtain k' where "find (\<lambda>e. vbits (fst e) = vbits k) (fast_fields d) = Some (k', i)"
    using assms(3) by (auto simp: fast_index_def)
  then have "(k', i) \<in> set (fast_fields d)" "k' = k"
    by (auto dest!: find_SomeD intro: er_value.expand)
  then have "(k, i) \<in> set (field_indices d)" using assms(1) unfolding desc_ok_def by auto
  then show ?thesis
    using km_get_member [of rd "field_indices d" k i k] assms mk.eq_refl unfolding desc_ok_def by blast
qed

lemma km_get_bound:
  assumes "desc_ok rd d" and "km_get rd k (field_indices d) = Some i"
  shows "i < length (field_indices d)"
proof -
  obtain k' where "(k', i) \<in> set (field_indices d)" using km_get_in [OF assms(2)] by blast
  then have "i \<in> set (map snd (field_indices d))" by force
  then show ?thesis using assms(1) unfolding desc_ok_def by simp
qed

lemma get_field_table:
  assumes "struct_ok rd s" and "wf_text rd k"
  shows "get_field rd s k =
    Some (map_option (\<lambda>i. st_fields s ! i) (km_get rd k (field_indices (descriptor s))))"
proof -
  have d: "desc_ok rd (descriptor s)" using assms unfolding struct_ok_def by simp
  have l: "length (st_fields s) = length (field_indices (descriptor s))"
    using assms unfolding struct_ok_def by simp
  show ?thesis
    using fast_index_agrees [OF d assms(2)] km_get_bound [OF d, of k] l
    by (auto simp: get_field_def vec_index_def split: option.split)
qed

lemma set_field_table:
  assumes "struct_ok rd s" and "wf_text rd k"
  shows "set_field rd s k v =
    Some (case km_get rd k (field_indices (descriptor s)) of
            None \<Rightarrow> (False, s)
          | Some i \<Rightarrow> (True, s\<lparr>st_fields := (st_fields s)[i := v]\<rparr>))"
proof -
  have d: "desc_ok rd (descriptor s)" using assms unfolding struct_ok_def by simp
  have l: "length (st_fields s) = length (field_indices (descriptor s))"
    using assms unfolding struct_ok_def by simp
  show ?thesis
    using fast_index_agrees [OF d assms(2)] km_get_bound [OF d, of k] l
    by (auto simp: set_field_def vec_set_def split: option.split)
qed

section \<open>Anonymous shapes (shape.rs)\<close>

record shape_state =
  fast_2key :: "(u64 \<times> u64 \<times> struct_descriptor) option"
  fast_1key :: "(u64 \<times> struct_descriptor) option"
  shape_cache :: "(u64 list \<times> struct_descriptor \<times> nat list) list"
  transition_cache :: "((u32 \<times> u64) \<times> struct_descriptor) list"
  next_descriptor_id :: u32

text \<open>"Anonymous", the name of every anonymous shape.\<close>

definition anonymous_name :: "u8 list" where
  "anonymous_name = [65, 110, 111, 110, 121, 109, 111, 117, 115]"

fun index_keys :: "(u64 \<Rightarrow> u8 list option) \<Rightarrow> nat \<Rightarrow> er_value list \<Rightarrow> (er_value \<times> nat) list \<Rightarrow> (er_value \<times> nat) list" where
  "index_keys rd i [] m = m"
| "index_keys rd i (k # ks) m = index_keys rd (Suc i) ks (km_insert rd k i m)"

text \<open>The update of the one- and two-key fast caches.\<close>

definition remember_fast :: "er_value list \<Rightarrow> struct_descriptor \<Rightarrow> shape_state \<Rightarrow> shape_state" where
  "remember_fast keys d st =
     (case keys of
        [k0, k1] \<Rightarrow> st\<lparr>fast_2key := Some (vbits k0, vbits k1, d)\<rparr>
      | [k0] \<Rightarrow> st\<lparr>fast_1key := Some (vbits k0, d)\<rparr>
      | _ \<Rightarrow> st)"

definition fast_lookup :: "er_value list \<Rightarrow> shape_state \<Rightarrow> struct_descriptor option" where
  "fast_lookup keys st =
     (case keys of
        [k0, k1] \<Rightarrow>
          (case fast_2key st of
             Some (c0, c1, d) \<Rightarrow> if c0 = vbits k0 \<and> c1 = vbits k1 then Some d else None
           | None \<Rightarrow> None)
      | [k0] \<Rightarrow>
          (case fast_1key st of
             Some (c0, d) \<Rightarrow> if c0 = vbits k0 then Some d else None
           | None \<Rightarrow> None)
      | _ \<Rightarrow> None)"

definition get_or_create_anonymous_shape ::
  "(u64 \<Rightarrow> u8 list option) \<Rightarrow> ((er_value \<times> nat) list \<Rightarrow> (er_value \<times> nat) list) \<Rightarrow> er_value list \<Rightarrow>
     shape_state \<Rightarrow> (struct_descriptor \<times> nat list) \<times> shape_state" where
  "get_or_create_anonymous_shape rd ord keys st =
     (case fast_lookup keys st of
        Some d \<Rightarrow> ((d, [0..<length keys]), st)
      | None \<Rightarrow>
        (case map_of (shape_cache st) (map vbits keys) of
           Some (d, offs) \<Rightarrow> ((d, offs), remember_fast keys d st)
         | None \<Rightarrow>
           (let (d, nid) = struct_descriptor_new ord anonymous_name (index_keys rd 0 keys []) []
                             (next_descriptor_id st);
                st = st\<lparr>next_descriptor_id := nid,
                        shape_cache := (map vbits keys, d, [0..<length keys]) # shape_cache st\<rparr>
            in ((d, [0..<length keys]), remember_fast keys d st))))"

definition get_or_create_anonymous_shape_2 ::
  "(u64 \<Rightarrow> u8 list option) \<Rightarrow> ((er_value \<times> nat) list \<Rightarrow> (er_value \<times> nat) list) \<Rightarrow> er_value \<Rightarrow> er_value \<Rightarrow>
     shape_state \<Rightarrow> ((struct_descriptor \<times> nat \<times> nat) \<times> shape_state) option" where
  "get_or_create_anonymous_shape_2 rd ord k0 k1 st =
     (case fast_lookup [k0, k1] st of
        Some d \<Rightarrow> Some ((d, 0, 1), st)
      | None \<Rightarrow>
        (let ((d, offs), st) = get_or_create_anonymous_shape rd ord [k0, k1] st
         in do { a \<leftarrow> vec_index offs 0; b \<leftarrow> vec_index offs 1; Some ((d, a, b), st) }))"

definition transition_shape_add_property ::
  "(u64 \<Rightarrow> u8 list option) \<Rightarrow> ((er_value \<times> nat) list \<Rightarrow> (er_value \<times> nat) list) \<Rightarrow> struct_descriptor \<Rightarrow>
     er_value \<Rightarrow> shape_state \<Rightarrow> struct_descriptor \<times> shape_state" where
  "transition_shape_add_property rd ord parent new_key st =
     (case map_of (transition_cache st) (sd_id parent, vbits new_key) of
        Some d \<Rightarrow> (d, st)
      | None \<Rightarrow>
        (let fi = km_insert rd new_key (length (field_indices parent)) (field_indices parent);
             (d, nid) = struct_descriptor_new ord anonymous_name fi [] (next_descriptor_id st)
         in (d, st\<lparr>next_descriptor_id := nid,
                   transition_cache := ((sd_id parent, vbits new_key), d) # transition_cache st\<rparr>)))"

definition reset_shape_state :: "shape_state \<Rightarrow> shape_state" where
  "reset_shape_state st =
     st\<lparr>fast_2key := None, fast_1key := None, shape_cache := [], transition_cache := []\<rparr>"

section \<open>Shape lemmas\<close>

text \<open>An iteration order lists the entries of the map.\<close>

definition iteration_order :: "((er_value \<times> nat) list \<Rightarrow> (er_value \<times> nat) list) \<Rightarrow> bool" where
  "iteration_order ord \<longleftrightarrow> (\<forall>m. mset (ord m) = mset m)"

lemma iteration_order_set: "iteration_order ord \<Longrightarrow> set (ord m) = set m"
  unfolding iteration_order_def by (metis set_mset_mset)

text \<open>Keys that are pairwise different as property names.\<close>

definition distinct_keys :: "(u64 \<Rightarrow> u8 list option) \<Rightarrow> er_value list \<Rightarrow> bool" where
  "distinct_keys rd ks \<longleftrightarrow> (\<forall>k \<in> set ks. wf_text rd k) \<and> sorted_wrt (\<lambda>a b. \<not> mapkey_eq rd a b) ks"

lemma index_keys_append:
  assumes "distinct_keys rd (map fst m @ ks)"
  shows "index_keys rd i ks m = m @ zip ks [i..<i + length ks]"
  using assms
proof (induction ks arbitrary: i m)
  case (Cons k ks)
  have "\<forall>e \<in> set m. \<not> mapkey_eq rd (fst e) k"
    using Cons.prems by (auto simp: distinct_keys_def sorted_wrt_append)
  then have "km_insert rd k i m = m @ [(k, i)]" by (rule km_insert_new)
  moreover have "distinct_keys rd (map fst (m @ [(k, i)]) @ ks)" using Cons.prems by simp
  moreover have "[i..<i + length (k # ks)] = i # [Suc i..<Suc i + length ks]"
    by (subst upt_conv_Cons) simp_all
  ultimately show ?case using Cons.IH [of "m @ [(k, i)]" "Suc i"] by simp
qed simp

lemma keys_ok_distinct: "keys_ok rd m \<longleftrightarrow> distinct_keys rd (map fst m)"
  by (auto simp: keys_ok_def distinct_keys_def sorted_wrt_map)

text \<open>The descriptor that a fresh shape for \<open>keys\<close> gets.\<close>

definition shape_for :: "(u64 \<Rightarrow> u8 list option) \<Rightarrow> er_value list \<Rightarrow> struct_descriptor \<Rightarrow> bool" where
  "shape_for rd keys d \<longleftrightarrow> desc_ok rd d \<and> field_indices d = zip keys [0..<length keys]"

lemma new_shape:
  assumes "distinct_keys rd keys" and "iteration_order ord"
  shows "shape_for rd keys
    (fst (struct_descriptor_new ord anonymous_name (index_keys rd 0 keys []) [] nid))"
proof -
  have fi: "index_keys rd 0 keys [] = zip keys [0..<length keys]"
    using index_keys_append [of rd "[]" keys 0] assms by simp
  have "set (take 8 (ord (zip keys [0..<length keys]))) \<subseteq> set (zip keys [0..<length keys])"
    using set_take_subset iteration_order_set [OF assms(2)] by metis
  then show ?thesis
    using assms fi by (simp add: shape_for_def desc_ok_def struct_descriptor_new_def keys_ok_distinct)
qed

text \<open>
  The cache invariant: every cached shape fits its keys, the fast caches only repeat entries of the
  shape cache, and ids have been handed out in order.
\<close>

definition key_values :: "u64 list \<Rightarrow> er_value list" where
  "key_values bs = map Value bs"

definition shapes_ok :: "(u64 \<Rightarrow> u8 list option) \<Rightarrow> shape_state \<Rightarrow> bool" where
  "shapes_ok rd st \<longleftrightarrow>
     (\<forall>kb d offs. (kb, d, offs) \<in> set (shape_cache st) \<longrightarrow>
        shape_for rd (key_values kb) d \<and> offs = [0..<length kb]) \<and>
     distinct (map fst (shape_cache st)) \<and>
     (\<forall>c0 c1 d. fast_2key st = Some (c0, c1, d) \<longrightarrow> ([c0, c1], d, [0, 1]) \<in> set (shape_cache st)) \<and>
     (\<forall>c0 d. fast_1key st = Some (c0, d) \<longrightarrow> ([c0], d, [0]) \<in> set (shape_cache st))"

lemma key_values_bits [simp]: "key_values (map vbits keys) = keys"
  by (induction keys) (simp_all add: key_values_def)

lemma fast_lookup_cached:
  assumes "shapes_ok rd st" and "fast_lookup keys st = Some d"
  shows "map_of (shape_cache st) (map vbits keys) = Some (d, [0..<length keys])"
proof -
  have "(map vbits keys, d, [0..<length keys]) \<in> set (shape_cache st)"
    using assms unfolding shapes_ok_def fast_lookup_def
    by (auto split: list.splits option.splits if_splits)
  then show ?thesis using assms unfolding shapes_ok_def by (simp add: map_of_eq_Some_iff)
qed

lemma remember_fast_ok:
  assumes "shapes_ok rd st" and "map_of (shape_cache st) (map vbits keys) = Some (d, [0..<length keys])"
  shows "shapes_ok rd (remember_fast keys d st)" and "shape_cache (remember_fast keys d st) = shape_cache st"
  using assms map_of_SomeD [OF assms(2)]
  by (auto simp: shapes_ok_def remember_fast_def split: list.splits)

lemma get_shape_cases:
  assumes ok: "shapes_ok rd st" and ks: "distinct_keys rd keys" and ord: "iteration_order ord"
  obtains d st' where "get_or_create_anonymous_shape rd ord keys st = ((d, [0..<length keys]), st')"
    and "shapes_ok rd st'" and "map_of (shape_cache st') (map vbits keys) = Some (d, [0..<length keys])"
    and "map_of (shape_cache st) \<subseteq>\<^sub>m map_of (shape_cache st')" and "shape_for rd keys d"
    and "\<And>e. map_of (shape_cache st) (map vbits keys) = Some e \<Longrightarrow> e = (d, [0..<length keys])"
proof (cases "fast_lookup keys st")
  case (Some d)
  from fast_lookup_cached [OF ok Some]
  have c: "map_of (shape_cache st) (map vbits keys) = Some (d, [0..<length keys])" .
  moreover have "shape_for rd (key_values (map vbits keys)) d"
    using ok map_of_SomeD [OF c] unfolding shapes_ok_def by blast
  moreover have "get_or_create_anonymous_shape rd ord keys st = ((d, [0..<length keys]), st)"
    using Some by (simp add: get_or_create_anonymous_shape_def)
  ultimately show thesis using ok by (intro that [of d st]) simp_all
next
  case None
  show thesis
  proof (cases "map_of (shape_cache st) (map vbits keys)")
    case (Some e)
    obtain d offs where e: "e = (d, offs)" by (cases e)
    have m: "(map vbits keys, d, offs) \<in> set (shape_cache st)"
      using Some e map_of_SomeD by fastforce
    then have "shape_for rd (key_values (map vbits keys)) d \<and> offs = [0..<length (map vbits keys)]"
      using ok unfolding shapes_ok_def by blast
    moreover have "get_or_create_anonymous_shape rd ord keys st = ((d, offs), remember_fast keys d st)"
      using None Some e by (simp add: get_or_create_anonymous_shape_def)
    ultimately show thesis
      using Some e remember_fast_ok [OF ok, of keys d]
      by (intro that [of d "remember_fast keys d st"]) simp_all
  next
    case new: None
    define d where "d = fst (struct_descriptor_new ord anonymous_name (index_keys rd 0 keys []) []
      (next_descriptor_id st))"
    define st1 where "st1 = st\<lparr>next_descriptor_id := next_descriptor_id st + 1,
      shape_cache := (map vbits keys, d, [0..<length keys]) # shape_cache st\<rparr>"
    have sf: "shape_for rd keys d" unfolding d_def by (rule new_shape [OF ks ord])
    have ok1: "shapes_ok rd st1"
      using ok sf new unfolding shapes_ok_def st1_def by (auto simp: map_of_eq_None_iff)
    have c1: "map_of (shape_cache st1) (map vbits keys) = Some (d, [0..<length keys])"
      by (simp add: st1_def)
    have le: "map_of (shape_cache st) \<subseteq>\<^sub>m map_of (shape_cache st1)"
      using new by (auto simp: st1_def map_le_def dom_def)
    have "get_or_create_anonymous_shape rd ord keys st = ((d, [0..<length keys]), remember_fast keys d st1)"
      using None new
      by (simp add: get_or_create_anonymous_shape_def d_def st1_def struct_descriptor_new_def)
    then show thesis
      using remember_fast_ok [OF ok1 c1] c1 le sf new
      by (intro that [of d "remember_fast keys d st1"]) simp_all
  qed
qed

text \<open>A sequence of requests for shapes.\<close>

fun request_shapes ::
  "(u64 \<Rightarrow> u8 list option) \<Rightarrow> ((er_value \<times> nat) list \<Rightarrow> (er_value \<times> nat) list) \<Rightarrow> er_value list list \<Rightarrow>
     shape_state \<Rightarrow> shape_state" where
  "request_shapes rd ord [] st = st"
| "request_shapes rd ord (ks # kss) st =
     request_shapes rd ord kss (snd (get_or_create_anonymous_shape rd ord ks st))"

lemma request_shapes_ok:
  assumes "shapes_ok rd st" and "\<forall>ks \<in> set kss. distinct_keys rd ks" and "iteration_order ord"
  shows "shapes_ok rd (request_shapes rd ord kss st) \<and>
    map_of (shape_cache st) \<subseteq>\<^sub>m map_of (shape_cache (request_shapes rd ord kss st))"
  using assms
proof (induction kss arbitrary: st)
  case (Cons ks kss)
  then have "distinct_keys rd ks" by simp
  then obtain d st' where st': "get_or_create_anonymous_shape rd ord ks st = ((d, [0..<length ks]), st')"
    "shapes_ok rd st'" "map_of (shape_cache st) \<subseteq>\<^sub>m map_of (shape_cache st')"
    using get_shape_cases [OF Cons.prems(1) _ Cons.prems(3)] by metis
  then show ?case using Cons.IH [OF st'(2)] Cons.prems map_le_trans by auto
qed simp

text \<open>C8: Objects built from the same keys share one hidden class: a request for a key list returns a
  descriptor whose field table sends the i-th key to slot i, and after any further requests
  for other shapes, through the one- and two-key fast caches or the general cache, the same key list
  returns the very same descriptor and offsets.\<close>

theorem shape_is_stable:
  assumes "shapes_ok rd st" and "distinct_keys rd keys" and "iteration_order ord"
    and "\<forall>ks \<in> set kss. distinct_keys rd ks"
  shows "\<exists>d st'. get_or_create_anonymous_shape rd ord keys st = ((d, [0..<length keys]), st') \<and>
    field_indices d = zip keys [0..<length keys] \<and> desc_ok rd d \<and>
    fst (get_or_create_anonymous_shape rd ord keys (request_shapes rd ord kss st')) =
      (d, [0..<length keys]) \<and>
    shapes_ok rd (request_shapes rd ord kss st')"
proof -
  obtain d st' where st': "get_or_create_anonymous_shape rd ord keys st = ((d, [0..<length keys]), st')"
    "shapes_ok rd st'" "map_of (shape_cache st') (map vbits keys) = Some (d, [0..<length keys])"
    "shape_for rd keys d"
    using get_shape_cases [OF assms(1-3)] by metis
  let ?u = "request_shapes rd ord kss st'"
  have u: "shapes_ok rd ?u" "map_of (shape_cache st') \<subseteq>\<^sub>m map_of (shape_cache ?u)"
    using request_shapes_ok [OF st'(2) assms(4,3)] by auto
  then have c: "map_of (shape_cache ?u) (map vbits keys) = Some (d, [0..<length keys])"
    using st'(3) by (metis domI map_le_def)
  obtain d2 u2 where "get_or_create_anonymous_shape rd ord keys ?u = ((d2, [0..<length keys]), u2)"
    "d2 = d" using get_shape_cases [OF u(1) assms(2,3)] c by (metis prod.inject)
  then show ?thesis using st' u unfolding shape_for_def by auto
qed

text \<open>C10: Struct fields behave as a record: storing into a declared field makes exactly the lookups of
  that name, through the fast-field table or the full table, see the new value; storing into an
  undeclared name reports failure and changes nothing; neither access can run out of bounds.\<close>

theorem field_set_get:
  assumes "struct_ok rd s" and "wf_text rd k" and "wf_text rd j"
  shows "\<exists>b s'. set_field rd s k v = Some (b, s') \<and> struct_ok rd s' \<and>
    (b = (get_field rd s k \<noteq> Some None)) \<and>
    get_field rd s' j = (if b \<and> mapkey_eq rd k j then Some (Some v) else get_field rd s j)"
proof (cases "km_get rd k (field_indices (descriptor s))")
  case None
  then show ?thesis
    using assms by (intro exI [of _ False] exI [of _ s])
      (simp add: set_field_table [OF assms(1,2)] get_field_table [OF assms(1,2)])
next
  case (Some i)
  let ?s' = "s\<lparr>st_fields := (st_fields s)[i := v]\<rparr>"
  have d: "desc_ok rd (descriptor s)" and l: "length (st_fields s) = length (field_indices (descriptor s))"
    using assms unfolding struct_ok_def by auto
  have ok: "struct_ok rd ?s'" using assms(1) unfolding struct_ok_def by simp
  have ib: "i < length (st_fields s)" using km_get_bound [OF d Some] l by simp
  obtain k1 where k1: "(k1, i) \<in> set (field_indices (descriptor s))" "mapkey_eq rd k1 k"
    using km_get_in [OF Some] by blast
  have wk1: "wf_text rd k1" using k1 d unfolding desc_ok_def keys_ok_def by fastforce
  have "get_field rd ?s' j = (if mapkey_eq rd k j then Some (Some v) else get_field rd s j)"
  proof (cases "mapkey_eq rd k j")
    case True
    then have "mapkey_eq rd k1 j" using k1 wk1 assms mk.eq_trans by blast
    then have "km_get rd j (field_indices (descriptor s)) = Some i"
      using km_get_member [of rd _ k1 i j] k1 d assms unfolding desc_ok_def by blast
    then show ?thesis using True ib by (simp add: get_field_table [OF ok assms(3)])
  next
    case False
    have "km_get rd j (field_indices (descriptor s)) \<noteq> Some i"
    proof
      assume "km_get rd j (field_indices (descriptor s)) = Some i"
      then obtain j1 where j1: "(j1, i) \<in> set (field_indices (descriptor s))" "mapkey_eq rd j1 j"
        by (blast dest: km_get_in)
      have "distinct (map snd (field_indices (descriptor s)))" using d unfolding desc_ok_def by simp
      then have "j1 = k1" using j1(1) k1(1)
        by (metis (no_types, lifting) distinct_map inj_on_def prod.inject snd_conv)
      then show False using False j1 k1 wk1 assms mk.eq_sym mk.eq_trans by blast
    qed
    then show ?thesis using False
      by (cases "km_get rd j (field_indices (descriptor s))")
        (auto simp: get_field_table [OF ok assms(3)] get_field_table [OF assms(1,3)])
  qed
  then show ?thesis using Some ok
    by (intro exI [of _ True] exI [of _ ?s']) (simp add: set_field_table [OF assms(1,2)] get_field_table [OF assms(1,2)])
qed

text \<open>
  \<open>reg\<close> names the descriptor each id was given to; a cached transition extends the descriptor of
  its parent id by its key.
\<close>

definition extends_by :: "struct_descriptor \<Rightarrow> er_value \<Rightarrow> struct_descriptor \<Rightarrow> bool" where
  "extends_by p k d \<longleftrightarrow> field_indices d = field_indices p @ [(k, length (field_indices p))]"

definition transitions_ok ::
  "(u64 \<Rightarrow> u8 list option) \<Rightarrow> (u32 \<Rightarrow> struct_descriptor) \<Rightarrow> shape_state \<Rightarrow> bool" where
  "transitions_ok rd reg st \<longleftrightarrow>
     (\<forall>i kb d. map_of (transition_cache st) (i, kb) = Some d \<longrightarrow>
        desc_ok rd d \<and> extends_by (reg i) (Value kb) d)"

text \<open>C9: Adding a property to an object of an anonymous shape moves it to a shape that keeps every
  old slot and appends the new key in the next slot; pushing the value then gives a well-formed
  object in which the new name reads the value and every other name reads what it did, whether the
  transition was cached or made now.\<close>

theorem transition_adds_property:
  assumes "struct_ok rd s" and "wf_text rd k" and "get_field rd s k = Some None"
    and "transitions_ok rd reg st" and "reg (sd_id (descriptor s)) = descriptor s"
    and "iteration_order ord" and "wf_text rd j"
  shows "case transition_shape_add_property rd ord (descriptor s) k st of (d, st') \<Rightarrow>
    struct_ok rd (s\<lparr>descriptor := d, st_fields := st_fields s @ [v]\<rparr>) \<and>
    transitions_ok rd reg st' \<and>
    get_field rd (s\<lparr>descriptor := d, st_fields := st_fields s @ [v]\<rparr>) j =
      (if mapkey_eq rd k j then Some (Some v) else get_field rd s j)"
proof -
  let ?fi = "field_indices (descriptor s)" and ?n = "length (field_indices (descriptor s))"
  have d: "desc_ok rd (descriptor s)" and l: "length (st_fields s) = ?n"
    using assms(1) unfolding struct_ok_def by auto
  have nk: "\<forall>e \<in> set ?fi. \<not> mapkey_eq rd (fst e) k"
    using assms(3) by (simp add: get_field_table [OF assms(1,2)] km_get_None)
  obtain d' st' where t: "transition_shape_add_property rd ord (descriptor s) k st = (d', st')"
    by (cases "transition_shape_add_property rd ord (descriptor s) k st")
  have d': "desc_ok rd d' \<and> extends_by (descriptor s) k d' \<and> transitions_ok rd reg st'"
  proof (cases "map_of (transition_cache st) (sd_id (descriptor s), vbits k)")
    case (Some d1)
    then have "desc_ok rd d1 \<and> extends_by (reg (sd_id (descriptor s))) (Value (vbits k)) d1"
      using assms(4) unfolding transitions_ok_def by blast
    then show ?thesis using t Some assms(4,5) by (simp add: transition_shape_add_property_def)
  next
    case None
    have ins: "km_insert rd k ?n ?fi = ?fi @ [(k, ?n)]" by (rule km_insert_new [OF nk])
    define nd where "nd = fst (struct_descriptor_new ord anonymous_name (?fi @ [(k, ?n)]) []
      (next_descriptor_id st))"
    have r: "d' = nd" "transition_cache st' = ((sd_id (descriptor s), vbits k), nd) # transition_cache st"
      using t None ins
      by (auto simp: transition_shape_add_property_def nd_def struct_descriptor_new_def Let_def)
    have "keys_ok rd (?fi @ [(k, ?n)])"
      using d nk assms(2) unfolding desc_ok_def keys_ok_def by (auto simp: sorted_wrt_append)
    moreover have "set (take 8 (ord (?fi @ [(k, ?n)]))) \<subseteq> set (?fi @ [(k, ?n)])"
      using set_take_subset iteration_order_set [OF assms(6)] by metis
    ultimately have ok: "desc_ok rd nd" "extends_by (descriptor s) k nd"
      using d unfolding desc_ok_def extends_by_def nd_def struct_descriptor_new_def by auto
    have "transitions_ok rd reg st'"
      using assms(4,5) ok unfolding transitions_ok_def r(2) by auto
    then show ?thesis using r ok by simp
  qed
  let ?s' = "s\<lparr>descriptor := d', st_fields := st_fields s @ [v]\<rparr>"
  have ok': "struct_ok rd ?s'" using d' l unfolding struct_ok_def extends_by_def by simp
  have km: "km_get rd j (field_indices d') =
      (case km_get rd j ?fi of Some i \<Rightarrow> Some i | None \<Rightarrow> if mapkey_eq rd k j then Some ?n else None)"
  proof -
    have "km_get rd j (m @ [(k, n)]) =
      (case km_get rd j m of Some i \<Rightarrow> Some i | None \<Rightarrow> if mapkey_eq rd k j then Some n else None)"
      for m :: "(er_value \<times> nat) list" and n
      by (induction m) auto
    then show ?thesis using d' unfolding extends_by_def by simp
  qed
  have "get_field rd ?s' j = (if mapkey_eq rd k j then Some (Some v) else get_field rd s j)"
  proof (cases "km_get rd j ?fi")
    case None
    then show ?thesis using km nth_append_length [of "st_fields s" v "[]"] l
      by (auto simp: get_field_table [OF ok' assms(7)] get_field_table [OF assms(1,7)])
  next
    case (Some i)
    then obtain k1 where k1: "(k1, i) \<in> set ?fi" "mapkey_eq rd k1 j" by (blast dest: km_get_in)
    have "wf_text rd k1" using k1 d unfolding desc_ok_def keys_ok_def by fastforce
    moreover have "\<not> mapkey_eq rd k1 k" using nk k1(1) by fastforce
    ultimately have "\<not> mapkey_eq rd k j"
      using k1(2) assms(2,7) mk.eq_sym [of rd k j] mk.eq_trans [of rd k1 j k] by blast
    moreover have "i < length (st_fields s)" using km_get_bound [OF d Some] l by simp
    ultimately show ?thesis using Some km
      by (simp add: get_field_table [OF ok' assms(7)] get_field_table [OF assms(1,7)] nth_append)
  qed
  then show ?thesis using t ok' d' by simp
qed

section \<open>Concrete shapes\<close>

text \<open>The property names "a" and "b", and a state with no shape cached.\<close>

definition key_a :: "er_value" where "key_a = Value (inline_bits [97])"
definition key_b :: "er_value" where "key_b = Value (inline_bits [98])"

definition no_shapes :: shape_state where
  "no_shapes = \<lparr>fast_2key = None, fast_1key = None, shape_cache = [], transition_cache = [],
     next_descriptor_id = 1\<rparr>"

definition no_heap :: "u64 \<Rightarrow> u8 list option" where "no_heap p = None"

lemma demo_keys: "wf_text no_heap key_a" "wf_text no_heap key_b" "\<not> mapkey_eq no_heap key_a key_b"
  by code_simp+

lemma no_shapes_ok: "shapes_ok rd no_shapes" "transitions_ok rd reg no_shapes"
  by (simp_all add: shapes_ok_def transitions_ok_def no_shapes_def)

theorem shape_is_stable_witness:
  "\<exists>d st'. get_or_create_anonymous_shape no_heap id [key_a, key_b] no_shapes = ((d, [0, 1]), st') \<and>
     field_indices d = [(key_a, 0), (key_b, 1)] \<and>
     fst (get_or_create_anonymous_shape no_heap id [key_a, key_b]
            (request_shapes no_heap id [[key_b], [key_b, key_a]] st')) = (d, [0, 1])"
proof -
  have "\<not> mapkey_eq no_heap key_b key_a" using demo_keys mk.eq_sym by blast
  then have "distinct_keys no_heap [key_a, key_b]"
    "\<forall>ks \<in> set [[key_b], [key_b, key_a]]. distinct_keys no_heap ks"
    using demo_keys by (simp_all add: distinct_keys_def)
  moreover have "iteration_order id" by (simp add: iteration_order_def)
  ultimately show ?thesis
    using shape_is_stable [OF no_shapes_ok(1), of no_heap "[key_a, key_b]" id "[[key_b], [key_b, key_a]]"]
    by auto
qed

definition demo_struct :: gc_struct where
  "demo_struct = \<lparr>descriptor = fst (struct_descriptor_new id anonymous_name [(key_a, 0)] [] 1),
     st_fields = [val_null]\<rparr>"

lemma demo_struct_ok: "struct_ok no_heap demo_struct"
  using demo_keys
  by (simp add: struct_ok_def desc_ok_def demo_struct_def struct_descriptor_new_def keys_ok_def)

theorem field_set_get_witness:
  "\<exists>b s'. set_field no_heap demo_struct key_a (val_boolean True) = Some (b, s') \<and> b \<and>
     get_field no_heap s' key_a = Some (Some (val_boolean True))"
proof -
  have "get_field no_heap demo_struct key_a \<noteq> Some None" by code_simp
  moreover have "mapkey_eq no_heap key_a key_a" by code_simp
  ultimately show ?thesis
    using field_set_get [OF demo_struct_ok demo_keys(1) demo_keys(1), of "val_boolean True"] by auto
qed

theorem transition_adds_property_witness:
  "case transition_shape_add_property no_heap id (descriptor demo_struct) key_b no_shapes of (d, st') \<Rightarrow>
     get_field no_heap (demo_struct\<lparr>descriptor := d, st_fields := [val_null, val_boolean True]\<rparr>) key_b =
       Some (Some (val_boolean True))"
proof -
  have n: "get_field no_heap demo_struct key_b = Some None" by code_simp
  have e: "mapkey_eq no_heap key_b key_b" by code_simp
  have i: "iteration_order id" by (simp add: iteration_order_def)
  have f: "st_fields demo_struct @ [v] = [val_null, v]" for v by (simp add: demo_struct_def)
  show ?thesis
    using transition_adds_property [OF demo_struct_ok demo_keys(2) n no_shapes_ok(2) _ i demo_keys(2),
        of "\<lambda>_. descriptor demo_struct" "val_boolean True"] e
    by (simp add: f split: prod.splits)
qed

end
