(* ===== verification/Tokens.thy ===== *)
theory Tokens
  imports Doubles
begin

text \<open>
  The tokens of \<^verbatim>\<open>crates/eronom-frontend/src/token.rs\<close>: the variants of \<^verbatim>\<open>TokenType\<close> with the
  prefix \<open>T_\<close>, and a token with its line and column. Only the code and size setup of the
  datatype package is generated for so many constructors.
\<close>

datatype (plugins only: code size) token_type =
    T_LeftParen | T_RightParen | T_LeftBrace | T_RightBrace | T_LeftBracket | T_RightBracket
  | T_Comma | T_Dot | T_Minus | T_MinusMinus | T_MinusEqual | T_Plus | T_PlusPlus | T_PlusEqual
  | T_Colon | T_Slash | T_SlashEqual | T_Star | T_StarEqual | T_Percent | T_PercentEqual | T_Bang
  | T_BangEqual | T_Equal | T_EqualEqual | T_Greater | T_GreaterEqual | T_GreaterGreater | T_Less
  | T_LessEqual | T_LessLess | T_Ampersand | T_Pipe | T_Caret | T_Tilde | T_Question | T_Arrow
  | T_DotDot | T_Identifier string | T_String string | T_Number f64 | T_And | T_Else | T_False
  | T_For | T_If | T_Null | T_Or | T_Print | T_Return | T_True | T_Let | T_Const | T_In | T_Import
  | T_Export | T_From | T_Function | T_Struct | T_Embed | T_Interface | T_Concurrent | T_Spawn
  | T_On | T_While | T_Break | T_Continue | T_Try | T_Catch | T_Finally | T_Throw | T_Switch
  | T_Case | T_Default | T_Match | T_Typeof | T_Type | T_As | T_Is | T_Enum | T_Async | T_Await
  | T_New | T_Underscore | T_Sync | T_At | T_Eof

record token =
  tok_ty :: token_type
  tok_line :: nat
  tok_col :: nat

definition mk_token :: "token_type \<Rightarrow> nat \<times> nat \<Rightarrow> token" where
  "mk_token ty p = \<lparr>tok_ty = ty, tok_line = fst p, tok_col = snd p\<rparr>"

end
