(* ===== verification/Lexer.thy ===== *)
theory Lexer
  imports Tokens "HOL-Library.Monad_Syntax"
begin

text \<open>
  The lexer, \<^verbatim>\<open>crates/eronom-frontend/src/lexer.rs\<close>. It
  is a record of the remaining characters, the position and the token buffer (a stack, its top
  at the head of the list). A character is one code point below 256. A string literal with
  \<^verbatim>\<open>{...}\<close> runs a second lexer on the text between the braces, so \<open>next_token\<close> and
  \<open>lex_until_eof\<close> are mutually recursive; \<open>fuel\<close> bounds the recursion and
  \<open>lex\<close> gives enough of it.
\<close>

section \<open>Characters and positions\<close>

definition is_whitespace :: "char \<Rightarrow> bool" where
  "is_whitespace c \<longleftrightarrow> (let n = of_char c :: nat
     in 9 \<le> n \<and> n \<le> 13 \<or> n = 32 \<or> n = 133 \<or> n = 160)"

definition is_ascii_alphabetic :: "char \<Rightarrow> bool" where
  "is_ascii_alphabetic c \<longleftrightarrow> (let n = of_char c :: nat in 65 \<le> n \<and> n \<le> 90 \<or> 97 \<le> n \<and> n \<le> 122)"

definition is_ascii_alphanumeric :: "char \<Rightarrow> bool" where
  "is_ascii_alphanumeric c \<longleftrightarrow> is_ascii_alphabetic c \<or> is_digit c"

abbreviation (input) NL :: char where "NL \<equiv> CHR 0x0A"

text \<open>The position (line, column) after consuming a character.\<close>

definition step_pos :: "char \<Rightarrow> nat \<times> nat \<Rightarrow> nat \<times> nat" where
  "step_pos c p = (if c = NL then (fst p + 1, 1) else (fst p, snd p + 1))"

record lexer =
  lx_chars :: string
  lx_pos :: "nat \<times> nat"
  lx_buffer :: "token list"

definition lexer_new :: "string \<Rightarrow> lexer" where
  "lexer_new source = \<lparr>lx_chars = source, lx_pos = (1, 1), lx_buffer = []\<rparr>"

text \<open>\<open>match_char\<close> on the remaining characters and the position.\<close>

definition match_char :: "char \<Rightarrow> string \<times> (nat \<times> nat) \<Rightarrow> bool \<times> string \<times> (nat \<times> nat)" where
  "match_char e st =
     (case fst st of
        c # cs \<Rightarrow> if c = e then (True, cs, step_pos c (snd st)) else (False, st)
      | [] \<Rightarrow> (False, st))"

section \<open>White space and comments\<close>

fun skip_line :: "string \<Rightarrow> nat \<times> nat \<Rightarrow> string \<times> (nat \<times> nat)" where
  "skip_line [] p = ([], p)"
| "skip_line (c # cs) p = (if c = NL then (c # cs, p) else skip_line cs (step_pos c p))"

lemma skip_line_length: "length (fst (skip_line cs p)) \<le> length cs"
  by (induction cs p rule: skip_line.induct) auto

function skip_whitespace :: "string \<Rightarrow> nat \<times> nat \<Rightarrow> string \<times> (nat \<times> nat)" where
  "skip_whitespace [] p = ([], p)"
| "skip_whitespace (c # cs) p =
     (if is_whitespace c \<or> c = CHR '';'' then skip_whitespace cs (step_pos c p)
      else if c = CHR ''/'' \<and> starts_with cs ''/''
      then (case skip_line (c # cs) p of (rest, q) \<Rightarrow> skip_whitespace rest q)
      else (c # cs, p))"
  by pat_completeness auto

lemma skip_line_shorter:
  "skip_line (c # cs) p = (rest, q) \<Longrightarrow> c = CHR ''/'' \<Longrightarrow> length rest < length (c # cs)"
  using skip_line_length [of cs "step_pos c p"] by auto

termination skip_whitespace
proof (relation "measure (\<lambda>(cs, p). length cs)", goal_cases)
  case (3 c cs p rest q)
  then have e: "skip_line (c # cs) p = (rest, q)" by simp
  then show ?case using 3(2) skip_line_shorter [OF e] by (simp del: skip_line.simps)
qed auto

lemma skip_whitespace_length: "length (fst (skip_whitespace cs p)) \<le> length cs"
proof (induction cs p rule: skip_whitespace.induct)
  case (2 c cs p)
  show ?case
  proof (cases "is_whitespace c \<or> c = CHR '';''")
    case True
    then show ?thesis using 2(1) by auto
  next
    case False
    show ?thesis
    proof (cases "c = CHR ''/'' \<and> starts_with cs ''/''")
      case True
      obtain rest q where r: "skip_line (c # cs) p = (rest, q)" by (cases "skip_line (c # cs) p")
      have "length rest \<le> length (c # cs)" using skip_line_length [of "c # cs" p] r by simp
      moreover have "length (fst (skip_whitespace rest q)) \<le> length rest"
        using 2(2) [OF False True r [symmetric]] by simp
      ultimately show ?thesis using False True r by (simp del: skip_line.simps)
    next
      case nc: False
      then have "skip_whitespace (c # cs) p = (c # cs, p)" using False by auto
      then show ?thesis by simp
    qed
  qed
qed simp

section \<open>Words and numbers\<close>

fun scan_ident :: "string \<Rightarrow> nat \<times> nat \<Rightarrow> string \<times> string \<times> (nat \<times> nat)" where
  "scan_ident [] p = ([], [], p)"
| "scan_ident (c # cs) p =
     (if is_ascii_alphanumeric c \<or> c = CHR ''_''
      then (case scan_ident cs (step_pos c p) of (w, rest, q) \<Rightarrow> (c # w, rest, q))
      else ([], c # cs, p))"

text \<open>A dot belongs to the number unless the character after it is a dot too.\<close>

fun scan_number :: "string \<Rightarrow> nat \<times> nat \<Rightarrow> string \<times> string \<times> (nat \<times> nat)" where
  "scan_number [] p = ([], [], p)"
| "scan_number (c # cs) p =
     (if is_digit c \<or> c = CHR ''.'' \<and> \<not> starts_with cs ''.''
      then (case scan_number cs (step_pos c p) of (w, rest, q) \<Rightarrow> (c # w, rest, q))
      else ([], c # cs, p))"

definition keyword_table :: "(string \<times> token_type) list" where
  "keyword_table =
    [(''and'', T_And), (''else'', T_Else), (''false'', T_False), (''for'', T_For), (''if'', T_If),
     (''null'', T_Null), (''or'', T_Or), (''print'', T_Print), (''return'', T_Return),
     (''true'', T_True), (''let'', T_Let), (''const'', T_Const), (''in'', T_In),
     (''import'', T_Import), (''export'', T_Export), (''from'', T_From), (''fn'', T_Function),
     (''function'', T_Function), (''struct'', T_Struct), (''embed'', T_Embed),
     (''interface'', T_Interface), (''concurrent'', T_Concurrent), (''spawn'', T_Spawn),
     (''on'', T_On), (''while'', T_While), (''break'', T_Break), (''continue'', T_Continue),
     (''try'', T_Try), (''catch'', T_Catch), (''finally'', T_Finally), (''throw'', T_Throw),
     (''switch'', T_Switch), (''case'', T_Case), (''default'', T_Default), (''match'', T_Match),
     (''typeof'', T_Typeof), (''type'', T_Type), (''as'', T_As), (''is'', T_Is),
     (''enum'', T_Enum), (''async'', T_Async), (''sync'', T_Sync), (''await'', T_Await),
     (''new'', T_New), (''_'', T_Underscore)]"

definition word_token :: "string \<Rightarrow> token_type" where
  "word_token w = (case map_of keyword_table w of Some ty \<Rightarrow> ty | None \<Rightarrow> T_Identifier w)"

definition number_token :: "string \<Rightarrow> token_type" where
  "number_token w = T_Number (case f64_parse w of Some x \<Rightarrow> x | None \<Rightarrow> 0)"

section \<open>String literals\<close>

definition escapable :: "char \<Rightarrow> char \<Rightarrow> bool" where
  "escapable quote c \<longleftrightarrow> c = quote \<or> c \<in> set ([CHR 0x5C] @ ''{}ntr'' @ [CHR 0x22, CHR 0x27])"

definition unescape :: "char \<Rightarrow> char" where
  "unescape c = (if c = CHR ''n'' then NL else if c = CHR ''t'' then CHR 0x09
                 else if c = CHR ''r'' then CHR 0x0D else c)"

text \<open>The text up to the closing brace of an interpolation.\<close>

fun scan_brace :: "string \<Rightarrow> nat \<times> nat \<Rightarrow> string \<times> string \<times> (nat \<times> nat)" where
  "scan_brace [] p = ([], [], p)"
| "scan_brace (c # cs) p =
     (if c = CHR ''}'' then ([], cs, step_pos c p)
      else (case scan_brace cs (step_pos c p) of (w, rest, q) \<Rightarrow> (c # w, rest, q)))"

lemma scan_brace_length:
  "scan_brace cs p = (w, rest, q) \<Longrightarrow> length w + length rest \<le> length cs"
  by (induction cs p arbitrary: w rest q rule: scan_brace.induct) (auto split: if_splits prod.splits)

text \<open>
  The body of a string literal after its opening quote. \<open>str\<close> is the text collected since the
  last interpolation and \<open>toks\<close> the tokens pushed so far; \<open>sub\<close> lexes the text of an
  interpolation.
\<close>

function scan_string ::
  "(string \<Rightarrow> token list option) \<Rightarrow> char \<Rightarrow> string \<Rightarrow> nat \<times> nat \<Rightarrow> string \<Rightarrow> token list \<Rightarrow>
     (string \<times> token list \<times> string \<times> (nat \<times> nat)) option" where
  "scan_string sub quote [] p str toks = Some (str, toks, [], p)"
| "scan_string sub quote (c # cs) p str toks =
     (if c = CHR 0x5C \<and> cs \<noteq> [] \<and> escapable quote (hd cs)
      then scan_string sub quote (tl cs) (step_pos (hd cs) (step_pos c p)) (str @ [unescape (hd cs)]) toks
      else if c = quote then Some (str, toks, cs, step_pos c p)
      else if c = CHR ''{''
      then (case scan_brace cs (step_pos c p) of (expr, rest, q) \<Rightarrow>
              do {
                ts \<leftarrow> sub expr;
                scan_string sub quote rest q []
                  (toks @ [mk_token (T_String str) (step_pos c p), mk_token T_Plus (step_pos c p)] @ ts @
                   [mk_token T_Plus q]) })
      else scan_string sub quote cs (step_pos c p) (str @ [c]) toks)"
  by pat_completeness auto

termination scan_string
proof (relation "measure (\<lambda>(sub, quote, cs, p, str, toks). length cs)", goal_cases)
  case (3 sub quote c cs p str toks expr y rest q)
  then have "scan_brace cs (step_pos c p) = (expr, rest, q)" by simp
  then show ?case using scan_brace_length by fastforce
qed auto

section \<open>Tokens from characters\<close>

text \<open>An operator that may be followed by one of several characters.\<close>

fun op_token :: "(char \<times> token_type) list \<Rightarrow> token_type \<Rightarrow> string \<times> (nat \<times> nat) \<Rightarrow>
    token_type \<times> string \<times> (nat \<times> nat)" where
  "op_token [] dflt st = (dflt, st)"
| "op_token ((e, ty) # alts) dflt st =
     (case match_char e st of (True, st') \<Rightarrow> (ty, st') | (False, st') \<Rightarrow> op_token alts dflt st')"

text \<open>The first character of an operator: its longer forms in the order they are tried.\<close>

definition operator_table :: "(char \<times> (char \<times> token_type) list \<times> token_type) list" where
  "operator_table =
    [(CHR ''('', [], T_LeftParen), (CHR '')'', [], T_RightParen), (CHR ''{'', [], T_LeftBrace),
     (CHR ''}'', [], T_RightBrace), (CHR ''['', [], T_LeftBracket), (CHR '']'', [], T_RightBracket),
     (CHR '','', [], T_Comma), (CHR '':'', [], T_Colon), (CHR ''@'', [], T_At),
     (CHR ''-'', [(CHR ''-'', T_MinusMinus), (CHR ''='', T_MinusEqual)], T_Minus),
     (CHR ''+'', [(CHR ''+'', T_PlusPlus), (CHR ''='', T_PlusEqual)], T_Plus),
     (CHR ''*'', [(CHR ''='', T_StarEqual)], T_Star),
     (CHR ''/'', [(CHR ''='', T_SlashEqual)], T_Slash),
     (CHR ''%'', [(CHR ''='', T_PercentEqual)], T_Percent),
     (CHR ''&'', [(CHR ''&'', T_And)], T_Ampersand),
     (CHR ''|'', [(CHR ''|'', T_Or)], T_Pipe),
     (CHR ''^'', [], T_Caret), (CHR ''~'', [], T_Tilde), (CHR ''?'', [], T_Question),
     (CHR ''.'', [(CHR ''.'', T_DotDot)], T_Dot),
     (CHR ''!'', [(CHR ''='', T_BangEqual)], T_Bang),
     (CHR ''='', [(CHR ''='', T_EqualEqual), (CHR ''>'', T_Arrow)], T_Equal),
     (CHR ''<'', [(CHR ''<'', T_LessLess), (CHR ''='', T_LessEqual)], T_Less),
     (CHR ''>'', [(CHR ''>'', T_GreaterGreater), (CHR ''='', T_GreaterEqual)], T_Greater)]"

text \<open>
  One token from a state whose buffer is empty, after the white space. A character no rule accepts
  gives an end-of-file token, as in the source.
\<close>

definition fresh_token :: "(string \<Rightarrow> token list option) \<Rightarrow> string \<Rightarrow> nat \<times> nat \<Rightarrow> (token \<times> lexer) option" where
  "fresh_token sub cs p =
     (case cs of
        [] \<Rightarrow> Some (mk_token T_Eof p, \<lparr>lx_chars = [], lx_pos = p, lx_buffer = []\<rparr>)
      | c # cs' \<Rightarrow>
        (case map_of operator_table c of
           Some (alts, dflt) \<Rightarrow>
             (case op_token alts dflt (cs', step_pos c p) of (ty, rest, q) \<Rightarrow>
                Some (mk_token ty p, \<lparr>lx_chars = rest, lx_pos = q, lx_buffer = []\<rparr>))
         | None \<Rightarrow>
           if c = CHR 0x22 \<or> c = CHR 0x27 then
             (case scan_string sub c cs' (step_pos c p) [] [] of
                None \<Rightarrow> None
              | Some (str, toks, rest, q) \<Rightarrow>
                (let lx = \<lparr>lx_chars = rest, lx_pos = q, lx_buffer = []\<rparr>
                 in if toks = [] then Some (mk_token (T_String str) p, lx)
                    else (let all = (if str = [] then butlast toks
                                     else toks @ [mk_token (T_String str) q])
                          in Some (hd all, lx\<lparr>lx_buffer := tl all\<rparr>))))
           else if is_digit c then
             (case scan_number cs' (step_pos c p) of (w, rest, q) \<Rightarrow>
                Some (mk_token (number_token (c # w)) p, \<lparr>lx_chars = rest, lx_pos = q, lx_buffer = []\<rparr>))
           else if is_ascii_alphabetic c \<or> c = CHR ''_'' then
             (case scan_ident cs' (step_pos c p) of (w, rest, q) \<Rightarrow>
                Some (mk_token (word_token (c # w)) p, \<lparr>lx_chars = rest, lx_pos = q, lx_buffer = []\<rparr>))
           else Some (mk_token T_Eof p, \<lparr>lx_chars = cs', lx_pos = step_pos c p, lx_buffer = []\<rparr>)))"

fun next_token :: "nat \<Rightarrow> lexer \<Rightarrow> (token \<times> lexer) option"
and lex_until_eof :: "nat \<Rightarrow> lexer \<Rightarrow> (token list \<times> token) option" where
  "next_token fuel lx =
     (case lx_buffer lx of
        tok # toks \<Rightarrow> Some (tok, lx\<lparr>lx_buffer := toks\<rparr>)
      | [] \<Rightarrow>
        (case skip_whitespace (lx_chars lx) (lx_pos lx) of (cs, p) \<Rightarrow>
           (case fuel of
              0 \<Rightarrow> None
            | Suc n \<Rightarrow> fresh_token (\<lambda>e. map_option fst (lex_until_eof n (lexer_new e))) cs p)))"
| "lex_until_eof fuel lx =
     (case fuel of
        0 \<Rightarrow> None
      | Suc n \<Rightarrow>
        (case next_token n lx of
           None \<Rightarrow> None
         | Some (tok, lx') \<Rightarrow>
           (if tok_ty tok = T_Eof then Some ([], tok)
            else map_option (\<lambda>(ts, e). (tok # ts, e)) (lex_until_eof n lx'))))"

definition lex :: "string \<Rightarrow> token list option" where
  "lex source = map_option (\<lambda>(ts, e). ts @ [e]) (lex_until_eof (4 * length source + 4) (lexer_new source))"

end
