(* ===== verification/Lexer_Total.thy ===== *)
theory Lexer_Total
  imports Lexer
begin

text \<open>
  The lexer is total: with the fuel \<open>lex\<close> gives it, it always reaches an end-of-file token,
  which is the only one, and a result does not depend on the fuel. The weight of a lexer state, three
  times the characters left plus the tokens buffered, decreases with every token; a string
  literal pays with its characters for the tokens of its interpolations.
\<close>

section \<open>Lengths\<close>

lemma match_char_length: "match_char e st = (b, st') \<Longrightarrow> length (fst st') \<le> length (fst st)"
  by (auto simp: match_char_def split: list.splits if_splits)

lemma op_token_length: "op_token alts d st = (ty, st') \<Longrightarrow> length (fst st') \<le> length (fst st)"
proof (induction alts d st rule: op_token.induct)
  case (2 e ty' alts dflt st)
  then show ?case
    using match_char_length [of e st] by (auto split: prod.splits bool.splits) fastforce
qed simp

lemma scan_ident_length: "scan_ident cs p = (w, rest, q) \<Longrightarrow> length rest \<le> length cs"
  by (induction cs p arbitrary: w rest q rule: scan_ident.induct) (fastforce split: if_splits prod.splits)+

lemma scan_number_length: "scan_number cs p = (w, rest, q) \<Longrightarrow> length rest \<le> length cs"
  by (induction cs p arbitrary: w rest q rule: scan_number.induct) (fastforce split: if_splits prod.splits)+

lemma op_token_not_eof:
  assumes "map_of operator_table c = Some (alts, d)" and "op_token alts d st = (ty, st')"
  shows "ty \<noteq> T_Eof"
proof -
  have t: "\<forall>(c, alts, d) \<in> set operator_table. d \<noteq> T_Eof \<and> (\<forall>(e, ty) \<in> set alts. ty \<noteq> T_Eof)"
    by code_simp
  have "op_token alts d st = (ty, st') \<Longrightarrow> d \<noteq> T_Eof \<Longrightarrow> (\<forall>(e, ty) \<in> set alts. ty \<noteq> T_Eof) \<Longrightarrow> ty \<noteq> T_Eof"
    for alts d and st :: "string \<times> nat \<times> nat"
    by (induction alts d st rule: op_token.induct) (auto split: prod.splits bool.splits)
  then show ?thesis using t map_of_SomeD [OF assms(1)] assms(2) by fast
qed

lemma word_token_not_eof: "word_token w \<noteq> T_Eof"
proof -
  have "\<forall>(w, ty) \<in> set keyword_table. ty \<noteq> T_Eof" by code_simp
  then show ?thesis by (auto simp: word_token_def split: option.splits dest: map_of_SomeD)
qed

section \<open>String literals\<close>

lemma set_tl_subset: "set (tl xs) \<subseteq> set xs"
  by (cases xs) auto

definition no_eof :: "token list \<Rightarrow> bool" where
  "no_eof toks \<longleftrightarrow> (\<forall>t \<in> set toks. tok_ty t \<noteq> T_Eof)"

lemma tok_ty_mk [simp]: "tok_ty (mk_token ty p) = ty"
  by (simp add: mk_token_def)

text \<open>What the lexer of interpolations must provide for texts shorter than \<open>n\<close>.\<close>

definition sub_ok :: "nat \<Rightarrow> (string \<Rightarrow> token list option) \<Rightarrow> bool" where
  "sub_ok n sub \<longleftrightarrow> (\<forall>e. length e < n \<longrightarrow> (\<exists>ts. sub e = Some ts \<and> length ts \<le> 3 * length e \<and> no_eof ts))"

definition literal_tokens :: "token list \<Rightarrow> bool" where
  "literal_tokens toks \<longleftrightarrow> toks = [] \<or> 3 \<le> length toks"

lemma scan_string_total:
  "length cs \<le> n \<Longrightarrow> sub_ok n sub \<Longrightarrow> no_eof toks \<Longrightarrow> literal_tokens toks \<Longrightarrow>
     \<exists>str' toks' rest q'. scan_string sub quote cs p str toks = Some (str', toks', rest, q') \<and>
       no_eof toks' \<and> literal_tokens toks' \<and>
       length toks' + 3 * length rest \<le> length toks + 3 * length cs"
proof (induction sub quote cs p str toks rule: scan_string.induct)
  case (2 sub quote c cs p str toks)
  show ?case
  proof (cases "c = CHR 0x5C \<and> cs \<noteq> [] \<and> escapable quote (hd cs)")
    case True
    then have "\<exists>str' toks' rest q'.
        scan_string sub quote (tl cs) (step_pos (hd cs) (step_pos c p)) (str @ [unescape (hd cs)]) toks =
          Some (str', toks', rest, q') \<and> no_eof toks' \<and> literal_tokens toks' \<and>
        length toks' + 3 * length rest \<le> length toks + 3 * length (tl cs)"
      using 2(1) [OF True] 2(4-) by simp
    then show ?thesis using True by auto
  next
    case esc: False
    show ?thesis
    proof (cases "c = quote")
      case True
      then show ?thesis using esc 2(4-) by auto
    next
      case q: False
      show ?thesis
      proof (cases "c = CHR ''{''")
        case True
        obtain expr rest q' where b: "scan_brace cs (step_pos c p) = (expr, rest, q')"
          by (metis prod_cases3)
        then have len: "length expr + length rest \<le> length cs" by (rule scan_brace_length)
        then obtain ts where ts: "sub expr = Some ts" "length ts \<le> 3 * length expr" "no_eof ts"
          using 2(4,5) unfolding sub_ok_def by (metis add_leD1 le_trans length_Cons less_eq_Suc_le not_less_eq_eq)
        let ?toks = "toks @ [mk_token (T_String str) (step_pos c p), mk_token T_Plus (step_pos c p)] @ ts @
                   [mk_token T_Plus q']"
        have "no_eof ?toks" "literal_tokens ?toks"
          using ts 2(6,7) by (auto simp: no_eof_def literal_tokens_def)
        then have "\<exists>str' toks' rest' q''. scan_string sub quote rest q' [] ?toks = Some (str', toks', rest', q'') \<and>
            no_eof toks' \<and> literal_tokens toks' \<and>
            length toks' + 3 * length rest' \<le> length ?toks + 3 * length rest"
          using 2(2) [OF esc q True b [symmetric] refl, of ts] 2(4,5) len ts(1) by simp
        then show ?thesis using esc q True b ts len by auto
      next
        case False
        then show ?thesis using 2(3) [OF esc q False] 2(4-) esc q by auto
      qed
    qed
  qed
qed simp

section \<open>Totality\<close>

definition weight :: "lexer \<Rightarrow> nat" where
  "weight lx = 3 * length (lx_chars lx) + length (lx_buffer lx)"

lemma fresh_token_total:
  assumes "sub_ok (length cs - 1) sub"
  shows "\<exists>tok lx. fresh_token sub cs p = Some (tok, lx) \<and> no_eof (lx_buffer lx) \<and>
    (tok_ty tok = T_Eof \<or> weight lx < 3 * length cs)"
proof (cases cs)
  case Nil
  then show ?thesis by (simp add: fresh_token_def no_eof_def)
next
  case (Cons c cs')
  show ?thesis
  proof (cases "map_of operator_table c")
    case (Some ad)
    obtain alts d where ad: "ad = (alts, d)" by (cases ad)
    obtain ty rest q where o: "op_token alts d (cs', step_pos c p) = (ty, rest, q)"
      by (metis prod_cases3)
    then have "length rest \<le> length cs'" using op_token_length by fastforce
    then show ?thesis using Cons Some ad o
      by (simp add: fresh_token_def no_eof_def weight_def)
  next
    case None
    show ?thesis
    proof (cases "c = CHR 0x22 \<or> c = CHR 0x27")
      case True
      have "sub_ok (length cs') sub" using assms Cons by simp
      from scan_string_total [OF order_refl this, of "[]" c "step_pos c p" "[]"]
      obtain str toks rest q where s: "scan_string sub c cs' (step_pos c p) [] [] = Some (str, toks, rest, q)"
        "no_eof toks" "literal_tokens toks" "length toks + 3 * length rest \<le> 3 * length cs'"
        by (auto simp: no_eof_def literal_tokens_def)
      let ?all = "if str = [] then butlast toks else toks @ [mk_token (T_String str) q]"
      show ?thesis
      proof (cases "toks = []")
        case t: True
        then show ?thesis using Cons None True s by (simp add: fresh_token_def no_eof_def weight_def)
      next
        case False
        have "set (tl ?all) \<subseteq> set ?all" by (rule set_tl_subset)
        also have "\<dots> \<subseteq> insert (mk_token (T_String str) q) (set toks)"
          by (auto dest: in_set_butlastD)
        finally have "no_eof (tl ?all)" using s(2) by (auto simp: no_eof_def)
        moreover have "length (tl ?all) \<le> length toks" by simp
        ultimately show ?thesis using Cons None True s False
          by (simp add: fresh_token_def weight_def Let_def)
      qed
    next
      case nq: False
      show ?thesis
      proof (cases "is_digit c")
        case True
        obtain w rest q where w: "scan_number cs' (step_pos c p) = (w, rest, q)" by (metis prod_cases3)
        show ?thesis using Cons None nq True w scan_number_length [OF w]
          by (simp add: fresh_token_def no_eof_def weight_def)
      next
        case nd: False
        obtain w rest q where w: "scan_ident cs' (step_pos c p) = (w, rest, q)" by (metis prod_cases3)
        show ?thesis using Cons None nq nd w scan_ident_length [OF w]
          by (simp add: fresh_token_def no_eof_def weight_def)
      qed
    qed
  qed
qed

lemmas lexer_simps [simp del] = next_token.simps lex_until_eof.simps

lemma lexer_total:
  "(weight lx + 1 \<le> fuel \<longrightarrow> no_eof (lx_buffer lx) \<longrightarrow>
      (\<exists>tok lx'. next_token fuel lx = Some (tok, lx') \<and> no_eof (lx_buffer lx') \<and>
         (tok_ty tok = T_Eof \<or> weight lx' < weight lx))) \<and>
   (weight lx + 2 \<le> fuel \<longrightarrow> no_eof (lx_buffer lx) \<longrightarrow>
      (\<exists>ts e. lex_until_eof fuel lx = Some (ts, e) \<and> length ts \<le> weight lx \<and> no_eof ts \<and>
         tok_ty e = T_Eof))"
proof (induction fuel arbitrary: lx)
  case 0
  then show ?case by simp
next
  case (Suc n)
  have next_ok: "\<exists>tok lx'. next_token (Suc n) lx = Some (tok, lx') \<and> no_eof (lx_buffer lx') \<and>
      (tok_ty tok = T_Eof \<or> weight lx' < weight lx)"
    if w: "weight lx + 1 \<le> Suc n" and b: "no_eof (lx_buffer lx)" for lx
  proof (cases "lx_buffer lx")
    case (Cons tok toks)
    then show ?thesis using b by (simp add: next_token.simps weight_def no_eof_def)
  next
    case Nil
    obtain cs p where s: "skip_whitespace (lx_chars lx) (lx_pos lx) = (cs, p)"
      by (cases "skip_whitespace (lx_chars lx) (lx_pos lx)")
    have len: "length cs \<le> length (lx_chars lx)"
      using skip_whitespace_length [of "lx_chars lx" "lx_pos lx"] s by simp
    let ?sub = "\<lambda>e. map_option fst (lex_until_eof n (lexer_new e))"
    have "sub_ok (length cs - 1) ?sub"
      unfolding sub_ok_def
    proof (intro allI impI)
      fix e :: string
      assume "length e < length cs - 1"
      then have "weight (lexer_new e) + 2 \<le> n"
        using w len by (simp add: weight_def lexer_new_def)
      moreover have "no_eof (lx_buffer (lexer_new e))" by (simp add: lexer_new_def no_eof_def)
      ultimately obtain ts f where "lex_until_eof n (lexer_new e) = Some (ts, f)"
        "length ts \<le> weight (lexer_new e)" "no_eof ts" using Suc.IH [of "lexer_new e"] by blast
      then show "\<exists>ts. ?sub e = Some ts \<and> length ts \<le> 3 * length e \<and> no_eof ts"
        by (simp add: weight_def lexer_new_def)
    qed
    from fresh_token_total [OF this, of p]
    obtain tok lx' where "fresh_token ?sub cs p = Some (tok, lx')" "no_eof (lx_buffer lx')"
      "tok_ty tok = T_Eof \<or> weight lx' < 3 * length cs" by blast
    then show ?thesis using Nil s len by (auto simp: next_token.simps weight_def)
  qed
  have "\<exists>ts e. lex_until_eof (Suc n) lx = Some (ts, e) \<and> length ts \<le> weight lx \<and> no_eof ts \<and> tok_ty e = T_Eof"
    if w: "weight lx + 2 \<le> Suc n" and b: "no_eof (lx_buffer lx)"
  proof -
    obtain tok lx' where t: "next_token n lx = Some (tok, lx')" "no_eof (lx_buffer lx')"
      "tok_ty tok = T_Eof \<or> weight lx' < weight lx" using Suc.IH [of lx] w b by auto
    show ?thesis
    proof (cases "tok_ty tok = T_Eof")
      case True
      then show ?thesis using t by (simp add: lex_until_eof.simps no_eof_def)
    next
      case False
      then have "weight lx' + 2 \<le> n" using t w by simp
      then obtain ts e where "lex_until_eof n lx' = Some (ts, e)" "length ts \<le> weight lx'" "no_eof ts"
        "tok_ty e = T_Eof" using Suc.IH [of lx'] t by blast
      then show ?thesis using t False by (auto simp: lex_until_eof.simps no_eof_def)
    qed
  qed
  then show ?case using next_ok by blast
qed

lemma lex_eof_last:
  "\<exists>ts e. lex source = Some (ts @ [e]) \<and> tok_ty e = T_Eof \<and> list_all (\<lambda>t. tok_ty t \<noteq> T_Eof) ts \<and>
     length ts \<le> 3 * length source"
proof -
  have "no_eof (lx_buffer (lexer_new source))" by (simp add: lexer_new_def no_eof_def)
  moreover have "weight (lexer_new source) = 3 * length source" by (simp add: weight_def lexer_new_def)
  ultimately obtain ts e where
    "lex_until_eof (4 * length source + 4) (lexer_new source) = Some (ts, e)"
    "length ts \<le> 3 * length source" "no_eof ts" "tok_ty e = T_Eof"
    using lexer_total [of "lexer_new source" "4 * length source + 4"] by auto
  then show ?thesis by (auto simp: lex_def no_eof_def list_all_iff)
qed

text \<open>C19: The lexer always returns: for every source text the token list exists, its last token is
  end-of-file and no other one is, and it has at most three tokens per character (plus the last). So
  no string literal, interpolation or comment, closed or not, makes it loop, and the buffered
  tokens of a literal are never missing when it takes the first.\<close>

theorem lex_total:
  "\<exists>ts e. lex source = Some (ts @ [e]) \<and> tok_ty e = T_Eof \<and> list_all (\<lambda>t. tok_ty t \<noteq> T_Eof) ts \<and>
     length ts \<le> 3 * length source"
  by (rule lex_eof_last)

section \<open>Fuel independence\<close>

definition sub_le :: "(string \<Rightarrow> token list option) \<Rightarrow> (string \<Rightarrow> token list option) \<Rightarrow> bool" where
  "sub_le sub sub' \<longleftrightarrow> (\<forall>e r. sub e = Some r \<longrightarrow> sub' e = Some r)"

lemma scan_string_mono:
  "sub_le sub sub' \<Longrightarrow> scan_string sub quote cs p str toks = Some r \<Longrightarrow>
     scan_string sub' quote cs p str toks = Some r"
proof (induction sub quote cs p str toks rule: scan_string.induct)
  case (2 sub quote c cs p str toks)
  show ?case
  proof (cases "c = CHR 0x5C \<and> cs \<noteq> [] \<and> escapable quote (hd cs)")
    case True
    then show ?thesis using 2(1) [OF True] 2(4,5) by simp
  next
    case esc: False
    show ?thesis
    proof (cases "c = quote")
      case True
      then have "scan_string s quote (c # cs) p str toks = Some (str, toks, cs, step_pos c p)" for s
        by (subst scan_string.simps(2), subst if_not_P [OF esc], simp add: True)
      then show ?thesis using 2(5) by simp
    next
      case q: False
      show ?thesis
      proof (cases "c = CHR ''{''")
        case True
        obtain expr rest q' where b: "scan_brace cs (step_pos c p) = (expr, rest, q')"
          by (metis prod_cases3)
        then obtain ts where ts: "sub expr = Some ts"
          using 2(5) esc q True by (auto simp: bind_eq_Some_conv)
        then have "sub' expr = Some ts" using 2(4) by (simp add: sub_le_def)
        then show ?thesis
          using 2(2) [OF esc q True b [symmetric] refl, of ts] 2(4,5) esc q True b ts by auto
      next
        case False
        then show ?thesis using 2(3) [OF esc q False] 2(4,5) esc q by auto
      qed
    qed
  qed
qed simp

lemma fresh_token_mono:
  assumes "sub_le sub sub'" and "fresh_token sub cs p = Some r"
  shows "fresh_token sub' cs p = Some r"
proof (cases "\<exists>c cs'. cs = c # cs' \<and> map_of operator_table c = None \<and> (c = CHR 0x22 \<or> c = CHR 0x27)")
  case True
  then obtain c cs' where c: "cs = c # cs'" "map_of operator_table c = None" "c = CHR 0x22 \<or> c = CHR 0x27"
    by blast
  then obtain x where x: "scan_string sub c cs' (step_pos c p) [] [] = Some x"
    using assms(2) by (cases "scan_string sub c cs' (step_pos c p) [] []") (auto simp: fresh_token_def)
  then have "scan_string sub' c cs' (step_pos c p) [] [] = Some x" by (rule scan_string_mono [OF assms(1)])
  then show ?thesis using assms(2) c x by (simp add: fresh_token_def)
next
  case False
  have "fresh_token sub' cs p = fresh_token sub cs p"
  proof (cases cs)
    case (Cons c cs')
    then show ?thesis using False by (cases "map_of operator_table c") (simp_all add: fresh_token_def)
  qed (simp add: fresh_token_def)
  then show ?thesis using assms(2) by simp
qed

lemma lexer_mono_step:
  "(\<forall>lx r. next_token n lx = Some r \<longrightarrow> next_token (Suc n) lx = Some r) \<and>
   (\<forall>lx r. lex_until_eof n lx = Some r \<longrightarrow> lex_until_eof (Suc n) lx = Some r)"
proof (induction n)
  case 0
  have "next_token (Suc 0) lx = Some r" if "next_token 0 lx = Some r" for lx r
    using that by (auto simp: next_token.simps split: list.splits prod.splits)
  moreover have "lex_until_eof 0 lx = None" for lx by (simp add: lex_until_eof.simps)
  ultimately show ?case by simp
next
  case (Suc n)
  have sl: "sub_le (\<lambda>e. map_option fst (lex_until_eof n (lexer_new e)))
      (\<lambda>e. map_option fst (lex_until_eof (Suc n) (lexer_new e)))"
    using Suc by (auto simp: sub_le_def)
  have nt: "next_token (Suc (Suc n)) lx = Some r" if "next_token (Suc n) lx = Some r" for lx r
  proof (cases "lx_buffer lx")
    case Nil
    obtain cs p where "skip_whitespace (lx_chars lx) (lx_pos lx) = (cs, p)"
      by (cases "skip_whitespace (lx_chars lx) (lx_pos lx)")
    then show ?thesis using that Nil fresh_token_mono [OF sl, of cs p r] by (simp add: next_token.simps)
  next
    case (Cons tok toks)
    then show ?thesis using that by (simp add: next_token.simps)
  qed
  have "lex_until_eof (Suc (Suc n)) lx = Some r" if l: "lex_until_eof (Suc n) lx = Some r" for lx r
  proof -
    obtain tok lx' where t: "next_token n lx = Some (tok, lx')"
      using l by (auto simp: lex_until_eof.simps split: option.splits)
    then have t': "next_token (Suc n) lx = Some (tok, lx')" using Suc by blast
    show ?thesis
    proof (cases "tok_ty tok = T_Eof")
      case True
      then show ?thesis using l t t' by (simp add: lex_until_eof.simps)
    next
      case False
      then obtain s where s: "lex_until_eof n lx' = Some s"
        using l t by (auto simp: lex_until_eof.simps [of "Suc n"])
      then have "lex_until_eof (Suc n) lx' = Some s" using Suc by blast
      then show ?thesis using l t t' s False
        by (simp add: lex_until_eof.simps [of "Suc n" lx] lex_until_eof.simps [of "Suc (Suc n)" lx])
    qed
  qed
  then show ?case using nt by blast
qed

lemma lex_until_eof_mono:
  "n \<le> m \<Longrightarrow> lex_until_eof n lx = Some r \<Longrightarrow> lex_until_eof m lx = Some r"
  by (induction rule: dec_induct) (use lexer_mono_step in blast)+

text \<open>Any fuel that gives a result gives the result of \<open>lex\<close>.\<close>

lemma lex_fuel:
  assumes "lex_until_eof n (lexer_new source) = Some (ts, e)"
  shows "lex source = Some (ts @ [e])"
proof -
  let ?m = "4 * length source + 4"
  obtain ts' e' where r: "lex_until_eof ?m (lexer_new source) = Some (ts', e')"
    using lexer_total [of "lexer_new source" ?m] by (auto simp: weight_def lexer_new_def no_eof_def)
  have "lex_until_eof (max n ?m) (lexer_new source) = Some (ts, e)"
    by (rule lex_until_eof_mono [OF max.cobounded1 assms])
  moreover have "lex_until_eof (max n ?m) (lexer_new source) = Some (ts', e')"
    by (rule lex_until_eof_mono [OF max.cobounded2 r])
  ultimately show ?thesis using r by (simp add: lex_def)
qed

end
