(* ===== verification/Lexer_Spelling.thy ===== *)
theory Lexer_Spelling
  imports Lexer_Total
begin

text \<open>
  The inverse of the lexer. \<open>spells ty s\<close> says that \<open>s\<close> is a spelling of the token
  \<open>ty\<close>: an operator or keyword of the tables, an identifier that is not a keyword, the digits
  of a number, or a quoted and escaped string. Spellings separated by white space lex to exactly
  the tokens they spell.
\<close>

section \<open>Spellings\<close>

definition operator_texts :: "(token_type \<times> string) list" where
  "operator_texts =
     concat (map (\<lambda>(c, alts, d). (d, [c]) # map (\<lambda>(e, ty). (ty, [c, e])) alts) operator_table)"

definition keyword_texts :: "(token_type \<times> string) list" where
  "keyword_texts = map (\<lambda>(w, ty). (ty, w)) keyword_table"

definition word_start :: "char \<Rightarrow> bool" where
  "word_start c \<longleftrightarrow> is_ascii_alphabetic c \<or> c = CHR ''_''"

definition word_char :: "char \<Rightarrow> bool" where
  "word_char c \<longleftrightarrow> is_ascii_alphanumeric c \<or> c = CHR ''_''"

definition ident_ok :: "string \<Rightarrow> bool" where
  "ident_ok w \<longleftrightarrow> w \<noteq> [] \<and> word_start (hd w) \<and> list_all word_char w \<and> map_of keyword_table w = None"

definition escape_char :: "char \<Rightarrow> string" where
  "escape_char c = (if c \<in> {CHR 0x22, CHR 0x5C, CHR ''{'', CHR ''}''} then [CHR 0x5C, c] else [c])"

definition escape_text :: "string \<Rightarrow> string" where
  "escape_text str = concat (map escape_char str)"

definition quote_string :: "string \<Rightarrow> string" where
  "quote_string str = CHR 0x22 # escape_text str @ [CHR 0x22]"

definition spells :: "token_type \<Rightarrow> string \<Rightarrow> bool" where
  "spells ty s \<longleftrightarrow>
     (ty, s) \<in> set operator_texts \<or> (ty, s) \<in> set keyword_texts \<or>
     (ty = T_Identifier s \<and> ident_ok s) \<or>
     (\<exists>n. ty = T_Number (f64_of_nat n) \<and> s = digits_of_nat n) \<or>
     (\<exists>str. ty = T_String str \<and> s = quote_string str)"

definition blank :: "char \<Rightarrow> bool" where
  "blank c \<longleftrightarrow> is_whitespace c \<or> c = CHR '';''"

section \<open>Character classes\<close>

lemma operator_chars:
  assumes "map_of operator_table c \<noteq> None"
  shows "\<not> blank c \<and> \<not> is_digit c \<and> \<not> word_start c \<and> c \<noteq> CHR 0x22 \<and> c \<noteq> CHR 0x27"
proof -
  have "\<forall>c \<in> set (map fst operator_table).
      \<not> blank c \<and> \<not> is_digit c \<and> \<not> word_start c \<and> c \<noteq> CHR 0x22 \<and> c \<noteq> CHR 0x27"
    by code_simp
  then show ?thesis using assms by (auto simp: map_of_eq_None_iff)
qed

lemma operator_entry:
  assumes "(c, alts, d) \<in> set operator_table"
  shows "map_of operator_table c = Some (alts, d)" and "distinct (map fst alts)"
    and "\<And>g. blank g \<Longrightarrow> map_of alts g = None"
proof -
  have "distinct (map fst operator_table)" by code_simp
  then show "map_of operator_table c = Some (alts, d)" using assms by simp
  have "\<forall>(c, alts, d) \<in> set operator_table.
      distinct (map fst alts) \<and> list_all (\<lambda>(e, ty). \<not> blank e) alts" by code_simp
  then show "distinct (map fst alts)" and "\<And>g. blank g \<Longrightarrow> map_of alts g = None"
    using assms by (fastforce simp: list_all_iff map_of_eq_None_iff)+
qed

lemma operator_none:
  "blank c \<or> is_digit c \<or> word_start c \<or> c = CHR 0x22 \<Longrightarrow> map_of operator_table c = None"
  using operator_chars [of c] by blast

lemma blank_word: "blank c \<Longrightarrow> \<not> word_char c \<and> \<not> is_digit c \<and> c \<noteq> CHR ''.'' \<and> c \<noteq> CHR ''/''"
  by (auto simp: blank_def is_whitespace_def word_char_def is_ascii_alphanumeric_def
      is_ascii_alphabetic_def is_digit_def Let_def)

lemma word_start_blank: "word_start c \<Longrightarrow> \<not> blank c \<and> \<not> is_digit c \<and> c \<noteq> CHR 0x22 \<and> c \<noteq> CHR 0x27"
  by (auto simp: blank_def is_whitespace_def word_start_def is_ascii_alphabetic_def is_digit_def Let_def)

lemma digit_blank: "is_digit c \<Longrightarrow> \<not> blank c \<and> c \<noteq> CHR 0x22 \<and> c \<noteq> CHR 0x27 \<and> c \<noteq> CHR ''.''"
  by (auto simp: blank_def is_whitespace_def is_digit_def Let_def)

section \<open>One token at a time\<close>

definition lexed_to :: "token_type \<Rightarrow> nat \<times> nat \<Rightarrow> string \<Rightarrow> (token \<times> lexer) option \<Rightarrow> bool" where
  "lexed_to ty p rest r \<longleftrightarrow>
     (\<exists>q. r = Some (mk_token ty p, \<lparr>lx_chars = rest, lx_pos = q, lx_buffer = []\<rparr>))"

lemma op_token_map:
  "op_token alts d (e # r, q) =
     (case map_of alts e of Some ty \<Rightarrow> (ty, r, step_pos e q) | None \<Rightarrow> (d, e # r, q))"
  by (induction alts) (auto simp: match_char_def)

lemma fresh_operator:
  assumes "(ty, s) \<in> set operator_texts" and "blank g"
  shows "lexed_to ty p (g # rest) (fresh_token sub (s @ g # rest) p)"
proof -
  obtain c alts d where c: "(c, alts, d) \<in> set operator_table"
    and s: "ty = d \<and> s = [c] \<or> (\<exists>e. (e, ty) \<in> set alts \<and> s = [c, e])"
    using assms(1) by (fastforce simp: operator_texts_def)
  note o = operator_entry [OF c]
  from s show ?thesis
  proof
    assume "ty = d \<and> s = [c]"
    then show ?thesis using o(1) o(3) [OF assms(2)]
      by (simp add: fresh_token_def op_token_map lexed_to_def)
  next
    assume "\<exists>e. (e, ty) \<in> set alts \<and> s = [c, e]"
    then obtain e where e: "(e, ty) \<in> set alts" "s = [c, e]" by blast
    then have "map_of alts e = Some ty" using o(2) by simp
    then show ?thesis using o(1) e by (simp add: fresh_token_def op_token_map lexed_to_def)
  qed
qed

lemma scan_ident_word:
  "list_all word_char w \<Longrightarrow> \<not> word_char g \<Longrightarrow>
     \<exists>q. scan_ident (w @ g # rest) p = (w, g # rest, q)"
proof (induction w arbitrary: p)
  case (Cons c w)
  then have "\<exists>q. scan_ident (w @ g # rest) (step_pos c p) = (w, g # rest, q)" by simp
  then obtain q where "scan_ident (w @ g # rest) (step_pos c p) = (w, g # rest, q)" by blast
  then show ?case using Cons by (simp add: word_char_def)
qed (simp add: word_char_def)

lemma fresh_word:
  assumes "w \<noteq> []" and "word_start (hd w)" and "list_all word_char w" and "blank g"
  shows "lexed_to (word_token w) p (g # rest) (fresh_token sub (w @ g # rest) p)"
proof -
  obtain c w' where w: "w = c # w'" using assms(1) by (cases w) auto
  obtain q where "scan_ident (w' @ g # rest) (step_pos c p) = (w', g # rest, q)"
    using scan_ident_word [of w' g rest "step_pos c p"] assms w blank_word by auto
  moreover have "map_of operator_table c = None" using operator_none assms w by simp
  ultimately show ?thesis
    using w assms word_start_blank [of c]
    by (auto simp: fresh_token_def lexed_to_def word_start_def)
qed

lemma keyword_facts:
  assumes "(w, ty) \<in> set keyword_table"
  shows "w \<noteq> [] \<and> word_start (hd w) \<and> list_all word_char w \<and> word_token w = ty"
proof -
  have "\<forall>(w, ty) \<in> set keyword_table. w \<noteq> [] \<and> word_start (hd w) \<and> list_all word_char w"
    by code_simp
  moreover have "distinct (map fst keyword_table)" by code_simp
  ultimately show ?thesis using assms by (auto simp: word_token_def)
qed

lemma digits_all: "list_all is_digit (digits_of_nat n)"
proof (induction n rule: digits_of_nat.induct)
  case (1 n)
  have "is_digit (digit_char d)" if "d < 10" for d
    using that by (simp add: is_digit_def digit_char_def)
  then show ?case using 1 by (subst digits_of_nat.simps) auto
qed

lemma scan_number_digits:
  "list_all is_digit w \<Longrightarrow> \<not> is_digit g \<Longrightarrow> g \<noteq> CHR ''.'' \<Longrightarrow>
     \<exists>q. scan_number (w @ g # rest) p = (w, g # rest, q)"
proof (induction w arbitrary: p)
  case (Cons c w)
  then have "\<exists>q. scan_number (w @ g # rest) (step_pos c p) = (w, g # rest, q)" by simp
  then obtain q where "scan_number (w @ g # rest) (step_pos c p) = (w, g # rest, q)" by blast
  then show ?case using Cons by simp
qed simp

lemma number_token_digits: "number_token (digits_of_nat n) = T_Number (f64_of_nat n)"
proof -
  have "\<forall>c \<in> set (digits_of_nat n). \<not> c = CHR ''.''"
    using digits_all digit_blank by (auto simp: list_all_iff)
  then have "split_on (\<lambda>c. c = CHR ''.'') (digits_of_nat n) = [digits_of_nat n]"
    by (rule split_on_clean)
  then show ?thesis
    by (simp add: number_token_def f64_parse_def f64_of_nat_def nat_of_digits_of_nat)
qed

lemma fresh_number:
  assumes "blank g"
  shows "lexed_to (T_Number (f64_of_nat n)) p (g # rest) (fresh_token sub (digits_of_nat n @ g # rest) p)"
proof -
  obtain c w where w: "digits_of_nat n = c # w" using digits_of_nat_not_Nil by (cases "digits_of_nat n") auto
  have d: "is_digit c" "list_all is_digit w" using digits_all [of n] w by simp_all
  obtain q where "scan_number (w @ g # rest) (step_pos c p) = (w, g # rest, q)"
    using scan_number_digits [OF d(2)] blank_word [OF assms] by blast
  moreover have "map_of operator_table c = None" using operator_none d by simp
  ultimately show ?thesis
    using w d digit_blank [OF d(1)] number_token_digits [of n]
    by (simp add: fresh_token_def lexed_to_def)
qed

lemma escape_text_Cons [simp]: "escape_text [] = []" "escape_text (c # str) = escape_char c @ escape_text str"
  by (simp_all add: escape_text_def)

lemma escapable_escaped:
  "c \<in> {CHR 0x22, CHR 0x5C, CHR ''{'', CHR ''}''} \<Longrightarrow> escapable CHR 0x22 c \<and> unescape c = c"
  by (auto simp: escapable_def unescape_def)

lemma scan_string_escaped:
  "\<exists>q. scan_string sub CHR 0x22 (escape_text str @ CHR 0x22 # rest) p acc toks =
     Some (acc @ str, toks, rest, q)"
proof (induction str arbitrary: p acc)
  case Nil
  then show ?case by simp
next
  case (Cons c str)
  show ?case
  proof (cases "c \<in> {CHR 0x22, CHR 0x5C, CHR ''{'', CHR ''}''}")
    case True
    then have "escape_char c = [CHR 0x5C, c]" by (simp add: escape_char_def)
    then show ?thesis using Cons.IH [of _ "acc @ [c]"] escapable_escaped [OF True] by simp
  next
    case False
    then have "escape_char c = [c]" by (simp add: escape_char_def)
    then show ?thesis using Cons.IH [of _ "acc @ [c]"] False by simp
  qed
qed

lemma fresh_string:
  "lexed_to (T_String str) p (g # rest) (fresh_token sub (quote_string str @ g # rest) p)"
proof -
  obtain q where "scan_string sub CHR 0x22 (escape_text str @ CHR 0x22 # g # rest) (step_pos CHR 0x22 p) [] [] =
      Some ([] @ str, [], g # rest, q)" using scan_string_escaped by blast
  moreover have "map_of operator_table CHR 0x22 = None" using operator_none by simp
  ultimately show ?thesis by (simp add: fresh_token_def quote_string_def lexed_to_def)
qed

lemma fresh_spelled:
  assumes "spells ty s" and "blank g"
  shows "lexed_to ty p (g # rest) (fresh_token sub (s @ g # rest) p)"
  using assms(1) unfolding spells_def
proof (elim disjE exE conjE)
  assume "(ty, s) \<in> set keyword_texts"
  then have "(s, ty) \<in> set keyword_table" by (auto simp: keyword_texts_def)
  then show ?thesis using keyword_facts fresh_word [OF _ _ _ assms(2)] by metis
next
  assume "ty = T_Identifier s" "ident_ok s"
  then show ?thesis using fresh_word [of s g p rest sub] assms(2) by (simp add: ident_ok_def word_token_def)
qed (use assms(2) fresh_operator fresh_number fresh_string in simp_all)

section \<open>White space between tokens\<close>

lemma skip_blanks: "list_all blank gs \<Longrightarrow> \<exists>q. skip_whitespace (gs @ cs) p = skip_whitespace cs q"
proof (induction gs arbitrary: p)
  case (Cons g gs)
  then show ?case by (auto simp: blank_def)
qed auto

lemma not_comment:
  "\<not> blank c \<Longrightarrow> (c = CHR ''/'' \<longrightarrow> \<not> starts_with cs ''/'') \<Longrightarrow> skip_whitespace (c # cs) p = (c # cs, p)"
  by (auto simp: blank_def simp del: skip_line.simps)

lemma spelled_start:
  assumes "spells ty s" and "blank g"
  shows "skip_whitespace (s @ g # rest) p = (s @ g # rest, p)"
proof -
  have "\<exists>c cs. s = c # cs \<and> \<not> blank c \<and> (c = CHR ''/'' \<longrightarrow> \<not> starts_with (cs @ g # rest) ''/'')"
    using assms(1) unfolding spells_def
  proof (elim disjE exE conjE)
    assume "(ty, s) \<in> set operator_texts"
    then have c: "\<exists>c alts d. (c, alts, d) \<in> set operator_table \<and>
        (s = [c] \<or> (\<exists>e. (e, ty) \<in> set alts \<and> s = [c, e]))"
      by (fastforce simp: operator_texts_def)
    have "\<forall>(ty, s) \<in> set operator_texts. \<not> starts_with s ''//''" by code_simp
    then have "\<not> starts_with s ''//''" using \<open>(ty, s) \<in> set operator_texts\<close> by fast
    moreover from c obtain c alts d where "(c, alts, d) \<in> set operator_table"
      "s = [c] \<or> (\<exists>e. s = [c, e])" by blast
    moreover from this have "\<not> blank c" using operator_entry(1) operator_chars by fastforce
    ultimately show ?thesis using blank_word [OF assms(2)] by auto
  next
    assume "(ty, s) \<in> set keyword_texts"
    then have "(s, ty) \<in> set keyword_table" by (auto simp: keyword_texts_def)
    then have "s \<noteq> []" "word_start (hd s)" using keyword_facts by blast+
    then show ?thesis using word_start_blank [of "hd s"]
      by (cases s) (auto simp: word_start_def is_ascii_alphabetic_def Let_def)
  next
    assume "ident_ok s"
    then show ?thesis using word_start_blank [of "hd s"]
      by (cases s) (auto simp: ident_ok_def word_start_def is_ascii_alphabetic_def Let_def)
  next
    fix n
    assume "s = digits_of_nat n"
    moreover obtain c w where w: "digits_of_nat n = c # w" using digits_of_nat_not_Nil by (cases "digits_of_nat n") auto
    moreover have "is_digit c" using digits_all [of n] w by simp
    ultimately show ?thesis using digit_blank [of c] by (auto simp: is_digit_def)
  next
    fix str
    assume "s = quote_string str"
    then show ?thesis by (simp add: quote_string_def blank_def is_whitespace_def)
  qed
  then obtain c cs where "s = c # cs" "\<not> blank c" "c = CHR ''/'' \<longrightarrow> \<not> starts_with (cs @ g # rest) ''/''"
    by blast
  then show ?thesis using not_comment [of c "cs @ g # rest" p] by (simp del: skip_whitespace.simps)
qed

section \<open>The round trip\<close>

text \<open>A text made of spellings, each followed by white space.\<close>

definition layout :: "(string \<times> string) list \<Rightarrow> string" where
  "layout sgs = concat (map (\<lambda>(s, g). s @ g) sgs)"

definition gap_ok :: "string \<Rightarrow> bool" where
  "gap_ok g \<longleftrightarrow> g \<noteq> [] \<and> list_all blank g"

lemma spells_not_Nil: "spells ty s \<Longrightarrow> blank g \<Longrightarrow> s \<noteq> []"
proof
  assume "spells ty s" "blank g" "s = []"
  then have "skip_whitespace (g # []) p = ([g], p)" for p using spelled_start [of ty s g "[]"] by simp
  then show False using \<open>blank g\<close> by (auto simp: blank_def)
qed

lemma spells_not_eof: "spells ty s \<Longrightarrow> ty \<noteq> T_Eof"
proof -
  have "\<forall>(ty, s) \<in> set operator_texts. ty \<noteq> T_Eof" "\<forall>(ty, s) \<in> set keyword_texts. ty \<noteq> T_Eof"
    by code_simp+
  then show "spells ty s \<Longrightarrow> ty \<noteq> T_Eof" unfolding spells_def by fastforce
qed

lemma layout_lexes:
  assumes "list_all2 spells tys (map fst sgs)" and "list_all gap_ok (map snd sgs)" and "list_all blank g0"
    and "3 * length (g0 @ layout sgs) + 2 \<le> fuel"
  shows "\<exists>ts e. lex_until_eof fuel \<lparr>lx_chars = g0 @ layout sgs, lx_pos = p, lx_buffer = []\<rparr> = Some (ts, e)
    \<and> map tok_ty ts = tys \<and> tok_ty e = T_Eof"
  using assms
proof (induction sgs arbitrary: tys g0 p fuel)
  case Nil
  obtain q where "skip_whitespace (g0 @ []) p = skip_whitespace [] q" using skip_blanks Nil by blast
  moreover obtain n where "fuel = Suc (Suc n)" using Nil(4) by (metis add_2_eq_Suc' le_Suc_ex add_Suc)
  moreover have "layout [] = []" by (simp add: layout_def)
  ultimately show ?case using Nil(1) by (simp add: lex_until_eof.simps next_token.simps fresh_token_def)
next
  case (Cons sg sgs)
  obtain s g where sg: "sg = (s, g)" by (cases sg)
  obtain ty tys' where tys: "tys = ty # tys'" "spells ty s" "list_all2 spells tys' (map fst sgs)"
    using Cons.prems(1) sg by (auto simp: list_all2_Cons2)
  obtain g1 gs where g: "g = g1 # gs" "blank g1" "list_all blank gs"
    using Cons.prems(2) sg by (cases g) (auto simp: gap_ok_def)
  have lay: "layout (sg # sgs) = s @ g1 # gs @ layout sgs" using sg g by (simp add: layout_def)
  obtain q where q: "skip_whitespace (g0 @ layout (sg # sgs)) p = (s @ g1 # gs @ layout sgs, q)"
    using skip_blanks [OF Cons.prems(3)] spelled_start [OF tys(2) g(2)] lay by metis
  obtain c s' where s: "s = c # s'" using spells_not_Nil [OF tys(2) g(2)] by (cases s) auto
  obtain n where n: "fuel = Suc (Suc n)" using Cons.prems(4) by (metis add_2_eq_Suc' le_Suc_ex add_Suc)
  let ?sub = "\<lambda>e. map_option fst (lex_until_eof n (lexer_new e))"
  obtain q' where f: "fresh_token ?sub (s @ g1 # gs @ layout sgs) q =
      Some (mk_token ty q, \<lparr>lx_chars = (g1 # gs) @ layout sgs, lx_pos = q', lx_buffer = []\<rparr>)"
    using fresh_spelled [OF tys(2) g(2), of q "gs @ layout sgs" ?sub]
    unfolding lexed_to_def append_Cons by blast
  have nt: "next_token (Suc n) \<lparr>lx_chars = g0 @ layout (sg # sgs), lx_pos = p, lx_buffer = []\<rparr> =
      Some (mk_token ty q, \<lparr>lx_chars = (g1 # gs) @ layout sgs, lx_pos = q', lx_buffer = []\<rparr>)"
    using q f by (simp add: next_token.simps)
  have "3 * length ((g1 # gs) @ layout sgs) + 2 \<le> Suc n"
    using Cons.prems(4) n lay s by simp
  then obtain ts e where "lex_until_eof (Suc n)
      \<lparr>lx_chars = (g1 # gs) @ layout sgs, lx_pos = q', lx_buffer = []\<rparr> = Some (ts, e)"
      "map tok_ty ts = tys'" "tok_ty e = T_Eof"
    using Cons.IH [OF tys(3), of "g1 # gs" "Suc n" q'] Cons.prems(2) g by auto
  then show ?case
    using nt n tys spells_not_eof [OF tys(2)] by (simp add: lex_until_eof.simps [of "Suc (Suc n)"])
qed

text \<open>C20: Lexing inverts spelling: any sequence of tokens written with any of their spellings (operators,
  either spelling of a keyword, identifiers, decimal integers, strings with their quotes, backslashes
  and braces escaped), each followed by any run of white space and semicolons, lexes to
  exactly those tokens and an end-of-file token.\<close>

theorem lex_inverts_spelling:
  assumes "list_all2 spells tys (map fst sgs)" and "list_all gap_ok (map snd sgs)" and "list_all blank g0"
  shows "map_option (map tok_ty) (lex (g0 @ layout sgs)) = Some (tys @ [T_Eof])"
proof -
  let ?src = "g0 @ layout sgs"
  obtain ts e where "lex_until_eof (3 * length ?src + 2) (lexer_new ?src) = Some (ts, e)"
    "map tok_ty ts = tys" "tok_ty e = T_Eof"
    using layout_lexes [OF assms order_refl] unfolding lexer_new_def by blast
  then show ?thesis using lex_fuel by fastforce
qed

theorem lex_inverts_spelling_witness:
  "map_option (map tok_ty) (lex ('' '' @ layout [(''let'', '' ''), (''x'', '' ''), (''='', '';''),
      (quote_string ''a{b'', ''  ''), (''&&'', '' '')])) =
   Some ([T_Let, T_Identifier ''x'', T_Equal, T_String ''a{b'', T_And] @ [T_Eof])"
proof (rule lex_inverts_spelling)
  have "(T_Let, ''let'') \<in> set keyword_texts" "(T_Equal, ''='') \<in> set operator_texts"
    "ident_ok ''x''" "(T_And, ''&&'') \<in> set operator_texts" by code_simp+
  then show "list_all2 spells [T_Let, T_Identifier ''x'', T_Equal, T_String ''a{b'', T_And]
      (map fst [(''let'', '' ''), (''x'', '' ''), (''='', '';''), (quote_string ''a{b'', ''  ''), (''&&'', '' '')])"
    by (simp add: spells_def)
qed code_simp+

section \<open>Interpolation\<close>

lemma scan_brace_text:
  "list_all (\<lambda>c. c \<noteq> CHR ''}'') e \<Longrightarrow> \<exists>q. scan_brace (e @ CHR ''}'' # rest) p = (e, rest, q)"
proof (induction e arbitrary: p)
  case (Cons c e)
  then have "\<exists>q. scan_brace (e @ CHR ''}'' # rest) (step_pos c p) = (e, rest, q)" by simp
  then obtain q where "scan_brace (e @ CHR ''}'' # rest) (step_pos c p) = (e, rest, q)" by blast
  then show ?case using Cons by simp
qed simp

lemma buffered_lexes:
  "no_eof bs \<Longrightarrow> length bs + 2 \<le> fuel \<Longrightarrow>
     \<exists>e. lex_until_eof fuel \<lparr>lx_chars = [], lx_pos = p, lx_buffer = bs\<rparr> = Some (bs, e) \<and> tok_ty e = T_Eof"
proof (induction bs arbitrary: fuel)
  case Nil
  obtain n where "fuel = Suc (Suc n)" using Nil(2) by (metis add_2_eq_Suc' le_Suc_ex add_Suc)
  then show ?case by (simp add: lex_until_eof.simps next_token.simps fresh_token_def)
next
  case (Cons b bs)
  obtain n where n: "fuel = Suc n" using Cons.prems(2) by (cases fuel) auto
  have "no_eof bs" "length bs + 2 \<le> n" using Cons.prems n by (simp_all add: no_eof_def)
  then obtain e where "lex_until_eof n \<lparr>lx_chars = [], lx_pos = p, lx_buffer = bs\<rparr> = Some (bs, e)"
    "tok_ty e = T_Eof" using Cons.IH by blast
  then show ?case using n Cons.prems(1)
    by (simp add: lex_until_eof.simps [of "Suc n"] next_token.simps no_eof_def)
qed

lemma scan_interpolation:
  assumes "sub e = Some ts" and "list_all (\<lambda>c. c \<noteq> CHR ''}'') e"
  shows "\<exists>q a b. scan_string sub CHR 0x22 (escape_text s1 @ CHR ''{'' # e @ CHR ''}'' #
      escape_text s2 @ CHR 0x22 # rest) p acc [] =
    Some (s2, [mk_token (T_String (acc @ s1)) a, mk_token T_Plus a] @ ts @ [mk_token T_Plus b], rest, q)"
proof (induction s1 arbitrary: p acc)
  case Nil
  obtain b where b: "scan_brace (e @ CHR ''}'' # escape_text s2 @ CHR 0x22 # rest) (step_pos CHR ''{'' p) =
      (e, escape_text s2 @ CHR 0x22 # rest, b)" using scan_brace_text [OF assms(2)] by blast
  let ?a = "step_pos CHR ''{'' p"
  let ?toks = "[mk_token (T_String acc) ?a, mk_token T_Plus ?a] @ ts @ [mk_token T_Plus b]"
  obtain q where q: "scan_string sub CHR 0x22 (escape_text s2 @ CHR 0x22 # rest) b [] ?toks =
      Some ([] @ s2, ?toks, rest, q)" using scan_string_escaped by blast
  show ?case
    by (intro exI [of _ q] exI [of _ ?a] exI [of _ b]) (use assms(1) b q in simp)
next
  case (Cons c s1)
  let ?rest = "escape_text s1 @ CHR ''{'' # e @ CHR ''}'' # escape_text s2 @ CHR 0x22 # rest"
  have IH: "\<exists>q a b. scan_string sub CHR 0x22 ?rest p' (acc @ [c]) [] =
      Some (s2, [mk_token (T_String ((acc @ [c]) @ s1)) a, mk_token T_Plus a] @ ts @
        [mk_token T_Plus b], rest, q)" for p'
    by (rule Cons.IH)
  show ?case
  proof (cases "c \<in> {CHR 0x22, CHR 0x5C, CHR ''{'', CHR ''}''}")
    case True
    then have "escape_char c = [CHR 0x5C, c]" by (simp add: escape_char_def)
    then show ?thesis using IH escapable_escaped [OF True] by simp
  next
    case False
    then have "escape_char c = [c]" by (simp add: escape_char_def)
    then show ?thesis using IH False by simp
  qed
qed

text \<open>C21: A string with an interpolation lexes to the concatenation of its pieces: the text before it, a
  plus, the tokens of the expression between the braces spliced in without parentheses, and a plus
  and the text after it, unless that text is empty. A literal brace, quote or backslash in the
  text is escaped and stays text.\<close>

theorem lex_interpolation:
  assumes "list_all (\<lambda>c. c \<noteq> CHR ''}'') e"
  shows "map_option (map tok_ty)
      (lex (CHR 0x22 # escape_text s1 @ CHR ''{'' # e @ CHR ''}'' # escape_text s2 @ [CHR 0x22])) =
    Some ([T_String s1, T_Plus] @ map tok_ty (butlast (the (lex e))) @
      (if s2 = [] then [] else [T_Plus, T_String s2]) @ [T_Eof])"
proof -
  let ?body = "escape_text s1 @ CHR ''{'' # e @ CHR ''}'' # escape_text s2 @ [CHR 0x22]"
  let ?src = "CHR 0x22 # ?body"
  let ?F = "4 * length ?src + 4"
  obtain ts f where ts: "lex_until_eof (4 * length e + 4) (lexer_new e) = Some (ts, f)" "no_eof ts"
      "length ts \<le> 3 * length e"
    using lexer_total [of "lexer_new e" "4 * length e + 4"] by (auto simp: weight_def lexer_new_def no_eof_def)
  then have le: "the (lex e) = ts @ [f]" by (simp add: lex_def)
  define n where "n = 4 * length ?src + 2"
  have n: "4 * length e + 4 \<le> n" by (simp add: n_def)
  let ?sub = "\<lambda>x. map_option fst (lex_until_eof n (lexer_new x))"
  have sub: "?sub e = Some ts" using lex_until_eof_mono [OF n ts(1)] by simp
  obtain q a b where sc: "scan_string ?sub CHR 0x22 ?body (step_pos CHR 0x22 (1, 1)) [] [] =
      Some (s2, [mk_token (T_String ([] @ s1)) a, mk_token T_Plus a] @ ts @ [mk_token T_Plus b], [], q)"
    using scan_interpolation [of ?sub, OF sub assms, of s1 s2 "[]"] by blast
  define bs where "bs = (if s2 = [] then mk_token T_Plus a # ts
    else mk_token T_Plus a # ts @ [mk_token T_Plus b, mk_token (T_String s2) q])"
  have op: "map_of operator_table CHR 0x22 = None" using operator_none by simp
  have "skip_whitespace ?src (1, 1) = (?src, (1, 1))" by (rule not_comment) (simp_all add: blank_def is_whitespace_def)
  then have nt: "next_token (Suc n) (lexer_new ?src) =
      Some (mk_token (T_String s1) a, \<lparr>lx_chars = [], lx_pos = q, lx_buffer = bs\<rparr>)"
    using sc op by (simp add: next_token.simps lexer_new_def fresh_token_def Let_def bs_def butlast_append
        del: skip_whitespace.simps)
  have "no_eof bs" "length bs + 2 \<le> Suc n" using ts n by (auto simp: bs_def no_eof_def)
  then obtain g where "lex_until_eof (Suc n) \<lparr>lx_chars = [], lx_pos = q, lx_buffer = bs\<rparr> = Some (bs, g)"
    "tok_ty g = T_Eof" using buffered_lexes by blast
  then have "lex_until_eof (Suc (Suc n)) (lexer_new ?src) = Some (mk_token (T_String s1) a # bs, g)"
    using nt by (simp add: lex_until_eof.simps [of "Suc (Suc n)"])
  then have "lex ?src = Some ((mk_token (T_String s1) a # bs) @ [g])" by (rule lex_fuel)
  then show ?thesis using le \<open>tok_ty g = T_Eof\<close> by (simp add: bs_def)
qed

theorem lex_interpolation_witness:
  "map_option (map tok_ty) (lex (CHR 0x22 # escape_text ''n='' @ CHR ''{'' # ''a==b'' @ CHR ''}'' #
      escape_text [] @ [CHR 0x22])) =
   Some ([T_String ''n='', T_Plus] @ [T_Identifier ''a'', T_EqualEqual, T_Identifier ''b''] @ [T_Eof])"
proof -
  have "map tok_ty (butlast (the (lex ''a==b''))) = [T_Identifier ''a'', T_EqualEqual, T_Identifier ''b'']"
    by code_simp
  then show ?thesis using lex_interpolation [of "''a==b''" "''n=''" "[]"] by simp
qed

end
