(* ===== verification/Ast.thy ===== *)
theory Ast
  imports Tokens
begin

text \<open>
  The syntax trees of \<^verbatim>\<open>crates/eronom-frontend/src/ast.rs\<close>: source locations, types with their
  printer, expressions and statements. Variants carry a prefix (\<open>Ty_\<close>, \<open>E_\<close>, \<open>S_\<close>); struct
  variants list their fields in order. Boxes are not visible.
\<close>

record source_location =
  loc_file :: string
  loc_line :: nat
  loc_col :: nat

section \<open>Types\<close>

datatype (plugins only: code size) primitive_type =
    Ty_Int | Ty_Float | Ty_Number | Ty_String | Ty_Bool | Ty_Void | Ty_Any | Ty_Unknown | Ty_Never
  | Ty_Null

datatype (plugins only: code size) type_node =
    Ty_Primitive primitive_type
  | Ty_Array type_node
  | Ty_Tuple "type_node list"
  | Ty_Object "property_signature list"
  | Ty_Function "type_node list" type_node
  | Ty_Union "type_node list"
  | Ty_Intersection "type_node list"
  | Ty_Nullable type_node
  | Ty_Named string "type_node list"
  | Ty_Literal string
and property_signature =
    PropertySignature (sig_name: string) (sig_ty: type_node) (sig_optional: bool)

definition from_ident :: "string \<Rightarrow> type_node" where
  "from_ident name =
     (if name \<in> {''int'', ''i32'', ''i64''} then Ty_Primitive Ty_Int
      else if name \<in> {''float'', ''f32'', ''f64''} then Ty_Primitive Ty_Float
      else if name = ''number'' then Ty_Primitive Ty_Number
      else if name \<in> {''string'', ''str''} then Ty_Primitive Ty_String
      else if name \<in> {''bool'', ''boolean''} then Ty_Primitive Ty_Bool
      else if name = ''void'' then Ty_Primitive Ty_Void
      else if name = ''any'' then Ty_Primitive Ty_Any
      else if name = ''unknown'' then Ty_Primitive Ty_Unknown
      else if name = ''never'' then Ty_Primitive Ty_Never
      else if name = ''null'' then Ty_Primitive Ty_Null
      else Ty_Named name [])"

definition primitive_display :: "primitive_type \<Rightarrow> string" where
  "primitive_display p =
     (case p of Ty_Int \<Rightarrow> ''int'' | Ty_Float \<Rightarrow> ''float'' | Ty_Number \<Rightarrow> ''number''
      | Ty_String \<Rightarrow> ''string'' | Ty_Bool \<Rightarrow> ''bool'' | Ty_Void \<Rightarrow> ''void'' | Ty_Any \<Rightarrow> ''any''
      | Ty_Unknown \<Rightarrow> ''unknown'' | Ty_Never \<Rightarrow> ''never'' | Ty_Null \<Rightarrow> ''null'')"

text \<open>\<^verbatim>\<open>[String]::join\<close> with a separator of any length.\<close>

fun join_str :: "string \<Rightarrow> string list \<Rightarrow> string" where
  "join_str sep [] = []"
| "join_str sep [x] = x"
| "join_str sep (x # y # ys) = x @ sep @ join_str sep (y # ys)"

fun type_display :: "type_node \<Rightarrow> string"
and prop_display :: "property_signature \<Rightarrow> string" where
  "type_display (Ty_Primitive p) = primitive_display p"
| "type_display (Ty_Array e) = type_display e @ ''[]''"
| "type_display (Ty_Tuple es) = ''['' @ join_str '', '' (map type_display es) @ '']''"
| "type_display (Ty_Object ps) = ''{ '' @ join_str '', '' (map prop_display ps) @ '' }''"
| "type_display (Ty_Function ps r) =
     ''('' @ join_str '', '' (map type_display ps) @ '') => '' @ type_display r"
| "type_display (Ty_Union ms) = join_str '' | '' (map type_display ms)"
| "type_display (Ty_Intersection ms) = join_str '' & '' (map type_display ms)"
| "type_display (Ty_Nullable t) = type_display t @ ''?''"
| "type_display (Ty_Named n as) =
     (if as = [] then n else n @ ''<'' @ join_str '', '' (map type_display as) @ ''>'')"
| "type_display (Ty_Literal l) = l"
| "prop_display (PropertySignature n t opt) =
     n @ (if opt then ''?'' else '''') @ '': '' @ type_display t"

section \<open>Expressions and statements\<close>

record fn_param =
  par_name :: string
  par_ty :: "type_node option"

datatype (plugins only: code size) literal_value =
    L_Number f64 | L_String string | L_Boolean bool | L_Null

datatype (plugins only: code size) expr =
    E_Literal literal_value
  | E_Variable string source_location
  | E_Assign string expr source_location
  | E_Binary expr token_type expr
  | E_Logical expr token_type expr
  | E_Unary token_type expr
  | E_Prefix token_type expr
  | E_Postfix token_type expr
  | E_Ternary expr expr expr
  | E_Call expr "expr list"
  | E_Get expr string
  | E_Set expr string expr
  | E_Array "expr list"
  | E_Object "(string \<times> expr) list"
  | E_Function "fn_param list" "type_node option" stmt bool bool
  | E_GetIndex expr expr
  | E_SetIndex expr expr expr
  | E_StructInst string "(string \<times> expr) list" source_location
  | E_Spawn expr
  | E_TypeCast expr type_node source_location
  | E_Await expr
  | E_New expr
and stmt =
    S_Expr expr
  | S_Print expr
  | S_VarDecl string "type_node option" bool expr source_location
  | S_Block "stmt list"
  | S_If expr stmt "stmt option"
  | S_While expr stmt
  | S_For string expr expr stmt
  | S_ForIn string expr stmt
  | S_Break
  | S_Continue
  | S_Throw expr
  | S_Try stmt "(string \<times> stmt) option" "stmt option"
  | S_Switch expr "switch_case list" "stmt option"
  | S_Return "expr option" source_location
  | S_Import "string list" string
  | S_Export stmt
  | S_Struct string "string list" "(string \<times> string) list" "(string \<times> string list \<times> stmt) list"
      source_location
  | S_Interface string "(string \<times> string) list" "(string \<times> string list) list" source_location
  | S_Concurrent stmt
  | S_Sync stmt
  | S_TypeAlias string "string list" type_node source_location
  | S_Enum string "(string \<times> literal_value option) list" source_location
and switch_case =
    SwitchCase (case_values: "expr list") (case_body: stmt)

end
