(* ===== verification/Parser_State.thy ===== *)
theory Parser_State
  imports Ast Prelude
begin

text \<open>
  The parser's state and its primitives: \<^verbatim>\<open>crates/eronom-frontend/src/parser/mod.rs\<close>. A parsing
  function takes the state and returns a value or an error, both with the state they leave (an
  error may be caught and parsing may go on from where it happened); indexing the token vector out of
  range panics. \<open>pbind\<close> is the \<^verbatim>\<open>?\<close> operator. A \<^verbatim>\<open>loop\<close> runs with as much fuel as
  there are tokens, \<open>PFuel\<close> is its exhaustion, and the recursion between the nonterminals goes
  through a record of parsers that \<open>parsers\<close> (in a later theory) ties with fuel.

  Scopes are a stack of lists of names, the innermost first. Error messages are kept as the line and
  the text, or the token that was not expected, in place of the formatted string.
\<close>

section \<open>State and results\<close>

record parser =
  ps_tokens :: "token list"
  ps_current :: nat
  ps_file :: string
  ps_scopes :: "string list list"

datatype (plugins only: code size) parse_error =
    Err_at nat string
  | Err_unexpected nat token_type
  | Err_unexpected_type nat token_type
  | Err_msg string

datatype (plugins only: code size) 'a presult =
    POk 'a parser
  | PErr parse_error parser
  | PPanic
  | PFuel

type_synonym 'a P = "parser \<Rightarrow> 'a presult"

definition parser_new :: "token list \<Rightarrow> parser" where
  "parser_new toks = \<lparr>ps_tokens = toks, ps_current = 0, ps_file = '''', ps_scopes = [[]]\<rparr>"

definition with_file_path :: "string \<Rightarrow> parser \<Rightarrow> parser" where
  "with_file_path path s = s\<lparr>ps_file := path\<rparr>"

definition preturn :: "'a \<Rightarrow> 'a P" where
  "preturn x s = POk x s"

definition pfail :: "parse_error \<Rightarrow> 'a P" where
  "pfail e s = PErr e s"

definition pfuel :: "'a P" where
  "pfuel s = PFuel"

definition pbind :: "'a P \<Rightarrow> ('a \<Rightarrow> 'b P) \<Rightarrow> 'b P" where
  "pbind p f s =
     (case p s of POk x s' \<Rightarrow> f x s' | PErr e s' \<Rightarrow> PErr e s' | PPanic \<Rightarrow> PPanic | PFuel \<Rightarrow> PFuel)"

definition pget :: "(parser \<Rightarrow> 'a) \<Rightarrow> 'a P" where
  "pget f s = POk (f s) s"

definition pmodify :: "(parser \<Rightarrow> parser) \<Rightarrow> unit P" where
  "pmodify f s = POk () (f s)"

fun ploop_fuel :: "nat \<Rightarrow> ('a \<Rightarrow> ('a \<times> bool) P) \<Rightarrow> 'a \<Rightarrow> 'a P" where
  "ploop_fuel 0 body a = pfuel"
| "ploop_fuel (Suc n) body a =
     pbind (body a) (\<lambda>(a', go). if go then ploop_fuel n body a' else preturn a')"

text \<open>\<^verbatim>\<open>loop { ... }\<close>: the body returns the new accumulator and whether to go round again.\<close>

definition ploop :: "('a \<Rightarrow> ('a \<times> bool) P) \<Rightarrow> 'a \<Rightarrow> 'a P" where
  "ploop body a s = ploop_fuel (Suc (length (ps_tokens s))) body a s"

section \<open>Scopes\<close>

definition push_scope :: "unit P" where
  "push_scope = pmodify (\<lambda>s. s\<lparr>ps_scopes := [] # ps_scopes s\<rparr>)"

definition pop_scope :: "unit P" where
  "pop_scope = pmodify (\<lambda>s. s\<lparr>ps_scopes := tl (ps_scopes s)\<rparr>)"

definition declare_variable :: "string \<Rightarrow> unit P" where
  "declare_variable name = pmodify (\<lambda>s.
     case ps_scopes s of
       [] \<Rightarrow> s
     | sc # scs \<Rightarrow> s\<lparr>ps_scopes := List.insert name sc # scs\<rparr>)"

definition is_variable_declared :: "string \<Rightarrow> bool P" where
  "is_variable_declared name = pget (\<lambda>s. list_ex (\<lambda>sc. List.member sc name) (ps_scopes s))"

fun declare_all :: "string list \<Rightarrow> unit P" where
  "declare_all [] = preturn ()"
| "declare_all (n # ns) = pbind (declare_variable n) (\<lambda>_. declare_all ns)"

section \<open>Looking at tokens\<close>

definition peek :: "token P" where
  "peek s = (if ps_current s < length (ps_tokens s) then POk (ps_tokens s ! ps_current s) s else PPanic)"

definition previous :: "token P" where
  "previous s =
     (if ps_current s = 0 \<or> length (ps_tokens s) \<le> ps_current s - 1 then PPanic
      else POk (ps_tokens s ! (ps_current s - 1)) s)"

definition is_at_end :: "bool P" where
  "is_at_end = pbind peek (\<lambda>t. preturn (tok_ty t = T_Eof))"

definition advance :: "token P" where
  "advance =
     pbind is_at_end (\<lambda>e.
       if e then previous
       else pbind (pmodify (\<lambda>s. s\<lparr>ps_current := ps_current s + 1\<rparr>)) (\<lambda>_. previous))"

definition check :: "token_type \<Rightarrow> bool P" where
  "check ty = pbind is_at_end (\<lambda>e. if e then preturn False else pbind peek (\<lambda>t. preturn (tok_ty t = ty)))"

text \<open>\<^verbatim>\<open>self.tokens.get(self.current + k).map(|t| &t.ty)\<close>.\<close>

definition token_at :: "nat \<Rightarrow> token_type option P" where
  "token_at k = pget (\<lambda>s.
     if ps_current s + k < length (ps_tokens s) then Some (tok_ty (ps_tokens s ! (ps_current s + k)))
     else None)"

definition is_identifier :: "token_type \<Rightarrow> bool" where
  "is_identifier ty = (case ty of T_Identifier _ \<Rightarrow> True | _ \<Rightarrow> False)"

definition some_identifier :: "token_type option \<Rightarrow> bool" where
  "some_identifier x = (case x of Some ty \<Rightarrow> is_identifier ty | None \<Rightarrow> False)"

definition is_async_function_or_arrow :: "bool P" where
  "is_async_function_or_arrow =
     pbind peek (\<lambda>t.
       if tok_ty t \<noteq> T_Async then preturn False
       else pbind (token_at 1) (\<lambda>n1. pbind (token_at 2) (\<lambda>n2.
         preturn (n1 = Some T_Function \<or> n1 = Some T_LeftParen \<or>
                  some_identifier n1 \<and> n2 = Some T_Arrow))))"

definition soft_keywords :: "token_type list" where
  "soft_keywords = [T_Spawn, T_On, T_Concurrent, T_Underscore, T_From, T_Default, T_Typeof]"

definition check_ident :: "bool P" where
  "check_ident =
     pbind is_at_end (\<lambda>e.
       if e then preturn False
       else pbind peek (\<lambda>t.
         if is_identifier (tok_ty t) \<or> tok_ty t \<in> set soft_keywords then preturn True
         else if tok_ty t = T_Async then pbind is_async_function_or_arrow (\<lambda>b. preturn (\<not> b))
         else preturn False))"

fun match_token :: "token_type list \<Rightarrow> bool P" where
  "match_token [] = preturn False"
| "match_token (ty # tys) =
     pbind (check ty) (\<lambda>c. if c then pbind advance (\<lambda>_. preturn True) else match_token tys)"

definition consume :: "token_type \<Rightarrow> string \<Rightarrow> token P" where
  "consume ty msg =
     pbind (check ty) (\<lambda>c.
       if c then advance else pbind peek (\<lambda>t. pfail (Err_at (tok_line t) msg)))"

text \<open>The names an identifier token stands for.\<close>

definition ident_name :: "token_type \<Rightarrow> string option" where
  "ident_name ty =
     (case ty of
        T_Identifier name \<Rightarrow> Some name
      | T_Spawn \<Rightarrow> Some ''spawn'' | T_On \<Rightarrow> Some ''on'' | T_Concurrent \<Rightarrow> Some ''concurrent''
      | T_Underscore \<Rightarrow> Some ''_'' | T_From \<Rightarrow> Some ''from'' | T_Default \<Rightarrow> Some ''default''
      | T_Typeof \<Rightarrow> Some ''typeof'' | T_Async \<Rightarrow> Some ''async''
      | _ \<Rightarrow> None)"

definition consume_ident :: "string \<Rightarrow> string P" where
  "consume_ident msg =
     pbind check_ident (\<lambda>c.
       if c then
         pbind advance (\<lambda>tok.
           case ident_name (tok_ty tok) of
             Some name \<Rightarrow> preturn name
           | None \<Rightarrow> pbind peek (\<lambda>t. pfail (Err_at (tok_line t) msg)))
       else pbind peek (\<lambda>t. pfail (Err_at (tok_line t) msg)))"

text \<open>The names a token may have after a dot or as a key.\<close>

definition property_name :: "token_type \<Rightarrow> string option" where
  "property_name ty =
     (case ty of
        T_Identifier s \<Rightarrow> Some s
      | T_Number n \<Rightarrow> Some (f64_display n)
      | T_Type \<Rightarrow> Some ''type'' | T_Await \<Rightarrow> Some ''await'' | T_New \<Rightarrow> Some ''new''
      | T_Spawn \<Rightarrow> Some ''spawn'' | T_On \<Rightarrow> Some ''on'' | T_Concurrent \<Rightarrow> Some ''concurrent''
      | T_Underscore \<Rightarrow> Some ''_'' | T_From \<Rightarrow> Some ''from'' | T_Default \<Rightarrow> Some ''default''
      | T_Typeof \<Rightarrow> Some ''typeof'' | T_Async \<Rightarrow> Some ''async'' | T_Sync \<Rightarrow> Some ''sync''
      | T_As \<Rightarrow> Some ''as'' | T_Is \<Rightarrow> Some ''is'' | T_In \<Rightarrow> Some ''in'' | T_For \<Rightarrow> Some ''for''
      | T_If \<Rightarrow> Some ''if'' | T_Else \<Rightarrow> Some ''else'' | T_While \<Rightarrow> Some ''while''
      | T_Break \<Rightarrow> Some ''break'' | T_Continue \<Rightarrow> Some ''continue'' | T_Return \<Rightarrow> Some ''return''
      | T_Function \<Rightarrow> Some ''function'' | T_Struct \<Rightarrow> Some ''struct'' | T_Embed \<Rightarrow> Some ''embed''
      | T_Interface \<Rightarrow> Some ''interface'' | T_Try \<Rightarrow> Some ''try'' | T_Catch \<Rightarrow> Some ''catch''
      | T_Finally \<Rightarrow> Some ''finally'' | T_Throw \<Rightarrow> Some ''throw'' | T_Switch \<Rightarrow> Some ''switch''
      | T_Case \<Rightarrow> Some ''case'' | T_Match \<Rightarrow> Some ''match'' | T_Enum \<Rightarrow> Some ''enum''
      | T_Null \<Rightarrow> Some ''null'' | T_True \<Rightarrow> Some ''true'' | T_False \<Rightarrow> Some ''false''
      | T_Print \<Rightarrow> Some ''print'' | T_Let \<Rightarrow> Some ''let'' | T_Const \<Rightarrow> Some ''const''
      | T_Import \<Rightarrow> Some ''import'' | T_Export \<Rightarrow> Some ''export''
      | _ \<Rightarrow> None)"

definition consume_property_name :: "string P" where
  "consume_property_name =
     pbind peek (\<lambda>tok.
       case property_name (tok_ty tok) of
         Some name \<Rightarrow> pbind advance (\<lambda>_. preturn name)
       | None \<Rightarrow> pfail (Err_at (tok_line tok) ''Expected property name or number after '.'.''))"

definition consume_prop_key :: "string \<Rightarrow> string P" where
  "consume_prop_key msg =
     pbind peek (\<lambda>tok.
       case tok_ty tok of
         T_String str \<Rightarrow> pbind advance (\<lambda>_. preturn str)
       | _ \<Rightarrow> (\<lambda>s. case consume_property_name s of
                PErr _ s' \<Rightarrow> pbind peek (\<lambda>t. pfail (Err_at (tok_line t) msg)) s'
              | r \<Rightarrow> r))"

section \<open>Shared forms\<close>

definition location_of :: "token \<Rightarrow> source_location P" where
  "location_of tok = pget (\<lambda>s. \<lparr>loc_file = ps_file s, loc_line = tok_line tok, loc_col = tok_col tok\<rparr>)"

text \<open>\<^verbatim>\<open>loop { xs.push(p()?); if !self.match_token(&[Comma]) { break; } }\<close>.\<close>

definition comma_separated :: "'a P \<Rightarrow> 'a list P" where
  "comma_separated p =
     ploop (\<lambda>xs. pbind p (\<lambda>x. pbind (match_token [T_Comma]) (\<lambda>m. preturn (xs @ [x], m)))) []"

text \<open>The same list, or none of it when the closing token comes first.\<close>

definition comma_list :: "token_type \<Rightarrow> 'a P \<Rightarrow> 'a list P" where
  "comma_list close p = pbind (check close) (\<lambda>c. if c then preturn [] else comma_separated p)"

definition optionally :: "token_type \<Rightarrow> 'a P \<Rightarrow> 'a option P" where
  "optionally ty p =
     pbind (match_token [ty]) (\<lambda>m. if m then pbind p (\<lambda>x. preturn (Some x)) else preturn None)"

text \<open>Is the parser at one of the tokens, or at the end?\<close>

fun at_any :: "token_type list \<Rightarrow> bool P" where
  "at_any [] = is_at_end"
| "at_any (ty # tys) = pbind (check ty) (\<lambda>c. if c then preturn True else at_any tys)"

definition until :: "token_type list \<Rightarrow> 'a P \<Rightarrow> 'a list P" where
  "until stops p =
     ploop (\<lambda>xs. pbind (at_any stops) (\<lambda>e.
       if e then preturn (xs, False) else pbind p (\<lambda>x. preturn (xs @ [x], True)))) []"

declare match_token.simps [simp del] at_any.simps [simp del]

section \<open>The recursive nonterminals\<close>

record nonterminals =
  r_parse_type :: "type_node P"
  r_expression :: "expr P"
  r_assignment :: "expr P"
  r_ternary :: "expr P"
  r_unary :: "expr P"
  r_statement :: "stmt P"
  r_declaration :: "stmt P"

end
