(* ===== verification/Parser_Runs.thy ===== *)
theory Parser_Runs
  imports Parser_State
begin

text \<open>
  A total-correctness calculus for the parser. \<open>runs T b c p Q\<close> says that the parser \<open>p\<close>,
  started at position \<open>c\<close> of the tokens \<open>T\<close> (which end in an end-of-file token), neither panics
  nor runs out of fuel, stays inside the tokens, satisfies \<open>Q\<close> with its result and its new position
  when it succeeds, and leaves a position at or after \<open>b\<close> when it fails. The rules are
  syntax-directed; a loop needs each round to consume a token.
\<close>

section \<open>The judgement\<close>

definition eof_ended :: "token list \<Rightarrow> bool" where
  "eof_ended T \<longleftrightarrow> T \<noteq> [] \<and> tok_ty (last T) = T_Eof"

definition ends_well :: "token list \<Rightarrow> nat \<Rightarrow> ('a \<Rightarrow> nat \<Rightarrow> bool) \<Rightarrow> 'a presult \<Rightarrow> bool" where
  "ends_well T b Q r =
     (case r of
        POk x s \<Rightarrow> ps_tokens s = T \<and> ps_current s < length T \<and> Q x (ps_current s)
      | PErr e s \<Rightarrow> ps_tokens s = T \<and> ps_current s < length T \<and> b \<le> ps_current s
      | _ \<Rightarrow> False)"

definition at_pos :: "token list \<Rightarrow> nat \<Rightarrow> parser \<Rightarrow> bool" where
  "at_pos T c s \<longleftrightarrow> eof_ended T \<and> ps_tokens s = T \<and> ps_current s = c \<and> c < length T"

definition runs :: "token list \<Rightarrow> nat \<Rightarrow> nat \<Rightarrow> 'a P \<Rightarrow> ('a \<Rightarrow> nat \<Rightarrow> bool) \<Rightarrow> bool" where
  "runs T b c p Q \<longleftrightarrow> (\<forall>s. at_pos T c s \<longrightarrow> ends_well T b Q (p s))"

lemma ends_well_POk [simp]:
  "ends_well T b Q (POk x s) \<longleftrightarrow> ps_tokens s = T \<and> ps_current s < length T \<and> Q x (ps_current s)"
  by (simp add: ends_well_def)

lemma ends_well_PErr [simp]:
  "ends_well T b Q (PErr e s) \<longleftrightarrow> ps_tokens s = T \<and> ps_current s < length T \<and> b \<le> ps_current s"
  by (simp add: ends_well_def)

lemma ends_well_bad [simp]: "\<not> ends_well T b Q PPanic" "\<not> ends_well T b Q PFuel"
  by (simp_all add: ends_well_def)

lemma runsI: "(\<And>s. at_pos T c s \<Longrightarrow> ends_well T b Q (p s)) \<Longrightarrow> runs T b c p Q"
  by (simp add: runs_def)

lemma runsD: "runs T b c p Q \<Longrightarrow> at_pos T c s \<Longrightarrow> ends_well T b Q (p s)"
  by (simp add: runs_def)

lemma not_eof_not_last: "at_pos T c s \<Longrightarrow> tok_ty (T ! c) \<noteq> T_Eof \<Longrightarrow> Suc c < length T"
  unfolding at_pos_def eof_ended_def by (metis Suc_lessI diff_Suc_1 last_conv_nth)

text \<open>The position is inside the tokens wherever something is to be shown.\<close>

lemma runs_inside: "(c < length T \<Longrightarrow> eof_ended T \<Longrightarrow> runs T b c p Q) \<Longrightarrow> runs T b c p Q"
  by (auto simp: runs_def at_pos_def)

lemma runs_conseq:
  assumes "runs T b' c p Q'" and "b \<le> b'" and "\<And>x c'. Q' x c' \<Longrightarrow> c' < length T \<Longrightarrow> Q x c'"
  shows "runs T b c p Q"
proof (rule runsI)
  fix s assume s: "at_pos T c s"
  show "ends_well T b Q (p s)"
    using runsD [OF assms(1) s] assms(2,3) by (cases "p s") auto
qed

section \<open>Combinators\<close>

lemma runs_return: "Q x c \<Longrightarrow> runs T b c (preturn x) Q"
  by (simp add: runs_def preturn_def at_pos_def)

lemma runs_fail: "b \<le> c \<Longrightarrow> runs T b c (pfail e) Q"
  by (simp add: runs_def pfail_def at_pos_def)

lemma runs_bind:
  assumes "runs T b c p (\<lambda>x c'. runs T b c' (f x) Q)"
  shows "runs T b c (pbind p f) Q"
proof (rule runsI)
  fix s assume s: "at_pos T c s"
  show "ends_well T b Q (pbind p f s)"
  proof (cases "p s")
    case (POk x s')
    then have "at_pos T (ps_current s') s'" and "runs T b (ps_current s') (f x) Q"
      using runsD [OF assms s] s by (auto simp: at_pos_def)
    then show ?thesis using POk by (simp add: pbind_def runsD)
  qed (use runsD [OF assms s] in \<open>simp_all add: pbind_def\<close>)
qed

lemma runs_if:
  "(x \<Longrightarrow> runs T b c p Q) \<Longrightarrow> (\<not> x \<Longrightarrow> runs T b c q Q) \<Longrightarrow> runs T b c (if x then p else q) Q"
  by simp

text \<open>The tests of what \<open>check\<close> and \<open>match_token\<close> return are decided as they are met.\<close>

lemma runs_if_decided:
  "runs T b c p Q \<Longrightarrow> runs T b c (if True then p else q) Q"
  "runs T b c q Q \<Longrightarrow> runs T b c (if False then p else q) Q"
  "runs T b c q Q \<Longrightarrow> runs T b c (if \<not> True then p else q) Q"
  "runs T b c p Q \<Longrightarrow> runs T b c (if \<not> False then p else q) Q"
  by simp_all

lemma runs_pair: "(\<And>x y. z = (x, y) \<Longrightarrow> runs T b c (f x y) Q) \<Longrightarrow> runs T b c (case z of (x, y) \<Rightarrow> f x y) Q"
  by (cases z) simp

lemma runs_option:
  "(z = None \<Longrightarrow> runs T b c p Q) \<Longrightarrow> (\<And>x. z = Some x \<Longrightarrow> runs T b c (f x) Q) \<Longrightarrow>
     runs T b c (case z of None \<Rightarrow> p | Some x \<Rightarrow> f x) Q"
  by (cases z) simp_all

text \<open>The cases the parser makes on the type of a token.\<close>

lemma runs_string_case:
  "(\<And>str. ty = T_String str \<Longrightarrow> runs T b c (f str) Q) \<Longrightarrow> runs T b c p Q \<Longrightarrow>
     runs T b c (case ty of T_String str \<Rightarrow> f str | _ \<Rightarrow> p) Q"
  by (cases ty) simp_all

lemma runs_literal_case:
  "(\<And>str. ty = T_String str \<Longrightarrow> runs T b c (f str) Q) \<Longrightarrow> (\<And>n. ty = T_Number n \<Longrightarrow> runs T b c (g n) Q) \<Longrightarrow>
     runs T b c p Q \<Longrightarrow>
     runs T b c (case ty of T_String str \<Rightarrow> f str | T_Number n \<Rightarrow> g n | _ \<Rightarrow> p) Q"
  by (cases ty) simp_all

lemma runs_pget:
  "(\<And>s. at_pos T c s \<Longrightarrow> Q (f s) c) \<Longrightarrow> runs T b c (pget f) Q"
  by (simp add: runs_def pget_def at_pos_def)

lemma runs_pmodify:
  "(\<And>s. at_pos T c s \<Longrightarrow> ps_tokens (f s) = T \<and> ps_current (f s) < length T \<and> Q () (ps_current (f s))) \<Longrightarrow>
     runs T b c (pmodify f) Q"
  by (simp add: runs_def pmodify_def)

text \<open>A loop: each round that goes on consumes a token.\<close>

lemma runs_ploop_fuel:
  assumes body: "\<And>a c. lo \<le> c \<Longrightarrow> runs T b c (body a) (\<lambda>(a', go) c'. if go then c < c' else Q a' c')"
  shows "lo \<le> c \<Longrightarrow> length T < n + c \<Longrightarrow> runs T b c (ploop_fuel n body a) Q"
proof (induction n arbitrary: a c)
  case 0
  then show ?case by (simp add: runs_def at_pos_def)
next
  case (Suc n)
  have "runs T b c (body a) (\<lambda>x c'. runs T b c' (case x of (a', go) \<Rightarrow>
          if go then ploop_fuel n body a' else preturn a') Q)"
  proof (rule runs_conseq [OF body [OF Suc.prems(1)] order_refl])
    fix x c' assume "(case x of (a', go) \<Rightarrow> \<lambda>c'. if go then c < c' else Q a' c') c'"
    then show "runs T b c' (case x of (a', go) \<Rightarrow>
          if go then ploop_fuel n body a' else preturn a') Q"
      using Suc.IH [of c'] Suc.prems by (cases x) (auto intro: runs_return split: if_splits)
  qed
  then show ?case by (auto intro: runs_bind)
qed

lemma runs_ploop:
  assumes "\<And>a d. c \<le> d \<Longrightarrow> runs T b d (body a) (\<lambda>(a', go) d'. if go then d < d' else Q a' d')"
  shows "runs T b c (ploop body a) Q"
proof (rule runsI)
  fix s assume s: "at_pos T c s"
  have "runs T b c (ploop_fuel (Suc (length T)) body a) Q"
    by (rule runs_ploop_fuel [where lo = c]) (use assms in auto)
  from runsD [OF this s] s show "ends_well T b Q (ploop body a s)" by (simp add: ploop_def at_pos_def)
qed

section \<open>Primitives\<close>

lemma runs_peek: "(c < length T \<Longrightarrow> Q (T ! c) c) \<Longrightarrow> runs T b c peek Q"
  by (auto simp: runs_def peek_def at_pos_def)

lemma runs_previous: "0 < c \<Longrightarrow> Q (T ! (c - 1)) c \<Longrightarrow> runs T b c previous Q"
  by (auto simp: runs_def previous_def at_pos_def)

lemma runs_is_at_end: "Q (tok_ty (T ! c) = T_Eof) c \<Longrightarrow> runs T b c is_at_end Q"
  unfolding is_at_end_def by (intro runs_bind runs_peek runs_return)

lemma runs_advance:
  assumes "tok_ty (T ! c) \<noteq> T_Eof \<Longrightarrow> Q (T ! c) (Suc c)"
    and "tok_ty (T ! c) = T_Eof \<Longrightarrow> 0 < c \<and> Q (T ! (c - 1)) c"
  shows "runs T b c advance Q"
proof (rule runsI)
  fix s assume s: "at_pos T c s"
  have "runs T b (Suc c) previous Q" if "tok_ty (T ! c) \<noteq> T_Eof"
    by (rule runs_previous) (use assms(1) that in auto)
  moreover have "runs T b c previous Q" if "tok_ty (T ! c) = T_Eof"
    by (rule runs_previous) (use assms(2) that in auto)
  moreover have "runs T b c (pmodify (\<lambda>s. s\<lparr>ps_current := ps_current s + 1\<rparr>)) (\<lambda>_ c'. c' = Suc c)"
    if "tok_ty (T ! c) \<noteq> T_Eof"
    by (rule runs_pmodify) (use not_eof_not_last [OF s that] in \<open>auto simp: at_pos_def\<close>)
  ultimately have "runs T b c advance Q" unfolding advance_def
    by (intro runs_bind runs_is_at_end runs_if) (auto elim: runs_conseq)
  then show "ends_well T b Q (advance s)" using s by (rule runsD)
qed

lemma runs_advance_next: "tok_ty (T ! c) \<noteq> T_Eof \<Longrightarrow> Q (T ! c) (Suc c) \<Longrightarrow> runs T b c advance Q"
  by (rule runs_advance) auto

lemma runs_check:
  assumes "tok_ty (T ! c) \<noteq> T_Eof \<Longrightarrow> tok_ty (T ! c) = ty \<Longrightarrow> Q True c" and "Q False c"
  shows "runs T b c (check ty) Q"
proof -
  have "Q (tok_ty (T ! c) = ty) c" if "tok_ty (T ! c) \<noteq> T_Eof"
    using assms that by (cases "tok_ty (T ! c) = ty") auto
  then show ?thesis unfolding check_def
    by (intro runs_bind runs_is_at_end runs_if runs_return runs_peek) (use assms(2) in auto)
qed

lemma runs_token_at: "(\<And>x. Q x c) \<Longrightarrow> runs T b c (token_at k) Q"
  unfolding token_at_def by (intro runs_pget)

lemma runs_check_ident:
  assumes "tok_ty (T ! c) \<noteq> T_Eof \<Longrightarrow> Q True c" and "Q False c"
  shows "runs T b c check_ident Q"
proof -
  have "Q x c" if "tok_ty (T ! c) \<noteq> T_Eof" for x
    using assms that by (cases x) auto
  then show ?thesis unfolding check_ident_def is_async_function_or_arrow_def
    by (intro runs_bind runs_is_at_end runs_if runs_peek runs_return runs_token_at) (use assms(2) in auto)
qed

lemma runs_match_token:
  assumes "tok_ty (T ! c) \<noteq> T_Eof \<Longrightarrow> Q True (Suc c)" and "Q False c"
  shows "runs T b c (match_token tys) Q"
proof (induction tys)
  case (Cons ty tys)
  then show ?case using assms
    by (auto simp: match_token.simps intro!: runs_bind runs_check runs_if runs_advance_next runs_return)
qed (use assms in \<open>auto simp: match_token.simps intro: runs_return\<close>)

lemma runs_consume:
  assumes "b \<le> c" and "tok_ty (T ! c) \<noteq> T_Eof \<Longrightarrow> Q (T ! c) (Suc c)"
  shows "runs T b c (consume ty msg) Q"
  unfolding consume_def using assms
  by (intro runs_bind runs_check runs_if runs_advance_next runs_peek runs_fail) auto

lemma runs_consume_ident:
  assumes "b \<le> c" and "\<And>x. Q x (Suc c)"
  shows "runs T b c (consume_ident msg) Q"
  unfolding consume_ident_def using assms
  by (intro runs_bind runs_check_ident runs_if runs_advance_next runs_option runs_peek runs_fail runs_return) auto

lemma property_name_not_eof: "property_name ty = Some name \<Longrightarrow> ty \<noteq> T_Eof"
  by (auto simp: property_name_def)

lemma runs_consume_property_name:
  assumes "b \<le> c" and "\<And>x. Q x (Suc c)"
  shows "runs T b c consume_property_name Q"
  unfolding consume_property_name_def using assms
  by (intro runs_bind runs_peek runs_option runs_advance_next runs_fail runs_return)
     (auto dest: property_name_not_eof)

lemma runs_map_err:
  assumes "runs T c c p Q" and "\<And>c'. c \<le> c' \<Longrightarrow> runs T b c' q Q"
  shows "runs T b c (\<lambda>s. case p s of PErr _ s' \<Rightarrow> q s' | r \<Rightarrow> r) Q"
proof (rule runsI)
  fix s assume s: "at_pos T c s"
  show "ends_well T b Q (case p s of PErr _ s' \<Rightarrow> q s' | r \<Rightarrow> r)"
  proof (cases "p s")
    case (PErr e s')
    then have "at_pos T (ps_current s') s'" "c \<le> ps_current s'"
      using runsD [OF assms(1) s] s by (auto simp: at_pos_def)
    then show ?thesis using PErr assms(2) by (auto intro: runsD)
  qed (use runsD [OF assms(1) s] in auto)
qed

lemma runs_consume_prop_key:
  assumes "b \<le> c" and "\<And>x. Q x (Suc c)"
  shows "runs T b c (consume_prop_key msg) Q"
  unfolding consume_prop_key_def using assms
  by (intro runs_bind runs_peek runs_string_case runs_advance_next runs_map_err runs_consume_property_name
        runs_fail runs_return) auto

lemma runs_location_of: "(\<And>l. Q l c) \<Longrightarrow> runs T b c (location_of t) Q"
  unfolding location_of_def by (intro runs_pget)

lemma runs_scope:
  "Q () c \<Longrightarrow> runs T b c push_scope Q"
  "Q () c \<Longrightarrow> runs T b c pop_scope Q"
  "Q () c \<Longrightarrow> runs T b c (declare_variable name) Q"
  unfolding push_scope_def pop_scope_def declare_variable_def
  by (auto intro!: runs_pmodify simp: at_pos_def split: list.splits)

lemma runs_is_declared: "(\<And>d. Q d c) \<Longrightarrow> runs T b c (is_variable_declared name) Q"
  unfolding is_variable_declared_def by (intro runs_pget)

lemma runs_declare_all: "Q () c \<Longrightarrow> runs T b c (declare_all ns) Q"
  by (induction ns) (auto intro!: runs_bind runs_scope runs_return)

section \<open>Shared forms\<close>

lemma runs_at_any:
  assumes "Q True c" and "tok_ty (T ! c) \<noteq> T_Eof \<Longrightarrow> Q False c"
  shows "runs T b c (at_any tys) Q"
proof (induction tys)
  case Nil
  have "Q (tok_ty (T ! c) = T_Eof) c"
    using assms by (cases "tok_ty (T ! c) = T_Eof") auto
  then show ?case by (simp add: at_any.simps runs_is_at_end)
next
  case (Cons ty tys)
  then show ?case using assms
    by (auto simp: at_any.simps intro!: runs_bind runs_check runs_if runs_return)
qed

lemma runs_comma_separated:
  assumes "\<And>d. c \<le> d \<Longrightarrow> runs T b d p (\<lambda>_ d'. d < d')" and "\<And>xs c'. c < c' \<Longrightarrow> Q xs c'"
  shows "runs T b c (comma_separated p) Q"
  unfolding comma_separated_def
proof (rule runs_ploop, goal_cases)
  case (1 xs d)
  then have "runs T b d p (\<lambda>_ d'. d < d')" by (rule assms(1))
  then show ?case
    by (intro runs_bind, elim runs_conseq) (use 1 assms(2) in \<open>auto intro!: runs_bind runs_match_token runs_return\<close>)
qed

lemma runs_comma_list:
  assumes "\<And>d. c \<le> d \<Longrightarrow> runs T b d p (\<lambda>_ d'. d < d')" and "\<And>xs c'. c \<le> c' \<Longrightarrow> Q xs c'"
  shows "runs T b c (comma_list close p) Q"
  unfolding comma_list_def using assms
  by (intro runs_bind runs_check runs_if runs_return runs_comma_separated) auto

lemma runs_optionally:
  assumes "runs T b (Suc c) p (\<lambda>x c'. Q (Some x) c')" and "Q None c"
  shows "runs T b c (optionally ty p) Q"
  unfolding optionally_def using assms
  by (auto intro!: runs_bind runs_match_token runs_if runs_return elim: runs_conseq)

lemma runs_until:
  assumes "\<And>d. c \<le> d \<Longrightarrow> runs T b d p (\<lambda>_ d'. d < d')" and "\<And>xs c'. c \<le> c' \<Longrightarrow> Q xs c'"
  shows "runs T b c (until stops p) Q"
  unfolding until_def
proof (rule runs_ploop, goal_cases)
  case (1 xs d)
  then have "runs T b d p (\<lambda>_ d'. d < d')" by (rule assms(1))
  then show ?case using 1 assms(2)
    by (auto intro!: runs_bind runs_at_any runs_if runs_return elim!: runs_conseq)
qed

text \<open>The program loop stops at the end-of-file token.\<close>

lemma runs_until_end:
  assumes "\<And>c. runs T b c p (\<lambda>_ c'. c < c')" and "\<And>xs c'. tok_ty (T ! c') = T_Eof \<Longrightarrow> Q xs c'"
  shows "runs T b c (until [] p) Q"
  unfolding until_def
proof (rule runs_ploop, goal_cases)
  case (1 xs d)
  then show ?case using assms(2) assms(1) [of d]
    by (auto simp: at_any.simps intro!: runs_bind runs_is_at_end runs_if runs_return elim!: runs_conseq)
qed

lemmas runs_rules =
  runs_bind runs_if_decided runs_if runs_pair runs_option runs_literal_case runs_string_case runs_return runs_fail
  runs_peek runs_is_at_end runs_check runs_token_at runs_check_ident runs_match_token
  runs_consume runs_consume_ident runs_consume_property_name runs_consume_prop_key runs_location_of
  runs_scope runs_is_declared runs_declare_all runs_at_any runs_comma_separated runs_comma_list runs_until
  runs_optionally

end
