(* ===== verification/Parser_Type.thy ===== *)
theory Parser_Type
  imports Parser_State
begin

text \<open>
  The type parser, \<^verbatim>\<open>crates/eronom-frontend/src/parser/type_parser.rs\<close>: unions of intersections of
  postfix types over primary types.
\<close>

definition name_colon_ahead :: "bool P" where
  "name_colon_ahead =
     pbind check_ident (\<lambda>c. if c then pbind (token_at 1) (\<lambda>n. preturn (n = Some T_Colon)) else preturn False)"

text \<open>One item of a parenthesised type; the flag says that it had a parameter name.\<close>

definition paren_item :: "nonterminals \<Rightarrow> (type_node \<times> bool) P" where
  "paren_item r =
     pbind name_colon_ahead (\<lambda>named.
       if named then
         pbind (consume_ident ''Expected parameter name.'') (\<lambda>_.
         pbind (consume T_Colon ''Expected ':' after parameter name.'') (\<lambda>_.
         pbind (r_parse_type r) (\<lambda>t. preturn (t, True))))
       else pbind (r_parse_type r) (\<lambda>t. preturn (t, False)))"

definition paren_type :: "nonterminals \<Rightarrow> type_node P" where
  "paren_type r =
     pbind (match_token [T_RightParen]) (\<lambda>empty.
       if empty then
         pbind (consume T_Arrow ''Expected '=>' after '()' in function type.'') (\<lambda>_.
         pbind (r_parse_type r) (\<lambda>ret. preturn (Ty_Function [] ret)))
       else
         pbind (comma_separated (paren_item r)) (\<lambda>items.
         pbind (consume T_RightParen ''Expected ')' after type list.'') (\<lambda>_.
         pbind (match_token [T_Arrow]) (\<lambda>arrow.
           if arrow then pbind (r_parse_type r) (\<lambda>ret. preturn (Ty_Function (map fst items) ret))
           else if list_ex snd items then
             pbind peek (\<lambda>t. pfail (Err_at (tok_line t) ''Expected '=>' after function parameter types.''))
           else if length items = 1 then preturn (fst (hd items))
           else preturn (Ty_Tuple (map fst items))))))"

definition tuple_type :: "nonterminals \<Rightarrow> type_node P" where
  "tuple_type r =
     pbind (comma_list T_RightBracket (r_parse_type r)) (\<lambda>es.
     pbind (consume T_RightBracket ''Expected ']' after tuple types.'') (\<lambda>_.
     preturn (Ty_Tuple es)))"

definition object_props :: "nonterminals \<Rightarrow> property_signature list P" where
  "object_props r =
     ploop (\<lambda>ps.
       pbind (consume_ident ''Expected property name in object type.'') (\<lambda>name.
       pbind (match_token [T_Question]) (\<lambda>opt.
       pbind (consume T_Colon ''Expected ':' after property name.'') (\<lambda>_.
       pbind (r_parse_type r) (\<lambda>ty.
       pbind (match_token [T_Comma]) (\<lambda>comma.
       pbind (if comma then preturn True else match_token [T_Case]) (\<lambda>sep.
         if sep then preturn (ps @ [PropertySignature name ty opt], True)
         else pbind (check T_RightBrace) (\<lambda>close.
           pbind (if close then preturn False else check_ident) (\<lambda>more.
             preturn (ps @ [PropertySignature name ty opt], more)))))))))) []"

definition object_type :: "nonterminals \<Rightarrow> type_node P" where
  "object_type r =
     pbind (check T_RightBrace) (\<lambda>empty.
     pbind (if empty then preturn [] else object_props r) (\<lambda>ps.
     pbind (consume T_RightBrace ''Expected '}' after object type.'') (\<lambda>_.
     preturn (Ty_Object ps))))"

definition named_type :: "nonterminals \<Rightarrow> type_node P" where
  "named_type r =
     pbind (consume_ident ''Expected type name.'') (\<lambda>name.
     pbind (match_token [T_Less]) (\<lambda>generic.
       if generic then
         pbind (comma_list T_Greater (r_parse_type r)) (\<lambda>as.
         pbind (consume T_Greater ''Expected '>' after generic type arguments.'') (\<lambda>_.
         preturn (Ty_Named name as)))
       else preturn (from_ident name)))"

text \<open>The types that are not brackets or literals of a string or a number.\<close>

definition primary_type_tail :: "nonterminals \<Rightarrow> type_node P" where
  "primary_type_tail r =
     pbind (match_token [T_True]) (\<lambda>m. if m then preturn (Ty_Literal ''true'') else
     pbind (match_token [T_False]) (\<lambda>m. if m then preturn (Ty_Literal ''false'') else
     pbind (match_token [T_Null]) (\<lambda>m. if m then preturn (Ty_Primitive Ty_Null) else
     pbind check_ident (\<lambda>c. if c then named_type r else
     pbind peek (\<lambda>t. pfail (Err_unexpected_type (tok_line t) (tok_ty t)))))))"

definition parse_primary_type :: "nonterminals \<Rightarrow> type_node P" where
  "parse_primary_type r =
     pbind (match_token [T_LeftParen]) (\<lambda>paren. if paren then paren_type r else
     pbind (match_token [T_LeftBracket]) (\<lambda>bracket. if bracket then tuple_type r else
     pbind (match_token [T_LeftBrace]) (\<lambda>brace. if brace then object_type r else
     pbind peek (\<lambda>tok.
       case tok_ty tok of
         T_String s \<Rightarrow> pbind advance (\<lambda>_. preturn (Ty_Literal ([CHR 0x22] @ s @ [CHR 0x22])))
       | T_Number n \<Rightarrow> pbind advance (\<lambda>_. preturn (Ty_Literal (f64_display n)))
       | _ \<Rightarrow> primary_type_tail r))))"

definition parse_postfix_type :: "nonterminals \<Rightarrow> type_node P" where
  "parse_postfix_type r =
     pbind (parse_primary_type r)
       (ploop (\<lambda>base.
          pbind (match_token [T_LeftBracket]) (\<lambda>b.
            if b then
              pbind (consume T_RightBracket ''Expected ']' after '[' in array type.'') (\<lambda>_.
              preturn (Ty_Array base, True))
            else pbind (match_token [T_Question]) (\<lambda>q.
              preturn (if q then (Ty_Nullable base, True) else (base, False))))))"

text \<open>One or more members separated by an operator; a single member stands for itself.\<close>

definition separated_types :: "token_type \<Rightarrow> (type_node list \<Rightarrow> type_node) \<Rightarrow> type_node P \<Rightarrow> type_node P" where
  "separated_types sep mk p =
     pbind p (\<lambda>t.
     pbind (ploop (\<lambda>ms. pbind (match_token [sep]) (\<lambda>m.
              if m then pbind p (\<lambda>t'. preturn (ms @ [t'], True)) else preturn (ms, False))) [t])
       (\<lambda>ms. preturn (if length ms = 1 then hd ms else mk ms)))"

definition parse_intersection_type :: "nonterminals \<Rightarrow> type_node P" where
  "parse_intersection_type r = separated_types T_Ampersand Ty_Intersection (parse_postfix_type r)"

definition parse_union_type :: "nonterminals \<Rightarrow> type_node P" where
  "parse_union_type r = separated_types T_Pipe Ty_Union (parse_intersection_type r)"

definition parse_type :: "nonterminals \<Rightarrow> type_node P" where
  "parse_type r = parse_union_type r"

end
