(* ===== verification/Parser_Expr.thy ===== *)
theory Parser_Expr
  imports Parser_Type
begin

text \<open>
  The expression parser: \<^verbatim>\<open>parser/primary.rs\<close> and \<^verbatim>\<open>parser/expression.rs\<close>, one definition per
  method and one per long branch of \<^verbatim>\<open>primary\<close>.
\<close>

section \<open>Function bodies\<close>

definition parse_fn_param :: "nonterminals \<Rightarrow> fn_param P" where
  "parse_fn_param r =
     pbind (consume_ident ''Expected parameter name.'') (\<lambda>name.
     pbind (optionally T_Colon (r_parse_type r)) (\<lambda>ty.
     preturn \<lparr>par_name = name, par_ty = ty\<rparr>))"

text \<open>The body of an arrow function: an expression is what it returns.\<close>

definition as_return :: "stmt \<Rightarrow> source_location \<Rightarrow> stmt" where
  "as_return body loc = (case body of S_Expr e \<Rightarrow> S_Return (Some e) loc | other \<Rightarrow> other)"

definition arrow_body :: "nonterminals \<Rightarrow> token \<Rightarrow> stmt P" where
  "arrow_body r tok =
     pbind (r_statement r) (\<lambda>body. pbind (location_of tok) (\<lambda>loc. preturn (as_return body loc)))"

definition braced_body :: "nonterminals \<Rightarrow> string \<Rightarrow> string \<Rightarrow> stmt P" where
  "braced_body r open_msg close_msg =
     pbind (consume T_LeftBrace open_msg) (\<lambda>_.
     pbind (until [T_RightBrace] (r_declaration r)) (\<lambda>stmts.
     pbind (consume T_RightBrace close_msg) (\<lambda>_.
     preturn (S_Block stmts))))"

section \<open>Function literals\<close>

definition sync_name :: "token_type option \<Rightarrow> bool" where
  "sync_name t \<longleftrightarrow> t = Some T_Sync \<or> t = Some (T_Identifier ''sync'')"

text \<open>The modifiers before \<^verbatim>\<open>fn\<close>: (async, sync).\<close>

definition function_modifiers :: "(bool \<times> bool) P" where
  "function_modifiers =
     pbind (check T_At) (\<lambda>a. pbind (token_at 1) (\<lambda>n.
       if a \<and> sync_name n then pbind advance (\<lambda>_. pbind advance (\<lambda>_. preturn (False, True)))
       else pbind (check T_Sync) (\<lambda>b.
         if b \<and> n = Some T_Function then pbind advance (\<lambda>_. preturn (False, True))
         else pbind (check T_Async) (\<lambda>c.
           if c \<and> n = Some T_Function then pbind advance (\<lambda>_. preturn (True, False))
           else preturn (False, False)))))"

definition function_literal :: "nonterminals \<Rightarrow> bool \<Rightarrow> bool \<Rightarrow> expr P" where
  "function_literal r is_async is_sync =
     pbind check_ident (\<lambda>named.
     pbind (if named then pbind (consume_ident ''Expected function name.'') (\<lambda>n. preturn (Some n))
            else preturn None) (\<lambda>name.
     pbind (consume T_LeftParen ''Expected '(' after function keyword.'') (\<lambda>_.
     pbind (comma_list T_RightParen (parse_fn_param r)) (\<lambda>params.
     pbind (consume T_RightParen ''Expected ')' after parameters.'') (\<lambda>_.
     pbind (optionally T_Colon (r_parse_type r)) (\<lambda>return_type.
     pbind push_scope (\<lambda>_.
     pbind (declare_all (case name of Some n \<Rightarrow> [n] | None \<Rightarrow> [])) (\<lambda>_.
     pbind (declare_all (map par_name params)) (\<lambda>_.
     pbind (match_token [T_Arrow]) (\<lambda>arrow.
     pbind (if arrow then pbind previous (arrow_body r)
            else braced_body r ''Expected '{' before function body.'' ''Expected '}' after function body.'')
       (\<lambda>body.
     pbind pop_scope (\<lambda>_.
     preturn (E_Function params return_type body is_async is_sync)))))))))))))"

section \<open>Identifiers, struct literals and single-parameter arrows\<close>

definition is_capitalized :: "string \<Rightarrow> bool" where
  "is_capitalized name =
     (case name of c # _ \<Rightarrow> (let n = of_char c :: nat in 65 \<le> n \<and> n \<le> 90) | [] \<Rightarrow> False)"

definition next_is_prop :: "bool P" where
  "next_is_prop =
     pbind (check T_LeftBrace) (\<lambda>b. pbind (token_at 1) (\<lambda>n1. pbind (token_at 2) (\<lambda>n2.
       preturn (b \<and> (n1 = Some T_RightBrace \<or> some_identifier n1 \<and> n2 = Some T_Colon)))))"

text \<open>The pairs of a struct or object literal: a trailing comma is allowed.\<close>

definition key_values_until :: "nonterminals \<Rightarrow> string P \<Rightarrow> (string \<times> expr) list P" where
  "key_values_until r key_p =
     pbind (check T_RightBrace) (\<lambda>empty.
       if empty then preturn []
       else ploop (\<lambda>pairs.
         pbind key_p (\<lambda>key.
         pbind (consume T_Colon ''Expected ':' after property key.'') (\<lambda>_.
         pbind (r_expression r) (\<lambda>e.
         pbind (match_token [T_Comma]) (\<lambda>m.
           if \<not> m then preturn (pairs @ [(key, e)], False)
           else pbind (check T_RightBrace) (\<lambda>c. preturn (pairs @ [(key, e)], \<not> c))))))) [])"

definition single_arrow :: "nonterminals \<Rightarrow> string \<Rightarrow> bool \<Rightarrow> expr P" where
  "single_arrow r name is_async =
     pbind previous (\<lambda>arrow_tok.
     pbind push_scope (\<lambda>_.
     pbind (declare_variable name) (\<lambda>_.
     pbind (arrow_body r arrow_tok) (\<lambda>body.
     pbind pop_scope (\<lambda>_.
     preturn (E_Function [\<lparr>par_name = name, par_ty = None\<rparr>] None body is_async False))))))"

definition identifier_expr :: "nonterminals \<Rightarrow> bool \<Rightarrow> expr P" where
  "identifier_expr r is_async =
     pbind peek (\<lambda>tok.
     pbind (consume_ident ''Expected identifier'') (\<lambda>name.
     pbind (location_of tok) (\<lambda>loc.
     pbind (match_token [T_Arrow]) (\<lambda>arrow.
       if arrow then single_arrow r name is_async
       else pbind next_is_prop (\<lambda>np.
         if is_capitalized name \<and> np then
           pbind (match_token [T_LeftBrace]) (\<lambda>open_brace.
             if open_brace then
               pbind (key_values_until r (consume_ident ''Expected property key.'')) (\<lambda>pairs.
               pbind (consume T_RightBrace ''Expected '}' after struct properties.'') (\<lambda>_.
               preturn (E_StructInst name pairs loc)))
             else preturn (E_Variable name loc))
         else preturn (E_Variable name loc))))))"

section \<open>Parentheses and arrow functions\<close>

text \<open>\<^verbatim>\<open>if let Ok(rt) = self.parse_type()\<close>: an error is dropped, but not the tokens it consumed.\<close>

definition try_type :: "nonterminals \<Rightarrow> type_node option P" where
  "try_type r s =
     (case r_parse_type r s of
        POk t s' \<Rightarrow> POk (Some t) s'
      | PErr _ s' \<Rightarrow> POk None s'
      | PPanic \<Rightarrow> PPanic
      | PFuel \<Rightarrow> PFuel)"

text \<open>What follows the closing parenthesis of an arrow's parameters: (return type, is it an arrow).\<close>

definition arrow_tail :: "nonterminals \<Rightarrow> (type_node option \<times> bool) P" where
  "arrow_tail r =
     pbind (match_token [T_Colon]) (\<lambda>colon.
     pbind (if colon then try_type r else preturn None) (\<lambda>rt.
     pbind (match_token [T_Arrow]) (\<lambda>arrow. preturn (rt, arrow))))"

text \<open>The speculative parameter list: an error ends it and is forgotten.\<close>

definition try_params :: "nonterminals \<Rightarrow> (fn_param list \<times> bool) P" where
  "try_params r =
     ploop (\<lambda>(params, valid) s.
       case parse_fn_param r s of
         POk p s' \<Rightarrow> pbind (match_token [T_Comma]) (\<lambda>m. preturn ((params @ [p], valid), m)) s'
       | PErr _ s' \<Rightarrow> POk ((params, False), False) s'
       | PPanic \<Rightarrow> PPanic
       | PFuel \<Rightarrow> PFuel) ([], True)"

text \<open>The attempt to read an arrow's head: (parameters, return type, is it an arrow).\<close>

definition arrow_head :: "nonterminals \<Rightarrow> (fn_param list \<times> type_node option \<times> bool) P" where
  "arrow_head r =
     pbind (match_token [T_RightParen]) (\<lambda>empty.
       if empty then pbind (arrow_tail r) (\<lambda>(rt, arrow). preturn ([], rt, arrow))
       else pbind check_ident (\<lambda>ident.
         if ident then
           pbind (try_params r) (\<lambda>(params, valid).
             if valid then
               pbind (match_token [T_RightParen]) (\<lambda>close.
                 if close then pbind (arrow_tail r) (\<lambda>(rt, arrow). preturn (params, rt, arrow))
                 else preturn (params, None, False))
             else preturn (params, None, False))
         else preturn ([], None, False)))"

definition arrow_function ::
  "nonterminals \<Rightarrow> string list \<Rightarrow> fn_param list \<Rightarrow> type_node option \<Rightarrow> bool \<Rightarrow> expr P" where
  "arrow_function r declared params rt is_async =
     pbind previous (\<lambda>arrow_tok.
     pbind push_scope (\<lambda>_.
     pbind (declare_all declared) (\<lambda>_.
     pbind (arrow_body r arrow_tok) (\<lambda>body.
     pbind pop_scope (\<lambda>_.
     preturn (E_Function params rt body is_async False))))))"

definition paren_expr :: "nonterminals \<Rightarrow> bool \<Rightarrow> expr P" where
  "paren_expr r is_async =
     pbind (pget ps_current) (\<lambda>save_pos.
     pbind (arrow_head r) (\<lambda>(params, rt, is_arrow).
       if is_arrow then arrow_function r (map par_name params) params rt is_async
       else
         pbind (pmodify (\<lambda>s. s\<lparr>ps_current := save_pos\<rparr>)) (\<lambda>_.
         pbind (r_expression r) (\<lambda>e.
         pbind (consume T_RightParen ''Expected ')' after expression.'') (\<lambda>_.
         pbind (optionally T_Colon (r_parse_type r)) (\<lambda>return_type.
         pbind (match_token [T_Arrow]) (\<lambda>arrow.
           if arrow then
             arrow_function r []
               (case e of E_Variable name _ \<Rightarrow> [\<lparr>par_name = name, par_ty = None\<rparr>] | _ \<Rightarrow> [])
               return_type is_async
           else if is_async then
             pbind peek (\<lambda>t. pfail (Err_at (tok_line t) ''Expected '=>' after async parameter list.''))
           else preturn e)))))))"

section \<open>Primary expressions\<close>

definition async_before :: "(token_type option \<Rightarrow> token_type option \<Rightarrow> bool) \<Rightarrow> bool P" where
  "async_before ahead =
     pbind (check T_Async) (\<lambda>a.
       if a then
         pbind (token_at 1) (\<lambda>n1. pbind (token_at 2) (\<lambda>n2.
           if ahead n1 n2 then pbind advance (\<lambda>_. preturn True) else preturn False))
       else preturn False)"

definition bracket_expr :: "nonterminals \<Rightarrow> expr P" where
  "bracket_expr r =
     pbind (comma_list T_RightBracket (r_expression r)) (\<lambda>items.
     pbind (consume T_RightBracket ''Expected ']' after array elements.'') (\<lambda>_.
     preturn (E_Array items)))"

definition brace_expr :: "nonterminals \<Rightarrow> expr P" where
  "brace_expr r =
     pbind (key_values_until r (consume_prop_key ''Expected property key.'')) (\<lambda>pairs.
     pbind (consume T_RightBrace ''Expected '}' after object properties.'') (\<lambda>_.
     preturn (E_Object pairs)))"

definition primary_tail :: "nonterminals \<Rightarrow> expr P" where
  "primary_tail r =
     pbind (async_before (\<lambda>n1 n2. some_identifier n1 \<and> n2 = Some T_Arrow)) (\<lambda>async_single.
     pbind check_ident (\<lambda>ident.
       if ident then identifier_expr r async_single
       else
         pbind (async_before (\<lambda>n1 n2. n1 = Some T_LeftParen)) (\<lambda>async_paren.
         pbind (if async_paren then pbind (consume T_LeftParen ''Expected '(' after 'async'.'') (\<lambda>_. preturn True)
                else match_token [T_LeftParen]) (\<lambda>paren.
           if paren then paren_expr r async_paren
           else pbind (match_token [T_LeftBracket]) (\<lambda>bracket.
             if bracket then bracket_expr r
             else pbind (match_token [T_LeftBrace]) (\<lambda>brace.
               if brace then brace_expr r
               else pbind peek (\<lambda>t. pfail (Err_unexpected (tok_line t) (tok_ty t)))))))))"

definition primary :: "nonterminals \<Rightarrow> expr P" where
  "primary r =
     pbind function_modifiers (\<lambda>(is_async, is_sync).
     pbind (if is_async \<or> is_sync
            then pbind (consume T_Function ''Expected 'fn' or 'function'.'') (\<lambda>_. preturn True)
            else match_token [T_Function]) (\<lambda>is_function.
       if is_function then function_literal r is_async is_sync else
       pbind (match_token [T_False]) (\<lambda>m. if m then preturn (E_Literal (L_Boolean False)) else
       pbind (match_token [T_True]) (\<lambda>m. if m then preturn (E_Literal (L_Boolean True)) else
       pbind (match_token [T_Null]) (\<lambda>m. if m then preturn (E_Literal L_Null) else
       pbind peek (\<lambda>tok.
         case tok_ty tok of
           T_Number n \<Rightarrow> pbind advance (\<lambda>_. preturn (E_Literal (L_Number n)))
         | T_String str \<Rightarrow> pbind advance (\<lambda>_. preturn (E_Literal (L_String str)))
         | _ \<Rightarrow> primary_tail r))))))"

section \<open>Calls and postfix operators\<close>

text \<open>The state of the loop: the expression so far and whether \<^verbatim>\<open>new\<close> has met its call.\<close>

definition call_step :: "nonterminals \<Rightarrow> bool \<Rightarrow> expr \<times> bool \<Rightarrow> ((expr \<times> bool) \<times> bool) P" where
  "call_step r is_new st =
     (case st of (e, had_call) \<Rightarrow>
       pbind (match_token [T_LeftParen]) (\<lambda>m. if m then
         pbind (comma_list T_RightParen (r_expression r)) (\<lambda>args.
         pbind (consume T_RightParen ''Expected ')' after arguments.'') (\<lambda>_.
           if is_new \<and> \<not> had_call then preturn ((E_New (E_Call e args), True), True)
           else preturn ((E_Call e args, had_call), True)))
       else pbind (match_token [T_Dot]) (\<lambda>m. if m then
         pbind consume_property_name (\<lambda>name. preturn ((E_Get e name, had_call), True))
       else pbind (match_token [T_LeftBracket]) (\<lambda>m. if m then
         pbind (r_expression r) (\<lambda>index.
         pbind (consume T_RightBracket ''Expected ']' after index.'') (\<lambda>_.
         preturn ((E_GetIndex e index, had_call), True)))
       else pbind (match_token [T_PlusPlus, T_MinusMinus]) (\<lambda>m. if m then
         pbind previous (\<lambda>op. preturn ((E_Postfix (tok_ty op) e, had_call), True))
       else preturn ((e, had_call), False))))))"

definition call :: "nonterminals \<Rightarrow> expr P" where
  "call r =
     pbind (match_token [T_New]) (\<lambda>is_new.
     pbind (primary r) (\<lambda>e.
     pbind (ploop (call_step r is_new) (e, False)) (\<lambda>(e', had_call).
     preturn (if is_new \<and> \<not> had_call then E_New e' else e'))))"

section \<open>Operators\<close>

definition unary :: "nonterminals \<Rightarrow> expr P" where
  "unary r =
     pbind (match_token [T_Await]) (\<lambda>m. if m then
       pbind (r_unary r) (\<lambda>e. preturn (E_Await e))
     else pbind (match_token [T_Bang, T_Minus, T_Tilde, T_Typeof]) (\<lambda>m. if m then
       pbind previous (\<lambda>op. pbind (r_unary r) (\<lambda>e. preturn (E_Unary (tok_ty op) e)))
     else pbind (match_token [T_PlusPlus, T_MinusMinus]) (\<lambda>m. if m then
       pbind previous (\<lambda>op. pbind (r_unary r) (\<lambda>e. preturn (E_Prefix (tok_ty op) e)))
     else pbind (match_token [T_Spawn, T_On]) (\<lambda>m. if m then
       pbind (call r) (\<lambda>e. preturn (E_Spawn e))
     else call r))))"

text \<open>One level of left-associative binary operators.\<close>

definition binary_level ::
  "token_type list \<Rightarrow> (expr \<Rightarrow> token_type \<Rightarrow> expr \<Rightarrow> expr) \<Rightarrow> expr P \<Rightarrow> expr P" where
  "binary_level ops mk sub =
     pbind sub
       (ploop (\<lambda>e. pbind (match_token ops) (\<lambda>m.
          if m then pbind previous (\<lambda>op. pbind sub (\<lambda>right. preturn (mk e (tok_ty op) right, True)))
          else preturn (e, False))))"

definition factor :: "nonterminals \<Rightarrow> expr P" where
  "factor r = binary_level [T_Slash, T_Star, T_Percent] E_Binary (unary r)"

definition term_expr :: "nonterminals \<Rightarrow> expr P" where
  "term_expr r = binary_level [T_Minus, T_Plus] E_Binary (factor r)"

definition shift :: "nonterminals \<Rightarrow> expr P" where
  "shift r = binary_level [T_LessLess, T_GreaterGreater] E_Binary (term_expr r)"

definition type_cast :: "nonterminals \<Rightarrow> expr P" where
  "type_cast r =
     pbind (shift r)
       (ploop (\<lambda>e. pbind (match_token [T_As]) (\<lambda>m.
          if m then pbind previous (\<lambda>tok. pbind (location_of tok) (\<lambda>loc.
            pbind (r_parse_type r) (\<lambda>ty. preturn (E_TypeCast e ty loc, True))))
          else preturn (e, False))))"

definition comparison :: "nonterminals \<Rightarrow> expr P" where
  "comparison r = binary_level [T_Greater, T_GreaterEqual, T_Less, T_LessEqual] E_Binary (type_cast r)"

definition equality :: "nonterminals \<Rightarrow> expr P" where
  "equality r = binary_level [T_BangEqual, T_EqualEqual] E_Binary (comparison r)"

definition bitwise_and :: "nonterminals \<Rightarrow> expr P" where
  "bitwise_and r = binary_level [T_Ampersand] E_Binary (equality r)"

definition bitwise_xor :: "nonterminals \<Rightarrow> expr P" where
  "bitwise_xor r = binary_level [T_Caret] E_Binary (bitwise_and r)"

definition bitwise_or :: "nonterminals \<Rightarrow> expr P" where
  "bitwise_or r = binary_level [T_Pipe] E_Binary (bitwise_xor r)"

definition and_expr :: "nonterminals \<Rightarrow> expr P" where
  "and_expr r = binary_level [T_And] E_Logical (bitwise_or r)"

definition or_expr :: "nonterminals \<Rightarrow> expr P" where
  "or_expr r = binary_level [T_Or] E_Logical (and_expr r)"

definition ternary :: "nonterminals \<Rightarrow> expr P" where
  "ternary r =
     pbind (or_expr r) (\<lambda>e.
     pbind (match_token [T_Question]) (\<lambda>m.
       if m then
         pbind (r_expression r) (\<lambda>then_branch.
         pbind (consume T_Colon ''Expected ':' after then expression in ternary operator.'') (\<lambda>_.
         pbind (r_ternary r) (\<lambda>else_branch.
         preturn (E_Ternary e then_branch else_branch))))
       else preturn e))"

section \<open>Assignment\<close>

definition compound_op :: "token_type \<Rightarrow> token_type option" where
  "compound_op ty =
     (case ty of
        T_PlusEqual \<Rightarrow> Some T_Plus | T_MinusEqual \<Rightarrow> Some T_Minus | T_StarEqual \<Rightarrow> Some T_Star
      | T_SlashEqual \<Rightarrow> Some T_Slash | T_PercentEqual \<Rightarrow> Some T_Percent
      | _ \<Rightarrow> None)"

text \<open>The assignment an expression is the target of, with the value the source's operator gives.\<close>

definition assign_to :: "expr \<Rightarrow> token_type option \<Rightarrow> expr \<Rightarrow> expr option" where
  "assign_to target op val =
     (let v = (case op of None \<Rightarrow> val | Some b \<Rightarrow> E_Binary target b val)
      in case target of
           E_Variable name loc \<Rightarrow> Some (E_Assign name v loc)
         | E_Get obj name \<Rightarrow> Some (E_Set obj name v)
         | E_GetIndex obj index \<Rightarrow> Some (E_SetIndex obj index v)
         | _ \<Rightarrow> None)"

definition assignment :: "nonterminals \<Rightarrow> expr P" where
  "assignment r =
     pbind (ternary r) (\<lambda>e.
     pbind (match_token [T_Equal, T_PlusEqual, T_MinusEqual, T_StarEqual, T_SlashEqual, T_PercentEqual]) (\<lambda>m.
       if m then
         pbind previous (\<lambda>op.
         pbind (r_assignment r) (\<lambda>val.
           case assign_to e (compound_op (tok_ty op)) val of
             Some a \<Rightarrow> preturn a
           | None \<Rightarrow> pfail (Err_msg ''Invalid assignment target.'')))
       else preturn e))"

definition expression :: "nonterminals \<Rightarrow> expr P" where
  "expression r = assignment r"

end
