(* ===== verification/Parser_Stmt.thy ===== *)
theory Parser_Stmt
  imports Parser_Expr
begin

text \<open>
  Statements and declarations, \<^verbatim>\<open>parser/statement.rs\<close> and \<^verbatim>\<open>parser/declaration.rs\<close>, one
  definition per branch, and the parser itself: \<open>parsers\<close> ties the recursion with fuel and
  \<open>parse\<close> gives one more than there are tokens.
\<close>

section \<open>Statements\<close>

definition print_stmt :: "nonterminals \<Rightarrow> stmt P" where
  "print_stmt r =
     pbind (consume T_LeftParen ''Expected '(' after print.'') (\<lambda>_.
     pbind (expression r) (\<lambda>e.
     pbind (consume T_RightParen ''Expected ')' after value.'') (\<lambda>_.
     preturn (S_Print e))))"

definition block_stmt :: "nonterminals \<Rightarrow> stmt P" where
  "block_stmt r =
     pbind push_scope (\<lambda>_.
     pbind (until [T_RightBrace] (r_declaration r)) (\<lambda>stmts.
     pbind (consume T_RightBrace ''Expected '}' after block.'') (\<lambda>_.
     pbind pop_scope (\<lambda>_.
     preturn (S_Block stmts)))))"

definition if_stmt :: "nonterminals \<Rightarrow> stmt P" where
  "if_stmt r =
     pbind (consume T_LeftParen ''Expected '(' after if.'') (\<lambda>_.
     pbind (expression r) (\<lambda>condition.
     pbind (consume T_RightParen ''Expected ')' after condition.'') (\<lambda>_.
     pbind (r_statement r) (\<lambda>then_branch.
     pbind (optionally T_Else (r_statement r)) (\<lambda>else_branch.
     preturn (S_If condition then_branch else_branch))))))"

text \<open>An expression whose parentheses are optional.\<close>

definition opt_paren_expr :: "nonterminals \<Rightarrow> string \<Rightarrow> expr P" where
  "opt_paren_expr r msg =
     pbind (match_token [T_LeftParen]) (\<lambda>has_paren.
     pbind (expression r) (\<lambda>e.
     pbind (if has_paren then pbind (consume T_RightParen msg) (\<lambda>_. preturn ()) else preturn ()) (\<lambda>_.
     preturn e)))"

definition while_stmt :: "nonterminals \<Rightarrow> stmt P" where
  "while_stmt r =
     pbind (opt_paren_expr r ''Expected ')' after while condition.'') (\<lambda>condition.
     pbind (r_statement r) (\<lambda>body. preturn (S_While condition body)))"

definition catch_clause :: "nonterminals \<Rightarrow> (string \<times> stmt) P" where
  "catch_clause r =
     pbind (match_token [T_LeftParen]) (\<lambda>has_paren.
     pbind (if has_paren then
              pbind (consume_ident ''Expected variable name for catch parameter.'') (\<lambda>n.
              pbind (consume T_RightParen ''Expected ')' after catch parameter.'') (\<lambda>_. preturn n))
            else preturn ''err'') (\<lambda>err_name.
     pbind push_scope (\<lambda>_.
     pbind (declare_variable err_name) (\<lambda>_.
     pbind (r_statement r) (\<lambda>body.
     pbind pop_scope (\<lambda>_.
     preturn (err_name, body)))))))"

definition try_stmt :: "nonterminals \<Rightarrow> stmt P" where
  "try_stmt r =
     pbind (r_statement r) (\<lambda>try_body.
     pbind (optionally T_Catch (catch_clause r)) (\<lambda>catch.
     pbind (optionally T_Finally (r_statement r)) (\<lambda>finally_body.
       if catch = None \<and> finally_body = None
       then pfail (Err_msg ''Expected 'catch' or 'finally' after 'try' block.'')
       else preturn (S_Try try_body catch finally_body))))"

text \<open>The statements of a switch case: a block, or declarations up to the next case.\<close>

definition case_body_stmt :: "nonterminals \<Rightarrow> stmt P" where
  "case_body_stmt r =
     pbind (check T_LeftBrace) (\<lambda>brace.
     pbind (if brace then pbind (r_statement r) (\<lambda>b. preturn [b])
            else until [T_Case, T_Default, T_RightBrace] (r_declaration r)) (\<lambda>stmts.
     preturn (if length stmts = 1 then hd stmts else S_Block stmts)))"

text \<open>One round of the switch body; the accumulator holds the cases and the default.\<close>

definition switch_step :: "nonterminals \<Rightarrow> switch_case list \<times> stmt option \<Rightarrow>
    ((switch_case list \<times> stmt option) \<times> bool) P" where
  "switch_step r st =
     (case st of (cases, dflt) \<Rightarrow>
       pbind (at_any [T_RightBrace]) (\<lambda>stop.
         if stop then preturn ((cases, dflt), False)
         else pbind (match_token [T_Case]) (\<lambda>m. if m then
           pbind (comma_separated (r_expression r)) (\<lambda>vals.
           pbind (consume T_Colon ''Expected ':' after case value(s).'') (\<lambda>_.
           pbind (case_body_stmt r) (\<lambda>body.
           preturn ((cases @ [SwitchCase vals body], dflt), True))))
         else pbind (match_token [T_Default]) (\<lambda>m. if m then
           pbind (consume T_Colon ''Expected ':' after default.'') (\<lambda>_.
           pbind (case_body_stmt r) (\<lambda>body.
           preturn ((cases, Some body), True)))
         else pbind peek (\<lambda>t.
           pfail (Err_at (tok_line t) ''Expected 'case' or 'default' in switch body.''))))))"

definition switch_stmt :: "nonterminals \<Rightarrow> stmt P" where
  "switch_stmt r =
     pbind (opt_paren_expr r ''Expected ')' after switch target expression.'') (\<lambda>target.
     pbind (consume T_LeftBrace ''Expected '{' after switch expression.'') (\<lambda>_.
     pbind (ploop (switch_step r) ([], None)) (\<lambda>(cases, dflt).
     pbind (consume T_RightBrace ''Expected '}' after switch body.'') (\<lambda>_.
     preturn (S_Switch target cases dflt)))))"

text \<open>The arrow (or colon), the body and the optional comma of a match arm.\<close>

definition match_arm :: "nonterminals \<Rightarrow> string \<Rightarrow> stmt P" where
  "match_arm r msg =
     pbind (match_token [T_Arrow, T_Colon]) (\<lambda>m.
       if \<not> m then pbind peek (\<lambda>t. pfail (Err_at (tok_line t) msg))
       else pbind (r_statement r) (\<lambda>body. pbind (match_token [T_Comma]) (\<lambda>_. preturn body)))"

definition match_step :: "nonterminals \<Rightarrow> switch_case list \<times> stmt option \<Rightarrow>
    ((switch_case list \<times> stmt option) \<times> bool) P" where
  "match_step r st =
     (case st of (cases, dflt) \<Rightarrow>
       pbind (at_any [T_RightBrace]) (\<lambda>stop.
         if stop then preturn ((cases, dflt), False)
         else pbind (match_token [T_Underscore, T_Default]) (\<lambda>wild.
           if wild then
             pbind (match_arm r ''Expected '=>' after wildcard pattern.'') (\<lambda>body.
             preturn ((cases, Some body), True))
           else
             pbind (comma_separated (r_expression r)) (\<lambda>vals.
             pbind (match_arm r ''Expected '=>' after match pattern.'') (\<lambda>body.
             preturn ((cases @ [SwitchCase vals body], dflt), True))))))"

definition match_stmt :: "nonterminals \<Rightarrow> stmt P" where
  "match_stmt r =
     pbind (opt_paren_expr r ''Expected ')' after match target expression.'') (\<lambda>target.
     pbind (consume T_LeftBrace ''Expected '{' after match expression.'') (\<lambda>_.
     pbind (ploop (match_step r) ([], None)) (\<lambda>(cases, dflt).
     pbind (consume T_RightBrace ''Expected '}' after match body.'') (\<lambda>_.
     preturn (S_Switch target cases dflt)))))"

text \<open>The body of a for loop, in a scope that declares the variable.\<close>

definition loop_body :: "nonterminals \<Rightarrow> string \<Rightarrow> stmt P" where
  "loop_body r var =
     pbind push_scope (\<lambda>_.
     pbind (declare_variable var) (\<lambda>_.
     pbind (r_statement r) (\<lambda>body.
     pbind pop_scope (\<lambda>_.
     preturn body))))"

definition close_paren_if :: "bool \<Rightarrow> string \<Rightarrow> unit P" where
  "close_paren_if has_paren msg =
     (if has_paren then pbind (consume T_RightParen msg) (\<lambda>_. preturn ()) else preturn ())"

definition for_stmt :: "nonterminals \<Rightarrow> stmt P" where
  "for_stmt r =
     pbind (match_token [T_LeftParen]) (\<lambda>has_paren.
     pbind (match_token [T_Let, T_Const]) (\<lambda>_.
     pbind (consume_ident ''Expected loop variable name.'') (\<lambda>var.
     pbind (consume T_In ''Expected 'in' after variable name.'') (\<lambda>_.
     pbind (expression r) (\<lambda>first_expr.
     pbind (match_token [T_DotDot]) (\<lambda>range.
       if range then
         pbind (expression r) (\<lambda>end_expr.
         pbind (close_paren_if has_paren ''Expected ')' after for loop range.'') (\<lambda>_.
         pbind (loop_body r var) (\<lambda>body.
         preturn (S_For var first_expr end_expr body))))
       else
         pbind (close_paren_if has_paren ''Expected ')' after for loop expression.'') (\<lambda>_.
         pbind (loop_body r var) (\<lambda>body.
         preturn (S_ForIn var first_expr body)))))))))"

definition return_stmt :: "nonterminals \<Rightarrow> stmt P" where
  "return_stmt r =
     pbind previous (\<lambda>ret_tok.
     pbind (at_any [T_RightBrace]) (\<lambda>stop.
     pbind (if stop then preturn None else pbind (expression r) (\<lambda>e. preturn (Some e))) (\<lambda>val.
     pbind (location_of ret_tok) (\<lambda>loc.
     preturn (S_Return val loc)))))"

definition statement :: "nonterminals \<Rightarrow> stmt P" where
  "statement r =
     pbind (match_token [T_Print]) (\<lambda>m. if m then print_stmt r
     else pbind (match_token [T_LeftBrace]) (\<lambda>m. if m then block_stmt r
     else pbind (match_token [T_If]) (\<lambda>m. if m then if_stmt r
     else pbind (match_token [T_While]) (\<lambda>m. if m then while_stmt r
     else pbind (match_token [T_Break]) (\<lambda>m. if m then preturn S_Break
     else pbind (match_token [T_Continue]) (\<lambda>m. if m then preturn S_Continue
     else pbind (match_token [T_Throw]) (\<lambda>m. if m then
       pbind (expression r) (\<lambda>e. preturn (S_Throw e))
     else pbind (match_token [T_Try]) (\<lambda>m. if m then try_stmt r
     else pbind (match_token [T_Switch]) (\<lambda>m. if m then switch_stmt r
     else pbind (match_token [T_Match]) (\<lambda>m. if m then match_stmt r
     else pbind (match_token [T_For]) (\<lambda>m. if m then for_stmt r
     else pbind (match_token [T_Return]) (\<lambda>m. if m then return_stmt r
     else pbind (match_token [T_Concurrent]) (\<lambda>m. if m then
       pbind (r_statement r) (\<lambda>body. preturn (S_Concurrent body))
     else pbind (match_token [T_Sync]) (\<lambda>m. if m then
       pbind (r_statement r) (\<lambda>body. preturn (S_Sync body))
     else pbind (expression r) (\<lambda>e. preturn (S_Expr e))))))))))))))))"

section \<open>Declarations\<close>

definition import_path :: "string \<Rightarrow> string P" where
  "import_path msg =
     pbind peek (\<lambda>t.
       case tok_ty t of
         T_String str \<Rightarrow> pbind advance (\<lambda>_. preturn str)
       | _ \<Rightarrow> pfail (Err_at (tok_line t) msg))"

definition import_decl :: "stmt P" where
  "import_decl =
     pbind (match_token [T_LeftBrace]) (\<lambda>brace.
       if brace then
         pbind (comma_list T_RightBrace (consume_ident ''Expected identifier in import list.'')) (\<lambda>names.
         pbind (consume T_RightBrace ''Expected '}' after import list.'') (\<lambda>_.
         pbind (declare_all names) (\<lambda>_.
         pbind (consume T_From ''Expected 'from' after import list.'') (\<lambda>_.
         pbind (import_path ''Expected string literal for import path.'') (\<lambda>path.
         preturn (S_Import names path))))))
       else
         pbind (import_path ''Expected string literal or '{' after import.'') (\<lambda>path.
         preturn (S_Import [] path)))"

definition method_params :: "nonterminals \<Rightarrow> string list P" where
  "method_params r =
     pbind (consume T_LeftParen ''Expected '(' after method name.'') (\<lambda>_.
     pbind (comma_list T_RightParen (pbind (parse_fn_param r) (\<lambda>p. preturn (par_name p)))) (\<lambda>params.
     pbind (consume T_RightParen ''Expected ')' after parameters.'') (\<lambda>_.
     preturn params)))"

definition field_decl :: "(string \<times> string) P" where
  "field_decl =
     pbind consume_property_name (\<lambda>name.
     pbind (consume T_Colon ''Expected ':' after field name.'') (\<lambda>_.
     pbind consume_property_name (\<lambda>ty. preturn (name, ty))))"

text \<open>After a member: an optional comma; the body ends at its brace or at the end.\<close>

definition member_end :: "bool P" where
  "member_end = pbind (match_token [T_Comma]) (\<lambda>_. pbind (at_any [T_RightBrace]) (\<lambda>stop. preturn (\<not> stop)))"

definition struct_method :: "nonterminals \<Rightarrow> (string \<times> string list \<times> stmt) P" where
  "struct_method r =
     pbind (consume_ident ''Expected method name.'') (\<lambda>name.
     pbind (method_params r) (\<lambda>params.
     pbind push_scope (\<lambda>_.
     pbind (declare_variable ''this'') (\<lambda>_.
     pbind (declare_all params) (\<lambda>_.
     pbind (braced_body r ''Expected '{' before method body.'' ''Expected '}' after method body.'') (\<lambda>body.
     pbind pop_scope (\<lambda>_.
     preturn (name, params, body))))))))"

definition struct_decl :: "nonterminals \<Rightarrow> stmt P" where
  "struct_decl r =
     pbind peek (\<lambda>name_tok.
     pbind (consume_ident ''Expected struct name.'') (\<lambda>name.
     pbind (declare_variable name) (\<lambda>_.
     pbind (match_token [T_Embed]) (\<lambda>embed.
     pbind (if embed then comma_separated (consume_ident ''Expected parent struct name after 'embed'.'')
            else preturn []) (\<lambda>composed.
     pbind (consume T_LeftBrace ''Expected '{' before struct body.'') (\<lambda>_.
     pbind (check T_RightBrace) (\<lambda>empty.
     pbind (if empty then preturn ([], [])
            else ploop (\<lambda>(fs, ms).
              pbind (match_token [T_Function]) (\<lambda>m.
              pbind (if m then pbind (struct_method r) (\<lambda>x. preturn (fs, ms @ [x]))
                     else pbind field_decl (\<lambda>x. preturn (fs @ [x], ms))) (\<lambda>acc.
              pbind member_end (\<lambda>more. preturn (acc, more))))) ([], [])) (\<lambda>(fs, ms).
     pbind (consume T_RightBrace ''Expected '}' after struct body.'') (\<lambda>_.
     pbind (location_of name_tok) (\<lambda>loc.
     preturn (S_Struct name composed fs ms loc)))))))))))"

definition interface_decl :: "nonterminals \<Rightarrow> stmt P" where
  "interface_decl r =
     pbind peek (\<lambda>name_tok.
     pbind (consume_ident ''Expected interface name.'') (\<lambda>name.
     pbind (declare_variable name) (\<lambda>_.
     pbind (consume T_LeftBrace ''Expected '{' before interface body.'') (\<lambda>_.
     pbind (check T_RightBrace) (\<lambda>empty.
     pbind (if empty then preturn ([], [])
            else ploop (\<lambda>(fs, ms).
              pbind (match_token [T_Function]) (\<lambda>m.
              pbind (if m then
                       pbind (consume_ident ''Expected method name.'') (\<lambda>n.
                       pbind (method_params r) (\<lambda>ps. preturn (fs, ms @ [(n, ps)])))
                     else pbind field_decl (\<lambda>x. preturn (fs @ [x], ms))) (\<lambda>acc.
              pbind member_end (\<lambda>more. preturn (acc, more))))) ([], [])) (\<lambda>(fs, ms).
     pbind (consume T_RightBrace ''Expected '}' after interface body.'') (\<lambda>_.
     pbind (location_of name_tok) (\<lambda>loc.
     preturn (S_Interface name fs ms loc)))))))))"

definition type_decl :: "nonterminals \<Rightarrow> stmt P" where
  "type_decl r =
     pbind peek (\<lambda>name_tok.
     pbind (consume_ident ''Expected type alias name.'') (\<lambda>name.
     pbind (match_token [T_Less]) (\<lambda>generic.
     pbind (if generic then
              pbind (comma_list T_Greater (consume_ident ''Expected type parameter name.'')) (\<lambda>ps.
              pbind (consume T_Greater ''Expected '>' after type parameters.'') (\<lambda>_. preturn ps))
            else preturn []) (\<lambda>type_params.
     pbind (consume T_Equal ''Expected '=' in type alias.'') (\<lambda>_.
     pbind (r_parse_type r) (\<lambda>ty.
     pbind (location_of name_tok) (\<lambda>loc.
     preturn (S_TypeAlias name type_params ty loc))))))))"

definition enum_value :: "literal_value P" where
  "enum_value =
     pbind peek (\<lambda>t.
       case tok_ty t of
         T_Number n \<Rightarrow> pbind advance (\<lambda>_. preturn (L_Number n))
       | T_String str \<Rightarrow> pbind advance (\<lambda>_. preturn (L_String str))
       | _ \<Rightarrow> pfail (Err_at (tok_line t) ''Enum variant value must be a number or string literal.''))"

definition enum_decl :: "nonterminals \<Rightarrow> stmt P" where
  "enum_decl r =
     pbind peek (\<lambda>name_tok.
     pbind (consume_ident ''Expected enum name.'') (\<lambda>name.
     pbind (consume T_LeftBrace ''Expected '{' before enum variants.'') (\<lambda>_.
     pbind (comma_list T_RightBrace
              (pbind (consume_ident ''Expected enum variant name.'') (\<lambda>v.
               pbind (optionally T_Equal enum_value) (\<lambda>x. preturn (v, x))))) (\<lambda>variants.
     pbind (consume T_RightBrace ''Expected '}' after enum variants.'') (\<lambda>_.
     pbind (location_of name_tok) (\<lambda>loc.
     preturn (S_Enum name variants loc)))))))"

definition let_decl :: "nonterminals \<Rightarrow> stmt P" where
  "let_decl r =
     pbind previous (\<lambda>kw.
     pbind peek (\<lambda>name_tok.
     pbind (consume_ident ''Expected variable name.'') (\<lambda>name.
     pbind (optionally T_Colon (r_parse_type r)) (\<lambda>ty.
     pbind (match_token [T_Equal]) (\<lambda>m.
     pbind (if m then expression r else preturn (E_Literal L_Null)) (\<lambda>init.
     pbind (location_of name_tok) (\<lambda>loc.
     pbind (declare_variable name) (\<lambda>_.
     preturn (S_VarDecl name ty (tok_ty kw = T_Const) init loc)))))))))"

text \<open>Does a function declaration start here?\<close>

definition at_function :: "bool P" where
  "at_function =
     pbind (check T_Function) (\<lambda>f.
     pbind (check T_Async) (\<lambda>a.
     pbind (check T_Sync) (\<lambda>s.
     pbind (check T_At) (\<lambda>t.
     pbind (token_at 1) (\<lambda>n1.
     pbind (token_at 2) (\<lambda>n2.
     preturn (f \<or> a \<and> n1 = Some T_Function \<or> s \<and> n1 = Some T_Function \<or>
              t \<and> sync_name n1 \<and> n2 = Some T_Function)))))))"

text \<open>The modifiers of a function declaration: (async, sync).\<close>

definition decl_modifiers :: "(bool \<times> bool) P" where
  "decl_modifiers =
     pbind (match_token [T_At]) (\<lambda>at. if at then
       pbind (match_token [T_Sync]) (\<lambda>s. if s then preturn (False, True)
         else pbind check_ident (\<lambda>c. if c then
           pbind (consume_ident ''Expected annotation name.'') (\<lambda>n. preturn (False, n = ''sync''))
         else preturn (False, False)))
     else pbind (match_token [T_Sync]) (\<lambda>s. if s then preturn (False, True)
       else pbind (match_token [T_Async]) (\<lambda>a. preturn (a, False))))"

definition function_decl :: "nonterminals \<Rightarrow> stmt P" where
  "function_decl r =
     pbind decl_modifiers (\<lambda>(is_async, is_sync).
     pbind (consume T_Function ''Expected 'fn' or 'function'.'') (\<lambda>_.
     pbind peek (\<lambda>name_tok.
     pbind (consume_ident ''Expected function name.'') (\<lambda>name.
     pbind (declare_variable name) (\<lambda>_.
     pbind (consume T_LeftParen ''Expected '(' after function name.'') (\<lambda>_.
     pbind (comma_list T_RightParen (parse_fn_param r)) (\<lambda>params.
     pbind (consume T_RightParen ''Expected ')' after parameters.'') (\<lambda>_.
     pbind (optionally T_Colon (r_parse_type r)) (\<lambda>return_type.
     pbind push_scope (\<lambda>_.
     pbind (declare_all (map par_name params)) (\<lambda>_.
     pbind (match_token [T_Arrow]) (\<lambda>arrow.
     pbind (if arrow then arrow_body r name_tok
            else braced_body r ''Expected '{' before function body.'' ''Expected '}' after function body.'')
       (\<lambda>body.
     pbind pop_scope (\<lambda>_.
     pbind (location_of name_tok) (\<lambda>loc.
     preturn (S_VarDecl name None False (E_Function params return_type body is_async is_sync) loc))))))))))))))))"

text \<open>\<^verbatim>\<open>name = expr\<close>: an assignment when the name is declared, else a declaration.\<close>

definition assign_or_declare :: "nonterminals \<Rightarrow> stmt P" where
  "assign_or_declare r =
     pbind peek (\<lambda>name_tok.
     pbind (consume_ident ''Expected variable name.'') (\<lambda>name.
     pbind advance (\<lambda>_.
     pbind (expression r) (\<lambda>e.
     pbind (location_of name_tok) (\<lambda>loc.
     pbind (is_variable_declared name) (\<lambda>declared.
       if declared then preturn (S_Expr (E_Assign name e loc))
       else pbind (declare_variable name) (\<lambda>_. preturn (S_VarDecl name None False e loc))))))))"

definition assignment_ahead :: "bool P" where
  "assignment_ahead =
     pbind check_ident (\<lambda>c. if c then pbind (token_at 1) (\<lambda>n. preturn (n = Some T_Equal)) else preturn False)"

definition declaration_stmt :: "nonterminals \<Rightarrow> stmt P" where
  "declaration_stmt r =
     pbind (match_token [T_Import]) (\<lambda>m. if m then import_decl
     else pbind (match_token [T_Export]) (\<lambda>m. if m then
       pbind (r_declaration r) (\<lambda>d. preturn (S_Export d))
     else pbind (match_token [T_Struct]) (\<lambda>m. if m then struct_decl r
     else pbind (match_token [T_Interface]) (\<lambda>m. if m then interface_decl r
     else pbind (match_token [T_Type]) (\<lambda>m. if m then type_decl r
     else pbind (match_token [T_Enum]) (\<lambda>m. if m then enum_decl r
     else pbind (match_token [T_Let, T_Const]) (\<lambda>m. if m then let_decl r
     else pbind at_function (\<lambda>f. if f then function_decl r
     else pbind assignment_ahead (\<lambda>a. if a then assign_or_declare r
     else statement r)))))))))"

section \<open>The parser\<close>

primrec parsers :: "nat \<Rightarrow> nonterminals" where
  "parsers 0 =
     \<lparr>r_parse_type = pfuel, r_expression = pfuel, r_assignment = pfuel, r_ternary = pfuel,
      r_unary = pfuel, r_statement = pfuel, r_declaration = pfuel\<rparr>"
| "parsers (Suc n) =
     \<lparr>r_parse_type = parse_type (parsers n), r_expression = expression (parsers n),
      r_assignment = assignment (parsers n), r_ternary = ternary (parsers n),
      r_unary = unary (parsers n), r_statement = statement (parsers n),
      r_declaration = declaration_stmt (parsers n)\<rparr>"

text \<open>\<^verbatim>\<open>Parser::parse\<close>: declarations up to the end.\<close>

definition parse :: "stmt list P" where
  "parse s = until [] (r_declaration (parsers (Suc (length (ps_tokens s))))) s"

end
