(* ===== verification/Parser_Safe.thy ===== *)
theory Parser_Safe
  imports Parser_Runs Parser_Stmt
begin

text \<open>
  No parsing function panics, runs past the tokens or needs more fuel than it is given, and every
  nonterminal that succeeds consumes a token. The functions are treated inside the locale
  \<open>sub_parsers\<close>: it assumes of the recursive nonterminals that they behave at every position after
  \<open>L\<close>, and each lemma shows the same of a parsing function from \<open>L\<close> on. The interpretation on
  \<open>parsers n\<close> ties the knot by induction on the fuel.
\<close>

section \<open>The interface of the recursive nonterminals\<close>

definition consumes :: "token list \<Rightarrow> nat \<Rightarrow> 'a P \<Rightarrow> bool" where
  "consumes T L p \<longleftrightarrow> (\<forall>c. L \<le> c \<longrightarrow> runs T c c p (\<lambda>_ c'. c < c'))"

lemma consumesI: "(\<And>c. L \<le> c \<Longrightarrow> runs T c c p (\<lambda>_ c'. c < c')) \<Longrightarrow> consumes T L p"
  by (simp add: consumes_def)

lemma runs_consumes:
  "consumes T L p \<Longrightarrow> L \<le> c \<Longrightarrow> b \<le> c \<Longrightarrow> (\<And>x c'. c < c' \<Longrightarrow> Q x c') \<Longrightarrow> runs T b c p Q"
  by (auto simp: consumes_def elim!: runs_conseq)

lemma consumes_mono: "consumes T L p \<Longrightarrow> L \<le> L' \<Longrightarrow> consumes T L' p"
  by (auto simp: consumes_def)

lemma consumes_keys: "consumes T 0 (consume_ident msg)" "consumes T 0 (consume_prop_key msg)"
  by (rule consumesI, intro runs_rules; simp)+

locale sub_parsers =
  fixes T :: "token list" and L :: nat and r :: nonterminals
  assumes sub_type: "consumes T (Suc L) (r_parse_type r)"
    and sub_expression: "consumes T (Suc L) (r_expression r)"
    and sub_assignment: "consumes T (Suc L) (r_assignment r)"
    and sub_ternary: "consumes T (Suc L) (r_ternary r)"
    and sub_unary: "consumes T (Suc L) (r_unary r)"
    and sub_statement: "consumes T (Suc L) (r_statement r)"
    and sub_declaration: "consumes T (Suc L) (r_declaration r)"
begin

lemmas sub_rules =
  runs_consumes [OF sub_type] runs_consumes [OF sub_expression] runs_consumes [OF sub_assignment]
  runs_consumes [OF sub_ternary] runs_consumes [OF sub_unary] runs_consumes [OF sub_statement]
  runs_consumes [OF sub_declaration]

section \<open>Types\<close>

lemma name_colon_ahead_runs: "(\<And>x. Q x c) \<Longrightarrow> runs T b c name_colon_ahead Q"
  unfolding name_colon_ahead_def by (intro runs_rules) auto

lemma paren_item_runs: "consumes T (Suc L) (paren_item r)"
  unfolding paren_item_def
  by (rule consumesI, intro runs_rules name_colon_ahead_runs sub_rules) auto

lemma paren_type_runs:
  "Suc L \<le> c \<Longrightarrow> b \<le> c \<Longrightarrow> (\<And>x c'. c < c' \<Longrightarrow> Q x c') \<Longrightarrow> runs T b c (paren_type r) Q"
  unfolding paren_type_def
  by (intro runs_rules sub_rules runs_consumes [OF paren_item_runs]) auto

lemma tuple_type_runs:
  "Suc L \<le> c \<Longrightarrow> b \<le> c \<Longrightarrow> (\<And>x c'. c < c' \<Longrightarrow> Q x c') \<Longrightarrow> runs T b c (tuple_type r) Q"
  unfolding tuple_type_def
  by (intro runs_rules sub_rules) auto

lemma object_props_runs:
  "Suc L \<le> c \<Longrightarrow> b \<le> c \<Longrightarrow> (\<And>x c'. c < c' \<Longrightarrow> Q x c') \<Longrightarrow> runs T b c (object_props r) Q"
  unfolding object_props_def
  by (intro runs_ploop runs_rules sub_rules) auto

lemma object_type_runs:
  "Suc L \<le> c \<Longrightarrow> b \<le> c \<Longrightarrow> (\<And>x c'. c < c' \<Longrightarrow> Q x c') \<Longrightarrow> runs T b c (object_type r) Q"
  unfolding object_type_def
  by (intro object_props_runs runs_rules sub_rules) auto

lemma named_type_runs:
  "L \<le> c \<Longrightarrow> b \<le> c \<Longrightarrow> (\<And>x c'. c < c' \<Longrightarrow> Q x c') \<Longrightarrow> runs T b c (named_type r) Q"
  unfolding named_type_def
  by (intro runs_rules sub_rules) auto

lemma primary_type_tail_runs:
  "L \<le> c \<Longrightarrow> b \<le> c \<Longrightarrow> (\<And>x c'. c < c' \<Longrightarrow> Q x c') \<Longrightarrow> runs T b c (primary_type_tail r) Q"
  unfolding primary_type_tail_def
  by (intro runs_rules named_type_runs) auto

lemma parse_primary_type_runs: "consumes T L (parse_primary_type r)"
  unfolding parse_primary_type_def
  by (rule consumesI, intro runs_rules runs_advance_next paren_type_runs tuple_type_runs
        object_type_runs primary_type_tail_runs) auto

lemma parse_postfix_type_runs: "consumes T L (parse_postfix_type r)"
  unfolding parse_postfix_type_def
  by (rule consumesI, intro runs_bind runs_consumes [OF parse_primary_type_runs] runs_ploop runs_rules) auto

lemma separated_types_runs:
  assumes "consumes T L p"
  shows "consumes T L (separated_types sep mk p)"
  unfolding separated_types_def
  by (rule consumesI, intro runs_bind runs_consumes [OF assms] runs_ploop runs_rules)
     (auto intro: runs_return)

lemma parse_type_runs: "consumes T L (parse_type r)"
  unfolding parse_type_def parse_union_type_def parse_intersection_type_def
  by (intro separated_types_runs parse_postfix_type_runs)

section \<open>Expressions\<close>

lemma parse_fn_param_runs: "consumes T L (parse_fn_param r)"
  unfolding parse_fn_param_def
  by (rule consumesI, intro runs_rules sub_rules) auto

lemma arrow_body_runs:
  "Suc L \<le> c \<Longrightarrow> b \<le> c \<Longrightarrow> (\<And>x c'. c < c' \<Longrightarrow> Q x c') \<Longrightarrow> runs T b c (arrow_body r tok) Q"
  unfolding arrow_body_def by (intro runs_rules sub_rules) auto

lemma braced_body_runs:
  "L \<le> c \<Longrightarrow> b \<le> c \<Longrightarrow> (\<And>x c'. c < c' \<Longrightarrow> Q x c') \<Longrightarrow> runs T b c (braced_body r m1 m2) Q"
  unfolding braced_body_def by (intro runs_rules sub_rules) auto

lemma function_modifiers_runs:
  "(\<And>x c'. c \<le> c' \<Longrightarrow> Q x c') \<Longrightarrow> runs T b c function_modifiers Q"
  unfolding function_modifiers_def by (intro runs_rules runs_advance) (auto intro: runs_return)

lemma function_literal_runs:
  "Suc L \<le> c \<Longrightarrow> b \<le> c \<Longrightarrow> (\<And>x c'. c < c' \<Longrightarrow> Q x c') \<Longrightarrow> runs T b c (function_literal r is_async is_sync) Q"
  unfolding function_literal_def
  by (intro runs_rules runs_previous arrow_body_runs braced_body_runs sub_rules
        runs_consumes [OF parse_fn_param_runs]) auto

lemma key_values_until_runs:
  "consumes T 0 key_p \<Longrightarrow> Suc L \<le> c \<Longrightarrow> b \<le> c \<Longrightarrow> (\<And>x c'. c \<le> c' \<Longrightarrow> Q x c') \<Longrightarrow>
     runs T b c (key_values_until r key_p) Q"
  unfolding key_values_until_def
  by (intro runs_rules runs_ploop sub_rules runs_consumes [where L = 0]) auto

lemma single_arrow_runs:
  "Suc L \<le> c \<Longrightarrow> b \<le> c \<Longrightarrow> (\<And>x c'. c < c' \<Longrightarrow> Q x c') \<Longrightarrow> runs T b c (single_arrow r name is_async) Q"
  unfolding single_arrow_def by (intro runs_rules runs_previous arrow_body_runs) auto

lemma next_is_prop_runs: "(\<And>x. Q x c) \<Longrightarrow> runs T b c next_is_prop Q"
  unfolding next_is_prop_def by (intro runs_rules) auto

lemma identifier_expr_runs:
  "L \<le> c \<Longrightarrow> b \<le> c \<Longrightarrow> (\<And>x c'. c < c' \<Longrightarrow> Q x c') \<Longrightarrow> runs T b c (identifier_expr r is_async) Q"
  unfolding identifier_expr_def
  by (intro runs_rules single_arrow_runs next_is_prop_runs key_values_until_runs consumes_keys) auto

text \<open>An error that is caught leaves the position where it happened.\<close>

lemma try_type_runs:
  assumes "Suc L \<le> c" and "b \<le> c" and "\<And>x c'. c \<le> c' \<Longrightarrow> Q x c'"
  shows "runs T b c (try_type r) Q"
proof (rule runsI)
  fix s assume s: "at_pos T c s"
  have "runs T c c (r_parse_type r) (\<lambda>_ c'. c < c')" using assms(1) by (intro sub_rules) auto
  from runsD [OF this s] show "ends_well T b Q (try_type r s)"
    using assms(2,3) by (cases "r_parse_type r s") (auto simp: try_type_def)
qed

lemma arrow_tail_runs:
  "L \<le> c \<Longrightarrow> b \<le> c \<Longrightarrow> (\<And>x c'. c \<le> c' \<Longrightarrow> Q x c') \<Longrightarrow> runs T b c (arrow_tail r) Q"
  unfolding arrow_tail_def by (intro runs_rules try_type_runs) auto

lemma try_params_runs:
  assumes "L \<le> c" and "b \<le> c" and "\<And>x c'. c \<le> c' \<Longrightarrow> Q x c'"
  shows "runs T b c (try_params r) Q"
  unfolding try_params_def
proof (rule runs_ploop)
  fix a :: "fn_param list \<times> bool" and d assume d: "c \<le> d"
  obtain ps v where a: "a = (ps, v)" by (cases a)
  let ?go = "\<lambda>(a', go) d'. if go then d < d' else Q a' d'"
  have p: "runs T d d (parse_fn_param r) (\<lambda>p d'. runs T b d'
      (pbind (match_token [T_Comma]) (\<lambda>m. preturn ((ps @ [p], v), m))) ?go)"
    using assms d by (intro runs_rules runs_consumes [OF parse_fn_param_runs]) auto
  show "runs T b d ((\<lambda>(params, valid) s.
         case parse_fn_param r s of
           POk p s' \<Rightarrow> pbind (match_token [T_Comma]) (\<lambda>m. preturn ((params @ [p], valid), m)) s'
         | PErr _ s' \<Rightarrow> POk ((params, False), False) s'
         | PPanic \<Rightarrow> PPanic | PFuel \<Rightarrow> PFuel) a) ?go"
  proof (rule runsI)
    fix s assume s: "at_pos T d s"
    show "ends_well T b ?go ((\<lambda>(params, valid) s.
         case parse_fn_param r s of
           POk p s' \<Rightarrow> pbind (match_token [T_Comma]) (\<lambda>m. preturn ((params @ [p], valid), m)) s'
         | PErr _ s' \<Rightarrow> POk ((params, False), False) s'
         | PPanic \<Rightarrow> PPanic | PFuel \<Rightarrow> PFuel) a s)"
    proof (cases "parse_fn_param r s")
      case (POk p s')
      then have at: "at_pos T (ps_current s') s'"
        and q: "runs T b (ps_current s') (pbind (match_token [T_Comma]) (\<lambda>m. preturn ((ps @ [p], v), m))) ?go"
        using runsD [OF p s] s by (simp_all add: at_pos_def)
      show ?thesis using runsD [OF q at] POk a by simp
    qed (use runsD [OF p s] a d assms in auto)
  qed
qed

lemma arrow_head_runs:
  "L \<le> c \<Longrightarrow> b \<le> c \<Longrightarrow> (\<And>x c'. c \<le> c' \<Longrightarrow> Q x c') \<Longrightarrow> runs T b c (arrow_head r) Q"
  unfolding arrow_head_def by (intro runs_rules arrow_tail_runs try_params_runs) auto

lemma arrow_function_runs:
  "Suc L \<le> c \<Longrightarrow> b \<le> c \<Longrightarrow> (\<And>x c'. c < c' \<Longrightarrow> Q x c') \<Longrightarrow>
     runs T b c (arrow_function r declared params rt is_async) Q"
  unfolding arrow_function_def by (intro runs_rules runs_previous arrow_body_runs) auto

text \<open>A parenthesis: the position is put back when the head of an arrow function was not one.\<close>

lemma runs_save: "Q c c \<Longrightarrow> runs T b c (pget ps_current) Q"
  by (rule runs_pget) (simp add: at_pos_def)

lemma runs_restore: "d \<le> c \<Longrightarrow> Q () d \<Longrightarrow> runs T b c (pmodify (\<lambda>s. s\<lparr>ps_current := d\<rparr>)) Q"
  by (rule runs_pmodify) (auto simp: at_pos_def)

lemma paren_expr_runs:
  "Suc L \<le> c \<Longrightarrow> b \<le> c \<Longrightarrow> (\<And>x c'. c < c' \<Longrightarrow> Q x c') \<Longrightarrow> runs T b c (paren_expr r is_async) Q"
  unfolding paren_expr_def
  by (intro runs_save runs_restore runs_rules arrow_head_runs arrow_function_runs sub_rules) auto

lemma async_before_runs:
  "(\<And>x c'. c \<le> c' \<Longrightarrow> Q x c') \<Longrightarrow> runs T b c (async_before ahead) Q"
  unfolding async_before_def by (intro runs_rules runs_advance_next) auto

lemma bracket_expr_runs:
  "Suc L \<le> c \<Longrightarrow> b \<le> c \<Longrightarrow> (\<And>x c'. c < c' \<Longrightarrow> Q x c') \<Longrightarrow> runs T b c (bracket_expr r) Q"
  unfolding bracket_expr_def by (intro runs_rules sub_rules) auto

lemma brace_expr_runs:
  "Suc L \<le> c \<Longrightarrow> b \<le> c \<Longrightarrow> (\<And>x c'. c < c' \<Longrightarrow> Q x c') \<Longrightarrow> runs T b c (brace_expr r) Q"
  unfolding brace_expr_def by (intro runs_rules key_values_until_runs consumes_keys) auto

lemma primary_tail_runs:
  "L \<le> c \<Longrightarrow> b \<le> c \<Longrightarrow> (\<And>x c'. c < c' \<Longrightarrow> Q x c') \<Longrightarrow> runs T b c (primary_tail r) Q"
  unfolding primary_tail_def
  by (intro runs_rules async_before_runs identifier_expr_runs paren_expr_runs bracket_expr_runs
        brace_expr_runs) auto

lemma primary_runs: "consumes T L (primary r)"
  unfolding primary_def
  by (rule consumesI, intro runs_rules function_modifiers_runs function_literal_runs runs_advance_next
        primary_tail_runs) auto

section \<open>Operators\<close>

lemma call_step_runs:
  "Suc L \<le> c \<Longrightarrow> b \<le> c \<Longrightarrow> (\<And>x go c'. (if go then c < c' else c \<le> c') \<Longrightarrow> Q (x, go) c') \<Longrightarrow>
     runs T b c (call_step r is_new st) Q"
  unfolding call_step_def by (intro runs_rules runs_previous sub_rules) auto

lemma call_runs: "consumes T L (call r)"
  unfolding call_def
  by (rule consumesI, intro runs_bind runs_consumes [OF primary_runs] runs_ploop call_step_runs runs_rules)
     (auto intro: runs_return)

lemma unary_runs: "consumes T L (unary r)"
  unfolding unary_def
  by (rule consumesI, intro runs_rules runs_previous sub_rules runs_consumes [OF call_runs]) auto

lemma binary_level_runs:
  assumes "consumes T L sub"
  shows "consumes T L (binary_level ops mk sub)"
  unfolding binary_level_def
  by (rule consumesI, intro runs_bind runs_consumes [OF assms] runs_ploop runs_rules runs_previous) auto

lemma type_cast_runs:
  assumes "consumes T L (shift r)"
  shows "consumes T L (type_cast r)"
  unfolding type_cast_def
  by (rule consumesI, intro runs_bind runs_consumes [OF assms] runs_ploop runs_rules runs_previous sub_rules) auto

lemma or_expr_runs: "consumes T L (or_expr r)"
  unfolding or_expr_def and_expr_def bitwise_or_def bitwise_xor_def bitwise_and_def equality_def
    comparison_def
  by (intro binary_level_runs type_cast_runs)
     (auto simp: shift_def term_expr_def factor_def intro!: binary_level_runs unary_runs)

lemma ternary_runs: "consumes T L (ternary r)"
  unfolding ternary_def
  by (rule consumesI, intro runs_rules runs_consumes [OF or_expr_runs] sub_rules) auto

lemma assignment_runs: "consumes T L (assignment r)"
  unfolding assignment_def
  by (rule consumesI, intro runs_rules runs_previous runs_consumes [OF ternary_runs] sub_rules) auto

lemma expression_runs: "consumes T L (expression r)"
  unfolding expression_def by (rule assignment_runs)

section \<open>Statements\<close>

lemma print_stmt_runs:
  "Suc L \<le> c \<Longrightarrow> b \<le> c \<Longrightarrow> (\<And>x c'. c < c' \<Longrightarrow> Q x c') \<Longrightarrow> runs T b c (print_stmt r) Q"
  unfolding print_stmt_def by (intro runs_rules runs_consumes [OF expression_runs] ) auto

lemma block_stmt_runs:
  "Suc L \<le> c \<Longrightarrow> b \<le> c \<Longrightarrow> (\<And>x c'. c < c' \<Longrightarrow> Q x c') \<Longrightarrow> runs T b c (block_stmt r) Q"
  unfolding block_stmt_def by (intro runs_rules sub_rules) auto

lemma if_stmt_runs:
  "Suc L \<le> c \<Longrightarrow> b \<le> c \<Longrightarrow> (\<And>x c'. c < c' \<Longrightarrow> Q x c') \<Longrightarrow> runs T b c (if_stmt r) Q"
  unfolding if_stmt_def by (intro runs_rules sub_rules runs_consumes [OF expression_runs] ) auto

lemma opt_paren_expr_runs:
  "Suc L \<le> c \<Longrightarrow> b \<le> c \<Longrightarrow> (\<And>x c'. c < c' \<Longrightarrow> Q x c') \<Longrightarrow> runs T b c (opt_paren_expr r msg) Q"
  unfolding opt_paren_expr_def by (intro runs_rules runs_consumes [OF expression_runs] ) auto

lemma while_stmt_runs:
  "Suc L \<le> c \<Longrightarrow> b \<le> c \<Longrightarrow> (\<And>x c'. c < c' \<Longrightarrow> Q x c') \<Longrightarrow> runs T b c (while_stmt r) Q"
  unfolding while_stmt_def by (intro runs_rules opt_paren_expr_runs sub_rules) auto

lemma catch_clause_runs:
  "Suc L \<le> c \<Longrightarrow> b \<le> c \<Longrightarrow> (\<And>x c'. c < c' \<Longrightarrow> Q x c') \<Longrightarrow> runs T b c (catch_clause r) Q"
  unfolding catch_clause_def by (intro runs_rules sub_rules) auto

lemma try_stmt_runs:
  "Suc L \<le> c \<Longrightarrow> b \<le> c \<Longrightarrow> (\<And>x c'. c < c' \<Longrightarrow> Q x c') \<Longrightarrow> runs T b c (try_stmt r) Q"
  unfolding try_stmt_def by (intro runs_rules catch_clause_runs sub_rules) auto

lemma case_body_stmt_runs:
  "Suc L \<le> c \<Longrightarrow> b \<le> c \<Longrightarrow> (\<And>x c'. c \<le> c' \<Longrightarrow> Q x c') \<Longrightarrow> runs T b c (case_body_stmt r) Q"
  unfolding case_body_stmt_def by (intro runs_rules sub_rules) auto

lemma switch_step_runs:
  "Suc L \<le> c \<Longrightarrow> b \<le> c \<Longrightarrow> (\<And>x go c'. (if go then c < c' else c \<le> c') \<Longrightarrow> Q (x, go) c') \<Longrightarrow>
     runs T b c (switch_step r st) Q"
  unfolding switch_step_def by (intro runs_rules case_body_stmt_runs sub_rules) auto

lemma switch_stmt_runs:
  "Suc L \<le> c \<Longrightarrow> b \<le> c \<Longrightarrow> (\<And>x c'. c < c' \<Longrightarrow> Q x c') \<Longrightarrow> runs T b c (switch_stmt r) Q"
  unfolding switch_stmt_def
  by (intro runs_ploop switch_step_runs opt_paren_expr_runs runs_rules) (auto intro!: runs_rules)

lemma match_arm_runs:
  "L \<le> c \<Longrightarrow> b \<le> c \<Longrightarrow> (\<And>x c'. c < c' \<Longrightarrow> Q x c') \<Longrightarrow> runs T b c (match_arm r msg) Q"
  unfolding match_arm_def by (intro runs_rules sub_rules) auto

lemma match_step_runs:
  "Suc L \<le> c \<Longrightarrow> b \<le> c \<Longrightarrow> (\<And>x go c'. (if go then c < c' else c \<le> c') \<Longrightarrow> Q (x, go) c') \<Longrightarrow>
     runs T b c (match_step r st) Q"
  unfolding match_step_def by (intro runs_rules match_arm_runs sub_rules) auto

lemma match_stmt_runs:
  "Suc L \<le> c \<Longrightarrow> b \<le> c \<Longrightarrow> (\<And>x c'. c < c' \<Longrightarrow> Q x c') \<Longrightarrow> runs T b c (match_stmt r) Q"
  unfolding match_stmt_def
  by (intro runs_ploop match_step_runs opt_paren_expr_runs runs_rules) (auto intro!: runs_rules)

lemma loop_body_runs:
  "Suc L \<le> c \<Longrightarrow> b \<le> c \<Longrightarrow> (\<And>x c'. c < c' \<Longrightarrow> Q x c') \<Longrightarrow> runs T b c (loop_body r var) Q"
  unfolding loop_body_def by (intro runs_rules sub_rules) auto

lemma close_paren_if_runs:
  "b \<le> c \<Longrightarrow> (\<And>c'. c \<le> c' \<Longrightarrow> Q () c') \<Longrightarrow> runs T b c (close_paren_if has_paren msg) Q"
  unfolding close_paren_if_def by (intro runs_rules) auto

lemma for_stmt_runs:
  "Suc L \<le> c \<Longrightarrow> b \<le> c \<Longrightarrow> (\<And>x c'. c < c' \<Longrightarrow> Q x c') \<Longrightarrow> runs T b c (for_stmt r) Q"
  unfolding for_stmt_def by (intro runs_rules close_paren_if_runs loop_body_runs runs_consumes [OF expression_runs] ) auto

lemma return_stmt_runs:
  "Suc L \<le> c \<Longrightarrow> b \<le> c \<Longrightarrow> (\<And>x c'. c \<le> c' \<Longrightarrow> Q x c') \<Longrightarrow> runs T b c (return_stmt r) Q"
  unfolding return_stmt_def by (intro runs_rules runs_previous runs_consumes [OF expression_runs]) auto

lemma statement_runs: "consumes T L (statement r)"
  unfolding statement_def
  by (rule consumesI, intro runs_rules print_stmt_runs block_stmt_runs if_stmt_runs while_stmt_runs
        try_stmt_runs switch_stmt_runs match_stmt_runs for_stmt_runs return_stmt_runs sub_rules
        runs_consumes [OF expression_runs]) auto

section \<open>Declarations\<close>

lemma import_path_runs:
  "b \<le> c \<Longrightarrow> (\<And>x c'. c < c' \<Longrightarrow> Q x c') \<Longrightarrow> runs T b c (import_path msg) Q"
  unfolding import_path_def by (intro runs_rules runs_advance_next) auto

lemma import_decl_runs:
  "b \<le> c \<Longrightarrow> (\<And>x c'. c < c' \<Longrightarrow> Q x c') \<Longrightarrow> runs T b c import_decl Q"
  unfolding import_decl_def by (intro runs_rules import_path_runs) auto

lemma method_params_runs:
  "L \<le> c \<Longrightarrow> b \<le> c \<Longrightarrow> (\<And>x c'. c < c' \<Longrightarrow> Q x c') \<Longrightarrow> runs T b c (method_params r) Q"
  unfolding method_params_def by (intro runs_rules runs_consumes [OF parse_fn_param_runs]) auto

lemma field_decl_runs:
  "b \<le> c \<Longrightarrow> (\<And>x c'. c < c' \<Longrightarrow> Q x c') \<Longrightarrow> runs T b c field_decl Q"
  unfolding field_decl_def by (intro runs_rules) auto

lemma member_end_runs: "(\<And>x c'. c \<le> c' \<Longrightarrow> Q x c') \<Longrightarrow> runs T b c member_end Q"
  unfolding member_end_def by (intro runs_rules) auto

lemma struct_method_runs:
  "L \<le> c \<Longrightarrow> b \<le> c \<Longrightarrow> (\<And>x c'. c < c' \<Longrightarrow> Q x c') \<Longrightarrow> runs T b c (struct_method r) Q"
  unfolding struct_method_def by (intro runs_rules method_params_runs braced_body_runs) auto

lemma struct_decl_runs:
  "L \<le> c \<Longrightarrow> b \<le> c \<Longrightarrow> (\<And>x c'. c < c' \<Longrightarrow> Q x c') \<Longrightarrow> runs T b c (struct_decl r) Q"
  unfolding struct_decl_def by (intro runs_rules runs_ploop struct_method_runs field_decl_runs member_end_runs)
    (auto intro!: runs_rules)

lemma interface_decl_runs:
  "L \<le> c \<Longrightarrow> b \<le> c \<Longrightarrow> (\<And>x c'. c < c' \<Longrightarrow> Q x c') \<Longrightarrow> runs T b c (interface_decl r) Q"
  unfolding interface_decl_def by (intro runs_rules runs_ploop method_params_runs field_decl_runs member_end_runs)
    (auto intro!: runs_rules)

lemma type_decl_runs:
  "L \<le> c \<Longrightarrow> b \<le> c \<Longrightarrow> (\<And>x c'. c < c' \<Longrightarrow> Q x c') \<Longrightarrow> runs T b c (type_decl r) Q"
  unfolding type_decl_def by (intro runs_rules sub_rules) auto

lemma enum_value_runs:
  "b \<le> c \<Longrightarrow> (\<And>x c'. c < c' \<Longrightarrow> Q x c') \<Longrightarrow> runs T b c enum_value Q"
  unfolding enum_value_def by (intro runs_rules runs_advance_next) (auto split: token_type.splits intro!: runs_rules runs_advance_next)

lemma enum_decl_runs:
  "L \<le> c \<Longrightarrow> b \<le> c \<Longrightarrow> (\<And>x c'. c < c' \<Longrightarrow> Q x c') \<Longrightarrow> runs T b c (enum_decl r) Q"
  unfolding enum_decl_def by (intro runs_rules enum_value_runs) auto

lemma let_decl_runs:
  "Suc L \<le> c \<Longrightarrow> b \<le> c \<Longrightarrow> (\<And>x c'. c < c' \<Longrightarrow> Q x c') \<Longrightarrow> runs T b c (let_decl r) Q"
  unfolding let_decl_def by (intro runs_rules runs_previous sub_rules runs_consumes [OF expression_runs] ) auto

lemma at_function_runs: "(\<And>x. Q x c) \<Longrightarrow> runs T b c at_function Q"
  unfolding at_function_def by (intro runs_rules) auto

lemma decl_modifiers_runs:
  "b \<le> c \<Longrightarrow> (\<And>x c'. c \<le> c' \<Longrightarrow> Q x c') \<Longrightarrow> runs T b c decl_modifiers Q"
  unfolding decl_modifiers_def by (intro runs_rules) (auto intro: runs_return)

lemma function_decl_runs:
  "L \<le> c \<Longrightarrow> b \<le> c \<Longrightarrow> (\<And>x c'. c < c' \<Longrightarrow> Q x c') \<Longrightarrow> runs T b c (function_decl r) Q"
  unfolding function_decl_def by (intro runs_rules decl_modifiers_runs runs_consumes [OF parse_fn_param_runs] arrow_body_runs braced_body_runs sub_rules) auto

lemma assign_or_declare_runs:
  "L \<le> c \<Longrightarrow> b \<le> c \<Longrightarrow> (\<And>x c'. c < c' \<Longrightarrow> Q x c') \<Longrightarrow> runs T b c (assign_or_declare r) Q"
  unfolding assign_or_declare_def by (intro runs_rules runs_advance runs_consumes [OF expression_runs] )
    (auto intro!: runs_rules runs_consumes [OF expression_runs])

lemma assignment_ahead_runs: "(\<And>x. Q x c) \<Longrightarrow> runs T b c assignment_ahead Q"
  unfolding assignment_ahead_def by (intro runs_rules) auto

lemma declaration_stmt_runs: "consumes T L (declaration_stmt r)"
  unfolding declaration_stmt_def
  by (rule consumesI, intro runs_rules import_decl_runs struct_decl_runs interface_decl_runs type_decl_runs
        enum_decl_runs let_decl_runs at_function_runs function_decl_runs assignment_ahead_runs
        assign_or_declare_runs runs_consumes [OF statement_runs] sub_rules) auto

end

section \<open>Tying the knot\<close>

lemma parsers_sub_parsers: "sub_parsers T (length T - n) (parsers n)"
proof (induction n)
  case 0
  show ?case by unfold_locales (auto simp: consumes_def runs_def at_pos_def)
next
  case (Suc n)
  have mono: "consumes T (Suc (length T - Suc n)) p" if "consumes T (length T - n) p" for p :: "'a P"
    using that by (rule consumes_mono) simp
  show ?case
    by unfold_locales
      (simp_all add: mono sub_parsers.parse_type_runs [OF Suc] sub_parsers.expression_runs [OF Suc]
        sub_parsers.assignment_runs [OF Suc] sub_parsers.ternary_runs [OF Suc] sub_parsers.unary_runs [OF Suc]
        sub_parsers.statement_runs [OF Suc] sub_parsers.declaration_stmt_runs [OF Suc])
qed

interpretation prs: sub_parsers T "length T - n" "parsers n" for T n
  by (rule parsers_sub_parsers)

text \<open>The whole parser, from the start of the tokens: it stops at an end-of-file token.\<close>

lemma parse_runs:
  "runs T 0 0 parse (\<lambda>_ c. tok_ty (T ! c) = T_Eof)"
proof (rule runsI)
  fix s assume s: "at_pos T 0 s"
  have d: "consumes T 0 (r_declaration (parsers (Suc (length T))))"
    using prs.declaration_stmt_runs [of T "length T"] by simp
  have "runs T 0 0 (until [] (r_declaration (parsers (Suc (length T))))) (\<lambda>_ c. tok_ty (T ! c) = T_Eof)"
    by (rule runs_until_end, rule runs_consumes [OF d]) auto
  then show "ends_well T 0 (\<lambda>_ c. tok_ty (T ! c) = T_Eof) (parse s)"
    using s by (auto simp: parse_def at_pos_def dest: runsD)
qed

end
