(* ===== verification/Parser_Steps.thy ===== *)
theory Parser_Steps
  imports Parser_Safe
begin

text \<open>
  Running the parser forward on known tokens. \<open>rest s\<close> are the tokens still to be read and
  \<open>move k s\<close> the state \<open>k\<close> tokens further; each primitive is evaluated by the first tokens of
  \<open>rest s\<close>, and a loop unrolls when its rounds consume tokens.
\<close>

definition rest :: "parser \<Rightarrow> token list" where
  "rest s = drop (ps_current s) (ps_tokens s)"

definition move :: "nat \<Rightarrow> parser \<Rightarrow> parser" where
  "move k s = s\<lparr>ps_current := ps_current s + k\<rparr>"

lemma move_simps [simp]:
  "ps_tokens (move k s) = ps_tokens s" "ps_current (move k s) = ps_current s + k"
  "ps_file (move k s) = ps_file s" "ps_scopes (move k s) = ps_scopes s"
  "move 0 s = s" "move j (move k s) = move (k + j) s"
  by (simp_all add: move_def add.assoc)

lemma rest_move [simp]: "rest (move k s) = drop k (rest s)"
  by (simp add: rest_def add.commute)

lemma move_back: "(move k s)\<lparr>ps_current := ps_current s\<rparr> = s"
  by (simp add: move_def)

lemma rest_Cons:
  assumes "rest s = t # ts"
  shows "ps_current s < length (ps_tokens s)" and "ps_tokens s ! ps_current s = t"
proof -
  have "drop (ps_current s) (ps_tokens s) \<noteq> []" using assms by (simp add: rest_def)
  then show l: "ps_current s < length (ps_tokens s)" by simp
  show "ps_tokens s ! ps_current s = t"
    using assms Cons_nth_drop_Suc [OF l] by (simp add: rest_def)
qed

lemma pbind_ok: "p s = POk x s' \<Longrightarrow> pbind p f s = f x s'"
  by (simp add: pbind_def)

lemma preturn_ok [simp]: "preturn x s = POk x s"
  by (simp add: preturn_def)

lemma peek_ok: "rest s = t # ts \<Longrightarrow> peek s = POk t s"
  using rest_Cons by (simp add: peek_def)

lemma is_at_end_ok: "rest s = t # ts \<Longrightarrow> is_at_end s = POk (tok_ty t = T_Eof) s"
  by (simp add: is_at_end_def pbind_ok [OF peek_ok])

lemma check_ok: "rest s = t # ts \<Longrightarrow> check ty s = POk (tok_ty t \<noteq> T_Eof \<and> tok_ty t = ty) s"
  by (simp add: check_def pbind_ok [OF is_at_end_ok] pbind_ok [OF peek_ok])

lemma previous_ok: "rest s = t # ts \<Longrightarrow> previous (move (Suc 0) s) = POk t (move (Suc 0) s)"
  using rest_Cons [of s t ts] by (simp add: previous_def)

lemma pmodify_move: "pmodify (\<lambda>s. s\<lparr>ps_current := Suc (ps_current s)\<rparr>) s = POk () (move (Suc 0) s)"
  by (simp add: pmodify_def move_def)

lemma advance_ok: "rest s = t # ts \<Longrightarrow> tok_ty t \<noteq> T_Eof \<Longrightarrow> advance s = POk t (move (Suc 0) s)"
  using previous_ok [of s t ts]
  by (simp add: advance_def pbind_ok [OF is_at_end_ok] pbind_ok [OF pmodify_move])

lemma match_token_ok:
  "rest s = t # ts \<Longrightarrow> match_token tys s =
     (if tok_ty t \<in> set tys \<and> tok_ty t \<noteq> T_Eof then POk True (move (Suc 0) s) else POk False s)"
  by (induction tys)
     (auto simp: match_token.simps pbind_ok [OF check_ok] pbind_ok [OF advance_ok])

lemma consume_ok:
  "rest s = t # ts \<Longrightarrow> tok_ty t = ty \<Longrightarrow> ty \<noteq> T_Eof \<Longrightarrow> consume ty msg s = POk t (move (Suc 0) s)"
  by (simp add: consume_def pbind_ok [OF check_ok] advance_ok)

lemma token_at_ok: "token_at k s = POk (if k < length (rest s) then Some (tok_ty (rest s ! k)) else None) s"
  by (auto simp: token_at_def pget_def rest_def)

definition ident_like :: "token_type \<Rightarrow> bool" where
  "ident_like ty \<longleftrightarrow> is_identifier ty \<or> ty \<in> set soft_keywords"

lemma not_ident_eof [simp]: "\<not> ident_like T_Eof" "\<not> ident_like T_Async"
  by (simp_all add: ident_like_def is_identifier_def soft_keywords_def)

lemma check_ident_ok:
  "rest s = t # ts \<Longrightarrow> tok_ty t \<noteq> T_Async \<Longrightarrow> check_ident s = POk (ident_like (tok_ty t)) s"
  using not_ident_eof by (auto simp: check_ident_def pbind_ok [OF is_at_end_ok] pbind_ok [OF peek_ok] ident_like_def)

lemma ident_like_name: "ident_like ty \<Longrightarrow> \<exists>name. ident_name ty = Some name"
  by (cases ty) (auto simp: ident_like_def is_identifier_def soft_keywords_def ident_name_def)

lemma consume_ident_ok:
  assumes "rest s = t # ts" and "ident_name (tok_ty t) = Some name" and "ident_like (tok_ty t)"
  shows "consume_ident msg s = POk name (move (Suc 0) s)"
proof -
  have "tok_ty t \<noteq> T_Eof" "tok_ty t \<noteq> T_Async" using assms(3) not_ident_eof by metis+
  then show ?thesis using assms
    by (simp add: consume_ident_def pbind_ok [OF check_ident_ok] pbind_ok [OF advance_ok])
qed

lemma location_of_ok:
  "location_of t s = POk \<lparr>loc_file = ps_file s, loc_line = tok_line t, loc_col = tok_col t\<rparr> s"
  by (simp add: location_of_def pget_def)

lemma optionally_none: "rest s = t # ts \<Longrightarrow> tok_ty t \<noteq> ty \<Longrightarrow> optionally ty p s = POk None s"
  by (simp add: optionally_def pbind_def match_token_ok)

lemma property_name_ok:
  "rest s = t # ts \<Longrightarrow> property_name (tok_ty t) = Some name \<Longrightarrow> consume_property_name s = POk name (move (Suc 0) s)"
  using property_name_not_eof
  by (auto simp: consume_property_name_def pbind_ok [OF peek_ok] pbind_ok [OF advance_ok])

lemma prop_key_ok:
  "rest s = t # ts \<Longrightarrow> tok_ty t = T_String str \<Longrightarrow> consume_prop_key msg s = POk str (move (Suc 0) s)"
  by (simp add: consume_prop_key_def pbind_ok [OF peek_ok] pbind_ok [OF advance_ok])

section \<open>Loops\<close>

lemma ploop_fuel_mono: "ploop_fuel n body a s \<noteq> PFuel \<Longrightarrow> n \<le> m \<Longrightarrow> ploop_fuel m body a s = ploop_fuel n body a s"
proof (induction n arbitrary: m a s)
  case 0
  then show ?case by (simp add: pfuel_def)
next
  case (Suc n)
  then obtain k where m: "m = Suc k" "n \<le> k" by (cases m) auto
  show ?case
  proof (cases "body a s")
    case (POk z s')
    then obtain a' go where z: "z = (a', go)" by (cases z)
    show ?thesis using Suc.prems Suc.IH [of a' s' k] m POk z by (cases go) (simp_all add: pbind_def)
  qed (simp_all add: m pbind_def)
qed

lemma ploop_exit: "body a s = POk (a', False) s' \<Longrightarrow> ploop body a s = POk a' s'"
  by (simp add: ploop_def pbind_def)

lemma ploop_unroll:
  assumes at: "at_pos T c s" and step: "body a s = POk (a', True) s'"
    and run: "\<And>a d. c \<le> d \<Longrightarrow> runs T 0 d (body a) (\<lambda>(a', go) d'. go \<longrightarrow> d < d')"
  shows "ploop body a s = ploop body a' s'"
proof -
  have s': "at_pos T (ps_current s') s'" "c < ps_current s'"
    using runsD [OF run [of c a] at] at step by (simp_all add: at_pos_def)
  have "runs T 0 (ps_current s') (ploop_fuel (length T) body a') (\<lambda>_ _. True)"
    by (rule runs_ploop_fuel [where lo = c])
       (use s'(2) in \<open>auto intro: runs_conseq [OF run order_refl] split: if_splits\<close>)
  then have "ploop_fuel (length T) body a' s' \<noteq> PFuel"
    using runsD [OF _ s'(1)] by force
  then have "ploop_fuel (Suc (length T)) body a' s' = ploop_fuel (length T) body a' s'"
    by (rule ploop_fuel_mono) simp
  then show ?thesis using step at s'(1) by (simp add: ploop_def at_pos_def pbind_def)
qed

end
