(* ===== verification/Parser_Scopes.thy ===== *)
theory Parser_Scopes
  imports Parser_Safe
begin

text \<open>
  Scope discipline of the parser. \<open>bal i j p\<close>: a parser that succeeds from a stack with \<open>i\<close> scopes
  above some base leaves \<open>j\<close> above it. \<open>quiet p\<close>: a parser that leaves the scopes as they are,
  whether it succeeds or fails; type annotations and everything whose errors are caught must be
  quiet. The recursive nonterminals are again the parameters of a locale.
\<close>

section \<open>The judgements\<close>

definition quiet :: "'a P \<Rightarrow> bool" where
  "quiet p \<longleftrightarrow> (\<forall>s. (\<forall>x s'. p s = POk x s' \<longrightarrow> ps_scopes s' = ps_scopes s) \<and>
                   (\<forall>e s'. p s = PErr e s' \<longrightarrow> ps_scopes s' = ps_scopes s))"

definition bal :: "nat \<Rightarrow> nat \<Rightarrow> 'a P \<Rightarrow> bool" where
  "bal i j p \<longleftrightarrow> (\<forall>s m x s'. length (ps_scopes s) = m + i \<longrightarrow> p s = POk x s' \<longrightarrow> length (ps_scopes s') = m + j)"

lemma quietD:
  "quiet p \<Longrightarrow> p s = POk x s' \<Longrightarrow> ps_scopes s' = ps_scopes s"
  "quiet p \<Longrightarrow> p s = PErr e s' \<Longrightarrow> ps_scopes s' = ps_scopes s"
  by (auto simp: quiet_def)

lemma balD: "bal i j p \<Longrightarrow> length (ps_scopes s) = m + i \<Longrightarrow> p s = POk x s' \<Longrightarrow> length (ps_scopes s') = m + j"
  by (auto simp: bal_def)

lemma bal_quiet: "quiet p \<Longrightarrow> bal i i p"
  by (auto simp: bal_def dest: quietD)

lemma bal_level: "bal 0 0 p \<Longrightarrow> bal i i p"
  by (auto simp: bal_def)

section \<open>Combinators\<close>

lemma quiet_return: "quiet (preturn x)"
  by (simp add: quiet_def preturn_def)

lemma quiet_fail: "quiet (pfail e)"
  by (simp add: quiet_def pfail_def)

lemma quiet_fuel: "quiet pfuel"
  by (simp add: quiet_def pfuel_def)

lemma quiet_pget: "quiet (pget f)"
  by (simp add: quiet_def pget_def)

lemma quiet_pmodify: "(\<And>s. ps_scopes (f s) = ps_scopes s) \<Longrightarrow> quiet (pmodify f)"
  by (auto simp: quiet_def pmodify_def)

lemma quiet_bind:
  assumes p: "quiet p" and f: "\<And>x. quiet (f x)"
  shows "quiet (pbind p f)"
  unfolding quiet_def
proof (intro allI)
  fix s
  show "(\<forall>x s'. pbind p f s = POk x s' \<longrightarrow> ps_scopes s' = ps_scopes s) \<and>
        (\<forall>e s'. pbind p f s = PErr e s' \<longrightarrow> ps_scopes s' = ps_scopes s)"
  proof (cases "p s")
    case (POk y t)
    then show ?thesis using quietD(1) [OF p POk] f [of y] by (simp add: pbind_def quiet_def)
  next
    case (PErr e t)
    then show ?thesis using quietD(2) [OF p PErr] by (simp add: pbind_def)
  qed (simp_all add: pbind_def)
qed

lemma quiet_if: "quiet p \<Longrightarrow> quiet q \<Longrightarrow> quiet (if b then p else q)"
  by simp

lemma quiet_pair: "(\<And>x y. quiet (f x y)) \<Longrightarrow> quiet (case z of (x, y) \<Rightarrow> f x y)"
  by (cases z) simp

lemma quiet_option: "quiet p \<Longrightarrow> (\<And>x. quiet (f x)) \<Longrightarrow> quiet (case z of None \<Rightarrow> p | Some x \<Rightarrow> f x)"
  by (cases z) simp_all

lemma quiet_string_case:
  "(\<And>str. quiet (f str)) \<Longrightarrow> quiet p \<Longrightarrow> quiet (case ty of T_String str \<Rightarrow> f str | _ \<Rightarrow> p)"
  by (cases ty) simp_all

lemma quiet_literal_case:
  "(\<And>str. quiet (f str)) \<Longrightarrow> (\<And>n. quiet (g n)) \<Longrightarrow> quiet p \<Longrightarrow>
     quiet (case ty of T_String str \<Rightarrow> f str | T_Number n \<Rightarrow> g n | _ \<Rightarrow> p)"
  by (cases ty) simp_all

lemma quiet_ploop_fuel: "(\<And>a. quiet (body a)) \<Longrightarrow> quiet (ploop_fuel n body a)"
  by (induction n arbitrary: a) (auto intro!: quiet_fuel quiet_bind quiet_pair quiet_if quiet_return)

lemma quiet_ploop: "(\<And>a. quiet (body a)) \<Longrightarrow> quiet (ploop body a)"
  using quietD [OF quiet_ploop_fuel [of body]] unfolding quiet_def ploop_def by blast

lemma bal_return: "bal i i (preturn x)"
  by (intro bal_quiet quiet_return)

lemma bal_fail: "bal i j (pfail e)"
  by (simp add: bal_def pfail_def)

lemma bal_fuel: "bal i j pfuel"
  by (simp add: bal_def pfuel_def)

lemma bal_bind:
  assumes p: "bal i j p" and f: "\<And>x. bal j k (f x)"
  shows "bal i k (pbind p f)"
  unfolding bal_def
proof (intro allI impI)
  fix s m x s' assume l: "length (ps_scopes s) = m + i" and b: "pbind p f s = POk x s'"
  obtain y t where y: "p s = POk y t" "f y t = POk x s'"
    using b by (auto simp: pbind_def split: presult.splits)
  show "length (ps_scopes s') = m + k"
    by (rule balD [OF f balD [OF p l y(1)] y(2)])
qed

lemma bal_if: "bal i j p \<Longrightarrow> bal i j q \<Longrightarrow> bal i j (if b then p else q)"
  by simp

lemma bal_pair: "(\<And>x y. bal i j (f x y)) \<Longrightarrow> bal i j (case z of (x, y) \<Rightarrow> f x y)"
  by (cases z) simp

lemma bal_option: "bal i j p \<Longrightarrow> (\<And>x. bal i j (f x)) \<Longrightarrow> bal i j (case z of None \<Rightarrow> p | Some x \<Rightarrow> f x)"
  by (cases z) simp_all

lemma bal_string_case:
  "(\<And>str. bal i j (f str)) \<Longrightarrow> bal i j p \<Longrightarrow> bal i j (case ty of T_String str \<Rightarrow> f str | _ \<Rightarrow> p)"
  by (cases ty) simp_all

lemma bal_literal_case:
  "(\<And>str. bal i j (f str)) \<Longrightarrow> (\<And>n. bal i j (g n)) \<Longrightarrow> bal i j p \<Longrightarrow>
     bal i j (case ty of T_String str \<Rightarrow> f str | T_Number n \<Rightarrow> g n | _ \<Rightarrow> p)"
  by (cases ty) simp_all

lemma bal_ploop_fuel: "(\<And>a. bal 0 0 (body a)) \<Longrightarrow> bal 0 0 (ploop_fuel n body a)"
  by (induction n arbitrary: a) (auto intro!: bal_fuel bal_bind [of 0 0] bal_pair bal_if bal_return)

lemma bal_ploop: "(\<And>a. bal 0 0 (body a)) \<Longrightarrow> bal i i (ploop body a)"
  by (rule bal_level) (use bal_ploop_fuel [of body] in \<open>simp add: bal_def ploop_def del: ploop_fuel.simps\<close>)

section \<open>Primitives\<close>

lemma quiet_peek: "quiet peek"
  by (simp add: quiet_def peek_def)

lemma quiet_previous: "quiet previous"
  by (simp add: quiet_def previous_def)

lemma quiet_advance: "quiet advance"
  unfolding advance_def is_at_end_def
  by (intro quiet_bind quiet_if quiet_pmodify quiet_peek quiet_previous quiet_return) simp

lemma quiet_check: "quiet (check ty)"
  unfolding check_def is_at_end_def by (intro quiet_bind quiet_if quiet_peek quiet_return)

lemma quiet_token_at: "quiet (token_at k)"
  unfolding token_at_def by (rule quiet_pget)

lemma quiet_check_ident: "quiet check_ident"
  unfolding check_ident_def is_at_end_def is_async_function_or_arrow_def
  by (intro quiet_bind quiet_if quiet_peek quiet_return quiet_token_at)

lemma quiet_match_token: "quiet (match_token tys)"
  by (induction tys)
     (auto simp: match_token.simps intro!: quiet_bind quiet_if quiet_check quiet_advance quiet_return)

lemma quiet_consume: "quiet (consume ty msg)"
  unfolding consume_def by (intro quiet_bind quiet_if quiet_check quiet_advance quiet_peek quiet_fail)

lemma quiet_consume_ident: "quiet (consume_ident msg)"
  unfolding consume_ident_def
  by (intro quiet_bind quiet_if quiet_option quiet_check_ident quiet_advance quiet_peek quiet_fail quiet_return)

lemma quiet_property_name: "quiet consume_property_name"
  unfolding consume_property_name_def
  by (intro quiet_bind quiet_option quiet_advance quiet_peek quiet_fail quiet_return)

lemma quiet_map_err:
  assumes p: "quiet p" and q: "quiet q"
  shows "quiet (\<lambda>s. case p s of PErr _ s' \<Rightarrow> q s' | r \<Rightarrow> r)"
  unfolding quiet_def
proof (intro allI)
  fix s
  show "(\<forall>x s'. (case p s of PErr _ s' \<Rightarrow> q s' | r \<Rightarrow> r) = POk x s' \<longrightarrow> ps_scopes s' = ps_scopes s) \<and>
        (\<forall>e s'. (case p s of PErr _ s' \<Rightarrow> q s' | r \<Rightarrow> r) = PErr e s' \<longrightarrow> ps_scopes s' = ps_scopes s)"
  proof (cases "p s")
    case (POk y t)
    then show ?thesis using quietD(1) [OF p POk] by simp
  next
    case (PErr e t)
    then show ?thesis using quietD(2) [OF p PErr] q by (simp add: quiet_def)
  qed simp_all
qed

lemma quiet_prop_key: "quiet (consume_prop_key msg)"
  unfolding consume_prop_key_def
  by (intro quiet_bind quiet_string_case quiet_map_err quiet_property_name quiet_advance quiet_peek
        quiet_fail quiet_return)

lemma quiet_location_of: "quiet (location_of t)"
  unfolding location_of_def by (rule quiet_pget)

lemma quiet_at_any: "quiet (at_any tys)"
  by (induction tys)
     (auto simp: at_any.simps is_at_end_def intro!: quiet_bind quiet_if quiet_check quiet_peek quiet_return)

lemma quiet_is_declared: "quiet (is_variable_declared name)"
  unfolding is_variable_declared_def by (rule quiet_pget)

lemmas quiet_primitives =
  quiet_peek quiet_previous quiet_advance quiet_check quiet_token_at quiet_check_ident quiet_match_token
  quiet_consume quiet_consume_ident quiet_property_name quiet_prop_key quiet_location_of quiet_at_any
  quiet_is_declared quiet_pget

lemma quiet_comma_separated: "quiet p \<Longrightarrow> quiet (comma_separated p)"
  unfolding comma_separated_def by (intro quiet_ploop quiet_bind quiet_match_token quiet_return)

lemma quiet_comma_list: "quiet p \<Longrightarrow> quiet (comma_list close p)"
  unfolding comma_list_def by (intro quiet_bind quiet_if quiet_check quiet_return quiet_comma_separated)

lemma quiet_optionally: "quiet p \<Longrightarrow> quiet (optionally ty p)"
  unfolding optionally_def by (intro quiet_bind quiet_if quiet_match_token quiet_return)

lemmas quiet_rules =
  quiet_bind quiet_if quiet_pair quiet_option quiet_literal_case quiet_string_case quiet_return quiet_fail
  quiet_primitives quiet_comma_separated quiet_comma_list quiet_optionally quiet_ploop

lemma bal_scope:
  "bal i (Suc i) push_scope"
  "bal (Suc i) i pop_scope"
  "bal i i (declare_variable name)"
  by (auto simp: bal_def push_scope_def pop_scope_def declare_variable_def pmodify_def split: list.splits)

lemma bal_declare_all: "bal i i (declare_all ns)"
  by (induction ns) (auto intro!: bal_return bal_bind bal_scope)

text \<open>A list of elements adds the accumulator's changes round by round.\<close>

lemmas bal_basic = bal_bind bal_if bal_quiet [OF quiet_match_token] bal_quiet [OF quiet_check]
  bal_quiet [OF quiet_at_any] bal_return

lemma bal_comma_separated: "bal 0 0 p \<Longrightarrow> bal i i (comma_separated p)"
  unfolding comma_separated_def by (rule bal_ploop, (assumption | rule bal_basic)+)

lemma bal_comma_list: "bal 0 0 p \<Longrightarrow> bal i i (comma_list close p)"
  unfolding comma_list_def by (assumption | rule bal_basic bal_comma_separated)+

lemma bal_optionally: "bal 0 0 p \<Longrightarrow> bal i i (optionally ty p)"
  unfolding optionally_def by (rule bal_level) (assumption | rule bal_basic)+

lemma bal_until: "bal 0 0 p \<Longrightarrow> bal i i (until stops p)"
  unfolding until_def by (rule bal_ploop, (assumption | rule bal_basic)+)

section \<open>Types are quiet\<close>

locale sub_scopes =
  fixes r :: nonterminals
  assumes sub_type: "quiet (r_parse_type r)"
    and sub_expression: "bal 0 0 (r_expression r)"
    and sub_assignment: "bal 0 0 (r_assignment r)"
    and sub_ternary: "bal 0 0 (r_ternary r)"
    and sub_unary: "bal 0 0 (r_unary r)"
    and sub_statement: "bal 0 0 (r_statement r)"
    and sub_declaration: "bal 0 0 (r_declaration r)"
begin

lemma name_colon_ahead_quiet: "quiet name_colon_ahead"
  unfolding name_colon_ahead_def by (intro quiet_rules)

lemma paren_item_quiet: "quiet (paren_item r)"
  unfolding paren_item_def by (intro quiet_rules name_colon_ahead_quiet sub_type)

lemma paren_type_quiet: "quiet (paren_type r)"
  unfolding paren_type_def by (intro quiet_rules paren_item_quiet sub_type)

lemma tuple_type_quiet: "quiet (tuple_type r)"
  unfolding tuple_type_def by (intro quiet_rules sub_type)

lemma object_props_quiet: "quiet (object_props r)"
  unfolding object_props_def by (intro quiet_rules sub_type)

lemma object_type_quiet: "quiet (object_type r)"
  unfolding object_type_def by (intro quiet_rules object_props_quiet)

lemma named_type_quiet: "quiet (named_type r)"
  unfolding named_type_def by (intro quiet_rules sub_type)

lemma primary_type_tail_quiet: "quiet (primary_type_tail r)"
  unfolding primary_type_tail_def by (intro quiet_rules named_type_quiet)

lemma parse_primary_type_quiet: "quiet (parse_primary_type r)"
  unfolding parse_primary_type_def by (intro quiet_rules paren_type_quiet tuple_type_quiet object_type_quiet primary_type_tail_quiet)

lemma parse_postfix_type_quiet: "quiet (parse_postfix_type r)"
  unfolding parse_postfix_type_def by (intro quiet_rules parse_primary_type_quiet)

lemma separated_types_quiet: "quiet p \<Longrightarrow> quiet (separated_types sep mk p)"
  unfolding separated_types_def by (intro quiet_rules)

lemma parse_type_quiet: "quiet (parse_type r)"
  unfolding parse_type_def parse_union_type_def parse_intersection_type_def
  by (intro separated_types_quiet parse_postfix_type_quiet)

section \<open>Expressions, statements and declarations are balanced\<close>

lemma parse_fn_param_quiet: "quiet (parse_fn_param r)"
  unfolding parse_fn_param_def by (intro quiet_rules sub_type)

lemmas sub_bal =
  sub_expression sub_assignment sub_ternary sub_unary sub_statement sub_declaration

lemmas sub_level = sub_bal [THEN bal_level]

lemmas bal_rules =
  bal_bind bal_if bal_pair bal_option bal_literal_case bal_string_case bal_return bal_fail
  quiet_primitives [THEN bal_quiet] bal_scope bal_declare_all
  bal_comma_separated bal_comma_list bal_optionally bal_until bal_ploop
  bal_quiet [OF parse_fn_param_quiet] bal_quiet [OF sub_type] sub_level

lemma arrow_body_bal: "bal i i (arrow_body r tok)"
  unfolding arrow_body_def by (rule bal_rules )+

lemma braced_body_bal: "bal i i (braced_body r m1 m2)"
  unfolding braced_body_def by (rule bal_rules )+

lemma function_modifiers_bal: "bal i i (function_modifiers)"
  unfolding function_modifiers_def by (rule bal_rules )+

lemma function_literal_bal: "bal i i (function_literal r is_async is_sync)"
  unfolding function_literal_def by (rule bal_rules arrow_body_bal braced_body_bal)+

lemma key_values_until_bal: "quiet key_p \<Longrightarrow> bal i i (key_values_until r key_p)"
  unfolding key_values_until_def by (rule bal_rules | erule bal_quiet)+

lemma single_arrow_bal: "bal i i (single_arrow r name is_async)"
  unfolding single_arrow_def by (rule bal_rules arrow_body_bal)+

lemma next_is_prop_bal: "bal i i (next_is_prop)"
  unfolding next_is_prop_def by (rule bal_rules )+

lemma identifier_expr_bal: "bal i i (identifier_expr r is_async)"
  unfolding identifier_expr_def by (rule bal_rules single_arrow_bal next_is_prop_bal key_values_until_bal quiet_primitives)+

lemma try_type_quiet: "quiet (try_type r)"
  using sub_type unfolding quiet_def try_type_def by (auto split: presult.splits)

lemma arrow_tail_quiet: "quiet (arrow_tail r)"
  unfolding arrow_tail_def by (intro quiet_rules try_type_quiet)

text \<open>\<open>try_params\<close> catches the errors of parameters, which are quiet.\<close>

lemma try_params_quiet: "quiet (try_params r)"
  unfolding try_params_def
proof (rule quiet_ploop)
  fix a :: "fn_param list \<times> bool"
  obtain ps v where a: "a = (ps, v)" by (cases a)
  have m: "quiet (pbind (match_token [T_Comma]) (\<lambda>m. preturn ((ps @ [p], v), m)))" for p
    by (intro quiet_rules)
  show "quiet ((\<lambda>(params, valid) s.
         case parse_fn_param r s of
           POk p s' \<Rightarrow> pbind (match_token [T_Comma]) (\<lambda>m. preturn ((params @ [p], valid), m)) s'
         | PErr _ s' \<Rightarrow> POk ((params, False), False) s'
         | PPanic \<Rightarrow> PPanic | PFuel \<Rightarrow> PFuel) a)"
    using m parse_fn_param_quiet a unfolding quiet_def by (auto split: presult.splits)
qed

lemma arrow_head_quiet: "quiet (arrow_head r)"
  unfolding arrow_head_def by (intro quiet_rules arrow_tail_quiet try_params_quiet)

lemma arrow_function_bal: "bal i i (arrow_function r declared params rt is_async)"
  unfolding arrow_function_def by (rule bal_rules arrow_body_bal)+

lemma bal_restore: "bal i i (pmodify (\<lambda>s. s\<lparr>ps_current := d\<rparr>))"
  by (intro bal_quiet quiet_pmodify) simp

lemma paren_expr_bal: "bal i i (paren_expr r is_async)"
  unfolding paren_expr_def by (rule bal_rules bal_quiet [OF arrow_head_quiet] arrow_function_bal bal_restore)+

lemma async_before_bal: "bal i i (async_before ahead)"
  unfolding async_before_def by (rule bal_rules )+

lemma bracket_expr_bal: "bal i i (bracket_expr r)"
  unfolding bracket_expr_def by (rule bal_rules )+

lemma brace_expr_bal: "bal i i (brace_expr r)"
  unfolding brace_expr_def by (rule bal_rules key_values_until_bal quiet_primitives)+

lemma primary_tail_bal: "bal i i (primary_tail r)"
  unfolding primary_tail_def by (rule bal_rules async_before_bal identifier_expr_bal paren_expr_bal bracket_expr_bal brace_expr_bal)+

lemma primary_bal: "bal i i (primary r)"
  unfolding primary_def by (rule bal_rules function_modifiers_bal function_literal_bal primary_tail_bal)+

lemma call_step_bal: "bal i i (call_step r is_new st)"
  unfolding call_step_def by (rule bal_rules )+

lemma call_bal: "bal i i (call r)"
  unfolding call_def by (rule bal_rules primary_bal call_step_bal)+

lemma unary_bal: "bal i i (unary r)"
  unfolding unary_def by (rule bal_rules call_bal)+

lemma binary_level_bal: "bal 0 0 sub \<Longrightarrow> bal i i (binary_level ops mk sub)"
  unfolding binary_level_def by (rule bal_rules | erule bal_level)+

lemma factor_bal: "bal i i (factor r)"
  unfolding factor_def by (rule bal_rules binary_level_bal unary_bal)+

lemma term_expr_bal: "bal i i (term_expr r)"
  unfolding term_expr_def by (rule bal_rules binary_level_bal factor_bal)+

lemma shift_bal: "bal i i (shift r)"
  unfolding shift_def by (rule bal_rules binary_level_bal term_expr_bal)+

lemma type_cast_bal: "bal i i (type_cast r)"
  unfolding type_cast_def by (rule bal_rules shift_bal)+

lemma comparison_bal: "bal i i (comparison r)"
  unfolding comparison_def by (rule bal_rules binary_level_bal type_cast_bal)+

lemma equality_bal: "bal i i (equality r)"
  unfolding equality_def by (rule bal_rules binary_level_bal comparison_bal)+

lemma bitwise_and_bal: "bal i i (bitwise_and r)"
  unfolding bitwise_and_def by (rule bal_rules binary_level_bal equality_bal)+

lemma bitwise_xor_bal: "bal i i (bitwise_xor r)"
  unfolding bitwise_xor_def by (rule bal_rules binary_level_bal bitwise_and_bal)+

lemma bitwise_or_bal: "bal i i (bitwise_or r)"
  unfolding bitwise_or_def by (rule bal_rules binary_level_bal bitwise_xor_bal)+

lemma and_expr_bal: "bal i i (and_expr r)"
  unfolding and_expr_def by (rule bal_rules binary_level_bal bitwise_or_bal)+

lemma or_expr_bal: "bal i i (or_expr r)"
  unfolding or_expr_def by (rule bal_rules binary_level_bal and_expr_bal)+

lemma ternary_bal: "bal i i (ternary r)"
  unfolding ternary_def by (rule bal_rules or_expr_bal)+

lemma assignment_bal: "bal i i (assignment r)"
  unfolding assignment_def by (rule bal_rules ternary_bal)+

lemma expression_bal: "bal i i (expression r)"
  unfolding expression_def by (rule bal_rules assignment_bal)+

lemma print_stmt_bal: "bal i i (print_stmt r)"
  unfolding print_stmt_def by (rule bal_rules expression_bal)+

lemma block_stmt_bal: "bal i i (block_stmt r)"
  unfolding block_stmt_def by (rule bal_rules )+

lemma if_stmt_bal: "bal i i (if_stmt r)"
  unfolding if_stmt_def by (rule bal_rules expression_bal)+

lemma opt_paren_expr_bal: "bal i i (opt_paren_expr r msg)"
  unfolding opt_paren_expr_def by (rule bal_rules expression_bal)+

lemma while_stmt_bal: "bal i i (while_stmt r)"
  unfolding while_stmt_def by (rule bal_rules opt_paren_expr_bal)+

lemma catch_clause_bal: "bal i i (catch_clause r)"
  unfolding catch_clause_def by (rule bal_rules )+

lemma try_stmt_bal: "bal i i (try_stmt r)"
  unfolding try_stmt_def by (rule bal_rules catch_clause_bal)+

lemma case_body_stmt_bal: "bal i i (case_body_stmt r)"
  unfolding case_body_stmt_def by (rule bal_rules )+

lemma switch_step_bal: "bal i i (switch_step r st)"
  unfolding switch_step_def by (rule bal_rules case_body_stmt_bal)+

lemma switch_stmt_bal: "bal i i (switch_stmt r)"
  unfolding switch_stmt_def by (rule bal_rules opt_paren_expr_bal switch_step_bal)+

lemma match_arm_bal: "bal i i (match_arm r msg)"
  unfolding match_arm_def by (rule bal_rules )+

lemma match_step_bal: "bal i i (match_step r st)"
  unfolding match_step_def by (rule bal_rules match_arm_bal)+

lemma match_stmt_bal: "bal i i (match_stmt r)"
  unfolding match_stmt_def by (rule bal_rules opt_paren_expr_bal match_step_bal)+

lemma loop_body_bal: "bal i i (loop_body r var)"
  unfolding loop_body_def by (rule bal_rules )+

lemma close_paren_if_bal: "bal i i (close_paren_if has_paren msg)"
  unfolding close_paren_if_def by (rule bal_rules )+

lemma for_stmt_bal: "bal i i (for_stmt r)"
  unfolding for_stmt_def by (rule bal_rules expression_bal close_paren_if_bal loop_body_bal)+

lemma return_stmt_bal: "bal i i (return_stmt r)"
  unfolding return_stmt_def by (rule bal_rules expression_bal)+

lemma statement_bal: "bal i i (statement r)"
  unfolding statement_def by (rule bal_rules expression_bal print_stmt_bal block_stmt_bal if_stmt_bal while_stmt_bal
    try_stmt_bal switch_stmt_bal match_stmt_bal for_stmt_bal return_stmt_bal)+

lemma import_path_bal: "bal i i (import_path msg)"
  unfolding import_path_def by (rule bal_rules )+

lemma import_decl_bal: "bal i i (import_decl)"
  unfolding import_decl_def by (rule bal_rules import_path_bal)+

lemma method_params_bal: "bal i i (method_params r)"
  unfolding method_params_def by (rule bal_rules )+

lemma field_decl_bal: "bal i i (field_decl)"
  unfolding field_decl_def by (rule bal_rules )+

lemma member_end_bal: "bal i i (member_end)"
  unfolding member_end_def by (rule bal_rules )+

lemma struct_method_bal: "bal i i (struct_method r)"
  unfolding struct_method_def by (rule bal_rules method_params_bal braced_body_bal)+

lemma struct_decl_bal: "bal i i (struct_decl r)"
  unfolding struct_decl_def by (rule bal_rules struct_method_bal field_decl_bal member_end_bal)+

lemma interface_decl_bal: "bal i i (interface_decl r)"
  unfolding interface_decl_def by (rule bal_rules method_params_bal field_decl_bal member_end_bal)+

lemma type_decl_bal: "bal i i (type_decl r)"
  unfolding type_decl_def by (rule bal_rules )+

lemma enum_value_bal: "bal i i enum_value"
proof -
  have "bal i i (case ty of T_Number n \<Rightarrow> pbind advance (\<lambda>_. preturn (L_Number n))
      | T_String str \<Rightarrow> pbind advance (\<lambda>_. preturn (L_String str)) | _ \<Rightarrow> pfail e)" for ty e
    by (cases ty) (simp_all, (rule bal_rules)+)
  then show ?thesis unfolding enum_value_def by - (assumption | rule bal_rules)+
qed

lemma enum_decl_bal: "bal i i (enum_decl r)"
  unfolding enum_decl_def by (rule bal_rules enum_value_bal)+

lemma let_decl_bal: "bal i i (let_decl r)"
  unfolding let_decl_def by (rule bal_rules expression_bal)+

lemma at_function_bal: "bal i i (at_function)"
  unfolding at_function_def by (rule bal_rules )+

lemma decl_modifiers_bal: "bal i i (decl_modifiers)"
  unfolding decl_modifiers_def by (rule bal_rules )+

lemma function_decl_bal: "bal i i (function_decl r)"
  unfolding function_decl_def by (rule bal_rules decl_modifiers_bal arrow_body_bal braced_body_bal)+

lemma assign_or_declare_bal: "bal i i (assign_or_declare r)"
  unfolding assign_or_declare_def by (rule bal_rules expression_bal)+

lemma assignment_ahead_bal: "bal i i (assignment_ahead)"
  unfolding assignment_ahead_def by (rule bal_rules )+

lemma declaration_stmt_bal: "bal i i (declaration_stmt r)"
  unfolding declaration_stmt_def by (rule bal_rules import_decl_bal struct_decl_bal interface_decl_bal type_decl_bal enum_decl_bal
    let_decl_bal at_function_bal function_decl_bal assignment_ahead_bal assign_or_declare_bal statement_bal)+

end

section \<open>Tying the knot\<close>

lemma parsers_sub_scopes: "sub_scopes (parsers n)"
proof (induction n)
  case 0
  show ?case by unfold_locales (auto intro: quiet_fuel bal_fuel)
next
  case (Suc n)
  show ?case
    by unfold_locales
      (auto simp: sub_scopes.parse_type_quiet [OF Suc] sub_scopes.expression_bal [OF Suc]
        sub_scopes.assignment_bal [OF Suc] sub_scopes.ternary_bal [OF Suc] sub_scopes.unary_bal [OF Suc]
        sub_scopes.statement_bal [OF Suc] sub_scopes.declaration_stmt_bal [OF Suc])
qed

interpretation scs: sub_scopes "parsers n" for n
  by (rule parsers_sub_scopes)

lemma parse_balanced:
  assumes "parse s = POk x s'"
  shows "length (ps_scopes s') = length (ps_scopes s)"
proof -
  have "bal 0 0 (until [] (r_declaration (parsers (Suc (length (ps_tokens s))))))"
    by (intro bal_until scs.sub_declaration)
  from balD [OF this, of s "length (ps_scopes s)"] assms show ?thesis by (simp add: parse_def del: parsers.simps)
qed

end
