(* ===== verification/Frontend.thy ===== *)
theory Frontend
  imports Lexer_Total Parser_Scopes
begin

text \<open>
  The front end as one function from source text to a program: \<^verbatim>\<open>Parser::new(lex(source))\<close>
  followed by \<^verbatim>\<open>parse\<close>, as every caller in the repository composes them.
\<close>

definition parse_source :: "string \<Rightarrow> string \<Rightarrow> stmt list presult option" where
  "parse_source path source = map_option (\<lambda>T. parse (with_file_path path (parser_new T))) (lex source)"

lemma parser_start: "eof_ended T \<Longrightarrow> at_pos T 0 (with_file_path path (parser_new T))"
  by (simp add: at_pos_def parser_new_def with_file_path_def eof_ended_def)

lemma only_eof_is_last:
  assumes "tok_ty ((ts @ [e]) ! c) = T_Eof" and "list_all (\<lambda>t. tok_ty t \<noteq> T_Eof) ts"
    and "c < length (ts @ [e])"
  shows "c = length ts"
  using assms by (cases "c < length ts") (auto simp: nth_append list_all_iff)

text \<open>C3: On any source text the front end returns: lexing gives tokens, and parsing them neither
  indexes past the tokens nor loops. If it accepts, it has consumed every token up to the end-of-file
  token, and the scope stack is back to the global scope alone; if it rejects, the error comes with a
  state whose position is still inside the tokens.\<close>

theorem parse_source_total:
  "\<exists>T r. lex source = Some T \<and> parse_source path source = Some r \<and>
     (case r of
        POk prog s \<Rightarrow> ps_tokens s = T \<and> Suc (ps_current s) = length T \<and> length (ps_scopes s) = 1
      | PErr err s \<Rightarrow> ps_tokens s = T \<and> ps_current s < length T
      | PPanic \<Rightarrow> False
      | PFuel \<Rightarrow> False)"
proof -
  obtain ts e where T: "lex source = Some (ts @ [e])" "tok_ty e = T_Eof" "list_all (\<lambda>t. tok_ty t \<noteq> T_Eof) ts"
    using lex_eof_last by blast
  let ?T = "ts @ [e]" and ?s = "with_file_path path (parser_new (ts @ [e]))"
  have "eof_ended ?T" using T(2) by (simp add: eof_ended_def)
  then have w: "ends_well ?T 0 (\<lambda>_ c. tok_ty (?T ! c) = T_Eof) (parse ?s)"
    by (intro runsD [OF parse_runs] parser_start)
  have "case parse ?s of
        POk prog s \<Rightarrow> ps_tokens s = ?T \<and> Suc (ps_current s) = length ?T \<and> length (ps_scopes s) = 1
      | PErr err s \<Rightarrow> ps_tokens s = ?T \<and> ps_current s < length ?T
      | PPanic \<Rightarrow> False | PFuel \<Rightarrow> False"
  proof (cases "parse ?s")
    case (POk prog s)
    then show ?thesis using w parse_balanced [OF POk] only_eof_is_last [of ts e "ps_current s"] T(3)
      by (simp add: parser_new_def with_file_path_def)
  qed (use w in simp_all)
  then show ?thesis using T(1) by (simp add: parse_source_def)
qed

end
