(* ===== verification/Parser_Print.thy ===== *)
theory Parser_Print
  imports Parser_Steps Frontend
begin

text \<open>
  A reference printer for expressions that writes only the parentheses the precedence table asks for,
  and the grammar facts about what it prints. The next theory proves that the parser reads the printed
  tokens back. Levels count from 0 (assignment) to 14 (calls); 15 are the primary expressions.
\<close>

section \<open>The precedence table\<close>

definition ops :: "nat \<Rightarrow> token_type list" where
  "ops l =
     (if l = 0 then [T_Equal, T_PlusEqual, T_MinusEqual, T_StarEqual, T_SlashEqual, T_PercentEqual]
      else if l = 1 then [T_Question]
      else if l = 2 then [T_Or] else if l = 3 then [T_And] else if l = 4 then [T_Pipe]
      else if l = 5 then [T_Caret] else if l = 6 then [T_Ampersand]
      else if l = 7 then [T_BangEqual, T_EqualEqual]
      else if l = 8 then [T_Greater, T_GreaterEqual, T_Less, T_LessEqual]
      else if l = 9 then [T_As]
      else if l = 10 then [T_LessLess, T_GreaterGreater]
      else if l = 11 then [T_Minus, T_Plus]
      else if l = 12 then [T_Slash, T_Star, T_Percent]
      else if l = 14 then [T_LeftParen, T_Dot, T_LeftBracket, T_PlusPlus, T_MinusMinus]
      else if l = 15 then [T_Arrow, T_Colon, T_LeftBrace]
      else [])"

definition op_table :: "(token_type \<times> nat) list" where
  "op_table = concat (map (\<lambda>l. map (\<lambda>ty. (ty, l)) (ops l)) [0..<16])"

text \<open>The level at which the parser would take a token that follows an expression.\<close>

definition binds :: "token_type \<Rightarrow> nat option" where
  "binds ty = map_of op_table ty"

definition follows :: "nat \<Rightarrow> token_type \<Rightarrow> bool" where
  "follows l ty \<longleftrightarrow> ty \<noteq> T_Eof \<and> (case binds ty of None \<Rightarrow> True | Some k \<Rightarrow> k < l)"

lemma binds_ops: "ty \<in> set (ops l) \<Longrightarrow> binds ty = Some l"
  by (auto simp: ops_def binds_def op_table_def upt_rec split: if_splits)

lemma follows_ops: "follows l ty \<Longrightarrow> l \<le> k \<Longrightarrow> ty \<notin> set (ops k)"
  using binds_ops [of ty k] by (auto simp: follows_def)

lemma follows_mono: "follows l ty \<Longrightarrow> l \<le> k \<Longrightarrow> follows k ty"
  by (auto simp: follows_def split: option.splits)

lemma follows_op: "ty \<in> set (ops l) \<Longrightarrow> l < k \<Longrightarrow> ty \<noteq> T_Eof \<Longrightarrow> follows k ty"
  by (simp add: follows_def binds_ops)

lemma ops_not_eof: "T_Eof \<notin> set (ops l)"
  by (simp add: ops_def)

section \<open>Printing\<close>

definition tk :: "token_type \<Rightarrow> token" where
  "tk ty = mk_token ty (0, 0)"

definition lit_type :: "literal_value \<Rightarrow> token_type" where
  "lit_type v = (case v of L_Number n \<Rightarrow> T_Number n | L_String str \<Rightarrow> T_String str
     | L_Boolean b \<Rightarrow> (if b then T_True else T_False) | L_Null \<Rightarrow> T_Null)"

definition op_level :: "token_type \<Rightarrow> nat" where
  "op_level ty = the (binds ty)"

fun prec :: "expr \<Rightarrow> nat" where
  "prec (E_Assign x v loc) = 0"
| "prec (E_Set obj name v) = 0"
| "prec (E_SetIndex obj i v) = 0"
| "prec (E_Binary a op b) = op_level op"
| "prec (E_Logical a op b) = op_level op"
| "prec (E_Unary op a) = 13"
| "prec (E_Await a) = 13"
| "prec (E_Prefix op a) = 13"
| "prec (E_Call f args) = 14"
| "prec (E_Get obj name) = 14"
| "prec (E_GetIndex obj i) = 14"
| "prec (E_Postfix op a) = 14"
| "prec e = 15"

text \<open>The tokens of an expression in a place of level \<open>l\<close>.\<close>

definition wrap :: "nat \<Rightarrow> expr \<Rightarrow> token list \<Rightarrow> token list" where
  "wrap l e ts = (if prec e < l then tk T_LeftParen # ts @ [tk T_RightParen] else ts)"

fun commas :: "token list list \<Rightarrow> token list" where
  "commas [] = []"
| "commas [ts] = ts"
| "commas (ts # tss) = ts @ tk T_Comma # commas tss"

definition ident_token :: "string \<Rightarrow> source_location \<Rightarrow> token" where
  "ident_token x loc = mk_token (T_Identifier x) (loc_line loc, loc_col loc)"

fun print_body :: "expr \<Rightarrow> token list" where
  "print_body (E_Literal v) = [tk (lit_type v)]"
| "print_body (E_Variable x loc) = [ident_token x loc]"
| "print_body (E_Assign x v loc) = ident_token x loc # tk T_Equal # print_body v"
| "print_body (E_Set obj name v) =
     wrap 14 obj (print_body obj) @ [tk T_Dot, tk (T_Identifier name), tk T_Equal] @ print_body v"
| "print_body (E_SetIndex obj i v) =
     wrap 14 obj (print_body obj) @ tk T_LeftBracket # print_body i @
     [tk T_RightBracket, tk T_Equal] @ print_body v"
| "print_body (E_Binary a op b) =
     wrap (op_level op) a (print_body a) @ tk op # wrap (Suc (op_level op)) b (print_body b)"
| "print_body (E_Logical a op b) =
     wrap (op_level op) a (print_body a) @ tk op # wrap (Suc (op_level op)) b (print_body b)"
| "print_body (E_Unary op a) = tk op # wrap 13 a (print_body a)"
| "print_body (E_Await a) = tk T_Await # wrap 13 a (print_body a)"
| "print_body (E_Prefix op a) = tk op # wrap 13 a (print_body a)"
| "print_body (E_Postfix op a) = wrap 14 a (print_body a) @ [tk op]"
| "print_body (E_Call f args) =
     wrap 14 f (print_body f) @ tk T_LeftParen # commas (map print_body args) @ [tk T_RightParen]"
| "print_body (E_Get obj name) =
     wrap 14 obj (print_body obj) @ [tk T_Dot, tk (T_Identifier name)]"
| "print_body (E_GetIndex obj i) =
     wrap 14 obj (print_body obj) @ tk T_LeftBracket # print_body i @ [tk T_RightBracket]"
| "print_body (E_Array es) = tk T_LeftBracket # commas (map print_body es) @ [tk T_RightBracket]"
| "print_body (E_Object ps) =
     tk T_LeftBrace #
     commas (map (\<lambda>p. tk (T_String (fst p)) # tk T_Colon # print_body (snd p)) ps) @ [tk T_RightBrace]"
| "print_body e = []"

abbreviation print_at :: "nat \<Rightarrow> expr \<Rightarrow> token list" where
  "print_at l e \<equiv> wrap l e (print_body e)"

text \<open>The expressions the printer covers: all but ternaries, casts, functions, struct literals, \<^verbatim>\<open>new\<close>
  and \<^verbatim>\<open>spawn\<close>; locations are those of a file and operators stand where the grammar has them.\<close>

fun printable :: "string \<Rightarrow> expr \<Rightarrow> bool" where
  "printable f (E_Literal v) = True"
| "printable f (E_Variable x loc) = (loc_file loc = f)"
| "printable f (E_Assign x v loc) = (loc_file loc = f \<and> printable f v)"
| "printable f (E_Set obj name v) = (printable f obj \<and> printable f v)"
| "printable f (E_SetIndex obj i v) = (printable f obj \<and> printable f i \<and> printable f v)"
| "printable f (E_Binary a op b) =
     (op \<in> set (concat (map ops [4, 5, 6, 7, 8, 10, 11, 12])) \<and> printable f a \<and> printable f b)"
| "printable f (E_Logical a op b) = ((op = T_Or \<or> op = T_And) \<and> printable f a \<and> printable f b)"
| "printable f (E_Unary op a) = (op \<in> {T_Bang, T_Minus, T_Tilde, T_Typeof} \<and> printable f a)"
| "printable f (E_Await a) = printable f a"
| "printable f (E_Prefix op a) = ((op = T_PlusPlus \<or> op = T_MinusMinus) \<and> printable f a)"
| "printable f (E_Postfix op a) = ((op = T_PlusPlus \<or> op = T_MinusMinus) \<and> printable f a)"
| "printable f (E_Call g args) = (printable f g \<and> list_all (printable f) args)"
| "printable f (E_Get obj name) = printable f obj"
| "printable f (E_GetIndex obj i) = (printable f obj \<and> printable f i)"
| "printable f (E_Array es) = list_all (printable f) es"
| "printable f (E_Object ps) = list_all (\<lambda>p. printable f (snd p)) ps"
| "printable f e = False"

lemma tk_ty [simp]: "tok_ty (tk ty) = ty"
  by (simp add: tk_def mk_token_def)

lemma ident_token_simps [simp]:
  "tok_ty (ident_token x loc) = T_Identifier x" "tok_line (ident_token x loc) = loc_line loc"
  "tok_col (ident_token x loc) = loc_col loc"
  by (simp_all add: ident_token_def mk_token_def)

section \<open>How printed expressions begin\<close>

definition primary_start :: "token_type \<Rightarrow> bool" where
  "primary_start ty \<longleftrightarrow> ty \<in> {T_True, T_False, T_Null, T_LeftParen, T_LeftBracket, T_LeftBrace} \<or>
     is_identifier ty \<or> (\<exists>n. ty = T_Number n) \<or> (\<exists>str. ty = T_String str)"

definition unary_start :: "token_type \<Rightarrow> bool" where
  "unary_start ty \<longleftrightarrow> ty \<in> {T_Await, T_Bang, T_Minus, T_Tilde, T_Typeof, T_PlusPlus, T_MinusMinus}"

lemma print_starts:
  "printable f e \<Longrightarrow> \<exists>t ts. print_body e = t # ts \<and>
     (primary_start (tok_ty t) \<or> prec e < 14 \<and> unary_start (tok_ty t))"
proof (induction e rule: print_body.induct)
  case (1 v)
  then show ?case by (cases v) (auto simp: lit_type_def primary_start_def)
qed (fastforce simp: wrap_def primary_start_def unary_start_def is_identifier_def)+

lemma print_at_starts:
  assumes "printable f e"
  obtains t ts where "print_at l e = t # ts" and "primary_start (tok_ty t) \<or> unary_start (tok_ty t)"
    and "14 \<le> l \<or> 14 \<le> prec e \<Longrightarrow> primary_start (tok_ty t)"
proof -
  obtain t ts where t: "print_body e = t # ts" "primary_start (tok_ty t) \<or> prec e < 14 \<and> unary_start (tok_ty t)"
    using print_starts [OF assms] by blast
  show ?thesis
  proof (cases "prec e < l")
    case True
    then show ?thesis
      by (intro that [of "tk T_LeftParen" "print_body e @ [tk T_RightParen]"]) (auto simp: wrap_def primary_start_def)
  next
    case False
    then show ?thesis using t by (intro that [of t ts]) (auto simp: wrap_def)
  qed
qed

end
