(* ===== verification/Parser_Roundtrip.thy ===== *)
theory Parser_Roundtrip
  imports Parser_Print
begin

text \<open>
  The parser reads back what the reference printer writes: precedence, left associativity of the
  binary operators, right associativity of assignment, calls, property and index access, literals.
\<close>

section \<open>The second token\<close>

text \<open>A parenthesised expression that begins with a name does not look like a parameter list.\<close>

definition bad_second :: "token_type \<Rightarrow> bool" where
  "bad_second ty \<longleftrightarrow> ty \<in> {T_Colon, T_Comma, T_RightParen, T_Arrow}"

definition no_params :: "token list \<Rightarrow> bool" where
  "no_params ts \<longleftrightarrow> (\<forall>t u us. ts = t # u # us \<longrightarrow> ident_like (tok_ty t) \<longrightarrow> \<not> bad_second (tok_ty u))"

lemma not_ident_syms [simp]:
  "\<not> ident_like T_LeftParen" "\<not> ident_like T_LeftBracket" "\<not> ident_like T_LeftBrace" "\<not> ident_like T_Await"
  "\<not> ident_like T_Bang" "\<not> ident_like T_Minus" "\<not> ident_like T_Tilde" "\<not> ident_like T_PlusPlus"
  "\<not> ident_like T_MinusMinus" "\<not> ident_like T_True" "\<not> ident_like T_False" "\<not> ident_like T_Null"
  "\<not> ident_like (T_Number n)" "\<not> ident_like (T_String str)"
  by (simp_all add: ident_like_def is_identifier_def soft_keywords_def)

lemma no_params_append: "no_params xs \<Longrightarrow> xs \<noteq> [] \<Longrightarrow> \<not> bad_second (tok_ty y) \<Longrightarrow> no_params (xs @ y # ys)"
  by (cases xs; cases "tl xs") (auto simp: no_params_def)

lemma no_params_wrap: "no_params (print_body e) \<Longrightarrow> no_params (print_at l e)"
  by (simp add: wrap_def) (simp add: no_params_def)

lemma print_at_not_nil: "printable f e \<Longrightarrow> print_at l e \<noteq> []"
  by (erule print_at_starts [where l = l]) simp

lemma starts_not_bad: "primary_start ty \<or> unary_start ty \<Longrightarrow> \<not> bad_second ty"
  by (auto simp: primary_start_def unary_start_def bad_second_def is_identifier_def)

lemma no_params_unary:
  assumes "printable f a"
  shows "no_params (t # print_at 13 a)"
  by (rule print_at_starts [OF assms, where l = 13]) (auto simp: no_params_def starts_not_bad)

lemma binary_op_not_bad: "op \<in> set (ops l) \<Longrightarrow> l \<le> 12 \<Longrightarrow> \<not> bad_second op"
  using binds_ops [of op l] binds_ops [of T_Colon 15] binds_ops [of T_Arrow 15]
  by (auto simp: bad_second_def ops_def split: if_splits)

lemma print_no_params: "printable f e \<Longrightarrow> no_params (print_body e)"
proof (induction e rule: print_body.induct)
  case (6 a op b)
  then have "\<not> bad_second op" using binary_op_not_bad by auto
  then show ?case using 6
    by (auto intro!: no_params_append no_params_wrap print_at_not_nil)
next
  case (7 a op b)
  then have "\<not> bad_second op" by (auto simp: bad_second_def)
  then show ?case using 7
    by (auto intro!: no_params_append no_params_wrap print_at_not_nil)
qed (auto simp: no_params_unary intro!: no_params_append no_params_wrap print_at_not_nil;
     simp add: no_params_def bad_second_def)+

section \<open>Evaluation rules\<close>

lemma match_yes: "rest s = t # ts \<Longrightarrow> tok_ty t \<in> set tys \<Longrightarrow> tok_ty t \<noteq> T_Eof \<Longrightarrow> match_token tys s = POk True (move (Suc 0) s)"
  by (simp add: match_token_ok)

lemma match_no: "rest s = t # ts \<Longrightarrow> tok_ty t \<notin> set tys \<Longrightarrow> match_token tys s = POk False s"
  by (simp add: match_token_ok)

lemma previous_move: "k < length (rest s) \<Longrightarrow> previous (move (Suc k) s) = POk (rest s ! k) (move (Suc k) s)"
  by (auto simp: previous_def rest_def)

lemmas evals =
  pbind_ok [OF check_ok] pbind_ok [OF match_yes] pbind_ok [OF match_no] pbind_ok [OF peek_ok]
  pbind_ok [OF advance_ok] pbind_ok [OF consume_ok] pbind_ok [OF token_at_ok] pbind_ok [OF check_ident_ok]
  pbind_ok [OF consume_ident_ok] pbind_ok [OF location_of_ok] pbind_ok [OF preturn_ok]
  pbind_ok [OF optionally_none] pbind_ok [where p = previous, OF previous_move]

text \<open>A token that starts a primary expression is no modifier and no keyword of a function.\<close>

lemma primary_start_not:
  "primary_start ty \<Longrightarrow> ty \<notin> {T_At, T_Sync, T_Async, T_Function, T_New, T_Await, T_Bang, T_Minus, T_Tilde,
     T_Typeof, T_PlusPlus, T_MinusMinus, T_Spawn, T_On, T_Eof, T_RightParen, T_RightBracket, T_RightBrace, T_Comma}"
  by (auto simp: primary_start_def is_identifier_def)

lemma function_modifiers_none:
  "rest s = t # ts \<Longrightarrow> tok_ty t \<notin> {T_At, T_Sync, T_Async} \<Longrightarrow> function_modifiers s = POk (False, False) s"
  by (simp add: function_modifiers_def evals)

lemma async_before_none:
  "rest s = t # ts \<Longrightarrow> tok_ty t \<noteq> T_Async \<Longrightarrow> async_before ahead s = POk False s"
  by (simp add: async_before_def evals)

lemmas evals_primary = evals pbind_ok [OF function_modifiers_none] pbind_ok [OF async_before_none]

lemma primary_literal:
  assumes "rest s = tk (lit_type v) # ts"
  shows "primary r s = POk (E_Literal v) (move (Suc 0) s)"
  using assms by (cases v; cases "v = L_Boolean True") (auto simp: primary_def lit_type_def evals_primary)

lemma primary_variable:
  assumes "rest s = ident_token x loc # t # ts" and "follows 15 (tok_ty t)" and "loc_file loc = ps_file s"
  shows "primary r s = POk (E_Variable x loc) (move (Suc 0) s)"
proof -
  have t: "tok_ty t \<noteq> T_Arrow" "tok_ty t \<noteq> T_LeftBrace" "tok_ty t \<noteq> T_Eof"
    using follows_ops [OF assms(2) order_refl] assms(2) by (auto simp: ops_def follows_def)
  have i: "ident_like (T_Identifier x)" by (simp add: ident_like_def is_identifier_def)
  have np: "next_is_prop (move (Suc 0) s) = POk False (move (Suc 0) s)"
    using assms(1) t by (simp add: next_is_prop_def evals)
  have loc: "\<lparr>loc_file = ps_file s, loc_line = loc_line loc, loc_col = loc_col loc\<rparr> = loc"
    using assms(3) by simp
  show ?thesis using assms(1) t i loc
    by (simp add: primary_def primary_tail_def identifier_expr_def evals_primary
        pbind_def [of next_is_prop] np ident_name_def)
qed

section \<open>Parentheses\<close>

text \<open>The attempt to read an arrow function's head fails and only moves the position.\<close>

lemma arrow_head_fails:
  assumes rest: "rest s = print_body e @ tk T_RightParen # t # R" and e: "printable f e"
    and t: "follows 15 (tok_ty t)"
  shows "\<exists>ps k. arrow_head r s = POk (ps, None, False) (move k s)"
proof -
  obtain t0 ts where ts: "print_body e = t0 # ts" and st: "primary_start (tok_ty t0) \<or> unary_start (tok_ty t0)"
    using print_starts [OF e] by blast
  have rest0: "rest s = t0 # ts @ tk T_RightParen # t # R" using rest ts by simp
  have t0: "tok_ty t0 \<noteq> T_RightParen" "tok_ty t0 \<noteq> T_Async" "tok_ty t0 \<noteq> T_Eof"
    using st by (auto simp: primary_start_def unary_start_def is_identifier_def)
  have tt: "tok_ty t \<noteq> T_Colon" "tok_ty t \<noteq> T_Arrow"
    using follows_ops [OF t order_refl] by (auto simp: ops_def)
  show ?thesis
  proof (cases "ident_like (tok_ty t0)")
    case False
    then have "arrow_head r s = POk ([], None, False) (move 0 s)"
      using rest0 t0 by (simp add: arrow_head_def evals)
    then show ?thesis by blast
  next
    case True
    obtain name where name: "ident_name (tok_ty t0) = Some name" using ident_like_name [OF True] by blast
    let ?s1 = "move (Suc 0) s" and ?p = "[\<lparr>par_name = name, par_ty = None\<rparr>]"
    obtain u us where rs: "rest s = t0 # u # us" and u: "rest ?s1 = u # us" "tok_ty u \<noteq> T_Colon" "tok_ty u \<noteq> T_Comma"
      and us: "tok_ty u = T_RightParen \<Longrightarrow> us = t # R"
      using print_no_params [OF e] True rest0 ts
      by (cases ts) (auto simp: no_params_def bad_second_def)
    have "parse_fn_param r s = POk \<lparr>par_name = name, par_ty = None\<rparr> ?s1"
      using u(1,2) rest0 True name by (simp add: parse_fn_param_def evals)
    then have "try_params r s = POk (?p, True) ?s1"
      unfolding try_params_def using u by (intro ploop_exit) (simp add: evals)
    then have head: "arrow_head r s = pbind (match_token [T_RightParen]) (\<lambda>close.
        if close then pbind (arrow_tail r) (\<lambda>(rt, arrow). preturn (?p, rt, arrow))
        else preturn (?p, None, False)) ?s1"
      using rest0 t0 True by (simp add: arrow_head_def evals pbind_def [of "try_params r"])
    show ?thesis
    proof (cases "tok_ty u = T_RightParen")
      case True
      have "arrow_tail r (move (Suc 0) ?s1) = POk (None, False) (move (Suc 0) ?s1)"
        using rs us [OF True] tt by (simp add: arrow_tail_def evals)
      then have "arrow_head r s = POk (?p, None, False) (move 2 s)"
        using head rs True by (simp add: evals pbind_def [of "arrow_tail r"] numeral_2_eq_2)
      then show ?thesis by blast
    next
      case False
      then have "arrow_head r s = POk (?p, None, False) (move (Suc 0) s)"
        using head rs by (simp add: evals)
      then show ?thesis by blast
    qed
  qed
qed

lemma restore_move: "pmodify (\<lambda>s. s\<lparr>ps_current := ps_current s0\<rparr>) (move k s0) = POk () s0"
  by (simp add: pmodify_def move_def)

lemma paren_expr_ok:
  assumes rest: "rest s = print_body e @ tk T_RightParen # t # R" and e: "printable f e"
    and t: "follows 15 (tok_ty t)"
    and sub: "r_expression r s = POk e (move (length (print_body e)) s)"
  shows "paren_expr r False s = POk e (move (Suc (length (print_body e))) s)"
proof -
  obtain ps k where h: "arrow_head r s = POk (ps, None, False) (move k s)"
    using arrow_head_fails [OF rest e t] by blast
  have tt: "tok_ty t \<noteq> T_Colon" "tok_ty t \<noteq> T_Arrow"
    using follows_ops [OF t order_refl] by (auto simp: ops_def)
  show ?thesis using rest tt
    by (simp add: paren_expr_def pbind_def [of "pget ps_current"] pget_def pbind_def [of "arrow_head r"] h
        pbind_ok [where p = "pmodify g" for g, OF restore_move] pbind_def [of "r_expression r"] sub evals)
qed

lemma primary_paren:
  assumes rest: "rest s = tk T_LeftParen # print_body e @ tk T_RightParen # t # R" and e: "printable f e"
    and t: "follows 15 (tok_ty t)"
    and sub: "r_expression r (move (Suc 0) s) = POk e (move (Suc (length (print_body e))) s)"
  shows "primary r s = POk e (move (Suc (Suc (length (print_body e)))) s)"
proof -
  have "paren_expr r False (move (Suc 0) s) = POk e (move (Suc (length (print_body e))) (move (Suc 0) s))"
    by (rule paren_expr_ok [OF _ e t]) (use rest sub in simp_all)
  then show ?thesis using rest
    by (simp add: primary_def primary_tail_def evals_primary)
qed

section \<open>Levels\<close>

definition level :: "nonterminals \<Rightarrow> nat \<Rightarrow> expr P" where
  "level r l =
     [assignment r, ternary r, or_expr r, and_expr r, bitwise_or r, bitwise_xor r, bitwise_and r, equality r,
      comparison r, type_cast r, shift r, term_expr r, factor r, unary r, call r] ! l"

definition binary_levels :: "nat set" where
  "binary_levels = {2, 3, 4, 5, 6, 7, 8, 10, 11, 12}"

definition mk_binary :: "nat \<Rightarrow> expr \<Rightarrow> token_type \<Rightarrow> expr \<Rightarrow> expr" where
  "mk_binary l = (if l = 2 \<or> l = 3 then E_Logical else E_Binary)"

definition binary_step :: "nonterminals \<Rightarrow> nat \<Rightarrow> expr \<Rightarrow> (expr \<times> bool) P" where
  "binary_step r l e = pbind (match_token (ops l)) (\<lambda>m.
     if m then pbind previous (\<lambda>op. pbind (level r (Suc l)) (\<lambda>right.
       preturn (mk_binary l e (tok_ty op) right, True)))
     else preturn (e, False))"

lemma level_binary:
  "l \<in> binary_levels \<Longrightarrow> level r l = pbind (level r (Suc l)) (ploop (binary_step r l))"
proof -
  assume "l \<in> binary_levels"
  then consider "l = 2" | "l = 3" | "l = 4" | "l = 5" | "l = 6" | "l = 7" | "l = 8" | "l = 10" | "l = 11" | "l = 12" by (auto simp: binary_levels_def)
  then show ?thesis
  proof cases
    case 1
    then show ?thesis
      by (simp add: level_def or_expr_def binary_level_def binary_step_def [abs_def] ops_def mk_binary_def cong: if_cong)
  next
    case 2
    then show ?thesis
      by (simp add: level_def and_expr_def binary_level_def binary_step_def [abs_def] ops_def mk_binary_def cong: if_cong)
  next
    case 3
    then show ?thesis
      by (simp add: level_def bitwise_or_def binary_level_def binary_step_def [abs_def] ops_def mk_binary_def cong: if_cong)
  next
    case 4
    then show ?thesis
      by (simp add: level_def bitwise_xor_def binary_level_def binary_step_def [abs_def] ops_def mk_binary_def cong: if_cong)
  next
    case 5
    then show ?thesis
      by (simp add: level_def bitwise_and_def binary_level_def binary_step_def [abs_def] ops_def mk_binary_def cong: if_cong)
  next
    case 6
    then show ?thesis
      by (simp add: level_def equality_def binary_level_def binary_step_def [abs_def] ops_def mk_binary_def cong: if_cong)
  next
    case 7
    then show ?thesis
      by (simp add: level_def comparison_def binary_level_def binary_step_def [abs_def] ops_def mk_binary_def cong: if_cong)
  next
    case 8
    then show ?thesis
      by (simp add: level_def shift_def binary_level_def binary_step_def [abs_def] ops_def mk_binary_def cong: if_cong)
  next
    case 9
    then show ?thesis
      by (simp add: level_def term_expr_def binary_level_def binary_step_def [abs_def] ops_def mk_binary_def cong: if_cong)
  next
    case 10
    then show ?thesis
      by (simp add: level_def factor_def binary_level_def binary_step_def [abs_def] ops_def mk_binary_def cong: if_cong)
  qed
qed

lemma level_cases: "(l::nat) \<le> 14 \<Longrightarrow> l \<in> {0, 1, 2, 3, 4, 5, 6, 7, 8, 9, 10, 11, 12, 13, 14}"
  by (auto simp: eval_nat_numeral le_Suc_eq)

lemma level_consumes:
  assumes "l \<le> 14"
  shows "consumes T (length T - n) (level (parsers n) l)"
proof -
  have u: "consumes T (length T - n) (unary (parsers n))" by (rule prs.unary_runs)
  have f: "consumes T (length T - n) (factor (parsers n))" unfolding factor_def by (intro prs.binary_level_runs u)
  have te: "consumes T (length T - n) (term_expr (parsers n))" unfolding term_expr_def by (intro prs.binary_level_runs f)
  have sh: "consumes T (length T - n) (shift (parsers n))" unfolding shift_def by (intro prs.binary_level_runs te)
  have tc: "consumes T (length T - n) (type_cast (parsers n))" by (intro prs.type_cast_runs sh)
  have co: "consumes T (length T - n) (comparison (parsers n))" unfolding comparison_def by (intro prs.binary_level_runs tc)
  have eq: "consumes T (length T - n) (equality (parsers n))" unfolding equality_def by (intro prs.binary_level_runs co)
  have ba: "consumes T (length T - n) (bitwise_and (parsers n))" unfolding bitwise_and_def by (intro prs.binary_level_runs eq)
  have bx: "consumes T (length T - n) (bitwise_xor (parsers n))" unfolding bitwise_xor_def by (intro prs.binary_level_runs ba)
  have bo: "consumes T (length T - n) (bitwise_or (parsers n))" unfolding bitwise_or_def by (intro prs.binary_level_runs bx)
  have an: "consumes T (length T - n) (and_expr (parsers n))" unfolding and_expr_def by (intro prs.binary_level_runs bo)
  show ?thesis using level_cases [OF assms]
    by (elim insertE emptyE) (simp_all add: level_def u f te sh tc co eq ba bx bo an prs.or_expr_runs prs.call_runs
        prs.ternary_runs prs.assignment_runs)
qed

text \<open>The states the proofs run in: the tokens end in an end-of-file token and the fuel covers the rest.\<close>

definition ready :: "nat \<Rightarrow> parser \<Rightarrow> bool" where
  "ready n s \<longleftrightarrow> eof_ended (ps_tokens s) \<and> rest s \<noteq> [] \<and> length (rest s) \<le> n"

lemma ready_at: "ready n s \<Longrightarrow> at_pos (ps_tokens s) (ps_current s) s"
  by (auto simp: ready_def at_pos_def rest_def)

lemma ready_low: "ready n s \<Longrightarrow> length (ps_tokens s) - n \<le> ps_current s"
  by (auto simp: ready_def rest_def)

lemma ready_move: "ready n s \<Longrightarrow> k < length (rest s) \<Longrightarrow> ready n (move k s)"
  by (auto simp: ready_def)

lemma ready_Suc: "ready (Suc n) s \<Longrightarrow> 0 < k \<Longrightarrow> k < length (rest s) \<Longrightarrow> ready n (move k s)"
  by (auto simp: ready_def)

section \<open>Continuing a loop\<close>

lemma binary_unroll:
  assumes s: "ready n s" and l: "l \<in> binary_levels" and step: "binary_step (parsers n) l e s = POk (e', True) s'"
  shows "ploop (binary_step (parsers n) l) e s = ploop (binary_step (parsers n) l) e' s'"
proof (rule ploop_unroll [where T = "ps_tokens s" and c = "ps_current s"], rule ready_at [OF s], rule step)
  fix e d assume d: "ps_current s \<le> d"
  have "l \<le> 13" using l by (auto simp: binary_levels_def)
  then have "consumes (ps_tokens s) (length (ps_tokens s) - n) (level (parsers n) (Suc l))"
    by (intro level_consumes) simp
  then show "runs (ps_tokens s) 0 d (binary_step (parsers n) l e) (\<lambda>(a', go) d'. go \<longrightarrow> d < d')"
    unfolding binary_step_def using ready_low [OF s] d
    by (intro runs_rules runs_previous runs_consumes) auto
qed

lemma call_unroll:
  assumes s: "ready n s" and step: "call_step (parsers n) False st s = POk (st', True) s'" and c: "0 < ps_current s"
    and low: "Suc (length (ps_tokens s) - n) \<le> ps_current s"
  shows "ploop (call_step (parsers n) False) st s = ploop (call_step (parsers n) False) st' s'"
proof (rule ploop_unroll [where T = "ps_tokens s" and c = "ps_current s"], rule ready_at [OF s], rule step)
  fix e d assume d: "ps_current s \<le> d"
  show "runs (ps_tokens s) 0 d (call_step (parsers n) False e) (\<lambda>(a', go) d'. go \<longrightarrow> d < d')"
    by (rule prs.call_step_runs [where n = n]) (use low d in auto)
qed

section \<open>From one level to the next\<close>

text \<open>What one level parses, the level below it parses too when the next token does not continue it.\<close>

lemma level_pass:
  assumes p: "level (parsers n) (Suc l) s = POk e (move k s)" and t: "drop k (rest s) = t # R"
    and f: "follows l (tok_ty t)" and l: "l < 14"
    and t0: "l = 13 \<Longrightarrow> rest s = t0 # ts \<and> primary_start (tok_ty t0)"
  shows "level (parsers n) l s = POk e (move k s)"
proof -
  have no: "tok_ty t \<notin> set (ops l)" using follows_ops [OF f order_refl] .
  have m: "match_token (ops l) (move k s) = POk False (move k s)"
    using t no by (simp add: match_token_ok)
  consider "l = 0" | "l = 1" | "l \<in> binary_levels" | "l = 9" | "l = 13"
    using level_cases [of l] l by (auto simp: binary_levels_def)
  then show ?thesis
  proof cases
    case 1
    then show ?thesis using p m by (simp add: level_def assignment_def ops_def pbind_def)
  next
    case 2
    then show ?thesis using p m by (simp add: level_def ternary_def ops_def pbind_def numeral_2_eq_2)
  next
    case 3
    have "ploop (binary_step (parsers n) l) e (move k s) = POk e (move k s)"
      using m by (intro ploop_exit) (simp add: binary_step_def pbind_def)
    then show ?thesis using p by (simp add: level_binary [OF 3] pbind_def)
  next
    case 4
    have "ploop (\<lambda>e. pbind (match_token [T_As]) (\<lambda>m.
          if m then pbind previous (\<lambda>tok. pbind (location_of tok) (\<lambda>loc.
            pbind (r_parse_type (parsers n)) (\<lambda>ty. preturn (E_TypeCast e ty loc, True))))
          else preturn (e, False))) e (move k s) = POk e (move k s)"
      using m 4 by (intro ploop_exit) (simp add: ops_def pbind_def)
    then show ?thesis using p 4 by (simp add: level_def type_cast_def pbind_def)
  next
    case 5
    have "rest s = t0 # ts" "primary_start (tok_ty t0)" using t0 5 by auto
    then show ?thesis using p 5 primary_start_not
      by (simp add: level_def unary_def) (auto simp: evals dest!: primary_start_not)
  qed
qed

section \<open>What is shown of each expression\<close>

text \<open>The parser of fuel \<open>n\<close> stands before the tokens \<open>ts\<close>, which the token \<open>t\<close> follows.\<close>

definition before :: "nat \<Rightarrow> string \<Rightarrow> token list \<Rightarrow> token \<Rightarrow> parser \<Rightarrow> bool" where
  "before n f ts t s \<longleftrightarrow> ready n s \<and> ps_file s = f \<and> (\<exists>R. rest s = ts @ t # R)"

definition call_rest :: "nat \<Rightarrow> expr \<Rightarrow> expr P" where
  "call_rest n e = pbind (ploop (call_step (parsers n) False) (e, False)) (\<lambda>(e', had). preturn e')"

definition reads :: "string \<Rightarrow> expr \<Rightarrow> bool" where
  "reads f e \<longleftrightarrow> (\<forall>l n s t. l \<le> 14 \<longrightarrow> before n f (print_at l e) t s \<longrightarrow> follows l (tok_ty t) \<longrightarrow>
     level (parsers n) l s = POk e (move (length (print_at l e)) s))"

definition chains :: "string \<Rightarrow> expr \<Rightarrow> bool" where
  "chains f e \<longleftrightarrow> (\<forall>l n s t. l \<in> binary_levels \<longrightarrow> before n f (print_at l e) t s \<longrightarrow> follows (Suc l) (tok_ty t) \<longrightarrow>
     level (parsers n) l s = ploop (binary_step (parsers n) l) e (move (length (print_at l e)) s))"

definition calls :: "string \<Rightarrow> expr \<Rightarrow> bool" where
  "calls f e \<longleftrightarrow> (\<forall>n s t. before n f (print_at 14 e) t s \<longrightarrow> follows 15 (tok_ty t) \<longrightarrow>
     call (parsers n) s = call_rest n e (move (length (print_at 14 e)) s))"

text \<open>The same at the expression's own level, where it is printed without parentheses.\<close>

definition own :: "string \<Rightarrow> expr \<Rightarrow> bool" where
  "own f e \<longleftrightarrow> (\<forall>n s t. before n f (print_body e) t s \<longrightarrow>
     (prec e = 15 \<longrightarrow> follows 15 (tok_ty t) \<longrightarrow>
        primary (parsers n) s = POk e (move (length (print_body e)) s)) \<and>
     (prec e = 14 \<longrightarrow> follows 15 (tok_ty t) \<longrightarrow>
        call (parsers n) s = call_rest n e (move (length (print_body e)) s)) \<and>
     (prec e \<in> binary_levels \<longrightarrow> follows (Suc (prec e)) (tok_ty t) \<longrightarrow>
        level (parsers n) (prec e) s = ploop (binary_step (parsers n) (prec e)) e (move (length (print_body e)) s)) \<and>
     (prec e = 0 \<or> prec e = 13 \<longrightarrow> follows (prec e) (tok_ty t) \<longrightarrow>
        level (parsers n) (prec e) s = POk e (move (length (print_body e)) s)))"

lemma beforeE:
  assumes "before n f ts t s"
  obtains R where "ready n s" "ps_file s = f" "rest s = ts @ t # R" "rest (move (length ts) s) = t # R"
  using assms by (auto simp: before_def)

lemma call_of_primary:
  assumes "rest s = t # ts" and "tok_ty t \<noteq> T_New" and "primary (parsers n) s = POk e (move k s)"
  shows "call (parsers n) s = call_rest n e (move k s)"
  using assms by (simp add: call_def call_rest_def evals pbind_def [of "primary r" for r])

lemma call_exit:
  assumes "rest (move k s) = t # R" and "follows 14 (tok_ty t)"
  shows "call_rest n e (move k s) = POk e (move k s)"
proof -
  have "tok_ty t \<notin> set (ops 14)" by (rule follows_ops [OF assms(2) order_refl])
  then have "call_step (parsers n) False (e, False) (move k s) = POk ((e, False), False) (move k s)"
    using assms(1) by (simp add: call_step_def ops_def evals)
  from ploop_exit [of "call_step (parsers n) False", OF this] show ?thesis
    by (simp add: call_rest_def pbind_def)
qed

lemma prec_cases:
  assumes "printable f e"
  shows "prec e = 0 \<or> prec e = 13 \<or> prec e = 14 \<or> prec e = 15 \<or> prec e \<in> binary_levels"
proof -
  have "op_level op \<in> binary_levels"
    if "op \<in> set (ops 4) \<or> op \<in> set (ops 5) \<or> op \<in> set (ops 6) \<or> op \<in> set (ops 7) \<or> op \<in> set (ops 8) \<or>
        op \<in> set (ops 10) \<or> op \<in> set (ops 11) \<or> op \<in> set (ops 12)" for op
    using that by (auto simp: op_level_def binary_levels_def dest: binds_ops)
  moreover have "op_level T_Or \<in> binary_levels" "op_level T_And \<in> binary_levels"
    using binds_ops [of T_Or 2] binds_ops [of T_And 3] by (simp_all add: op_level_def ops_def binary_levels_def)
  ultimately show ?thesis using assms by (cases e) (simp_all; blast)+
qed

lemma binary_levels_le: "l \<in> binary_levels \<Longrightarrow> 2 \<le> l \<and> l \<le> 12"
  by (auto simp: binary_levels_def)

lemma before_first:
  assumes "before n f (print_at l e) t s" and "printable f e"
  obtains t0 ts where "rest s = t0 # ts" "primary_start (tok_ty t0) \<or> unary_start (tok_ty t0)"
    "14 \<le> l \<or> 14 \<le> prec e \<Longrightarrow> primary_start (tok_ty t0)"
proof -
  obtain R where R: "rest s = print_at l e @ t # R" using assms(1) by (auto simp: before_def)
  show ?thesis
    by (rule print_at_starts [OF assms(2), where l = l]) (use R that in auto)
qed

text \<open>The levels at or below the expression's own, without parentheses.\<close>

lemma own_reads_down:
  assumes own: "own f e" and e: "printable f e"
  shows "l \<le> prec e \<Longrightarrow> l \<le> 14 \<Longrightarrow> before n f (print_body e) t s \<Longrightarrow> follows l (tok_ty t) \<Longrightarrow>
    level (parsers n) l s = POk e (move (length (print_body e)) s)"
proof (induction "14 - l" arbitrary: l)
  case 0
  then have l: "l = 14" by simp
  obtain R where R: "rest (move (length (print_body e)) s) = t # R" by (rule beforeE [OF 0(4)])
  have f15: "follows 15 (tok_ty t)" by (rule follows_mono [OF 0(5)]) (simp add: l)
  have at: "before n f (print_at 14 e) t s" using 0(2,4) l by (simp add: wrap_def)
  obtain t0 ts where t0: "rest s = t0 # ts" "primary_start (tok_ty t0)"
    by (rule before_first [OF at e]) auto
  have "call (parsers n) s = call_rest n e (move (length (print_body e)) s)"
  proof (cases "prec e = 14")
    case True
    then show ?thesis using own 0(4) f15 by (simp add: own_def)
  next
    case False
    then have "prec e = 15" using prec_cases [OF e] 0(2) l by (auto dest: binary_levels_le)
    then show ?thesis using own 0(4) f15 primary_start_not [OF t0(2)]
      by (intro call_of_primary [OF t0(1)]) (auto simp: own_def)
  qed
  then show ?case using call_exit [OF R] 0(5) l by (simp add: level_def)
next
  case (Suc d)
  obtain R where R: "rest (move (length (print_body e)) s) = t # R" by (rule beforeE [OF Suc.prems(3)])
  show ?case
  proof (cases "l = prec e")
    case True
    have "follows (Suc l) (tok_ty t)" by (rule follows_mono [OF Suc.prems(4)]) simp
    moreover have "ploop (binary_step (parsers n) l) e (move (length (print_body e)) s) =
        POk e (move (length (print_body e)) s)"
      using R follows_ops [OF Suc.prems(4) order_refl]
      by (intro ploop_exit) (simp add: binary_step_def evals)
    ultimately show ?thesis
      using True own Suc.prems Suc(2) prec_cases [OF e] by (auto simp: own_def)
  next
    case False
    have "level (parsers n) (Suc l) s = POk e (move (length (print_body e)) s)"
      using Suc False by (intro Suc.hyps(1)) (auto intro: follows_mono)
    moreover have "\<exists>t0 ts. rest s = t0 # ts \<and> primary_start (tok_ty t0)" if "l = 13"
    proof -
      have "before n f (print_at 14 e) t s" using Suc.prems False that by (simp add: wrap_def)
      then show ?thesis by (rule before_first [OF _ e]) auto
    qed
    ultimately show ?thesis
      using level_pass [of n l s e "length (print_body e)" t R] R Suc.prems Suc(2) by fastforce
  qed
qed

text \<open>The levels above it, in parentheses.\<close>

lemma follows_closers [simp]:
  "follows l T_RightParen" "follows l T_RightBracket" "follows l T_RightBrace" "follows l T_Comma"
  by (simp_all add: follows_def binds_def op_table_def ops_def upt_rec)

lemma ready_fuel: "ready n s \<Longrightarrow> \<exists>m. n = Suc m"
  by (cases n) (auto simp: ready_def)

lemma expression_level: "r_expression (parsers (Suc m)) = level (parsers m) 0"
  "r_assignment (parsers (Suc m)) = level (parsers m) 0" "r_unary (parsers (Suc m)) = level (parsers m) 13"
  by (simp_all add: level_def expression_def [abs_def])

declare parsers.simps [simp del]

lemma paren_primary:
  assumes own: "own f e" and e: "printable f e" and l: "prec e < l"
    and b: "before n f (print_at l e) t s" and t: "follows 15 (tok_ty t)"
  shows "primary (parsers n) s = POk e (move (length (print_at l e)) s)"
proof -
  obtain R where s: "ready n s" "ps_file s = f" and R: "rest s = tk T_LeftParen # print_body e @ tk T_RightParen # t # R"
    by (rule beforeE [OF b]) (use l in \<open>simp add: wrap_def\<close>)
  obtain m where m: "n = Suc m" using ready_fuel [OF s(1)] by blast
  have "ready m (move (Suc 0) s)" using s(1) R m by (intro ready_Suc) auto
  then have "before m f (print_body e) (tk T_RightParen) (move (Suc 0) s)"
    using s(2) R by (simp add: before_def)
  then have "level (parsers m) 0 (move (Suc 0) s) = POk e (move (length (print_body e)) (move (Suc 0) s))"
    by (rule own_reads_down [OF own e, rotated 2]) simp_all
  then have "primary (parsers n) s = POk e (move (Suc (Suc (length (print_body e)))) s)"
    by (intro primary_paren [OF R e t]) (simp add: m expression_level)
  then show ?thesis using l by (simp add: wrap_def)
qed

lemma down_from_call:
  assumes p: "level (parsers n) 14 s = POk e (move k s)" and R: "rest (move k s) = t # R"
    and t0: "rest s = t0 # ts" "primary_start (tok_ty t0)"
  shows "l \<le> 14 \<Longrightarrow> follows l (tok_ty t) \<Longrightarrow> level (parsers n) l s = POk e (move k s)"
proof (induction "14 - l" arbitrary: l)
  case (Suc d)
  have "level (parsers n) (Suc l) s = POk e (move k s)"
    using Suc by (intro Suc.hyps(1)) (auto intro: follows_mono)
  then show ?case
    by (rule level_pass [of n l s e k t R t0 ts]) (use R t0 Suc in auto)
qed (use p in simp)

lemma own_reads:
  assumes own: "own f e" and e: "printable f e"
  shows "reads f e"
  unfolding reads_def
proof (intro allI impI)
  fix l n s t assume l: "l \<le> 14" and b: "before n f (print_at l e) t s" and t: "follows l (tok_ty t)"
  show "level (parsers n) l s = POk e (move (length (print_at l e)) s)"
  proof (cases "prec e < l")
    case False
    then show ?thesis using own_reads_down [OF own e _ l _ t, of n s] b by (simp add: wrap_def)
  next
    case True
    obtain R where R: "rest (move (length (print_at l e)) s) = t # R" by (rule beforeE [OF b])
    obtain R' where t0: "rest s = tk T_LeftParen # R'" "primary_start (tok_ty (tk T_LeftParen))"
      by (rule beforeE [OF b]) (use True that in \<open>auto simp: wrap_def primary_start_def\<close>)
    have "primary (parsers n) s = POk e (move (length (print_at l e)) s)"
      by (rule paren_primary [OF own e True b]) (use t l in \<open>auto intro: follows_mono\<close>)
    then have "call (parsers n) s = call_rest n e (move (length (print_at l e)) s)"
      by (intro call_of_primary [OF t0(1)]) auto
    moreover have "follows 14 (tok_ty t)" using t l by (rule follows_mono)
    ultimately have "level (parsers n) 14 s = POk e (move (length (print_at l e)) s)"
      using call_exit [OF R] by (simp add: level_def)
    then show ?thesis by (rule down_from_call [OF _ R t0]) (use l t in auto)
  qed
qed

lemma own_chains:
  assumes own: "own f e" and e: "printable f e"
  shows "chains f e"
  unfolding chains_def
proof (intro allI impI)
  fix l n s t assume l: "l \<in> binary_levels" and b: "before n f (print_at l e) t s"
    and t: "follows (Suc l) (tok_ty t)"
  show "level (parsers n) l s = ploop (binary_step (parsers n) l) e (move (length (print_at l e)) s)"
  proof (cases "prec e = l")
    case True
    then show ?thesis using own l b t by (simp add: own_def wrap_def)
  next
    case False
    then have "print_at l e = print_at (Suc l) e" by (auto simp: wrap_def)
    then have "level (parsers n) (Suc l) s = POk e (move (length (print_at l e)) s)"
      using own_reads [OF own e] b t binary_levels_le [OF l] by (simp add: reads_def)
    then show ?thesis by (simp add: level_binary [OF l] pbind_def)
  qed
qed

lemma own_calls:
  assumes own: "own f e" and e: "printable f e"
  shows "calls f e"
  unfolding calls_def
proof (intro allI impI)
  fix n s t assume b: "before n f (print_at 14 e) t s" and t: "follows 15 (tok_ty t)"
  obtain t0 ts where t0: "rest s = t0 # ts" "primary_start (tok_ty t0)" by (rule before_first [OF b e]) auto
  show "call (parsers n) s = call_rest n e (move (length (print_at 14 e)) s)"
  proof (cases "prec e = 14")
    case True
    then show ?thesis using own b t by (simp add: own_def wrap_def)
  next
    case False
    have "primary (parsers n) s = POk e (move (length (print_at 14 e)) s)"
    proof (cases "prec e < 14")
      case True
      then show ?thesis by (rule paren_primary [OF own e _ b t])
    next
      case False
      then have "prec e = 15" using \<open>prec e \<noteq> 14\<close> prec_cases [OF e] by (auto dest: binary_levels_le)
      then show ?thesis using own b t by (simp add: own_def wrap_def)
    qed
    then show ?thesis using primary_start_not [OF t0(2)] by (intro call_of_primary [OF t0(1)]) auto
  qed
qed

section \<open>Reading subexpressions\<close>

text \<open>A subexpression is read by a recursive nonterminal after at least one token, with less fuel.\<close>

definition later :: "nat \<Rightarrow> string \<Rightarrow> parser \<Rightarrow> bool" where
  "later n f s \<longleftrightarrow> eof_ended (ps_tokens s) \<and> ps_file s = f \<and> length (rest s) < n \<and> 0 < ps_current s"

lemma later_move: "later n f s \<Longrightarrow> later n f (move k s)"
  by (auto simp: later_def)

lemma ready_later: "ready n s \<Longrightarrow> ps_file s = f \<Longrightarrow> 0 < k \<Longrightarrow> later n f (move k s)"
  by (cases "rest s") (auto simp: later_def ready_def)

lemma later_ready: "later n f s \<Longrightarrow> rest s = t # ts \<Longrightarrow> ready n s"
  by (auto simp: later_def ready_def)

lemma later_low: "later n f s \<Longrightarrow> rest s = t # ts \<Longrightarrow> Suc (length (ps_tokens s) - n) \<le> ps_current s"
  using rest_Cons(1) [of s t ts] by (auto simp: later_def rest_def)

lemma wrap_0 [simp]: "wrap 0 e ts = ts"
  by (simp add: wrap_def)

lemma sub_read:
  assumes s: "later n f s" and rest: "rest s = print_at l e @ t # R"
    and e: "reads f e" and l: "l \<le> 14" and t: "follows l (tok_ty t)"
  shows "\<exists>m. n = Suc m \<and> level (parsers m) l s = POk e (move (length (print_at l e)) s)"
proof -
  obtain m where m: "n = Suc m" using s by (cases n) (auto simp: later_def)
  then have "before m f (print_at l e) t s" using s rest by (auto simp: before_def later_def ready_def)
  then show ?thesis using e l t m by (auto simp: reads_def)
qed

lemma sub_expression:
  assumes "later n f s" and "rest s = print_body e @ t # R" and "reads f e" and "follows 0 (tok_ty t)"
  shows "r_expression (parsers n) s = POk e (move (length (print_body e)) s)"
    and "r_assignment (parsers n) s = POk e (move (length (print_body e)) s)"
  using sub_read [of n f s 0 e t R] assms by (auto simp: expression_level)

lemma sub_unary_read:
  assumes "later n f s" and "rest s = print_at 13 e @ t # R" and "reads f e" and "follows 13 (tok_ty t)"
  shows "r_unary (parsers n) s = POk e (move (length (print_at 13 e)) s)"
  using sub_read [of n f s 13 e t R] assms by (auto simp: expression_level)

section \<open>Each form at its own level\<close>

lemma own_literal: "own f (E_Literal v)"
  by (auto simp: own_def binary_levels_def elim!: beforeE intro: primary_literal)

lemma own_variable: "loc_file loc = f \<Longrightarrow> own f (E_Variable x loc)"
  by (auto simp: own_def binary_levels_def elim!: beforeE intro: primary_variable)

lemma unary_ops:
  assumes "rest s = tk op # ts" and "r_unary r (move (Suc 0) s) = POk a s'"
  shows "op \<in> {T_Bang, T_Minus, T_Tilde, T_Typeof} \<Longrightarrow> unary r s = POk (E_Unary op a) s'"
    and "op = T_Await \<Longrightarrow> unary r s = POk (E_Await a) s'"
    and "op = T_PlusPlus \<or> op = T_MinusMinus \<Longrightarrow> unary r s = POk (E_Prefix op a) s'"
  using assms by (auto simp: unary_def evals pbind_def [of "r_unary r"])

lemma own_unary:
  assumes "reads f a" and "printable f a"
  shows "op \<in> {T_Bang, T_Minus, T_Tilde, T_Typeof} \<Longrightarrow> own f (E_Unary op a)"
    and "own f (E_Await a)"
    and "op = T_PlusPlus \<or> op = T_MinusMinus \<Longrightarrow> own f (E_Prefix op a)"
proof -
  have u: "\<exists>R. rest s = tk op # R \<and>
        r_unary (parsers n) (move (Suc 0) s) = POk a (move (Suc (length (print_at 13 a))) s)"
    if b: "before n f (tk op # print_at 13 a) t s" and t: "follows 13 (tok_ty t)" for n s t op
  proof -
    obtain R where "ready n s" "ps_file s = f" "rest s = tk op # print_at 13 a @ t # R"
      by (rule beforeE [OF b]) simp
    then show ?thesis
      using sub_unary_read [of n f "move (Suc 0) s" a t R] ready_later [of n s f "Suc 0"] assms t by auto
  qed
  have own: "own f e" if "prec e = 13" and "print_body e = tk op # print_at 13 a"
      and "\<And>r s ts s'. rest s = tk op # ts \<Longrightarrow> r_unary r (move (Suc 0) s) = POk a s' \<Longrightarrow> unary r s = POk e s'"
    for e op
    unfolding own_def using that u by (simp add: level_def binary_levels_def) blast
  show "op \<in> {T_Bang, T_Minus, T_Tilde, T_Typeof} \<Longrightarrow> own f (E_Unary op a)"
    by (rule own [where op = op]) (auto intro: unary_ops)
  show "own f (E_Await a)"
    by (rule own [where op = T_Await]) (auto intro: unary_ops)
  show "op = T_PlusPlus \<or> op = T_MinusMinus \<Longrightarrow> own f (E_Prefix op a)"
    by (rule own [where op = op]) (auto intro: unary_ops)
qed

lemma own_binary:
  assumes a: "chains f a" "printable f a" and b: "reads f b" "printable f b"
    and l: "l \<in> binary_levels" "op \<in> set (ops l)" and e: "e = mk_binary l a op b"
  shows "own f e"
proof -
  have ne: "op \<noteq> T_Eof" using l(2) ops_not_eof by auto
  have lv: "op_level op = l" using binds_ops [OF l(2)] by (simp add: op_level_def)
  have body: "print_body e = print_at l a @ tk op # print_at (Suc l) b" and pr: "prec e = l"
    using e lv by (auto simp: mk_binary_def)
  have "level (parsers n) l s = ploop (binary_step (parsers n) l) e (move (length (print_body e)) s)"
    if bf: "before n f (print_body e) t s" and t: "follows (Suc l) (tok_ty t)" for n s t
  proof -
    let ?k = "length (print_at l a)" and ?step = "binary_step (parsers n) l"
    obtain R where s: "ready n s" "ps_file s = f" and R: "rest s = print_at l a @ tk op # print_at (Suc l) b @ t # R"
      by (rule beforeE [OF bf]) (simp add: body)
    have "before n f (print_at l a) (tk op) s" using s R by (auto simp: before_def)
    moreover have "follows (Suc l) op" by (rule follows_op [OF l(2)]) (use l(2) ops_not_eof in auto)
    ultimately have 1: "level (parsers n) l s = ploop ?step a (move ?k s)"
      using a(1) l(1) by (simp add: chains_def)
    have rk: "rest (move ?k s) = tk op # print_at (Suc l) b @ t # R" using R by simp
    have ready: "ready n (move ?k s)" using s R by (intro ready_move) auto
    have "before n f (print_at (Suc l) b) t (move (Suc ?k) s)"
      using s R by (auto simp: before_def intro!: ready_move)
    then have "level (parsers n) (Suc l) (move (Suc ?k) s) = POk b (move (Suc ?k + length (print_at (Suc l) b)) s)"
      using b(1) t binary_levels_le [OF l(1)] by (simp add: reads_def)
    then have "?step a (move ?k s) = POk (e, True) (move (Suc ?k + length (print_at (Suc l) b)) s)"
      using rk R l(2) ne by (simp add: binary_step_def evals pbind_def [of "level r i" for r i] e nth_append)
    from binary_unroll [OF ready l(1) this] 1 show ?thesis by (simp add: body)
  qed
  then show ?thesis using l(1) pr binary_levels_le [OF l(1)] by (auto simp: own_def)
qed

section \<open>Lists of expressions\<close>

lemma first_of:
  assumes "printable f e" and "rest s = print_body e @ ts"
  obtains t0 ts' where "rest s = t0 # ts'" "primary_start (tok_ty t0) \<or> unary_start (tok_ty t0)"
  using print_starts [OF assms(1)] assms(2) by fastforce

lemma comma_step:
  assumes s: "later n f s" and rest: "rest s = print_body e @ t # R" and e: "reads f e" and t: "follows 0 (tok_ty t)"
  shows "pbind (r_expression (parsers n)) (\<lambda>x. pbind (match_token [T_Comma]) (\<lambda>m. preturn (acc @ [x], m))) s =
    POk (acc @ [e], tok_ty t = T_Comma) (move (length (print_body e) + (if tok_ty t = T_Comma then 1 else 0)) s)"
  using sub_expression(1) [OF s rest e t] rest t
  by (auto simp: pbind_def [of "r_expression r" for r] evals follows_def)

lemma comma_loop:
  assumes c: "tok_ty c \<in> {T_RightParen, T_RightBracket}"
  shows "es \<noteq> [] \<Longrightarrow> \<forall>e \<in> set es. reads f e \<and> printable f e \<Longrightarrow> later n f s \<Longrightarrow>
     rest s = commas (map print_body es) @ c # R \<Longrightarrow>
     ploop (\<lambda>xs. pbind (r_expression (parsers n)) (\<lambda>x. pbind (match_token [T_Comma]) (\<lambda>m. preturn (xs @ [x], m))))
       acc s = POk (acc @ es) (move (length (commas (map print_body es))) s)"
    (is "_ \<Longrightarrow> _ \<Longrightarrow> _ \<Longrightarrow> _ \<Longrightarrow> ploop ?body _ _ = _")
proof (induction es arbitrary: acc s)
  case (Cons e es)
  have e: "reads f e" "printable f e" using Cons.prems by auto
  show ?case
  proof (cases es)
    case Nil
    have "?body acc s = POk (acc @ [e], False) (move (length (print_body e)) s)"
      using comma_step [OF Cons.prems(3), of e c R] Cons.prems(4) c Nil e by auto
    from ploop_exit [of ?body, OF this] show ?thesis using Nil by (simp del: preturn_ok)
  next
    case (Cons e2 es2)
    have comm: "commas (map print_body (e # es)) = print_body e @ tk T_Comma # commas (map print_body es)"
      using Cons by simp
    let ?s = "move (Suc (length (print_body e))) s"
    have rs: "rest s = print_body e @ tk T_Comma # commas (map print_body es) @ c # R"
      using Cons.prems(4) comm by simp
    have st: "?body acc s = POk (acc @ [e], True) ?s"
      using comma_step [OF Cons.prems(3) rs e(1)] by simp
    obtain t0 ts where t0: "rest s = t0 # ts" by (rule first_of [OF e(2) rs])
    have "ploop ?body acc s = ploop ?body (acc @ [e]) ?s"
    proof (rule ploop_unroll [where T = "ps_tokens s" and c = "ps_current s"], goal_cases)
      case 1
      then show ?case by (rule ready_at [OF later_ready [OF Cons.prems(3) t0]])
    next
      case 2
      then show ?case by (rule st)
    next
      case (3 a d)
      then show ?case using later_low [OF Cons.prems(3) t0]
        by (intro runs_rules runs_consumes [OF prs.sub_expression [of "ps_tokens s" n]]) auto
    qed
    also have "\<dots> = POk ((acc @ [e]) @ es) (move (length (commas (map print_body es))) ?s)"
      by (rule Cons.IH) (use Cons.prems Cons rs in \<open>auto intro: later_move\<close>)
    finally show ?thesis using comm by (simp del: preturn_ok)
  qed
qed simp

lemma comma_list_ok:
  assumes s: "later n f s" and close: "tok_ty c = close" "close \<in> {T_RightParen, T_RightBracket}"
    and es: "\<forall>e \<in> set es. reads f e \<and> printable f e"
    and rest: "rest s = commas (map print_body es) @ c # R"
  shows "comma_list close (r_expression (parsers n)) s = POk es (move (length (commas (map print_body es))) s)"
proof (cases es)
  case Nil
  then show ?thesis using rest close by (auto simp: comma_list_def evals)
next
  case (Cons e es')
  obtain ts where ts: "rest s = print_body e @ ts"
    using rest Cons by (cases es') auto
  have "printable f e" using es Cons by simp
  then obtain t0 ts' where t0: "rest s = t0 # ts'" "primary_start (tok_ty t0) \<or> unary_start (tok_ty t0)"
    using first_of ts by blast
  then have "tok_ty t0 \<noteq> close" using close(2) by (auto simp: primary_start_def unary_start_def is_identifier_def)
  moreover have "comma_separated (r_expression (parsers n)) s =
      POk es (move (length (commas (map print_body es))) s)"
    using comma_loop [OF _ _ es s rest, of "[]"] close Cons by (simp add: comma_separated_def)
  ultimately show ?thesis using t0 by (simp add: comma_list_def evals)
qed

section \<open>Calls and property access\<close>

lemma own_postfix_form:
  assumes g: "calls f g" "printable f g" and e: "prec e = 14" "print_body e = print_at 14 g @ u # us"
    and u: "tok_ty u \<in> set (ops 14)"
    and step: "\<And>n s t R. later n f s \<Longrightarrow> rest s = u # us @ t # R \<Longrightarrow>
      call_step (parsers n) False (g, False) s = POk ((e, False), True) (move (Suc (length us)) s)"
  shows "own f e"
proof -
  have "call (parsers n) s = call_rest n e (move (length (print_body e)) s)"
    if b: "before n f (print_body e) t s" and t: "follows 15 (tok_ty t)" for n s t
  proof -
    let ?k = "length (print_at 14 g)"
    obtain R where s: "ready n s" "ps_file s = f" and R: "rest s = print_at 14 g @ u # us @ t # R"
      by (rule beforeE [OF b]) (simp add: e(2))
    have k: "0 < ?k" using print_at_not_nil [OF g(2)] by simp
    have lt: "later n f (move ?k s)" by (rule ready_later [OF s k])
    have rk: "rest (move ?k s) = u # us @ t # R" using R by simp
    have "before n f (print_at 14 g) u s" using s R by (auto simp: before_def)
    moreover have "follows 15 (tok_ty u)"
      by (rule follows_op [OF u]) (use u ops_not_eof in auto)
    ultimately have 1: "call (parsers n) s = call_rest n g (move ?k s)"
      using g(1) by (simp add: calls_def)
    show ?thesis
      using call_unroll [OF later_ready [OF lt rk] step [OF lt rk] _ later_low [OF lt rk]] 1 k
      by (simp add: call_rest_def pbind_def e(2))
  qed
  then show ?thesis using e(1) by (auto simp: own_def binary_levels_def)
qed

lemma ops_14: "set (ops 14) = {T_LeftParen, T_Dot, T_LeftBracket, T_PlusPlus, T_MinusMinus}"
  by (simp add: ops_def)

lemma own_get: "calls f obj \<Longrightarrow> printable f obj \<Longrightarrow> own f (E_Get obj name)"
  by (rule own_postfix_form [where g = obj and u = "tk T_Dot" and us = "[tk (T_Identifier name)]"])
     (auto simp: ops_14 call_step_def evals pbind_ok [where p = consume_property_name, OF property_name_ok]
        property_name_def)

lemma own_postfix:
  "calls f a \<Longrightarrow> printable f a \<Longrightarrow> op = T_PlusPlus \<or> op = T_MinusMinus \<Longrightarrow> own f (E_Postfix op a)"
  by (rule own_postfix_form [where g = a and u = "tk op" and us = "[]"])
     (auto simp: ops_14 call_step_def evals)

lemma own_get_index:
  assumes "calls f obj" "printable f obj" "reads f i"
  shows "own f (E_GetIndex obj i)"
proof (rule own_postfix_form [where g = obj and u = "tk T_LeftBracket" and us = "print_body i @ [tk T_RightBracket]"],
    goal_cases)
  case (6 n s t R)
  then show ?case
    using sub_expression(1) [of n f "move (Suc 0) s" i "tk T_RightBracket" "t # R"] assms
    by (simp add: call_step_def evals pbind_def [of "r_expression r" for r] later_move)
qed (use assms in \<open>auto simp: ops_14\<close>)

lemma own_call:
  assumes "calls f g" "printable f g" "\<forall>e \<in> set args. reads f e \<and> printable f e"
  shows "own f (E_Call g args)"
proof (rule own_postfix_form [where g = g and u = "tk T_LeftParen"
      and us = "commas (map print_body args) @ [tk T_RightParen]"], goal_cases)
  case (6 n s t R)
  then show ?case
    using comma_list_ok [of n f "move (Suc 0) s" "tk T_RightParen" T_RightParen args "t # R"] assms
    by (simp add: call_step_def evals pbind_def [of "comma_list c p" for c p] later_move)
qed (use assms in \<open>auto simp: ops_14\<close>)

lemma own_array:
  assumes "\<forall>e \<in> set es. reads f e \<and> printable f e"
  shows "own f (E_Array es)"
proof -
  have "primary (parsers n) s = POk (E_Array es) (move (length (print_body (E_Array es))) s)"
    if b: "before n f (print_body (E_Array es)) t s" for n s t
  proof -
    obtain R where s: "ready n s" "ps_file s = f"
      and R: "rest s = tk T_LeftBracket # commas (map print_body es) @ tk T_RightBracket # t # R"
      by (rule beforeE [OF b]) simp
    have "comma_list T_RightBracket (r_expression (parsers n)) (move (Suc 0) s) =
        POk es (move (length (commas (map print_body es))) (move (Suc 0) s))"
      by (rule comma_list_ok [of n f _ "tk T_RightBracket"]) (use s R assms in \<open>auto intro: ready_later\<close>)
    then show ?thesis using R
      by (simp add: primary_def primary_tail_def bracket_expr_def evals_primary pbind_def [of "comma_list c p" for c p])
  qed
  then show ?thesis by (auto simp: own_def binary_levels_def)
qed

section \<open>Object literals\<close>

definition pair_tokens :: "string \<times> expr \<Rightarrow> token list" where
  "pair_tokens p = tk (T_String (fst p)) # tk T_Colon # print_body (snd p)"

definition pair_step :: "nat \<Rightarrow> (string \<times> expr) list \<Rightarrow> ((string \<times> expr) list \<times> bool) P" where
  "pair_step n pairs =
     pbind (consume_prop_key ''Expected property key.'') (\<lambda>key.
     pbind (consume T_Colon ''Expected ':' after property key.'') (\<lambda>_.
     pbind (r_expression (parsers n)) (\<lambda>e.
     pbind (match_token [T_Comma]) (\<lambda>m.
       if \<not> m then preturn (pairs @ [(key, e)], False)
       else pbind (check T_RightBrace) (\<lambda>c. preturn (pairs @ [(key, e)], \<not> c))))))"

lemma pair_step_last:
  assumes "later n f s" and "rest s = pair_tokens p @ tk T_RightBrace # R" and "reads f (snd p)"
  shows "pair_step n acc s = POk (acc @ [p], False) (move (length (pair_tokens p)) s)"
  using sub_expression(1) [of n f "move 2 s" "snd p" "tk T_RightBrace" R] assms
  by (simp add: pair_step_def pair_tokens_def evals pbind_ok [where p = "consume_prop_key m" for m, OF prop_key_ok]
      pbind_def [of "r_expression r" for r] later_move numeral_2_eq_2)

lemma pair_step_more:
  assumes "later n f s" and "rest s = pair_tokens p @ tk T_Comma # pair_tokens p' @ R" and "reads f (snd p)"
  shows "pair_step n acc s = POk (acc @ [p], True) (move (Suc (length (pair_tokens p))) s)"
  using sub_expression(1) [of n f "move 2 s" "snd p" "tk T_Comma" "pair_tokens p' @ R"] assms
  by (simp add: pair_step_def pair_tokens_def evals pbind_ok [where p = "consume_prop_key m" for m, OF prop_key_ok]
      pbind_def [of "r_expression r" for r] later_move numeral_2_eq_2)

lemma pair_loop:
  "ps \<noteq> [] \<Longrightarrow> \<forall>p \<in> set ps. reads f (snd p) \<Longrightarrow> later n f s \<Longrightarrow>
     rest s = commas (map pair_tokens ps) @ tk T_RightBrace # R \<Longrightarrow>
     ploop (pair_step n) acc s = POk (acc @ ps) (move (length (commas (map pair_tokens ps))) s)"
proof (induction ps arbitrary: acc s)
  case (Cons p ps)
  show ?case
  proof (cases ps)
    case Nil
    then have "pair_step n acc s = POk (acc @ [p], False) (move (length (pair_tokens p)) s)"
      using Cons.prems by (intro pair_step_last) auto
    from ploop_exit [of "pair_step n", OF this] show ?thesis using Nil by simp
  next
    case (Cons p2 ps2)
    have comm: "commas (map pair_tokens (p # ps)) = pair_tokens p @ tk T_Comma # commas (map pair_tokens ps)"
      using Cons by simp
    let ?s = "move (Suc (length (pair_tokens p))) s"
    have rs: "rest s = pair_tokens p @ tk T_Comma # commas (map pair_tokens ps) @ tk T_RightBrace # R"
      using Cons.prems(4) comm by simp
    moreover obtain R' where "commas (map pair_tokens ps) @ tk T_RightBrace # R = pair_tokens p2 @ R'"
      using Cons by (cases ps2) auto
    ultimately have st: "pair_step n acc s = POk (acc @ [p], True) ?s"
      using Cons.prems by (intro pair_step_more [where p' = p2 and R = R']) auto
    have t0: "rest s = tk (T_String (fst p)) # tk T_Colon # print_body (snd p) @ tk T_Comma #
        commas (map pair_tokens ps) @ tk T_RightBrace # R"
      using rs by (simp add: pair_tokens_def)
    have "ploop (pair_step n) acc s = ploop (pair_step n) (acc @ [p]) ?s"
    proof (rule ploop_unroll [where T = "ps_tokens s" and c = "ps_current s"], goal_cases)
      case 1
      then show ?case by (rule ready_at [OF later_ready [OF Cons.prems(3) t0]])
    next
      case 2
      then show ?case by (rule st)
    next
      case (3 a d)
      then show ?case unfolding pair_step_def
        using later_low [OF Cons.prems(3) t0]
        by (intro runs_rules runs_consumes [OF prs.sub_expression [of "ps_tokens s" n]]) auto
    qed
    also have "\<dots> = POk ((acc @ [p]) @ ps) (move (length (commas (map pair_tokens ps))) ?s)"
      by (rule Cons.IH) (use Cons.prems Cons rs in \<open>auto intro: later_move\<close>)
    finally show ?thesis using comm by simp
  qed
qed simp

lemma print_object: "print_body (E_Object ps) = tk T_LeftBrace # commas (map pair_tokens ps) @ [tk T_RightBrace]"
  by (simp add: pair_tokens_def [abs_def])

lemma own_object:
  assumes "\<forall>p \<in> set ps. reads f (snd p)"
  shows "own f (E_Object ps)"
proof -
  have "primary (parsers n) s = POk (E_Object ps) (move (length (print_body (E_Object ps))) s)"
    if b: "before n f (print_body (E_Object ps)) t s" for n s t
  proof -
    obtain R where s: "ready n s" "ps_file s = f"
      and R: "rest s = tk T_LeftBrace # commas (map pair_tokens ps) @ tk T_RightBrace # t # R"
      by (rule beforeE [OF b]) (simp add: print_object del: print_body.simps)
    have "key_values_until (parsers n) (consume_prop_key ''Expected property key.'') (move (Suc 0) s) =
        POk ps (move (length (commas (map pair_tokens ps))) (move (Suc 0) s))"
    proof (cases ps)
      case Nil
      then show ?thesis using R by (simp add: key_values_until_def evals)
    next
      case (Cons p ps')
      obtain R' where "rest (move (Suc 0) s) = pair_tokens p @ R'"
        using R Cons by (cases ps') auto
      moreover have "ploop (pair_step n) [] (move (Suc 0) s) =
          POk ([] @ ps) (move (length (commas (map pair_tokens ps))) (move (Suc 0) s))"
        by (rule pair_loop) (use Cons R s assms in \<open>auto intro: ready_later\<close>)
      ultimately show ?thesis
        by (simp add: key_values_until_def pair_step_def [abs_def] pair_tokens_def evals)
    qed
    then show ?thesis using R
      by (simp add: primary_def primary_tail_def brace_expr_def evals_primary print_object
          pbind_def [of "key_values_until r k" for r k] del: print_body.simps)
  qed
  then show ?thesis by (auto simp: own_def binary_levels_def)
qed

section \<open>Assignment\<close>

text \<open>An assignment reads its target as a ternary, then the value.\<close>

lemma own_assignment_form:
  assumes g: "own f g" "printable f g" "14 \<le> prec g" and v: "reads f v" "printable f v"
    and e: "prec e = 0" "print_body e = print_body g @ tk T_Equal # print_body v"
    and as: "assign_to g None v = Some e"
  shows "own f e"
proof -
  have "level (parsers n) 0 s = POk e (move (length (print_body e)) s)"
    if b: "before n f (print_body e) t s" and t: "follows 0 (tok_ty t)" for n s t
  proof -
    let ?k = "length (print_body g)"
    obtain R where s: "ready n s" "ps_file s = f" and R: "rest s = print_body g @ tk T_Equal # print_body v @ t # R"
      by (rule beforeE [OF b]) (simp add: e(2))
    have "before n f (print_body g) (tk T_Equal) s" using s R by (auto simp: before_def)
    moreover have "follows 1 T_Equal" by (rule follows_op [of _ 0]) (simp_all add: ops_def)
    ultimately have 1: "ternary (parsers n) s = POk g (move ?k s)"
      using own_reads_down [OF g(1,2), of 1 n "tk T_Equal" s] g(3) by (simp add: level_def)
    have "r_assignment (parsers n) (move (Suc ?k) s) = POk v (move (length (print_body v)) (move (Suc ?k) s))"
      by (rule sub_expression(2) [OF _ _ v(1) t]) (use s R in \<open>auto intro: ready_later\<close>)
    moreover have "compound_op T_Equal = None" by (simp add: compound_op_def)
    ultimately show ?thesis using 1 R as
      by (simp add: level_def assignment_def evals pbind_def [of "ternary r" for r]
          pbind_def [of "r_assignment r" for r] nth_append e(2))
  qed
  then show ?thesis using e(1) by (auto simp: own_def binary_levels_def)
qed

section \<open>Every printable expression is read back\<close>

lemma printable_own: "printable f e \<Longrightarrow> own f e"
proof (induction e rule: measure_induct_rule [where f = size])
  case (less e)
  have sub: "own f a \<and> reads f a \<and> chains f a \<and> calls f a" if "size a < size e" "printable f a" for a
    using less.IH [OF that] own_reads own_chains own_calls that(2) by blast
  show ?case
  proof (cases e)
    case (E_Literal v)
    then show ?thesis by (simp add: own_literal)
  next
    case (E_Variable x loc)
    then show ?thesis using less.prems by (simp add: own_variable)
  next
    case (E_Unary op a)
    then show ?thesis using less.prems sub [of a] own_unary(1) [of f a op] by simp
  next
    case (E_Await a)
    then show ?thesis using less.prems sub [of a] own_unary(2) [of f a] by simp
  next
    case (E_Prefix op a)
    then show ?thesis using less.prems sub [of a] own_unary(3) [of f a op] by simp
  next
    case (E_Postfix op a)
    then show ?thesis using less.prems sub [of a] own_postfix [of f a op] by simp
  next
    case (E_Get obj name)
    then show ?thesis using less.prems sub [of obj] own_get [of f obj name] by simp
  next
    case (E_GetIndex obj i)
    then show ?thesis using less.prems sub [of obj] sub [of i] own_get_index [of f obj i] by simp
  next
    case (E_Assign x v loc)
    have v: "reads f v" "printable f v" "loc_file loc = f" using E_Assign less.prems sub [of v] by auto
    show ?thesis
      by (rule own_assignment_form [where g = "E_Variable x loc" and v = v])
         (simp_all add: E_Assign v own_variable assign_to_def)
  next
    case (E_Set obj name v)
    have v: "reads f v" "printable f v" "printable f obj" "calls f obj"
      using E_Set less.prems sub [of v] sub [of obj] by auto
    show ?thesis
      by (rule own_assignment_form [where g = "E_Get obj name" and v = v])
         (simp_all add: E_Set v own_get assign_to_def)
  next
    case (E_SetIndex obj i v)
    have v: "reads f v" "printable f v" "printable f obj" "calls f obj" "reads f i" "printable f i"
      using E_SetIndex less.prems sub [of v] sub [of obj] sub [of i] by auto
    show ?thesis
      by (rule own_assignment_form [where g = "E_GetIndex obj i" and v = v])
         (simp_all add: E_SetIndex v own_get_index assign_to_def)
  next
    case (E_Binary a op b)
    then obtain l where l: "l \<in> {4, 5, 6, 7, 8, 10, 11, 12}" "op \<in> set (ops l)" using less.prems by auto
    have "chains f a" "printable f a" "reads f b" "printable f b"
      using E_Binary less.prems sub [of a] sub [of b] by auto
    moreover have "e = mk_binary l a op b" "l \<in> binary_levels"
      using E_Binary l(1) by (auto simp: mk_binary_def binary_levels_def)
    ultimately show ?thesis using l(2) by (intro own_binary [of f a b l op])
  next
    case (E_Logical a op b)
    define l where "l = (if op = T_Or then 2 else 3 :: nat)"
    have l: "l \<in> binary_levels" "op \<in> set (ops l)" "e = mk_binary l a op b"
      using E_Logical less.prems by (auto simp: l_def binary_levels_def ops_def mk_binary_def)
    have "chains f a" "printable f a" "reads f b" "printable f b"
      using E_Logical less.prems sub [of a] sub [of b] by auto
    then show ?thesis using l by (intro own_binary [of f a b l op])
  next
    case (E_Call g args)
    have "\<forall>a \<in> set args. size a < size e" using E_Call by (auto dest: size_list_estimation' [where f = size])
    then show ?thesis using E_Call less.prems sub [of g] sub by (auto simp: list_all_iff intro!: own_call)
  next
    case (E_Array es)
    have "\<forall>a \<in> set es. size a < size e" using E_Array by (auto dest: size_list_estimation' [where f = size])
    then show ?thesis using E_Array less.prems sub by (auto simp: list_all_iff intro!: own_array)
  next
    case (E_Object ps)
    have "size (snd p) < size e" if "p \<in> set ps" for p
      using size_list_estimation' [OF that, of "size (snd p)" "size_prod (\<lambda>_. 0) size"] E_Object by (cases p) auto
    then show ?thesis using E_Object less.prems sub by (auto simp: list_all_iff intro!: own_object)
  qed (use less.prems in simp_all)
qed

section \<open>Programs\<close>

text \<open>A program that prints each of the expressions.\<close>

definition print_line :: "expr \<Rightarrow> token list" where
  "print_line e = [tk T_Print, tk T_LeftParen] @ print_body e @ [tk T_RightParen]"

definition print_program :: "expr list \<Rightarrow> token list" where
  "print_program es = concat (map print_line es) @ [tk T_Eof]"

lemma declaration_print:
  assumes e: "printable f e" and s: "ready n s" "ps_file s = f" and R: "rest s = print_line e @ t # R"
  shows "declaration_stmt (parsers n) s = POk (S_Print e) (move (length (print_line e)) s)"
proof -
  have r: "rest s = tk T_Print # tk T_LeftParen # print_body e @ tk T_RightParen # t # R"
    using R by (simp add: print_line_def)
  have "before n f (print_body e) (tk T_RightParen) (move 2 s)"
    using s r by (auto simp: before_def numeral_2_eq_2 intro!: ready_move)
  then have "level (parsers n) 0 (move 2 s) = POk e (move (length (print_body e)) (move 2 s))"
    by (rule own_reads_down [OF printable_own [OF e] e, rotated 2]) simp_all
  then have "expression (parsers n) (move 2 s) = POk e (move (length (print_body e)) (move 2 s))"
    by (simp add: level_def expression_def)
  moreover have "at_function s = POk False s" using r by (simp add: at_function_def evals)
  moreover have "assignment_ahead s = POk False s"
    using r by (simp add: assignment_ahead_def evals ident_like_def is_identifier_def soft_keywords_def)
  ultimately show ?thesis using r
    by (simp add: declaration_stmt_def statement_def print_stmt_def evals pbind_def [of at_function]
        pbind_def [of assignment_ahead] pbind_def [of "expression r" for r] print_line_def numeral_2_eq_2)
qed

lemma program_loop:
  assumes n: "consumes T 0 (r_declaration (parsers (Suc n)))"
  shows "list_all (printable f) es \<Longrightarrow> ready n s \<Longrightarrow> ps_file s = f \<Longrightarrow> ps_tokens s = T \<Longrightarrow>
     rest s = concat (map print_line es) @ [tk T_Eof] \<Longrightarrow>
     ploop (\<lambda>xs. pbind (at_any []) (\<lambda>e.
         if e then preturn (xs, False)
         else pbind (r_declaration (parsers (Suc n))) (\<lambda>x. preturn (xs @ [x], True)))) acc s =
       POk (acc @ map S_Print es) (move (length (concat (map print_line es))) s)"
    (is "_ \<Longrightarrow> _ \<Longrightarrow> _ \<Longrightarrow> _ \<Longrightarrow> _ \<Longrightarrow> ploop ?body _ _ = _")
proof (induction es arbitrary: acc s)
  case Nil
  then have "?body acc s = POk (acc, False) s"
    by (simp add: at_any.simps pbind_ok [OF is_at_end_ok])
  from ploop_exit [of ?body, OF this] show ?case by (simp del: preturn_ok)
next
  case (Cons e es)
  let ?s = "move (length (print_line e)) s"
  have R: "rest s = print_line e @ concat (map print_line es) @ [tk T_Eof]" using Cons.prems by simp
  obtain t R' where t: "concat (map print_line es) @ [tk T_Eof] = t # R'"
    by (cases "concat (map print_line es) @ [tk T_Eof]") auto
  have "declaration_stmt (parsers n) s = POk (S_Print e) ?s"
    by (rule declaration_print [of f e n s t R']) (use Cons.prems R t in auto)
  then have d: "r_declaration (parsers (Suc n)) s = POk (S_Print e) ?s" by (simp add: parsers.simps)
  have "rest s = tk T_Print # tk T_LeftParen # print_body e @ tk T_RightParen # t # R'"
    using R t by (simp add: print_line_def)
  then have st: "?body acc s = POk (acc @ [S_Print e], True) ?s"
    using d by (simp add: at_any.simps pbind_ok [OF is_at_end_ok] pbind_def [of "r_declaration r" for r])
  have "ploop ?body acc s = ploop ?body (acc @ [S_Print e]) ?s"
  proof (rule ploop_unroll [where T = T and c = "ps_current s"], goal_cases)
    case 1
    then show ?case using ready_at [OF Cons.prems(2)] Cons.prems(4) by simp
  next
    case 2
    then show ?case by (rule st)
  next
    case (3 a d)
    then show ?case by (intro runs_rules runs_consumes [OF n]) auto
  qed
  also have "\<dots> = POk ((acc @ [S_Print e]) @ map S_Print es) (move (length (concat (map print_line es))) ?s)"
    by (rule Cons.IH) (use Cons.prems R in \<open>auto intro!: ready_move\<close>)
  finally show ?case by (simp del: preturn_ok)
qed

lemma parse_print_program:
  assumes "list_all (printable path) es"
  shows "parse (with_file_path path (parser_new (print_program es))) =
    POk (map S_Print es) (move (length (concat (map print_line es))) (with_file_path path (parser_new (print_program es))))"
proof -
  let ?T = "print_program es" and ?s = "with_file_path path (parser_new (print_program es))"
  have eof: "eof_ended ?T" by (simp add: eof_ended_def print_program_def)
  have T: "ps_tokens ?s = ?T" "ps_file ?s = path" "rest ?s = ?T"
    by (simp_all add: with_file_path_def parser_new_def rest_def)
  have rest: "rest ?s = concat (map print_line es) @ [tk T_Eof]" using T(3) by (simp add: print_program_def)
  have ready: "ready (length ?T) ?s" using eof T by (simp add: ready_def print_program_def)
  have "consumes ?T 0 (r_declaration (parsers (Suc (length ?T))))"
    using prs.declaration_stmt_runs [of ?T "length ?T"] by (simp add: parsers.simps)
  from program_loop [OF this assms ready T(2,1) rest, of "[]"] show ?thesis
    unfolding parse_def until_def T(1) by simp
qed

text \<open>C4: The parser inverts the reference printer: a program that prints any list of expressions, each
  written with only the parentheses that precedence and associativity require, parses to exactly those
  expressions, locations included. So the operator table, left associativity of the binary operators, right
  associativity of assignment, unary and postfix forms, calls, property and index access, array and object
  literals are read as the table says, and the speculative reading of parentheses as an arrow function's
  head leaves no trace.\<close>

theorem parse_inverts_print:
  assumes "list_all (printable path) es"
  shows "\<exists>s. parse (with_file_path path (parser_new (print_program es))) = POk (map S_Print es) s"
  using parse_print_program [OF assms] by blast

text \<open>\<^verbatim>\<open>print((a - b) - (c - a) * -f(a))\<close> loses the parentheses it does not need: those of the left difference.\<close>

theorem parse_inverts_print_witness:
  "let l = \<lparr>loc_file = ''m.er'', loc_line = 1, loc_col = 7\<rparr>; v = (\<lambda>x. E_Variable x l);
       e = E_Binary (E_Binary (v ''a'') T_Minus (v ''b'')) T_Minus
             (E_Binary (E_Binary (v ''c'') T_Minus (v ''a'')) T_Star
                (E_Unary T_Minus (E_Call (v ''f'') [v ''a''])))
   in map tok_ty (print_program [e]) =
        [T_Print, T_LeftParen, T_Identifier ''a'', T_Minus, T_Identifier ''b'', T_Minus,
         T_LeftParen, T_Identifier ''c'', T_Minus, T_Identifier ''a'', T_RightParen, T_Star, T_Minus,
         T_Identifier ''f'', T_LeftParen, T_Identifier ''a'', T_RightParen, T_RightParen, T_Eof] \<and>
      (\<exists>s. parse (with_file_path ''m.er'' (parser_new (print_program [e]))) = POk [S_Print e] s)"
proof -
  let ?l = "\<lparr>loc_file = ''m.er'', loc_line = 1, loc_col = 7\<rparr>"
  let ?v = "\<lambda>x. E_Variable x ?l"
  let ?e = "E_Binary (E_Binary (?v ''a'') T_Minus (?v ''b'')) T_Minus
             (E_Binary (E_Binary (?v ''c'') T_Minus (?v ''a'')) T_Star
                (E_Unary T_Minus (E_Call (?v ''f'') [?v ''a''])))"
  have "op_level T_Minus = 11" "op_level T_Star = 12"
    using binds_ops [of T_Minus 11] binds_ops [of T_Star 12] by (simp_all add: op_level_def ops_def)
  then have "map tok_ty (print_program [?e]) =
        [T_Print, T_LeftParen, T_Identifier ''a'', T_Minus, T_Identifier ''b'', T_Minus,
         T_LeftParen, T_Identifier ''c'', T_Minus, T_Identifier ''a'', T_RightParen, T_Star, T_Minus,
         T_Identifier ''f'', T_LeftParen, T_Identifier ''a'', T_RightParen, T_RightParen, T_Eof]"
    by (simp add: print_program_def print_line_def wrap_def)
  moreover have "list_all (printable ''m.er'') [?e]" by (simp add: ops_def)
  ultimately show ?thesis using parse_inverts_print [of "''m.er''" "[?e]"] by (simp add: Let_def)
qed

end
