(* ===== verification/Comp_Structs.thy ===== *)
theory Comp_Structs
  imports Ast Prelude
begin

text \<open>
  The struct tables of the compiler, \<^verbatim>\<open>crates/eronom-vm/src/compiler/structs.rs\<close>: collecting the
  struct and interface declarations of a program, and flattening each struct with what it embeds,
  with the detection of cyclic embeddings. A \<^verbatim>\<open>HashMap\<close> filled by a walk is a list of entries
  in the order of their first insertion, looked up with \<open>map_of\<close>; nothing here depends on the
  order. The lemmas show that flattening always ends, what it puts in the table, and that
  flattening the declared structs succeeds exactly when embeddings are declared and acyclic.
\<close>

section \<open>Tables\<close>

record struct_info =
  si_composed :: "string list"
  si_fields :: "(string \<times> string) list"
  si_methods :: "(string \<times> string list \<times> stmt) list"

record interface_info =
  if_fields :: "(string \<times> string) list"
  if_methods :: "(string \<times> string list) list"

type_synonym 'a table = "(string \<times> 'a) list"

text \<open>\<^verbatim>\<open>HashMap::insert\<close> on a table.\<close>

fun tab_insert :: "string \<Rightarrow> 'a \<Rightarrow> 'a table \<Rightarrow> 'a table" where
  "tab_insert k v [] = [(k, v)]"
| "tab_insert k v ((k', v') # t) = (if k' = k then (k, v) # t else (k', v') # tab_insert k v t)"

lemma map_of_tab_insert [simp]: "map_of (tab_insert k v t) = (map_of t)(k \<mapsto> v)"
  by (induction k v t rule: tab_insert.induct) (auto simp: fun_eq_iff)

lemma keys_tab_insert: "fst ` set (tab_insert k v t) = insert k (fst ` set t)"
  by (induction k v t rule: tab_insert.induct) auto

lemma distinct_tab_insert: "distinct (map fst t) \<Longrightarrow> distinct (map fst (tab_insert k v t))"
proof (induction k v t rule: tab_insert.induct)
  case (2 k v k' v' t)
  have "fst ` set (tab_insert k v t) = insert k (fst ` set t)" by (rule keys_tab_insert)
  with 2 show ?case by auto
qed simp

section \<open>Collecting declarations\<close>

fun collect_structs_expr :: "expr \<Rightarrow> struct_info table \<Rightarrow> struct_info table"
and collect_struct :: "stmt \<Rightarrow> struct_info table \<Rightarrow> struct_info table"
and collect_struct_case :: "switch_case \<Rightarrow> struct_info table \<Rightarrow> struct_info table" where
  "collect_structs_expr (E_Function ps r body is_async is_sync) m = collect_struct body m"
| "collect_structs_expr (E_Call callee args) m =
     fold collect_structs_expr args (collect_structs_expr callee m)"
| "collect_structs_expr (E_Binary left opr right) m =
     collect_structs_expr right (collect_structs_expr left m)"
| "collect_structs_expr (E_Logical left opr right) m =
     collect_structs_expr right (collect_structs_expr left m)"
| "collect_structs_expr (E_Unary opr inner) m = collect_structs_expr inner m"
| "collect_structs_expr (E_Prefix opr inner) m = collect_structs_expr inner m"
| "collect_structs_expr (E_Postfix opr inner) m = collect_structs_expr inner m"
| "collect_structs_expr (E_Spawn inner) m = collect_structs_expr inner m"
| "collect_structs_expr (E_Await inner) m = collect_structs_expr inner m"
| "collect_structs_expr (E_New inner) m = collect_structs_expr inner m"
| "collect_structs_expr (E_Ternary c t e) m =
     collect_structs_expr e (collect_structs_expr t (collect_structs_expr c m))"
| "collect_structs_expr (E_Array items) m = fold collect_structs_expr items m"
| "collect_structs_expr (E_Object ps) m = fold (\<lambda>(k, v). collect_structs_expr v) ps m"
| "collect_structs_expr (E_StructInst s ps l) m = fold (\<lambda>(k, v). collect_structs_expr v) ps m"
| "collect_structs_expr _ m = m"
| "collect_struct (S_Struct name composed fs ms l) m =
     tab_insert name \<lparr>si_composed = composed, si_fields = fs, si_methods = ms\<rparr> m"
| "collect_struct (S_Block ss) m = fold collect_struct ss m"
| "collect_struct (S_If c t e) m =
     (case e of None \<Rightarrow> collect_struct t m | Some eb \<Rightarrow> collect_struct eb (collect_struct t m))"
| "collect_struct (S_While c body) m = collect_struct body m"
| "collect_struct (S_For x start stop body) m = collect_struct body m"
| "collect_struct (S_ForIn x iter body) m = collect_struct body m"
| "collect_struct (S_Concurrent body) m = collect_struct body m"
| "collect_struct (S_Sync body) m = collect_struct body m"
| "collect_struct (S_Try b c f) m =
     (case f of None \<Rightarrow> \<lambda>m. m | Some fb \<Rightarrow> \<lambda>m. collect_struct fb m)
       ((case c of None \<Rightarrow> \<lambda>m. m | Some (x, cb) \<Rightarrow> \<lambda>m. collect_struct cb m) (collect_struct b m))"
| "collect_struct (S_Switch e cases d) m =
     (case d of None \<Rightarrow> \<lambda>m. m | Some db \<Rightarrow> \<lambda>m. collect_struct db m)
       (fold collect_struct_case cases m)"
| "collect_struct (S_VarDecl x t c init l) m = collect_structs_expr init m"
| "collect_struct (S_Expr e) m = collect_structs_expr e m"
| "collect_struct (S_Print e) m = collect_structs_expr e m"
| "collect_struct (S_Throw e) m = collect_structs_expr e m"
| "collect_struct (S_Return (Some e) l) m = collect_structs_expr e m"
| "collect_struct (S_Export inner) m = collect_struct inner m"
| "collect_struct _ m = m"
| "collect_struct_case (SwitchCase vs body) m = collect_struct body m"

definition collect_structs :: "stmt list \<Rightarrow> struct_info table \<Rightarrow> struct_info table" where
  "collect_structs stmts m = fold collect_struct stmts m"

fun collect_interface :: "stmt \<Rightarrow> interface_info table \<Rightarrow> interface_info table"
and collect_interface_case :: "switch_case \<Rightarrow> interface_info table \<Rightarrow> interface_info table" where
  "collect_interface (S_Interface name fs ms l) m =
     tab_insert name \<lparr>if_fields = fs, if_methods = ms\<rparr> m"
| "collect_interface (S_Block ss) m = fold collect_interface ss m"
| "collect_interface (S_If c t e) m =
     (case e of None \<Rightarrow> collect_interface t m
      | Some eb \<Rightarrow> collect_interface eb (collect_interface t m))"
| "collect_interface (S_While c body) m = collect_interface body m"
| "collect_interface (S_For x start stop body) m = collect_interface body m"
| "collect_interface (S_ForIn x iter body) m = collect_interface body m"
| "collect_interface (S_Concurrent body) m = collect_interface body m"
| "collect_interface (S_Sync body) m = collect_interface body m"
| "collect_interface (S_Try b c f) m =
     (case f of None \<Rightarrow> \<lambda>m. m | Some fb \<Rightarrow> \<lambda>m. collect_interface fb m)
       ((case c of None \<Rightarrow> \<lambda>m. m | Some (x, cb) \<Rightarrow> \<lambda>m. collect_interface cb m) (collect_interface b m))"
| "collect_interface (S_Switch e cases d) m =
     (case d of None \<Rightarrow> \<lambda>m. m | Some db \<Rightarrow> \<lambda>m. collect_interface db m)
       (fold collect_interface_case cases m)"
| "collect_interface (S_Export inner) m = collect_interface inner m"
| "collect_interface _ m = m"
| "collect_interface_case (SwitchCase vs body) m = collect_interface body m"

definition collect_interfaces :: "stmt list \<Rightarrow> interface_info table \<Rightarrow> interface_info table" where
  "collect_interfaces stmts m = fold collect_interface stmts m"

section \<open>Flattening\<close>

text \<open>Adding what is not there yet, by name; overriding what is there, by name.\<close>

definition add_missing :: "('a \<times> 'b) list \<Rightarrow> ('a \<times> 'b) list \<Rightarrow> ('a \<times> 'b) list" where
  "add_missing news all = fold (\<lambda>f all. if \<exists>g \<in> set all. fst g = fst f then all else all @ [f]) news all"

definition add_ancestors :: "string list \<Rightarrow> string list \<Rightarrow> string list" where
  "add_ancestors news all = fold (\<lambda>a all. if a \<in> set all then all else all @ [a]) news all"

definition override_one :: "'a \<times> 'b \<Rightarrow> ('a \<times> 'b) list \<Rightarrow> ('a \<times> 'b) list" where
  "override_one f all =
     (case position (\<lambda>g. fst g = fst f) all of Some i \<Rightarrow> all[i := f] | None \<Rightarrow> all @ [f])"

definition override_all :: "('a \<times> 'b) list \<Rightarrow> ('a \<times> 'b) list \<Rightarrow> ('a \<times> 'b) list" where
  "override_all news all = fold override_one news all"

datatype flatten_error = Cyclic_embedding string | Struct_not_defined string

definition empty_struct :: struct_info where
  "empty_struct = \<lparr>si_composed = [], si_fields = [], si_methods = []\<rparr>"

lemma empty_struct_simps [simp]:
  "si_composed empty_struct = []" "si_fields empty_struct = []" "si_methods empty_struct = []"
  by (simp_all add: empty_struct_def)

text \<open>One parent of the loop over \<^verbatim>\<open>raw.composed\<close>, given its flattened form.\<close>

definition merge_parent :: "string \<Rightarrow> struct_info \<Rightarrow> struct_info \<Rightarrow> struct_info" where
  "merge_parent parent p acc =
     \<lparr>si_composed = add_ancestors (si_composed p) (si_composed acc @ [parent]),
      si_fields = add_missing (si_fields p) (si_fields acc),
      si_methods = add_missing (si_methods p) (si_methods acc)\<rparr>"

definition override_struct :: "struct_info \<Rightarrow> struct_info \<Rightarrow> struct_info" where
  "override_struct raw acc =
     acc\<lparr>si_fields := override_all (si_fields raw) (si_fields acc),
         si_methods := override_all (si_methods raw) (si_methods acc)\<rparr>"

text \<open>
  \<^verbatim>\<open>flatten_struct\<close>. The result has the table of flattened structs with it; the set of the
  structs being visited grows only downwards, since each call removes its own name before it returns
  and an error ends everything. The outer option is the fuel.
\<close>

type_synonym flatten_result = "(flatten_error + struct_info \<times> struct_info table) option"

fun flatten_struct ::
    "nat \<Rightarrow> struct_info table \<Rightarrow> string \<Rightarrow> struct_info table \<Rightarrow> string set \<Rightarrow> flatten_result"
and flatten_parents ::
    "nat \<Rightarrow> struct_info table \<Rightarrow> string list \<Rightarrow> struct_info \<Rightarrow> struct_info table \<Rightarrow> string set \<Rightarrow>
       flatten_result" where
  "flatten_struct 0 raws name resolved visiting = None"
| "flatten_struct (Suc n) raws name resolved visiting =
     (case map_of resolved name of
        Some info \<Rightarrow> Some (Inr (info, resolved))
      | None \<Rightarrow>
          if name \<in> visiting then Some (Inl (Cyclic_embedding name))
          else (case map_of raws name of
              None \<Rightarrow> Some (Inl (Struct_not_defined name))
            | Some raw \<Rightarrow>
                (case flatten_parents n raws (si_composed raw) empty_struct resolved
                        (insert name visiting) of
                   None \<Rightarrow> None
                 | Some (Inl e) \<Rightarrow> Some (Inl e)
                 | Some (Inr (acc, resolved')) \<Rightarrow>
                     (let flat = override_struct raw acc
                      in Some (Inr (flat, tab_insert name flat resolved'))))))"
| "flatten_parents n raws [] acc resolved visiting = Some (Inr (acc, resolved))"
| "flatten_parents n raws (p # ps) acc resolved visiting =
     (case flatten_struct n raws p resolved visiting of
        None \<Rightarrow> None
      | Some (Inl e) \<Rightarrow> Some (Inl e)
      | Some (Inr (info, resolved')) \<Rightarrow>
          flatten_parents n raws ps (merge_parent p info acc) resolved' visiting)"

text \<open>The loop of \<^verbatim>\<open>compile\<close> over the declared structs.\<close>

fun flatten_names :: "nat \<Rightarrow> struct_info table \<Rightarrow> string list \<Rightarrow> struct_info table \<Rightarrow>
    (flatten_error + struct_info table) option" where
  "flatten_names n raws [] resolved = Some (Inr resolved)"
| "flatten_names n raws (name # names) resolved =
     (case flatten_struct n raws name resolved {} of
        None \<Rightarrow> None
      | Some (Inl e) \<Rightarrow> Some (Inl e)
      | Some (Inr (info, resolved')) \<Rightarrow> flatten_names n raws names resolved')"

definition flatten_all :: "struct_info table \<Rightarrow> (flatten_error + struct_info table) option" where
  "flatten_all raws = flatten_names (length raws + 2) raws (map fst raws) []"

section \<open>Flattening ends\<close>

lemma flatten_ends:
  "card (fst ` set raws - V) < n \<Longrightarrow> flatten_struct n raws name t V \<noteq> None"
  "card (fst ` set raws - V) < n \<Longrightarrow> flatten_parents n raws ps acc t V \<noteq> None"
proof (induction n raws name t V and n raws ps acc t V
    rule: flatten_struct_flatten_parents.induct)
  case (2 n raws name t V)
  show ?case
  proof (cases "map_of t name = None \<and> name \<notin> V \<and> map_of raws name \<noteq> None")
    case True
    then obtain raw where raw: "map_of raws name = Some raw" by auto
    have "name \<in> fst ` set raws - V" using True map_of_SomeD [OF raw] by force
    then have "card (fst ` set raws - insert name V) < card (fst ` set raws - V)"
      by (intro psubset_card_mono) auto
    then have "flatten_parents n raws (si_composed raw) empty_struct t (insert name V) \<noteq> None"
      using 2 True raw by simp
    then show ?thesis using True raw by (auto simp: Let_def split: sum.split)
  qed (auto split: option.split)
next
  case (4 n raws p ps acc t V)
  then show ?case by (auto split: option.split sum.split)
qed auto

section \<open>What flattening computes\<close>

definition embeds :: "struct_info table \<Rightarrow> (string \<times> string) set" where
  "embeds raws = {(s, p). \<exists>raw. map_of raws s = Some raw \<and> p \<in> set (si_composed raw)}"

definition merge_all :: "struct_info table \<Rightarrow> string list \<Rightarrow> struct_info \<Rightarrow> struct_info" where
  "merge_all t ps acc = fold (\<lambda>p. merge_parent p (the (map_of t p))) ps acc"

text \<open>A table that holds the flattened form of some structs, with everything they embed.\<close>

definition flat_table :: "struct_info table \<Rightarrow> struct_info table \<Rightarrow> bool" where
  "flat_table raws t \<longleftrightarrow>
     (\<forall>name info. map_of t name = Some info \<longrightarrow>
        (\<exists>raw. map_of raws name = Some raw \<and> set (si_composed raw) \<subseteq> dom (map_of t) \<and>
           info = override_struct raw (merge_all t (si_composed raw) empty_struct) \<and>
           set (si_composed info) = {a. (name, a) \<in> (embeds raws)\<^sup>+} \<and>
           (name, name) \<notin> (embeds raws)\<^sup>+))"

lemma flat_tableD:
  assumes "flat_table raws t" "map_of t name = Some info" "map_of raws name = Some raw"
  shows "set (si_composed raw) \<subseteq> dom (map_of t)"
    and "info = override_struct raw (merge_all t (si_composed raw) empty_struct)"
    and "set (si_composed info) = {a. (name, a) \<in> (embeds raws)\<^sup>+}"
    and "(name, name) \<notin> (embeds raws)\<^sup>+"
proof -
  from assms obtain r where "map_of raws name = Some r" "set (si_composed r) \<subseteq> dom (map_of t)"
    "info = override_struct r (merge_all t (si_composed r) empty_struct)"
    "set (si_composed info) = {a. (name, a) \<in> (embeds raws)\<^sup>+}" "(name, name) \<notin> (embeds raws)\<^sup>+"
    unfolding flat_table_def by blast
  then show "set (si_composed raw) \<subseteq> dom (map_of t)"
    "info = override_struct raw (merge_all t (si_composed raw) empty_struct)"
    "set (si_composed info) = {a. (name, a) \<in> (embeds raws)\<^sup>+}" "(name, name) \<notin> (embeds raws)\<^sup>+"
    using assms(3) by simp_all
qed

lemma flat_table_step:
  assumes "flat_table raws t" "(a, b) \<in> embeds raws" "a \<in> dom (map_of t)"
  shows "b \<in> dom (map_of t)"
proof -
  obtain raw where raw: "map_of raws a = Some raw" "b \<in> set (si_composed raw)"
    using assms(2) by (auto simp: embeds_def)
  obtain info where "map_of t a = Some info" using assms(3) by blast
  then show ?thesis using flat_tableD(1) [OF assms(1) _ raw(1)] raw(2) by blast
qed

lemma merge_all_mono:
  assumes "map_of t \<subseteq>\<^sub>m map_of t'" "set ps \<subseteq> dom (map_of t)"
  shows "merge_all t' ps acc = merge_all t ps acc"
  using assms(2)
proof (induction ps arbitrary: acc)
  case (Cons p ps)
  then have "map_of t' p = map_of t p" using assms(1) by (auto simp: map_le_def)
  then show ?case using Cons by (simp add: merge_all_def)
qed (simp add: merge_all_def)

lemma embeds_closed:
  assumes "flat_table raws t" "(a, b) \<in> (embeds raws)\<^sup>+" "a \<in> dom (map_of t)"
  shows "b \<in> dom (map_of t)"
  using assms(2,3)
proof (induction rule: trancl_induct)
  case (base y)
  then show ?case using flat_table_step [OF assms(1)] by simp
next
  case (step y z)
  then show ?case using flat_table_step [OF assms(1) step.hyps(2)] by simp
qed

lemma set_add_ancestors: "set (add_ancestors news all) = set all \<union> set news"
  by (induction news arbitrary: all) (auto simp: add_ancestors_def)

lemma composed_merge_all:
  "set (si_composed (merge_all t ps acc)) =
     set (si_composed acc) \<union> set ps \<union> (\<Union>p \<in> set ps. set (si_composed (the (map_of t p))))"
  by (induction ps arbitrary: acc)
    (auto simp: merge_all_def merge_parent_def set_add_ancestors)

lemma trancl_by_first: "(a, b) \<in> R\<^sup>+ \<longleftrightarrow> (a, b) \<in> R \<or> (\<exists>p. (a, p) \<in> R \<and> (p, b) \<in> R\<^sup>+)"
proof
  assume "(a, b) \<in> R\<^sup>+"
  then show "(a, b) \<in> R \<or> (\<exists>p. (a, p) \<in> R \<and> (p, b) \<in> R\<^sup>+)"
    by (cases rule: converse_tranclE) blast+
next
  assume "(a, b) \<in> R \<or> (\<exists>p. (a, p) \<in> R \<and> (p, b) \<in> R\<^sup>+)"
  then show "(a, b) \<in> R\<^sup>+" by (elim disjE exE conjE) (blast intro: trancl_into_trancl2)+
qed

lemma flat_table_insert:
  assumes t: "flat_table raws t" and new: "name \<notin> dom (map_of t)"
    and raw: "map_of raws name = Some raw" and sub: "set (si_composed raw) \<subseteq> dom (map_of t)"
    and flat: "flat = override_struct raw (merge_all t (si_composed raw) empty_struct)"
  shows "flat_table raws (tab_insert name flat t) \<and> map_of t \<subseteq>\<^sub>m map_of (tab_insert name flat t)"
proof
  show le: "map_of t \<subseteq>\<^sub>m map_of (tab_insert name flat t)"
    using new by (auto simp: map_le_def dom_def)
  have acyclic: "(name, name) \<notin> (embeds raws)\<^sup>+"
  proof
    assume "(name, name) \<in> (embeds raws)\<^sup>+"
    then obtain p where p: "(name, p) \<in> embeds raws" "p = name \<or> (p, name) \<in> (embeds raws)\<^sup>+"
      by (metis tranclD rtranclD)
    then have "p \<in> dom (map_of t)" using raw sub by (auto simp: embeds_def)
    then show False using p(2) new embeds_closed [OF t] by blast
  qed
  have parent: "set (si_composed (the (map_of t p))) = {b. (p, b) \<in> (embeds raws)\<^sup>+}"
    if p: "p \<in> set (si_composed raw)" for p
  proof -
    obtain i where i: "map_of t p = Some i" using p sub by blast
    with t obtain r where "map_of raws p = Some r" unfolding flat_table_def by blast
    then show ?thesis using flat_tableD(3) [OF t i] i by simp
  qed
  have "set (si_composed flat) =
      set (si_composed raw) \<union> (\<Union>p \<in> set (si_composed raw). {b. (p, b) \<in> (embeds raws)\<^sup>+})"
    unfolding flat by (simp add: override_struct_def composed_merge_all parent)
  also have "\<dots> = {b. (name, b) \<in> (embeds raws)\<^sup>+}"
  proof (intro set_eqI)
    fix b
    have "(name, p) \<in> embeds raws \<longleftrightarrow> p \<in> set (si_composed raw)" for p
      using raw by (simp add: embeds_def)
    then show "b \<in> set (si_composed raw) \<union> (\<Union>p \<in> set (si_composed raw). {b. (p, b) \<in> (embeds raws)\<^sup>+})
        \<longleftrightarrow> b \<in> {b. (name, b) \<in> (embeds raws)\<^sup>+}"
      using trancl_by_first [of name b "embeds raws"] by simp blast
  qed
  finally have composed: "set (si_composed flat) = {b. (name, b) \<in> (embeds raws)\<^sup>+}" .
  show "flat_table raws (tab_insert name flat t)"
    unfolding flat_table_def
  proof (intro allI impI)
    fix x info assume x: "map_of (tab_insert name flat t) x = Some info"
    show "\<exists>raw. map_of raws x = Some raw \<and>
        set (si_composed raw) \<subseteq> dom (map_of (tab_insert name flat t)) \<and>
        info = override_struct raw (merge_all (tab_insert name flat t) (si_composed raw) empty_struct) \<and>
        set (si_composed info) = {a. (x, a) \<in> (embeds raws)\<^sup>+} \<and>
        (x, x) \<notin> (embeds raws)\<^sup>+"
    proof (cases "x = name")
      case True
      then show ?thesis
        using x raw sub acyclic composed flat merge_all_mono [OF le sub] by auto
    next
      case False
      then have "map_of t x = Some info" using x by simp
      with t obtain r where "map_of raws x = Some r" "set (si_composed r) \<subseteq> dom (map_of t)"
        "info = override_struct r (merge_all t (si_composed r) empty_struct)"
        "set (si_composed info) = {a. (x, a) \<in> (embeds raws)\<^sup>+}" "(x, x) \<notin> (embeds raws)\<^sup>+"
        unfolding flat_table_def by blast
      then show ?thesis using merge_all_mono [OF le] by auto
    qed
  qed
qed

lemma flatten_correct:
  "flatten_struct n raws name t V = Some (Inr (info, t')) \<Longrightarrow>
     flat_table raws t \<Longrightarrow> dom (map_of t) \<inter> V = {} \<Longrightarrow>
     flat_table raws t' \<and> map_of t \<subseteq>\<^sub>m map_of t' \<and> dom (map_of t') \<inter> V = {} \<and>
     map_of t' name = Some info"
  "flatten_parents n raws ps acc t V = Some (Inr (acc', t')) \<Longrightarrow>
     flat_table raws t \<Longrightarrow> dom (map_of t) \<inter> V = {} \<Longrightarrow>
     flat_table raws t' \<and> map_of t \<subseteq>\<^sub>m map_of t' \<and> dom (map_of t') \<inter> V = {} \<and>
     set ps \<subseteq> dom (map_of t') \<and> acc' = merge_all t' ps acc"
proof (induction n raws name t V and n raws ps acc t V arbitrary: info t' and acc' t'
    rule: flatten_struct_flatten_parents.induct)
  case (2 n raws name t V)
  show ?case
  proof (cases "map_of t name")
    case (Some i)
    then show ?thesis using 2(2-) by auto
  next
    case None
    from 2(2) None obtain raw acc t1 where *: "name \<notin> V" "map_of raws name = Some raw"
      "flatten_parents n raws (si_composed raw) empty_struct t (insert name V) = Some (Inr (acc, t1))"
      "info = override_struct raw acc" "t' = tab_insert name info t1"
      by (auto simp: Let_def split: if_splits option.splits sum.splits)
    have 1: "flat_table raws t1" "map_of t \<subseteq>\<^sub>m map_of t1" "dom (map_of t1) \<inter> insert name V = {}"
      "set (si_composed raw) \<subseteq> dom (map_of t1)" "acc = merge_all t1 (si_composed raw) empty_struct"
      using 2(1) [OF None *(1,2,3)] 2(3,4) None by auto
    then have 2: "flat_table raws t'" "map_of t1 \<subseteq>\<^sub>m map_of t'"
      using flat_table_insert [of raws t1 name raw info] * by auto
    have "map_of t \<subseteq>\<^sub>m map_of t'" using 1(2) 2(2) by (rule map_le_trans)
    moreover have "dom (map_of t') \<inter> V = {}" "map_of t' name = Some info"
      using *(1,5) 1(3) by auto
    ultimately show ?thesis using 2(1) by blast
  qed
next
  case (4 n raws p ps acc t V)
  from 4(3) obtain i t1 where *: "flatten_struct n raws p t V = Some (Inr (i, t1))"
    "flatten_parents n raws ps (merge_parent p i acc) t1 V = Some (Inr (acc', t'))"
    by (auto split: option.splits sum.splits)
  from 4(1) [OF *(1) 4(4,5)]
  have 1: "flat_table raws t1" "map_of t \<subseteq>\<^sub>m map_of t1" "dom (map_of t1) \<inter> V = {}" "map_of t1 p = Some i"
    by auto
  from 4(2) [OF *(1) refl refl *(2) 1(1,3)]
  have 2: "flat_table raws t'" "map_of t1 \<subseteq>\<^sub>m map_of t'" "dom (map_of t') \<inter> V = {}"
    "set ps \<subseteq> dom (map_of t')" "acc' = merge_all t' ps (merge_parent p i acc)" by auto
  have "map_of t' p = Some i" using 1(4) 2(2) by (auto simp: map_le_def dom_def)
  then show ?case using 1 2 by (auto simp: merge_all_def intro: map_le_trans)
qed (auto simp: merge_all_def)

section \<open>When flattening fails\<close>

definition justified :: "struct_info table \<Rightarrow> string \<Rightarrow> flatten_error \<Rightarrow> bool" where
  "justified raws root e \<longleftrightarrow>
     (case e of
        Cyclic_embedding x \<Rightarrow> (x, x) \<in> (embeds raws)\<^sup>+
      | Struct_not_defined x \<Rightarrow> map_of raws x = None \<and> (x = root \<or> (root, x) \<in> (embeds raws)\<^sup>+))"

lemma flatten_fails:
  "flatten_struct n raws name t V = Some (Inl e) \<Longrightarrow> \<forall>v \<in> V. (v, name) \<in> (embeds raws)\<^sup>+ \<Longrightarrow>
     justified raws name e"
  "flatten_parents n raws ps acc t V = Some (Inl e) \<Longrightarrow>
     \<forall>v \<in> V. \<forall>p \<in> set ps. (v, p) \<in> (embeds raws)\<^sup>+ \<Longrightarrow> \<exists>p \<in> set ps. justified raws p e"
proof (induction n raws name t V and n raws ps acc t V
    rule: flatten_struct_flatten_parents.induct)
  case (2 n raws name t V)
  show ?case
  proof (cases "name \<in> V \<or> map_of raws name = None")
    case True
    then show ?thesis using 2(2,3) by (auto simp: justified_def split: option.splits if_splits)
  next
    case False
    then obtain raw where raw: "map_of raws name = Some raw" by auto
    then have ps: "(name, p) \<in> embeds raws" if "p \<in> set (si_composed raw)" for p
      using that by (auto simp: embeds_def)
    have none: "map_of t name = None" using 2(2) by (cases "map_of t name") auto
    have "flatten_parents n raws (si_composed raw) empty_struct t (insert name V) = Some (Inl e)"
      using 2(2) False raw none by (auto simp: Let_def split: option.splits sum.splits)
    then obtain p where p: "p \<in> set (si_composed raw)" "justified raws p e"
      using 2(1) [OF none] False raw 2(3) ps by (metis insert_iff trancl.intros)
    then show ?thesis using ps [OF p(1)]
      by (auto simp: justified_def split: flatten_error.splits intro: trancl_into_trancl2)
  qed
next
  case (4 n raws p ps acc t V)
  show ?case
  proof (cases "flatten_struct n raws p t V = Some (Inl e)")
    case True
    then show ?thesis using 4(1,4) by auto
  next
    case False
    then obtain i t1 where *: "flatten_struct n raws p t V = Some (Inr (i, t1))"
      "flatten_parents n raws ps (merge_parent p i acc) t1 V = Some (Inl e)"
      using 4(3) by (auto split: option.splits sum.splits)
    from 4(2) [OF *(1) refl refl *(2)] 4(4) show ?thesis by auto
  qed
qed auto

lemma flatten_names_ends: "length raws < n \<Longrightarrow> flatten_names n raws names t \<noteq> None"
proof (induction names arbitrary: t)
  case (Cons a names)
  have "card (fst ` set raws - {}) \<le> length raws"
    by (metis Diff_empty card_length length_map list.set_map)
  then have "flatten_struct n raws a t {} \<noteq> None" using Cons.prems by (intro flatten_ends) simp
  then show ?case using Cons by (auto split: sum.split)
qed simp

lemma flatten_names_correct:
  "flatten_names n raws names t = Some (Inr t') \<Longrightarrow> flat_table raws t \<Longrightarrow>
     flat_table raws t' \<and> map_of t \<subseteq>\<^sub>m map_of t' \<and> set names \<subseteq> dom (map_of t')"
proof (induction names arbitrary: t)
  case (Cons a names)
  from Cons.prems(1) obtain i t1 where *: "flatten_struct n raws a t {} = Some (Inr (i, t1))"
    "flatten_names n raws names t1 = Some (Inr t')"
    by (auto split: option.splits sum.splits)
  from flatten_correct(1) [OF *(1) Cons.prems(2)]
  have 1: "flat_table raws t1" "map_of t \<subseteq>\<^sub>m map_of t1" "map_of t1 a = Some i" by auto
  from Cons.IH [OF *(2) 1(1)]
  have 2: "flat_table raws t'" "map_of t1 \<subseteq>\<^sub>m map_of t'" "set names \<subseteq> dom (map_of t')" by auto
  moreover have "a \<in> dom (map_of t')" using 1(3) 2(2) by (auto simp: map_le_def dom_def)
  moreover have "map_of t \<subseteq>\<^sub>m map_of t'" using 1(2) 2(2) by (rule map_le_trans)
  ultimately show ?case by auto
qed simp

lemma flatten_names_fails:
  "flatten_names n raws names t = Some (Inl e) \<Longrightarrow> \<exists>name \<in> set names. justified raws name e"
proof (induction names arbitrary: t)
  case (Cons a names)
  show ?case
  proof (cases "flatten_struct n raws a t {} = Some (Inl e)")
    case True
    then show ?thesis using flatten_fails(1) [OF True] by simp
  next
    case False
    then show ?thesis using Cons by (auto split: option.splits sum.splits)
  qed
qed simp

lemma flat_table_declared: "flat_table raws t \<Longrightarrow> dom (map_of t) \<subseteq> dom (map_of raws)"
  unfolding flat_table_def by blast

section \<open>Members of a flattened struct\<close>

lemma map_of_None_ex: "map_of xs k = None \<longleftrightarrow> \<not> (\<exists>g \<in> set xs. fst g = k)"
  by (force simp: map_of_eq_None_iff)

lemma map_of_add_missing: "map_of (add_missing news all) k = or_else (map_of all k) (map_of news k)"
proof (induction news arbitrary: all)
  case (Cons f news)
  show ?case
  proof (cases "\<exists>g \<in> set all. fst g = fst f")
    case True
    then obtain v where "map_of all (fst f) = Some v" using map_of_None_ex [of all] by auto
    then show ?thesis using Cons True by (cases f) (auto simp: add_missing_def)
  next
    case False
    then have "map_of all (fst f) = None" using map_of_None_ex by metis
    then show ?thesis using Cons False
      by (cases f) (auto simp: add_missing_def map_add_def or_else_def split: option.splits)
  qed
qed (simp add: add_missing_def or_else_def split: option.split)

lemma map_of_update_position:
  "position (\<lambda>g. fst g = k) all = Some i \<Longrightarrow> map_of (all[i := (k, v)]) = (map_of all)(k \<mapsto> v)"
  by (induction all arbitrary: i) (auto split: if_splits simp: fun_eq_iff)

lemma map_of_override_one: "map_of (override_one f all) = (map_of all)(fst f \<mapsto> snd f)"
proof (cases "position (\<lambda>g. fst g = fst f) all")
  case None
  then have "map_of all (fst f) = None" by (force simp: position_None_iff map_of_eq_None_iff)
  then show ?thesis using None
    by (cases f) (auto simp: override_one_def map_add_def fun_eq_iff split: option.split)
next
  case (Some i)
  then show ?thesis using map_of_update_position [of "fst f" all i "snd f"] by (simp add: override_one_def)
qed

lemma map_of_override_all:
  "map_of (override_all news all) k = or_else (map_of (rev news) k) (map_of all k)"
proof (induction news arbitrary: all)
  case (Cons f news)
  then show ?case
    by (cases f) (auto simp: override_all_def map_of_override_one map_add_def or_else_def split: option.splits)
qed (simp add: override_all_def)

lemma members_merge_all:
  "map_of (si_fields (merge_all t ps acc)) f =
     or_else (map_of (si_fields acc) f)
       (first_some (map (\<lambda>p. map_of (si_fields (the (map_of t p))) f) ps))"
  "map_of (si_methods (merge_all t ps acc)) m =
     or_else (map_of (si_methods acc) m)
       (first_some (map (\<lambda>p. map_of (si_methods (the (map_of t p))) m) ps))"
  by (induction ps arbitrary: acc)
    (auto simp: merge_all_def merge_parent_def map_of_add_missing or_else_assoc or_else_def
      split: option.split)

section \<open>Properties\<close>

lemma flat_table_Nil [simp]: "flat_table raws []"
  by (simp add: flat_table_def)

lemma flat_table_solved:
  assumes ft: "flat_table raws t" "set (map fst raws) \<subseteq> dom (map_of t)"
  shows "fst ` set t = fst ` set raws" and "acyclic (embeds raws)"
    and "Range (embeds raws) \<subseteq> fst ` set raws"
proof -
  have dom: "dom (map_of t) = dom (map_of raws)"
  proof
    show "dom (map_of t) \<subseteq> dom (map_of raws)" using ft(1) by (rule flat_table_declared)
    show "dom (map_of raws) \<subseteq> dom (map_of t)" using ft(2) by (simp add: dom_map_of_conv_image_fst)
  qed
  then show "fst ` set t = fst ` set raws" by (simp add: dom_map_of_conv_image_fst)
  have "(x, x) \<notin> (embeds raws)\<^sup>+" for x
  proof
    assume x: "(x, x) \<in> (embeds raws)\<^sup>+"
    then obtain y where "(x, y) \<in> embeds raws" by (blast dest: tranclD)
    then obtain raw where raw: "map_of raws x = Some raw" by (auto simp: embeds_def)
    then obtain info where "map_of t x = Some info" using dom by blast
    then show False using flat_tableD(4) [of raws t x info raw] ft raw x by blast
  qed
  then show "acyclic (embeds raws)" by (simp add: acyclic_def)
  show "Range (embeds raws) \<subseteq> fst ` set raws"
  proof
    fix p assume "p \<in> Range (embeds raws)"
    then obtain s where s: "(s, p) \<in> embeds raws" by blast
    then have "s \<in> dom (map_of t)" using dom by (auto simp: embeds_def)
    then have "p \<in> dom (map_of t)" using flat_table_step [OF ft(1) s] by simp
    then show "p \<in> fst ` set raws" using dom by (simp add: dom_map_of_conv_image_fst)
  qed
qed

text \<open>C24: Flattening the declared structs always ends. It reports a cycle only for a struct that embeds
  itself, directly or not, and a missing struct only for one that a declared struct embeds; otherwise
  there is no cycle, every declared struct is in the table and nothing else is.\<close>

theorem flatten_all_decides:
  "case flatten_all raws of
     None \<Rightarrow> False
   | Some (Inl (Cyclic_embedding x)) \<Rightarrow> (x, x) \<in> (embeds raws)\<^sup>+
   | Some (Inl (Struct_not_defined x)) \<Rightarrow> x \<notin> fst ` set raws \<and> (\<exists>s. (s, x) \<in> embeds raws)
   | Some (Inr t) \<Rightarrow> fst ` set t = fst ` set raws \<and> acyclic (embeds raws) \<and>
       Range (embeds raws) \<subseteq> fst ` set raws"
proof -
  obtain r where r: "flatten_all raws = Some r"
    using flatten_names_ends [of raws "length raws + 2" "map fst raws" "[]"]
    unfolding flatten_all_def by auto
  show ?thesis
  proof (cases r)
    case (Inl e)
    then have "flatten_names (length raws + 2) raws (map fst raws) [] = Some (Inl e)"
      using r by (simp add: flatten_all_def)
    from flatten_names_fails [OF this]
    obtain name where name: "name \<in> fst ` set raws" "justified raws name e" by auto
    show ?thesis
    proof (cases e)
      case (Cyclic_embedding x)
      then show ?thesis using name r Inl by (simp add: justified_def)
    next
      case (Struct_not_defined x)
      then have x: "map_of raws x = None" "x = name \<or> (name, x) \<in> (embeds raws)\<^sup>+"
        using name(2) by (simp_all add: justified_def)
      then have "x \<notin> fst ` set raws" by (simp add: map_of_eq_None_iff)
      moreover from this x(2) name(1) have "(name, x) \<in> (embeds raws)\<^sup>+" by auto
      then have "\<exists>s. (s, x) \<in> embeds raws" by (blast dest: tranclD2)
      ultimately show ?thesis using r Inl Struct_not_defined by simp
    qed
  next
    case (Inr t)
    have "flatten_names (length raws + 2) raws (map fst raws) [] = Some (Inr t)"
      using r Inr by (simp add: flatten_all_def)
    then have ft: "flat_table raws t" "set (map fst raws) \<subseteq> dom (map_of t)"
      using flatten_names_correct flat_table_Nil by blast+
    note decl = flat_table_solved [OF ft]
    show ?thesis using r Inr decl by simp
  qed
qed

text \<open>C25: A flattened struct lists exactly the structs it embeds, directly or not. A field or method of it
  is the one it declares last under that name, or else the one of the first embedded struct, in the order
  they are named, that has it.\<close>

theorem flattened_members:
  assumes "flatten_all raws = Some (Inr t)" and "map_of raws s = Some raw"
  shows "\<exists>info. map_of t s = Some info \<and>
    set (si_composed info) = {a. (s, a) \<in> (embeds raws)\<^sup>+} \<and>
    map_of (si_fields info) f =
      or_else (map_of (rev (si_fields raw)) f)
        (first_some (map (\<lambda>p. map_of (si_fields (the (map_of t p))) f) (si_composed raw))) \<and>
    map_of (si_methods info) m =
      or_else (map_of (rev (si_methods raw)) m)
        (first_some (map (\<lambda>p. map_of (si_methods (the (map_of t p))) m) (si_composed raw)))"
proof -
  have ft: "flat_table raws t" "set (map fst raws) \<subseteq> dom (map_of t)"
    using flatten_names_correct [OF assms(1) [unfolded flatten_all_def] flat_table_Nil] by blast+
  have "s \<in> set (map fst raws)" using map_of_SomeD [OF assms(2)] by force
  then obtain info where info: "map_of t s = Some info" using ft(2) by blast
  note info = info flat_tableD(2,3) [OF ft(1) info assms(2)]
  then show ?thesis
    by (auto simp: override_struct_def map_of_override_all members_merge_all)
qed

definition demo_structs :: "struct_info table" where
  "demo_structs =
     [(''A'', \<lparr>si_composed = [], si_fields = [(''x'', ''int''), (''y'', ''int'')], si_methods = []\<rparr>),
      (''B'', \<lparr>si_composed = [''A''], si_fields = [(''x'', ''string'')], si_methods = []\<rparr>)]"

theorem flattened_members_witness:
  "\<exists>t info. flatten_all demo_structs = Some (Inr t) \<and> map_of t ''B'' = Some info \<and>
     map_of (si_fields info) ''x'' = Some ''string''"
proof -
  obtain t where t: "flatten_all demo_structs = Some (Inr t)"
    by (simp add: flatten_all_def demo_structs_def eval_nat_numeral Let_def)
  have raw: "map_of demo_structs ''B'' =
      Some \<lparr>si_composed = [''A''], si_fields = [(''x'', ''string'')], si_methods = []\<rparr>"
    by (simp add: demo_structs_def)
  show ?thesis using flattened_members [OF t raw, of "''x''" "''m''"] t by auto
qed

end
