(* ===== verification/Comp_Types.thy ===== *)
theory Comp_Types
  imports Comp_Structs Doubles "HOL-Library.Monad_Syntax"
begin

text \<open>
  The declared-type checks of the compiler, \<^verbatim>\<open>crates/eronom-vm/src/compiler/types.rs\<close>. Types
  are compared by their printed form. A type alias may refer to itself, in which case the source
  recurses without end; the functions that follow aliases take fuel, and \<open>None\<close> is its exhaustion.
  Error messages keep their parts in place of the formatted text.
\<close>

section \<open>Strings\<close>

text \<open>\<^verbatim>\<open>to_lowercase\<close> and \<^verbatim>\<open>trim\<close> on code points below 256.\<close>

definition lower_char :: "char \<Rightarrow> char" where
  "lower_char c =
     (let n = of_char c :: nat
      in if (65 \<le> n \<and> n \<le> 90) \<or> (192 \<le> n \<and> n \<le> 222 \<and> n \<noteq> 215) then char_of (n + 32) else c)"

definition to_lowercase :: "string \<Rightarrow> string" where
  "to_lowercase s = map lower_char s"

definition is_space :: "char \<Rightarrow> bool" where
  "is_space c \<longleftrightarrow> (let n = of_char c :: nat in (9 \<le> n \<and> n \<le> 13) \<or> n \<in> {32, 133, 160})"

definition trim :: "string \<Rightarrow> string" where
  "trim s = rev (dropWhile is_space (rev (dropWhile is_space s)))"

fun contains_str :: "string \<Rightarrow> string \<Rightarrow> bool" where
  "contains_str [] pat \<longleftrightarrow> pat = []"
| "contains_str (c # cs) pat \<longleftrightarrow> starts_with (c # cs) pat \<or> contains_str cs pat"

section \<open>Tables the checks consult\<close>

text \<open>\<^verbatim>\<open>Local\<close> of \<^verbatim>\<open>compiler/mod.rs\<close>: a local variable lives in the register of its index.\<close>

record local =
  l_name :: string
  l_depth :: nat
  l_is_const :: bool
  l_loc :: source_location
  l_ty :: "string option"

record type_env =
  te_structs :: "struct_info table"
  te_interfaces :: "interface_info table"
  te_aliases :: "type_node table"
  te_locals :: "local list"
  te_globals :: "string table"

datatype type_error =
    Not_implemented string string source_location
  | Got_struct string string source_location
  | Missing_field string string string source_location
  | Extra_fields "string list" string source_location
  | Needs_methods string "string list" source_location
  | Expected_type string string source_location

section \<open>The type of an expression\<close>

definition call_type :: "type_env \<Rightarrow> expr \<Rightarrow> string option" where
  "call_type env callee =
     (case callee of
        E_Variable name l \<Rightarrow>
          (if map_of (te_structs env) name \<noteq> None then Some name
           else (case map_of (te_globals env) name of
               Some ty \<Rightarrow>
                 (if starts_with ty ''function:'' then Some (drop (length ''function:'') ty) else None)
             | None \<Rightarrow> None))
      | _ \<Rightarrow> None)"

definition variable_type :: "type_env \<Rightarrow> string \<Rightarrow> string option" where
  "variable_type env name =
     (case find (\<lambda>l. l_name l = name) (rev (te_locals env)) of
        Some l \<Rightarrow> l_ty l
      | None \<Rightarrow> map_of (te_globals env) name)"

definition literal_type :: "literal_value \<Rightarrow> string" where
  "literal_type v =
     (case v of L_Number _ \<Rightarrow> ''int'' | L_String _ \<Rightarrow> ''string'' | L_Boolean _ \<Rightarrow> ''boolean''
      | L_Null \<Rightarrow> ''null'')"

fun get_expr_type :: "type_env \<Rightarrow> expr \<Rightarrow> string option" where
  "get_expr_type env (E_Literal v) = Some (literal_type v)"
| "get_expr_type env (E_Array es) = Some ''array''"
| "get_expr_type env (E_Object ps) = Some ''object''"
| "get_expr_type env (E_Function ps ret body is_async is_sync) =
     (case ret of Some r \<Rightarrow> Some (''function:'' @ type_display r) | None \<Rightarrow> Some ''function'')"
| "get_expr_type env (E_Variable name l) = variable_type env name"
| "get_expr_type env (E_StructInst s ps l) = Some s"
| "get_expr_type env (E_Call callee args) = call_type env callee"
| "get_expr_type env (E_Binary left opr right) =
     (if opr = T_Plus then
        (if get_expr_type env left = Some ''string'' \<or> get_expr_type env right = Some ''string''
         then Some ''string'' else Some ''int'')
      else if opr \<in> {T_Minus, T_Star, T_Slash, T_Percent, T_Ampersand, T_Pipe, T_Caret, T_LessLess,
                     T_GreaterGreater} then Some ''int''
      else if opr \<in> {T_EqualEqual, T_BangEqual, T_Less, T_LessEqual, T_Greater, T_GreaterEqual, T_And,
                     T_Or} then Some ''boolean''
      else None)"
| "get_expr_type env (E_Unary opr inner) =
     (if opr = T_Bang then Some ''boolean''
      else if opr \<in> {T_Minus, T_Tilde} then Some ''int''
      else if opr = T_Typeof then Some ''string''
      else None)"
| "get_expr_type env (E_Prefix opr inner) = Some ''int''"
| "get_expr_type env (E_Postfix opr inner) = Some ''int''"
| "get_expr_type env (E_Ternary c t e) =
     (if get_expr_type env t = get_expr_type env e then get_expr_type env t else None)"
| "get_expr_type env _ = None"

section \<open>Compatibility of printed types\<close>

definition number_names :: "string list" where
  "number_names = [''int'', ''number'', ''float'', ''i32'', ''i64'', ''f32'', ''f64'']"

definition function_name :: "string \<Rightarrow> bool" where
  "function_name s \<longleftrightarrow> s = ''function'' \<or> s = ''fn'' \<or> contains_str s ''=>''"

definition array_name :: "string \<Rightarrow> string \<Rightarrow> bool" where
  "array_name s lower_s \<longleftrightarrow>
     ends_with s ''[]'' \<or> lower_s = ''array'' \<or> starts_with lower_s ''array<''"

definition object_name :: "string \<Rightarrow> string \<Rightarrow> bool" where
  "object_name s lower_s \<longleftrightarrow> starts_with s ''{'' \<or> lower_s = ''object''"

text \<open>The families of names that are interchangeable.\<close>

definition same_family :: "string \<Rightarrow> string \<Rightarrow> bool" where
  "same_family expected actual \<longleftrightarrow>
     (let e = to_lowercase expected; a = to_lowercase actual in
        (e \<in> set number_names \<and> a \<in> set number_names) \<or>
        (e \<in> {''bool'', ''boolean''} \<and> a \<in> {''bool'', ''boolean''}) \<or>
        (e \<in> {''str'', ''string''} \<and> a \<in> {''str'', ''string''}) \<or>
        (function_name e \<and> (function_name a \<or> starts_with a ''function:'')) \<or>
        (array_name expected e \<and> array_name actual a) \<or>
        (object_name expected e \<and> object_name actual a))"

definition embeds_struct :: "type_env \<Rightarrow> string \<Rightarrow> string \<Rightarrow> bool" where
  "embeds_struct env expected actual \<longleftrightarrow>
     (case map_of (te_structs env) actual of
        Some s \<Rightarrow> expected \<in> set (si_composed s)
      | None \<Rightarrow> False)"

text \<open>Short-circuiting \<^verbatim>\<open>any\<close>, and a \<^verbatim>\<open>for\<close> that returns false early.\<close>

fun any_opt :: "('a \<Rightarrow> bool option) \<Rightarrow> 'a list \<Rightarrow> bool option" where
  "any_opt f [] = Some False"
| "any_opt f (x # xs) = do { b \<leftarrow> f x; if b then Some True else any_opt f xs }"

fun all_opt :: "('a \<Rightarrow> bool option) \<Rightarrow> 'a list \<Rightarrow> bool option" where
  "all_opt f [] = Some True"
| "all_opt f (x # xs) = do { b \<leftarrow> f x; if b then all_opt f xs else Some False }"

text \<open>The method table of a struct against what an interface requires: the number of parameters.\<close>

definition methods_match :: "struct_info \<Rightarrow> interface_info \<Rightarrow> bool" where
  "methods_match s iface \<longleftrightarrow>
     list_all (\<lambda>(m, ps). case map_of (rev (si_methods s)) m of
         Some (qs, body) \<Rightarrow> length qs = length ps
       | None \<Rightarrow> False) (if_methods iface)"

fun is_type_compatible :: "nat \<Rightarrow> type_env \<Rightarrow> string \<Rightarrow> string \<Rightarrow> bool option" where
  "is_type_compatible 0 env expected actual = None"
| "is_type_compatible (Suc n) env expected actual =
     (if to_lowercase expected = to_lowercase actual then Some True
      else if to_lowercase expected = ''any'' \<or> to_lowercase actual = ''any'' then Some True
      else (case map_of (te_aliases env) expected of
          Some aliased \<Rightarrow> is_type_compatible n env (type_display aliased) actual
        | None \<Rightarrow>
            if to_lowercase actual = ''null'' then Some True
            else do {
              nullable \<leftarrow> (if ends_with expected ''?''
                then is_type_compatible n env (trim (butlast expected)) actual else Some False);
              if nullable then Some True else do {
              member \<leftarrow> (if CHR ''|'' \<in> set expected
                then any_opt (\<lambda>part. is_type_compatible n env (trim part) actual)
                  (split_on ((=) (CHR ''|'')) expected)
                else Some False);
              if member then Some True
              else if same_family expected actual then Some True
              else if embeds_struct env expected actual then Some True
              else (case (map_of (te_interfaces env) expected, map_of (te_structs env) actual) of
                  (Some iface, Some s) \<Rightarrow> do {
                    fields_ok \<leftarrow> all_opt (\<lambda>(f, ty).
                        case map_of (rev (si_fields s)) f of
                          Some sf_ty \<Rightarrow> is_type_compatible n env ty sf_ty
                        | None \<Rightarrow> Some False) (if_fields iface);
                    Some (fields_ok \<and> methods_match s iface) }
                | _ \<Rightarrow> Some False) }}))"

section \<open>Checking an expression against a declared type\<close>

type_synonym check_result = "(type_error + unit) option"

definition check_ok :: check_result where "check_ok = Some (Inr ())"

definition check_fail :: "type_error \<Rightarrow> check_result" where "check_fail e = Some (Inl e)"

text \<open>\<^verbatim>\<open>for (f, ty) in fields\<close> over a table of the expressions given: a field is taken out of it and
  checked. \<open>missing\<close> makes the error; the rest of the table is returned.\<close>

fun check_fields :: "(expr \<Rightarrow> string \<Rightarrow> check_result) \<Rightarrow> (string \<Rightarrow> string \<Rightarrow> type_error) \<Rightarrow>
    (string \<times> string) list \<Rightarrow> expr table \<Rightarrow> (type_error + expr table) option" where
  "check_fields chk missing [] given = Some (Inr given)"
| "check_fields chk missing ((f, ty) # fs) given =
     (case map_of given f of
        None \<Rightarrow> Some (Inl (missing f ty))
      | Some e \<Rightarrow>
          (case chk e ty of
             None \<Rightarrow> None
           | Some (Inl err) \<Rightarrow> Some (Inl err)
           | Some (Inr _) \<Rightarrow> check_fields chk missing fs (filter (\<lambda>p. fst p \<noteq> f) given)))"

definition object_table :: "(string \<times> expr) list \<Rightarrow> expr table" where
  "object_table ps = fold (\<lambda>(k, v). tab_insert k v) ps []"

text \<open>The fields of a struct, each once and nothing else.\<close>

definition check_struct_fields ::
    "(expr \<Rightarrow> string \<Rightarrow> check_result) \<Rightarrow> string \<Rightarrow> struct_info \<Rightarrow> (string \<times> expr) list \<Rightarrow>
       source_location \<Rightarrow> check_result" where
  "check_struct_fields chk s info ps loc =
     (case check_fields chk (\<lambda>f ty. Missing_field f ty s loc) (si_fields info) (object_table ps) of
        None \<Rightarrow> None
      | Some (Inl err) \<Rightarrow> check_fail err
      | Some (Inr rest) \<Rightarrow> if rest = [] then check_ok else check_fail (Extra_fields (map fst rest) s loc))"

definition check_interface_fields ::
    "(expr \<Rightarrow> string \<Rightarrow> check_result) \<Rightarrow> string \<Rightarrow> interface_info \<Rightarrow> (string \<times> expr) list \<Rightarrow>
       source_location \<Rightarrow> check_result" where
  "check_interface_fields chk i info ps loc =
     (if if_methods info \<noteq> [] then check_fail (Needs_methods i (map fst (if_methods info)) loc)
      else (case check_fields chk (\<lambda>f ty. Missing_field f ty i loc) (if_fields info) (object_table ps) of
          None \<Rightarrow> None
        | Some (Inl err) \<Rightarrow> check_fail err
        | Some (Inr rest) \<Rightarrow> check_ok))"

definition literal_text :: "literal_value \<Rightarrow> string" where
  "literal_text v =
     (case v of L_Number n \<Rightarrow> f64_display n
      | L_String s \<Rightarrow> ''\"'' @ s @ ''\"''
      | L_Boolean b \<Rightarrow> if b then ''true'' else ''false''
      | L_Null \<Rightarrow> ''null'')"

definition got_text :: "expr \<Rightarrow> string \<Rightarrow> string" where
  "got_text e actual =
     (case e of E_Literal v \<Rightarrow> literal_text v | _ \<Rightarrow> ''type \"'' @ actual @ ''\"'')"

text \<open>Step 4: the inferred type of the expression against the expected one. Every literal has an
  inferred type, so the fallback of the source for literals (step 5) is never reached.\<close>

definition check_inferred :: "nat \<Rightarrow> type_env \<Rightarrow> expr \<Rightarrow> string \<Rightarrow> source_location \<Rightarrow> check_result" where
  "check_inferred n env e expected loc =
     (case get_expr_type env e of
        None \<Rightarrow> check_ok
      | Some actual \<Rightarrow>
          (case is_type_compatible n env expected actual of
             None \<Rightarrow> None
           | Some True \<Rightarrow> check_ok
           | Some False \<Rightarrow>
               if map_of (te_interfaces env) expected \<noteq> None \<and> map_of (te_structs env) actual \<noteq> None
               then check_fail (Not_implemented actual expected loc)
               else check_fail (Expected_type expected (got_text e actual) loc)))"

text \<open>Step 1: a struct literal.\<close>

definition check_struct_inst ::
    "(expr \<Rightarrow> string \<Rightarrow> source_location \<Rightarrow> check_result) \<Rightarrow> nat \<Rightarrow> type_env \<Rightarrow> string \<Rightarrow>
       (string \<times> expr) list \<Rightarrow> source_location \<Rightarrow> string \<Rightarrow> check_result" where
  "check_struct_inst chk n env s ps s_loc expected =
     (case (if s = expected then Some True else is_type_compatible n env expected s) of
        None \<Rightarrow> None
      | Some False \<Rightarrow>
          if map_of (te_interfaces env) expected \<noteq> None
          then check_fail (Not_implemented s expected s_loc)
          else check_fail (Got_struct expected s s_loc)
      | Some True \<Rightarrow>
          (case map_of (te_structs env) s of
             Some info \<Rightarrow> check_struct_fields (\<lambda>e ty. chk e ty s_loc) s info ps s_loc
           | None \<Rightarrow> check_ok))"

text \<open>Steps 2 to 4.\<close>

definition check_against ::
    "(expr \<Rightarrow> string \<Rightarrow> source_location \<Rightarrow> check_result) \<Rightarrow> nat \<Rightarrow> type_env \<Rightarrow> expr \<Rightarrow> string \<Rightarrow>
       source_location \<Rightarrow> check_result" where
  "check_against chk n env e expected loc =
     (case (map_of (te_structs env) expected, map_of (te_interfaces env) expected, e) of
        (Some info, _, E_Object ps) \<Rightarrow> check_struct_fields (\<lambda>e ty. chk e ty loc) expected info ps loc
      | (Some info, _, E_Array _) \<Rightarrow> check_ok
      | (Some info, _, E_Literal L_Null) \<Rightarrow> check_ok
      | (_, Some info, E_Object ps) \<Rightarrow>
          check_interface_fields (\<lambda>e ty. chk e ty loc) expected info ps loc
      | _ \<Rightarrow> check_inferred n env e expected loc)"

fun check_type :: "nat \<Rightarrow> type_env \<Rightarrow> expr \<Rightarrow> string \<Rightarrow> source_location \<Rightarrow> check_result" where
  "check_type 0 env e expected loc = None"
| "check_type (Suc n) env e expected loc =
     (if expected = ''any'' then check_ok
      else (case map_of (te_aliases env) expected of
          Some aliased \<Rightarrow> check_type n env e (type_display aliased) loc
        | None \<Rightarrow>
            (case e of
               E_StructInst s ps s_loc \<Rightarrow> check_struct_inst (check_type n env) n env s ps s_loc expected
             | E_Object ps \<Rightarrow>
                 if starts_with expected ''{'' then check_ok
                 else check_against (check_type n env) n env e expected loc
             | E_Array es \<Rightarrow>
                 if ends_with expected ''[]'' \<or> to_lowercase expected = ''array'' then check_ok
                 else check_against (check_type n env) n env e expected loc
             | _ \<Rightarrow> check_against (check_type n env) n env e expected loc)))"

section \<open>Struct literals\<close>

lemma map_of_filter_key: "map_of (filter (\<lambda>p. fst p \<noteq> f) xs) g = (if g = f then None else map_of xs g)"
  by (induction xs) auto

lemma check_fields_ok:
  "check_fields chk missing fs given = Some (Inr rest) \<Longrightarrow>
     distinct (map fst fs) \<and> rest = filter (\<lambda>p. fst p \<notin> fst ` set fs) given \<and>
     (\<forall>(f, ty) \<in> set fs. \<exists>e. map_of given f = Some e \<and> chk e ty = Some (Inr ()))"
proof (induction fs arbitrary: given)
  case (Cons fty fs)
  obtain f ty where fty: "fty = (f, ty)" by (cases fty)
  from Cons.prems fty obtain e where e: "map_of given f = Some e" "chk e ty = Some (Inr ())"
    "check_fields chk missing fs (filter (\<lambda>p. fst p \<noteq> f) given) = Some (Inr rest)"
    by (auto split: option.splits sum.splits)
  from Cons.IH [OF e(3)]
  have IH: "distinct (map fst fs)"
    "rest = filter (\<lambda>p. fst p \<notin> fst ` set fs) (filter (\<lambda>p. fst p \<noteq> f) given)"
    "\<And>g ty. (g, ty) \<in> set fs \<Longrightarrow>
       \<exists>e. map_of (filter (\<lambda>p. fst p \<noteq> f) given) g = Some e \<and> chk e ty = Some (Inr ())" by auto
  have "f \<notin> fst ` set fs"
  proof
    assume "f \<in> fst ` set fs"
    then obtain ty' where "(f, ty') \<in> set fs" by force
    then show False using IH(3) [of f ty'] by (simp add: map_of_filter_key)
  qed
  moreover have "\<exists>e. map_of given g = Some e \<and> chk e ty = Some (Inr ())" if "(g, ty) \<in> set fs" for g ty
    using IH(3) [OF that] by (auto simp: map_of_filter_key split: if_splits)
  moreover have "rest = filter (\<lambda>p. fst p \<notin> fst ` set (fty # fs)) given"
    unfolding IH(2) by (auto simp: fty intro: filter_cong)
  ultimately show ?case using IH(1) e(1,2) fty by auto
qed simp

lemma map_of_object_table: "map_of (object_table ps) = map_of (rev ps)"
proof -
  have "map_of (fold (\<lambda>(k, v). tab_insert k v) ps t) = map_of t ++ map_of (rev ps)" for t
    by (induction ps arbitrary: t) (auto simp: map_add_def fun_eq_iff split: option.split)
  then show ?thesis by (simp add: object_table_def)
qed

lemma keys_object_table: "fst ` set (object_table ps) = fst ` set ps"
proof -
  have "fst ` set (fold (\<lambda>(k, v). tab_insert k v) ps t) = fst ` set t \<union> fst ` set ps" for t
    by (induction ps arbitrary: t) (simp_all add: keys_tab_insert split_beta)
  then show ?thesis by (simp add: object_table_def)
qed

lemma check_fields_accepts:
  "distinct (map fst fs) \<Longrightarrow> (\<forall>(f, ty) \<in> set fs. \<exists>e. map_of given f = Some e \<and> chk e ty = Some (Inr ())) \<Longrightarrow>
     check_fields chk missing fs given = Some (Inr (filter (\<lambda>p. fst p \<notin> fst ` set fs) given))"
proof (induction fs arbitrary: given)
  case (Cons fty fs)
  obtain f ty where fty: "fty = (f, ty)" by (cases fty)
  have "\<forall>(g, ty) \<in> set fs. \<exists>e. map_of (filter (\<lambda>p. fst p \<noteq> f) given) g = Some e \<and> chk e ty = Some (Inr ())"
    using Cons.prems by (force simp: fty map_of_filter_key)
  moreover have "filter (\<lambda>p. fst p \<notin> fst ` set fs) (filter (\<lambda>p. fst p \<noteq> f) given) =
      filter (\<lambda>p. fst p \<notin> fst ` set (fty # fs)) given"
    by (auto simp: fty intro: filter_cong)
  ultimately show ?case using Cons.prems Cons.IH by (auto simp: fty)
qed simp

lemma object_table_empty_off: "filter (\<lambda>p. fst p \<notin> S) (object_table ps) = [] \<longleftrightarrow> fst ` set ps \<subseteq> S"
proof -
  have "filter (\<lambda>p. fst p \<notin> S) (object_table ps) = [] \<longleftrightarrow> fst ` set (object_table ps) \<subseteq> S"
    by (auto simp: filter_empty_conv)
  then show ?thesis by (simp only: keys_object_table)
qed

lemma given_names: "(\<exists>e. map_of (rev ps) f = Some e \<and> P e) \<longleftrightarrow> f \<in> fst ` set ps \<and> P (the (map_of (rev ps) f))"
proof -
  have "f \<in> fst ` set ps \<longleftrightarrow> map_of (rev ps) f \<noteq> None" by (simp add: map_of_eq_None_iff)
  then show ?thesis by (cases "map_of (rev ps) f") auto
qed

lemma check_struct_fields_iff:
  "check_struct_fields chk s info ps loc = Some (Inr ()) \<longleftrightarrow>
     distinct (map fst (si_fields info)) \<and> fst ` set ps = fst ` set (si_fields info) \<and>
     list_all (\<lambda>(f, ty). chk (the (map_of (rev ps) f)) ty = Some (Inr ())) (si_fields info)"
    (is "?checked \<longleftrightarrow> ?d \<and> ?names \<and> ?types")
proof
  assume ?checked
  then obtain rest where r: "check_fields chk (\<lambda>f ty. Missing_field f ty s loc) (si_fields info) (object_table ps) =
      Some (Inr rest)" "rest = []"
    by (auto simp: check_struct_fields_def check_fail_def split: option.splits sum.splits if_splits)
  from check_fields_ok [OF r(1)] have ok: "?d"
    "filter (\<lambda>p. fst p \<notin> fst ` set (si_fields info)) (object_table ps) = []"
    "\<And>f ty. (f, ty) \<in> set (si_fields info) \<Longrightarrow>
       f \<in> fst ` set ps \<and> chk (the (map_of (rev ps) f)) ty = Some (Inr ())"
    unfolding map_of_object_table given_names r(2) by auto
  have "fst ` set ps \<subseteq> fst ` set (si_fields info)" using ok(2) by (simp only: object_table_empty_off)
  moreover have "fst ` set (si_fields info) \<subseteq> fst ` set ps" using ok(3) by auto
  moreover have ?types using ok(3) by (auto simp: list_all_iff)
  ultimately show "?d \<and> ?names \<and> ?types" using ok(1) by blast
next
  assume ok: "?d \<and> ?names \<and> ?types"
  have "f \<in> fst ` set ps" if "(f, ty) \<in> set (si_fields info)" for f ty
    using ok image_eqI [of f fst "(f, ty)" "set (si_fields info)"] that by simp
  then have "\<forall>(f, ty) \<in> set (si_fields info). \<exists>e. map_of (object_table ps) f = Some e \<and> chk e ty = Some (Inr ())"
    using ok unfolding map_of_object_table given_names by (auto simp: list_all_iff)
  moreover have "filter (\<lambda>p. fst p \<notin> fst ` set (si_fields info)) (object_table ps) = []"
    using ok by (simp add: object_table_empty_off)
  ultimately show ?checked
    using ok check_fields_accepts [of "si_fields info" "object_table ps" chk] by (simp add: check_struct_fields_def check_ok_def)
qed

text \<open>C26: A struct literal passes the check against its own struct exactly when the fields declared are
  distinct, the names the literal uses are the declared ones, as sets, and for each of them the entry given
  last passes the check against the type declared. A name may be repeated: the entries given before the
  last one are not looked at.\<close>

theorem struct_literal_checked:
  assumes "map_of (te_structs env) s = Some info" and "map_of (te_aliases env) s = None" and "s \<noteq> ''any''"
  shows "check_type (Suc n) env (E_StructInst s ps s_loc) s loc = Some (Inr ()) \<longleftrightarrow>
    distinct (map fst (si_fields info)) \<and> fst ` set ps = fst ` set (si_fields info) \<and>
    list_all (\<lambda>(f, ty). check_type n env (the (map_of (rev ps) f)) ty s_loc = Some (Inr ()))
      (si_fields info)"
  using assms by (simp add: check_struct_inst_def check_struct_fields_iff)

definition demo_loc :: source_location where
  "demo_loc = \<lparr>loc_file = [], loc_line = 1, loc_col = 1\<rparr>"

definition demo_env :: type_env where
  "demo_env =
     \<lparr>te_structs = [(''P'', \<lparr>si_composed = [], si_fields = [(''x'', ''int'')], si_methods = []\<rparr>),
                    (''N'', \<lparr>si_composed = [], si_fields = [(''next'', ''N'')], si_methods = []\<rparr>)],
      te_interfaces = [(''Node'', \<lparr>if_fields = [(''next'', ''Node'')], if_methods = []\<rparr>)],
      te_aliases = [(''A'', Ty_Named ''A'' [])], te_locals = [], te_globals = []\<rparr>"

text \<open>A field named twice, first with a string: only the second entry is checked. A string given last is
  refused.\<close>

theorem struct_literal_checked_witness:
  "check_type 3 demo_env (E_StructInst ''P'' [(''x'', E_Literal (L_String ''s'')), (''x'', E_Literal L_Null)] demo_loc)
     ''P'' demo_loc = Some (Inr ()) \<and>
   check_type 3 demo_env (E_StructInst ''P'' [(''x'', E_Literal (L_String ''s''))] demo_loc) ''P'' demo_loc \<noteq> Some (Inr ())"
proof -
  have P: "map_of (te_structs demo_env) ''P'' =
      Some \<lparr>si_composed = [], si_fields = [(''x'', ''int'')], si_methods = []\<rparr>"
    "map_of (te_aliases demo_env) ''P'' = None" by (simp_all add: demo_env_def)
  have "check_type 2 demo_env (E_Literal L_Null) ''int'' demo_loc = Some (Inr ())"
    "check_type 2 demo_env (E_Literal (L_String ''s'')) ''int'' demo_loc \<noteq> Some (Inr ())" by code_simp+
  then show ?thesis
    using struct_literal_checked [OF P, of 2 "[(''x'', E_Literal (L_String ''s'')), (''x'', E_Literal L_Null)]" demo_loc demo_loc]
      struct_literal_checked [OF P, of 2 "[(''x'', E_Literal (L_String ''s''))]" demo_loc demo_loc]
    by (simp add: numeral_eq_Suc del: check_type.simps)
qed

section \<open>Types that refer to themselves\<close>

text \<open>
  The question that a comparison of two type names asks first, when it is not decided on the spot: about
  the type an alias stands for, the type under a question mark, the first member of a union, or the
  first field of an interface.
\<close>

definition first_question :: "type_env \<Rightarrow> string \<Rightarrow> string \<Rightarrow> (string \<times> string) option" where
  "first_question env expected actual =
     (if to_lowercase expected = to_lowercase actual \<or> to_lowercase expected = ''any'' \<or> to_lowercase actual = ''any''
      then None
      else (case map_of (te_aliases env) expected of
          Some aliased \<Rightarrow> Some (type_display aliased, actual)
        | None \<Rightarrow>
            if to_lowercase actual = ''null'' then None
            else if ends_with expected ''?'' then Some (trim (butlast expected), actual)
            else if CHR ''|'' \<in> set expected then Some (trim (hd (split_on ((=) (CHR ''|'')) expected)), actual)
            else if same_family expected actual \<or> embeds_struct env expected actual then None
            else (case (map_of (te_interfaces env) expected, map_of (te_structs env) actual) of
                (Some iface, Some s) \<Rightarrow>
                  (case if_fields iface of
                     [] \<Rightarrow> None
                   | (f, ty) # fs \<Rightarrow> map_option (\<lambda>sf_ty. (ty, sf_ty)) (map_of (rev (si_fields s)) f))
              | _ \<Rightarrow> None)))"

lemma any_opt_None: "xs \<noteq> [] \<Longrightarrow> f (hd xs) = None \<Longrightarrow> any_opt f xs = None"
  by (cases xs) auto

lemma first_question_unanswered:
  assumes "first_question env e a = Some (e', a')" "is_type_compatible n env e' a' = None"
  shows "is_type_compatible (Suc n) env e a = None"
proof (cases "map_of (te_aliases env) e")
  case None
  have early: "to_lowercase e \<noteq> to_lowercase a" "to_lowercase e \<noteq> ''any''" "to_lowercase a \<noteq> ''any''" "to_lowercase a \<noteq> ''null''"
    using assms(1) None by (auto simp: first_question_def split: if_splits)
  consider (opt) "ends_with e ''?''" | (union) "\<not> ends_with e ''?''" "CHR ''|'' \<in> set e"
    | (iface) "\<not> ends_with e ''?''" "CHR ''|'' \<notin> set e" by blast
  then show ?thesis
  proof cases
    case opt
    then show ?thesis using assms None early by (simp add: first_question_def)
  next
    case union
    have "any_opt (\<lambda>part. is_type_compatible n env (trim part) a) (split_on ((=) (CHR ''|'')) e) = None"
      using assms None early union by (intro any_opt_None) (simp_all add: first_question_def)
    then show ?thesis using None early union by simp
  next
    case iface
    obtain i s where i: "map_of (te_interfaces env) e = Some i" "map_of (te_structs env) a = Some s"
      "\<not> same_family e a" "\<not> embeds_struct env e a"
      using assms(1) None early iface by (auto simp: first_question_def split: if_splits option.splits)
    then obtain f ty fs where "if_fields i = (f, ty) # fs" "map_of (rev (si_fields s)) f = Some a'" "ty = e'"
      using assms(1) None early iface by (auto simp: first_question_def split: if_splits list.splits)
    then show ?thesis using assms(2) None early iface i by simp
  qed
qed (use assms in \<open>auto simp: first_question_def split: if_splits\<close>)

lemma first_question_apart: "first_question env e a = Some q \<Longrightarrow> a \<noteq> e \<and> e \<noteq> ''any''"
  by (auto simp: first_question_def to_lowercase_def lower_char_def split: if_splits)

lemma endless_compatible:
  assumes "\<forall>(e, a) \<in> R. \<exists>q \<in> R. first_question env e a = Some q"
  shows "(e, a) \<in> R \<Longrightarrow> is_type_compatible n env e a = None"
proof (induction n arbitrary: e a)
  case (Suc n)
  obtain e' a' where "(e', a') \<in> R" "first_question env e a = Some (e', a')" using assms Suc.prems by fastforce
  then show ?case using Suc.IH first_question_unanswered by blast
qed simp

lemma endless_literal:
  assumes "\<forall>(e, a) \<in> R. \<exists>q \<in> R. first_question env e a = Some q"
  shows "(e, s) \<in> R \<Longrightarrow> check_type n env (E_StructInst s ps s_loc) e loc = None"
proof (induction n arbitrary: e)
  case (Suc n)
  obtain e' a' where q: "(e', a') \<in> R" "first_question env e s = Some (e', a')" using assms Suc.prems by fastforce
  note apart = first_question_apart [OF q(2)]
  show ?case
  proof (cases "map_of (te_aliases env) e")
    case None
    then show ?thesis using apart endless_compatible [OF assms Suc.prems] by (simp add: check_struct_inst_def)
  next
    case (Some t)
    then have "(type_display t, s) \<in> R" using q by (auto simp: first_question_def split: if_splits)
    then show ?thesis using Suc.IH apart Some by simp
  qed
qed simp

text \<open>C27: Where every comparison of a set asks first about a pair of that set (aliases that lead back to
  themselves, an interface whose first field has the interface's own type), none of them returns, and
  the check of a literal of such a struct does not return either: no amount of fuel gives an answer.\<close>

theorem recursive_types_diverge:
  assumes "\<forall>(e, a) \<in> R. \<exists>q \<in> R. first_question env e a = Some q" and "(expected, s) \<in> R"
  shows "is_type_compatible n env expected s = None \<and>
    check_type n env (E_StructInst s ps s_loc) expected loc = None"
  using endless_compatible [OF assms] endless_literal [OF assms] by blast

text \<open>A linked list against the interface of a linked list, and a struct against an alias of itself.\<close>

theorem recursive_types_diverge_witness:
  "(\<forall>n. check_type n demo_env (E_StructInst ''N'' [(''next'', E_Literal L_Null)] demo_loc) ''Node'' demo_loc = None) \<and>
   (\<forall>n. is_type_compatible n demo_env ''A'' ''P'' = None)"
proof -
  have "first_question demo_env ''Node'' ''N'' = Some (''Node'', ''N'')"
    "first_question demo_env ''A'' ''P'' = Some (''A'', ''P'')" by code_simp+
  then show ?thesis
    using recursive_types_diverge [of "{(''Node'', ''N'')}" demo_env "''Node''" "''N''"]
      recursive_types_diverge [of "{(''A'', ''P'')}" demo_env "''A''" "''P''"] by simp
qed

end
