(* ===== verification/Effects.thy ===== *)
theory Effects
  imports Ast Prelude
begin

text \<open>
  Effect inference, \<^verbatim>\<open>crates/eronom-frontend/src/effects.rs\<close>: every declared function and method
  gets the lowest of the rungs pure, impure, suspends that covers what its body may do, by
  iterating over the program until no rung grows, at most ten times. \<open>FunctionEffects\<close> is a
  pair of maps seeded with the primitives. The lemmas show that a round only raises rungs, that
  the rungs are never higher than needed, and that they are high enough when the program
  declares at most five bodies; the last section shows that the bound on the rounds matters.
\<close>

section \<open>Rungs\<close>

datatype effect_rung = Pure | Impure | Suspends

fun rung_level :: "effect_rung \<Rightarrow> nat" where
  "rung_level Pure = 0"
| "rung_level Impure = 1"
| "rung_level Suspends = 2"

instantiation effect_rung :: linorder
begin

definition less_eq_effect_rung :: "effect_rung \<Rightarrow> effect_rung \<Rightarrow> bool" where
  "less_eq_effect_rung a b \<longleftrightarrow> rung_level a \<le> rung_level b"

definition less_effect_rung :: "effect_rung \<Rightarrow> effect_rung \<Rightarrow> bool" where
  "less_effect_rung a b \<longleftrightarrow> rung_level a < rung_level b"

instance
proof
  fix x y :: effect_rung
  assume "x \<le> y" "y \<le> x"
  then show "x = y" by (cases x; cases y; simp add: less_eq_effect_rung_def)
qed (auto simp: less_eq_effect_rung_def less_effect_rung_def)

end

definition combine_rungs :: "effect_rung \<Rightarrow> effect_rung \<Rightarrow> effect_rung" where
  "combine_rungs a b = max a b"

lemma Pure_le [simp]: "Pure \<le> r" "max Pure r = r" "max r Pure = r"
  by (cases r; simp add: less_eq_effect_rung_def max_def)+

lemma le_Suspends [simp]: "r \<le> Suspends"
  by (cases r; simp add: less_eq_effect_rung_def)

lemma combine_le_iff [simp]: "combine_rungs a b \<le> r \<longleftrightarrow> a \<le> r \<and> b \<le> r"
  by (simp add: combine_rungs_def)

lemma combine_mono [intro]: "a \<le> a' \<Longrightarrow> b \<le> b' \<Longrightarrow> combine_rungs a b \<le> combine_rungs a' b'"
  unfolding combine_rungs_def by (rule max.mono)

record function_effects =
  fe_functions :: "string \<rightharpoonup> effect_rung"
  fe_methods :: "string \<rightharpoonup> effect_rung"

text \<open>\<^verbatim>\<open>iter().fold(acc, |acc, x| acc.combine(..))\<close>\<close>

definition combine_all :: "effect_rung \<Rightarrow> effect_rung list \<Rightarrow> effect_rung" where
  "combine_all acc rs = foldl combine_rungs acc rs"

lemma combine_all_le_iff [simp]:
  "combine_all acc rs \<le> r \<longleftrightarrow> acc \<le> r \<and> (\<forall>x \<in> set rs. x \<le> r)"
  by (induction rs arbitrary: acc) (auto simp: combine_all_def)

section \<open>The seeded effects\<close>

definition seed :: "string list \<Rightarrow> effect_rung \<Rightarrow> (string \<times> effect_rung) list" where
  "seed ns r = map (\<lambda>n. (n, r)) ns"

definition function_effects_new :: function_effects where
  "function_effects_new =
     \<lparr>fe_functions = map_of (
        seed [''fetch'', ''fetchEvented''] Suspends @
        seed [''fetchSync''] Impure @
        seed [''futureAwait'', ''sleep'', ''spawnTask'', ''wait'', ''await'', ''Eronom_fiberYield'',
              ''Eronom_fiberJoin'', ''Eronom_bracket'', ''Eronom_maskInterrupts'',
              ''Eronom_unmaskInterrupts'', ''yield''] Suspends @
        seed [''Eronom_fiberSpawn'', ''Eronom_fiberInterrupt'', ''Eronom_fiberAddFinalizer'',
              ''print'', ''println'', ''write'', ''setIoMode'', ''setTimeout'', ''clearTimeout'',
              ''arrayPush'', ''arrayPop'', ''arrayShift''] Impure @
        seed [''arrayLen'', ''stringIndexOf'', ''now'', ''localTimeString''] Pure),
      fe_methods = Map.empty\<rparr>"

definition rung_or_pure :: "effect_rung option \<Rightarrow> effect_rung" where
  "rung_or_pure r = (case r of None \<Rightarrow> Pure | Some x \<Rightarrow> x)"

definition get_function_rung :: "function_effects \<Rightarrow> string \<Rightarrow> effect_rung" where
  "get_function_rung fe name = rung_or_pure (fe_functions fe name)"

definition method_key :: "string \<Rightarrow> string \<Rightarrow> string" where
  "method_key s m = s @ ''.'' @ m"

definition get_method_rung :: "function_effects \<Rightarrow> string \<Rightarrow> string \<Rightarrow> effect_rung" where
  "get_method_rung fe s m = rung_or_pure (fe_methods fe (method_key s m))"

section \<open>Effects of expressions and statements\<close>

text \<open>The properties of the built-in objects that suspend when read.\<close>

fun property_suspends :: "expr \<Rightarrow> string \<Rightarrow> bool" where
  "property_suspends (E_Variable target_name _) prop \<longleftrightarrow>
     (target_name = ''Io'' \<and> prop = ''wait'') \<or>
     (target_name = ''Task'' \<and> prop \<in> {''race'', ''timeout'', ''forEach'', ''scope''})"
| "property_suspends _ _ \<longleftrightarrow> False"

text \<open>The methods that suspend when called, whatever the target, and those of the built-in objects.\<close>

fun target_method_suspends :: "expr \<Rightarrow> string \<Rightarrow> bool" where
  "target_method_suspends (E_Variable target_name _) meth \<longleftrightarrow>
     (target_name = ''Io'' \<and> meth = ''wait'') \<or>
     (target_name = ''Task'' \<and>
        meth \<in> {''race'', ''timeout'', ''forEach'', ''scope'', ''yield'', ''join''}) \<or>
     (target_name = ''Clock'' \<and> meth \<in> {''run'', ''advance'', ''schedule''})"
| "target_method_suspends _ _ \<longleftrightarrow> False"

definition method_suspends :: "expr \<Rightarrow> string \<Rightarrow> bool" where
  "method_suspends target meth \<longleftrightarrow>
     meth \<in> {''join'', ''wait'', ''yield''} \<or> target_method_suspends target meth"

text \<open>What the callee adds to a call besides its own effect, when it is not a literal function.\<close>

fun callee_rung :: "expr \<Rightarrow> function_effects \<Rightarrow> effect_rung" where
  "callee_rung (E_Variable name _) fe = get_function_rung fe name"
| "callee_rung (E_Get target meth) fe = (if method_suspends target meth then Suspends else Pure)"
| "callee_rung _ fe = Pure"

fun infer_expr_effect :: "expr \<Rightarrow> function_effects \<Rightarrow> effect_rung"
and infer_stmt_effect :: "stmt \<Rightarrow> function_effects \<Rightarrow> effect_rung"
and infer_case_effect :: "switch_case \<Rightarrow> function_effects \<Rightarrow> effect_rung" where
  "infer_expr_effect (E_Literal l) fe = Pure"
| "infer_expr_effect (E_Variable name l) fe = get_function_rung fe name"
| "infer_expr_effect (E_Assign x val l) fe = combine_rungs Impure (infer_expr_effect val fe)"
| "infer_expr_effect (E_Binary left opr right) fe =
     combine_rungs (infer_expr_effect left fe) (infer_expr_effect right fe)"
| "infer_expr_effect (E_Logical left opr right) fe =
     combine_rungs (infer_expr_effect left fe) (infer_expr_effect right fe)"
| "infer_expr_effect (E_Unary opr inner) fe = infer_expr_effect inner fe"
| "infer_expr_effect (E_TypeCast inner t l) fe = infer_expr_effect inner fe"
| "infer_expr_effect (E_New inner) fe = infer_expr_effect inner fe"
| "infer_expr_effect (E_Prefix opr inner) fe = combine_rungs Impure (infer_expr_effect inner fe)"
| "infer_expr_effect (E_Postfix opr inner) fe = combine_rungs Impure (infer_expr_effect inner fe)"
| "infer_expr_effect (E_Ternary c t e) fe =
     combine_rungs (combine_rungs (infer_expr_effect c fe) (infer_expr_effect t fe))
       (infer_expr_effect e fe)"
| "infer_expr_effect (E_Array es) fe = combine_all Pure (map (\<lambda>e. infer_expr_effect e fe) es)"
| "infer_expr_effect (E_Object ps) fe =
     combine_all Pure (map (\<lambda>(k, e). infer_expr_effect e fe) ps)"
| "infer_expr_effect (E_Get target prop) fe =
     (if property_suspends target prop then Suspends else infer_expr_effect target fe)"
| "infer_expr_effect (E_Set target prop val) fe =
     combine_rungs (combine_rungs Impure (infer_expr_effect target fe)) (infer_expr_effect val fe)"
| "infer_expr_effect (E_GetIndex target idx) fe =
     combine_rungs (infer_expr_effect target fe) (infer_expr_effect idx fe)"
| "infer_expr_effect (E_SetIndex target idx val) fe =
     combine_rungs (combine_rungs (combine_rungs Impure (infer_expr_effect target fe))
       (infer_expr_effect idx fe)) (infer_expr_effect val fe)"
| "infer_expr_effect (E_StructInst s fs l) fe =
     combine_all Pure (map (\<lambda>(k, e). infer_expr_effect e fe) fs)"
| "infer_expr_effect (E_Spawn inner) fe = combine_rungs Impure (infer_expr_effect inner fe)"
| "infer_expr_effect (E_Await inner) fe = combine_rungs Suspends (infer_expr_effect inner fe)"
| "infer_expr_effect (E_Function ps r body is_async is_sync) fe = Pure"
| "infer_expr_effect (E_Call callee args) fe =
     combine_all
       (case callee of
          E_Function ps r body is_async is_sync \<Rightarrow>
            combine_rungs (infer_expr_effect callee fe) (infer_stmt_effect body fe)
        | _ \<Rightarrow> combine_rungs (infer_expr_effect callee fe) (callee_rung callee fe))
       (map (\<lambda>e. infer_expr_effect e fe) args)"
| "infer_stmt_effect (S_Expr e) fe = infer_expr_effect e fe"
| "infer_stmt_effect (S_Print e) fe = combine_rungs Impure (infer_expr_effect e fe)"
| "infer_stmt_effect (S_VarDecl x t c init l) fe = infer_expr_effect init fe"
| "infer_stmt_effect (S_Block ss) fe = combine_all Pure (map (\<lambda>s. infer_stmt_effect s fe) ss)"
| "infer_stmt_effect (S_If c t e) fe =
     combine_rungs (combine_rungs (infer_expr_effect c fe) (infer_stmt_effect t fe))
       (case e of None \<Rightarrow> Pure | Some eb \<Rightarrow> infer_stmt_effect eb fe)"
| "infer_stmt_effect (S_While c body) fe =
     combine_rungs (infer_expr_effect c fe) (infer_stmt_effect body fe)"
| "infer_stmt_effect (S_For x start stop body) fe =
     combine_rungs (combine_rungs (infer_expr_effect start fe) (infer_expr_effect stop fe))
       (infer_stmt_effect body fe)"
| "infer_stmt_effect (S_ForIn x iter body) fe =
     combine_rungs (infer_expr_effect iter fe) (infer_stmt_effect body fe)"
| "infer_stmt_effect S_Break fe = Pure"
| "infer_stmt_effect S_Continue fe = Pure"
| "infer_stmt_effect (S_Throw e) fe = combine_rungs Impure (infer_expr_effect e fe)"
| "infer_stmt_effect (S_Try b c f) fe =
     combine_rungs
       (combine_rungs (infer_stmt_effect b fe)
          (case c of None \<Rightarrow> Pure | Some (x, cb) \<Rightarrow> infer_stmt_effect cb fe))
       (case f of None \<Rightarrow> Pure | Some fb \<Rightarrow> infer_stmt_effect fb fe)"
| "infer_stmt_effect (S_Switch target cases d) fe =
     combine_rungs
       (combine_all (infer_expr_effect target fe) (map (\<lambda>c. infer_case_effect c fe) cases))
       (case d of None \<Rightarrow> Pure | Some db \<Rightarrow> infer_stmt_effect db fe)"
| "infer_stmt_effect (S_Return e l) fe =
     (case e of None \<Rightarrow> Pure | Some e \<Rightarrow> infer_expr_effect e fe)"
| "infer_stmt_effect (S_Import ns p) fe = Pure"
| "infer_stmt_effect (S_Export inner) fe = infer_stmt_effect inner fe"
| "infer_stmt_effect (S_Struct n ps fs ms l) fe = Pure"
| "infer_stmt_effect (S_Interface n fs ms l) fe = Pure"
| "infer_stmt_effect (S_TypeAlias n ps t l) fe = Pure"
| "infer_stmt_effect (S_Enum n vs l) fe = Pure"
| "infer_stmt_effect (S_Concurrent body) fe = combine_rungs Suspends (infer_stmt_effect body fe)"
| "infer_stmt_effect (S_Sync body) fe = infer_stmt_effect body fe"
| "infer_case_effect (SwitchCase vs body) fe =
     combine_rungs (combine_all Pure (map (\<lambda>v. infer_expr_effect v fe) vs))
       (infer_stmt_effect body fe)"

section \<open>The inference loop\<close>

text \<open>\<^verbatim>\<open>collect_functions\<close>: the declared functions with their bodies, and the methods.\<close>

type_synonym bodies = "(string \<times> stmt) list \<times> (string \<times> string \<times> stmt) list"

fun collect_functions :: "stmt \<Rightarrow> bodies \<Rightarrow> bodies" where
  "collect_functions (S_VarDecl name t c (E_Function ps r body is_async is_sync) l) (fs, ms) =
     (fs @ [(name, body)], ms)"
| "collect_functions (S_Struct name ps fs0 methods l) (fs, ms) =
     (fs, ms @ map (\<lambda>(m, qs, body). (name, m, body)) methods)"
| "collect_functions (S_Export inner) b = collect_functions inner b"
| "collect_functions (S_Block ss) b = fold collect_functions ss b"
| "collect_functions (S_Sync inner) b = collect_functions inner b"
| "collect_functions (S_Concurrent inner) b = collect_functions inner b"
| "collect_functions _ b = b"

definition collect_program :: "stmt list \<Rightarrow> bodies" where
  "collect_program stmts = fold collect_functions stmts ([], [])"

text \<open>\<^verbatim>\<open>entry(k).or_insert(Pure)\<close>\<close>

definition or_insert_pure :: "string \<Rightarrow> (string \<rightharpoonup> effect_rung) \<Rightarrow> (string \<rightharpoonup> effect_rung)" where
  "or_insert_pure k m = (case m k of None \<Rightarrow> m(k \<mapsto> Pure) | Some _ \<Rightarrow> m)"

definition initial_effects :: "bodies \<Rightarrow> function_effects" where
  "initial_effects b =
     (case b of (fs, ms) \<Rightarrow>
        \<lparr>fe_functions =
           fold or_insert_pure (map (\<lambda>(n, _). n) fs) (fe_functions function_effects_new),
         fe_methods =
           fold or_insert_pure (map (\<lambda>(s, m, _). method_key s m) ms) (fe_methods function_effects_new)\<rparr>)"

definition infer_function :: "string \<times> stmt \<Rightarrow> function_effects \<times> bool \<Rightarrow> function_effects \<times> bool" where
  "infer_function nb st =
     (case (nb, st) of ((name, body), (fe, changed)) \<Rightarrow>
        let cur = get_function_rung fe name; inferred = infer_stmt_effect body fe in
        if cur < inferred then (fe\<lparr>fe_functions := (fe_functions fe)(name \<mapsto> inferred)\<rparr>, True)
        else (fe, changed))"

definition infer_method ::
    "string \<times> string \<times> stmt \<Rightarrow> function_effects \<times> bool \<Rightarrow> function_effects \<times> bool" where
  "infer_method nb st =
     (case (nb, st) of ((s, m, body), (fe, changed)) \<Rightarrow>
        let key = method_key s m;
            cur = rung_or_pure (fe_methods fe key); inferred = infer_stmt_effect body fe in
        if cur < inferred then (fe\<lparr>fe_methods := (fe_methods fe)(key \<mapsto> inferred)\<rparr>, True)
        else (fe, changed))"

definition infer_round :: "bodies \<Rightarrow> function_effects \<Rightarrow> function_effects \<times> bool" where
  "infer_round b fe =
     (case b of (fs, ms) \<Rightarrow> fold infer_method ms (fold infer_function fs (fe, False)))"

fun infer_rounds :: "nat \<Rightarrow> bodies \<Rightarrow> function_effects \<Rightarrow> function_effects" where
  "infer_rounds 0 b fe = fe"
| "infer_rounds (Suc k) b fe =
     (case infer_round b fe of (fe', changed) \<Rightarrow>
        if changed then infer_rounds k b fe' else fe')"

definition infer_effects :: "stmt list \<Rightarrow> function_effects" where
  "infer_effects stmts =
     (let b = collect_program stmts in infer_rounds 10 b (initial_effects b))"

section \<open>Effects as an ordering\<close>

text \<open>
  Two effect tables are compared by the rungs they give; a table covers a program when the rung
  of each body is at most the rung recorded for it.
\<close>

definition fe_le :: "function_effects \<Rightarrow> function_effects \<Rightarrow> bool" where
  "fe_le a b \<longleftrightarrow>
     (\<forall>n. get_function_rung a n \<le> get_function_rung b n) \<and>
     (\<forall>k. rung_or_pure (fe_methods a k) \<le> rung_or_pure (fe_methods b k))"

lemma fe_le_refl [simp]: "fe_le a a"
  by (simp add: fe_le_def)

lemma fe_le_trans [trans]: "fe_le a b \<Longrightarrow> fe_le b c \<Longrightarrow> fe_le a c"
  unfolding fe_le_def by (meson order_trans)

lemma fe_le_functions: "fe_le a b \<Longrightarrow> get_function_rung a n \<le> get_function_rung b n"
  and fe_le_methods: "fe_le a b \<Longrightarrow> rung_or_pure (fe_methods a k) \<le> rung_or_pure (fe_methods b k)"
  by (simp_all add: fe_le_def)

definition covers :: "function_effects \<Rightarrow> bodies \<Rightarrow> bool" where
  "covers fe b \<longleftrightarrow>
     (\<forall>(n, body) \<in> set (fst b). infer_stmt_effect body fe \<le> get_function_rung fe n) \<and>
     (\<forall>(s, m, body) \<in> set (snd b). infer_stmt_effect body fe \<le> get_method_rung fe s m)"

lemma combine_all_mono:
  "acc \<le> acc' \<Longrightarrow> list_all2 (\<le>) rs rs' \<Longrightarrow> combine_all acc rs \<le> combine_all acc' rs'"
proof (induction rs arbitrary: acc acc' rs')
  case (Cons r rs)
  then show ?case
    by (cases rs') (auto simp: combine_all_def intro!: Cons.IH[unfolded combine_all_def])
qed (simp add: combine_all_def)

lemma combine_all_map_mono:
  "acc \<le> acc' \<Longrightarrow> (\<And>x. x \<in> set xs \<Longrightarrow> f x \<le> g x) \<Longrightarrow>
     combine_all acc (map f xs) \<le> combine_all acc' (map g xs)"
  by (rule combine_all_mono) (auto simp: list_all2_conv_all_nth)

lemma callee_rung_mono: "fe_le a b \<Longrightarrow> callee_rung e a \<le> callee_rung e b"
  by (cases e) (auto simp: fe_le_functions)

lemma infer_mono:
  "fe_le a b \<Longrightarrow> infer_expr_effect e a \<le> infer_expr_effect e b"
  "fe_le a b \<Longrightarrow> infer_stmt_effect s a \<le> infer_stmt_effect s b"
  "fe_le a b \<Longrightarrow> infer_case_effect c a \<le> infer_case_effect c b"
proof (induction e a and s a and c a rule: infer_expr_effect_infer_stmt_effect_infer_case_effect.induct)
  case (22 callee args fe)
  show ?case
    using 22 callee_rung_mono [OF \<open>fe_le fe b\<close>]
    by (cases callee)
      (auto simp del: combine_le_iff combine_all_le_iff intro!: combine_all_map_mono combine_mono)
qed (auto simp del: combine_le_iff combine_all_le_iff
  intro!: combine_all_map_mono combine_mono fe_le_functions split: option.splits)

section \<open>A round\<close>

lemma get_function_rung_upd [simp]:
  "get_function_rung (fe\<lparr>fe_functions := (fe_functions fe)(n \<mapsto> r)\<rparr>) k =
     (if k = n then r else get_function_rung fe k)"
  "get_function_rung (fe\<lparr>fe_methods := m\<rparr>) k = get_function_rung fe k"
  by (simp_all add: get_function_rung_def rung_or_pure_def)

lemma rung_or_pure_simps [simp]:
  "rung_or_pure None = Pure"
  "rung_or_pure (Some r) = r"
  "rung_or_pure (if c then Some r else b) = (if c then r else rung_or_pure b)"
  by (simp_all add: rung_or_pure_def)

text \<open>The names a program declares, and how far their rungs have been raised.\<close>

definition potential :: "bodies \<Rightarrow> function_effects \<Rightarrow> nat" where
  "potential b fe =
     (\<Sum>n \<in> fst ` set (fst b). rung_level (get_function_rung fe n)) +
     (\<Sum>k \<in> (\<lambda>(s, m, _). method_key s m) ` set (snd b). rung_level (rung_or_pure (fe_methods fe k)))"

lemma rung_level_le_2 [simp]: "rung_level r \<le> 2"
  by (cases r) auto

lemma rung_level_mono: "r \<le> r' \<Longrightarrow> rung_level r \<le> rung_level r'"
  by (simp add: less_eq_effect_rung_def)

lemma potential_mono: "fe_le a b \<Longrightarrow> potential p a \<le> potential p b"
  unfolding potential_def
  by (intro add_mono sum_mono rung_level_mono) (simp_all add: fe_le_def)

lemma sum_levels_le: "finite A \<Longrightarrow> (\<Sum>n \<in> A. rung_level (f n)) \<le> 2 * card A"
  using sum_bounded_above [of A "\<lambda>n. rung_level (f n)" 2] by (simp add: mult.commute)

lemma sum_levels_raise:
  assumes "finite A" "n \<in> A" "f n < r"
  shows "(\<Sum>k \<in> A. rung_level (f k)) < (\<Sum>k \<in> A. rung_level (if k = n then r else f k))"
  using assms
  by (intro sum_strict_mono_ex1) (auto simp: less_effect_rung_def less_eq_effect_rung_def)

definition raises :: "bodies \<Rightarrow> function_effects \<times> bool \<Rightarrow> function_effects \<times> bool \<Rightarrow> bool" where
  "raises b st st' \<longleftrightarrow>
     (st' = st \<or>
      snd st' \<and> fe_le (fst st) (fst st') \<and> potential b (fst st) < potential b (fst st'))"

lemma raises_refl [simp]: "raises b st st"
  by (simp add: raises_def)

lemma raises_trans: "raises b st st' \<Longrightarrow> raises b st' st'' \<Longrightarrow> raises b st st''"
  unfolding raises_def by (elim disjE conjE; simp; blast intro: fe_le_trans less_trans)

lemma infer_function_raises:
  assumes "x \<in> set (fst b)"
  shows "raises b st (infer_function x st)"
proof -
  obtain n body fe c where eq: "x = (n, body)" "st = (fe, c)" by (cases x, cases st)
  have mem: "n \<in> fst ` set (fst b)" using assms eq by force
  show ?thesis
  proof (cases "get_function_rung fe n < infer_stmt_effect body fe")
    case True
    from sum_levels_raise [where f = "get_function_rung fe", OF _ mem True] True
    show ?thesis by (auto simp: eq infer_function_def Let_def raises_def potential_def fe_le_def)
  qed (simp add: eq infer_function_def)
qed

lemma infer_method_raises:
  assumes "x \<in> set (snd b)"
  shows "raises b st (infer_method x st)"
proof -
  obtain s m body fe c where eq: "x = (s, m, body)" "st = (fe, c)" by (cases x, cases st)
  have mem: "method_key s m \<in> (\<lambda>(s, m, _). method_key s m) ` set (snd b)" using assms eq by force
  show ?thesis
  proof (cases "rung_or_pure (fe_methods fe (method_key s m)) < infer_stmt_effect body fe")
    case True
    from sum_levels_raise [where f = "\<lambda>k. rung_or_pure (fe_methods fe k)", OF _ mem True] True
    show ?thesis by (auto simp: eq infer_method_def Let_def raises_def potential_def fe_le_def)
  qed (simp add: eq infer_method_def)
qed

lemma fold_raises:
  "(\<And>x st. x \<in> set xs \<Longrightarrow> raises b st (f x st)) \<Longrightarrow> raises b st (fold f xs st)"
proof (induction xs arbitrary: st)
  case (Cons x xs)
  from Cons.prems have "raises b st (f x st)" by simp
  moreover from Cons have "raises b (f x st) (fold f xs (f x st))" by simp
  ultimately show ?case by (auto intro: raises_trans)
qed simp

lemma infer_round_raises: "raises b (fe, False) (infer_round b fe)"
  unfolding infer_round_def
  by (cases b) (auto intro!: raises_trans [OF fold_raises fold_raises]
      infer_function_raises infer_method_raises)

text \<open>A fold that leaves the flag down has changed nothing, so every element was covered.\<close>

lemma fold_unchanged:
  assumes step: "\<And>x st. x \<in> set xs \<Longrightarrow> raises b st (f x st)"
    and same: "fold f xs st = (fe, False)"
  shows "st = (fe, False) \<and> (\<forall>x \<in> set xs. f x (fe, False) = (fe, False))"
  using assms
proof (induction xs arbitrary: st)
  case (Cons x xs)
  have "f x st = (fe, False) \<and> (\<forall>y \<in> set xs. f y (fe, False) = (fe, False))"
    using Cons.prems by (intro Cons.IH) auto
  moreover have "raises b st (f x st)" using Cons.prems by simp
  ultimately show ?case by (auto simp: raises_def)
qed simp

lemma infer_round_unchanged:
  assumes "infer_round b fe = (fe', False)"
  shows "fe' = fe \<and> covers fe b"
proof -
  obtain fs ms where b: "b = (fs, ms)" by (cases b)
  have "fold infer_function fs (fe, False) = (fe', False) \<and>
      (\<forall>x \<in> set ms. infer_method x (fe', False) = (fe', False))"
    using assms
    by (intro fold_unchanged [where b = b]) (auto simp: infer_round_def b intro: infer_method_raises)
  moreover from this have "(fe, False) = (fe', False) \<and>
      (\<forall>x \<in> set fs. infer_function x (fe', False) = (fe', False))"
    by (intro fold_unchanged [where b = b]) (auto simp: b intro: infer_function_raises)
  ultimately show ?thesis
    by (auto simp: covers_def b infer_function_def infer_method_def get_method_rung_def Let_def
        not_less split: if_splits)
qed

text \<open>No rung is raised above one that covers the program.\<close>

lemma infer_function_below:
  assumes "fe_le (fst st) hi" "covers hi b" "x \<in> set (fst b)"
  shows "fe_le (fst (infer_function x st)) hi"
proof -
  obtain n body fe c where eq: "x = (n, body)" "st = (fe, c)" by (cases x, cases st)
  have "infer_stmt_effect body fe \<le> infer_stmt_effect body hi"
    using assms eq by (intro infer_mono) simp
  also have "\<dots> \<le> get_function_rung hi n" using assms eq by (auto simp: covers_def)
  finally show ?thesis using assms eq by (auto simp: infer_function_def Let_def fe_le_def)
qed

lemma infer_method_below:
  assumes "fe_le (fst st) hi" "covers hi b" "x \<in> set (snd b)"
  shows "fe_le (fst (infer_method x st)) hi"
proof -
  obtain s m body fe c where eq: "x = (s, m, body)" "st = (fe, c)" by (cases x, cases st)
  have "infer_stmt_effect body fe \<le> infer_stmt_effect body hi"
    using assms eq by (intro infer_mono) simp
  also have "\<dots> \<le> get_method_rung hi s m" using assms eq by (auto simp: covers_def)
  finally show ?thesis
    using assms eq by (auto simp: infer_method_def Let_def fe_le_def get_method_rung_def)
qed

lemma infer_round_below:
  assumes "fe_le fe hi" "covers hi b"
  shows "fe_le (fst (infer_round b fe)) hi"
proof -
  have 1: "fe_le (fst st) hi \<Longrightarrow> set xs \<subseteq> set (fst b) \<Longrightarrow>
      fe_le (fst (fold infer_function xs st)) hi" for xs st
    by (induction xs arbitrary: st) (simp_all add: infer_function_below [OF _ assms(2)])
  have 2: "fe_le (fst st) hi \<Longrightarrow> set xs \<subseteq> set (snd b) \<Longrightarrow>
      fe_le (fst (fold infer_method xs st)) hi" for xs st
    by (induction xs arbitrary: st) (simp_all add: infer_method_below [OF _ assms(2)])
  show ?thesis using assms(1) by (auto simp: infer_round_def split: prod.split intro!: 1 2)
qed

section \<open>All rounds\<close>

lemma infer_rounds_below:
  "fe_le fe hi \<Longrightarrow> covers hi b \<Longrightarrow> fe_le (infer_rounds k b fe) hi"
proof (induction k arbitrary: fe)
  case (Suc k)
  have "fe_le (fst (infer_round b fe)) hi" using Suc.prems by (rule infer_round_below)
  then show ?case using Suc by (auto split: prod.split)
qed simp

lemma infer_rounds_above: "fe_le fe (infer_rounds k b fe)"
proof (induction k arbitrary: fe)
  case (Suc k)
  have "raises b (fe, False) (infer_round b fe)" by (rule infer_round_raises)
  then show ?case using Suc
    by (cases "infer_round b fe") (auto simp: raises_def intro: fe_le_trans)
qed simp

definition declared :: "bodies \<Rightarrow> nat" where
  "declared b = card (fst ` set (fst b)) + card ((\<lambda>(s, m, _). method_key s m) ` set (snd b))"

lemma declared_le: "declared b \<le> length (fst b) + length (snd b)"
  unfolding declared_def by (meson add_mono card_image_le card_length finite_set order_trans)

lemma potential_le: "potential b fe \<le> 2 * declared b"
  unfolding potential_def declared_def
  using sum_levels_le [of "fst ` set (fst b)"] sum_levels_le [of "(\<lambda>(s, m, _). method_key s m) ` set (snd b)"]
  by (simp add: add_mono algebra_simps)

lemma sum_levels_full:
  assumes "finite A" "(\<Sum>n \<in> A. rung_level (f n)) = 2 * card A" "n \<in> A"
  shows "f n = Suspends"
proof (rule ccontr)
  assume "f n \<noteq> Suspends"
  then have "rung_level (f n) < 2" by (cases "f n") auto
  then have "(\<Sum>n \<in> A. rung_level (f n)) < (\<Sum>n \<in> A. 2)"
    using assms by (intro sum_strict_mono_ex1) auto
  then show False using assms by simp
qed

lemma full_potential_covers:
  assumes "potential b fe = 2 * declared b"
  shows "covers fe b"
proof -
  let ?A = "fst ` set (fst b)" and ?B = "(\<lambda>(s, m, _). method_key s m) ` set (snd b)"
  have "(\<Sum>n \<in> ?A. rung_level (get_function_rung fe n)) = 2 * card ?A \<and>
      (\<Sum>k \<in> ?B. rung_level (rung_or_pure (fe_methods fe k))) = 2 * card ?B"
    using assms sum_levels_le [of ?A "get_function_rung fe"]
      sum_levels_le [of ?B "\<lambda>k. rung_or_pure (fe_methods fe k)"]
    unfolding potential_def declared_def by simp
  then have A: "\<forall>n \<in> ?A. get_function_rung fe n = Suspends"
    and B: "\<forall>k \<in> ?B. rung_or_pure (fe_methods fe k) = Suspends"
    using sum_levels_full [of ?A "get_function_rung fe"]
      sum_levels_full [of ?B "\<lambda>k. rung_or_pure (fe_methods fe k)"] by auto
  show ?thesis
    using A B unfolding covers_def get_method_rung_def by fastforce
qed

lemma infer_rounds_covers:
  "2 * declared b \<le> potential b fe + k \<Longrightarrow> covers (infer_rounds k b fe) b"
proof (induction k arbitrary: fe)
  case 0
  then show ?case using potential_le [of b fe] by (simp add: full_potential_covers)
next
  case (Suc k)
  obtain fe' c where r: "infer_round b fe = (fe', c)" by (cases "infer_round b fe")
  show ?case
  proof (cases c)
    case True
    then have "potential b fe < potential b fe'"
      using infer_round_raises [of b fe] r by (auto simp: raises_def)
    then show ?thesis using Suc r True by simp
  next
    case False
    then show ?thesis using infer_round_unchanged [of b fe fe'] r by simp
  qed
qed

lemma or_insert_pure_rung [simp]: "rung_or_pure (or_insert_pure k m n) = rung_or_pure (m n)"
  by (simp add: or_insert_pure_def rung_or_pure_def split: option.split)

lemma fold_or_insert_rung [simp]:
  "rung_or_pure (fold or_insert_pure ks m n) = rung_or_pure (m n)"
  by (induction ks arbitrary: m) simp_all

lemma initial_effects_rungs [simp]:
  "get_function_rung (initial_effects b) n = get_function_rung function_effects_new n"
  "rung_or_pure (fe_methods (initial_effects b) k) = rung_or_pure (fe_methods function_effects_new k)"
  by (cases b; simp only: get_function_rung_def initial_effects_def prod.case
      function_effects.simps fold_or_insert_rung)+

section \<open>Properties\<close>

lemma fe_le_initial: "fe_le (initial_effects b) fe = fe_le function_effects_new fe"
  by (simp add: fe_le_def)

lemma infer_effects_extends: "fe_le function_effects_new (infer_effects stmts)"
  using infer_rounds_above [of "initial_effects (collect_program stmts)" 10 "collect_program stmts"]
  unfolding infer_effects_def Let_def fe_le_initial .

lemma infer_effects_below:
  "fe_le function_effects_new F \<Longrightarrow> covers F (collect_program stmts) \<Longrightarrow> fe_le (infer_effects stmts) F"
  unfolding infer_effects_def Let_def by (intro infer_rounds_below) (simp_all add: fe_le_initial)

text \<open>C22: Effect inference returns the least table that extends the seeded primitives and gives
  every declared function and method at least the effect of its body, for programs that declare
  at most five of them.\<close>

theorem infer_effects_least:
  assumes "length (fst (collect_program stmts)) + length (snd (collect_program stmts)) \<le> 5"
  shows "fe_le function_effects_new (infer_effects stmts) \<and>
    covers (infer_effects stmts) (collect_program stmts) \<and>
    (\<forall>F. fe_le function_effects_new F \<and> covers F (collect_program stmts) \<longrightarrow>
       fe_le (infer_effects stmts) F)"
proof -
  have "covers (infer_effects stmts) (collect_program stmts)"
    unfolding infer_effects_def Let_def
    using assms declared_le [of "collect_program stmts"] by (intro infer_rounds_covers) simp
  then show ?thesis by (blast intro: infer_effects_extends infer_effects_below)
qed

text \<open>
  A chain of functions, each calling the next, the last calling the primitive \<open>sleep\<close>, declared
  callers first: a round raises one function of the chain.
\<close>

definition no_loc :: source_location where
  "no_loc = \<lparr>loc_file = [], loc_line = 0, loc_col = 0\<rparr>"

definition caller_of :: "string \<Rightarrow> string \<Rightarrow> stmt" where
  "caller_of f g =
     S_VarDecl f None False
       (E_Function [] None (S_Return (Some (E_Call (E_Variable g no_loc) [])) no_loc) False False)
       no_loc"

definition call_chain :: "string list \<Rightarrow> stmt list" where
  "call_chain fs = map (\<lambda>(f, g). caller_of f g) (zip fs (tl fs @ [''sleep'']))"

theorem infer_effects_least_witness:
  "covers (infer_effects (call_chain [''a'', ''b'']))
     (collect_program (call_chain [''a'', ''b'']))"
  using infer_effects_least [of "call_chain [''a'', ''b'']"]
  by (simp add: call_chain_def caller_of_def collect_program_def)

text \<open>One round over a chain gives every function the rung its callee had before the round.\<close>

definition calling :: "string \<Rightarrow> stmt" where
  "calling g = S_Return (Some (E_Call (E_Variable g no_loc) [])) no_loc"

fun chain_bodies :: "string list \<Rightarrow> (string \<times> stmt) list" where
  "chain_bodies [] = []"
| "chain_bodies [f] = [(f, calling ''sleep'')]"
| "chain_bodies (f # g # fs) = (f, calling g) # chain_bodies (g # fs)"

lemma collect_chain: "collect_program (call_chain fs) = (chain_bodies fs, [])"
proof -
  have "fold collect_functions (call_chain fs) (bs, []) = (bs @ chain_bodies fs, [])" for bs
    by (induction fs arbitrary: bs rule: chain_bodies.induct)
      (simp_all add: call_chain_def caller_of_def calling_def)
  then show ?thesis by (simp add: collect_program_def)
qed

lemma infer_calling: "infer_stmt_effect (calling g) fe = get_function_rung fe g"
  by (simp add: calling_def combine_all_def combine_rungs_def)

definition next_callee :: "string list \<Rightarrow> nat \<Rightarrow> string" where
  "next_callee fs j = (if Suc j < length fs then fs ! Suc j else ''sleep'')"

lemma fold_chain:
  assumes "distinct fs" "''sleep'' \<notin> set fs" "fold infer_function (chain_bodies fs) (fe, c) = (fe', c')"
  shows "(\<forall>f. f \<notin> set fs \<longrightarrow> get_function_rung fe' f = get_function_rung fe f) \<and>
    (\<forall>j < length fs. get_function_rung fe' (fs ! j) =
       max (get_function_rung fe (fs ! j)) (get_function_rung fe (next_callee fs j))) \<and>
    (c' \<longleftrightarrow> c \<or> (\<exists>j < length fs. get_function_rung fe (fs ! j) < get_function_rung fe (next_callee fs j)))"
  using assms
proof (induction fs arbitrary: fe c rule: chain_bodies.induct)
  case (2 f)
  then show ?case
    by (auto simp: infer_function_def infer_calling next_callee_def Let_def max_def split: if_splits)
next
  case (3 f g fs)
  define fe1 where "fe1 = (if get_function_rung fe f < get_function_rung fe g
    then fe\<lparr>fe_functions := (fe_functions fe)(f \<mapsto> get_function_rung fe g)\<rparr> else fe)"
  define c1 where "c1 \<longleftrightarrow> c \<or> get_function_rung fe f < get_function_rung fe g"
  have "infer_function (f, calling g) (fe, c) = (fe1, c1)"
    by (simp add: infer_function_def infer_calling Let_def fe1_def c1_def)
  then have run: "fold infer_function (chain_bodies (g # fs)) (fe1, c1) = (fe', c')" using 3(4) by simp
  have r1: "get_function_rung fe1 h = (if h = f then max (get_function_rung fe f) (get_function_rung fe g) else get_function_rung fe h)" for h
    by (auto simp: fe1_def max_def)
  have nx: "next_callee (f # g # fs) 0 = g" "next_callee (f # g # fs) (Suc j) = next_callee (g # fs) j" for j
    by (simp_all add: next_callee_def)
  have away: "next_callee (g # fs) j \<noteq> f" "(g # fs) ! j \<noteq> f" if "j < length (g # fs)" for j
    using 3(2,3) that nth_mem [of j "g # fs"] nth_mem [of "Suc j" "g # fs"] by (auto simp: next_callee_def)
  have IH: "(\<forall>h. h \<notin> set (g # fs) \<longrightarrow> get_function_rung fe' h = get_function_rung fe1 h) \<and>
    (\<forall>j < length (g # fs). get_function_rung fe' ((g # fs) ! j) =
       max (get_function_rung fe1 ((g # fs) ! j)) (get_function_rung fe1 (next_callee (g # fs) j))) \<and>
    (c' \<longleftrightarrow> c1 \<or> (\<exists>j < length (g # fs). get_function_rung fe1 ((g # fs) ! j) < get_function_rung fe1 (next_callee (g # fs) j)))"
    using 3(1) [OF _ _ run] 3(2,3) by simp
  have f: "f \<notin> set (g # fs)" using 3(2) by simp
  have all: "(\<forall>j < length (f # g # fs). Q j) \<longleftrightarrow> Q 0 \<and> (\<forall>j < length (g # fs). Q (Suc j))" for Q
    by (simp add: less_Suc_eq_0_disj) blast
  have ex: "(\<exists>j < length (f # g # fs). Q j) \<longleftrightarrow> Q 0 \<or> (\<exists>j < length (g # fs). Q (Suc j))" for Q
    by (simp add: less_Suc_eq_0_disj) blast
  have rise: "(\<exists>j < length (g # fs). get_function_rung fe1 ((g # fs) ! j) < get_function_rung fe1 (next_callee (g # fs) j)) \<longleftrightarrow>
      (\<exists>j < length (g # fs). get_function_rung fe ((g # fs) ! j) < get_function_rung fe (next_callee (g # fs) j))"
    using away r1 by metis
  have "c' \<longleftrightarrow> c \<or> get_function_rung fe f < get_function_rung fe g \<or>
      (\<exists>j < length (g # fs). get_function_rung fe ((g # fs) ! j) < get_function_rung fe (next_callee (g # fs) j))"
    using IH unfolding rise c1_def by blast
  moreover have "\<forall>j < length (g # fs). get_function_rung fe' ((g # fs) ! j) =
      max (get_function_rung fe ((g # fs) ! j)) (get_function_rung fe (next_callee (g # fs) j))"
    using IH away r1 by metis
  moreover have "get_function_rung fe' f = max (get_function_rung fe f) (get_function_rung fe g)"
    using IH f r1 by metis
  moreover have "\<forall>h. h \<notin> set (f # g # fs) \<longrightarrow> get_function_rung fe' h = get_function_rung fe h"
    using IH r1 by (metis list.set_intros(1) list.set_intros(2))
  ultimately show ?case unfolding all ex nx nth_Cons_0 nth_Cons_Suc by blast
qed simp

text \<open>After \<open>k\<close> rounds the last \<open>k\<close> functions are known to suspend.\<close>

definition found :: "string list \<Rightarrow> nat \<Rightarrow> function_effects \<Rightarrow> bool" where
  "found fs k fe \<longleftrightarrow> get_function_rung fe ''sleep'' = Suspends \<and>
     (\<forall>j < length fs. get_function_rung fe (fs ! j) = (if j + k < length fs then Pure else Suspends))"

lemma max_Suspends [simp]: "max r Suspends = Suspends" "max Suspends r = Suspends"
  by (cases r; simp add: max_def less_eq_effect_rung_def)+

lemma not_less_Pure [simp]: "\<not> r < Pure" "Pure < Suspends"
  by (cases r; simp add: less_effect_rung_def)+

lemma round_chain:
  assumes "distinct fs" "''sleep'' \<notin> set fs" "found fs k fe" "infer_round (chain_bodies fs, []) fe = (fe', c)"
  shows "found fs (Suc k) fe'" "c \<longleftrightarrow> k < length fs"
proof -
  have run: "fold infer_function (chain_bodies fs) (fe, False) = (fe', c)"
    using assms(4) by (simp add: infer_round_def)
  note F = fold_chain [OF assms(1,2) run]
  have callee: "get_function_rung fe (next_callee fs j) = (if Suc j + k < length fs then Pure else Suspends)"
    if "j < length fs" for j
    using assms(3) that by (auto simp: found_def next_callee_def)
  show "found fs (Suc k) fe'"
    using F assms(2,3) callee by (auto simp: found_def)
  have "c \<longleftrightarrow> (\<exists>j < length fs. get_function_rung fe (fs ! j) < get_function_rung fe (next_callee fs j))"
    using F by blast
  also have "\<dots> \<longleftrightarrow> (\<exists>j < length fs. Suc (j + k) = length fs)"
  proof -
    have "get_function_rung fe (fs ! j) < get_function_rung fe (next_callee fs j) \<longleftrightarrow> Suc (j + k) = length fs"
      if "j < length fs" for j
      using assms(3) callee [OF that] that by (auto simp: found_def)
    then show ?thesis by blast
  qed
  also have "\<dots> \<longleftrightarrow> k < length fs" by (auto intro: exI [of _ "length fs - Suc k"])
  finally show "c \<longleftrightarrow> k < length fs" .
qed

lemma rounds_chain:
  assumes "distinct fs" "''sleep'' \<notin> set fs"
  shows "found fs k fe \<Longrightarrow> found fs (k + m) (infer_rounds m (chain_bodies fs, []) fe)"
proof (induction m arbitrary: k fe)
  case (Suc m)
  obtain fe' c where r: "infer_round (chain_bodies fs, []) fe = (fe', c)" by (cases "infer_round (chain_bodies fs, []) fe")
  note R = round_chain [OF assms Suc.prems r]
  show ?case
  proof (cases c)
    case True
    then show ?thesis using Suc.IH [OF R(1)] r by simp
  next
    case False
    then have "length fs \<le> k" using R(2) by simp
    then have "found fs (k + Suc m) fe'" using R(1) by (auto simp: found_def)
    then show ?thesis using False r by simp
  qed
qed simp

lemma chain_suspends:
  assumes "fe_le function_effects_new F" "covers F (chain_bodies fs, [])"
  shows "j < length fs \<Longrightarrow> get_function_rung F (fs ! j) = Suspends"
  using assms(2)
proof (induction fs arbitrary: j rule: chain_bodies.induct)
  case (2 f)
  have "get_function_rung function_effects_new ''sleep'' = Suspends" by code_simp
  then have "Suspends \<le> get_function_rung F ''sleep''" using fe_le_functions [OF assms(1), of "''sleep''"] by simp
  then show ?case using 2 by (auto simp: covers_def infer_calling intro: antisym order_trans)
next
  case (3 f g fs)
  have c: "covers F (chain_bodies (g # fs), [])" using 3(3) by (simp add: covers_def)
  have "get_function_rung F g = Suspends" using 3(1) [of 0] c by simp
  then have "get_function_rung F f = Suspends" using 3(3) by (auto simp: covers_def infer_calling intro: antisym)
  then show ?case using 3(1) [OF _ c] 3(2) by (cases j) auto
qed simp

text \<open>C23: In a chain of any length of functions declared callers first, the last of which calls \<open>sleep\<close>, every
  function suspends by every table that covers the program; effect inference finds exactly the last
  ten, and reports the others as pure.\<close>

theorem infer_effects_misses_chain:
  assumes "distinct fs" and "set fs \<inter> dom (fe_functions function_effects_new) = {}" and "j < length fs"
  shows "get_function_rung (infer_effects (call_chain fs)) (fs ! j) = (if j + 10 < length fs then Pure else Suspends) \<and>
    (\<forall>F. fe_le function_effects_new F \<and> covers F (collect_program (call_chain fs)) \<longrightarrow>
       get_function_rung F (fs ! j) = Suspends)"
proof -
  let ?b = "(chain_bodies fs, []) :: bodies"
  have "fe_functions function_effects_new ''sleep'' = Some Suspends" by code_simp
  then have sleep: "''sleep'' \<notin> set fs" "get_function_rung function_effects_new ''sleep'' = Suspends"
    using assms(2) by (auto simp: get_function_rung_def)
  have "get_function_rung function_effects_new (fs ! i) = Pure" if "i < length fs" for i
  proof -
    have "fs ! i \<notin> dom (fe_functions function_effects_new)" using assms(2) nth_mem [OF that] by blast
    then show ?thesis by (simp add: get_function_rung_def domIff)
  qed
  then have "found fs 0 (initial_effects ?b)" using sleep(2) by (simp add: found_def)
  then have "found fs 10 (infer_effects (call_chain fs))"
    using rounds_chain [OF assms(1) sleep(1), of 0 "initial_effects ?b" 10]
    by (simp add: infer_effects_def collect_chain Let_def)
  then show ?thesis using assms(3) chain_suspends by (auto simp: found_def collect_chain)
qed

theorem infer_effects_misses_chain_witness:
  "get_function_rung (infer_effects (call_chain (map (\<lambda>k. replicate k CHR ''f'') [1 ..< 13]))) ''ff'' = Pure"
  using infer_effects_misses_chain [of "map (\<lambda>k. replicate k CHR ''f'') [1 ..< 13]" 1]
  by (simp add: function_effects_new_def seed_def distinct_map inj_on_def numeral_eq_Suc)

end
