(* ===== verification/Comp_State.thy ===== *)
theory Comp_State
  imports Comp_Types Effects Gc_State
begin

text \<open>
  The compiler's state and its primitives, \<^verbatim>\<open>crates/eronom-vm/src/compiler/mod.rs\<close>. A
  \<^verbatim>\<open>Compiler\<close> is a record; the raw pointer to the compiler of the enclosing function is the
  position in a chain, the compiler at work first. What the compilers share (the constant globals, the
  inferred effects, the heap) is beside the chain. Registers and indices are natural numbers, narrowed
  to a byte or to 32 bits when an instruction is written, as in the source.

  A computation ends in a value and a state, in an error message, in a panic (an index out of range, an
  underflow, \<^verbatim>\<open>unreachable!\<close>), in an abort (the allocator is out of memory), or out of fuel: the
  recursion over the program is cut at a depth, since a cyclic type alias makes the source recurse for ever.
\<close>

section \<open>State\<close>

record loop_context =
  break_jumps :: "nat list"
  continue_jumps :: "nat list"
  is_switch :: bool

record compiler =
  c_function :: er_function
  c_locals :: "local list"
  c_upvalues :: "upvalue_descriptor list"
  c_upvalue_names :: "(string \<times> bool \<times> source_location \<times> string option) list"
  c_scope_depth :: nat
  c_next_reg :: nat
  c_structs :: "struct_info table"
  c_interfaces :: "interface_info table"
  c_type_aliases :: "type_node table"
  c_global_types :: "string table"
  c_current_return_type :: "string option"
  c_current_struct :: "string option"
  c_concurrent_scopes :: "nat list"
  c_loop_stack :: "loop_context list"

text \<open>The last three fields are the platform's: the size of a cell, the address of the chunk the system
  allocator gives on the n-th request, and the bits of the NaN an invalid operation makes.\<close>

record comp_state =
  cs_chain :: "compiler list"
  cs_const_globals :: "source_location table"
  cs_effects :: function_effects
  cs_heap :: gc_state
  cs_cell :: u64
  cs_chunk_at :: "nat \<Rightarrow> u64"
  cs_nan :: f64

datatype comp_error =
    Ce_Message string
  | Ce_Const_assign string source_location source_location
  | Ce_Type type_error
  | Ce_Flatten flatten_error
  | Ce_Return_type string source_location
  | Ce_Unary_operator token_type
  | Ce_Binary_operator token_type

datatype (plugins only: code size) 'a cres =
    COk 'a comp_state
  | CErr comp_error
  | CPanic
  | CAbort
  | CFuel

type_synonym 'a C = "comp_state \<Rightarrow> 'a cres"

definition compiler_new :: compiler where
  "compiler_new =
     \<lparr>c_function = function_default, c_locals = [], c_upvalues = [], c_upvalue_names = [],
      c_scope_depth = 0, c_next_reg = 0, c_structs = [], c_interfaces = [], c_type_aliases = [],
      c_global_types = [], c_current_return_type = None, c_current_struct = None,
      c_concurrent_scopes = [], c_loop_stack = []\<rparr>"

section \<open>Computations\<close>

definition creturn :: "'a \<Rightarrow> 'a C" where
  "creturn x s = COk x s"

definition cfail :: "comp_error \<Rightarrow> 'a C" where
  "cfail e s = CErr e"

definition cpanic :: "'a C" where
  "cpanic s = CPanic"

definition cfuel :: "'a C" where
  "cfuel s = CFuel"

definition cbind :: "'a C \<Rightarrow> ('a \<Rightarrow> 'b C) \<Rightarrow> 'b C" where
  "cbind m f s =
     (case m s of COk x s' \<Rightarrow> f x s' | CErr e \<Rightarrow> CErr e | CPanic \<Rightarrow> CPanic | CAbort \<Rightarrow> CAbort
      | CFuel \<Rightarrow> CFuel)"

definition cthen :: "'a C \<Rightarrow> 'b C \<Rightarrow> 'b C" where
  "cthen m k = cbind m (\<lambda>_. k)"

definition cget :: "(comp_state \<Rightarrow> 'a) \<Rightarrow> 'a C" where
  "cget f s = COk (f s) s"

definition cmodify :: "(comp_state \<Rightarrow> comp_state) \<Rightarrow> unit C" where
  "cmodify f s = COk () (f s)"

text \<open>Statements in sequence, and a \<^verbatim>\<open>for\<close> with the index.\<close>

fun cseq :: "unit C list \<Rightarrow> unit C" where
  "cseq [] = creturn ()"
| "cseq (m # ms) = cthen m (cseq ms)"

definition cfor :: "'a list \<Rightarrow> ('a \<Rightarrow> unit C) \<Rightarrow> unit C" where
  "cfor xs f = cseq (map f xs)"

definition cfor_index :: "'a list \<Rightarrow> (nat \<Rightarrow> 'a \<Rightarrow> unit C) \<Rightarrow> unit C" where
  "cfor_index xs f = cseq (map (\<lambda>(i, x). f i x) (List.enumerate 0 xs))"

section \<open>The compiler at work\<close>

definition cur :: "comp_state \<Rightarrow> compiler" where
  "cur s = hd (cs_chain s)"

definition set_cur :: "compiler \<Rightarrow> comp_state \<Rightarrow> comp_state" where
  "set_cur c s = s\<lparr>cs_chain := c # tl (cs_chain s)\<rparr>"

definition cself :: "(compiler \<Rightarrow> 'a) \<Rightarrow> 'a C" where
  "cself f = cget (\<lambda>s. f (cur s))"

definition cupdate :: "(compiler \<Rightarrow> compiler) \<Rightarrow> unit C" where
  "cupdate f = cmodify (\<lambda>s. set_cur (f (cur s)) s)"

definition the_chunk :: "compiler \<Rightarrow> chunk" where
  "the_chunk c = fn_chunk (c_function c)"

definition upd_chunk :: "(chunk \<Rightarrow> chunk) \<Rightarrow> compiler \<Rightarrow> compiler" where
  "upd_chunk f c = c\<lparr>c_function := (c_function c)\<lparr>fn_chunk := f (the_chunk c)\<rparr>\<rparr>"

definition code_len :: "nat C" where
  "code_len = cself (\<lambda>c. length (code (the_chunk c)))"

definition next_reg :: "nat C" where
  "next_reg = cself c_next_reg"

definition local_count :: "nat C" where
  "local_count = cself (\<lambda>c. length (c_locals c))"

text \<open>\<^verbatim>\<open>current_chunk().write_instruction(op, ..)\<close>, with the \<^verbatim>\<open>as u8\<close> and \<^verbatim>\<open>as u32\<close> of its
  arguments.\<close>

definition emit :: "op_code \<Rightarrow> nat \<Rightarrow> nat \<Rightarrow> nat \<Rightarrow> nat \<Rightarrow> unit C" where
  "emit opc a b c n =
     cupdate (upd_chunk (write_instruction opc (of_nat a) (of_nat b) (of_nat c) (of_nat n)))"

definition add_const :: "er_value \<Rightarrow> nat C" where
  "add_const v =
     cbind (cself (\<lambda>c. add_constant v (the_chunk c))) (\<lambda>(i, ch).
     cthen (cupdate (upd_chunk (\<lambda>_. ch))) (creturn i))"

definition add_handler :: "exception_handler \<Rightarrow> unit C" where
  "add_handler h = cupdate (upd_chunk (\<lambda>ch. ch\<lparr>handlers := handlers ch @ [h]\<rparr>))"

section \<open>Scopes and locals\<close>

definition begin_scope :: "unit C" where
  "begin_scope = cupdate (\<lambda>c. c\<lparr>c_scope_depth := c_scope_depth c + 1\<rparr>)"

text \<open>The locals deeper than the scope left are popped; at depth 0 the subtraction overflows.\<close>

definition end_scope :: "unit C" where
  "end_scope =
     cbind (cself c_scope_depth) (\<lambda>d.
     if d = 0 then cpanic
     else cupdate (\<lambda>c. c\<lparr>c_scope_depth := d - 1,
       c_locals := rev (dropWhile (\<lambda>l. d - 1 < l_depth l) (rev (c_locals c)))\<rparr>))"

definition default_loc :: source_location where
  "default_loc = \<lparr>loc_file = [], loc_line = 0, loc_col = 0\<rparr>"

definition push_local :: "string \<Rightarrow> bool \<Rightarrow> source_location \<Rightarrow> string option \<Rightarrow> unit C" where
  "push_local name is_const loc ty =
     cupdate (\<lambda>c. c\<lparr>c_locals := c_locals c @
       [\<lparr>l_name = name, l_depth = c_scope_depth c, l_is_const = is_const, l_loc = loc, l_ty = ty\<rparr>]\<rparr>)"

text \<open>A local of the compiler's own, named after the number of locals.\<close>

definition push_hidden :: "string \<Rightarrow> unit C" where
  "push_hidden stem =
     cbind local_count (\<lambda>n. push_local (stem @ digits_of_nat n) False default_loc None)"

definition last_index :: "('a \<Rightarrow> bool) \<Rightarrow> 'a list \<Rightarrow> nat option" where
  "last_index P xs = map_option (\<lambda>i. length xs - 1 - i) (position P (rev xs))"

definition find_local :: "string \<Rightarrow> compiler \<Rightarrow> nat option" where
  "find_local name c = last_index (\<lambda>l. l_name l = name) (c_locals c)"

definition resolve_local :: "string \<Rightarrow> nat option C" where
  "resolve_local name = cself (find_local name)"

section \<open>Upvalues\<close>

definition add_upvalue ::
    "bool \<Rightarrow> u8 \<Rightarrow> string \<Rightarrow> bool \<Rightarrow> source_location \<Rightarrow> string option \<Rightarrow> compiler \<Rightarrow> nat \<times> compiler" where
  "add_upvalue loc_up i name is_const loc ty c =
     (case position (\<lambda>uv. is_local uv = loc_up \<and> uv_index uv = i) (c_upvalues c) of
        Some k \<Rightarrow> (k, c)
      | None \<Rightarrow>
          (length (c_upvalues c),
           c\<lparr>c_upvalues := c_upvalues c @ [\<lparr>is_local = loc_up, uv_index = i\<rparr>],
             c_upvalue_names := c_upvalue_names c @ [(name, is_const, loc, ty)]\<rparr>))"

text \<open>\<^verbatim>\<open>resolve_upvalue\<close> on a chain of compilers: a local of the parent, or an upvalue of it, which may
  add one to it and to those above. \<open>None\<close> is the panic of an index out of range.\<close>

fun find_upvalue :: "string \<Rightarrow> compiler list \<Rightarrow> (nat option \<times> compiler list) option" where
  "find_upvalue name (c # p # cs) =
     (case find_local name p of
        Some i \<Rightarrow>
          if length (c_locals p) \<le> i then None
          else
            (let l = c_locals p ! i;
                 (k, c') = add_upvalue True (of_nat i) name (l_is_const l) (l_loc l) (l_ty l) c
             in Some (Some k, c' # p # cs))
      | None \<Rightarrow>
          (case find_upvalue name (p # cs) of
             Some (Some j, p' # cs') \<Rightarrow>
               if length (c_upvalue_names p') \<le> j then None
               else
                 (case c_upvalue_names p' ! j of (n', is_const, loc, ty) \<Rightarrow>
                    (let (k, c') = add_upvalue False (of_nat j) n' is_const loc ty c
                     in Some (Some k, c' # p' # cs')))
           | Some (r, chain') \<Rightarrow> Some (None, c # chain')
           | None \<Rightarrow> None))"
| "find_upvalue name cs = Some (None, cs)"

definition resolve_upvalue :: "string \<Rightarrow> nat option C" where
  "resolve_upvalue name s =
     (case find_upvalue name (cs_chain s) of
        Some (r, chain) \<Rightarrow> COk r (s\<lparr>cs_chain := chain\<rparr>)
      | None \<Rightarrow> CPanic)"

section \<open>Jumps\<close>

definition emit_jump :: "op_code \<Rightarrow> nat \<Rightarrow> nat C" where
  "emit_jump opc cond_reg =
     cthen (emit opc cond_reg 0 0 0) (cbind code_len (\<lambda>n. creturn (n - 1)))"

text \<open>Both patches write the operand of a jump; the subtractions panic below zero, the index out of range,
  and another instruction is \<^verbatim>\<open>unreachable!\<close>.\<close>

definition is_jump :: "op_code \<Rightarrow> bool" where
  "is_jump opc \<longleftrightarrow> opc = JumpIfFalse \<or> opc = Jump"

definition patch_jump_to :: "nat \<Rightarrow> nat \<Rightarrow> unit C" where
  "patch_jump_to offset target =
     cbind (cself (\<lambda>c. code (the_chunk c))) (\<lambda>is.
     if target < 1 + offset then cpanic
     else if length is \<le> offset then cpanic
     else if is_jump (op (is ! offset)) then
       cupdate (upd_chunk (\<lambda>ch. ch\<lparr>code :=
         (code ch)[offset := (is ! offset)\<lparr>operand := of_nat (target - 1 - offset)\<rparr>]\<rparr>))
     else cpanic)"

definition patch_jump :: "nat \<Rightarrow> unit C" where
  "patch_jump offset = cbind code_len (\<lambda>n. patch_jump_to offset n)"

definition emit_loop :: "nat \<Rightarrow> unit C" where
  "emit_loop loop_start =
     cthen (cupdate (\<lambda>c. c\<lparr>c_function := (c_function c)\<lparr>has_loop := True\<rparr>\<rparr>))
       (cbind code_len (\<lambda>n. if n < loop_start then cpanic else emit Loop 0 0 0 (n - loop_start + 1)))"

section \<open>Loops\<close>

definition push_loop :: "bool \<Rightarrow> unit C" where
  "push_loop switch =
     cupdate (\<lambda>c. c\<lparr>c_loop_stack :=
       \<lparr>break_jumps = [], continue_jumps = [], is_switch = switch\<rparr> # c_loop_stack c\<rparr>)"

definition pop_loop :: "loop_context C" where
  "pop_loop =
     cbind (cself c_loop_stack) (\<lambda>ls.
     (case ls of
        [] \<Rightarrow> cpanic
      | l # ls' \<Rightarrow> cthen (cupdate (\<lambda>c. c\<lparr>c_loop_stack := ls'\<rparr>)) (creturn l)))"

definition add_break :: "nat \<Rightarrow> unit C" where
  "add_break jmp =
     cbind (cself c_loop_stack) (\<lambda>ls.
     (case ls of
        [] \<Rightarrow> cpanic
      | l # ls' \<Rightarrow> cupdate (\<lambda>c. c\<lparr>c_loop_stack := l\<lparr>break_jumps := break_jumps l @ [jmp]\<rparr> # ls'\<rparr>)))"

definition add_continue :: "nat \<Rightarrow> nat \<Rightarrow> unit C" where
  "add_continue i jmp =
     cbind (cself c_loop_stack) (\<lambda>ls.
     if length ls \<le> i then cpanic
     else cupdate (\<lambda>c. c\<lparr>c_loop_stack := ls[i := (ls ! i)\<lparr>continue_jumps := continue_jumps (ls ! i) @ [jmp]\<rparr>]\<rparr>))"

section \<open>The heap\<close>

text \<open>UTF-8 of a code point below 256.\<close>

definition utf8_char :: "char \<Rightarrow> u8 list" where
  "utf8_char c =
     (let n = of_char c :: nat
      in if n < 128 then [of_nat n] else [of_nat (192 + n div 64), of_nat (128 + n mod 64)])"

definition utf8_of :: "string \<Rightarrow> u8 list" where
  "utf8_of s = concat (map utf8_char s)"

definition heap_alloc :: "gc_data \<Rightarrow> u64 C" where
  "heap_alloc d s =
     (case gc_allocate (cs_cell s) (cs_chunk_at s (length (chunks (cs_heap s)))) d (cs_heap s) of
        None \<Rightarrow> CAbort
      | Some (p, h) \<Rightarrow> COk p (s\<lparr>cs_heap := h\<rparr>))"

text \<open>\<^verbatim>\<open>Value::string_from_str\<close>\<close>

definition string_from_str :: "string \<Rightarrow> er_value C" where
  "string_from_str t =
     (case inline_string (utf8_of t) of
        Some v \<Rightarrow> creturn v
      | None \<Rightarrow> cbind (heap_alloc (D_String (utf8_of t))) (\<lambda>p. creturn (val_string p)))"

text \<open>\<^verbatim>\<open>let idx = self.current_chunk().add_constant(Value::string_from_str(..))\<close>\<close>

definition string_const :: "string \<Rightarrow> nat C" where
  "string_const t = cbind (string_from_str t) add_const"

definition number_const :: "f64 \<Rightarrow> nat C" where
  "number_const n = add_const (val_number n)"

definition pop_map_pool :: "unit C" where
  "pop_map_pool = cmodify (\<lambda>s. s\<lparr>cs_heap := (cs_heap s)\<lparr>map_pool := butlast (map_pool (cs_heap s))\<rparr>\<rparr>)"

section \<open>Checks\<close>

definition type_env_of :: "compiler \<Rightarrow> type_env" where
  "type_env_of c =
     \<lparr>te_structs = c_structs c, te_interfaces = c_interfaces c, te_aliases = c_type_aliases c,
      te_locals = c_locals c, te_globals = c_global_types c\<rparr>"

definition require_type :: "nat \<Rightarrow> expr \<Rightarrow> string \<Rightarrow> source_location \<Rightarrow> unit C" where
  "require_type n e ty loc =
     cbind (cself (\<lambda>c. check_type n (type_env_of c) e ty loc)) (\<lambda>r.
     (case r of None \<Rightarrow> cfuel | Some (Inl err) \<Rightarrow> cfail (Ce_Type err) | Some (Inr _) \<Rightarrow> creturn ()))"

definition require_type_opt :: "nat \<Rightarrow> expr \<Rightarrow> string option \<Rightarrow> source_location \<Rightarrow> unit C" where
  "require_type_opt n e ty loc = (case ty of None \<Rightarrow> creturn () | Some t \<Rightarrow> require_type n e t loc)"

text \<open>Refuse an assignment to a constant declared at \<open>decl\<close>.\<close>

definition refuse_const :: "bool \<Rightarrow> string \<Rightarrow> source_location \<Rightarrow> source_location \<Rightarrow> unit C" where
  "refuse_const is_const name loc decl =
     (if is_const then cfail (Ce_Const_assign name loc decl) else creturn ())"

definition refuse_const_global :: "string \<Rightarrow> source_location \<Rightarrow> unit C" where
  "refuse_const_global name loc =
     cbind (cget (\<lambda>s. map_of (cs_const_globals s) name)) (\<lambda>d.
     (case d of Some decl \<Rightarrow> cfail (Ce_Const_assign name loc decl) | None \<Rightarrow> creturn ()))"

end
