(* ===== verification/Comp_Expr.thy ===== *)
theory Comp_Expr
  imports Comp_State
begin

text \<open>
  The expression compiler: \<^verbatim>\<open>compiler/expr.rs\<close>, \<^verbatim>\<open>expr_inc_dec.rs\<close>, \<^verbatim>\<open>expr_call.rs\<close>, one definition
  per method and per long branch. The recursion goes through a record of compilers, which
  \<open>compilers\<close> (in the theory of statements) ties with fuel: the body of a method called through
  \<^verbatim>\<open>super\<close> is compiled again at the call, so the recursion is not structural.
\<close>

record sub_compilers =
  sub_expr :: "expr \<Rightarrow> nat \<Rightarrow> unit C"
  sub_stmt :: "stmt \<Rightarrow> unit C"
  sub_fuel :: nat

section \<open>Leaves\<close>

definition compile_literal :: "literal_value \<Rightarrow> nat \<Rightarrow> unit C" where
  "compile_literal v dest =
     (case v of
        L_Null \<Rightarrow> emit LoadNull dest 0 0 0
      | L_Boolean b \<Rightarrow> emit LoadBool dest (if b then 1 else 0) 0 0
      | L_Number n \<Rightarrow> cbind (number_const n) (\<lambda>i. emit LoadConst dest 0 0 i)
      | L_String s \<Rightarrow> cbind (string_const s) (\<lambda>i. emit LoadConst dest 0 0 i))"

definition move_unless :: "nat \<Rightarrow> nat \<Rightarrow> unit C" where
  "move_unless dest src = (if dest \<noteq> src then emit Move dest src 0 0 else creturn ())"

definition compile_variable :: "string \<Rightarrow> nat \<Rightarrow> unit C" where
  "compile_variable name dest =
     cbind (resolve_local name) (\<lambda>l.
     (case l of
        Some i \<Rightarrow> move_unless dest i
      | None \<Rightarrow>
          cbind (resolve_upvalue name) (\<lambda>u.
          (case u of
             Some k \<Rightarrow> emit GetUpvalue dest 0 0 k
           | None \<Rightarrow> cbind (string_const name) (\<lambda>i. emit GetGlobal dest 0 0 i)))))"

section \<open>Assignment\<close>

definition local_at :: "nat \<Rightarrow> local C" where
  "local_at i = cself (\<lambda>c. c_locals c ! i)"

definition upvalue_info :: "nat \<Rightarrow> (string \<times> bool \<times> source_location \<times> string option) C" where
  "upvalue_info k =
     cbind (cself c_upvalue_names) (\<lambda>us. if k < length us then creturn (us ! k) else cpanic)"

definition compile_assign :: "sub_compilers \<Rightarrow> string \<Rightarrow> expr \<Rightarrow> source_location \<Rightarrow> nat \<Rightarrow> unit C" where
  "compile_assign r name val loc dest =
     cbind (resolve_local name) (\<lambda>l.
     (case l of
        Some i \<Rightarrow>
          cbind (local_at i) (\<lambda>lo. cseq [
            refuse_const (l_is_const lo) name loc (l_loc lo),
            require_type_opt (sub_fuel r) val (l_ty lo) loc,
            sub_expr r val dest,
            if dest \<noteq> i then emit Move i dest 0 0 else creturn ()])
      | None \<Rightarrow>
          cbind (resolve_upvalue name) (\<lambda>u.
          (case u of
             Some k \<Rightarrow>
               cbind (upvalue_info k) (\<lambda>(n, is_const, decl, ty). cseq [
                 refuse_const is_const name loc decl,
                 require_type_opt (sub_fuel r) val ty loc,
                 cbind next_reg (\<lambda>nr. let temp = max nr dest in cseq [
                   sub_expr r val temp,
                   emit SetUpvalue temp 0 0 k,
                   move_unless dest temp])])
           | None \<Rightarrow> cseq [
               refuse_const_global name loc,
               cbind (cself (\<lambda>c. map_of (c_global_types c) name)) (\<lambda>ty.
                 require_type_opt (sub_fuel r) val ty loc),
               sub_expr r val dest,
               cbind (string_const name) (\<lambda>i. emit SetGlobal dest 0 0 i)]))))"

section \<open>Operators\<close>

definition compile_unary :: "sub_compilers \<Rightarrow> token_type \<Rightarrow> expr \<Rightarrow> nat \<Rightarrow> unit C" where
  "compile_unary r opr inner dest =
     cthen (sub_expr r inner dest)
       (if opr = T_Bang then emit NotOp dest dest 0 0
        else if opr = T_Minus then emit Negate dest dest 0 0
        else if opr = T_Tilde then emit BitNot dest dest 0 0
        else if opr = T_Typeof then emit TypeOf dest dest 0 0
        else cfail (Ce_Unary_operator opr))"

text \<open>The instruction of a binary operator, and whether its result is negated.\<close>

definition binary_code :: "token_type \<Rightarrow> (op_code \<times> bool) option" where
  "binary_code opr =
     (if opr = T_Plus then Some (Add, False)
      else if opr = T_Minus then Some (Sub, False)
      else if opr = T_Star then Some (Mul, False)
      else if opr = T_Slash then Some (Div, False)
      else if opr = T_Percent then Some (ModOp, False)
      else if opr = T_Ampersand then Some (BitAnd, False)
      else if opr = T_Pipe then Some (BitOr, False)
      else if opr = T_Caret then Some (BitXor, False)
      else if opr = T_LessLess then Some (ShiftLeft, False)
      else if opr = T_GreaterGreater then Some (ShiftRight, False)
      else if opr = T_EqualEqual then Some (Equal, False)
      else if opr = T_BangEqual then Some (Equal, True)
      else if opr = T_Greater then Some (Greater, False)
      else if opr = T_GreaterEqual then Some (Less, True)
      else if opr = T_Less then Some (Less, False)
      else if opr = T_LessEqual then Some (Greater, True)
      else None)"

definition compile_binary :: "sub_compilers \<Rightarrow> expr \<Rightarrow> token_type \<Rightarrow> expr \<Rightarrow> nat \<Rightarrow> unit C" where
  "compile_binary r left opr right dest =
     cthen (sub_expr r left dest)
       (cbind next_reg (\<lambda>nr. let temp = max nr (dest + 1) in
         cthen (sub_expr r right temp)
           (case binary_code opr of
              Some (opc, negated) \<Rightarrow>
                cthen (emit opc dest dest temp 0)
                  (if negated then emit NotOp dest dest 0 0 else creturn ())
            | None \<Rightarrow> cfail (Ce_Binary_operator opr))))"

definition compile_logical :: "sub_compilers \<Rightarrow> expr \<Rightarrow> token_type \<Rightarrow> expr \<Rightarrow> nat \<Rightarrow> unit C" where
  "compile_logical r left opr right dest =
     (if opr = T_Or then
        cthen (sub_expr r left dest)
          (cbind (emit_jump JumpIfFalse dest) (\<lambda>to_right.
           cbind (emit_jump Jump 0) (\<lambda>to_end. cseq [
             patch_jump to_right,
             sub_expr r right dest,
             patch_jump to_end])))
      else if opr = T_And then
        cthen (sub_expr r left dest)
          (cbind (emit_jump JumpIfFalse dest) (\<lambda>to_end. cseq [
             sub_expr r right dest,
             patch_jump to_end]))
      else creturn ())"

definition compile_ternary :: "sub_compilers \<Rightarrow> expr \<Rightarrow> expr \<Rightarrow> expr \<Rightarrow> nat \<Rightarrow> unit C" where
  "compile_ternary r c t e dest =
     cthen (sub_expr r c dest)
       (cbind (emit_jump JumpIfFalse dest) (\<lambda>else_jump.
        cthen (sub_expr r t dest)
          (cbind (emit_jump Jump 0) (\<lambda>end_jump. cseq [
             patch_jump else_jump,
             sub_expr r e dest,
             patch_jump end_jump]))))"

section \<open>Increment and decrement (expr_inc_dec.rs)\<close>

definition update_code :: "token_type \<Rightarrow> op_code option" where
  "update_code opr =
     (if opr = T_PlusPlus then Some Add else if opr = T_MinusMinus then Some Sub else None)"

definition prefix_variable :: "string \<Rightarrow> source_location \<Rightarrow> op_code \<Rightarrow> nat \<Rightarrow> nat \<Rightarrow> unit C" where
  "prefix_variable name loc opc one_reg dest =
     cbind (resolve_local name) (\<lambda>l.
     (case l of
        Some i \<Rightarrow>
          cbind (local_at i) (\<lambda>lo. cseq [
            refuse_const (l_is_const lo) name loc (l_loc lo),
            emit opc i i one_reg 0,
            move_unless dest i])
      | None \<Rightarrow>
          cbind (resolve_upvalue name) (\<lambda>u.
          (case u of
             Some k \<Rightarrow>
               cbind (upvalue_info k) (\<lambda>(n, is_const, decl, ty).
               cthen (refuse_const is_const name loc decl)
                 (cbind next_reg (\<lambda>nr. let temp = max nr (dest + 1) in cseq [
                   emit GetUpvalue temp 0 0 k,
                   emit opc temp temp one_reg 0,
                   emit SetUpvalue temp 0 0 k,
                   move_unless dest temp])))
           | None \<Rightarrow>
               cthen (refuse_const_global name loc)
                 (cbind (string_const name) (\<lambda>i. cseq [
                   emit GetGlobal dest 0 0 i,
                   emit opc dest dest one_reg 0,
                   emit SetGlobal dest 0 0 i]))))))"

definition postfix_variable :: "string \<Rightarrow> source_location \<Rightarrow> op_code \<Rightarrow> nat \<Rightarrow> nat \<Rightarrow> unit C" where
  "postfix_variable name loc opc one_reg dest =
     cbind (resolve_local name) (\<lambda>l.
     (case l of
        Some i \<Rightarrow>
          cbind (local_at i) (\<lambda>lo. cseq [
            refuse_const (l_is_const lo) name loc (l_loc lo),
            move_unless dest i,
            emit opc i i one_reg 0])
      | None \<Rightarrow>
          cbind (resolve_upvalue name) (\<lambda>u.
          (case u of
             Some k \<Rightarrow>
               cbind (upvalue_info k) (\<lambda>(n, is_const, decl, ty).
               cthen (refuse_const is_const name loc decl)
                 (cthen (emit GetUpvalue dest 0 0 k)
                   (cbind next_reg (\<lambda>nr. let temp = max nr (dest + 1) in cseq [
                     emit opc temp dest one_reg 0,
                     emit SetUpvalue temp 0 0 k]))))
           | None \<Rightarrow>
               cthen (refuse_const_global name loc)
                 (cbind (string_const name) (\<lambda>i. cseq [
                   emit GetGlobal dest 0 0 i,
                   emit opc (one_reg + 1) dest one_reg 0,
                   emit SetGlobal (one_reg + 1) 0 0 i]))))))"

definition prefix_target :: "sub_compilers \<Rightarrow> expr \<Rightarrow> op_code \<Rightarrow> nat \<Rightarrow> nat \<Rightarrow> unit C" where
  "prefix_target r inner opc one_reg dest =
     (case inner of
        E_Variable name loc \<Rightarrow> prefix_variable name loc opc one_reg dest
      | E_Get ob prop \<Rightarrow>
          (let obj_reg = one_reg + 1 in
           cthen (sub_expr r ob obj_reg)
             (cbind (string_const prop) (\<lambda>i. cseq [
               emit GetProperty dest obj_reg 0 i,
               emit opc dest dest one_reg 0,
               emit SetProperty obj_reg dest 0 i])))
      | E_GetIndex ob ix \<Rightarrow>
          (let obj_reg = one_reg + 1; idx_reg = obj_reg + 1 in cseq [
             sub_expr r ob obj_reg,
             sub_expr r ix idx_reg,
             emit GetIndex dest obj_reg idx_reg 0,
             emit opc dest dest one_reg 0,
             emit SetIndex obj_reg idx_reg dest 0])
      | _ \<Rightarrow> cfail (Ce_Message ''Invalid target for prefix increment/decrement''))"

definition postfix_target :: "sub_compilers \<Rightarrow> expr \<Rightarrow> op_code \<Rightarrow> nat \<Rightarrow> nat \<Rightarrow> unit C" where
  "postfix_target r inner opc one_reg dest =
     (case inner of
        E_Variable name loc \<Rightarrow> postfix_variable name loc opc one_reg dest
      | E_Get ob prop \<Rightarrow>
          (let obj_reg = one_reg + 1; temp_reg = obj_reg + 1 in
           cthen (sub_expr r ob obj_reg)
             (cbind (string_const prop) (\<lambda>i. cseq [
               emit GetProperty dest obj_reg 0 i,
               emit opc temp_reg dest one_reg 0,
               emit SetProperty obj_reg temp_reg 0 i])))
      | E_GetIndex ob ix \<Rightarrow>
          (let obj_reg = one_reg + 1; idx_reg = obj_reg + 1; temp_reg = idx_reg + 1 in cseq [
             sub_expr r ob obj_reg,
             sub_expr r ix idx_reg,
             emit GetIndex dest obj_reg idx_reg 0,
             emit opc temp_reg dest one_reg 0,
             emit SetIndex obj_reg idx_reg temp_reg 0])
      | _ \<Rightarrow> cfail (Ce_Message ''Invalid target for postfix increment/decrement''))"

definition compile_inc_dec ::
    "string \<Rightarrow> (op_code \<Rightarrow> nat \<Rightarrow> unit C) \<Rightarrow> token_type \<Rightarrow> nat \<Rightarrow> unit C" where
  "compile_inc_dec bad_op target opr dest =
     (case update_code opr of
        None \<Rightarrow> cfail (Ce_Message bad_op)
      | Some opc \<Rightarrow>
          cbind next_reg (\<lambda>nr. let one_reg = max nr (dest + 1) in
            cbind (number_const (f64_of_nat 1)) (\<lambda>i.
            cthen (emit LoadConst one_reg 0 0 i) (target opc one_reg))))"

definition compile_prefix :: "sub_compilers \<Rightarrow> token_type \<Rightarrow> expr \<Rightarrow> nat \<Rightarrow> unit C" where
  "compile_prefix r opr inner dest =
     compile_inc_dec ''Invalid prefix operator''
       (\<lambda>opc one_reg. prefix_target r inner opc one_reg dest) opr dest"

definition compile_postfix :: "sub_compilers \<Rightarrow> token_type \<Rightarrow> expr \<Rightarrow> nat \<Rightarrow> unit C" where
  "compile_postfix r opr inner dest =
     compile_inc_dec ''Invalid postfix operator''
       (\<lambda>opc one_reg. postfix_target r inner opc one_reg dest) opr dest"

section \<open>Functions\<close>

text \<open>
  Run a computation with a new compiler in front of the chain, or on a chain of its own when it has no
  parent, and return the compiler it leaves.
\<close>

definition with_child :: "bool \<Rightarrow> compiler \<Rightarrow> unit C \<Rightarrow> compiler C" where
  "with_child nested child m s =
     (case m (s\<lparr>cs_chain := child # (if nested then cs_chain s else [])\<rparr>) of
        COk _ s' \<Rightarrow> COk (cur s') (s'\<lparr>cs_chain := if nested then tl (cs_chain s') else cs_chain s\<rparr>)
      | CErr e \<Rightarrow> CErr e | CPanic \<Rightarrow> CPanic | CAbort \<Rightarrow> CAbort | CFuel \<Rightarrow> CFuel)"

text \<open>The body of a function: its parameters are the first locals; it ends by returning null.\<close>

definition function_body :: "sub_compilers \<Rightarrow> (string \<times> string option) list \<Rightarrow> stmt \<Rightarrow> unit C" where
  "function_body r params body = cseq [
     begin_scope,
     cfor params (\<lambda>(name, ty). push_local name False default_loc ty),
     sub_stmt r body,
     emit LoadNull 0 0 0 0,
     emit Return 0 0 0 0]"

definition set_effects :: "bool \<Rightarrow> bool \<Rightarrow> bool \<Rightarrow> nat \<Rightarrow> er_function \<Rightarrow> er_function" where
  "set_effects asynchronous pure suspend n f =
     f\<lparr>arity := n, is_async := asynchronous, is_pure := pure, can_suspend := suspend\<rparr>"

definition child_compiler :: "compiler \<Rightarrow> compiler" where
  "child_compiler c = compiler_new\<lparr>c_structs := c_structs c, c_interfaces := c_interfaces c,
     c_type_aliases := c_type_aliases c, c_global_types := c_global_types c\<rparr>"

definition compile_function ::
    "sub_compilers \<Rightarrow> fn_param list \<Rightarrow> type_node option \<Rightarrow> stmt \<Rightarrow> bool \<Rightarrow> bool \<Rightarrow> nat \<Rightarrow> unit C" where
  "compile_function r params ret body asynchronous sync dest =
     cbind (cself (\<lambda>c. c)) (\<lambda>c.
     cbind (cget (\<lambda>s. infer_stmt_effect body (cs_effects s))) (\<lambda>rung.
     let child = (child_compiler c)\<lparr>
           c_current_struct := c_current_struct c,
           c_current_return_type := map_option type_display ret,
           c_function := set_effects asynchronous (sync \<or> rung = Pure)
             (\<not> sync \<and> (asynchronous \<or> rung = Suspends)) (length params) function_default,
           c_next_reg := length params\<rparr> in
     cbind (with_child True child (function_body r
         (map (\<lambda>p. (par_name p, map_option type_display (par_ty p))) params) body)) (\<lambda>done_c.
     cbind (heap_alloc (D_Function ((c_function done_c)\<lparr>upvalues := c_upvalues done_c\<rparr>))) (\<lambda>p.
     cbind (add_const (val_function p)) (\<lambda>i. emit ClosureOp dest 0 0 i)))))"

text \<open>A method, of a struct declaration or called through \<^verbatim>\<open>super\<close>: no parent, \<^verbatim>\<open>this\<close> first.\<close>

definition compile_method ::
    "sub_compilers \<Rightarrow> bool \<Rightarrow> string \<Rightarrow> string list \<Rightarrow> stmt \<Rightarrow> effect_rung \<Rightarrow> er_value C" where
  "compile_method r with_aliases struct_name params body rung =
     cbind (cself (\<lambda>c. c)) (\<lambda>c.
     let all_params = ''this'' # params;
         child = (child_compiler c)\<lparr>
           c_type_aliases := (if with_aliases then c_type_aliases c else []),
           c_current_struct := Some struct_name,
           c_function := set_effects False (rung = Pure) (rung = Suspends) (length all_params)
             function_default,
           c_next_reg := length all_params\<rparr> in
     cbind (with_child False child (function_body r (map (\<lambda>p. (p, None)) all_params) body)) (\<lambda>done_c.
     cbind (heap_alloc (D_Function (c_function done_c))) (\<lambda>p. creturn (val_function p))))"

section \<open>Calls (expr_call.rs)\<close>

text \<open>The method a call through \<^verbatim>\<open>super\<close> reaches: of the first embedded struct that has it.\<close>

definition super_method :: "compiler \<Rightarrow> expr \<Rightarrow> (string \<times> string list \<times> stmt) option" where
  "super_method c callee =
     (case callee of
        E_Get (E_Variable v l) name \<Rightarrow>
          (if v \<noteq> ''super'' then None
           else do {
             s \<leftarrow> c_current_struct c;
             info \<leftarrow> map_of (c_structs c) s;
             parent \<leftarrow> find (\<lambda>p. case map_of (c_structs c) p of
                 Some i \<Rightarrow> map_of (si_methods i) name \<noteq> None | None \<Rightarrow> False) (si_composed info);
             pinfo \<leftarrow> map_of (c_structs c) parent;
             (ps, body) \<leftarrow> map_of (si_methods pinfo) name;
             Some (parent, ps, body) })
      | _ \<Rightarrow> None)"

definition compile_args :: "sub_compilers \<Rightarrow> expr list \<Rightarrow> nat \<Rightarrow> unit C" where
  "compile_args r args start = cfor_index args (\<lambda>i a. sub_expr r a (start + i))"

definition compile_super_call ::
    "sub_compilers \<Rightarrow> string \<Rightarrow> string list \<Rightarrow> stmt \<Rightarrow> expr list \<Rightarrow> nat \<Rightarrow> unit C" where
  "compile_super_call r parent params body args dest =
     cbind next_reg (\<lambda>nr. let start = max nr dest in
     cbind (cget (\<lambda>s. infer_stmt_effect body (cs_effects s))) (\<lambda>rung.
     cbind (compile_method r True parent params body rung) (\<lambda>f.
     cbind (add_const f) (\<lambda>i.
     cbind (cself (\<lambda>c. case position (\<lambda>l. l_name l = ''this'') (c_locals c) of Some k \<Rightarrow> k | None \<Rightarrow> 0))
       (\<lambda>this_reg. cseq [
         emit LoadConst start 0 0 i,
         emit Move (start + 1) this_reg 0 0,
         compile_args r args (start + 2),
         emit Call dest start 0 (length args + 1)])))))"

definition compile_call :: "sub_compilers \<Rightarrow> expr \<Rightarrow> expr list \<Rightarrow> nat \<Rightarrow> unit C" where
  "compile_call r callee args dest =
     cbind (cself (\<lambda>c. super_method c callee)) (\<lambda>m.
     (case m of
        Some (parent, params, body) \<Rightarrow> compile_super_call r parent params body args dest
      | None \<Rightarrow>
          cbind next_reg (\<lambda>nr. let start = max nr dest in cseq [
            sub_expr r callee start,
            compile_args r args (start + 1),
            emit Call dest start 0 (length args)])))"

section \<open>Objects, arrays, properties\<close>

definition compile_array :: "sub_compilers \<Rightarrow> expr list \<Rightarrow> nat \<Rightarrow> unit C" where
  "compile_array r items dest =
     cbind next_reg (\<lambda>nr. let start = max nr dest in
       cthen (compile_args r items start) (emit MakeArray dest start 0 (length items)))"

definition compile_object :: "sub_compilers \<Rightarrow> (string \<times> expr) list \<Rightarrow> nat \<Rightarrow> unit C" where
  "compile_object r pairs dest =
     cbind next_reg (\<lambda>nr. let start = max nr dest in
       cthen (cfor_index pairs (\<lambda>i (key, val).
           cbind (string_const key) (\<lambda>k.
           cthen (emit LoadConst (start + i * 2) 0 0 k) (sub_expr r val (start + i * 2 + 1)))))
         (emit MakeObject dest start 0 (length pairs)))"

definition compile_get :: "sub_compilers \<Rightarrow> expr \<Rightarrow> string \<Rightarrow> nat \<Rightarrow> unit C" where
  "compile_get r ob name dest =
     cthen (sub_expr r ob dest)
       (cbind (string_const name) (\<lambda>i. emit GetProperty dest dest 0 i))"

definition compile_set :: "sub_compilers \<Rightarrow> expr \<Rightarrow> string \<Rightarrow> expr \<Rightarrow> nat \<Rightarrow> unit C" where
  "compile_set r ob name val dest =
     cthen (sub_expr r ob dest)
       (cbind next_reg (\<lambda>nr. let temp = max nr (dest + 1) in
         cthen (sub_expr r val temp)
           (cbind (string_const name) (\<lambda>i.
             cthen (emit SetProperty dest temp 0 i) (move_unless dest temp)))))"

definition compile_get_index :: "sub_compilers \<Rightarrow> expr \<Rightarrow> expr \<Rightarrow> nat \<Rightarrow> unit C" where
  "compile_get_index r ob ix dest =
     cthen (sub_expr r ob dest)
       (cbind next_reg (\<lambda>nr. let temp = max nr (dest + 1) in
         cthen (sub_expr r ix temp) (emit GetIndex dest dest temp 0)))"

definition compile_set_index :: "sub_compilers \<Rightarrow> expr \<Rightarrow> expr \<Rightarrow> expr \<Rightarrow> nat \<Rightarrow> unit C" where
  "compile_set_index r ob ix val dest =
     cthen (sub_expr r ob dest)
       (cbind next_reg (\<lambda>nr. let temp1 = max nr (dest + 1) in
         cthen (sub_expr r ix temp1)
           (cbind next_reg (\<lambda>nr. let temp2 = max nr (temp1 + 1) in cseq [
             sub_expr r val temp2,
             emit SetIndex dest temp1 temp2 0,
             move_unless dest temp2]))))"

text \<open>\<^verbatim>\<open>spawn f(args)\<close> is \<^verbatim>\<open>spawnTask(f, [args])\<close>; inside a concurrent block the handle is kept.\<close>

definition keep_handle :: "nat \<Rightarrow> nat \<Rightarrow> unit C" where
  "keep_handle handles_reg dest =
     cbind next_reg (\<lambda>nr. let push_reg = max nr (dest + 1) in
     cbind (string_const ''arrayPush'') (\<lambda>i. cseq [
       emit GetGlobal push_reg 0 0 i,
       emit Move (push_reg + 1) handles_reg 0 0,
       emit Move (push_reg + 2) dest 0 0,
       emit Call push_reg push_reg 0 2]))"

definition compile_spawn :: "sub_compilers \<Rightarrow> expr \<Rightarrow> nat \<Rightarrow> unit C" where
  "compile_spawn r inner dest =
     (case inner of
        E_Call callee args \<Rightarrow>
          cthen (sub_expr r (E_Call (E_Variable ''spawnTask'' default_loc) [callee, E_Array args]) dest)
            (cbind (cself c_concurrent_scopes) (\<lambda>cs.
              (case cs of [] \<Rightarrow> creturn () | handles_reg # _ \<Rightarrow> keep_handle handles_reg dest)))
      | _ \<Rightarrow> cfail (Ce_Message ''spawn expects a function call expression''))"

section \<open>All expressions\<close>

definition compile_expr :: "sub_compilers \<Rightarrow> expr \<Rightarrow> nat \<Rightarrow> unit C" where
  "compile_expr r e dest =
     (case e of
        E_Literal v \<Rightarrow> compile_literal v dest
      | E_Variable name l \<Rightarrow> compile_variable name dest
      | E_Assign name val l \<Rightarrow> compile_assign r name val l dest
      | E_Unary opr inner \<Rightarrow> compile_unary r opr inner dest
      | E_Prefix opr inner \<Rightarrow> compile_prefix r opr inner dest
      | E_Postfix opr inner \<Rightarrow> compile_postfix r opr inner dest
      | E_Ternary c t f \<Rightarrow> compile_ternary r c t f dest
      | E_Binary left opr right \<Rightarrow> compile_binary r left opr right dest
      | E_Logical left opr right \<Rightarrow> compile_logical r left opr right dest
      | E_Call callee args \<Rightarrow> compile_call r callee args dest
      | E_Get ob name \<Rightarrow> compile_get r ob name dest
      | E_Set ob name val \<Rightarrow> compile_set r ob name val dest
      | E_Array items \<Rightarrow> compile_array r items dest
      | E_Object pairs \<Rightarrow> compile_object r pairs dest
      | E_StructInst s pairs l \<Rightarrow> compile_object r pairs dest
      | E_Function ps ret body asynchronous sync \<Rightarrow>
          compile_function r ps ret body asynchronous sync dest
      | E_GetIndex ob ix \<Rightarrow> compile_get_index r ob ix dest
      | E_SetIndex ob ix val \<Rightarrow> compile_set_index r ob ix val dest
      | E_Spawn inner \<Rightarrow> compile_spawn r inner dest
      | E_TypeCast inner t l \<Rightarrow> sub_expr r inner dest
      | E_Await inner \<Rightarrow> cthen (sub_expr r inner dest) (emit Await dest 0 0 0)
      | E_New inner \<Rightarrow> sub_expr r inner dest)"

end
