(* ===== verification/Comp_Stmt.thy ===== *)
theory Comp_Stmt
  imports Comp_Expr
begin

text \<open>
  The statement compiler: \<^verbatim>\<open>compiler/stmt.rs\<close>, \<^verbatim>\<open>stmt_control.rs\<close>, \<^verbatim>\<open>stmt_struct.rs\<close>,
  \<^verbatim>\<open>await_handles.rs\<close>, and \<^verbatim>\<open>Compiler::compile\<close> of \<^verbatim>\<open>mod.rs\<close>.
\<close>

section \<open>Declarations\<close>

text \<open>An array given to a variable of a struct type becomes calls of the struct's constructor.\<close>

definition construct_elements :: "compiler \<Rightarrow> string option \<Rightarrow> expr \<Rightarrow> source_location \<Rightarrow> expr" where
  "construct_elements c ty e loc =
     (case (ty, e) of
        (Some t, E_Array items) \<Rightarrow>
          (if map_of (c_structs c) t = None then e
           else if items = [] then E_Call (E_Variable t loc) []
           else E_Array (map (\<lambda>it. E_Call (E_Variable t loc) [it]) items))
      | _ \<Rightarrow> e)"

definition define_global :: "string \<Rightarrow> string option \<Rightarrow> bool \<Rightarrow> source_location \<Rightarrow> nat \<Rightarrow> unit C" where
  "define_global name ty is_const loc reg =
     cbind (string_const name) (\<lambda>i. cseq [
       emit DefineGlobal reg 0 0 i,
       (case ty of
          Some t \<Rightarrow> cupdate (\<lambda>c. c\<lparr>c_global_types := tab_insert name t (c_global_types c)\<rparr>)
        | None \<Rightarrow> creturn ()),
       if is_const
       then cmodify (\<lambda>s. s\<lparr>cs_const_globals := tab_insert name loc (cs_const_globals s)\<rparr>)
       else creturn ()])"

definition compile_var_decl ::
    "sub_compilers \<Rightarrow> string \<Rightarrow> type_node option \<Rightarrow> bool \<Rightarrow> expr \<Rightarrow> source_location \<Rightarrow> unit C" where
  "compile_var_decl r name annotation is_const init loc =
     (let ty = map_option type_display annotation in
      cbind (cself (\<lambda>c. construct_elements c ty init loc)) (\<lambda>e.
      cthen (require_type_opt (sub_fuel r) e ty loc)
        (cbind (cself c_scope_depth) (\<lambda>d.
          if 0 < d then
            cbind local_count (\<lambda>reg.
              cthen (sub_expr r e reg) (push_local name is_const loc ty))
          else
            cbind next_reg (\<lambda>reg.
              cthen (sub_expr r e reg) (define_global name ty is_const loc reg))))))"

text \<open>The variants of an enum as an object literal: numbers count up from the last one given.\<close>

fun enum_pairs :: "f64 \<Rightarrow> f64 \<Rightarrow> (string \<times> literal_value option) list \<Rightarrow> (string \<times> expr) list" where
  "enum_pairs qn auto_val [] = []"
| "enum_pairs qn auto_val ((v, val) # vs) =
     (case val of
        Some lit \<Rightarrow>
          (v, E_Literal lit) #
          enum_pairs qn (case lit of L_Number n \<Rightarrow> f64_add qn n (f64_of_nat 1) | _ \<Rightarrow> auto_val) vs
      | None \<Rightarrow> (v, E_Literal (L_Number auto_val)) # enum_pairs qn (f64_add qn auto_val (f64_of_nat 1)) vs)"

definition compile_enum ::
    "sub_compilers \<Rightarrow> string \<Rightarrow> (string \<times> literal_value option) list \<Rightarrow> source_location \<Rightarrow> unit C" where
  "compile_enum r name variants loc =
     cbind (cget cs_nan) (\<lambda>qn.
       sub_stmt r (S_VarDecl name None True (E_Object (enum_pairs qn (f64_of_nat 0) variants)) loc))"

section \<open>Loops (stmt_control.rs)\<close>

definition patch_all :: "nat list \<Rightarrow> nat \<Rightarrow> unit C" where
  "patch_all js target = cfor js (\<lambda>j. patch_jump_to j target)"

text \<open>What every loop ends with: the continue jumps come to \<open>step\<close>, the breaks and the exit behind
  the jump back.\<close>

definition finish_loop :: "unit C \<Rightarrow> nat \<Rightarrow> nat \<Rightarrow> unit C" where
  "finish_loop step loop_start exit_jump =
     cbind code_len (\<lambda>continue_target.
     cbind pop_loop (\<lambda>ctx. cseq [
       patch_all (continue_jumps ctx) continue_target,
       step,
       emit_loop loop_start,
       patch_jump exit_jump,
       cbind code_len (\<lambda>end_ip. patch_all (break_jumps ctx) end_ip)]))"

definition compile_while :: "sub_compilers \<Rightarrow> expr \<Rightarrow> stmt \<Rightarrow> unit C" where
  "compile_while r c body =
     cbind code_len (\<lambda>loop_start.
     cthen (push_loop False)
       (cbind next_reg (\<lambda>cond_reg.
        cthen (sub_expr r c cond_reg)
          (cbind (emit_jump JumpIfFalse cond_reg) (\<lambda>exit_jump.
           cthen (sub_stmt r body) (finish_loop (creturn ()) loop_start exit_jump))))))"

text \<open>The part of \<^verbatim>\<open>for\<close> and \<^verbatim>\<open>for .. in\<close> from \<^verbatim>\<open>loop_start\<close> on: compare, run \<open>fetch\<close> and the
  body, count up.\<close>

definition counted_loop ::
    "sub_compilers \<Rightarrow> nat \<Rightarrow> nat \<Rightarrow> nat \<Rightarrow> unit C \<Rightarrow> stmt \<Rightarrow> unit C" where
  "counted_loop r idx_reg limit_reg one_reg fetch body =
     cbind code_len (\<lambda>loop_start.
     cthen (push_loop False)
       (cbind local_count (\<lambda>cond_reg.
        cthen (emit Less cond_reg idx_reg limit_reg 0)
          (cbind (emit_jump JumpIfFalse cond_reg) (\<lambda>exit_jump. cseq [
             fetch,
             sub_stmt r body,
             finish_loop (emit Add idx_reg idx_reg one_reg 0) loop_start exit_jump])))))"

text \<open>\<^verbatim>\<open>LoadConst\<close> of a number into the next local register, which then gets a hidden name.\<close>

definition number_local :: "nat \<Rightarrow> string \<Rightarrow> nat C" where
  "number_local n stem =
     cbind local_count (\<lambda>reg.
     cbind (number_const (f64_of_nat n)) (\<lambda>i.
     cthen (emit LoadConst reg 0 0 i) (cthen (push_hidden stem) (creturn reg))))"

definition compile_for :: "sub_compilers \<Rightarrow> string \<Rightarrow> expr \<Rightarrow> expr \<Rightarrow> stmt \<Rightarrow> unit C" where
  "compile_for r var start stop body =
     cthen begin_scope
       (cbind local_count (\<lambda>var_reg.
        cthen (cthen (sub_expr r start var_reg) (push_local var False default_loc None))
          (cbind local_count (\<lambda>limit_reg.
           cthen (cthen (sub_expr r stop limit_reg) (push_hidden ''*loop_limit_''))
             (cbind (number_local 1 ''*loop_one_'') (\<lambda>one_reg.
              cthen (counted_loop r var_reg limit_reg one_reg (creturn ()) body) end_scope))))))"

definition compile_for_in :: "sub_compilers \<Rightarrow> string \<Rightarrow> expr \<Rightarrow> stmt \<Rightarrow> unit C" where
  "compile_for_in r var iter body =
     cthen begin_scope
       (cbind local_count (\<lambda>iter_reg.
        cthen (cseq [sub_expr r iter iter_reg, emit ToIter iter_reg iter_reg 0 0, push_hidden ''*loop_iter_''])
          (cbind local_count (\<lambda>len_reg.
           cthen (cseq [emit ArrayLen len_reg iter_reg 0 0, push_hidden ''*loop_len_''])
             (cbind (number_local 0 ''*loop_idx_'') (\<lambda>idx_reg.
              cbind (number_local 1 ''*loop_one_'') (\<lambda>one_reg.
              cbind local_count (\<lambda>var_reg. cseq [
                emit LoadNull var_reg 0 0 0,
                push_local var False default_loc None,
                counted_loop r idx_reg len_reg one_reg (emit GetIndex var_reg iter_reg idx_reg 0) body,
                end_scope]))))))))"

section \<open>Try\<close>

definition compile_catch :: "sub_compilers \<Rightarrow> nat \<Rightarrow> nat \<Rightarrow> string \<Rightarrow> stmt \<Rightarrow> nat C" where
  "compile_catch r start stop var body =
     cbind code_len (\<lambda>catch_start.
     cthen begin_scope
       (cbind local_count (\<lambda>err.
        cthen (cseq [
          push_local var False default_loc None,
          add_handler \<lparr>try_start = start, try_end = stop, catch_ip = catch_start, err_reg = of_nat err,
            finally_ip = None\<rparr>,
          sub_stmt r body,
          end_scope])
          (emit_jump Jump 0))))"

definition compile_rethrow :: "sub_compilers \<Rightarrow> nat \<Rightarrow> nat \<Rightarrow> stmt \<Rightarrow> unit C" where
  "compile_rethrow r start stop body =
     cbind code_len (\<lambda>handler_start.
     cthen begin_scope
       (cbind local_count (\<lambda>err. cseq [
          push_local ''*finally_err'' False default_loc None,
          add_handler \<lparr>try_start = start, try_end = stop, catch_ip = handler_start,
            err_reg = of_nat err, finally_ip = Some handler_start\<rparr>,
          sub_stmt r body,
          emit Throw err 0 0 0,
          end_scope])))"

definition compile_try ::
    "sub_compilers \<Rightarrow> stmt \<Rightarrow> (string \<times> stmt) option \<Rightarrow> stmt option \<Rightarrow> unit C" where
  "compile_try r body catch_clause finally_body =
     (if catch_clause = None \<and> finally_body = None
      then cfail (Ce_Message ''try statement requires a 'catch' or 'finally' block'')
      else
        cbind code_len (\<lambda>start.
        cthen (sub_stmt r body)
          (cbind (emit_jump Jump 0) (\<lambda>try_exit.
           cbind code_len (\<lambda>stop.
           cbind (case catch_clause of
                Some (var, catch_body) \<Rightarrow>
                  cbind (compile_catch r start stop var catch_body) (\<lambda>j. creturn [j])
              | None \<Rightarrow>
                  (case finally_body of
                     Some f \<Rightarrow> cthen (compile_rethrow r start stop f) (creturn [])
                   | None \<Rightarrow> creturn [])) (\<lambda>catch_exits.
           cbind code_len (\<lambda>normal_start.
           cthen (patch_all (try_exit # catch_exits) normal_start)
             (case finally_body of Some f \<Rightarrow> sub_stmt r f | None \<Rightarrow> creturn ()))))))))"

section \<open>Switch\<close>

text \<open>The tests of a case: a match of any but the last value jumps to the body, a failure of the last to
  the next case.\<close>

fun compile_tests :: "sub_compilers \<Rightarrow> nat \<Rightarrow> expr list \<Rightarrow> (nat list \<times> nat list) C" where
  "compile_tests r target_reg [] = creturn ([], [])"
| "compile_tests r target_reg (v # vs) =
     cbind local_count (\<lambda>val_reg.
     cthen (cseq [sub_expr r v val_reg, emit Equal (val_reg + 1) target_reg val_reg 0])
       (if vs \<noteq> [] then
          cbind (emit_jump JumpIfFalse (val_reg + 1)) (\<lambda>skip_test.
          cbind (emit_jump Jump 0) (\<lambda>to_body.
          cthen (patch_jump skip_test)
            (cbind (compile_tests r target_reg vs) (\<lambda>(matches, nexts).
              creturn (to_body # matches, nexts)))))
        else
          cbind (emit_jump JumpIfFalse (val_reg + 1)) (\<lambda>to_next. creturn ([], [to_next]))))"

definition compile_case :: "sub_compilers \<Rightarrow> nat \<Rightarrow> switch_case \<Rightarrow> nat C" where
  "compile_case r target_reg c =
     cbind (compile_tests r target_reg (case_values c)) (\<lambda>(matches, nexts).
     cbind code_len (\<lambda>body_start.
     cthen (cseq [patch_all matches body_start, sub_stmt r (case_body c)])
       (cbind (emit_jump Jump 0) (\<lambda>to_end.
        cbind code_len (\<lambda>next_start.
        cthen (patch_all nexts next_start) (creturn to_end))))))"

fun compile_cases :: "sub_compilers \<Rightarrow> nat \<Rightarrow> switch_case list \<Rightarrow> nat list C" where
  "compile_cases r target_reg [] = creturn []"
| "compile_cases r target_reg (c # cs) =
     cbind (compile_case r target_reg c) (\<lambda>to_end.
     cbind (compile_cases r target_reg cs) (\<lambda>ends. creturn (to_end # ends)))"

definition compile_switch ::
    "sub_compilers \<Rightarrow> expr \<Rightarrow> switch_case list \<Rightarrow> stmt option \<Rightarrow> unit C" where
  "compile_switch r target cases default_body =
     cthen begin_scope
       (cbind local_count (\<lambda>target_reg.
        cthen (cseq [sub_expr r target target_reg, push_hidden ''*switch_target_'', push_loop True])
          (cbind (compile_cases r target_reg cases) (\<lambda>ends.
           cthen (case default_body of Some d \<Rightarrow> sub_stmt r d | None \<Rightarrow> creturn ())
             (cbind code_len (\<lambda>end_ip.
              cthen (patch_all ends end_ip)
                (cbind pop_loop (\<lambda>ctx.
                 cthen (patch_all (break_jumps ctx) end_ip) end_scope))))))))"

section \<open>Concurrent blocks (await_handles.rs)\<close>

definition compile_await_handles :: "nat \<Rightarrow> unit C" where
  "compile_await_handles handles_reg =
     cbind local_count (\<lambda>len_reg.
     cthen (push_hidden ''*handles_len_'')
       (cbind (string_const ''arrayLen'') (\<lambda>al.
        cthen (cseq [
          emit GetGlobal len_reg 0 0 al,
          emit Move (len_reg + 1) handles_reg 0 0,
          emit Call len_reg len_reg 0 1])
          (cbind (number_local 0 ''*await_i_'') (\<lambda>var_reg.
           cbind (number_local 1 ''*await_one_'') (\<lambda>one_reg.
           cbind code_len (\<lambda>loop_start.
           cbind local_count (\<lambda>cond_reg.
           cthen (emit Less cond_reg var_reg len_reg 0)
             (cbind (emit_jump JumpIfFalse cond_reg) (\<lambda>exit_jump.
              cbind local_count (\<lambda>h_reg.
              cthen (emit GetIndex h_reg handles_reg var_reg 0)
                (cbind (string_const ''futureAwait'') (\<lambda>fa. let await_reg = h_reg + 1 in cseq [
                  emit GetGlobal await_reg 0 0 fa,
                  emit Move (await_reg + 1) h_reg 0 0,
                  emit Call await_reg await_reg 0 1,
                  emit Add var_reg var_reg one_reg 0,
                  emit_loop loop_start,
                  patch_jump exit_jump])))))))))))))"

definition compile_concurrent :: "sub_compilers \<Rightarrow> stmt \<Rightarrow> unit C" where
  "compile_concurrent r body =
     cthen begin_scope
       (cbind local_count (\<lambda>handles_reg. cseq [
          push_hidden ''*concurrent_handles_'',
          emit MakeArray handles_reg handles_reg 0 0,
          cupdate (\<lambda>c. c\<lparr>c_concurrent_scopes := handles_reg # c_concurrent_scopes c\<rparr>),
          sub_stmt r body,
          cupdate (\<lambda>c. c\<lparr>c_concurrent_scopes := tl (c_concurrent_scopes c)\<rparr>),
          compile_await_handles handles_reg,
          end_scope]))"

section \<open>Struct declarations (stmt_struct.rs)\<close>

fun strings_from :: "string list \<Rightarrow> er_value list C" where
  "strings_from [] = creturn []"
| "strings_from (t # ts) =
     cbind (string_from_str t) (\<lambda>v. cbind (strings_from ts) (\<lambda>vs. creturn (v # vs)))"

text \<open>Insertion into an object's map, where keys are compared as map keys.\<close>

fun obj_insert :: "(u64 \<Rightarrow> u8 list option) \<Rightarrow> er_value \<Rightarrow> er_value \<Rightarrow> (er_value \<times> er_value) list \<Rightarrow>
    (er_value \<times> er_value) list" where
  "obj_insert rd k v [] = [(k, v)]"
| "obj_insert rd k v ((k', v') # m) =
     (if mapkey_eq rd k' k then (k', v) # m else (k', v') # obj_insert rd k v m)"

fun compile_methods :: "sub_compilers \<Rightarrow> string \<Rightarrow> (string \<times> string list \<times> stmt) list \<Rightarrow>
    (er_value \<times> er_value) list \<Rightarrow> (er_value \<times> er_value) list C" where
  "compile_methods r name [] m = creturn m"
| "compile_methods r name ((m_name, params, body) # ms) m =
     cbind (cget (\<lambda>s. case fe_methods (cs_effects s) (method_key name m_name) of
         Some rung \<Rightarrow> rung | None \<Rightarrow> infer_stmt_effect body (cs_effects s))) (\<lambda>rung.
     cbind (compile_method r False name params body rung) (\<lambda>f.
     cbind (string_from_str m_name) (\<lambda>key.
     cbind (cget (\<lambda>s. heap_str (cs_heap s))) (\<lambda>rd.
     compile_methods r name ms (obj_insert rd key f m)))))"

definition compile_struct_decl ::
    "sub_compilers \<Rightarrow> string \<Rightarrow> string list \<Rightarrow> (string \<times> string) list \<Rightarrow>
       (string \<times> string list \<times> stmt) list \<Rightarrow> unit C" where
  "compile_struct_decl r name composed fs ms =
     cbind (cself (\<lambda>c. case map_of (c_structs c) name of
         Some info \<Rightarrow> info
       | None \<Rightarrow> \<lparr>si_composed = composed, si_fields = fs, si_methods = ms\<rparr>)) (\<lambda>flat.
     cbind (string_const name) (\<lambda>name_idx.
     cbind (strings_from (map fst (si_fields flat))) (\<lambda>names.
     cbind (heap_alloc (D_Array names)) (\<lambda>arr.
     cbind (add_const (val_array arr)) (\<lambda>fields_idx.
     cthen pop_map_pool
       (cbind (compile_methods r name (si_methods flat) []) (\<lambda>methods.
        cbind (heap_alloc (D_Object methods)) (\<lambda>ob.
        cbind (add_const (val_object ob)) (\<lambda>methods_idx.
        emit DefineStruct fields_idx methods_idx 0 name_idx)))))))))"

section \<open>All statements\<close>

definition compile_expr_stmt :: "sub_compilers \<Rightarrow> expr \<Rightarrow> unit C" where
  "compile_expr_stmt r e =
     cbind (cself (\<lambda>c. c_concurrent_scopes c \<noteq> [])) (\<lambda>concurrent.
     cbind next_reg (\<lambda>nr.
       sub_expr r (case e of E_Call _ _ \<Rightarrow> if concurrent then E_Spawn e else e | _ \<Rightarrow> e) nr))"

definition compile_print :: "sub_compilers \<Rightarrow> expr \<Rightarrow> unit C" where
  "compile_print r e =
     cbind next_reg (\<lambda>callee.
     cbind (string_const ''print'') (\<lambda>i. cseq [
       emit GetGlobal callee 0 0 i,
       sub_expr r e (callee + 1),
       emit Call callee callee 0 1]))"

definition compile_if :: "sub_compilers \<Rightarrow> expr \<Rightarrow> stmt \<Rightarrow> stmt option \<Rightarrow> unit C" where
  "compile_if r c t e =
     cbind next_reg (\<lambda>cond_reg.
     cthen (sub_expr r c cond_reg)
       (cbind (emit_jump JumpIfFalse cond_reg) (\<lambda>then_jump.
        cthen (sub_stmt r t)
          (case e of
             Some eb \<Rightarrow>
               cbind (emit_jump Jump 0) (\<lambda>else_jump. cseq [
                 patch_jump then_jump,
                 sub_stmt r eb,
                 patch_jump else_jump])
           | None \<Rightarrow> patch_jump then_jump))))"

definition compile_break :: "unit C" where
  "compile_break =
     cbind (cself c_loop_stack) (\<lambda>ls.
     if ls = [] then cfail (Ce_Message ''Cannot use 'break' outside of a loop or switch statement'')
     else cbind (emit_jump Jump 0) add_break)"

definition compile_continue :: "unit C" where
  "compile_continue =
     cbind (cself (\<lambda>c. position (\<lambda>l. \<not> is_switch l) (c_loop_stack c))) (\<lambda>target.
     (case target of
        Some i \<Rightarrow> cbind (emit_jump Jump 0) (add_continue i)
      | None \<Rightarrow> cfail (Ce_Message ''Cannot use 'continue' outside of a loop'')))"

definition compile_return :: "sub_compilers \<Rightarrow> expr option \<Rightarrow> source_location \<Rightarrow> unit C" where
  "compile_return r e loc =
     cbind next_reg (\<lambda>reg.
     cbind (cself c_current_return_type) (\<lambda>ret_ty.
     cthen (case e of
          Some e \<Rightarrow> cthen (require_type_opt (sub_fuel r) e ret_ty loc) (sub_expr r e reg)
        | None \<Rightarrow>
            (case ret_ty of
               Some t \<Rightarrow>
                 if t \<noteq> ''void'' \<and> t \<noteq> ''null'' then cfail (Ce_Return_type t loc)
                 else emit LoadNull reg 0 0 0
             | None \<Rightarrow> emit LoadNull reg 0 0 0))
       (emit Return reg 0 0 0)))"

definition compile_stmt :: "sub_compilers \<Rightarrow> stmt \<Rightarrow> unit C" where
  "compile_stmt r st =
     cthen (cupdate (\<lambda>c. c\<lparr>c_next_reg := length (c_locals c)\<rparr>))
     (case st of
        S_Expr e \<Rightarrow> compile_expr_stmt r e
      | S_Print e \<Rightarrow> compile_print r e
      | S_VarDecl name ty is_const e loc \<Rightarrow> compile_var_decl r name ty is_const e loc
      | S_Block ss \<Rightarrow> cseq [begin_scope, cfor ss (sub_stmt r), end_scope]
      | S_If c t e \<Rightarrow> compile_if r c t e
      | S_While c body \<Rightarrow> compile_while r c body
      | S_For var start stop body \<Rightarrow> compile_for r var start stop body
      | S_ForIn var iter body \<Rightarrow> compile_for_in r var iter body
      | S_Break \<Rightarrow> compile_break
      | S_Continue \<Rightarrow> compile_continue
      | S_Throw e \<Rightarrow> cbind next_reg (\<lambda>reg. cthen (sub_expr r e reg) (emit Throw reg 0 0 0))
      | S_Try body c f \<Rightarrow> compile_try r body c f
      | S_Switch e cases d \<Rightarrow> compile_switch r e cases d
      | S_Return e loc \<Rightarrow> compile_return r e loc
      | S_Import ns p \<Rightarrow>
          cfail (Ce_Message ''Import statement should be resolved before compilation'')
      | S_Export inner \<Rightarrow> sub_stmt r inner
      | S_Struct name composed fs ms l \<Rightarrow> compile_struct_decl r name composed fs ms
      | S_Interface name fs ms l \<Rightarrow> creturn ()
      | S_TypeAlias name ps ty l \<Rightarrow>
          cupdate (\<lambda>c. c\<lparr>c_type_aliases := tab_insert name ty (c_type_aliases c)\<rparr>)
      | S_Enum name variants loc \<Rightarrow> compile_enum r name variants loc
      | S_Concurrent body \<Rightarrow> compile_concurrent r body
      | S_Sync body \<Rightarrow> sub_stmt r body)"

fun compilers :: "nat \<Rightarrow> sub_compilers" where
  "compilers 0 = \<lparr>sub_expr = \<lambda>e d. cfuel, sub_stmt = \<lambda>s. cfuel, sub_fuel = 0\<rparr>"
| "compilers (Suc n) =
     (let r = compilers n in \<lparr>sub_expr = compile_expr r, sub_stmt = compile_stmt r, sub_fuel = Suc n\<rparr>)"

section \<open>Programs (mod.rs)\<close>

definition program_rung :: "stmt list \<Rightarrow> function_effects \<Rightarrow> effect_rung" where
  "program_rung stmts fe = combine_all Pure (map (\<lambda>s. infer_stmt_effect s fe) stmts)"

definition lift_flatten :: "struct_info table \<Rightarrow> struct_info table C" where
  "lift_flatten raws =
     (case flatten_all raws of
        None \<Rightarrow> cfuel | Some (Inl e) \<Rightarrow> cfail (Ce_Flatten e) | Some (Inr t) \<Rightarrow> creturn t)"

definition compile :: "nat \<Rightarrow> stmt list \<Rightarrow> er_function C" where
  "compile n stmts =
     (let fe = infer_effects stmts; rung = program_rung stmts fe in
      cthen (cseq [
        cmodify (\<lambda>s. s\<lparr>cs_effects := fe\<rparr>),
        cupdate (\<lambda>c. c\<lparr>c_function := (c_function c)
          \<lparr>is_pure := (rung = Pure), can_suspend := (rung = Suspends)\<rparr>\<rparr>),
        cbind (lift_flatten (collect_structs stmts [])) (\<lambda>structs.
          cupdate (\<lambda>c. c\<lparr>c_structs := structs,
            c_interfaces := collect_interfaces stmts (c_interfaces c)\<rparr>)),
        cfor stmts (sub_stmt (compilers n)),
        emit LoadNull 0 0 0 0,
        emit Return 0 0 0 0])
        (cself c_function))"

text \<open>\<^verbatim>\<open>Compiler::new().compile(stmts)\<close> on a heap: the function and the heap it leaves.\<close>

definition fresh_state :: "gc_state \<Rightarrow> u64 \<Rightarrow> (nat \<Rightarrow> u64) \<Rightarrow> f64 \<Rightarrow> comp_state" where
  "fresh_state h osz chunk_at qn =
     \<lparr>cs_chain = [compiler_new], cs_const_globals = [], cs_effects = function_effects_new, cs_heap = h,
      cs_cell = osz, cs_chunk_at = chunk_at, cs_nan = qn\<rparr>"

end
