(* ===== verification/Comp_Wf.thy ===== *)
theory Comp_Wf
  imports Comp_Stmt
begin

text \<open>
  The bytecode the compiler makes is well formed, and the compiler never panics. \<open>instr_ok\<close> says that a
  jump stays inside the code and that an operand names a constant or an upvalue that exists;
  \<open>comp_ok\<close> is the invariant of a compiler at work, of which the code so far is well formed and the
  jumps it still has to patch are jumps. \<open>safe s m Q\<close> is the judgement of the proof: from the state
  \<open>s\<close> the computation \<open>m\<close> does not panic, keeps the invariant, only extends what is there, and ends with
  \<open>Q\<close>. The locale \<open>sub_wf\<close> assumes this of the recursive compilers; the interpretation on
  \<open>compilers n\<close> ties the knot.
\<close>

section \<open>Well-formed code\<close>

definition instr_ok :: "nat \<Rightarrow> nat \<Rightarrow> nat \<Rightarrow> nat \<Rightarrow> instruction \<Rightarrow> bool" where
  "instr_ok n k u i ins \<longleftrightarrow>
     (if op ins \<in> {Jump, JumpIfFalse} then i + 1 + unat (operand ins) \<le> n
      else if op ins = Loop then unat (operand ins) \<le> i + 1
      else if op ins \<in> {LoadConst, DefineGlobal, GetGlobal, SetGlobal, ClosureOp, GetProperty, SetProperty}
      then unat (operand ins) < k
      else if op ins = DefineStruct
      then unat (ra ins) < k \<and> unat (rb ins) < k \<and> unat (operand ins) < k
      else if op ins \<in> {GetUpvalue, SetUpvalue} then unat (operand ins) < u
      else True)"

definition handler_ok :: "nat \<Rightarrow> exception_handler \<Rightarrow> bool" where
  "handler_ok n h \<longleftrightarrow> try_start h \<le> try_end h \<and> try_end h \<le> n \<and> catch_ip h \<le> n"

text \<open>The instructions up to \<open>n\<close> only lead to positions up to \<open>n\<close>.\<close>

definition chunk_ok :: "nat \<Rightarrow> chunk \<Rightarrow> nat \<Rightarrow> bool" where
  "chunk_ok n ch u \<longleftrightarrow>
     (\<forall>i < n. instr_ok n (length (constants ch)) u i (code ch ! i)) \<and>
     (\<forall>h \<in> set (handlers ch). handler_ok n h)"

text \<open>A finished function: well-formed code, then a return that no path misses.\<close>

definition function_ok :: "er_function \<Rightarrow> bool" where
  "function_ok f \<longleftrightarrow>
     (let ch = fn_chunk f; n = length (code ch) - 2 in
        2 \<le> length (code ch) \<and> chunk_ok n ch (length (upvalues f)) \<and>
        op (code ch ! n) = LoadNull \<and> op (code ch ! (n + 1)) = Return)"

definition heap_ok :: "gc_state \<Rightarrow> bool" where
  "heap_ok h \<longleftrightarrow>
     (\<forall>p ob f. mem h p = Some ob \<longrightarrow> obj_data ob = D_Function f \<longrightarrow> function_ok f)"

lemma instr_ok_mono:
  "instr_ok n k u i ins \<Longrightarrow> n \<le> n' \<Longrightarrow> k \<le> k' \<Longrightarrow> u \<le> u' \<Longrightarrow> instr_ok n' k' u' i ins"
  by (auto simp: instr_ok_def split: if_splits)

lemma handler_ok_mono: "handler_ok n h \<Longrightarrow> n \<le> n' \<Longrightarrow> handler_ok n' h"
  by (auto simp: handler_ok_def)

section \<open>The invariant\<close>

definition jump_in :: "chunk \<Rightarrow> nat \<Rightarrow> bool" where
  "jump_in ch j \<longleftrightarrow> j < length (code ch) \<and> is_jump (op (code ch ! j))"

definition loops_ok :: "compiler \<Rightarrow> bool" where
  "loops_ok c \<longleftrightarrow>
     (\<forall>l \<in> set (c_loop_stack c). \<forall>j \<in> set (break_jumps l) \<union> set (continue_jumps l). jump_in (the_chunk c) j)"

definition comp_ok :: "compiler \<Rightarrow> bool" where
  "comp_ok c \<longleftrightarrow>
     chunk_ok (length (code (the_chunk c))) (the_chunk c) (length (c_upvalues c)) \<and>
     length (c_upvalue_names c) = length (c_upvalues c) \<and> upvalues (c_function c) = [] \<and> loops_ok c"

definition inv :: "comp_state \<Rightarrow> bool" where
  "inv s \<longleftrightarrow>
     cs_chain s \<noteq> [] \<and> (\<forall>c \<in> set (cs_chain s). comp_ok c) \<and>
     c_upvalues (last (cs_chain s)) = [] \<and> heap_ok (cs_heap s)"

text \<open>What only grows: the code of a compiler keeps its operations, its tables keep their entries. The
  compilers of the enclosing functions change in their upvalues only.\<close>

definition grows :: "compiler \<Rightarrow> compiler \<Rightarrow> bool" where
  "grows c c' \<longleftrightarrow>
     length (code (the_chunk c)) \<le> length (code (the_chunk c')) \<and>
     (\<forall>i < length (code (the_chunk c)). op (code (the_chunk c') ! i) = op (code (the_chunk c) ! i)) \<and>
     length (constants (the_chunk c)) \<le> length (constants (the_chunk c')) \<and>
     length (c_upvalues c) \<le> length (c_upvalues c')"

definition same_but_upvalues :: "compiler \<Rightarrow> compiler \<Rightarrow> bool" where
  "same_but_upvalues c c' \<longleftrightarrow>
     c'\<lparr>c_upvalues := [], c_upvalue_names := []\<rparr> = c\<lparr>c_upvalues := [], c_upvalue_names := []\<rparr> \<and>
     length (c_upvalues c) \<le> length (c_upvalues c')"

definition ext :: "comp_state \<Rightarrow> comp_state \<Rightarrow> bool" where
  "ext s s' \<longleftrightarrow>
     grows (cur s) (cur s') \<and> list_all2 same_but_upvalues (tl (cs_chain s)) (tl (cs_chain s'))"

lemma grows_refl [simp]: "grows c c"
  by (simp add: grows_def)

lemma grows_trans: "grows a b \<Longrightarrow> grows b c \<Longrightarrow> grows a c"
  unfolding grows_def by (metis order_trans order_less_le_trans)

lemma same_but_upvalues_refl [simp]: "same_but_upvalues c c"
  by (simp add: same_but_upvalues_def)

lemma same_but_upvalues_trans:
  "same_but_upvalues a b \<Longrightarrow> same_but_upvalues b c \<Longrightarrow> same_but_upvalues a c"
  by (simp add: same_but_upvalues_def)

lemma ext_refl [simp]: "ext s s"
  by (simp add: ext_def list.rel_refl)

lemma ext_trans [trans]: "ext a b \<Longrightarrow> ext b c \<Longrightarrow> ext a c"
  unfolding ext_def
  by (meson grows_trans list_all2_trans [where ?P1.0 = same_but_upvalues and ?P2.0 = same_but_upvalues]
      same_but_upvalues_trans)

lemma same_but_upvalues_fields:
  assumes "same_but_upvalues c c'"
  shows "c_function c' = c_function c" "c_scope_depth c' = c_scope_depth c"
    "c_loop_stack c' = c_loop_stack c" "length (c_upvalues c) \<le> length (c_upvalues c')"
    "c_locals c' = c_locals c"
  using assms unfolding same_but_upvalues_def by (cases c; cases c'; simp)+

lemma same_but_upvalues_grows: "same_but_upvalues c c' \<Longrightarrow> grows c c'"
  by (frule same_but_upvalues_fields) (simp add: grows_def the_chunk_def same_but_upvalues_fields)

section \<open>The judgement\<close>

definition safe :: "comp_state \<Rightarrow> 'a C \<Rightarrow> ('a \<Rightarrow> comp_state \<Rightarrow> bool) \<Rightarrow> bool" where
  "safe s m Q \<longleftrightarrow>
     (inv s \<longrightarrow>
       (case m s of COk x s' \<Rightarrow> inv s' \<and> ext s s' \<and> Q x s' | CPanic \<Rightarrow> False | _ \<Rightarrow> True))"

lemma safe_conseq:
  "safe s m R \<Longrightarrow> (\<And>x s1. inv s1 \<Longrightarrow> ext s s1 \<Longrightarrow> R x s1 \<Longrightarrow> Q x s1) \<Longrightarrow> safe s m Q"
  by (auto simp: safe_def split: cres.splits)

lemma safe_bind:
  assumes "safe s m R" and "\<And>x s1. inv s1 \<Longrightarrow> ext s s1 \<Longrightarrow> R x s1 \<Longrightarrow> safe s1 (f x) Q"
  shows "safe s (cbind m f) Q"
proof (cases "inv s")
  case True
  show ?thesis
  proof (cases "m s")
    case (COk x s1)
    then have 1: "inv s1" "ext s s1" "R x s1" using assms(1) True by (simp_all add: safe_def)
    from assms(2) [OF this] 1 show ?thesis
      using COk by (auto simp: safe_def cbind_def split: cres.splits intro: ext_trans)
  qed (use assms(1) True in \<open>simp_all add: safe_def cbind_def\<close>)
qed (simp add: safe_def)

lemma safe_then:
  "safe s m R \<Longrightarrow> (\<And>x s1. inv s1 \<Longrightarrow> ext s s1 \<Longrightarrow> R x s1 \<Longrightarrow> safe s1 k Q) \<Longrightarrow> safe s (cthen m k) Q"
  unfolding cthen_def by (rule safe_bind)

lemma safe_return: "(\<And>x. x = v \<Longrightarrow> Q x s) \<Longrightarrow> safe s (creturn v) Q"
  by (simp add: safe_def creturn_def)

lemma safe_fail: "safe s (cfail e) Q"
  by (simp add: safe_def cfail_def)

lemma safe_fuel: "safe s cfuel Q"
  by (simp add: safe_def cfuel_def)

lemma safe_get: "safe s (cget f) (\<lambda>x s1. s1 = s \<and> x = f s)"
  by (simp add: safe_def cget_def)

lemma safe_self: "safe s (cself f) (\<lambda>x s1. s1 = s \<and> x = f (cur s))"
  unfolding cself_def by (rule safe_conseq [OF safe_get]) simp

lemma safe_inv: "(inv s \<Longrightarrow> safe s m Q) \<Longrightarrow> safe s m Q"
  by (auto simp: safe_def)

section \<open>Updates of the compiler at work\<close>

lemma cur_set_cur [simp]: "cur (set_cur c s) = c"
  by (simp add: cur_def set_cur_def)

lemma set_cur_fields [simp]:
  "tl (cs_chain (set_cur c s)) = tl (cs_chain s)" "cs_heap (set_cur c s) = cs_heap s"
  "cs_effects (set_cur c s) = cs_effects s"
  by (simp_all add: set_cur_def)

lemma inv_cur: "inv s \<Longrightarrow> comp_ok (cur s)"
  by (cases "cs_chain s") (auto simp: inv_def cur_def)

lemma safe_cupdate:
  assumes "comp_ok (cur s) \<Longrightarrow> comp_ok (f (cur s)) \<and> grows (cur s) (f (cur s)) \<and>
      c_upvalues (f (cur s)) = c_upvalues (cur s)"
  shows "safe s (cupdate f) (\<lambda>_ s'. s' = set_cur (f (cur s)) s)"
proof (cases "inv s")
  case True
  then obtain c cs where ch: "cs_chain s = c # cs" by (cases "cs_chain s") (auto simp: inv_def)
  then have c: "cur s = c" by (simp add: cur_def)
  then have f: "comp_ok (f c)" "grows c (f c)" "c_upvalues (f c) = c_upvalues c"
    using assms inv_cur [OF True] by auto
  have "inv (set_cur (f c) s)"
    using True f ch by (auto simp: inv_def set_cur_def split: if_splits)
  then show ?thesis
    using f c by (simp add: safe_def cupdate_def cmodify_def ext_def list.rel_refl)
qed (simp add: safe_def)

text \<open>Updates that leave code, upvalues and loops alone.\<close>

lemma safe_cupdate_frame:
  assumes "c_function (f (cur s)) = c_function (cur s)" "c_upvalues (f (cur s)) = c_upvalues (cur s)"
    "c_upvalue_names (f (cur s)) = c_upvalue_names (cur s)" "c_loop_stack (f (cur s)) = c_loop_stack (cur s)"
  shows "safe s (cupdate f) (\<lambda>_ s'. s' = set_cur (f (cur s)) s)"
  by (rule safe_cupdate) (use assms in \<open>simp add: comp_ok_def the_chunk_def loops_ok_def grows_def\<close>)

definition depth :: "comp_state \<Rightarrow> nat" where
  "depth s = c_scope_depth (cur s)"

definition loops :: "comp_state \<Rightarrow> nat" where
  "loops s = length (c_loop_stack (cur s))"

definition codes :: "comp_state \<Rightarrow> nat" where
  "codes s = length (code (the_chunk (cur s)))"

definition consts_in :: "comp_state \<Rightarrow> nat" where
  "consts_in s = length (constants (the_chunk (cur s)))"

definition upvals :: "comp_state \<Rightarrow> nat" where
  "upvals s = length (c_upvalues (cur s))"

definition jump_at :: "nat \<Rightarrow> comp_state \<Rightarrow> bool" where
  "jump_at j s \<longleftrightarrow> jump_in (the_chunk (cur s)) j"

definition same :: "comp_state \<Rightarrow> comp_state \<Rightarrow> bool" where
  "same s s' \<longleftrightarrow> depth s' = depth s \<and> loops s' = loops s"

lemma ext_jump_at: "ext s s' \<Longrightarrow> jump_at j s \<Longrightarrow> jump_at j s'"
  by (auto simp: ext_def grows_def jump_at_def jump_in_def)

lemma ext_codes: "ext s s' \<Longrightarrow> n \<le> codes s \<Longrightarrow> n \<le> codes s'"
  and ext_consts: "ext s s' \<Longrightarrow> n < consts_in s \<Longrightarrow> n < consts_in s'"
  and ext_upvals: "ext s s' \<Longrightarrow> n < upvals s \<Longrightarrow> n < upvals s'"
  by (auto simp: ext_def grows_def codes_def consts_in_def upvals_def)

lemma same_refl [simp]: "same s s"
  by (simp add: same_def)

lemma same_trans: "same a b \<Longrightarrow> same b c \<Longrightarrow> same a c"
  by (simp add: same_def)

lemma the_chunk_upd [simp]: "the_chunk (upd_chunk f c) = f (the_chunk c)"
  by (simp add: the_chunk_def upd_chunk_def)

lemma upd_chunk_fields [simp]:
  "c_upvalues (upd_chunk f c) = c_upvalues c" "c_upvalue_names (upd_chunk f c) = c_upvalue_names c"
  "c_loop_stack (upd_chunk f c) = c_loop_stack c" "c_scope_depth (upd_chunk f c) = c_scope_depth c"
  "c_locals (upd_chunk f c) = c_locals c" "upvalues (c_function (upd_chunk f c)) = upvalues (c_function c)"
  by (simp_all add: upd_chunk_def)

section \<open>Rules of the primitives\<close>

definition emit_ok :: "comp_state \<Rightarrow> op_code \<Rightarrow> nat \<Rightarrow> nat \<Rightarrow> nat \<Rightarrow> bool" where
  "emit_ok s opc a b n \<longleftrightarrow>
     (if opc \<in> {Jump, JumpIfFalse} then n = 0
      else if opc = Loop then n \<le> codes s + 1
      else if opc \<in> {LoadConst, DefineGlobal, GetGlobal, SetGlobal, ClosureOp, GetProperty, SetProperty}
      then n < consts_in s
      else if opc = DefineStruct then a < consts_in s \<and> b < consts_in s \<and> n < consts_in s
      else if opc \<in> {GetUpvalue, SetUpvalue} then n < upvals s
      else True)"

lemma unat_of_nat_le: "unat (of_nat n :: 'a :: len word) \<le> n"
  by (simp add: unsigned_of_nat take_bit_eq_mod)

lemma unat_of_nat_less: "n < k \<Longrightarrow> unat (of_nat n :: 'a :: len word) < k"
  using unat_of_nat_le [of n] by (rule order_le_less_trans)

lemma emitted_ok:
  assumes "emit_ok s opc a b n"
  shows "instr_ok (codes s + 1) (consts_in s) (upvals s) (codes s)
    \<lparr>op = opc, ra = of_nat a, rb = of_nat b, rc = w, operand = of_nat n\<rparr>"
  using assms unat_of_nat_le [of n, where 'a = 32]
  by (auto simp: emit_ok_def instr_ok_def unat_of_nat_less split: if_splits intro: order_trans)

lemma chunk_ok_append:
  assumes "chunk_ok (length (code ch)) ch u"
    and "instr_ok (length (code ch) + 1) (length (constants ch)) u (length (code ch)) ins"
  shows "chunk_ok (length (code ch) + 1) (ch\<lparr>code := code ch @ [ins]\<rparr>) u"
  unfolding chunk_ok_def
proof (intro conjI allI impI ballI)
  fix i assume "i < length (code ch) + 1"
  then show "instr_ok (length (code ch) + 1) (length (constants (ch\<lparr>code := code ch @ [ins]\<rparr>))) u i
      (code (ch\<lparr>code := code ch @ [ins]\<rparr>) ! i)"
    using assms by (cases "i < length (code ch)")
      (auto simp: chunk_ok_def nth_append less_Suc_eq intro: instr_ok_mono)
next
  fix h assume "h \<in> set (handlers (ch\<lparr>code := code ch @ [ins]\<rparr>))"
  then show "handler_ok (length (code ch) + 1) h"
    using assms(1) by (auto simp: chunk_ok_def intro: handler_ok_mono)
qed

lemma jump_in_append: "jump_in ch j \<Longrightarrow> jump_in (ch\<lparr>code := code ch @ is\<rparr>) j"
  by (auto simp: jump_in_def nth_append)

lemma jump_in_constants: "jump_in (ch\<lparr>constants := ks\<rparr>) j = jump_in ch j"
  "jump_in (ch\<lparr>handlers := hs\<rparr>) j = jump_in ch j"
  by (simp_all add: jump_in_def)

lemma safe_emit:
  assumes "emit_ok s opc a b n"
  shows "safe s (emit opc a b c n)
    (\<lambda>_ s'. s' = set_cur (upd_chunk (write_instruction opc (of_nat a) (of_nat b) (of_nat c) (of_nat n))
        (cur s)) s \<and>
      same s s' \<and> codes s' = codes s + 1 \<and> consts_in s' = consts_in s \<and> upvals s' = upvals s)"
  unfolding emit_def
proof (rule safe_conseq [OF safe_cupdate])
  let ?f = "upd_chunk (write_instruction opc (of_nat a) (of_nat b) (of_nat c) (of_nat n))"
  assume ok: "comp_ok (cur s)"
  then have "chunk_ok (length (code (the_chunk (cur s))) + 1) (the_chunk (?f (cur s)))
      (length (c_upvalues (cur s)))"
    using chunk_ok_append [OF _ emitted_ok [OF assms, unfolded codes_def consts_in_def upvals_def]]
    by (simp add: comp_ok_def write_instruction_def)
  then show "comp_ok (?f (cur s)) \<and> grows (cur s) (?f (cur s)) \<and> c_upvalues (?f (cur s)) = c_upvalues (cur s)"
    using ok by (auto simp: comp_ok_def loops_ok_def grows_def write_instruction_def nth_append
        intro: jump_in_append)
qed (simp add: same_def depth_def loops_def codes_def consts_in_def upvals_def write_instruction_def)

lemma safe_add_const:
  "safe s (add_const v) (\<lambda>i s'. same s s' \<and> i < consts_in s' \<and> codes s' = codes s \<and> upvals s' = upvals s)"
  unfolding add_const_def
proof (rule safe_bind [OF safe_self], clarify)
  fix i ch s1
  assume *: "(i, ch) = add_constant v (the_chunk (cur s))"
  then have ch: "ch = (the_chunk (cur s))\<lparr>constants := constants (the_chunk (cur s)) @ [v]\<rparr>"
    and i: "i = length (constants (the_chunk (cur s)))"
    by (simp_all add: add_constant_def Let_def)
  show "safe s (cthen (cupdate (upd_chunk (\<lambda>_. ch))) (creturn i))
      (\<lambda>i s'. same s s' \<and> i < consts_in s' \<and> codes s' = codes s \<and> upvals s' = upvals s)"
  proof (rule safe_then, rule safe_cupdate)
    assume ok: "comp_ok (cur s)"
    then show "comp_ok (upd_chunk (\<lambda>_. ch) (cur s)) \<and> grows (cur s) (upd_chunk (\<lambda>_. ch) (cur s)) \<and>
        c_upvalues (upd_chunk (\<lambda>_. ch) (cur s)) = c_upvalues (cur s)"
      by (auto simp: comp_ok_def chunk_ok_def loops_ok_def grows_def ch jump_in_constants
          intro: instr_ok_mono)
  next
    fix x s1 assume "s1 = set_cur (upd_chunk (\<lambda>_. ch) (cur s)) s"
    then show "safe s1 (creturn i)
        (\<lambda>i s'. same s s' \<and> i < consts_in s' \<and> codes s' = codes s \<and> upvals s' = upvals s)"
      by (intro safe_return)
        (auto simp: same_def depth_def loops_def consts_in_def codes_def upvals_def ch i)
  qed
qed

lemma safe_code_len: "safe s code_len (\<lambda>n s'. s' = s \<and> n = codes s)"
  unfolding code_len_def codes_def by (rule safe_self)

lemma safe_emit_jump:
  assumes "is_jump opc"
  shows "safe s (emit_jump opc r) (\<lambda>j s'. same s s' \<and> jump_at j s' \<and> codes s' = codes s + 1)"
  unfolding emit_jump_def
proof (rule safe_then, rule safe_emit)
  show "emit_ok s opc r 0 0" using assms by (auto simp: emit_ok_def is_jump_def)
next
  fix x s1
  assume s1: "s1 = set_cur (upd_chunk (write_instruction opc (of_nat r) (of_nat 0) (of_nat 0) (of_nat 0))
      (cur s)) s \<and> same s s1 \<and> codes s1 = codes s + 1 \<and> consts_in s1 = consts_in s \<and> upvals s1 = upvals s"
  then have "jump_at (codes s) s1" "codes s1 = codes s + 1"
    using assms by (auto simp: jump_at_def jump_in_def codes_def write_instruction_def nth_append)
  then show "safe s1 (cbind code_len (\<lambda>n. creturn (n - 1)))
      (\<lambda>j s'. same s s' \<and> jump_at j s' \<and> codes s' = codes s + 1)"
    using s1 by (intro safe_bind [OF safe_code_len] safe_return) auto
qed

lemma safe_patch_jump_to:
  assumes "jump_at j s" "1 + j \<le> t" "t \<le> codes s"
  shows "safe s (patch_jump_to j t) (\<lambda>_ s'. same s s' \<and> codes s' = codes s)"
  unfolding patch_jump_to_def
proof (rule safe_bind [OF safe_self], clarify)
  let ?ins = "code (the_chunk (cur s))"
  let ?f = "upd_chunk (\<lambda>ch. ch\<lparr>code := (code ch)[j := (?ins ! j)\<lparr>operand := of_nat (t - 1 - j)\<rparr>]\<rparr>)"
  have j: "j < length ?ins" "is_jump (op (?ins ! j))" using assms(1) by (auto simp: jump_at_def jump_in_def)
  have t: "t \<le> length ?ins" using assms(3) by (simp add: codes_def)
  have "unat (of_nat (t - 1 - j) :: u32) \<le> t - 1 - j" by (rule unat_of_nat_le)
  then have "j + 1 + unat (of_nat (t - 1 - j) :: u32) \<le> length ?ins" using assms(2) t by linarith
  then have new: "instr_ok (length ?ins) k u j ((?ins ! j)\<lparr>operand := of_nat (t - 1 - j)\<rparr>)" for k u
    using j(2) by (auto simp: instr_ok_def is_jump_def)
  have upd: "safe s (cupdate ?f) (\<lambda>_ s'. s' = set_cur (?f (cur s)) s)"
  proof (rule safe_cupdate)
    assume ok: "comp_ok (cur s)"
    have "op ((?ins[j := (?ins ! j)\<lparr>operand := of_nat (t - 1 - j)\<rparr>]) ! i) = op (?ins ! i)" for i
      by (cases "i = j"; cases "j < length ?ins"; simp add: list_update_beyond)
    with ok new j show "comp_ok (?f (cur s)) \<and> grows (cur s) (?f (cur s)) \<and>
        c_upvalues (?f (cur s)) = c_upvalues (cur s)"
      by (auto simp: comp_ok_def chunk_ok_def loops_ok_def grows_def jump_in_def nth_list_update)
  qed
  have "safe s (cupdate ?f) (\<lambda>_ s'. same s s' \<and> codes s' = codes s)"
    by (rule safe_conseq [OF upd]) (simp add: same_def depth_def loops_def codes_def)
  then show "safe s (if t < 1 + j then cpanic else if length ?ins \<le> j then cpanic
      else if is_jump (op (?ins ! j)) then cupdate ?f else cpanic) (\<lambda>_ s'. same s s' \<and> codes s' = codes s)"
    using assms(2) j by simp
qed

lemma safe_patch_jump:
  "jump_at j s \<Longrightarrow> safe s (patch_jump j) (\<lambda>_ s'. same s s' \<and> codes s' = codes s)"
  unfolding patch_jump_def
  by (rule safe_bind [OF safe_code_len], clarify, rule safe_patch_jump_to)
    (auto simp: jump_at_def jump_in_def codes_def)

lemma safe_emit_loop:
  assumes "n \<le> codes s"
  shows "safe s (emit_loop n) (\<lambda>_ s'. same s s' \<and> codes s' = codes s + 1)"
  unfolding emit_loop_def
proof (rule safe_then, rule safe_cupdate)
  let ?f = "\<lambda>c. c\<lparr>c_function := (c_function c)\<lparr>has_loop := True\<rparr>\<rparr>"
  show "comp_ok (cur s) \<Longrightarrow> comp_ok (?f (cur s)) \<and> grows (cur s) (?f (cur s)) \<and>
      c_upvalues (?f (cur s)) = c_upvalues (cur s)"
    by (simp add: comp_ok_def the_chunk_def loops_ok_def grows_def)
next
  let ?f = "\<lambda>c. c\<lparr>c_function := (c_function c)\<lparr>has_loop := True\<rparr>\<rparr>"
  fix x s1 assume s1: "s1 = set_cur (?f (cur s)) s"
  then have c: "codes s1 = codes s" "same s s1"
    by (simp_all add: codes_def the_chunk_def same_def depth_def loops_def)
  have "emit_ok s1 Loop 0 0 (codes s - n + 1)" using c by (simp add: emit_ok_def)
  from safe_emit [OF this, of 0]
  have "safe s1 (emit Loop 0 0 0 (codes s - n + 1)) (\<lambda>_ s'. same s s' \<and> codes s' = codes s + 1)"
    by (rule safe_conseq) (use c in \<open>auto intro: same_trans\<close>)
  then show "safe s1 (cbind code_len (\<lambda>m. if m < n then cpanic else emit Loop 0 0 0 (m - n + 1)))
      (\<lambda>_ s'. same s s' \<and> codes s' = codes s + 1)"
    using assms c by (intro safe_bind [OF safe_code_len]) simp
qed

lemma safe_frame:
  assumes "c_function (f (cur s)) = c_function (cur s)" "c_upvalues (f (cur s)) = c_upvalues (cur s)"
    "c_upvalue_names (f (cur s)) = c_upvalue_names (cur s)" "c_loop_stack (f (cur s)) = c_loop_stack (cur s)"
    "c_scope_depth (f (cur s)) = c_scope_depth (cur s)"
  shows "safe s (cupdate f) (\<lambda>_ s'. same s s' \<and> codes s' = codes s)"
  by (rule safe_conseq [OF safe_cupdate_frame])
    (use assms in \<open>simp_all add: same_def depth_def loops_def codes_def the_chunk_def\<close>)

lemma safe_cmodify:
  assumes "cs_chain (f s) = cs_chain s" "cs_heap (f s) = cs_heap s"
  shows "safe s (cmodify f) (\<lambda>_ s'. same s s' \<and> codes s' = codes s)"
  using assms
  by (auto simp: safe_def cmodify_def inv_def ext_def cur_def same_def depth_def loops_def codes_def list.rel_refl)

lemma safe_begin_scope:
  "safe s begin_scope (\<lambda>_ s'. depth s' = depth s + 1 \<and> loops s' = loops s \<and> codes s' = codes s)"
  unfolding begin_scope_def
  by (rule safe_conseq [OF safe_cupdate_frame]) (simp_all add: depth_def loops_def codes_def the_chunk_def)

lemma safe_end_scope:
  assumes "0 < depth s"
  shows "safe s end_scope (\<lambda>_ s'. depth s' = depth s - 1 \<and> loops s' = loops s \<and> codes s' = codes s)"
  unfolding end_scope_def
  apply (rule safe_bind [OF safe_self])
  using assms apply (clarsimp simp: depth_def [symmetric])
  apply (rule safe_conseq [OF safe_cupdate_frame])
  apply (simp_all add: depth_def loops_def codes_def the_chunk_def)
  done

lemma safe_push_local: "safe s (push_local n c l t) (\<lambda>_ s'. same s s' \<and> codes s' = codes s)"
  unfolding push_local_def by (rule safe_frame) simp_all

lemma safe_local_count: "safe s local_count (\<lambda>n s'. s' = s)"
  unfolding local_count_def by (rule safe_conseq [OF safe_self]) simp

lemma safe_next_reg: "safe s next_reg (\<lambda>n s'. s' = s)"
  unfolding next_reg_def by (rule safe_conseq [OF safe_self]) simp

lemma safe_push_hidden: "safe s (push_hidden stem) (\<lambda>_ s'. same s s' \<and> codes s' = codes s)"
  unfolding push_hidden_def by (rule safe_bind [OF safe_local_count]) (simp add: safe_push_local)

lemma safe_resolve_local: "safe s (resolve_local name) (\<lambda>r s'. s' = s)"
  unfolding resolve_local_def by (rule safe_conseq [OF safe_self]) simp

section \<open>Loops\<close>

lemma safe_push_loop:
  "safe s (push_loop b) (\<lambda>_ s'. depth s' = depth s \<and> loops s' = loops s + 1 \<and> codes s' = codes s)"
  unfolding push_loop_def
  by (rule safe_conseq [OF safe_cupdate])
    (auto simp: comp_ok_def the_chunk_def loops_ok_def grows_def depth_def loops_def codes_def)

definition loop_jumps :: "loop_context \<Rightarrow> nat set" where
  "loop_jumps l = set (break_jumps l) \<union> set (continue_jumps l)"

lemma safe_pop_loop:
  assumes "0 < loops s"
  shows "safe s pop_loop (\<lambda>l s'. depth s' = depth s \<and> loops s' = loops s - 1 \<and> codes s' = codes s \<and>
    (\<forall>j \<in> loop_jumps l. jump_at j s'))"
proof (rule safe_inv)
  assume i: "inv s"
  obtain l ls where l: "c_loop_stack (cur s) = l # ls"
    using assms by (cases "c_loop_stack (cur s)") (auto simp: loops_def)
  let ?f = "\<lambda>c. c\<lparr>c_loop_stack := ls\<rparr>"
  have upd: "safe s (cupdate ?f) (\<lambda>_ s'. s' = set_cur (?f (cur s)) s)"
    using l by (intro safe_cupdate) (auto simp: comp_ok_def the_chunk_def loops_ok_def grows_def)
  have "\<forall>j \<in> loop_jumps l. jump_in (the_chunk (cur s)) j"
    using inv_cur [OF i] l by (auto simp: comp_ok_def loops_ok_def loop_jumps_def)
  then have "safe s (cthen (cupdate ?f) (creturn l))
     (\<lambda>l s'. depth s' = depth s \<and> loops s' = loops s - 1 \<and> codes s' = codes s \<and>
       (\<forall>j \<in> loop_jumps l. jump_at j s'))"
    by (intro safe_then [OF upd] safe_return)
      (auto simp: depth_def loops_def codes_def jump_at_def the_chunk_def l)
  then show ?thesis unfolding pop_loop_def by (intro safe_bind [OF safe_self]) (simp add: l)
qed

lemma safe_set_loops:
  assumes "comp_ok (cur s) \<Longrightarrow> length ls = loops s \<and> (\<forall>l \<in> set ls. \<forall>j \<in> loop_jumps l. jump_at j s)"
  shows "safe s (cupdate (\<lambda>c. c\<lparr>c_loop_stack := ls\<rparr>)) (\<lambda>_ s'. same s s')"
proof (rule safe_inv)
  assume "inv s"
  then have "comp_ok (cur s)" by (rule inv_cur)
  then show ?thesis
    using assms
    by (intro safe_conseq [OF safe_cupdate])
      (auto simp: comp_ok_def the_chunk_def loops_ok_def grows_def same_def depth_def loops_def
        jump_at_def loop_jumps_def)
qed

lemma stacked_jumps:
  "comp_ok (cur s) \<Longrightarrow> l \<in> set (c_loop_stack (cur s)) \<Longrightarrow> j \<in> loop_jumps l \<Longrightarrow> jump_at j s"
  by (auto simp: comp_ok_def loops_ok_def loop_jumps_def jump_at_def)

lemma safe_add_break:
  assumes "jump_at j s" "0 < loops s"
  shows "safe s (add_break j) (\<lambda>_ s'. same s s')"
proof -
  obtain l ls where l: "c_loop_stack (cur s) = l # ls"
    using assms(2) by (cases "c_loop_stack (cur s)") (auto simp: loops_def)
  have "safe s (cupdate (\<lambda>c. c\<lparr>c_loop_stack := l\<lparr>break_jumps := break_jumps l @ [j]\<rparr> # ls\<rparr>)) (\<lambda>_ s'. same s s')"
  proof (rule safe_set_loops)
    assume ok: "comp_ok (cur s)"
    show "length (l\<lparr>break_jumps := break_jumps l @ [j]\<rparr> # ls) = loops s \<and>
      (\<forall>l \<in> set (l\<lparr>break_jumps := break_jumps l @ [j]\<rparr> # ls). \<forall>j \<in> loop_jumps l. jump_at j s)"
      using assms(1) stacked_jumps [OF ok] l by (auto simp: loops_def loop_jumps_def)
  qed
  then show ?thesis unfolding add_break_def by (intro safe_bind [OF safe_self]) (simp add: l)
qed

lemma safe_add_continue:
  assumes "jump_at j s" "i < loops s"
  shows "safe s (add_continue i j) (\<lambda>_ s'. same s s')"
proof -
  let ?ls = "c_loop_stack (cur s)"
  let ?l = "?ls ! i"
  have "safe s (cupdate (\<lambda>c. c\<lparr>c_loop_stack := ?ls[i := ?l\<lparr>continue_jumps := continue_jumps ?l @ [j]\<rparr>]\<rparr>)) (\<lambda>_ s'. same s s')"
  proof (rule safe_set_loops)
    assume ok: "comp_ok (cur s)"
    have "?l \<in> set ?ls" using assms(2) by (simp add: loops_def)
    then have "\<forall>j \<in> loop_jumps (?l\<lparr>continue_jumps := continue_jumps ?l @ [j]\<rparr>). jump_at j s"
      using assms(1) stacked_jumps [OF ok] by (auto simp: loop_jumps_def)
    then have "\<forall>l \<in> set (?ls[i := ?l\<lparr>continue_jumps := continue_jumps ?l @ [j]\<rparr>]). \<forall>j \<in> loop_jumps l. jump_at j s"
      using stacked_jumps [OF ok] set_update_subset_insert [of ?ls i "?l\<lparr>continue_jumps := continue_jumps ?l @ [j]\<rparr>"]
      by blast
    then show "length (?ls[i := ?l\<lparr>continue_jumps := continue_jumps ?l @ [j]\<rparr>]) = loops s \<and>
        (\<forall>l \<in> set (?ls[i := ?l\<lparr>continue_jumps := continue_jumps ?l @ [j]\<rparr>]). \<forall>j \<in> loop_jumps l. jump_at j s)"
      by (simp add: loops_def)
  qed
  then show ?thesis
    unfolding add_continue_def using assms(2) by (intro safe_bind [OF safe_self]) (simp add: loops_def)
qed

lemma safe_patch_all:
  assumes "\<forall>j \<in> set js. jump_at j s \<and> 1 + j \<le> t" "t \<le> codes s"
  shows "safe s (patch_all js t) (\<lambda>_ s'. same s s' \<and> codes s' = codes s)"
  unfolding patch_all_def cfor_def using assms
proof (induction js arbitrary: s)
  case Nil
  then show ?case by (simp add: safe_return)
next
  case (Cons j js)
  have "safe s (patch_jump_to j t) (\<lambda>_ s'. same s s' \<and> codes s' = codes s)"
    using Cons.prems by (intro safe_patch_jump_to) auto
  then show ?case
  proof (simp, rule safe_then)
    fix s1 assume "ext s s1" "same s s1 \<and> codes s1 = codes s"
    then show "safe s1 (cseq (map (\<lambda>j. patch_jump_to j t) js)) (\<lambda>_ s'. same s s' \<and> codes s' = codes s)"
      using Cons.prems by (intro safe_conseq [OF Cons.IH]) (auto intro: ext_jump_at same_trans)
  qed
qed

lemma jump_at_codes: "jump_at j s \<Longrightarrow> Suc j \<le> codes s"
  by (simp add: jump_at_def jump_in_def codes_def)

section \<open>Upvalues\<close>

lemma comp_ok_more_upvalues:
  assumes "comp_ok c"
  shows "comp_ok (c\<lparr>c_upvalues := c_upvalues c @ [u], c_upvalue_names := c_upvalue_names c @ [n]\<rparr>)"
  using assms by (auto simp: comp_ok_def chunk_ok_def the_chunk_def loops_ok_def intro: instr_ok_mono)

lemma add_upvalue_ok:
  assumes "add_upvalue b i name k l t c = (j, c')" "comp_ok c"
  shows "j < length (c_upvalues c') \<and> comp_ok c' \<and> same_but_upvalues c c'"
proof (cases "position (\<lambda>uv. is_local uv = b \<and> uv_index uv = i) (c_upvalues c)")
  case None
  then show ?thesis
    using assms comp_ok_more_upvalues [OF assms(2)] by (auto simp: add_upvalue_def same_but_upvalues_def)
next
  case (Some k)
  then show ?thesis using assms position_SomeD(1) [OF Some] by (auto simp: add_upvalue_def)
qed

lemma last_index_less: "last_index P xs = Some i \<Longrightarrow> i < length xs"
  by (auto simp: last_index_def dest!: position_SomeD(1))

lemma find_upvalue_ok:
  "\<forall>c \<in> set cs. comp_ok c \<Longrightarrow> cs \<noteq> [] \<Longrightarrow>
     \<exists>r cs'. find_upvalue name cs = Some (r, cs') \<and> cs' \<noteq> [] \<and> (\<forall>c \<in> set cs'. comp_ok c) \<and>
       list_all2 same_but_upvalues cs cs' \<and> last cs' = last cs \<and>
       (case r of Some k \<Rightarrow> k < length (c_upvalues (hd cs')) | None \<Rightarrow> True)"
proof (induction name cs rule: find_upvalue.induct)
  case (1 name c p cs)
  show ?case
  proof (cases "find_local name p")
    case (Some i)
    then have "i < length (c_locals p)" unfolding find_local_def by (rule last_index_less)
    then show ?thesis using Some 1(2)
      by (auto simp: Let_def list.rel_refl split: prod.splits dest!: add_upvalue_ok)
  next
    case None
    obtain q ps where q: "find_upvalue name (p # cs) = Some (q, ps)" and
      IH: "ps \<noteq> [] \<and> (\<forall>c \<in> set ps. comp_ok c) \<and> list_all2 same_but_upvalues (p # cs) ps \<and>
        last ps = last (p # cs) \<and> (case q of Some k \<Rightarrow> k < length (c_upvalues (hd ps)) | None \<Rightarrow> True)"
      using 1(1) [OF None] 1(2) by auto
    then obtain p' ps' where ps: "ps = p' # ps'" by (cases ps) auto
    show ?thesis
    proof (cases q)
      case None
      then show ?thesis using 1(2) \<open>find_local name p = None\<close> q ps IH by auto
    next
      case (Some j)
      have "comp_ok p'" using IH ps by simp
      then have "j < length (c_upvalue_names p')" using IH ps Some by (simp add: comp_ok_def)
      then show ?thesis
        using 1(2) None q ps IH Some by (auto simp: Let_def split: prod.splits dest!: add_upvalue_ok)
    qed
  qed
qed (auto simp: list.rel_refl)

lemma safe_resolve_upvalue:
  "safe s (resolve_upvalue name)
     (\<lambda>r s'. same s s' \<and> codes s' = codes s \<and> (case r of Some k \<Rightarrow> k < upvals s' | None \<Rightarrow> True))"
proof (cases "inv s")
  case True
  obtain r cs' where r: "find_upvalue name (cs_chain s) = Some (r, cs')"
    and ok: "cs' \<noteq> []" "\<forall>c \<in> set cs'. comp_ok c" "list_all2 same_but_upvalues (cs_chain s) cs'"
    "last cs' = last (cs_chain s)" "case r of Some k \<Rightarrow> k < length (c_upvalues (hd cs')) | None \<Rightarrow> True"
    using find_upvalue_ok [of "cs_chain s" name] True by (auto simp: inv_def)
  obtain c cs where c: "cs_chain s = c # cs" using True by (cases "cs_chain s") (auto simp: inv_def)
  obtain c' cs'' where c': "cs' = c' # cs''" using ok(1) by (cases cs') auto
  have cc: "same_but_upvalues c c'" "list_all2 same_but_upvalues cs cs''" using ok(3) c c' by auto
  note f = same_but_upvalues_fields [OF cc(1)]
  show ?thesis
    using True ok r c c' cc(2) f same_but_upvalues_grows [OF cc(1)]
    by (auto simp: safe_def resolve_upvalue_def inv_def ext_def cur_def same_def depth_def loops_def
        codes_def upvals_def the_chunk_def split: option.splits)
qed (simp add: safe_def)

section \<open>The heap\<close>

definition data_ok :: "gc_data \<Rightarrow> bool" where
  "data_ok d \<longleftrightarrow> (case d of D_Function f \<Rightarrow> function_ok f | _ \<Rightarrow> True)"

lemma heap_ok_data: "heap_ok h \<longleftrightarrow> (\<forall>p ob. mem h p = Some ob \<longrightarrow> data_ok (obj_data ob))"
  by (auto simp: heap_ok_def data_ok_def split: gc_data.splits)

lemma gc_alloc_object_mem:
  "gc_alloc_object osz raw d s = Some (p, s') \<Longrightarrow> mem s' = (mem s)(p \<mapsto> fresh_object d)"
  by (auto simp: gc_alloc_object_def write_obj_def Let_def split: list.splits if_splits)

lemma gc_allocate_mem:
  assumes "gc_allocate osz raw d s = Some (p, s')"
  shows "\<exists>ob. obj_data ob = d \<and> mem s' = (mem s)(p \<mapsto> ob)"
proof -
  obtain q t where t: "gc_alloc_object osz raw d s = Some (q, t)"
    using assms by (cases "gc_alloc_object osz raw d s") (auto simp: gc_allocate_def)
  from gc_alloc_object_mem [OF t] have "deref q t = Some (fresh_object d)" by (simp add: deref_def)
  then show ?thesis
    using assms t gc_alloc_object_mem [OF t]
    by (intro exI [of _ "(fresh_object d)\<lparr>nxt := head t\<rparr>"])
      (auto simp: gc_allocate_def bump_alloc_count_def write_obj_def Let_def fresh_object_def split: if_splits)
qed

lemma safe_heap_alloc:
  assumes "data_ok d"
  shows "safe s (heap_alloc d) (\<lambda>_ s'. same s s' \<and> codes s' = codes s)"
proof -
  have "heap_ok h'" if "gc_allocate osz raw d h = Some (p, h')" "heap_ok h" for osz raw p h h'
    using gc_allocate_mem [OF that(1)] that(2) assms by (auto simp: heap_ok_data split: if_splits)
  then show ?thesis
    by (auto simp: safe_def heap_alloc_def inv_def ext_def cur_def same_def depth_def loops_def codes_def
        list.rel_refl split: option.splits)
qed

lemma safe_pop_map_pool: "safe s pop_map_pool (\<lambda>_ s'. same s s')"
  by (auto simp: safe_def pop_map_pool_def cmodify_def inv_def ext_def cur_def same_def depth_def
      loops_def heap_ok_def list.rel_refl)

section \<open>Rules for composition\<close>

text \<open>
  The rules in a form that introduces no unknowns: what is to be shown after a step is the argument of the
  postcondition. \<open>safe_steps\<close> is the bundle the proofs below apply.
\<close>

lemma safe_bindI: "safe s m (\<lambda>x s1. safe s1 (f x) Q) \<Longrightarrow> safe s (cbind m f) Q"
  by (rule safe_bind)

lemma safe_thenI: "safe s m (\<lambda>_ s1. safe s1 k Q) \<Longrightarrow> safe s (cthen m k) Q"
  by (rule safe_then)

lemma safe_cseq_Nil: "Q () s \<Longrightarrow> safe s (cseq []) Q"
  by (simp add: safe_return)

lemma safe_cseq_Cons: "safe s m (\<lambda>_ s1. safe s1 (cseq ms) Q) \<Longrightarrow> safe s (cseq (m # ms)) Q"
  by (simp add: safe_thenI)

lemma safe_if: "(b \<Longrightarrow> safe s m Q) \<Longrightarrow> (\<not> b \<Longrightarrow> safe s k Q) \<Longrightarrow> safe s (if b then m else k) Q"
  by simp

lemma safe_option:
  "(x = None \<Longrightarrow> safe s m Q) \<Longrightarrow> (\<And>y. x = Some y \<Longrightarrow> safe s (k y) Q) \<Longrightarrow>
     safe s (case x of None \<Rightarrow> m | Some y \<Rightarrow> k y) Q"
  by (cases x) simp_all

lemma safe_pair: "(\<And>a b. x = (a, b) \<Longrightarrow> safe s (f a b) Q) \<Longrightarrow> safe s (case x of (a, b) \<Rightarrow> f a b) Q"
  by (cases x) simp

lemma safe_list:
  "(x = [] \<Longrightarrow> safe s m Q) \<Longrightarrow> (\<And>y ys. x = y # ys \<Longrightarrow> safe s (k y ys) Q) \<Longrightarrow>
     safe s (case x of [] \<Rightarrow> m | y # ys \<Rightarrow> k y ys) Q"
  by (cases x) simp_all

lemma safe_let: "(\<And>x. x = e \<Longrightarrow> safe s (f x) Q) \<Longrightarrow> safe s (let x = e in f x) Q"
  by simp

lemma safe_selfI: "(\<And>x. x = f (cur s) \<Longrightarrow> Q x s) \<Longrightarrow> safe s (cself f) Q"
  by (rule safe_conseq [OF safe_self]) simp

lemma safe_getI: "(\<And>x. x = f s \<Longrightarrow> Q x s) \<Longrightarrow> safe s (cget f) Q"
  by (rule safe_conseq [OF safe_get]) simp

lemma safe_emitI:
  assumes "emit_ok s opc a b n"
    and "\<And>x s'. inv s' \<Longrightarrow> ext s s' \<Longrightarrow> same s s' \<Longrightarrow> codes s' = codes s + 1 \<Longrightarrow> Q x s'"
  shows "safe s (emit opc a b c n) Q"
  by (rule safe_conseq [OF safe_emit [OF assms(1)]]) (use assms(2) in simp)

lemma emit_ok_simps [simp]:
  "emit_ok s Jump a b n \<longleftrightarrow> n = 0" "emit_ok s JumpIfFalse a b n \<longleftrightarrow> n = 0"
  "emit_ok s LoadConst a b n \<longleftrightarrow> n < consts_in s" "emit_ok s DefineGlobal a b n \<longleftrightarrow> n < consts_in s"
  "emit_ok s GetGlobal a b n \<longleftrightarrow> n < consts_in s" "emit_ok s SetGlobal a b n \<longleftrightarrow> n < consts_in s"
  "emit_ok s ClosureOp a b n \<longleftrightarrow> n < consts_in s" "emit_ok s GetProperty a b n \<longleftrightarrow> n < consts_in s"
  "emit_ok s SetProperty a b n \<longleftrightarrow> n < consts_in s"
  "emit_ok s DefineStruct a b n \<longleftrightarrow> a < consts_in s \<and> b < consts_in s \<and> n < consts_in s"
  "emit_ok s GetUpvalue a b n \<longleftrightarrow> n < upvals s" "emit_ok s SetUpvalue a b n \<longleftrightarrow> n < upvals s"
  by (simp_all add: emit_ok_def)

lemma emit_ok_plain:
  "opc \<notin> {Jump, JumpIfFalse, Loop, LoadConst, DefineGlobal, GetGlobal, SetGlobal, ClosureOp, GetProperty,
     SetProperty, DefineStruct, GetUpvalue, SetUpvalue} \<Longrightarrow> emit_ok s opc a b n"
  by (auto simp: emit_ok_def)

lemma safe_panic_if: "\<not> b \<Longrightarrow> safe s m Q \<Longrightarrow> safe s (if b then cpanic else m) Q"
  by simp

lemma safe_cseq_map:
  assumes "\<And>x s. x \<in> set xs \<Longrightarrow> safe s (f x) (\<lambda>_ s'. same s s')"
  shows "safe s (cseq (map f xs)) (\<lambda>_ s'. same s s')"
  using assms
proof (induction xs arbitrary: s)
  case (Cons x xs)
  show ?case
    by (simp, rule safe_thenI, rule safe_conseq [OF Cons.prems [of x]], simp)
      (rule safe_conseq [OF Cons.IH], use Cons.prems in \<open>auto intro: same_trans\<close>)
qed (simp add: safe_return)

lemma safe_cfor:
  "(\<And>x s. safe s (f x) (\<lambda>_ s'. same s s')) \<Longrightarrow> safe s (cfor xs f) (\<lambda>_ s'. same s s')"
  unfolding cfor_def by (rule safe_cseq_map)

lemma safe_cfor_index:
  "(\<And>i x s. safe s (f i x) (\<lambda>_ s'. same s s')) \<Longrightarrow> safe s (cfor_index xs f) (\<lambda>_ s'. same s s')"
  unfolding cfor_index_def by (rule safe_cseq_map) (simp add: split_beta)

lemmas safe_steps =
  safe_bindI safe_thenI safe_cseq_Nil safe_cseq_Cons safe_if safe_pair safe_let safe_return
  safe_fail safe_fuel safe_selfI safe_getI safe_emitI
  safe_conseq [OF safe_add_const] safe_conseq [OF safe_code_len] safe_conseq [OF safe_emit_jump]
  safe_conseq [OF safe_patch_jump] safe_conseq [OF safe_patch_jump_to] safe_conseq [OF safe_emit_loop]
  safe_conseq [OF safe_begin_scope] safe_conseq [OF safe_end_scope] safe_conseq [OF safe_push_local]
  safe_conseq [OF safe_local_count] safe_conseq [OF safe_next_reg] safe_conseq [OF safe_push_hidden]
  safe_conseq [OF safe_resolve_local] safe_conseq [OF safe_push_loop] safe_conseq [OF safe_pop_loop]
  safe_conseq [OF safe_add_break] safe_conseq [OF safe_add_continue] safe_conseq [OF safe_patch_all]
  safe_conseq [OF safe_resolve_upvalue] safe_conseq [OF safe_pop_map_pool]

lemma safe_string_from_str: "safe s (string_from_str t) (\<lambda>_ s'. same s s' \<and> codes s' = codes s)"
  unfolding string_from_str_def
  by (intro safe_option safe_steps safe_conseq [OF safe_heap_alloc]) (simp_all add: data_ok_def)

lemma safe_string_const:
  "safe s (string_const t) (\<lambda>i s'. same s s' \<and> codes s' = codes s \<and> i < consts_in s')"
  unfolding string_const_def
  by (intro safe_steps safe_conseq [OF safe_string_from_str]) (auto intro: same_trans)

lemma safe_number_const:
  "safe s (number_const n) (\<lambda>i s'. same s s' \<and> codes s' = codes s \<and> i < consts_in s')"
  unfolding number_const_def by (intro safe_steps) auto

lemma safe_require_type: "safe s (require_type n e ty loc) (\<lambda>_ s'. s' = s)"
  unfolding require_type_def
  by (intro safe_steps safe_option) (auto split: sum.split intro: safe_fail safe_return)

lemma safe_require_type_opt: "safe s (require_type_opt n e ty loc) (\<lambda>_ s'. s' = s)"
  unfolding require_type_opt_def by (intro safe_option safe_return safe_require_type) simp

lemma safe_refuse_const: "safe s (refuse_const b name loc decl) (\<lambda>_ s'. s' = s)"
  unfolding refuse_const_def by (intro safe_steps) simp

lemma safe_refuse_const_global: "safe s (refuse_const_global name loc) (\<lambda>_ s'. s' = s)"
  unfolding refuse_const_global_def by (intro safe_steps safe_option) simp

lemma safe_local_at: "safe s (local_at i) (\<lambda>_ s'. s' = s)"
  unfolding local_at_def by (intro safe_steps) simp

lemma safe_upvalue_info:
  assumes "k < upvals s"
  shows "safe s (upvalue_info k) (\<lambda>_ s'. s' = s)"
proof (rule safe_inv)
  assume "inv s"
  then have "length (c_upvalue_names (cur s)) = upvals s"
    using inv_cur [of s] by (simp add: comp_ok_def upvals_def)
  then show ?thesis unfolding upvalue_info_def using assms by (intro safe_steps) auto
qed

lemma safe_move_unless: "safe s (move_unless d r) (\<lambda>_ s'. same s s')"
  unfolding move_unless_def by (intro safe_steps emit_ok_plain) auto

lemmas safe_ops =
  safe_conseq [OF safe_string_const] safe_conseq [OF safe_number_const]
  safe_conseq [OF safe_require_type] safe_conseq [OF safe_require_type_opt]
  safe_conseq [OF safe_refuse_const] safe_conseq [OF safe_refuse_const_global]
  safe_conseq [OF safe_local_at] safe_conseq [OF safe_upvalue_info] safe_conseq [OF safe_move_unless]
  safe_conseq [OF safe_string_from_str]

end
