(* ===== verification/Comp_Safe.thy ===== *)
theory Comp_Safe
  imports Comp_Wf
begin

text \<open>
  Every step of the compiler keeps the invariant of \<open>Comp_Wf\<close> and does not panic, given that the
  recursive compilers do; so the compiler never panics, and the functions it makes are well
  formed.
\<close>

section \<open>The interface of the recursive compilers\<close>

lemmas keep_facts = ext_jump_at ext_codes ext_consts ext_upvals jump_at_codes

locale sub_wf =
  fixes r :: sub_compilers
  assumes sub_expr_safe: "safe s (sub_expr r e d) (\<lambda>_ s'. same s s')"
    and sub_stmt_safe: "safe s (sub_stmt r st) (\<lambda>_ s'. same s s')"
begin

lemmas sub = safe_conseq [OF sub_expr_safe] safe_conseq [OF sub_stmt_safe]

lemma compile_literal_safe: "safe s (compile_literal v d) (\<lambda>_ s'. same s s')"
  unfolding compile_literal_def
  by (cases v; simp only: literal_value.case; intro safe_steps safe_ops)
    (auto simp: same_def intro: keep_facts emit_ok_plain)

lemma compile_variable_safe: "safe s (compile_variable name d) (\<lambda>_ s'. same s s')"
  unfolding compile_variable_def
  by (intro safe_steps safe_ops safe_option)
    (auto simp: same_def intro: keep_facts emit_ok_plain)

lemma compile_assign_safe: "safe s (compile_assign r name v l d) (\<lambda>_ s'. same s s')"
  unfolding compile_assign_def
  by (intro safe_steps safe_ops safe_option sub)
    (auto simp: same_def intro: keep_facts emit_ok_plain)

lemma compile_unary_safe: "safe s (compile_unary r opr e d) (\<lambda>_ s'. same s s')"
  unfolding compile_unary_def
  by (intro safe_steps sub) (auto simp: same_def intro: emit_ok_plain)

lemma binary_code_plain: "binary_code opr = Some (opc, neg) \<Longrightarrow> emit_ok s opc a b n"
  by (auto simp: binary_code_def emit_ok_def split: if_splits)

lemma compile_binary_safe: "safe s (compile_binary r a opr b d) (\<lambda>_ s'. same s s')"
  unfolding compile_binary_def
  by (intro safe_steps safe_option sub) (auto simp: same_def intro: binary_code_plain emit_ok_plain)

lemma compile_logical_safe: "safe s (compile_logical r a opr b d) (\<lambda>_ s'. same s s')"
  unfolding compile_logical_def
  by (intro safe_steps sub) (auto simp: same_def is_jump_def intro: keep_facts)

lemma compile_ternary_safe: "safe s (compile_ternary r a b c d) (\<lambda>_ s'. same s s')"
  unfolding compile_ternary_def
  by (intro safe_steps sub) (auto simp: same_def is_jump_def intro: keep_facts)

section \<open>Increments\<close>

lemma update_code_plain: "update_code opr = Some opc \<Longrightarrow> emit_ok s opc a b n"
  by (auto simp: update_code_def emit_ok_def split: if_splits)

lemma prefix_variable_safe:
  "(\<And>s a b n. emit_ok s opc a b n) \<Longrightarrow> safe s (prefix_variable name l opc one d) (\<lambda>_ s'. same s s')"
  unfolding prefix_variable_def
  by (intro safe_steps safe_ops safe_option)
    (auto simp: same_def intro: keep_facts emit_ok_plain)

lemma postfix_variable_safe:
  "(\<And>s a b n. emit_ok s opc a b n) \<Longrightarrow> safe s (postfix_variable name l opc one d) (\<lambda>_ s'. same s s')"
  unfolding postfix_variable_def
  by (intro safe_steps safe_ops safe_option)
    (auto simp: same_def intro: keep_facts emit_ok_plain)

lemma prefix_target_safe:
  "(\<And>s a b n. emit_ok s opc a b n) \<Longrightarrow> safe s (prefix_target r e opc one d) (\<lambda>_ s'. same s s')"
  unfolding prefix_target_def
  by (cases e; simp only: expr.case;
      intro prefix_variable_safe safe_steps safe_ops sub)
    (auto simp: same_def intro: keep_facts emit_ok_plain)

lemma postfix_target_safe:
  "(\<And>s a b n. emit_ok s opc a b n) \<Longrightarrow> safe s (postfix_target r e opc one d) (\<lambda>_ s'. same s s')"
  unfolding postfix_target_def
  by (cases e; simp only: expr.case;
      intro postfix_variable_safe safe_steps safe_ops sub)
    (auto simp: same_def intro: keep_facts emit_ok_plain)

lemma compile_inc_dec_safe:
  assumes "\<And>s opc one. (\<And>s a b n. emit_ok s opc a b n) \<Longrightarrow> safe s (target opc one) (\<lambda>_ s'. same s s')"
  shows "safe s (compile_inc_dec msg target opr d) (\<lambda>_ s'. same s s')"
proof (cases "update_code opr")
  case None
  then show ?thesis by (simp add: compile_inc_dec_def safe_fail)
next
  case (Some opc)
  have t: "safe t (target opc one) (\<lambda>_ s'. same t s')" for t one
    using update_code_plain [OF Some] by (rule assms)
  show ?thesis
    unfolding compile_inc_dec_def Some option.case
    by (intro safe_steps safe_ops safe_conseq [OF t]) (auto simp: same_def)
qed

lemma compile_prefix_safe: "safe s (compile_prefix r opr e d) (\<lambda>_ s'. same s s')"
  unfolding compile_prefix_def by (intro compile_inc_dec_safe prefix_target_safe) assumption

lemma compile_postfix_safe: "safe s (compile_postfix r opr e d) (\<lambda>_ s'. same s s')"
  unfolding compile_postfix_def by (intro compile_inc_dec_safe postfix_target_safe) assumption

section \<open>Functions and methods\<close>

end

definition sealed :: "compiler \<Rightarrow> bool" where
  "sealed c \<longleftrightarrow> function_ok ((c_function c)\<lparr>upvalues := c_upvalues c\<rparr>)"

lemma function_ok_sealed:
  "sealed c \<Longrightarrow> c_upvalues c = [] \<Longrightarrow> upvalues (c_function c) = [] \<Longrightarrow> function_ok (c_function c)"
  by (simp add: sealed_def function_ok_def)

text \<open>The last two instructions of a body.\<close>

definition ending :: "chunk \<Rightarrow> chunk" where
  "ending ch = write_instruction Return 0 0 0 0 (write_instruction LoadNull 0 0 0 0 ch)"

lemma ending_ok:
  assumes "chunk_ok (length (code ch)) ch (length (upvalues f))"
  shows "function_ok (f\<lparr>fn_chunk := ending ch\<rparr>)"
proof -
  have "chunk_ok (length (code ch)) (ending ch) (length (upvalues f))"
    using assms by (auto simp: chunk_ok_def ending_def write_instruction_def nth_append)
  then show ?thesis
    by (simp add: function_ok_def Let_def ending_def write_instruction_def nth_append)
qed

definition emit_return :: "unit C" where
  "emit_return = cseq [emit LoadNull 0 0 0 0, emit Return 0 0 0 0]"

lemma emit_return_run:
  "emit_return s = COk () (set_cur (upd_chunk ending (cur s)) s)"
  by (simp add: emit_return_def cthen_def cbind_def emit_def cupdate_def cmodify_def creturn_def
      set_cur_def cur_def upd_chunk_def the_chunk_def ending_def)

lemma safe_emit_return: "safe s emit_return (\<lambda>_ s'. same s s' \<and> sealed (cur s'))"
proof (cases "inv s")
  case True
  have "safe s emit_return (\<lambda>_ s'. same s s')"
    unfolding emit_return_def by (intro safe_steps) (auto simp: same_def intro: emit_ok_plain)
  moreover have "sealed (upd_chunk ending (cur s))"
    using inv_cur [OF True] ending_ok [of "the_chunk (cur s)" "(c_function (cur s))\<lparr>upvalues := c_upvalues (cur s)\<rparr>"]
    by (simp add: sealed_def comp_ok_def upd_chunk_def function_ok_def)
  ultimately show ?thesis by (simp add: safe_def emit_return_run)
qed (simp add: safe_def)

lemma sealed_growing: "sealed (cur s') \<Longrightarrow> data_ok (D_Function ((c_function (cur s'))\<lparr>upvalues := c_upvalues (cur s')\<rparr>))"
  by (simp add: sealed_def data_ok_def)

text \<open>A new compiler in front of the chain, or alone: what the computation does inside it is invisible from
  outside but for upvalues and the heap.\<close>

definition starts :: "compiler \<Rightarrow> bool" where
  "starts c \<longleftrightarrow> the_chunk c = chunk_default \<and> c_upvalues c = [] \<and> c_upvalue_names c = [] \<and>
     c_loop_stack c = [] \<and> upvalues (c_function c) = []"

lemma starts_ok: "starts c \<Longrightarrow> comp_ok c"
  by (simp add: starts_def comp_ok_def chunk_ok_def loops_ok_def chunk_default_def)

lemma safe_with_child:
  assumes body: "\<And>s. depth s = c_scope_depth child \<Longrightarrow> safe s m (\<lambda>_ s'. P (cur s'))"
    and child: "starts child"
  shows "safe s (with_child nested child m)
    (\<lambda>c s'. same s s' \<and> P c \<and> (\<not> nested \<longrightarrow> c_upvalues c = []))"
proof (cases "inv s")
  case True
  let ?s0 = "s\<lparr>cs_chain := child # (if nested then cs_chain s else [])\<rparr>"
  obtain c cs where c: "cs_chain s = c # cs" using True by (cases "cs_chain s") (auto simp: inv_def)
  have i0: "inv ?s0" using True starts_ok [OF child] child by (auto simp: inv_def starts_def)
  have b: "safe ?s0 m (\<lambda>_ s'. P (cur s'))" by (rule body) (simp add: depth_def cur_def)
  show ?thesis
  proof (cases "m ?s0")
    case (COk x s1)
    with b i0 have 1: "inv s1" "ext ?s0 s1" "P (cur s1)" by (simp_all add: safe_def)
    obtain d ds where d: "cs_chain s1 = d # ds" using 1(1) by (cases "cs_chain s1") (auto simp: inv_def)
    show ?thesis
    proof (cases nested)
      case True
      then have rel: "list_all2 same_but_upvalues (c # cs) ds" using 1(2) c d by (simp add: ext_def)
      then obtain c' cs' where ds: "ds = c' # cs'" by (cases ds) auto
      with rel have "same_but_upvalues c c'" "list_all2 same_but_upvalues cs cs'" by auto
      note f = same_but_upvalues_fields [OF this(1)] same_but_upvalues_grows [OF this(1)] this(2)
      show ?thesis
        using COk 1 True c d ds f
        by (auto simp: safe_def with_child_def inv_def ext_def cur_def same_def depth_def loops_def)
    next
      case False
      then have "ds = []" using 1(2) d by (simp add: ext_def)
      then show ?thesis
        using COk 1 False c d \<open>inv s\<close>
        by (auto simp: safe_def with_child_def inv_def ext_def cur_def same_def depth_def loops_def list.rel_refl)
    qed
  qed (use b i0 in \<open>simp_all add: safe_def with_child_def\<close>)
qed (simp add: safe_def)


lemmas safe_child = safe_conseq [OF safe_with_child [where P = "\<lambda>c. sealed c \<and> upvalues (c_function c) = []"]]

lemma safe_sealed_inv:
  "safe s m (\<lambda>_ s'. sealed (cur s')) \<Longrightarrow>
     safe s m (\<lambda>_ s'. sealed (cur s') \<and> upvalues (c_function (cur s')) = [])"
  by (erule safe_conseq) (auto dest: inv_cur simp: comp_ok_def)

lemma starts_child [simp]:
  "starts ((child_compiler c)\<lparr>c_current_struct := cs, c_current_return_type := rt,
     c_function := set_effects a p su n function_default, c_next_reg := k\<rparr>)"
  "starts ((child_compiler c)\<lparr>c_type_aliases := al, c_current_struct := cs,
     c_function := set_effects a p su n function_default, c_next_reg := k\<rparr>)"
  by (simp_all add: starts_def child_compiler_def compiler_new_def set_effects_def the_chunk_def function_default_def)

context sub_wf
begin

lemma function_body_sealed: "safe s (function_body r ps body) (\<lambda>_ s'. sealed (cur s'))"
  unfolding function_body_def
  by (intro safe_steps safe_conseq [OF safe_cfor] sub safe_conseq [OF safe_emit_return [unfolded emit_return_def]])
    (auto split: prod.split intro: safe_push_local)

lemma compile_function_safe: "safe s (compile_function r ps ret body asynchronous sync d) (\<lambda>_ s'. same s s')"
  unfolding compile_function_def
  by (intro safe_steps safe_child safe_sealed_inv function_body_sealed safe_conseq [OF safe_heap_alloc])
    (auto simp: same_def sealed_def data_ok_def)

lemma compile_method_safe: "safe s (compile_method r al n ps body rung) (\<lambda>_ s'. same s s')"
  unfolding compile_method_def
  by (intro safe_steps safe_child safe_sealed_inv function_body_sealed safe_conseq [OF safe_heap_alloc])
    (auto simp: same_def data_ok_def intro: function_ok_sealed)

section \<open>Calls\<close>

lemma compile_args_safe: "safe s (compile_args r args start) (\<lambda>_ s'. same s s')"
  unfolding compile_args_def by (intro safe_cfor_index sub_expr_safe)

lemmas sub_args = safe_conseq [OF compile_args_safe]

lemma compile_super_call_safe: "safe s (compile_super_call r p ps body args d) (\<lambda>_ s'. same s s')"
  unfolding compile_super_call_def
  by (intro safe_steps safe_conseq [OF compile_method_safe] sub_args) (auto simp: same_def intro: keep_facts emit_ok_plain)

lemma compile_call_safe: "safe s (compile_call r callee args d) (\<lambda>_ s'. same s s')"
  unfolding compile_call_def
  by (intro safe_steps safe_option safe_conseq [OF compile_super_call_safe] sub sub_args)
    (auto simp: same_def intro: emit_ok_plain safe_conseq [OF compile_super_call_safe])

section \<open>Objects, arrays, properties\<close>

lemma compile_array_safe: "safe s (compile_array r items d) (\<lambda>_ s'. same s s')"
  unfolding compile_array_def
  by (intro safe_steps sub_args) (auto simp: same_def intro: emit_ok_plain)

lemma compile_object_safe: "safe s (compile_object r pairs d) (\<lambda>_ s'. same s s')"
proof -
  have pair: "safe s (case p of (key, val) \<Rightarrow> cbind (string_const key) (\<lambda>k.
      cthen (emit LoadConst (a i) 0 0 k) (sub_expr r val (b i)))) (\<lambda>_ s'. same s s')" for s a b p and i :: nat
    by (intro safe_steps safe_ops sub) (auto simp: same_def)
  show ?thesis
    unfolding compile_object_def
    by (intro safe_steps safe_conseq [OF safe_cfor_index] pair) (auto simp: same_def intro: emit_ok_plain)
qed

lemma compile_get_safe: "safe s (compile_get r ob name d) (\<lambda>_ s'. same s s')"
  unfolding compile_get_def by (intro safe_steps safe_ops sub) (auto simp: same_def)

lemma compile_set_safe: "safe s (compile_set r ob name val d) (\<lambda>_ s'. same s s')"
  unfolding compile_set_def by (intro safe_steps safe_ops sub) (auto simp: same_def)

lemma compile_get_index_safe: "safe s (compile_get_index r ob ix d) (\<lambda>_ s'. same s s')"
  unfolding compile_get_index_def by (intro safe_steps sub) (auto simp: same_def intro: emit_ok_plain)

lemma compile_set_index_safe: "safe s (compile_set_index r ob ix val d) (\<lambda>_ s'. same s s')"
  unfolding compile_set_index_def
  by (intro safe_steps safe_ops sub) (auto simp: same_def intro: emit_ok_plain)

lemma keep_handle_safe: "safe s (keep_handle h d) (\<lambda>_ s'. same s s')"
  unfolding keep_handle_def by (intro safe_steps safe_ops) (auto simp: same_def intro: emit_ok_plain)

lemma compile_spawn_safe: "safe s (compile_spawn r inner d) (\<lambda>_ s'. same s s')"
  unfolding compile_spawn_def
  by (cases inner; simp only: expr.case; intro safe_steps safe_list safe_conseq [OF keep_handle_safe] sub)
    (auto simp: same_def)

lemma compile_expr_safe: "safe s (compile_expr r e d) (\<lambda>_ s'. same s s')"
  unfolding compile_expr_def
  by (cases e; simp only: expr.case;
      intro compile_literal_safe compile_variable_safe compile_assign_safe compile_unary_safe
        compile_prefix_safe compile_postfix_safe compile_ternary_safe compile_binary_safe
        compile_logical_safe compile_call_safe compile_get_safe compile_set_safe compile_array_safe
        compile_object_safe compile_function_safe compile_get_index_safe compile_set_index_safe
        compile_spawn_safe sub_expr_safe safe_steps sub)
    (auto simp: same_def intro: emit_ok_plain)

end

end
