(* ===== verification/Comp_Sound.thy ===== *)
theory Comp_Sound
  imports Comp_Safe
begin

text \<open>
  The statement compiler keeps the invariant of \<open>Comp_Wf\<close> and does not panic, and the conclusion for
  whole programs: every function the compiler makes is well formed.
\<close>

lemma safe_add_handler:
  assumes "handler_ok (codes s) h"
  shows "safe s (add_handler h) (\<lambda>_ s'. same s s' \<and> codes s' = codes s)"
  unfolding add_handler_def
  by (rule safe_conseq [OF safe_cupdate])
    (use assms in \<open>auto simp: comp_ok_def chunk_ok_def loops_ok_def grows_def jump_in_constants same_def
      depth_def loops_def codes_def\<close>)

lemma patch_list:
  "\<forall>j \<in> set js. jump_at j s \<Longrightarrow> \<forall>j \<in> set js. jump_at j s \<and> 1 + j \<le> codes s"
  by (auto dest: jump_at_codes)

lemma ext_jumps: "ext s s' \<Longrightarrow> \<forall>j \<in> J. jump_at j s \<Longrightarrow> \<forall>j \<in> J. jump_at j s'"
  by (auto intro: ext_jump_at)

lemma safe_patch_here:
  assumes "\<forall>j \<in> set js. jump_at j s"
  shows "safe s (patch_all js (codes s)) (\<lambda>_ s'. same s s' \<and> codes s' = codes s)"
  by (rule safe_patch_all [OF patch_list [OF assms]]) simp

lemma safe_finish_loop:
  assumes "0 < loops s" "start \<le> codes s" "jump_at exit s"
    and step: "\<And>s. safe s step (\<lambda>_ s'. same s s')"
  shows "safe s (finish_loop step start exit) (\<lambda>_ s'. depth s' = depth s \<and> loops s' = loops s - 1)"
  unfolding finish_loop_def
proof (rule safe_bind [OF safe_code_len], clarify, rule safe_bind [OF safe_pop_loop [OF assms(1)]], elim conjE)
  fix l s1
  assume e: "ext s s1" and 1: "depth s1 = depth s" "loops s1 = loops s - 1" "codes s1 = codes s"
    and j: "\<forall>j \<in> loop_jumps l. jump_at j s1"
  have c: "\<forall>j \<in> set (continue_jumps l). jump_at j s1" and b: "\<forall>j \<in> set (break_jumps l). jump_at j s1"
    using j by (auto simp: loop_jumps_def)
  have s: "start \<le> codes s1" "jump_at exit s1" using e assms by (auto intro: keep_facts)
  show "safe s1 (cseq [patch_all (continue_jumps l) (codes s), step, emit_loop start, patch_jump exit,
      cbind code_len (\<lambda>end_ip. patch_all (break_jumps l) end_ip)])
      (\<lambda>_ s'. depth s' = depth s \<and> loops s' = loops s - 1)"
  proof (simp only: cseq.simps 1(3) [symmetric], rule safe_then [OF safe_patch_here [OF c]], elim conjE,
      rule safe_then [OF step], rule safe_then [OF safe_emit_loop], goal_cases)
    case (1 _ s2 _ s3)
    then show ?case using s by (auto intro: keep_facts)
  next
    case (2 _ s2 _ s3 _ s4)
    then have x: "jump_at exit s4" using s(2) by (meson ext_jump_at)
    show ?case
    proof (rule safe_then [OF safe_patch_jump [OF x]], goal_cases)
      case (1 _ s5)
      have b': "\<forall>j \<in> set (break_jumps l). jump_at j s5"
        using b 2 1 by (meson ext_jump_at)
      show ?case
        by (rule safe_then, rule safe_bind [OF safe_code_len], clarify, rule safe_patch_here [OF b'])
          (use 1 2 \<open>depth s1 = depth s\<close> \<open>loops s1 = loops s - 1\<close> in \<open>auto simp: same_def intro!: safe_return\<close>)
    qed
  qed
qed

lemmas safe_loops = safe_conseq [OF safe_finish_loop] safe_conseq [OF safe_add_handler]
  safe_conseq [OF safe_cmodify] safe_conseq [OF safe_frame]

lemma number_local_safe: "safe s (number_local n stem) (\<lambda>_ s'. same s s')"
  unfolding number_local_def by (intro safe_steps safe_ops) (auto simp: same_def)

lemma define_global_safe: "safe s (define_global name ty c loc reg) (\<lambda>_ s'. same s s')"
  unfolding define_global_def
  by (intro safe_steps safe_ops safe_option safe_loops) (auto simp: same_def)

lemma compile_await_handles_safe: "safe s (compile_await_handles h) (\<lambda>_ s'. same s s')"
  unfolding compile_await_handles_def
  by (intro safe_steps safe_ops safe_conseq [OF number_local_safe],
    auto simp: same_def is_jump_def intro: emit_ok_plain,
    ((assumption | rule order_refl | rule ext_jump_at ext_codes, assumption)+)?)

context sub_wf
begin

section \<open>Declarations\<close>

lemma compile_var_decl_safe: "safe s (compile_var_decl r name ty c e loc) (\<lambda>_ s'. same s s')"
  unfolding compile_var_decl_def
  by (intro safe_steps safe_ops safe_conseq [OF define_global_safe] sub) (auto simp: same_def)

lemma compile_enum_safe: "safe s (compile_enum r name vs loc) (\<lambda>_ s'. same s s')"
  unfolding compile_enum_def by (intro safe_steps sub) auto

section \<open>Loops\<close>

lemma compile_while_safe: "safe s (compile_while r c body) (\<lambda>_ s'. same s s')"
  unfolding compile_while_def
  by (intro safe_steps safe_loops sub, auto simp: same_def is_jump_def,
    ((assumption | rule order_refl | rule ext_jump_at ext_codes, assumption)+)?)

lemma counted_loop_safe:
  assumes fetch: "\<And>s. safe s fetch (\<lambda>_ s'. same s s')"
  shows "safe s (counted_loop r a b c fetch body) (\<lambda>_ s'. same s s')"
  unfolding counted_loop_def
  by (intro safe_steps safe_loops sub safe_conseq [OF fetch],
    auto simp: same_def is_jump_def intro: emit_ok_plain,
    ((assumption | rule order_refl | rule ext_jump_at ext_codes, assumption)+)?)

lemma emit_plain_safe: "(\<And>s. emit_ok s opc a b n) \<Longrightarrow> safe s (emit opc a b c n) (\<lambda>_ s'. same s s')"
  by (intro safe_steps) auto

lemmas counted = safe_conseq [OF counted_loop_safe] safe_conseq [OF number_local_safe]

lemma compile_for_safe: "safe s (compile_for r v a b body) (\<lambda>_ s'. same s s')"
  unfolding compile_for_def
  by (intro safe_steps counted sub) (auto simp: same_def intro: safe_return)

lemma compile_for_in_safe: "safe s (compile_for_in r v e body) (\<lambda>_ s'. same s s')"
  unfolding compile_for_in_def
  by (intro safe_steps counted emit_plain_safe sub) (auto simp: same_def intro: emit_ok_plain emit_plain_safe)

section \<open>Try\<close>

lemma compile_catch_safe:
  assumes "start \<le> stop" "stop \<le> codes s"
  shows "safe s (compile_catch r start stop v body) (\<lambda>j s'. same s s' \<and> jump_at j s')"
  using assms unfolding compile_catch_def
  by (intro safe_steps safe_loops sub) (auto simp: same_def is_jump_def handler_ok_def)

lemma compile_rethrow_safe:
  assumes "start \<le> stop" "stop \<le> codes s"
  shows "safe s (compile_rethrow r start stop body) (\<lambda>_ s'. same s s')"
  using assms unfolding compile_rethrow_def
  by (intro safe_steps safe_loops sub) (auto simp: same_def handler_ok_def intro: emit_ok_plain)

lemma catch_part_safe:
  assumes "start \<le> stop" "stop \<le> codes s"
  shows "safe s (case c of
        Some (var, catch_body) \<Rightarrow> cbind (compile_catch r start stop var catch_body) (\<lambda>j. creturn [j])
      | None \<Rightarrow> (case f of Some f \<Rightarrow> cthen (compile_rethrow r start stop f) (creturn []) | None \<Rightarrow> creturn []))
      (\<lambda>js s'. same s s' \<and> (\<forall>j \<in> set js. jump_at j s'))"
  by (intro safe_option safe_steps safe_conseq [OF compile_catch_safe [OF assms]]
      safe_conseq [OF compile_rethrow_safe [OF assms]]) auto

lemma patch_try_exits:
  assumes "jump_at j s1" "ext s1 s2" "\<forall>j \<in> set js. jump_at j s2"
  shows "safe s2 (patch_all (j # js) (codes s2)) (\<lambda>_ s'. same s2 s' \<and> codes s' = codes s2)"
  by (rule safe_patch_here) (use assms in \<open>auto intro: ext_jump_at\<close>)

lemma compile_try_safe: "safe s (compile_try r body c f) (\<lambda>_ s'. same s s')"
  unfolding compile_try_def
proof (rule safe_if [OF safe_fail], rule safe_bind [OF safe_code_len], clarify,
    rule safe_then [OF sub_stmt_safe], rule safe_bind [OF safe_emit_jump], simp add: is_jump_def,
    rule safe_bind [OF safe_code_len], clarify)
  fix s1 j s2
  assume 1: "ext s s1" "same s s1" and 2: "ext s1 s2" "same s1 s2" "jump_at j s2" "codes s2 = codes s1 + 1"
  then have le: "codes s \<le> codes s2" by (auto intro: ext_codes le_SucI)
  show "safe s2 (cbind (case c of
        Some (var, catch_body) \<Rightarrow> cbind (compile_catch r (codes s) (codes s2) var catch_body) (\<lambda>j. creturn [j])
      | None \<Rightarrow> (case f of Some f \<Rightarrow> cthen (compile_rethrow r (codes s) (codes s2) f) (creturn [])
                          | None \<Rightarrow> creturn []))
     (\<lambda>catch_exits. cbind code_len (\<lambda>normal_start.
        cthen (patch_all (j # catch_exits) normal_start)
          (case f of None \<Rightarrow> creturn () | Some f \<Rightarrow> sub_stmt r f)))) (\<lambda>_ s'. same s s')"
  proof (rule safe_bind [OF catch_part_safe [OF le order_refl]], rule safe_bind [OF safe_code_len], clarify)
    fix js s3
    assume 3: "ext s2 s3" "same s2 s3" "\<forall>j \<in> set js. jump_at j s3"
    show "safe s3 (cthen (patch_all (j # js) (codes s3))
        (case f of None \<Rightarrow> creturn () | Some f \<Rightarrow> sub_stmt r f)) (\<lambda>_ s'. same s s')"
      by (rule safe_then [OF patch_try_exits [OF 2(3) 3(1,3)]], intro safe_option safe_return sub)
        (use 1 2 3 in \<open>auto simp: same_def\<close>)
  qed
qed

section \<open>Switch\<close>

lemma compile_tests_safe:
  "safe s (compile_tests r t vs) (\<lambda>(ms, ns) s'. same s s' \<and> (\<forall>j \<in> set ms \<union> set ns. jump_at j s'))"
proof (induction vs arbitrary: s)
  case (Cons v vs)
  show ?case
    by (simp only: compile_tests.simps, intro safe_steps sub safe_conseq [OF Cons.IH])
      (auto simp: same_def is_jump_def intro: emit_ok_plain ext_jump_at)
qed (simp add: safe_return)

lemma compile_case_safe: "safe s (compile_case r t c) (\<lambda>j s'. same s s' \<and> jump_at j s')"
  unfolding compile_case_def
proof (rule safe_bind [OF compile_tests_safe], clarify, rule safe_bind [OF safe_code_len], clarify)
  fix ms ns s1
  assume 1: "same s s1" "\<forall>j \<in> set ms \<union> set ns. jump_at j s1"
  then have m: "\<forall>j \<in> set ms. jump_at j s1" by simp
  show "safe s1 (cthen (cseq [patch_all ms (codes s1), sub_stmt r (case_body c)])
      (cbind (emit_jump Jump 0) (\<lambda>to_end. cbind code_len (\<lambda>n. cthen (patch_all ns n) (creturn to_end)))))
      (\<lambda>j s'. same s s' \<and> jump_at j s')"
  proof (rule safe_then)
    show "safe s1 (cseq [patch_all ms (codes s1), sub_stmt r (case_body c)]) (\<lambda>_ s'. same s1 s')"
      by (intro safe_cseq_Cons safe_conseq [OF safe_patch_here [OF m]] safe_cseq_Nil sub) (auto intro: same_trans)
  next
    fix x s2 assume 2: "ext s1 s2" "same s1 s2"
    have "\<forall>j \<in> set ns. jump_at j s2" using 1(2) 2(1) by (auto intro: ext_jump_at)
    then have "\<forall>j \<in> set ns. jump_at j s2 \<and> Suc j \<le> codes s2" by (auto dest: jump_at_codes)
    then show "safe s2 (cbind (emit_jump Jump 0) (\<lambda>to_end. cbind code_len (\<lambda>n.
        cthen (patch_all ns n) (creturn to_end)))) (\<lambda>j s'. same s s' \<and> jump_at j s')"
      using 2(2) 1(1)
      by (intro safe_steps) (auto simp: same_def is_jump_def intro: ext_jump_at)
  qed
qed

lemma compile_cases_safe:
  "safe s (compile_cases r t cs) (\<lambda>js s'. same s s' \<and> (\<forall>j \<in> set js. jump_at j s'))"
proof (induction cs arbitrary: s)
  case (Cons c cs)
  show ?case
    by (simp only: compile_cases.simps, intro safe_steps safe_conseq [OF compile_case_safe] safe_conseq [OF Cons.IH])
      (auto simp: same_def intro: ext_jump_at)
qed (simp add: safe_return)

lemma compile_switch_safe: "safe s (compile_switch r e cs d) (\<lambda>_ s'. same s s')"
proof -
  have close: "safe s1 (cbind code_len (\<lambda>end_ip. cthen (patch_all ends end_ip)
        (cbind pop_loop (\<lambda>ctx. cthen (patch_all (break_jumps ctx) end_ip) end_scope))))
      (\<lambda>_ s'. depth s' = depth s1 - 1 \<and> loops s' = loops s1 - 1)"
    if j: "\<forall>j \<in> set ends. jump_at j s1" and d: "0 < depth s1" "0 < loops s1" for s1 ends
  proof (rule safe_bind [OF safe_code_len], clarify, rule safe_then [OF safe_patch_here [OF j]], elim conjE)
    fix s2 assume 2: "ext s1 s2" "same s1 s2" "codes s2 = codes s1"
    then have l: "0 < loops s2" using d by (simp add: same_def)
    show "safe s2 (cbind pop_loop (\<lambda>ctx. cthen (patch_all (break_jumps ctx) (codes s1)) end_scope))
      (\<lambda>_ s'. depth s' = depth s1 - 1 \<and> loops s' = loops s1 - 1)"
    proof (rule safe_bind [OF safe_pop_loop [OF l]], elim conjE)
      fix l s3 assume 3: "depth s3 = depth s2" "loops s3 = loops s2 - 1" "codes s3 = codes s2"
        and b: "\<forall>j \<in> loop_jumps l. jump_at j s3"
      have b: "\<forall>j \<in> set (break_jumps l). jump_at j s3" using b by (simp add: loop_jumps_def)
      show "safe s3 (cthen (patch_all (break_jumps l) (codes s1)) end_scope)
        (\<lambda>_ s'. depth s' = depth s1 - 1 \<and> loops s' = loops s1 - 1)"
        by (rule safe_then, simp only: 2(3) [symmetric] 3(3) [symmetric], rule safe_patch_here [OF b],
            rule safe_conseq [OF safe_end_scope])
          (use 2 3 d in \<open>auto simp: same_def\<close>)
    qed
  qed
  show ?thesis
    unfolding compile_switch_def
    by (intro safe_steps safe_option safe_conseq [OF compile_cases_safe] safe_conseq [OF close] sub)
      (auto simp: same_def intro: ext_jump_at)
qed

section \<open>Concurrent blocks and structs\<close>

lemma compile_concurrent_safe: "safe s (compile_concurrent r body) (\<lambda>_ s'. same s s')"
  unfolding compile_concurrent_def
  by (intro safe_steps safe_loops safe_conseq [OF compile_await_handles_safe] sub)
    (auto simp: same_def intro: emit_ok_plain)

lemma strings_from_safe: "safe s (strings_from ts) (\<lambda>_ s'. same s s')"
proof (induction ts arbitrary: s)
  case (Cons t ts)
  show ?case
    by (simp only: strings_from.simps, intro safe_steps safe_ops safe_conseq [OF Cons.IH]) (auto simp: same_def)
qed (simp add: safe_return)

lemma compile_methods_safe: "safe s (compile_methods r name ms m) (\<lambda>_ s'. same s s')"
proof (induction ms arbitrary: m s)
  case (Cons x ms)
  obtain n ps b where x: "x = (n, ps, b)" by (cases x)
  show ?case
    by (simp only: compile_methods.simps x,
        intro safe_steps safe_ops safe_conseq [OF compile_method_safe] safe_conseq [OF Cons.IH])
      (auto simp: same_def)
qed (simp add: safe_return)

lemma compile_struct_decl_safe: "safe s (compile_struct_decl r name composed fs ms) (\<lambda>_ s'. same s s')"
  unfolding compile_struct_decl_def
  by (intro safe_steps safe_ops safe_conseq [OF strings_from_safe] safe_conseq [OF compile_methods_safe]
      safe_conseq [OF safe_heap_alloc],
    auto simp: same_def data_ok_def, (assumption | rule ext_consts, assumption)+)

section \<open>All statements\<close>

lemma compile_expr_stmt_safe: "safe s (compile_expr_stmt r e) (\<lambda>_ s'. same s s')"
  unfolding compile_expr_stmt_def by (intro safe_steps sub) auto

lemma compile_print_safe: "safe s (compile_print r e) (\<lambda>_ s'. same s s')"
  unfolding compile_print_def by (intro safe_steps safe_ops sub) (auto simp: same_def intro: emit_ok_plain)

lemma compile_if_safe: "safe s (compile_if r c t e) (\<lambda>_ s'. same s s')"
  unfolding compile_if_def
  by (intro safe_steps safe_option sub) (auto simp: same_def is_jump_def intro: keep_facts)

lemma compile_break_safe: "safe s compile_break (\<lambda>_ s'. same s s')"
  unfolding compile_break_def by (intro safe_steps) (auto simp: same_def is_jump_def loops_def)

lemma compile_continue_safe: "safe s compile_continue (\<lambda>_ s'. same s s')"
  unfolding compile_continue_def
  by (intro safe_steps safe_option) (auto simp: same_def is_jump_def loops_def dest: position_SomeD(1) [OF sym])

lemma compile_return_safe: "safe s (compile_return r e loc) (\<lambda>_ s'. same s s')"
  unfolding compile_return_def
  by (intro safe_steps safe_option safe_ops sub) (auto simp: same_def intro: emit_ok_plain)

lemma compile_stmt_safe: "safe s (compile_stmt r st) (\<lambda>_ s'. same s s')"
proof -
  have each: "safe s' (case st of
        S_Expr e \<Rightarrow> compile_expr_stmt r e
      | S_Print e \<Rightarrow> compile_print r e
      | S_VarDecl name ty is_const e loc \<Rightarrow> compile_var_decl r name ty is_const e loc
      | S_Block ss \<Rightarrow> cseq [begin_scope, cfor ss (sub_stmt r), end_scope]
      | S_If c t e \<Rightarrow> compile_if r c t e
      | S_While c body \<Rightarrow> compile_while r c body
      | S_For var start stop body \<Rightarrow> compile_for r var start stop body
      | S_ForIn var iter body \<Rightarrow> compile_for_in r var iter body
      | S_Break \<Rightarrow> compile_break
      | S_Continue \<Rightarrow> compile_continue
      | S_Throw e \<Rightarrow> cbind next_reg (\<lambda>reg. cthen (sub_expr r e reg) (emit Throw reg 0 0 0))
      | S_Try body c f \<Rightarrow> compile_try r body c f
      | S_Switch e cases d \<Rightarrow> compile_switch r e cases d
      | S_Return e loc \<Rightarrow> compile_return r e loc
      | S_Import ns p \<Rightarrow> cfail (Ce_Message ''Import statement should be resolved before compilation'')
      | S_Export inner \<Rightarrow> sub_stmt r inner
      | S_Struct name composed fs ms l \<Rightarrow> compile_struct_decl r name composed fs ms
      | S_Interface name fs ms l \<Rightarrow> creturn ()
      | S_TypeAlias name ps ty l \<Rightarrow>
          cupdate (\<lambda>c. c\<lparr>c_type_aliases := tab_insert name ty (c_type_aliases c)\<rparr>)
      | S_Enum name variants loc \<Rightarrow> compile_enum r name variants loc
      | S_Concurrent body \<Rightarrow> compile_concurrent r body
      | S_Sync body \<Rightarrow> sub_stmt r body) (\<lambda>_ s''. same s' s'')" for s'
    by (cases st; simp only: stmt.case;
        intro compile_expr_stmt_safe compile_print_safe compile_var_decl_safe compile_if_safe
          compile_while_safe compile_for_safe compile_for_in_safe compile_break_safe
          compile_continue_safe compile_try_safe compile_switch_safe compile_return_safe
          compile_struct_decl_safe compile_enum_safe compile_concurrent_safe sub_stmt_safe
          safe_steps safe_conseq [OF safe_cfor] safe_conseq [OF safe_frame] sub)
      (auto simp: same_def intro: emit_ok_plain sub_stmt_safe)
  show ?thesis
    unfolding compile_stmt_def
    by (rule safe_then [OF safe_frame], simp_all, rule safe_conseq [OF each]) (auto intro: same_trans)
qed

end

section \<open>The compiler\<close>

lemma sub_wf_compilers: "sub_wf (compilers n)"
proof (induction n)
  case 0
  show ?case by unfold_locales (simp_all add: safe_fuel)
next
  case (Suc n)
  show ?case
    by unfold_locales (simp_all add: Let_def sub_wf.compile_expr_safe [OF Suc] sub_wf.compile_stmt_safe [OF Suc])
qed

interpretation compiler_wf: sub_wf "compilers n" for n
  by (rule sub_wf_compilers)

lemma safe_lift_flatten: "safe s (lift_flatten t) (\<lambda>_ s'. s' = s)"
  by (auto simp: lift_flatten_def safe_fuel safe_fail safe_return split: option.split sum.split)

lemma safe_set_function:
  assumes "fn_chunk (f (c_function (cur s))) = the_chunk (cur s)"
    "upvalues (f (c_function (cur s))) = upvalues (c_function (cur s))"
  shows "safe s (cupdate (\<lambda>c. c\<lparr>c_function := f (c_function c)\<rparr>)) (\<lambda>_ s'. same s s')"
  by (rule safe_conseq [OF safe_cupdate])
    (use assms in \<open>auto simp: comp_ok_def the_chunk_def loops_ok_def grows_def same_def depth_def loops_def\<close>)

lemma compile_safe:
  "safe s (compile n stmts) (\<lambda>f s'. sealed (cur s') \<and> f = c_function (cur s'))"
  unfolding compile_def Let_def
  by (intro safe_steps safe_conseq [OF safe_cmodify] safe_conseq [OF safe_set_function]
      safe_conseq [OF safe_lift_flatten] safe_conseq [OF safe_frame] safe_conseq [OF safe_cfor]
      compiler_wf.sub_stmt_safe safe_conseq [OF safe_emit_return [unfolded emit_return_def]])
    (auto simp: the_chunk_def)

lemma fresh_state_inv: "heap_ok h \<Longrightarrow> inv (fresh_state h osz ch qn)"
  by (simp add: inv_def fresh_state_def comp_ok_def compiler_new_def chunk_ok_def the_chunk_def
      function_default_def chunk_default_def loops_ok_def)

text \<open>C28: The compiler never panics, whatever the program: no jump is patched that is not one, no loop
  or upvalue table is read out of range, no scope is closed that is not open. And the function it makes
  is well formed, with all functions it leaves on the heap: every jump, loop and exception handler
  leads to an instruction of the same function, every operand names a constant or an upvalue the function has, and
  no path misses the return at the end.\<close>

theorem compile_well_formed:
  assumes "heap_ok h"
  shows "case compile n stmts (fresh_state h osz chunk_at qn) of
      COk f s \<Rightarrow> function_ok f \<and> heap_ok (cs_heap s)
    | CPanic \<Rightarrow> False
    | _ \<Rightarrow> True"
proof (cases "compile n stmts (fresh_state h osz chunk_at qn)")
  case (COk f s)
  let ?s = "fresh_state h osz chunk_at qn"
  have 1: "inv s" "ext ?s s" "sealed (cur s)" "f = c_function (cur s)"
    using compile_safe [of ?s n stmts] fresh_state_inv [OF assms] COk by (auto simp: safe_def)
  have "tl (cs_chain s) = []" using 1(2) by (simp add: ext_def fresh_state_def)
  then have "c_upvalues (cur s) = []" using 1(1) by (cases "cs_chain s") (auto simp: inv_def cur_def)
  moreover have "upvalues (c_function (cur s)) = []" using inv_cur [OF 1(1)] by (simp add: comp_ok_def)
  ultimately have "function_ok f" using 1(3,4) by (simp add: function_ok_sealed)
  then show ?thesis using COk 1(1) by (simp add: inv_def)
qed (use compile_safe [of "fresh_state h osz chunk_at qn" n stmts] fresh_state_inv [OF assms]
    in \<open>simp_all add: safe_def\<close>)

theorem compile_well_formed_witness:
  "case compile 3 [S_While (E_Literal (L_Boolean True)) S_Break] (fresh_state gc_init 48 (\<lambda>_. 4096) 0) of
     COk f s \<Rightarrow> function_ok f \<and> length (code (fn_chunk f)) = 6
   | _ \<Rightarrow> False"
proof -
  have "heap_ok gc_init" by (simp add: heap_ok_def gc_init_def)
  moreover have "case compile 3 [S_While (E_Literal (L_Boolean True)) S_Break] (fresh_state gc_init 48 (\<lambda>_. 4096) 0) of
     COk f s \<Rightarrow> length (code (fn_chunk f)) = 6 | _ \<Rightarrow> False"
    by code_simp
  ultimately show ?thesis
    using compile_well_formed [of gc_init 3 "[S_While (E_Literal (L_Boolean True)) S_Break]" 48 "\<lambda>_. 4096" 0]
    by (auto split: cres.splits)
qed

end
