(* ===== verification/Vm_State.thy ===== *)
theory Vm_State
  imports Gc_State Shapes
begin

text \<open>
  The virtual machine's state, \<^verbatim>\<open>execute/types.rs\<close>, \<^verbatim>\<open>fiber.rs\<close>, \<^verbatim>\<open>scheduler.rs\<close>, and the
  computations over it. A list of frames has the innermost frame first. Reading or writing a slot outside
  the stack, following a pointer to nothing and \<^verbatim>\<open>unreachable!\<close> are \<open>VFault\<close>, an exhausted allocator is
  \<open>VAbort\<close>, an \<^verbatim>\<open>Err\<close> keeps the state it leaves. What the machine gets from its surroundings is a
  \<open>platform\<close>: the system allocator, the bits of a fresh NaN, the iteration orders of hash maps, the
  native functions and host methods, the tables of letter case, the roots other parts register, the depth of the native stack, the
  clock, what worker threads post, a parser of JSON, the wording of errors.
\<close>

section \<open>Fibers\<close>

datatype fiber_status = F_Ready | F_Running | F_Suspended | F_Completed | F_Cancelled | F_Failed

record fiber =
  fb_id :: u64
  fb_parent :: "u64 option"
  fb_status :: fiber_status
  fb_stack :: "er_value list"
  fb_frames :: "call_frame list"
  fb_open_upvalues :: "u64 list"
  fb_children :: "u64 list"
  fb_completion :: u64
  fb_waiting_on :: "u64 option"
  fb_dest_reg :: nat
  fb_result :: er_value
  fb_error :: "u8 list option"
  fb_masks :: nat
  fb_interrupted :: bool
  fb_finalizers :: "er_value list"

record fiber_scheduler =
  current_fiber_id :: u64
  fibers :: "(u64 \<times> fiber) list"
  ready_queue :: "u64 list"
  waiting_fibers :: "(u64 \<times> u64 list) list"
  next_fiber_id :: u64

section \<open>The event loop\<close>

text \<open>What an asynchronous operation of a worker thread brings back; \<open>Inl\<close> is the error it prints.\<close>

datatype async_result =
    Ar_Timeout
  | Ar_Promise u64 er_value
  | Ar_Fetch u64 "u8 list + u8 list"
  | Ar_Text u64 "u8 list + u8 list"
  | Ar_Json u64 "u8 list + u8 list"
  | Ar_Write u64 "u8 list + nat"

record event_task =
  et_callback :: er_value
  et_args :: "er_value list"
  et_result :: async_result

datatype timer_action = Ta_Callback er_value "er_value list" | Ta_Resolve u64 er_value

text \<open>Instants are nanoseconds since some origin.\<close>

record vm_timer =
  tm_id :: u64
  tm_due :: nat
  tm_action :: timer_action

record pending_async =
  pa_callback :: er_value
  pa_args :: "er_value list"

text \<open>The heap of timers is the list of its elements. \<open>el_readings\<close> counts the readings of the clock and
  \<open>el_takes\<close> the times the queue has been taken, which index what the platform answers.\<close>

record event_loop =
  el_queue :: "event_task list"
  el_active :: u64
  el_pending :: "pending_async list"
  el_timers :: "vm_timer list"
  el_next_timer :: u64
  el_readings :: nat
  el_takes :: nat

definition event_loop_new :: event_loop where
  "event_loop_new =
     \<lparr>el_queue = [], el_active = 0, el_pending = [], el_timers = [], el_next_timer = 1, el_readings = 0,
      el_takes = 0\<rparr>"

section \<open>The machine\<close>

record shape_registry =
  reg_structs :: "(u8 list \<times> struct_descriptor) list"
  auto_shapes :: "(er_value list \<times> struct_descriptor \<times> nat list) list"
  last_matched_keys :: "er_value list"
  last_matched_descriptor :: "struct_descriptor option"
  last_matched_offsets :: "nat list"

definition shape_registry_new :: shape_registry where
  "shape_registry_new =
     \<lparr>reg_structs = [], auto_shapes = [], last_matched_keys = [], last_matched_descriptor = None,
      last_matched_offsets = []\<rparr>"

text \<open>Beside the fields of \<^verbatim>\<open>VM\<close>: the heap, the anonymous shapes and the temporary roots, thread-local in the
  source.\<close>

record vm =
  vm_frames :: "call_frame list"
  vm_stack :: "er_value list"
  vm_globals :: "(u8 list \<times> er_value) list"
  vm_open_upvalues :: "u64 list"
  vm_thrown :: er_value
  vm_registry :: shape_registry
  vm_scheduler :: fiber_scheduler
  vm_events :: event_loop
  vm_temp_slices :: "er_value list list"
  vm_root_vectors :: "er_value list list"
  vm_heap :: gc_state
  vm_shapes :: shape_state

datatype vm_error =
    Ve_Text string
  | Ve_Undefined "u8 list"
  | Ve_Undeclared "u8 list"
  | Ve_Uncaught "u8 list"
  | Ve_Arguments nat nat
  | Ve_Not_callable u64
  | Ve_No_field "u8 list"
  | Ve_Index nat nat
  | Ve_Rejected "u8 list"

datatype (plugins only: code size) 'a vres =
    VOk 'a vm
  | VErr vm_error vm
  | VFault
  | VAbort
  | VFuel

type_synonym 'a V = "vm \<Rightarrow> 'a vres"

text \<open>A parsed JSON text, as \<^verbatim>\<open>serde_json\<close> gives it; a number is \<open>None\<close> when it is no double.\<close>

datatype json =
    J_Null
  | J_Bool bool
  | J_Number "f64 option"
  | J_String "u8 list"
  | J_Array "json list"
  | J_Object "(u8 list \<times> json) list"

record platform =
  pf_cell :: u64
  pf_chunk_at :: "nat \<Rightarrow> u64"
  pf_nan :: f64
  pf_ord_fields :: "(er_value \<times> nat) list \<Rightarrow> (er_value \<times> nat) list"
  pf_ord_entries :: "(er_value \<times> er_value) list \<Rightarrow> (er_value \<times> er_value) list"
  pf_ord_structs :: "(u8 list \<times> struct_descriptor) list \<Rightarrow> (u8 list \<times> struct_descriptor) list"
  pf_depth :: nat
  pf_roots :: "gc_root list"
  pf_native :: "u64 \<Rightarrow> er_value list \<Rightarrow> er_value V"
  pf_host_method :: "er_value \<Rightarrow> er_value list \<Rightarrow> er_value V"
  pf_upper :: "u8 list \<Rightarrow> u8 list"
  pf_lower :: "u8 list \<Rightarrow> u8 list"
  pf_time :: "nat \<Rightarrow> nat"
  pf_posted :: "nat \<Rightarrow> event_task list"
  pf_json :: "u8 list \<Rightarrow> json option"
  pf_wording :: "vm_error \<Rightarrow> u8 list"

section \<open>Computations\<close>

definition vreturn :: "'a \<Rightarrow> 'a V" where
  "vreturn x m = VOk x m"

definition vfail :: "vm_error \<Rightarrow> 'a V" where
  "vfail e m = VErr e m"

definition vfault :: "'a V" where
  "vfault m = VFault"

definition vbind :: "'a V \<Rightarrow> ('a \<Rightarrow> 'b V) \<Rightarrow> 'b V" where
  "vbind c f m = (case c m of VOk x m' \<Rightarrow> f x m' | VErr e m' \<Rightarrow> VErr e m' | VFault \<Rightarrow> VFault | VAbort \<Rightarrow> VAbort
     | VFuel \<Rightarrow> VFuel)"

definition vthen :: "'a V \<Rightarrow> 'b V \<Rightarrow> 'b V" where
  "vthen c k = vbind c (\<lambda>_. k)"

definition vget :: "(vm \<Rightarrow> 'a) \<Rightarrow> 'a V" where
  "vget f m = VOk (f m) m"

definition vmodify :: "(vm \<Rightarrow> vm) \<Rightarrow> unit V" where
  "vmodify f m = VOk () (f m)"

text \<open>A partial computation on the heap, undefined where a pointer is bad.\<close>

definition vheap :: "(gc_state \<Rightarrow> gc_state option) \<Rightarrow> unit V" where
  "vheap f m = (case f (vm_heap m) of None \<Rightarrow> VFault | Some h \<Rightarrow> VOk () (m\<lparr>vm_heap := h\<rparr>))"

definition vsome :: "'a option \<Rightarrow> 'a V" where
  "vsome x = (case x of None \<Rightarrow> vfault | Some y \<Rightarrow> vreturn y)"

fun vfor :: "'a list \<Rightarrow> ('a \<Rightarrow> unit V) \<Rightarrow> unit V" where
  "vfor [] f = vreturn ()"
| "vfor (x # xs) f = vthen (f x) (vfor xs f)"

fun vmap :: "('a \<Rightarrow> 'b V) \<Rightarrow> 'a list \<Rightarrow> 'b list V" where
  "vmap f [] = vreturn []"
| "vmap f (x # xs) = vbind (f x) (\<lambda>y. vbind (vmap f xs) (\<lambda>ys. vreturn (y # ys)))"

lemma vbind_return [simp]: "vbind (vreturn x) f = f x"
  by (rule ext) (simp add: vbind_def vreturn_def)

lemma vres_simps [simp]:
  "vthen c k m = (case c m of VOk x m' \<Rightarrow> k m' | VErr e m' \<Rightarrow> VErr e m' | VFault \<Rightarrow> VFault | VAbort \<Rightarrow> VAbort
     | VFuel \<Rightarrow> VFuel)"
  "vget f m = VOk (f m) m" "vmodify g m = VOk () (g m)" "vreturn x m = VOk x m" "vfail e m = VErr e m"
  "vfault m = VFault"
  by (simp_all add: vthen_def vbind_def vget_def vmodify_def vreturn_def vfail_def vfault_def)

section \<open>Slots\<close>

definition frame_base :: "vm \<Rightarrow> nat" where
  "frame_base m = slots_offset (hd (vm_frames m))"

text \<open>\<^verbatim>\<open>*frame_slots.add(i)\<close>, read and written, from a given frame or the innermost one.\<close>

definition slot :: "nat \<Rightarrow> er_value V" where
  "slot i = vbind (vget (\<lambda>m. vec_index (vm_stack m) (frame_base m + i))) vsome"

definition set_slot_at :: "nat \<Rightarrow> nat \<Rightarrow> er_value \<Rightarrow> unit V" where
  "set_slot_at base i v =
     vbind (vget (\<lambda>m. vec_set (vm_stack m) (base + i) v)) (\<lambda>st.
     vbind (vsome st) (\<lambda>xs. vmodify (\<lambda>m. m\<lparr>vm_stack := xs\<rparr>)))"

definition set_slot :: "nat \<Rightarrow> er_value \<Rightarrow> unit V" where
  "set_slot i v = vbind (vget frame_base) (\<lambda>base. set_slot_at base i v)"

definition reg :: "u8 \<Rightarrow> nat" where
  "reg r = unat r"

section \<open>The heap\<close>

text \<open>The bytes of an ASCII literal.\<close>

definition bytes_of :: "string \<Rightarrow> u8 list" where
  "bytes_of t = map of_char t"

definition vm_rd :: "vm \<Rightarrow> u64 \<Rightarrow> u8 list option" where
  "vm_rd m = heap_str (vm_heap m)"

definition data_at :: "u64 \<Rightarrow> gc_data V" where
  "data_at p = vbind (vget (\<lambda>m. map_option obj_data (deref p (vm_heap m)))) vsome"

definition set_data :: "u64 \<Rightarrow> gc_data \<Rightarrow> unit V" where
  "set_data p d = vheap (\<lambda>h. map_option (\<lambda>ob. write_obj p (ob\<lparr>obj_data := d\<rparr>) h) (deref p h))"

definition vm_alloc :: "platform \<Rightarrow> gc_data \<Rightarrow> u64 V" where
  "vm_alloc pf d m =
     (case gc_allocate (pf_cell pf) (pf_chunk_at pf (length (chunks (vm_heap m)))) d (vm_heap m) of
        None \<Rightarrow> VAbort
      | Some (p, h) \<Rightarrow> VOk p (m\<lparr>vm_heap := h\<rparr>))"

definition vm_alloc_array :: "platform \<Rightarrow> er_value list \<Rightarrow> u64 V" where
  "vm_alloc_array pf vs m =
     (case gc_alloc_array (pf_cell pf) (pf_chunk_at pf (length (chunks (vm_heap m)))) vs (vm_heap m) of
        None \<Rightarrow> VAbort
      | Some (p, h) \<Rightarrow> VOk p (m\<lparr>vm_heap := h\<rparr>))"

definition vm_intern :: "platform \<Rightarrow> string \<Rightarrow> u64 V" where
  "vm_intern pf t m =
     (case intern_string (pf_cell pf) (pf_chunk_at pf (length (chunks (vm_heap m)))) (bytes_of t) (vm_heap m) of
        None \<Rightarrow> VAbort
      | Some (p, h) \<Rightarrow> VOk p (m\<lparr>vm_heap := h\<rparr>))"

text \<open>\<^verbatim>\<open>Value::inline_string(s)\<close>, or else a heap string.\<close>

definition vm_string :: "platform \<Rightarrow> u8 list \<Rightarrow> er_value V" where
  "vm_string pf t =
     (case inline_string t of
        Some v \<Rightarrow> vreturn v
      | None \<Rightarrow> vbind (vm_alloc pf (D_String t)) (\<lambda>p. vreturn (val_string p)))"

definition text_of :: "er_value \<Rightarrow> u8 list V" where
  "text_of v = vget (\<lambda>m. str_or_empty (vm_rd m) v)"

definition vm_barrier :: "u64 \<Rightarrow> er_value \<Rightarrow> unit V" where
  "vm_barrier p v = vheap (gc_write_barrier p v)"

section \<open>Roots (gc_integration.rs)\<close>

text \<open>The loops of the collector, executable by unfolding.\<close>

declare drain_gray.simps [code] sweep_list.simps [code] count_list.simps [code]

definition fiber_roots :: "fiber \<Rightarrow> gc_root list" where
  "fiber_roots f =
     map RootValue (fb_stack f) @
     map (\<lambda>fr. RootValue (val_function (frame_function fr))) (fb_frames f) @
     map RootObject (fb_open_upvalues f) @
     [RootValue (fb_result f)] @
     (if fb_completion f = 0 then [] else [RootObject (fb_completion f)]) @
     map RootValue (fb_finalizers f)"

definition promise_roots :: "u64 \<Rightarrow> gc_root list" where
  "promise_roots p = (if p = 0 then [] else [RootObject p])"

definition result_roots :: "async_result \<Rightarrow> gc_root list" where
  "result_roots r =
     (case r of
        Ar_Timeout \<Rightarrow> []
      | Ar_Promise p v \<Rightarrow> promise_roots p @ [RootValue v]
      | Ar_Fetch p _ \<Rightarrow> promise_roots p
      | Ar_Text p _ \<Rightarrow> promise_roots p
      | Ar_Json p _ \<Rightarrow> promise_roots p
      | Ar_Write p _ \<Rightarrow> promise_roots p)"

definition timer_roots :: "timer_action \<Rightarrow> gc_root list" where
  "timer_roots a =
     (case a of
        Ta_Callback f vs \<Rightarrow> RootValue f # map RootValue vs
      | Ta_Resolve p v \<Rightarrow> promise_roots p @ [RootValue v])"

text \<open>\<^verbatim>\<open>VmEventLoop::trace_roots\<close>\<close>

definition trace_roots :: "event_loop \<Rightarrow> gc_root list" where
  "trace_roots el =
     concat (map (\<lambda>t. RootValue (et_callback t) # map RootValue (et_args t) @ result_roots (et_result t)) (el_queue el)) @
     concat (map (\<lambda>p. RootValue (pa_callback p) # map RootValue (pa_args p)) (el_pending el)) @
     concat (map (\<lambda>t. timer_roots (tm_action t)) (el_timers el))"

text \<open>\<^verbatim>\<open>mark_roots\<close>; what other parts register comes from the platform.\<close>

definition vm_mark_roots :: "platform \<Rightarrow> vm \<Rightarrow> gc_root list" where
  "vm_mark_roots pf m =
     map RootValue (vm_stack m) @
     map (\<lambda>(k, v). RootValue v) (vm_globals m) @
     map (\<lambda>fr. RootValue (val_function (frame_function fr))) (rev (vm_frames m)) @
     map RootObject (vm_open_upvalues m) @
     concat (map (\<lambda>(k, f). fiber_roots f) (fibers (vm_scheduler m))) @
     [RootValue (vm_thrown m)] @
     trace_roots (vm_events m) @
     pf_roots pf @
     map RootValue (concat (vm_temp_slices m)) @
     map RootValue (concat (vm_root_vectors m))"

definition vm_gc_trigger :: "platform \<Rightarrow> unit V" where
  "vm_gc_trigger pf = vbind (vget (vm_mark_roots pf)) (\<lambda>rs. vheap (gc_trigger rs))"

section \<open>Functions\<close>

text \<open>\<^verbatim>\<open>get_raw_func\<close>: through a bound method and a closure to the function.\<close>

definition unbind :: "u64 \<Rightarrow> u64 V" where
  "unbind p = vbind (data_at p) (\<lambda>d. vreturn (case d of D_BoundMethod bm \<Rightarrow> bm_function bm | _ \<Rightarrow> p))"

definition unclose :: "u64 \<Rightarrow> u64 V" where
  "unclose p = vbind (data_at p) (\<lambda>d. vreturn (case d of D_Closure c \<Rightarrow> clo_function c | _ \<Rightarrow> p))"

definition function_at :: "u64 \<Rightarrow> er_function V" where
  "function_at p = vbind (data_at p) (\<lambda>d. (case d of D_Function f \<Rightarrow> vreturn f | _ \<Rightarrow> vfault))"

definition get_raw_func :: "u64 \<Rightarrow> er_function V" where
  "get_raw_func p = vbind (unbind p) (\<lambda>q. vbind (unclose q) function_at)"

end
