(* ===== verification/Vm_Math.thy ===== *)
theory Vm_Math
  imports Vm_State
begin

text \<open>
  Arithmetic, comparison and text operations on values: \<^verbatim>\<open>execute/loop_ops_math.rs\<close>, with the
  \<^verbatim>\<open>Display\<close> of values from \<^verbatim>\<open>eronom-core/src/value.rs\<close>. An operation is a function of its operands and
  the heap; the machine lifts it to its slots.
\<close>

section \<open>Operations over the heap\<close>

datatype (plugins only: code size) 'a hres =
    HOk 'a gc_state
  | HErr vm_error
  | HFault
  | HAbort

definition hbind :: "(gc_state \<Rightarrow> 'a hres) \<Rightarrow> ('a \<Rightarrow> gc_state \<Rightarrow> 'b hres) \<Rightarrow> gc_state \<Rightarrow> 'b hres" where
  "hbind c f h = (case c h of HOk x h' \<Rightarrow> f x h' | HErr e \<Rightarrow> HErr e | HFault \<Rightarrow> HFault | HAbort \<Rightarrow> HAbort)"

definition vlift :: "(gc_state \<Rightarrow> 'a hres) \<Rightarrow> 'a V" where
  "vlift c m =
     (case c (vm_heap m) of
        HOk x h \<Rightarrow> VOk x (m\<lparr>vm_heap := h\<rparr>)
      | HErr e \<Rightarrow> VErr e m
      | HFault \<Rightarrow> VFault
      | HAbort \<Rightarrow> VAbort)"

definition heap_alloc_data :: "platform \<Rightarrow> gc_data \<Rightarrow> gc_state \<Rightarrow> u64 hres" where
  "heap_alloc_data pf d h =
     (case gc_allocate (pf_cell pf) (pf_chunk_at pf (length (chunks h))) d h of
        None \<Rightarrow> HAbort
      | Some (p, h') \<Rightarrow> HOk p h')"

definition heap_string :: "platform \<Rightarrow> u8 list \<Rightarrow> gc_state \<Rightarrow> er_value hres" where
  "heap_string pf t =
     (case inline_string t of
        Some v \<Rightarrow> HOk v
      | None \<Rightarrow> hbind (heap_alloc_data pf (D_String t)) (\<lambda>p. HOk (val_string p)))"

section \<open>Printing values (value.rs)\<close>

definition join_text :: "u8 list \<Rightarrow> u8 list list \<Rightarrow> u8 list" where
  "join_text sep ts = (case ts of [] \<Rightarrow> [] | t # ts \<Rightarrow> t @ concat (map (\<lambda>t. sep @ t) ts))"

definition quoted_entry :: "u8 list \<Rightarrow> u8 list \<Rightarrow> u8 list" where
  "quoted_entry k v = [34] @ k @ [34, 58, 32] @ v"

text \<open>\<^verbatim>\<open>items[idx] = ..\<close> over the entries of a struct; an index out of range panics.\<close>

fun place_items :: "(nat \<times> u8 list) list \<Rightarrow> u8 list list \<Rightarrow> u8 list list option" where
  "place_items [] items = Some items"
| "place_items ((i, t) # es) items =
     (case vec_set items i t of None \<Rightarrow> None | Some items' \<Rightarrow> place_items es items')"

text \<open>\<open>None\<close> when the value nests deeper than the native stack, or a pointer or an index is bad.\<close>

fun value_display :: "platform \<Rightarrow> gc_state \<Rightarrow> nat \<Rightarrow> er_value \<Rightarrow> u8 list option" where
  "value_display pf h 0 v = None"
| "value_display pf h (Suc n) v =
     (if is_null v then Some (bytes_of ''null'')
      else if is_boolean v then Some (bytes_of (if as_boolean v then ''true'' else ''false''))
      else if is_number v then Some (bytes_of (f64_display (as_number v)))
      else if is_string v then Some (str_or_empty (heap_str h) v)
      else if is_array v then
        (case map_option obj_data (deref (as_gc_ptr v) h) of
           Some (D_Array arr) \<Rightarrow>
             map_option (\<lambda>ts. [91] @ join_text [44, 32] ts @ [93]) (those (map (value_display pf h n) arr))
         | _ \<Rightarrow> None)
      else if is_object v then
        (case map_option obj_data (deref (as_gc_ptr v) h) of
           Some (D_Object m) \<Rightarrow>
             map_option (\<lambda>ts. [123] @ join_text [44, 32] ts @ [125])
               (those (map (\<lambda>(k, x). map_option (quoted_entry (str_or_empty (heap_str h) k)) (value_display pf h n x))
                  (pf_ord_entries pf m)))
         | Some (D_Struct s) \<Rightarrow>
             (case those (map (\<lambda>(k, i). case vec_index (st_fields s) i of
                   None \<Rightarrow> None
                 | Some x \<Rightarrow> map_option (\<lambda>t. (i, quoted_entry (str_or_empty (heap_str h) k) t)) (value_display pf h n x))
                  (pf_ord_fields pf (field_indices (descriptor s)))) of
                None \<Rightarrow> None
              | Some es \<Rightarrow>
                  map_option (\<lambda>ts. [123] @ join_text [44, 32] ts @ [125])
                    (place_items es (replicate (length (st_fields s)) [])))
         | Some (D_StructConstructor d) \<Rightarrow> Some (bytes_of ''[Constructor '' @ sd_name d @ [93])
         | _ \<Rightarrow> None)
      else if is_function v then Some (bytes_of ''[Function]'')
      else if is_native_function v then Some (bytes_of ''[NativeFunction]'')
      else if is_array_method_push v then Some (bytes_of ''[ArrayMethod push]'')
      else if is_array_method_pop v then Some (bytes_of ''[ArrayMethod pop]'')
      else if is_method_json v then Some (bytes_of ''[Method json]'')
      else if is_method_text v then Some (bytes_of ''[Method text]'')
      else if is_method_send_json v then Some (bytes_of ''[Method sendJson]'')
      else if is_method_resolve v then Some (bytes_of ''[Method resolve]'')
      else if is_promise v then Some (bytes_of ''[Promise]'')
      else Some (bytes_of ''[Unknown]''))"

section \<open>Addition\<close>

text \<open>The text of a number next to a string: an integer below 2^64 by its digits, another one as it is
  printed.\<close>

definition number_text :: "f64 \<Rightarrow> u8 list option" where
  "number_text n =
     (if f64_le 0 n \<and> f64_is_integral n \<and> f64_lt n 0x43F0000000000000
      then map_option bytes_of (push_positive_integer [] (f64_to_u64 n))
      else Some (bytes_of (f64_display n)))"

definition operand_text :: "platform \<Rightarrow> gc_state \<Rightarrow> er_value \<Rightarrow> u8 list option" where
  "operand_text pf h v =
     (if is_string v then Some (str_or_empty (heap_str h) v)
      else if is_number v then number_text (as_number v)
      else value_display pf h (pf_depth pf) v)"

definition concat_values :: "platform \<Rightarrow> er_value \<Rightarrow> er_value \<Rightarrow> gc_state \<Rightarrow> er_value hres" where
  "concat_values pf a b h =
     (case (operand_text pf h a, operand_text pf h b) of
        (Some s, Some t) \<Rightarrow> heap_string pf (s @ t) h
      | _ \<Rightarrow> HFault)"

definition add_values :: "platform \<Rightarrow> er_value \<Rightarrow> er_value \<Rightarrow> gc_state \<Rightarrow> er_value hres" where
  "add_values pf a b =
     (if is_number a \<and> is_number b
      then HOk (number_unchecked (f64_add (pf_nan pf) (as_number a) (as_number b)))
      else if is_string a \<or> is_string b then concat_values pf a b
      else (\<lambda>h. HErr (Ve_Text ''Operands must be numbers or strings'')))"

section \<open>The other operators\<close>

definition on_numbers :: "(f64 \<Rightarrow> f64 \<Rightarrow> er_value) \<Rightarrow> er_value \<Rightarrow> er_value \<Rightarrow> gc_state \<Rightarrow> er_value hres" where
  "on_numbers f a b =
     (if is_number a \<and> is_number b then HOk (f (as_number a) (as_number b))
      else (\<lambda>h. HErr (Ve_Text ''Operands must be numbers'')))"

definition on_number :: "(f64 \<Rightarrow> er_value) \<Rightarrow> er_value \<Rightarrow> gc_state \<Rightarrow> er_value hres" where
  "on_number f a =
     (if is_number a then HOk (f (as_number a))
      else (\<lambda>h. HErr (Ve_Text ''Operand must be a number'')))"

text \<open>\<^verbatim>\<open>i64 as f64\<close>\<close>

definition i64_to_f64 :: "u64 \<Rightarrow> f64" where
  "i64_to_f64 w = f64_of_int (sint w)"

definition shift_count :: "f64 \<Rightarrow> nat" where
  "shift_count n = unat (f64_to_u32 n AND 63)"

definition type_name :: "er_value \<Rightarrow> string" where
  "type_name v =
     (if is_number v then ''number''
      else if is_string v then ''string''
      else if is_boolean v then ''boolean''
      else if is_null v then ''null''
      else if is_array v then ''array''
      else if is_object v then ''object''
      else if is_function v \<or> is_native_function v then ''function''
      else ''object'')"

definition typeof_value :: "platform \<Rightarrow> er_value \<Rightarrow> gc_state \<Rightarrow> er_value hres" where
  "typeof_value pf v h =
     (case intern_string (pf_cell pf) (pf_chunk_at pf (length (chunks h))) (bytes_of (type_name v)) h of
        None \<Rightarrow> HAbort
      | Some (p, h') \<Rightarrow> HOk (val_string p) h')"

definition array_len_value :: "er_value \<Rightarrow> gc_state \<Rightarrow> er_value hres" where
  "array_len_value v h =
     (if is_array v then
        (case map_option obj_data (deref (as_gc_ptr v) h) of
           None \<Rightarrow> HFault
         | Some d \<Rightarrow>
             HOk (val_number (f64_of_nat (case d of D_Array arr \<Rightarrow> length arr | _ \<Rightarrow> 0))) h)
      else HErr (Ve_Text ''Expected array for length''))"

definition not_value :: "er_value \<Rightarrow> er_value" where
  "not_value v =
     val_boolean (if is_boolean v then \<not> as_boolean v else is_null v)"

definition unary_op :: "platform \<Rightarrow> op_code \<Rightarrow> er_value \<Rightarrow> gc_state \<Rightarrow> er_value hres" where
  "unary_op pf opc v =
     (case opc of
        Negate \<Rightarrow> on_number (\<lambda>n. number_unchecked (f64_neg n)) v
      | NotOp \<Rightarrow> HOk (not_value v)
      | BitNot \<Rightarrow> on_number (\<lambda>n. number_unchecked (i64_to_f64 (NOT (f64_to_i64 n)))) v
      | TypeOf \<Rightarrow> typeof_value pf v
      | ArrayLen \<Rightarrow> array_len_value v
      | _ \<Rightarrow> (\<lambda>h. HFault))"

definition bitwise :: "(u64 \<Rightarrow> u64 \<Rightarrow> u64) \<Rightarrow> er_value \<Rightarrow> er_value \<Rightarrow> gc_state \<Rightarrow> er_value hres" where
  "bitwise f = on_numbers (\<lambda>a b. number_unchecked (i64_to_f64 (f (f64_to_i64 a) (f64_to_i64 b))))"

definition binary_op :: "platform \<Rightarrow> op_code \<Rightarrow> er_value \<Rightarrow> er_value \<Rightarrow> gc_state \<Rightarrow> er_value hres" where
  "binary_op pf opc a b =
     (case opc of
        Add \<Rightarrow> add_values pf a b
      | Sub \<Rightarrow> on_numbers (\<lambda>x y. number_unchecked (f64_sub (pf_nan pf) x y)) a b
      | Mul \<Rightarrow> on_numbers (\<lambda>x y. number_unchecked (f64_mul (pf_nan pf) x y)) a b
      | Div \<Rightarrow> on_numbers (\<lambda>x y. number_unchecked (f64_div (pf_nan pf) x y)) a b
      | ModOp \<Rightarrow> on_numbers (\<lambda>x y. number_unchecked (f64_rem (pf_nan pf) x y)) a b
      | BitAnd \<Rightarrow> bitwise (\<lambda>x y. x AND y) a b
      | BitOr \<Rightarrow> bitwise (\<lambda>x y. x OR y) a b
      | BitXor \<Rightarrow> bitwise (\<lambda>x y. x XOR y) a b
      | ShiftLeft \<Rightarrow>
          on_numbers (\<lambda>x y. number_unchecked (i64_to_f64 (push_bit (shift_count y) (f64_to_i64 x)))) a b
      | ShiftRight \<Rightarrow>
          on_numbers (\<lambda>x y. number_unchecked (i64_to_f64 (signed_drop_bit (shift_count y) (f64_to_i64 x)))) a b
      | Equal \<Rightarrow> (\<lambda>h. HOk (val_boolean (value_eq (heap_str h) a b)) h)
      | Greater \<Rightarrow> on_numbers (\<lambda>x y. val_boolean (f64_lt y x)) a b
      | Less \<Rightarrow> on_numbers (\<lambda>x y. val_boolean (f64_lt x y)) a b
      | _ \<Rightarrow> (\<lambda>h. HFault))"

definition is_unary_code :: "op_code \<Rightarrow> bool" where
  "is_unary_code opc \<longleftrightarrow> opc \<in> {Negate, NotOp, BitNot, TypeOf, ArrayLen}"

definition is_binary_code :: "op_code \<Rightarrow> bool" where
  "is_binary_code opc \<longleftrightarrow>
     opc \<in> {Add, Sub, Mul, Div, ModOp, BitAnd, BitOr, BitXor, ShiftLeft, ShiftRight, Equal, Greater, Less}"

text \<open>\<^verbatim>\<open>execute_math_and_cmp_op\<close>: whether the instruction was one of its own.\<close>

definition execute_math_and_cmp_op :: "platform \<Rightarrow> instruction \<Rightarrow> bool V" where
  "execute_math_and_cmp_op pf ins =
     (if is_unary_code (op ins) then
        vbind (slot (reg (rb ins))) (\<lambda>v.
        vbind (vlift (unary_op pf (op ins) v)) (\<lambda>x.
        vthen (set_slot (reg (ra ins)) x) (vreturn True)))
      else if is_binary_code (op ins) then
        vbind (slot (reg (rb ins))) (\<lambda>a.
        vbind (slot (reg (rc ins))) (\<lambda>b.
        vbind (vlift (binary_op pf (op ins) a b)) (\<lambda>x.
        vthen (set_slot (reg (ra ins)) x) (vreturn True))))
      else vreturn False)"

end
