(* ===== verification/Vm_Object.thy ===== *)
theory Vm_Object
  imports Vm_Math
begin

text \<open>
  Objects, structs, arrays and their properties in the machine: \<^verbatim>\<open>execute/loop_ops_obj.rs\<close>,
  \<^verbatim>\<open>struct_lookup.rs\<close>, the tables of method names in \<^verbatim>\<open>execute/builtins\<close>, and
  \<^verbatim>\<open>construct_struct_from_args\<close> of \<^verbatim>\<open>eronom-core/src/alloc.rs\<close>.
\<close>

section \<open>Helpers\<close>

definition pop_vector_pool :: "unit V" where
  "pop_vector_pool =
     vmodify (\<lambda>m. m\<lparr>vm_heap := (vm_heap m)\<lparr>vector_pool := butlast (vector_pool (vm_heap m))\<rparr>\<rparr>)"

definition pop_map_pool_vm :: "unit V" where
  "pop_map_pool_vm =
     vmodify (\<lambda>m. m\<lparr>vm_heap := (vm_heap m)\<lparr>map_pool := butlast (map_pool (vm_heap m))\<rparr>\<rparr>)"

definition lookup_entry :: "er_value \<Rightarrow> (er_value \<times> 'a) list \<Rightarrow> 'a option V" where
  "lookup_entry k es = vget (\<lambda>m. km_get (vm_rd m) k es)"

text \<open>\<^verbatim>\<open>str::parse::<usize>\<close>: digits, after an optional plus, of a value below 2^64.\<close>

definition parse_usize :: "u8 list \<Rightarrow> nat option" where
  "parse_usize t =
     (let ds = (case t of b # bs \<Rightarrow> if b = 43 then bs else t | [] \<Rightarrow> []);
          n = foldl (\<lambda>acc d. acc * 10 + (unat d - 48)) 0 ds
      in if ds \<noteq> [] \<and> list_all (\<lambda>d. 48 \<le> d \<and> d \<le> 57) ds \<and> n < 18446744073709551616 then Some n else None)"

text \<open>\<^verbatim>\<open>s.chars().count()\<close> of valid UTF-8.\<close>

definition char_count :: "u8 list \<Rightarrow> nat" where
  "char_count t = length (filter (\<lambda>b. \<not> cont_byte b) t)"

section \<open>Names of methods (builtins)\<close>

definition string_methods :: "(string \<times> builtin_method_id) list" where
  "string_methods =
     [(''toUpperCase'', StringToUpperCase), (''toLowerCase'', StringToLowerCase), (''trim'', StringTrim),
      (''trimStart'', StringTrimStart), (''trimLeft'', StringTrimStart), (''trimEnd'', StringTrimEnd),
      (''trimRight'', StringTrimEnd), (''split'', StringSplit), (''slice'', StringSlice),
      (''substring'', StringSubstring), (''indexOf'', StringIndexOf), (''lastIndexOf'', StringLastIndexOf),
      (''includes'', StringIncludes), (''startsWith'', StringStartsWith), (''endsWith'', StringEndsWith),
      (''replace'', StringReplace), (''replaceAll'', StringReplaceAll), (''charAt'', StringCharAt),
      (''charCodeAt'', StringCharCodeAt), (''repeat'', StringRepeat), (''padStart'', StringPadStart),
      (''padEnd'', StringPadEnd), (''concat'', StringConcat)]"

definition array_methods :: "(string \<times> builtin_method_id) list" where
  "array_methods =
     [(''push'', ArrayPush), (''pop'', ArrayPop), (''shift'', ArrayShift), (''unshift'', ArrayUnshift),
      (''map'', ArrayMap), (''filter'', ArrayFilter), (''reduce'', ArrayReduce), (''forEach'', ArrayForEach),
      (''find'', ArrayFind), (''findIndex'', ArrayFindIndex), (''some'', ArraySome), (''every'', ArrayEvery),
      (''includes'', ArrayIncludes), (''indexOf'', ArrayIndexOf), (''lastIndexOf'', ArrayLastIndexOf),
      (''slice'', ArraySlice), (''join'', ArrayJoin), (''concat'', ArrayConcat), (''reverse'', ArrayReverse),
      (''sort'', ArraySort), (''flat'', ArrayFlat), (''flatMap'', ArrayFlatMap), (''fill'', ArrayFill)]"

definition object_methods :: "(string \<times> builtin_method_id) list" where
  "object_methods =
     [(''keys'', ObjectKeys), (''values'', ObjectValues), (''entries'', ObjectEntries),
      (''hasOwnProperty'', ObjectHasOwnProperty), (''has'', ObjectHasOwnProperty)]"

definition method_named :: "(string \<times> builtin_method_id) list \<Rightarrow> u8 list \<Rightarrow> builtin_method_id option" where
  "method_named table name = map_of (map (\<lambda>(s, i). (bytes_of s, i)) table) name"

section \<open>Object literals (struct_lookup.rs)\<close>

text \<open>The offsets of the keys in a declared struct that has exactly these fields.\<close>

definition match_struct :: "(u64 \<Rightarrow> u8 list option) \<Rightarrow> er_value list \<Rightarrow> struct_descriptor \<Rightarrow> nat list option" where
  "match_struct rd keys d =
     (if length (field_indices d) = length keys then those (map (\<lambda>k. km_get rd k (field_indices d)) keys)
      else None)"

fun first_match :: "(u64 \<Rightarrow> u8 list option) \<Rightarrow> er_value list \<Rightarrow> (u8 list \<times> struct_descriptor) list \<Rightarrow>
    (struct_descriptor \<times> nat list) option" where
  "first_match rd keys [] = None"
| "first_match rd keys ((n, d) # ds) =
     (case match_struct rd keys d of Some offs \<Rightarrow> Some (d, offs) | None \<Rightarrow> first_match rd keys ds)"

definition remember_match :: "er_value list \<Rightarrow> struct_descriptor \<Rightarrow> nat list \<Rightarrow> shape_registry \<Rightarrow> shape_registry" where
  "remember_match keys d offs r =
     r\<lparr>last_matched_keys := keys, last_matched_descriptor := Some d, last_matched_offsets := offs\<rparr>"

definition cached_match :: "er_value list \<Rightarrow> shape_registry \<Rightarrow> (struct_descriptor \<times> nat list) option" where
  "cached_match keys r =
     (case last_matched_descriptor r of
        Some d \<Rightarrow> if map vbits (last_matched_keys r) = map vbits keys then Some (d, last_matched_offsets r) else None
      | None \<Rightarrow> None)"

definition auto_shape :: "(u64 \<Rightarrow> u8 list option) \<Rightarrow> er_value list \<Rightarrow> shape_registry \<Rightarrow>
    (struct_descriptor \<times> nat list) option" where
  "auto_shape rd keys r = map_option snd (find (\<lambda>e. list_all2 (mapkey_eq rd) (fst e) keys) (auto_shapes r))"

definition object_name :: "u8 list" where
  "object_name = bytes_of ''Object''"

definition find_matching_struct_cached :: "platform \<Rightarrow> er_value list \<Rightarrow> (struct_descriptor \<times> nat list) option V" where
  "find_matching_struct_cached pf keys m =
     (let rd = vm_rd m; r = vm_registry m in
      if keys = [] then VOk None m
      else case cached_match keys r of
        Some x \<Rightarrow> VOk (Some x) m
      | None \<Rightarrow>
          (case first_match rd keys (pf_ord_structs pf (reg_structs r)) of
             Some (d, offs) \<Rightarrow> VOk (Some (d, offs)) (m\<lparr>vm_registry := remember_match keys d offs r\<rparr>)
           | None \<Rightarrow>
               (case auto_shape rd keys r of
                  Some (d, offs) \<Rightarrow> VOk (Some (d, offs)) (m\<lparr>vm_registry := remember_match keys d offs r\<rparr>)
                | None \<Rightarrow>
                    (let offs = [0..<length keys];
                         (d, nid) = struct_descriptor_new (pf_ord_fields pf) object_name (index_keys rd 0 keys []) []
                           (next_descriptor_id (vm_shapes m));
                         r' = r\<lparr>auto_shapes := (keys, d, offs) # auto_shapes r\<rparr>
                     in VOk (Some (d, offs))
                          (m\<lparr>vm_registry := remember_match keys d offs r',
                             vm_shapes := (vm_shapes m)\<lparr>next_descriptor_id := nid\<rparr>\<rparr>)))))"

fun vec_set_all :: "(nat \<times> 'a) list \<Rightarrow> 'a list \<Rightarrow> 'a list option" where
  "vec_set_all [] xs = Some xs"
| "vec_set_all ((i, x) # es) xs = (case vec_set xs i x of None \<Rightarrow> None | Some xs' \<Rightarrow> vec_set_all es xs')"

definition read_pair :: "nat \<Rightarrow> nat \<Rightarrow> (er_value \<times> er_value) V" where
  "read_pair start i =
     vbind (slot (start + i * 2)) (\<lambda>k.
     vbind (slot (start + i * 2 + 1)) (\<lambda>v.
     if is_string k then vreturn (k, v) else vfail (Ve_Text ''Object key must be string'')))"

definition alloc_struct :: "platform \<Rightarrow> struct_descriptor \<Rightarrow> er_value list \<Rightarrow> er_value V" where
  "alloc_struct pf d fs =
     vbind (vm_alloc pf (D_Struct \<lparr>descriptor = d, st_fields = fs\<rparr>)) (\<lambda>p. vreturn (val_object p))"

definition execute_make_object :: "platform \<Rightarrow> nat \<Rightarrow> nat \<Rightarrow> nat \<Rightarrow> unit V" where
  "execute_make_object pf dest start n =
     (if n = 0 then
        vthen pop_map_pool_vm (vbind (vm_alloc pf (D_Object [])) (\<lambda>p. set_slot dest (val_object p)))
      else
        vbind (vmap (read_pair start) [0..<n]) (\<lambda>pairs.
        vbind (find_matching_struct_cached pf (map fst pairs)) (\<lambda>found.
        vbind (case found of
             Some x \<Rightarrow> vreturn x
           | None \<Rightarrow> (\<lambda>m.
               let (x, st) = get_or_create_anonymous_shape (vm_rd m) (pf_ord_fields pf) (map fst pairs) (vm_shapes m)
               in VOk x (m\<lparr>vm_shapes := st\<rparr>))) (\<lambda>(d, offs).
        vthen pop_vector_pool
          (vbind (vsome (vec_set_all (zip offs (map snd pairs)) (replicate n val_null))) (\<lambda>fs.
           vbind (alloc_struct pf d fs) (set_slot dest)))))))"

section \<open>Reading properties\<close>

definition has_entry :: "er_value \<Rightarrow> (er_value \<times> 'a) list \<Rightarrow> bool V" where
  "has_entry k es = vbind (lookup_entry k es) (\<lambda>r. vreturn (r \<noteq> None))"

definition string_value :: "platform \<Rightarrow> string \<Rightarrow> er_value V" where
  "string_value pf t = vbind (vm_intern pf t) (\<lambda>p. vreturn (val_string p))"

text \<open>Responses of the HTTP client and files have the methods \<^verbatim>\<open>json\<close>, \<^verbatim>\<open>text\<close> and \<^verbatim>\<open>exists\<close>.\<close>

definition is_response :: "platform \<Rightarrow> gc_data \<Rightarrow> bool V" where
  "is_response pf d =
     vbind (string_value pf ''_body'') (\<lambda>body.
     (case d of
        D_Object es \<Rightarrow>
          vbind (string_value pf ''req'') (\<lambda>rq.
          vbind (has_entry rq es) (\<lambda>a. vbind (has_entry body es) (\<lambda>b. vreturn (\<not> a \<and> b))))
      | D_Struct s \<Rightarrow>
          vbind (vget (\<lambda>m. get_field_by_name (vm_rd m) (pf_ord_fields pf) s (bytes_of ''_body''))) (\<lambda>r.
          vbind (vsome r) (\<lambda>f. vreturn (f \<noteq> None)))
      | _ \<Rightarrow> vreturn False))"

definition is_file_object :: "platform \<Rightarrow> gc_data \<Rightarrow> bool V" where
  "is_file_object pf d =
     (case d of
        D_Object es \<Rightarrow>
          vbind (string_value pf ''_isFile'') (\<lambda>k.
          vbind (lookup_entry k es) (\<lambda>r.
          vreturn (case r of Some v \<Rightarrow> as_boolean v | None \<Rightarrow> False)))
      | D_Struct s \<Rightarrow> vreturn (sd_name (descriptor s) = bytes_of ''File'')
      | _ \<Rightarrow> vreturn False)"

definition file_method :: "u64 \<Rightarrow> u8 list \<Rightarrow> er_value" where
  "file_method p name =
     Value (TAG_METHOD_FILE OR (p AND PTR_MASK AND NOT 3) OR
       (if name = bytes_of ''exists'' then 0 else if name = bytes_of ''text'' then 1 else 2))"

definition builtin_or_null :: "platform \<Rightarrow> (string \<times> builtin_method_id) list \<Rightarrow> er_value \<Rightarrow> u8 list \<Rightarrow> er_value V" where
  "builtin_or_null pf table obj name =
     (case method_named table name of
        Some i \<Rightarrow>
          vbind (vm_alloc pf (D_BuiltinMethod \<lparr>bi_receiver = obj, bi_method = i\<rparr>)) (\<lambda>p. vreturn (val_function p))
      | None \<Rightarrow> vreturn val_null)"

definition struct_property :: "platform \<Rightarrow> er_value \<Rightarrow> gc_struct \<Rightarrow> er_value \<Rightarrow> u8 list \<Rightarrow> er_value V" where
  "struct_property pf obj s name_val name =
     vbind (vget (\<lambda>m. get_field (vm_rd m) s name_val)) (\<lambda>r.
     vbind (vsome r) (\<lambda>f.
     (case f of
        Some v \<Rightarrow> vreturn v
      | None \<Rightarrow>
          vbind (lookup_entry name_val (sd_methods (descriptor s))) (\<lambda>meth.
          (case meth of
             Some mv \<Rightarrow>
               vbind (vm_alloc pf (D_BoundMethod \<lparr>bm_receiver = obj, bm_function = as_gc_ptr mv\<rparr>)) (\<lambda>p.
               vreturn (val_function p))
           | None \<Rightarrow> builtin_or_null pf object_methods obj name)))))"

definition object_property :: "platform \<Rightarrow> er_value \<Rightarrow> er_value \<Rightarrow> u8 list \<Rightarrow> er_value V" where
  "object_property pf obj name_val name =
     vbind (data_at (as_gc_ptr obj)) (\<lambda>d.
     vbind (if name \<in> {bytes_of ''json'', bytes_of ''text''} then is_response pf d else vreturn False) (\<lambda>resp.
     vbind (if name \<in> {bytes_of ''exists'', bytes_of ''text'', bytes_of ''json''}
            then is_file_object pf d else vreturn False) (\<lambda>file.
     if resp then
       vreturn (Value ((if name = bytes_of ''json'' then TAG_METHOD_JSON else TAG_METHOD_TEXT) OR
         (as_gc_ptr obj AND PTR_MASK)))
     else if file then vreturn (file_method (as_gc_ptr obj) name)
     else (case d of
         D_Object es \<Rightarrow>
           vbind (lookup_entry name_val es) (\<lambda>r.
           (case r of Some v \<Rightarrow> vreturn v | None \<Rightarrow> builtin_or_null pf object_methods obj name))
       | D_Struct s \<Rightarrow> struct_property pf obj s name_val name
       | _ \<Rightarrow> vreturn val_null))))"

definition element :: "er_value list \<Rightarrow> nat \<Rightarrow> er_value" where
  "element arr i = (case vec_index arr i of Some v \<Rightarrow> v | None \<Rightarrow> val_null)"

definition array_property :: "platform \<Rightarrow> er_value \<Rightarrow> u8 list \<Rightarrow> er_value V" where
  "array_property pf obj name =
     vbind (data_at (as_gc_ptr obj)) (\<lambda>d.
     (case d of
        D_Array arr \<Rightarrow>
          if name = bytes_of ''push'' then vreturn (array_method_push (as_gc_ptr obj))
          else if name = bytes_of ''pop'' then vreturn (array_method_pop (as_gc_ptr obj))
          else if name = bytes_of ''length'' then vreturn (val_number (f64_of_nat (length arr)))
          else if method_named array_methods name \<noteq> None then builtin_or_null pf array_methods obj name
          else (case parse_usize name of Some i \<Rightarrow> vreturn (element arr i) | None \<Rightarrow> vreturn val_null)
      | _ \<Rightarrow> vreturn val_null))"

definition execute_get_property :: "platform \<Rightarrow> nat \<Rightarrow> er_value \<Rightarrow> er_value \<Rightarrow> unit V" where
  "execute_get_property pf dest obj name_val =
     vbind (text_of name_val) (\<lambda>name.
     if is_object obj then vbind (object_property pf obj name_val name) (set_slot dest)
     else if is_array obj then vbind (array_property pf obj name) (set_slot dest)
     else if is_string obj then
       (if name = bytes_of ''length''
        then vbind (text_of obj) (\<lambda>t. set_slot dest (val_number (f64_of_nat (char_count t))))
        else vbind (builtin_or_null pf string_methods obj name) (set_slot dest))
     else vfail (Ve_Text ''Only objects, arrays, and strings have properties''))"

section \<open>Writing properties\<close>

text \<open>A struct without the field gets it when its shape is anonymous, and refuses it otherwise.\<close>

definition struct_store :: "platform \<Rightarrow> u64 \<Rightarrow> gc_struct \<Rightarrow> er_value \<Rightarrow> er_value \<Rightarrow> unit V" where
  "struct_store pf p s name_val v =
     vbind (vget (\<lambda>m. set_field (vm_rd m) s name_val v)) (\<lambda>r.
     vbind (vsome r) (\<lambda>(found, s').
     if found then vthen (set_data p (D_Struct s')) (vm_barrier p v)
     else if sd_name (descriptor s) = anonymous_name then
       vthen (\<lambda>m. let (d, st) = transition_shape_add_property (vm_rd m) (pf_ord_fields pf) (descriptor s)
                            name_val (vm_shapes m)
                  in set_data p (D_Struct (s\<lparr>descriptor := d, st_fields := st_fields s @ [v]\<rparr>)) (m\<lparr>vm_shapes := st\<rparr>))
         (vm_barrier p v)
     else vbind (text_of name_val) (\<lambda>n. vfail (Ve_No_field n))))"

definition object_store :: "platform \<Rightarrow> u64 \<Rightarrow> er_value \<Rightarrow> er_value \<Rightarrow> unit V" where
  "object_store pf p name_val v =
     vbind (data_at p) (\<lambda>d.
     (case d of
        D_Object es \<Rightarrow>
          vbind (vget (\<lambda>m. km_insert (vm_rd m) name_val v es)) (\<lambda>es'.
          vthen (set_data p (D_Object es')) (vm_barrier p v))
      | D_Struct s \<Rightarrow> struct_store pf p s name_val v
      | _ \<Rightarrow> vreturn ()))"

definition array_store :: "u64 \<Rightarrow> nat \<Rightarrow> er_value \<Rightarrow> unit V" where
  "array_store p i v =
     vbind (data_at p) (\<lambda>d.
     (case d of
        D_Array arr \<Rightarrow>
          if i < length arr then vthen (set_data p (D_Array (arr[i := v]))) (vm_barrier p v)
          else if i = length arr then vthen (set_data p (D_Array (arr @ [v]))) (vm_barrier p v)
          else vfail (Ve_Index i (length arr))
      | _ \<Rightarrow> vreturn ()))"

definition array_store_named :: "u64 \<Rightarrow> u8 list \<Rightarrow> er_value \<Rightarrow> unit V" where
  "array_store_named p name v =
     (case parse_usize name of
        Some i \<Rightarrow> array_store p i v
      | None \<Rightarrow> vfail (Ve_Text ''Cannot set non-numeric property on array''))"

definition execute_set_property :: "platform \<Rightarrow> er_value \<Rightarrow> er_value \<Rightarrow> er_value \<Rightarrow> unit V" where
  "execute_set_property pf obj v name_val =
     (if is_object obj then object_store pf (as_gc_ptr obj) name_val v
      else if is_array obj then
        vbind (text_of name_val) (\<lambda>name.
        vbind (data_at (as_gc_ptr obj)) (\<lambda>d.
        (case d of D_Array _ \<Rightarrow> array_store_named (as_gc_ptr obj) name v | _ \<Rightarrow> vreturn ())))
      else vfail (Ve_Text ''Only objects and arrays have properties''))"

section \<open>Indexing\<close>

definition bad_index :: "'a V" where
  "bad_index = vfail (Ve_Text ''Only arrays can be indexed by numbers, and objects by strings'')"

definition usize_of :: "er_value \<Rightarrow> nat" where
  "usize_of v = unat (f64_to_u64 (as_number v))"

definition execute_get_index :: "platform \<Rightarrow> nat \<Rightarrow> er_value \<Rightarrow> er_value \<Rightarrow> unit V" where
  "execute_get_index pf dest obj ix =
     (if is_array obj then
        (if is_number ix then
           vbind (data_at (as_gc_ptr obj)) (\<lambda>d.
           set_slot dest (case d of D_Array arr \<Rightarrow> element arr (usize_of ix) | _ \<Rightarrow> val_null))
         else if is_string ix then
           vbind (text_of ix) (\<lambda>t.
           (case parse_usize t of
              Some i \<Rightarrow>
                vbind (data_at (as_gc_ptr obj)) (\<lambda>d.
                set_slot dest (case d of D_Array arr \<Rightarrow> element arr i | _ \<Rightarrow> val_null))
            | None \<Rightarrow> set_slot dest val_null))
         else bad_index)
      else if is_object obj then
        (if is_string ix then
           vbind (data_at (as_gc_ptr obj)) (\<lambda>d.
           vbind (case d of
                D_Object es \<Rightarrow> lookup_entry ix es
              | D_Struct s \<Rightarrow> vbind (vget (\<lambda>m. get_field (vm_rd m) s ix)) vsome
              | _ \<Rightarrow> vreturn None) (\<lambda>r.
           set_slot dest (case r of Some v \<Rightarrow> v | None \<Rightarrow> val_null)))
         else bad_index)
      else bad_index)"

definition execute_set_index :: "platform \<Rightarrow> er_value \<Rightarrow> er_value \<Rightarrow> er_value \<Rightarrow> unit V" where
  "execute_set_index pf obj ix v =
     (if is_array obj then
        (if is_number ix then array_store (as_gc_ptr obj) (usize_of ix) v
         else if is_string ix then vbind (text_of ix) (\<lambda>t. array_store_named (as_gc_ptr obj) t v)
         else bad_index)
      else if is_object obj then
        (if is_string ix then object_store pf (as_gc_ptr obj) ix v else bad_index)
      else bad_index)"

end
