(* ===== verification/Vm_Call.thy ===== *)
theory Vm_Call
  imports Vm_Object
begin

text \<open>
  Calls, closures, upvalues, struct declarations and \<^verbatim>\<open>await\<close> in the machine:
  \<^verbatim>\<open>execute/loop_ops_call.rs\<close>, \<^verbatim>\<open>upvalues.rs\<close>, and \<^verbatim>\<open>construct_struct_from_args\<close> of
  \<^verbatim>\<open>eronom-core/src/alloc.rs\<close>. The machine runs without the JIT (\<^verbatim>\<open>ER_NO_JIT\<close>). What a built-in method
  does is the argument \<open>bm\<close>.
\<close>

section \<open>Upvalues (upvalues.rs)\<close>

fun find_open :: "nat \<Rightarrow> u64 list \<Rightarrow> u64 option V" where
  "find_open at [] = vreturn None"
| "find_open at (p # ps) =
     vbind (data_at p) (\<lambda>d. if d = D_Upvalue (Open at) then vreturn (Some p) else find_open at ps)"

definition capture_upvalue :: "platform \<Rightarrow> nat \<Rightarrow> u64 V" where
  "capture_upvalue pf at =
     vbind (vget vm_open_upvalues) (\<lambda>ps.
     vbind (find_open at ps) (\<lambda>r.
     (case r of
        Some p \<Rightarrow> vreturn p
      | None \<Rightarrow>
          vbind (vm_alloc pf (D_Upvalue (Open at))) (\<lambda>p.
          vthen (vmodify (\<lambda>m. m\<lparr>vm_open_upvalues := vm_open_upvalues m @ [p]\<rparr>)) (vreturn p)))))"

definition stack_or_null :: "nat \<Rightarrow> er_value V" where
  "stack_or_null i = vget (\<lambda>m. case vec_index (vm_stack m) i of Some v \<Rightarrow> v | None \<Rightarrow> val_null)"

text \<open>The loop looks at each open upvalue once: it goes on to the next one, or removes this one and moves
  the last one to its place.\<close>

fun close_loop :: "nat \<Rightarrow> nat \<Rightarrow> nat \<Rightarrow> unit V" where
  "close_loop from_slot i 0 = vreturn ()"
| "close_loop from_slot i (Suc n) =
     vbind (vget (\<lambda>m. vm_open_upvalues m ! i)) (\<lambda>p.
     vbind (data_at p) (\<lambda>d.
     (case d of
        D_Upvalue (Open s) \<Rightarrow>
          if from_slot \<le> s then
            vbind (stack_or_null s) (\<lambda>v.
            vthen (set_data p (D_Upvalue (Closed v)))
              (vthen (vmodify (\<lambda>m. m\<lparr>vm_open_upvalues := swap_remove i (vm_open_upvalues m)\<rparr>))
                (close_loop from_slot i n)))
          else close_loop from_slot (Suc i) n
      | _ \<Rightarrow> close_loop from_slot (Suc i) n)))"

definition close_upvalues :: "nat \<Rightarrow> unit V" where
  "close_upvalues from_slot = vbind (vget (\<lambda>m. length (vm_open_upvalues m))) (close_loop from_slot 0)"

section \<open>Constructing structs (alloc.rs)\<close>

text \<open>The field values a constructor takes from an object or a struct.\<close>

fun collect_fields :: "(er_value \<Rightarrow> er_value option V) \<Rightarrow> (er_value \<times> nat) list \<Rightarrow> er_value list \<Rightarrow> er_value list V" where
  "collect_fields get [] fs = vreturn fs"
| "collect_fields get ((k, i) # es) fs =
     vbind (get k) (\<lambda>r.
     (case r of
        None \<Rightarrow> collect_fields get es fs
      | Some v \<Rightarrow> vbind (vsome (vec_set fs i v)) (collect_fields get es)))"

definition positional_fields :: "struct_descriptor \<Rightarrow> er_value list \<Rightarrow> er_value list" where
  "positional_fields d args =
     (let n = length (field_indices d) in take n args @ replicate (n - length args) val_null)"

definition construct_fields :: "platform \<Rightarrow> struct_descriptor \<Rightarrow> er_value list \<Rightarrow> er_value V" where
  "construct_fields pf d fs = vthen pop_vector_pool (alloc_struct pf d fs)"

fun construct_struct_from_args :: "platform \<Rightarrow> struct_descriptor \<Rightarrow> nat \<Rightarrow> er_value list \<Rightarrow> er_value V" where
  "construct_struct_from_args pf d 0 args = vfault"
| "construct_struct_from_args pf d (Suc n) args =
     (let blank = replicate (length (field_indices d)) val_null;
          positional = construct_fields pf d (positional_fields d args)
      in case args of
           [arg] \<Rightarrow>
             if is_object arg then
               vbind (data_at (as_gc_ptr arg)) (\<lambda>dat.
               (case dat of
                  D_Object es \<Rightarrow>
                    vbind (collect_fields (\<lambda>k. lookup_entry k es) (pf_ord_fields pf (field_indices d)) blank)
                      (construct_fields pf d)
                | D_Struct s \<Rightarrow>
                    vbind (collect_fields (\<lambda>k. vbind (vget (\<lambda>m. get_field (vm_rd m) s k)) vsome)
                      (pf_ord_fields pf (field_indices d)) blank) (construct_fields pf d)
                | _ \<Rightarrow> positional))
             else if is_array arg then
               vbind (data_at (as_gc_ptr arg)) (\<lambda>dat.
               vbind (vmap (\<lambda>item. construct_struct_from_args pf d n [item])
                   (case dat of D_Array arr \<Rightarrow> arr | _ \<Rightarrow> [])) (\<lambda>vs.
               vbind (vm_alloc pf (D_Array vs)) (\<lambda>p. vreturn (val_array p))))
             else positional
         | _ \<Rightarrow> positional)"

section \<open>Calls\<close>

datatype call_outcome = Continue_Loop | Return_Result er_value | Enter_Frame

definition slots_from :: "nat \<Rightarrow> nat \<Rightarrow> er_value list V" where
  "slots_from start n = vmap (\<lambda>i. slot (start + i)) [0..<n]"

text \<open>The frame remembers the index of the instruction it executes.\<close>

definition save_ip :: "nat \<Rightarrow> unit V" where
  "save_ip pc = vmodify (\<lambda>m. m\<lparr>vm_frames := (hd (vm_frames m))\<lparr>ip := pc - 1\<rparr> # tl (vm_frames m)\<rparr>)"

definition grow_stack :: "nat \<Rightarrow> unit V" where
  "grow_stack needed =
     vmodify (\<lambda>m. m\<lparr>vm_stack := vm_stack m @ replicate (needed - length (vm_stack m)) val_null\<rparr>)"

definition push_frame :: "u64 \<Rightarrow> nat \<Rightarrow> nat \<Rightarrow> unit V" where
  "push_frame f base dest =
     vmodify (\<lambda>m. m\<lparr>vm_frames :=
       \<lparr>frame_function = f, ip = 0, slots_offset = base, frame_dest_reg = dest\<rparr> # vm_frames m\<rparr>)"

text \<open>A bound method: the arguments move up by one and the receiver comes first.\<close>

definition unpack_bound :: "u64 \<Rightarrow> nat \<Rightarrow> nat \<Rightarrow> (u64 \<times> nat) V" where
  "unpack_bound fp func_reg argc =
     vbind (data_at fp) (\<lambda>d.
     (case d of
        D_BoundMethod b \<Rightarrow>
          vthen (vfor (rev [0..<argc]) (\<lambda>i. vbind (slot (func_reg + 1 + i)) (set_slot (func_reg + 2 + i))))
            (vthen (set_slot (func_reg + 1) (bm_receiver b)) (vreturn (bm_function b, argc + 1)))
      | _ \<Rightarrow> vreturn (fp, argc)))"

definition count_invocation :: "u64 \<Rightarrow> er_function \<Rightarrow> unit V" where
  "count_invocation p f = set_data p (D_Function (f\<lparr>invocation_count := invocation_count f + 1\<rparr>))"

definition call_function :: "u64 \<Rightarrow> nat \<Rightarrow> nat \<Rightarrow> nat \<Rightarrow> nat \<Rightarrow> call_outcome V" where
  "call_function fp0 dest func_reg argc0 pc =
     vbind (unpack_bound fp0 func_reg argc0) (\<lambda>(fp, argc).
     vbind (unclose fp) (\<lambda>raw.
     vbind (function_at raw) (\<lambda>f.
     if arity f < argc then vfail (Ve_Arguments (arity f) argc)
     else
       vthen (vfor [argc..<arity f] (\<lambda>i. set_slot (func_reg + 1 + i) val_null))
         (vthen (count_invocation raw f)
           (vthen (save_ip pc)
             (vbind (vget frame_base) (\<lambda>base.
              vthen (grow_stack (base + func_reg + 1 + 256))
                (vthen (push_frame fp (base + func_reg + 1) dest) (vreturn Enter_Frame)))))))))"

definition call_native :: "platform \<Rightarrow> er_value \<Rightarrow> nat \<Rightarrow> nat \<Rightarrow> nat \<Rightarrow> nat \<Rightarrow> call_outcome V" where
  "call_native pf callee dest func_reg argc pc =
     vbind (vget frame_base) (\<lambda>base.
     vbind (slots_from (func_reg + 1) argc) (\<lambda>args.
     vthen (save_ip pc)
       (vbind (pf_native pf (as_gc_ptr callee) args) (\<lambda>res.
        vbind (vget vm_stack) (\<lambda>st.
        if st = [] then vreturn (Return_Result val_null)
        else vthen (set_slot_at base dest res) (vreturn Continue_Loop))))))"

text \<open>\<^verbatim>\<open>push\<close> and \<^verbatim>\<open>pop\<close>, taken from an array as values.\<close>

fun push_all :: "u64 \<Rightarrow> er_value list \<Rightarrow> er_value list \<Rightarrow> er_value list V" where
  "push_all p [] arr = vreturn arr"
| "push_all p (v # vs) arr =
     vthen (vm_barrier p v) (vthen (set_data p (D_Array (arr @ [v]))) (push_all p vs (arr @ [v])))"

definition array_push :: "u64 \<Rightarrow> er_value list \<Rightarrow> er_value list \<Rightarrow> er_value V" where
  "array_push p arr args =
     vbind (push_all p args arr) (\<lambda>arr'. vreturn (val_number (f64_of_nat (length arr'))))"

definition array_pop :: "u64 \<Rightarrow> er_value list \<Rightarrow> er_value V" where
  "array_pop p arr =
     (if arr = [] then vreturn val_null
      else vthen (set_data p (D_Array (butlast arr))) (vreturn (last arr)))"

definition call_array_method :: "er_value \<Rightarrow> er_value list \<Rightarrow> er_value V" where
  "call_array_method callee args =
     vbind (data_at (as_gc_ptr callee)) (\<lambda>d.
     (case d of
        D_Array arr \<Rightarrow>
          if is_array_method_push callee then array_push (as_gc_ptr callee) arr args
          else array_pop (as_gc_ptr callee) arr
      | _ \<Rightarrow> vfault))"

definition call_builtin :: "(er_value \<Rightarrow> builtin_method_id \<Rightarrow> er_value list \<Rightarrow> er_value V) \<Rightarrow>
    gc_builtin_method \<Rightarrow> nat \<Rightarrow> nat \<Rightarrow> nat \<Rightarrow> nat \<Rightarrow> call_outcome V" where
  "call_builtin bm b dest func_reg argc pc =
     vbind (vget frame_base) (\<lambda>base.
     vbind (slots_from (func_reg + 1) argc) (\<lambda>args.
     vthen (save_ip pc)
       (vbind (bm (bi_receiver b) (bi_method b) args) (\<lambda>res.
        vthen (set_slot_at base dest res) (vreturn Continue_Loop)))))"

definition first_or_null :: "er_value list \<Rightarrow> er_value" where
  "first_or_null args = (case args of v # _ \<Rightarrow> v | [] \<Rightarrow> val_null)"

definition enqueue_task :: "event_task \<Rightarrow> unit V" where
  "enqueue_task t = vmodify (\<lambda>m. m\<lparr>vm_events := (vm_events m)\<lparr>el_queue := el_queue (vm_events m) @ [t]\<rparr>\<rparr>)"

definition enqueue_resolve :: "u64 \<Rightarrow> er_value \<Rightarrow> unit V" where
  "enqueue_resolve p v = enqueue_task \<lparr>et_callback = val_null, et_args = [], et_result = Ar_Promise p v\<rparr>"

definition call_constructor :: "platform \<Rightarrow> er_value \<Rightarrow> nat \<Rightarrow> nat \<Rightarrow> nat \<Rightarrow> nat \<Rightarrow> call_outcome V" where
  "call_constructor pf callee dest func_reg argc pc =
     vbind (data_at (as_gc_ptr callee)) (\<lambda>d.
     (case d of
        D_StructConstructor desc \<Rightarrow>
          vbind (vget frame_base) (\<lambda>base.
          vbind (slots_from (func_reg + 1) argc) (\<lambda>args.
          vthen (save_ip pc)
            (vbind (construct_struct_from_args pf desc (pf_depth pf) args) (\<lambda>res.
             vthen (set_slot_at base dest res) (vreturn Continue_Loop)))))
      | _ \<Rightarrow> vfail (Ve_Not_callable (vbits callee))))"

text \<open>The arguments a host method reads: \<^verbatim>\<open>sendJson\<close> the first one, when it has a response, the others none.\<close>

definition host_arg_count :: "er_value \<Rightarrow> nat \<Rightarrow> nat" where
  "host_arg_count callee argc =
     (if is_method_send_json callee \<and> as_gc_ptr callee \<noteq> 0 then min argc 1 else 0)"

definition execute_call_op ::
    "platform \<Rightarrow> (er_value \<Rightarrow> builtin_method_id \<Rightarrow> er_value list \<Rightarrow> er_value V) \<Rightarrow> instruction \<Rightarrow> nat \<Rightarrow>
       call_outcome V" where
  "execute_call_op pf bm ins pc =
     (let dest = reg (ra ins); func_reg = reg (rb ins); argc = unat (operand ins) in
      vbind (slot func_reg) (\<lambda>callee.
      if is_function callee then
        vbind (data_at (as_gc_ptr callee)) (\<lambda>d.
        (case d of
           D_BuiltinMethod b \<Rightarrow> call_builtin bm b dest func_reg argc pc
         | _ \<Rightarrow> call_function (as_gc_ptr callee) dest func_reg argc pc))
      else if is_native_function callee then call_native pf callee dest func_reg argc pc
      else if is_method_file callee \<or> is_method_json callee \<or> is_method_text callee \<or> is_method_send_json callee then
        vbind (slots_from (func_reg + 1) (host_arg_count callee argc)) (\<lambda>args.
        vbind (pf_host_method pf callee args) (\<lambda>res.
        vthen (set_slot dest (if is_method_send_json callee then val_null else res)) (vreturn Continue_Loop)))
      else if is_method_resolve callee then
        vbind (slots_from (func_reg + 1) (min argc 1)) (\<lambda>args.
        vthen (enqueue_resolve (as_gc_ptr callee) (first_or_null args))
          (vthen (set_slot dest val_null) (vreturn Continue_Loop)))
      else if is_array_method_push callee \<or> is_array_method_pop callee then
        vbind (slots_from (func_reg + 1) (if is_array_method_push callee then argc else 0)) (\<lambda>args.
        vbind (call_array_method callee args) (\<lambda>res. vthen (set_slot dest res) (vreturn Continue_Loop)))
      else if is_object callee then call_constructor pf callee dest func_reg argc pc
      else vfail (Ve_Not_callable (vbits callee))))"

section \<open>Closures and struct declarations\<close>

definition capture :: "platform \<Rightarrow> u64 \<Rightarrow> nat \<Rightarrow> upvalue_descriptor \<Rightarrow> u64 V" where
  "capture pf frame_fn base uv =
     (if is_local uv then capture_upvalue pf (base + unat (uv_index uv))
      else vbind (data_at frame_fn) (\<lambda>d.
        (case d of D_Closure c \<Rightarrow> vsome (vec_index (clo_upvalues c) (unat (uv_index uv))) | _ \<Rightarrow> vfault)))"

text \<open>A constant of the function that runs; reading beyond the table is undefined.\<close>

definition load_constant :: "chunk \<Rightarrow> nat \<Rightarrow> er_value V" where
  "load_constant ch i = vsome (vec_index (constants ch) i)"

definition execute_closure_op :: "platform \<Rightarrow> instruction \<Rightarrow> chunk \<Rightarrow> unit V" where
  "execute_closure_op pf ins ch =
     vbind (load_constant ch (unat (operand ins))) (\<lambda>raw.
     vbind (function_at (as_gc_ptr raw)) (\<lambda>proto.
     vbind (vget (\<lambda>m. (frame_function (hd (vm_frames m)), frame_base m))) (\<lambda>(frame_fn, base).
     vbind (vmap (capture pf frame_fn base) (upvalues proto)) (\<lambda>uvs.
     vbind (vm_alloc pf (D_Closure \<lparr>clo_function = as_gc_ptr raw, clo_upvalues = uvs\<rparr>)) (\<lambda>p.
     set_slot (reg (ra ins)) (val_function p))))))"

text \<open>Insertion into the table of globals, and of struct descriptors, by name.\<close>

definition put_entry :: "'k \<Rightarrow> 'a \<Rightarrow> ('k \<times> 'a) list \<Rightarrow> ('k \<times> 'a) list" where
  "put_entry k v es =
     (if map_of es k = None then es @ [(k, v)] else map (\<lambda>(k', w). if k' = k then (k', v) else (k', w)) es)"

definition set_global :: "u8 list \<Rightarrow> er_value \<Rightarrow> unit V" where
  "set_global k v = vmodify (\<lambda>m. m\<lparr>vm_globals := put_entry k v (vm_globals m)\<rparr>)"

definition method_table :: "er_value \<Rightarrow> (er_value \<times> er_value) list V" where
  "method_table v =
     (if is_object v then
        vbind (data_at (as_gc_ptr v)) (\<lambda>d. vreturn (case d of D_Object es \<Rightarrow> es | _ \<Rightarrow> []))
      else vreturn [])"

definition execute_define_struct_op :: "platform \<Rightarrow> instruction \<Rightarrow> chunk \<Rightarrow> unit V" where
  "execute_define_struct_op pf ins ch =
     vbind (load_constant ch (unat (operand ins))) (\<lambda>name_val.
     vbind (load_constant ch (reg (ra ins))) (\<lambda>fields_val.
     vbind (text_of name_val) (\<lambda>name.
     vbind (data_at (as_gc_ptr fields_val)) (\<lambda>d.
     (case d of
        D_Array names \<Rightarrow>
          vbind (load_constant ch (reg (rb ins))) (\<lambda>methods_val.
          vbind (method_table methods_val) (\<lambda>methods.
          vbind (\<lambda>m. let (desc, nid) = struct_descriptor_new (pf_ord_fields pf) name
                       (index_keys (vm_rd m) 0 names []) methods (next_descriptor_id (vm_shapes m))
                     in VOk desc (m\<lparr>vm_shapes := (vm_shapes m)\<lparr>next_descriptor_id := nid\<rparr>,
                          vm_registry := (vm_registry m)\<lparr>reg_structs := put_entry name desc (reg_structs (vm_registry m))\<rparr>\<rparr>))
            (\<lambda>desc.
          vbind (vm_alloc pf (D_StructConstructor desc)) (\<lambda>p. set_global name (val_object p)))))
      | _ \<Rightarrow> vfault)))))"

section \<open>Await\<close>

definition suspend_current :: "u64 \<Rightarrow> nat \<Rightarrow> fiber_scheduler \<Rightarrow> fiber_scheduler" where
  "suspend_current p dest s =
     (let cid = current_fiber_id s in
      s\<lparr>fibers := map (\<lambda>(i, f). if i = cid then (i, f\<lparr>fb_status := F_Suspended, fb_waiting_on := Some p,
            fb_dest_reg := dest\<rparr>) else (i, f)) (fibers s),
        waiting_fibers :=
          (if map_of (waiting_fibers s) p = None then waiting_fibers s @ [(p, [cid])]
           else map (\<lambda>(q, ids). if q = p then (q, ids @ [cid]) else (q, ids)) (waiting_fibers s))\<rparr>)"

text \<open>The fiber that waits takes the stack, the frames and the open upvalues with it.\<close>

definition park_fiber :: "vm \<Rightarrow> vm" where
  "park_fiber m =
     m\<lparr>vm_scheduler := (vm_scheduler m)\<lparr>fibers := map (\<lambda>(i, f).
          if i = current_fiber_id (vm_scheduler m)
          then (i, f\<lparr>fb_stack := vm_stack m, fb_frames := vm_frames m, fb_open_upvalues := vm_open_upvalues m\<rparr>)
          else (i, f)) (fibers (vm_scheduler m))\<rparr>,
       vm_stack := [], vm_frames := [],
       vm_open_upvalues :=
         (if map_of (fibers (vm_scheduler m)) (current_fiber_id (vm_scheduler m)) = None
          then vm_open_upvalues m else [])\<rparr>"

definition suspend_on :: "u64 \<Rightarrow> gc_promise \<Rightarrow> nat \<Rightarrow> nat \<Rightarrow> unit V" where
  "suspend_on p prom dest pc =
     vthen (save_ip pc)
       (vthen (close_upvalues 0)
         (vbind (vget (\<lambda>m. (vm_stack m, vm_frames m))) (\<lambda>(st, frs).
          vthen (vmodify (\<lambda>m. m\<lparr>vm_scheduler := suspend_current p dest (vm_scheduler m)\<rparr>))
            (vthen (vmodify park_fiber)
              (set_data p (D_Promise (prom\<lparr>suspended_stack := st, suspended_frames := frs\<rparr>)))))))"

text \<open>\<open>Some v\<close>: the loop ends with \<open>v\<close>, the fiber being suspended.\<close>

definition execute_await_op :: "instruction \<Rightarrow> nat \<Rightarrow> er_value option V" where
  "execute_await_op ins pc =
     vbind (slot (reg (rb ins))) (\<lambda>v.
     if is_promise v then
       vbind (data_at (as_gc_ptr v)) (\<lambda>d.
       (case d of
          D_Promise prom \<Rightarrow>
            (case pr_state prom of
               Fulfilled x \<Rightarrow> vthen (set_slot (reg (ra ins)) x) (vreturn None)
             | Rejected e \<Rightarrow> vfail (Ve_Rejected e)
             | Pending \<Rightarrow>
                 vthen (suspend_on (as_gc_ptr v) prom (reg (ra ins)) pc) (vreturn (Some val_null)))
        | _ \<Rightarrow> vfault))
     else vthen (set_slot (reg (ra ins)) v) (vreturn None))"

end
