(* ===== verification/Vm_Strings.thy ===== *)
theory Vm_Strings
  imports Vm_Call
begin

text \<open>
  The built-in methods of strings, \<^verbatim>\<open>execute/builtins/string_methods.rs\<close>, and the parts of Rust's \<^verbatim>\<open>str\<close>
  they use, on UTF-8 bytes. A position that a method takes from the script is a byte position for some
  methods and a character position for others; cutting inside a character is a panic. The Unicode tables
  of letter case are parameters.
\<close>

section \<open>Arguments and results\<close>

definition arg :: "er_value list \<Rightarrow> nat \<Rightarrow> er_value" where
  "arg args i = element args i"

definition new_array :: "platform \<Rightarrow> er_value list \<Rightarrow> er_value V" where
  "new_array pf vs = vbind (vm_alloc_array pf vs) (\<lambda>p. vreturn (val_array p))"

definition number_value :: "nat \<Rightarrow> er_value" where
  "number_value n = val_number (f64_of_nat n)"

definition minus_one :: er_value where
  "minus_one = val_number (f64_of_int (-1))"

text \<open>\<^verbatim>\<open>as_number() as isize\<close>\<close>

definition isize_of :: "er_value \<Rightarrow> int" where
  "isize_of v = sint (f64_to_i64 (as_number v))"

definition arg_int :: "er_value list \<Rightarrow> nat \<Rightarrow> int \<Rightarrow> int \<Rightarrow> int" where
  "arg_int args i other absent =
     (case vec_index args i of
        Some v \<Rightarrow> if is_number v then isize_of v else other
      | None \<Rightarrow> absent)"

text \<open>A start or end given from the front, or from the back when negative, kept inside the array.\<close>

definition clamp_index :: "nat \<Rightarrow> int \<Rightarrow> nat" where
  "clamp_index len i = (if i < 0 then nat (max 0 (int len + i)) else min (nat i) len)"

definition range_of :: "er_value list \<Rightarrow> nat \<Rightarrow> nat \<Rightarrow> nat \<times> nat" where
  "range_of args i len =
     (clamp_index len (arg_int args i 0 0), clamp_index len (arg_int args (i + 1) (int len) (int len)))"

definition display_value :: "platform \<Rightarrow> er_value \<Rightarrow> u8 list V" where
  "display_value pf v = vbind (vget (\<lambda>m. value_display pf (vm_heap m) (pf_depth pf) v)) vsome"

definition item_text :: "platform \<Rightarrow> er_value \<Rightarrow> u8 list V" where
  "item_text pf v =
     vbind (vget (\<lambda>m. as_str (vm_rd m) v)) (\<lambda>r. (case r of Some t \<Rightarrow> vreturn t | None \<Rightarrow> display_value pf v))"

definition index_value :: "nat option \<Rightarrow> er_value" where
  "index_value r = (case r of Some i \<Rightarrow> number_value i | None \<Rightarrow> minus_one)"

section \<open>Characters of a string\<close>

fun utf8_chars :: "u8 list \<Rightarrow> u8 list list" where
  "utf8_chars [] = []"
| "utf8_chars (b # bs) =
     (case utf8_chars bs of
        c # cs \<Rightarrow> (case c of d # ds \<Rightarrow> if cont_byte d then (b # c) # cs else [b] # c # cs | [] \<Rightarrow> [b] # cs)
      | [] \<Rightarrow> [[b]])"

definition char_code :: "u8 list \<Rightarrow> nat" where
  "char_code c =
     (case map unat c of
        [a] \<Rightarrow> a
      | [a, b] \<Rightarrow> a mod 32 * 64 + b mod 64
      | [a, b, d] \<Rightarrow> (a mod 16 * 64 + b mod 64) * 64 + d mod 64
      | [a, b, d, e] \<Rightarrow> ((a mod 8 * 64 + b mod 64) * 64 + d mod 64) * 64 + e mod 64
      | _ \<Rightarrow> 0)"

text \<open>\<^verbatim>\<open>char::is_whitespace\<close>\<close>

definition is_white :: "u8 list \<Rightarrow> bool" where
  "is_white c \<longleftrightarrow>
     (let n = char_code c in
      9 \<le> n \<and> n \<le> 13 \<or> 8192 \<le> n \<and> n \<le> 8202 \<or>
      n \<in> {32, 133, 160, 5760, 8232, 8233, 8239, 8287, 12288})"

definition trim_start :: "u8 list list \<Rightarrow> u8 list list" where
  "trim_start cs = dropWhile is_white cs"

definition trim_end :: "u8 list list \<Rightarrow> u8 list list" where
  "trim_end cs = rev (dropWhile is_white (rev cs))"

section \<open>Searching and cutting\<close>

text \<open>\<^verbatim>\<open>str::find\<close> and \<^verbatim>\<open>rfind\<close>: the byte position of the first and of the last occurrence.\<close>

fun find_sub :: "u8 list \<Rightarrow> u8 list \<Rightarrow> nat option" where
  "find_sub pat [] = (if pat = [] then Some 0 else None)"
| "find_sub pat (c # cs) = (if starts_with (c # cs) pat then Some 0 else map_option Suc (find_sub pat cs))"

fun rfind_sub :: "u8 list \<Rightarrow> u8 list \<Rightarrow> nat option" where
  "rfind_sub pat [] = (if pat = [] then Some 0 else None)"
| "rfind_sub pat (c # cs) =
     (case rfind_sub pat cs of
        Some i \<Rightarrow> Some (Suc i)
      | None \<Rightarrow> if starts_with (c # cs) pat then Some 0 else None)"

lemma starts_with_length: "starts_with s pat \<Longrightarrow> length pat \<le> length s"
  by (auto simp: starts_with_iff)

lemma find_sub_bound: "find_sub pat s = Some i \<Longrightarrow> i + length pat \<le> length s"
proof (induction s arbitrary: i)
  case (Cons c cs)
  then show ?case using starts_with_length [of "c # cs" pat] by (auto split: if_splits)
qed (simp split: if_splits)

lemma find_sub_shrinks:
  "pat \<noteq> [] \<Longrightarrow> find_sub pat s = Some i \<Longrightarrow> length s - (i + length pat) < length s"
  using find_sub_bound [of pat s i] by (cases pat) auto

text \<open>\<^verbatim>\<open>str::split\<close> and \<^verbatim>\<open>str::replace\<close> by a text that is not empty.\<close>

function split_sub :: "u8 list \<Rightarrow> u8 list \<Rightarrow> u8 list list" where
  "split_sub pat s =
     (if pat = [] then [s]
      else case find_sub pat s of
        None \<Rightarrow> [s]
      | Some i \<Rightarrow> take i s # split_sub pat (drop (i + length pat) s))"
  by pat_completeness auto
termination by (relation "measure (\<lambda>(pat, s). length s)") (auto intro: find_sub_shrinks)

function replace_sub :: "u8 list \<Rightarrow> u8 list \<Rightarrow> u8 list \<Rightarrow> u8 list" where
  "replace_sub pat r s =
     (if pat = [] then s
      else case find_sub pat s of
        None \<Rightarrow> s
      | Some i \<Rightarrow> take i s @ r @ replace_sub pat r (drop (i + length pat) s))"
  by pat_completeness auto
termination by (relation "measure (\<lambda>(pat, r, s). length s)") (auto intro: find_sub_shrinks)

declare split_sub.simps [simp del] replace_sub.simps [simp del]

text \<open>An empty text occurs before every character and at the end.\<close>

definition replace_all :: "u8 list \<Rightarrow> u8 list \<Rightarrow> u8 list \<Rightarrow> u8 list" where
  "replace_all pat r s =
     (if pat = [] then r @ concat (map (\<lambda>c. c @ r) (utf8_chars s)) else replace_sub pat r s)"

text \<open>\<^verbatim>\<open>replacen(pat, r, 1)\<close>\<close>

definition replace_first :: "u8 list \<Rightarrow> u8 list \<Rightarrow> u8 list \<Rightarrow> u8 list" where
  "replace_first pat r s =
     (case find_sub pat s of None \<Rightarrow> s | Some i \<Rightarrow> take i s @ r @ drop (i + length pat) s)"

text \<open>Slices by byte position; \<^verbatim>\<open>is_char_boundary\<close> decides whether they panic.\<close>

definition char_boundary :: "u8 list \<Rightarrow> nat \<Rightarrow> bool" where
  "char_boundary s i \<longleftrightarrow> i = length s \<or> i < length s \<and> (i = 0 \<or> \<not> cont_byte (s ! i))"

definition vabort :: "'a V" where
  "vabort m = VAbort"

definition slice_from :: "u8 list \<Rightarrow> nat \<Rightarrow> u8 list V" where
  "slice_from s i = (if char_boundary s i then vreturn (drop i s) else vabort)"

definition slice_to :: "u8 list \<Rightarrow> nat \<Rightarrow> u8 list V" where
  "slice_to s i = (if char_boundary s i then vreturn (take i s) else vabort)"

section \<open>Methods\<close>

definition string_result :: "platform \<Rightarrow> u8 list \<Rightarrow> er_value V" where
  "string_result pf t = vbind (vm_alloc pf (D_String t)) (\<lambda>p. vreturn (val_string p))"

definition arg_text :: "er_value list \<Rightarrow> nat \<Rightarrow> u8 list V" where
  "arg_text args i = (case vec_index args i of Some a \<Rightarrow> text_of a | None \<Rightarrow> vreturn [])"

definition arg_usize :: "er_value list \<Rightarrow> nat \<Rightarrow> nat \<Rightarrow> nat" where
  "arg_usize args i other =
     (case vec_index args i of Some v \<Rightarrow> if is_number v then usize_of v else other | None \<Rightarrow> other)"

text \<open>At least one part is kept, whatever the limit.\<close>

definition split_limit :: "er_value list \<Rightarrow> 'a list \<Rightarrow> 'a list" where
  "split_limit args ps =
     (case vec_index args 1 of
        Some v \<Rightarrow> if is_number v then take (max 1 (usize_of v)) ps else ps
      | None \<Rightarrow> ps)"

definition string_split :: "platform \<Rightarrow> er_value \<Rightarrow> er_value list \<Rightarrow> er_value V" where
  "string_split pf v args =
     (if args = [] then new_array pf [v]
      else
        vbind (text_of v) (\<lambda>s.
        vbind (arg_text args 0) (\<lambda>sep.
        vbind (vmap (string_result pf) (split_limit args (if sep = [] then utf8_chars s else split_sub sep s)))
          (new_array pf))))"

definition string_substring :: "er_value list \<Rightarrow> u8 list \<Rightarrow> u8 list" where
  "string_substring args s =
     (let cs = utf8_chars s;
          i = min (nat (max 0 (arg_int args 0 0 0))) (length cs);
          j = min (nat (max 0 (arg_int args 1 (int (length cs)) (int (length cs))))) (length cs)
      in concat (drop (min i j) (take (max i j) cs)))"

definition string_index_of :: "u8 list \<Rightarrow> u8 list \<Rightarrow> er_value list \<Rightarrow> er_value V" where
  "string_index_of s pat args =
     (let i = min (arg_usize args 1 0) (length s) in
      vbind (slice_from s i) (\<lambda>t. vreturn (index_value (map_option ((+) i) (find_sub pat t)))))"

definition string_last_index_of :: "u8 list \<Rightarrow> u8 list \<Rightarrow> er_value list \<Rightarrow> er_value V" where
  "string_last_index_of s pat args =
     (let i = min (arg_usize args 1 (length s)) (length s) in
      vbind (if i < length s then slice_to s (i + 1) else vreturn s) (\<lambda>t. vreturn (index_value (rfind_sub pat t))))"

definition string_repeat :: "platform \<Rightarrow> u8 list \<Rightarrow> nat \<Rightarrow> er_value V" where
  "string_repeat pf s n =
     (if 9223372036854775807 < length s * n then vabort else string_result pf (concat (replicate n s)))"

text \<open>The loop appends the pad until it has enough characters.\<close>

function pad_loop :: "u8 list \<Rightarrow> nat \<Rightarrow> u8 list list \<Rightarrow> u8 list list" where
  "pad_loop pad needed acc =
     (if needed \<le> length acc \<or> utf8_chars pad = [] then acc
      else pad_loop pad needed (acc @ utf8_chars pad))"
  by pat_completeness auto
termination by (relation "measure (\<lambda>(pad, needed, acc). needed - length acc)")
    (auto intro: diff_less_mono2)

declare pad_loop.simps [simp del]

definition padding :: "u8 list \<Rightarrow> nat \<Rightarrow> u8 list" where
  "padding pad needed = concat (take needed (pad_loop pad needed []))"

definition string_pad :: "platform \<Rightarrow> bool \<Rightarrow> er_value \<Rightarrow> er_value list \<Rightarrow> er_value V" where
  "string_pad pf at_start v args =
     vbind (text_of v) (\<lambda>s.
     vbind (vget (\<lambda>m. case vec_index args 1 of
          Some a \<Rightarrow> (case as_str (vm_rd m) a of Some t \<Rightarrow> t | None \<Rightarrow> [32]) | None \<Rightarrow> [32])) (\<lambda>pad.
     let target = arg_usize args 0 0; n = char_count s in
     if target \<le> n \<or> pad = [] then vreturn v
     else string_result pf (if at_start then padding pad (target - n) @ s else s @ padding pad (target - n))))"

definition execute_string_method :: "platform \<Rightarrow> er_value \<Rightarrow> builtin_method_id \<Rightarrow> er_value list \<Rightarrow> er_value V" where
  "execute_string_method pf v meth args =
     vbind (text_of v) (\<lambda>s.
     let cs = utf8_chars s in
     (case meth of
        StringToUpperCase \<Rightarrow> string_result pf (pf_upper pf s)
      | StringToLowerCase \<Rightarrow> string_result pf (pf_lower pf s)
      | StringTrim \<Rightarrow> string_result pf (concat (trim_end (trim_start cs)))
      | StringTrimStart \<Rightarrow> string_result pf (concat (trim_start cs))
      | StringTrimEnd \<Rightarrow> string_result pf (concat (trim_end cs))
      | StringSplit \<Rightarrow> string_split pf v args
      | StringSlice \<Rightarrow>
          let (i, j) = range_of args 0 (length cs) in string_result pf (concat (drop i (take j cs)))
      | StringSubstring \<Rightarrow> string_result pf (string_substring args s)
      | StringIndexOf \<Rightarrow> vbind (arg_text args 0) (\<lambda>pat. string_index_of s pat args)
      | StringLastIndexOf \<Rightarrow> vbind (arg_text args 0) (\<lambda>pat. string_last_index_of s pat args)
      | StringIncludes \<Rightarrow>
          vbind (arg_text args 0) (\<lambda>pat.
          vbind (slice_from s (min (arg_usize args 1 0) (length s))) (\<lambda>t. vreturn (val_boolean (find_sub pat t \<noteq> None))))
      | StringStartsWith \<Rightarrow>
          vbind (arg_text args 0) (\<lambda>pat.
          vbind (slice_from s (min (arg_usize args 1 0) (length s))) (\<lambda>t. vreturn (val_boolean (starts_with t pat))))
      | StringEndsWith \<Rightarrow>
          vbind (arg_text args 0) (\<lambda>pat.
          vbind (slice_to s (min (arg_usize args 1 (length s)) (length s))) (\<lambda>t. vreturn (val_boolean (ends_with t pat))))
      | StringReplace \<Rightarrow>
          vbind (arg_text args 0) (\<lambda>pat. vbind (arg_text args 1) (\<lambda>r. string_result pf (replace_first pat r s)))
      | StringReplaceAll \<Rightarrow>
          vbind (arg_text args 0) (\<lambda>pat. vbind (arg_text args 1) (\<lambda>r. string_result pf (replace_all pat r s)))
      | StringCharAt \<Rightarrow>
          string_result pf (case vec_index cs (arg_usize args 0 0) of Some c \<Rightarrow> c | None \<Rightarrow> [])
      | StringCharCodeAt \<Rightarrow>
          vreturn (case vec_index cs (arg_usize args 0 0) of Some c \<Rightarrow> number_value (char_code c) | None \<Rightarrow> val_null)
      | StringRepeat \<Rightarrow> string_repeat pf s (arg_usize args 0 0)
      | StringPadStart \<Rightarrow> string_pad pf True v args
      | StringPadEnd \<Rightarrow> string_pad pf False v args
      | StringConcat \<Rightarrow>
          vbind (vmap (item_text pf) args) (\<lambda>ts. string_result pf (s @ concat ts))
      | _ \<Rightarrow> vfail (Ve_Text ''Invalid string builtin method'')))"

end
