(* ===== verification/Vm_Builtins.thy ===== *)
theory Vm_Builtins
  imports Vm_Strings
begin

text \<open>
  The built-in methods of arrays and objects, \<^verbatim>\<open>execute/builtins/\<close>. A method that takes a callback gets
  what calls it as the argument \<open>call\<close>. The values a method holds during a call are registered as
  temporary roots, the last one first to go.
\<close>

section \<open>Arrays (array_methods_core.rs)\<close>

definition array_items :: "er_value \<Rightarrow> er_value list V" where
  "array_items v =
     vbind (data_at (as_gc_ptr v)) (\<lambda>d. vreturn (case d of D_Array arr \<Rightarrow> arr | _ \<Rightarrow> []))"

definition is_array_cell :: "er_value \<Rightarrow> bool V" where
  "is_array_cell v =
     vbind (data_at (as_gc_ptr v)) (\<lambda>d. vreturn (case d of D_Array _ \<Rightarrow> True | _ \<Rightarrow> False))"

definition array_shift :: "er_value \<Rightarrow> er_value V" where
  "array_shift v =
     vbind (array_items v) (\<lambda>arr.
     (case arr of
        [] \<Rightarrow> vreturn val_null
      | x # xs \<Rightarrow> vthen (set_data (as_gc_ptr v) (D_Array xs)) (vreturn x)))"

definition array_unshift :: "er_value \<Rightarrow> er_value list \<Rightarrow> er_value V" where
  "array_unshift v args =
     vbind (is_array_cell v) (\<lambda>ok.
     if \<not> ok then vreturn val_null
     else vbind (array_items v) (\<lambda>arr.
       vthen (set_data (as_gc_ptr v) (D_Array (args @ arr)))
         (vthen (vfor args (vm_barrier (as_gc_ptr v))) (vreturn (number_value (length (args @ arr)))))))"

text \<open>\<^verbatim>\<open>indexOf\<close> and \<^verbatim>\<open>includes\<close> search from an index on.\<close>

definition from_index :: "er_value list \<Rightarrow> nat" where
  "from_index args = nat (max 0 (arg_int args 1 0 0))"

definition index_from :: "(u64 \<Rightarrow> u8 list option) \<Rightarrow> er_value list \<Rightarrow> er_value \<Rightarrow> nat \<Rightarrow> nat option" where
  "index_from rd arr x i =
     (if i < length arr
      then map_option (\<lambda>k. i + k) (position (\<lambda>y. value_eq rd y x) (drop i arr)) else None)"

definition array_search :: "er_value \<Rightarrow> er_value list \<Rightarrow> nat option V" where
  "array_search v args =
     vbind (array_items v) (\<lambda>arr. vget (\<lambda>m. index_from (vm_rd m) arr (arg args 0) (from_index args)))"

definition last_index_of :: "(u64 \<Rightarrow> u8 list option) \<Rightarrow> er_value list \<Rightarrow> er_value list \<Rightarrow> nat option" where
  "last_index_of rd arr args =
     (let stop = (case vec_index args 1 of
            Some v \<Rightarrow> if is_number v then min (usize_of v) (length arr - 1) else length arr - 1
          | None \<Rightarrow> length arr - 1);
          front = take (stop + 1) arr
      in map_option (\<lambda>k. length front - 1 - k) (position (\<lambda>y. value_eq rd y (arg args 0)) (rev front)))"

definition array_slice :: "platform \<Rightarrow> er_value \<Rightarrow> er_value list \<Rightarrow> er_value V" where
  "array_slice pf v args =
     vbind (array_items v) (\<lambda>arr.
     let (i, j) = range_of args 0 (length arr) in new_array pf (drop i (take j arr)))"

definition array_join :: "platform \<Rightarrow> er_value \<Rightarrow> er_value list \<Rightarrow> er_value V" where
  "array_join pf v args =
     vbind (vget (\<lambda>m. case vec_index args 0 of Some a \<Rightarrow> as_str (vm_rd m) a | None \<Rightarrow> None)) (\<lambda>sep.
     vbind (array_items v) (\<lambda>arr.
     vbind (vmap (item_text pf) arr) (\<lambda>ts.
     vbind (vm_alloc pf (D_String (join_text (case sep of Some s \<Rightarrow> s | None \<Rightarrow> [44]) ts))) (\<lambda>p.
     vreturn (val_string p)))))"

definition spread :: "er_value \<Rightarrow> er_value list V" where
  "spread a =
     (if is_array a then
        vbind (data_at (as_gc_ptr a)) (\<lambda>d. vreturn (case d of D_Array sub \<Rightarrow> sub | _ \<Rightarrow> []))
      else vreturn [a])"

definition array_concat :: "platform \<Rightarrow> er_value \<Rightarrow> er_value list \<Rightarrow> er_value V" where
  "array_concat pf v args =
     vbind (array_items v) (\<lambda>arr. vbind (vmap spread args) (\<lambda>subs. new_array pf (arr @ concat subs)))"

text \<open>Replace the elements of an array, where the cell is one.\<close>

definition replace_items :: "er_value \<Rightarrow> er_value list \<Rightarrow> er_value V" where
  "replace_items v xs =
     vbind (is_array_cell v) (\<lambda>ok.
     vthen (if ok then set_data (as_gc_ptr v) (D_Array xs) else vreturn ()) (vreturn v))"

definition array_reverse :: "er_value \<Rightarrow> er_value V" where
  "array_reverse v = vbind (array_items v) (\<lambda>arr. replace_items v (rev arr))"

text \<open>Sorting by a callback: a bubble sort that swaps neighbours when the callback gives a positive number.\<close>

fun bubble_row :: "(er_value \<Rightarrow> er_value \<Rightarrow> er_value V) \<Rightarrow> nat \<Rightarrow> er_value list \<Rightarrow> er_value list V" where
  "bubble_row cmp n (x # y # zs) =
     (if n = 0 then vreturn (x # y # zs)
      else vbind (cmp x y) (\<lambda>r.
        if f64_lt 0 (as_number r)
        then vbind (bubble_row cmp (n - 1) (x # zs)) (\<lambda>ws. vreturn (y # ws))
        else vbind (bubble_row cmp (n - 1) (y # zs)) (\<lambda>ws. vreturn (x # ws))))"
| "bubble_row cmp n xs = vreturn xs"

fun bubble_rows :: "(er_value \<Rightarrow> er_value \<Rightarrow> er_value V) \<Rightarrow> nat \<Rightarrow> er_value list \<Rightarrow> er_value list V" where
  "bubble_rows cmp 0 xs = vreturn xs"
| "bubble_rows cmp (Suc n) xs = vbind (bubble_row cmp n xs) (bubble_rows cmp n)"

text \<open>Sorting without one: numbers by size, anything else by its text; equal elements keep their order.\<close>

definition sorts_before :: "(er_value \<times> u8 list) \<Rightarrow> (er_value \<times> u8 list) \<Rightarrow> bool" where
  "sorts_before a b \<longleftrightarrow>
     (if is_number (fst a) \<and> is_number (fst b) then f64_lt (as_number (fst a)) (as_number (fst b))
      else ord_class.lexordp (snd a) (snd b))"

fun insert_sorted :: "('a \<Rightarrow> 'a \<Rightarrow> bool) \<Rightarrow> 'a \<Rightarrow> 'a list \<Rightarrow> 'a list" where
  "insert_sorted lt x [] = [x]"
| "insert_sorted lt x (y # ys) = (if lt y x then y # insert_sorted lt x ys else x # y # ys)"

definition stable_sort :: "('a \<Rightarrow> 'a \<Rightarrow> bool) \<Rightarrow> 'a list \<Rightarrow> 'a list" where
  "stable_sort lt xs = foldr (insert_sorted lt) xs []"

definition array_sort :: "platform \<Rightarrow> (er_value \<Rightarrow> er_value list \<Rightarrow> er_value V) \<Rightarrow> er_value \<Rightarrow> er_value list \<Rightarrow> er_value V" where
  "array_sort pf call v args =
     vbind (array_items v) (\<lambda>arr.
     vbind (case vec_index args 0 of
          Some cb \<Rightarrow>
            if is_function cb \<or> is_native_function cb
            then bubble_rows (\<lambda>x y. call cb [x, y]) (length arr) arr
            else vbind (vmap (display_value pf) arr) (\<lambda>ts. vreturn (map fst (stable_sort sorts_before (zip arr ts))))
        | None \<Rightarrow>
            vbind (vmap (display_value pf) arr) (\<lambda>ts. vreturn (map fst (stable_sort sorts_before (zip arr ts)))))
       (replace_items v))"

fun flatten_value :: "nat \<Rightarrow> er_value \<Rightarrow> er_value list V" where
  "flatten_value 0 v = vreturn [v]"
| "flatten_value (Suc n) v =
     (if is_array v then
        vbind (data_at (as_gc_ptr v)) (\<lambda>d.
        (case d of
           D_Array sub \<Rightarrow> vbind (vmap (flatten_value n) sub) (\<lambda>xs. vreturn (concat xs))
         | _ \<Rightarrow> vreturn [v]))
      else vreturn [v])"

definition array_flat :: "platform \<Rightarrow> er_value \<Rightarrow> er_value list \<Rightarrow> er_value V" where
  "array_flat pf v args =
     (let depth = (case vec_index args 0 of Some a \<Rightarrow> if is_number a then usize_of a else 1 | None \<Rightarrow> 1) in
      vbind (array_items v) (\<lambda>arr.
      vbind (vmap (flatten_value depth) arr) (\<lambda>xs. new_array pf (concat xs))))"

definition fill_range :: "'a list \<Rightarrow> nat \<Rightarrow> nat \<Rightarrow> 'a \<Rightarrow> 'a list" where
  "fill_range arr i j x = take i arr @ replicate (j - i) x @ drop (max i j) arr"

definition array_fill :: "er_value \<Rightarrow> er_value list \<Rightarrow> er_value V" where
  "array_fill v args =
     vbind (array_items v) (\<lambda>arr.
     let (i, j) = range_of args 1 (length arr) in
     vthen (vfor [i..<j] (\<lambda>_. vm_barrier (as_gc_ptr v) (arg args 0)))
       (replace_items v (fill_range arr i j (arg args 0))))"

definition execute_array_core_method ::
    "platform \<Rightarrow> (er_value \<Rightarrow> er_value list \<Rightarrow> er_value V) \<Rightarrow> er_value \<Rightarrow> builtin_method_id \<Rightarrow> er_value list \<Rightarrow> er_value V" where
  "execute_array_core_method pf call v meth args =
     (case meth of
        ArrayPush \<Rightarrow>
          vbind (is_array_cell v) (\<lambda>ok.
          if ok then vbind (array_items v) (\<lambda>arr. array_push (as_gc_ptr v) arr args) else vreturn val_null)
      | ArrayPop \<Rightarrow> vbind (array_items v) (array_pop (as_gc_ptr v))
      | ArrayShift \<Rightarrow> array_shift v
      | ArrayUnshift \<Rightarrow> array_unshift v args
      | ArrayIncludes \<Rightarrow> vbind (array_search v args) (\<lambda>r. vreturn (val_boolean (r \<noteq> None)))
      | ArrayIndexOf \<Rightarrow> vbind (array_search v args) (\<lambda>r. vreturn (index_value r))
      | ArrayLastIndexOf \<Rightarrow>
          vbind (array_items v) (\<lambda>arr.
          vget (\<lambda>m. index_value (last_index_of (vm_rd m) arr args)))
      | ArraySlice \<Rightarrow> array_slice pf v args
      | ArrayJoin \<Rightarrow> array_join pf v args
      | ArrayConcat \<Rightarrow> array_concat pf v args
      | ArrayReverse \<Rightarrow> array_reverse v
      | ArraySort \<Rightarrow> array_sort pf call v args
      | ArrayFlat \<Rightarrow> array_flat pf v args
      | ArrayFill \<Rightarrow> array_fill v args
      | _ \<Rightarrow> vfail (Ve_Text ''Invalid array core method''))"

section \<open>Arrays with callbacks (array_methods_iter.rs)\<close>

definition push_slice :: "er_value list \<Rightarrow> unit V" where
  "push_slice vs = vmodify (\<lambda>m. m\<lparr>vm_temp_slices := vm_temp_slices m @ [vs]\<rparr>)"

definition pop_slice :: "unit V" where
  "pop_slice = vmodify (\<lambda>m. m\<lparr>vm_temp_slices := butlast (vm_temp_slices m)\<rparr>)"

text \<open>The callback gets the element, its index and the array.\<close>

definition call_item :: "(er_value \<Rightarrow> er_value list \<Rightarrow> er_value V) \<Rightarrow> er_value \<Rightarrow> er_value \<Rightarrow> nat \<times> er_value \<Rightarrow> er_value V" where
  "call_item call cb v it = (case it of (i, x) \<Rightarrow> call cb [x, number_value i, v])"

definition guarded :: "er_value list \<Rightarrow> er_value V \<Rightarrow> er_value V" where
  "guarded vs c = vthen (push_slice vs) (vbind c (\<lambda>r. vthen pop_slice (vreturn r)))"

fun map_items :: "(nat \<times> er_value \<Rightarrow> er_value V) \<Rightarrow> (nat \<times> er_value) list \<Rightarrow> er_value list \<Rightarrow> er_value list V" where
  "map_items f [] acc = vreturn acc"
| "map_items f (it # its) acc = vbind (guarded acc (f it)) (\<lambda>r. map_items f its (acc @ [r]))"

fun filter_items :: "(nat \<times> er_value \<Rightarrow> er_value V) \<Rightarrow> (nat \<times> er_value) list \<Rightarrow> er_value list \<Rightarrow> er_value list V" where
  "filter_items f [] acc = vreturn acc"
| "filter_items f (it # its) acc =
     vbind (guarded acc (f it)) (\<lambda>r. filter_items f its (if is_truthy r then acc @ [snd it] else acc))"

fun reduce_items :: "(er_value \<Rightarrow> nat \<times> er_value \<Rightarrow> er_value V) \<Rightarrow> (nat \<times> er_value) list \<Rightarrow> er_value \<Rightarrow> er_value V" where
  "reduce_items f [] acc = vreturn acc"
| "reduce_items f (it # its) acc = vbind (guarded [acc] (f acc it)) (reduce_items f its)"

text \<open>The first element whose result passes the test.\<close>

fun find_item :: "(er_value \<Rightarrow> bool) \<Rightarrow> (nat \<times> er_value \<Rightarrow> er_value V) \<Rightarrow> (nat \<times> er_value) list \<Rightarrow>
    (nat \<times> er_value) option V" where
  "find_item P f [] = vreturn None"
| "find_item P f (it # its) = vbind (f it) (\<lambda>r. if P r then vreturn (Some it) else find_item P f its)"

text \<open>\<^verbatim>\<open>flatMap\<close> keeps its results in a vector that a registered root function reads.\<close>

definition set_last_vector :: "er_value list \<Rightarrow> unit V" where
  "set_last_vector vs = vmodify (\<lambda>m. m\<lparr>vm_root_vectors := butlast (vm_root_vectors m) @ [vs]\<rparr>)"

fun flat_map_items :: "(nat \<times> er_value \<Rightarrow> er_value V) \<Rightarrow> (nat \<times> er_value) list \<Rightarrow> er_value list \<Rightarrow> er_value list V" where
  "flat_map_items f [] acc = vreturn acc"
| "flat_map_items f (it # its) acc =
     vbind (f it) (\<lambda>r. vthen (set_last_vector (acc @ [r])) (flat_map_items f its (acc @ [r])))"

definition splice_item :: "er_value \<Rightarrow> er_value list V" where
  "splice_item v =
     (if is_array v then
        vbind (data_at (as_gc_ptr v)) (\<lambda>d. vreturn (case d of D_Array sub \<Rightarrow> sub | _ \<Rightarrow> [v]))
      else vreturn [v])"

definition array_flat_map :: "platform \<Rightarrow> (nat \<times> er_value \<Rightarrow> er_value V) \<Rightarrow> (nat \<times> er_value) list \<Rightarrow> er_value V" where
  "array_flat_map pf f its =
     vthen (vmodify (\<lambda>m. m\<lparr>vm_root_vectors := vm_root_vectors m @ [[]]\<rparr>))
       (vbind (flat_map_items f its []) (\<lambda>rs.
        vthen (vmodify (\<lambda>m. m\<lparr>vm_root_vectors := butlast (vm_root_vectors m)\<rparr>))
          (vbind (vmap splice_item rs) (\<lambda>xs. new_array pf (concat xs)))))"

definition array_reduce :: "(er_value \<Rightarrow> er_value list \<Rightarrow> er_value V) \<Rightarrow> er_value \<Rightarrow> er_value \<Rightarrow> er_value list \<Rightarrow>
    er_value list \<Rightarrow> er_value V" where
  "array_reduce call cb v args arr =
     (let f = (\<lambda>acc (i, x). call cb [acc, x, number_value i, v]); its = List.enumerate 0 arr in
      if 2 \<le> length args then reduce_items f its (arg args 1)
      else case arr of
        [] \<Rightarrow> vfail (Ve_Text ''Reduce of empty array with no initial value'')
      | x # xs \<Rightarrow> reduce_items f (tl its) x)"

definition execute_array_iter_method ::
    "platform \<Rightarrow> (er_value \<Rightarrow> er_value list \<Rightarrow> er_value V) \<Rightarrow> er_value \<Rightarrow> builtin_method_id \<Rightarrow> er_value list \<Rightarrow> er_value V" where
  "execute_array_iter_method pf call v meth args =
     (let cb = arg args 0; f = call_item call cb v in
      if \<not> is_function cb \<and> \<not> is_native_function cb then vfail (Ve_Text ''requires a function callback'')
      else vbind (array_items v) (\<lambda>arr.
        let its = List.enumerate 0 arr in
        (case meth of
           ArrayMap \<Rightarrow> vbind (map_items f its []) (new_array pf)
         | ArrayFilter \<Rightarrow> vbind (filter_items f its []) (new_array pf)
         | ArrayReduce \<Rightarrow> array_reduce call cb v args arr
         | ArrayForEach \<Rightarrow> vbind (find_item (\<lambda>_. False) f its) (\<lambda>_. vreturn val_null)
         | ArrayFind \<Rightarrow>
             vbind (find_item is_truthy f its) (\<lambda>r. vreturn (case r of Some (i, x) \<Rightarrow> x | None \<Rightarrow> val_null))
         | ArrayFindIndex \<Rightarrow> vbind (find_item is_truthy f its) (\<lambda>r. vreturn (index_value (map_option fst r)))
         | ArraySome \<Rightarrow> vbind (find_item is_truthy f its) (\<lambda>r. vreturn (val_boolean (r \<noteq> None)))
         | ArrayEvery \<Rightarrow>
             vbind (find_item (\<lambda>r. \<not> is_truthy r) f its) (\<lambda>r. vreturn (val_boolean (r = None)))
         | ArrayFlatMap \<Rightarrow> array_flat_map pf f its
         | _ \<Rightarrow> vfail (Ve_Text ''Invalid array iter method''))))"

section \<open>Objects (object_methods.rs)\<close>

definition object_cell :: "er_value \<Rightarrow> gc_data V" where
  "object_cell v = (if is_object v then data_at (as_gc_ptr v) else vreturn D_Empty)"

definition object_keys :: "platform \<Rightarrow> gc_data \<Rightarrow> er_value list" where
  "object_keys pf d =
     (case d of
        D_Object es \<Rightarrow> map fst (pf_ord_entries pf es)
      | D_Struct s \<Rightarrow> map fst (pf_ord_fields pf (field_indices (descriptor s)))
      | _ \<Rightarrow> [])"

definition object_values :: "platform \<Rightarrow> gc_data \<Rightarrow> er_value list" where
  "object_values pf d =
     (case d of
        D_Object es \<Rightarrow> map snd (pf_ord_entries pf es)
      | D_Struct s \<Rightarrow> st_fields s
      | _ \<Rightarrow> [])"

definition object_entries :: "platform \<Rightarrow> gc_data \<Rightarrow> (er_value \<times> er_value) list" where
  "object_entries pf d =
     (case d of
        D_Object es \<Rightarrow> pf_ord_entries pf es
      | D_Struct s \<Rightarrow> map (\<lambda>(k, i). (k, element (st_fields s) i)) (pf_ord_fields pf (field_indices (descriptor s)))
      | _ \<Rightarrow> [])"

definition object_has :: "gc_data \<Rightarrow> er_value \<Rightarrow> bool V" where
  "object_has d k =
     (case d of
        D_Object es \<Rightarrow> has_entry k es
      | D_Struct s \<Rightarrow> has_entry k (field_indices (descriptor s))
      | _ \<Rightarrow> vreturn False)"

definition execute_object_method :: "platform \<Rightarrow> er_value \<Rightarrow> builtin_method_id \<Rightarrow> er_value list \<Rightarrow> er_value V" where
  "execute_object_method pf v meth args =
     (case meth of
        ObjectKeys \<Rightarrow> vbind (object_cell v) (\<lambda>d. new_array pf (object_keys pf d))
      | ObjectValues \<Rightarrow> vbind (object_cell v) (\<lambda>d. new_array pf (object_values pf d))
      | ObjectEntries \<Rightarrow>
          vbind (object_cell v) (\<lambda>d.
          vbind (vmap (\<lambda>(k, x). new_array pf [k, x]) (object_entries pf d)) (new_array pf))
      | ObjectHasOwnProperty \<Rightarrow>
          vbind (object_cell v) (\<lambda>d. vbind (object_has d (arg args 0)) (\<lambda>b. vreturn (val_boolean b)))
      | _ \<Rightarrow> vfail (Ve_Text ''Invalid object builtin method''))"

section \<open>Dispatch (mod.rs)\<close>

definition is_iter_method :: "builtin_method_id \<Rightarrow> bool" where
  "is_iter_method meth \<longleftrightarrow>
     meth \<in> {ArrayMap, ArrayFilter, ArrayReduce, ArrayForEach, ArrayFind, ArrayFindIndex, ArraySome, ArrayEvery,
       ArrayFlatMap}"

definition is_string_method :: "builtin_method_id \<Rightarrow> bool" where
  "is_string_method meth \<longleftrightarrow> meth \<in> set (map snd string_methods)"

definition is_object_method :: "builtin_method_id \<Rightarrow> bool" where
  "is_object_method meth \<longleftrightarrow> meth \<in> set (map snd object_methods)"

definition execute_builtin_method ::
    "platform \<Rightarrow> (er_value \<Rightarrow> er_value list \<Rightarrow> er_value V) \<Rightarrow> er_value \<Rightarrow> builtin_method_id \<Rightarrow> er_value list \<Rightarrow> er_value V" where
  "execute_builtin_method pf call v meth args =
     (if is_string_method meth then execute_string_method pf v meth args
      else if is_object_method meth then execute_object_method pf v meth args
      else if is_iter_method meth then execute_array_iter_method pf call v meth args
      else execute_array_core_method pf call v meth args)"

end
