(* ===== verification/Vm_Loop.thy ===== *)
theory Vm_Loop
  imports Vm_Builtins
begin

text \<open>
  The interpreter loop: \<^verbatim>\<open>execute/loop_impl.rs\<close> and the entry points of \<^verbatim>\<open>execute/mod.rs\<close>. One step
  fetches and executes one instruction of the innermost frame; the instruction pointer, a local variable of
  the loop in the source, is passed explicitly, and the frame's own \<^verbatim>\<open>ip\<close> is what a call saves. The loop
  and the calls back into it are bounded by fuel.
\<close>

section \<open>One instruction\<close>

datatype flow = Next nat | Finished er_value

definition next_if :: "unit V \<Rightarrow> nat \<Rightarrow> flow V" where
  "next_if c pc = vthen c (vreturn (Next pc))"

text \<open>\<^verbatim>\<open>ToIter\<close>: an array iterates over itself, an object over its keys, a string over its characters.\<close>

definition alloc_array :: "platform \<Rightarrow> er_value list \<Rightarrow> er_value V" where
  "alloc_array pf vs = vbind (vm_alloc pf (D_Array vs)) (\<lambda>p. vreturn (val_array p))"

definition to_iter :: "platform \<Rightarrow> er_value \<Rightarrow> er_value V" where
  "to_iter pf v =
     (if is_array v then vreturn v
      else if is_object v then
        vthen (vm_gc_trigger pf)
          (vbind (data_at (as_gc_ptr v)) (\<lambda>d. alloc_array pf (object_keys pf d)))
      else if is_string v then
        vthen (vm_gc_trigger pf)
          (vbind (data_at (as_gc_ptr v)) (\<lambda>d.
           vbind (case d of
                D_String t \<Rightarrow> vmap (\<lambda>c. vbind (vm_alloc pf (D_String c)) (\<lambda>p. vreturn (val_string p))) (utf8_chars t)
              | _ \<Rightarrow> vreturn []) (alloc_array pf)))
      else vfail (Ve_Text ''Cannot iterate over non-iterable value''))"

definition get_global :: "u8 list \<Rightarrow> er_value V" where
  "get_global name =
     vbind (vget (\<lambda>m. map_of (vm_globals m) name)) (\<lambda>r.
     (case r of Some v \<Rightarrow> vreturn v | None \<Rightarrow> vfail (Ve_Undefined name)))"

definition update_global :: "u8 list \<Rightarrow> er_value \<Rightarrow> unit V" where
  "update_global name v =
     vbind (vget (\<lambda>m. map_of (vm_globals m) name)) (\<lambda>r.
     (case r of Some _ \<Rightarrow> set_global name v | None \<Rightarrow> vfail (Ve_Undeclared name)))"

definition interrupted :: "vm \<Rightarrow> bool" where
  "interrupted m =
     (case map_of (fibers (vm_scheduler m)) (current_fiber_id (vm_scheduler m)) of
        Some f \<Rightarrow> fb_interrupted f \<and> fb_masks f = 0
      | None \<Rightarrow> False)"

definition count_loop :: "unit V" where
  "count_loop =
     vbind (vget (\<lambda>m. frame_function (hd (vm_frames m)))) (\<lambda>fp.
     vbind (unclose fp) (\<lambda>raw.
     vbind (function_at raw) (\<lambda>f. count_invocation raw f)))"

definition jump_back :: "nat \<Rightarrow> nat \<Rightarrow> flow V" where
  "jump_back pc n =
     vthen count_loop
       (vbind (vget interrupted) (\<lambda>b.
        if b then vfail (Ve_Text ''FiberInterrupted'')
        else if pc < n then vfault
        else vreturn (Next (pc - n))))"

definition upvalue_cell :: "nat \<Rightarrow> (u64 \<times> upvalue_location) V" where
  "upvalue_cell k =
     vbind (vget (\<lambda>m. frame_function (hd (vm_frames m)))) (\<lambda>fp.
     vbind (data_at fp) (\<lambda>d.
     (case d of
        D_Closure c \<Rightarrow>
          vbind (vsome (vec_index (clo_upvalues c) k)) (\<lambda>p.
          vbind (data_at p) (\<lambda>u. (case u of D_Upvalue l \<Rightarrow> vreturn (p, l) | _ \<Rightarrow> vfault)))
      | _ \<Rightarrow> vfault)))"

definition read_upvalue :: "nat \<Rightarrow> er_value V" where
  "read_upvalue k =
     vbind (upvalue_cell k) (\<lambda>(p, l).
     (case l of Open s \<Rightarrow> vbind (vget (\<lambda>m. vec_index (vm_stack m) s)) vsome | Closed v \<Rightarrow> vreturn v))"

definition write_upvalue :: "nat \<Rightarrow> er_value \<Rightarrow> unit V" where
  "write_upvalue k v =
     vbind (upvalue_cell k) (\<lambda>(p, l).
     (case l of Open s \<Rightarrow> set_slot_at 0 s v | Closed _ \<Rightarrow> set_data p (D_Upvalue (Closed v))))"

definition make_array :: "platform \<Rightarrow> nat \<Rightarrow> nat \<Rightarrow> nat \<Rightarrow> unit V" where
  "make_array pf dest start n =
     vthen (vm_gc_trigger pf)
       (vthen pop_vector_pool
         (vbind (slots_from start n) (\<lambda>vs. vbind (alloc_array pf vs) (set_slot dest))))"

text \<open>The end of a call: the result goes to the register the caller named.\<close>

definition return_value :: "nat \<Rightarrow> er_value \<Rightarrow> flow V" where
  "return_value td v =
     vbind (vget (\<lambda>m. hd (vm_frames m))) (\<lambda>fr.
     vthen (close_upvalues (slots_offset fr))
       (vthen (vmodify (\<lambda>m. m\<lparr>vm_frames := tl (vm_frames m)\<rparr>))
         (vbind (vget vm_frames) (\<lambda>frs.
          if length frs \<le> td then vreturn (Finished v)
          else vthen (set_slot (frame_dest_reg fr) v) (vreturn (Next (ip (hd frs) + 1)))))))"

text \<open>\<^verbatim>\<open>handle_exception!\<close>: the innermost frame with a handler for the instruction it is at; the frames
  above it are dropped.\<close>

fun unwind :: "nat \<Rightarrow> er_value \<Rightarrow> nat \<Rightarrow> call_frame list \<Rightarrow> nat option V" where
  "unwind td v at [] = vreturn None"
| "unwind td v at (fr # frs) =
     (if length (fr # frs) \<le> td then vreturn None
      else vbind (get_raw_func (frame_function fr)) (\<lambda>f.
        (case find_handler at (fn_chunk f) of
           Some h \<Rightarrow> vthen (set_slot (reg (err_reg h)) v) (vreturn (Some (catch_ip h)))
         | None \<Rightarrow>
             if td + 1 < length (fr # frs) then
               vthen (vmodify (\<lambda>m. m\<lparr>vm_frames := frs\<rparr>)) (unwind td v (ip (hd frs)) frs)
             else vreturn None)))"

definition throw_value :: "platform \<Rightarrow> nat \<Rightarrow> nat \<Rightarrow> er_value \<Rightarrow> flow V" where
  "throw_value pf td pc v =
     vbind (vget vm_frames) (\<lambda>frs.
     vbind (unwind td v (pc - 1) frs) (\<lambda>r.
     (case r of
        Some target \<Rightarrow> vreturn (Next target)
      | None \<Rightarrow>
          vthen (vmodify (\<lambda>m. m\<lparr>vm_thrown := v\<rparr>))
            (vbind (item_text pf v) (\<lambda>t. vfail (Ve_Uncaught t))))))"

definition after_call :: "call_outcome \<Rightarrow> nat \<Rightarrow> flow V" where
  "after_call r pc =
     (case r of
        Continue_Loop \<Rightarrow> vreturn (Next pc)
      | Return_Result v \<Rightarrow> vreturn (Finished v)
      | Enter_Frame \<Rightarrow> vget (\<lambda>m. Next (ip (hd (vm_frames m)))))"

text \<open>The instructions that \<^verbatim>\<open>execute_math_and_cmp_op\<close> leaves; \<open>pc\<close> already points behind the
  instruction.\<close>

definition execute_op ::
    "platform \<Rightarrow> (er_value \<Rightarrow> builtin_method_id \<Rightarrow> er_value list \<Rightarrow> er_value V) \<Rightarrow> nat \<Rightarrow> chunk \<Rightarrow>
       instruction \<Rightarrow> nat \<Rightarrow> flow V" where
  "execute_op pf bm td ch ins pc =
     (let dest = reg (ra ins); b = reg (rb ins); c = reg (rc ins); n = unat (operand ins) in
      case op ins of
        LoadConst \<Rightarrow> next_if (vbind (load_constant ch n) (set_slot dest)) pc
      | LoadNull \<Rightarrow> next_if (set_slot dest val_null) pc
      | LoadBool \<Rightarrow> next_if (set_slot dest (val_boolean (rb ins \<noteq> 0))) pc
      | Move \<Rightarrow> next_if (vbind (slot b) (set_slot dest)) pc
      | ToIter \<Rightarrow> next_if (vbind (slot b) (\<lambda>v. vbind (to_iter pf v) (set_slot dest))) pc
      | DefineGlobal \<Rightarrow>
          next_if (vbind (load_constant ch n) (\<lambda>k. vbind (text_of k) (\<lambda>name. vbind (slot dest) (set_global name)))) pc
      | GetGlobal \<Rightarrow>
          next_if (vbind (load_constant ch n) (\<lambda>k. vbind (text_of k) (\<lambda>name. vbind (get_global name) (set_slot dest)))) pc
      | SetGlobal \<Rightarrow>
          next_if (vbind (load_constant ch n) (\<lambda>k. vbind (text_of k) (\<lambda>name. vbind (slot dest) (update_global name)))) pc
      | Jump \<Rightarrow> vreturn (Next (pc + n))
      | JumpIfFalse \<Rightarrow> vbind (slot dest) (\<lambda>v. vreturn (Next (if is_truthy v then pc else pc + n)))
      | Loop \<Rightarrow> jump_back pc n
      | MakeArray \<Rightarrow> next_if (make_array pf dest b n) pc
      | MakeObject \<Rightarrow> next_if (vthen (vm_gc_trigger pf) (execute_make_object pf dest b n)) pc
      | GetProperty \<Rightarrow>
          next_if (vbind (load_constant ch n) (\<lambda>k. vbind (slot b) (\<lambda>obj. execute_get_property pf dest obj k))) pc
      | SetProperty \<Rightarrow>
          next_if (vbind (load_constant ch n) (\<lambda>k. vbind (slot dest) (\<lambda>obj. vbind (slot b) (\<lambda>v.
            execute_set_property pf obj v k)))) pc
      | GetIndex \<Rightarrow> next_if (vbind (slot b) (\<lambda>obj. vbind (slot c) (\<lambda>ix. execute_get_index pf dest obj ix))) pc
      | SetIndex \<Rightarrow>
          next_if (vbind (slot dest) (\<lambda>obj. vbind (slot b) (\<lambda>ix. vbind (slot c) (\<lambda>v. execute_set_index pf obj ix v)))) pc
      | Call \<Rightarrow> vbind (execute_call_op pf bm ins pc) (\<lambda>r. after_call r pc)
      | Await \<Rightarrow>
          vbind (execute_await_op ins pc) (\<lambda>r. (case r of Some v \<Rightarrow> vreturn (Finished v) | None \<Rightarrow> vreturn (Next pc)))
      | DefineStruct \<Rightarrow> next_if (execute_define_struct_op pf ins ch) pc
      | GetUpvalue \<Rightarrow> next_if (vbind (read_upvalue n) (set_slot dest)) pc
      | SetUpvalue \<Rightarrow> next_if (vbind (slot dest) (write_upvalue n)) pc
      | ClosureOp \<Rightarrow> next_if (execute_closure_op pf ins ch) pc
      | CloseUpvalue \<Rightarrow> next_if (vbind (vget frame_base) (\<lambda>base. close_upvalues (base + n))) pc
      | Return \<Rightarrow> vbind (slot dest) (return_value td)
      | Throw \<Rightarrow> vbind (slot dest) (throw_value pf td pc)
      | _ \<Rightarrow> vreturn (Next pc))"

text \<open>Running past the end of the code is undefined.\<close>

definition vm_step ::
    "platform \<Rightarrow> (er_value \<Rightarrow> builtin_method_id \<Rightarrow> er_value list \<Rightarrow> er_value V) \<Rightarrow> nat \<Rightarrow> nat \<Rightarrow> flow V" where
  "vm_step pf bm td pc =
     vbind (vget (\<lambda>m. frame_function (hd (vm_frames m)))) (\<lambda>fp.
     vbind (get_raw_func fp) (\<lambda>f.
     vbind (vsome (vec_index (code (fn_chunk f)) pc)) (\<lambda>ins.
     vbind (execute_math_and_cmp_op pf ins) (\<lambda>handled.
     if handled then vreturn (Next (pc + 1))
     else execute_op pf bm td (fn_chunk f) ins (pc + 1)))))"

section \<open>Calling back into the machine (mod.rs)\<close>

definition resize_args :: "nat \<Rightarrow> er_value list \<Rightarrow> er_value list" where
  "resize_args n args = take n args @ replicate (n - length args) val_null"

definition enter_reentrant :: "(nat \<Rightarrow> nat \<Rightarrow> er_value V) \<Rightarrow> u64 \<Rightarrow> er_value list \<Rightarrow> er_value V" where
  "enter_reentrant loop fp args =
     vbind (vget (\<lambda>m. (vm_frames m, length (vm_stack m)))) (\<lambda>(old_frames, old_len).
     vthen (vmodify (\<lambda>m. m\<lparr>
         vm_frames := [\<lparr>frame_function = fp, ip = 0, slots_offset = old_len, frame_dest_reg = 0\<rparr>],
         vm_stack := vm_stack m @ args,
         vm_temp_slices := vm_temp_slices m @
           [map (\<lambda>fr. val_function (frame_function fr)) (rev old_frames)]\<rparr>))
       (vthen (grow_stack (old_len + 256))
         (\<lambda>m. (case loop 0 0 m of
              VOk v m' \<Rightarrow> VOk v (m'\<lparr>vm_temp_slices := butlast (vm_temp_slices m'), vm_frames := old_frames,
                  vm_stack := take old_len (vm_stack m')\<rparr>)
            | VErr e m' \<Rightarrow> VErr e (m'\<lparr>vm_temp_slices := butlast (vm_temp_slices m'), vm_frames := old_frames,
                  vm_stack := take old_len (vm_stack m')\<rparr>)
            | r \<Rightarrow> r))))"

definition call_function_value ::
    "platform \<Rightarrow> (nat \<Rightarrow> nat \<Rightarrow> er_value V) \<Rightarrow> er_value \<Rightarrow> er_value list \<Rightarrow> er_value V" where
  "call_function_value pf loop callee args =
     vbind (data_at (as_gc_ptr callee)) (\<lambda>d.
     (let (fp, args) = (case d of D_BoundMethod b \<Rightarrow> (bm_function b, bm_receiver b # args)
                                | _ \<Rightarrow> (as_gc_ptr callee, args)) in
      vbind (data_at fp) (\<lambda>d.
      vbind (case d of
           D_Function _ \<Rightarrow> vreturn fp
         | D_Closure c \<Rightarrow> vreturn (clo_function c)
         | _ \<Rightarrow> vfail (Ve_Text ''Callee is not a callable function'')) (\<lambda>raw.
      vbind (function_at raw) (\<lambda>f. enter_reentrant loop fp (resize_args (arity f) args))))))"

text \<open>\<^verbatim>\<open>call_function_reentrant\<close>; \<open>loop\<close> runs the interpreter from an instruction to a depth of frames, and
  \<open>bm\<close> is the built-in methods.\<close>

definition call_function_reentrant ::
    "platform \<Rightarrow> (nat \<Rightarrow> nat \<Rightarrow> er_value V) \<Rightarrow> (er_value \<Rightarrow> builtin_method_id \<Rightarrow> er_value list \<Rightarrow> er_value V) \<Rightarrow>
       er_value \<Rightarrow> er_value list \<Rightarrow> er_value V" where
  "call_function_reentrant pf loop bm callee args =
     (if is_method_resolve callee then
        vthen (enqueue_resolve (as_gc_ptr callee) (first_or_null args)) (vreturn val_null)
      else if is_array_method_push callee \<or> is_array_method_pop callee then
        vbind (data_at (as_gc_ptr callee)) (\<lambda>d.
        (case d of
           D_Array arr \<Rightarrow>
             if is_array_method_push callee then array_push (as_gc_ptr callee) arr args
             else array_pop (as_gc_ptr callee) arr
         | _ \<Rightarrow> vreturn val_null))
      else if \<not> is_function callee then
        (if is_native_function callee then pf_native pf (as_gc_ptr callee) args
         else vfail (Ve_Text ''Callee is not a function''))
      else
        vbind (data_at (as_gc_ptr callee)) (\<lambda>d.
        (case d of
           D_BuiltinMethod b \<Rightarrow> bm (bi_receiver b) (bi_method b) args
         | _ \<Rightarrow> call_function_value pf loop callee args)))"

section \<open>The loop\<close>

definition vfuel :: "'a V" where
  "vfuel m = VFuel"

text \<open>\<open>run_loop n pf td pc\<close> runs at most \<open>n\<close> instructions, calls back included, from \<open>pc\<close> until fewer than
  \<open>td + 1\<close> frames are left; \<open>builtin_methods n\<close> is what a built-in method does with fuel for its callbacks.\<close>

fun run_loop :: "nat \<Rightarrow> platform \<Rightarrow> nat \<Rightarrow> nat \<Rightarrow> er_value V"
and builtin_methods :: "nat \<Rightarrow> platform \<Rightarrow> er_value \<Rightarrow> builtin_method_id \<Rightarrow> er_value list \<Rightarrow> er_value V" where
  "run_loop 0 pf td pc = vfuel"
| "run_loop (Suc n) pf td pc =
     vbind (vm_step pf (builtin_methods n pf) td pc) (\<lambda>fl.
     (case fl of Next pc' \<Rightarrow> run_loop n pf td pc' | Finished v \<Rightarrow> vreturn v))"
| "builtin_methods 0 pf = (\<lambda>v meth args. vfuel)"
| "builtin_methods (Suc n) pf =
     execute_builtin_method pf (call_function_reentrant pf (run_loop n pf) (builtin_methods n pf))"

text \<open>\<^verbatim>\<open>run_function_ptr\<close>: a frame for the program on top of the stack, which is cut back afterwards.\<close>

definition run_function_ptr :: "nat \<Rightarrow> platform \<Rightarrow> u64 \<Rightarrow> er_value V" where
  "run_function_ptr n pf fp =
     vbind (vget (\<lambda>m. length (vm_stack m))) (\<lambda>len.
     vthen (push_frame fp len 0)
       (vthen (grow_stack (len + 256))
         (\<lambda>m. (case run_loop n pf 0 0 m of
              VOk v m' \<Rightarrow> VOk v (m'\<lparr>vm_stack := take len (vm_stack m')\<rparr>)
            | VErr e m' \<Rightarrow> VErr e (m'\<lparr>vm_stack := take len (vm_stack m')\<rparr>)
            | r \<Rightarrow> r))))"

definition vm_run :: "nat \<Rightarrow> platform \<Rightarrow> er_function \<Rightarrow> er_value V" where
  "vm_run n pf f = vbind (vm_alloc pf (D_Function f)) (run_function_ptr n pf)"

end
