(* ===== verification/Sem_Ref.thy ===== *)
theory Sem_Ref
  imports Vm_Call Comp_Stmt
begin

text \<open>
  A reference semantics of the core of the language, on ideal values: numbers, texts, booleans, null, and
  other machine values left opaque. It knows nothing of registers, tags, constants, jumps or the heap; it is
  what compiled programs are compared with. Where a number is no longer representable as one, where an
  order is asked of a NaN, or where a construct is outside the core, the outcome is \<open>R_Wild\<close>, and nothing
  is claimed.
\<close>

section \<open>Ideal values\<close>

datatype ival = I_Num f64 | I_Text "u8 list" | I_Bool bool | I_Null | I_Other er_value

record ref_state =
  rs_locals :: "(string \<times> ival) list"
  rs_globals :: "(u8 list \<times> ival) list"

datatype (plugins only: code size) 'a ref_out =
    R_Ok 'a ref_state
  | R_Err vm_error
  | R_Wild
  | R_Fuel

definition rbind :: "'a ref_out \<Rightarrow> ('a \<Rightarrow> ref_state \<Rightarrow> 'b ref_out) \<Rightarrow> 'b ref_out" where
  "rbind r f = (case r of R_Ok x st \<Rightarrow> f x st | R_Err e \<Rightarrow> R_Err e | R_Wild \<Rightarrow> R_Wild | R_Fuel \<Rightarrow> R_Fuel)"

definition ival_truthy :: "ival \<Rightarrow> bool" where
  "ival_truthy v = (case v of I_Bool b \<Rightarrow> b | I_Null \<Rightarrow> False | _ \<Rightarrow> True)"

text \<open>A number that the tagged word can hold.\<close>

definition ival_num :: "f64 \<Rightarrow> ref_state \<Rightarrow> ival ref_out" where
  "ival_num n st = (if is_number (Value n) then R_Ok (I_Num n) st else R_Wild)"

definition ival_text :: "ival \<Rightarrow> u8 list option" where
  "ival_text v =
     (case v of
        I_Num n \<Rightarrow> number_text n
      | I_Text t \<Rightarrow> Some t
      | I_Bool b \<Rightarrow> Some (bytes_of (if b then ''true'' else ''false''))
      | I_Null \<Rightarrow> Some (bytes_of ''null'')
      | I_Other _ \<Rightarrow> None)"

definition ival_eq :: "ival \<Rightarrow> ival \<Rightarrow> bool" where
  "ival_eq a b = (case (a, b) of (I_Num x, I_Num y) \<Rightarrow> x = y \<or> f64_eq x y | _ \<Rightarrow> a = b)"

definition ival_type :: "ival \<Rightarrow> string" where
  "ival_type v =
     (case v of
        I_Num _ \<Rightarrow> ''number'' | I_Text _ \<Rightarrow> ''string'' | I_Bool _ \<Rightarrow> ''boolean'' | I_Null \<Rightarrow> ''null''
      | I_Other w \<Rightarrow> type_name w)"

section \<open>Operators\<close>

definition num_op :: "(f64 \<Rightarrow> f64 \<Rightarrow> f64) \<Rightarrow> ival \<Rightarrow> ival \<Rightarrow> ref_state \<Rightarrow> ival ref_out" where
  "num_op f a b st =
     (case (a, b) of
        (I_Num x, I_Num y) \<Rightarrow> ival_num (f x y) st
      | _ \<Rightarrow> R_Err (Ve_Text ''Operands must be numbers''))"

definition order_op :: "(f64 \<Rightarrow> f64 \<Rightarrow> bool) \<Rightarrow> ival \<Rightarrow> ival \<Rightarrow> ref_state \<Rightarrow> ival ref_out" where
  "order_op f a b st =
     (case (a, b) of
        (I_Num x, I_Num y) \<Rightarrow>
          if f64_is_nan x \<or> f64_is_nan y then R_Wild else R_Ok (I_Bool (f x y)) st
      | _ \<Rightarrow> R_Err (Ve_Text ''Operands must be numbers''))"

fun is_ival_text :: "ival \<Rightarrow> bool" where
  "is_ival_text (I_Text t) = True"
| "is_ival_text _ = False"

lemma is_ival_text_iff: "is_ival_text v \<longleftrightarrow> (\<exists>t. v = I_Text t)"
  by (cases v) simp_all

definition plus_op :: "f64 \<Rightarrow> ival \<Rightarrow> ival \<Rightarrow> ref_state \<Rightarrow> ival ref_out" where
  "plus_op qn a b st =
     (case (a, b) of
        (I_Num x, I_Num y) \<Rightarrow> ival_num (f64_add qn x y) st
      | _ \<Rightarrow>
          if is_ival_text a \<or> is_ival_text b then
            (case (ival_text a, ival_text b) of
               (Some s, Some t) \<Rightarrow> R_Ok (I_Text (s @ t)) st
             | _ \<Rightarrow> R_Wild)
          else R_Err (Ve_Text ''Operands must be numbers or strings''))"

definition int_op :: "(u64 \<Rightarrow> u64 \<Rightarrow> u64) \<Rightarrow> f64 \<Rightarrow> f64 \<Rightarrow> f64" where
  "int_op f x y = f64_of_int (sint (f (f64_to_i64 x) (f64_to_i64 y)))"

definition ref_binary :: "f64 \<Rightarrow> token_type \<Rightarrow> ival \<Rightarrow> ival \<Rightarrow> ref_state \<Rightarrow> ival ref_out" where
  "ref_binary qn opr a b st =
     (if opr = T_Plus then plus_op qn a b st
      else if opr = T_Minus then num_op (f64_sub qn) a b st
      else if opr = T_Star then num_op (f64_mul qn) a b st
      else if opr = T_Slash then num_op (f64_div qn) a b st
      else if opr = T_Percent then num_op (f64_rem qn) a b st
      else if opr = T_Ampersand then num_op (int_op (\<lambda>x y. x AND y)) a b st
      else if opr = T_Pipe then num_op (int_op (\<lambda>x y. x OR y)) a b st
      else if opr = T_Caret then num_op (int_op (\<lambda>x y. x XOR y)) a b st
      else if opr = T_LessLess then
        num_op (\<lambda>x y. f64_of_int (sint (push_bit (shift_count y) (f64_to_i64 x)))) a b st
      else if opr = T_GreaterGreater then
        num_op (\<lambda>x y. f64_of_int (sint (signed_drop_bit (shift_count y) (f64_to_i64 x)))) a b st
      else if opr = T_EqualEqual then R_Ok (I_Bool (ival_eq a b)) st
      else if opr = T_BangEqual then R_Ok (I_Bool (\<not> ival_eq a b)) st
      else if opr = T_Greater then order_op (\<lambda>x y. f64_lt y x) a b st
      else if opr = T_GreaterEqual then order_op (\<lambda>x y. f64_le y x) a b st
      else if opr = T_Less then order_op f64_lt a b st
      else if opr = T_LessEqual then order_op f64_le a b st
      else R_Wild)"

definition ref_unary :: "token_type \<Rightarrow> ival \<Rightarrow> ref_state \<Rightarrow> ival ref_out" where
  "ref_unary opr a st =
     (if opr = T_Bang then R_Ok (I_Bool (\<not> ival_truthy a)) st
      else if opr = T_Typeof then R_Ok (I_Text (bytes_of (ival_type a))) st
      else if opr = T_Minus \<or> opr = T_Tilde then
        (case a of
           I_Num n \<Rightarrow>
             ival_num (if opr = T_Minus then f64_neg n else f64_of_int (sint (NOT (f64_to_i64 n)))) st
         | _ \<Rightarrow> R_Err (Ve_Text ''Operand must be a number''))
      else R_Wild)"

section \<open>Variables\<close>

definition find_var :: "string \<Rightarrow> ref_state \<Rightarrow> nat option" where
  "find_var name st = last_index (\<lambda>b. fst b = name) (rs_locals st)"

definition read_var :: "string \<Rightarrow> ref_state \<Rightarrow> ival ref_out" where
  "read_var name st =
     (case find_var name st of
        Some i \<Rightarrow> R_Ok (snd (rs_locals st ! i)) st
      | None \<Rightarrow>
          (case map_of (rs_globals st) (utf8_of name) of
             Some v \<Rightarrow> R_Ok v st
           | None \<Rightarrow> R_Err (Ve_Undefined (utf8_of name))))"

definition write_var :: "string \<Rightarrow> ival \<Rightarrow> ref_state \<Rightarrow> unit ref_out" where
  "write_var name v st =
     (case find_var name st of
        Some i \<Rightarrow> R_Ok () (st\<lparr>rs_locals := (rs_locals st)[i := (name, v)]\<rparr>)
      | None \<Rightarrow>
          if map_of (rs_globals st) (utf8_of name) = None then R_Err (Ve_Undeclared (utf8_of name))
          else R_Ok () (st\<lparr>rs_globals := put_entry (utf8_of name) v (rs_globals st)\<rparr>))"

section \<open>Expressions\<close>

definition update_var :: "f64 \<Rightarrow> bool \<Rightarrow> token_type \<Rightarrow> expr \<Rightarrow> ref_state \<Rightarrow> ival ref_out" where
  "update_var qn before opr inner st =
     (case (inner, opr) of
        (E_Variable name l, T_PlusPlus) \<Rightarrow>
          rbind (read_var name st) (\<lambda>old st. rbind (plus_op qn old (I_Num (f64_of_nat 1)) st) (\<lambda>new st.
            rbind (write_var name new st) (\<lambda>_ st. R_Ok (if before then new else old) st)))
      | (E_Variable name l, T_MinusMinus) \<Rightarrow>
          rbind (read_var name st) (\<lambda>old st. rbind (num_op (f64_sub qn) old (I_Num (f64_of_nat 1)) st) (\<lambda>new st.
            rbind (write_var name new st) (\<lambda>_ st. R_Ok (if before then new else old) st)))
      | _ \<Rightarrow> R_Wild)"

definition ref_literal :: "literal_value \<Rightarrow> ref_state \<Rightarrow> ival ref_out" where
  "ref_literal l st =
     (case l of
        L_Null \<Rightarrow> R_Ok I_Null st
      | L_Boolean b \<Rightarrow> R_Ok (I_Bool b) st
      | L_Number n \<Rightarrow> ival_num n st
      | L_String t \<Rightarrow> R_Ok (I_Text (utf8_of t)) st)"

fun ref_eval :: "f64 \<Rightarrow> expr \<Rightarrow> ref_state \<Rightarrow> ival ref_out" where
  "ref_eval qn (E_Literal l) st = ref_literal l st"
| "ref_eval qn (E_Variable name l) st = read_var name st"
| "ref_eval qn (E_Assign name e l) st =
     rbind (ref_eval qn e st) (\<lambda>v st. rbind (write_var name v st) (\<lambda>_ st. R_Ok v st))"
| "ref_eval qn (E_Unary opr e) st = rbind (ref_eval qn e st) (ref_unary opr)"
| "ref_eval qn (E_Binary a opr b) st =
     rbind (ref_eval qn a st) (\<lambda>x st. rbind (ref_eval qn b st) (\<lambda>y st. ref_binary qn opr x y st))"
| "ref_eval qn (E_Logical a opr b) st =
     (if opr \<noteq> T_Or \<and> opr \<noteq> T_And then R_Wild
      else rbind (ref_eval qn a st) (\<lambda>x st.
        if ival_truthy x = (opr = T_Or) then R_Ok x st else ref_eval qn b st))"
| "ref_eval qn (E_Ternary c a b) st =
     rbind (ref_eval qn c st) (\<lambda>x st. if ival_truthy x then ref_eval qn a st else ref_eval qn b st)"
| "ref_eval qn (E_Prefix opr e) st = update_var qn True opr e st"
| "ref_eval qn (E_Postfix opr e) st = update_var qn False opr e st"
| "ref_eval qn (E_TypeCast e t l) st = ref_eval qn e st"
| "ref_eval qn (E_New e) st = ref_eval qn e st"
| "ref_eval qn _ st = R_Wild"

section \<open>Statements\<close>

datatype signal = Sg_Next | Sg_Break | Sg_Continue

definition leave_scope :: "ref_state \<Rightarrow> signal ref_out \<Rightarrow> signal ref_out" where
  "leave_scope outer r =
     rbind r (\<lambda>sg st. R_Ok sg (st\<lparr>rs_locals := take (length (rs_locals outer)) (rs_locals st)\<rparr>))"

fun ref_seq :: "('s \<Rightarrow> ref_state \<Rightarrow> signal ref_out) \<Rightarrow> 's list \<Rightarrow> ref_state \<Rightarrow> signal ref_out" where
  "ref_seq ex [] st = R_Ok Sg_Next st"
| "ref_seq ex (s # ss) st =
     rbind (ex s st) (\<lambda>sg st. if sg = Sg_Next then ref_seq ex ss st else R_Ok sg st)"

definition declare_var :: "bool \<Rightarrow> string \<Rightarrow> ival \<Rightarrow> ref_state \<Rightarrow> ref_state" where
  "declare_var in_scope name v st =
     (if in_scope then st\<lparr>rs_locals := rs_locals st @ [(name, v)]\<rparr>
      else st\<lparr>rs_globals := put_entry (utf8_of name) v (rs_globals st)\<rparr>)"

text \<open>\<open>ref_exec n qn d s st\<close>: the statement \<open>s\<close> at block depth \<open>d\<close> (declarations at depth 0 are global),
  with fuel \<open>n\<close> for the loops.\<close>

fun ref_exec :: "nat \<Rightarrow> f64 \<Rightarrow> nat \<Rightarrow> stmt \<Rightarrow> ref_state \<Rightarrow> signal ref_out" where
  "ref_exec 0 qn d s st = R_Fuel"
| "ref_exec (Suc n) qn d s st =
     (case s of
        S_Expr e \<Rightarrow> rbind (ref_eval qn e st) (\<lambda>_ st. R_Ok Sg_Next st)
      | S_VarDecl name ty is_const e l \<Rightarrow>
          rbind (ref_eval qn e st) (\<lambda>v st. R_Ok Sg_Next (declare_var (0 < d) name v st))
      | S_Block ss \<Rightarrow> leave_scope st (ref_seq (ref_exec n qn (Suc d)) ss st)
      | S_If c a b \<Rightarrow>
          rbind (ref_eval qn c st) (\<lambda>x st.
            if ival_truthy x then ref_exec n qn d a st
            else (case b of Some e \<Rightarrow> ref_exec n qn d e st | None \<Rightarrow> R_Ok Sg_Next st))
      | S_While c body \<Rightarrow>
          rbind (ref_eval qn c st) (\<lambda>x st.
            if ival_truthy x then
              rbind (ref_exec n qn d body st) (\<lambda>sg st.
                if sg = Sg_Break then R_Ok Sg_Next st else ref_exec n qn d (S_While c body) st)
            else R_Ok Sg_Next st)
      | S_Break \<Rightarrow> R_Ok Sg_Break st
      | S_Continue \<Rightarrow> R_Ok Sg_Continue st
      | S_Export inner \<Rightarrow> ref_exec n qn d inner st
      | S_Sync inner \<Rightarrow> ref_exec n qn d inner st
      | S_Interface _ _ _ _ \<Rightarrow> R_Ok Sg_Next st
      | S_TypeAlias _ _ _ _ \<Rightarrow> R_Ok Sg_Next st
      | _ \<Rightarrow> R_Wild)"

section \<open>The core\<close>

fun core_expr :: "expr \<Rightarrow> bool" where
  "core_expr (E_Literal l) = True"
| "core_expr (E_Variable name l) = True"
| "core_expr (E_Assign name e l) = core_expr e"
| "core_expr (E_Unary opr e) = core_expr e"
| "core_expr (E_Binary a opr b) = (core_expr a \<and> core_expr b)"
| "core_expr (E_Logical a opr b) = (core_expr a \<and> core_expr b)"
| "core_expr (E_Ternary c a b) = (core_expr c \<and> core_expr a \<and> core_expr b)"
| "core_expr (E_Prefix opr e) = (case e of E_Variable _ _ \<Rightarrow> True | _ \<Rightarrow> False)"
| "core_expr (E_Postfix opr e) = (case e of E_Variable _ _ \<Rightarrow> True | _ \<Rightarrow> False)"
| "core_expr (E_TypeCast e t l) = core_expr e"
| "core_expr (E_New e) = core_expr e"
| "core_expr _ = False"

text \<open>A body that is a declaration itself would leave its variable behind; bodies are blocks, or declare
  nothing.\<close>

fun declares :: "stmt \<Rightarrow> bool" where
  "declares (S_VarDecl name ty is_const e l) = True"
| "declares (S_Export inner) = declares inner"
| "declares (S_Sync inner) = declares inner"
| "declares _ = False"

fun core_stmt :: "stmt \<Rightarrow> bool" where
  "core_stmt (S_Expr e) = core_expr e"
| "core_stmt (S_VarDecl name ty is_const e l) = core_expr e"
| "core_stmt (S_Block ss) = list_all core_stmt ss"
| "core_stmt (S_If c a b) =
     (core_expr c \<and> core_stmt a \<and> \<not> declares a \<and>
      (case b of Some e \<Rightarrow> core_stmt e \<and> \<not> declares e | None \<Rightarrow> True))"
| "core_stmt (S_While c body) = (core_expr c \<and> core_stmt body \<and> \<not> declares body)"
| "core_stmt S_Break = True"
| "core_stmt S_Continue = True"
| "core_stmt (S_Export inner) = core_stmt inner"
| "core_stmt (S_Sync inner) = core_stmt inner"
| "core_stmt (S_Interface _ _ _ _) = True"
| "core_stmt (S_TypeAlias _ _ _ _) = True"
| "core_stmt _ = False"

text \<open>The highest register the code of an expression with result in \<open>dest\<close> touches, when \<open>nr\<close> is the
  first register free for temporaries.\<close>

fun expr_regs :: "nat \<Rightarrow> expr \<Rightarrow> nat \<Rightarrow> nat" where
  "expr_regs nr (E_Assign name e l) dest = expr_regs nr e dest"
| "expr_regs nr (E_Unary opr e) dest = expr_regs nr e dest"
| "expr_regs nr (E_Binary a opr b) dest =
     max (expr_regs nr a dest) (expr_regs nr b (max nr (dest + 1)))"
| "expr_regs nr (E_Logical a opr b) dest = max (expr_regs nr a dest) (expr_regs nr b dest)"
| "expr_regs nr (E_Ternary c a b) dest =
     max (expr_regs nr c dest) (max (expr_regs nr a dest) (expr_regs nr b dest))"
| "expr_regs nr (E_Prefix opr e) dest = max nr (dest + 1)"
| "expr_regs nr (E_Postfix opr e) dest = max nr (dest + 1) + 1"
| "expr_regs nr (E_TypeCast e t l) dest = expr_regs nr e dest"
| "expr_regs nr (E_New e) dest = expr_regs nr e dest"
| "expr_regs nr _ dest = dest"

text \<open>The same for a statement at depth \<open>d\<close> with \<open>nl\<close> locals before it.\<close>

definition new_locals :: "nat \<Rightarrow> stmt \<Rightarrow> nat" where
  "new_locals d s = (if 0 < d \<and> declares s then 1 else 0)"

fun stmt_regs :: "nat \<Rightarrow> nat \<Rightarrow> stmt \<Rightarrow> nat"
and stmts_regs :: "nat \<Rightarrow> nat \<Rightarrow> stmt list \<Rightarrow> nat" where
  "stmt_regs d nl (S_Expr e) = expr_regs nl e nl"
| "stmt_regs d nl (S_VarDecl name ty is_const e l) = expr_regs nl e nl"
| "stmt_regs d nl (S_Block ss) = stmts_regs (Suc d) nl ss"
| "stmt_regs d nl (S_If c a b) =
     max (expr_regs nl c nl)
       (max (stmt_regs d nl a) (case b of Some e \<Rightarrow> stmt_regs d nl e | None \<Rightarrow> 0))"
| "stmt_regs d nl (S_While c body) = max (expr_regs nl c nl) (stmt_regs d nl body)"
| "stmt_regs d nl (S_Export inner) = stmt_regs d nl inner"
| "stmt_regs d nl (S_Sync inner) = stmt_regs d nl inner"
| "stmt_regs d nl _ = nl"
| "stmts_regs d nl [] = nl"
| "stmts_regs d nl (s # ss) = max (stmt_regs d nl s) (stmts_regs d (nl + new_locals d s) ss)"

end
