(* ===== verification/Sem_Heap.thy ===== *)
theory Sem_Heap
  imports Sem_Ref Vm_Loop Gc_Collect
begin

text \<open>
  What running code needs of the heap when nothing is collected: an allocation gives a cell that nothing
  in use occupies, so texts and functions stay where they are. The interface is a locale; the collector's
  allocator meets it while the cells it may still hand out are blank, distinct and fit a tagged pointer.
\<close>

section \<open>The interface\<close>

locale steady_heap =
  fixes alloc :: "'d \<Rightarrow> 'h \<Rightarrow> ('p \<times> 'h) option"
    and ready :: "'h \<Rightarrow> bool"
    and content :: "'h \<Rightarrow> 'p \<Rightarrow> 'd option"
    and blank :: "'d \<Rightarrow> bool"
    and taggable :: "'p \<Rightarrow> bool"
  assumes alloc_ready: "ready h \<Longrightarrow> alloc d h = Some (p, h') \<Longrightarrow>
      ready h' \<and> taggable p \<and> content h' p = Some d"
    and alloc_frame: "ready h \<Longrightarrow> alloc d h = Some (p, h') \<Longrightarrow> content h q = Some x \<Longrightarrow> \<not> blank x \<Longrightarrow>
      content h' q = Some x"
begin

lemma alloc_keeps:
  assumes "ready h" "alloc d h = Some (p, h')" "\<And>x. P x \<Longrightarrow> \<not> blank x"
  shows "content h q = Some x \<Longrightarrow> P x \<Longrightarrow> content h' q = Some x"
  using alloc_frame [OF assms(1,2)] assms(3) by blast

text \<open>Two allocations give two cells.\<close>

lemma alloc_new:
  assumes "ready h" "alloc d h = Some (p, h')" "alloc d' h' = Some (q, h'')" "\<not> blank d" "d \<noteq> d'"
  shows "p \<noteq> q"
proof
  assume "p = q"
  have "ready h'" "content h' p = Some d" using alloc_ready [OF assms(1,2)] by simp_all
  then have "content h'' p = Some d" "content h'' q = Some d'"
    using alloc_frame [OF \<open>ready h'\<close> assms(3)] alloc_ready [OF \<open>ready h'\<close> assms(3)] assms(4) by simp_all
  then show False using \<open>p = q\<close> assms(5) by simp
qed

end

section \<open>The allocator between collections\<close>

definition cell_data :: "gc_state \<Rightarrow> u64 \<Rightarrow> gc_data option" where
  "cell_data h p = map_option obj_data (deref p h)"

definition taggable :: "u64 \<Rightarrow> bool" where
  "taggable p \<longleftrightarrow> p AND PTR_MASK = p"

text \<open>The cells the allocator hands out from now on, in order; \<open>m\<close> is the first request the system refuses.\<close>

definition avail_cells :: "u64 \<Rightarrow> (nat \<Rightarrow> u64) \<Rightarrow> nat \<Rightarrow> gc_state \<Rightarrow> u64 list" where
  "avail_cells osz chunk_at m h =
     free_list h @ chunk_cells osz (current_chunk_ptr h) (chunk_remaining h) @
     concat (map (\<lambda>i. chunk_cells osz (chunk_at i) CHUNK_COUNT) [length (chunks h)..<m])"

definition spare_cell :: "gc_state \<Rightarrow> u64 \<Rightarrow> bool" where
  "spare_cell h p \<longleftrightarrow> taggable p \<and> (cell_data h p = None \<or> cell_data h p = Some D_Empty)"

definition cached_text :: "gc_state \<Rightarrow> u8 list \<times> u64 \<Rightarrow> bool" where
  "cached_text h e \<longleftrightarrow> taggable (snd e) \<and> cell_data h (snd e) = Some (D_String (fst e))"

definition heap_ready :: "u64 \<Rightarrow> (nat \<Rightarrow> u64) \<Rightarrow> gc_state \<Rightarrow> bool" where
  "heap_ready osz chunk_at h \<longleftrightarrow>
     list_all (cached_text h) (string_cache h) \<and>
     (\<exists>m. length (chunks h) \<le> m \<and> chunk_at m = 0 \<and> (\<forall>i. length (chunks h) \<le> i \<and> i < m \<longrightarrow> chunk_at i \<noteq> 0) \<and>
        distinct (avail_cells osz chunk_at m h) \<and> list_all (spare_cell h) (avail_cells osz chunk_at m h))"

lemma gc_allocate_cases:
  assumes "gc_allocate osz (chunk_at (length (chunks h))) d h = Some (p, h')" and "chunk_at m = 0"
    and "length (chunks h) \<le> m"
  shows "avail_cells osz chunk_at m h = p # avail_cells osz chunk_at m h' \<and>
    (\<exists>n. mem h' = (mem h)(p \<mapsto> (fresh_object d)\<lparr>nxt := n\<rparr>)) \<and> string_cache h' = string_cache h \<and>
    length (chunks h) \<le> length (chunks h') \<and> length (chunks h') \<le> m"
proof -
  have ck: "chunks (bump_alloc_count s) = chunks s" for s by (simp add: bump_alloc_count_def Let_def)
  note d = gc_allocate_def gc_alloc_object_def avail_cells_def write_obj_def deref_def Let_def CHUNK_COUNT_def
  show ?thesis
  proof (cases "free_list h")
    case (Cons q ps)
    then show ?thesis using assms by (auto simp: d ck)
  next
    case Nil
    show ?thesis
    proof (cases "chunk_remaining h")
      case (Suc n)
      then show ?thesis using Nil assms by (auto simp: d ck)
    next
      case 0
      have ne: "chunk_at (length (chunks h)) \<noteq> 0" using assms(1) Nil 0 by (auto simp: d)
      then have "length (chunks h) \<noteq> m" using assms(2) by auto
      then have lt: "length (chunks h) < m" using assms(3) by simp
      have "[length (chunks h)..<m] = length (chunks h) # [Suc (length (chunks h))..<m]"
        using lt by (rule upt_conv_Cons)
      moreover have "chunk_cells osz q 256 = q # chunk_cells osz (q + osz) 255" for q
        by (simp add: eval_nat_numeral)
      ultimately show ?thesis using Nil 0 assms ne lt by (auto simp: d ck)
    qed
  qed
qed

lemma cell_data_upd:
  "mem h' = (mem h)(p \<mapsto> ob) \<Longrightarrow> cell_data h' q = (if q = p then Some (obj_data ob) else cell_data h q)"
  by (simp add: cell_data_def deref_def)

lemma allocate_ready:
  assumes "heap_ready osz chunk_at h" and "gc_allocate osz (chunk_at (length (chunks h))) d h = Some (p, h')"
  shows "heap_ready osz chunk_at h' \<and> taggable p \<and> cell_data h' p = Some d"
    and "cell_data h q = Some x \<Longrightarrow> x \<noteq> D_Empty \<Longrightarrow> cell_data h' q = Some x"
proof -
  obtain m where m: "length (chunks h) \<le> m" "chunk_at m = 0"
    "\<forall>i. length (chunks h) \<le> i \<and> i < m \<longrightarrow> chunk_at i \<noteq> 0"
    "distinct (avail_cells osz chunk_at m h)" "list_all (spare_cell h) (avail_cells osz chunk_at m h)"
    and cache: "list_all (cached_text h) (string_cache h)"
    using assms(1) unfolding heap_ready_def by blast
  obtain n where a: "avail_cells osz chunk_at m h = p # avail_cells osz chunk_at m h'"
    "mem h' = (mem h)(p \<mapsto> (fresh_object d)\<lparr>nxt := n\<rparr>)" "string_cache h' = string_cache h"
    "length (chunks h) \<le> length (chunks h')" "length (chunks h') \<le> m"
    using gc_allocate_cases [OF assms(2) m(2,1)] by blast
  have cd: "cell_data h' q = (if q = p then Some d else cell_data h q)" for q
    using cell_data_upd [OF a(2)] by (simp add: fresh_object_def)
  have p: "spare_cell h p" using m(5) a(1) by simp
  show keep: "cell_data h q = Some x \<Longrightarrow> x \<noteq> D_Empty \<Longrightarrow> cell_data h' q = Some x" for q x
    using p cd by (auto simp: spare_cell_def)
  have "list_all (cached_text h') (string_cache h')"
    using cache keep a(3) by (auto simp: list_all_iff cached_text_def)
  moreover have "list_all (spare_cell h') (avail_cells osz chunk_at m h')"
    using m(4,5) a(1) cd by (auto simp: list_all_iff spare_cell_def)
  moreover have "distinct (avail_cells osz chunk_at m h')" using m(4) a(1) by simp
  ultimately have "heap_ready osz chunk_at h'"
    unfolding heap_ready_def using m(2,3) a(4,5) by (intro conjI exI [of _ m]) auto
  then show "heap_ready osz chunk_at h' \<and> taggable p \<and> cell_data h' p = Some d"
    using p cd by (simp add: spare_cell_def)
qed

interpretation cells: steady_heap "\<lambda>d h. gc_allocate osz (chunk_at (length (chunks h))) d h"
  "heap_ready osz chunk_at" cell_data "\<lambda>d. d = D_Empty" taggable for osz chunk_at
  by unfold_locales (rule allocate_ready(1), assumption+, rule allocate_ready(2), assumption+)

section \<open>Texts stay readable\<close>

definition text_le :: "gc_state \<Rightarrow> gc_state \<Rightarrow> bool" where
  "text_le h h' \<longleftrightarrow> (\<forall>p t. heap_str h p = Some t \<longrightarrow> heap_str h' p = Some t)"

lemma text_le_refl [simp]: "text_le h h"
  by (simp add: text_le_def)

lemma text_le_trans: "text_le a b \<Longrightarrow> text_le b c \<Longrightarrow> text_le a c"
  by (simp add: text_le_def)

lemma heap_str_cell: "heap_str h p = Some t \<longleftrightarrow> cell_data h p = Some (D_String t)"
  by (auto simp: heap_str_def cell_data_def split: option.splits gc_data.splits)

lemma allocate_text_le:
  assumes "heap_ready osz chunk_at h" and "gc_allocate osz (chunk_at (length (chunks h))) d h = Some (p, h')"
  shows "text_le h h'"
  unfolding text_le_def heap_str_cell
  by (blast intro: cells.alloc_keeps [OF assms, of "\<lambda>x. x \<noteq> D_Empty"])

lemma intern_ready:
  assumes "heap_ready osz chunk_at h" and "intern_string osz (chunk_at (length (chunks h))) t h = Some (p, h')"
  shows "heap_ready osz chunk_at h' \<and> taggable p \<and> heap_str h' p = Some t \<and> text_le h h'"
    and "cell_data h q = Some x \<Longrightarrow> x \<noteq> D_Empty \<Longrightarrow> cell_data h' q = Some x"
proof -
  have "heap_ready osz chunk_at h' \<and> taggable p \<and> heap_str h' p = Some t \<and> text_le h h' \<and>
    (\<forall>q x. cell_data h q = Some x \<and> x \<noteq> D_Empty \<longrightarrow> cell_data h' q = Some x)"
  proof (cases "map_of (string_cache h) t")
    case (Some p')
    then have eqs: "p' = p" "h' = h" using assms(2) by (auto simp: intern_string_def)
    have "(t, p) \<in> set (string_cache h)" using Some eqs by (auto dest: map_of_SomeD)
    then have "cached_text h (t, p)" using assms(1) by (auto simp: heap_ready_def list_all_iff)
    then show ?thesis using assms(1) eqs by (simp add: cached_text_def heap_str_cell)
  next
    case None
    then obtain h1 where h1: "gc_allocate osz (chunk_at (length (chunks h))) (D_String t) h = Some (p, h1)"
      "h' = h1\<lparr>string_cache := (t, p) # string_cache h1\<rparr>"
      using assms(2) by (auto simp: intern_string_def gc_alloc_string_def split: bind_splits)
    note a = allocate_ready [OF assms(1) h1(1)] allocate_text_le [OF assms(1) h1(1)]
    have cd: "cell_data h' q = cell_data h1 q" for q using h1(2) by (simp add: cell_data_def deref_def)
    have "avail_cells osz chunk_at m h' = avail_cells osz chunk_at m h1" for m
      using h1(2) by (simp add: avail_cells_def)
    moreover have "spare_cell h' = spare_cell h1" "cached_text h' = cached_text h1"
      by (auto simp: spare_cell_def cached_text_def cd fun_eq_iff)
    moreover have "cached_text h1 (t, p)" using a(1) by (simp add: cached_text_def)
    ultimately have "heap_ready osz chunk_at h'"
      using a(1) h1(2) unfolding heap_ready_def by simp
    moreover have "heap_str h' p = Some t" using a(1) cd by (simp add: heap_str_cell)
    moreover have "text_le h h'" using a(3) cd unfolding text_le_def heap_str_cell by simp
    ultimately show ?thesis using a(1,2) cd by simp
  qed
  then show "heap_ready osz chunk_at h' \<and> taggable p \<and> heap_str h' p = Some t \<and> text_le h h'"
    and "cell_data h q = Some x \<Longrightarrow> x \<noteq> D_Empty \<Longrightarrow> cell_data h' q = Some x" by blast+
qed

text \<open>Overwriting a cell in use by other data of no text.\<close>

lemma write_ready:
  assumes "heap_ready osz chunk_at h" and "cell_data h p = Some d" and "d \<noteq> D_Empty" and "\<forall>t. d \<noteq> D_String t"
  shows "heap_ready osz chunk_at (write_obj p ob h) \<and> text_le h (write_obj p ob h)"
proof -
  let ?h = "write_obj p ob h"
  have cd: "cell_data ?h q = (if q = p then Some (obj_data ob) else cell_data h q)" for q
    by (rule cell_data_upd) (simp add: write_obj_def)
  have av: "avail_cells osz chunk_at m ?h = avail_cells osz chunk_at m h" "chunks ?h = chunks h"
    "string_cache ?h = string_cache h" for m
    by (simp_all add: avail_cells_def write_obj_def)
  have "spare_cell h q \<Longrightarrow> spare_cell ?h q" for q using assms(2,3) by (auto simp: spare_cell_def cd)
  moreover have "cached_text h e \<Longrightarrow> cached_text ?h e" for e using assms(2,4) by (auto simp: cached_text_def cd)
  ultimately have "heap_ready osz chunk_at ?h"
    using assms(1) unfolding heap_ready_def av by (auto elim!: list.pred_mono_strong)
  moreover have "text_le h ?h" using assms(2,4) by (auto simp: text_le_def heap_str_cell cd)
  ultimately show ?thesis by blast
qed

end
