(* ===== verification/Sem_Values.thy ===== *)
theory Sem_Values
  imports Sem_Heap
begin

text \<open>
  Tagged words as ideal values, and the operators of the machine as those of the reference semantics: on
  operands that stand for ideal values each operator gives a word that stands for the ideal result, or the
  same error, or runs out of memory.
\<close>

section \<open>Valid texts\<close>

lemma utf8_valid_append: "utf8_valid a \<Longrightarrow> utf8_valid (a @ b) = utf8_valid b"
proof (induction a rule: utf8_valid.induct)
  case (2 a bs)
  note us = utf8_valid.simps if_True if_False append_Cons append_Nil list.case simp_thms
  consider (one) "(a < 128) = True" | (two) "(a < 128) = False" "(194 \<le> a \<and> a \<le> 223) = True"
    | (three) "(a < 128) = False" "(194 \<le> a \<and> a \<le> 223) = False" "(224 \<le> a \<and> a \<le> 239) = True"
    | (four) "(a < 128) = False" "(194 \<le> a \<and> a \<le> 223) = False" "(224 \<le> a \<and> a \<le> 239) = False" by blast
  then show ?case
  proof cases
    case one
    then show ?thesis using "2.IH"(1) "2.prems" by (simp only: us)
  next
    case two
    then show ?thesis using "2.IH"(2) "2.prems" by (cases bs) (simp_all only: us)
  next
    case three
    then show ?thesis using "2.IH"(3) "2.prems"
      by (cases bs; cases "tl bs") (simp_all only: us list.sel, blast?)
  next
    case four
    then show ?thesis using "2.IH"(4) "2.prems"
      by (cases bs; cases "tl bs"; cases "tl (tl bs)") (simp_all only: us list.sel, blast?)
  qed
qed simp

definition ascii :: "string \<Rightarrow> bool" where
  "ascii t \<longleftrightarrow> list_all (\<lambda>c. (of_char c :: nat) < 128) t"

lemma ascii_simps [simp]:
  "ascii []" "ascii (c # t) \<longleftrightarrow> (of_char c :: nat) < 128 \<and> ascii t" "ascii (s @ t) \<longleftrightarrow> ascii s \<and> ascii t"
  by (auto simp: ascii_def)

lemma utf8_valid_ascii: "ascii t \<Longrightarrow> utf8_valid (bytes_of t)"
proof (induction t)
  case (Cons c t)
  have "unat (of_nat (of_char c) :: u8) < 128"
    using Cons.prems by (simp only: unat_of_nat) simp
  then have "(of_char c :: u8) < 128" by (simp only: word_less_nat_alt of_nat_of_char) simp
  then have "((of_char c :: u8) < 128) = True" by simp
  then show ?case using Cons by (simp only: bytes_of_def list.map utf8_valid.simps if_True ascii_simps)
qed (simp add: bytes_of_def)

lemma ascii_digits: "ascii (digits_of_nat n)"
proof (induction n rule: digits_of_nat.induct)
  case (1 n)
  have "d < 10 \<Longrightarrow> (of_char (digit_char d) :: nat) < 128" for d by (simp add: digit_char_def)
  with 1 show ?case by (subst digits_of_nat.simps) auto
qed

lemma ascii_replicate [simp]: "(of_char c :: nat) < 128 \<Longrightarrow> ascii (replicate n c)"
  by (simp add: ascii_def list_all_length)

lemma ascii_take_drop [simp]: "ascii t \<Longrightarrow> ascii (take n t)" "ascii t \<Longrightarrow> ascii (drop n t)"
  by (auto simp: ascii_def list_all_iff dest: in_set_takeD in_set_dropD)

lemma ascii_display: "ascii (f64_display n)"
  by (auto simp: f64_display_def place_point_def ascii_digits Let_def split: prod.splits)

lemma number_text_valid: "number_text n = Some t \<Longrightarrow> utf8_valid t"
  by (auto simp: number_text_def push_positive_integer_correct ascii_digits ascii_display
      intro!: utf8_valid_ascii split: if_splits)

lemma utf8_of_valid: "utf8_valid (utf8_of t)"
proof (induction t)
  case (Cons c t)
  define n where "n = (of_char c :: nat)"
  have n: "n < 256" by (simp add: n_def)
  have "utf8_valid (utf8_char c)"
  proof (cases "n < 128")
    case True
    then have "((of_nat n :: u8) < 128) = True" by (simp only: word_less_nat_alt unat_of_nat) simp
    then have "utf8_valid [of_nat n]" by (simp only: utf8_valid.simps if_True)
    then show ?thesis using True by (simp only: utf8_char_def n_def [symmetric] Let_def if_True)
  next
    case False
    then have "2 \<le> n div 64" "n div 64 < 4"
      using n by (simp_all add: less_eq_div_iff_mult_less_eq div_less_iff_less_mult)
    then have "n div 64 = 2 \<or> n div 64 = 3" by linarith
    then have b: "(of_nat (192 + n div 64) :: u8) = 194 \<or> (of_nat (192 + n div 64) :: u8) = 195" by auto
    have "n mod 64 < 64" by simp
    then have "cont_byte (of_nat (128 + n mod 64))"
      unfolding cont_byte_def word_le_nat_alt unat_of_nat by (simp add: take_bit_eq_mod)
    moreover have "utf8_valid [194, w] = cont_byte w" "utf8_valid [195, w] = cont_byte w" for w by simp_all
    ultimately have "utf8_valid [of_nat (192 + n div 64), of_nat (128 + n mod 64)]"
      using b by (elim disjE) (simp_all only:)
    then show ?thesis using False by (simp only: utf8_char_def n_def [symmetric] Let_def if_False)
  qed
  then show ?case using Cons utf8_valid_append [of "utf8_char c" "utf8_of t"]
    by (simp only: utf8_of_def list.map concat.simps)
qed (simp add: utf8_of_def)

section \<open>What a word stands for\<close>

fun stands_for :: "gc_state \<Rightarrow> er_value \<Rightarrow> ival \<Rightarrow> bool" where
  "stands_for h v (I_Num n) = (v = Value n \<and> is_number v)"
| "stands_for h v (I_Text t) =
     (is_string v \<and> as_str (heap_str h) v = Some t \<and> wf_text (heap_str h) v \<and> utf8_valid t)"
| "stands_for h v (I_Bool b) = (v = val_boolean b)"
| "stands_for h v I_Null = (v = val_null)"
| "stands_for h v (I_Other w) =
     (v = w \<and> \<not> is_number v \<and> \<not> is_string v \<and> \<not> is_boolean v \<and> \<not> is_null v)"

lemma as_str_mono: "text_le h h' \<Longrightarrow> as_str (heap_str h) v = Some t \<Longrightarrow> as_str (heap_str h') v = Some t"
  by (auto simp: as_str_def text_le_def Let_def split: if_splits)

lemma stands_for_mono: "text_le h h' \<Longrightarrow> stands_for h v x \<Longrightarrow> stands_for h' v x"
  by (cases x) (auto simp: wf_text_def dest: as_str_mono split: option.splits)

lemma hi16_words:
  "hi16 (val_boolean b) = (if b then 0xfff3 else 0xfff2)" "hi16 val_null = 0xfff1"
  by (simp_all add: val_boolean_def val_null_def hi16_def vm_simps)

lemma boolean_bits: "vbits (val_boolean b) \<noteq> TAG_NULL"
  by (cases b) (simp_all add: val_boolean_def vm_simps)

lemma kinds_of_words [simp]:
  "\<not> is_number (val_boolean b)" "\<not> is_string (val_boolean b)" "is_boolean (val_boolean b)"
  "\<not> is_null (val_boolean b)" "\<not> is_number val_null" "\<not> is_string val_null" "\<not> is_boolean val_null"
  "is_null val_null"
  by (auto simp: kind_hi16 hi16_words is_null_def boolean_bits dest: is_null_hi16) (simp add: val_null_def)

lemma boolean_not_null [simp]: "val_boolean b \<noteq> val_null" "val_null \<noteq> val_boolean b"
  using kinds_of_words(3) [of b] kinds_of_words(7) by metis+

lemma val_boolean_inj [simp]: "val_boolean a = val_boolean b \<longleftrightarrow> a = b"
  using hi16_words(1) [of a] hi16_words(1) [of b] by (auto split: if_splits)

lemma as_boolean_word [simp]: "as_boolean (val_boolean b) = b"
  by (simp add: as_boolean_def val_boolean_def vm_simps)

lemma not_null_not_boolean: "\<not> (is_null v \<and> is_boolean v)"
  by (auto simp: kind_hi16 dest: is_null_hi16)

lemma stands_kind:
  assumes "stands_for h v x"
  shows "is_number v = (\<exists>n. x = I_Num n)" "is_string v = (\<exists>t. x = I_Text t)"
    "is_boolean v = (\<exists>b. x = I_Bool b)" "is_null v = (x = I_Null)"
proof -
  have n: "is_number v \<Longrightarrow> \<not> is_string v \<and> \<not> is_boolean v \<and> \<not> is_null v"
    by (auto simp: kind_hi16 dest: is_null_hi16)
  have s: "is_string v \<Longrightarrow> \<not> is_boolean v \<and> \<not> is_null v"
    by (auto simp: kind_hi16 dest: is_null_hi16)
  show "is_number v = (\<exists>n. x = I_Num n)" "is_string v = (\<exists>t. x = I_Text t)"
    "is_boolean v = (\<exists>b. x = I_Bool b)" "is_null v = (x = I_Null)"
    using assms n s by (cases x; auto)+
qed

lemma stands_number: "stands_for h v (I_Num n) \<Longrightarrow> as_number v = n"
  by (simp add: as_number_def)

lemma stands_truthy: "stands_for h v x \<Longrightarrow> is_truthy v = ival_truthy x"
proof -
  have t: "is_truthy v \<longleftrightarrow> v \<noteq> val_boolean False \<and> v \<noteq> val_null" for v
    by (cases v) (simp add: is_truthy_def val_boolean_def val_null_def)
  assume "stands_for h v x"
  then show ?thesis
    unfolding t using kinds_of_words(2) [of False] kinds_of_words(6) kinds_of_words(1) [of False] kinds_of_words(5)
      kinds_of_words(3) [of False] kinds_of_words(8)
    by (cases x) (auto simp: ival_truthy_def simp del: kinds_of_words)
qed

lemma stands_eq:
  assumes "stands_for h v x" "stands_for h w y"
  shows "value_eq (heap_str h) v w = ival_eq x y"
proof (cases "(\<exists>s. x = I_Text s) \<and> (\<exists>t. y = I_Text t)")
  case True
  then show ?thesis using assms value_eq_text [of "heap_str h" v w] by (auto simp: ival_eq_def)
next
  case False
  then have "\<not> (is_string v \<and> is_string w)" using stands_kind(2) assms by blast
  note e = value_eq_other [OF this]
  show ?thesis
    unfolding e using assms False stands_kind [OF assms(1)] stands_kind [OF assms(2)]
    by (cases x; cases y) (auto simp: ival_eq_def as_number_def simp del: kinds_of_words)
qed

section \<open>Texts in the heap\<close>

definition heap_le :: "gc_state \<Rightarrow> gc_state \<Rightarrow> bool" where
  "heap_le h h' \<longleftrightarrow> (\<forall>q x. cell_data h q = Some x \<and> x \<noteq> D_Empty \<longrightarrow> cell_data h' q = Some x)"

lemma heap_le_refl [simp]: "heap_le h h"
  by (simp add: heap_le_def)

lemma heap_le_text: "heap_le h h' \<Longrightarrow> text_le h h'"
  by (auto simp: heap_le_def text_le_def heap_str_cell)

abbreviation vm_ready :: "platform \<Rightarrow> gc_state \<Rightarrow> bool" where
  "vm_ready pf h \<equiv> heap_ready (pf_cell pf) (pf_chunk_at pf) h"

text \<open>An operation on the heap does what the reference semantics says.\<close>

definition meets :: "platform \<Rightarrow> gc_state \<Rightarrow> er_value hres \<Rightarrow> ival ref_out \<Rightarrow> bool" where
  "meets pf h r o1 \<longleftrightarrow>
     (case o1 of
        R_Ok x st \<Rightarrow>
          (case r of
             HOk v h' \<Rightarrow> stands_for h' v x \<and> vm_ready pf h' \<and> heap_le h h'
           | HAbort \<Rightarrow> True
           | _ \<Rightarrow> False)
      | R_Err e \<Rightarrow> r = HErr e
      | _ \<Rightarrow> True)"

lemma val_string_kind: "is_string (val_string p)" "\<not> is_inline_string (val_string p)" "val_tag (val_string p) = TAG_STRING"
proof -
  have "(t OR (p AND PTR_MASK)) AND TAG_FIELD = (t AND TAG_FIELD) OR (p AND (PTR_MASK AND TAG_FIELD))" for t
    by (rule bit_word_eqI) (auto simp: bit_simps)
  moreover have "TAG_STRING AND TAG_FIELD = TAG_STRING" "PTR_MASK AND TAG_FIELD = 0" by (simp_all add: vm_simps)
  ultimately have t: "val_tag (val_string p) = TAG_STRING"
    by (simp add: val_tag_def val_string_def tagged_def)
  then have "hi16 (val_string p) = 0xfff4" by (simp add: hi16_tag)
  with t show "is_string (val_string p)" "\<not> is_inline_string (val_string p)" "val_tag (val_string p) = TAG_STRING"
    by (simp_all add: is_string_def is_inline_hi16)
qed

lemma as_gc_ptr_string: "as_gc_ptr (val_string p) = p AND PTR_MASK"
proof -
  have "(t OR (p AND PTR_MASK)) AND PTR_MASK = (t AND PTR_MASK) OR (p AND PTR_MASK)" for t
    by (rule bit_word_eqI) (auto simp: bit_simps)
  moreover have "TAG_STRING AND PTR_MASK = 0" by (simp add: vm_simps)
  ultimately show ?thesis by (simp add: as_gc_ptr_def val_string_def tagged_def)
qed

lemma stands_for_heap_text:
  assumes "taggable p" "heap_str h p = Some t" "utf8_valid t"
  shows "stands_for h (val_string p) (I_Text t)"
  using assms val_string_kind [of p] as_gc_ptr_string [of p]
  by (simp add: as_str_def wf_text_def taggable_def)

lemma stands_for_inline:
  assumes "inline_string t = Some v" "utf8_valid t"
  shows "stands_for h v (I_Text t)"
proof -
  have "length t \<le> 6" using assms(1) by (auto simp: inline_string_def split: if_splits)
  from inline_string_roundtrip [OF assms(2) this, of "heap_str h"] assms show ?thesis
    by (simp add: wf_text_def)
qed

lemma heap_string_meets:
  assumes "vm_ready pf h" "utf8_valid t"
  shows "meets pf h (heap_string pf t h) (R_Ok (I_Text t) st)"
proof (cases "inline_string t")
  case (Some v)
  then show ?thesis using assms stands_for_inline [OF Some] by (simp add: heap_string_def meets_def)
next
  case None
  show ?thesis
  proof (cases "gc_allocate (pf_cell pf) (pf_chunk_at pf (length (chunks h))) (D_String t) h")
    case None
    then show ?thesis using \<open>inline_string t = None\<close>
      by (simp add: heap_string_def meets_def hbind_def heap_alloc_data_def)
  next
    case (Some r)
    obtain p h' where r: "r = (p, h')" by (cases r)
    note a = allocate_ready [OF assms(1) Some [unfolded r]]
    have "stands_for h' (val_string p) (I_Text t)"
      by (rule stands_for_heap_text) (use a(1) assms(2) in \<open>simp_all add: heap_str_cell\<close>)
    moreover have "heap_le h h'" using a(2) by (simp add: heap_le_def)
    ultimately show ?thesis using \<open>inline_string t = None\<close> Some r a(1)
      by (simp add: heap_string_def meets_def hbind_def heap_alloc_data_def)
  qed
qed

section \<open>Operators\<close>

lemma meets_num: "vm_ready pf h \<Longrightarrow> meets pf h (HOk (number_unchecked n) h) (ival_num n st)"
  by (simp add: meets_def ival_num_def number_unchecked_def)

lemma meets_value: "vm_ready pf h \<Longrightarrow> stands_for h v x \<Longrightarrow> meets pf h (HOk v h) (R_Ok x st)"
  by (simp add: meets_def)

lemma on_numbers_meets:
  assumes "vm_ready pf h" "stands_for h v x" "stands_for h w y"
  shows "meets pf h (on_numbers (\<lambda>a b. number_unchecked (f a b)) v w h) (num_op f x y st)"
proof (cases "is_number v \<and> is_number w")
  case True
  then obtain m n where "x = I_Num m" "y = I_Num n" using stands_kind(1) assms(2,3) by blast
  then show ?thesis using True assms meets_num [OF assms(1)] by (simp add: on_numbers_def num_op_def as_number_def)
next
  case False
  then have "\<not> ((\<exists>n. x = I_Num n) \<and> (\<exists>n. y = I_Num n))" using stands_kind(1) assms(2,3) by blast
  then have "num_op f x y st = R_Err (Ve_Text ''Operands must be numbers'')"
    by (auto simp: num_op_def split: ival.splits)
  then show ?thesis using False by (auto simp: on_numbers_def meets_def)
qed

lemma f64_le_not_lt: "\<not> f64_is_nan a \<Longrightarrow> \<not> f64_is_nan b \<Longrightarrow> f64_le a b = (\<not> f64_lt b a)"
  by (auto simp: f64_le_def f64_lt_def f64_eq_def)

lemma order_outcome:
  assumes "stands_for h v x" "stands_for h w y"
  shows "(\<exists>m n. x = I_Num m \<and> y = I_Num n \<and> on_numbers (\<lambda>a b. val_boolean (f a b)) v w h = HOk (val_boolean (f m n)) h \<and>
      order_op g x y st = (if f64_is_nan m \<or> f64_is_nan n then R_Wild else R_Ok (I_Bool (g m n)) st))
    \<or> (on_numbers (\<lambda>a b. val_boolean (f a b)) v w h = HErr (Ve_Text ''Operands must be numbers'') \<and>
      order_op g x y st = R_Err (Ve_Text ''Operands must be numbers''))"
proof (cases "is_number v \<and> is_number w")
  case True
  then obtain m n where "x = I_Num m" "y = I_Num n" using stands_kind(1) assms by blast
  then show ?thesis using True assms by (simp add: on_numbers_def order_op_def as_number_def)
next
  case False
  then have "\<not> ((\<exists>n. x = I_Num n) \<and> (\<exists>n. y = I_Num n))" using stands_kind(1) assms by blast
  then have "order_op g x y st = R_Err (Ve_Text ''Operands must be numbers'')"
    by (auto simp: order_op_def split: ival.splits)
  then show ?thesis using False by (auto simp: on_numbers_def)
qed

lemma operand_text_ival:
  assumes "stands_for h v x" "ival_text x = Some t" "0 < pf_depth pf"
  shows "operand_text pf h v = Some t \<and> utf8_valid t"
proof -
  obtain n where n: "pf_depth pf = Suc n" using assms(3) by (cases "pf_depth pf") auto
  have a: "utf8_valid (bytes_of ''null'')" "utf8_valid (bytes_of ''true'')" "utf8_valid (bytes_of ''false'')"
    by (auto intro!: utf8_valid_ascii)
  note k = stands_kind [OF assms(1)]
  show ?thesis
  proof (cases x)
    case (I_Num m)
    then show ?thesis using assms k stands_number [of h v m]
      by (simp add: operand_text_def ival_text_def number_text_valid)
  next
    case (I_Bool b)
    then show ?thesis using assms k n a
      by (cases b) (simp_all add: operand_text_def ival_text_def)
  qed (use assms k n a in \<open>simp_all add: operand_text_def ival_text_def str_or_empty_def\<close>)
qed

lemma add_meets:
  assumes "vm_ready pf h" "stands_for h v x" "stands_for h w y" "0 < pf_depth pf"
  shows "meets pf h (add_values pf v w h) (plus_op (pf_nan pf) x y st)"
proof -
  note kx = stands_kind [OF assms(2)] and ky = stands_kind [OF assms(3)]
  consider (num) m n where "x = I_Num m" "y = I_Num n"
    | (str) "\<not> ((\<exists>n. x = I_Num n) \<and> (\<exists>n. y = I_Num n))" "(\<exists>t. x = I_Text t) \<or> (\<exists>t. y = I_Text t)"
    | (other) "\<not> ((\<exists>n. x = I_Num n) \<and> (\<exists>n. y = I_Num n))" "\<not> ((\<exists>t. x = I_Text t) \<or> (\<exists>t. y = I_Text t))"
    by blast
  then show ?thesis
  proof cases
    case num
    then have "as_number v = m" "as_number w = n" using assms(2,3) stands_number by blast+
    then show ?thesis using num kx(1) ky(1) meets_num [OF assms(1)] by (simp add: add_values_def plus_op_def is_ival_text_iff)
  next
    case str
    have p: "plus_op (pf_nan pf) x y st = (case (ival_text x, ival_text y) of
        (Some s, Some t) \<Rightarrow> R_Ok (I_Text (s @ t)) st | _ \<Rightarrow> R_Wild)"
      using str by (auto simp: plus_op_def is_ival_text_iff split: ival.splits)
    have a: "add_values pf v w h = concat_values pf v w h"
      using str kx ky by (auto simp: add_values_def)
    show ?thesis
    proof (cases "\<exists>s t. ival_text x = Some s \<and> ival_text y = Some t")
      case True
      then obtain s t where st: "ival_text x = Some s" "ival_text y = Some t" by blast
      have "operand_text pf h v = Some s \<and> utf8_valid s" "operand_text pf h w = Some t \<and> utf8_valid t"
        by (rule operand_text_ival [OF _ _ assms(4)]; use assms st in simp)+
      then show ?thesis
        using p a st heap_string_meets [OF assms(1), of "s @ t"] by (simp add: concat_values_def utf8_valid_append)
    next
      case False
      then show ?thesis using p by (auto simp: meets_def split: option.splits)
    qed
  next
    case other
    then show ?thesis using kx ky by (auto simp: add_values_def plus_op_def is_ival_text_iff meets_def split: ival.splits)
  qed
qed

lemma not_value_word: "stands_for h v x \<Longrightarrow> not_value v = val_boolean (\<not> ival_truthy x)"
  by (frule stands_kind(3), frule stands_kind(4), cases x) (simp_all add: not_value_def ival_truthy_def)

lemma type_name_word: "stands_for h v x \<Longrightarrow> type_name v = ival_type x"
  by (frule stands_kind(1), frule stands_kind(2), frule stands_kind(3), frule stands_kind(4), cases x)
    (simp_all add: type_name_def ival_type_def)

lemma type_name_valid: "utf8_valid (bytes_of (type_name v))"
  by (rule utf8_valid_ascii) (simp add: type_name_def)

lemma typeof_meets:
  assumes "vm_ready pf h" "stands_for h v x"
  shows "meets pf h (typeof_value pf v h) (R_Ok (I_Text (bytes_of (ival_type x))) st)"
proof (cases "intern_string (pf_cell pf) (pf_chunk_at pf (length (chunks h))) (bytes_of (type_name v)) h")
  case None
  then show ?thesis by (simp add: typeof_value_def meets_def)
next
  case (Some r)
  obtain p h' where r: "r = (p, h')" by (cases r)
  note i = intern_ready [OF assms(1) Some [unfolded r]]
  have "heap_le h h'" using i(2) by (simp add: heap_le_def)
  moreover have "stands_for h' (val_string p) (I_Text (bytes_of (type_name v)))"
    using i(1) type_name_valid by (intro stands_for_heap_text) auto
  ultimately show ?thesis
    using Some r i(1) type_name_word [OF assms(2)] by (simp add: typeof_value_def meets_def)
qed

definition unary_code :: "token_type \<Rightarrow> op_code option" where
  "unary_code opr =
     (if opr = T_Bang then Some NotOp else if opr = T_Minus then Some Negate
      else if opr = T_Tilde then Some BitNot else if opr = T_Typeof then Some TypeOf else None)"

lemma unary_meets:
  assumes "vm_ready pf h" "stands_for h v x" "unary_code opr = Some opc"
  shows "meets pf h (unary_op pf opc v h) (ref_unary opr x st)"
proof -
  have num: "meets pf h (on_number (\<lambda>n. number_unchecked (f n)) v h)
      (case x of I_Num n \<Rightarrow> ival_num (f n) st | _ \<Rightarrow> R_Err (Ve_Text ''Operand must be a number''))" for f
    using stands_kind(1) [OF assms(2)] assms(2) meets_num [OF assms(1)]
    by (cases x) (auto simp: on_number_def as_number_def meets_def)
  have "(opr, opc) \<in> {(T_Bang, NotOp), (T_Minus, Negate), (T_Tilde, BitNot), (T_Typeof, TypeOf)}"
    using assms(3) by (auto simp: unary_code_def split: if_splits)
  then show ?thesis
    using num [of f64_neg] num [of "\<lambda>n. i64_to_f64 (NOT (f64_to_i64 n))"] not_value_word [OF assms(2)]
      typeof_meets [OF assms(1,2)] meets_value [OF assms(1)]
    by (elim insertE emptyE; cases x) (simp_all add: unary_op_def ref_unary_def i64_to_f64_def)
qed

text \<open>A negated operator gives a boolean that the next instruction negates, or the error.\<close>

lemma binary_meets:
  assumes "vm_ready pf h" "stands_for h v x" "stands_for h w y" "0 < pf_depth pf"
    and "binary_code opr = Some (opc, negated)"
  shows "if negated
     then (\<exists>b. binary_op pf opc v w h = HOk (val_boolean b) h \<and> ref_binary (pf_nan pf) opr x y st \<in> {R_Ok (I_Bool (\<not> b)) st, R_Wild})
       \<or> (\<exists>e. binary_op pf opc v w h = HErr e \<and> ref_binary (pf_nan pf) opr x y st = R_Err e)
     else meets pf h (binary_op pf opc v w h) (ref_binary (pf_nan pf) opr x y st)"
proof -
  note num = on_numbers_meets [OF assms(1-3)]
  have int: "meets pf h (bitwise f v w h) (num_op (int_op f) x y st)" for f
    unfolding bitwise_def using num [of "\<lambda>a b. i64_to_f64 (f (f64_to_i64 a) (f64_to_i64 b))"]
    by (simp add: int_op_def [abs_def] i64_to_f64_def)
  have lt: "meets pf h (on_numbers (\<lambda>a b. val_boolean (f a b)) v w h) (order_op f x y st)" for f
    using order_outcome [OF assms(2,3), of f f st] assms(1) by (auto simp: meets_def)
  define negation where "negation r o1 \<longleftrightarrow>
      (\<exists>b. r = HOk (val_boolean b) h \<and> o1 \<in> {R_Ok (I_Bool (\<not> b)) st, R_Wild}) \<or> (\<exists>e. r = HErr e \<and> o1 = R_Err e)"
    for r o1
  have ge: "negation (on_numbers (\<lambda>a b. val_boolean (f a b)) v w h) (order_op g x y st)"
    if "\<And>m n. \<not> f64_is_nan m \<Longrightarrow> \<not> f64_is_nan n \<Longrightarrow> g m n = (\<not> f m n)" for f g
    using order_outcome [OF assms(2,3), of f g st] that unfolding negation_def by auto
  have eq: "value_eq (heap_str h) v w = ival_eq x y" by (rule stands_eq [OF assms(2,3)])
  have cases: "(opr, opc, negated) \<in> {(T_Plus, Add, False), (T_Minus, Sub, False), (T_Star, Mul, False),
      (T_Slash, Div, False), (T_Percent, ModOp, False), (T_Ampersand, BitAnd, False), (T_Pipe, BitOr, False),
      (T_Caret, BitXor, False), (T_LessLess, ShiftLeft, False), (T_GreaterGreater, ShiftRight, False),
      (T_EqualEqual, Equal, False), (T_BangEqual, Equal, True), (T_Greater, Greater, False),
      (T_GreaterEqual, Less, True), (T_Less, Less, False), (T_LessEqual, Greater, True)}"
    using assms(5) by (auto simp: binary_code_def split: if_splits)
  have "if negated then negation (binary_op pf opc v w h) (ref_binary (pf_nan pf) opr x y st)
    else meets pf h (binary_op pf opc v w h) (ref_binary (pf_nan pf) opr x y st)"
    using cases num int add_meets [OF assms(1-4)] eq meets_value [OF assms(1)]
      lt [of f64_lt] lt [of "\<lambda>a b. f64_lt b a"] ge [of f64_le "\<lambda>a b. f64_lt b a"]
      ge [of "\<lambda>a b. f64_le b a" f64_lt]
    by (elim insertE emptyE)
      (simp_all add: binary_op_def ref_binary_def i64_to_f64_def f64_le_not_lt negation_def)
  then show ?thesis unfolding negation_def .
qed

end
