(* ===== verification/Sem_Machine.thy ===== *)
theory Sem_Machine
  imports Sem_Values
begin

text \<open>
  Total-correctness reasoning about the interpreter loop. \<open>goes pf td Q E (pc, m)\<close> says that the machine,
  started at instruction \<open>pc\<close>, reaches after finitely many steps a configuration that satisfies \<open>Q\<close>, or
  stops with an error that satisfies \<open>E\<close>, or runs out of memory; the steps do not depend on what built-in
  methods do. Each instruction of compiled core code has a backward rule.
\<close>

section \<open>Runs\<close>

inductive goes ::
    "platform \<Rightarrow> nat \<Rightarrow> (nat \<times> vm \<Rightarrow> bool) \<Rightarrow> (vm_error \<Rightarrow> bool) \<Rightarrow> nat \<times> vm \<Rightarrow> bool"
  for pf td Q E where
  goes_done: "Q c \<Longrightarrow> goes pf td Q E c"
| goes_step: "(\<And>bm. vm_step pf bm td pc m = VOk (Next pc') m') \<Longrightarrow> goes pf td Q E (pc', m') \<Longrightarrow>
    goes pf td Q E (pc, m)"
| goes_error: "(\<And>bm. vm_step pf bm td pc m = VErr e m') \<Longrightarrow> E e \<Longrightarrow> goes pf td Q E (pc, m)"
| goes_abort: "(\<And>bm. vm_step pf bm td pc m = VAbort) \<Longrightarrow> goes pf td Q E (pc, m)"

lemma goes_chain:
  "goes pf td Q E c \<Longrightarrow> (\<And>c'. Q c' \<Longrightarrow> goes pf td Q' E c') \<Longrightarrow> goes pf td Q' E c"
  by (induction rule: goes.induct) (auto intro: goes.intros)

lemma goes_mono:
  "goes pf td Q E c \<Longrightarrow> (\<And>c'. Q c' \<Longrightarrow> Q' c') \<Longrightarrow> (\<And>e. E e \<Longrightarrow> E' e) \<Longrightarrow> goes pf td Q' E' c"
  by (induction rule: goes.induct) (auto intro: goes.intros)

text \<open>A run is a run of the loop: with enough fuel, the loop gets where the machine goes.\<close>

definition lands :: "platform \<Rightarrow> nat \<Rightarrow> (nat \<times> vm \<Rightarrow> bool) \<Rightarrow> (vm_error \<Rightarrow> bool) \<Rightarrow> nat \<Rightarrow> nat \<times> vm \<Rightarrow> bool" where
  "lands pf td Q E k c \<longleftrightarrow>
     (\<exists>c'. Q c' \<and> (\<forall>n. run_loop (k + n) pf td (fst c) (snd c) = run_loop n pf td (fst c') (snd c')))
     \<or> (\<exists>e m'. E e \<and> (\<forall>n. run_loop (k + n) pf td (fst c) (snd c) = VErr e m'))
     \<or> (\<forall>n. run_loop (k + n) pf td (fst c) (snd c) = VAbort)"

lemma goes_run_loop: "goes pf td Q E c \<Longrightarrow> \<exists>k. lands pf td Q E k c"
proof (induction rule: goes.induct)
  case (goes_done c)
  then have "lands pf td Q E 0 c" unfolding lands_def by (intro disjI1 exI [of _ c]) simp
  then show ?case by blast
next
  case (goes_step pc m pc' m')
  from goes_step(3) obtain k where "lands pf td Q E k (pc', m')" by blast
  then have "lands pf td Q E (Suc k) (pc, m)" using goes_step(1) by (simp add: lands_def vbind_def)
  then show ?case by blast
next
  case (goes_error pc m e m')
  then have "lands pf td Q E 1 (pc, m)" by (auto simp: lands_def vbind_def)
  then show ?case by blast
next
  case (goes_abort pc m)
  then have "lands pf td Q E 1 (pc, m)" by (simp add: lands_def vbind_def)
  then show ?case by blast
qed

section \<open>Registers\<close>

definition getr :: "nat \<Rightarrow> nat \<Rightarrow> vm \<Rightarrow> er_value" where
  "getr base i m = vm_stack m ! (base + i)"

definition setr :: "nat \<Rightarrow> nat \<Rightarrow> er_value \<Rightarrow> vm \<Rightarrow> vm" where
  "setr base i v m = m\<lparr>vm_stack := (vm_stack m)[base + i := v]\<rparr>"

text \<open>The only frame runs the chunk \<open>ch\<close> with its registers at \<open>base\<close>, and nothing captures a register.\<close>

definition running :: "chunk \<Rightarrow> nat \<Rightarrow> vm \<Rightarrow> bool" where
  "running ch base m \<longleftrightarrow> base + 256 \<le> length (vm_stack m) \<and> vm_open_upvalues m = [] \<and>
     (\<exists>fr f. vm_frames m = [fr] \<and> slots_offset fr = base \<and>
        cell_data (vm_heap m) (frame_function fr) = Some (D_Function f) \<and> fn_chunk f = ch)"

lemma setr_frame [simp]:
  "vm_frames (setr base i v m) = vm_frames m" "vm_open_upvalues (setr base i v m) = vm_open_upvalues m" "vm_globals (setr base i v m) = vm_globals m"
  "vm_heap (setr base i v m) = vm_heap m" "vm_scheduler (setr base i v m) = vm_scheduler m"
  "length (vm_stack (setr base i v m)) = length (vm_stack m)"
  by (simp_all add: setr_def)

lemma getr_setr: "running ch base m \<Longrightarrow> i < 256 \<Longrightarrow> getr base i (setr base j v m) = (if i = j then v else getr base i m)"
  by (auto simp: running_def getr_def setr_def)

lemma getr_frame [simp]: "getr base i (m\<lparr>vm_heap := h\<rparr>) = getr base i m" "getr base i (m\<lparr>vm_globals := g\<rparr>) = getr base i m"
  by (simp_all add: getr_def)

lemma running_setr [simp]: "running ch base (setr base i v m) = running ch base m"
  by (simp add: running_def)

lemma running_globals [simp]: "running ch base (m\<lparr>vm_globals := g\<rparr>) = running ch base m"
  by (simp add: running_def)

lemma running_heap: "running ch base m \<Longrightarrow> heap_le (vm_heap m) h \<Longrightarrow> running ch base (m\<lparr>vm_heap := h\<rparr>)"
  by (fastforce simp: running_def heap_le_def)

lemma slot_running:
  assumes "running ch base m" "i < 256"
  shows "slot i m = VOk (getr base i m) m" "set_slot i v m = VOk () (setr base i v m)"
  using assms
  by (auto simp: running_def slot_def set_slot_def set_slot_at_def vbind_def vsome_def frame_base_def vec_index_def
      vec_set_def getr_def setr_def)

lemma reg_of_nat [simp]: "i < 256 \<Longrightarrow> reg (of_nat i) = i"
  by (simp add: reg_def unat_of_nat take_bit_eq_mod)

lemma unat_u32: "n < 4294967296 \<Longrightarrow> unat (of_nat n :: u32) = n"
  by (simp add: unat_of_nat take_bit_eq_mod)

section \<open>One step\<close>

abbreviation ins_of :: "op_code \<Rightarrow> nat \<Rightarrow> nat \<Rightarrow> nat \<Rightarrow> nat \<Rightarrow> instruction" where
  "ins_of opc a b c n \<equiv> \<lparr>op = opc, ra = of_nat a, rb = of_nat b, rc = of_nat c, operand = of_nat n\<rparr>"

definition at_code :: "chunk \<Rightarrow> nat \<Rightarrow> instruction \<Rightarrow> bool" where
  "at_code ch pc i \<longleftrightarrow> pc < length (code ch) \<and> code ch ! pc = i"

lemma data_at_cell: "data_at p m = (case cell_data (vm_heap m) p of Some d \<Rightarrow> VOk d m | None \<Rightarrow> VFault)"
  by (simp add: data_at_def vbind_def vsome_def cell_data_def split: option.splits)

lemma vm_step_at:
  assumes "running ch base m" "at_code ch pc i"
  shows "vm_step pf bm td pc m =
     vbind (execute_math_and_cmp_op pf i) (\<lambda>h. if h then vreturn (Next (pc + 1))
       else execute_op pf bm td ch i (pc + 1)) m"
  using assms
  by (auto simp: running_def at_code_def vm_step_def vbind_def get_raw_func_def unbind_def unclose_def
      function_at_def data_at_cell vec_index_def vsome_def)

lemmas plain_step = vm_step_at execute_math_and_cmp_op_def is_unary_code_def is_binary_code_def vbind_def
  execute_op_def next_if_def slot_running load_constant_def vec_index_def vsome_def

lemma goes_const:
  assumes "running ch base m" "at_code ch pc (ins_of LoadConst d 0 0 n)" "d < 256" "n < length (constants ch)"
    "n < 4294967296" "goes pf td Q E (pc + 1, setr base d (constants ch ! n) m)"
  shows "goes pf td Q E (pc, m)"
  by (rule goes_step [OF _ assms(6)]) (use assms in \<open>simp add: plain_step unat_u32\<close>)

lemma goes_null:
  assumes "running ch base m" "at_code ch pc (ins_of LoadNull d 0 0 0)" "d < 256"
    "goes pf td Q E (pc + 1, setr base d val_null m)"
  shows "goes pf td Q E (pc, m)"
  by (rule goes_step [OF _ assms(4)]) (use assms in \<open>simp add: plain_step\<close>)

lemma goes_bool:
  assumes "running ch base m" "at_code ch pc (ins_of LoadBool d (if b then 1 else 0) 0 0)" "d < 256"
    "goes pf td Q E (pc + 1, setr base d (val_boolean b) m)"
  shows "goes pf td Q E (pc, m)"
  by (rule goes_step [OF _ assms(4)]) (use assms in \<open>cases b; simp add: plain_step\<close>)

lemma goes_move:
  assumes "running ch base m" "at_code ch pc (ins_of Move d a 0 0)" "d < 256" "a < 256"
    "goes pf td Q E (pc + 1, setr base d (getr base a m) m)"
  shows "goes pf td Q E (pc, m)"
  by (rule goes_step [OF _ assms(5)]) (use assms in \<open>simp add: plain_step\<close>)

lemma goes_jump:
  assumes "running ch base m" "at_code ch pc (ins_of Jump 0 0 0 n)" "n < 4294967296"
    "goes pf td Q E (pc + 1 + n, m)"
  shows "goes pf td Q E (pc, m)"
  by (rule goes_step [OF _ assms(4)]) (use assms in \<open>simp add: plain_step unat_u32\<close>)

lemma goes_jump_if_false:
  assumes "running ch base m" "at_code ch pc (ins_of JumpIfFalse a 0 0 n)" "a < 256" "n < 4294967296"
    "goes pf td Q E (if is_truthy (getr base a m) then pc + 1 else pc + 1 + n, m)"
  shows "goes pf td Q E (pc, m)"
  by (rule goes_step [OF _ assms(5)]) (use assms in \<open>simp add: plain_step unat_u32\<close>)

section \<open>Operators\<close>

text \<open>An instruction whose effect is that of an operation on the heap.\<close>

lemma goes_meets:
  assumes ok_step: "\<And>v h bm. u = HOk v h \<Longrightarrow> heap_le (vm_heap m) h \<Longrightarrow>
      vm_step pf bm td pc m = VOk (Next (pc + 1)) (setr base d v (m\<lparr>vm_heap := h\<rparr>))"
    and err_step: "\<And>e bm. u = HErr e \<Longrightarrow> vm_step pf bm td pc m = VErr e m"
    and abort_step: "\<And>bm. u = HAbort \<Longrightarrow> vm_step pf bm td pc m = VAbort"
    and "meets pf (vm_heap m) u r" "r \<noteq> R_Wild" "r \<noteq> R_Fuel"
    and ok: "\<And>x st v h. r = R_Ok x st \<Longrightarrow> stands_for h v x \<Longrightarrow> vm_ready pf h \<Longrightarrow> heap_le (vm_heap m) h \<Longrightarrow>
      goes pf td Q E (pc + 1, setr base d v (m\<lparr>vm_heap := h\<rparr>))"
    and err: "\<And>e. r = R_Err e \<Longrightarrow> E e"
  shows "goes pf td Q E (pc, m)"
proof (cases r)
  case (R_Ok x st')
  show ?thesis
  proof (cases u)
    case (HOk v h)
    then have h: "stands_for h v x" "vm_ready pf h" "heap_le (vm_heap m) h"
      using assms(4) R_Ok by (simp_all add: meets_def)
    show ?thesis by (rule goes_step [OF ok_step [OF HOk h(3)] ok [OF R_Ok h]])
  next
    case HAbort
    show ?thesis by (rule goes_abort) (rule abort_step [OF HAbort])
  qed (use assms(4) R_Ok in \<open>simp_all add: meets_def\<close>)
next
  case (R_Err e)
  then have "u = HErr e" using assms(4) by (simp add: meets_def)
  show ?thesis by (rule goes_error) (rule err_step [OF \<open>u = HErr e\<close>], rule err [OF R_Err])
qed (use assms(5,6) in simp_all)

lemma goes_unary:
  assumes "running ch base m" "at_code ch pc (ins_of opc d a 0 0)" "d < 256" "a < 256"
    and "unary_code opr = Some opc" "meets pf (vm_heap m) (unary_op pf opc (getr base a m) (vm_heap m)) r"
    and "r \<noteq> R_Wild" "r \<noteq> R_Fuel"
    and "\<And>x st v h. r = R_Ok x st \<Longrightarrow> stands_for h v x \<Longrightarrow> vm_ready pf h \<Longrightarrow> heap_le (vm_heap m) h \<Longrightarrow>
      goes pf td Q E (pc + 1, setr base d v (m\<lparr>vm_heap := h\<rparr>))"
    and "\<And>e. r = R_Err e \<Longrightarrow> E e"
  shows "goes pf td Q E (pc, m)"
proof (rule goes_meets [OF _ _ _ assms(6-10)])
  have u: "is_unary_code opc" using assms(5) by (auto simp: unary_code_def is_unary_code_def split: if_splits)
  note st = vm_step_at [OF assms(1,2)] execute_math_and_cmp_op_def vbind_def slot_running [OF assms(1)] vlift_def
  show "vm_step pf bm td pc m = VOk (Next (pc + 1)) (setr base d v (m\<lparr>vm_heap := h\<rparr>))"
    if "unary_op pf opc (getr base a m) (vm_heap m) = HOk v h" "heap_le (vm_heap m) h" for v h bm
    using that assms(3,4) u slot_running(2) [OF running_heap [OF assms(1) that(2)] assms(3)] by (simp add: st)
  show "vm_step pf bm td pc m = VErr e m"
    if "unary_op pf opc (getr base a m) (vm_heap m) = HErr e" for e bm
    using that assms(3,4) u by (simp add: st)
  show "vm_step pf bm td pc m = VAbort"
    if "unary_op pf opc (getr base a m) (vm_heap m) = HAbort" for bm
    using that assms(3,4) u by (simp add: st)
qed

lemma binary_step:
  assumes "running ch base m" "at_code ch pc (ins_of opc d a b 0)" "d < 256" "a < 256" "b < 256" "is_binary_code opc"
  shows "binary_op pf opc (getr base a m) (getr base b m) (vm_heap m) = HOk v h \<Longrightarrow> heap_le (vm_heap m) h \<Longrightarrow>
      vm_step pf bm td pc m = VOk (Next (pc + 1)) (setr base d v (m\<lparr>vm_heap := h\<rparr>))"
    and "binary_op pf opc (getr base a m) (getr base b m) (vm_heap m) = HErr e \<Longrightarrow> vm_step pf bm td pc m = VErr e m"
    and "binary_op pf opc (getr base a m) (getr base b m) (vm_heap m) = HAbort \<Longrightarrow> vm_step pf bm td pc m = VAbort"
proof -
  have n: "\<not> is_unary_code opc" using assms(6) by (auto simp: is_unary_code_def is_binary_code_def)
  note st = vm_step_at [OF assms(1,2)] execute_math_and_cmp_op_def vbind_def slot_running [OF assms(1)] vlift_def
  show "binary_op pf opc (getr base a m) (getr base b m) (vm_heap m) = HOk v h \<Longrightarrow> heap_le (vm_heap m) h \<Longrightarrow>
      vm_step pf bm td pc m = VOk (Next (pc + 1)) (setr base d v (m\<lparr>vm_heap := h\<rparr>))"
    using assms(3-6) n slot_running(2) [OF running_heap [OF assms(1)] assms(3)] by (simp add: st)
  show "binary_op pf opc (getr base a m) (getr base b m) (vm_heap m) = HErr e \<Longrightarrow> vm_step pf bm td pc m = VErr e m"
    "binary_op pf opc (getr base a m) (getr base b m) (vm_heap m) = HAbort \<Longrightarrow> vm_step pf bm td pc m = VAbort"
    using assms(3-6) n by (simp_all add: st)
qed

lemma goes_binary:
  assumes "running ch base m" "at_code ch pc (ins_of opc d a b 0)" "d < 256" "a < 256" "b < 256" "is_binary_code opc"
    and "meets pf (vm_heap m) (binary_op pf opc (getr base a m) (getr base b m) (vm_heap m)) r"
    and "r \<noteq> R_Wild" "r \<noteq> R_Fuel"
    and "\<And>x st v h. r = R_Ok x st \<Longrightarrow> stands_for h v x \<Longrightarrow> vm_ready pf h \<Longrightarrow> heap_le (vm_heap m) h \<Longrightarrow>
      goes pf td Q E (pc + 1, setr base d v (m\<lparr>vm_heap := h\<rparr>))"
    and "\<And>e. r = R_Err e \<Longrightarrow> E e"
  shows "goes pf td Q E (pc, m)"
  by (rule goes_meets [OF _ _ _ assms(7-11)]) (rule binary_step [OF assms(1-6)]; assumption)+

section \<open>Globals\<close>

lemma text_of_word: "as_str (heap_str (vm_heap m)) k = Some t \<Longrightarrow> text_of k m = VOk t m"
  by (simp add: text_of_def vm_rd_def str_or_empty_def)

definition const_text :: "chunk \<Rightarrow> gc_state \<Rightarrow> nat \<Rightarrow> u8 list \<Rightarrow> bool" where
  "const_text ch h n t \<longleftrightarrow> n < length (constants ch) \<and> n < 4294967296 \<and> as_str (heap_str h) (constants ch ! n) = Some t"

lemma goes_define_global:
  assumes "running ch base m" "at_code ch pc (ins_of DefineGlobal a 0 0 n)" "a < 256" "const_text ch (vm_heap m) n k"
    "goes pf td Q E (pc + 1, m\<lparr>vm_globals := put_entry k (getr base a m) (vm_globals m)\<rparr>)"
  shows "goes pf td Q E (pc, m)"
  by (rule goes_step [OF _ assms(5)])
    (use assms in \<open>simp add: plain_step unat_u32 const_text_def text_of_word set_global_def\<close>)

lemma goes_get_global:
  assumes "running ch base m" "at_code ch pc (ins_of GetGlobal d 0 0 n)" "d < 256" "const_text ch (vm_heap m) n k"
    and "\<And>v. map_of (vm_globals m) k = Some v \<Longrightarrow> goes pf td Q E (pc + 1, setr base d v m)"
    and "map_of (vm_globals m) k = None \<Longrightarrow> E (Ve_Undefined k)"
  shows "goes pf td Q E (pc, m)"
proof (cases "map_of (vm_globals m) k")
  case None
  then show ?thesis
    by (intro goes_error [where e = "Ve_Undefined k" and m' = m] assms(6))
      (use assms(1-4) in \<open>simp_all add: plain_step unat_u32 const_text_def text_of_word get_global_def\<close>)
next
  case (Some v)
  then show ?thesis
    by (intro goes_step [OF _ assms(5)])
      (use assms(1-4) in \<open>simp_all add: plain_step unat_u32 const_text_def text_of_word get_global_def\<close>)
qed

lemma goes_set_global:
  assumes "running ch base m" "at_code ch pc (ins_of SetGlobal a 0 0 n)" "a < 256" "const_text ch (vm_heap m) n k"
    and "map_of (vm_globals m) k \<noteq> None \<Longrightarrow>
      goes pf td Q E (pc + 1, m\<lparr>vm_globals := put_entry k (getr base a m) (vm_globals m)\<rparr>)"
    and "map_of (vm_globals m) k = None \<Longrightarrow> E (Ve_Undeclared k)"
  shows "goes pf td Q E (pc, m)"
proof (cases "map_of (vm_globals m) k")
  case None
  then show ?thesis
    by (intro goes_error [where e = "Ve_Undeclared k" and m' = m] assms(6))
      (use assms(1-4) in \<open>simp_all add: plain_step unat_u32 const_text_def text_of_word update_global_def\<close>)
next
  case (Some v)
  then show ?thesis
    by (intro goes_step [OF _ assms(5)])
      (use assms(1-4) in \<open>simp_all add: plain_step unat_u32 const_text_def text_of_word update_global_def set_global_def\<close>)
qed

section \<open>Jumping back\<close>

lemma goes_loop:
  assumes "running ch base m" "at_code ch pc (ins_of Loop 0 0 0 n)" "n < 4294967296" "n \<le> pc + 1"
    and "vm_ready pf (vm_heap m)" "\<not> interrupted m"
    and go: "\<And>h. running ch base (m\<lparr>vm_heap := h\<rparr>) \<Longrightarrow> vm_ready pf h \<Longrightarrow> text_le (vm_heap m) h \<Longrightarrow>
      goes pf td Q E (pc + 1 - n, m\<lparr>vm_heap := h\<rparr>)"
  shows "goes pf td Q E (pc, m)"
proof -
  obtain fr f where fr: "vm_frames m = [fr]" "slots_offset fr = base"
    "cell_data (vm_heap m) (frame_function fr) = Some (D_Function f)" "fn_chunk f = ch"
    using assms(1) unfolding running_def by blast
  obtain ob where ob: "deref (frame_function fr) (vm_heap m) = Some ob" "obj_data ob = D_Function f"
    using fr(3) by (auto simp: cell_data_def)
  define f' where "f' = f\<lparr>invocation_count := invocation_count f + 1\<rparr>"
  define h where "h = write_obj (frame_function fr) (ob\<lparr>obj_data := D_Function f'\<rparr>) (vm_heap m)"
  have r: "vm_ready pf h \<and> text_le (vm_heap m) h"
    unfolding h_def by (rule write_ready [OF assms(5) fr(3)]) simp_all
  have "cell_data h (frame_function fr) = Some (D_Function f')"
    by (simp add: h_def cell_data_def deref_def write_obj_def)
  then have run: "running ch base (m\<lparr>vm_heap := h\<rparr>)"
    using assms(1) fr by (auto simp: running_def f'_def)
  have "count_loop m = VOk () (m\<lparr>vm_heap := h\<rparr>)"
    using fr ob
    by (simp add: count_loop_def vbind_def unclose_def function_at_def data_at_cell count_invocation_def set_data_def
        vheap_def h_def f'_def)
  moreover have "interrupted (m\<lparr>vm_heap := h\<rparr>) = interrupted m" by (simp add: interrupted_def)
  ultimately show ?thesis
    by (intro goes_step [OF _ go [OF run]])
      (use assms r in \<open>simp_all add: plain_step unat_u32 jump_back_def\<close>)
qed

end
