(* ===== verification/Sem_Compile.thy ===== *)
theory Sem_Compile
  imports Sem_Machine
begin

text \<open>
  What the compiler's primitives do to the code, the constants and the heap of a compiler without a parent,
  and that the code of a core expression is appended to what is there.
\<close>

section \<open>Inversion\<close>

lemma cbind_COk: "cbind f g s = COk y s' \<longleftrightarrow> (\<exists>x s1. f s = COk x s1 \<and> g x s1 = COk y s')"
  by (auto simp: cbind_def split: cres.splits)

lemma cthen_COk: "cthen f g s = COk y s' \<longleftrightarrow> (\<exists>x s1. f s = COk x s1 \<and> g s1 = COk y s')"
  by (simp add: cthen_def cbind_COk)

lemma cseq_COk:
  "cseq [] s = COk y s' \<longleftrightarrow> s' = s" "cseq (f # fs) s = COk y s' \<longleftrightarrow> (\<exists>x s1. f s = COk x s1 \<and> cseq fs s1 = COk y s')"
  by (auto simp: creturn_def cthen_COk)

lemma simple_COk [simp]:
  "cself f s = COk (f (cur s)) s" "cget f' s = COk (f' s) s" "creturn x s = COk x s"
  "cfail e s \<noteq> COk x s'" "cpanic s \<noteq> COk x s'" "cfuel s \<noteq> COk x s'" "COk x s = COk y s'' \<longleftrightarrow> x = y \<and> s = s''"
  by (simp_all add: cself_def cget_def creturn_def cfail_def cpanic_def cfuel_def)

lemmas compile_inv = cbind_COk cthen_COk cseq_COk

section \<open>Code and constants\<close>

definition code_of :: "comp_state \<Rightarrow> instruction list" where
  "code_of s = code (the_chunk (cur s))"

definition consts_of :: "comp_state \<Rightarrow> er_value list" where
  "consts_of s = constants (the_chunk (cur s))"

definition put_code :: "instruction list \<Rightarrow> comp_state \<Rightarrow> comp_state" where
  "put_code is s = set_cur (upd_chunk (\<lambda>ch. ch\<lparr>code := is\<rparr>) (cur s)) s"

definition put_consts :: "er_value list \<Rightarrow> comp_state \<Rightarrow> comp_state" where
  "put_consts vs s = set_cur (upd_chunk (\<lambda>ch. ch\<lparr>constants := vs\<rparr>) (cur s)) s"

definition lone :: "comp_state \<Rightarrow> bool" where
  "lone s \<longleftrightarrow> (\<exists>c. cs_chain s = [c])"

lemma cur_of_set_cur [simp]: "cur (set_cur c s) = c"
  by (simp add: cur_def set_cur_def)

lemma lone_set_cur [simp]: "lone s \<Longrightarrow> lone (set_cur c s)"
  by (auto simp: lone_def set_cur_def)

lemma put_simps [simp]:
  "code_of (put_code is s) = is" "consts_of (put_code is s) = consts_of s"
  "code_of (put_consts vs s) = code_of s" "consts_of (put_consts vs s) = vs"
  "lone s \<Longrightarrow> lone (put_code is s)" "lone s \<Longrightarrow> lone (put_consts vs s)"
  "cs_heap (put_code is s) = cs_heap s" "cs_heap (put_consts vs s) = cs_heap s"
  by (simp_all add: code_of_def consts_of_def put_code_def put_consts_def upd_chunk_def the_chunk_def set_cur_def cur_def)
    (auto simp: lone_def)

lemma put_put [simp]: "put_code is (put_code js s) = put_code is s"
  by (simp add: put_code_def set_cur_def upd_chunk_def the_chunk_def cur_def)

lemma emit_eq: "emit opc a b c n s = COk () (put_code (code_of s @ [ins_of opc a b c n]) s)"
  by (simp add: emit_def cupdate_def cmodify_def put_code_def write_instruction_def code_of_def upd_chunk_def
      the_chunk_def)

lemma code_len_eq: "code_len s = COk (length (code_of s)) s"
  by (simp add: code_len_def code_of_def)

lemma emit_jump_eq:
  "emit_jump opc r s = COk (length (code_of s)) (put_code (code_of s @ [ins_of opc r 0 0 0]) s)"
  by (simp add: emit_jump_def cthen_def cbind_def emit_eq code_len_eq creturn_def)

lemma add_const_eq: "add_const v s = COk (length (consts_of s)) (put_consts (consts_of s @ [v]) s)"
  by (simp add: add_const_def cbind_def cthen_def cupdate_def cmodify_def put_consts_def consts_of_def
      add_constant_def upd_chunk_def the_chunk_def creturn_def cself_def cget_def Let_def)

lemma patch_jump_to_COk:
  "patch_jump_to j target s = COk x s' \<longleftrightarrow>
     1 + j \<le> target \<and> j < length (code_of s) \<and> is_jump (op (code_of s ! j)) \<and>
     s' = put_code ((code_of s)[j := (code_of s ! j)\<lparr>operand := of_nat (target - 1 - j)\<rparr>]) s"
  by (auto simp: patch_jump_to_def compile_inv code_of_def put_code_def cupdate_def cmodify_def upd_chunk_def the_chunk_def
      cpanic_def split: if_splits)

lemma patch_jump_COk:
  "patch_jump j s = COk x s' \<longleftrightarrow>
     j < length (code_of s) \<and> is_jump (op (code_of s ! j)) \<and>
     s' = put_code ((code_of s)[j := (code_of s ! j)\<lparr>operand := of_nat (length (code_of s) - 1 - j)\<rparr>]) s"
  by (auto simp: patch_jump_def compile_inv code_len_eq patch_jump_to_COk)

section \<open>What an expression leaves alone\<close>

definition comp_ready :: "comp_state \<Rightarrow> bool" where
  "comp_ready s \<longleftrightarrow> lone s \<and> heap_ready (cs_cell s) (cs_chunk_at s) (cs_heap s)"

text \<open>Only code from \<open>k\<close> on and constants are new; texts stay readable.\<close>

definition advances :: "nat \<Rightarrow> comp_state \<Rightarrow> comp_state \<Rightarrow> bool" where
  "advances k s s' \<longleftrightarrow>
     comp_ready s' \<and> cur s' = cur (put_code (code_of s') (put_consts (consts_of s') s)) \<and>
     take k (code_of s') = take k (code_of s) \<and> length (code_of s) \<le> length (code_of s') \<and>
     (\<exists>vs. consts_of s' = consts_of s @ vs) \<and> text_le (cs_heap s) (cs_heap s') \<and>
     cs_const_globals s' = cs_const_globals s \<and> cs_effects s' = cs_effects s \<and>
     cs_cell s' = cs_cell s \<and> cs_chunk_at s' = cs_chunk_at s \<and> cs_nan s' = cs_nan s"

lemma cur_put [simp]:
  "cur (put_code is s) = upd_chunk (\<lambda>ch. ch\<lparr>code := is\<rparr>) (cur s)"
  "cur (put_consts vs s) = upd_chunk (\<lambda>ch. ch\<lparr>constants := vs\<rparr>) (cur s)"
  by (simp_all add: put_code_def put_consts_def)

lemma put_state [simp]:
  "cs_const_globals (put_code is s) = cs_const_globals s" "cs_const_globals (put_consts vs s) = cs_const_globals s"
  "cs_effects (put_code is s) = cs_effects s" "cs_effects (put_consts vs s) = cs_effects s"
  "cs_cell (put_code is s) = cs_cell s" "cs_cell (put_consts vs s) = cs_cell s"
  "cs_chunk_at (put_code is s) = cs_chunk_at s" "cs_chunk_at (put_consts vs s) = cs_chunk_at s"
  "cs_nan (put_code is s) = cs_nan s" "cs_nan (put_consts vs s) = cs_nan s"
  by (simp_all add: put_code_def put_consts_def set_cur_def)

lemma upd_chunk_same [simp]:
  "upd_chunk f (upd_chunk g c) = upd_chunk (\<lambda>ch. f (g ch)) c" "the_chunk (upd_chunk f c) = f (the_chunk c)"
  by (simp_all add: upd_chunk_def the_chunk_def)

lemma upd_chunk_id: "f (the_chunk c) = the_chunk c \<Longrightarrow> upd_chunk f c = c"
  by (simp add: upd_chunk_def the_chunk_def)

lemma upd_chunk_eqI: "f (the_chunk c) = g (the_chunk c) \<Longrightarrow> upd_chunk f c = upd_chunk g c"
  by (simp add: upd_chunk_def)

lemma advances_refl: "comp_ready s \<Longrightarrow> advances k s s"
  by (simp add: advances_def upd_chunk_id code_of_def consts_of_def)

lemma advances_trans:
  assumes "advances k s1 s2" "advances k s2 s3"
  shows "advances k s1 s3"
  using assms unfolding advances_def by (auto intro: text_le_trans)

lemma advances_less: "advances k s s' \<Longrightarrow> j \<le> k \<Longrightarrow> advances j s s'"
proof -
  assume g: "advances k s s'" "j \<le> k"
  then have "take j (take k (code_of s')) = take j (take k (code_of s))" by (simp add: advances_def)
  then show ?thesis using g by (simp add: advances_def min_def)
qed

lemma advances_code: "comp_ready s \<Longrightarrow> take k is = take k (code_of s) \<Longrightarrow> length (code_of s) \<le> length is \<Longrightarrow> advances k s (put_code is s)"
  by (auto simp: advances_def comp_ready_def code_of_def consts_of_def intro!: upd_chunk_eqI)

lemma advances_emit: "comp_ready s \<Longrightarrow> k \<le> length (code_of s) \<Longrightarrow> advances k s (put_code (code_of s @ is) s)"
  by (rule advances_code) simp_all

lemma advances_patch:
  "advances k s s' \<Longrightarrow> k \<le> j \<Longrightarrow> advances k s (put_code ((code_of s')[j := i]) s')"
  by (rule advances_trans, assumption, rule advances_code) (auto simp: advances_def)

lemma advances_consts: "comp_ready s \<Longrightarrow> advances k s (put_consts (consts_of s @ vs) s)"
  by (auto simp: advances_def comp_ready_def code_of_def consts_of_def intro!: upd_chunk_eqI)

lemma advances_ready: "advances k s s' \<Longrightarrow> comp_ready s'" "comp_ready s \<Longrightarrow> lone s"
  by (auto simp: advances_def comp_ready_def)

text \<open>The parts of the compiler an expression reads.\<close>

lemma advances_env:
  assumes "advances k s s'"
  shows "c_locals (cur s') = c_locals (cur s)" "c_next_reg (cur s') = c_next_reg (cur s)"
    "c_scope_depth (cur s') = c_scope_depth (cur s)" "c_loop_stack (cur s') = c_loop_stack (cur s)"
    "c_concurrent_scopes (cur s') = c_concurrent_scopes (cur s)"
    "length (code_of s) \<le> length (code_of s')"
  using assms unfolding advances_def by (auto simp: upd_chunk_def)

lemma advances_nth: "advances k s s' \<Longrightarrow> i < k \<Longrightarrow> code_of s' ! i = code_of s ! i"
  unfolding advances_def by (metis nth_take)

section \<open>Texts and numbers as constants\<close>

lemma string_from_str_COk:
  assumes "string_from_str t s = COk v s'" "comp_ready s"
  shows "advances k s s' \<and> stands_for (cs_heap s') v (I_Text (utf8_of t)) \<and> code_of s' = code_of s \<and> consts_of s' = consts_of s"
proof (cases "inline_string (utf8_of t)")
  case (Some w)
  then show ?thesis
    using assms stands_for_inline [OF Some utf8_of_valid] by (auto simp: string_from_str_def advances_refl)
next
  case None
  obtain p h where p: "gc_allocate (cs_cell s) (cs_chunk_at s (length (chunks (cs_heap s)))) (D_String (utf8_of t)) (cs_heap s) = Some (p, h)"
    "v = val_string p" "s' = s\<lparr>cs_heap := h\<rparr>"
    using assms(1) None by (auto simp: string_from_str_def compile_inv heap_alloc_def split: option.splits)
  have r: "heap_ready (cs_cell s) (cs_chunk_at s) (cs_heap s)" using assms(2) by (simp add: comp_ready_def)
  note a = allocate_ready [OF r p(1)] allocate_text_le [OF r p(1)]
  have eqs: "code_of s' = code_of s" "consts_of s' = consts_of s" "cur s' = cur s"
    using p(3) by (simp_all add: code_of_def consts_of_def cur_def)
  have "comp_ready s'" using a(1) p(3) assms(2) by (simp add: comp_ready_def lone_def)
  then have "advances k s s'"
    using a(3) p(3) eqs unfolding advances_def by (simp add: upd_chunk_id code_of_def consts_of_def)
  moreover have "stands_for (cs_heap s') v (I_Text (utf8_of t))"
    using p(2,3) a(1) utf8_of_valid by (auto intro!: stands_for_heap_text simp: heap_str_cell simp del: stands_for.simps)
  ultimately show ?thesis using eqs by blast
qed

lemma string_const_COk:
  assumes "string_const t s = COk i s'" "comp_ready s"
  shows "advances k s s' \<and> i = length (consts_of s) \<and> code_of s' = code_of s \<and>
    (\<exists>v. consts_of s' = consts_of s @ [v] \<and> stands_for (cs_heap s') v (I_Text (utf8_of t)))"
proof -
  obtain v s1 where s1: "string_from_str t s = COk v s1" "add_const v s1 = COk i s'"
    using assms(1) by (auto simp: string_const_def compile_inv)
  note a = string_from_str_COk [OF s1(1) assms(2), of k]
  have e: "i = length (consts_of s1)" "s' = put_consts (consts_of s1 @ [v]) s1"
    using s1(2) by (simp_all add: add_const_eq)
  have "advances k s1 s'" unfolding e(2) by (rule advances_consts) (use a advances_ready in blast)
  then have "advances k s s'" using a advances_trans by blast
  then show ?thesis using a e by (intro conjI exI [of _ v]) auto
qed

lemma number_const_COk:
  "number_const n s = COk i s' \<longleftrightarrow> i = length (consts_of s) \<and> s' = put_consts (consts_of s @ [val_number n]) s"
  by (auto simp: number_const_def add_const_eq)

section \<open>Checks and names\<close>

lemma refuse_const_COk: "refuse_const b name l decl s = COk x s' \<Longrightarrow> s' = s"
  by (auto simp: refuse_const_def split: if_splits)

lemma refuse_const_global_COk: "refuse_const_global name l s = COk x s' \<Longrightarrow> s' = s"
  by (auto simp: refuse_const_global_def compile_inv split: option.splits)

lemma require_type_opt_COk: "require_type_opt n e ty l s = COk x s' \<Longrightarrow> s' = s"
  by (auto simp: require_type_opt_def require_type_def compile_inv split: option.splits sum.splits)

lemma resolve_local_eq: "resolve_local name s = COk (find_local name (cur s)) s"
  by (simp add: resolve_local_def)

lemma resolve_upvalue_lone: "lone s \<Longrightarrow> resolve_upvalue name s = COk None s"
  by (auto simp: resolve_upvalue_def lone_def)

lemma last_index_map: "last_index P (map f xs) = last_index (\<lambda>x. P (f x)) xs"
proof -
  have "position P (map f ys) = position (\<lambda>x. P (f x)) ys" for ys by (induction ys) auto
  then show ?thesis by (simp add: last_index_def rev_map)
qed

lemma find_local_var:
  assumes "map l_name (c_locals c) = map fst (rs_locals st)"
  shows "find_local name c = find_var name st"
proof -
  have "find_local name c = last_index (\<lambda>n. n = name) (map l_name (c_locals c))"
    by (simp add: find_local_def last_index_map)
  also have "\<dots> = find_var name st" by (simp add: assms find_var_def last_index_map)
  finally show ?thesis .
qed

lemma last_index_Some: "last_index P xs = Some i \<Longrightarrow> i < length xs \<and> P (xs ! i)"
  by (auto simp: last_index_def rev_nth dest!: position_Some)

end
