(* ===== verification/Sem_Expr.thy ===== *)
theory Sem_Expr
  imports Sem_Compile
begin

text \<open>
  The code of a core expression computes what the reference semantics says: run from its first instruction,
  it reaches the instruction behind it with the result in its register, the locals and globals as the
  reference leaves them, and the registers between the locals and the result untouched; or it stops with the
  reference's error.
\<close>

section \<open>Code of expressions is appended\<close>

lemma sub_expr_COk:
  "sub_expr (compilers n) e dest s = COk u s' \<Longrightarrow> \<exists>m. n = Suc m \<and> compile_expr (compilers m) e dest s = COk u s'"
  by (cases n) (auto simp: Let_def)

lemma advances_step:
  "advances k s s1 \<Longrightarrow> advances (length (code_of s1)) s1 s2 \<Longrightarrow> k \<le> length (code_of s) \<Longrightarrow> advances k s s2"
  by (meson advances_trans advances_less advances_env(6) le_trans)

lemma advances_put_emit: "advances k s s1 \<Longrightarrow> k \<le> length (code_of s) \<Longrightarrow> advances k s (put_code (code_of s1 @ is) s1)"
  by (meson advances_trans advances_emit advances_ready(1) advances_env(6) le_trans)

lemma move_unless_COk:
  "move_unless d a s = COk u s' \<Longrightarrow> (d = a \<and> s' = s) \<or> (d \<noteq> a \<and> s' = put_code (code_of s @ [ins_of Move d a 0 0]) s)"
  by (auto simp: move_unless_def emit_eq split: if_splits)

lemma move_unless_advances:
  assumes "move_unless d a s1 = COk u s'" "advances k s s1" "k \<le> length (code_of s)"
  shows "advances k s s'"
  using move_unless_COk [OF assms(1)] assms(2,3) advances_put_emit by auto

lemma literal_advances:
  assumes "compile_literal l dest s = COk u s'" "comp_ready s" "k \<le> length (code_of s)"
  shows "advances k s s'"
proof (cases l)
  case (L_String t)
  then obtain i s1 where s1: "string_const t s = COk i s1" "s' = put_code (code_of s1 @ [ins_of LoadConst dest 0 0 i]) s1"
    using assms(1) by (auto simp: compile_literal_def compile_inv emit_eq)
  show ?thesis unfolding s1(2) using string_const_COk [OF s1(1) assms(2)] assms(3) by (intro advances_put_emit) auto
next
  case (L_Number n)
  have "advances k s (put_consts (consts_of s @ [val_number n]) s)" by (rule advances_consts [OF assms(2)])
  from advances_put_emit [OF this assms(3)] show ?thesis
    using assms(1) L_Number by (auto simp: compile_literal_def compile_inv emit_eq number_const_COk)
qed (use assms in \<open>auto simp: compile_literal_def emit_eq intro!: advances_emit\<close>)

text \<open>The forms a variable takes without enclosing functions: a local, or a global named by a constant.\<close>

lemma variable_cases:
  assumes "compile_variable name dest s = COk u s'" "comp_ready s"
  shows "(\<exists>i. find_local name (cur s) = Some i \<and> move_unless dest i s = COk u s') \<or>
    (find_local name (cur s) = None \<and>
      (\<exists>i s1. string_const name s = COk i s1 \<and> s' = put_code (code_of s1 @ [ins_of GetGlobal dest 0 0 i]) s1))"
proof (cases "find_local name (cur s)")
  case None
  then show ?thesis
    using assms by (auto simp: compile_variable_def compile_inv resolve_local_eq comp_ready_def resolve_upvalue_lone
        emit_eq)
next
  case (Some i)
  then show ?thesis using assms by (auto simp: compile_variable_def compile_inv resolve_local_eq)
qed

lemma variable_advances:
  assumes "compile_variable name dest s = COk u s'" "comp_ready s" "k \<le> length (code_of s)"
  shows "advances k s s'"
  using variable_cases [OF assms(1,2)]
proof (elim disjE exE conjE)
  fix i s1 assume "string_const name s = COk i s1" and s': "s' = put_code (code_of s1 @ [ins_of GetGlobal dest 0 0 i]) s1"
  then show ?thesis unfolding s' using string_const_COk [OF _ assms(2)] assms(3) by (intro advances_put_emit) auto
qed (use assms(2,3) in \<open>auto intro: move_unless_advances advances_refl\<close>)

lemma assign_cases:
  assumes "compile_assign r name e l dest s = COk u s'" "comp_ready s"
  shows "(\<exists>i s1. find_local name (cur s) = Some i \<and> sub_expr r e dest s = COk () s1 \<and>
      s' = (if dest = i then s1 else put_code (code_of s1 @ [ins_of Move i dest 0 0]) s1)) \<or>
    (find_local name (cur s) = None \<and>
      (\<exists>i s1 s2. sub_expr r e dest s = COk () s1 \<and> string_const name s1 = COk i s2 \<and>
        s' = put_code (code_of s2 @ [ins_of SetGlobal dest 0 0 i]) s2))"
proof (cases "find_local name (cur s)")
  case None
  then show ?thesis
    using assms
    by (auto simp: compile_assign_def compile_inv resolve_local_eq comp_ready_def resolve_upvalue_lone emit_eq
        dest!: refuse_const_global_COk require_type_opt_COk)
next
  case (Some i)
  then show ?thesis
    using assms
    by (auto simp: compile_assign_def compile_inv resolve_local_eq local_at_def emit_eq split: if_splits
        dest!: refuse_const_COk require_type_opt_COk)
qed

text \<open>Increments: the number one in the first free register, then the variable.\<close>

definition one_reg :: "comp_state \<Rightarrow> nat \<Rightarrow> nat" where
  "one_reg s dest = max (c_next_reg (cur s)) (dest + 1)"

definition with_one :: "comp_state \<Rightarrow> nat \<Rightarrow> comp_state" where
  "with_one s dest =
     (let s1 = put_consts (consts_of s @ [val_number (f64_of_nat 1)]) s
      in put_code (code_of s @ [ins_of LoadConst (one_reg s dest) 0 0 (length (consts_of s))]) s1)"

lemma with_one_simps [simp]:
  "code_of (with_one s dest) = code_of s @ [ins_of LoadConst (one_reg s dest) 0 0 (length (consts_of s))]"
  "consts_of (with_one s dest) = consts_of s @ [val_number (f64_of_nat 1)]"
  by (simp_all add: with_one_def Let_def)

lemma with_one_advances: "comp_ready s \<Longrightarrow> k \<le> length (code_of s) \<Longrightarrow> advances k s (with_one s dest)"
  using advances_put_emit [OF advances_consts [of s k "[val_number (f64_of_nat 1)]"]]
  by (simp add: with_one_def Let_def)

lemma inc_dec_cases:
  assumes "compile_inc_dec bad target opr dest s = COk u s'"
  shows "\<exists>opc. update_code opr = Some opc \<and> target opc (one_reg s dest) (with_one s dest) = COk u s'"
  using assms
  by (auto simp: compile_inc_dec_def compile_inv next_reg_def number_const_COk emit_eq with_one_def one_reg_def Let_def
      split: option.splits)

lemma prefix_cases:
  assumes "prefix_variable name l opc one dest s = COk u s'" "comp_ready s"
  shows "(\<exists>i. find_local name (cur s) = Some i \<and>
      move_unless dest i (put_code (code_of s @ [ins_of opc i i one 0]) s) = COk u s') \<or>
    (find_local name (cur s) = None \<and>
      (\<exists>i s1. string_const name s = COk i s1 \<and>
        s' = put_code (code_of s1 @ [ins_of GetGlobal dest 0 0 i, ins_of opc dest dest one 0, ins_of SetGlobal dest 0 0 i]) s1))"
proof (cases "find_local name (cur s)")
  case None
  then show ?thesis
    using assms
    by (auto simp: prefix_variable_def compile_inv resolve_local_eq comp_ready_def resolve_upvalue_lone emit_eq put_code_def
        set_cur_def cur_def code_of_def dest!: refuse_const_global_COk)
next
  case (Some i)
  then show ?thesis
    using assms
    by (auto simp: prefix_variable_def compile_inv resolve_local_eq local_at_def emit_eq dest!: refuse_const_COk)
qed

lemma postfix_cases:
  assumes "postfix_variable name l opc one dest s = COk u s'" "comp_ready s"
  shows "(\<exists>i s1. find_local name (cur s) = Some i \<and> move_unless dest i s = COk () s1 \<and>
      s' = put_code (code_of s1 @ [ins_of opc i i one 0]) s1) \<or>
    (find_local name (cur s) = None \<and>
      (\<exists>i s1. string_const name s = COk i s1 \<and>
        s' = put_code (code_of s1 @ [ins_of GetGlobal dest 0 0 i, ins_of opc (one + 1) dest one 0,
          ins_of SetGlobal (one + 1) 0 0 i]) s1))"
proof (cases "find_local name (cur s)")
  case None
  then show ?thesis
    using assms
    by (auto simp: postfix_variable_def compile_inv resolve_local_eq comp_ready_def resolve_upvalue_lone emit_eq put_code_def
        set_cur_def cur_def code_of_def dest!: refuse_const_global_COk)
next
  case (Some i)
  then show ?thesis
    using assms
    by (auto simp: postfix_variable_def compile_inv resolve_local_eq local_at_def emit_eq dest!: refuse_const_COk)
qed

lemma prefix_advances:
  assumes "prefix_variable name l opc one dest s1 = COk u s'" "advances k s s1" "k \<le> length (code_of s)"
  shows "advances k s s'"
proof -
  have r: "comp_ready s1" using assms(2) by (rule advances_ready)
  from prefix_cases [OF assms(1) r] show ?thesis
  proof (elim disjE exE conjE)
    fix i assume "move_unless dest i (put_code (code_of s1 @ [ins_of opc i i one 0]) s1) = COk u s'"
    then show ?thesis by (rule move_unless_advances [OF _ advances_put_emit [OF assms(2,3)] assms(3)])
  next
    fix i s2 assume "string_const name s1 = COk i s2" and s': "s' = put_code (code_of s2 @
      [ins_of GetGlobal dest 0 0 i, ins_of opc dest dest one 0, ins_of SetGlobal dest 0 0 i]) s2"
    then have "advances k s s2" using string_const_COk [OF _ r] assms(2) advances_trans by blast
    then show ?thesis unfolding s' by (rule advances_put_emit [OF _ assms(3)])
  qed
qed

lemma postfix_advances:
  assumes "postfix_variable name l opc one dest s1 = COk u s'" "advances k s s1" "k \<le> length (code_of s)"
  shows "advances k s s'"
proof -
  have r: "comp_ready s1" using assms(2) by (rule advances_ready)
  from postfix_cases [OF assms(1) r] show ?thesis
  proof (elim disjE exE conjE)
    fix i s2 assume "move_unless dest i s1 = COk () s2" and s': "s' = put_code (code_of s2 @ [ins_of opc i i one 0]) s2"
    then have "advances k s s2" using move_unless_advances assms(2,3) by blast
    then show ?thesis unfolding s' by (rule advances_put_emit [OF _ assms(3)])
  next
    fix i s2 assume "string_const name s1 = COk i s2" and s': "s' = put_code (code_of s2 @
      [ins_of GetGlobal dest 0 0 i, ins_of opc (one + 1) dest one 0, ins_of SetGlobal (one + 1) 0 0 i]) s2"
    then have "advances k s s2" using string_const_COk [OF _ r] assms(2) advances_trans by blast
    then show ?thesis unfolding s' by (rule advances_put_emit [OF _ assms(3)])
  qed
qed

text \<open>Inversion of the recursive forms.\<close>

lemma unary_cases:
  assumes "sub_expr (compilers n) (E_Unary opr e) dest s = COk u s'"
  shows "\<exists>m s1 opc. n = Suc m \<and> sub_expr (compilers m) e dest s = COk () s1 \<and> unary_code opr = Some opc \<and>
    s' = put_code (code_of s1 @ [ins_of opc dest dest 0 0]) s1"
  using sub_expr_COk [OF assms]
  by (auto simp: compile_expr_def compile_unary_def compile_inv emit_eq unary_code_def split: if_splits)

definition negation_of :: "bool \<Rightarrow> nat \<Rightarrow> instruction list" where
  "negation_of negated dest = (if negated then [ins_of NotOp dest dest 0 0] else [])"

lemma binary_cases:
  assumes "sub_expr (compilers n) (E_Binary a opr b) dest s = COk u s'"
  shows "\<exists>m s1 s2 opc negated. n = Suc m \<and> sub_expr (compilers m) a dest s = COk () s1 \<and>
    sub_expr (compilers m) b (one_reg s1 dest) s1 = COk () s2 \<and> binary_code opr = Some (opc, negated) \<and>
    s' = put_code (code_of s2 @ ins_of opc dest dest (one_reg s1 dest) 0 # negation_of negated dest) s2"
proof -
  obtain m where m: "n = Suc m" "compile_binary (compilers m) a opr b dest s = COk u s'"
    using sub_expr_COk [OF assms] by (auto simp: compile_expr_def)
  from m(2) obtain s1 s2 where s: "sub_expr (compilers m) a dest s = COk () s1"
    "sub_expr (compilers m) b (max (c_next_reg (cur s1)) (Suc dest)) s1 = COk () s2"
    "(case binary_code opr of
        Some (opc, negated) \<Rightarrow>
          cthen (emit opc dest dest (max (c_next_reg (cur s1)) (Suc dest)) 0) (if negated then emit NotOp dest dest 0 0 else creturn ())
      | None \<Rightarrow> cfail (Ce_Binary_operator opr)) s2 = COk u s'"
    by (auto simp: compile_binary_def compile_inv next_reg_def Let_def)
  show ?thesis
  proof (cases "binary_code opr")
    case (Some r)
    obtain opc negated where r: "r = (opc, negated)" by (cases r)
    have "s' = put_code (code_of s2 @ ins_of opc dest dest (one_reg s1 dest) 0 # negation_of negated dest) s2"
      using s(3) Some r by (cases negated) (auto simp: compile_inv emit_eq negation_of_def one_reg_def)
    moreover have "sub_expr (compilers m) b (one_reg s1 dest) s1 = COk () s2" using s(2) by (simp add: one_reg_def)
    ultimately show ?thesis using m(1) s(1) Some r by blast
  qed (use s in simp)
qed

definition patched :: "nat \<Rightarrow> comp_state \<Rightarrow> comp_state" where
  "patched j s = put_code ((code_of s)[j := (code_of s ! j)\<lparr>operand := of_nat (length (code_of s) - 1 - j)\<rparr>]) s"

lemma patched_COk: "patch_jump j s = COk u s' \<Longrightarrow> s' = patched j s"
  by (simp add: patch_jump_COk patched_def)

lemma patched_simps [simp]:
  "length (code_of (patched j s)) = length (code_of s)" "consts_of (patched j s) = consts_of s"
  "cs_heap (patched j s) = cs_heap s" "i \<noteq> j \<Longrightarrow> code_of (patched j s) ! i = code_of s ! i"
  "j < length (code_of s) \<Longrightarrow> code_of s ! j = ins_of opc r 0 0 0 \<Longrightarrow>
     code_of (patched j s) ! j = ins_of opc r 0 0 (length (code_of s) - 1 - j)"
  by (simp_all add: patched_def)

lemma advances_patched: "advances k s s1 \<Longrightarrow> k \<le> j \<Longrightarrow> advances k s (patched j s1)"
  unfolding patched_def by (rule advances_patch)

lemma and_cases:
  assumes "sub_expr (compilers n) (E_Logical a T_And b) dest s = COk u s'"
  shows "\<exists>m s1 s2. n = Suc m \<and> sub_expr (compilers m) a dest s = COk () s1 \<and>
    sub_expr (compilers m) b dest (put_code (code_of s1 @ [ins_of JumpIfFalse dest 0 0 0]) s1) = COk () s2 \<and>
    s' = patched (length (code_of s1)) s2"
  using sub_expr_COk [OF assms]
  by (fastforce simp: compile_expr_def compile_logical_def compile_inv emit_jump_eq dest!: patched_COk)

lemma or_cases:
  assumes "sub_expr (compilers n) (E_Logical a T_Or b) dest s = COk u s'"
  shows "\<exists>m s1 s2. n = Suc m \<and> sub_expr (compilers m) a dest s = COk () s1 \<and>
    sub_expr (compilers m) b dest
      (put_code (code_of s1 @ [ins_of JumpIfFalse dest 0 0 1, ins_of Jump 0 0 0 0]) s1) = COk () s2 \<and>
    s' = patched (length (code_of s1) + 1) s2"
  using sub_expr_COk [OF assms]
  by (fastforce simp: compile_expr_def compile_logical_def compile_inv emit_jump_eq patched_def nth_append list_update_append
      dest!: patched_COk)

lemma other_logical:
  assumes "sub_expr (compilers n) (E_Logical a opr b) dest s = COk u s'" "opr \<noteq> T_And" "opr \<noteq> T_Or"
  shows "s' = s"
  using sub_expr_COk [OF assms(1)] assms(2,3) by (auto simp: compile_expr_def compile_logical_def)

lemma ternary_cases:
  assumes "sub_expr (compilers n) (E_Ternary c a b) dest s = COk u s'"
  shows "\<exists>m s1 s2 s3. n = Suc m \<and> sub_expr (compilers m) c dest s = COk () s1 \<and>
    sub_expr (compilers m) a dest (put_code (code_of s1 @ [ins_of JumpIfFalse dest 0 0 0]) s1) = COk () s2 \<and>
    sub_expr (compilers m) b dest
      (patched (length (code_of s1)) (put_code (code_of s2 @ [ins_of Jump 0 0 0 0]) s2)) = COk () s3 \<and>
    s' = patched (length (code_of s2)) s3"
  using sub_expr_COk [OF assms]
  by (fastforce simp: compile_expr_def compile_ternary_def compile_inv emit_jump_eq dest!: patched_COk)

lemma assign_inv:
  assumes "sub_expr (compilers n) (E_Assign name e l) dest s = COk u s'" "comp_ready s"
  shows "\<exists>m s1. n = Suc m \<and> sub_expr (compilers m) e dest s = COk () s1 \<and>
    ((\<exists>i. find_local name (cur s) = Some i \<and>
        s' = (if dest = i then s1 else put_code (code_of s1 @ [ins_of Move i dest 0 0]) s1)) \<or>
     (find_local name (cur s) = None \<and>
        (\<exists>i s2. string_const name s1 = COk i s2 \<and> s' = put_code (code_of s2 @ [ins_of SetGlobal dest 0 0 i]) s2)))"
proof -
  obtain m where m: "n = Suc m" "compile_assign (compilers m) name e l dest s = COk u s'"
    using sub_expr_COk [OF assms(1)] by (auto simp: compile_expr_def)
  show ?thesis using assign_cases [OF m(2) assms(2)] m(1) by blast
qed

lemma update_inv:
  assumes "sub_expr (compilers n) (E_Prefix opr (E_Variable name l)) dest s = COk u s'"
  shows "\<exists>opc. update_code opr = Some opc \<and> prefix_variable name l opc (one_reg s dest) dest (with_one s dest) = COk u s'"
  using sub_expr_COk [OF assms] by (auto simp: compile_expr_def compile_prefix_def prefix_target_def dest!: inc_dec_cases)

lemma update_inv':
  assumes "sub_expr (compilers n) (E_Postfix opr (E_Variable name l)) dest s = COk u s'"
  shows "\<exists>opc. update_code opr = Some opc \<and> postfix_variable name l opc (one_reg s dest) dest (with_one s dest) = COk u s'"
  using sub_expr_COk [OF assms] by (auto simp: compile_expr_def compile_postfix_def postfix_target_def dest!: inc_dec_cases)

lemma same_inv:
  "sub_expr (compilers n) (E_Literal v) dest s = COk u s' \<Longrightarrow> compile_literal v dest s = COk u s'"
  "sub_expr (compilers n) (E_Variable name l) dest s = COk u s' \<Longrightarrow> compile_variable name dest s = COk u s'"
  "sub_expr (compilers n) (E_TypeCast e t l) dest s = COk u s' \<Longrightarrow>
     \<exists>m. n = Suc m \<and> sub_expr (compilers m) e dest s = COk u s'"
  "sub_expr (compilers n) (E_New e) dest s = COk u s' \<Longrightarrow> \<exists>m. n = Suc m \<and> sub_expr (compilers m) e dest s = COk u s'"
  by (drule sub_expr_COk, auto simp: compile_expr_def)+

lemma expr_advances:
  "core_expr e \<Longrightarrow> sub_expr (compilers n) e dest s = COk u s' \<Longrightarrow> comp_ready s \<Longrightarrow> advances (length (code_of s)) s s'"
proof (induction e arbitrary: n dest s u s' rule: core_expr.induct)
  case (1 l)
  then show ?case using same_inv(1) literal_advances by blast
next
  case (2 name l)
  then show ?case using same_inv(2) variable_advances by blast
next
  case (3 name e l)
  from assign_inv [OF "3.prems"(2,3)] obtain m s1 where s1: "sub_expr (compilers m) e dest s = COk () s1"
    and alt: "(\<exists>is. s' = put_code (code_of s1 @ is) s1) \<or> s' = s1 \<or>
        (\<exists>is i s2. string_const name s1 = COk i s2 \<and> s' = put_code (code_of s2 @ is) s2)"
    by (metis (full_types))
  have g: "advances (length (code_of s)) s s1" using "3.IH" "3.prems" s1 by simp
  then have "string_const name s1 = COk i s2 \<Longrightarrow> advances (length (code_of s)) s s2" for i s2
    using string_const_COk advances_ready advances_trans by blast
  with g alt show ?case using advances_put_emit by (metis order_refl)
next
  case (4 opr e)
  from unary_cases [OF "4.prems"(2)] show ?case using 4 advances_put_emit by (metis core_expr.simps(4) order_refl)
next
  case (5 a opr b)
  from binary_cases [OF "5.prems"(2)] obtain m s1 s2 "is" where m: "sub_expr (compilers m) a dest s = COk () s1"
    "sub_expr (compilers m) b (one_reg s1 dest) s1 = COk () s2" "s' = put_code (code_of s2 @ is) s2" by blast
  have g1: "advances (length (code_of s)) s s1" using 5 m by simp
  then have "advances (length (code_of s1)) s1 s2" using "5.IH"(2) "5.prems"(1) m(2) advances_ready(1) by simp
  with g1 have "advances (length (code_of s)) s s2" by (rule advances_step) simp
  then show ?case using m(3) advances_put_emit by auto
next
  case (6 a opr b)
  have *: "advances (length (code_of s)) s (patched j s2)"
    if "sub_expr (compilers m) a dest s = COk () s1"
      "sub_expr (compilers m) b dest (put_code (code_of s1 @ is) s1) = COk () s2" "length (code_of s1) \<le> j" for m s1 "is" s2 j
  proof -
    have g1: "advances (length (code_of s)) s s1" using 6 that by simp
    then have g2: "advances (length (code_of s)) s (put_code (code_of s1 @ is) s1)" by (rule advances_put_emit) simp
    then have "advances (length (code_of s)) s s2"
      using advances_step [OF g2] "6.IH"(2) [OF _ that(2)] "6.prems" advances_ready(1) [OF g2] by simp
    then show ?thesis using advances_env(6) [OF g1] that(3) by (intro advances_patched) auto
  qed
  show ?case
  proof (cases "opr = T_And \<or> opr = T_Or")
    case True
    then show ?thesis using * and_cases or_cases "6.prems"(2) by (metis le_add1 order_refl)
  next
    case False
    then show ?thesis using other_logical [OF "6.prems"(2)] advances_refl "6.prems"(3) by auto
  qed
next
  case (7 c a b)
  from ternary_cases [OF "7.prems"(2)] obtain m s1 s2 s3
    where m: "sub_expr (compilers m) c dest s = COk () s1"
    "sub_expr (compilers m) a dest (put_code (code_of s1 @ [ins_of JumpIfFalse dest 0 0 0]) s1) = COk () s2"
    "sub_expr (compilers m) b dest
      (patched (length (code_of s1)) (put_code (code_of s2 @ [ins_of Jump 0 0 0 0]) s2)) = COk () s3"
    "s' = patched (length (code_of s2)) s3" by blast
  let ?k = "length (code_of s)"
  have g1: "advances ?k s s1" using 7 m by simp
  then have g2: "advances ?k s (put_code (code_of s1 @ [ins_of JumpIfFalse dest 0 0 0]) s1)" by (rule advances_put_emit) simp
  then have g3: "advances ?k s s2"
    using advances_step [OF g2] "7.IH"(2) [OF _ m(2)] "7.prems" advances_ready(1) [OF g2] by simp
  then have "advances ?k s (put_code (code_of s2 @ [ins_of Jump 0 0 0 0]) s2)" by (rule advances_put_emit) simp
  then have g4: "advances ?k s (patched (length (code_of s1)) (put_code (code_of s2 @ [ins_of Jump 0 0 0 0]) s2))"
    by (rule advances_patched) (rule advances_env(6) [OF g1])
  then have "advances ?k s s3"
    using advances_step [OF g4] "7.IH"(3) [OF _ m(3)] "7.prems" advances_ready(1) [OF g4] by simp
  then show ?case unfolding m(4) by (rule advances_patched) (rule advances_env(6) [OF g3])
next
  case (8 opr e)
  then obtain name l where e: "e = E_Variable name l" by (auto split: expr.splits)
  show ?case
    using update_inv [OF "8.prems"(2) [unfolded e]] prefix_advances with_one_advances [OF "8.prems"(3) order_refl] by blast
next
  case (9 opr e)
  then obtain name l where e: "e = E_Variable name l" by (auto split: expr.splits)
  show ?case
    using update_inv' [OF "9.prems"(2) [unfolded e]] postfix_advances with_one_advances [OF "9.prems"(3) order_refl] by blast
next
  case (10 e t l)
  then show ?case using same_inv(3) by (metis core_expr.simps(10))
next
  case (11 e)
  then show ?case using same_inv(4) by (metis core_expr.simps(11))
qed simp_all

end
