(* ===== verification/Sem_Eval.thy ===== *)
theory Sem_Eval
  imports Sem_Expr
begin

text \<open>
  Expressions at run time. \<open>embeds\<close> says that a chunk contains the code the compiler wrote between two of
  its states, \<open>matches\<close> that a machine is in the state of the reference semantics, and \<open>expr_ok\<close> that the
  code of an expression takes the machine where the reference semantics goes; one lemma per form, put
  together by induction in \<open>expr_correct\<close>.
\<close>

section \<open>Code in place\<close>

definition embeds :: "chunk \<Rightarrow> gc_state \<Rightarrow> comp_state \<Rightarrow> comp_state \<Rightarrow> bool" where
  "embeds ch h s s' \<longleftrightarrow>
     (\<forall>i. length (code_of s) \<le> i \<and> i < length (code_of s') \<longrightarrow> at_code ch i (code_of s' ! i)) \<and>
     (\<exists>vs. constants ch = consts_of s' @ vs) \<and> text_le (cs_heap s') h \<and>
     length (code_of s') \<le> length (code ch) \<and>
     length (code ch) < 4294967296 \<and> length (constants ch) < 4294967296"

lemma embeds_at:
  "embeds ch h s s' \<Longrightarrow> length (code_of s) \<le> i \<Longrightarrow> i < length (code_of s') \<Longrightarrow> code_of s' ! i = ins \<Longrightarrow> at_code ch i ins"
  by (auto simp: embeds_def)

lemma embeds_heap: "embeds ch h s s' \<Longrightarrow> text_le h h' \<Longrightarrow> embeds ch h' s s'"
  by (auto simp: embeds_def intro: text_le_trans)

text \<open>A part of the code: what was written later lies outside it.\<close>

lemma embeds_part:
  assumes "embeds ch h s s'" and "length (code_of s) \<le> length (code_of a)"
    and "\<And>i. length (code_of a) \<le> i \<Longrightarrow> i < length (code_of b) \<Longrightarrow> code_of s' ! i = code_of b ! i"
    and "advances 0 b s'"
  shows "embeds ch h a b"
proof -
  have "length (code_of b) \<le> length (code_of s')" "\<exists>vs. consts_of s' = consts_of b @ vs"
    "text_le (cs_heap b) (cs_heap s')"
    using assms(4) by (auto simp: advances_def)
  moreover have "at_code ch i (code_of b ! i)" if i: "length (code_of a) \<le> i" "i < length (code_of b)" for i
    using embeds_at [OF assms(1) _ _ assms(3) [OF i]] i assms(2) calculation(1) by simp
  ultimately show ?thesis
    using assms(1) unfolding embeds_def by (auto intro: text_le_trans)
qed

lemma embeds_first: "embeds ch h s s' \<Longrightarrow> advances (length (code_of b)) b s' \<Longrightarrow> embeds ch h s b"
  using embeds_part [of ch h s s' s b, OF _ order_refl] advances_nth advances_less [OF _ le0] by blast

lemma embeds_const:
  assumes "embeds ch h a b" "consts_of s @ v # vs = consts_of b"
  shows "length (consts_of s) < length (constants ch)" "length (consts_of s) < 4294967296"
    "constants ch ! length (consts_of s) = v"
proof -
  obtain ws where "constants ch = consts_of b @ ws" "length (constants ch) < 4294967296"
    using assms(1) unfolding embeds_def by blast
  then have "constants ch = consts_of s @ v # vs @ ws" "length (constants ch) < 4294967296"
    using assms(2) [symmetric] by simp_all
  then show "length (consts_of s) < length (constants ch)" "length (consts_of s) < 4294967296"
    "constants ch ! length (consts_of s) = v" by simp_all
qed

lemma embeds_text:
  assumes "embeds ch h a b" "consts_of s @ v # vs = consts_of b" "stands_for g v (I_Text t)" "text_le g h"
  shows "const_text ch h (length (consts_of s)) t"
  using embeds_const [OF assms(1,2)] assms(3,4) as_str_mono unfolding const_text_def by auto

section \<open>Machine and reference state\<close>

definition same_globals :: "gc_state \<Rightarrow> (u8 list \<times> er_value) list \<Rightarrow> (u8 list \<times> ival) list \<Rightarrow> bool" where
  "same_globals h = list_all2 (\<lambda>g r. fst g = fst r \<and> stands_for h (snd g) (snd r))"

definition matches :: "platform \<Rightarrow> chunk \<Rightarrow> nat \<Rightarrow> ref_state \<Rightarrow> vm \<Rightarrow> bool" where
  "matches pf ch base st m \<longleftrightarrow>
     running ch base m \<and> vm_ready pf (vm_heap m) \<and> \<not> interrupted m \<and>
     (\<forall>i < length (rs_locals st). stands_for (vm_heap m) (getr base i m) (snd (rs_locals st ! i))) \<and>
     same_globals (vm_heap m) (vm_globals m) (rs_globals st)"

lemma matches_running: "matches pf ch base st m \<Longrightarrow> running ch base m"
  by (simp add: matches_def)

lemma interrupted_frame [simp]:
  "interrupted (setr base i v m) = interrupted m" "interrupted (m\<lparr>vm_heap := h\<rparr>) = interrupted m"
  "interrupted (m\<lparr>vm_globals := g\<rparr>) = interrupted m"
  by (simp_all add: interrupted_def)

lemma matches_temp:
  assumes "matches pf ch base st m" "length (rs_locals st) \<le> d" "d < 256"
  shows "matches pf ch base st (setr base d v m)"
  using assms by (simp add: matches_def getr_setr [of ch base])

lemma same_globals_mono: "text_le h h' \<Longrightarrow> same_globals h g r \<Longrightarrow> same_globals h' g r"
  by (auto simp: same_globals_def elim!: list_all2_mono intro: stands_for_mono)

lemma matches_heap:
  assumes "matches pf ch base st m" "running ch base (m\<lparr>vm_heap := h\<rparr>)" "vm_ready pf h" "text_le (vm_heap m) h"
  shows "matches pf ch base st (m\<lparr>vm_heap := h\<rparr>)"
  using assms stands_for_mono [OF assms(4)] same_globals_mono [OF assms(4)] by (auto simp: matches_def)

lemma matches_heap_le:
  assumes "matches pf ch base st m" "vm_ready pf h" "heap_le (vm_heap m) h"
  shows "matches pf ch base st (m\<lparr>vm_heap := h\<rparr>)"
  using assms by (intro matches_heap running_heap heap_le_text) (auto dest: matches_running)

lemma matches_local:
  assumes "matches pf ch base st m" "i < length (rs_locals st)" "length (rs_locals st) \<le> 256" "stands_for (vm_heap m) v x"
  shows "matches pf ch base (st\<lparr>rs_locals := (rs_locals st)[i := (name, x)]\<rparr>) (setr base i v m)"
  using assms by (auto simp: matches_def getr_setr [of ch base] nth_list_update)

lemma same_globals_get:
  assumes "same_globals h g r"
  shows "(case (map_of g k, map_of r k) of
      (Some v, Some x) \<Rightarrow> stands_for h v x | (None, None) \<Rightarrow> True | _ \<Rightarrow> False)"
  using assms unfolding same_globals_def by (induction rule: list_all2_induct) auto

lemma same_globals_put:
  assumes "same_globals h g r" "stands_for h v x"
  shows "same_globals h (put_entry k v g) (put_entry k x r)"
proof -
  have "map_of g k = None \<longleftrightarrow> map_of r k = None"
    using same_globals_get [OF assms(1), of k] by (auto split: option.splits)
  then show ?thesis
    using assms unfolding same_globals_def put_entry_def
    by (auto simp: list_all2_appendI list_all2_map1 list_all2_map2 elim!: list_all2_mono)
qed

lemma matches_global:
  assumes "matches pf ch base st m" "stands_for (vm_heap m) v x"
  shows "matches pf ch base (st\<lparr>rs_globals := put_entry k x (rs_globals st)\<rparr>)
    (m\<lparr>vm_globals := put_entry k v (vm_globals m)\<rparr>)"
  using assms by (auto simp: matches_def intro: same_globals_put)

definition kept :: "nat \<Rightarrow> nat \<Rightarrow> nat \<Rightarrow> vm \<Rightarrow> vm \<Rightarrow> bool" where
  "kept base lo d m m' \<longleftrightarrow>
     (\<forall>i. lo \<le> i \<and> i < d \<longrightarrow> getr base i m' = getr base i m) \<and> text_le (vm_heap m) (vm_heap m')"

lemma kept_refl [simp]: "kept base lo d m m"
  by (simp add: kept_def)

lemma kept_trans: "kept base lo d m m1 \<Longrightarrow> kept base lo e m1 m2 \<Longrightarrow> d \<le> e \<Longrightarrow> kept base lo d m m2"
  by (auto simp: kept_def intro: text_le_trans)

lemma kept_setr: "kept base lo d m m1 \<Longrightarrow> running ch base m1 \<Longrightarrow> i < 256 \<Longrightarrow> d \<le> i \<or> i < lo \<Longrightarrow> d \<le> 256 \<Longrightarrow> kept base lo d m (setr base i v m1)"
  by (auto simp: kept_def getr_setr [of ch base])

lemma kept_heap: "kept base lo d m m1 \<Longrightarrow> text_le (vm_heap m1) h \<Longrightarrow> kept base lo d m (m1\<lparr>vm_heap := h\<rparr>)"
  by (auto simp: kept_def intro: text_le_trans)

lemma kept_globals: "kept base lo d m m1 \<Longrightarrow> kept base lo d m (m1\<lparr>vm_globals := g\<rparr>)"
  by (simp add: kept_def)

lemma kept_less: "kept base lo e m m1 \<Longrightarrow> d \<le> e \<Longrightarrow> kept base lo d m m1"
  by (auto simp: kept_def)

section \<open>The claim\<close>

definition settled :: "'a ref_out \<Rightarrow> bool" where
  "settled r \<longleftrightarrow> r \<noteq> R_Wild \<and> r \<noteq> R_Fuel"

lemma settled_simps [simp]: "settled (R_Ok x st)" "settled (R_Err e)" "\<not> settled R_Wild" "\<not> settled R_Fuel"
  by (simp_all add: settled_def)

lemma settled_bind: "settled (rbind r f) \<Longrightarrow> settled r"
  by (auto simp: settled_def rbind_def split: ref_out.splits)

lemma rbind_simps [simp]:
  "rbind (R_Ok x st) f = f x st" "rbind (R_Err e) f = R_Err e" "rbind R_Wild f = R_Wild" "rbind R_Fuel f = R_Fuel"
  by (simp_all add: rbind_def)

definition expr_post :: "platform \<Rightarrow> chunk \<Rightarrow> nat \<Rightarrow> nat \<Rightarrow> nat \<Rightarrow> nat \<Rightarrow> vm \<Rightarrow> ival ref_out \<Rightarrow> nat \<times> vm \<Rightarrow> bool" where
  "expr_post pf ch base nl dest pc m r c \<longleftrightarrow>
     (\<exists>x st. r = R_Ok x st \<and> fst c = pc \<and> matches pf ch base st (snd c) \<and> length (rs_locals st) = nl \<and>
        stands_for (vm_heap (snd c)) (getr base dest (snd c)) x \<and> kept base nl dest m (snd c))"

abbreviation expr_runs where
  "expr_runs pf td ch base nl dest pc' r m pc \<equiv>
     goes pf td (expr_post pf ch base nl dest pc' m r) (\<lambda>e. r = R_Err e) (pc, m)"

text \<open>The state of the compiler and the names of the reference state agree.\<close>

definition env_ok :: "comp_state \<Rightarrow> ref_state \<Rightarrow> nat \<Rightarrow> bool" where
  "env_ok s st dest \<longleftrightarrow>
     comp_ready s \<and> map l_name (c_locals (cur s)) = map fst (rs_locals st) \<and> length (rs_locals st) \<le> dest"

definition expr_ok :: "platform \<Rightarrow> nat \<Rightarrow> chunk \<Rightarrow> nat \<Rightarrow> expr \<Rightarrow> bool" where
  "expr_ok pf td ch base e \<longleftrightarrow>
     (\<forall>n dest s s' u m st.
        sub_expr (compilers n) e dest s = COk u s' \<longrightarrow> env_ok s st dest \<longrightarrow>
        embeds ch (vm_heap m) s s' \<longrightarrow> expr_regs (c_next_reg (cur s)) e dest < 256 \<longrightarrow> matches pf ch base st m \<longrightarrow>
        settled (ref_eval (pf_nan pf) e st) \<longrightarrow>
        expr_runs pf td ch base (length (rs_locals st)) dest (length (code_of s')) (ref_eval (pf_nan pf) e st) m
          (length (code_of s)))"

section \<open>What expressions leave of the reference state\<close>

lemma rbind_Ok: "rbind r f = R_Ok y st'' \<longleftrightarrow> (\<exists>x st'. r = R_Ok x st' \<and> f x st' = R_Ok y st'')"
  by (cases r) auto

lemma operators_state:
  "ival_num n st = R_Ok x st' \<Longrightarrow> st' = st" "num_op f a b st = R_Ok x st' \<Longrightarrow> st' = st"
  "order_op g a b st = R_Ok x st' \<Longrightarrow> st' = st" "plus_op qn a b st = R_Ok x st' \<Longrightarrow> st' = st"
  "read_var name st = R_Ok x st' \<Longrightarrow> st' = st" "ref_literal l st = R_Ok x st' \<Longrightarrow> st' = st"
  by (auto simp: ival_num_def num_op_def order_op_def plus_op_def read_var_def ref_literal_def
      split: ival.splits if_splits option.splits literal_value.splits)

lemma ref_unary_state: "ref_unary opr a st = R_Ok x st' \<Longrightarrow> st' = st"
  by (auto simp: ref_unary_def ival_num_def split: ival.splits if_splits)

lemma ref_binary_state: "ref_binary qn opr a b st = R_Ok x st' \<Longrightarrow> st' = st"
  unfolding ref_binary_def by (auto split: if_splits dest: operators_state)

lemma map_fst_update: "i < length xs \<Longrightarrow> fst (xs ! i) = fst p \<Longrightarrow> map fst (xs[i := p]) = map fst xs"
  by (metis list_update_id map_update nth_map)

lemma write_var_names: "write_var name v st = R_Ok x st' \<Longrightarrow> map fst (rs_locals st') = map fst (rs_locals st)"
  by (auto simp: write_var_def find_var_def map_fst_update dest!: last_index_Some split: option.splits if_splits)

lemma update_var_names:
  "update_var qn before opr e st = R_Ok x st' \<Longrightarrow> map fst (rs_locals st') = map fst (rs_locals st)"
  by (auto simp: update_var_def rbind_Ok dest!: operators_state write_var_names split: expr.splits token_type.splits)

lemma ref_eval_names: "ref_eval qn e st = R_Ok x st' \<Longrightarrow> map fst (rs_locals st') = map fst (rs_locals st)"
proof (induction qn e st arbitrary: x st' rule: ref_eval.induct)
  case (3 qn name e l st)
  then show ?case by (auto simp: rbind_Ok dest!: write_var_names)
next
  case (4 qn opr e st)
  then show ?case by (auto simp: rbind_Ok dest!: ref_unary_state)
next
  case (5 qn a opr b st)
  then show ?case by (fastforce simp: rbind_Ok dest!: ref_binary_state)
next
  case (6 qn a opr b st)
  then show ?case by (fastforce simp: rbind_Ok split: if_splits)
next
  case (7 qn c a b st)
  then show ?case by (fastforce simp: rbind_Ok split: if_splits)
qed (auto dest: operators_state update_var_names)

lemma ref_eval_length: "ref_eval qn e st = R_Ok x st' \<Longrightarrow> length (rs_locals st') = length (rs_locals st)"
  using ref_eval_names map_eq_imp_length_eq by blast

end
