(* ===== verification/Sem_Correct.thy ===== *)
theory Sem_Correct
  imports Sem_Eval
begin

text \<open>
  The correctness of compiled core expressions: one lemma per form of an expression, put together by induction in
  \<open>expr_correct\<close>.
\<close>

section \<open>Composing runs\<close>

lemma expr_regs_ge: "dest \<le> expr_regs nr e dest"
proof (induction nr e dest rule: expr_regs.induct)
  case (3 nr a opr b dest)
  then show ?case by auto
qed auto

lemma runs_then:
  assumes "expr_runs pf td ch base nl dest pc' r1 m pc"
    and "\<And>x st m1. r1 = R_Ok x st \<Longrightarrow> matches pf ch base st m1 \<Longrightarrow> length (rs_locals st) = nl \<Longrightarrow>
      stands_for (vm_heap m1) (getr base dest m1) x \<Longrightarrow> kept base nl dest m m1 \<Longrightarrow> goes pf td Q E (pc', m1)"
    and "\<And>e. r1 = R_Err e \<Longrightarrow> E e"
  shows "goes pf td Q E (pc, m)"
proof -
  have "goes pf td (expr_post pf ch base nl dest pc' m r1) E (pc, m)"
    using goes_mono [OF assms(1)] assms(3) by blast
  then show ?thesis
    by (rule goes_chain) (use assms(2) in \<open>auto simp: expr_post_def\<close>)
qed

lemma runs_done:
  "r = R_Ok x st \<Longrightarrow> pc = pc' \<Longrightarrow> matches pf ch base st m' \<Longrightarrow> length (rs_locals st) = nl \<Longrightarrow>
    stands_for (vm_heap m') (getr base dest m') x \<Longrightarrow> kept base nl dest m m' \<Longrightarrow>
    goes pf td (expr_post pf ch base nl dest pc' m r) E (pc, m')"
  by (rule goes_done) (auto simp: expr_post_def)

text \<open>The last step of an expression writes its result into the destination.\<close>

lemma runs_result:
  assumes "r = R_Ok x st" "pc = pc'" "matches pf ch base st m'" "length (rs_locals st) = nl" "nl \<le> dest" "dest < 256"
    "stands_for (vm_heap m') v x" "kept base nl dest m m'"
  shows "goes pf td (expr_post pf ch base nl dest pc' m r) E (pc, setr base dest v m')"
  using assms matches_running [OF assms(3)]
  by (intro runs_done) (auto intro: matches_temp kept_setr simp: getr_setr [of ch base])

lemma expr_okD:
  assumes "expr_ok pf td ch base e" "sub_expr (compilers n) e dest s = COk u s'" "env_ok s st dest"
    "embeds ch (vm_heap m) s s'" "expr_regs (c_next_reg (cur s)) e dest < 256" "matches pf ch base st m"
    "settled (ref_eval (pf_nan pf) e st)" "nl = length (rs_locals st)"
  shows "expr_runs pf td ch base nl dest (length (code_of s')) (ref_eval (pf_nan pf) e st) m (length (code_of s))"
  using assms unfolding expr_ok_def by blast

lemma env_ok_step: "env_ok s st dest \<Longrightarrow> advances k s s1 \<Longrightarrow> ref_eval qn e st = R_Ok x st1 \<Longrightarrow> env_ok s1 st1 dest"
  using advances_env(1) advances_ready(1) ref_eval_names ref_eval_length by (auto simp: env_ok_def)

lemma env_ok_advances: "env_ok s st dest \<Longrightarrow> advances k s s1 \<Longrightarrow> env_ok s1 st dest"
  using advances_env(1) advances_ready(1) by (auto simp: env_ok_def)

lemma env_ok_dest: "env_ok s st dest \<Longrightarrow> dest \<le> d \<Longrightarrow> env_ok s st d"
  by (simp add: env_ok_def)

lemma env_ok_var: "env_ok s st dest \<Longrightarrow> find_local name (cur s) = find_var name st"
  using find_local_var by (simp add: env_ok_def)

lemma find_var_less: "find_var name st = Some i \<Longrightarrow> i < length (rs_locals st)"
  by (auto simp: find_var_def dest: last_index_Some)

lemma embeds_emitted:
  assumes "embeds ch h s s'" "code_of s' = code_of s2 @ is" "length (code_of s) \<le> length (code_of s2)" "i < length is"
  shows "at_code ch (length (code_of s2) + i) (is ! i)"
  using embeds_at [OF assms(1)] assms(2-4) by (simp add: nth_append)

lemma embeds_emitted_first:
  "embeds ch h s s' \<Longrightarrow> code_of s' = code_of s2 @ ins # is \<Longrightarrow> length (code_of s) \<le> length (code_of s2) \<Longrightarrow>
    at_code ch (length (code_of s2)) ins"
  using embeds_emitted [where i = 0] by fastforce

lemma embeds_named:
  assumes "embeds ch h s s'" "string_const name s1 = COk i s2" "comp_ready s1" "consts_of s' = consts_of s2"
    "text_le (cs_heap s2) (cs_heap s')"
  shows "const_text ch h i (utf8_of name)"
proof -
  obtain v where v: "consts_of s2 = consts_of s1 @ [v]" "stands_for (cs_heap s2) v (I_Text (utf8_of name))"
    "i = length (consts_of s1)"
    using string_const_COk [OF assms(2,3)] by blast
  have "text_le (cs_heap s2) h" using assms(1,5) text_le_trans by (auto simp: embeds_def)
  then show ?thesis using embeds_text [OF assms(1) _ v(2), of s1 "[]"] v(1,3) assms(4) by simp
qed

lemma val_number_word: "is_number (Value n) \<Longrightarrow> val_number n = Value n"
  by (simp add: val_number_def is_number_def linorder_not_le [symmetric] del: linorder_not_le)

lemma find_var_names: "map fst (rs_locals st') = map fst (rs_locals st) \<Longrightarrow> find_var name st' = find_var name st"
  using last_index_map [of "\<lambda>n. n = name" fst] by (metis find_var_def)

lemma matches_localD: "matches pf ch base st m \<Longrightarrow> i < length (rs_locals st) \<Longrightarrow>
    stands_for (vm_heap m) (getr base i m) (snd (rs_locals st ! i))"
  by (simp add: matches_def)

section \<open>Literals and variables\<close>

lemma literal_runs:
  assumes "compile_literal l dest s = COk u s'" "env_ok s st dest" "embeds ch (vm_heap m) s s'" "dest < 256"
    "matches pf ch base st m" "settled (ref_literal l st)"
  shows "expr_runs pf td ch base (length (rs_locals st)) dest (length (code_of s')) (ref_literal l st) m
    (length (code_of s))"
proof -
  have d: "length (rs_locals st) \<le> dest" "comp_ready s" using assms(2) by (simp_all add: env_ok_def)
  note run = matches_running [OF assms(5)]
  note res = runs_result [OF _ _ assms(5) refl d(1) assms(4) _ kept_refl]
  show ?thesis
  proof (cases l)
    case (L_String t)
    then obtain i s1 where s1: "string_const t s = COk i s1" "s' = put_code (code_of s1 @ [ins_of LoadConst dest 0 0 i]) s1"
      using assms(1) by (auto simp: compile_literal_def compile_inv emit_eq)
    obtain v where v: "consts_of s1 = consts_of s @ [v]" "stands_for (cs_heap s1) v (I_Text (utf8_of t))"
      "i = length (consts_of s)" "code_of s1 = code_of s"
      using string_const_COk [OF s1(1) d(2)] by blast
    have c: "consts_of s @ v # [] = consts_of s'" using v s1(2) by simp
    have "at_code ch (length (code_of s)) (ins_of LoadConst dest 0 0 i)"
      using embeds_emitted_first [OF assms(3), of s] s1(2) v(4) by simp
    then show ?thesis
    proof (rule goes_const [OF run])
      show "i < length (constants ch)" "i < 4294967296" using embeds_const [OF assms(3) c] v(3) by simp_all
      have h: "text_le (cs_heap s1) (vm_heap m)" using assms(3) s1(2) by (simp add: embeds_def)
      show "goes pf td (expr_post pf ch base (length (rs_locals st)) dest (length (code_of s')) m (ref_literal l st))
         (\<lambda>e. ref_literal l st = R_Err e) (length (code_of s) + 1, setr base dest (constants ch ! i) m)"
        using embeds_const [OF assms(3) c] v(3,4) s1(2) L_String stands_for_mono [OF h v(2)]
        by (intro res) (simp_all add: ref_literal_def del: stands_for.simps)
    qed (rule assms(4))
  next
    case (L_Number n)
    then have s': "s' = put_code (code_of s @ [ins_of LoadConst dest 0 0 (length (consts_of s))])
        (put_consts (consts_of s @ [val_number n]) s)"
      using assms(1) by (auto simp: compile_literal_def compile_inv emit_eq number_const_COk)
    then have c: "consts_of s @ val_number n # [] = consts_of s'" by simp
    have n: "is_number (Value n)" "ref_literal l st = R_Ok (I_Num n) st"
      using assms(6) L_Number by (auto simp: ref_literal_def ival_num_def split: if_splits)
    have "at_code ch (length (code_of s)) (ins_of LoadConst dest 0 0 (length (consts_of s)))"
      using embeds_emitted_first [OF assms(3), of s] s' by simp
    then show ?thesis
    proof (rule goes_const [OF run])
      show "goes pf td (expr_post pf ch base (length (rs_locals st)) dest (length (code_of s')) m (ref_literal l st))
         (\<lambda>e. ref_literal l st = R_Err e) (length (code_of s) + 1, setr base dest (constants ch ! length (consts_of s)) m)"
        using embeds_const [OF assms(3) c] s' n(1) val_number_word [OF n(1)] by (intro res [OF n(2)]) simp_all
    qed (use assms(4) embeds_const [OF assms(3) c] in simp_all)
  next
    case (L_Boolean b)
    then have s': "s' = put_code (code_of s @ [ins_of LoadBool dest (if b then 1 else 0) 0 0]) s"
      using assms(1) by (auto simp: compile_literal_def emit_eq)
    have "at_code ch (length (code_of s)) (ins_of LoadBool dest (if b then 1 else 0) 0 0)"
      using embeds_emitted_first [OF assms(3), of s] s' by simp
    then show ?thesis
      by (rule goes_bool [OF run _ assms(4)], intro res [where x = "I_Bool b"]) (use s' L_Boolean in \<open>simp_all add: ref_literal_def\<close>)
  next
    case L_Null
    then have s': "s' = put_code (code_of s @ [ins_of LoadNull dest 0 0 0]) s"
      using assms(1) by (auto simp: compile_literal_def emit_eq)
    have "at_code ch (length (code_of s)) (ins_of LoadNull dest 0 0 0)"
      using embeds_emitted_first [OF assms(3), of s] s' by simp
    then show ?thesis
      by (rule goes_null [OF run _ assms(4)], intro res [where x = I_Null]) (use s' L_Null in \<open>simp_all add: ref_literal_def\<close>)
  qed
qed

lemma variable_runs:
  assumes "compile_variable name dest s = COk u s'" "env_ok s st dest" "embeds ch (vm_heap m) s s'" "dest < 256"
    "matches pf ch base st m"
  shows "expr_runs pf td ch base (length (rs_locals st)) dest (length (code_of s')) (read_var name st) m
    (length (code_of s))"
proof -
  have d: "length (rs_locals st) \<le> dest" "comp_ready s" using assms(2) by (simp_all add: env_ok_def)
  note run = matches_running [OF assms(5)]
  note res = runs_result [OF _ _ assms(5) refl d(1) assms(4) _ kept_refl]
  from variable_cases [OF assms(1) d(2)] show ?thesis
  proof (elim disjE exE conjE)
    fix i assume i: "find_local name (cur s) = Some i" "move_unless dest i s = COk u s'"
    then have v: "find_var name st = Some i" using env_ok_var [OF assms(2)] by simp
    note less = find_var_less [OF v]
    then have s': "s' = put_code (code_of s @ [ins_of Move dest i 0 0]) s"
      using move_unless_COk [OF i(2)] d(1) by auto
    have "at_code ch (length (code_of s)) (ins_of Move dest i 0 0)"
      using embeds_emitted_first [OF assms(3), of s] s' by simp
    then show ?thesis
    proof (rule goes_move [OF run _ assms(4)])
      show "i < 256" using less d(1) assms(4) by simp
      show "goes pf td (expr_post pf ch base (length (rs_locals st)) dest (length (code_of s')) m (read_var name st))
         (\<lambda>e. read_var name st = R_Err e) (length (code_of s) + 1, setr base dest (getr base i m) m)"
        using less v s' matches_localD [OF assms(5) less] by (intro res) (simp_all add: read_var_def)
    qed
  next
    fix i s1 assume s1: "string_const name s = COk i s1" "s' = put_code (code_of s1 @ [ins_of GetGlobal dest 0 0 i]) s1"
      and "find_local name (cur s) = None"
    then have v: "find_var name st = None" using env_ok_var [OF assms(2)] by simp
    have c: "code_of s1 = code_of s" using string_const_COk [OF s1(1) d(2)] by blast
    have k: "const_text ch (vm_heap m) i (utf8_of name)"
      by (rule embeds_named [OF assms(3) s1(1) d(2)]) (simp_all add: s1(2))
    have "same_globals (vm_heap m) (vm_globals m) (rs_globals st)" using assms(5) by (simp add: matches_def)
    note g = same_globals_get [OF this, of "utf8_of name"]
    have "at_code ch (length (code_of s)) (ins_of GetGlobal dest 0 0 i)"
      using embeds_emitted_first [OF assms(3), of s] s1(2) c by simp
    then show ?thesis
    proof (rule goes_get_global [OF run _ assms(4) k])
      fix w assume w: "map_of (vm_globals m) (utf8_of name) = Some w"
      with g obtain x where "map_of (rs_globals st) (utf8_of name) = Some x" "stands_for (vm_heap m) w x"
        by (auto split: option.splits)
      then show "goes pf td (expr_post pf ch base (length (rs_locals st)) dest (length (code_of s')) m (read_var name st))
         (\<lambda>e. read_var name st = R_Err e) (length (code_of s) + 1, setr base dest w m)"
        using v s1(2) c by (intro res) (simp_all add: read_var_def)
    next
      assume "map_of (vm_globals m) (utf8_of name) = None"
      then show "read_var name st = R_Err (Ve_Undefined (utf8_of name))"
        using g v by (auto simp: read_var_def split: option.splits)
    qed
  qed
qed

section \<open>Assignments\<close>

text \<open>Writing a variable: a move into its register, or an update of the global.\<close>

lemma goes_write_local:
  assumes "matches pf ch base st m" "find_var name st = Some i" "at_code ch pc (ins_of Move i dest 0 0)"
    "length (rs_locals st) \<le> dest" "dest < 256" "stands_for (vm_heap m) (getr base dest m) x"
    and "\<And>st' m'. write_var name x st = R_Ok () st' \<Longrightarrow> matches pf ch base st' m' \<Longrightarrow> vm_heap m' = vm_heap m \<Longrightarrow>
      (\<And>j. length (rs_locals st) \<le> j \<Longrightarrow> j < 256 \<Longrightarrow> getr base j m' = getr base j m) \<Longrightarrow>
      goes pf td Q E (pc + 1, m')"
  shows "goes pf td Q E (pc, m)"
proof -
  note i = find_var_less [OF assms(2)] and run = matches_running [OF assms(1)]
  show ?thesis
  proof (rule goes_move [OF run assms(3) _ assms(5)])
    show "i < 256" using i assms(4,5) by simp
    show "goes pf td Q E (pc + 1, setr base i (getr base dest m) m)"
    proof (rule assms(7))
      show "write_var name x st = R_Ok () (st\<lparr>rs_locals := (rs_locals st)[i := (name, x)]\<rparr>)"
        using assms(2) by (simp add: write_var_def)
      show "matches pf ch base (st\<lparr>rs_locals := (rs_locals st)[i := (name, x)]\<rparr>) (setr base i (getr base dest m) m)"
        using assms(1,4-6) i by (intro matches_local) simp_all
    qed (use i run in \<open>simp_all add: getr_setr [of ch base]\<close>)
  qed
qed

lemma goes_write_global:
  assumes "matches pf ch base st m" "find_var name st = None" "at_code ch pc (ins_of SetGlobal dest 0 0 i)"
    "const_text ch (vm_heap m) i (utf8_of name)" "dest < 256" "stands_for (vm_heap m) (getr base dest m) x"
    and "\<And>st' m'. write_var name x st = R_Ok () st' \<Longrightarrow> matches pf ch base st' m' \<Longrightarrow> vm_heap m' = vm_heap m \<Longrightarrow>
      (\<And>j. getr base j m' = getr base j m) \<Longrightarrow> goes pf td Q E (pc + 1, m')"
    and "write_var name x st = R_Err (Ve_Undeclared (utf8_of name)) \<Longrightarrow> E (Ve_Undeclared (utf8_of name))"
  shows "goes pf td Q E (pc, m)"
proof -
  have "same_globals (vm_heap m) (vm_globals m) (rs_globals st)" using assms(1) by (simp add: matches_def)
  note g = same_globals_get [OF this, of "utf8_of name"]
  show ?thesis
  proof (rule goes_set_global [OF matches_running [OF assms(1)] assms(3,5,4)])
    assume "map_of (vm_globals m) (utf8_of name) \<noteq> None"
    then have "map_of (rs_globals st) (utf8_of name) \<noteq> None" using g by (auto split: option.splits)
    then have "write_var name x st = R_Ok () (st\<lparr>rs_globals := put_entry (utf8_of name) x (rs_globals st)\<rparr>)"
      using assms(2) by (simp add: write_var_def)
    then show "goes pf td Q E (pc + 1, m\<lparr>vm_globals := put_entry (utf8_of name) (getr base dest m) (vm_globals m)\<rparr>)"
      by (rule assms(7)) (simp_all add: matches_global [OF assms(1,6)])
  next
    assume "map_of (vm_globals m) (utf8_of name) = None"
    then show "E (Ve_Undeclared (utf8_of name))"
      using g assms(2) by (intro assms(8)) (auto simp: write_var_def split: option.splits)
  qed
qed

lemma write_var_length: "write_var name v st = R_Ok x st' \<Longrightarrow> length (rs_locals st') = length (rs_locals st)"
  using write_var_names map_eq_imp_length_eq by blast

lemma assign_runs:
  assumes "expr_ok pf td ch base e" "core_expr e"
  shows "expr_ok pf td ch base (E_Assign name e l)"
  unfolding expr_ok_def
proof (intro allI impI)
  fix n dest s s' u m st
  assume c: "sub_expr (compilers n) (E_Assign name e l) dest s = COk u s'" and env: "env_ok s st dest"
    and emb: "embeds ch (vm_heap m) s s'" and regs: "expr_regs (c_next_reg (cur s)) (E_Assign name e l) dest < 256"
    and mat: "matches pf ch base st m" and set: "settled (ref_eval (pf_nan pf) (E_Assign name e l) st)"
  let ?nl = "length (rs_locals st)" and ?qn = "pf_nan pf"
  let ?r = "ref_eval ?qn (E_Assign name e l) st"
  have d: "?nl \<le> dest" "comp_ready s" using env by (simp_all add: env_ok_def)
  have dest: "dest < 256" by (rule le_less_trans [OF expr_regs_ge regs])
  obtain k s1 where s1: "sub_expr (compilers k) e dest s = COk () s1"
    and alt: "(\<exists>i. find_local name (cur s) = Some i \<and>
        s' = (if dest = i then s1 else put_code (code_of s1 @ [ins_of Move i dest 0 0]) s1)) \<or>
     (find_local name (cur s) = None \<and>
        (\<exists>i s2. string_const name s1 = COk i s2 \<and> s' = put_code (code_of s2 @ [ins_of SetGlobal dest 0 0 i]) s2))"
    using assign_inv [OF c d(2)] by blast
  have g1: "advances (length (code_of s)) s s1" by (rule expr_advances [OF assms(2) s1 d(2)])
  note r1 = advances_ready(1) [OF g1]
  have set': "settled (rbind (ref_eval ?qn e st) (\<lambda>v st. rbind (write_var name v st) (\<lambda>_ st. R_Ok v st)))"
    using set by simp
  show "expr_runs pf td ch base ?nl dest (length (code_of s')) ?r m (length (code_of s))"
    using alt
  proof (elim disjE exE conjE)
    fix i assume i: "find_local name (cur s) = Some i"
      "s' = (if dest = i then s1 else put_code (code_of s1 @ [ins_of Move i dest 0 0]) s1)"
    have v: "find_var name st = Some i" using i(1) env_ok_var [OF env] by simp
    have s': "s' = put_code (code_of s1 @ [ins_of Move i dest 0 0]) s1" using i(2) find_var_less [OF v] d(1) by simp
    have "advances (length (code_of s1)) s1 s'" unfolding s' by (rule advances_emit [OF r1 order_refl])
    note emb1 = embeds_first [OF emb this]
    show ?thesis
    proof (rule runs_then [OF expr_okD [OF assms(1) s1 env emb1 _ mat _ refl]])
      fix x st1 m1 assume e: "ref_eval ?qn e st = R_Ok x st1" and m1: "matches pf ch base st1 m1"
        "length (rs_locals st1) = ?nl" "stands_for (vm_heap m1) (getr base dest m1) x" "kept base ?nl dest m m1"
      have v1: "find_var name st1 = Some i" using v find_var_names [OF ref_eval_names [OF e]] by simp
      have at: "at_code ch (length (code_of s1)) (ins_of Move i dest 0 0)"
        using embeds_emitted_first [OF emb, of s1] s' advances_env(6) [OF g1] by simp
      show "goes pf td (expr_post pf ch base ?nl dest (length (code_of s')) m ?r) (\<lambda>e. ?r = R_Err e)
         (length (code_of s1), m1)"
      proof (rule goes_write_local [OF m1(1) v1 at _ dest m1(3)])
        fix st' m' assume w: "write_var name x st1 = R_Ok () st'" "matches pf ch base st' m'" "vm_heap m' = vm_heap m1"
          "\<And>j. length (rs_locals st1) \<le> j \<Longrightarrow> j < 256 \<Longrightarrow> getr base j m' = getr base j m1"
        show "goes pf td (expr_post pf ch base ?nl dest (length (code_of s')) m ?r) (\<lambda>e. ?r = R_Err e)
           (length (code_of s1) + 1, m')"
        proof (rule runs_done)
          show "?r = R_Ok x st'" using e w(1) by simp
          show "length (rs_locals st') = ?nl" using m1(2) write_var_length [OF w(1)] by simp
          show "stands_for (vm_heap m') (getr base dest m') x" using m1(2,3) w(3,4) d(1) dest by simp
          show "kept base ?nl dest m m'" using m1(2,4) w(3,4) dest by (simp add: kept_def)
        qed (use w(2) s' in simp_all)
      qed (use m1(2) d(1) in simp)
    next
      fix e' assume "ref_eval ?qn e st = R_Err e'"
      then show "?r = R_Err e'" by simp
    qed (use regs settled_bind [OF set'] in simp_all)
  next
    fix i s2 assume i: "find_local name (cur s) = None" "string_const name s1 = COk i s2"
      "s' = put_code (code_of s2 @ [ins_of SetGlobal dest 0 0 i]) s2"
        have v: "find_var name st = None" using i(1) env_ok_var [OF env] by simp
    note sc = string_const_COk [OF i(2) r1, of "length (code_of s1)"]
    have g2: "advances (length (code_of s1)) s1 s2" and c2: "code_of s2 = code_of s1" using sc by simp_all
    have "advances (length (code_of s1)) s1 s'" unfolding i(3) by (rule advances_put_emit [OF g2 order_refl])
    note emb1 = embeds_first [OF emb this]
    show ?thesis
    proof (rule runs_then [OF expr_okD [OF assms(1) s1 env emb1 _ mat _ refl]])
      fix x st1 m1 assume e: "ref_eval ?qn e st = R_Ok x st1" and m1: "matches pf ch base st1 m1"
        "length (rs_locals st1) = ?nl" "stands_for (vm_heap m1) (getr base dest m1) x" "kept base ?nl dest m m1"
      have v1: "find_var name st1 = None" using v find_var_names [OF ref_eval_names [OF e]] by simp
      have at: "at_code ch (length (code_of s1)) (ins_of SetGlobal dest 0 0 i)"
        using embeds_emitted_first [OF emb, of s1] i(3) c2 advances_env(6) [OF g1] by simp
      have "embeds ch (vm_heap m1) s s'" using emb m1(4) by (auto simp: kept_def intro: embeds_heap)
      then have name: "const_text ch (vm_heap m1) i (utf8_of name)"
        by (rule embeds_named [OF _ i(2) r1]) (simp_all add: i(3))
      show "goes pf td (expr_post pf ch base ?nl dest (length (code_of s')) m ?r) (\<lambda>e. ?r = R_Err e)
         (length (code_of s1), m1)"
      proof (rule goes_write_global [OF m1(1) v1 at name dest m1(3)])
        fix st' m' assume w: "write_var name x st1 = R_Ok () st'" "matches pf ch base st' m'" "vm_heap m' = vm_heap m1"
          "\<And>j. getr base j m' = getr base j m1"
        show "goes pf td (expr_post pf ch base ?nl dest (length (code_of s')) m ?r) (\<lambda>e. ?r = R_Err e)
           (length (code_of s1) + 1, m')"
        proof (rule runs_done)
          show "?r = R_Ok x st'" using e w(1) by simp
          show "length (rs_locals st') = ?nl" using m1(2) write_var_length [OF w(1)] by simp
          show "stands_for (vm_heap m') (getr base dest m') x" using m1(3) w(3,4) by simp
          show "kept base ?nl dest m m'" using m1(4) w(3,4) by (simp add: kept_def)
        qed (use w(2) i(3) c2 in simp_all)
      next
        assume "write_var name x st1 = R_Err (Ve_Undeclared (utf8_of name))"
        then show "?r = R_Err (Ve_Undeclared (utf8_of name))" using e by simp
      qed
    next
      fix e' assume "ref_eval ?qn e st = R_Err e'"
      then show "?r = R_Err e'" by simp
    qed (use regs settled_bind [OF set'] in simp_all)
  qed
qed

section \<open>Operators\<close>

lemma expr_okI:
  assumes "\<And>n dest s s' u m st. sub_expr (compilers n) e dest s = COk u s' \<Longrightarrow> env_ok s st dest \<Longrightarrow>
      embeds ch (vm_heap m) s s' \<Longrightarrow> expr_regs (c_next_reg (cur s)) e dest < 256 \<Longrightarrow> matches pf ch base st m \<Longrightarrow>
      settled (ref_eval (pf_nan pf) e st) \<Longrightarrow> comp_ready s \<Longrightarrow> length (rs_locals st) \<le> dest \<Longrightarrow> dest < 256 \<Longrightarrow>
      expr_runs pf td ch base (length (rs_locals st)) dest (length (code_of s')) (ref_eval (pf_nan pf) e st) m
        (length (code_of s))"
  shows "expr_ok pf td ch base e"
  unfolding expr_ok_def
proof (intro allI impI)
  fix n dest s s' u m st
  assume a: "sub_expr (compilers n) e dest s = COk u s'" "env_ok s st dest" "embeds ch (vm_heap m) s s'"
    "expr_regs (c_next_reg (cur s)) e dest < 256" "matches pf ch base st m" "settled (ref_eval (pf_nan pf) e st)"
  have "dest < 256" by (rule le_less_trans [OF expr_regs_ge a(4)])
  with a show "expr_runs pf td ch base (length (rs_locals st)) dest (length (code_of s')) (ref_eval (pf_nan pf) e st) m
      (length (code_of s))"
    by (intro assms) (simp_all add: env_ok_def)
qed

text \<open>An operand of a form: what follows begins where its code ends.\<close>

lemma sub_runs:
  assumes "expr_ok pf td ch base e" "core_expr e" "sub_expr (compilers n) e dest s = COk u s1" "env_ok s st dest"
    "embeds ch (vm_heap m) s s1" "expr_regs (c_next_reg (cur s)) e dest < 256"
    "matches pf ch base st m" "r = rbind (ref_eval (pf_nan pf) e st) f" "settled r"
    and "\<And>x st1 m1. r = f x st1 \<Longrightarrow> matches pf ch base st1 m1 \<Longrightarrow>
      length (rs_locals st1) = length (rs_locals st) \<Longrightarrow> stands_for (vm_heap m1) (getr base dest m1) x \<Longrightarrow>
      kept base (length (rs_locals st)) dest m m1 \<Longrightarrow> env_ok s1 st1 dest \<Longrightarrow> text_le (vm_heap m) (vm_heap m1) \<Longrightarrow>
      goes pf td Q (\<lambda>e. r = R_Err e) (length (code_of s1), m1)"
  shows "goes pf td Q (\<lambda>e. r = R_Err e) (length (code_of s), m)"
proof (rule runs_then [OF expr_okD [OF assms(1,3,4,5,6,7) _ refl]])
  fix x st1 m1 assume e: "ref_eval (pf_nan pf) e st = R_Ok x st1" and k: "kept base (length (rs_locals st)) dest m m1"
  assume m1: "matches pf ch base st1 m1" "length (rs_locals st1) = length (rs_locals st)"
    "stands_for (vm_heap m1) (getr base dest m1) x"
  have "comp_ready s" using assms(4) by (simp add: env_ok_def)
  then have "env_ok s1 st1 dest" by (rule env_ok_step [OF assms(4) expr_advances [OF assms(2,3)] e])
  moreover have "text_le (vm_heap m) (vm_heap m1)" using k by (simp add: kept_def)
  ultimately show "goes pf td Q (\<lambda>e. r = R_Err e) (length (code_of s1), m1)"
    using e k m1 assms(8) by (intro assms(10)) simp_all
qed (use assms(8,9) settled_bind in auto)

lemma unary_op_runs:
  assumes "expr_ok pf td ch base e" "core_expr e"
  shows "expr_ok pf td ch base (E_Unary opr e)"
proof (rule expr_okI)
  fix n dest s s' u m st
  assume c: "sub_expr (compilers n) (E_Unary opr e) dest s = COk u s'" and env: "env_ok s st dest"
    and emb: "embeds ch (vm_heap m) s s'" and regs: "expr_regs (c_next_reg (cur s)) (E_Unary opr e) dest < 256"
    and mat: "matches pf ch base st m" and set: "settled (ref_eval (pf_nan pf) (E_Unary opr e) st)"
    and d: "comp_ready s" "length (rs_locals st) \<le> dest" "dest < 256"
  let ?r = "ref_eval (pf_nan pf) (E_Unary opr e) st"
  obtain k s1 opc where s1: "sub_expr (compilers k) e dest s = COk () s1" "unary_code opr = Some opc"
    "s' = put_code (code_of s1 @ [ins_of opc dest dest 0 0]) s1" using unary_cases [OF c] by blast
  have g1: "advances (length (code_of s)) s s1" by (rule expr_advances [OF assms(2) s1(1) d(1)])
  have g: "advances (length (code_of s1)) s1 s'" unfolding s1(3) by (rule advances_emit [OF advances_ready(1) [OF g1] order_refl])
  show "expr_runs pf td ch base (length (rs_locals st)) dest (length (code_of s')) ?r m (length (code_of s))"
  proof (rule sub_runs [OF assms s1(1) env embeds_first [OF emb g] _ mat _ set])
    show "?r = rbind (ref_eval (pf_nan pf) e st) (ref_unary opr)" by simp
    show "expr_regs (c_next_reg (cur s)) e dest < 256" using regs by simp
    fix x st1 m1 assume r: "?r = ref_unary opr x st1" and m1: "matches pf ch base st1 m1"
      "length (rs_locals st1) = length (rs_locals st)" "stands_for (vm_heap m1) (getr base dest m1) x"
      and k: "kept base (length (rs_locals st)) dest m m1"
    have at: "at_code ch (length (code_of s1)) (ins_of opc dest dest 0 0)"
      using embeds_emitted_first [OF emb, of s1] s1(3) advances_env(6) [OF g1] by simp
    have ready: "vm_ready pf (vm_heap m1)" using m1(1) by (simp add: matches_def)
    show "goes pf td (expr_post pf ch base (length (rs_locals st)) dest (length (code_of s')) m ?r) (\<lambda>e. ?r = R_Err e)
       (length (code_of s1), m1)"
    proof (rule goes_unary [OF matches_running [OF m1(1)] at d(3,3) s1(2) unary_meets [OF ready m1(3) s1(2)]])
      fix y st2 v h assume o: "ref_unary opr x st1 = R_Ok y st2" "stands_for h v y" "vm_ready pf h" "heap_le (vm_heap m1) h"
      have "st2 = st1" by (rule ref_unary_state [OF o(1)])
      then show "goes pf td (expr_post pf ch base (length (rs_locals st)) dest (length (code_of s')) m ?r)
         (\<lambda>e. ?r = R_Err e) (length (code_of s1) + 1, setr base dest v (m1\<lparr>vm_heap := h\<rparr>))"
        using r o m1(2) d s1(3) kept_heap [OF k heap_le_text [OF o(4)]]
        by (intro runs_result [where st = st1 and x = y, OF _ _ matches_heap_le [OF m1(1) o(3,4)]]) simp_all
    qed (use set r in \<open>simp_all add: settled_def\<close>)
  qed
qed

lemma binary_code_kind: "binary_code opr = Some (opc, negated) \<Longrightarrow> is_binary_code opc"
  by (auto simp: binary_code_def is_binary_code_def split: if_splits)

text \<open>The instructions of an operator: a negated one computes the opposite and negates it.\<close>

lemma goes_operator:
  assumes "matches pf ch base st m" "binary_code opr = Some (opc, negated)" "at_code ch pc (ins_of opc d d b 0)"
    "negated \<Longrightarrow> at_code ch (pc + 1) (ins_of NotOp d d 0 0)" "length (rs_locals st) \<le> d" "d < 256" "b < 256"
    "stands_for (vm_heap m) (getr base d m) x" "stands_for (vm_heap m) (getr base b m) y" "0 < pf_depth pf"
    "r = ref_binary (pf_nan pf) opr x y st" "settled r"
    and ok: "\<And>z v h. r = R_Ok z st \<Longrightarrow> stands_for h v z \<Longrightarrow> heap_le (vm_heap m) h \<Longrightarrow>
      matches pf ch base st (m\<lparr>vm_heap := h\<rparr>) \<Longrightarrow>
      goes pf td Q (\<lambda>e. r = R_Err e) (pc + 1 + length (negation_of negated d), setr base d v (m\<lparr>vm_heap := h\<rparr>))"
  shows "goes pf td Q (\<lambda>e. r = R_Err e) (pc, m)"
proof -
  have ready: "vm_ready pf (vm_heap m)" using assms(1) by (simp add: matches_def)
  note run = matches_running [OF assms(1)] and kind = binary_code_kind [OF assms(2)]
  note meets = binary_meets [OF ready assms(8,9,10,2), of st]
  note step = binary_step [OF run assms(3,6,6,7) kind]
  show ?thesis
  proof (cases negated)
    case False
    then have "meets pf (vm_heap m) (binary_op pf opc (getr base d m) (getr base b m) (vm_heap m)) r"
      using meets assms(11) by simp
    then show ?thesis
    proof (rule goes_binary [OF run assms(3,6,6,7) kind])
      fix z st' v h assume r: "r = R_Ok z st'" "stands_for h v z" "vm_ready pf h" "heap_le (vm_heap m) h"
      then have "st' = st" using assms(11) by (intro ref_binary_state) simp
      then have "r = R_Ok z st" using r(1) by simp
      then show "goes pf td Q (\<lambda>e. r = R_Err e) (pc + 1, setr base d v (m\<lparr>vm_heap := h\<rparr>))"
        using ok [OF _ r(2,4)] matches_heap_le [OF assms(1) r(3,4)] False by (simp add: negation_of_def)
    qed (use assms(12) in \<open>simp_all add: settled_def\<close>)
  next
    case True
    with meets consider c where "binary_op pf opc (getr base d m) (getr base b m) (vm_heap m) = HOk (val_boolean c) (vm_heap m)"
        "r = R_Ok (I_Bool (\<not> c)) st"
      | e where "binary_op pf opc (getr base d m) (getr base b m) (vm_heap m) = HErr e" "r = R_Err e"
      using assms(11,12) by auto
    then show ?thesis
    proof cases
      case 1
      let ?m = "setr base d (val_boolean c) m"
      have s: "goes pf td Q (\<lambda>e. r = R_Err e) (pc + 1, ?m)"
      proof (rule goes_unary [OF _ assms(4) [OF True] assms(6,6), where opr = T_Bang and r = r])
        show "running ch base ?m" using run by simp
        have w: "stands_for (vm_heap ?m) (getr base d ?m) (I_Bool c)"
          using run assms(6) by (simp add: getr_setr [of ch base])
        have "meets pf (vm_heap ?m) (unary_op pf NotOp (getr base d ?m) (vm_heap ?m)) (ref_unary T_Bang (I_Bool c) st)"
          by (rule unary_meets [OF _ w]) (simp_all add: ready unary_code_def)
        then show "meets pf (vm_heap ?m) (unary_op pf NotOp (getr base d ?m) (vm_heap ?m)) r"
          using 1(2) by (simp add: ref_unary_def ival_truthy_def)
        fix z st' v h assume r: "r = R_Ok z st'" "stands_for h v z" "vm_ready pf h" "heap_le (vm_heap ?m) h"
        then have l: "heap_le (vm_heap m) h" "r = R_Ok z st" using 1(2) by simp_all
        have "setr base d v (?m\<lparr>vm_heap := h\<rparr>) = setr base d v (m\<lparr>vm_heap := h\<rparr>)" by (simp add: setr_def)
        then show "goes pf td Q (\<lambda>e. r = R_Err e) (pc + 1 + 1, setr base d v (?m\<lparr>vm_heap := h\<rparr>))"
          using ok [OF l(2) r(2) l(1) matches_heap_le [OF assms(1) r(3) l(1)]] True by (simp add: negation_of_def)
      qed (use assms(12) in \<open>simp_all add: settled_def unary_code_def\<close>)
      have "m\<lparr>vm_heap := vm_heap m\<rparr> = m" by simp
      then have "vm_step pf bm td pc m = VOk (Next (pc + 1)) ?m" for bm
        using step(1) [OF 1(1) heap_le_refl] by simp
      then show ?thesis by (rule goes_step [OF _ s])
    next
      case 2
      show ?thesis by (rule goes_error) (rule step(2) [OF 2(1)], rule 2(2))
    qed
  qed
qed

lemma binary_runs:
  assumes "expr_ok pf td ch base a" "core_expr a" "expr_ok pf td ch base b" "core_expr b" "0 < pf_depth pf"
  shows "expr_ok pf td ch base (E_Binary a opr b)"
proof (rule expr_okI)
  fix n dest s s' u m st
  assume c: "sub_expr (compilers n) (E_Binary a opr b) dest s = COk u s'" and env: "env_ok s st dest"
    and emb: "embeds ch (vm_heap m) s s'" and regs: "expr_regs (c_next_reg (cur s)) (E_Binary a opr b) dest < 256"
    and mat: "matches pf ch base st m" and set: "settled (ref_eval (pf_nan pf) (E_Binary a opr b) st)"
    and d: "comp_ready s" "length (rs_locals st) \<le> dest" "dest < 256"
  let ?r = "ref_eval (pf_nan pf) (E_Binary a opr b) st" and ?nl = "length (rs_locals st)"
  obtain k s1 s2 opc negated where s1: "sub_expr (compilers k) a dest s = COk () s1"
    and s2: "sub_expr (compilers k) b (one_reg s1 dest) s1 = COk () s2" and opr: "binary_code opr = Some (opc, negated)"
    and s': "s' = put_code (code_of s2 @ ins_of opc dest dest (one_reg s1 dest) 0 # negation_of negated dest) s2"
    using binary_cases [OF c] by blast
  let ?t = "one_reg s1 dest"
  have g1: "advances (length (code_of s)) s s1" by (rule expr_advances [OF assms(2) s1 d(1)])
  have g2: "advances (length (code_of s1)) s1 s2" by (rule expr_advances [OF assms(4) s2 advances_ready(1) [OF g1]])
  have g': "advances (length (code_of s2)) s2 s'" unfolding s' by (rule advances_emit [OF advances_ready(1) [OF g2] order_refl])
  have g1': "advances (length (code_of s1)) s1 s'" by (rule advances_step [OF g2 g' order_refl])
  note len = advances_env(6) [OF g1] advances_env(6) [OF g2]
  have t: "?t = max (c_next_reg (cur s)) (dest + 1)" "dest < ?t" using advances_env(2) [OF g1] by (auto simp: one_reg_def)
  have regs2: "expr_regs (c_next_reg (cur s1)) b ?t < 256" using regs advances_env(2) [OF g1] t(1) by simp
  have t256: "?t < 256" by (rule le_less_trans [OF expr_regs_ge regs2])
  have emb2: "embeds ch h s1 s2" if "embeds ch h s s'" for h
    by (rule embeds_part [OF that len(1) _ advances_less [OF g' le0]]) (simp add: s' nth_append)
  show "expr_runs pf td ch base ?nl dest (length (code_of s')) ?r m (length (code_of s))"
  proof (rule sub_runs [OF assms(1,2) s1 env embeds_first [OF emb g1'] _ mat _ set])
    show "?r = rbind (ref_eval (pf_nan pf) a st)
       (\<lambda>x st. rbind (ref_eval (pf_nan pf) b st) (\<lambda>y st. ref_binary (pf_nan pf) opr x y st))" by simp
    show "expr_regs (c_next_reg (cur s)) a dest < 256" using regs by simp
    fix x st1 m1 assume r1: "?r = rbind (ref_eval (pf_nan pf) b st1) (\<lambda>y st. ref_binary (pf_nan pf) opr x y st)"
      and m1: "matches pf ch base st1 m1" "length (rs_locals st1) = ?nl" "stands_for (vm_heap m1) (getr base dest m1) x"
      "kept base ?nl dest m m1" "env_ok s1 st1 dest" "text_le (vm_heap m) (vm_heap m1)"
    have env1: "env_ok s1 st1 ?t" by (rule env_ok_dest [OF m1(5)]) (use t(2) in simp)
    note emb1 = embeds_heap [OF emb m1(6)]
    show "goes pf td (expr_post pf ch base ?nl dest (length (code_of s')) m ?r) (\<lambda>e. ?r = R_Err e)
       (length (code_of s1), m1)"
    proof (rule sub_runs [OF assms(3,4) s2 env1 emb2 [OF emb1] regs2 m1(1) r1 set])
      fix y st2 m2 assume r2: "?r = ref_binary (pf_nan pf) opr x y st2" and m2: "matches pf ch base st2 m2"
        "length (rs_locals st2) = length (rs_locals st1)" "stands_for (vm_heap m2) (getr base ?t m2) y"
        "kept base (length (rs_locals st1)) ?t m1 m2" "text_le (vm_heap m1) (vm_heap m2)"
      have "getr base dest m2 = getr base dest m1" using m2(4) m1(2) d(2) t(2) by (simp add: kept_def)
      then have x: "stands_for (vm_heap m2) (getr base dest m2) x" using stands_for_mono [OF m2(5) m1(3)] by simp
      have k: "kept base ?nl dest m m2" using kept_trans [OF m1(4)] m2(4) m1(2) t(2) by simp
      note emb2 = embeds_heap [OF emb1 m2(5)]
      have at: "at_code ch (length (code_of s2)) (ins_of opc dest dest ?t 0)"
        using embeds_emitted_first [OF emb2, of s2] s' len by simp
      have at': "negated \<Longrightarrow> at_code ch (length (code_of s2) + 1) (ins_of NotOp dest dest 0 0)"
        using embeds_emitted [OF emb2, of s2 _ 1] s' len by (simp add: negation_of_def)
      show "goes pf td (expr_post pf ch base ?nl dest (length (code_of s')) m ?r) (\<lambda>e. ?r = R_Err e)
         (length (code_of s2), m2)"
      proof (rule goes_operator [OF m2(1) opr at at' _ d(3) t256 x m2(3) assms(5) r2 set])
        fix z v h assume o: "?r = R_Ok z st2" "stands_for h v z" "heap_le (vm_heap m2) h"
          "matches pf ch base st2 (m2\<lparr>vm_heap := h\<rparr>)"
        show "goes pf td (expr_post pf ch base ?nl dest (length (code_of s')) m ?r) (\<lambda>e. ?r = R_Err e)
          (length (code_of s2) + 1 + length (negation_of negated dest), setr base dest v (m2\<lparr>vm_heap := h\<rparr>))"
          using m1(2) m2(2) d o(2) kept_heap [OF k heap_le_text [OF o(3)]]
          by (intro runs_result [OF o(1) _ o(4)]) (simp_all add: s')
      qed (use m1(2) m2(2) d(2) in simp_all)
    qed
  qed
qed

section \<open>Conditions\<close>

lemma rbind_R_Ok [simp]: "rbind r R_Ok = r"
  by (cases r) simp_all

text \<open>The last operand of a form decides its result, at the end of its code.\<close>

lemma last_runs:
  assumes "expr_ok pf td ch base e" "sub_expr (compilers n) e dest s = COk u s1" "env_ok s st1 dest"
    "embeds ch (vm_heap m1) s s1" "expr_regs (c_next_reg (cur s)) e dest < 256"
    "matches pf ch base st1 m1" "r = ref_eval (pf_nan pf) e st1" "settled r" "length (rs_locals st1) = nl"
    "kept base nl dest m m1"
    and "\<And>m2. expr_post pf ch base nl dest pc' m r (pc', m2) \<Longrightarrow>
      goes pf td (expr_post pf ch base nl dest pc' m r) (\<lambda>e. r = R_Err e) (length (code_of s1), m2)"
  shows "goes pf td (expr_post pf ch base nl dest pc' m r) (\<lambda>e. r = R_Err e) (length (code_of s), m1)"
proof (rule runs_then [OF expr_okD [OF assms(1-6) _ refl]])
  fix x st2 m2 assume a: "ref_eval (pf_nan pf) e st1 = R_Ok x st2" "matches pf ch base st2 m2"
    "length (rs_locals st2) = length (rs_locals st1)" "stands_for (vm_heap m2) (getr base dest m2) x"
    "kept base (length (rs_locals st1)) dest m1 m2"
  have "kept base nl dest m m2" using kept_trans [OF assms(10)] a(5) assms(9) by simp
  then have "expr_post pf ch base nl dest pc' m r (pc', m2)" using a assms(7,9) by (simp add: expr_post_def)
  then show "goes pf td (expr_post pf ch base nl dest pc' m r) (\<lambda>e. r = R_Err e) (length (code_of s1), m2)"
    by (rule assms(11))
qed (use assms(7,8) in simp_all)

lemma embeds_less: "embeds ch h s s' \<Longrightarrow> length (code_of s') < 4294967296"
  by (auto simp: embeds_def)

lemma and_runs:
  assumes "expr_ok pf td ch base a" "core_expr a" "expr_ok pf td ch base b" "core_expr b"
  shows "expr_ok pf td ch base (E_Logical a T_And b)"
proof (rule expr_okI)
  fix n dest s s' u m st
  assume c: "sub_expr (compilers n) (E_Logical a T_And b) dest s = COk u s'" and env: "env_ok s st dest"
    and emb: "embeds ch (vm_heap m) s s'" and regs: "expr_regs (c_next_reg (cur s)) (E_Logical a T_And b) dest < 256"
    and mat: "matches pf ch base st m" and set: "settled (ref_eval (pf_nan pf) (E_Logical a T_And b) st)"
    and d: "comp_ready s" "length (rs_locals st) \<le> dest" "dest < 256"
  let ?r = "ref_eval (pf_nan pf) (E_Logical a T_And b) st" and ?nl = "length (rs_locals st)"
  obtain k s1 s2 where s1: "sub_expr (compilers k) a dest s = COk () s1"
    and s2: "sub_expr (compilers k) b dest (put_code (code_of s1 @ [ins_of JumpIfFalse dest 0 0 0]) s1) = COk () s2"
    and s': "s' = patched (length (code_of s1)) s2" using and_cases [OF c] by blast
  let ?j = "put_code (code_of s1 @ [ins_of JumpIfFalse dest 0 0 0]) s1"
  have g1: "advances (length (code_of s)) s s1" by (rule expr_advances [OF assms(2) s1 d(1)])
  have gj: "advances (length (code_of s1)) s1 ?j" by (rule advances_emit [OF advances_ready(1) [OF g1] order_refl])
  have g2: "advances (length (code_of ?j)) ?j s2" by (rule expr_advances [OF assms(4) s2 advances_ready(1) [OF gj]])
  have g': "advances (length (code_of s1)) s1 s'"
    unfolding s' by (rule advances_patched [OF advances_step [OF gj g2 order_refl] order_refl])
  have g0: "advances 0 s2 s'" unfolding s' by (rule advances_patched [OF advances_refl [OF advances_ready(1) [OF g2]]]) simp
  note len = advances_env(6) [OF g1] advances_env(6) [OF g2]
  have jump: "code_of s' ! length (code_of s1) = ins_of JumpIfFalse dest 0 0 (length (code_of s2) - 1 - length (code_of s1))"
    unfolding s' using len(2) advances_nth [OF g2, of "length (code_of s1)"] by (intro patched_simps(5)) simp_all
  show "expr_runs pf td ch base ?nl dest (length (code_of s')) ?r m (length (code_of s))"
  proof (rule sub_runs [OF assms(1,2) s1 env embeds_first [OF emb g'] _ mat _ set])
    show "?r = rbind (ref_eval (pf_nan pf) a st) (\<lambda>x st. if ival_truthy x = False then R_Ok x st else ref_eval (pf_nan pf) b st)"
      by simp
    show "expr_regs (c_next_reg (cur s)) a dest < 256" using regs by simp
    fix x st1 m1 assume r1: "?r = (if ival_truthy x = False then R_Ok x st1 else ref_eval (pf_nan pf) b st1)"
      and m1: "matches pf ch base st1 m1" "length (rs_locals st1) = ?nl" "stands_for (vm_heap m1) (getr base dest m1) x"
      "kept base ?nl dest m m1" "env_ok s1 st1 dest" "text_le (vm_heap m) (vm_heap m1)"
    note emb1 = embeds_heap [OF emb m1(6)]
    have at: "at_code ch (length (code_of s1)) (ins_of JumpIfFalse dest 0 0 (length (code_of s2) - 1 - length (code_of s1)))"
      using embeds_at [OF emb1 _ _ jump] len by (simp add: s')
    have b: "embeds ch (vm_heap m1) ?j s2"
      by (rule embeds_part [OF emb1 _ _ g0]) (use len in \<open>simp_all add: s'\<close>)
    show "goes pf td (expr_post pf ch base ?nl dest (length (code_of s')) m ?r) (\<lambda>e. ?r = R_Err e)
       (length (code_of s1), m1)"
    proof (rule goes_jump_if_false [OF matches_running [OF m1(1)] at d(3)])
      show "length (code_of s2) - 1 - length (code_of s1) < 4294967296" using embeds_less [OF emb] s' by simp
      show "goes pf td (expr_post pf ch base ?nl dest (length (code_of s')) m ?r) (\<lambda>e. ?r = R_Err e)
        (if is_truthy (getr base dest m1) then length (code_of s1) + 1
         else length (code_of s1) + 1 + (length (code_of s2) - 1 - length (code_of s1)), m1)"
      proof (cases "ival_truthy x")
        case False
        then have "goes pf td (expr_post pf ch base ?nl dest (length (code_of s')) m ?r) (\<lambda>e. ?r = R_Err e)
            (length (code_of s'), m1)" using r1 m1 by (intro runs_done [where x = x and st = st1]) simp_all
        moreover have "length (code_of s1) + 1 + (length (code_of s2) - 1 - length (code_of s1)) = length (code_of s')"
          using len s' by simp
        ultimately show ?thesis using False stands_truthy [OF m1(3)] by (simp only: if_False)
      next
        case True
        have "goes pf td (expr_post pf ch base ?nl dest (length (code_of s')) m ?r) (\<lambda>e. ?r = R_Err e)
            (length (code_of ?j), m1)"
        proof (rule last_runs [OF assms(3) s2 _ b _ m1(1) _ set m1(2,4)])
          show "env_ok ?j st1 dest" by (rule env_ok_advances [OF m1(5) gj])
          show "expr_regs (c_next_reg (cur ?j)) b dest < 256" using regs advances_env(2) [OF g1] advances_env(2) [OF gj] by simp
          show "?r = ref_eval (pf_nan pf) b st1" using r1 True by simp
          fix m2 assume "expr_post pf ch base ?nl dest (length (code_of s')) m ?r (length (code_of s'), m2)"
          then show "goes pf td (expr_post pf ch base ?nl dest (length (code_of s')) m ?r) (\<lambda>e. ?r = R_Err e)
              (length (code_of s2), m2)" using s' by (intro goes_done) simp
        qed
        then show ?thesis using True stands_truthy [OF m1(3)] by simp
      qed
    qed
  qed
qed

lemma or_runs:
  assumes "expr_ok pf td ch base a" "core_expr a" "expr_ok pf td ch base b" "core_expr b"
  shows "expr_ok pf td ch base (E_Logical a T_Or b)"
proof (rule expr_okI)
  fix n dest s s' u m st
  assume c: "sub_expr (compilers n) (E_Logical a T_Or b) dest s = COk u s'" and env: "env_ok s st dest"
    and emb: "embeds ch (vm_heap m) s s'" and regs: "expr_regs (c_next_reg (cur s)) (E_Logical a T_Or b) dest < 256"
    and mat: "matches pf ch base st m" and set: "settled (ref_eval (pf_nan pf) (E_Logical a T_Or b) st)"
    and d: "comp_ready s" "length (rs_locals st) \<le> dest" "dest < 256"
  let ?r = "ref_eval (pf_nan pf) (E_Logical a T_Or b) st" and ?nl = "length (rs_locals st)"
  obtain k s1 s2 where s1: "sub_expr (compilers k) a dest s = COk () s1"
    and s2: "sub_expr (compilers k) b dest
      (put_code (code_of s1 @ [ins_of JumpIfFalse dest 0 0 1, ins_of Jump 0 0 0 0]) s1) = COk () s2"
    and s': "s' = patched (length (code_of s1) + 1) s2" using or_cases [OF c] by blast
  let ?j = "put_code (code_of s1 @ [ins_of JumpIfFalse dest 0 0 1, ins_of Jump 0 0 0 0]) s1"
  let ?n = "length (code_of s2) - 1 - (length (code_of s1) + 1)"
  have g1: "advances (length (code_of s)) s s1" by (rule expr_advances [OF assms(2) s1 d(1)])
  have gj: "advances (length (code_of s1)) s1 ?j" by (rule advances_emit [OF advances_ready(1) [OF g1] order_refl])
  have g2: "advances (length (code_of ?j)) ?j s2" by (rule expr_advances [OF assms(4) s2 advances_ready(1) [OF gj]])
  have g': "advances (length (code_of s1)) s1 s'"
    unfolding s' by (rule advances_patched [OF advances_step [OF gj g2 order_refl]]) simp
  have g0: "advances 0 s2 s'" unfolding s' by (rule advances_patched [OF advances_refl [OF advances_ready(1) [OF g2]]]) simp
  note len = advances_env(6) [OF g1] advances_env(6) [OF g2]
  have jump: "code_of s' ! (length (code_of s1) + 1) = ins_of Jump 0 0 0 ?n"
    unfolding s' using len(2) advances_nth [OF g2, of "length (code_of s1) + 1"]
    by (intro patched_simps(5)) (simp_all add: nth_append)
  have test: "code_of s' ! length (code_of s1) = ins_of JumpIfFalse dest 0 0 1"
    using len(2) advances_nth [OF g2, of "length (code_of s1)"] by (simp add: s')
  show "expr_runs pf td ch base ?nl dest (length (code_of s')) ?r m (length (code_of s))"
  proof (rule sub_runs [OF assms(1,2) s1 env embeds_first [OF emb g'] _ mat _ set])
    show "?r = rbind (ref_eval (pf_nan pf) a st) (\<lambda>x st. if ival_truthy x then R_Ok x st else ref_eval (pf_nan pf) b st)"
      by simp
    show "expr_regs (c_next_reg (cur s)) a dest < 256" using regs by simp
    fix x st1 m1 assume r1: "?r = (if ival_truthy x then R_Ok x st1 else ref_eval (pf_nan pf) b st1)"
      and m1: "matches pf ch base st1 m1" "length (rs_locals st1) = ?nl" "stands_for (vm_heap m1) (getr base dest m1) x"
      "kept base ?nl dest m m1" "env_ok s1 st1 dest" "text_le (vm_heap m) (vm_heap m1)"
    note emb1 = embeds_heap [OF emb m1(6)] and run = matches_running [OF m1(1)]
    have at: "at_code ch (length (code_of s1)) (ins_of JumpIfFalse dest 0 0 1)"
      "at_code ch (length (code_of s1) + 1) (ins_of Jump 0 0 0 ?n)"
      using embeds_at [OF emb1 _ _ test] embeds_at [OF emb1 _ _ jump] len by (simp_all add: s')
    have b: "embeds ch (vm_heap m1) ?j s2"
      by (rule embeds_part [OF emb1 _ _ g0]) (use len in \<open>simp_all add: s'\<close>)
    show "goes pf td (expr_post pf ch base ?nl dest (length (code_of s')) m ?r) (\<lambda>e. ?r = R_Err e)
       (length (code_of s1), m1)"
    proof (rule goes_jump_if_false [OF run at(1) d(3)])
      show "goes pf td (expr_post pf ch base ?nl dest (length (code_of s')) m ?r) (\<lambda>e. ?r = R_Err e)
        (if is_truthy (getr base dest m1) then length (code_of s1) + 1 else length (code_of s1) + 1 + 1, m1)"
      proof (cases "ival_truthy x")
        case True
        then have "goes pf td (expr_post pf ch base ?nl dest (length (code_of s')) m ?r) (\<lambda>e. ?r = R_Err e)
            (length (code_of s'), m1)" using r1 m1 by (intro runs_done [where x = x and st = st1]) simp_all
        moreover have "length (code_of s1) + 1 + 1 + ?n = length (code_of s')" using len s' by simp
        ultimately have "goes pf td (expr_post pf ch base ?nl dest (length (code_of s')) m ?r) (\<lambda>e. ?r = R_Err e)
            (length (code_of s1) + 1 + 1 + ?n, m1)" by (simp only:)
        then have "goes pf td (expr_post pf ch base ?nl dest (length (code_of s')) m ?r) (\<lambda>e. ?r = R_Err e)
            (length (code_of s1) + 1, m1)"
          using len s' embeds_less [OF emb] by (intro goes_jump [OF run at(2)]) simp_all
        then show ?thesis using True stands_truthy [OF m1(3)] by simp
      next
        case False
        have "goes pf td (expr_post pf ch base ?nl dest (length (code_of s')) m ?r) (\<lambda>e. ?r = R_Err e)
            (length (code_of ?j), m1)"
        proof (rule last_runs [OF assms(3) s2 _ b _ m1(1) _ set m1(2,4)])
          show "env_ok ?j st1 dest" by (rule env_ok_advances [OF m1(5) gj])
          show "expr_regs (c_next_reg (cur ?j)) b dest < 256" using regs advances_env(2) [OF g1] advances_env(2) [OF gj] by simp
          show "?r = ref_eval (pf_nan pf) b st1" using r1 False by simp
          fix m2 assume "expr_post pf ch base ?nl dest (length (code_of s')) m ?r (length (code_of s'), m2)"
          then show "goes pf td (expr_post pf ch base ?nl dest (length (code_of s')) m ?r) (\<lambda>e. ?r = R_Err e)
              (length (code_of s2), m2)" using s' by (intro goes_done) simp
        qed
        then show ?thesis using False stands_truthy [OF m1(3)] by simp
      qed
    qed simp
  qed
qed

lemma conditional_runs:
  assumes "expr_ok pf td ch base c" "core_expr c" "expr_ok pf td ch base a" "core_expr a"
    "expr_ok pf td ch base b" "core_expr b"
  shows "expr_ok pf td ch base (E_Ternary c a b)"
proof (rule expr_okI)
  fix n dest s s' u m st
  assume comp: "sub_expr (compilers n) (E_Ternary c a b) dest s = COk u s'" and env: "env_ok s st dest"
    and emb: "embeds ch (vm_heap m) s s'" and regs: "expr_regs (c_next_reg (cur s)) (E_Ternary c a b) dest < 256"
    and mat: "matches pf ch base st m" and set: "settled (ref_eval (pf_nan pf) (E_Ternary c a b) st)"
    and d: "comp_ready s" "length (rs_locals st) \<le> dest" "dest < 256"
  let ?r = "ref_eval (pf_nan pf) (E_Ternary c a b) st" and ?nl = "length (rs_locals st)"
  obtain k s1 s2 s3 where s1: "sub_expr (compilers k) c dest s = COk () s1"
    and s2: "sub_expr (compilers k) a dest (put_code (code_of s1 @ [ins_of JumpIfFalse dest 0 0 0]) s1) = COk () s2"
    and s3: "sub_expr (compilers k) b dest
      (patched (length (code_of s1)) (put_code (code_of s2 @ [ins_of Jump 0 0 0 0]) s2)) = COk () s3"
    and s': "s' = patched (length (code_of s2)) s3" using ternary_cases [OF comp] by blast
  let ?j1 = "length (code_of s1)" and ?j2 = "length (code_of s2)"
  let ?i1 = "put_code (code_of s1 @ [ins_of JumpIfFalse dest 0 0 0]) s1"
  let ?p2 = "put_code (code_of s2 @ [ins_of Jump 0 0 0 0]) s2"
  let ?i2 = "patched ?j1 ?p2"
  have g1: "advances (length (code_of s)) s s1" by (rule expr_advances [OF assms(2) s1 d(1)])
  have gi1: "advances ?j1 s1 ?i1" by (rule advances_emit [OF advances_ready(1) [OF g1] order_refl])
  have g2: "advances (length (code_of ?i1)) ?i1 s2" by (rule expr_advances [OF assms(4) s2 advances_ready(1) [OF gi1]])
  have gp2: "advances ?j2 s2 ?p2" by (rule advances_emit [OF advances_ready(1) [OF g2] order_refl])
  have l2: "?j1 < ?j2" using advances_env(6) [OF g2] by simp
  have gi2: "advances ?j1 s2 ?i2" by (rule advances_patched [OF advances_less [OF gp2] order_refl]) (use l2 in simp)
  have g3: "advances (length (code_of ?i2)) ?i2 s3" by (rule expr_advances [OF assms(6) s3 advances_ready(1) [OF gi2]])
  have l3: "?j2 < length (code_of s3)" using advances_env(6) [OF g3] by simp
  have g3': "advances ?j1 s2 s3" by (rule advances_trans [OF gi2 advances_less [OF g3]]) (use l2 in simp)
  have gs2: "advances ?j1 s2 s'" unfolding s' by (rule advances_patched [OF g3']) (use l2 in simp)
  have g12: "advances ?j1 s1 s2" by (rule advances_step [OF gi1 g2 order_refl])
  have g': "advances ?j1 s1 s'" by (rule advances_trans [OF g12 gs2])
  have g0: "advances 0 s3 s'" unfolding s' by (rule advances_patched [OF advances_refl [OF advances_ready(1) [OF g3]]]) simp
  note len = advances_env(6) [OF g1] l2 l3
  have at1: "code_of s2 ! ?j1 = ins_of JumpIfFalse dest 0 0 0" using advances_nth [OF g2, of ?j1] by simp
  have "code_of ?i2 ! ?j1 = ins_of JumpIfFalse dest 0 0 (length (code_of ?p2) - 1 - ?j1)"
    by (rule patched_simps(5)) (use at1 l2 in \<open>simp_all add: nth_append\<close>)
  then have test: "code_of s' ! ?j1 = ins_of JumpIfFalse dest 0 0 (?j2 - ?j1)"
    using advances_nth [OF g3, of ?j1] l2 by (simp add: s')
  have "code_of s3 ! ?j2 = ins_of Jump 0 0 0 0" using advances_nth [OF g3, of ?j2] l2 by simp
  then have jump: "code_of s' ! ?j2 = ins_of Jump 0 0 0 (length (code_of s3) - 1 - ?j2)"
    unfolding s' using l3 by (intro patched_simps(5)) simp_all
  have before: "code_of s' ! i = code_of s2 ! i" if "?j1 < i" "i < ?j2" for i
    using advances_nth [OF g3, of i] that by (simp add: s' nth_append)
  note e = advances_env(2) [OF g1] advances_env(2) [OF gi1] advances_env(2) [OF g12] advances_env(2) [OF gi2]
  show "expr_runs pf td ch base ?nl dest (length (code_of s')) ?r m (length (code_of s))"
  proof (rule sub_runs [OF assms(1,2) s1 env embeds_first [OF emb g'] _ mat _ set])
    show "?r = rbind (ref_eval (pf_nan pf) c st)
        (\<lambda>x st. if ival_truthy x then ref_eval (pf_nan pf) a st else ref_eval (pf_nan pf) b st)" by simp
    show "expr_regs (c_next_reg (cur s)) c dest < 256" using regs by simp
    fix x st1 m1 assume r1: "?r = (if ival_truthy x then ref_eval (pf_nan pf) a st1 else ref_eval (pf_nan pf) b st1)"
      and m1: "matches pf ch base st1 m1" "length (rs_locals st1) = ?nl" "stands_for (vm_heap m1) (getr base dest m1) x"
      "kept base ?nl dest m m1" "env_ok s1 st1 dest" "text_le (vm_heap m) (vm_heap m1)"
    note emb1 = embeds_heap [OF emb m1(6)] and run = matches_running [OF m1(1)]
    let ?Q = "expr_post pf ch base ?nl dest (length (code_of s')) m ?r" and ?E = "\<lambda>e. ?r = R_Err e"
    have at: "at_code ch ?j1 (ins_of JumpIfFalse dest 0 0 (?j2 - ?j1))"
      "at_code ch ?j2 (ins_of Jump 0 0 0 (length (code_of s3) - 1 - ?j2))"
      using embeds_at [OF emb1 _ _ test] embeds_at [OF emb1 _ _ jump] len by (simp_all add: s')
    have ea: "embeds ch (vm_heap m1) ?i1 s2"
      by (rule embeds_part [OF emb1 _ _ advances_less [OF gs2 le0]]) (use len before in simp_all)
    have eb: "embeds ch (vm_heap m1) ?i2 s3"
      by (rule embeds_part [OF emb1 _ _ g0]) (use len in \<open>simp_all add: s'\<close>)
    show "goes pf td ?Q ?E (?j1, m1)"
    proof (rule goes_jump_if_false [OF run at(1) d(3)])
      show "?j2 - ?j1 < 4294967296" using embeds_less [OF emb] s' l3 by simp
      show "goes pf td ?Q ?E (if is_truthy (getr base dest m1) then ?j1 + 1 else ?j1 + 1 + (?j2 - ?j1), m1)"
      proof (cases "ival_truthy x")
        case True
        have "goes pf td ?Q ?E (length (code_of ?i1), m1)"
        proof (rule last_runs [OF assms(3) s2 _ ea _ m1(1) _ set m1(2,4)])
          show "env_ok ?i1 st1 dest" by (rule env_ok_advances [OF m1(5) gi1])
          show "expr_regs (c_next_reg (cur ?i1)) a dest < 256" using regs e by simp
          show "?r = ref_eval (pf_nan pf) a st1" using r1 True by simp
          fix m2 assume m2: "?Q (length (code_of s'), m2)"
          have "?j2 + 1 + (length (code_of s3) - 1 - ?j2) = length (code_of s')" using l3 s' by simp
          then have "goes pf td ?Q ?E (?j2 + 1 + (length (code_of s3) - 1 - ?j2), m2)"
            using m2 by (intro goes_done) (simp only:)
          moreover have "running ch base m2" using m2 by (auto simp: expr_post_def dest: matches_running)
          ultimately show "goes pf td ?Q ?E (?j2, m2)"
            using s' embeds_less [OF emb] by (intro goes_jump [OF _ at(2)]) simp_all
        qed
        then show ?thesis using True stands_truthy [OF m1(3)] by simp
      next
        case False
        have "goes pf td ?Q ?E (length (code_of ?i2), m1)"
        proof (rule last_runs [OF assms(5) s3 _ eb _ m1(1) _ set m1(2,4)])
          show "env_ok ?i2 st1 dest" by (rule env_ok_advances [OF env_ok_advances [OF m1(5) g12] gi2])
          show "expr_regs (c_next_reg (cur ?i2)) b dest < 256" using regs e by simp
          show "?r = ref_eval (pf_nan pf) b st1" using r1 False by simp
          fix m2 assume "?Q (length (code_of s'), m2)"
          then show "goes pf td ?Q ?E (length (code_of s3), m2)" using s' by (intro goes_done) simp
        qed
        then show ?thesis using False stands_truthy [OF m1(3)] l2 by simp
      qed
    qed
  qed
qed

section \<open>Increments\<close>

lemma small_mag_number: "is_number (Value (f64_make False (min k f64_inf_mag)))"
proof -
  have "unat (of_nat (min k f64_inf_mag) :: u64) = min k f64_inf_mag"
    by (simp add: unat_of_nat take_bit_eq_mod f64_inf_mag_def)
  then show ?thesis
    by (simp add: is_number_def TAG_NUMBER_MASK_def f64_make_def word_less_nat_alt f64_inf_mag_def)
qed

lemma one_number: "is_number (Value (f64_of_nat 1))"
  unfolding f64_of_nat_def f64_round_def Let_def using small_mag_number [of 0] by (simp add: small_mag_number)

lemma update_code_binary:
  "update_code opr = Some opc \<Longrightarrow> (opr = T_PlusPlus \<and> binary_code T_Plus = Some (opc, False)) \<or>
    (opr = T_MinusMinus \<and> binary_code T_Minus = Some (opc, False))"
  by (auto simp: update_code_def binary_code_def split: if_splits)

definition update_op :: "token_type \<Rightarrow> token_type" where
  "update_op opr = (if opr = T_PlusPlus then T_Plus else T_Minus)"

lemma update_op_code: "update_code opr = Some opc \<Longrightarrow> binary_code (update_op opr) = Some (opc, False)"
  using update_code_binary by (fastforce simp: update_op_def)

lemma update_var_eq:
  assumes "update_code opr = Some opc"
  shows "update_var qn before opr (E_Variable name l) st =
     rbind (read_var name st) (\<lambda>old st. rbind (ref_binary qn (update_op opr) old (I_Num (f64_of_nat 1)) st) (\<lambda>new st.
       rbind (write_var name new st) (\<lambda>_ st. R_Ok (if before then new else old) st)))"
  using update_code_binary [OF assms] by (auto simp: update_var_def update_op_def ref_binary_def)

text \<open>Loading the number one.\<close>

lemma goes_one:
  assumes "matches pf ch base st m" "embeds ch h s s'" "text_le h (vm_heap m)" "advances k (with_one s dest) s'"
    "length (code_of s) < k" "one_reg s dest < 256" "length (rs_locals st) \<le> dest"
    and go: "\<And>m1. matches pf ch base st m1 \<Longrightarrow> stands_for (vm_heap m1) (getr base (one_reg s dest) m1) (I_Num (f64_of_nat 1)) \<Longrightarrow>
      kept base (length (rs_locals st)) (dest + 1) m m1 \<Longrightarrow> vm_heap m1 = vm_heap m \<Longrightarrow> goes pf td Q E (length (code_of s) + 1, m1)"
  shows "goes pf td Q E (length (code_of s), m)"
proof -
  have t: "dest < one_reg s dest" by (simp add: one_reg_def)
  obtain vs where vs: "consts_of s' = consts_of (with_one s dest) @ vs" using assms(4) by (auto simp: advances_def)
  have c: "consts_of s @ val_number (f64_of_nat 1) # vs = consts_of s'" using vs by simp
  have "code_of s' ! length (code_of s) = code_of (with_one s dest) ! length (code_of s)"
    using assms(4,5) by (rule advances_nth)
  then have "code_of s' ! length (code_of s) = ins_of LoadConst (one_reg s dest) 0 0 (length (consts_of s))" by simp
  then have "at_code ch (length (code_of s)) (ins_of LoadConst (one_reg s dest) 0 0 (length (consts_of s)))"
    using advances_env(6) [OF assms(4)] by (intro embeds_at [OF assms(2)]) simp_all
  then show ?thesis
  proof (rule goes_const [OF matches_running [OF assms(1)] _ assms(6)])
    let ?m = "setr base (one_reg s dest) (constants ch ! length (consts_of s)) m"
    show "goes pf td Q E (length (code_of s) + 1, ?m)"
    proof (rule go)
      show "matches pf ch base st ?m" using t assms(6,7) by (intro matches_temp [OF assms(1)]) simp_all
      show "stands_for (vm_heap ?m) (getr base (one_reg s dest) ?m) (I_Num (f64_of_nat 1))"
        using embeds_const(3) [OF assms(2) c] val_number_word [OF one_number] one_number assms(6)
          matches_running [OF assms(1)] by (simp add: getr_setr [of ch base])
      show "kept base (length (rs_locals st)) (dest + 1) m ?m"
        using t assms(6) matches_running [OF assms(1)] by (intro kept_setr [where ch = ch]) simp_all
    qed simp
  qed (use embeds_const [OF assms(2) c] in simp_all)
qed

lemma ref_read_state: "read_var name st = R_Ok x st' \<Longrightarrow> st' = st"
  by (rule operators_state)

text \<open>A binary instruction whose result goes to any register below 256.\<close>

lemma goes_update:
  assumes "matches pf ch base st m" "binary_code opr = Some (opc, False)" "at_code ch pc (ins_of opc d a b 0)"
    "d < 256" "a < 256" "b < 256" "stands_for (vm_heap m) (getr base a m) x" "stands_for (vm_heap m) (getr base b m) y"
    "0 < pf_depth pf" "settled (ref_binary (pf_nan pf) opr x y st)"
    and ok: "\<And>z v h. ref_binary (pf_nan pf) opr x y st = R_Ok z st \<Longrightarrow> stands_for h v z \<Longrightarrow> heap_le (vm_heap m) h \<Longrightarrow>
      matches pf ch base st (m\<lparr>vm_heap := h\<rparr>) \<Longrightarrow> goes pf td Q E (pc + 1, setr base d v (m\<lparr>vm_heap := h\<rparr>))"
    and err: "\<And>e. ref_binary (pf_nan pf) opr x y st = R_Err e \<Longrightarrow> E e"
  shows "goes pf td Q E (pc, m)"
proof -
  have ready: "vm_ready pf (vm_heap m)" using assms(1) by (simp add: matches_def)
  show ?thesis
  proof (rule goes_binary [OF matches_running [OF assms(1)] assms(3-6) binary_code_kind [OF assms(2)]])
    show "meets pf (vm_heap m) (binary_op pf opc (getr base a m) (getr base b m) (vm_heap m)) (ref_binary (pf_nan pf) opr x y st)"
      using binary_meets [OF ready assms(7,8,9,2)] by simp
    fix z st' v h assume r: "ref_binary (pf_nan pf) opr x y st = R_Ok z st'" "stands_for h v z" "vm_ready pf h"
      "heap_le (vm_heap m) h"
    have "st' = st" by (rule ref_binary_state [OF r(1)])
    then show "goes pf td Q E (pc + 1, setr base d v (m\<lparr>vm_heap := h\<rparr>))"
      using ok [OF _ r(2,4) matches_heap_le [OF assms(1) r(3,4)]] r(1) by simp
  qed (use assms(10) err in \<open>simp_all add: settled_def\<close>)
qed

lemma goes_read_global:
  assumes "matches pf ch base st m" "find_var name st = None" "at_code ch pc (ins_of GetGlobal d 0 0 i)"
    "const_text ch (vm_heap m) i (utf8_of name)" "d < 256" "length (rs_locals st) \<le> d"
    and ok: "\<And>x w. read_var name st = R_Ok x st \<Longrightarrow> stands_for (vm_heap m) w x \<Longrightarrow>
      matches pf ch base st (setr base d w m) \<Longrightarrow> goes pf td Q E (pc + 1, setr base d w m)"
    and err: "\<And>e. read_var name st = R_Err e \<Longrightarrow> E e"
  shows "goes pf td Q E (pc, m)"
proof -
  have "same_globals (vm_heap m) (vm_globals m) (rs_globals st)" using assms(1) by (simp add: matches_def)
  note g = same_globals_get [OF this, of "utf8_of name"]
  show ?thesis
  proof (rule goes_get_global [OF matches_running [OF assms(1)] assms(3,5,4)])
    fix w assume w: "map_of (vm_globals m) (utf8_of name) = Some w"
    with g obtain x where "map_of (rs_globals st) (utf8_of name) = Some x" "stands_for (vm_heap m) w x"
      by (auto split: option.splits)
    then show "goes pf td Q E (pc + 1, setr base d w m)"
      using assms(2) matches_temp [OF assms(1,6,5)] by (intro ok [of x]) (simp_all add: read_var_def)
  next
    assume "map_of (vm_globals m) (utf8_of name) = None"
    then show "E (Ve_Undefined (utf8_of name))"
      using g assms(2) by (intro err) (auto simp: read_var_def split: option.splits)
  qed
qed

lemma goes_update_local:
  assumes "matches pf ch base st m" "find_var name st = Some i" "binary_code opr = Some (opc, False)"
    "at_code ch pc (ins_of opc i i b 0)" "length (rs_locals st) \<le> 256" "b < 256"
    "stands_for (vm_heap m) (getr base b m) y" "0 < pf_depth pf"
    "settled (ref_binary (pf_nan pf) opr (snd (rs_locals st ! i)) y st)"
    and ok: "\<And>new v h st'. ref_binary (pf_nan pf) opr (snd (rs_locals st ! i)) y st = R_Ok new st \<Longrightarrow>
      write_var name new st = R_Ok () st' \<Longrightarrow> stands_for h v new \<Longrightarrow> heap_le (vm_heap m) h \<Longrightarrow>
      matches pf ch base st' (setr base i v (m\<lparr>vm_heap := h\<rparr>)) \<Longrightarrow>
      goes pf td Q E (pc + 1, setr base i v (m\<lparr>vm_heap := h\<rparr>))"
    and err: "\<And>e. ref_binary (pf_nan pf) opr (snd (rs_locals st ! i)) y st = R_Err e \<Longrightarrow> E e"
  shows "goes pf td Q E (pc, m)"
proof -
  note i = find_var_less [OF assms(2)]
  have i256: "i < 256" using i assms(5) by simp
  show ?thesis
  proof (rule goes_update [OF assms(1,3,4) i256 i256 assms(6) matches_localD [OF assms(1) i] assms(7-9) _ err])
    fix z v h assume r: "ref_binary (pf_nan pf) opr (snd (rs_locals st ! i)) y st = R_Ok z st" "stands_for h v z"
      "heap_le (vm_heap m) h" "matches pf ch base st (m\<lparr>vm_heap := h\<rparr>)"
    show "goes pf td Q E (pc + 1, setr base i v (m\<lparr>vm_heap := h\<rparr>))"
      by (rule ok [OF r(1) _ r(2,3) matches_local [OF r(4) i assms(5), where name = name and x = z]])
        (use assms(2) r(2) in \<open>simp_all add: write_var_def\<close>)
  qed
qed

lemma prefix_runs:
  assumes depth: "0 < pf_depth pf"
  shows "expr_ok pf td ch base (E_Prefix opr (E_Variable name l))"
proof (rule expr_okI)
  fix n dest s s' u m and st :: ref_state
  let ?e = "E_Prefix opr (E_Variable name l)" and ?nl = "length (rs_locals st)" and ?one = "I_Num (f64_of_nat 1)"
  let ?r = "ref_eval (pf_nan pf) ?e st"
  assume c: "sub_expr (compilers n) ?e dest s = COk u s'" and env: "env_ok s st dest"
    and emb: "embeds ch (vm_heap m) s s'" and regs: "expr_regs (c_next_reg (cur s)) ?e dest < 256"
    and mat: "matches pf ch base st m" and set: "settled ?r"
    and d: "comp_ready s" "?nl \<le> dest" "dest < 256"
  let ?t = "one_reg s dest" and ?p = "length (code_of s)" and ?s1 = "with_one s dest"
  let ?op = "ref_binary (pf_nan pf) (update_op opr)"
  obtain opc where opc: "update_code opr = Some opc" and v: "prefix_variable name l opc ?t dest ?s1 = COk u s'"
    using update_inv [OF c] by blast
  note bin = update_op_code [OF opc]
  have r: "?r = rbind (read_var name st) (\<lambda>old st. rbind (?op old ?one st) (\<lambda>new st.
       rbind (write_var name new st) (\<lambda>_ st. R_Ok new st)))"
    using update_var_eq [OF opc] by simp
  have g1: "advances ?p s ?s1" by (rule with_one_advances [OF d(1) order_refl])
  note r1 = advances_ready(1) [OF g1]
  have g': "advances (?p + 1) ?s1 s'" by (rule prefix_advances [OF v advances_refl [OF r1]]) simp
  have t: "?t < 256" "dest < ?t" using regs by (simp_all add: one_reg_def)
  have locals: "find_local name (cur ?s1) = find_var name st" by (rule env_ok_var [OF env_ok_advances [OF env g1]])
  let ?Q = "expr_post pf ch base ?nl dest (length (code_of s')) m ?r" and ?E = "\<lambda>e. ?r = R_Err e"
  show "goes pf td ?Q ?E (?p, m)"
  proof (rule goes_one [OF mat emb text_le_refl g' _ t(1) d(2)])
    fix m1 assume m1: "matches pf ch base st m1" "stands_for (vm_heap m1) (getr base ?t m1) ?one"
      "kept base ?nl (dest + 1) m m1" "vm_heap m1 = vm_heap m"
    have k: "kept base ?nl dest m m1" by (rule kept_less [OF m1(3)]) simp
    note run = matches_running [OF m1(1)]
    from prefix_cases [OF v r1] show "goes pf td ?Q ?E (?p + 1, m1)"
    proof (elim disjE exE conjE)
      fix i assume i: "find_local name (cur ?s1) = Some i"
        and mv: "move_unless dest i (put_code (code_of ?s1 @ [ins_of opc i i ?t 0]) ?s1) = COk u s'"
      have var: "find_var name st = Some i" using i locals by simp
      note less = find_var_less [OF var]
      have s': "code_of s' = code_of ?s1 @ [ins_of opc i i ?t 0, ins_of Move dest i 0 0]"
        using move_unless_COk [OF mv] less d(2) by auto
      have at: "at_code ch (?p + 1) (ins_of opc i i ?t 0)" "at_code ch (?p + 1 + 1) (ins_of Move dest i 0 0)"
        using embeds_emitted [OF emb s', of 0] embeds_emitted [OF emb s', of 1] by simp_all
      have read: "read_var name st = R_Ok (snd (rs_locals st ! i)) st" using var by (simp add: read_var_def)
      show ?thesis
      proof (rule goes_update_local [OF m1(1) var bin at(1) _ t(1) m1(2) depth])
        show "settled (?op (snd (rs_locals st ! i)) ?one st)" using set r read settled_bind by simp
        show "?r = R_Err e" if "?op (snd (rs_locals st ! i)) ?one st = R_Err e" for e using r read that by simp
        fix new w h st' assume a: "?op (snd (rs_locals st ! i)) ?one st = R_Ok new st" "write_var name new st = R_Ok () st'"
          "stands_for h w new" "heap_le (vm_heap m1) h" "matches pf ch base st' (setr base i w (m1\<lparr>vm_heap := h\<rparr>))"
        let ?m = "setr base i w (m1\<lparr>vm_heap := h\<rparr>)"
        note run2 = matches_running [OF a(5)]
        have res: "?r = R_Ok new st'" using r read a(1,2) by simp
        have k2: "kept base ?nl dest m ?m"
          using kept_heap [OF k heap_le_text [OF a(4)]] run2 less d
          by (intro kept_setr [where ch = ch]) simp_all
        have i: "getr base i ?m = w" using run2 less d(2,3) by (simp add: getr_setr [of ch base])
        show "goes pf td ?Q ?E (?p + 1 + 1, ?m)"
        proof (rule goes_move [OF run2 at(2) d(3)])
          show "goes pf td ?Q ?E (?p + 1 + 1 + 1, setr base dest (getr base i ?m) ?m)"
            unfolding i using a(3) write_var_length [OF a(2)] d s' k2
            by (intro runs_result [OF res _ a(5)]) simp_all
        qed (use less d in simp)
      qed (use d in simp)
    next
      fix i s2 assume var: "find_local name (cur ?s1) = None" and s2: "string_const name ?s1 = COk i s2"
        and s': "s' = put_code (code_of s2 @ [ins_of GetGlobal dest 0 0 i, ins_of opc dest dest ?t 0,
          ins_of SetGlobal dest 0 0 i]) s2"
      have var: "find_var name st = None" using var locals by simp
      have c2: "code_of s2 = code_of ?s1" using string_const_COk [OF s2 r1] by blast
      have s'': "code_of s' = code_of ?s1 @ [ins_of GetGlobal dest 0 0 i, ins_of opc dest dest ?t 0,
          ins_of SetGlobal dest 0 0 i]" using s' c2 by simp
      have at: "at_code ch (?p + 1) (ins_of GetGlobal dest 0 0 i)" "at_code ch (?p + 1 + 1) (ins_of opc dest dest ?t 0)"
        "at_code ch (?p + 1 + 1 + 1) (ins_of SetGlobal dest 0 0 i)"
        using embeds_emitted [OF emb s'', of 0] embeds_emitted [OF emb s'', of 1] embeds_emitted [OF emb s'', of 2]
        by (simp_all add: eval_nat_numeral)
      have name: "const_text ch h i (utf8_of name)" if "embeds ch h s s'" for h
        by (rule embeds_named [OF that s2 r1]) (simp_all add: s')
      show ?thesis
      proof (rule goes_read_global [OF m1(1) var at(1) _ d(3,2)])
        show "const_text ch (vm_heap m1) i (utf8_of name)" using name emb m1(4) by simp
        show "?r = R_Err e" if "read_var name st = R_Err e" for e using r that by simp
        fix x w assume x: "read_var name st = R_Ok x st" "stands_for (vm_heap m1) w x"
          "matches pf ch base st (setr base dest w m1)"
        let ?m2 = "setr base dest w m1"
        show "goes pf td ?Q ?E (?p + 1 + 1, ?m2)"
        proof (rule goes_update [OF x(3) bin at(2) d(3,3) t(1) _ _ depth])
          have "getr base dest ?m2 = w" "getr base ?t ?m2 = getr base ?t m1"
            using run d(3) t by (simp_all add: getr_setr [of ch base])
          then show "stands_for (vm_heap ?m2) (getr base dest ?m2) x" "stands_for (vm_heap ?m2) (getr base ?t ?m2) ?one"
            using x(2) m1(2) by (simp_all only: setr_frame)
          show "settled (?op x ?one st)" using set r x(1) settled_bind by simp
          show "?r = R_Err e" if "?op x ?one st = R_Err e" for e using r x(1) that by simp
          fix new y h assume a: "?op x ?one st = R_Ok new st" "stands_for h y new" "heap_le (vm_heap ?m2) h"
            "matches pf ch base st (?m2\<lparr>vm_heap := h\<rparr>)"
          let ?m3 = "setr base dest y (?m2\<lparr>vm_heap := h\<rparr>)"
          have m3: "matches pf ch base st ?m3" by (rule matches_temp [OF a(4) d(2,3)])
          have le: "text_le (vm_heap m) h" using a(3) m1(4) by (simp add: heap_le_text)
          have k3: "kept base ?nl dest m ?m3"
            using run d m1(3) k le by (auto simp: kept_def getr_setr [of ch base] setr_def getr_def)
          have y: "stands_for (vm_heap ?m3) (getr base dest ?m3) new"
            using a(2) matches_running [OF m3] d(3) by (simp add: getr_setr [of ch base])
          show "goes pf td ?Q ?E (?p + 1 + 1 + 1, ?m3)"
          proof (rule goes_write_global [OF m3 var at(3) _ d(3) y])
            show "const_text ch (vm_heap ?m3) i (utf8_of name)" by (rule name [OF embeds_heap [OF emb]]) (simp add: le)
            show "?r = R_Err (Ve_Undeclared (utf8_of name))"
              if "write_var name new st = R_Err (Ve_Undeclared (utf8_of name))" using r x(1) a(1) that by simp
            fix st' m' assume w: "write_var name new st = R_Ok () st'" "matches pf ch base st' m'" "vm_heap m' = vm_heap ?m3"
              "\<And>j. getr base j m' = getr base j ?m3"
            show "goes pf td ?Q ?E (?p + 1 + 1 + 1 + 1, m')"
            proof (rule runs_done)
              show "?r = R_Ok new st'" using r x(1) a(1) w(1) by simp
              show "length (rs_locals st') = ?nl" by (rule write_var_length [OF w(1)])
              show "stands_for (vm_heap m') (getr base dest m') new" using y w(3,4) by simp
              show "kept base ?nl dest m m'" using k3 w(3,4) by (simp add: kept_def)
            qed (use w(2) s'' in simp_all)
          qed
        qed
      qed
    qed
  qed simp
qed

lemma postfix_runs:
  assumes depth: "0 < pf_depth pf"
  shows "expr_ok pf td ch base (E_Postfix opr (E_Variable name l))"
proof (rule expr_okI)
  fix n dest s s' u m and st :: ref_state
  let ?e = "E_Postfix opr (E_Variable name l)" and ?nl = "length (rs_locals st)" and ?one = "I_Num (f64_of_nat 1)"
  let ?r = "ref_eval (pf_nan pf) ?e st"
  assume c: "sub_expr (compilers n) ?e dest s = COk u s'" and env: "env_ok s st dest"
    and emb: "embeds ch (vm_heap m) s s'" and regs: "expr_regs (c_next_reg (cur s)) ?e dest < 256"
    and mat: "matches pf ch base st m" and set: "settled ?r"
    and d: "comp_ready s" "?nl \<le> dest" "dest < 256"
  let ?t = "one_reg s dest" and ?p = "length (code_of s)" and ?s1 = "with_one s dest"
  let ?op = "ref_binary (pf_nan pf) (update_op opr)"
  obtain opc where opc: "update_code opr = Some opc" and v: "postfix_variable name l opc ?t dest ?s1 = COk u s'"
    using update_inv' [OF c] by blast
  note bin = update_op_code [OF opc]
  have r: "?r = rbind (read_var name st) (\<lambda>old st. rbind (?op old ?one st) (\<lambda>new st.
       rbind (write_var name new st) (\<lambda>_ st. R_Ok old st)))"
    using update_var_eq [OF opc] by simp
  have g1: "advances ?p s ?s1" by (rule with_one_advances [OF d(1) order_refl])
  note r1 = advances_ready(1) [OF g1]
  have g': "advances (?p + 1) ?s1 s'" by (rule postfix_advances [OF v advances_refl [OF r1]]) simp
  have t: "?t < 256" "dest < ?t" "?t + 1 < 256" using regs by (simp_all add: one_reg_def)
  have locals: "find_local name (cur ?s1) = find_var name st" by (rule env_ok_var [OF env_ok_advances [OF env g1]])
  let ?Q = "expr_post pf ch base ?nl dest (length (code_of s')) m ?r" and ?E = "\<lambda>e. ?r = R_Err e"
  show "goes pf td ?Q ?E (?p, m)"
  proof (rule goes_one [OF mat emb text_le_refl g' _ t(1) d(2)])
    fix m1 assume m1: "matches pf ch base st m1" "stands_for (vm_heap m1) (getr base ?t m1) ?one"
      "kept base ?nl (dest + 1) m m1" "vm_heap m1 = vm_heap m"
    have k: "kept base ?nl dest m m1" by (rule kept_less [OF m1(3)]) simp
    note run = matches_running [OF m1(1)]
    from postfix_cases [OF v r1] show "goes pf td ?Q ?E (?p + 1, m1)"
    proof (elim disjE exE conjE)
      fix i s2 assume i: "find_local name (cur ?s1) = Some i" and mv: "move_unless dest i ?s1 = COk () s2"
        and s2: "s' = put_code (code_of s2 @ [ins_of opc i i ?t 0]) s2"
      have var: "find_var name st = Some i" using i locals by simp
      note less = find_var_less [OF var]
      have s': "code_of s' = code_of ?s1 @ [ins_of Move dest i 0 0, ins_of opc i i ?t 0]"
        using move_unless_COk [OF mv] less d(2) s2 by auto
      have at: "at_code ch (?p + 1) (ins_of Move dest i 0 0)" "at_code ch (?p + 1 + 1) (ins_of opc i i ?t 0)"
        using embeds_emitted [OF emb s', of 0] embeds_emitted [OF emb s', of 1] by simp_all
      let ?old = "snd (rs_locals st ! i)" and ?m2 = "setr base dest (getr base i m1) m1"
      have read: "read_var name st = R_Ok ?old st" using var by (simp add: read_var_def)
      have m2: "matches pf ch base st ?m2" by (rule matches_temp [OF m1(1) d(2,3)])
      have old: "getr base dest ?m2 = getr base i m1" "getr base ?t ?m2 = getr base ?t m1"
        using run d(3) t by (simp_all add: getr_setr [of ch base])
      have go: "goes pf td ?Q ?E (?p + 1 + 1, ?m2)"
      proof (rule goes_update_local [OF m2 var bin at(2) _ t(1) _ depth])
        show "stands_for (vm_heap ?m2) (getr base ?t ?m2) ?one" using m1(2) old(2) by (simp only: setr_frame)
        show "settled (?op ?old ?one st)" using set r read settled_bind by simp
        show "?r = R_Err e" if "?op ?old ?one st = R_Err e" for e using r read that by simp
        fix new w h st' assume a: "?op ?old ?one st = R_Ok new st" "write_var name new st = R_Ok () st'"
          "stands_for h w new" "heap_le (vm_heap ?m2) h" "matches pf ch base st' (setr base i w (?m2\<lparr>vm_heap := h\<rparr>))"
        let ?m = "setr base i w (?m2\<lparr>vm_heap := h\<rparr>)"
        note run2 = matches_running [OF a(5)]
        have le: "text_le (vm_heap m1) h" using heap_le_text [OF a(4)] by simp
        have "kept base ?nl dest m ?m2" using run d by (intro kept_setr [OF k run]) simp_all
        then have k2: "kept base ?nl dest m ?m"
          using kept_heap [OF _ heap_le_text [OF a(4)]] run2 less d by (intro kept_setr [where ch = ch]) simp_all
        have "getr base dest ?m = getr base i m1" using run2 run less d by (simp add: getr_setr [of ch base])
        then have x: "stands_for (vm_heap ?m) (getr base dest ?m) ?old"
          using stands_for_mono [OF le matches_localD [OF m1(1) less]] by (simp only: setr_frame) simp
        show "goes pf td ?Q ?E (?p + 1 + 1 + 1, ?m)"
        proof (rule runs_done [OF _ _ a(5) _ x k2])
          show "?r = R_Ok ?old st'" using r read a(1,2) by simp
          show "length (rs_locals st') = ?nl" by (rule write_var_length [OF a(2)])
        qed (simp add: s')
      qed (use d in simp)
      show ?thesis by (rule goes_move [OF run at(1) d(3) _ go]) (use less d in simp)
    next
      fix i s2 assume var: "find_local name (cur ?s1) = None" and s2: "string_const name ?s1 = COk i s2"
        and s': "s' = put_code (code_of s2 @ [ins_of GetGlobal dest 0 0 i, ins_of opc (?t + 1) dest ?t 0,
          ins_of SetGlobal (?t + 1) 0 0 i]) s2"
      have var: "find_var name st = None" using var locals by simp
      have c2: "code_of s2 = code_of ?s1" using string_const_COk [OF s2 r1] by blast
      have s'': "code_of s' = code_of ?s1 @ [ins_of GetGlobal dest 0 0 i, ins_of opc (?t + 1) dest ?t 0,
          ins_of SetGlobal (?t + 1) 0 0 i]" using s' c2 by simp
      have at: "at_code ch (?p + 1) (ins_of GetGlobal dest 0 0 i)"
        "at_code ch (?p + 1 + 1) (ins_of opc (?t + 1) dest ?t 0)"
        "at_code ch (?p + 1 + 1 + 1) (ins_of SetGlobal (?t + 1) 0 0 i)"
        using embeds_emitted [OF emb s'', of 0] embeds_emitted [OF emb s'', of 1] embeds_emitted [OF emb s'', of 2]
        by (simp_all add: eval_nat_numeral)
      have name: "const_text ch h i (utf8_of name)" if "embeds ch h s s'" for h
        by (rule embeds_named [OF that s2 r1]) (simp_all add: s')
      show ?thesis
      proof (rule goes_read_global [OF m1(1) var at(1) _ d(3,2)])
        show "const_text ch (vm_heap m1) i (utf8_of name)" using name emb m1(4) by simp
        show "?r = R_Err e" if "read_var name st = R_Err e" for e using r that by simp
        fix x w assume x: "read_var name st = R_Ok x st" "stands_for (vm_heap m1) w x"
          "matches pf ch base st (setr base dest w m1)"
        let ?m2 = "setr base dest w m1"
        have w: "getr base dest ?m2 = w" "getr base ?t ?m2 = getr base ?t m1"
          using run d(3) t by (simp_all add: getr_setr [of ch base])
        show "goes pf td ?Q ?E (?p + 1 + 1, ?m2)"
        proof (rule goes_update [OF x(3) bin at(2) t(3) d(3) t(1) _ _ depth])
          show "stands_for (vm_heap ?m2) (getr base dest ?m2) x" "stands_for (vm_heap ?m2) (getr base ?t ?m2) ?one"
            using x(2) m1(2) w by (simp_all only: setr_frame)
          show "settled (?op x ?one st)" using set r x(1) settled_bind by simp
          show "?r = R_Err e" if "?op x ?one st = R_Err e" for e using r x(1) that by simp
          fix new y h assume a: "?op x ?one st = R_Ok new st" "stands_for h y new" "heap_le (vm_heap ?m2) h"
            "matches pf ch base st (?m2\<lparr>vm_heap := h\<rparr>)"
          let ?m3 = "setr base (?t + 1) y (?m2\<lparr>vm_heap := h\<rparr>)"
          have m3: "matches pf ch base st ?m3" by (rule matches_temp [OF a(4) _ t(3)]) (use d t in simp)
          note run3 = matches_running [OF m3] matches_running [OF a(4)]
          have le: "text_le (vm_heap m1) h" using heap_le_text [OF a(3)] by simp
          have "kept base ?nl dest m ?m2" using run d by (intro kept_setr [OF k run]) simp_all
          then have k3: "kept base ?nl dest m ?m3"
            using kept_heap [OF _ heap_le_text [OF a(3)]] run3(2) d t by (intro kept_setr [where ch = ch]) simp_all
          have "getr base dest ?m3 = w" using run3 run d(3) t by (simp add: getr_setr [of ch base])
          then have x3: "stands_for (vm_heap ?m3) (getr base dest ?m3) x"
            using stands_for_mono [OF le x(2)] by (simp only: setr_frame) simp
          have "getr base (?t + 1) ?m3 = y" using run3 t by (simp add: getr_setr [of ch base])
          then have y: "stands_for (vm_heap ?m3) (getr base (?t + 1) ?m3) new"
            using a(2) by (simp only: setr_frame) simp
          show "goes pf td ?Q ?E (?p + 1 + 1 + 1, ?m3)"
          proof (rule goes_write_global [OF m3 var at(3) _ t(3) y])
            show "const_text ch (vm_heap ?m3) i (utf8_of name)"
              by (rule name [OF embeds_heap [OF emb]]) (use le m1(4) in simp)
            show "?r = R_Err (Ve_Undeclared (utf8_of name))"
              if "write_var name new st = R_Err (Ve_Undeclared (utf8_of name))" using r x(1) a(1) that by simp
            fix st' m' assume w: "write_var name new st = R_Ok () st'" "matches pf ch base st' m'" "vm_heap m' = vm_heap ?m3"
              "\<And>j. getr base j m' = getr base j ?m3"
            show "goes pf td ?Q ?E (?p + 1 + 1 + 1 + 1, m')"
            proof (rule runs_done)
              show "?r = R_Ok x st'" using r x(1) a(1) w(1) by simp
              show "length (rs_locals st') = ?nl" by (rule write_var_length [OF w(1)])
              show "stands_for (vm_heap m') (getr base dest m') x" using x3 w(3,4) by simp
              show "kept base ?nl dest m m'" using k3 w(3,4) by (simp add: kept_def)
            qed (use w(2) s'' in simp_all)
          qed
        qed
      qed
    qed
  qed simp
qed

section \<open>All expressions\<close>

theorem expr_correct:
  assumes "0 < pf_depth pf"
  shows "core_expr e \<Longrightarrow> expr_ok pf td ch base e"
proof (induction e rule: core_expr.induct)
  case (1 l)
  then show ?case by (intro expr_okI) (auto dest!: same_inv(1) intro: literal_runs)
next
  case (2 name l)
  then show ?case by (intro expr_okI) (auto dest!: same_inv(2) intro: variable_runs)
next
  case (6 a opr b)
  consider "opr = T_And" | "opr = T_Or" | "opr \<noteq> T_And" "opr \<noteq> T_Or" by blast
  then show ?case
  proof cases
    case 3
    then show ?thesis by (intro expr_okI) simp
  qed (use 6 and_runs or_runs in simp_all)
next
  case (8 opr e)
  then show ?case using prefix_runs [OF assms] by (auto split: expr.splits)
next
  case (9 opr e)
  then show ?case using postfix_runs [OF assms] by (auto split: expr.splits)
next
  case (10 e t l)
  then show ?case by (intro expr_okI) (auto dest!: same_inv(3) intro: expr_okD)
next
  case (11 e)
  then show ?case by (intro expr_okI) (auto dest!: same_inv(4) intro: expr_okD)
qed (auto intro: assign_runs unary_op_runs binary_runs conditional_runs assms)

end
