(* ===== verification/Sem_Stmt.thy ===== *)
theory Sem_Stmt
  imports Sem_Correct
begin

text \<open>
  The code of core statements: it is appended, between two states of the compiler, to what is there, up to
  the jumps of \<^verbatim>\<open>break\<close> and \<^verbatim>\<open>continue\<close> that the enclosing loop patches when it ends. \<open>segment s s' bs cs\<close>
  says that the code of \<open>s'\<close> behind that of \<open>s\<close> is complete but for the jumps at \<open>bs\<close> and \<open>cs\<close>, which
  the innermost loop has on its lists.
\<close>

section \<open>States of the compiler\<close>

lemma set_cur_simps [simp]:
  "code_of (set_cur c s) = code (the_chunk c)" "consts_of (set_cur c s) = constants (the_chunk c)"
  "cs_heap (set_cur c s) = cs_heap s" "cs_cell (set_cur c s) = cs_cell s" "cs_chunk_at (set_cur c s) = cs_chunk_at s"
  "comp_ready s \<Longrightarrow> comp_ready (set_cur c s)"
  by (simp_all add: code_of_def consts_of_def) (simp_all add: set_cur_def comp_ready_def lone_def, auto)

lemma the_chunk_simps [simp]:
  "the_chunk (c\<lparr>c_locals := a\<rparr>) = the_chunk c" "the_chunk (c\<lparr>c_loop_stack := b\<rparr>) = the_chunk c"
  "the_chunk (c\<lparr>c_scope_depth := d\<rparr>) = the_chunk c" "the_chunk (c\<lparr>c_next_reg := n\<rparr>) = the_chunk c"
  "the_chunk (c\<lparr>c_global_types := g\<rparr>) = the_chunk c" "the_chunk (c\<lparr>c_type_aliases := t\<rparr>) = the_chunk c"
  "the_chunk (c\<lparr>c_function := (c_function c)\<lparr>has_loop := h\<rparr>\<rparr>) = the_chunk c"
  by (simp_all add: the_chunk_def)

lemma cur_chunk [simp]: "code (the_chunk (cur s)) = code_of s" "constants (the_chunk (cur s)) = consts_of s"
  by (simp_all add: code_of_def consts_of_def)

lemma upd_chunk_simps [simp]:
  "c_locals (upd_chunk f c) = c_locals c" "c_loop_stack (upd_chunk f c) = c_loop_stack c"
  "c_scope_depth (upd_chunk f c) = c_scope_depth c" "c_concurrent_scopes (upd_chunk f c) = c_concurrent_scopes c"
  "c_next_reg (upd_chunk f c) = c_next_reg c"
  by (simp_all add: upd_chunk_def)

lemma cupdate_COk [simp]: "cupdate f s = COk u s' \<longleftrightarrow> s' = set_cur (f (cur s)) s"
  by (auto simp: cupdate_def cmodify_def)

lemma set_cur_set_cur [simp]: "set_cur c (set_cur d s) = set_cur c s"
  by (simp add: set_cur_def)

definition prep :: "comp_state \<Rightarrow> comp_state" where
  "prep s = set_cur ((cur s)\<lparr>c_next_reg := length (c_locals (cur s))\<rparr>) s"

lemma prep_simps [simp]:
  "code_of (prep s) = code_of s" "consts_of (prep s) = consts_of s" "cs_heap (prep s) = cs_heap s"
  "cs_cell (prep s) = cs_cell s" "cs_chunk_at (prep s) = cs_chunk_at s" "comp_ready s \<Longrightarrow> comp_ready (prep s)"
  "c_locals (cur (prep s)) = c_locals (cur s)" "c_loop_stack (cur (prep s)) = c_loop_stack (cur s)"
  "c_scope_depth (cur (prep s)) = c_scope_depth (cur s)"
  "c_concurrent_scopes (cur (prep s)) = c_concurrent_scopes (cur s)"
  "c_next_reg (cur (prep s)) = length (c_locals (cur s))"
  by (simp_all add: prep_def)

section \<open>Segments\<close>

definition extends :: "nat \<Rightarrow> comp_state \<Rightarrow> comp_state \<Rightarrow> bool" where
  "extends k s s' \<longleftrightarrow>
     comp_ready s' \<and> take k (code_of s') = take k (code_of s) \<and> length (code_of s) \<le> length (code_of s') \<and>
     (\<exists>vs. consts_of s' = consts_of s @ vs) \<and> text_le (cs_heap s) (cs_heap s') \<and>
     cs_cell s' = cs_cell s \<and> cs_chunk_at s' = cs_chunk_at s \<and>
     c_concurrent_scopes (cur s') = c_concurrent_scopes (cur s)"

lemma extends_refl: "comp_ready s \<Longrightarrow> extends k s s"
  by (simp add: extends_def)

lemma extends_trans: "extends k s1 s2 \<Longrightarrow> extends k s2 s3 \<Longrightarrow> extends k s1 s3"
  unfolding extends_def by (auto intro: text_le_trans)

lemma extends_less: "extends k s s' \<Longrightarrow> j \<le> k \<Longrightarrow> extends j s s'"
proof -
  assume g: "extends k s s'" "j \<le> k"
  then have "take j (take k (code_of s')) = take j (take k (code_of s))" by (simp add: extends_def)
  then show ?thesis using g by (simp add: extends_def min_def)
qed

lemma advances_extends: "advances k s s' \<Longrightarrow> extends k s s'"
  using advances_env(5) by (simp add: advances_def extends_def)

lemma extends_nth: "extends k s s' \<Longrightarrow> i < k \<Longrightarrow> code_of s' ! i = code_of s ! i"
  unfolding extends_def by (metis nth_take)

lemma extends_length: "extends k s s' \<Longrightarrow> length (code_of s) \<le> length (code_of s')"
  by (simp add: extends_def)

lemma extends_ready: "extends k s s' \<Longrightarrow> comp_ready s'"
  by (simp add: extends_def)

definition add_jumps :: "nat list \<Rightarrow> nat list \<Rightarrow> loop_context list \<Rightarrow> loop_context list" where
  "add_jumps bs cs ls =
     (case ls of
        [] \<Rightarrow> []
      | l # ls' \<Rightarrow> l\<lparr>break_jumps := break_jumps l @ bs, continue_jumps := continue_jumps l @ cs\<rparr> # ls')"

lemma add_jumps_simps [simp]:
  "add_jumps [] [] ls = ls" "add_jumps bs' cs' (add_jumps bs cs ls) = add_jumps (bs @ bs') (cs @ cs') ls"
  "add_jumps bs cs ls = [] \<longleftrightarrow> ls = []"
  "list_all (\<lambda>l. \<not> is_switch l) (add_jumps bs cs ls) = list_all (\<lambda>l. \<not> is_switch l) ls"
  by (auto simp: add_jumps_def split: list.splits)

definition pending :: "comp_state \<Rightarrow> comp_state \<Rightarrow> nat \<Rightarrow> bool" where
  "pending s s' j \<longleftrightarrow> length (code_of s) \<le> j \<and> j < length (code_of s') \<and> code_of s' ! j = ins_of Jump 0 0 0 0"

definition segment :: "comp_state \<Rightarrow> comp_state \<Rightarrow> nat list \<Rightarrow> nat list \<Rightarrow> bool" where
  "segment s s' bs cs \<longleftrightarrow>
     extends (length (code_of s)) s s' \<and> c_loop_stack (cur s') = add_jumps bs cs (c_loop_stack (cur s)) \<and>
     (c_loop_stack (cur s) = [] \<longrightarrow> bs = [] \<and> cs = []) \<and> list_all (pending s s') (bs @ cs) \<and>
     set bs \<inter> set cs = {}"

lemma segment_extends: "segment s s' bs cs \<Longrightarrow> extends (length (code_of s)) s s'"
  by (simp add: segment_def)

lemma segment_refl: "comp_ready s \<Longrightarrow> segment s s [] []"
  by (simp add: segment_def extends_refl)

lemma advances_segment: "advances (length (code_of s)) s s' \<Longrightarrow> segment s s' [] []"
  using advances_env(4) by (simp add: segment_def advances_extends)

lemma segment_trans:
  assumes "segment s1 s2 bs cs" "segment s2 s3 bs' cs'"
  shows "segment s1 s3 (bs @ bs') (cs @ cs')"
proof -
  have e: "extends (length (code_of s1)) s1 s2" "extends (length (code_of s2)) s2 s3"
    using assms by (auto simp: segment_def)
  note len = extends_length [OF e(1)] extends_length [OF e(2)]
  have "extends (length (code_of s1)) s1 s3"
    by (rule extends_trans [OF e(1) extends_less [OF e(2) len(1)]])
  moreover have "pending s1 s3 j" if "pending s1 s2 j" for j
    using that len extends_nth [OF e(2)] by (auto simp: pending_def)
  moreover have "pending s1 s3 j" if "pending s2 s3 j" for j
    using that len by (auto simp: pending_def)
  moreover have "j \<noteq> i" if "pending s1 s2 j" "pending s2 s3 i" for i j
    using that by (auto simp: pending_def)
  then have "set bs \<inter> set cs' = {}" "set bs' \<inter> set cs = {}"
    using assms unfolding segment_def list_all_iff set_append by blast+
  ultimately show ?thesis
    using assms by (auto simp: segment_def list_all_iff)
qed

lemma segment_advances: "segment s s1 bs cs \<Longrightarrow> advances (length (code_of s1)) s1 s2 \<Longrightarrow> segment s s2 bs cs"
  using segment_trans [OF _ advances_segment] by fastforce

lemma segment_emit: "segment s s1 bs cs \<Longrightarrow> segment s (put_code (code_of s1 @ is) s1) bs cs"
  by (rule segment_advances [OF _ advances_emit]) (auto simp: segment_def extends_def)

text \<open>A change of the compiler outside the code, the loops and the constants.\<close>

lemma segment_set_cur:
  assumes "segment s s1 bs cs" "the_chunk c = the_chunk (cur s1)" "c_loop_stack c = c_loop_stack (cur s1)"
    "c_concurrent_scopes c = c_concurrent_scopes (cur s1)"
  shows "segment s (set_cur c s1) bs cs"
  using assms unfolding segment_def extends_def pending_def by simp

lemma segment_prep: "segment (prep s) s' bs cs = segment s s' bs cs"
proof -
  have "pending (prep s) s' = pending s s'" by (simp add: pending_def fun_eq_iff)
  then show ?thesis by (simp add: segment_def extends_def)
qed

text \<open>Writing at a position that is not pending.\<close>

lemma segment_put:
  assumes "segment s s1 bs cs" "length is = length (code_of s1)"
    and "\<And>i. i < length (code_of s) \<or> i \<in> set bs \<or> i \<in> set cs \<Longrightarrow> is ! i = code_of s1 ! i"
  shows "segment s (put_code is s1) bs cs"
proof -
  have "length (code_of s) \<le> length (code_of s1)" using assms(1) by (simp add: segment_def extends_def)
  then have "take (length (code_of s)) is = take (length (code_of s)) (code_of s1)"
    using assms(2,3) by (intro nth_equalityI) simp_all
  then show ?thesis
    using assms unfolding segment_def extends_def list_all_iff pending_def by (auto simp: comp_ready_def)
qed

lemma segment_patched:
  assumes "segment s s1 bs cs" "length (code_of s) \<le> j" "j \<notin> set bs" "j \<notin> set cs"
  shows "segment s (patched j s1) bs cs"
  unfolding patched_def
  by (rule segment_put [OF assms(1)]) (simp, rule nth_list_update_neq, use assms(2-4) in auto)

section \<open>Lists of jumps\<close>

lemma cfor_COk: "cfor [] f s = COk u s' \<longleftrightarrow> s' = s"
  "cfor (x # xs) f s = COk u s' \<longleftrightarrow> (\<exists>v s1. f x s = COk v s1 \<and> cfor xs f s1 = COk u s')"
  by (auto simp: cfor_def compile_inv)

lemma patch_all_COk:
  "patch_all js target s = COk u s' \<Longrightarrow> lone s \<Longrightarrow>
     \<exists>is. s' = put_code is s \<and> length is = length (code_of s) \<and> (\<forall>i. i \<notin> set js \<longrightarrow> is ! i = code_of s ! i) \<and>
       (\<forall>j \<in> set js. j < target \<and> j < length (code_of s) \<and> is ! j = (code_of s ! j)\<lparr>operand := of_nat (target - 1 - j)\<rparr>)"
proof (induction js arbitrary: s)
  case Nil
  have "put_code (code_of s) s = s"
    using Nil.prems(2) by (auto simp: put_code_def set_cur_def upd_chunk_def the_chunk_def code_of_def cur_def lone_def)
  then show ?case using Nil by (intro exI [of _ "code_of s"]) (simp add: patch_all_def cfor_COk)
next
  case (Cons j js)
  let ?is = "(code_of s)[j := (code_of s ! j)\<lparr>operand := of_nat (target - 1 - j)\<rparr>]"
  have a: "1 + j \<le> target" "j < length (code_of s)" "patch_all js target (put_code ?is s) = COk u s'"
    using Cons.prems by (auto simp: patch_all_def cfor_COk patch_jump_to_COk)
  from Cons.IH [OF a(3)] Cons.prems(2) obtain is' where is': "s' = put_code is' s" "length is' = length (code_of s)"
    "\<forall>i. i \<notin> set js \<longrightarrow> is' ! i = ?is ! i"
    "\<forall>k \<in> set js. k < target \<and> k < length (code_of s) \<and> is' ! k = (?is ! k)\<lparr>operand := of_nat (target - 1 - k)\<rparr>"
    by auto
  have "is' ! k = (code_of s ! k)\<lparr>operand := of_nat (target - 1 - k)\<rparr>" if "k \<in> set (j # js)" for k
    using that is'(3,4) a(2) by (cases "k \<in> set js"; cases "k = j") auto
  then show ?case using is' a(1,2) by (intro exI [of _ is']) auto
qed

section \<open>Inversion of the statement compiler\<close>

text \<open>States that differ only in tables the generated code does not depend on.\<close>

definition alike :: "comp_state \<Rightarrow> comp_state \<Rightarrow> bool" where
  "alike a b \<longleftrightarrow>
     (comp_ready a \<longrightarrow> comp_ready b) \<and> code_of b = code_of a \<and> consts_of b = consts_of a \<and> cs_heap b = cs_heap a \<and>
     cs_cell b = cs_cell a \<and> cs_chunk_at b = cs_chunk_at a \<and> c_locals (cur b) = c_locals (cur a) \<and>
     c_loop_stack (cur b) = c_loop_stack (cur a) \<and> c_scope_depth (cur b) = c_scope_depth (cur a) \<and>
     c_concurrent_scopes (cur b) = c_concurrent_scopes (cur a)"

lemma segment_alike: "segment s a bs cs \<Longrightarrow> alike a b \<Longrightarrow> segment s b bs cs"
  by (auto simp: segment_def alike_def extends_def list_all_iff pending_def)

lemma alike_refl [simp]: "alike s s"
  by (simp add: alike_def)

lemma alike_prep: "alike s (prep s)"
  by (simp add: alike_def)

lemma alike_trans: "alike a b \<Longrightarrow> alike b c \<Longrightarrow> alike a c"
  by (auto simp: alike_def)

lemma alike_consts: "alike a b \<Longrightarrow> alike a (b\<lparr>cs_const_globals := g\<rparr>)"
  by (auto simp: alike_def comp_ready_def lone_def code_of_def consts_of_def cur_def)

lemma alike_set_cur:
  "alike a b \<Longrightarrow> the_chunk c = the_chunk (cur b) \<Longrightarrow> c_locals c = c_locals (cur b) \<Longrightarrow>
    c_loop_stack c = c_loop_stack (cur b) \<Longrightarrow> c_scope_depth c = c_scope_depth (cur b) \<Longrightarrow>
    c_concurrent_scopes c = c_concurrent_scopes (cur b) \<Longrightarrow> alike a (set_cur c b)"
  by (auto simp: alike_def)

lemma sub_stmt_COk:
  "sub_stmt (compilers n) t s = COk u s' \<Longrightarrow> \<exists>m. n = Suc m \<and> compile_stmt (compilers m) t s = COk u s'"
  by (cases n) (auto simp: Let_def)

lemma prep_COk: "cthen (cupdate (\<lambda>c. c\<lparr>c_next_reg := length (c_locals c)\<rparr>)) f s = f (prep s)"
  by (simp add: cthen_def cbind_def cupdate_def cmodify_def prep_def)

lemmas stmt_inv = compile_stmt_def prep_COk compile_inv

lemma expr_stmt_inv:
  assumes "sub_stmt (compilers n) (S_Expr e) s = COk u s'" "core_expr e"
  shows "\<exists>m. sub_expr (compilers m) e (length (c_locals (cur s))) (prep s) = COk () s'"
proof -
  obtain m where m: "compile_stmt (compilers m) (S_Expr e) s = COk u s'" using sub_stmt_COk [OF assms(1)] by blast
  have "(case e of E_Call x y \<Rightarrow> z | _ \<Rightarrow> e) = e" for z using assms(2) by (cases e) simp_all
  with m show ?thesis by (auto simp: stmt_inv compile_expr_stmt_def next_reg_def)
qed

lemma construct_core: "core_expr e \<Longrightarrow> construct_elements c ty e loc = e"
  by (cases e; cases ty) (simp_all add: construct_elements_def)

lemma local_decl_inv:
  assumes "sub_stmt (compilers n) (S_VarDecl name ty is_const e l) s = COk u s'" "core_expr e"
    "0 < c_scope_depth (cur s)" "comp_ready s"
  shows "\<exists>m s1 v. sub_expr (compilers m) e (length (c_locals (cur s))) (prep s) = COk () s1 \<and>
    s' = set_cur ((cur s1)\<lparr>c_locals := c_locals (cur s) @ [v]\<rparr>) s1 \<and> l_name v = name \<and> l_depth v = c_scope_depth (cur s)"
proof -
  obtain m where m: "compile_stmt (compilers m) (S_VarDecl name ty is_const e l) s = COk u s'"
    using sub_stmt_COk [OF assms(1)] by blast
  then obtain s1 where s1: "sub_expr (compilers m) e (length (c_locals (cur s))) (prep s) = COk () s1"
    "push_local name is_const l (map_option type_display ty) s1 = COk u s'"
    using assms(3)
    by (auto simp: stmt_inv compile_var_decl_def Let_def construct_core [OF assms(2)] local_count_def
        dest!: require_type_opt_COk)
  have "advances (length (code_of s)) (prep s) s1" using expr_advances [OF assms(2) s1(1)] assms(4) by simp
  note e = advances_env [OF this]
  let ?v = "\<lparr>l_name = name, l_depth = c_scope_depth (cur s), l_is_const = is_const, l_loc = l,
    l_ty = map_option type_display ty\<rparr>"
  have "s' = set_cur ((cur s1)\<lparr>c_locals := c_locals (cur s) @ [?v]\<rparr>) s1"
    using s1(2) e by (simp add: push_local_def)
  moreover have "l_name ?v = name \<and> l_depth ?v = c_scope_depth (cur s)" by simp
  ultimately show ?thesis using s1(1) by blast
qed

lemma global_decl_inv:
  assumes "sub_stmt (compilers n) (S_VarDecl name ty is_const e l) s = COk u s'" "core_expr e"
    "c_scope_depth (cur s) = 0"
  shows "\<exists>m s1 i s2. sub_expr (compilers m) e (length (c_locals (cur s))) (prep s) = COk () s1 \<and>
    string_const name s1 = COk i s2 \<and>
    alike (put_code (code_of s2 @ [ins_of DefineGlobal (length (c_locals (cur s))) 0 0 i]) s2) s'"
proof -
  obtain m where m: "compile_stmt (compilers m) (S_VarDecl name ty is_const e l) s = COk u s'"
    using sub_stmt_COk [OF assms(1)] by blast
  then obtain s1 where s1: "sub_expr (compilers m) e (length (c_locals (cur s))) (prep s) = COk () s1"
    "define_global name (map_option type_display ty) is_const l (length (c_locals (cur s))) s1 = COk u s'"
    using assms(3)
    by (auto simp: stmt_inv compile_var_decl_def Let_def construct_core [OF assms(2)] next_reg_def
        dest!: require_type_opt_COk)
  let ?nl = "length (c_locals (cur s))"
  from s1(2) obtain i s2 s4 where s2: "string_const name s1 = COk i s2"
    and s4: "(case map_option type_display ty of
          Some t \<Rightarrow> cupdate (\<lambda>c. c\<lparr>c_global_types := tab_insert name t (c_global_types c)\<rparr>)
        | None \<Rightarrow> creturn ()) (put_code (code_of s2 @ [ins_of DefineGlobal ?nl 0 0 i]) s2) = COk () s4"
    and s': "(if is_const then cmodify (\<lambda>s. s\<lparr>cs_const_globals := tab_insert name l (cs_const_globals s)\<rparr>)
       else creturn ()) s4 = COk () s'"
    by (auto simp: define_global_def compile_inv emit_eq)
  have "alike (put_code (code_of s2 @ [ins_of DefineGlobal ?nl 0 0 i]) s2) s4"
    using s4 by (cases ty) (auto intro!: alike_set_cur)
  then have "alike (put_code (code_of s2 @ [ins_of DefineGlobal ?nl 0 0 i]) s2) s'"
    using s' by (auto simp: cmodify_def alike_consts split: if_splits)
  with s2 have s2: "string_const name s1 = COk i s2 \<and>
    alike (put_code (code_of s2 @ [ins_of DefineGlobal ?nl 0 0 i]) s2) s'" by blast
  with s1(1) show ?thesis by blast
qed

definition opened :: "comp_state \<Rightarrow> comp_state" where
  "opened s = set_cur ((cur (prep s))\<lparr>c_scope_depth := c_scope_depth (cur s) + 1\<rparr>) (prep s)"

definition closed :: "comp_state \<Rightarrow> comp_state" where
  "closed s = set_cur ((cur s)\<lparr>c_scope_depth := c_scope_depth (cur s) - 1,
     c_locals := rev (dropWhile (\<lambda>l. c_scope_depth (cur s) - 1 < l_depth l) (rev (c_locals (cur s))))\<rparr>) s"

lemma block_inv:
  assumes "sub_stmt (compilers n) (S_Block ss) s = COk u s'"
  shows "\<exists>m s1. cfor ss (sub_stmt (compilers m)) (opened s) = COk () s1 \<and> s' = closed s1 \<and> 0 < c_scope_depth (cur s1)"
  using sub_stmt_COk [OF assms]
  by (fastforce simp: stmt_inv begin_scope_def end_scope_def opened_def closed_def split: if_splits)

lemma if_inv:
  assumes "sub_stmt (compilers n) (S_If c a b) s = COk u s'"
  shows "\<exists>m s1 s2. sub_expr (compilers m) c (length (c_locals (cur s))) (prep s) = COk () s1 \<and>
    sub_stmt (compilers m) a (put_code (code_of s1 @ [ins_of JumpIfFalse (length (c_locals (cur s))) 0 0 0]) s1) = COk () s2 \<and>
    (case b of
       None \<Rightarrow> s' = patched (length (code_of s1)) s2
     | Some e \<Rightarrow> \<exists>s3. sub_stmt (compilers m) e
           (patched (length (code_of s1)) (put_code (code_of s2 @ [ins_of Jump 0 0 0 0]) s2)) = COk () s3 \<and>
         s' = patched (length (code_of s2)) s3)"
proof -
  obtain m where m: "compile_stmt (compilers m) (S_If c a b) s = COk u s'"
    using sub_stmt_COk [OF assms(1)] by blast
  show ?thesis
  proof (cases b)
    case None
    then show ?thesis
      using m by (fastforce simp: stmt_inv compile_if_def next_reg_def emit_jump_eq dest!: patched_COk)
  next
    case (Some e)
    then show ?thesis
      using m by (fastforce simp: stmt_inv compile_if_def next_reg_def emit_jump_eq dest!: patched_COk)
  qed
qed

definition looped :: "comp_state \<Rightarrow> comp_state" where
  "looped s = set_cur ((cur (prep s))\<lparr>c_loop_stack :=
     \<lparr>break_jumps = [], continue_jumps = [], is_switch = False\<rparr> # c_loop_stack (cur s)\<rparr>) (prep s)"

lemma while_inv:
  assumes "sub_stmt (compilers n) (S_While c body) s = COk u s'"
  shows "\<exists>m s1 s2 l ls s4 s5. sub_expr (compilers m) c (length (c_locals (cur s))) (looped s) = COk () s1 \<and>
    sub_stmt (compilers m) body (put_code (code_of s1 @ [ins_of JumpIfFalse (length (c_locals (cur s))) 0 0 0]) s1) = COk () s2 \<and>
    c_loop_stack (cur s2) = l # ls \<and>
    patch_all (continue_jumps l) (length (code_of s2)) (set_cur ((cur s2)\<lparr>c_loop_stack := ls\<rparr>) s2) = COk () s4 \<and>
    length (code_of s) \<le> length (code_of s4) \<and> alike s4 s5 \<and>
    patch_all (break_jumps l) (length (code_of s4) + 1)
      (patched (length (code_of s1)) (put_code (code_of s4 @ [ins_of Loop 0 0 0 (length (code_of s4) - length (code_of s) + 1)]) s5))
      = COk () s'"
proof -
  obtain m where m: "compile_stmt (compilers m) (S_While c body) s = COk u s'"
    using sub_stmt_COk [OF assms(1)] by blast
  then obtain s1 s2 where s1: "sub_expr (compilers m) c (length (c_locals (cur s))) (looped s) = COk () s1"
    "sub_stmt (compilers m) body (put_code (code_of s1 @ [ins_of JumpIfFalse (length (c_locals (cur s))) 0 0 0]) s1) = COk () s2"
    "finish_loop (creturn ()) (length (code_of s)) (length (code_of s1)) s2 = COk () s'"
    by (auto simp: stmt_inv compile_while_def next_reg_def emit_jump_eq code_len_eq push_loop_def looped_def)
  from s1(3) obtain l ls s4 where s4: "c_loop_stack (cur s2) = l # ls"
    "patch_all (continue_jumps l) (length (code_of s2)) (set_cur ((cur s2)\<lparr>c_loop_stack := ls\<rparr>) s2) = COk () s4"
    "cseq [emit_loop (length (code_of s)), patch_jump (length (code_of s1)),
       cbind code_len (\<lambda>end_ip. patch_all (break_jumps l) end_ip)] s4 = COk () s'"
    by (auto simp: finish_loop_def compile_inv code_len_eq pop_loop_def cpanic_def split: list.splits)
  let ?s5 = "set_cur ((cur s4)\<lparr>c_function := (c_function (cur s4))\<lparr>has_loop := True\<rparr>\<rparr>) s4"
  have "alike s4 ?s5" by (rule alike_set_cur) simp_all
  moreover have "length (code_of s) \<le> length (code_of s4) \<and> patch_all (break_jumps l) (length (code_of s4) + 1)
      (patched (length (code_of s1)) (put_code (code_of s4 @ [ins_of Loop 0 0 0 (length (code_of s4) - length (code_of s) + 1)]) ?s5))
      = COk () s'"
    using s4(3) by (auto simp: compile_inv emit_loop_def code_len_eq emit_eq cpanic_def split: if_splits dest!: patched_COk)
  ultimately show ?thesis using s1(1,2) s4(1,2) by blast
qed

lemma break_inv:
  assumes "sub_stmt (compilers n) S_Break s = COk u s'"
  shows "c_loop_stack (cur s) \<noteq> [] \<and> code_of s' = code_of s @ [ins_of Jump 0 0 0 0] \<and>
    (\<exists>c. s' = set_cur c s \<and> constants (the_chunk c) = consts_of s \<and> c_locals c = c_locals (cur s) \<and>
      c_scope_depth c = c_scope_depth (cur s) \<and> c_concurrent_scopes c = c_concurrent_scopes (cur s) \<and>
      c_loop_stack c = add_jumps [length (code_of s)] [] (c_loop_stack (cur s)))"
proof -
  obtain m where m: "compile_stmt (compilers m) S_Break s = COk u s'"
    using sub_stmt_COk [OF assms(1)] by blast
  then show ?thesis
    by (cases "c_loop_stack (cur s)")
      (auto simp: stmt_inv compile_break_def emit_jump_eq add_break_def add_jumps_def put_code_def prep_def)
qed

lemma continue_inv:
  assumes "sub_stmt (compilers n) S_Continue s = COk u s'" "list_all (\<lambda>l. \<not> is_switch l) (c_loop_stack (cur s))"
  shows "c_loop_stack (cur s) \<noteq> [] \<and> code_of s' = code_of s @ [ins_of Jump 0 0 0 0] \<and>
    (\<exists>c. s' = set_cur c s \<and> constants (the_chunk c) = consts_of s \<and> c_locals c = c_locals (cur s) \<and>
      c_scope_depth c = c_scope_depth (cur s) \<and> c_concurrent_scopes c = c_concurrent_scopes (cur s) \<and>
      c_loop_stack c = add_jumps [] [length (code_of s)] (c_loop_stack (cur s)))"
proof -
  obtain m where m: "compile_stmt (compilers m) S_Continue s = COk u s'"
    using sub_stmt_COk [OF assms(1)] by blast
  then show ?thesis
    using assms(2)
    by (cases "c_loop_stack (cur s)")
      (auto simp: stmt_inv compile_continue_def emit_jump_eq add_continue_def add_jumps_def put_code_def prep_def
        split: option.splits)
qed

lemma wrapper_inv:
  "sub_stmt (compilers n) (S_Export t) s = COk u s' \<Longrightarrow> \<exists>m. sub_stmt (compilers m) t (prep s) = COk u s'"
  "sub_stmt (compilers n) (S_Sync t) s = COk u s' \<Longrightarrow> \<exists>m. sub_stmt (compilers m) t (prep s) = COk u s'"
  by (drule sub_stmt_COk, auto simp: stmt_inv)+

lemma type_decl_inv:
  "sub_stmt (compilers n) (S_Interface x fs ms l) s = COk u s' \<Longrightarrow> alike s s'"
  "sub_stmt (compilers n) (S_TypeAlias x ps ty l) s = COk u s' \<Longrightarrow> alike s s'"
  by (drule sub_stmt_COk, auto simp: stmt_inv alike_prep intro!: alike_set_cur)+

section \<open>The code of a loop\<close>

lemma alike_facts:
  assumes "alike a b"
  shows "code_of b = code_of a" "consts_of b = consts_of a" "cs_heap b = cs_heap a" "cs_cell b = cs_cell a"
    "cs_chunk_at b = cs_chunk_at a" "c_locals (cur b) = c_locals (cur a)" "c_loop_stack (cur b) = c_loop_stack (cur a)"
    "c_scope_depth (cur b) = c_scope_depth (cur a)" "c_concurrent_scopes (cur b) = c_concurrent_scopes (cur a)"
    "comp_ready a \<Longrightarrow> comp_ready b"
  using assms by (simp_all add: alike_def)

lemma looped_simps [simp]:
  "code_of (looped s) = code_of s" "consts_of (looped s) = consts_of s" "cs_heap (looped s) = cs_heap s"
  "cs_cell (looped s) = cs_cell s" "cs_chunk_at (looped s) = cs_chunk_at s" "comp_ready s \<Longrightarrow> comp_ready (looped s)"
  "c_locals (cur (looped s)) = c_locals (cur s)" "c_scope_depth (cur (looped s)) = c_scope_depth (cur s)"
  "c_concurrent_scopes (cur (looped s)) = c_concurrent_scopes (cur s)"
  "c_next_reg (cur (looped s)) = length (c_locals (cur s))"
  "c_loop_stack (cur (looped s)) = \<lparr>break_jumps = [], continue_jumps = [], is_switch = False\<rparr> # c_loop_stack (cur s)"
  by (simp_all add: looped_def)

lemma put_code_env [simp]:
  "c_locals (cur (put_code is s)) = c_locals (cur s)" "c_loop_stack (cur (put_code is s)) = c_loop_stack (cur s)"
  "c_scope_depth (cur (put_code is s)) = c_scope_depth (cur s)" "c_next_reg (cur (put_code is s)) = c_next_reg (cur s)"
  "c_concurrent_scopes (cur (put_code is s)) = c_concurrent_scopes (cur s)"
  "comp_ready s \<Longrightarrow> comp_ready (put_code is s)"
  by simp_all (simp add: comp_ready_def)

lemma patched_env [simp]:
  "c_locals (cur (patched j s)) = c_locals (cur s)" "c_loop_stack (cur (patched j s)) = c_loop_stack (cur s)"
  "c_scope_depth (cur (patched j s)) = c_scope_depth (cur s)" "c_next_reg (cur (patched j s)) = c_next_reg (cur s)"
  "c_concurrent_scopes (cur (patched j s)) = c_concurrent_scopes (cur s)" "cs_cell (patched j s) = cs_cell s"
  "cs_chunk_at (patched j s) = cs_chunk_at s" "comp_ready s \<Longrightarrow> comp_ready (patched j s)"
  by (simp_all add: patched_def del: cur_put)

lemma ready_lone: "comp_ready s \<Longrightarrow> lone s"
  by (simp add: comp_ready_def)

text \<open>What stands where when the loop is compiled: the test with its exit, the body with its breaks and
  continues patched, the jump back.\<close>

definition loop_layout :: "comp_state \<Rightarrow> comp_state \<Rightarrow> comp_state \<Rightarrow> nat list \<Rightarrow> nat list \<Rightarrow> comp_state \<Rightarrow> bool" where
  "loop_layout s s1 s2 bs cs s' \<longleftrightarrow>
     length (code_of s') = length (code_of s2) + 1 \<and>
     code_of s' ! length (code_of s1) =
       ins_of JumpIfFalse (length (c_locals (cur s))) 0 0 (length (code_of s') - 1 - length (code_of s1)) \<and>
     code_of s' ! length (code_of s2) = ins_of Loop 0 0 0 (length (code_of s2) - length (code_of s) + 1) \<and>
     (\<forall>j \<in> set bs. j < length (code_of s') \<and> code_of s' ! j = ins_of Jump 0 0 0 (length (code_of s') - 1 - j)) \<and>
     (\<forall>j \<in> set cs. j < length (code_of s2) \<and> code_of s' ! j = ins_of Jump 0 0 0 (length (code_of s2) - 1 - j)) \<and>
     (\<forall>i. i < length (code_of s2) \<longrightarrow> i \<noteq> length (code_of s1) \<longrightarrow> i \<notin> set bs \<longrightarrow> i \<notin> set cs \<longrightarrow>
        code_of s' ! i = code_of s2 ! i)"

lemma jump_operand: "(ins_of opc a b c n)\<lparr>operand := of_nat k\<rparr> = ins_of opc a b c k"
  by simp

lemma while_layout:
  assumes ready: "comp_ready s" and g1: "advances (length (code_of s)) (looped s) s1"
    and seg: "segment (put_code (code_of s1 @ [ins_of JumpIfFalse (length (c_locals (cur s))) 0 0 0]) s1) s2 bs cs"
    and stack: "c_loop_stack (cur s2) = l # ls"
    and p1: "patch_all (continue_jumps l) (length (code_of s2)) (set_cur ((cur s2)\<lparr>c_loop_stack := ls\<rparr>) s2) = COk () s4"
    and s5: "alike s4 s5"
    and p2: "patch_all (break_jumps l) (length (code_of s4) + 1)
      (patched (length (code_of s1)) (put_code (code_of s4 @ [ins_of Loop 0 0 0 (length (code_of s4) - length (code_of s) + 1)]) s5))
      = COk () s'"
  shows "segment s s' [] []" "c_locals (cur s') = c_locals (cur s2)" "c_scope_depth (cur s') = c_scope_depth (cur s2)"
    "consts_of s' = consts_of s2" "cs_heap s' = cs_heap s2" "loop_layout s s1 s2 bs cs s'"
proof -
  let ?nl = "length (c_locals (cur s))" and ?x = "length (code_of s1)" and ?n = "length (code_of s2)"
  let ?s3 = "set_cur ((cur s2)\<lparr>c_loop_stack := ls\<rparr>) s2"
  let ?sb = "put_code (code_of s1 @ [ins_of JumpIfFalse ?nl 0 0 0]) s1"
  have r2: "comp_ready s2" using seg by (simp add: segment_def extends_def)
  have e2: "extends (length (code_of ?sb)) ?sb s2" using seg by (simp add: segment_def)
  have len: "length (code_of s) \<le> ?x" "?x < ?n" using advances_env(6) [OF g1] extends_length [OF e2] by simp_all
  have l: "l = \<lparr>break_jumps = bs, continue_jumps = cs, is_switch = False\<rparr>" "ls = c_loop_stack (cur s)"
    using stack seg advances_env(4) [OF g1] by (simp_all add: segment_def add_jumps_def)
  have r3: "lone ?s3" using r2 ready_lone by simp
  obtain js where js: "s4 = put_code js ?s3" "length js = ?n" "\<forall>i. i \<notin> set cs \<longrightarrow> js ! i = code_of s2 ! i"
    "\<forall>j \<in> set cs. j < ?n \<and> js ! j = (code_of s2 ! j)\<lparr>operand := of_nat (?n - 1 - j)\<rparr>"
    using patch_all_COk [OF p1 r3] l(1) by auto
  let ?loop = "ins_of Loop 0 0 0 (?n - length (code_of s) + 1)"
  let ?s6 = "put_code (js @ [?loop]) s5"
  note a = alike_facts [OF s5]
  have r5: "comp_ready s5" using a(10) js(1) r2 by simp
  have p2': "patch_all bs (?n + 1) (patched ?x ?s6) = COk () s'" using p2 l(1) js(1,2) by simp
  obtain ks where ks: "s' = put_code ks (patched ?x ?s6)" "length ks = ?n + 1"
    "\<forall>i. i \<notin> set bs \<longrightarrow> ks ! i = code_of (patched ?x ?s6) ! i"
    "\<forall>j \<in> set bs. j < ?n + 1 \<and> ks ! j = (code_of (patched ?x ?s6) ! j)\<lparr>operand := of_nat (?n + 1 - 1 - j)\<rparr>"
    using patch_all_COk [OF p2' ready_lone] r5 js(2) by auto
  have code: "code_of s' = ks" using ks(1) by simp
  have pend: "?x < j \<and> j < ?n \<and> code_of s2 ! j = ins_of Jump 0 0 0 0" if "j \<in> set bs \<union> set cs" for j
    using seg that by (auto simp: segment_def list_all_iff pending_def Suc_le_eq)
  have x: "?x \<notin> set bs" "?x \<notin> set cs" using pend by blast+
  have n: "?n \<notin> set bs" "?n \<notin> set cs" using pend by blast+
  have disj: "set bs \<inter> set cs = {}" using seg by (simp add: segment_def)
  have test: "code_of s2 ! ?x = ins_of JumpIfFalse ?nl 0 0 0" using extends_nth [OF e2, of ?x] by simp
  have s6x: "code_of ?s6 ! ?x = ins_of JumpIfFalse ?nl 0 0 0" using js(2,3) x(2) len(2) test by (simp add: nth_append)
  have "code_of (patched ?x ?s6) ! ?x = ins_of JumpIfFalse ?nl 0 0 (length (code_of ?s6) - 1 - ?x)"
    using s6x len(2) js(2) by (intro patched_simps(5)) simp_all
  then have c1: "ks ! ?x = ins_of JumpIfFalse ?nl 0 0 (?n - ?x)" using ks(3) x(1) js(2) by simp
  have other: "code_of (patched ?x ?s6) ! i = js ! i" if "i < ?n" "i \<noteq> ?x" for i
    using that js(2) by (simp add: nth_append)
  have c2: "ks ! ?n = ?loop" using ks(3) n(1) len(2) js(2) by (simp add: nth_append)
  have c3: "\<forall>j \<in> set bs. j < ?n + 1 \<and> ks ! j = ins_of Jump 0 0 0 (?n - j)"
  proof
    fix j assume j: "j \<in> set bs"
    then have "j \<notin> set cs" "?x < j" "j < ?n" "code_of s2 ! j = ins_of Jump 0 0 0 0" using disj pend by auto
    then have "code_of (patched ?x ?s6) ! j = ins_of Jump 0 0 0 0" using other js(3) by simp
    then show "j < ?n + 1 \<and> ks ! j = ins_of Jump 0 0 0 (?n - j)" using ks(4) j by simp
  qed
  have c4: "\<forall>j \<in> set cs. j < ?n \<and> ks ! j = ins_of Jump 0 0 0 (?n - 1 - j)"
  proof
    fix j assume j: "j \<in> set cs"
    then have b: "j \<notin> set bs" "?x < j" "j < ?n" "code_of s2 ! j = ins_of Jump 0 0 0 0" using disj pend by auto
    then have "ks ! j = js ! j" using ks(3) other by simp
    also have "\<dots> = (code_of s2 ! j)\<lparr>operand := of_nat (?n - 1 - j)\<rparr>" using js(4) j by blast
    also have "\<dots> = ins_of Jump 0 0 0 (?n - 1 - j)" by (simp only: b(4) jump_operand)
    finally show "j < ?n \<and> ks ! j = ins_of Jump 0 0 0 (?n - 1 - j)" using b(3) by blast
  qed
  have c5: "\<forall>i. i < ?n \<longrightarrow> i \<noteq> ?x \<longrightarrow> i \<notin> set bs \<longrightarrow> i \<notin> set cs \<longrightarrow> ks ! i = code_of s2 ! i"
    using ks(3) js(3) other by simp
  show "loop_layout s s1 s2 bs cs s'" unfolding loop_layout_def code using ks(2) c1 c2 c3 c4 c5 by simp
  show eqs: "c_locals (cur s') = c_locals (cur s2)" "c_scope_depth (cur s') = c_scope_depth (cur s2)"
    "consts_of s' = consts_of s2" "cs_heap s' = cs_heap s2"
    using a js(1) ks(1) by (simp_all del: cur_put)
  have e: "extends (length (code_of s)) s s2"
  proof -
    have "extends (length (code_of s)) (looped s) ?sb"
      by (rule advances_extends, rule advances_put_emit [OF g1]) simp
    then have "extends (length (code_of s)) (looped s) s2"
      by (rule extends_trans) (rule extends_less [OF e2], use len in simp)
    then show ?thesis by (simp add: extends_def)
  qed
  have "take (length (code_of s)) ks = take (length (code_of s)) (code_of s2)"
  proof (rule nth_equalityI)
    fix i assume "i < length (take (length (code_of s)) ks)"
    then have "i < length (code_of s)" "i < ?n" "i \<noteq> ?x" "i \<notin> set bs" "i \<notin> set cs" using len pend [of i] ks(2) by auto
    then show "take (length (code_of s)) ks ! i = take (length (code_of s)) (code_of s2) ! i" using c5 by simp
  qed (use ks(2) len in simp)
  then have "extends (length (code_of s)) s s'"
    using e eqs a js(1) ks(1,2) r5 by (simp add: extends_def del: cur_put)
  moreover have "c_loop_stack (cur s') = c_loop_stack (cur s)" using a js(1) ks(1) l(2) by (simp del: cur_put)
  ultimately show "segment s s' [] []" by (simp add: segment_def)
qed

section \<open>The shape of compiled statements\<close>

definition compiling :: "comp_state \<Rightarrow> bool" where
  "compiling s \<longleftrightarrow>
     comp_ready s \<and> c_concurrent_scopes (cur s) = [] \<and> list_all (\<lambda>l. \<not> is_switch l) (c_loop_stack (cur s)) \<and>
     list_all (\<lambda>l. l_depth l \<le> c_scope_depth (cur s)) (c_locals (cur s))"

fun declared :: "stmt \<Rightarrow> string list" where
  "declared (S_VarDecl name ty is_const e l) = [name]"
| "declared (S_Export inner) = declared inner"
| "declared (S_Sync inner) = declared inner"
| "declared _ = []"

lemma declared_none: "\<not> declares t \<longleftrightarrow> declared t = []"
  by (induction t rule: declared.induct) simp_all

lemma declared_one: "length (declared t) = (if declares t then 1 else 0)"
  by (induction t rule: declared.induct) simp_all

definition new_names :: "nat \<Rightarrow> stmt \<Rightarrow> string list" where
  "new_names d t = (if 0 < d then declared t else [])"

lemma new_names_none: "\<not> declares t \<Longrightarrow> new_names d t = []"
  by (simp add: new_names_def declared_none)

lemma new_names_length: "length (new_names d t) = new_locals d t"
  by (auto simp: new_names_def new_locals_def declared_one declared_none)

definition shape :: "string list \<Rightarrow> comp_state \<Rightarrow> comp_state \<Rightarrow> bool" where
  "shape names s s' \<longleftrightarrow>
     (\<exists>bs cs. segment s s' bs cs) \<and> c_scope_depth (cur s') = c_scope_depth (cur s) \<and>
     (\<exists>ls. c_locals (cur s') = c_locals (cur s) @ ls \<and> map l_name ls = names \<and>
        list_all (\<lambda>l. l_depth l = c_scope_depth (cur s)) ls)"

lemma compiling_shape: "compiling s \<Longrightarrow> shape names s s' \<Longrightarrow> compiling s'"
  by (cases "c_loop_stack (cur s)") (auto simp: compiling_def shape_def segment_def extends_def list_all_iff add_jumps_def)

lemma shape_refl: "comp_ready s \<Longrightarrow> shape [] s s"
  unfolding shape_def using segment_refl by fastforce

lemma shape_trans: "shape a s1 s2 \<Longrightarrow> shape b s2 s3 \<Longrightarrow> shape (a @ b) s1 s3"
  unfolding shape_def using segment_trans by (fastforce simp: list_all_iff)

lemma shape_advances: "advances (length (code_of s)) s s' \<Longrightarrow> shape [] s s'"
  unfolding shape_def using advances_segment advances_env(1,3) by fastforce

lemma shape_locals:
  "shape names s s' \<Longrightarrow> length (c_locals (cur s')) = length (c_locals (cur s)) + length names"
  unfolding shape_def by (auto simp: comp_def simp flip: length_map)

text \<open>The same with the given jumps.\<close>

lemma shape_by:
  "segment s s' bs cs \<Longrightarrow> c_scope_depth (cur s') = c_scope_depth (cur s) \<Longrightarrow> c_locals (cur s') = c_locals (cur s) \<Longrightarrow>
    shape [] s s'"
  unfolding shape_def by fastforce

lemma shape_prep: "shape names (prep s) s' = shape names s s'"
  unfolding shape_def segment_prep by simp

lemma shape_alike:
  assumes "shape names s a" "alike a b"
  shows "shape names s b"
proof -
  have "\<exists>bs cs. segment s b bs cs" using assms segment_alike unfolding shape_def by blast
  then show ?thesis using assms(1) alike_facts(6,8) [OF assms(2)] unfolding shape_def by simp
qed

lemma compiling_prep [simp]: "compiling (prep s) = compiling s" if "comp_ready s"
  using that by (simp add: compiling_def)

lemma expr_shape:
  assumes "core_expr e" "sub_expr (compilers m) e d s = COk u s1" "comp_ready s"
  shows "advances (length (code_of s)) s s1" "comp_ready s1"
  using expr_advances [OF assms] advances_ready(1) by blast+

lemma seq_shape:
  assumes "\<And>t s u s'. t \<in> set ts \<Longrightarrow> f t s = COk u s' \<Longrightarrow> compiling s \<Longrightarrow> shape (new_names (c_scope_depth (cur s)) t) s s'"
    and "cfor ts f s = COk u s'" "compiling s"
  shows "shape (concat (map (new_names (c_scope_depth (cur s))) ts)) s s'"
  using assms
proof (induction ts arbitrary: s)
  case Nil
  then show ?case by (simp add: cfor_COk shape_refl compiling_def)
next
  case (Cons t ts)
  then obtain v s1 where s1: "f t s = COk v s1" "cfor ts f s1 = COk u s'" by (auto simp: cfor_COk)
  have a: "shape (new_names (c_scope_depth (cur s)) t) s s1" using Cons.prems(1,3) s1(1) by simp
  have d: "c_scope_depth (cur s1) = c_scope_depth (cur s)" using a by (simp add: shape_def)
  have "shape (concat (map (new_names (c_scope_depth (cur s1))) ts)) s1 s'"
    by (rule Cons.IH [OF _ s1(2) compiling_shape [OF Cons.prems(3) a]]) (use Cons.prems(1) in simp)
  then show ?case using shape_trans [OF a] d by simp
qed

lemma closed_shape:
  assumes "shape names (opened s) s1" "compiling s"
  shows "shape [] s (closed s1)"
proof -
  let ?d = "c_scope_depth (cur s)"
  obtain bs cs ls where a: "segment (opened s) s1 bs cs" "c_scope_depth (cur s1) = ?d + 1"
    "c_locals (cur s1) = c_locals (cur s) @ ls" "list_all (\<lambda>l. l_depth l = ?d + 1) ls"
    using assms(1) by (auto simp: shape_def opened_def)
  have "list_all (\<lambda>l. l_depth l \<le> ?d) (c_locals (cur s))" using assms(2) by (simp add: compiling_def)
  then have "dropWhile (\<lambda>l. ?d < l_depth l) (rev (c_locals (cur s))) = rev (c_locals (cur s))"
    by (cases "rev (c_locals (cur s))") (auto simp: list_all_iff rev_eq_Cons_iff)
  moreover have "dropWhile (\<lambda>l. ?d < l_depth l) (rev ls @ rev (c_locals (cur s))) =
      dropWhile (\<lambda>l. ?d < l_depth l) (rev (c_locals (cur s)))"
    using a(4) by (intro dropWhile_append2) (auto simp: list_all_iff)
  ultimately have l: "c_locals (cur (closed s1)) = c_locals (cur s)" using a(2,3) by (simp add: closed_def)
  have "pending (opened s) = pending s" by (simp add: pending_def fun_eq_iff opened_def)
  then have "segment s s1 bs cs" using a(1) by (simp add: segment_def extends_def opened_def)
  then have "segment s (closed s1) bs cs" unfolding closed_def by (rule segment_set_cur) simp_all
  then show ?thesis using l a(2) by (intro shape_by) (simp_all add: closed_def)
qed

lemma shape_jump:
  assumes "shape names s1 s2"
  shows "shape names s1 (put_code (code_of s2 @ is) s2)"
  using assms segment_emit unfolding shape_def by fastforce

lemma shape_patched:
  assumes "segment s s1 bs cs" "length (code_of s) \<le> j" "j \<notin> set bs" "j \<notin> set cs"
    "c_scope_depth (cur s1) = c_scope_depth (cur s)" "c_locals (cur s1) = c_locals (cur s)"
  shows "shape [] s (patched j s1)"
  by (rule shape_by [OF segment_patched [OF assms(1-4)]]) (simp_all add: assms(5,6))

lemma segment_positions:
  "segment s s' bs cs \<Longrightarrow> j \<in> set bs \<or> j \<in> set cs \<Longrightarrow> length (code_of s) \<le> j \<and> j < length (code_of s')"
  by (auto simp: segment_def list_all_iff pending_def)

lemma compiling_advances: "compiling s \<Longrightarrow> advances (length (code_of s)) s s1 \<Longrightarrow> compiling s1"
  using compiling_shape shape_advances by blast

lemma compiling_code: "compiling s \<Longrightarrow> compiling (put_code is s)"
  by (simp add: compiling_def del: cur_put)

lemma compiling_patched: "compiling s \<Longrightarrow> compiling (patched j s)"
  by (simp add: compiling_def)

lemma looped_compiling: "compiling s \<Longrightarrow> compiling (looped s)"
  by (simp add: compiling_def)

lemma opened_compiling: "compiling s \<Longrightarrow> compiling (opened s)"
  by (auto simp: compiling_def opened_def list_all_iff)

lemma shape_nil: "shape [] s s' \<Longrightarrow> c_locals (cur s') = c_locals (cur s) \<and> c_scope_depth (cur s') = c_scope_depth (cur s)"
  by (auto simp: shape_def)

text \<open>A lone jump left to the loop.\<close>

lemma jump_segment:
  assumes "comp_ready s" "c_loop_stack (cur s) \<noteq> []" "code_of s' = code_of s @ [ins_of Jump 0 0 0 0]" "s' = set_cur c s"
    "constants (the_chunk c) = consts_of s" "c_concurrent_scopes c = c_concurrent_scopes (cur s)"
  shows "c_loop_stack c = add_jumps [length (code_of s)] [] (c_loop_stack (cur s)) \<Longrightarrow> segment s s' [length (code_of s)] []"
    "c_loop_stack c = add_jumps [] [length (code_of s)] (c_loop_stack (cur s)) \<Longrightarrow> segment s s' [] [length (code_of s)]"
proof -
  have "extends (length (code_of s)) s s'" using assms by (simp add: extends_def)
  moreover have "pending s s' (length (code_of s))" using assms(3) by (simp add: pending_def)
  ultimately show "c_loop_stack c = add_jumps [length (code_of s)] [] (c_loop_stack (cur s)) \<Longrightarrow> segment s s' [length (code_of s)] []"
    "c_loop_stack c = add_jumps [] [length (code_of s)] (c_loop_stack (cur s)) \<Longrightarrow> segment s s' [] [length (code_of s)]"
    using assms(2,4) by (simp_all add: segment_def)
qed

theorem stmt_shape:
  "core_stmt t \<Longrightarrow> sub_stmt (compilers n) t s = COk u s' \<Longrightarrow> compiling s \<Longrightarrow>
    shape (new_names (c_scope_depth (cur s)) t) s s'"
proof (induction t arbitrary: n s u s' rule: core_stmt.induct)
  case (1 e)
  then obtain m where m: "sub_expr (compilers m) e (length (c_locals (cur s))) (prep s) = COk () s'"
    using expr_stmt_inv [OF "1.prems"(2)] by auto
  have "comp_ready (prep s)" using "1.prems"(3) by (simp add: compiling_def)
  then have "shape [] (prep s) s'" using expr_shape(1) [OF _ m] "1.prems"(1) shape_advances by simp
  then show ?case by (simp add: shape_prep new_names_def)
next
  case (2 name ty is_const e l)
  have r: "comp_ready (prep s)" using "2.prems"(3) by (simp add: compiling_def)
  show ?case
  proof (cases "0 < c_scope_depth (cur s)")
    case True
    obtain m s1 v where s1: "sub_expr (compilers m) e (length (c_locals (cur s))) (prep s) = COk () s1"
      "s' = set_cur ((cur s1)\<lparr>c_locals := c_locals (cur s) @ [v]\<rparr>) s1" "l_name v = name" "l_depth v = c_scope_depth (cur s)"
      using local_decl_inv [OF "2.prems"(2) _ True] "2.prems"(1,3) by (auto simp: compiling_def)
    have g: "advances (length (code_of (prep s))) (prep s) s1" using expr_shape(1) [OF _ s1(1) r] "2.prems"(1) by simp
    have "segment (prep s) s' [] []" unfolding s1(2) by (rule segment_set_cur [OF advances_segment [OF g]]) simp_all
    then have "segment s s' [] []" by (simp add: segment_prep)
    then show ?thesis
      unfolding shape_def using s1(2-4) True advances_env [OF g] by (auto simp: new_names_def intro!: exI [of _ "[v]"])
  next
    case False
    obtain m s1 i s2 where s1: "sub_expr (compilers m) e (length (c_locals (cur s))) (prep s) = COk () s1"
      and s2: "string_const name s1 = COk i s2"
      and s': "alike (put_code (code_of s2 @ [ins_of DefineGlobal (length (c_locals (cur s))) 0 0 i]) s2) s'"
      using global_decl_inv [OF "2.prems"(2)] "2.prems"(1) False by fastforce
    note g = expr_shape [OF _ s1 r]
    have g1: "advances (length (code_of (prep s))) (prep s) s1" "comp_ready s1" using g "2.prems"(1) by simp_all
    have "advances (length (code_of (prep s))) (prep s) s2" using advances_trans [OF g1(1)] string_const_COk [OF s2 g1(2)] by blast
    then have "shape [] (prep s) (put_code (code_of s2 @ [ins_of DefineGlobal (length (c_locals (cur s))) 0 0 i]) s2)"
      by (intro shape_advances advances_put_emit) simp_all
    then show ?thesis using shape_alike [OF _ s'] False by (simp add: shape_prep new_names_def)
  qed
next
  case (3 ss)
  obtain m s1 where s1: "cfor ss (sub_stmt (compilers m)) (opened s) = COk () s1" "s' = closed s1"
    using block_inv [OF "3.prems"(2)] by blast
  have "shape (concat (map (new_names (c_scope_depth (cur (opened s)))) ss)) (opened s) s1"
    by (rule seq_shape [OF _ s1(1) opened_compiling [OF "3.prems"(3)]])
      (rule "3.IH", use "3.prems"(1) in \<open>simp_all add: list_all_iff\<close>)
  then show ?case using closed_shape "3.prems"(3) s1(2) by (simp add: new_names_def)
next
  case (4 c a b)
  let ?nl = "length (c_locals (cur s))" and ?p = "length (code_of s)"
  obtain m s1 s2 where s1: "sub_expr (compilers m) c ?nl (prep s) = COk () s1"
    and s2: "sub_stmt (compilers m) a (put_code (code_of s1 @ [ins_of JumpIfFalse ?nl 0 0 0]) s1) = COk () s2"
    and s': "case b of
       None \<Rightarrow> s' = patched (length (code_of s1)) s2
     | Some e \<Rightarrow> \<exists>s3. sub_stmt (compilers m) e
           (patched (length (code_of s1)) (put_code (code_of s2 @ [ins_of Jump 0 0 0 0]) s2)) = COk () s3 \<and>
         s' = patched (length (code_of s2)) s3"
    using if_inv [OF "4.prems"(2)] by blast
  let ?x = "length (code_of s1)" and ?j = "put_code (code_of s1 @ [ins_of JumpIfFalse ?nl 0 0 0]) s1"
  have core: "core_expr c" "core_stmt a" "\<not> declares a" using "4.prems"(1) by simp_all
  have cp: "compiling (prep s)" "comp_ready (prep s)" using "4.prems"(3) by (simp_all add: compiling_def)
  have g1: "advances (length (code_of (prep s))) (prep s) s1" by (rule expr_shape(1) [OF core(1) s1 cp(2)])
  have c1: "compiling ?j" by (rule compiling_code [OF compiling_advances [OF cp(1) g1]])
  have "shape [] ?j s2" using "4.IH"(1) [OF core(2) s2 c1] core(3) by (simp add: new_names_none)
  then obtain bs cs where a: "segment ?j s2 bs cs" "c_locals (cur s2) = c_locals (cur ?j)"
    "c_scope_depth (cur s2) = c_scope_depth (cur ?j)" "compiling s2"
    using compiling_shape [OF c1] unfolding shape_def by (auto simp del: cur_put)
  have sj: "segment (prep s) ?j [] []" by (rule segment_emit [OF advances_segment [OF g1]])
  have seg: "segment (prep s) s2 bs cs" using segment_trans [OF sj a(1)] by simp
  have pos: "?x \<notin> set bs" "?x \<notin> set cs" "?p \<le> ?x" "?x < length (code_of s2)"
    using segment_positions [OF a(1), of ?x] advances_env(6) [OF g1] extends_length [OF segment_extends [OF a(1)]] by auto
  note e = advances_env(1,3) [OF g1]
  show ?case
  proof (cases b)
    case None
    have "shape [] (prep s) s'"
      using s' None pos a(2,3) e by (simp del: cur_put) (rule shape_patched [OF seg], simp_all del: cur_put)
    then show ?thesis by (simp add: shape_prep new_names_def)
  next
    case (Some e')
    let ?k = "put_code (code_of s2 @ [ins_of Jump 0 0 0 0]) s2"
    let ?i = "patched ?x ?k"
    obtain s3 where s3: "sub_stmt (compilers m) e' ?i = COk () s3" "s' = patched (length (code_of s2)) s3"
      using s' Some by auto
    have ci: "compiling ?i" by (rule compiling_patched [OF compiling_code [OF a(4)]])
    have "shape [] ?i s3" using "4.IH"(2) [OF Some _ s3(1) ci] "4.prems"(1) Some by (simp add: new_names_none)
    then obtain bs' cs' where b: "segment ?i s3 bs' cs'" "c_locals (cur s3) = c_locals (cur ?i)"
      "c_scope_depth (cur s3) = c_scope_depth (cur ?i)"
      unfolding shape_def by (auto simp del: cur_put)
    have si: "segment (prep s) ?i bs cs" by (rule segment_patched [OF segment_emit [OF seg]]) (use pos in simp_all)
    have "segment (prep s) s3 (bs @ bs') (cs @ cs')" by (rule segment_trans [OF si b(1)])
    moreover have "length (code_of s2) \<notin> set (bs @ bs')" "length (code_of s2) \<notin> set (cs @ cs')"
      using segment_positions [OF a(1)] segment_positions [OF b(1)] by fastforce+
    moreover have "?p \<le> length (code_of s2)" using pos by simp
    ultimately have "shape [] (prep s) s'"
      unfolding s3(2) using a(2,3) b(2,3) e
      by (intro shape_patched [of "prep s" s3 "bs @ bs'" "cs @ cs'"]) (simp_all del: cur_put)
    then show ?thesis by (simp add: shape_prep new_names_def)
  qed
next
  case (5 c body)
  from while_inv [OF "5.prems"(2)] obtain m s1 s2 l ls s4 s5 where
    w: "sub_expr (compilers m) c (length (c_locals (cur s))) (looped s) = COk () s1"
    "sub_stmt (compilers m) body (put_code (code_of s1 @ [ins_of JumpIfFalse (length (c_locals (cur s))) 0 0 0]) s1) = COk () s2"
    "c_loop_stack (cur s2) = l # ls"
    "patch_all (continue_jumps l) (length (code_of s2)) (set_cur ((cur s2)\<lparr>c_loop_stack := ls\<rparr>) s2) = COk () s4"
    "alike s4 s5"
    "patch_all (break_jumps l) (length (code_of s4) + 1)
      (patched (length (code_of s1)) (put_code (code_of s4 @ [ins_of Loop 0 0 0 (length (code_of s4) - length (code_of s) + 1)]) s5))
      = COk () s'" by blast
  let ?j = "put_code (code_of s1 @ [ins_of JumpIfFalse (length (c_locals (cur s))) 0 0 0]) s1"
  have core: "core_expr c" "core_stmt body" "\<not> declares body" using "5.prems"(1) by simp_all
  have r: "comp_ready s" using "5.prems"(3) by (simp add: compiling_def)
  have g1: "advances (length (code_of (looped s))) (looped s) s1" by (rule expr_shape(1) [OF core(1) w(1)]) (simp add: r)
  then have g: "advances (length (code_of s)) (looped s) s1" by simp
  have c1: "compiling ?j" by (rule compiling_code [OF compiling_advances [OF looped_compiling [OF "5.prems"(3)] g1]])
  have "shape [] ?j s2" using "5.IH" [OF core(2) w(2) c1] core(3) by (simp add: new_names_none)
  then obtain bs cs where a: "segment ?j s2 bs cs" "c_locals (cur s2) = c_locals (cur ?j)"
    "c_scope_depth (cur s2) = c_scope_depth (cur ?j)"
    unfolding shape_def by (auto simp del: cur_put)
  note out = while_layout [OF r g a(1) w(3-6)]
  show ?case using shape_by [OF out(1)] out(2,3) a(2,3) advances_env(1,3) [OF g] by (simp add: new_names_def del: cur_put)
next
  case 6
  from break_inv [OF "6.prems"(2)] obtain c where c: "c_loop_stack (cur s) \<noteq> []"
    "code_of s' = code_of s @ [ins_of Jump 0 0 0 0]" "s' = set_cur c s" "constants (the_chunk c) = consts_of s"
    "c_locals c = c_locals (cur s)" "c_scope_depth c = c_scope_depth (cur s)"
    "c_concurrent_scopes c = c_concurrent_scopes (cur s)" "c_loop_stack c = add_jumps [length (code_of s)] [] (c_loop_stack (cur s))"
    by blast
  then show ?case
    using "6.prems"(3) jump_segment(1) [of s s' c] by (auto simp: new_names_def compiling_def intro!: shape_by)
next
  case 7
  from continue_inv [OF "7.prems"(2)] "7.prems"(3) obtain c where c: "c_loop_stack (cur s) \<noteq> []"
    "code_of s' = code_of s @ [ins_of Jump 0 0 0 0]" "s' = set_cur c s" "constants (the_chunk c) = consts_of s"
    "c_locals c = c_locals (cur s)" "c_scope_depth c = c_scope_depth (cur s)"
    "c_concurrent_scopes c = c_concurrent_scopes (cur s)" "c_loop_stack c = add_jumps [] [length (code_of s)] (c_loop_stack (cur s))"
    by (auto simp: compiling_def)
  then show ?case
    using "7.prems"(3) jump_segment(2) [of s s' c] by (auto simp: new_names_def compiling_def intro!: shape_by)
next
  case (8 inner)
  have "compiling (prep s)" "c_scope_depth (cur (prep s)) = c_scope_depth (cur s)"
    using "8.prems"(3) by (simp_all add: compiling_def)
  then show ?case using wrapper_inv(1) [OF "8.prems"(2)] "8.IH" "8.prems"(1) by (fastforce simp: shape_prep new_names_def)
next
  case (9 inner)
  have "compiling (prep s)" "c_scope_depth (cur (prep s)) = c_scope_depth (cur s)"
    using "9.prems"(3) by (simp_all add: compiling_def)
  then show ?case using wrapper_inv(2) [OF "9.prems"(2)] "9.IH" "9.prems"(1) by (fastforce simp: shape_prep new_names_def)
next
  case (10 x fs ms l)
  then have "shape [] s s'" using shape_alike [OF shape_refl type_decl_inv(1) [OF "10.prems"(2)]] by (simp add: compiling_def)
  then show ?case by (simp add: new_names_def)
next
  case (11 x ps ty l)
  then have "shape [] s s'" using shape_alike [OF shape_refl type_decl_inv(2) [OF "11.prems"(2)]] by (simp add: compiling_def)
  then show ?case by (simp add: new_names_def)
qed simp_all

end
