(* ===== verification/Sem_Exec.thy ===== *)
theory Sem_Exec
  imports Sem_Stmt
begin

text \<open>
  Statements at run time: the code of a core statement takes the machine where the reference semantics goes,
  to the instruction behind it, or to where the enclosing loop sends its breaks and continues. By induction
  on the fuel of the reference semantics, with a lemma per form.
\<close>

section \<open>Statements in place\<close>

definition placed :: "chunk \<Rightarrow> gc_state \<Rightarrow> comp_state \<Rightarrow> comp_state \<Rightarrow> nat list \<Rightarrow> nat list \<Rightarrow> nat \<Rightarrow> nat \<Rightarrow> bool" where
  "placed ch h s s' bs cs bt ct \<longleftrightarrow>
     (\<forall>i. length (code_of s) \<le> i \<longrightarrow> i < length (code_of s') \<longrightarrow> i \<notin> set bs \<longrightarrow> i \<notin> set cs \<longrightarrow>
        at_code ch i (code_of s' ! i)) \<and>
     (\<forall>j \<in> set bs. j < bt \<and> bt \<le> length (code ch) \<and> at_code ch j (ins_of Jump 0 0 0 (bt - 1 - j))) \<and>
     (\<forall>j \<in> set cs. j < ct \<and> ct \<le> length (code ch) \<and> at_code ch j (ins_of Jump 0 0 0 (ct - 1 - j))) \<and>
     (\<exists>vs. constants ch = consts_of s' @ vs) \<and> text_le (cs_heap s') h \<and> length (code_of s') \<le> length (code ch) \<and>
     length (code ch) < 4294967296 \<and> length (constants ch) < 4294967296"

lemma placed_embeds: "placed ch h s s' [] [] bt ct = embeds ch h s s'"
  by (auto simp: placed_def embeds_def)

lemma placed_heap: "placed ch h s s' bs cs bt ct \<Longrightarrow> text_le h h' \<Longrightarrow> placed ch h' s s' bs cs bt ct"
  by (auto simp: placed_def intro: text_le_trans)

lemma placed_at:
  "placed ch h s s' bs cs bt ct \<Longrightarrow> length (code_of s) \<le> i \<Longrightarrow> i < length (code_of s') \<Longrightarrow> i \<notin> set bs \<Longrightarrow>
    i \<notin> set cs \<Longrightarrow> code_of s' ! i = ins \<Longrightarrow> at_code ch i ins"
  by (auto simp: placed_def)

text \<open>The pools of a later state contain those of an earlier one.\<close>

definition pools :: "comp_state \<Rightarrow> comp_state \<Rightarrow> bool" where
  "pools a b \<longleftrightarrow> length (code_of a) \<le> length (code_of b) \<and> (\<exists>vs. consts_of b = consts_of a @ vs) \<and>
     text_le (cs_heap a) (cs_heap b)"

lemma pools_trans: "pools a b \<Longrightarrow> pools b c \<Longrightarrow> pools a c"
  by (auto simp: pools_def intro: text_le_trans)

lemma pools_intros:
  "advances k a b \<Longrightarrow> pools a b" "extends k a b \<Longrightarrow> pools a b" "segment a b bs cs \<Longrightarrow> pools a b"
  "pools a (put_code (code_of a @ is) a)" "pools a (patched j a)" "pools a a"
  by (auto simp: pools_def advances_def extends_def segment_def)

lemma placed_part:
  assumes "placed ch h s s' bs cs bt ct" "length (code_of s) \<le> length (code_of a)" "pools b s'"
    and "\<And>i. length (code_of a) \<le> i \<Longrightarrow> i < length (code_of b) \<Longrightarrow> i \<notin> set bs1 \<Longrightarrow> i \<notin> set cs1 \<Longrightarrow>
      i \<notin> set bs \<and> i \<notin> set cs \<and> code_of s' ! i = code_of b ! i"
    and "set bs1 \<subseteq> set bs" "set cs1 \<subseteq> set cs"
  shows "placed ch h a b bs1 cs1 bt ct"
proof -
  have "at_code ch i (code_of b ! i)"
    if "length (code_of a) \<le> i" "i < length (code_of b)" "i \<notin> set bs1" "i \<notin> set cs1" for i
    using placed_at [OF assms(1)] assms(2,3) assms(4) [OF that] that by (simp add: pools_def)
  then show ?thesis
    using assms(1,3,5,6) unfolding placed_def pools_def by (auto intro: text_le_trans)
qed

lemma add_jumps_inj: "add_jumps bs' cs' ls = add_jumps bs cs ls \<Longrightarrow> ls \<noteq> [] \<Longrightarrow> bs' = bs \<and> cs' = cs"
  by (cases ls; cases "hd ls") (auto simp: add_jumps_def)

lemma segment_unique: "segment s s' bs cs \<Longrightarrow> segment s s' bs' cs' \<Longrightarrow> bs' = bs \<and> cs' = cs"
  using add_jumps_inj [of bs' cs' "c_loop_stack (cur s)" bs cs] by (auto simp: segment_def)

section \<open>The claim\<close>

definition run_post ::
    "platform \<Rightarrow> chunk \<Rightarrow> nat \<Rightarrow> nat \<Rightarrow> nat \<Rightarrow> nat \<Rightarrow> (signal \<Rightarrow> string list \<Rightarrow> bool) \<Rightarrow> vm \<Rightarrow> signal ref_out \<Rightarrow>
       nat \<times> vm \<Rightarrow> bool" where
  "run_post pf ch base pc bt ct P m r c \<longleftrightarrow>
     (\<exists>sg st. r = R_Ok sg st \<and> matches pf ch base st (snd c) \<and> text_le (vm_heap m) (vm_heap (snd c)) \<and>
        fst c = (case sg of Sg_Next \<Rightarrow> pc | Sg_Break \<Rightarrow> bt | Sg_Continue \<Rightarrow> ct) \<and> P sg (map fst (rs_locals st)))"

definition names_after :: "string list \<Rightarrow> comp_state \<Rightarrow> signal \<Rightarrow> string list \<Rightarrow> bool" where
  "names_after names s' sg names' \<longleftrightarrow> names' = (if sg = Sg_Next then map l_name (c_locals (cur s')) else names)"

abbreviation stmt_runs where
  "stmt_runs pf td ch base s' bt ct names r m pc \<equiv>
     goes pf td (run_post pf ch base (length (code_of s')) bt ct (names_after names s') m r) (\<lambda>e. r = R_Err e) (pc, m)"

definition names_ok :: "comp_state \<Rightarrow> ref_state \<Rightarrow> bool" where
  "names_ok s st \<longleftrightarrow> map l_name (c_locals (cur s)) = map fst (rs_locals st)"

definition stmt_ok :: "platform \<Rightarrow> nat \<Rightarrow> chunk \<Rightarrow> nat \<Rightarrow> nat \<Rightarrow> stmt \<Rightarrow> bool" where
  "stmt_ok pf td ch base n t \<longleftrightarrow>
     (\<forall>k s s' u bs cs bt ct m st.
        sub_stmt (compilers k) t s = COk u s' \<longrightarrow> compiling s \<longrightarrow> segment s s' bs cs \<longrightarrow> names_ok s st \<longrightarrow>
        placed ch (vm_heap m) s s' bs cs bt ct \<longrightarrow>
        stmt_regs (c_scope_depth (cur s)) (length (c_locals (cur s))) t < 256 \<longrightarrow> matches pf ch base st m \<longrightarrow>
        settled (ref_exec n (pf_nan pf) (c_scope_depth (cur s)) t st) \<longrightarrow>
        stmt_runs pf td ch base s' bt ct (map fst (rs_locals st)) (ref_exec n (pf_nan pf) (c_scope_depth (cur s)) t st) m
          (length (code_of s)))"

lemma stmt_okD:
  assumes "stmt_ok pf td ch base n t" "sub_stmt (compilers k) t s = COk u s'" "compiling s" "segment s s' bs cs"
    "names_ok s st" "placed ch (vm_heap m) s s' bs cs bt ct"
    "stmt_regs (c_scope_depth (cur s)) (length (c_locals (cur s))) t < 256" "matches pf ch base st m"
    "r = ref_exec n (pf_nan pf) (c_scope_depth (cur s)) t st" "settled r" "names = map fst (rs_locals st)"
  shows "stmt_runs pf td ch base s' bt ct names r m (length (code_of s))"
  using assms unfolding stmt_ok_def by blast

text \<open>Running a statement, then going on from where it leads.\<close>

lemma stmt_then:
  assumes "stmt_runs pf td ch base s' bt ct names r1 m pc"
    and "\<And>sg st1 m1. r1 = R_Ok sg st1 \<Longrightarrow> matches pf ch base st1 m1 \<Longrightarrow> text_le (vm_heap m) (vm_heap m1) \<Longrightarrow>
      names_after names s' sg (map fst (rs_locals st1)) \<Longrightarrow>
      goes pf td Q E (case sg of Sg_Next \<Rightarrow> length (code_of s') | Sg_Break \<Rightarrow> bt | Sg_Continue \<Rightarrow> ct, m1)"
    and "\<And>e. r1 = R_Err e \<Longrightarrow> E e"
  shows "goes pf td Q E (pc, m)"
proof -
  have "goes pf td (run_post pf ch base (length (code_of s')) bt ct (names_after names s') m r1) E (pc, m)"
    using goes_mono [OF assms(1)] assms(3) by blast
  then show ?thesis
  proof (rule goes_chain)
    fix c assume "run_post pf ch base (length (code_of s')) bt ct (names_after names s') m r1 c"
    then show "goes pf td Q E c" using assms(2) by (cases c) (auto simp: run_post_def)
  qed
qed

lemma run_done:
  "r = R_Ok sg st \<Longrightarrow> matches pf ch base st m' \<Longrightarrow> text_le (vm_heap m) (vm_heap m') \<Longrightarrow>
    q = (case sg of Sg_Next \<Rightarrow> pc | Sg_Break \<Rightarrow> bt | Sg_Continue \<Rightarrow> ct) \<Longrightarrow> P sg (map fst (rs_locals st)) \<Longrightarrow>
    goes pf td (run_post pf ch base pc bt ct P m r) E (q, m')"
  by (rule goes_done) (auto simp: run_post_def)

text \<open>A run from a later machine is one from the earlier machine.\<close>

lemma run_weaken:
  assumes "goes pf td (run_post pf ch base pc bt ct P m1 r) E c" "text_le (vm_heap m) (vm_heap m1)"
  shows "goes pf td (run_post pf ch base pc bt ct P m r) E c"
  by (rule goes_mono [OF assms(1)]) (use assms(2) in \<open>auto simp: run_post_def intro: text_le_trans\<close>)

text \<open>The expression of a statement, in the first register behind the locals.\<close>

lemma stmt_expr:
  assumes "0 < pf_depth pf" "core_expr e" "sub_expr (compilers k) e nl s0 = COk u s1" "comp_ready s0" "names_ok s0 st"
    "embeds ch (vm_heap m) s0 s1" "expr_regs (c_next_reg (cur s0)) e nl < 256" "matches pf ch base st m"
    "nl = length (c_locals (cur s0))" "r = rbind (ref_eval (pf_nan pf) e st) f" "settled r" "p = length (code_of s0)"
    and "\<And>x st1 m1. r = f x st1 \<Longrightarrow> matches pf ch base st1 m1 \<Longrightarrow> map fst (rs_locals st1) = map fst (rs_locals st) \<Longrightarrow>
      stands_for (vm_heap m1) (getr base nl m1) x \<Longrightarrow> text_le (vm_heap m) (vm_heap m1) \<Longrightarrow> nl < 256 \<Longrightarrow>
      goes pf td Q (\<lambda>e. r = R_Err e) (length (code_of s1), m1)"
  shows "goes pf td Q (\<lambda>e. r = R_Err e) (p, m)"
proof -
  have nl: "length (rs_locals st) = nl" using assms(5,9) unfolding names_ok_def by (metis length_map)
  have env: "env_ok s0 st nl" using assms(4,5) nl by (simp add: env_ok_def names_ok_def)
  have l256: "nl < 256" by (rule le_less_trans [OF expr_regs_ge assms(7)])
  show ?thesis
    unfolding assms(12)
  proof (rule sub_runs [OF expr_correct [OF assms(1,2)] assms(2,3) env assms(6-8,10,11)])
    fix x st1 m1 assume a: "r = f x st1" "matches pf ch base st1 m1" "stands_for (vm_heap m1) (getr base nl m1) x"
      "text_le (vm_heap m) (vm_heap m1)" "env_ok s1 st1 nl"
    have "c_locals (cur s1) = c_locals (cur s0)" by (rule advances_env(1) [OF expr_advances [OF assms(2,3,4)]])
    then have "map fst (rs_locals st1) = map fst (rs_locals st)" using a(5) env by (simp add: env_ok_def)
    then show "goes pf td Q (\<lambda>e. r = R_Err e) (length (code_of s1), m1)" using a l256 by (intro assms(13) [of x st1 m1]) simp_all
  qed
qed

lemma names_prep [simp]: "names_ok (prep s) st = names_ok s st" "names_ok (looped s) st = names_ok s st"
  by (simp_all add: names_ok_def)

lemma embeds_prep [simp]: "embeds ch h (prep s) s' = embeds ch h s s'" "embeds ch h (looped s) s' = embeds ch h s s'"
  by (simp_all add: embeds_def)

section \<open>Simple statements\<close>

lemma stmt_okI:
  assumes "\<And>k s s' u bs cs bt ct m st. sub_stmt (compilers k) t s = COk u s' \<Longrightarrow> compiling s \<Longrightarrow> segment s s' bs cs \<Longrightarrow>
      names_ok s st \<Longrightarrow> placed ch (vm_heap m) s s' bs cs bt ct \<Longrightarrow>
      stmt_regs (c_scope_depth (cur s)) (length (c_locals (cur s))) t < 256 \<Longrightarrow> matches pf ch base st m \<Longrightarrow>
      settled (ref_exec n (pf_nan pf) (c_scope_depth (cur s)) t st) \<Longrightarrow> comp_ready s \<Longrightarrow>
      stmt_runs pf td ch base s' bt ct (map fst (rs_locals st)) (ref_exec n (pf_nan pf) (c_scope_depth (cur s)) t st) m
        (length (code_of s))"
  shows "stmt_ok pf td ch base n t"
  using assms unfolding stmt_ok_def compiling_def by blast

lemma expr_stmt_runs:
  assumes "0 < pf_depth pf" "core_expr e"
  shows "stmt_ok pf td ch base (Suc n) (S_Expr e)"
proof (rule stmt_okI)
  fix k s s' u bs cs bt ct m st
  assume c: "sub_stmt (compilers k) (S_Expr e) s = COk u s'" and names: "names_ok s st"
    and seg: "segment s s' bs cs" and place: "placed ch (vm_heap m) s s' bs cs bt ct"
    and regs: "stmt_regs (c_scope_depth (cur s)) (length (c_locals (cur s))) (S_Expr e) < 256"
    and mat: "matches pf ch base st m" and r: "comp_ready s"
    and set: "settled (ref_exec (Suc n) (pf_nan pf) (c_scope_depth (cur s)) (S_Expr e) st)"
  let ?r = "ref_exec (Suc n) (pf_nan pf) (c_scope_depth (cur s)) (S_Expr e) st"
  obtain j where j: "sub_expr (compilers j) e (length (c_locals (cur s))) (prep s) = COk () s'"
    using expr_stmt_inv [OF c assms(2)] by blast
  have rp: "comp_ready (prep s)" using r by simp
  have g: "advances (length (code_of (prep s))) (prep s) s'" by (rule expr_advances [OF assms(2) j rp])
  then have "segment s s' [] []" using advances_segment segment_prep by blast
  then have "bs = []" "cs = []" using segment_unique [OF seg] by simp_all
  then have emb: "embeds ch (vm_heap m) (prep s) s'" using place by (simp add: placed_embeds)
  show "stmt_runs pf td ch base s' bt ct (map fst (rs_locals st)) ?r m (length (code_of s))"
  proof (rule stmt_expr [OF assms j rp _ emb _ mat _ _ set])
    show "?r = rbind (ref_eval (pf_nan pf) e st) (\<lambda>_ st. R_Ok Sg_Next st)" by simp
    fix x st1 m1 assume a: "?r = R_Ok Sg_Next st1" "matches pf ch base st1 m1"
      "map fst (rs_locals st1) = map fst (rs_locals st)" "text_le (vm_heap m) (vm_heap m1)"
    have "names_after (map fst (rs_locals st)) s' Sg_Next (map fst (rs_locals st1))"
      using a(3) names advances_env(1) [OF g] by (simp add: names_after_def names_ok_def)
    then show "goes pf td (run_post pf ch base (length (code_of s')) bt ct (names_after (map fst (rs_locals st)) s') m ?r)
          (\<lambda>e. ?r = R_Err e) (length (code_of s'), m1)"
      by (intro run_done [OF a(1,2,4)]) simp_all
  qed (use names regs in simp_all)
qed

lemma jump_runs:
  assumes "t = S_Break \<or> t = S_Continue"
  shows "stmt_ok pf td ch base (Suc n) t"
proof (rule stmt_okI)
  fix k s s' u bs cs bt ct m st
  assume c: "sub_stmt (compilers k) t s = COk u s'" and comp: "compiling s" and r: "comp_ready s"
    and seg: "segment s s' bs cs" and place: "placed ch (vm_heap m) s s' bs cs bt ct"
    and mat: "matches pf ch base st m"
  let ?r = "ref_exec (Suc n) (pf_nan pf) (c_scope_depth (cur s)) t st"
  show "stmt_runs pf td ch base s' bt ct (map fst (rs_locals st)) ?r m (length (code_of s))"
    using assms
  proof
    assume t: "t = S_Break"
    obtain d where d: "c_loop_stack (cur s) \<noteq> []" "code_of s' = code_of s @ [ins_of Jump 0 0 0 0]" "s' = set_cur d s"
      "constants (the_chunk d) = consts_of s" "c_concurrent_scopes d = c_concurrent_scopes (cur s)"
      "c_loop_stack d = add_jumps [length (code_of s)] [] (c_loop_stack (cur s))"
      using break_inv [OF c [unfolded t]] by blast
    have "segment s s' [length (code_of s)] []" by (rule jump_segment(1) [OF r d])
    then have "bs = [length (code_of s)]" using segment_unique [OF seg] by simp
    then have b: "length (code_of s) < bt" "at_code ch (length (code_of s)) (ins_of Jump 0 0 0 (bt - 1 - length (code_of s)))"
      "bt < 4294967296" using place by (auto simp: placed_def)
    have "goes pf td (run_post pf ch base (length (code_of s')) bt ct (names_after (map fst (rs_locals st)) s') m ?r)
        (\<lambda>e. ?r = R_Err e) (bt, m)"
      by (rule run_done [of _ Sg_Break st]) (use t mat in \<open>simp_all add: names_after_def\<close>)
    moreover have "length (code_of s) + 1 + (bt - 1 - length (code_of s)) = bt" using b(1) by simp
    ultimately show ?thesis using b by (intro goes_jump [OF matches_running [OF mat] b(2)]) simp_all
  next
    assume t: "t = S_Continue"
    obtain d where d: "c_loop_stack (cur s) \<noteq> []" "code_of s' = code_of s @ [ins_of Jump 0 0 0 0]" "s' = set_cur d s"
      "constants (the_chunk d) = consts_of s" "c_concurrent_scopes d = c_concurrent_scopes (cur s)"
      "c_loop_stack d = add_jumps [] [length (code_of s)] (c_loop_stack (cur s))"
      using continue_inv [OF c [unfolded t]] comp by (auto simp: compiling_def)
    have "segment s s' [] [length (code_of s)]" by (rule jump_segment(2) [OF r d])
    then have "cs = [length (code_of s)]" using segment_unique [OF seg] by simp
    then have b: "length (code_of s) < ct" "at_code ch (length (code_of s)) (ins_of Jump 0 0 0 (ct - 1 - length (code_of s)))"
      "ct < 4294967296" using place by (auto simp: placed_def)
    have "goes pf td (run_post pf ch base (length (code_of s')) bt ct (names_after (map fst (rs_locals st)) s') m ?r)
        (\<lambda>e. ?r = R_Err e) (ct, m)"
      by (rule run_done [of _ Sg_Continue st]) (use t mat in \<open>simp_all add: names_after_def\<close>)
    moreover have "length (code_of s) + 1 + (ct - 1 - length (code_of s)) = ct" using b(1) by simp
    ultimately show ?thesis using b by (intro goes_jump [OF matches_running [OF mat] b(2)]) simp_all
  qed
qed

lemma skip_runs:
  assumes "\<And>k s u s'. sub_stmt (compilers k) t s = COk u s' \<Longrightarrow> alike s s'"
    "\<And>d st. ref_exec (Suc n) (pf_nan pf) d t st = R_Ok Sg_Next st"
  shows "stmt_ok pf td ch base (Suc n) t"
proof (rule stmt_okI)
  fix k s s' u bs cs bt ct m st
  assume c: "sub_stmt (compilers k) t s = COk u s'" and names: "names_ok s st" and mat: "matches pf ch base st m"
  note a = alike_facts [OF assms(1) [OF c]]
  show "stmt_runs pf td ch base s' bt ct (map fst (rs_locals st)) (ref_exec (Suc n) (pf_nan pf) (c_scope_depth (cur s)) t st)
      m (length (code_of s))"
    by (rule run_done [OF assms(2) mat]) (use a names in \<open>simp_all add: names_after_def names_ok_def\<close>)
qed

lemma wrapper_runs:
  assumes "\<And>k s u s'. sub_stmt (compilers k) w s = COk u s' \<Longrightarrow> \<exists>m. sub_stmt (compilers m) t (prep s) = COk u s'"
    "\<And>d st. ref_exec (Suc n) (pf_nan pf) d w st = ref_exec n (pf_nan pf) d t st" "\<And>d nl. stmt_regs d nl w = stmt_regs d nl t"
    "stmt_ok pf td ch base n t"
  shows "stmt_ok pf td ch base (Suc n) w"
proof (rule stmt_okI)
  fix k s s' u bs cs bt ct m st
  assume c: "sub_stmt (compilers k) w s = COk u s'" and a: "compiling s" "segment s s' bs cs" "names_ok s st"
    "placed ch (vm_heap m) s s' bs cs bt ct" "stmt_regs (c_scope_depth (cur s)) (length (c_locals (cur s))) w < 256"
    "matches pf ch base st m" "settled (ref_exec (Suc n) (pf_nan pf) (c_scope_depth (cur s)) w st)" "comp_ready s"
  obtain j where j: "sub_stmt (compilers j) t (prep s) = COk u s'" using assms(1) [OF c] by blast
  have p: "placed ch (vm_heap m) (prep s) s' bs cs bt ct" using a(4) by (simp add: placed_def)
  show "stmt_runs pf td ch base s' bt ct (map fst (rs_locals st)) (ref_exec (Suc n) (pf_nan pf) (c_scope_depth (cur s)) w st)
      m (length (code_of s))"
    using stmt_okD [OF assms(4) j _ _ _ p _ a(6) refl _ refl] a assms(2,3) by (simp add: segment_prep)
qed

section \<open>Declarations\<close>

lemma matches_declare:
  assumes "matches pf ch base st m" "stands_for (vm_heap m) (getr base (length (rs_locals st)) m) x"
  shows "matches pf ch base (st\<lparr>rs_locals := rs_locals st @ [(name, x)]\<rparr>) m"
  using assms by (auto simp: matches_def nth_append less_Suc_eq)

lemma local_decl_runs:
  assumes depth: "0 < pf_depth pf" and core: "core_expr e"
    and c: "sub_stmt (compilers k) (S_VarDecl name ty is_const e l) s = COk u s'" and "comp_ready s"
    and names: "names_ok s st" and place: "placed ch (vm_heap m) s s' bs cs bt ct" and seg: "segment s s' bs cs"
    and regs: "expr_regs (length (c_locals (cur s))) e (length (c_locals (cur s))) < 256"
    and mat: "matches pf ch base st m" and d: "0 < c_scope_depth (cur s)"
    and r: "r = rbind (ref_eval (pf_nan pf) e st) (\<lambda>v st. R_Ok Sg_Next (declare_var True name v st))" and set: "settled r"
  shows "stmt_runs pf td ch base s' bt ct (map fst (rs_locals st)) r m (length (code_of s))"
proof -
  obtain j s1 v where j: "sub_expr (compilers j) e (length (c_locals (cur s))) (prep s) = COk () s1"
    and s': "s' = set_cur ((cur s1)\<lparr>c_locals := c_locals (cur s) @ [v]\<rparr>) s1" "l_name v = name"
    using local_decl_inv [OF c core d \<open>comp_ready s\<close>] by blast
  have rp: "comp_ready (prep s)" using \<open>comp_ready s\<close> by simp
  have g: "advances (length (code_of (prep s))) (prep s) s1" by (rule expr_advances [OF core j rp])
  have "segment (prep s) s' [] []" unfolding s'(1) by (rule segment_set_cur [OF advances_segment [OF g]]) simp_all
  then have "bs = []" "cs = []" using segment_unique [OF seg] segment_prep by blast+
  then have "embeds ch (vm_heap m) s s'" using place by (simp add: placed_embeds)
  then have emb: "embeds ch (vm_heap m) (prep s) s1" using s'(1) by (simp add: embeds_def)
  show ?thesis
  proof (rule stmt_expr [OF depth core j rp _ emb _ mat _ r set])
    fix x st1 m1 assume a: "r = R_Ok Sg_Next (declare_var True name x st1)" "matches pf ch base st1 m1"
      "map fst (rs_locals st1) = map fst (rs_locals st)"
      "stands_for (vm_heap m1) (getr base (length (c_locals (cur s))) m1) x" "text_le (vm_heap m) (vm_heap m1)"
    have len: "length (c_locals (cur s)) = length (rs_locals st1)"
      using a(3) names unfolding names_ok_def by (metis length_map)
    have st: "declare_var True name x st1 = st1\<lparr>rs_locals := rs_locals st1 @ [(name, x)]\<rparr>" by (simp add: declare_var_def)
    have "names_after (map fst (rs_locals st)) s' Sg_Next (map fst (rs_locals (declare_var True name x st1)))"
      using a(3) names s' by (simp add: names_after_def names_ok_def st)
    then show "goes pf td (run_post pf ch base (length (code_of s')) bt ct (names_after (map fst (rs_locals st)) s') m r)
        (\<lambda>e. r = R_Err e) (length (code_of s1), m1)"
      using a(4) s'(1) matches_declare [OF a(2)] len by (intro run_done [OF a(1) _ a(5)]) (simp_all add: st)
  qed (use names regs in simp_all)
qed

lemma global_decl_runs:
  assumes depth: "0 < pf_depth pf" and core: "core_expr e"
    and c: "sub_stmt (compilers k) (S_VarDecl name ty is_const e l) s = COk u s'" and "comp_ready s"
    and names: "names_ok s st" and place: "placed ch (vm_heap m) s s' bs cs bt ct" and seg: "segment s s' bs cs"
    and regs: "expr_regs (length (c_locals (cur s))) e (length (c_locals (cur s))) < 256"
    and mat: "matches pf ch base st m" and d: "c_scope_depth (cur s) = 0"
    and r: "r = rbind (ref_eval (pf_nan pf) e st) (\<lambda>v st. R_Ok Sg_Next (declare_var False name v st))" and set: "settled r"
  shows "stmt_runs pf td ch base s' bt ct (map fst (rs_locals st)) r m (length (code_of s))"
proof -
  let ?nl = "length (c_locals (cur s))"
  obtain j s1 i s2 where j: "sub_expr (compilers j) e ?nl (prep s) = COk () s1" and s2: "string_const name s1 = COk i s2"
    and s': "alike (put_code (code_of s2 @ [ins_of DefineGlobal ?nl 0 0 i]) s2) s'"
    using global_decl_inv [OF c core d] by blast
  let ?s3 = "put_code (code_of s2 @ [ins_of DefineGlobal ?nl 0 0 i]) s2"
  have rp: "comp_ready (prep s)" using \<open>comp_ready s\<close> by simp
  have g: "advances (length (code_of (prep s))) (prep s) s1" by (rule expr_advances [OF core j rp])
  note r1 = advances_ready(1) [OF g]
  have sc: "advances (length (code_of s1)) s1 s2" "code_of s2 = code_of s1" using string_const_COk [OF s2 r1] by blast+
  have g3: "advances (length (code_of s1)) s1 ?s3" by (rule advances_put_emit [OF sc(1) order_refl])
  have g': "advances (length (code_of (prep s))) (prep s) ?s3" by (rule advances_step [OF g g3 order_refl])
  have "segment (prep s) s' [] []" by (rule segment_alike [OF advances_segment [OF g'] s'])
  then have "bs = []" "cs = []" using segment_unique [OF seg] segment_prep by blast+
  then have "embeds ch (vm_heap m) s s'" using place by (simp add: placed_embeds)
  then have emb: "embeds ch (vm_heap m) s ?s3" using alike_facts [OF s'] by (simp add: embeds_def)
  have emb1: "embeds ch (vm_heap m) (prep s) s1" by (rule embeds_first [OF _ g3]) (use emb in simp)
  have locals: "c_locals (cur s') = c_locals (cur s)" using alike_facts(6) [OF s'] advances_env(1) [OF g'] by simp
  show ?thesis
  proof (rule stmt_expr [OF depth core j rp _ emb1 _ mat _ r set])
    fix x st1 m1 assume a: "r = R_Ok Sg_Next (declare_var False name x st1)" "matches pf ch base st1 m1"
      "map fst (rs_locals st1) = map fst (rs_locals st)" "stands_for (vm_heap m1) (getr base ?nl m1) x"
      "text_le (vm_heap m) (vm_heap m1)" "?nl < 256"
    have len: "length (code_of s) \<le> length (code_of s1)" using advances_env(6) [OF g] by simp
    have at: "at_code ch (length (code_of s1)) (ins_of DefineGlobal ?nl 0 0 i)"
      using embeds_emitted_first [OF emb, of s1] sc(2) len by simp
    have name: "const_text ch (vm_heap m1) i (utf8_of name)"
      by (rule embeds_named [OF embeds_heap [OF emb a(5)] s2 r1]) simp_all
    have st: "declare_var False name x st1 = st1\<lparr>rs_globals := put_entry (utf8_of name) x (rs_globals st1)\<rparr>"
      by (simp add: declare_var_def)
    have n: "names_after (map fst (rs_locals st)) s' Sg_Next (map fst (rs_locals (declare_var False name x st1)))"
      using a(3) names locals by (simp add: names_after_def names_ok_def st)
    have len': "length (code_of s') = length (code_of s1) + 1" using alike_facts(1) [OF s'] sc(2) by simp
    show "goes pf td (run_post pf ch base (length (code_of s')) bt ct (names_after (map fst (rs_locals st)) s') m r)
        (\<lambda>e. r = R_Err e) (length (code_of s1), m1)"
    proof (rule goes_define_global [OF matches_running [OF a(2)] at a(6) name])
      show "goes pf td (run_post pf ch base (length (code_of s')) bt ct (names_after (map fst (rs_locals st)) s') m r)
          (\<lambda>e. r = R_Err e) (length (code_of s1) + 1,
            m1\<lparr>vm_globals := put_entry (utf8_of name) (getr base ?nl m1) (vm_globals m1)\<rparr>)"
        using matches_global [OF a(2,4)] a(5) len' n by (intro run_done [OF a(1)]) (simp_all add: st)
    qed
  qed (use names regs in simp_all)
qed

lemma decl_runs:
  assumes "0 < pf_depth pf" "core_expr e"
  shows "stmt_ok pf td ch base (Suc n) (S_VarDecl name ty is_const e l)"
proof (rule stmt_okI)
  fix k s s' u bs cs bt ct m st
  assume c: "sub_stmt (compilers k) (S_VarDecl name ty is_const e l) s = COk u s'" and a: "comp_ready s" "names_ok s st"
    "placed ch (vm_heap m) s s' bs cs bt ct" "segment s s' bs cs" "matches pf ch base st m"
    "stmt_regs (c_scope_depth (cur s)) (length (c_locals (cur s))) (S_VarDecl name ty is_const e l) < 256"
    "settled (ref_exec (Suc n) (pf_nan pf) (c_scope_depth (cur s)) (S_VarDecl name ty is_const e l) st)"
  show "stmt_runs pf td ch base s' bt ct (map fst (rs_locals st))
      (ref_exec (Suc n) (pf_nan pf) (c_scope_depth (cur s)) (S_VarDecl name ty is_const e l) st) m (length (code_of s))"
    using local_decl_runs [OF assms c a(1-4) _ a(5)] global_decl_runs [OF assms c a(1-4) _ a(5)] a(6,7)
    by (cases "0 < c_scope_depth (cur s)") simp_all
qed

section \<open>Sequences and blocks\<close>

text \<open>At the end of a sequence the new locals are behind the old ones.\<close>

definition names_within :: "string list \<Rightarrow> signal \<Rightarrow> string list \<Rightarrow> bool" where
  "names_within names sg names' \<longleftrightarrow> take (length names) names' = names"

lemma seq_runs:
  assumes "\<And>t. t \<in> set ts \<Longrightarrow> stmt_ok pf td ch base n t \<and> core_stmt t"
    and "cfor ts (sub_stmt (compilers k)) s = COk u s'" "compiling s" "segment s s' bs cs" "names_ok s st"
    "placed ch (vm_heap m) s s' bs cs bt ct" "stmts_regs (c_scope_depth (cur s)) (length (c_locals (cur s))) ts < 256"
    "matches pf ch base st m" "take (length names) (map fst (rs_locals st)) = names"
    "r = ref_seq (ref_exec n (pf_nan pf) (c_scope_depth (cur s))) ts st" "settled r"
  shows "goes pf td (run_post pf ch base (length (code_of s')) bt ct (names_within names) m r) (\<lambda>e. r = R_Err e)
    (length (code_of s), m)"
  using assms
proof (induction ts arbitrary: s st m bs cs)
  case Nil
  have "s' = s" using Nil.prems(2) by (simp add: cfor_COk)
  then show ?case
    using Nil.prems by (intro run_done [of r Sg_Next st]) (simp_all add: names_within_def)
next
  case (Cons t ts)
  let ?d = "c_scope_depth (cur s)" and ?qn = "pf_nan pf"
  obtain v s1 where s1: "sub_stmt (compilers k) t s = COk v s1" "cfor ts (sub_stmt (compilers k)) s1 = COk u s'"
    using Cons.prems(2) by (auto simp: cfor_COk)
  have t: "stmt_ok pf td ch base n t" "core_stmt t" using Cons.prems(1) by simp_all
  have sh: "shape (new_names ?d t) s s1" by (rule stmt_shape [OF t(2) s1(1) Cons.prems(3)])
  have c1: "compiling s1" by (rule compiling_shape [OF Cons.prems(3) sh])
  have d1: "c_scope_depth (cur s1) = ?d" using sh by (simp add: shape_def)
  have "shape (concat (map (new_names (c_scope_depth (cur s1))) ts)) s1 s'"
    by (rule seq_shape [OF stmt_shape s1(2) c1]) (use Cons.prems(1) in simp_all)
  then obtain bs1 cs1 bs2 cs2 where seg: "segment s s1 bs1 cs1" "segment s1 s' bs2 cs2"
    using sh unfolding shape_def by blast
  have eq: "bs = bs1 @ bs2" "cs = cs1 @ cs2"
    using segment_unique [OF segment_trans [OF seg] Cons.prems(4)] by simp_all
  have r: "r = rbind (ref_exec n ?qn ?d t st) (\<lambda>sg st. if sg = Sg_Next then ref_seq (ref_exec n ?qn ?d) ts st else R_Ok sg st)"
    using Cons.prems(10) by simp
  have set1: "settled (ref_exec n ?qn ?d t st)" using Cons.prems(11) r settled_bind by blast
  have len: "length (code_of s) \<le> length (code_of s1)" using extends_length [OF segment_extends [OF seg(1)]] .
  have "placed ch (vm_heap m) s s1 bs1 cs1 bt ct"
  proof (rule placed_part [OF Cons.prems(6) order_refl pools_intros(3) [OF seg(2)]])
    fix i assume i: "length (code_of s) \<le> i" "i < length (code_of s1)" "i \<notin> set bs1" "i \<notin> set cs1"
    then show "i \<notin> set bs \<and> i \<notin> set cs \<and> code_of s' ! i = code_of s1 ! i"
      using segment_positions [OF seg(2), of i] extends_nth [OF segment_extends [OF seg(2)]] eq by auto
  qed (simp_all add: eq)
  moreover have "stmt_regs ?d (length (c_locals (cur s))) t < 256" using Cons.prems(7) by simp
  ultimately have run: "stmt_runs pf td ch base s1 bt ct (map fst (rs_locals st)) (ref_exec n ?qn ?d t st) m (length (code_of s))"
    using stmt_okD [OF t(1) s1(1) Cons.prems(3) seg(1) Cons.prems(5) _ _ Cons.prems(8) refl set1 refl] by blast
  show ?case
  proof (rule stmt_then [OF run])
    fix sg st1 m1 assume a: "ref_exec n ?qn ?d t st = R_Ok sg st1" "matches pf ch base st1 m1" "text_le (vm_heap m) (vm_heap m1)"
      "names_after (map fst (rs_locals st)) s1 sg (map fst (rs_locals st1))"
    obtain ls where ls: "c_locals (cur s1) = c_locals (cur s) @ ls" "length ls = new_locals ?d t"
      using sh new_names_length unfolding shape_def by (metis length_map)
    have within: "take (length names) (map fst (rs_locals st1)) = names"
    proof (cases "sg = Sg_Next")
      case True
      then have "map fst (rs_locals st1) = map fst (rs_locals st) @ map l_name ls"
        using a(4) Cons.prems(5) ls(1) by (simp add: names_after_def names_ok_def)
      moreover have "length names \<le> length (rs_locals st)" using Cons.prems(9) by (metis length_map length_take min.cobounded1 min_def)
      ultimately show ?thesis using Cons.prems(9) by simp
    next
      case False
      then show ?thesis using a(4) Cons.prems(9) by (simp add: names_after_def)
    qed
    show "goes pf td (run_post pf ch base (length (code_of s')) bt ct (names_within names) m r) (\<lambda>e. r = R_Err e)
        (case sg of Sg_Next \<Rightarrow> length (code_of s1) | Sg_Break \<Rightarrow> bt | Sg_Continue \<Rightarrow> ct, m1)"
    proof (cases "sg = Sg_Next")
      case False
      then show ?thesis
        using r a within by (intro run_done [of r sg st1]) (cases sg; simp add: names_within_def)+
    next
      case True
      have p1: "placed ch (vm_heap m1) s1 s' bs2 cs2 bt ct"
      proof (rule placed_part [OF placed_heap [OF Cons.prems(6) a(3)] len pools_intros(6)])
        fix i assume i: "length (code_of s1) \<le> i" "i < length (code_of s')" "i \<notin> set bs2" "i \<notin> set cs2"
        then show "i \<notin> set bs \<and> i \<notin> set cs \<and> code_of s' ! i = code_of s' ! i"
          using segment_positions [OF seg(1), of i] eq by auto
      qed (simp_all add: eq)
      have n1: "names_ok s1 st1" using a(4) True by (simp add: names_after_def names_ok_def)
      have regs: "stmts_regs (c_scope_depth (cur s1)) (length (c_locals (cur s1))) ts < 256"
        using Cons.prems(7) ls d1 by simp
      have r1: "r = ref_seq (ref_exec n ?qn (c_scope_depth (cur s1))) ts st1" using r a(1) True d1 by simp
      have "goes pf td (run_post pf ch base (length (code_of s')) bt ct (names_within names) m1 r) (\<lambda>e. r = R_Err e)
          (length (code_of s1), m1)"
        by (rule Cons.IH [OF _ s1(2) c1 seg(2) n1 p1 regs a(2) within r1 Cons.prems(11)]) (use Cons.prems(1) in simp)
      then show ?thesis using run_weaken [OF _ a(3)] True by simp
    qed
  next
    fix e assume "ref_exec n ?qn ?d t st = R_Err e"
    then show "r = R_Err e" using r by simp
  qed
qed

lemma matches_take: "matches pf ch base st m \<Longrightarrow> matches pf ch base (st\<lparr>rs_locals := take j (rs_locals st)\<rparr>) m"
  by (auto simp: matches_def)

lemma settled_leave: "settled (leave_scope st r) \<Longrightarrow> settled r"
  unfolding leave_scope_def by (rule settled_bind)

lemma block_runs:
  assumes "list_all core_stmt ts" "\<And>t. t \<in> set ts \<Longrightarrow> stmt_ok pf td ch base n t"
  shows "stmt_ok pf td ch base (Suc n) (S_Block ts)"
proof (rule stmt_okI)
  fix k s s' u bs cs bt ct m st
  assume c: "sub_stmt (compilers k) (S_Block ts) s = COk u s'" and comp: "compiling s" and seg: "segment s s' bs cs"
    and names: "names_ok s st" and place: "placed ch (vm_heap m) s s' bs cs bt ct"
    and regs: "stmt_regs (c_scope_depth (cur s)) (length (c_locals (cur s))) (S_Block ts) < 256"
    and mat: "matches pf ch base st m"
    and set: "settled (ref_exec (Suc n) (pf_nan pf) (c_scope_depth (cur s)) (S_Block ts) st)"
  let ?d = "c_scope_depth (cur s)" and ?names = "map fst (rs_locals st)"
  let ?r = "ref_exec (Suc n) (pf_nan pf) ?d (S_Block ts) st"
  let ?r1 = "ref_seq (ref_exec n (pf_nan pf) (Suc ?d)) ts st"
  obtain j s1 where s1: "cfor ts (sub_stmt (compilers j)) (opened s) = COk () s1" "s' = closed s1"
    using block_inv [OF c] by blast
  have co: "compiling (opened s)" by (rule opened_compiling [OF comp])
  have o: "c_scope_depth (cur (opened s)) = Suc ?d" "c_locals (cur (opened s)) = c_locals (cur s)"
    "code_of (opened s) = code_of s" "c_loop_stack (cur (opened s)) = c_loop_stack (cur s)" by (simp_all add: opened_def)
  have "shape (concat (map (new_names (c_scope_depth (cur (opened s)))) ts)) (opened s) s1"
    by (rule seq_shape [OF stmt_shape s1(1) co]) (use assms(1) in \<open>simp_all add: list_all_iff\<close>)
  then have sh: "shape [] s s'" "\<exists>bs cs. segment (opened s) s1 bs cs"
    unfolding s1(2) using closed_shape [OF _ comp] by (blast, auto simp: shape_def)
  have cl: "code_of s' = code_of s1" "consts_of s' = consts_of s1" "cs_heap s' = cs_heap s1"
    "c_loop_stack (cur s') = c_loop_stack (cur s1)" unfolding s1(2) by (simp_all add: closed_def)
  obtain bs1 cs1 where seg1: "segment (opened s) s1 bs1 cs1" using sh(2) by blast
  have eq: "bs1 = bs" "cs1 = cs"
    using seg seg1 cl(4) o(4) add_jumps_inj [of bs1 cs1 "c_loop_stack (cur s)" bs cs] by (auto simp: segment_def)
  have p1: "placed ch (vm_heap m) (opened s) s1 bs1 cs1 bt ct" using place o(3) cl eq by (simp add: placed_def)
  have r: "?r = leave_scope st ?r1" by simp
  have set1: "settled ?r1" using set unfolding r by (rule settled_leave)
  have run: "goes pf td (run_post pf ch base (length (code_of s1)) bt ct (names_within ?names) m ?r1) (\<lambda>e. ?r1 = R_Err e)
      (length (code_of (opened s)), m)"
    by (rule seq_runs [OF _ s1(1) co seg1 _ p1 _ mat _ _ set1])
      (use assms names regs o in \<open>simp_all add: list_all_iff names_ok_def\<close>)
  show "stmt_runs pf td ch base s' bt ct ?names ?r m (length (code_of s))"
    unfolding o(3) [symmetric]
  proof (rule goes_mono [OF run])
    fix c assume "run_post pf ch base (length (code_of s1)) bt ct (names_within ?names) m ?r1 c"
    then obtain sg st1 where a: "?r1 = R_Ok sg st1" "matches pf ch base st1 (snd c)" "text_le (vm_heap m) (vm_heap (snd c))"
      "fst c = (case sg of Sg_Next \<Rightarrow> length (code_of s1) | Sg_Break \<Rightarrow> bt | Sg_Continue \<Rightarrow> ct)"
      "take (length ?names) (map fst (rs_locals st1)) = ?names" by (auto simp: run_post_def names_within_def)
    let ?st = "st1\<lparr>rs_locals := take (length (rs_locals st)) (rs_locals st1)\<rparr>"
    have "?r = R_Ok sg ?st" using r a(1) by (simp add: leave_scope_def)
    moreover have "names_after ?names s' sg (map fst (rs_locals ?st))"
      using a(5) names sh(1) shape_nil by (auto simp: names_after_def names_ok_def take_map)
    ultimately show "run_post pf ch base (length (code_of s')) bt ct (names_after ?names s') m ?r c"
      using a(3,4) matches_take [OF a(2)] cl(1) unfolding run_post_def by (intro exI [of _ sg] exI [of _ ?st]) (simp split: signal.splits)
  next
    fix e assume "?r1 = R_Err e"
    then show "?r = R_Err e" using r by (simp add: leave_scope_def)
  qed
qed

section \<open>Conditionals\<close>

text \<open>What stands where in a conditional with an else branch.\<close>

lemma else_layout:
  assumes "segment (put_code (code_of s1 @ [ins_of JumpIfFalse nl 0 0 0]) s1) s2 bs1 cs1"
    and "segment (patched (length (code_of s1)) (put_code (code_of s2 @ [ins_of Jump 0 0 0 0]) s2)) s3 bs2 cs2"
    and "s' = patched (length (code_of s2)) s3"
  shows "code_of s' ! length (code_of s1) = ins_of JumpIfFalse nl 0 0 (length (code_of s2) - length (code_of s1))"
    "code_of s' ! length (code_of s2) = ins_of Jump 0 0 0 (length (code_of s3) - 1 - length (code_of s2))"
    "i < length (code_of s2) \<Longrightarrow> i \<noteq> length (code_of s1) \<Longrightarrow> code_of s' ! i = code_of s2 ! i"
    "length (code_of s1) < length (code_of s2)" "length (code_of s2) < length (code_of s3)"
proof -
  let ?x = "length (code_of s1)" and ?y = "length (code_of s2)"
  let ?k = "put_code (code_of s2 @ [ins_of Jump 0 0 0 0]) s2"
  note e1 = segment_extends [OF assms(1)] and e2 = segment_extends [OF assms(2)]
  show x: "?x < ?y" and y: "?y < length (code_of s3)" using extends_length [OF e1] extends_length [OF e2] by simp_all
  have "code_of s2 ! ?x = ins_of JumpIfFalse nl 0 0 0" using extends_nth [OF e1, of ?x] by simp
  then have "code_of (patched ?x ?k) ! ?x = ins_of JumpIfFalse nl 0 0 (length (code_of ?k) - 1 - ?x)"
    using x by (intro patched_simps(5)) (simp_all add: nth_append)
  then show "code_of s' ! ?x = ins_of JumpIfFalse nl 0 0 (?y - ?x)"
    using extends_nth [OF e2, of ?x] x by (simp add: assms(3))
  have "code_of s3 ! ?y = ins_of Jump 0 0 0 0" using extends_nth [OF e2, of ?y] x by simp
  then show "code_of s' ! ?y = ins_of Jump 0 0 0 (length (code_of s3) - 1 - ?y)"
    unfolding assms(3) using y by (intro patched_simps(5)) simp_all
  show "code_of s' ! i = code_of s2 ! i" if "i < ?y" "i \<noteq> ?x"
    using extends_nth [OF e2, of i] that by (simp add: assms(3) nth_append)
qed

text \<open>The test of a conditional or a loop, and the jump behind it.\<close>

lemma test_runs:
  assumes depth: "0 < pf_depth pf" and core: "core_expr c"
    and c: "sub_expr (compilers k) c nl s0 = COk u s1" and r0: "comp_ready s0" and names: "names_ok s0 st"
    and emb: "embeds ch (vm_heap m) s0 s1" and regs: "expr_regs (c_next_reg (cur s0)) c nl < 256"
    and mat: "matches pf ch base st m" and nl: "nl = length (c_locals (cur s0))"
    and r: "r = rbind (ref_eval (pf_nan pf) c st) (\<lambda>x st. if ival_truthy x then f st else g st)" and set: "settled r"
    and p: "p = length (code_of s0)" and at: "at_code ch (length (code_of s1)) (ins_of JumpIfFalse nl 0 0 q)" "q < 4294967296"
    and yes: "\<And>st1 m1. r = f st1 \<Longrightarrow> matches pf ch base st1 m1 \<Longrightarrow> map fst (rs_locals st1) = map fst (rs_locals st) \<Longrightarrow>
      text_le (vm_heap m) (vm_heap m1) \<Longrightarrow> goes pf td Q (\<lambda>e. r = R_Err e) (length (code_of s1) + 1, m1)"
    and no: "\<And>st1 m1. r = g st1 \<Longrightarrow> matches pf ch base st1 m1 \<Longrightarrow> map fst (rs_locals st1) = map fst (rs_locals st) \<Longrightarrow>
      text_le (vm_heap m) (vm_heap m1) \<Longrightarrow> goes pf td Q (\<lambda>e. r = R_Err e) (length (code_of s1) + 1 + q, m1)"
  shows "goes pf td Q (\<lambda>e. r = R_Err e) (p, m)"
proof (rule stmt_expr [OF depth core c r0 names emb regs mat nl r set p])
  fix x st1 m1 assume a: "r = (if ival_truthy x then f st1 else g st1)" "matches pf ch base st1 m1"
    "map fst (rs_locals st1) = map fst (rs_locals st)" "stands_for (vm_heap m1) (getr base nl m1) x"
    "text_le (vm_heap m) (vm_heap m1)" "nl < 256"
  show "goes pf td Q (\<lambda>e. r = R_Err e) (length (code_of s1), m1)"
  proof (rule goes_jump_if_false [OF matches_running [OF a(2)] at(1) a(6) at(2)])
    show "goes pf td Q (\<lambda>e. r = R_Err e)
        (if is_truthy (getr base nl m1) then length (code_of s1) + 1 else length (code_of s1) + 1 + q, m1)"
      using a yes [OF _ a(2,3,5)] no [OF _ a(2,3,5)] stands_truthy [OF a(4)] by (cases "ival_truthy x") simp_all
  qed
qed

lemma core_body_shape:
  assumes "sub_stmt (compilers n) t s = COk u s'" "core_stmt t" "\<not> declares t" "compiling s"
  obtains bs cs where "segment s s' bs cs" "c_locals (cur s') = c_locals (cur s)"
    "c_scope_depth (cur s') = c_scope_depth (cur s)" "compiling s'"
  using stmt_shape [OF assms(2,1,4)] compiling_shape [OF assms(4)] assms(3) new_names_none
  by (auto simp: shape_def)

lemma if_runs:
  assumes depth: "0 < pf_depth pf" and core: "core_stmt (S_If c a None)" and ok: "stmt_ok pf td ch base n a"
  shows "stmt_ok pf td ch base (Suc n) (S_If c a None)"
proof (rule stmt_okI)
  fix k s s' u bs cs bt ct m st
  assume comp: "sub_stmt (compilers k) (S_If c a None) s = COk u s'" and cs: "compiling s" and seg: "segment s s' bs cs"
    and names: "names_ok s st" and place: "placed ch (vm_heap m) s s' bs cs bt ct"
    and regs: "stmt_regs (c_scope_depth (cur s)) (length (c_locals (cur s))) (S_If c a None) < 256"
    and mat: "matches pf ch base st m" and rs: "comp_ready s"
    and set: "settled (ref_exec (Suc n) (pf_nan pf) (c_scope_depth (cur s)) (S_If c a None) st)"
  let ?d = "c_scope_depth (cur s)" and ?nl = "length (c_locals (cur s))" and ?names = "map fst (rs_locals st)"
  let ?r = "ref_exec (Suc n) (pf_nan pf) ?d (S_If c a None) st"
  obtain j s1 s2 where s1: "sub_expr (compilers j) c ?nl (prep s) = COk () s1"
    and s2: "sub_stmt (compilers j) a (put_code (code_of s1 @ [ins_of JumpIfFalse ?nl 0 0 0]) s1) = COk () s2"
    and s': "s' = patched (length (code_of s1)) s2" using if_inv [OF comp] by fastforce
  let ?x = "length (code_of s1)" and ?j = "put_code (code_of s1 @ [ins_of JumpIfFalse ?nl 0 0 0]) s1"
  have cores: "core_expr c" "core_stmt a" "\<not> declares a" using core by simp_all
  have cp: "compiling (prep s)" "comp_ready (prep s)" using cs rs by simp_all
  have g1: "advances (length (code_of (prep s))) (prep s) s1" by (rule expr_advances [OF cores(1) s1 cp(2)])
  have cj: "compiling ?j" by (rule compiling_code [OF compiling_advances [OF cp(1) g1]])
  obtain bs1 cs1 where a: "segment ?j s2 bs1 cs1" "c_locals (cur s2) = c_locals (cur ?j)"
    by (rule core_body_shape [OF s2 cores(2,3) cj])
  have len: "length (code_of s) \<le> ?x" "?x < length (code_of s2)"
    using advances_env(6) [OF g1] extends_length [OF segment_extends [OF a(1)]] by simp_all
  have pos: "?x \<notin> set bs1" "?x \<notin> set cs1" using segment_positions [OF a(1), of ?x] by auto
  have sj: "segment (prep s) ?j [] []" by (rule segment_emit [OF advances_segment [OF g1]])
  have "segment (prep s) s2 bs1 cs1" using segment_trans [OF sj a(1)] by simp
  then have "segment (prep s) s' bs1 cs1" unfolding s' by (rule segment_patched) (use len pos in simp_all)
  then have eq: "bs = bs1" "cs = cs1" using segment_unique [OF seg] segment_prep by blast+
  have test: "code_of s' ! ?x = ins_of JumpIfFalse ?nl 0 0 (length (code_of s2) - 1 - ?x)"
    unfolding s' using len(2) extends_nth [OF segment_extends [OF a(1)], of ?x] by (intro patched_simps(5)) simp_all
  have pl: "pools s2 s'" "pools s1 s'" unfolding s'
    using pools_trans [OF pools_trans [OF pools_intros(4) pools_intros(3) [OF a(1)]] pools_intros(5)] pools_intros(5) by blast+
  have pe: "placed ch (vm_heap m) (prep s) s1 [] [] bt ct"
  proof (rule placed_part [OF place _ pl(2)])
    fix i assume i: "length (code_of (prep s)) \<le> i" "i < ?x"
    then show "i \<notin> set bs \<and> i \<notin> set cs \<and> code_of s' ! i = code_of s1 ! i"
      using segment_positions [OF a(1), of i] extends_nth [OF segment_extends [OF a(1)], of i] eq by (auto simp: s' nth_append)
  qed simp_all
  have pa: "placed ch h ?j s2 bs1 cs1 bt ct" if "text_le (vm_heap m) h" for h
  proof (rule placed_part [OF placed_heap [OF place that] _ pl(1)])
    fix i assume "length (code_of ?j) \<le> i" "i < length (code_of s2)" "i \<notin> set bs1" "i \<notin> set cs1"
    then show "i \<notin> set bs \<and> i \<notin> set cs \<and> code_of s' ! i = code_of s2 ! i" using eq by (simp add: s')
  qed (use len eq in simp_all)
  have bound: "length (code_of s') < 4294967296" using place by (simp add: placed_def)
  let ?Q = "run_post pf ch base (length (code_of s')) bt ct (names_after ?names s') m ?r"
  have r: "?r = rbind (ref_eval (pf_nan pf) c st)
      (\<lambda>x st. if ival_truthy x then ref_exec n (pf_nan pf) ?d a st else R_Ok Sg_Next st)" by (simp cong: if_cong)
  have regs1: "expr_regs (c_next_reg (cur (prep s))) c ?nl < 256" using regs by simp
  have at: "at_code ch ?x (ins_of JumpIfFalse ?nl 0 0 (length (code_of s2) - 1 - ?x))"
    using placed_at [OF place len(1) _ _ _ test] len(2) pos eq by (simp add: s')
  have locals: "c_locals (cur s') = c_locals (cur s)" using a(2) advances_env(1) [OF g1] by (simp add: s' del: cur_put)
  have env: "c_locals (cur ?j) = c_locals (cur s)" "c_scope_depth (cur ?j) = ?d" using advances_env [OF g1] by (simp_all del: cur_put)
  have after: "names_after ?names s2 = names_after ?names s'" "length (code_of s2) = length (code_of s')"
    using s' by (simp_all add: names_after_def fun_eq_iff)
  show "stmt_runs pf td ch base s' bt ct ?names ?r m (length (code_of s))"
  proof (rule test_runs [OF depth cores(1) s1 cp(2) _ _ regs1 mat _ r set _ at])
    show "embeds ch (vm_heap m) (prep s) s1" using pe by (simp only: placed_embeds)
    show "length (code_of s2) - 1 - ?x < 4294967296" using bound by (simp add: s')
    fix st1 m1 assume b: "?r = R_Ok Sg_Next st1" "matches pf ch base st1 m1" "map fst (rs_locals st1) = ?names"
      "text_le (vm_heap m) (vm_heap m1)"
    have "?x + 1 + (length (code_of s2) - 1 - ?x) = length (code_of s')" using len by (simp add: s')
    then show "goes pf td ?Q (\<lambda>e. ?r = R_Err e) (?x + 1 + (length (code_of s2) - 1 - ?x), m1)"
      using b names locals by (intro run_done [OF b(1,2,4)]) (simp_all add: names_after_def names_ok_def del: ref_exec.simps)
  next
    fix st1 m1 assume b: "?r = ref_exec n (pf_nan pf) ?d a st1" "matches pf ch base st1 m1" "map fst (rs_locals st1) = ?names"
      "text_le (vm_heap m) (vm_heap m1)"
    have "stmt_runs pf td ch base s2 bt ct ?names ?r m1 (length (code_of ?j))"
      using names b(1,3) env regs
      by (intro stmt_okD [OF ok s2 cj a(1) _ pa [OF b(4)] _ b(2) _ set]) (simp_all add: names_ok_def del: cur_put ref_exec.simps)
    then have "goes pf td ?Q (\<lambda>e. ?r = R_Err e) (length (code_of ?j), m1)"
      unfolding after by (rule run_weaken [OF _ b(4)])
    then show "goes pf td ?Q (\<lambda>e. ?r = R_Err e) (?x + 1, m1)" by simp
  qed (use names in simp_all)
qed

lemma else_runs:
  assumes depth: "0 < pf_depth pf" and core: "core_stmt (S_If c a (Some b))"
    and ok: "stmt_ok pf td ch base n a" "stmt_ok pf td ch base n b"
  shows "stmt_ok pf td ch base (Suc n) (S_If c a (Some b))"
proof (rule stmt_okI)
  fix k s s' u bs cs bt ct m st
  assume comp: "sub_stmt (compilers k) (S_If c a (Some b)) s = COk u s'" and cs: "compiling s" and seg: "segment s s' bs cs"
    and names: "names_ok s st" and place: "placed ch (vm_heap m) s s' bs cs bt ct"
    and regs: "stmt_regs (c_scope_depth (cur s)) (length (c_locals (cur s))) (S_If c a (Some b)) < 256"
    and mat: "matches pf ch base st m" and rs: "comp_ready s"
    and set: "settled (ref_exec (Suc n) (pf_nan pf) (c_scope_depth (cur s)) (S_If c a (Some b)) st)"
  let ?d = "c_scope_depth (cur s)" and ?nl = "length (c_locals (cur s))" and ?names = "map fst (rs_locals st)"
  let ?r = "ref_exec (Suc n) (pf_nan pf) ?d (S_If c a (Some b)) st"
  obtain j s1 s2 s3 where s1: "sub_expr (compilers j) c ?nl (prep s) = COk () s1"
    and s2: "sub_stmt (compilers j) a (put_code (code_of s1 @ [ins_of JumpIfFalse ?nl 0 0 0]) s1) = COk () s2"
    and s3: "sub_stmt (compilers j) b
           (patched (length (code_of s1)) (put_code (code_of s2 @ [ins_of Jump 0 0 0 0]) s2)) = COk () s3"
    and s': "s' = patched (length (code_of s2)) s3" using if_inv [OF comp] by fastforce
  let ?x = "length (code_of s1)" and ?y = "length (code_of s2)" and ?z = "length (code_of s3)"
  let ?j = "put_code (code_of s1 @ [ins_of JumpIfFalse ?nl 0 0 0]) s1"
  let ?k = "put_code (code_of s2 @ [ins_of Jump 0 0 0 0]) s2"
  let ?i = "patched ?x ?k"
  have cores: "core_expr c" "core_stmt a" "\<not> declares a" "core_stmt b" "\<not> declares b" using core by simp_all
  have cp: "compiling (prep s)" "comp_ready (prep s)" using cs rs by simp_all
  have g1: "advances (length (code_of (prep s))) (prep s) s1" by (rule expr_advances [OF cores(1) s1 cp(2)])
  have cj: "compiling ?j" by (rule compiling_code [OF compiling_advances [OF cp(1) g1]])
  obtain bs1 cs1 where a: "segment ?j s2 bs1 cs1" "c_locals (cur s2) = c_locals (cur ?j)"
    "c_scope_depth (cur s2) = c_scope_depth (cur ?j)" "compiling s2"
    by (rule core_body_shape [OF s2 cores(2,3) cj])
  have ci: "compiling ?i" by (rule compiling_patched [OF compiling_code [OF a(4)]])
  obtain bs2 cs2 where b: "segment ?i s3 bs2 cs2" "c_locals (cur s3) = c_locals (cur ?i)"
    by (rule core_body_shape [OF s3 cores(4,5) ci])
  note lay = else_layout [OF a(1) b(1) s']
  have len: "length (code_of s) \<le> ?x" using advances_env(6) [OF g1] by simp
  note pos1 = segment_positions [OF a(1)] and pos2 = segment_positions [OF b(1)]
  have sj: "segment (prep s) ?j [] []" by (rule segment_emit [OF advances_segment [OF g1]])
  have "segment (prep s) ?i bs1 cs1"
    using segment_patched [OF segment_emit [OF segment_trans [OF sj a(1)]], of ?x] len pos1 [of ?x] by auto
  then have s3': "segment (prep s) s3 (bs1 @ bs2) (cs1 @ cs2)" by (rule segment_trans [OF _ b(1)])
  have "segment (prep s) s' (bs1 @ bs2) (cs1 @ cs2)"
    unfolding s' using len lay(4) pos1 [of ?y] pos2 [of ?y] by (intro segment_patched [OF s3']) auto
  then have eq: "bs = bs1 @ bs2" "cs = cs1 @ cs2" using segment_unique [OF seg] segment_prep by blast+
  have at_x: "?x \<notin> set bs" "?x \<notin> set cs" using pos1 [of ?x] pos2 [of ?x] lay(4) eq by auto
  have at_y: "?y \<notin> set bs" "?y \<notin> set cs" using pos1 [of ?y] pos2 [of ?y] eq by auto
  have p3: "pools s3 s'" unfolding s' by (rule pools_intros(5))
  have p2: "pools s2 s'" by (rule pools_trans [OF pools_trans [OF pools_trans [OF pools_intros(4) pools_intros(5)] pools_intros(3) [OF b(1)]] p3])
  have p1: "pools s1 s'" by (rule pools_trans [OF pools_trans [OF pools_intros(4) pools_intros(3) [OF a(1)]] p2])
  have pe: "placed ch (vm_heap m) (prep s) s1 [] [] bt ct"
  proof (rule placed_part [OF place _ p1])
    fix i assume i: "length (code_of (prep s)) \<le> i" "i < ?x"
    then show "i \<notin> set bs \<and> i \<notin> set cs \<and> code_of s' ! i = code_of s1 ! i"
      using pos1 [of i] pos2 [of i] extends_nth [OF segment_extends [OF a(1)], of i] lay(3,4) eq by (auto simp: nth_append)
  qed simp_all
  have pa: "placed ch h ?j s2 bs1 cs1 bt ct" if "text_le (vm_heap m) h" for h
  proof (rule placed_part [OF placed_heap [OF place that] _ p2])
    fix i assume "length (code_of ?j) \<le> i" "i < ?y" "i \<notin> set bs1" "i \<notin> set cs1"
    then show "i \<notin> set bs \<and> i \<notin> set cs \<and> code_of s' ! i = code_of s2 ! i" using eq pos2 [of i] lay(3) by auto
  qed (use len eq in simp_all)
  have pb: "placed ch h ?i s3 bs2 cs2 bt ct" if "text_le (vm_heap m) h" for h
  proof (rule placed_part [OF placed_heap [OF place that] _ p3])
    fix i assume i: "length (code_of ?i) \<le> i" "i < ?z" "i \<notin> set bs2" "i \<notin> set cs2"
    then show "i \<notin> set bs \<and> i \<notin> set cs \<and> code_of s' ! i = code_of s3 ! i" using eq pos1 [of i] by (auto simp: s')
  qed (use len lay(4) eq in simp_all)
  have bound: "length (code_of s') < 4294967296" "length (code_of s') = ?z" using place by (simp_all add: placed_def s')
  let ?Q = "run_post pf ch base (length (code_of s')) bt ct (names_after ?names s') m ?r"
  have r: "?r = rbind (ref_eval (pf_nan pf) c st)
      (\<lambda>x st. if ival_truthy x then ref_exec n (pf_nan pf) ?d a st else ref_exec n (pf_nan pf) ?d b st)"
    by (simp cong: if_cong)
  have regs1: "expr_regs (c_next_reg (cur (prep s))) c ?nl < 256" using regs by simp
  have at: "at_code ch ?x (ins_of JumpIfFalse ?nl 0 0 (?y - ?x))"
    using placed_at [OF place len _ at_x lay(1)] bound(2) lay(4,5) by simp
  have jump: "at_code ch ?y (ins_of Jump 0 0 0 (?z - 1 - ?y))"
    using placed_at [OF place _ _ at_y lay(2)] bound(2) len lay(4,5) by simp
  have env: "c_locals (cur ?j) = c_locals (cur s)" "c_scope_depth (cur ?j) = ?d" using advances_env [OF g1] by (simp_all del: cur_put)
  have env': "c_locals (cur ?i) = c_locals (cur s)" "c_scope_depth (cur ?i) = ?d" using a(2,3) env by (simp_all del: cur_put)
  have locals: "c_locals (cur s') = c_locals (cur s)" "c_locals (cur s2) = c_locals (cur s)" "c_locals (cur s3) = c_locals (cur s)"
    using b(2) a(2) env env' by (simp_all add: s' del: cur_put)
  have after: "names_after ?names s2 = names_after ?names s'" "names_after ?names s3 = names_after ?names s'"
    using locals by (simp_all add: names_after_def fun_eq_iff)
  show "stmt_runs pf td ch base s' bt ct ?names ?r m (length (code_of s))"
  proof (rule test_runs [OF depth cores(1) s1 cp(2) _ _ regs1 mat _ r set _ at])
    show "embeds ch (vm_heap m) (prep s) s1" using pe by (simp only: placed_embeds)
    show "?y - ?x < 4294967296" using bound lay(5) by simp
    fix st1 m1 assume e: "?r = ref_exec n (pf_nan pf) ?d a st1" "matches pf ch base st1 m1" "map fst (rs_locals st1) = ?names"
      "text_le (vm_heap m) (vm_heap m1)"
    have run: "stmt_runs pf td ch base s2 bt ct ?names ?r m1 (length (code_of ?j))"
      using names e(1,3) env regs
      by (intro stmt_okD [OF ok(1) s2 cj a(1) _ pa [OF e(4)] _ e(2) _ set]) (simp_all add: names_ok_def del: cur_put ref_exec.simps)
    have "goes pf td ?Q (\<lambda>e. ?r = R_Err e) (length (code_of ?j), m1)"
    proof (rule stmt_then [OF run])
      fix sg st2 m2 assume f: "?r = R_Ok sg st2" "matches pf ch base st2 m2" "text_le (vm_heap m1) (vm_heap m2)"
        "names_after ?names s2 sg (map fst (rs_locals st2))"
      have t: "text_le (vm_heap m) (vm_heap m2)" by (rule text_le_trans [OF e(4) f(3)])
      have n: "names_after ?names s' sg (map fst (rs_locals st2))" using f(4) after by simp
      show "goes pf td ?Q (\<lambda>e. ?r = R_Err e)
          (case sg of Sg_Next \<Rightarrow> length (code_of s2) | Sg_Break \<Rightarrow> bt | Sg_Continue \<Rightarrow> ct, m2)"
      proof (cases sg)
        case Sg_Next
        have "?y + 1 + (?z - 1 - ?y) = length (code_of s')" using bound(2) lay(5) by simp
        then have "goes pf td ?Q (\<lambda>e. ?r = R_Err e) (?y + 1 + (?z - 1 - ?y), m2)"
          using Sg_Next by (intro run_done [where P = "names_after ?names s'", OF f(1,2) t _ n]) simp
        then show ?thesis
          using Sg_Next bound by (simp del: ref_exec.simps) (rule goes_jump [OF matches_running [OF f(2)] jump], simp_all del: ref_exec.simps)
      qed (use f n t in \<open>simp_all add: run_done del: ref_exec.simps\<close>)
    qed simp
    then show "goes pf td ?Q (\<lambda>e. ?r = R_Err e) (?x + 1, m1)" by simp
  next
    fix st1 m1 assume e: "?r = ref_exec n (pf_nan pf) ?d b st1" "matches pf ch base st1 m1" "map fst (rs_locals st1) = ?names"
      "text_le (vm_heap m) (vm_heap m1)"
    have "stmt_runs pf td ch base s3 bt ct ?names ?r m1 (length (code_of ?i))"
      using names e(1,3) env' regs
      by (intro stmt_okD [OF ok(2) s3 ci b(1) _ pb [OF e(4)] _ e(2) _ set]) (simp_all add: names_ok_def del: cur_put ref_exec.simps)
    then have "goes pf td ?Q (\<lambda>e. ?r = R_Err e) (length (code_of ?i), m1)"
      unfolding after(2) bound(2) by (rule run_weaken [OF _ e(4)])
    moreover have "length (code_of ?i) = ?x + 1 + (?y - ?x)" using lay(4) by simp
    ultimately show "goes pf td ?Q (\<lambda>e. ?r = R_Err e) (?x + 1 + (?y - ?x), m1)" by (simp only:)
  qed (use names in simp_all)
qed

section \<open>Loops\<close>

lemma goes_back:
  assumes "matches pf ch base st m" "at_code ch pc (ins_of Loop 0 0 0 (pc - p + 1))" "p \<le> pc" "pc < 4294967295"
    and "\<And>m1. matches pf ch base st m1 \<Longrightarrow> text_le (vm_heap m) (vm_heap m1) \<Longrightarrow> goes pf td Q E (p, m1)"
  shows "goes pf td Q E (pc, m)"
proof (rule goes_loop [OF matches_running [OF assms(1)] assms(2)])
  show "pc - p + 1 < 4294967296" "pc - p + 1 \<le> pc + 1" using assms(3,4) by simp_all
  show "vm_ready pf (vm_heap m)" "\<not> interrupted m" using assms(1) by (simp_all add: matches_def)
  fix h assume h: "running ch base (m\<lparr>vm_heap := h\<rparr>)" "vm_ready pf h" "text_le (vm_heap m) h"
  have "goes pf td Q E (p, m\<lparr>vm_heap := h\<rparr>)"
    by (rule assms(5) [OF matches_heap [OF assms(1) h]]) (use h in simp)
  moreover have "pc + 1 - (pc - p + 1) = p" using assms(3) by simp
  ultimately show "goes pf td Q E (pc + 1 - (pc - p + 1), m\<lparr>vm_heap := h\<rparr>)" by (simp only:)
qed

lemma while_runs:
  assumes depth: "0 < pf_depth pf" and core: "core_stmt (S_While c body)"
    and ok: "stmt_ok pf td ch base n body" and again: "stmt_ok pf td ch base n (S_While c body)"
  shows "stmt_ok pf td ch base (Suc n) (S_While c body)"
proof (rule stmt_okI)
  fix k s s' u bs0 cs0 bt ct m st
  assume comp: "sub_stmt (compilers k) (S_While c body) s = COk u s'" and cs: "compiling s" and seg: "segment s s' bs0 cs0"
    and names: "names_ok s st" and place: "placed ch (vm_heap m) s s' bs0 cs0 bt ct"
    and regs: "stmt_regs (c_scope_depth (cur s)) (length (c_locals (cur s))) (S_While c body) < 256"
    and mat: "matches pf ch base st m" and rs: "comp_ready s"
    and set: "settled (ref_exec (Suc n) (pf_nan pf) (c_scope_depth (cur s)) (S_While c body) st)"
  let ?d = "c_scope_depth (cur s)" and ?nl = "length (c_locals (cur s))" and ?names = "map fst (rs_locals st)"
  let ?r = "ref_exec (Suc n) (pf_nan pf) ?d (S_While c body) st"
  from while_inv [OF comp] obtain j s1 s2 l ls s4 s5 where s1: "sub_expr (compilers j) c ?nl (looped s) = COk () s1"
    and s2: "sub_stmt (compilers j) body (put_code (code_of s1 @ [ins_of JumpIfFalse ?nl 0 0 0]) s1) = COk () s2"
    and w: "c_loop_stack (cur s2) = l # ls"
    "patch_all (continue_jumps l) (length (code_of s2)) (set_cur ((cur s2)\<lparr>c_loop_stack := ls\<rparr>) s2) = COk () s4"
    "alike s4 s5"
    "patch_all (break_jumps l) (length (code_of s4) + 1)
      (patched (length (code_of s1)) (put_code (code_of s4 @ [ins_of Loop 0 0 0 (length (code_of s4) - length (code_of s) + 1)]) s5))
      = COk () s'" by blast
  let ?x = "length (code_of s1)" and ?y = "length (code_of s2)"
  let ?j = "put_code (code_of s1 @ [ins_of JumpIfFalse ?nl 0 0 0]) s1"
  have cores: "core_expr c" "core_stmt body" "\<not> declares body" using core by simp_all
  have cl: "compiling (looped s)" "comp_ready (looped s)" using looped_compiling [OF cs] rs by simp_all
  have g1: "advances (length (code_of (looped s))) (looped s) s1" by (rule expr_advances [OF cores(1) s1 cl(2)])
  have cj: "compiling ?j" by (rule compiling_code [OF compiling_advances [OF cl(1) g1]])
  obtain bs cs where a: "segment ?j s2 bs cs" "c_locals (cur s2) = c_locals (cur ?j)"
    by (rule core_body_shape [OF s2 cores(2,3) cj])
  have g1': "advances (length (code_of s)) (looped s) s1" using g1 by simp
  note out = while_layout [OF rs g1' a(1) w]
  have lay: "length (code_of s') = ?y + 1" "code_of s' ! ?x = ins_of JumpIfFalse ?nl 0 0 (length (code_of s') - 1 - ?x)"
    "code_of s' ! ?y = ins_of Loop 0 0 0 (?y - length (code_of s) + 1)"
    "\<forall>j \<in> set bs. j < length (code_of s') \<and> code_of s' ! j = ins_of Jump 0 0 0 (length (code_of s') - 1 - j)"
    "\<forall>j \<in> set cs. j < ?y \<and> code_of s' ! j = ins_of Jump 0 0 0 (?y - 1 - j)"
    "\<And>i. i < ?y \<Longrightarrow> i \<noteq> ?x \<Longrightarrow> i \<notin> set bs \<Longrightarrow> i \<notin> set cs \<Longrightarrow> code_of s' ! i = code_of s2 ! i"
    using out(6) unfolding loop_layout_def by blast+
  have eq: "bs0 = []" "cs0 = []" using segment_unique [OF out(1) seg] by simp_all
  have emb: "embeds ch h s s'" if "text_le (vm_heap m) h" for h
    using placed_heap [OF place that] unfolding eq placed_embeds .
  note pos = segment_positions [OF a(1)]
  have len: "length (code_of s) \<le> ?x" "?x < ?y"
    using advances_env(6) [OF g1] extends_length [OF segment_extends [OF a(1)]] by simp_all
  have bound: "length (code_of s') < 4294967296" "length (code_of s') \<le> length (code ch)"
    using place by (simp_all add: placed_def)
  have pools2: "pools s2 s'" unfolding pools_def using lay(1) out(4,5) by simp
  have e1: "embeds ch (vm_heap m) (looped s) s1"
  proof -
    have "placed ch (vm_heap m) (looped s) s1 [] [] 0 0"
    proof (rule placed_part [of _ _ s s' "[]" "[]"])
      show "placed ch (vm_heap m) s s' [] [] 0 0" unfolding placed_embeds by (rule emb [OF text_le_refl])
      show "pools s1 s'" by (rule pools_trans [OF pools_trans [OF pools_intros(4) pools_intros(3) [OF a(1)]] pools2])
      fix i assume "i < ?x"
      then show "i \<notin> set [] \<and> i \<notin> set [] \<and> code_of s' ! i = code_of s1 ! i"
        using lay(6) [of i] len pos [of i] extends_nth [OF segment_extends [OF a(1)], of i] by (auto simp: nth_append)
    qed simp_all
    then show ?thesis by (simp only: placed_embeds)
  qed
  have pb: "placed ch h ?j s2 bs cs (length (code_of s')) ?y" if t: "text_le (vm_heap m) h" for h
    unfolding placed_def
  proof (intro conjI allI impI ballI)
    have vs: "\<exists>vs. constants ch = consts_of s' @ vs" "text_le (cs_heap s') h" "length (code ch) < 4294967296"
      "length (constants ch) < 4294967296" using emb [OF t] by (simp_all add: embeds_def)
    then show "\<exists>vs. constants ch = consts_of s2 @ vs" "text_le (cs_heap s2) h" "length (code ch) < 4294967296"
      "length (constants ch) < 4294967296" by (simp_all add: out(4,5))
    show "length (code_of s2) \<le> length (code ch)" "length (code_of s') \<le> length (code ch)" "?y \<le> length (code ch)"
      using bound lay(1) by simp_all
    show "at_code ch i (code_of s2 ! i)" if "length (code_of ?j) \<le> i" "i < ?y" "i \<notin> set bs" "i \<notin> set cs" for i
      using embeds_at [OF emb [OF t], of i] lay(1) lay(6) [of i] len that by simp
    show "at_code ch i (ins_of Jump 0 0 0 (length (code_of s') - 1 - i))" "i < length (code_of s')" if "i \<in> set bs" for i
      using embeds_at [OF emb [OF t], of i] lay(4) pos [of i] len that by auto
    show "at_code ch i (ins_of Jump 0 0 0 (?y - 1 - i))" "i < ?y" if "i \<in> set cs" for i
      using embeds_at [OF emb [OF t], of i] lay(1,5) pos [of i] len that by auto
  qed
  let ?Q = "run_post pf ch base (length (code_of s')) bt ct (names_after ?names s') m ?r"
  let ?f = "\<lambda>st. rbind (ref_exec n (pf_nan pf) ?d body st) (\<lambda>sg st.
      if sg = Sg_Break then R_Ok Sg_Next st else ref_exec n (pf_nan pf) ?d (S_While c body) st)"
  have r: "?r = rbind (ref_eval (pf_nan pf) c st) (\<lambda>x st. if ival_truthy x then ?f st else R_Ok Sg_Next st)" by simp
  have regs1: "expr_regs (c_next_reg (cur (looped s))) c ?nl < 256" using regs by simp
  have at: "at_code ch ?x (ins_of JumpIfFalse ?nl 0 0 (length (code_of s') - 1 - ?x))"
    using embeds_at [OF emb [OF text_le_refl] len(1) _ lay(2)] lay(1) len(2) by simp
  have loops: "at_code ch ?y (ins_of Loop 0 0 0 (?y - length (code_of s) + 1))"
    using embeds_at [OF emb [OF text_le_refl] _ _ lay(3)] lay(1) len by simp
  have env: "c_locals (cur ?j) = c_locals (cur s)" "c_scope_depth (cur ?j) = ?d" using advances_env [OF g1] by (simp_all del: cur_put)
  have locals: "c_locals (cur s') = c_locals (cur s)" "c_locals (cur s2) = c_locals (cur s)" using out(2) a(2) env by simp_all
  show "stmt_runs pf td ch base s' bt ct ?names ?r m (length (code_of s))"
  proof (rule test_runs [OF depth cores(1) s1 cl(2) _ e1 regs1 mat _ r set _ at])
    show "length (code_of s') - 1 - ?x < 4294967296" using bound by simp
    fix st1 m1 assume b: "?r = R_Ok Sg_Next st1" "matches pf ch base st1 m1" "map fst (rs_locals st1) = ?names"
      "text_le (vm_heap m) (vm_heap m1)"
    have "?x + 1 + (length (code_of s') - 1 - ?x) = length (code_of s')" using len lay(1) by simp
    then show "goes pf td ?Q (\<lambda>e. ?r = R_Err e) (?x + 1 + (length (code_of s') - 1 - ?x), m1)"
      using b names locals by (intro run_done [OF b(1,2,4)]) (simp_all add: names_after_def names_ok_def del: ref_exec.simps)
  next
    fix st1 m1 assume b: "?r = ?f st1" "matches pf ch base st1 m1" "map fst (rs_locals st1) = ?names"
      "text_le (vm_heap m) (vm_heap m1)"
    let ?r1 = "ref_exec n (pf_nan pf) ?d body st1"
    have set1: "settled ?r1" using set unfolding b(1) by (rule settled_bind)
    have run: "stmt_runs pf td ch base s2 (length (code_of s')) ?y ?names ?r1 m1 (length (code_of ?j))"
      using names b(3) env regs
      by (intro stmt_okD [OF ok s2 cj a(1) _ pb [OF b(4)] _ b(2) _ set1]) (simp_all add: names_ok_def del: cur_put)
    have "goes pf td ?Q (\<lambda>e. ?r = R_Err e) (length (code_of ?j), m1)"
    proof (rule stmt_then [OF run])
      fix sg st2 m2 assume f: "?r1 = R_Ok sg st2" "matches pf ch base st2 m2" "text_le (vm_heap m1) (vm_heap m2)"
        "names_after ?names s2 sg (map fst (rs_locals st2))"
      have t: "text_le (vm_heap m) (vm_heap m2)" by (rule text_le_trans [OF b(4) f(3)])
      have n: "map fst (rs_locals st2) = ?names" using f(4) names locals(2) by (auto simp: names_after_def names_ok_def)
      show "goes pf td ?Q (\<lambda>e. ?r = R_Err e)
          (case sg of Sg_Next \<Rightarrow> length (code_of s2) | Sg_Break \<Rightarrow> length (code_of s') | Sg_Continue \<Rightarrow> ?y, m2)"
      proof (cases "sg = Sg_Break")
        case True
        then have "?r = R_Ok Sg_Next st2" using b(1) f(1) by (simp del: ref_exec.simps)
        then show ?thesis
          using True f(2) t n names locals
          by (intro run_done [of _ Sg_Next st2]) (simp_all add: names_after_def names_ok_def del: ref_exec.simps)
      next
        case False
        then have r2: "?r = ref_exec n (pf_nan pf) ?d (S_While c body) st2" using b(1) f(1) by (simp del: ref_exec.simps)
        have "goes pf td ?Q (\<lambda>e. ?r = R_Err e) (?y, m2)"
        proof (rule goes_back [OF f(2) loops])
          show "length (code_of s) \<le> ?y" "?y < 4294967295" using len bound lay(1) by simp_all
          fix m3 assume m3: "matches pf ch base st2 m3" "text_le (vm_heap m2) (vm_heap m3)"
          have t3: "text_le (vm_heap m) (vm_heap m3)" by (rule text_le_trans [OF t m3(2)])
          have "stmt_runs pf td ch base s' bt ct ?names ?r m3 (length (code_of s))"
            using names n regs
            by (intro stmt_okD [OF again comp cs seg _ placed_heap [OF place t3] _ m3(1) r2 set])
              (simp_all add: names_ok_def del: ref_exec.simps)
          then show "goes pf td ?Q (\<lambda>e. ?r = R_Err e) (length (code_of s), m3)" by (rule run_weaken [OF _ t3])
        qed
        then show ?thesis using False by (cases sg) simp_all
      qed
    next
      fix e assume "?r1 = R_Err e"
      then show "?r = R_Err e" using b(1) by (simp del: ref_exec.simps)
    qed
    then show "goes pf td ?Q (\<lambda>e. ?r = R_Err e) (?x + 1, m1)" by simp
  qed (use names in simp_all)
qed

section \<open>All statements\<close>

theorem stmt_correct:
  assumes depth: "0 < pf_depth pf"
  shows "core_stmt t \<Longrightarrow> stmt_ok pf td ch base n t"
proof (induction n arbitrary: t)
  case 0
  show ?case by (rule stmt_okI) simp
next
  case (Suc n)
  show ?case
  proof (cases t)
    case (S_Block ts)
    then show ?thesis using Suc by (auto simp: list_all_iff intro: block_runs)
  next
    case (S_If c a b)
    then show ?thesis using Suc by (cases b) (auto intro: if_runs [OF depth] else_runs [OF depth])
  next
    case (S_While c body)
    then show ?thesis using Suc by (auto intro: while_runs [OF depth])
  next
    case (S_Export inner)
    then show ?thesis using Suc by (auto intro!: wrapper_runs [where t = inner] dest: wrapper_inv(1))
  next
    case (S_Sync inner)
    then show ?thesis using Suc by (auto intro!: wrapper_runs [where t = inner] dest: wrapper_inv(2))
  next
    case (S_Interface x fs ms l)
    then show ?thesis by (auto intro!: skip_runs dest: type_decl_inv(1))
  next
    case (S_TypeAlias x ps ty l)
    then show ?thesis by (auto intro!: skip_runs dest: type_decl_inv(2))
  qed (use Suc.prems expr_stmt_runs [OF depth] decl_runs [OF depth] jump_runs in auto)
qed

end
