(* ===== verification/Sem_Program.thy ===== *)
theory Sem_Program
  imports Sem_Exec
begin

text \<open>
  Whole programs: compiled and run on the machine, a core program does what the reference semantics says.
\<close>

section \<open>The compiled program\<close>

lemma lift_flatten_COk: "lift_flatten raws s = COk t s' \<Longrightarrow> s' = s"
  by (auto simp: lift_flatten_def cfuel_def split: option.splits sum.splits)

lemma compile_core_inv:
  assumes "compile n prog (fresh_state h osz chunk_at qn) = COk f s" "heap_ready osz chunk_at h"
  shows "\<exists>s0 s1. cfor prog (sub_stmt (compilers n)) s0 = COk () s1 \<and> compiling s0 \<and> code_of s0 = [] \<and>
    c_locals (cur s0) = [] \<and> c_scope_depth (cur s0) = 0 \<and> c_loop_stack (cur s0) = [] \<and> cs_cell s0 = osz \<and>
    cs_chunk_at s0 = chunk_at \<and> code (fn_chunk f) = code_of s1 @ [ins_of LoadNull 0 0 0 0, ins_of Return 0 0 0 0] \<and>
    constants (fn_chunk f) = consts_of s1 \<and> cs_heap s = cs_heap s1"
proof -
  let ?z = "fresh_state h osz chunk_at qn"
  define fe where "fe = infer_effects prog"
  let ?a = "?z\<lparr>cs_effects := fe\<rparr>"
  let ?b = "set_cur ((cur ?a)\<lparr>c_function := (c_function (cur ?a))
      \<lparr>is_pure := (program_rung prog fe = Pure), can_suspend := (program_rung prog fe = Suspends)\<rparr>\<rparr>) ?a"
  from assms(1) obtain structs s1 where run: "cfor prog (sub_stmt (compilers n))
      (set_cur ((cur ?b)\<lparr>c_structs := structs, c_interfaces := collect_interfaces prog (c_interfaces (cur ?b))\<rparr>) ?b) = COk () s1"
    and f: "f = c_function (cur s)"
    "s = put_code (code_of s1 @ [ins_of LoadNull 0 0 0 0, ins_of Return 0 0 0 0]) s1"
    by (auto simp: compile_def Let_def fe_def compile_inv cmodify_def emit_eq dest!: lift_flatten_COk)
  let ?s0 = "set_cur ((cur ?b)\<lparr>c_structs := structs, c_interfaces := collect_interfaces prog (c_interfaces (cur ?b))\<rparr>) ?b"
  have "comp_ready ?s0"
    using assms(2) by (simp add: comp_ready_def lone_def fresh_state_def set_cur_def)
  then have "compiling ?s0" "code_of ?s0 = []" "c_locals (cur ?s0) = []" "c_scope_depth (cur ?s0) = 0"
    "c_loop_stack (cur ?s0) = []" "cs_cell ?s0 = osz" "cs_chunk_at ?s0 = chunk_at"
    by (simp_all add: compiling_def)
      (simp_all add: fresh_state_def compiler_new_def cur_def set_cur_def code_of_def the_chunk_def function_default_def
        chunk_default_def)
  moreover have "code (fn_chunk f) = code_of s1 @ [ins_of LoadNull 0 0 0 0, ins_of Return 0 0 0 0]"
    "constants (fn_chunk f) = consts_of s1" "cs_heap s = cs_heap s1"
    using f by (simp_all add: the_chunk_def [symmetric] del: cur_put)
  ultimately show ?thesis using run by blast
qed

lemma compile_ready:
  assumes "compile n prog (fresh_state h osz chunk_at qn) = COk f s" "heap_ready osz chunk_at h" "list_all core_stmt prog"
  shows "heap_ready osz chunk_at (cs_heap s)"
proof -
  obtain s0 s1 where s: "cfor prog (sub_stmt (compilers n)) s0 = COk () s1" "compiling s0" "cs_cell s0 = osz"
    "cs_chunk_at s0 = chunk_at" "cs_heap s = cs_heap s1" using compile_core_inv [OF assms(1,2)] by blast
  have sh: "shape (concat (map (new_names (c_scope_depth (cur s0))) prog)) s0 s1"
    by (rule seq_shape [OF stmt_shape s(1,2)]) (use assms(3) in \<open>simp_all add: list_all_iff\<close>)
  then have "comp_ready s1" using compiling_shape [OF s(2)] by (simp add: compiling_def)
  moreover have "cs_cell s1 = osz" "cs_chunk_at s1 = chunk_at"
    using sh s(3,4) by (auto simp: shape_def segment_def extends_def)
  ultimately show ?thesis using s(5) by (simp add: comp_ready_def)
qed

section \<open>Starting and ending\<close>

lemma step_return:
  assumes "running ch base m" "at_code ch pc (ins_of Return 0 0 0 0)"
  shows "vm_step pf bm 0 pc m = VOk (Finished (getr base 0 m)) (m\<lparr>vm_frames := []\<rparr>)"
proof -
  obtain fr where "vm_frames m = [fr]" "vm_open_upvalues m = []" using assms(1) by (auto simp: running_def)
  then show ?thesis
    using vm_step_at [OF assms] slot_running(1) [OF assms(1), of 0]
    by (simp add: plain_step reg_def return_value_def close_upvalues_def)
qed

text \<open>The two last instructions return null.\<close>

lemma run_epilogue:
  assumes "running ch base m" "at_code ch pc (ins_of LoadNull 0 0 0 0)" "at_code ch (pc + 1) (ins_of Return 0 0 0 0)"
  shows "run_loop (Suc (Suc n)) pf 0 pc m = VOk val_null ((setr base 0 val_null m)\<lparr>vm_frames := []\<rparr>)"
proof -
  let ?m = "setr base 0 val_null m"
  have "vm_step pf bm 0 pc m = VOk (Next (pc + 1)) ?m" for bm
    using assms(1,2) slot_running(2) [OF assms(1), of 0] by (simp add: plain_step reg_def)
  moreover have "vm_step pf bm 0 (pc + 1) ?m = VOk (Finished (getr base 0 ?m)) (?m\<lparr>vm_frames := []\<rparr>)" for bm
    using assms(1,3) by (intro step_return) simp_all
  moreover have "getr base 0 ?m = val_null" using assms(1) by (simp add: getr_setr [of ch base])
  ultimately show ?thesis by (simp add: vbind_def)
qed

definition ref_run :: "nat \<Rightarrow> f64 \<Rightarrow> stmt list \<Rightarrow> ref_state \<Rightarrow> signal ref_out" where
  "ref_run k qn prog st = ref_seq (ref_exec k qn 0) prog st"

text \<open>The outcome of the machine is that of the reference semantics, or the allocator gave up.\<close>

definition agrees :: "signal ref_out \<Rightarrow> er_value vres \<Rightarrow> bool" where
  "agrees r v \<longleftrightarrow>
     (case r of
        R_Ok sg st \<Rightarrow> v = VAbort \<or> (\<exists>m. v = VOk val_null m \<and> same_globals (vm_heap m) (vm_globals m) (rs_globals st))
      | R_Err e \<Rightarrow> v = VAbort \<or> (\<exists>m. v = VErr e m)
      | _ \<Rightarrow> True)"

definition small_chunk :: "chunk \<Rightarrow> bool" where
  "small_chunk ch \<longleftrightarrow> length (code ch) < 4294967296 \<and> length (constants ch) < 4294967296"

lemma program_runs:
  assumes "list_all core_stmt prog" "stmts_regs 0 0 prog < 256" "heap_ready (pf_cell pf) (pf_chunk_at pf) h"
    and "compile n prog (fresh_state h (pf_cell pf) (pf_chunk_at pf) qn) = COk f s" "small_chunk (fn_chunk f)"
    and "running (fn_chunk f) base m" "vm_ready pf (vm_heap m)" "\<not> interrupted m" "0 < pf_depth pf"
    and "text_le (cs_heap s) (vm_heap m)" "same_globals (vm_heap m) (vm_globals m) (rs_globals st)" "rs_locals st = []"
  shows "\<exists>k. \<forall>j. agrees (ref_run i (pf_nan pf) prog st) (run_loop (k + j) pf 0 0 m)"
proof (cases "settled (ref_run i (pf_nan pf) prog st)")
  case False
  then show ?thesis by (auto simp: settled_def agrees_def)
next
  case set: True
  let ?ch = "fn_chunk f" and ?r = "ref_run i (pf_nan pf) prog st"
  obtain s0 s1 where run: "cfor prog (sub_stmt (compilers n)) s0 = COk () s1" and c0: "compiling s0" "code_of s0 = []"
    "c_locals (cur s0) = []" "c_scope_depth (cur s0) = 0" "c_loop_stack (cur s0) = []"
    and code: "code ?ch = code_of s1 @ [ins_of LoadNull 0 0 0 0, ins_of Return 0 0 0 0]"
    "constants ?ch = consts_of s1" "cs_heap s = cs_heap s1" using compile_core_inv [OF assms(4,3)] by blast
  have core: "\<And>t. t \<in> set prog \<Longrightarrow> core_stmt t" using assms(1) by (simp add: list_all_iff)
  have "shape (concat (map (new_names (c_scope_depth (cur s0))) prog)) s0 s1"
    by (rule seq_shape [OF stmt_shape run c0(1)]) (use core in simp_all)
  then obtain bs cs where seg: "segment s0 s1 bs cs" unfolding shape_def by blast
  then have jumps: "bs = []" "cs = []" using c0(5) by (simp_all add: segment_def)
  let ?e = "length (code_of s1)"
  have place: "placed ?ch (vm_heap m) s0 s1 bs cs ?e ?e"
    using code assms(5,10) jumps by (auto simp: placed_def small_chunk_def at_code_def nth_append)
  have mat: "matches pf ?ch base st m" using assms(6-8,11,12) by (simp add: matches_def)
  have go: "goes pf 0 (run_post pf ?ch base ?e ?e ?e (names_within []) m ?r) (\<lambda>e. ?r = R_Err e) (length (code_of s0), m)"
    by (rule seq_runs [OF _ run c0(1) seg _ place _ mat _ _ set])
      (use core stmt_correct [OF assms(9)] c0 assms(2,12) in \<open>simp_all add: names_ok_def ref_run_def\<close>)
  let ?Q = "run_post pf ?ch base ?e ?e ?e (names_within []) m ?r"
  obtain k where "lands pf 0 ?Q (\<lambda>e. ?r = R_Err e) k (0, m)" using goes_run_loop [OF go] c0(2) by auto
  then consider c where "?Q c" "\<And>j. run_loop (k + j) pf 0 0 m = run_loop j pf 0 (fst c) (snd c)"
    | e m' where "?r = R_Err e" "\<And>j. run_loop (k + j) pf 0 0 m = VErr e m'"
    | "\<And>j. run_loop (k + j) pf 0 0 m = VAbort"
    unfolding lands_def by auto
  then show ?thesis
  proof cases
    case 1
    then obtain sg st1 where sg: "?r = R_Ok sg st1" "matches pf ?ch base st1 (snd c)"
      "fst c = (case sg of Sg_Next \<Rightarrow> ?e | Sg_Break \<Rightarrow> ?e | Sg_Continue \<Rightarrow> ?e)" unfolding run_post_def by blast
    then have a: "?r = R_Ok sg st1" "matches pf ?ch base st1 (snd c)" "fst c = ?e" by (auto split: signal.splits)
    let ?m = "(setr base 0 val_null (snd c))\<lparr>vm_frames := []\<rparr>"
    have "at_code ?ch ?e (ins_of LoadNull 0 0 0 0)" "at_code ?ch (?e + 1) (ins_of Return 0 0 0 0)"
      by (simp_all add: at_code_def code nth_append)
    note ep = run_epilogue [OF matches_running [OF a(2)] this]
    have "run_loop (k + 2 + j) pf 0 0 m = VOk val_null ?m" for j
    proof -
      have "run_loop (k + (Suc (Suc j))) pf 0 0 m = VOk val_null ?m" using 1(2) [of "Suc (Suc j)"] ep [of j] a(3) by simp
      then show ?thesis by simp
    qed
    moreover have "same_globals (vm_heap ?m) (vm_globals ?m) (rs_globals st1)" using a(2) by (simp add: matches_def)
    ultimately have "agrees ?r (run_loop (k + 2 + j) pf 0 0 m)" for j unfolding agrees_def a(1) by simp
    then show ?thesis by blast
  next
    case (2 e m')
    then have "agrees ?r (run_loop (k + j) pf 0 0 m)" for j by (simp add: agrees_def)
    then show ?thesis by blast
  next
    case 3
    then have "agrees ?r (run_loop (k + j) pf 0 0 m)" for j by (simp add: agrees_def split: ref_out.splits)
    then show ?thesis by blast
  qed
qed

section \<open>The machine and the program\<close>

text \<open>A machine between two runs.\<close>

definition idle :: "vm \<Rightarrow> bool" where
  "idle m \<longleftrightarrow> vm_frames m = [] \<and> vm_open_upvalues m = [] \<and> \<not> interrupted m"

lemma same_globals_heap_le: "heap_le h h' \<Longrightarrow> same_globals h g r \<Longrightarrow> same_globals h' g r"
  by (rule same_globals_mono [OF heap_le_text])

text \<open>C1: Compiled core programs do what the language says. For every program of the core (literals,
  variables, assignments, unary, binary and logical operators, conditional expressions, increments,
  declarations, blocks, conditionals, loops with break and continue): when the compiler accepts it and its code fits
  in a chunk and its temporaries in the registers, running it on an idle machine ends, after finitely many
  instructions, and with the outcome of the reference semantics: the globals stand for the values the
  reference semantics computes, or the run stops with exactly the reference's error; the only other
  outcome is that the allocator gives up. Nothing is claimed where the reference semantics runs for ever,
  or where a number leaves the range of tagged numbers.\<close>

theorem core_program_correct:
  assumes "list_all core_stmt prog" "stmts_regs 0 0 prog < 256" "heap_ready (pf_cell pf) (pf_chunk_at pf) h"
    and "compile n prog (fresh_state h (pf_cell pf) (pf_chunk_at pf) qn) = COk f s" "small_chunk (fn_chunk f)"
    and "0 < pf_depth pf" "idle m" "vm_heap m = cs_heap s" "same_globals (vm_heap m) (vm_globals m) globals"
  shows "\<exists>k. \<forall>j \<ge> k. agrees (ref_run i (pf_nan pf) prog \<lparr>rs_locals = [], rs_globals = globals\<rparr>) (vm_run j pf f m)"
proof -
  have ready: "vm_ready pf (vm_heap m)" using compile_ready [OF assms(4,3,1)] assms(8) by simp
  let ?alloc = "gc_allocate (pf_cell pf) (pf_chunk_at pf (length (chunks (vm_heap m)))) (D_Function f) (vm_heap m)"
  let ?r = "ref_run i (pf_nan pf) prog \<lparr>rs_locals = [], rs_globals = globals\<rparr>"
  show ?thesis
  proof (cases ?alloc)
    case None
    then have "vm_run j pf f m = VAbort" for j by (simp add: vm_run_def vbind_def vm_alloc_def)
    then show ?thesis by (simp add: agrees_def split: ref_out.splits)
  next
    case (Some a)
    then obtain p h' where a: "?alloc = Some (p, h')" by (cases a) auto
    note al = allocate_ready [OF ready a] allocate_text_le [OF ready a]
    let ?len = "length (vm_stack m)"
    let ?m = "m\<lparr>vm_heap := h', vm_frames := [\<lparr>frame_function = p, ip = 0, slots_offset = ?len, frame_dest_reg = 0\<rparr>],
        vm_stack := vm_stack m @ replicate 256 val_null\<rparr>"
    have run: "running (fn_chunk f) ?len ?m" using al(1) assms(7) by (auto simp: running_def idle_def)
    have vm: "vm_run j pf f m = (case run_loop j pf 0 0 ?m of
        VOk v m' \<Rightarrow> VOk v (m'\<lparr>vm_stack := take ?len (vm_stack m')\<rparr>)
      | VErr e m' \<Rightarrow> VErr e (m'\<lparr>vm_stack := take ?len (vm_stack m')\<rparr>)
      | r \<Rightarrow> r)" for j
      using a assms(7)
      by (simp add: vm_run_def vbind_def vm_alloc_def run_function_ptr_def push_frame_def grow_stack_def idle_def)
    have "same_globals (vm_heap ?m) (vm_globals ?m) (rs_globals \<lparr>rs_locals = [], rs_globals = globals\<rparr>)"
      using same_globals_mono [OF al(3) assms(9)] by simp
    moreover have "\<not> interrupted ?m" using assms(7) by (simp add: idle_def interrupted_def)
    ultimately obtain k where k: "\<And>j. agrees ?r (run_loop (k + j) pf 0 0 ?m)"
      using program_runs [OF assms(1-5) run _ _ assms(6)] al(1,3) assms(8) by fastforce
    have "agrees ?r (vm_run j pf f m)" if "k \<le> j" for j
    proof -
      have "agrees ?r (run_loop j pf 0 0 ?m)" using k [of "j - k"] that by simp
      then show ?thesis unfolding vm by (auto simp: agrees_def split: ref_out.splits vres.splits)
    qed
    then show ?thesis by blast
  qed
qed

section \<open>A program\<close>

text \<open>The system gives one chunk, then refuses; nothing native, nothing registered.\<close>

definition demo_chunks :: "nat \<Rightarrow> u64" where
  "demo_chunks i = (if i = 0 then 8192 else 0)"

definition demo_platform :: platform where
  "demo_platform =
     \<lparr>pf_cell = 40, pf_chunk_at = demo_chunks, pf_nan = 0x7ff8000000000000, pf_ord_fields = id, pf_ord_entries = id,
      pf_ord_structs = id, pf_depth = 1, pf_roots = [], pf_native = \<lambda>p vs. vreturn val_null,
      pf_host_method = \<lambda>v vs. vreturn val_null, pf_upper = id, pf_lower = id,
      pf_time = id, pf_posted = \<lambda>_. [], pf_json = \<lambda>_. None, pf_wording = \<lambda>_. []\<rparr>"

definition demo_machine :: "gc_state \<Rightarrow> vm" where
  "demo_machine h =
     \<lparr>vm_frames = [], vm_stack = [], vm_globals = [], vm_open_upvalues = [], vm_thrown = val_null,
      vm_registry = shape_registry_new,
      vm_scheduler = \<lparr>current_fiber_id = 0, fibers = [], ready_queue = [], waiting_fibers = [], next_fiber_id = 1\<rparr>,
      vm_events = event_loop_new, vm_temp_slices = [], vm_root_vectors = [], vm_heap = h,
      vm_shapes = \<lparr>fast_2key = None, fast_1key = None, shape_cache = [], transition_cache = [], next_descriptor_id = 1\<rparr>\<rparr>"

text \<open>\<^verbatim>\<open>let greeting = "hello "; let go = true;
  while (go) { let name = "world!"; greeting = greeting + name; go = false; }\<close>\<close>

definition demo_program :: "stmt list" where
  "demo_program =
     [S_VarDecl ''greeting'' None False (E_Literal (L_String ''hello '')) default_loc,
      S_VarDecl ''go'' None False (E_Literal (L_Boolean True)) default_loc,
      S_While (E_Variable ''go'' default_loc) (S_Block
        [S_VarDecl ''name'' None False (E_Literal (L_String ''world!'')) default_loc,
         S_Expr (E_Assign ''greeting'' (E_Binary (E_Variable ''greeting'' default_loc) T_Plus
           (E_Variable ''name'' default_loc)) default_loc),
         S_Expr (E_Assign ''go'' (E_Literal (L_Boolean False)) default_loc)])]"

lemma chunk_cells_below:
  "unat p + n * unat osz < 18446744073709551616 \<Longrightarrow> c \<in> set (chunk_cells osz p n) \<Longrightarrow> unat c \<le> unat p + n * unat osz"
proof (induction n arbitrary: p)
  case (Suc n)
  have "unat (p + osz) = unat p + unat osz" using Suc.prems by (simp add: unat_word_ariths)
  then show ?case using Suc.prems Suc.IH [of "p + osz"] by auto
qed simp

lemma small_taggable: "unat c < 281474976710656 \<Longrightarrow> taggable c"
proof -
  assume "unat c < 281474976710656"
  then have "nat (uint c) < 281474976710656" by (simp only: unat_eq_nat_uint)
  then have "uint c < int 281474976710656" by (simp only: nat_less_iff [OF uint_ge_0])
  then have "uint c < 2 ^ 48" unfolding of_nat_numeral by simp
  then have "c AND mask 48 = c" unfolding mask_eq_iff .
  moreover have "PTR_MASK = mask 48" unfolding PTR_MASK_def by (simp add: mask_eq_exp_minus_1)
  ultimately show ?thesis unfolding taggable_def by (simp only:)
qed

lemma demo_ready: "heap_ready 40 demo_chunks gc_init"
proof -
  have av: "avail_cells 40 demo_chunks 1 gc_init = chunk_cells 40 8192 256"
    by (simp add: avail_cells_def gc_init_def demo_chunks_def CHUNK_COUNT_def)
  have d: "distinct (chunk_cells 40 8192 256)" using chunk_cells_above [of 8192 256 40] by simp
  have "spare_cell gc_init c" if "c \<in> set (chunk_cells 40 8192 256)" for c
    using chunk_cells_below [of 8192 256 40 c] that small_taggable [of c]
    by (simp add: spare_cell_def cell_data_def deref_def gc_init_def)
  then show ?thesis
    unfolding heap_ready_def using av d
    by (intro conjI exI [of _ 1]) (auto simp: gc_init_def demo_chunks_def list_all_iff)
qed

lemma demo_compiles:
  "case compile 6 demo_program (fresh_state gc_init 40 demo_chunks 0) of
     COk f s \<Rightarrow> length (code (fn_chunk f)) < 50 \<and> length (constants (fn_chunk f)) < 50 | _ \<Rightarrow> False"
  by code_simp

lemma demo_result:
  "ref_run 4 0x7ff8000000000000 demo_program \<lparr>rs_locals = [], rs_globals = []\<rparr> =
     R_Ok Sg_Next \<lparr>rs_locals = [], rs_globals =
       [(utf8_of ''greeting'', I_Text (utf8_of ''hello world!'')), (utf8_of ''go'', I_Bool False)]\<rparr>"
  by code_simp

theorem core_program_correct_witness:
  "\<exists>f s k. compile 6 demo_program (fresh_state gc_init 40 demo_chunks 0) = COk f s \<and>
     (\<forall>j \<ge> k. vm_run j demo_platform f (demo_machine (cs_heap s)) = VAbort \<or>
       (\<exists>m. vm_run j demo_platform f (demo_machine (cs_heap s)) = VOk val_null m \<and>
          same_globals (vm_heap m) (vm_globals m)
            [(utf8_of ''greeting'', I_Text (utf8_of ''hello world!'')), (utf8_of ''go'', I_Bool False)]))"
proof -
  obtain f s where f: "compile 6 demo_program (fresh_state gc_init 40 demo_chunks 0) = COk f s" "small_chunk (fn_chunk f)"
    using demo_compiles
    by (cases "compile 6 demo_program (fresh_state gc_init 40 demo_chunks 0)") (auto simp: small_chunk_def)
  have pf: "pf_cell demo_platform = 40" "pf_chunk_at demo_platform = demo_chunks" "pf_nan demo_platform = 0x7ff8000000000000"
    "0 < pf_depth demo_platform" by (simp_all add: demo_platform_def)
  have "list_all core_stmt demo_program" "stmts_regs 0 0 demo_program < 256"
    by (simp_all add: demo_program_def new_locals_def)
  moreover have "idle (demo_machine (cs_heap s))" "vm_heap (demo_machine (cs_heap s)) = cs_heap s"
    "same_globals (vm_heap (demo_machine (cs_heap s))) (vm_globals (demo_machine (cs_heap s))) []"
    by (simp_all add: demo_machine_def idle_def interrupted_def same_globals_def)
  ultimately obtain k where "\<forall>j \<ge> k. agrees (ref_run 4 0x7ff8000000000000 demo_program \<lparr>rs_locals = [], rs_globals = []\<rparr>)
      (vm_run j demo_platform f (demo_machine (cs_heap s)))"
    using core_program_correct [of demo_program demo_platform gc_init 6 0 f s "demo_machine (cs_heap s)" "[]" 4]
      demo_ready f pf by auto
  then show ?thesis using f(1) by (intro exI [of _ f] exI [of _ s] exI [of _ k]) (simp add: demo_result agrees_def)
qed

end
