(* ===== verification/Sem_Strings.thy ===== *)
theory Sem_Strings
  imports Sem_Values
begin

text \<open>
  What the methods of strings compute: searching finds the first occurrence, or panics inside a character;
  splitting and joining by the same text gives the text back, in the machine with its heap; replacing all
  occurrences is splitting and joining by another text.
\<close>

section \<open>Texts\<close>

declare split_sub.simps [code] replace_sub.simps [code] pad_loop.simps [code]

lemma find_sub_Some: "find_sub pat s = Some i \<Longrightarrow> starts_with (drop i s) pat \<and> (\<forall>k < i. \<not> starts_with (drop k s) pat)"
proof (induction s arbitrary: i)
  case (Cons c cs)
  show ?case
  proof (cases "starts_with (c # cs) pat")
    case False
    then obtain j where j: "find_sub pat cs = Some j" "i = Suc j" using Cons.prems by auto
    have "\<not> starts_with (drop k (c # cs)) pat" if "k < i" for k
      using Cons.IH [OF j(1)] j(2) that False by (cases k) auto
    then show ?thesis using Cons.IH [OF j(1)] j(2) by simp
  qed (use Cons.prems in auto)
qed (auto split: if_splits)

lemma find_sub_None: "find_sub pat s = None \<Longrightarrow> k \<le> length s \<Longrightarrow> \<not> starts_with (drop k s) pat"
proof (induction s arbitrary: k)
  case (Cons c cs)
  then show ?case by (cases k) (auto split: if_splits)
qed (cases pat, auto)

lemma find_sub_cut: "find_sub pat s = Some i \<Longrightarrow> s = take i s @ pat @ drop (i + length pat) s"
  using find_sub_Some [of pat s i] append_take_drop_id [of i s]
  by (auto simp: starts_with_iff add.commute [of i] drop_drop [symmetric] simp del: append_take_drop_id drop_drop)

lemma split_sub_not_Nil: "split_sub pat s \<noteq> []"
  by (subst split_sub.simps) (simp split: option.split)

lemma join_text_Cons: "ts \<noteq> [] \<Longrightarrow> join_text sep (t # ts) = t @ sep @ join_text sep ts"
  by (cases ts) (simp_all add: join_text_def)

lemma join_split: "join_text pat (split_sub pat s) = s"
proof (induction pat s rule: split_sub.induct)
  case (1 pat s)
  show ?case
  proof (cases "pat = [] \<or> find_sub pat s = None")
    case True
    then show ?thesis by (subst split_sub.simps) (auto simp: join_text_def)
  next
    case False
    then obtain i where i: "find_sub pat s = Some i" by auto
    have "join_text pat (split_sub pat s) = take i s @ pat @ drop (i + length pat) s"
      using False i 1 [OF _ i] by (subst split_sub.simps) (simp add: join_text_Cons split_sub_not_Nil)
    then show ?thesis using find_sub_cut [OF i] by simp
  qed
qed

lemma replace_sub_joins: "pat \<noteq> [] \<Longrightarrow> replace_sub pat r s = join_text r (split_sub pat s)"
proof (induction pat r s rule: replace_sub.induct)
  case (1 pat r s)
  show ?case
  proof (cases "find_sub pat s")
    case None
    then show ?thesis using 1 by (subst split_sub.simps, subst replace_sub.simps) (simp add: join_text_def)
  next
    case (Some i)
    then show ?thesis using 1
      by (subst split_sub.simps, subst replace_sub.simps) (simp add: join_text_Cons split_sub_not_Nil)
  qed
qed

section \<open>Searching\<close>

text \<open>C35: \<^verbatim>\<open>indexOf\<close> finds the first occurrence at or after the position it is given, in bytes, and \<open>-1\<close> when
  there is none; but where the position lies inside a character of the text, the machine panics.\<close>

theorem index_of_first_or_panic:
  assumes "is_number n"
  shows "let s = str_or_empty (vm_rd m) v; pat = str_or_empty (vm_rd m) a; i = min (usize_of n) (length s);
      r = execute_string_method pf v StringIndexOf [a, n] m in
    if char_boundary s i
    then (\<exists>k. i \<le> k \<and> k + length pat \<le> length s \<and> starts_with (drop k s) pat \<and>
            (\<forall>j. i \<le> j \<longrightarrow> j < k \<longrightarrow> \<not> starts_with (drop j s) pat) \<and> r = VOk (number_value k) m) \<or>
         (\<forall>j. i \<le> j \<longrightarrow> j \<le> length s \<longrightarrow> \<not> starts_with (drop j s) pat) \<and> r = VOk minus_one m
    else r = VAbort"
proof -
  let ?s = "str_or_empty (vm_rd m) v" and ?pat = "str_or_empty (vm_rd m) a"
  let ?i = "min (usize_of n) (length ?s)"
  have r: "execute_string_method pf v StringIndexOf [a, n] m =
      (if char_boundary ?s ?i then VOk (index_value (map_option ((+) ?i) (find_sub ?pat (drop ?i ?s)))) m else VAbort)"
    using assms
    by (simp add: execute_string_method_def text_of_def vbind_def arg_text_def vec_index_def string_index_of_def arg_usize_def
        slice_from_def vabort_def Let_def)
  show ?thesis
  proof (cases "find_sub ?pat (drop ?i ?s)")
    case None
    have "\<not> starts_with (drop j ?s) ?pat" if "?i \<le> j" "j \<le> length ?s" for j
      using find_sub_None [OF None, of "j - ?i"] that by (simp add: diff_le_mono)
    then show ?thesis using r None by (simp add: Let_def index_value_def)
  next
    case (Some k)
    have "\<not> starts_with (drop j ?s) ?pat" if "?i \<le> j" "j < ?i + k" for j
    proof -
      have "drop (j - ?i) (drop ?i ?s) = drop j ?s" using that(1) by simp
      moreover have "j - ?i < k" using that by linarith
      ultimately show ?thesis using find_sub_Some [OF Some] by metis
    qed
    moreover have "starts_with (drop (?i + k) ?s) ?pat" using find_sub_Some [OF Some] by (simp add: add.commute)
    moreover have "?i + k + length ?pat \<le> length ?s" using find_sub_bound [OF Some] by auto
    ultimately show ?thesis
      using r Some by (auto simp: Let_def index_value_def intro!: exI [of _ "?i + k"])
  qed
qed

section \<open>Splitting and joining in the machine\<close>

lemma as_str_heap: "taggable p \<Longrightarrow> as_str (heap_str h) (val_string p) = heap_str h p"
  using val_string_kind [of p] as_gc_ptr_string [of p] by (simp add: as_str_def taggable_def)

lemma string_result_ready:
  assumes "string_result pf t m = VOk v m'" "vm_ready pf (vm_heap m)"
  shows "vm_ready pf (vm_heap m') \<and> text_le (vm_heap m) (vm_heap m') \<and> as_str (vm_rd m') v = Some t"
proof -
  obtain p h where a: "gc_allocate (pf_cell pf) (pf_chunk_at pf (length (chunks (vm_heap m)))) (D_String t) (vm_heap m) = Some (p, h)"
    "v = val_string p" "m' = m\<lparr>vm_heap := h\<rparr>"
    using assms(1) by (auto simp: string_result_def vm_alloc_def vbind_def split: option.splits prod.splits)
  note al = allocate_ready(1) [OF assms(2) a(1)] allocate_text_le [OF assms(2) a(1)]
  then have "heap_str h p = Some t" by (simp add: heap_str_cell)
  then show ?thesis using al a(2,3) by (simp add: vm_rd_def as_str_heap)
qed

lemma strings_ready:
  assumes "vmap (string_result pf) ts m = VOk vs m'" "vm_ready pf (vm_heap m)"
  shows "vm_ready pf (vm_heap m') \<and> text_le (vm_heap m) (vm_heap m') \<and> map (as_str (vm_rd m')) vs = map Some ts"
  using assms
proof (induction ts arbitrary: m vs)
  case (Cons t ts)
  then obtain v m1 ws where a: "string_result pf t m = VOk v m1" "vmap (string_result pf) ts m1 = VOk ws m'" "vs = v # ws"
    by (auto simp: vbind_def split: vres.splits)
  note 1 = string_result_ready [OF a(1) Cons.prems(2)]
  then have 2: "vm_ready pf (vm_heap m') \<and> text_le (vm_heap m1) (vm_heap m') \<and> map (as_str (vm_rd m')) ws = map Some ts"
    using Cons.IH [OF a(2)] by simp
  moreover have "as_str (vm_rd m') v = Some t" using 1 2 as_str_mono unfolding vm_rd_def by blast
  ultimately show ?case using 1 a(3) text_le_trans by auto
qed (simp add: vreturn_def)

lemma strings_outcome: "\<exists>vs m'. vmap (string_result pf) ts m = VOk vs m' \<or> vmap (string_result pf) ts m = VAbort"
proof (induction ts arbitrary: m)
  case (Cons t ts)
  show ?case
  proof (cases "string_result pf t m")
    case (VOk v m1)
    then show ?thesis using Cons [of m1] by (auto simp: vbind_def)
  qed (auto simp: string_result_def vm_alloc_def vbind_def split: option.splits prod.splits)
qed (simp add: vreturn_def)

text \<open>An array cell is made like any other; only a pointer of the sweep is left as it is.\<close>

lemma heap_ready_cong:
  assumes "mem h' = mem h" "string_cache h' = string_cache h" "free_list h' = free_list h"
    "current_chunk_ptr h' = current_chunk_ptr h" "chunk_remaining h' = chunk_remaining h" "chunks h' = chunks h"
  shows "heap_ready osz ck h' = heap_ready osz ck h" and "cell_data h' = cell_data h" and "heap_str h' = heap_str h"
proof -
  show cd: "cell_data h' = cell_data h" by (rule ext) (simp add: cell_data_def deref_def assms)
  show "heap_str h' = heap_str h" by (rule ext) (simp add: heap_str_def deref_def assms)
  have "avail_cells osz ck m h' = avail_cells osz ck m h" for m by (simp add: avail_cells_def assms)
  moreover have "spare_cell h' = spare_cell h" "cached_text h' = cached_text h"
    by (auto simp: spare_cell_def cached_text_def cd fun_eq_iff)
  ultimately show "heap_ready osz ck h' = heap_ready osz ck h" by (simp add: heap_ready_def assms)
qed

lemma bump_fields [simp]:
  "mem (bump_alloc_count h) = mem h" "string_cache (bump_alloc_count h) = string_cache h"
  "free_list (bump_alloc_count h) = free_list h" "current_chunk_ptr (bump_alloc_count h) = current_chunk_ptr h"
  "chunk_remaining (bump_alloc_count h) = chunk_remaining h" "chunks (bump_alloc_count h) = chunks h"
  by (simp_all add: bump_alloc_count_def Let_def)

lemma alloc_array_ready:
  assumes "vm_alloc_array pf vs m = VOk p m'" "vm_ready pf (vm_heap m)"
  shows "vm_ready pf (vm_heap m') \<and> text_le (vm_heap m) (vm_heap m') \<and> taggable p \<and>
    cell_data (vm_heap m') p = Some (D_Array vs)"
proof -
  let ?h = "(vm_heap m)\<lparr>vector_pool := butlast (vector_pool (vm_heap m))\<rparr>"
  obtain h where h: "gc_alloc_array (pf_cell pf) (pf_chunk_at pf (length (chunks (vm_heap m)))) vs (vm_heap m) = Some (p, h)"
    "m' = m\<lparr>vm_heap := h\<rparr>"
    using assms(1) by (auto simp: vm_alloc_array_def split: option.splits prod.splits)
  then obtain h1 ob where h1: "gc_alloc_object (pf_cell pf) (pf_chunk_at pf (length (chunks ?h))) (D_Array vs) ?h = Some (p, h1)"
    "deref p h1 = Some ob" "h = bump_alloc_count ((write_obj p (ob\<lparr>nxt := head h1\<rparr>) h1)\<lparr>head := p\<rparr>)"
    by (auto simp: gc_alloc_array_def Let_def split: bind_splits)
  then obtain h2 where h2: "gc_allocate (pf_cell pf) (pf_chunk_at pf (length (chunks ?h))) (D_Array vs) ?h = Some (p, h2)"
    "mem h = mem h2" "string_cache h = string_cache h2" "free_list h = free_list h2"
    "current_chunk_ptr h = current_chunk_ptr h2" "chunk_remaining h = chunk_remaining h2" "chunks h = chunks h2"
    by (auto simp: gc_allocate_def Let_def)
  have r: "vm_ready pf ?h" using assms(2) by (subst heap_ready_cong(1)) simp_all
  have t: "text_le (vm_heap m) ?h" using heap_ready_cong(3) [of ?h "vm_heap m"] by (simp add: text_le_def)
  note al = allocate_ready(1) [OF r h2(1)] allocate_text_le [OF r h2(1)]
  note c = heap_ready_cong [OF h2(2-7)]
  show ?thesis
    using al t h(2) c text_le_trans [OF t al(2)] by (simp add: text_le_def)
qed

lemma item_texts:
  "map (as_str (vm_rd m)) vs = map Some ts \<Longrightarrow> vmap (item_text pf) vs m = VOk ts m"
proof (induction vs arbitrary: ts)
  case (Cons v vs)
  then obtain t ts' where "ts = t # ts'" "as_str (vm_rd m) v = Some t" "map (as_str (vm_rd m)) vs = map Some ts'"
    by (cases ts) auto
  then show ?case using Cons.IH by (simp add: vbind_def item_text_def)
qed (simp add: vreturn_def)

lemma as_gc_ptr_array: "taggable p \<Longrightarrow> as_gc_ptr (val_array p) = p"
proof -
  assume "taggable p"
  have "(t OR (p AND PTR_MASK)) AND PTR_MASK = (t AND PTR_MASK) OR (p AND PTR_MASK)" for t
    by (rule bit_word_eqI) (auto simp: bit_simps)
  moreover have "TAG_ARRAY AND PTR_MASK = 0" by (simp add: vm_simps)
  ultimately show ?thesis using \<open>taggable p\<close> by (simp add: as_gc_ptr_def val_array_def tagged_def taggable_def)
qed

text \<open>C34: Splitting a text and joining the parts gives the text back. Whatever the separator, if it is not
  empty, \<^verbatim>\<open>s.split(sep).join(sep)\<close> in the machine is a string with the text of \<^verbatim>\<open>s\<close>, unless memory is
  exhausted on the way.\<close>

theorem split_join_roundtrip:
  assumes "vm_ready pf (vm_heap m)" and "as_str (vm_rd m) sep = Some t" "t \<noteq> []"
  shows "case vbind (execute_string_method pf v StringSplit [sep])
        (\<lambda>arr. execute_array_core_method pf call arr ArrayJoin [sep]) m of
      VOk r m' \<Rightarrow> as_str (vm_rd m') r = Some (str_or_empty (vm_rd m) v)
    | VAbort \<Rightarrow> True
    | _ \<Rightarrow> False"
proof -
  let ?s = "str_or_empty (vm_rd m) v"
  have split: "execute_string_method pf v StringSplit [sep] m =
      vbind (vmap (string_result pf) (split_sub t ?s)) (new_array pf) m"
    using assms(2,3)
    by (simp add: execute_string_method_def text_of_def vbind_def string_split_def arg_text_def vec_index_def
        str_or_empty_def split_limit_def Let_def)
  obtain vs m1 where o1: "vmap (string_result pf) (split_sub t ?s) m = VOk vs m1 \<or>
      vmap (string_result pf) (split_sub t ?s) m = VAbort"
    using strings_outcome by blast
  then show ?thesis
  proof
    assume "vmap (string_result pf) (split_sub t ?s) m = VAbort"
    then show ?thesis using split by (simp add: vbind_def)
  next
    assume ok: "vmap (string_result pf) (split_sub t ?s) m = VOk vs m1"
    note r1 = strings_ready [OF ok assms(1)]
    show ?thesis
    proof (cases "vm_alloc_array pf vs m1")
      case (VOk p m2)
      note r2 = alloc_array_ready [OF VOk] r1
      have texts: "map (as_str (vm_rd m2)) vs = map Some (split_sub t ?s)"
        using r1 r2 as_str_mono unfolding vm_rd_def
        by (auto simp: list_eq_iff_nth_eq)
      have sep: "as_str (vm_rd m2) sep = Some t"
        using r1 r2 as_str_mono assms(2) unfolding vm_rd_def by blast
      have arr: "data_at p m2 = VOk (D_Array vs) m2"
        using r1 r2 by (auto simp: data_at_def vbind_def vsome_def cell_data_def)
      have "execute_array_core_method pf call (val_array p) ArrayJoin [sep] m2 = string_result pf ?s m2"
        using sep arr r1 r2 item_texts [OF texts, of pf]
        by (simp add: execute_array_core_method_def array_join_def array_items_def vbind_def vec_index_def
            as_gc_ptr_array string_result_def join_split)
      moreover have "execute_string_method pf v StringSplit [sep] m = VOk (val_array p) m2"
        using split ok VOk by (simp add: vbind_def new_array_def)
      ultimately have "vbind (execute_string_method pf v StringSplit [sep])
          (\<lambda>arr. execute_array_core_method pf call arr ArrayJoin [sep]) m = string_result pf ?s m2"
        by (simp add: vbind_def)
      moreover have "vm_ready pf (vm_heap m2)" using r1 r2 by blast
      ultimately show ?thesis
        using string_result_ready [of pf ?s m2]
        by (cases "string_result pf ?s m2")
          (auto simp: string_result_def vm_alloc_def vbind_def split: option.splits prod.splits)
    qed (use split ok in \<open>auto simp: vbind_def new_array_def vm_alloc_array_def split: option.splits prod.splits\<close>)
  qed
qed

section \<open>Two texts\<close>

definition short_text :: "u8 list \<Rightarrow> er_value" where
  "short_text t = (case inline_string t of Some v \<Rightarrow> v | None \<Rightarrow> val_null)"

definition text_chunks :: "nat \<Rightarrow> u64" where
  "text_chunks i = 0"

definition text_platform :: platform where
  "text_platform =
     \<lparr>pf_cell = 40, pf_chunk_at = text_chunks, pf_nan = 0x7ff8000000000000, pf_ord_fields = id, pf_ord_entries = id,
      pf_ord_structs = id, pf_depth = 1, pf_roots = [], pf_native = \<lambda>p vs. vreturn val_null,
      pf_host_method = \<lambda>v vs. vreturn val_null, pf_upper = id, pf_lower = id, pf_time = id, pf_posted = \<lambda>_. [],
      pf_json = \<lambda>_. None, pf_wording = \<lambda>_. []\<rparr>"

definition text_machine :: vm where
  "text_machine =
     \<lparr>vm_frames = [], vm_stack = [], vm_globals = [], vm_open_upvalues = [], vm_thrown = val_null,
      vm_registry = shape_registry_new,
      vm_scheduler = \<lparr>current_fiber_id = 0, fibers = [], ready_queue = [], waiting_fibers = [], next_fiber_id = 1\<rparr>,
      vm_events = event_loop_new, vm_temp_slices = [], vm_root_vectors = [],
      vm_heap = gc_init\<lparr>free_list := [64, 128, 192, 256]\<rparr>,
      vm_shapes = \<lparr>fast_2key = None, fast_1key = None, shape_cache = [], transition_cache = [], next_descriptor_id = 1\<rparr>\<rparr>"

lemma short_text_reads:
  assumes "utf8_valid t" "length t \<le> 6"
  shows "as_str rd (short_text t) = Some t"
  using inline_string_roundtrip [OF assms, of rd] by (auto simp: short_text_def)

text \<open>The second character of the text has two bytes; its second byte is no place to search from.\<close>

theorem index_of_first_or_panic_witness:
  "execute_string_method text_platform (short_text [104, 195, 169]) StringIndexOf [short_text [104], Value 0x4000000000000000]
     text_machine = VAbort \<and> is_number (Value 0x4000000000000000)"
proof -
  have n: "is_number (Value 0x4000000000000000)" by (simp add: is_number_def vm_simps)
  have "f64_to_u64 0x4000000000000000 = 2"
    by (simp add: f64_to_u64_def f64_to_int_sat_def f64_is_nan_def f64_is_inf_def f64_mag_def f64_inf_mag_def
        f64_signed_def f64_neg_bit_def f64_trunc_mag_def f64_num_def f64_den_def f64_expo_def f64_signif_def
        f64_biased_def f64_frac_def)
  have l: "min 2 (length [104, 195, 169 :: u8]) = 2" by simp
  from \<open>f64_to_u64 0x4000000000000000 = 2\<close> have u: "usize_of (Value 0x4000000000000000) = 2" by (simp add: usize_of_def as_number_def)
  have s: "str_or_empty (vm_rd text_machine) (short_text [104, 195, 169]) = [104, 195, 169]"
    "\<not> char_boundary [104, 195, 169] 2"
    by (simp_all add: str_or_empty_def short_text_reads cont_byte_def char_boundary_def)
  show ?thesis
    using index_of_first_or_panic [OF n, of text_machine "short_text [104, 195, 169]" "short_text [104]" text_platform]
    unfolding Let_def s(1) u l using s(2) n by (simp only: if_False simp_thms)
qed

theorem split_join_roundtrip_witness:
  "case vbind (execute_string_method text_platform (short_text [97, 44, 98]) StringSplit [short_text [44]])
        (\<lambda>arr. execute_array_core_method text_platform (\<lambda>_ _. vfuel) arr ArrayJoin [short_text [44]]) text_machine of
      VOk r m' \<Rightarrow> as_str (vm_rd m') r = Some [97, 44, 98]
    | VAbort \<Rightarrow> True
    | _ \<Rightarrow> False"
proof -
  have "vm_ready text_platform (vm_heap text_machine)"
    unfolding heap_ready_def
    by (intro conjI exI [of _ 0])
      (simp_all add: text_machine_def text_platform_def text_chunks_def gc_init_def avail_cells_def spare_cell_def
        cell_data_def deref_def taggable_def PTR_MASK_def)
  moreover have "as_str (vm_rd text_machine) (short_text [44]) = Some [44]"
    by (simp add: short_text_reads)
  moreover have "str_or_empty (vm_rd text_machine) (short_text [97, 44, 98]) = [97, 44, 98]"
    by (simp add: short_text_reads str_or_empty_def)
  ultimately show ?thesis
    using split_join_roundtrip [of text_platform text_machine "short_text [44]" "[44]" "short_text [97, 44, 98]" "\<lambda>_ _. vfuel"]
    by (simp only: simp_thms list.simps)
qed

end
