(* ===== verification/Vm_Fiber.thy ===== *)
theory Vm_Fiber
  imports Vm_Loop
begin

text \<open>
  Fibers: the scheduler's queue and table of waiters (\<^verbatim>\<open>execute/scheduler.rs\<close>), a fiber's life and the
  natives scripts use (\<^verbatim>\<open>execute/fiber.rs\<close>), and the change of the running fiber (\<^verbatim>\<open>execute/mod.rs\<close>).
  The machine that runs is the active one; \<open>call\<close> calls a function value back.
\<close>

section \<open>The scheduler\<close>

definition get_fiber :: "u64 \<Rightarrow> fiber_scheduler \<Rightarrow> fiber option" where
  "get_fiber i s = map_of (fibers s) i"

text \<open>\<^verbatim>\<open>if let Some(f) = fibers.get_mut(&i) { .. }\<close>\<close>

definition update_fiber :: "u64 \<Rightarrow> (fiber \<Rightarrow> fiber) \<Rightarrow> fiber_scheduler \<Rightarrow> fiber_scheduler" where
  "update_fiber i g s = s\<lparr>fibers := map (\<lambda>(j, f). if j = i then (j, g f) else (j, f)) (fibers s)\<rparr>"

definition push_ready :: "u64 \<Rightarrow> fiber_scheduler \<Rightarrow> fiber_scheduler" where
  "push_ready i s = s\<lparr>ready_queue := ready_queue s @ [i]\<rparr>"

definition on_scheduler :: "(fiber_scheduler \<Rightarrow> fiber_scheduler) \<Rightarrow> unit V" where
  "on_scheduler g = vmodify (\<lambda>m. m\<lparr>vm_scheduler := g (vm_scheduler m)\<rparr>)"

definition pending_promise :: gc_promise where
  "pending_promise = \<lparr>pr_state = Pending, suspended_stack = [], suspended_frames = []\<rparr>"

text \<open>\<^verbatim>\<open>Fiber::new\<close>\<close>

definition fiber_new :: "platform \<Rightarrow> u64 option \<Rightarrow> fiber V" where
  "fiber_new pf parent =
     vbind (vget (\<lambda>m. next_fiber_id (vm_scheduler m))) (\<lambda>i.
     vthen (on_scheduler (\<lambda>s. s\<lparr>next_fiber_id := i + 1\<rparr>))
       (vbind (vm_alloc pf (D_Promise pending_promise)) (\<lambda>p.
        vreturn \<lparr>fb_id = i, fb_parent = parent, fb_status = F_Ready, fb_stack = [], fb_frames = [],
          fb_open_upvalues = [], fb_children = [], fb_completion = p, fb_waiting_on = None, fb_dest_reg = 0,
          fb_result = val_null, fb_error = None, fb_masks = 0, fb_interrupted = False, fb_finalizers = []\<rparr>)))"

definition start_fiber :: "u64 \<Rightarrow> er_value list \<Rightarrow> fiber \<Rightarrow> fiber" where
  "start_fiber fp args f =
     f\<lparr>fb_stack := args @ replicate (256 - length args) val_null,
       fb_frames := [\<lparr>frame_function = fp, ip = 0, slots_offset = 0, frame_dest_reg = 0\<rparr>],
       fb_status := F_Ready\<rparr>"

definition add_child :: "u64 option \<Rightarrow> u64 \<Rightarrow> fiber_scheduler \<Rightarrow> fiber_scheduler" where
  "add_child parent i s =
     (case parent of Some p \<Rightarrow> update_fiber p (\<lambda>f. f\<lparr>fb_children := fb_children f @ [i]\<rparr>) s | None \<Rightarrow> s)"

definition insert_fiber :: "fiber \<Rightarrow> fiber_scheduler \<Rightarrow> fiber_scheduler" where
  "insert_fiber f s = s\<lparr>fibers := put_entry (fb_id f) f (fibers s)\<rparr>"

text \<open>\<^verbatim>\<open>FiberScheduler::new\<close>: the program itself runs in the first fiber.\<close>

definition scheduler_new :: "platform \<Rightarrow> unit V" where
  "scheduler_new pf =
     vthen (on_scheduler (\<lambda>s. \<lparr>current_fiber_id = 0, fibers = [], ready_queue = [], waiting_fibers = [],
         next_fiber_id = next_fiber_id s\<rparr>))
       (vbind (fiber_new pf None) (\<lambda>f. on_scheduler (\<lambda>s. insert_fiber f (s\<lparr>current_fiber_id := fb_id f\<rparr>))))"

definition spawn_fiber :: "platform \<Rightarrow> u64 option \<Rightarrow> u64 \<Rightarrow> er_value list \<Rightarrow> u64 V" where
  "spawn_fiber pf parent fp args =
     vbind (fiber_new pf parent) (\<lambda>f0.
     let f = start_fiber fp args f0 in
     vthen (on_scheduler (insert_fiber f))
       (vthen (on_scheduler (push_ready (fb_id f)))
         (vthen (on_scheduler (add_child parent (fb_id f))) (vreturn (fb_id f)))))"

text \<open>A fiber that waited goes on behind its \<^verbatim>\<open>await\<close> with the value in the register it named.\<close>

definition resume_with :: "er_value \<Rightarrow> fiber \<Rightarrow> fiber" where
  "resume_with v f =
     (let f = f\<lparr>fb_status := F_Ready, fb_waiting_on := None\<rparr> in
      case fb_frames f of
        [] \<Rightarrow> f
      | fr # frs \<Rightarrow>
          f\<lparr>fb_stack := (let k = slots_offset fr + fb_dest_reg f in
              if k < length (fb_stack f) then (fb_stack f)[k := v] else fb_stack f),
            fb_frames := fr\<lparr>ip := ip fr + 1\<rparr> # frs\<rparr>)"

fun wake_fibers :: "er_value \<Rightarrow> u64 list \<Rightarrow> fiber_scheduler \<Rightarrow> u64 list \<times> fiber_scheduler" where
  "wake_fibers v [] s = ([], s)"
| "wake_fibers v (i # ids) s =
     (case get_fiber i s of
        Some f \<Rightarrow>
          if fb_status f = F_Suspended then
            (case wake_fibers v ids (push_ready i (update_fiber i (resume_with v) s)) of (woken, s') \<Rightarrow> (i # woken, s'))
          else wake_fibers v ids s
      | None \<Rightarrow> wake_fibers v ids s)"

definition wake_promise :: "u64 \<Rightarrow> er_value \<Rightarrow> fiber_scheduler \<Rightarrow> u64 list \<times> fiber_scheduler" where
  "wake_promise p v s =
     (case map_of (waiting_fibers s) p of
        None \<Rightarrow> ([], s)
      | Some ids \<Rightarrow> wake_fibers v ids (s\<lparr>waiting_fibers := filter (\<lambda>e. fst e \<noteq> p) (waiting_fibers s)\<rparr>))"

definition wake :: "u64 \<Rightarrow> er_value \<Rightarrow> u64 list V" where
  "wake p v m = (case wake_promise p v (vm_scheduler m) of (woken, s) \<Rightarrow> VOk woken (m\<lparr>vm_scheduler := s\<rparr>))"

section \<open>The end of a fiber\<close>

definition settle :: "u64 \<Rightarrow> promise_state \<Rightarrow> unit V" where
  "settle p st =
     (if p = 0 then vreturn ()
      else vbind (data_at p) (\<lambda>d.
        (case d of D_Promise prom \<Rightarrow> set_data p (D_Promise (prom\<lparr>pr_state := st\<rparr>)) | _ \<Rightarrow> vreturn ())))"

definition complete_fiber :: "fiber \<Rightarrow> er_value \<Rightarrow> unit V" where
  "complete_fiber f v =
     vthen (on_scheduler (update_fiber (fb_id f) (\<lambda>f. f\<lparr>fb_status := F_Completed, fb_result := v\<rparr>)))
       (settle (fb_completion f) (Fulfilled v))"

definition fail_fiber :: "fiber \<Rightarrow> u8 list \<Rightarrow> unit V" where
  "fail_fiber f e =
     vthen (on_scheduler (update_fiber (fb_id f) (\<lambda>f. f\<lparr>fb_status := F_Failed, fb_error := Some e\<rparr>)))
       (settle (fb_completion f) (Rejected e))"

text \<open>An error of the callee is printed, and the computation goes on.\<close>

definition vtry :: "'a V \<Rightarrow> (vm_error + 'a) V" where
  "vtry c m = (case c m of VOk x m' \<Rightarrow> VOk (Inr x) m' | VErr e m' \<Rightarrow> VOk (Inl e) m' | VFault \<Rightarrow> VFault
     | VAbort \<Rightarrow> VAbort | VFuel \<Rightarrow> VFuel)"

definition or_null :: "vm_error + er_value \<Rightarrow> er_value" where
  "or_null r = (case r of Inr v \<Rightarrow> v | Inl _ \<Rightarrow> val_null)"

definition current_id :: "u64 V" where
  "current_id = vget (\<lambda>m. current_fiber_id (vm_scheduler m))"

definition run_finalizers :: "(er_value \<Rightarrow> er_value list \<Rightarrow> er_value V) \<Rightarrow> u64 \<Rightarrow> unit V" where
  "run_finalizers call i =
     vbind (vget (\<lambda>m. case get_fiber i (vm_scheduler m) of Some f \<Rightarrow> fb_finalizers f | None \<Rightarrow> [])) (\<lambda>fs.
     vthen (on_scheduler (update_fiber i (\<lambda>f. f\<lparr>fb_finalizers := []\<rparr>)))
       (vfor (rev fs) (\<lambda>g. vthen (vtry (call g [])) (vreturn ()))))"

section \<open>Changing fibers\<close>

definition save_active_fiber :: "unit V" where
  "save_active_fiber =
     vmodify (\<lambda>m.
       let i = current_fiber_id (vm_scheduler m) in
       if get_fiber i (vm_scheduler m) = None \<or> vm_frames m = [] then m
       else m\<lparr>vm_scheduler := update_fiber i (\<lambda>f. f\<lparr>fb_stack := vm_stack m, fb_frames := vm_frames m,
                fb_open_upvalues := vm_open_upvalues m\<rparr>) (vm_scheduler m),
              vm_stack := [], vm_frames := [], vm_open_upvalues := []\<rparr>)"

definition load_fiber :: "u64 \<Rightarrow> unit V" where
  "load_fiber i =
     vmodify (\<lambda>m.
       case get_fiber i (vm_scheduler m) of
         None \<Rightarrow> m
       | Some f \<Rightarrow>
           m\<lparr>vm_stack := fb_stack f, vm_frames := fb_frames f, vm_open_upvalues := fb_open_upvalues f,
             vm_scheduler := (update_fiber i (\<lambda>f. f\<lparr>fb_stack := [], fb_frames := [], fb_open_upvalues := [],
               fb_status := F_Running\<rparr>) (vm_scheduler m))\<lparr>current_fiber_id := i\<rparr>\<rparr>)"

section \<open>Natives\<close>

definition fiber_handle :: "platform \<Rightarrow> u64 \<Rightarrow> u64 \<Rightarrow> er_value V" where
  "fiber_handle pf i p =
     vthen pop_map_pool_vm
       (vbind (vm_intern pf ''id'') (\<lambda>id_key.
        vbind (vm_intern pf ''_promise'') (\<lambda>prom_key.
        vbind (vget (\<lambda>m.
            let es = km_insert (vm_rd m) (val_string id_key) (val_number (f64_of_nat (unat i))) [] in
            if p = 0 then es else km_insert (vm_rd m) (val_string prom_key) (val_promise p) es)) (\<lambda>es.
        vbind (vm_alloc pf (D_Object es)) (\<lambda>q. vreturn (val_object q))))))"

definition native_fiber_spawn :: "platform \<Rightarrow> er_value list \<Rightarrow> er_value V" where
  "native_fiber_spawn pf args =
     (case args of
        [] \<Rightarrow> vreturn val_null
      | callee # rest \<Rightarrow>
          vbind (case rest of
               a # _ \<Rightarrow>
                 if is_array a
                 then vbind (data_at (as_gc_ptr a)) (\<lambda>d. vreturn (case d of D_Array arr \<Rightarrow> arr | _ \<Rightarrow> []))
                 else vreturn rest
             | [] \<Rightarrow> vreturn []) (\<lambda>given.
          if \<not> is_function callee then vreturn val_null
          else
            vbind current_id (\<lambda>parent.
            vbind (spawn_fiber pf (Some parent) (as_gc_ptr callee) given) (\<lambda>i.
            vbind (vget (\<lambda>m. case get_fiber i (vm_scheduler m) of Some f \<Rightarrow> fb_completion f | None \<Rightarrow> 0))
              (fiber_handle pf i)))))"

text \<open>The call that yields is behind the fiber when it runs again.\<close>

definition yield_frame :: "unit V" where
  "yield_frame =
     vbind (vget vm_frames) (\<lambda>frs.
     (case frs of
        [] \<Rightarrow> vreturn ()
      | fr # frs' \<Rightarrow>
          vbind (unclose (frame_function fr)) (\<lambda>raw.
          vbind (function_at raw) (\<lambda>f.
          vbind (vsome (vec_index (code (fn_chunk f)) (ip fr))) (\<lambda>ins.
          vmodify (\<lambda>m.
            (let k = slots_offset fr + reg (ra ins);
                 m = m\<lparr>vm_stack := (if k < length (vm_stack m) then (vm_stack m)[k := val_null] else vm_stack m)\<rparr>
             in m\<lparr>vm_frames := fr\<lparr>ip := ip fr + 1\<rparr> # frs'\<rparr>)))))))"

definition native_fiber_yield :: "er_value V" where
  "native_fiber_yield =
     vbind current_id (\<lambda>i.
     vbind (vget (\<lambda>m. get_fiber i (vm_scheduler m))) (\<lambda>f.
     vthen (if f = None then vreturn ()
            else vthen yield_frame
              (vthen (vmodify park_fiber) (on_scheduler (update_fiber i (\<lambda>f. f\<lparr>fb_status := F_Ready\<rparr>)))))
       (vthen (on_scheduler (push_ready i)) (vreturn val_null))))"

definition extract_fiber_id :: "platform \<Rightarrow> er_value \<Rightarrow> u64 V" where
  "extract_fiber_id pf v =
     (if is_number v then vreturn (f64_to_u64 (as_number v))
      else if is_object v then
        vbind (data_at (as_gc_ptr v)) (\<lambda>d.
        (case d of
           D_Object es \<Rightarrow>
             vbind (vm_intern pf ''id'') (\<lambda>k.
             vbind (lookup_entry (val_string k) es) (\<lambda>r.
             vreturn (case r of Some x \<Rightarrow> if is_number x then f64_to_u64 (as_number x) else 0 | None \<Rightarrow> 0)))
         | _ \<Rightarrow> vreturn 0))
      else vreturn 0)"

definition native_fiber_current_id :: "er_value V" where
  "native_fiber_current_id = vbind current_id (\<lambda>i. vreturn (val_number (f64_of_nat (unat i))))"

definition status_name :: "fiber_status \<Rightarrow> string" where
  "status_name st =
     (case st of
        F_Ready \<Rightarrow> ''ready'' | F_Running \<Rightarrow> ''running'' | F_Suspended \<Rightarrow> ''suspended''
      | F_Completed \<Rightarrow> ''completed'' | F_Cancelled \<Rightarrow> ''cancelled'' | F_Failed \<Rightarrow> ''failed'')"

definition native_fiber_status :: "platform \<Rightarrow> er_value list \<Rightarrow> er_value V" where
  "native_fiber_status pf args =
     (case args of
        [] \<Rightarrow> vreturn val_null
      | a # _ \<Rightarrow>
          vbind (extract_fiber_id pf a) (\<lambda>i.
          vbind (vget (\<lambda>m. get_fiber i (vm_scheduler m))) (\<lambda>f.
          (case f of
             Some f \<Rightarrow> if i = 0 then vreturn val_null else string_result pf (bytes_of (status_name (fb_status f)))
           | None \<Rightarrow> vreturn val_null))))"

definition interrupt_fiber :: "u64 \<Rightarrow> fiber_scheduler \<Rightarrow> fiber_scheduler" where
  "interrupt_fiber i s =
     (case get_fiber i s of
        None \<Rightarrow> s
      | Some f \<Rightarrow>
          let s = update_fiber i (\<lambda>f. f\<lparr>fb_interrupted := True\<rparr>) s in
          if fb_status f = F_Suspended \<and> fb_masks f = 0
          then push_ready i (update_fiber i (\<lambda>f. f\<lparr>fb_status := F_Ready\<rparr>) s)
          else s)"

definition native_fiber_interrupt :: "platform \<Rightarrow> er_value list \<Rightarrow> er_value V" where
  "native_fiber_interrupt pf args =
     (case args of
        [] \<Rightarrow> vreturn val_null
      | a # _ \<Rightarrow>
          vbind (extract_fiber_id pf a) (\<lambda>i.
          if i = 0 then vreturn (val_boolean False)
          else
            vbind (vget (\<lambda>m. get_fiber i (vm_scheduler m))) (\<lambda>f.
            vthen (on_scheduler (interrupt_fiber i)) (vreturn (val_boolean (f \<noteq> None))))))"

definition add_mask :: "u64 \<Rightarrow> unit V" where
  "add_mask i = on_scheduler (update_fiber i (\<lambda>f. f\<lparr>fb_masks := fb_masks f + 1\<rparr>))"

definition drop_mask :: "u64 \<Rightarrow> unit V" where
  "drop_mask i = on_scheduler (update_fiber i (\<lambda>f. f\<lparr>fb_masks := fb_masks f - 1\<rparr>))"

definition masked :: "u64 \<Rightarrow> 'a V \<Rightarrow> (vm_error + 'a) V" where
  "masked i c = vthen (add_mask i) (vbind (vtry c) (\<lambda>r. vthen (drop_mask i) (vreturn r)))"

definition native_fiber_mask :: "(er_value \<Rightarrow> er_value list \<Rightarrow> er_value V) \<Rightarrow> er_value list \<Rightarrow> er_value V" where
  "native_fiber_mask call args =
     (case args of
        [] \<Rightarrow> vreturn val_null
      | g # _ \<Rightarrow> vbind current_id (\<lambda>i. vbind (masked i (call g [])) (\<lambda>r. vreturn (or_null r))))"

definition native_fiber_add_finalizer :: "er_value list \<Rightarrow> er_value V" where
  "native_fiber_add_finalizer args =
     (case args of
        [] \<Rightarrow> vreturn val_null
      | g # _ \<Rightarrow>
          vbind current_id (\<lambda>i.
          vthen (on_scheduler (update_fiber i (\<lambda>f. f\<lparr>fb_finalizers := fb_finalizers f @ [g]\<rparr>))) (vreturn val_null)))"

text \<open>The release runs whether or not the use fails.\<close>

definition native_bracket :: "(er_value \<Rightarrow> er_value list \<Rightarrow> er_value V) \<Rightarrow> er_value list \<Rightarrow> er_value V" where
  "native_bracket call args =
     (case args of
        acquire # use # release # _ \<Rightarrow>
          vbind current_id (\<lambda>i.
          vbind (masked i (call acquire [])) (\<lambda>r.
          (case r of
             Inl _ \<Rightarrow> vreturn val_null
           | Inr resource \<Rightarrow>
               vbind (vtry (call use [resource])) (\<lambda>used.
               vbind (masked i (call release [resource])) (\<lambda>_. vreturn (or_null used))))))
      | _ \<Rightarrow> vreturn val_null)"

text \<open>The natives by the names they are registered under.\<close>

definition fiber_natives :: "string list" where
  "fiber_natives =
     [''Eronom_fiberSpawn'', ''Eronom_fiberYield'', ''Eronom_fiberCurrentId'', ''Eronom_fiberStatus'',
      ''Eronom_fiberInterrupt'', ''Eronom_fiberMask'', ''Eronom_fiberAddFinalizer'', ''Eronom_bracket'']"

definition register_fiber_natives :: "(string \<Rightarrow> u64) \<Rightarrow> unit V" where
  "register_fiber_natives address =
     vfor fiber_natives (\<lambda>n. set_global (bytes_of n) (val_native_function (address n)))"

definition fiber_native ::
    "platform \<Rightarrow> (er_value \<Rightarrow> er_value list \<Rightarrow> er_value V) \<Rightarrow> string \<Rightarrow> er_value list \<Rightarrow> er_value V" where
  "fiber_native pf call n args =
     (if n = ''Eronom_fiberSpawn'' then native_fiber_spawn pf args
      else if n = ''Eronom_fiberYield'' then native_fiber_yield
      else if n = ''Eronom_fiberCurrentId'' then native_fiber_current_id
      else if n = ''Eronom_fiberStatus'' then native_fiber_status pf args
      else if n = ''Eronom_fiberInterrupt'' then native_fiber_interrupt pf args
      else if n = ''Eronom_fiberMask'' then native_fiber_mask call args
      else if n = ''Eronom_fiberAddFinalizer'' then native_fiber_add_finalizer args
      else if n = ''Eronom_bracket'' then native_bracket call args
      else vreturn val_null)"

end
