(* ===== verification/Vm_Events.thy ===== *)
theory Vm_Events
  imports Vm_Fiber
begin

text \<open>
  The event loop: timers (\<^verbatim>\<open>VmEventLoop\<close> of \<^verbatim>\<open>execute/types.rs\<close>), the natives that set them
  (\<^verbatim>\<open>er_http/fetch.rs\<close>), the resolution of promises and the turn of the ready fibers
  (\<^verbatim>\<open>execute/event_loop.rs\<close>). What worker threads post becomes visible when the loop takes its queue;
  an instant is what the platform's clock says at that reading; waiting changes nothing.
\<close>

section \<open>Timers\<close>

definition on_events :: "(event_loop \<Rightarrow> event_loop) \<Rightarrow> unit V" where
  "on_events g = vmodify (\<lambda>m. m\<lparr>vm_events := g (vm_events m)\<rparr>)"

definition read_clock :: "platform \<Rightarrow> nat V" where
  "read_clock pf =
     vbind (vget (\<lambda>m. pf_time pf (el_readings (vm_events m)))) (\<lambda>now.
     vthen (on_events (\<lambda>el. el\<lparr>el_readings := el_readings el + 1\<rparr>)) (vreturn now))"

text \<open>The order of the heap: the earliest timer first, and of two due together the one set first.\<close>

definition timer_before :: "vm_timer \<Rightarrow> vm_timer \<Rightarrow> bool" where
  "timer_before a b \<longleftrightarrow> tm_due a < tm_due b \<or> tm_due a = tm_due b \<and> tm_id a < tm_id b"

fun first_timer :: "vm_timer list \<Rightarrow> vm_timer option" where
  "first_timer [] = None"
| "first_timer (t # ts) =
     (case first_timer ts of
        None \<Rightarrow> Some t
      | Some u \<Rightarrow> Some (if timer_before u t then u else t))"

definition pop_expired_timer :: "platform \<Rightarrow> vm_timer option V" where
  "pop_expired_timer pf =
     vbind (read_clock pf) (\<lambda>now.
     vbind (vget (\<lambda>m. first_timer (el_timers (vm_events m)))) (\<lambda>r.
     (case r of
        Some t \<Rightarrow>
          if tm_due t \<le> now
          then vthen (on_events (\<lambda>el. el\<lparr>el_timers := remove1 t (el_timers el)\<rparr>)) (vreturn (Some t))
          else vreturn None
      | None \<Rightarrow> vreturn None)))"

definition has_due_timers :: "platform \<Rightarrow> bool V" where
  "has_due_timers pf =
     vbind (vget (\<lambda>m. first_timer (el_timers (vm_events m)))) (\<lambda>r.
     (case r of
        Some t \<Rightarrow> vbind (read_clock pf) (\<lambda>now. vreturn (tm_due t \<le> now))
      | None \<Rightarrow> vreturn False))"

definition next_wait_timeout :: "platform \<Rightarrow> nat V" where
  "next_wait_timeout pf =
     vbind (read_clock pf) (\<lambda>now.
     vget (\<lambda>m.
       case first_timer (el_timers (vm_events m)) of
         Some t \<Rightarrow> if now < tm_due t then min (tm_due t - now) 10000000 else 0
       | None \<Rightarrow> 10000000))"

definition increment_active_tasks :: "unit V" where
  "increment_active_tasks = on_events (\<lambda>el. el\<lparr>el_active := el_active el + 1\<rparr>)"

definition decrement_active_tasks :: "unit V" where
  "decrement_active_tasks = on_events (\<lambda>el. el\<lparr>el_active := el_active el - 1\<rparr>)"

definition schedule_timer :: "nat \<Rightarrow> timer_action \<Rightarrow> u64 V" where
  "schedule_timer due act =
     vbind (vget (\<lambda>m. el_next_timer (vm_events m))) (\<lambda>i.
     vthen (on_events (\<lambda>el. el\<lparr>el_next_timer := i + 1,
         el_timers := el_timers el @ [\<lparr>tm_id = i, tm_due = due, tm_action = act\<rparr>]\<rparr>))
       (vthen increment_active_tasks (vreturn i)))"

definition cancel_timer :: "u64 \<Rightarrow> bool V" where
  "cancel_timer i =
     vbind (vget (\<lambda>m. position (\<lambda>t. tm_id t = i) (el_timers (vm_events m)))) (\<lambda>r.
     (case r of
        Some k \<Rightarrow>
          vthen (on_events (\<lambda>el. el\<lparr>el_timers := swap_remove k (el_timers el)\<rparr>))
            (vthen decrement_active_tasks (vreturn True))
      | None \<Rightarrow> vreturn False))"

section \<open>Natives that set timers (fetch.rs)\<close>

definition millis :: "er_value \<Rightarrow> nat" where
  "millis v = unat (f64_to_u64 (as_number v)) * 1000000"

definition native_set_timeout :: "platform \<Rightarrow> er_value list \<Rightarrow> er_value V" where
  "native_set_timeout pf args =
     (case args of
        callback # delay # rest \<Rightarrow>
          if (is_function callback \<or> is_native_function callback) \<and> is_number delay then
            vbind (read_clock pf) (\<lambda>now.
            vbind (schedule_timer (now + millis delay) (Ta_Callback callback rest)) (\<lambda>i.
            vreturn (val_number (f64_of_nat (unat i)))))
          else vreturn val_null
      | _ \<Rightarrow> vreturn val_null)"

definition native_clear_timeout :: "er_value list \<Rightarrow> er_value V" where
  "native_clear_timeout args =
     (case args of
        a # _ \<Rightarrow>
          if is_number a then vthen (cancel_timer (f64_to_u64 (as_number a))) (vreturn val_null) else vreturn val_null
      | [] \<Rightarrow> vreturn val_null)"

definition native_sleep :: "platform \<Rightarrow> er_value list \<Rightarrow> er_value V" where
  "native_sleep pf args =
     vbind (vm_alloc pf (D_Promise pending_promise)) (\<lambda>p.
     vbind (read_clock pf) (\<lambda>now.
     vthen (schedule_timer (now + (case args of a # _ \<Rightarrow> millis a | [] \<Rightarrow> 0)) (Ta_Resolve p val_null))
       (vreturn (val_promise p))))"

definition val_resolver :: "u64 \<Rightarrow> er_value" where
  "val_resolver p = tagged TAG_METHOD_RESOLVE p"

definition native_create_promise_pair :: "platform \<Rightarrow> er_value V" where
  "native_create_promise_pair pf =
     vbind (vm_alloc pf (D_Promise pending_promise)) (\<lambda>p.
     vthen pop_map_pool_vm
       (vbind (vm_intern pf ''promise'') (\<lambda>prom_key.
        vbind (vm_intern pf ''resolve'') (\<lambda>resolve_key.
        vbind (vget (\<lambda>m. km_insert (vm_rd m) (val_string resolve_key) (val_resolver p)
            (km_insert (vm_rd m) (val_string prom_key) (val_promise p) []))) (\<lambda>es.
        vbind (vm_alloc pf (D_Object es)) (\<lambda>q. vreturn (val_object q)))))))"

section \<open>The value of a finished operation\<close>

definition vm_shape :: "platform \<Rightarrow> er_value list \<Rightarrow> (struct_descriptor \<times> nat list) V" where
  "vm_shape pf keys m =
     (case get_or_create_anonymous_shape (vm_rd m) (pf_ord_fields pf) keys (vm_shapes m) of
        (r, sh) \<Rightarrow> VOk r (m\<lparr>vm_shapes := sh\<rparr>))"

definition vm_intern_bytes :: "platform \<Rightarrow> u8 list \<Rightarrow> u64 V" where
  "vm_intern_bytes pf t m =
     (case intern_string (pf_cell pf) (pf_chunk_at pf (length (chunks (vm_heap m)))) t (vm_heap m) of
        None \<Rightarrow> VAbort
      | Some (p, h) \<Rightarrow> VOk p (m\<lparr>vm_heap := h\<rparr>))"

definition json_struct :: "platform \<Rightarrow> (er_value \<times> er_value) list \<Rightarrow> er_value V" where
  "json_struct pf kvs =
     vbind (vm_shape pf (map fst kvs)) (\<lambda>(d, offs).
     vthen pop_vector_pool
       (vbind (vsome (if length offs < length kvs then None
            else vec_set_all (zip offs (map snd kvs)) (replicate (length kvs) val_null))) (\<lambda>fs.
        alloc_struct pf d fs)))"

fun json_to_value :: "platform \<Rightarrow> json \<Rightarrow> er_value V"
and json_values :: "platform \<Rightarrow> json list \<Rightarrow> er_value list V"
and json_entries :: "platform \<Rightarrow> (u8 list \<times> json) list \<Rightarrow> (er_value \<times> er_value) list V" where
  "json_to_value pf J_Null = vreturn val_null"
| "json_to_value pf (J_Bool b) = vreturn (val_boolean b)"
| "json_to_value pf (J_Number n) = vreturn (case n of Some x \<Rightarrow> val_number x | None \<Rightarrow> val_null)"
| "json_to_value pf (J_String t) = string_result pf t"
| "json_to_value pf (J_Array js) =
     vthen pop_vector_pool
       (vbind (json_values pf js) (\<lambda>vs. vbind (vm_alloc pf (D_Array vs)) (\<lambda>p. vreturn (val_array p))))"
| "json_to_value pf (J_Object es) = vbind (json_entries pf es) (json_struct pf)"
| "json_values pf [] = vreturn []"
| "json_values pf (j # js) =
     vbind (json_to_value pf j) (\<lambda>v. vbind (json_values pf js) (\<lambda>vs. vreturn (v # vs)))"
| "json_entries pf [] = vreturn []"
| "json_entries pf ((k, j) # es) =
     vbind (vm_intern_bytes pf k) (\<lambda>p.
     vbind (json_to_value pf j) (\<lambda>v.
     vbind (json_entries pf es) (\<lambda>kvs. vreturn ((val_string p, v) # kvs))))"

definition fetch_body :: "platform \<Rightarrow> u8 list \<Rightarrow> er_value V" where
  "fetch_body pf t =
     vthen pop_map_pool_vm
       (vbind (vm_intern pf ''_body'') (\<lambda>k.
        vbind (string_result pf t) (\<lambda>v.
        vbind (vget (\<lambda>m. km_insert (vm_rd m) (val_string k) v [])) (\<lambda>es.
        vbind (vm_alloc pf (D_Object es)) (\<lambda>p. vreturn (val_object p))))))"

text \<open>The promise a result is for, and the value that fulfils it.\<close>

fun result_promise :: "async_result \<Rightarrow> u64 option" where
  "result_promise Ar_Timeout = None"
| "result_promise (Ar_Promise p _) = Some p"
| "result_promise (Ar_Fetch p _) = Some p"
| "result_promise (Ar_Text p _) = Some p"
| "result_promise (Ar_Json p _) = Some p"
| "result_promise (Ar_Write p _) = Some p"

fun resolved_value :: "platform \<Rightarrow> async_result \<Rightarrow> er_value V" where
  "resolved_value pf Ar_Timeout = vreturn val_null"
| "resolved_value pf (Ar_Promise p v) = vreturn v"
| "resolved_value pf (Ar_Fetch p r) = (case r of Inr t \<Rightarrow> fetch_body pf t | Inl _ \<Rightarrow> vreturn val_null)"
| "resolved_value pf (Ar_Text p r) = (case r of Inr t \<Rightarrow> string_result pf t | Inl _ \<Rightarrow> vreturn val_null)"
| "resolved_value pf (Ar_Json p r) =
     (case r of
        Inr t \<Rightarrow> (case pf_json pf t of Some j \<Rightarrow> json_to_value pf j | None \<Rightarrow> vreturn val_null)
      | Inl _ \<Rightarrow> vreturn val_null)"
| "resolved_value pf (Ar_Write p r) = vreturn (case r of Inr n \<Rightarrow> number_value n | Inl _ \<Rightarrow> number_value 0)"

section \<open>Tasks\<close>

text \<open>A promise is fulfilled once; the state it kept of the machine that waited goes out of it.\<close>

definition fulfil_promise :: "u64 \<Rightarrow> er_value \<Rightarrow> (er_value list \<times> call_frame list) option V" where
  "fulfil_promise p v =
     vbind (data_at p) (\<lambda>d.
     (case d of
        D_Promise prom \<Rightarrow>
          if pr_state prom = Pending then
            vthen (set_data p (D_Promise \<lparr>pr_state = Fulfilled v, suspended_stack = [], suspended_frames = []\<rparr>))
              (vreturn (Some (suspended_stack prom, suspended_frames prom)))
          else vreturn None
      | _ \<Rightarrow> vfault))"

text \<open>\<^verbatim>\<open>execute_loop_interpreter(0)\<close> goes on where the innermost frame is.\<close>

definition resume_loop :: "(nat \<Rightarrow> nat \<Rightarrow> er_value V) \<Rightarrow> er_value V" where
  "resume_loop loop =
     vbind (vget vm_frames) (\<lambda>frs. (case frs of [] \<Rightarrow> vfault | fr # _ \<Rightarrow> loop 0 (ip fr)))"

text \<open>The machine that waited without a fiber goes on behind its \<^verbatim>\<open>await\<close>.\<close>

definition resume_suspended ::
    "(nat \<Rightarrow> nat \<Rightarrow> er_value V) \<Rightarrow> er_value \<Rightarrow> er_value list \<Rightarrow> call_frame list \<Rightarrow> unit V" where
  "resume_suspended loop v st frs =
     vthen (vmodify (\<lambda>m. m\<lparr>vm_stack := st, vm_frames := frs\<rparr>))
       (vbind (unclose (frame_function (hd frs))) (\<lambda>raw.
        vbind (function_at raw) (\<lambda>f.
        vbind (vsome (vec_index (code (fn_chunk f)) (ip (hd frs)))) (\<lambda>ins.
        if op ins \<noteq> Await \<and> op ins \<noteq> Call then vabort
        else
          vthen (set_slot_at (slots_offset (hd frs)) (reg (ra ins)) v)
            (vthen (vmodify (\<lambda>m. m\<lparr>vm_frames := (hd frs)\<lparr>ip := ip (hd frs) + 1\<rparr> # tl frs\<rparr>))
              (vthen (resume_loop loop) (vreturn ())))))))"

definition resolve_task :: "platform \<Rightarrow> (nat \<Rightarrow> nat \<Rightarrow> er_value V) \<Rightarrow> u64 \<Rightarrow> async_result \<Rightarrow> unit V" where
  "resolve_task pf loop p r =
     vbind (resolved_value pf r) (\<lambda>v.
     vbind (fulfil_promise p v) (\<lambda>kept.
     (case kept of
        None \<Rightarrow> vreturn ()
      | Some (st, frs) \<Rightarrow>
          vbind (wake p v) (\<lambda>woken.
          if woken \<noteq> [] \<or> frs = [] then vreturn () else resume_suspended loop v st frs))))"

definition process_task ::
    "platform \<Rightarrow> (nat \<Rightarrow> nat \<Rightarrow> er_value V) \<Rightarrow> (er_value \<Rightarrow> er_value list \<Rightarrow> er_value V) \<Rightarrow> event_task \<Rightarrow> unit V" where
  "process_task pf loop call t =
     (case result_promise (et_result t) of
        Some p \<Rightarrow> resolve_task pf loop p (et_result t)
      | None \<Rightarrow> vthen (call (et_callback t) (et_args t)) (vreturn ()))"

definition take_tasks :: "platform \<Rightarrow> event_task list V" where
  "take_tasks pf =
     vbind (vget (\<lambda>m. pf_posted pf (el_takes (vm_events m)))) (\<lambda>posted.
     vbind (vget (\<lambda>m. el_queue (vm_events m))) (\<lambda>ts.
     vthen (on_events (\<lambda>el. el\<lparr>el_queue := [], el_takes := el_takes el + 1,
         el_active := el_active el - of_nat (length posted)\<rparr>)) (vreturn (ts @ posted))))"

definition fire_timer :: "(er_value \<Rightarrow> er_value list \<Rightarrow> er_value V) \<Rightarrow> vm_timer \<Rightarrow> unit V" where
  "fire_timer call t =
     vthen decrement_active_tasks
       (case tm_action t of
          Ta_Callback g args \<Rightarrow> vthen (call g args) (vreturn ())
        | Ta_Resolve p v \<Rightarrow> enqueue_resolve p v)"

text \<open>A callback can set a timer that is due at once, so the loop over expired timers need not end.\<close>

fun expire_timers :: "nat \<Rightarrow> platform \<Rightarrow> (er_value \<Rightarrow> er_value list \<Rightarrow> er_value V) \<Rightarrow> unit V" where
  "expire_timers 0 pf call = vfuel"
| "expire_timers (Suc n) pf call =
     vbind (pop_expired_timer pf) (\<lambda>r.
     (case r of
        None \<Rightarrow> vreturn ()
      | Some t \<Rightarrow> vthen (fire_timer call t) (expire_timers n pf call)))"

section \<open>The turn of the ready fibers\<close>

definition pop_ready :: "u64 option V" where
  "pop_ready m =
     (case ready_queue (vm_scheduler m) of
        [] \<Rightarrow> VOk None m
      | i # is \<Rightarrow> VOk (Some i) (m\<lparr>vm_scheduler := (vm_scheduler m)\<lparr>ready_queue := is\<rparr>\<rparr>))"

definition is_cancelled :: "u64 \<Rightarrow> vm \<Rightarrow> bool" where
  "is_cancelled i m =
     (case get_fiber i (vm_scheduler m) of Some f \<Rightarrow> fb_interrupted f \<and> fb_masks f = 0 | None \<Rightarrow> False)"

definition cancel_fiber :: "(er_value \<Rightarrow> er_value list \<Rightarrow> er_value V) \<Rightarrow> u64 \<Rightarrow> unit V" where
  "cancel_fiber call i =
     vthen (on_scheduler (update_fiber i (\<lambda>f. f\<lparr>fb_status := F_Cancelled\<rparr>))) (run_finalizers call i)"

text \<open>The fiber has ended when it is still marked running and left no frame anywhere.\<close>

definition fiber_returned :: "(er_value \<Rightarrow> er_value list \<Rightarrow> er_value V) \<Rightarrow> u64 \<Rightarrow> er_value \<Rightarrow> unit V" where
  "fiber_returned call i v =
     vbind (vget (\<lambda>m. (get_fiber i (vm_scheduler m), vm_frames m))) (\<lambda>(r, frs).
     (case r of
        Some f \<Rightarrow>
          if fb_status f = F_Running \<and> frs = [] \<and> fb_frames f = [] then
            vthen (complete_fiber f v)
              (vthen (if fb_completion f = 0 then vreturn [] else wake (fb_completion f) v)
                (run_finalizers call i))
          else vreturn ()
      | None \<Rightarrow> vreturn ()))"

definition fiber_raised ::
    "(vm_error \<Rightarrow> u8 list) \<Rightarrow> (er_value \<Rightarrow> er_value list \<Rightarrow> er_value V) \<Rightarrow> u64 \<Rightarrow> vm_error \<Rightarrow> unit V" where
  "fiber_raised wording call i e =
     (let interrupted = e = Ve_Text ''FiberInterrupted'' in
      vbind (vget (\<lambda>m. get_fiber i (vm_scheduler m))) (\<lambda>r.
      vthen
        (case r of
           Some f \<Rightarrow>
             if interrupted then on_scheduler (update_fiber i (\<lambda>f. f\<lparr>fb_status := F_Cancelled\<rparr>))
             else fail_fiber f (wording e)
         | None \<Rightarrow> vreturn ())
        (vthen (run_finalizers call i) (if interrupted then vreturn () else vfail e))))"

definition run_fiber ::
    "platform \<Rightarrow> (nat \<Rightarrow> nat \<Rightarrow> er_value V) \<Rightarrow> (er_value \<Rightarrow> er_value list \<Rightarrow> er_value V) \<Rightarrow> u64 \<Rightarrow> unit V" where
  "run_fiber pf loop call i =
     vthen save_active_fiber
       (vthen (load_fiber i)
         (vbind (vtry (resume_loop loop)) (\<lambda>r.
          vthen
            (case r of
               Inr v \<Rightarrow> fiber_returned call i v
             | Inl e \<Rightarrow> fiber_raised (pf_wording pf) call i e)
            save_active_fiber)))"

definition turn_fiber ::
    "platform \<Rightarrow> (nat \<Rightarrow> nat \<Rightarrow> er_value V) \<Rightarrow> (er_value \<Rightarrow> er_value list \<Rightarrow> er_value V) \<Rightarrow> u64 \<Rightarrow> unit V" where
  "turn_fiber pf loop call i =
     vbind (vget (is_cancelled i)) (\<lambda>b. if b then cancel_fiber call i else run_fiber pf loop call i)"

text \<open>As many turns as fibers were ready at the start, so that a fiber that yields waits for the next tick.\<close>

fun run_ready ::
    "nat \<Rightarrow> platform \<Rightarrow> (nat \<Rightarrow> nat \<Rightarrow> er_value V) \<Rightarrow> (er_value \<Rightarrow> er_value list \<Rightarrow> er_value V) \<Rightarrow> unit V" where
  "run_ready 0 pf loop call = vreturn ()"
| "run_ready (Suc n) pf loop call =
     vbind pop_ready (\<lambda>r.
     (case r of
        None \<Rightarrow> vreturn ()
      | Some i \<Rightarrow> vthen (turn_fiber pf loop call i) (run_ready n pf loop call)))"

definition fiber_tick ::
    "platform \<Rightarrow> (nat \<Rightarrow> nat \<Rightarrow> er_value V) \<Rightarrow> (er_value \<Rightarrow> er_value list \<Rightarrow> er_value V) \<Rightarrow> unit V" where
  "fiber_tick pf loop call =
     vbind (vget (\<lambda>m. length (ready_queue (vm_scheduler m)))) (\<lambda>n. run_ready n pf loop call)"

section \<open>The loop\<close>

text \<open>Whether the loop ends after this round.\<close>

definition round_over :: "platform \<Rightarrow> bool \<Rightarrow> bool V" where
  "round_over pf wait_for_active =
     vbind (vget (\<lambda>m. ready_queue (vm_scheduler m) \<noteq> [])) (\<lambda>ready.
     vbind (vget (\<lambda>m. el_active (vm_events m))) (\<lambda>active.
     if active = 0 \<and> \<not> ready \<or> \<not> wait_for_active then
       vbind (vget (\<lambda>m. el_queue (vm_events m) = [])) (\<lambda>idle.
       vbind (has_due_timers pf) (\<lambda>due. vreturn (idle \<and> \<not> due \<and> \<not> ready)))
     else vreturn False))"

definition wait_round :: "platform \<Rightarrow> unit V" where
  "wait_round pf =
     vbind (vget (\<lambda>m. el_queue (vm_events m) = [] \<and> ready_queue (vm_scheduler m) = [])) (\<lambda>b.
     if b then vthen (next_wait_timeout pf) (vreturn ()) else vreturn ())"

definition event_round ::
    "nat \<Rightarrow> platform \<Rightarrow> (nat \<Rightarrow> nat \<Rightarrow> er_value V) \<Rightarrow> (er_value \<Rightarrow> er_value list \<Rightarrow> er_value V) \<Rightarrow> bool \<Rightarrow> bool V" where
  "event_round n pf loop call wait_for_active =
     vthen (expire_timers n pf call)
       (vbind (take_tasks pf) (\<lambda>ts.
        vthen (vfor ts (process_task pf loop call))
          (vthen (fiber_tick pf loop call)
            (vbind (round_over pf wait_for_active) (\<lambda>stop.
             if stop then vreturn True else vthen (wait_round pf) (vreturn False))))))"

fun event_rounds ::
    "nat \<Rightarrow> nat \<Rightarrow> platform \<Rightarrow> (nat \<Rightarrow> nat \<Rightarrow> er_value V) \<Rightarrow> (er_value \<Rightarrow> er_value list \<Rightarrow> er_value V) \<Rightarrow> bool \<Rightarrow> unit V" where
  "event_rounds 0 n pf loop call wait_for_active = vfuel"
| "event_rounds (Suc k) n pf loop call wait_for_active =
     vbind (event_round n pf loop call wait_for_active) (\<lambda>stop.
     if stop then vreturn () else event_rounds k n pf loop call wait_for_active)"

text \<open>\<^verbatim>\<open>run_event_loop\<close>: \<open>k\<close> rounds at most, \<open>n\<close> units of fuel for each run of the machine and each loop over
  timers. A machine that serves requests does not wait for tasks that are still active.\<close>

definition run_event_loop :: "nat \<Rightarrow> nat \<Rightarrow> platform \<Rightarrow> bool \<Rightarrow> unit V" where
  "run_event_loop k n pf has_server =
     event_rounds k n pf (run_loop n pf)
       (call_function_reentrant pf (run_loop n pf) (builtin_methods n pf)) (\<not> has_server)"

end
