(* ===== verification/Vm_Frame.thy ===== *)
theory Vm_Frame
  imports Vm_Events
begin

text \<open>
  What the machine does to the scheduler, whatever the program: a relation between the states before and
  after that tolerates every change but those of the scheduler, and the suspension of the running fiber,
  holds of every run of the machine. One rule per operation, collected in \<open>keeps\<close>, proved once in a
  locale; the native functions keep the relation by assumption.
\<close>

named_theorems keeps \<open>rules of the frame calculus\<close>

definition keeps :: "(vm \<Rightarrow> vm \<Rightarrow> bool) \<Rightarrow> 'a V \<Rightarrow> bool" where
  "keeps R c \<longleftrightarrow>
     (\<forall>m. case c m of VOk x m' \<Rightarrow> R m m' | VErr e m' \<Rightarrow> R m m' | VFault \<Rightarrow> True | VAbort \<Rightarrow> True | VFuel \<Rightarrow> True)"

lemma keepsI: "(\<And>m x m'. c m = VOk x m' \<Longrightarrow> R m m') \<Longrightarrow> (\<And>m e m'. c m = VErr e m' \<Longrightarrow> R m m') \<Longrightarrow> keeps R c"
  by (auto simp: keeps_def split: vres.split)

lemma keepsD: "keeps R c \<Longrightarrow> c m = VOk x m' \<Longrightarrow> R m m'" "keeps R c \<Longrightarrow> c m = VErr e m' \<Longrightarrow> R m m'"
  unfolding keeps_def by (drule spec [of _ m], simp)+

lemma keeps_stuck [keeps]: "keeps R vfault" "keeps R vabort" "keeps R vfuel"
  by (simp_all add: keeps_def vfault_def vabort_def vfuel_def)

lemmas cell_splits = gc_data.split option.split list.split prod.split sum.split

locale preorder_frame =
  fixes R :: "vm \<Rightarrow> vm \<Rightarrow> bool"
  assumes same: "vm_scheduler m' = vm_scheduler m \<Longrightarrow> R m m'"
    and transitive: "R a b \<Longrightarrow> R b c \<Longrightarrow> R a c"
begin

lemma unchanged: "R m m"
  by (rule same) simp

lemma keeps_bind [keeps]: "keeps R c \<Longrightarrow> (\<And>x. keeps R (f x)) \<Longrightarrow> keeps R (vbind c f)"
  by (rule keepsI) (auto simp: vbind_def split: vres.splits dest: keepsD intro: transitive)

lemma keeps_then [keeps]: "keeps R c \<Longrightarrow> keeps R k \<Longrightarrow> keeps R (vthen c k)"
  unfolding vthen_def by (rule keeps_bind)

lemma keeps_try [keeps]: "keeps R c \<Longrightarrow> keeps R (vtry c)"
  by (rule keepsI) (auto simp: vtry_def split: vres.splits dest: keepsD)

lemma keeps_basic [keeps]:
  "keeps R (vreturn x)" "keeps R (vfail e)" "keeps R (vget f)" "keeps R (vsome o')" "keeps R (VOk x)"
  "keeps R (VErr e)" "keeps R (\<lambda>m. VFault)"
  by (auto simp: keeps_def vsome_def unchanged split: option.split)

lemma keeps_modify [keeps]: "(\<And>m. vm_scheduler (g m) = vm_scheduler m) \<Longrightarrow> keeps R (vmodify g)"
  by (auto simp: keeps_def intro: same)

lemma keeps_state: "(\<And>m x m'. c m = VOk x m' \<Longrightarrow> vm_scheduler m' = vm_scheduler m) \<Longrightarrow>
    (\<And>m e m'. c m = VErr e m' \<Longrightarrow> vm_scheduler m' = vm_scheduler m) \<Longrightarrow> keeps R c"
  by (rule keepsI) (auto intro: same)

lemma keeps_for [keeps]: "(\<And>x. keeps R (f x)) \<Longrightarrow> keeps R (vfor xs f)"
  by (induction xs) (auto intro!: keeps)

lemma keeps_map [keeps]: "(\<And>x. keeps R (f x)) \<Longrightarrow> keeps R (vmap f xs)"
  by (induction xs) (auto intro!: keeps)

lemma keeps_map_in: "(\<And>x. x \<in> set xs \<Longrightarrow> keeps R (f x)) \<Longrightarrow> keeps R (vmap f xs)"
  by (induction xs) (auto intro!: keeps)

lemma keeps_heap [keeps]:
  "keeps R (vheap f)" "keeps R (vm_alloc pf d)" "keeps R (vm_alloc_array pf vs)" "keeps R (vm_intern pf t)"
  "keeps R (vm_intern_bytes pf b)" "keeps R (vlift u)"
  by (auto simp: vheap_def vm_alloc_def vm_alloc_array_def vm_intern_def vm_intern_bytes_def vlift_def intro!: keeps_state
      split: option.splits hres.splits)

lemma keeps_cells [keeps]:
  "keeps R (data_at p)" "keeps R (set_data p d)" "keeps R (vm_barrier p v)" "keeps R (text_of v)"
  "keeps R (slot i)" "keeps R (set_slot_at b i v)" "keeps R (set_slot i v)" "keeps R (vm_gc_trigger pf)"
  by (auto simp: data_at_def set_data_def vm_barrier_def text_of_def slot_def set_slot_at_def set_slot_def
      vm_gc_trigger_def intro!: keeps)

lemma keeps_functions [keeps]:
  "keeps R (unbind p)" "keeps R (unclose p)" "keeps R (function_at p)" "keeps R (get_raw_func p)"
  by (auto simp: unbind_def unclose_def function_at_def get_raw_func_def intro!: keeps split: cell_splits)

lemma keeps_math [keeps]: "keeps R (execute_math_and_cmp_op pf ins)"
  by (auto simp: execute_math_and_cmp_op_def intro!: keeps)

section \<open>Objects\<close>

lemma keeps_pools [keeps]: "keeps R pop_vector_pool" "keeps R pop_map_pool_vm" "keeps R (lookup_entry k es)" "keeps R (has_entry k es)"
  "keeps R (string_value pf t)"
  by (auto simp: pop_vector_pool_def pop_map_pool_vm_def lookup_entry_def has_entry_def string_value_def intro!: keeps)

lemma keeps_find_struct [keeps]: "keeps R (find_matching_struct_cached pf keys)"
  by (rule keeps_state) (auto simp: find_matching_struct_cached_def Let_def split: if_splits option.splits prod.splits)

lemma keeps_shape [keeps]: "keeps R (vm_shape pf keys)"
  by (rule keeps_state) (auto simp: vm_shape_def split: prod.splits)

lemma keeps_make_object [keeps]:
  "keeps R (read_pair start i)" "keeps R (alloc_struct pf d fs)" "keeps R (execute_make_object pf dest start n)"
  unfolding execute_make_object_def vm_shape_def [symmetric, abs_def]
  by (auto simp: read_pair_def alloc_struct_def intro!: keeps split: cell_splits)
    (auto intro!: keeps_state simp: Let_def split: prod.splits)

lemma keeps_properties [keeps]:
  "keeps R (is_response pf d)" "keeps R (is_file_object pf d)" "keeps R (builtin_or_null pf tab obj name)"
  "keeps R (struct_property pf obj s k name)" "keeps R (object_property pf obj k name)"
  "keeps R (array_property pf obj name)" "keeps R (execute_get_property pf dest obj k)"
  by (auto simp: is_response_def is_file_object_def builtin_or_null_def struct_property_def object_property_def
      array_property_def execute_get_property_def intro!: keeps split: cell_splits)

lemma keeps_transition [keeps]:
  "keeps R (\<lambda>m. case transition_shape_add_property (vm_rd m) g d' k (vm_shapes m) of (d, st) \<Rightarrow>
                set_data p (D_Struct (s\<lparr>descriptor := d, st_fields := st_fields s @ [v]\<rparr>)) (m\<lparr>vm_shapes := st\<rparr>))"
  by (rule keeps_state) (auto simp: Let_def set_data_def vheap_def split: prod.splits option.splits)

lemma keeps_stores [keeps]:
  "keeps R (struct_store pf p s k v)" "keeps R (object_store pf p k v)" "keeps R (array_store p i v)"
  "keeps R (array_store_named p name v)" "keeps R (execute_set_property pf obj v k)"
  "keeps R (execute_get_index pf dest obj ix)" "keeps R (execute_set_index pf obj ix v)"
  by (auto simp: struct_store_def object_store_def array_store_def array_store_named_def execute_set_property_def
      execute_get_index_def execute_set_index_def bad_index_def intro!: keeps split: cell_splits)

section \<open>Upvalues and calls\<close>

lemma keeps_find_open [keeps]: "keeps R (find_open at ps)"
  by (induction ps) (auto intro!: keeps)

lemma keeps_close_loop [keeps]: "keeps R (close_loop from_slot i n)"
  by (induction n arbitrary: i) (auto simp: stack_or_null_def intro!: keeps split: gc_data.split upvalue_location.split)

lemma keeps_upvalues [keeps]: "keeps R (close_upvalues from_slot)" "keeps R (capture_upvalue pf at)"
  by (auto simp: close_upvalues_def capture_upvalue_def intro!: keeps split: option.split)

lemma keeps_collect [keeps]: "(\<And>k. keeps R (get k)) \<Longrightarrow> keeps R (collect_fields get es fs)"
  by (induction get es fs rule: collect_fields.induct) (auto intro!: keeps split: option.split)

lemma keeps_construct [keeps]: "keeps R (construct_struct_from_args pf d n args)"
proof (induction pf d n args rule: construct_struct_from_args.induct)
  case (2 pf d n args)
  then show ?case by (auto simp: Let_def construct_fields_def intro!: keeps split: cell_splits)
qed (auto intro!: keeps)

lemma keeps_call_parts [keeps]:
  "keeps R (slots_from i n)" "keeps R (save_ip pc)" "keeps R (grow_stack k)" "keeps R (push_frame f b d)"
  "keeps R (unpack_bound p r n)" "keeps R (count_invocation p fn)"
  by (auto simp: slots_from_def save_ip_def grow_stack_def push_frame_def unpack_bound_def count_invocation_def
      intro!: keeps split: gc_data.split)

lemma keeps_push_all [keeps]: "keeps R (push_all p vs arr)"
  by (induction vs arbitrary: arr) (auto intro!: keeps)

lemma keeps_calls [keeps]:
  "keeps R (call_function p dest r n pc)" "keeps R (array_push p arr args)" "keeps R (array_pop p arr)"
  "keeps R (call_array_method callee args)" "keeps R (enqueue_task t)" "keeps R (enqueue_resolve p v)"
  "keeps R (call_constructor pf callee dest r n pc)"
  by (auto simp: call_function_def array_push_def array_pop_def call_array_method_def enqueue_task_def
      enqueue_resolve_def call_constructor_def intro!: keeps split: cell_splits)

lemma keeps_closures [keeps]:
  "keeps R (capture pf fn base uv)" "keeps R (load_constant ch i)" "keeps R (execute_closure_op pf ins ch)"
  "keeps R (set_global k v)" "keeps R (method_table v)"
  by (auto simp: capture_def load_constant_def execute_closure_op_def set_global_def method_table_def
      intro!: keeps split: cell_splits)

lemma keeps_descriptor [keeps]:
  "keeps R (\<lambda>m. case struct_descriptor_new g name (index_keys (vm_rd m) 0 names []) methods
                       (next_descriptor_id (vm_shapes m)) of (desc, nid) \<Rightarrow>
                VOk desc (m\<lparr>vm_shapes := (vm_shapes m)\<lparr>next_descriptor_id := nid\<rparr>,
                     vm_registry := (vm_registry m)\<lparr>reg_structs := put_entry name desc (reg_structs (vm_registry m))\<rparr>\<rparr>))"
  by (rule keeps_state) (auto simp: Let_def split: prod.splits)

lemma keeps_define_struct [keeps]: "keeps R (execute_define_struct_op pf ins ch)"
  unfolding execute_define_struct_op_def by (auto intro!: keeps split: gc_data.split)

section \<open>Built-in methods\<close>

lemma keeps_strings [keeps]:
  "keeps R (string_result pf t)" "keeps R (arg_text args i)" "keeps R (new_array pf vs)" "keeps R (slice_from t i)"
  "keeps R (slice_to t i)" "keeps R (display_value pf v)" "keeps R (item_text pf v)"
  by (auto simp: string_result_def arg_text_def new_array_def slice_from_def slice_to_def display_value_def
      item_text_def intro!: keeps split: option.split)

lemma keeps_string_methods [keeps]:
  "keeps R (string_split pf v args)" "keeps R (string_index_of t pat args)" "keeps R (string_last_index_of t pat args)"
  "keeps R (string_repeat pf t n)" "keeps R (string_pad pf b v args)"
  by (auto simp: string_split_def string_index_of_def string_last_index_of_def string_repeat_def string_pad_def Let_def
      intro!: keeps)

lemma keeps_string_method [keeps]: "keeps R (execute_string_method pf v meth args)"
  by (cases meth) (auto simp: execute_string_method_def Let_def intro!: keeps split: prod.split)

lemma keeps_items [keeps]:
  "keeps R (array_items v)" "keeps R (is_array_cell v)" "keeps R (replace_items v xs)" "keeps R (spread a)"
  "keeps R (splice_item v)" "keeps R (object_cell v)" "keeps R (object_has d k)"
  by (auto simp: array_items_def is_array_cell_def replace_items_def spread_def splice_item_def object_cell_def
      object_has_def intro!: keeps split: gc_data.split)

lemma keeps_array_methods [keeps]:
  "keeps R (array_shift v)" "keeps R (array_unshift v args)" "keeps R (array_search v args)" "keeps R (array_slice pf v args)"
  "keeps R (array_join pf v args)" "keeps R (array_concat pf v args)" "keeps R (array_reverse v)" "keeps R (array_fill v args)"
  by (auto simp: array_shift_def array_unshift_def array_search_def array_slice_def array_join_def array_concat_def
      array_reverse_def array_fill_def Let_def intro!: keeps split: list.split prod.split)

lemma keeps_flatten [keeps]: "keeps R (flatten_value n v)"
  by (induction n arbitrary: v) (auto intro!: keeps split: gc_data.split)

lemma keeps_flat [keeps]: "keeps R (array_flat pf v args)"
  by (auto simp: array_flat_def Let_def intro!: keeps)

lemma keeps_bubble [keeps]:
  assumes "\<And>x y. keeps R (cmp x y)"
  shows "keeps R (bubble_row cmp n xs)" "keeps R (bubble_rows cmp n xs)"
proof -
  show row: "keeps R (bubble_row cmp n xs)" for n xs
    using assms by (induction cmp n xs rule: bubble_row.induct) (auto intro!: keeps)
  show "keeps R (bubble_rows cmp n xs)"
    by (induction n arbitrary: xs) (auto intro!: keeps row)
qed

lemma keeps_sort [keeps]: "(\<And>f vs. keeps R (call f vs)) \<Longrightarrow> keeps R (array_sort pf call v args)"
  by (auto simp: array_sort_def intro!: keeps split: option.split)

lemma keeps_core [keeps]:
  "(\<And>f vs. keeps R (call f vs)) \<Longrightarrow> keeps R (execute_array_core_method pf call v meth args)"
  by (cases meth) (auto simp: execute_array_core_method_def intro!: keeps)

lemma keeps_slices [keeps]: "keeps R (push_slice vs)" "keeps R pop_slice" "keeps R (set_last_vector vs)"
  by (auto simp: push_slice_def pop_slice_def set_last_vector_def intro!: keeps)

lemma keeps_iterations [keeps]:
  assumes "\<And>it. keeps R (f it)"
  shows "keeps R (map_items f its acc)" "keeps R (filter_items f its acc)" "keeps R (find_item P f its)"
    "keeps R (flat_map_items f its acc)"
proof -
  show "keeps R (map_items f its acc)" by (induction its arbitrary: acc) (auto simp: guarded_def intro!: keeps assms)
  show "keeps R (filter_items f its acc)" by (induction its arbitrary: acc) (auto simp: guarded_def intro!: keeps assms)
  show "keeps R (find_item P f its)" by (induction its) (auto intro!: keeps assms)
  show "keeps R (flat_map_items f its acc)" by (induction its arbitrary: acc) (auto intro!: keeps assms)
qed

lemma keeps_reduce [keeps]: "(\<And>a it. keeps R (f a it)) \<Longrightarrow> keeps R (reduce_items f its acc)"
  by (induction its arbitrary: acc) (auto simp: guarded_def intro!: keeps)

lemma keeps_iter [keeps]:
  assumes "\<And>f vs. keeps R (call f vs)"
  shows "keeps R (execute_array_iter_method pf call v meth args)"
proof -
  have item: "keeps R (call_item call cb v it)" for cb it
    by (auto simp: call_item_def intro!: assms split: prod.split)
  have reduce: "keeps R (array_reduce call cb v args arr)" for cb arr
    by (auto simp: array_reduce_def guarded_def Let_def intro!: keeps assms split: list.split prod.split)
  show ?thesis
    by (cases meth) (auto simp: execute_array_iter_method_def array_flat_map_def Let_def
        intro!: keeps item reduce)
qed

lemma keeps_object_methods [keeps]: "keeps R (execute_object_method pf v meth args)"
  by (cases meth) (auto simp: execute_object_method_def intro!: keeps split: prod.split)

lemma keeps_builtin [keeps]:
  "(\<And>f vs. keeps R (call f vs)) \<Longrightarrow> keeps R (execute_builtin_method pf call v meth args)"
  by (auto simp: execute_builtin_method_def intro!: keeps)

section \<open>Fibers and events, but for the scheduler\<close>

lemma keeps_events [keeps]:
  "keeps R (on_events g)" "keeps R (read_clock pf)" "keeps R (pop_expired_timer pf)" "keeps R (has_due_timers pf)"
  "keeps R (next_wait_timeout pf)" "keeps R (schedule_timer due a)" "keeps R (cancel_timer i)" "keeps R current_id"
  "keeps R decrement_active_tasks" "keeps R (take_tasks pf)" "keeps R (round_over pf b)" "keeps R (wait_round pf)"
  by (auto simp: on_events_def read_clock_def pop_expired_timer_def has_due_timers_def next_wait_timeout_def
      schedule_timer_def increment_active_tasks_def decrement_active_tasks_def cancel_timer_def current_id_def
      take_tasks_def round_over_def wait_round_def intro!: keeps split: option.split)

lemma keeps_json [keeps]:
  "keeps R (json_to_value pf j)" "keeps R (json_values pf js)" "keeps R (json_entries pf es)"
proof -
  have "keeps R (json_struct pf kvs)" for kvs
    by (auto simp: json_struct_def intro!: keeps split: prod.split)
  then show "keeps R (json_to_value pf j)" "keeps R (json_values pf js)" "keeps R (json_entries pf es)"
    by (induction pf j and pf js and pf es rule: json_to_value_json_values_json_entries.induct)
      (auto intro!: keeps split: option.split)
qed

lemma keeps_resolved [keeps]: "keeps R (resolved_value pf r)" "keeps R (fulfil_promise p v)" "keeps R (settle p st)"
  by (cases r) (auto simp: fetch_body_def fulfil_promise_def settle_def intro!: keeps
      split: sum.split option.split gc_data.split)

lemma keeps_yield_frame [keeps]: "keeps R yield_frame"
  by (auto simp: yield_frame_def Let_def intro!: keeps split: list.split)

lemma keeps_handles [keeps]: "keeps R (fiber_handle pf i p)" "keeps R (extract_fiber_id pf v)"
  by (auto simp: fiber_handle_def extract_fiber_id_def Let_def intro!: keeps split: gc_data.split option.split)

lemma keeps_scheduler: "(\<And>m. R m (m\<lparr>vm_scheduler := g (vm_scheduler m)\<rparr>)) \<Longrightarrow> keeps R (on_scheduler g)"
  by (simp add: keeps_def on_scheduler_def)

end

section \<open>The machine\<close>

text \<open>What the functions outside the machine have to keep, and the two steps of a fiber that waits.\<close>

locale machine_frame = preorder_frame +
  fixes pf :: platform
  assumes suspend: "R m (m\<lparr>vm_scheduler := suspend_current p dest (vm_scheduler m)\<rparr>)"
    and park: "R m (park_fiber m)"
    and native: "keeps R (pf_native pf p args)"
    and host: "keeps R (pf_host_method pf callee args)"
begin

lemma keeps_natives [keeps]:
  "keeps R (pf_native pf p args)" "keeps R (pf_host_method pf callee args)"
  by (rule native) (rule host)

lemma keeps_await [keeps]: "keeps R (execute_await_op ins pc)"
proof -
  have s: "keeps R (vmodify (\<lambda>m. m\<lparr>vm_scheduler := suspend_current p dest (vm_scheduler m)\<rparr>))" for p dest
    by (auto simp: keeps_def suspend)
  have p: "keeps R (vmodify park_fiber)" by (auto simp: keeps_def park)
  have "keeps R (suspend_on p prom dest pc)" for p prom dest
    unfolding suspend_on_def by (auto intro!: keeps s p)
  then show ?thesis
    by (auto simp: execute_await_op_def intro!: keeps split: gc_data.split promise_state.split)
qed

lemma keeps_call_op [keeps]:
  assumes "\<And>v meth args. keeps R (bm v meth args)"
  shows "keeps R (execute_call_op pf bm ins pc)"
proof -
  have n: "keeps R (call_native pf callee dest r n pc)" for callee dest r n
    by (auto simp: call_native_def intro!: keeps)
  have b: "keeps R (call_builtin bm bi dest r n pc)" for bi dest r n
    by (auto simp: call_builtin_def intro!: keeps assms)
  show ?thesis
    by (auto simp: execute_call_op_def Let_def intro!: keeps n b split: gc_data.split)
qed

lemma keeps_loop_parts [keeps]:
  "keeps R c \<Longrightarrow> keeps R (next_if c pc)" "keeps R (to_iter pf v)" "keeps R (get_global name)"
  "keeps R (update_global name v)" "keeps R (jump_back pc n)" "keeps R (make_array pf dest start n)"
  "keeps R (return_value td v)" "keeps R (after_call r pc)"
  by (auto simp: next_if_def to_iter_def get_global_def update_global_def jump_back_def count_loop_def
      make_array_def alloc_array_def return_value_def after_call_def Let_def intro!: keeps
      split: option.split gc_data.split call_outcome.split)

lemma keeps_upvalue_access [keeps]: "keeps R (read_upvalue k)" "keeps R (write_upvalue k v)"
  by (auto simp: read_upvalue_def write_upvalue_def upvalue_cell_def intro!: keeps
      split: gc_data.split upvalue_location.split)

lemma keeps_unwind [keeps]: "keeps R (unwind td v at frs)"
  by (induction td v at frs rule: unwind.induct) (auto intro!: keeps split: option.split)

lemma keeps_throw [keeps]: "keeps R (throw_value pf td pc v)"
  by (auto simp: throw_value_def intro!: keeps split: option.split)

lemma keeps_op [keeps]:
  assumes "\<And>v meth args. keeps R (bm v meth args)"
  shows "keeps R (execute_op pf bm td ch ins pc)"
  by (cases "op ins") (auto simp: execute_op_def Let_def intro!: keeps assms split: option.split)

lemma keeps_step [keeps]:
  "(\<And>v meth args. keeps R (bm v meth args)) \<Longrightarrow> keeps R (vm_step pf bm td pc)"
  unfolding vm_step_def by (auto intro!: keeps)

text \<open>A call back puts the frames back, also when the callee fails.\<close>

lemma keeps_reentrant [keeps]:
  assumes "\<And>td pc. keeps R (loop td pc)"
  shows "keeps R (enter_reentrant loop fp args)"
proof -
  have "keeps R (\<lambda>m. (case loop 0 0 m of
              VOk v m' \<Rightarrow> VOk v (m'\<lparr>vm_temp_slices := butlast (vm_temp_slices m'), vm_frames := old,
                  vm_stack := take len (vm_stack m')\<rparr>)
            | VErr e m' \<Rightarrow> VErr e (m'\<lparr>vm_temp_slices := butlast (vm_temp_slices m'), vm_frames := old,
                  vm_stack := take len (vm_stack m')\<rparr>)
            | r \<Rightarrow> r))" for old len
    by (rule keepsI) (auto split: vres.splits dest!: keepsD [OF assms] elim!: transitive [OF _ same])
  then show ?thesis
    by (auto simp: enter_reentrant_def intro!: keeps split: prod.split)
qed

lemma keeps_call_back [keeps]:
  assumes "\<And>td pc. keeps R (loop td pc)" and "\<And>v meth args. keeps R (bm v meth args)"
  shows "keeps R (call_function_reentrant pf loop bm callee args)"
proof -
  have "keeps R (call_function_value pf loop callee args)"
    by (auto simp: call_function_value_def Let_def intro!: keeps assms split: gc_data.split prod.split)
  then show ?thesis
    by (auto simp: call_function_reentrant_def intro!: keeps assms split: gc_data.split)
qed

theorem keeps_run: "keeps R (run_loop n pf td pc)" and keeps_methods: "keeps R (builtin_methods n pf v meth args)"
proof (induction n arbitrary: td pc v meth args)
  case (Suc n)
  {
    case 1
    show ?case by (auto intro!: keeps Suc split: flow.split)
  next
    case 2
    show ?case by (auto intro!: keeps Suc)
  }
qed (auto intro!: keeps)

lemma keeps_call [keeps]: "keeps R (call_function_reentrant pf (run_loop n pf) (builtin_methods n pf) callee args)"
  by (rule keeps_call_back) (rule keeps_run keeps_methods)+

lemma keeps_program: "keeps R (vm_run n pf f)"
proof -
  have "keeps R (\<lambda>m. (case run_loop n pf 0 0 m of
              VOk v m' \<Rightarrow> VOk v (m'\<lparr>vm_stack := take len (vm_stack m')\<rparr>)
            | VErr e m' \<Rightarrow> VErr e (m'\<lparr>vm_stack := take len (vm_stack m')\<rparr>)
            | r \<Rightarrow> r))" for len
    by (rule keepsI) (auto split: vres.splits dest!: keepsD [OF keeps_run] elim!: transitive [OF _ same])
  then show ?thesis
    unfolding vm_run_def run_function_ptr_def by (auto intro!: keeps)
qed

end

end
