(* ===== verification/Vm_Sched.thy ===== *)
theory Vm_Sched
  imports Vm_Frame
begin

text \<open>
  Scheduling: no fiber that waits is forgotten, none that is ready is passed over. A suspended fiber is
  always among the waiters of the promise it waits for, the machine only ever appends to the queue of ready
  fibers, resolving a promise queues all its waiters, and a tick gives every fiber that was ready its turn.
  What is not so: the waiters of a fiber that fails are left suspended.
\<close>

section \<open>The tables\<close>

lemma get_update [simp]:
  "get_fiber j (update_fiber i g s) = (if j = i then map_option g (get_fiber i s) else get_fiber j s)"
proof -
  have "map_of (map (\<lambda>(j, f). if j = i then (j, g f) else (j, f)) fs) j =
      (if j = i then map_option g (map_of fs i) else map_of fs j)" for fs :: "(u64 \<times> fiber) list"
    by (induction fs) auto
  then show ?thesis by (simp add: get_fiber_def update_fiber_def)
qed

lemma update_fields [simp]:
  "ready_queue (update_fiber i g s) = ready_queue s" "waiting_fibers (update_fiber i g s) = waiting_fibers s"
  "current_fiber_id (update_fiber i g s) = current_fiber_id s"
  by (simp_all add: update_fiber_def)

lemma push_fields [simp]:
  "ready_queue (push_ready i s) = ready_queue s @ [i]" "waiting_fibers (push_ready i s) = waiting_fibers s"
  "get_fiber j (push_ready i s) = get_fiber j s"
  by (simp_all add: push_ready_def get_fiber_def)

lemma map_of_put_entry: "map_of (put_entry k v es) k' = (if k' = k then Some v else map_of es k')"
proof -
  have "map_of (map (\<lambda>(k', w). if k' = k then (k', v) else (k', w)) es) k' =
      (if k' = k \<and> map_of es k \<noteq> None then Some v else map_of es k')"
    by (induction es) auto
  then show ?thesis by (auto simp: put_entry_def map_add_def split: option.split)
qed

lemma insert_fields [simp]:
  "ready_queue (insert_fiber f s) = ready_queue s" "waiting_fibers (insert_fiber f s) = waiting_fibers s"
  "get_fiber j (insert_fiber f s) = (if j = fb_id f then Some f else get_fiber j s)"
  by (simp_all add: insert_fiber_def get_fiber_def map_of_put_entry)

lemma add_child_fields [simp]:
  "ready_queue (add_child par i s) = ready_queue s" "waiting_fibers (add_child par i s) = waiting_fibers s"
  by (simp_all add: add_child_def split: option.split)

lemma resume_fields [simp]: "fb_status (resume_with v f) = F_Ready" "fb_waiting_on (resume_with v f) = None"
  by (simp_all add: resume_with_def Let_def split: list.split)

lemma suspend_current_eq:
  "suspend_current p dest s =
     (update_fiber (current_fiber_id s)
       (\<lambda>f. f\<lparr>fb_status := F_Suspended, fb_waiting_on := Some p, fb_dest_reg := dest\<rparr>) s)
     \<lparr>waiting_fibers := waiting_fibers (suspend_current p dest s)\<rparr>"
  by (simp add: suspend_current_def update_fiber_def Let_def)

lemma waiting_suspend:
  "map_of (waiting_fibers (suspend_current p dest s)) q =
     (if q = p then Some ((case map_of (waiting_fibers s) p of Some ids \<Rightarrow> ids | None \<Rightarrow> []) @ [current_fiber_id s])
      else map_of (waiting_fibers s) q)"
proof -
  have "map_of (map (\<lambda>(q, ids). if q = p then (q, ids @ [c]) else (q, ids)) ws) q =
      (if q = p then map_option (\<lambda>ids. ids @ [c]) (map_of ws p) else map_of ws q)"
    for c :: u64 and ws :: "(u64 \<times> u64 list) list" by (induction ws) auto
  then show ?thesis
    by (auto simp: suspend_current_def Let_def map_add_def split: option.split)
qed

lemma get_fiber_waiting [simp]: "get_fiber i (s\<lparr>waiting_fibers := ws\<rparr>) = get_fiber i s"
  by (simp add: get_fiber_def)

lemma get_fiber_other [simp]:
  "get_fiber i (s\<lparr>ready_queue := q\<rparr>) = get_fiber i s" "get_fiber i (s\<lparr>next_fiber_id := k\<rparr>) = get_fiber i s"
  "get_fiber i (s\<lparr>current_fiber_id := k\<rparr>) = get_fiber i s"
  by (simp_all add: get_fiber_def)

lemma get_suspend:
  "get_fiber i (suspend_current p dest s) =
     (if i = current_fiber_id s
      then map_option (\<lambda>f. f\<lparr>fb_status := F_Suspended, fb_waiting_on := Some p, fb_dest_reg := dest\<rparr>) (get_fiber i s)
      else get_fiber i s)"
  by (subst suspend_current_eq) simp

lemma ready_suspend [simp]: "ready_queue (suspend_current p dest s) = ready_queue s"
  by (subst suspend_current_eq) simp

lemma park_scheduler:
  "vm_scheduler (park_fiber m) = update_fiber (current_fiber_id (vm_scheduler m))
     (\<lambda>f. f\<lparr>fb_stack := vm_stack m, fb_frames := vm_frames m, fb_open_upvalues := vm_open_upvalues m\<rparr>) (vm_scheduler m)"
  by (simp add: park_fiber_def update_fiber_def)

section \<open>Two relations the machine keeps\<close>

text \<open>The queue of ready fibers only grows at its end.\<close>

definition ready_grows :: "vm \<Rightarrow> vm \<Rightarrow> bool" where
  "ready_grows m m' \<longleftrightarrow> (\<exists>more. ready_queue (vm_scheduler m') = ready_queue (vm_scheduler m) @ more)"

text \<open>Every suspended fiber will be found when its promise is resolved.\<close>

definition waiters_ok :: "fiber_scheduler \<Rightarrow> bool" where
  "waiters_ok s \<longleftrightarrow>
     (\<forall>i f. get_fiber i s = Some f \<longrightarrow> fb_status f = F_Suspended \<longrightarrow>
       (\<exists>p ids. fb_waiting_on f = Some p \<and> map_of (waiting_fibers s) p = Some ids \<and> i \<in> set ids))"

definition keeps_waiters :: "vm \<Rightarrow> vm \<Rightarrow> bool" where
  "keeps_waiters m m' \<longleftrightarrow> (waiters_ok (vm_scheduler m) \<longrightarrow> waiters_ok (vm_scheduler m'))"

interpretation grows: preorder_frame ready_grows
  by unfold_locales (auto simp: ready_grows_def)

interpretation waiters: preorder_frame keeps_waiters
  by unfold_locales (auto simp: keeps_waiters_def)

lemma waiters_ok_same:
  "(\<And>i. get_fiber i s' = get_fiber i s) \<Longrightarrow> waiting_fibers s' = waiting_fibers s \<Longrightarrow> waiters_ok s \<Longrightarrow> waiters_ok s'"
  unfolding waiters_ok_def by simp

lemma waiters_ok_update:
  assumes "\<And>f. fb_status (g f) = F_Suspended \<Longrightarrow> fb_status f = F_Suspended \<and> fb_waiting_on (g f) = fb_waiting_on f"
    and "waiters_ok s"
  shows "waiters_ok (update_fiber i g s)"
  using assms(2) unfolding waiters_ok_def by (auto dest: assms(1))

lemma waiters_ok_suspend: "waiters_ok s \<Longrightarrow> waiters_ok (suspend_current p dest s)"
  unfolding waiters_ok_def get_suspend waiting_suspend by (auto split: option.split) (metis option.inject)

lemma waiters_ok_park: "waiters_ok (vm_scheduler m) \<Longrightarrow> waiters_ok (vm_scheduler (park_fiber m))"
  unfolding park_scheduler by (rule waiters_ok_update) auto

lemma waiters_ok_push: "waiters_ok s \<Longrightarrow> waiters_ok (push_ready i s)"
  by (rule waiters_ok_same) auto

lemma waiters_ok_insert: "fb_status f \<noteq> F_Suspended \<Longrightarrow> waiters_ok s \<Longrightarrow> waiters_ok (insert_fiber f s)"
  unfolding waiters_ok_def by simp

lemma grows_machine:
  assumes "\<And>p args. keeps ready_grows (pf_native pf p args)" and "\<And>v args. keeps ready_grows (pf_host_method pf v args)"
  shows "machine_frame ready_grows pf"
  by unfold_locales (auto simp: assms ready_grows_def park_scheduler)

lemma waiters_machine:
  assumes "\<And>p args. keeps keeps_waiters (pf_native pf p args)" and "\<And>v args. keeps keeps_waiters (pf_host_method pf v args)"
  shows "machine_frame keeps_waiters pf"
  by unfold_locales (auto simp: assms keeps_waiters_def waiters_ok_suspend waiters_ok_park)

section \<open>Waking\<close>

lemma wake_fibers_grows: "\<exists>more. ready_queue (snd (wake_fibers v ids s)) = ready_queue s @ more"
  by (induction v ids s rule: wake_fibers.induct) (auto split: option.split prod.splits)

lemma wake_fibers_other:
  "get_fiber i s = Some f \<Longrightarrow> fb_status f \<noteq> F_Suspended \<Longrightarrow> get_fiber i (snd (wake_fibers v ids s)) = Some f"
proof (induction v ids s rule: wake_fibers.induct)
  case (2 v j ids s)
  then show ?case by (cases "i = j") (auto split: option.split prod.split)
qed simp

lemma wake_fibers_woken:
  "get_fiber i s = Some f \<Longrightarrow> fb_status f = F_Suspended \<Longrightarrow>
     wake_fibers v (i # ids) s =
       (let r = wake_fibers v ids (push_ready i (update_fiber i (resume_with v) s)) in (i # fst r, snd r))"
  by (simp add: Let_def split: prod.split)

lemma wake_fibers_skip:
  "(\<And>f. get_fiber i s = Some f \<Longrightarrow> fb_status f \<noteq> F_Suspended) \<Longrightarrow> wake_fibers v (i # ids) s = wake_fibers v ids s"
  by (simp split: option.split)

lemma wake_fibers_wakes:
  assumes "i \<in> set ids" "get_fiber i s = Some f" "fb_status f = F_Suspended"
  shows "get_fiber i (snd (wake_fibers v ids s)) = Some (resume_with v f) \<and>
    i \<in> set (ready_queue (snd (wake_fibers v ids s))) \<and> i \<in> set (fst (wake_fibers v ids s))"
  using assms
proof (induction ids arbitrary: s)
  case (Cons j ids)
  show ?case
  proof (cases "i = j")
    case True
    let ?s = "push_ready i (update_fiber i (resume_with v) s)"
    have "get_fiber i (snd (wake_fibers v ids ?s)) = Some (resume_with v f)"
      using Cons.prems by (intro wake_fibers_other) auto
    moreover have "i \<in> set (ready_queue (snd (wake_fibers v ids ?s)))"
      using wake_fibers_grows [of v ids ?s] by auto
    ultimately show ?thesis using True wake_fibers_woken [OF Cons.prems(2,3)] by (simp add: Let_def)
  next
    case False
    show ?thesis
    proof (cases "\<exists>g. get_fiber j s = Some g \<and> fb_status g = F_Suspended")
      case True
      then obtain g where g: "get_fiber j s = Some g" "fb_status g = F_Suspended" by auto
      show ?thesis using False Cons wake_fibers_woken [OF g] by (simp add: Let_def)
    next
      case no: False
      show ?thesis using False Cons wake_fibers_skip [of j s v ids] no by auto
    qed
  qed
qed simp

lemma wake_fibers_waiters:
  assumes "\<And>i f. get_fiber i s = Some f \<Longrightarrow> fb_status f = F_Suspended \<Longrightarrow> i \<notin> set ids \<Longrightarrow>
      \<exists>p ids'. fb_waiting_on f = Some p \<and> map_of (waiting_fibers s) p = Some ids' \<and> i \<in> set ids'"
  shows "waiters_ok (snd (wake_fibers v ids s))"
  using assms
proof (induction ids arbitrary: s)
  case Nil
  then show ?case by (auto simp: waiters_ok_def)
next
  case (Cons j ids)
  show ?case
  proof (cases "\<exists>g. get_fiber j s = Some g \<and> fb_status g = F_Suspended")
    case True
    then obtain g where g: "get_fiber j s = Some g" "fb_status g = F_Suspended" by auto
    have "waiters_ok (snd (wake_fibers v ids (push_ready j (update_fiber j (resume_with v) s))))"
      by (rule Cons.IH) (use Cons.prems in \<open>auto split: if_splits\<close>)
    then show ?thesis using wake_fibers_woken [OF g] by (simp add: Let_def)
  next
    case False
    have "waiters_ok (snd (wake_fibers v ids s))"
      by (rule Cons.IH) (use Cons.prems False in \<open>metis set_ConsD\<close>)
    then show ?thesis using wake_fibers_skip [of j s v ids] False by auto
  qed
qed

lemma wake_promise_waiters:
  assumes "waiters_ok s"
  shows "waiters_ok (snd (wake_promise p v s))"
proof (cases "map_of (waiting_fibers s) p")
  case (Some ids)
  have m: "map_of (filter (\<lambda>e. fst e \<noteq> p) ws) q = (if q = p then None else map_of ws q)" for ws :: "(u64 \<times> u64 list) list" and q
    by (induction ws) auto
  let ?s = "s\<lparr>waiting_fibers := filter (\<lambda>e. fst e \<noteq> p) (waiting_fibers s)\<rparr>"
  have "waiters_ok (snd (wake_fibers v ids ?s))"
  proof (rule wake_fibers_waiters)
    fix i f
    assume f: "get_fiber i ?s = Some f" "fb_status f = F_Suspended" and i: "i \<notin> set ids"
    then obtain q ids' where q: "fb_waiting_on f = Some q" "map_of (waiting_fibers s) q = Some ids'" "i \<in> set ids'"
      using assms [unfolded waiters_ok_def, rule_format, of i f] by auto
    then have "q \<noteq> p" using Some i by auto
    then show "\<exists>q ids'. fb_waiting_on f = Some q \<and> map_of (waiting_fibers ?s) q = Some ids' \<and> i \<in> set ids'"
      using q by (auto simp: m)
  qed
  then show ?thesis using Some by (simp add: wake_promise_def)
qed (simp add: wake_promise_def assms)

lemma wake_promise_grows: "\<exists>more. ready_queue (snd (wake_promise p v s)) = ready_queue s @ more"
proof (cases "map_of (waiting_fibers s) p")
  case (Some ids)
  then show ?thesis
    using wake_fibers_grows [of v ids "s\<lparr>waiting_fibers := filter (\<lambda>e. fst e \<noteq> p) (waiting_fibers s)\<rparr>"]
    by (simp add: wake_promise_def)
qed (simp add: wake_promise_def)

lemma wake_eq: "wake p v m = VOk (fst (wake_promise p v (vm_scheduler m))) (m\<lparr>vm_scheduler := snd (wake_promise p v (vm_scheduler m))\<rparr>)"
  by (simp add: wake_def split: prod.split)

lemma wake_keeps [keeps]: "keeps ready_grows (wake p v)" "keeps keeps_waiters (wake p v)"
  by (simp_all add: keeps_def wake_eq ready_grows_def keeps_waiters_def wake_promise_grows wake_promise_waiters)

section \<open>Fibers\<close>

lemma grows_scheduler [keeps]:
  "(\<And>s. \<exists>more. ready_queue (g s) = ready_queue s @ more) \<Longrightarrow> keeps ready_grows (on_scheduler g)"
  by (rule grows.keeps_scheduler) (simp add: ready_grows_def)

lemma waiters_scheduler [keeps]:
  "(\<And>s. waiters_ok s \<Longrightarrow> waiters_ok (g s)) \<Longrightarrow> keeps keeps_waiters (on_scheduler g)"
  by (rule waiters.keeps_scheduler) (simp add: keeps_waiters_def)

lemma waiters_ok_next: "waiters_ok s \<Longrightarrow> waiters_ok (s\<lparr>next_fiber_id := k\<rparr>)"
  by (rule waiters_ok_same) auto

lemma waiters_ok_child: "waiters_ok s \<Longrightarrow> waiters_ok (add_child par i s)"
  by (auto simp: add_child_def intro!: waiters_ok_update split: option.split)

lemma waiters_ok_interrupt: "waiters_ok s \<Longrightarrow> waiters_ok (interrupt_fiber i s)"
  by (auto simp: interrupt_fiber_def Let_def intro!: waiters_ok_push waiters_ok_update split: option.split)

lemma park_keeps [keeps]: "keeps ready_grows (vmodify park_fiber)" "keeps keeps_waiters (vmodify park_fiber)"
  by (auto simp: keeps_def ready_grows_def keeps_waiters_def park_scheduler waiters_ok_park [unfolded park_scheduler])

lemma spawn_keeps [keeps]: "keeps ready_grows (spawn_fiber pf par fp args)" "keeps keeps_waiters (spawn_fiber pf par fp args)"
  by (auto simp: spawn_fiber_def fiber_new_def Let_def start_fiber_def
      intro!: keeps waiters_ok_next waiters_ok_insert waiters_ok_push waiters_ok_child)

lemma saves_keep [keeps]:
  "keeps ready_grows save_active_fiber" "keeps keeps_waiters save_active_fiber"
  "keeps ready_grows (load_fiber i)" "keeps keeps_waiters (load_fiber i)"
  by (auto simp: save_active_fiber_def load_fiber_def Let_def keeps_def ready_grows_def keeps_waiters_def
      intro!: waiters_ok_update split: option.split)
    (rule waiters_ok_same [rotated 2], rule waiters_ok_update, auto)

lemma finalizers_keep [keeps]:
  "(\<And>f vs. keeps ready_grows (call f vs)) \<Longrightarrow> keeps ready_grows (run_finalizers call i)"
  "(\<And>f vs. keeps keeps_waiters (call f vs)) \<Longrightarrow> keeps keeps_waiters (run_finalizers call i)"
  by (auto simp: run_finalizers_def intro!: keeps waiters_ok_update)

lemma natives_keep:
  assumes "\<And>f vs. keeps ready_grows (call f vs)"
  shows "keeps ready_grows (fiber_native pf call name args)"
proof -
  have masked: "keeps ready_grows c \<Longrightarrow> keeps ready_grows (masked i c)" for c :: "er_value V" and i
    by (auto simp: masked_def add_mask_def drop_mask_def intro!: keeps)
  have spawn: "keeps ready_grows (native_fiber_spawn pf args)"
    by (auto simp: native_fiber_spawn_def intro!: keeps split: list.split gc_data.split)
  have yield: "keeps ready_grows native_fiber_yield"
    by (auto simp: native_fiber_yield_def intro!: keeps)
  have status: "keeps ready_grows (native_fiber_status pf args)"
    by (auto simp: native_fiber_status_def intro!: keeps split: list.split option.split)
  have interrupt: "\<exists>more. ready_queue (interrupt_fiber i s) = ready_queue s @ more" for i s
    by (auto simp: interrupt_fiber_def Let_def split: option.split)
  have interrupting: "keeps ready_grows (native_fiber_interrupt pf args)"
    by (auto simp: native_fiber_interrupt_def intro!: keeps interrupt split: list.split)
  have bracket: "keeps ready_grows (native_bracket call args)"
    by (auto simp: native_bracket_def intro!: keeps masked assms split: list.split sum.split)
  show ?thesis
    using spawn yield status interrupting bracket
    by (auto simp: fiber_native_def native_fiber_current_id_def native_fiber_mask_def native_fiber_add_finalizer_def
        intro!: keeps masked assms split: list.split)
qed

lemma natives_keep_waiters:
  assumes "\<And>f vs. keeps keeps_waiters (call f vs)"
  shows "keeps keeps_waiters (fiber_native pf call name args)"
proof -
  have masked: "keeps keeps_waiters c \<Longrightarrow> keeps keeps_waiters (masked i c)" for c :: "er_value V" and i
    by (auto simp: masked_def add_mask_def drop_mask_def intro!: keeps waiters_ok_update)
  have spawn: "keeps keeps_waiters (native_fiber_spawn pf args)"
    by (auto simp: native_fiber_spawn_def intro!: keeps split: list.split gc_data.split)
  have yield: "keeps keeps_waiters native_fiber_yield"
    by (auto simp: native_fiber_yield_def intro!: keeps waiters_ok_update waiters_ok_push)
  have status: "keeps keeps_waiters (native_fiber_status pf args)"
    by (auto simp: native_fiber_status_def intro!: keeps split: list.split option.split)
  have interrupting: "keeps keeps_waiters (native_fiber_interrupt pf args)"
    by (auto simp: native_fiber_interrupt_def intro!: keeps waiters_ok_interrupt split: list.split)
  have bracket: "keeps keeps_waiters (native_bracket call args)"
    by (auto simp: native_bracket_def intro!: keeps masked assms split: list.split sum.split)
  show ?thesis
    using spawn yield status interrupting bracket
    by (auto simp: fiber_native_def native_fiber_current_id_def native_fiber_mask_def native_fiber_add_finalizer_def
        intro!: keeps masked assms waiters_ok_update split: list.split)
qed

section \<open>The event loop\<close>

text \<open>The parts of a round, for a machine and calls that keep the relation.\<close>

lemma turns_keep [keeps]:
  assumes "\<And>td pc. keeps ready_grows (loop td pc)" "\<And>f vs. keeps ready_grows (call f vs)"
  shows "keeps ready_grows (turn_fiber pf loop call i)"
  by (auto simp: turn_fiber_def cancel_fiber_def run_fiber_def fiber_returned_def fiber_raised_def
      complete_fiber_def fail_fiber_def resume_loop_def Let_def
      intro!: keeps assms split: sum.split option.split list.split prod.split)

lemma waiters_pop [keeps]: "keeps keeps_waiters pop_ready"
  by (auto simp: keeps_def pop_ready_def keeps_waiters_def split: list.split intro: waiters_ok_same [rotated 2])

lemma waiters_round:
  assumes loop: "\<And>td pc. keeps keeps_waiters (loop td pc)" and call: "\<And>f vs. keeps keeps_waiters (call f vs)"
  shows "keeps keeps_waiters (event_rounds k n pf loop call b)"
proof -
  have resume: "keeps keeps_waiters (resume_loop loop)"
    by (auto simp: resume_loop_def intro!: keeps loop split: list.split)
  have suspended: "keeps keeps_waiters (resume_suspended loop v st frs)" for v st frs
    by (auto simp: resume_suspended_def intro!: keeps resume)
  have resolve: "keeps keeps_waiters (resolve_task pf loop p r)" for p r
    by (auto simp: resolve_task_def intro!: keeps suspended split: option.split prod.split)
  have task: "keeps keeps_waiters (process_task pf loop call t)" for t
    by (auto simp: process_task_def intro!: keeps resolve call split: option.split)
  have fire: "keeps keeps_waiters (fire_timer call t)" for t
    by (auto simp: fire_timer_def intro!: keeps call split: timer_action.split)
  have expire: "keeps keeps_waiters (expire_timers n pf call)" for n
    by (induction n) (auto intro!: keeps fire split: option.split)
  have turn: "keeps keeps_waiters (turn_fiber pf loop call i)" for i
    by (auto simp: turn_fiber_def cancel_fiber_def run_fiber_def fiber_returned_def fiber_raised_def
        complete_fiber_def fail_fiber_def Let_def
        intro!: keeps call resume waiters_ok_update split: sum.split option.split list.split prod.split)
  have ready: "keeps keeps_waiters (run_ready n pf loop call)" for n
    by (induction n) (auto intro!: keeps turn split: option.split)
  have round: "keeps keeps_waiters (event_round n pf loop call b)"
    by (auto simp: event_round_def fiber_tick_def intro!: keeps expire task ready)
  show ?thesis by (induction k) (auto intro!: keeps round)
qed

end
