(* ===== verification/Vm_Fair.thy ===== *)
theory Vm_Fair
  imports Vm_Sched
begin

text \<open>
  What scheduling promises, for a whole program with its event loop. The natives a program can call are
  parameters that keep what the machine keeps; the fiber natives do, to any depth of calls back, which
  instantiates the frame of the machine.
\<close>

section \<open>Machines whose natives are the fiber natives\<close>

definition call_with :: "nat \<Rightarrow> platform \<Rightarrow> er_value \<Rightarrow> er_value list \<Rightarrow> er_value V" where
  "call_with n pf = call_function_reentrant pf (run_loop n pf) (builtin_methods n pf)"

text \<open>A native at depth \<open>k + 1\<close> calls back into a machine whose natives are those of depth \<open>k\<close>.\<close>

fun fiber_platform :: "nat \<Rightarrow> nat \<Rightarrow> (u64 \<Rightarrow> string) \<Rightarrow> platform \<Rightarrow> platform" where
  "fiber_platform 0 n name pf = pf"
| "fiber_platform (Suc k) n name pf =
     (let q = fiber_platform k n name pf in
      q\<lparr>pf_native := \<lambda>p args. fiber_native q (call_with n q) (name p) args\<rparr>)"

definition one_chunk :: "nat \<Rightarrow> u64" where
  "one_chunk i = (if i = 0 then 8192 else 0)"

definition quiet_platform :: platform where
  "quiet_platform =
     \<lparr>pf_cell = 40, pf_chunk_at = one_chunk, pf_nan = 0x7ff8000000000000, pf_ord_fields = id, pf_ord_entries = id,
      pf_ord_structs = id, pf_depth = 1, pf_roots = [], pf_native = \<lambda>p vs. vreturn val_null,
      pf_host_method = \<lambda>v vs. vreturn val_null, pf_upper = id, pf_lower = id, pf_time = id, pf_posted = \<lambda>_. [],
      pf_json = \<lambda>_. None, pf_wording = \<lambda>_. []\<rparr>"

lemma fiber_platform_host [simp]: "pf_host_method (fiber_platform k n name pf) = pf_host_method pf"
  by (induction k) (auto simp: Let_def)

lemma fiber_platform_grows:
  assumes "machine_frame ready_grows pf"
  shows "machine_frame ready_grows (fiber_platform k n name pf)"
proof (induction k)
  case (Suc k)
  have "keeps ready_grows (fiber_native (fiber_platform k n name pf) (call_with n (fiber_platform k n name pf)) nm args)"
    for nm args
    by (rule natives_keep) (simp add: call_with_def machine_frame.keeps_call [OF Suc])
  then show ?case
    using machine_frame.host [OF assms] by (auto simp: Let_def intro!: grows_machine)
qed (simp add: assms)

lemma fiber_platform_waiters:
  assumes "machine_frame keeps_waiters pf"
  shows "machine_frame keeps_waiters (fiber_platform k n name pf)"
proof (induction k)
  case (Suc k)
  have "keeps keeps_waiters (fiber_native (fiber_platform k n name pf) (call_with n (fiber_platform k n name pf)) nm args)"
    for nm args
    by (rule natives_keep_waiters) (simp add: call_with_def machine_frame.keeps_call [OF Suc])
  then show ?case
    using machine_frame.host [OF assms] by (auto simp: Let_def intro!: waiters_machine)
qed (simp add: assms)

interpretation fibers_grow: machine_frame ready_grows "fiber_platform k n name quiet_platform"
  by (rule fiber_platform_grows, rule grows_machine) (auto simp: quiet_platform_def intro!: keeps)

interpretation fibers_wait: machine_frame keeps_waiters "fiber_platform k n name quiet_platform"
  by (rule fiber_platform_waiters, rule waiters_machine) (auto simp: quiet_platform_def intro!: keeps)

section \<open>No waiter is lost\<close>

text \<open>C29: No waiter is lost. While a program and then its event loop run, whatever the program, every fiber
  that is suspended stays listed among the waiters of the promise it waits for, so that resolving the
  promise finds it; also when the run ends with an error. The natives and host methods are assumed to
  keep this, as the fiber natives do.\<close>

theorem no_lost_wakeup:
  assumes "\<And>p args. keeps keeps_waiters (pf_native pf p args)" "\<And>v args. keeps keeps_waiters (pf_host_method pf v args)"
    and "waiters_ok (vm_scheduler m)"
  shows "case vbind (vm_run n pf f) (\<lambda>_. run_event_loop k n pf has_server) m of
      VOk _ m' \<Rightarrow> waiters_ok (vm_scheduler m')
    | VErr _ m' \<Rightarrow> waiters_ok (vm_scheduler m')
    | _ \<Rightarrow> True"
proof -
  note mf = waiters_machine [OF assms(1,2)]
  have "keeps keeps_waiters (run_event_loop k n pf has_server)"
    unfolding run_event_loop_def
    by (rule waiters_round) (rule machine_frame.keeps_run [OF mf] machine_frame.keeps_call [OF mf])+
  then have "keeps keeps_waiters (vbind (vm_run n pf f) (\<lambda>_. run_event_loop k n pf has_server))"
    by (rule waiters.keeps_bind [OF machine_frame.keeps_program [OF mf]])
  note keepsD [OF this, of m]
  then show ?thesis
    using assms(3) unfolding keeps_waiters_def
    by (cases "vbind (vm_run n pf f) (\<lambda>_. run_event_loop k n pf has_server) m") simp_all
qed

section \<open>Resolving a promise\<close>

interpretation still: preorder_frame "\<lambda>m m'. vm_scheduler m' = vm_scheduler m"
  by unfold_locales auto

lemma set_data_VOk:
  assumes "map_option obj_data (deref p (vm_heap m)) = Some d0"
  shows "\<exists>h. set_data p d m = VOk () (m\<lparr>vm_heap := h\<rparr>) \<and> map_option obj_data (deref p h) = Some d"
  using assms by (auto simp: set_data_def vheap_def deref_def write_obj_def)

lemma fulfil_VOk:
  assumes "map_option obj_data (deref p (vm_heap m)) = Some (D_Promise prom)" "pr_state prom = Pending"
  shows "\<exists>h. fulfil_promise p v m = VOk (Some (suspended_stack prom, suspended_frames prom)) (m\<lparr>vm_heap := h\<rparr>) \<and>
    map_option obj_data (deref p h) = Some (D_Promise \<lparr>pr_state = Fulfilled v, suspended_stack = [], suspended_frames = []\<rparr>)"
  using assms set_data_VOk [OF assms(1), of "D_Promise \<lparr>pr_state = Fulfilled v, suspended_stack = [], suspended_frames = []\<rparr>"]
  by (auto simp: fulfil_promise_def vbind_def data_at_def vsome_def)

text \<open>C30: Resolving a promise wakes its waiters. When the event loop processes the result of an operation
  whose promise is still pending, every fiber suspended on that promise is queued, ready to go on behind its
  \<^verbatim>\<open>await\<close> with the value in the register it named, and the promise is fulfilled with the value.\<close>

theorem resolving_wakes_waiters:
  assumes "waiters_ok (vm_scheduler m)" and "result_promise (et_result t) = Some p"
    and "resolved_value pf (et_result t) m = VOk v m1"
    and "map_option obj_data (deref p (vm_heap m1)) = Some (D_Promise prom)" "pr_state prom = Pending"
    and "get_fiber i (vm_scheduler m) = Some f" "fb_status f = F_Suspended" "fb_waiting_on f = Some p"
  shows "\<exists>m'. process_task pf loop call t m = VOk () m' \<and>
    i \<in> set (ready_queue (vm_scheduler m')) \<and>
    get_fiber i (vm_scheduler m') = Some (resume_with v f) \<and>
    map_option obj_data (deref p (vm_heap m')) =
      Some (D_Promise \<lparr>pr_state = Fulfilled v, suspended_stack = [], suspended_frames = []\<rparr>)"
proof -
  have s: "vm_scheduler m1 = vm_scheduler m"
    using keepsD(1) [OF still.keeps_resolved(1) assms(3)] .
  obtain ids where ids: "map_of (waiting_fibers (vm_scheduler m)) p = Some ids" "i \<in> set ids"
    using assms(1,6-8) unfolding waiters_ok_def by fastforce
  obtain h where h: "fulfil_promise p v m1 = VOk (Some (suspended_stack prom, suspended_frames prom)) (m1\<lparr>vm_heap := h\<rparr>)"
    "map_option obj_data (deref p h) = Some (D_Promise \<lparr>pr_state = Fulfilled v, suspended_stack = [], suspended_frames = []\<rparr>)"
    using fulfil_VOk [OF assms(4,5)] by blast
  let ?r = "wake_promise p v (vm_scheduler m)"
  have w: "get_fiber i (snd ?r) = Some (resume_with v f)" "i \<in> set (ready_queue (snd ?r))" "i \<in> set (fst ?r)"
    using wake_fibers_wakes [OF ids(2), of _ f v] assms(6,7) ids(1) by (auto simp: wake_promise_def)
  have "process_task pf loop call t m = VOk () (m1\<lparr>vm_heap := h, vm_scheduler := snd ?r\<rparr>)"
    using w(3) assms(2,3) h(1) by (auto simp: process_task_def resolve_task_def vbind_def wake_eq s)
  then show ?thesis using w h(2) by auto
qed

section \<open>The turn of the ready fibers\<close>

definition drop_first :: "fiber_scheduler \<Rightarrow> fiber_scheduler" where
  "drop_first s = s\<lparr>ready_queue := tl (ready_queue s)\<rparr>"

text \<open>The first fiber of the queue leaves it, and the given one takes its turn.\<close>

definition take_turn ::
    "platform \<Rightarrow> (nat \<Rightarrow> nat \<Rightarrow> er_value V) \<Rightarrow> (er_value \<Rightarrow> er_value list \<Rightarrow> er_value V) \<Rightarrow> u64 \<Rightarrow> unit V" where
  "take_turn pf loop call i = vthen (on_scheduler drop_first) (turn_fiber pf loop call i)"

lemma run_ready_serves:
  assumes "\<And>i. keeps ready_grows (turn_fiber pf loop call i)"
    and "ready_queue (vm_scheduler m) = is @ tail"
  shows "run_ready (length is) pf loop call m =
    vfor is (take_turn pf loop call) m"
  using assms(2)
proof (induction "is" arbitrary: m tail)
  case (Cons i "is")
  let ?m = "m\<lparr>vm_scheduler := drop_first (vm_scheduler m)\<rparr>"
  have pop: "pop_ready m = VOk (Some i) ?m"
    using Cons.prems by (simp add: pop_ready_def drop_first_def)
  have dropped: "on_scheduler drop_first m = VOk () ?m"
    by (simp add: on_scheduler_def)
  have turn: "take_turn pf loop call i m = turn_fiber pf loop call i ?m"
    by (simp add: take_turn_def dropped)
  have "run_ready (length is) pf loop call m' = vfor is (take_turn pf loop call) m'"
    if "turn_fiber pf loop call i ?m = VOk () m'" for m'
  proof -
    have "ready_grows ?m m'" using keepsD(1) [OF assms(1) that] .
    then obtain new where "ready_queue (vm_scheduler m') = is @ (tail @ new)"
      using Cons.prems by (auto simp: ready_grows_def drop_first_def)
    then show ?thesis by (rule Cons.IH)
  qed
  then show ?case by (auto simp: pop turn vbind_def split: vres.split)
qed (simp add: vreturn_def)

text \<open>C31: No ready fiber is passed over. A tick of the event loop gives a turn to exactly the fibers that
  were ready when it began, each once and in the order in which they became ready, whatever the fibers do in
  their turns: spawn, yield, wake or interrupt others. Those that become ready during the tick wait for the
  next one.\<close>

theorem tick_serves_queue:
  assumes "\<And>p args. keeps ready_grows (pf_native pf p args)" "\<And>v args. keeps ready_grows (pf_host_method pf v args)"
  shows "fiber_tick pf (run_loop n pf) (call_with n pf) m =
    vfor (ready_queue (vm_scheduler m)) (take_turn pf (run_loop n pf) (call_with n pf)) m"
proof -
  note mf = grows_machine [OF assms]
  have "keeps ready_grows (turn_fiber pf (run_loop n pf) (call_with n pf) i)" for i
    unfolding call_with_def
    by (rule turns_keep) (rule machine_frame.keeps_run [OF mf] machine_frame.keeps_call [OF mf])+
  then show ?thesis
    by (simp add: fiber_tick_def vbind_def run_ready_serves)
qed

section \<open>What becomes of the waiters of a fiber that ends badly\<close>

lemma finalizers_none:
  "get_fiber i (vm_scheduler m) = Some f \<Longrightarrow> fb_finalizers f = [] \<Longrightarrow>
     run_finalizers call i m =
       VOk () (m\<lparr>vm_scheduler := update_fiber i (\<lambda>f. f\<lparr>fb_finalizers := []\<rparr>) (vm_scheduler m)\<rparr>)"
  by (simp add: run_finalizers_def vbind_def on_scheduler_def)

text \<open>A fiber that its next turn cancels: it has been interrupted, without a mask, and has no finalizers.\<close>

definition doomed :: "fiber_scheduler \<Rightarrow> u64 \<Rightarrow> bool" where
  "doomed s i \<longleftrightarrow>
     (case get_fiber i s of
        Some f \<Rightarrow> fb_interrupted f \<and> fb_masks f = 0 \<and> fb_finalizers f = []
      | None \<Rightarrow> False)"

lemma doomed_turn:
  assumes "doomed (vm_scheduler m) i"
  shows "turn_fiber pf loop call i m = VOk () (m\<lparr>vm_scheduler :=
    update_fiber i (\<lambda>f. f\<lparr>fb_finalizers := []\<rparr>) (update_fiber i (\<lambda>f. f\<lparr>fb_status := F_Cancelled\<rparr>) (vm_scheduler m))\<rparr>)"
proof -
  obtain f where f: "get_fiber i (vm_scheduler m) = Some f" "fb_interrupted f" "fb_masks f = 0" "fb_finalizers f = []"
    using assms by (auto simp: doomed_def split: option.splits)
  let ?c = "m\<lparr>vm_scheduler := update_fiber i (\<lambda>f. f\<lparr>fb_status := F_Cancelled\<rparr>) (vm_scheduler m)\<rparr>"
  show ?thesis
    using f finalizers_none [of i ?c "f\<lparr>fb_status := F_Cancelled\<rparr>" call]
    by (simp add: turn_fiber_def is_cancelled_def cancel_fiber_def on_scheduler_def vbind_def)
qed

lemma ready_update [simp]: "ready_queue (update_fiber i g s) = ready_queue s"
  by (simp add: update_fiber_def)

lemma run_ready_doomed:
  assumes "ready_queue (vm_scheduler m) = is" "list_all (doomed (vm_scheduler m)) is"
  shows "\<exists>s. run_ready (length is) pf loop call m = VOk () (m\<lparr>vm_scheduler := s\<rparr>) \<and> ready_queue s = [] \<and>
    (\<forall>j. map_option fb_status (get_fiber j s) =
       (if j \<in> set is then Some F_Cancelled else map_option fb_status (get_fiber j (vm_scheduler m)))) \<and>
    (\<forall>j. j \<notin> set is \<longrightarrow> get_fiber j s = get_fiber j (vm_scheduler m))"
  using assms
proof (induction "is" arbitrary: m)
  case Nil
  then show ?case by (intro exI [of _ "vm_scheduler m"]) (simp add: vreturn_def)
next
  case (Cons i "is")
  let ?m = "m\<lparr>vm_scheduler := (vm_scheduler m)\<lparr>ready_queue := is\<rparr>\<rparr>"
  let ?s = "update_fiber i (\<lambda>f. f\<lparr>fb_finalizers := []\<rparr>) (update_fiber i (\<lambda>f. f\<lparr>fb_status := F_Cancelled\<rparr>) (vm_scheduler ?m))"
  have fibers: "get_fiber j ((vm_scheduler m)\<lparr>ready_queue := is\<rparr>) = get_fiber j (vm_scheduler m)" for j
    by (simp add: get_fiber_def)
  have turn: "turn_fiber pf loop call i ?m = VOk () (m\<lparr>vm_scheduler := ?s\<rparr>)"
    using doomed_turn [of ?m i pf loop call] Cons.prems(2) by (simp add: doomed_def fibers)
  have "list_all (doomed ?s) is"
    using Cons.prems(2) unfolding list_all_iff doomed_def by (auto simp: fibers split: option.splits)
  then obtain s where s: "run_ready (length is) pf loop call (m\<lparr>vm_scheduler := ?s\<rparr>) = VOk () (m\<lparr>vm_scheduler := s\<rparr>)"
    "ready_queue s = []"
    "\<forall>j. map_option fb_status (get_fiber j s) =
       (if j \<in> set is then Some F_Cancelled else map_option fb_status (get_fiber j ?s))"
    "\<forall>j. j \<notin> set is \<longrightarrow> get_fiber j s = get_fiber j ?s"
    using Cons.IH [of "m\<lparr>vm_scheduler := ?s\<rparr>"] by auto
  have "doomed (vm_scheduler m) i" using Cons.prems(2) by simp
  then have "get_fiber i (vm_scheduler m) \<noteq> None" by (simp add: doomed_def split: option.splits)
  moreover have "run_ready (length (i # is)) pf loop call m = VOk () (m\<lparr>vm_scheduler := s\<rparr>)"
    using Cons.prems(1) turn s(1) by (simp add: vbind_def pop_ready_def)
  ultimately show ?case using s(2-4) by (intro exI [of _ s]) (auto simp: fibers)
qed

lemma idle_round:
  assumes "el_queue (vm_events m) = []" "el_timers (vm_events m) = []" "el_active (vm_events m) = 0"
    and "pf_posted pf (el_takes (vm_events m)) = []"
    and "\<And>e. \<exists>s. run_ready (length (ready_queue (vm_scheduler m))) pf loop call (m\<lparr>vm_events := e\<rparr>) =
      VOk () (m\<lparr>vm_events := e, vm_scheduler := s\<rparr>) \<and> ready_queue s = [] \<and> P s"
  shows "\<exists>e s. event_round (Suc n) pf loop call wait m = VOk True (m\<lparr>vm_events := e, vm_scheduler := s\<rparr>) \<and>
    el_queue e = [] \<and> el_timers e = [] \<and> ready_queue s = [] \<and> P s"
proof -
  define e1 where "e1 = (vm_events m)\<lparr>el_readings := el_readings (vm_events m) + 1\<rparr>"
  define e2 where "e2 = e1\<lparr>el_queue := [], el_takes := el_takes e1 + 1\<rparr>"
  have e1: "el_queue e1 = []" "pf_posted pf (el_takes e1) = []" using assms(1,4) by (simp_all add: e1_def)
  have e2: "el_queue e2 = []" "el_timers e2 = []" "el_active e2 = 0" using assms(2,3) by (simp_all add: e1_def e2_def)
  have timers: "expire_timers (Suc n) pf call m = VOk () (m\<lparr>vm_events := e1\<rparr>)"
    using assms(2) by (simp add: pop_expired_timer_def read_clock_def on_events_def vbind_def vreturn_def e1_def)
  have tasks: "take_tasks pf (m\<lparr>vm_events := e1\<rparr>) = VOk [] (m\<lparr>vm_events := e2\<rparr>)"
    using e1 by (simp add: take_tasks_def on_events_def vbind_def vreturn_def e2_def)
  obtain s where s: "fiber_tick pf loop call (m\<lparr>vm_events := e2\<rparr>) = VOk () (m\<lparr>vm_events := e2, vm_scheduler := s\<rparr>)"
    "ready_queue s = []" "P s"
    using assms(5) [of e2] by (auto simp: fiber_tick_def vbind_def)
  have over: "round_over pf wait (m\<lparr>vm_events := e2, vm_scheduler := s\<rparr>) = VOk True (m\<lparr>vm_events := e2, vm_scheduler := s\<rparr>)"
    using e2 s(2) by (simp add: round_over_def has_due_timers_def vbind_def vreturn_def)
  have "event_round (Suc n) pf loop call wait m = VOk True (m\<lparr>vm_events := e2, vm_scheduler := s\<rparr>)"
    unfolding event_round_def by (simp add: timers tasks s(1) over vbind_def vreturn_def del: expire_timers.simps)
  then show ?thesis using e2 s(2,3) by blast
qed

text \<open>C32: Nobody is told that a fiber was cancelled. When the only fibers left to run have been interrupted, the
  event loop cancels them and ends, with no error and nothing left to do; a fiber that awaits the
  completion of one of them is then still suspended, exactly as it was, and the promise is still pending.\<close>

theorem cancelled_fibers_strand_waiters:
  assumes "el_queue (vm_events m) = []" "el_timers (vm_events m) = []" "el_active (vm_events m) = 0"
    and "pf_posted pf (el_takes (vm_events m)) = []"
    and "list_all (doomed (vm_scheduler m)) (ready_queue (vm_scheduler m))"
    and "i \<in> set (ready_queue (vm_scheduler m))" "get_fiber i (vm_scheduler m) = Some f" "fb_completion f = p"
    and "get_fiber j (vm_scheduler m) = Some g" "fb_status g = F_Suspended" "fb_waiting_on g = Some p"
    and "j \<notin> set (ready_queue (vm_scheduler m))"
    and "map_option obj_data (deref p (vm_heap m)) = Some (D_Promise prom)" "pr_state prom = Pending"
  shows "\<exists>m'. run_event_loop (Suc k) (Suc n) pf has_server m = VOk () m' \<and>
    ready_queue (vm_scheduler m') = [] \<and> el_queue (vm_events m') = [] \<and> el_timers (vm_events m') = [] \<and>
    map_option fb_status (get_fiber i (vm_scheduler m')) = Some F_Cancelled \<and>
    get_fiber j (vm_scheduler m') = Some g \<and>
    map_option obj_data (deref p (vm_heap m')) = Some (D_Promise prom)"
proof -
  let ?loop = "run_loop (Suc n) pf" and ?rq = "ready_queue (vm_scheduler m)"
  let ?call = "call_function_reentrant pf ?loop (builtin_methods (Suc n) pf)"
  have "\<exists>s. run_ready (length ?rq) pf ?loop ?call (m\<lparr>vm_events := e\<rparr>) = VOk () (m\<lparr>vm_events := e, vm_scheduler := s\<rparr>) \<and>
      ready_queue s = [] \<and> map_option fb_status (get_fiber i s) = Some F_Cancelled \<and> get_fiber j s = Some g" for e
  proof -
    obtain s where "run_ready (length ?rq) pf ?loop ?call (m\<lparr>vm_events := e\<rparr>) = VOk () (m\<lparr>vm_events := e, vm_scheduler := s\<rparr>)"
      "ready_queue s = []"
      "\<forall>j. map_option fb_status (get_fiber j s) =
         (if j \<in> set ?rq then Some F_Cancelled else map_option fb_status (get_fiber j (vm_scheduler m)))"
      "\<forall>j. j \<notin> set ?rq \<longrightarrow> get_fiber j s = get_fiber j (vm_scheduler m)"
      using run_ready_doomed [of "m\<lparr>vm_events := e\<rparr>" ?rq pf ?loop ?call] assms(5) by auto
    then show ?thesis using assms(6,9,12) by (intro exI [of _ s] conjI) auto
  qed
  from idle_round [OF assms(1-4), of ?loop ?call
      "\<lambda>s. map_option fb_status (get_fiber i s) = Some F_Cancelled \<and> get_fiber j s = Some g", OF this]
  obtain e s where "event_round (Suc n) pf ?loop ?call (\<not> has_server) m = VOk True (m\<lparr>vm_events := e, vm_scheduler := s\<rparr>)"
    "el_queue e = []" "el_timers e = []" "ready_queue s = []"
    "map_option fb_status (get_fiber i s) = Some F_Cancelled" "get_fiber j s = Some g"
    by blast
  then show ?thesis using assms(13) unfolding run_event_loop_def
    by (intro exI [of _ "m\<lparr>vm_events := e, vm_scheduler := s\<rparr>"]) (simp add: vbind_def vreturn_def)
qed

section \<open>Timers\<close>

lemma first_timer_None: "first_timer ts = None \<longleftrightarrow> ts = []"
  by (cases ts) (auto split: option.split)

lemma timer_before_trans: "timer_before a b \<Longrightarrow> timer_before b c \<Longrightarrow> timer_before a c"
  by (auto simp: timer_before_def)

lemma timer_before_total: "\<not> timer_before a b \<Longrightarrow> \<not> timer_before b c \<Longrightarrow> \<not> timer_before a c"
  by (auto simp: timer_before_def not_less)

lemma first_timer_least:
  "first_timer ts = Some t \<Longrightarrow> t \<in> set ts \<and> list_all (\<lambda>u. \<not> timer_before u t) ts"
proof (induction ts arbitrary: t)
  case (Cons a ts)
  have irrefl: "\<not> timer_before t t" for t by (simp add: timer_before_def)
  have asym: "timer_before a b \<Longrightarrow> \<not> timer_before b a" for a b by (auto simp: timer_before_def)
  show ?case
  proof (cases "first_timer ts")
    case None
    then show ?thesis using Cons.prems irrefl by (simp add: first_timer_None)
  next
    case (Some u)
    note u = Cons.IH [OF Some]
    show ?thesis
    proof (cases "timer_before u a")
      case True
      then show ?thesis using Cons.prems Some u asym by simp
    next
      case False
      then have "t = a" using Cons.prems Some by simp
      moreover have "list_all (\<lambda>w. \<not> timer_before w a) ts"
        using u False timer_before_total unfolding list_all_iff by blast
      ultimately show ?thesis using irrefl by simp
    qed
  qed
qed simp

text \<open>C33: Timers expire in the order they are due. Asked for an expired timer, the loop gets one whose time has
  come and before which no other is due, timers due at the same instant coming in the order they were
  set; this timer and no other leaves the heap. It gets none exactly when none has expired.\<close>

theorem timers_expire_in_order:
  "(case pop_expired_timer pf m of
      VOk None m' \<Rightarrow>
        list_all (\<lambda>u. pf_time pf (el_readings (vm_events m)) < tm_due u) (el_timers (vm_events m)) \<and>
        el_timers (vm_events m') = el_timers (vm_events m)
    | VOk (Some t) m' \<Rightarrow>
        tm_due t \<le> pf_time pf (el_readings (vm_events m)) \<and>
        list_all (\<lambda>u. \<not> timer_before u t) (el_timers (vm_events m)) \<and>
        mset (el_timers (vm_events m)) = add_mset t (mset (el_timers (vm_events m')))
    | _ \<Rightarrow> False)"
proof (cases "first_timer (el_timers (vm_events m))")
  case None
  then show ?thesis
    by (simp add: pop_expired_timer_def read_clock_def on_events_def vbind_def first_timer_None)
next
  case (Some t)
  note least = first_timer_least [OF Some]
  show ?thesis
  proof (cases "tm_due t \<le> pf_time pf (el_readings (vm_events m))")
    case True
    then show ?thesis
      using Some least by (simp add: pop_expired_timer_def read_clock_def on_events_def vbind_def)
  next
    case False
    then have "list_all (\<lambda>u. pf_time pf (el_readings (vm_events m)) < tm_due u) (el_timers (vm_events m))"
      using least unfolding list_all_iff timer_before_def by fastforce
    then show ?thesis
      using Some False by (simp add: pop_expired_timer_def read_clock_def on_events_def vbind_def)
  qed
qed

section \<open>A machine with two fibers\<close>

text \<open>Fiber 1 runs; fiber 2 awaits its completion, into the second register, at the fifth instruction.\<close>

definition demo_fiber :: "u64 \<Rightarrow> u64 \<Rightarrow> fiber" where
  "demo_fiber i p =
     \<lparr>fb_id = i, fb_parent = None, fb_status = F_Running, fb_stack = [], fb_frames = [], fb_open_upvalues = [],
      fb_children = [], fb_completion = p, fb_waiting_on = None, fb_dest_reg = 0, fb_result = val_null,
      fb_error = None, fb_masks = 0, fb_interrupted = False, fb_finalizers = []\<rparr>"

definition waiting_fiber :: fiber where
  "waiting_fiber = (demo_fiber 2 128)\<lparr>fb_status := F_Suspended, fb_waiting_on := Some 64, fb_dest_reg := 1,
     fb_stack := [val_null, val_null, val_null],
     fb_frames := [\<lparr>frame_function = 8, ip = 5, slots_offset = 1, frame_dest_reg = 0\<rparr>]\<rparr>"

definition waiting_machine :: vm where
  "waiting_machine =
     \<lparr>vm_frames = [], vm_stack = [], vm_globals = [], vm_open_upvalues = [], vm_thrown = val_null,
      vm_registry = shape_registry_new,
      vm_scheduler = \<lparr>current_fiber_id = 1, fibers = [(1, demo_fiber 1 64), (2, waiting_fiber)], ready_queue = [],
        waiting_fibers = [(64, [2])], next_fiber_id = 3\<rparr>,
      vm_events = event_loop_new, vm_temp_slices = [], vm_root_vectors = [],
      vm_heap = gc_init\<lparr>mem := [64 \<mapsto> \<lparr>color = White, nxt = 0, obj_data = D_Promise pending_promise\<rparr>]\<rparr>,
      vm_shapes = \<lparr>fast_2key = None, fast_1key = None, shape_cache = [], transition_cache = [], next_descriptor_id = 1\<rparr>\<rparr>"

lemma waiting_machine_fibers:
  "get_fiber 1 (vm_scheduler waiting_machine) = Some (demo_fiber 1 64)"
  "get_fiber 2 (vm_scheduler waiting_machine) = Some waiting_fiber"
  "map_option obj_data (deref 64 (vm_heap waiting_machine)) = Some (D_Promise pending_promise)"
  by (simp_all add: waiting_machine_def get_fiber_def deref_def gc_init_def)

lemma waiting_machine_ok: "waiters_ok (vm_scheduler waiting_machine)"
  by (simp add: waiters_ok_def waiting_machine_def get_fiber_def waiting_fiber_def demo_fiber_def)

text \<open>Every native is the one that yields.\<close>

definition yielding_platform :: platform where
  "yielding_platform = fiber_platform 2 9 (\<lambda>_. ''Eronom_fiberYield'') quiet_platform"

theorem no_lost_wakeup_witness:
  "case vbind (vm_run 9 yielding_platform function_default)
        (\<lambda>_. run_event_loop 5 9 yielding_platform False) waiting_machine of
      VOk _ m' \<Rightarrow> waiters_ok (vm_scheduler m')
    | VErr _ m' \<Rightarrow> waiters_ok (vm_scheduler m')
    | _ \<Rightarrow> True"
  unfolding yielding_platform_def
  by (rule no_lost_wakeup) (rule fibers_wait.native fibers_wait.host waiting_machine_ok)+

theorem resolving_wakes_waiters_witness:
  "\<exists>m' f. process_task quiet_platform (\<lambda>_ _. vfuel) (\<lambda>_ _. vfuel)
        \<lparr>et_callback = val_null, et_args = [], et_result = Ar_Promise 64 (val_boolean True)\<rparr> waiting_machine = VOk () m' \<and>
    2 \<in> set (ready_queue (vm_scheduler m')) \<and> get_fiber 2 (vm_scheduler m') = Some f \<and>
    fb_stack f = [val_null, val_null, val_boolean True] \<and> map ip (fb_frames f) = [6]"
  using resolving_wakes_waiters [of waiting_machine
      "\<lparr>et_callback = val_null, et_args = [], et_result = Ar_Promise 64 (val_boolean True)\<rparr>" 64 quiet_platform
      "val_boolean True" waiting_machine pending_promise 2 waiting_fiber "\<lambda>_ _. vfuel" "\<lambda>_ _. vfuel"]
    waiting_machine_ok waiting_machine_fibers
  by (auto simp: pending_promise_def waiting_fiber_def demo_fiber_def resume_with_def)

lemma one_turn: "vfor [i] f = f i" for f :: "'a \<Rightarrow> unit V"
  by (rule ext) (simp split: vres.split)

theorem tick_serves_queue_witness:
  "fiber_tick yielding_platform (run_loop 9 yielding_platform) (call_with 9 yielding_platform)
      (waiting_machine\<lparr>vm_scheduler := push_ready 2 (vm_scheduler waiting_machine)\<rparr>) =
    take_turn yielding_platform (run_loop 9 yielding_platform) (call_with 9 yielding_platform) 2
      (waiting_machine\<lparr>vm_scheduler := push_ready 2 (vm_scheduler waiting_machine)\<rparr>)"
proof -
  have q: "ready_queue (vm_scheduler (waiting_machine\<lparr>vm_scheduler := push_ready 2 (vm_scheduler waiting_machine)\<rparr>)) = [2]"
    by (simp add: waiting_machine_def)
  have "keeps ready_grows (pf_native yielding_platform p args)" "keeps ready_grows (pf_host_method yielding_platform v args)"
    for p args v
    unfolding yielding_platform_def by (rule fibers_grow.native fibers_grow.host)+
  from tick_serves_queue [OF this, where n = 9
      and m = "waiting_machine\<lparr>vm_scheduler := push_ready 2 (vm_scheduler waiting_machine)\<rparr>"]
  show ?thesis unfolding q one_turn .
qed

text \<open>Fiber 1 has been interrupted while it was ready; fiber 2 awaits it.\<close>

definition doomed_machine :: vm where
  "doomed_machine = waiting_machine\<lparr>vm_scheduler :=
     push_ready 1 (update_fiber 1 (\<lambda>f. f\<lparr>fb_interrupted := True\<rparr>) (vm_scheduler waiting_machine))\<rparr>"

theorem cancelled_fibers_strand_waiters_witness:
  "\<exists>m'. run_event_loop 1 1 quiet_platform False doomed_machine = VOk () m' \<and>
    ready_queue (vm_scheduler m') = [] \<and> el_queue (vm_events m') = [] \<and>
    map_option fb_status (get_fiber 1 (vm_scheduler m')) = Some F_Cancelled \<and>
    get_fiber 2 (vm_scheduler m') = Some waiting_fiber \<and>
    map_option obj_data (deref 64 (vm_heap m')) = Some (D_Promise pending_promise)"
proof -
  have fibers: "get_fiber 1 (vm_scheduler doomed_machine) = Some ((demo_fiber 1 64)\<lparr>fb_interrupted := True\<rparr>)"
    "get_fiber 2 (vm_scheduler doomed_machine) = Some waiting_fiber" "ready_queue (vm_scheduler doomed_machine) = [1]"
    by (simp_all add: doomed_machine_def waiting_machine_def push_ready_def update_fiber_def get_fiber_def)
  have "list_all (doomed (vm_scheduler doomed_machine)) [1]" by (simp add: doomed_def fibers demo_fiber_def)
  moreover have "vm_events doomed_machine = event_loop_new" "vm_heap doomed_machine = vm_heap waiting_machine"
    by (simp_all add: doomed_machine_def waiting_machine_def)
  ultimately show ?thesis
    using cancelled_fibers_strand_waiters [of doomed_machine quiet_platform 1 "(demo_fiber 1 64)\<lparr>fb_interrupted := True\<rparr>" 64 2
        waiting_fiber pending_promise 0 0 False] fibers waiting_machine_fibers(3)
    by (simp add: event_loop_new_def quiet_platform_def waiting_fiber_def demo_fiber_def pending_promise_def
        del: event_rounds.simps) blast
qed

end
