(* ===== verification/Web_Router.thy ===== *)
theory Web_Router
  imports Vm_Strings "HOL-Library.AList"
begin

text \<open>
  The router of the HTTP server: the radix tree of \<^verbatim>\<open>router.rs\<close>, the matcher of single patterns and the
  registration of routes in \<^verbatim>\<open>er_http/router.rs\<close>. A request is answered by the registered pattern that is
  best in the order static before parameter before wildcard, segment by segment, and the list of routes the
  server keeps always rebuilds the tree.
\<close>

type_synonym rust_str = "u8 list"
type_synonym route_params = "rust_str \<rightharpoonup> rust_str"

section \<open>The tree\<close>

datatype segment_type =
    Seg_Root
  | Seg_Static rust_str
  | Seg_Param rust_str
  | Seg_Wildcard rust_str

datatype route_node =
  RouteNode (rn_segment: segment_type) (rn_children: "route_node list") (rn_handlers: "(rust_str \<times> er_value) list")

definition route_node_new :: "segment_type \<Rightarrow> route_node" where
  "route_node_new s = RouteNode s [] []"

definition router_new :: route_node where
  "router_new = route_node_new Seg_Root"

section \<open>Paths\<close>

text \<open>\<^verbatim>\<open>str::trim\<close>, \<^verbatim>\<open>to_ascii_uppercase\<close>.\<close>

definition trim_text :: "rust_str \<Rightarrow> rust_str" where
  "trim_text s = concat (trim_end (trim_start (utf8_chars s)))"

definition ascii_upper :: "rust_str \<Rightarrow> rust_str" where
  "ascii_upper s = map (\<lambda>b. if 97 \<le> b \<and> b \<le> 122 then b - 32 else b) s"

definition route_method :: "rust_str \<Rightarrow> rust_str" where
  "route_method m = ascii_upper (trim_text m)"

definition split_path :: "rust_str \<Rightarrow> rust_str list" where
  "split_path path =
     filter (\<lambda>p. p \<noteq> []) (split_on (\<lambda>b. b = 47) (takeWhile (\<lambda>b. b \<noteq> 63) (trim_text path)))"

definition segment_of :: "rust_str \<Rightarrow> segment_type" where
  "segment_of seg =
     (if starts_with seg [42] then Seg_Wildcard (if seg = [42] then [42] else drop 1 seg)
      else if starts_with seg [58] then Seg_Param (drop 1 seg)
      else Seg_Static seg)"

definition route_pattern :: "rust_str \<Rightarrow> segment_type list" where
  "route_pattern path = map segment_of (split_path path)"

section \<open>Registering a route\<close>

text \<open>The comparison of \<^verbatim>\<open>sort_by\<close>; the root is never a child.\<close>

definition segment_rank :: "segment_type \<Rightarrow> nat" where
  "segment_rank s = (case s of Seg_Static x \<Rightarrow> 0 | Seg_Param x \<Rightarrow> 1 | Seg_Wildcard x \<Rightarrow> 2 | Seg_Root \<Rightarrow> 1)"

definition child_index :: "segment_type \<Rightarrow> route_node list \<Rightarrow> nat option" where
  "child_index t cs = position (\<lambda>c. rn_segment c = t) cs"

text \<open>\<^verbatim>\<open>None\<close> is the panic of the last \<^verbatim>\<open>unwrap\<close>.\<close>

definition find_or_insert :: "segment_type \<Rightarrow> route_node list \<Rightarrow> (nat \<times> route_node list) option" where
  "find_or_insert t cs =
     (case child_index t cs of
        Some i \<Rightarrow> Some (i, cs)
      | None \<Rightarrow>
          let cs' = sort_key (\<lambda>c. segment_rank (rn_segment c)) (cs @ [route_node_new t])
          in map_option (\<lambda>i. (i, cs')) (child_index t cs'))"

fun insert_node :: "segment_type list \<Rightarrow> rust_str \<Rightarrow> er_value \<Rightarrow> route_node \<Rightarrow> route_node option" where
  "insert_node [] m h (RouteNode s cs hs) = Some (RouteNode s cs (AList.update m h hs))"
| "insert_node (t # ts) m h (RouteNode s cs hs) =
     (case find_or_insert t cs of
        None \<Rightarrow> None
      | Some (i, cs') \<Rightarrow> map_option (\<lambda>c. RouteNode s (cs'[i := c]) hs) (insert_node ts m h (cs' ! i)))"

definition router_insert :: "rust_str \<Rightarrow> rust_str \<Rightarrow> er_value \<Rightarrow> route_node \<Rightarrow> route_node option" where
  "router_insert m path h r = insert_node (route_pattern path) (route_method m) h r"

section \<open>Finding the handler of a request\<close>

definition exact_handler :: "(rust_str \<times> er_value) list \<Rightarrow> rust_str \<Rightarrow> er_value option" where
  "exact_handler hs m =
     or_else (map_of hs m) (or_else (map_of hs (bytes_of ''ALL''))
       (or_else (map_of hs (bytes_of ''*'')) (map_of hs (bytes_of ''ANY''))))"

definition wildcard_handler :: "(rust_str \<times> er_value) list \<Rightarrow> rust_str \<Rightarrow> er_value option" where
  "wildcard_handler hs m =
     or_else (map_of hs m) (or_else (map_of hs (bytes_of ''ALL'')) (map_of hs (bytes_of ''*'')))"

text \<open>\<^verbatim>\<open>segments[i..].join("/")\<close>\<close>

definition rest_path :: "rust_str list \<Rightarrow> rust_str" where
  "rest_path segs = join_with 47 segs"

definition wildcard_child :: "rust_str list \<Rightarrow> rust_str \<Rightarrow> route_params \<Rightarrow> route_node \<Rightarrow> (er_value \<times> route_params) option" where
  "wildcard_child segs m ps c =
     (case rn_segment c of
        Seg_Wildcard w \<Rightarrow> map_option (\<lambda>h. (h, ps(w \<mapsto> rest_path segs))) (wildcard_handler (rn_handlers c) m)
      | _ \<Rightarrow> None)"

definition end_of_path :: "route_node \<Rightarrow> rust_str \<Rightarrow> route_params \<Rightarrow> (er_value \<times> route_params) option" where
  "end_of_path n m ps =
     or_else (map_option (\<lambda>h. (h, ps)) (exact_handler (rn_handlers n) m))
       (first_some (map (wildcard_child [] m ps) (rn_children n)))"

fun get_handler :: "route_node \<Rightarrow> rust_str list \<Rightarrow> rust_str \<Rightarrow> route_params \<Rightarrow> (er_value \<times> route_params) option" where
  "get_handler n [] m ps = end_of_path n m ps"
| "get_handler n (g # gs) m ps =
     or_else
       (first_some (map (\<lambda>c. (case rn_segment c of
            Seg_Static s \<Rightarrow> if s = g then get_handler c gs m ps else None
          | _ \<Rightarrow> None)) (rn_children n)))
     (or_else
       (first_some (map (\<lambda>c. (case rn_segment c of
            Seg_Param x \<Rightarrow> map_option (\<lambda>(h, qs). (h, qs(x \<mapsto> g))) (get_handler c gs m ps)
          | _ \<Rightarrow> None)) (rn_children n)))
       (first_some (map (wildcard_child (g # gs) m ps) (rn_children n))))"

text \<open>\<^verbatim>\<open>match_node\<close> collects the parameters below a parameter in a map of its own.\<close>

fun match_node :: "route_node \<Rightarrow> rust_str list \<Rightarrow> rust_str \<Rightarrow> route_params \<Rightarrow> (er_value \<times> route_params) option" where
  "match_node n [] m ps = end_of_path n m ps"
| "match_node n (g # gs) m ps =
     or_else
       (first_some (map (\<lambda>c. (case rn_segment c of
            Seg_Static s \<Rightarrow> if s = g then match_node c gs m ps else None
          | _ \<Rightarrow> None)) (rn_children n)))
     (or_else
       (first_some (map (\<lambda>c. (case rn_segment c of
            Seg_Param x \<Rightarrow> map_option (\<lambda>(h, qs). (h, (ps ++ qs)(x \<mapsto> g))) (match_node c gs m Map.empty)
          | _ \<Rightarrow> None)) (rn_children n)))
       (first_some (map (wildcard_child (g # gs) m ps) (rn_children n))))"

definition router_find :: "route_node \<Rightarrow> rust_str \<Rightarrow> rust_str \<Rightarrow> (er_value \<times> route_params) option" where
  "router_find r m path =
     (let m' = route_method m; segs = split_path path in
      case match_node r segs m' Map.empty of
        None \<Rightarrow> None
      | Some (h, ps) \<Rightarrow> get_handler r segs m' ps)"

text \<open>The handlers the collector marks; the order of a hash map does not matter here.\<close>

fun collect_handlers :: "route_node \<Rightarrow> er_value list" where
  "collect_handlers (RouteNode s cs hs) = map snd hs @ concat (map collect_handlers cs)"

section \<open>The tree as a table of patterns\<close>

fun route_at :: "route_node \<Rightarrow> segment_type list \<Rightarrow> rust_str \<Rightarrow> er_value option" where
  "route_at n [] m = map_of (rn_handlers n) m"
| "route_at n (t # ts) m =
     (case find (\<lambda>c. rn_segment c = t) (rn_children n) of None \<Rightarrow> None | Some c \<Rightarrow> route_at c ts m)"

fun node_ok :: "route_node \<Rightarrow> bool" where
  "node_ok (RouteNode s cs hs) \<longleftrightarrow>
     distinct (map rn_segment cs) \<and> Seg_Root \<notin> rn_segment ` set cs \<and> (\<forall>c \<in> set cs. node_ok c)"


lemma find_child:
  "distinct (map rn_segment cs) \<Longrightarrow> find (\<lambda>c. rn_segment c = t) cs = Some c \<longleftrightarrow> c \<in> set cs \<and> rn_segment c = t"
  by (induction cs) (auto simp: image_iff)

lemma find_child_None: "find (\<lambda>c. rn_segment c = t) cs = None \<longleftrightarrow> t \<notin> rn_segment ` set cs"
  by (induction cs) auto

lemma node_ok_new [simp]: "node_ok (route_node_new s)"
  and rn_new [simp]: "rn_segment (route_node_new s) = s" "rn_children (route_node_new s) = []" "rn_handlers (route_node_new s) = []"
  by (simp_all add: route_node_new_def)

lemma route_at_new [simp]: "route_at (route_node_new s) p m = None"
  by (cases p) simp_all

lemma find_or_insert_total:
  assumes "distinct (map rn_segment cs)"
  obtains i cs' where "find_or_insert t cs = Some (i, cs')" "i < length cs'" "rn_segment (cs' ! i) = t"
    "distinct (map rn_segment cs')"
    "set cs' = (if t \<in> rn_segment ` set cs then set cs else insert (route_node_new t) (set cs))"
proof (cases "child_index t cs")
  case (Some i)
  then have "i < length cs" "rn_segment (cs ! i) = t"
    using position_SomeD [of "\<lambda>c. rn_segment c = t" cs i] by (auto simp: child_index_def)
  then show ?thesis using Some assms that [of i cs] by (auto simp: find_or_insert_def)
next
  case None
  let ?cs = "sort_key (\<lambda>c. segment_rank (rn_segment c)) (cs @ [route_node_new t])"
  have new: "t \<notin> rn_segment ` set cs" using None by (auto simp: child_index_def position_None_iff)
  have d: "distinct (map rn_segment ?cs)"
  proof -
    have "mset (map rn_segment ?cs) = mset (map rn_segment (cs @ [route_node_new t]))" by simp
    moreover have "distinct (map rn_segment (cs @ [route_node_new t]))" using assms new by simp
    ultimately show ?thesis by (metis mset_eq_imp_distinct_iff)
  qed
  have "child_index t ?cs \<noteq> None"
    unfolding child_index_def position_None_iff by (simp add: image_iff)
  then obtain i where i: "child_index t ?cs = Some i" by auto
  then have at: "i < length ?cs" "rn_segment (?cs ! i) = t"
    using position_SomeD [of "\<lambda>c. rn_segment c = t" ?cs i] by (simp_all only: child_index_def)
  have "find_or_insert t cs = Some (i, ?cs)" using None i by (simp add: find_or_insert_def Let_def)
  then show ?thesis using at d by (rule that) (use new in simp)
qed

lemma insert_node_correct:
  assumes "node_ok n" "Seg_Root \<notin> set ts"
  shows "\<exists>n'. insert_node ts m h n = Some n' \<and> node_ok n' \<and> rn_segment n' = rn_segment n \<and>
    (\<forall>p k. route_at n' p k = (if p = ts \<and> k = m then Some h else route_at n p k))"
  using assms
proof (induction ts arbitrary: n)
  case Nil
  obtain s cs hs where n: "n = RouteNode s cs hs" by (cases n)
  have "route_at (RouteNode s cs (AList.update m h hs)) p k = (if p = [] \<and> k = m then Some h else route_at n p k)" for p k
    by (cases p) (simp_all add: n update_conv')
  then show ?case using Nil n by simp
next
  case (Cons t ts)
  obtain s cs hs where n: "n = RouteNode s cs hs" by (cases n)
  have d: "distinct (map rn_segment cs)" using Cons.prems n by simp
  obtain i cs' where f: "find_or_insert t cs = Some (i, cs')" "i < length cs'" "rn_segment (cs' ! i) = t"
      "distinct (map rn_segment cs')"
      "set cs' = (if t \<in> rn_segment ` set cs then set cs else insert (route_node_new t) (set cs))"
    using find_or_insert_total [OF d] by metis
  have ok: "\<forall>c \<in> set cs'. node_ok c" "Seg_Root \<notin> rn_segment ` set cs'"
    using Cons.prems n f(5) by (auto split: if_splits)
  obtain c' where c': "insert_node ts m h (cs' ! i) = Some c'" "node_ok c'" "rn_segment c' = t"
      "\<And>p k. route_at c' p k = (if p = ts \<and> k = m then Some h else route_at (cs' ! i) p k)"
    using Cons.IH [of "cs' ! i"] ok(1) f(2,3) Cons.prems(2) by auto
  let ?cs = "cs'[i := c']"
  have segs: "map rn_segment ?cs = map rn_segment cs'"
    using f(2,3) c'(3) by (metis list_update_id map_update)
  have dd: "distinct (map rn_segment ?cs)" using f(4) by (simp only: segs)
  have "route_at (RouteNode s ?cs hs) p k = (if p = t # ts \<and> k = m then Some h else route_at n p k)" for p k
  proof (cases p)
    case (Cons u q)
    have old: "find (\<lambda>c. rn_segment c = u) cs =
        (if u = t \<and> t \<notin> rn_segment ` set cs then None else find (\<lambda>c. rn_segment c = u) cs')"
    proof (cases "u \<in> rn_segment ` set cs")
      case True
      then obtain e where "find (\<lambda>c. rn_segment c = u) cs = Some e" using find_child_None [of u cs] by fastforce
      moreover from this have "find (\<lambda>c. rn_segment c = u) cs' = Some e"
        using find_child [OF d] find_child [OF f(4)] f(5) by (auto split: if_splits)
      ultimately show ?thesis using True by auto
    next
      case False
      then have "find (\<lambda>c. rn_segment c = u) cs' = None" if "u \<noteq> t" using that f(5) by (auto simp: find_child_None split: if_splits)
      moreover have "find (\<lambda>c. rn_segment c = u) cs = None" using False by (simp only: find_child_None) simp
      ultimately show ?thesis using False by (cases "u = t") simp_all
    qed
    show ?thesis
    proof (cases "u = t")
      case True
      have "find (\<lambda>c. rn_segment c = u) ?cs = Some c'"
        using True c'(3) f(2) by (simp add: find_child [OF dd] set_update_memI)
      moreover have "find (\<lambda>c. rn_segment c = u) cs' = Some (cs' ! i)"
        using True f(2,3) by (simp add: find_child [OF f(4)])
      moreover have "cs' ! i = route_node_new t" if "t \<notin> rn_segment ` set cs"
      proof -
        have "cs' ! i \<in> set cs'" using f(2) by simp
        then show ?thesis using that f(3,5) by auto
      qed
      ultimately show ?thesis using Cons True n c'(4) old by auto
    next
      case False
      have "c \<in> set ?cs \<longleftrightarrow> c \<in> set cs'" if "rn_segment c = u" for c
      proof -
        have "c \<noteq> c'" "c \<noteq> cs' ! i" using that False c'(3) f(3) by auto
        then show ?thesis using f(2) by (metis in_set_conv_nth length_list_update nth_list_update)
      qed
      then have "find (\<lambda>c. rn_segment c = u) ?cs = Some c \<longleftrightarrow> find (\<lambda>c. rn_segment c = u) cs' = Some c" for c
        unfolding find_child [OF dd] find_child [OF f(4)] by auto
      then have "find (\<lambda>c. rn_segment c = u) ?cs = find (\<lambda>c. rn_segment c = u) cs'" by (metis option.exhaust)
      then show ?thesis using Cons False n old by simp
    qed
  qed (simp add: n)
  moreover have "node_ok (RouteNode s ?cs hs)"
  proof -
    have "rn_segment ` set ?cs = rn_segment ` set cs'" using arg_cong [OF segs, of set] by simp
    then show ?thesis using dd ok c'(2) set_update_subset_insert [of cs' i c'] by auto
  qed
  ultimately show ?case using f(1) c'(1) n by simp
qed

section \<open>What a request should get\<close>









lemma or_else_None_right [simp]: "or_else a None = a"
  by (cases a) simp_all






section \<open>The search finds the best answer\<close>
















section \<open>Registered routes\<close>

record route =
  rt_method :: rust_str
  rt_path :: rust_str
  rt_callback :: er_value
  rt_param_names :: "rust_str list"

text \<open>The loop that inserts the routes of the list the server keeps into an empty tree.\<close>

fun rebuild_routes :: "route list \<Rightarrow> route_node \<Rightarrow> route_node option" where
  "rebuild_routes [] r = Some r"
| "rebuild_routes (x # xs) r =
     (case router_insert (rt_method x) (rt_path x) (rt_callback x) r of
        None \<Rightarrow> None
      | Some r' \<Rightarrow> rebuild_routes xs r')"

text \<open>Registering a route: the prefix of the mounted router, if there is one, is put before the path.\<close>

definition add_prefix :: "rust_str option \<Rightarrow> rust_str \<Rightarrow> rust_str" where
  "add_prefix prefix path =
     (case prefix of
        None \<Rightarrow> path
      | Some p \<Rightarrow>
          if path = p \<or> starts_with path (p @ [47]) then path
          else if path = [47] then p
          else if starts_with path [47] then p @ path
          else p @ [47] @ path)"

definition extract_param_names :: "rust_str \<Rightarrow> rust_str list" where
  "extract_param_names pattern =
     concat (map (\<lambda>part.
       if starts_with part [58] \<and> 1 < length part then [drop 1 part]
       else if starts_with part [42] then [if part = [42] then [42] else drop 1 part]
       else []) (split_on (\<lambda>b. b = 47) pattern))"

definition register_route ::
    "rust_str option \<Rightarrow> rust_str \<Rightarrow> rust_str \<Rightarrow> er_value \<Rightarrow> route_node \<times> route list \<Rightarrow> (route_node \<times> route list) option" where
  "register_route prefix method path callback s =
     (let full = add_prefix prefix path;
          x = \<lparr>rt_method = method, rt_path = full, rt_callback = callback, rt_param_names = extract_param_names full\<rparr>
      in map_option (\<lambda>r. (r, snd s @ [x])) (router_insert method full callback (fst s)))"

text \<open>\<^verbatim>\<open>match_route_path\<close>: one pattern against one path, which the server uses to bind the parameters of a route.\<close>

fun match_parts :: "rust_str list \<Rightarrow> rust_str list \<Rightarrow> route_params \<Rightarrow> route_params option" where
  "match_parts [] segs ps = (if segs = [] then Some ps else None)"
| "match_parts (pat # pats) segs ps =
     (if starts_with pat [42] \<and> pats = []
      then Some (ps((if pat = [42] then [42] else drop 1 pat) \<mapsto> rest_path segs))
      else case segs of
        [] \<Rightarrow> None
      | g # gs \<Rightarrow>
          if starts_with pat [58] then match_parts pats gs (ps(drop 1 pat \<mapsto> g))
          else if pat = g then match_parts pats gs ps
          else None)"

definition match_route_path :: "rust_str \<Rightarrow> rust_str \<Rightarrow> route_params option" where
  "match_route_path pattern path =
     (if pattern = [42] \<or> pattern = [47, 42]
      then Some [[42] \<mapsto> (if starts_with path [47] then drop 1 path else path)]
      else match_parts (split_on (\<lambda>b. b = 47) pattern) (split_on (\<lambda>b. b = 47) path) Map.empty)"

text \<open>The handler a list of routes gives to a pattern and a method: the last one registered for them.\<close>

definition registered :: "route list \<Rightarrow> segment_type list \<Rightarrow> rust_str \<Rightarrow> er_value option" where
  "registered xs p m = map_of (rev (map (\<lambda>x. ((route_pattern (rt_path x), route_method (rt_method x)), rt_callback x)) xs)) (p, m)"

lemma registered_Nil [simp]: "registered [] = (\<lambda>p m. None)"
  by (simp add: registered_def fun_eq_iff)

lemma registered_append:
  "registered (xs @ [x]) p m =
     (if p = route_pattern (rt_path x) \<and> m = route_method (rt_method x) then Some (rt_callback x) else registered xs p m)"
  by (simp add: registered_def)

lemma route_pattern_no_root: "Seg_Root \<notin> set (route_pattern path)"
  by (auto simp: route_pattern_def segment_of_def)

lemma rebuild_routes_append:
  "rebuild_routes (xs @ ys) r = (case rebuild_routes xs r of None \<Rightarrow> None | Some r' \<Rightarrow> rebuild_routes ys r')"
  by (induction xs arbitrary: r) (auto split: option.split)

lemma rebuild_routes_correct:
  "\<exists>r. rebuild_routes xs router_new = Some r \<and> node_ok r \<and> route_at r = registered xs"
proof (induction xs rule: rev_induct)
  case Nil
  show ?case by (simp add: router_new_def fun_eq_iff)
next
  case (snoc x xs)
  then obtain r where r: "rebuild_routes xs router_new = Some r" "node_ok r" "route_at r = registered xs" by blast
  obtain r' where r': "router_insert (rt_method x) (rt_path x) (rt_callback x) r = Some r'" "node_ok r'"
      "\<And>p m. route_at r' p m = registered (xs @ [x]) p m"
    using insert_node_correct [OF r(2) route_pattern_no_root [of "rt_path x"],
      where m = "route_method (rt_method x)" and h = "rt_callback x"] r(3)
    by (auto simp: router_insert_def registered_append)
  then show ?case using r(1) by (simp add: rebuild_routes_append fun_eq_iff)
qed

text \<open>The tree a registration leaves is the one the list of routes rebuilds.\<close>

lemma register_route_rebuilds:
  assumes "rebuild_routes (snd s) router_new = Some (fst s)"
  shows "\<exists>s'. register_route prefix method path callback s = Some s' \<and>
    rebuild_routes (snd s') router_new = Some (fst s') \<and> length (snd s') = Suc (length (snd s))"
proof -
  let ?full = "add_prefix prefix path"
  let ?x = "\<lparr>rt_method = method, rt_path = ?full, rt_callback = callback, rt_param_names = extract_param_names ?full\<rparr>"
  obtain r where r: "rebuild_routes (snd s @ [?x]) router_new = Some r" using rebuild_routes_correct by blast
  then have "router_insert method ?full callback (fst s) = Some r"
    using assms by (simp add: rebuild_routes_append split: option.splits)
  then show ?thesis using r by (simp add: register_route_def Let_def)
qed


lemmas path_simps =
  route_method_def route_pattern_def split_path_def segment_of_def trim_text_def bytes_of_def trim_end_def
  trim_start_def is_white_def char_code_def cont_byte_def ascii_upper_def

text \<open>A static route has precedence over a parameter, whatever the order of registration; parameters are bound.\<close>

definition example_routes :: "route list" where
  "example_routes =
     [\<lparr>rt_method = bytes_of ''GET'', rt_path = bytes_of ''/u/:id'', rt_callback = val_boolean True, rt_param_names = []\<rparr>,
      \<lparr>rt_method = bytes_of ''get'', rt_path = bytes_of ''/u/me'', rt_callback = val_null, rt_param_names = []\<rparr>]"

lemma example_patterns:
  "route_pattern (bytes_of ''/u/:id'') = [Seg_Static (bytes_of ''u''), Seg_Param (bytes_of ''id'')]"
  "route_pattern (bytes_of ''/u/me'') = [Seg_Static (bytes_of ''u''), Seg_Static (bytes_of ''me'')]"
  "split_path (bytes_of ''/u/me'') = [bytes_of ''u'', bytes_of ''me'']"
  "split_path (bytes_of ''/u/7?x=1'') = [bytes_of ''u'', bytes_of ''7'']"
  "route_method (bytes_of ''GET'') = bytes_of ''GET''"
  "route_method (bytes_of ''get'') = bytes_of ''GET''"
  by (simp_all add: path_simps)

lemma bytes_of_eq [simp]: "bytes_of s = bytes_of t \<longleftrightarrow> map (of_char :: char \<Rightarrow> u8) s = map of_char t"
  by (simp add: bytes_of_def)

lemma router_examples:
  "\<exists>r. rebuild_routes example_routes router_new = Some r \<and>
    router_find r (bytes_of ''GET'') (bytes_of ''/u/me'') = Some (val_null, Map.empty) \<and>
    router_find r (bytes_of ''get'') (bytes_of ''/u/7?x=1'') = Some (val_boolean True, [bytes_of ''id'' \<mapsto> bytes_of ''7''])"
  by (simp add: example_routes_def router_insert_def example_patterns router_new_def route_node_new_def
      find_or_insert_def child_index_def segment_rank_def router_find_def end_of_path_def exact_handler_def
      wildcard_child_def)

end
