(* ===== verification/Web_Date.thy ===== *)
theory Web_Date
  imports Vm_Strings
begin

text \<open>
  Dates in HTTP headers, \<^verbatim>\<open>format_http_date\<close> of \<^verbatim>\<open>er_http/utils.rs\<close>: the calendar date of a number of seconds
  by division alone. It is the date that counting the days of the Gregorian calendar from 1 January 1970
  gives. The numbers of the source are 64-bit; a time has less than \<open>2 ^ 64\<close> seconds, so none of them
  leaves its range and they are integers here.
\<close>

section \<open>The date of a day\<close>

text \<open>Century, day of the century, year of the century, day of the year (from 1 March), month (from March).\<close>

definition century_of :: "int \<Rightarrow> int" where
  "century_of a = (4 * a + 3) div 146097"

definition day_of_century :: "int \<Rightarrow> int" where
  "day_of_century a = a - (146097 * century_of a) div 4"

definition year_of_century :: "int \<Rightarrow> int" where
  "year_of_century c = (4 * c + 3) div 1461"

definition day_of_year :: "int \<Rightarrow> int" where
  "day_of_year c = c - (1461 * year_of_century c) div 4"

definition date_in :: "int \<Rightarrow> int \<Rightarrow> int \<Rightarrow> int \<times> int \<times> int" where
  "date_in b d e =
     (let m = (5 * e + 2) div 153;
          day = e - (153 * m + 2) div 5 + 1;
          month = m + 3 - 12 * (m div 10);
          year = 100 * b + d - 4800 + m div 10
      in (year, month, day))"

definition date_of_days :: "int \<Rightarrow> int \<times> int \<times> int" where
  "date_of_days days =
     (let a = days + 2472632; c = day_of_century a
      in date_in (century_of a) (year_of_century c) (day_of_year c))"

section \<open>The Gregorian calendar\<close>

definition leap_year :: "int \<Rightarrow> bool" where
  "leap_year y \<longleftrightarrow> 4 dvd y \<and> (\<not> 100 dvd y \<or> 400 dvd y)"

definition month_length :: "int \<Rightarrow> int \<Rightarrow> int" where
  "month_length y m = (if m = 2 then if leap_year y then 29 else 28 else if m \<in> {4, 6, 9, 11} then 30 else 31)"

fun next_day :: "int \<times> int \<times> int \<Rightarrow> int \<times> int \<times> int" where
  "next_day (y, m, d) =
     (if d < month_length y m then (y, m, d + 1)
      else if m < 12 then (y, m + 1, 1)
      else (y + 1, 1, 1))"

section \<open>Both agree\<close>

text \<open>A year that begins in March is as long as the February at its end makes it.\<close>

definition long_year :: "int \<Rightarrow> int \<Rightarrow> bool" where
  "long_year b d \<longleftrightarrow> d mod 4 = 3 \<and> (d = 99 \<longrightarrow> b mod 4 = 3)"

lemma dvd_shift: "(k :: int) dvd x + k * y \<longleftrightarrow> k dvd x"
  by (simp add: dvd_add_left_iff)

lemma long_year_leap:
  assumes "0 \<le> d" "d \<le> 99"
  shows "leap_year (100 * b + d - 4800 + 1) \<longleftrightarrow> long_year b d"
proof -
  have "4 dvd 100 * b + d - 4800 + 1 \<longleftrightarrow> d mod 4 = 3"
    using dvd_shift [of 4 "d + 1" "25 * b - 1200"] by (simp add: algebra_simps) presburger
  moreover have "100 dvd 100 * b + d - 4800 + 1 \<longleftrightarrow> d = 99"
  proof -
    have "100 dvd 100 * b + d - 4800 + 1 \<longleftrightarrow> 100 dvd d + 1"
      using dvd_shift [of 100 "d + 1" "b - 48"] by (simp add: algebra_simps)
    then show ?thesis using assms zdvd_imp_le [of 100 "d + 1"] by auto
  qed
  moreover have "400 dvd 100 * b + d - 4800 + 1 \<longleftrightarrow> b mod 4 = 3" if "d = 99"
  proof -
    have "400 dvd 100 * b + d - 4800 + 1 \<longleftrightarrow> 100 * 4 dvd 100 * (b + 1 - 48)" using that by (simp add: algebra_simps)
    also have "\<dots> \<longleftrightarrow> 4 dvd b + 1 - 48" by (rule dvd_times_left_cancel_iff) simp
    also have "\<dots> \<longleftrightarrow> b mod 4 = 3" by presburger
    finally show ?thesis .
  qed
  ultimately show ?thesis by (auto simp: leap_year_def long_year_def)
qed

definition in_year :: "int \<Rightarrow> int \<Rightarrow> int \<Rightarrow> bool" where
  "in_year b d e \<longleftrightarrow> 0 \<le> d \<and> d \<le> 99 \<and> 0 \<le> e \<and> (if long_year b d then e \<le> 365 else e \<le> 364)"

definition day_number :: "int \<Rightarrow> int \<Rightarrow> int \<Rightarrow> int" where
  "day_number b d e = (146097 * b) div 4 + (1461 * d) div 4 + e"

lemma quarters: "(146097 * b) div 4 = 36524 * b + b div 4" "(1461 * d) div 4 = 365 * d + d div 4" for b d :: int
  using div_mult_self2 [of 4 b "36524 * b"] div_mult_self2 [of 4 d "365 * d"] by (simp_all add: algebra_simps)

lemma quarter: "4 * (x div 4) = x - x mod 4" "0 \<le> x mod 4" "x mod 4 \<le> 3" for x :: int
  by (simp_all add: minus_mod_eq_mult_div [symmetric])

lemma century_bound:
  fixes d k e r s :: int
  assumes "e \<le> 364 \<or> d \<le> 98 \<or> d = 99 \<and> r = 3 \<and> s = 3" "d \<le> 99" "e \<le> 365" "k \<le> 24" "0 \<le> s"
  shows "1460 * d + 4 * k + 4 * e + 3 - s \<le> 146096"
  using assms by (elim disjE conjE) linarith+

lemma in_year_bounds:
  assumes "in_year b d e"
  shows "1460 * d + 4 * (d div 4) + 4 * e + 3 - b mod 4 \<in> {0 .. 146096}" "4 * e + 3 - d mod 4 \<in> {0 .. 1460}"
proof -
  note q = quarter [of b] quarter [of d]
  have bounds: "0 \<le> d" "d \<le> 99" "0 \<le> e" "e \<le> 365" using assms by (auto simp: in_year_def split: if_splits)
  have d: "d mod 4 \<le> d" using bounds(1) by (rule zmod_le_nonneg_dividend)
  have q24: "d div 4 \<le> 24" using zdiv_mono1 [of d 99 4] bounds(2) by simp
  have "e \<le> 364 \<or> d \<le> 98 \<or> d = 99 \<and> d mod 4 = 3 \<and> b mod 4 = 3"
    using assms by (auto simp: in_year_def long_year_def split: if_splits)
  then have "1460 * d + 4 * (d div 4) + 4 * e + 3 - b mod 4 \<le> 146096"
    using century_bound [of e d "d mod 4" "b mod 4" "d div 4"] bounds q q24 by blast
  moreover have "0 \<le> 1460 * d + 4 * (d div 4) + 4 * e + 3 - b mod 4" using bounds q d by linarith
  ultimately show "1460 * d + 4 * (d div 4) + 4 * e + 3 - b mod 4 \<in> {0 .. 146096}" by simp
  have "e \<le> 364 \<or> d mod 4 = 3" using assms by (auto simp: in_year_def long_year_def split: if_splits)
  then have "4 * e + 3 - d mod 4 \<le> 1460" using bounds q by (elim disjE; linarith)
  moreover have "0 \<le> 4 * e + 3 - d mod 4" using bounds q by linarith
  ultimately show "4 * e + 3 - d mod 4 \<in> {0 .. 1460}" by simp
qed

lemma day_number_century:
  assumes "in_year b d e"
  shows "century_of (day_number b d e) = b"
  unfolding century_of_def day_number_def quarters
proof (rule int_div_pos_eq)
  show "4 * (36524 * b + b div 4 + (365 * d + d div 4) + e) + 3 = 146097 * b + (1460 * d + 4 * (d div 4) + 4 * e + 3 - b mod 4)"
    using quarter(1) [of b] by simp
qed (use in_year_bounds(1) [OF assms] in auto)

lemma day_number_year:
  assumes "in_year b d e"
  shows "day_of_century (day_number b d e) = (1461 * d) div 4 + e"
    and "year_of_century ((1461 * d) div 4 + e) = d"
    and "day_of_year ((1461 * d) div 4 + e) = e"
proof -
  show "day_of_century (day_number b d e) = (1461 * d) div 4 + e"
    using day_number_century [OF assms] by (simp add: day_of_century_def day_number_def)
  show d: "year_of_century ((1461 * d) div 4 + e) = d"
    unfolding year_of_century_def quarters
  proof (rule int_div_pos_eq)
    show "4 * (365 * d + d div 4 + e) + 3 = 1461 * d + (4 * e + 3 - d mod 4)"
      using quarter(1) [of d] by simp
  qed (use in_year_bounds(2) [OF assms] in auto)
  show "day_of_year ((1461 * d) div 4 + e) = e" by (simp add: day_of_year_def d)
qed

lemma date_of_day_number: "in_year b d e \<Longrightarrow> date_of_days (day_number b d e - 2472632) = date_in b d e"
  by (simp add: date_of_days_def Let_def day_number_century day_number_year)

text \<open>The day after, in a year that begins in March.\<close>

definition next_in_year :: "int \<Rightarrow> int \<Rightarrow> int \<Rightarrow> int \<times> int \<times> int" where
  "next_in_year b d e =
     (if e < (if long_year b d then 365 else 364) then (b, d, e + 1)
      else if d < 99 then (b, d + 1, 0)
      else (b + 1, 0, 0))"

lemma next_in_year:
  assumes "in_year b d e" "next_in_year b d e = (b', d', e')"
  shows "in_year b' d' e'" "day_number b' d' e' = day_number b d e + 1"
proof -
  show "in_year b' d' e'"
    using assms by (simp add: next_in_year_def in_year_def split: if_splits)
  consider (same) "(b', d', e') = (b, d, e + 1)" | (year) "(b', d', e') = (b, d + 1, 0)" "d < 99" "e = (if long_year b d then 365 else 364)"
    | (century) "(b', d', e') = (b + 1, 0, 0)" "d = 99" "e = (if long_year b d then 365 else 364)"
    using assms by (auto simp: next_in_year_def in_year_def split: if_splits)
  then show "day_number b' d' e' = day_number b d e + 1"
  proof cases
    case year
    have "(d + 1) div 4 = d div 4 + (if d mod 4 = 3 then 1 else 0)" by presburger
    then show ?thesis using year by (auto simp: day_number_def quarters long_year_def)
  next
    case century
    have "(b + 1) div 4 = b div 4 + (if b mod 4 = 3 then 1 else 0)" by presburger
    then show ?thesis using century by (auto simp: day_number_def quarters long_year_def)
  qed (simp add: day_number_def)
qed

text \<open>The month from March and the day in it, from the day of the year.\<close>

lemma month_of_day:
  fixes e :: int
  assumes "0 \<le> e" "e \<le> 365"
  obtains m where "(5 * e + 2) div 153 = m" "0 \<le> m" "m \<le> 11" "(153 * m + 2) div 5 \<le> e"
    "e < (153 * (m + 1) + 2) div 5"
proof -
  let ?m = "(5 * e + 2) div 153"
  have m: "153 * ?m \<le> 5 * e + 2" "5 * e + 2 < 153 * (?m + 1)"
    using div_mult_mod_eq [of "5 * e + 2" 153] pos_mod_bound [of 153 "5 * e + 2"] pos_mod_sign [of 153 "5 * e + 2"]
    by simp_all
  have "0 \<le> ?m" "?m \<le> 11" using m assms by linarith+
  moreover have "(153 * ?m + 2) div 5 \<le> e"
    using zdiv_mono1 [of "153 * ?m + 2" "5 * e + 4" 5] m(1) by simp
  moreover have "e < (153 * (?m + 1) + 2) div 5"
    using zdiv_mono1 [of "5 * e + 5" "153 * (?m + 1) + 2" 5] m(2) by simp
  ultimately show ?thesis using that [of ?m] by blast
qed

lemma months: "0 \<le> (m :: int) \<Longrightarrow> m \<le> 11 \<Longrightarrow> m \<in> {0, 1, 2, 3, 4, 5, 6, 7, 8, 9, 10, 11}"
  by simp presburger

lemma date_in_month:
  assumes "0 \<le> m" "m \<le> 11" "(153 * m + 2) div 5 \<le> e" "e < (153 * (m + 1) + 2) div 5"
  shows "date_in b d e = (100 * b + d - 4800 + m div 10, m + 3 - 12 * (m div 10), e - (153 * m + 2) div 5 + 1)"
proof -
  have "153 * m \<le> 5 * e + 2" "5 * e + 2 < 153 * (m + 1)"
    using months [OF assms(1,2)] assms(3,4) by auto
  then have "(5 * e + 2) div 153 = m" by (intro int_div_pos_eq [where r = "5 * e + 2 - 153 * m"]) simp_all
  then show ?thesis by (simp add: date_in_def)
qed

lemma step_in_month:
  assumes m: "m \<in> {0, 1, 2, 3, 4, 5, 6, 7, 8, 9, 10, 11}" "(153 * m + 2) div 5 \<le> e" "e + 1 < (153 * (m + 1) + 2) div 5"
    and last: "m = 11 \<longrightarrow> e < (if long_year b d then 365 else 364)"
    and leap: "leap_year (100 * b + d - 4800 + 1) \<longleftrightarrow> long_year b d"
  shows "date_in b d (e + 1) = next_day (date_in b d e)"
proof -
  have "date_in b d (e + 1) = (100 * b + d - 4800 + m div 10, m + 3 - 12 * (m div 10), e + 1 - (153 * m + 2) div 5 + 1)"
    by (rule date_in_month) (use m in auto)
  moreover have "date_in b d e = (100 * b + d - 4800 + m div 10, m + 3 - 12 * (m div 10), e - (153 * m + 2) div 5 + 1)"
    by (rule date_in_month) (use m in auto)
  ultimately show ?thesis
    using m last leap by (elim insertE emptyE) (simp_all add: month_length_def algebra_simps split: if_splits)
qed

lemma step_to_month:
  assumes m: "m \<in> {0, 1, 2, 3, 4, 5, 6, 7, 8, 9, 10}" "(153 * m + 2) div 5 \<le> e" "e + 1 = (153 * (m + 1) + 2) div 5"
  shows "date_in b d (e + 1) = next_day (date_in b d e)"
proof -
  have "date_in b d (e + 1) = (100 * b + d - 4800 + (m + 1) div 10, m + 1 + 3 - 12 * ((m + 1) div 10), e + 1 - (153 * (m + 1) + 2) div 5 + 1)"
    by (rule date_in_month) (use m in auto)
  moreover have "date_in b d e = (100 * b + d - 4800 + m div 10, m + 3 - 12 * (m div 10), e - (153 * m + 2) div 5 + 1)"
    by (rule date_in_month) (use m in auto)
  ultimately show ?thesis
    using m by (elim insertE emptyE) (simp_all add: month_length_def)
qed

lemma date_in_next:
  assumes "in_year b d e" "next_in_year b d e = (b', d', e')"
  shows "date_in b' d' e' = next_day (date_in b d e)"
proof -
  have e: "0 \<le> e" "e \<le> 365" using assms(1) by (auto simp: in_year_def split: if_splits)
  obtain m where m: "0 \<le> m" "m \<le> 11" "(153 * m + 2) div 5 \<le> e" "e < (153 * (m + 1) + 2) div 5"
    using month_of_day [OF e] by metis
  note ms = months [OF m(1,2)]
  have leap: "leap_year (100 * b + d - 4800 + 1) \<longleftrightarrow> long_year b d"
    using assms(1) by (intro long_year_leap) (auto simp: in_year_def)
  show ?thesis
  proof (cases "e = (if long_year b d then 365 else 364)")
    case True
    then have "364 \<le> e" by (simp split: if_splits)
    then have m11: "m = 11" using ms m(4) by (elim insertE emptyE) simp_all
    have "e' = 0" "100 * b' + d' = 100 * b + d + 1"
      using True assms by (auto simp: next_in_year_def in_year_def split: if_splits)
    then have "date_in b' d' e' = (100 * b + d - 4800 + 1, 3, 1)" by (simp add: date_in_month [of 0])
    moreover have "date_in b d e = (100 * b + d - 4800 + 1, 2, e - 336)"
      using m m11 by (simp add: date_in_month [of 11])
    ultimately show ?thesis using True leap by (simp add: month_length_def)
  next
    case False
    then have e': "e < (if long_year b d then 365 else 364)" "(b', d', e') = (b, d, e + 1)"
      using assms by (auto simp: in_year_def next_in_year_def split: if_splits)
    show ?thesis
    proof (cases "e + 1 < (153 * (m + 1) + 2) div 5")
      case True
      then show ?thesis using step_in_month [OF ms m(3) True _ leap] e' by simp
    next
      case False
      then have last: "e + 1 = (153 * (m + 1) + 2) div 5"
        using m(4) by (meson antisym_conv not_le zless_imp_add1_zle)
      then have "m \<noteq> 11" using e(2) by auto
      then have "m \<in> {0, 1, 2, 3, 4, 5, 6, 7, 8, 9, 10}" using ms by blast
      then show ?thesis using step_to_month [OF _ m(3) last] e'(2) by simp
    qed
  qed
qed

lemma date_counts_days:
  "\<exists>b d e. in_year b d e \<and> day_number b d e = int n + 2472632 \<and>
     date_in b d e = (next_day ^^ n) (1970, 1, 1)"
proof (induction n)
  case 0
  have "in_year 67 69 306" "day_number 67 69 306 = 2472632" "date_in 67 69 306 = (1970, 1, 1)"
    by (simp_all add: in_year_def long_year_def day_number_def date_in_def)
  then show ?case by auto
next
  case (Suc n)
  then obtain b d e where a: "in_year b d e" "day_number b d e = int n + 2472632"
      "date_in b d e = (next_day ^^ n) (1970, 1, 1)" by blast
  obtain b' d' e' where n: "next_in_year b d e = (b', d', e')" using prod_cases3 by blast
  show ?case
    using next_in_year [OF a(1) n] date_in_next [OF a(1) n] a(2,3)
    by (intro exI [of _ b'] exI [of _ d'] exI [of _ e']) (simp del: next_day.simps)
qed

lemma date_of_days_counts: "date_of_days (int n) = (next_day ^^ n) (1970, 1, 1)"
  using date_counts_days [of n] date_of_day_number by (metis add_diff_cancel_right')

section \<open>The header text\<close>

definition weekday_name :: "int \<Rightarrow> string" where
  "weekday_name days =
     (let k = (days + 4) mod 7 in
      if k = 0 then ''Sun'' else if k = 1 then ''Mon'' else if k = 2 then ''Tue'' else if k = 3 then ''Wed''
      else if k = 4 then ''Thu'' else if k = 5 then ''Fri'' else ''Sat'')"

definition month_name :: "int \<Rightarrow> string" where
  "month_name m =
     (if m = 1 then ''Jan'' else if m = 2 then ''Feb'' else if m = 3 then ''Mar'' else if m = 4 then ''Apr''
      else if m = 5 then ''May'' else if m = 6 then ''Jun'' else if m = 7 then ''Jul'' else if m = 8 then ''Aug''
      else if m = 9 then ''Sep'' else if m = 10 then ''Oct'' else if m = 11 then ''Nov'' else ''Dec'')"

text \<open>\<^verbatim>\<open>{}\<close> and \<^verbatim>\<open>{:02}\<close> of a number that is not negative.\<close>

definition decimal :: "int \<Rightarrow> string" where
  "decimal n = digits_of_nat (nat n)"

definition two_digits :: "int \<Rightarrow> string" where
  "two_digits n = (if n < 10 then ''0'' else []) @ decimal n"

definition format_http_date :: "u64 \<Rightarrow> string" where
  "format_http_date since_epoch =
     (let total = uint since_epoch;
          days = total div 86400;
          secs = total mod 86400;
          hours = secs div 3600;
          minutes = secs mod 3600 div 60;
          seconds = secs mod 3600 mod 60;
          (year, month, day) = date_of_days days
      in weekday_name days @ '', '' @ two_digits day @ '' '' @ month_name month @ '' '' @ decimal year @ '' '' @
         two_digits hours @ '':'' @ two_digits minutes @ '':'' @ two_digits seconds @ '' GMT'')"

definition weekdays :: "string list" where
  "weekdays = [''Thu'', ''Fri'', ''Sat'', ''Sun'', ''Mon'', ''Tue'', ''Wed'']"

definition month_names :: "string list" where
  "month_names = [''Jan'', ''Feb'', ''Mar'', ''Apr'', ''May'', ''Jun'', ''Jul'', ''Aug'', ''Sep'', ''Oct'', ''Nov'', ''Dec'']"

text \<open>A clock that counts the days of the calendar and the weekdays from Thursday, 1 January 1970.\<close>

definition http_date :: "nat \<Rightarrow> nat \<Rightarrow> nat \<Rightarrow> nat \<Rightarrow> string" where
  "http_date n h mi s =
     (let (y, m, d) = (next_day ^^ n) (1970, 1, 1) in
      hd (rotate n weekdays) @ '', '' @ two_digits d @ '' '' @ month_names ! nat (m - 1) @ '' '' @ decimal y @ '' '' @
      two_digits (int h) @ '':'' @ two_digits (int mi) @ '':'' @ two_digits (int s) @ '' GMT'')"

lemma weekday_name_rotates: "weekday_name (int n) = hd (rotate n weekdays)"
proof -
  have "hd (rotate n weekdays) = weekdays ! (n mod 7)"
    by (simp add: hd_rotate_conv_nth weekdays_def)
  moreover have "n mod 7 \<in> {0, 1, 2, 3, 4, 5, 6}" by simp presburger
  moreover have "(int n + 4) mod 7 = int ((n mod 7 + 4) mod 7)" by (simp add: mod_simps zmod_int)
  ultimately show ?thesis by (auto simp: weekday_name_def weekdays_def)
qed

lemma next_day_month: "(next_day ^^ n) (1970, 1, 1) = (y, m, d) \<Longrightarrow> 1 \<le> m \<and> m \<le> 12"
proof (induction n arbitrary: y m d)
  case (Suc n)
  obtain y' m' d' where "(next_day ^^ n) (1970, 1, 1) = (y', m', d')" using prod_cases3 by blast
  then show ?case using Suc by (auto split: if_splits)
qed simp

lemma month_name_nth: "1 \<le> m \<Longrightarrow> m \<le> 12 \<Longrightarrow> month_name m = month_names ! nat (m - 1)"
proof -
  assume "1 \<le> m" "m \<le> 12"
  then have "m \<in> {1, 2, 3, 4, 5, 6, 7, 8, 9, 10, 11, 12}" by simp presburger
  then show ?thesis by (auto simp: month_name_def month_names_def)
qed

lemma uint_of_nat_u64: "n < 18446744073709551616 \<Longrightarrow> uint (of_nat n :: u64) = int n"
  unfolding uint_nat by (simp only: unat_of_nat_u64)

text \<open>C38: The date in an HTTP header is the one that counting days in the Gregorian calendar, and weekdays, from
  Thursday, 1 January 1970 gives, at the time of day that splits the seconds of the last day.\<close>

theorem http_date_counts_days:
  assumes "h < 24" "mi < 60" "s < 60" "n * 86400 + h * 3600 + mi * 60 + s < 2 ^ 64"
  shows "format_http_date (of_nat (n * 86400 + h * 3600 + mi * 60 + s)) = http_date n h mi s"
proof -
  let ?t = "n * 86400 + h * 3600 + mi * 60 + s"
  have split: "(a * k + r) div k = a" "(a * k + r) mod k = r" if "0 \<le> r" "r < k" for a k r :: int
    using that by simp_all
  have "?t < 18446744073709551616" using assms(4) by simp
  then have "uint (of_nat ?t :: u64) = int n * 86400 + (int h * 3600 + (int mi * 60 + int s))"
    by (simp add: uint_of_nat_u64 del: of_nat_add of_nat_mult)
  moreover have "0 \<le> int mi * 60 + int s" "int mi * 60 + int s < 3600"
    "0 \<le> int h * 3600 + (int mi * 60 + int s)" "int h * 3600 + (int mi * 60 + int s) < 86400"
    "0 \<le> int s" "int s < 60"
    using assms(1-3) by simp_all
  note split [OF this(1,2)] split [OF this(3,4)] split [OF this(5,6)]
  moreover obtain y m d where "(next_day ^^ n) (1970, 1, 1) = (y, m, d)" using prod_cases3 by blast
  ultimately show ?thesis
    using next_day_month [of n y m d] month_name_nth [of m]
    by (simp only: format_http_date_def http_date_def Let_def date_of_days_counts weekday_name_rotates prod.case)
qed

theorem http_date_counts_days_witness:
  "format_http_date 1709208000 = http_date 19782 12 0 0 \<and>
   http_date 19782 12 0 0 = ''Thu, 29 Feb 2024 12:00:00 GMT''"
proof -
  have "date_of_days 19782 = (2024, 2, 29)" by code_simp
  moreover have "decimal 2024 = ''2024''" "two_digits 29 = ''29''" "two_digits 12 = ''12''" "two_digits 0 = ''00''"
    by code_simp+
  ultimately have "format_http_date 1709208000 = ''Thu, 29 Feb 2024 12:00:00 GMT''"
    by (simp add: format_http_date_def Let_def weekday_name_def month_name_def)
  then show ?thesis using http_date_counts_days [of 12 0 0 19782] by simp
qed

end
