(* ===== verification/Web_Static.thy ===== *)
theory Web_Static
  imports Web_Router Web_Date
begin

text \<open>
  What the HTTP server makes of the text of a request and how it serves files: \<^verbatim>\<open>er_http/utils.rs\<close> and
  \<^verbatim>\<open>er_http/static_files.rs\<close>. A range that is satisfiable lies inside the file and its answer carries
  exactly those bytes. A served file lies below the directory of its mount, unless the decoded rest of the
  request is an absolute path: then that file is served, wherever it is. The file system is a parameter.
\<close>

section \<open>Percent decoding\<close>

definition hex_digit :: "u8 \<Rightarrow> u8 option" where
  "hex_digit b =
     (if 48 \<le> b \<and> b \<le> 57 then Some (b - 48)
      else if 97 \<le> b \<and> b \<le> 102 then Some (b - 87)
      else if 65 \<le> b \<and> b \<le> 70 then Some (b - 55)
      else None)"

text \<open>\<^verbatim>\<open>u8::from_str_radix\<close> of two bytes; like every integer parser of Rust it takes a leading plus.\<close>

definition hex_pair :: "u8 \<Rightarrow> u8 \<Rightarrow> u8 option" where
  "hex_pair a b =
     (if a = 43 then hex_digit b
      else case (hex_digit a, hex_digit b) of (Some x, Some y) \<Rightarrow> Some (16 * x + y) | _ \<Rightarrow> None)"

fun percent_loop :: "rust_str \<Rightarrow> rust_str" where
  "percent_loop [] = []"
| "percent_loop [c] = [if c = 43 then 32 else c]"
| "percent_loop [c, d] = (if c = 43 then 32 else c) # percent_loop [d]"
| "percent_loop (c # d # e # cs) =
     (if c = 37 then
        (case hex_pair d e of
           Some b \<Rightarrow> b # percent_loop cs
         | None \<Rightarrow> c # percent_loop (d # e # cs))
      else (if c = 43 then 32 else c) # percent_loop (d # e # cs))"

definition percent_decode :: "rust_str \<Rightarrow> rust_str" where
  "percent_decode s = (let b = percent_loop s in if utf8_valid b then b else s)"

section \<open>Query strings and cookies\<close>

text \<open>\<^verbatim>\<open>splitn(2, '=')\<close>\<close>

definition split_pair :: "rust_str \<Rightarrow> rust_str \<times> rust_str" where
  "split_pair s = (takeWhile (\<lambda>b. b \<noteq> 61) s, drop 1 (dropWhile (\<lambda>b. b \<noteq> 61) s))"

definition parse_query_string :: "rust_str \<Rightarrow> route_params" where
  "parse_query_string raw =
     (if raw = [] then Map.empty
      else fold (\<lambda>pair m. if pair = [] then m
             else let (k, v) = split_pair pair in m(percent_decode k \<mapsto> percent_decode v))
           (split_on (\<lambda>b. b = 38) raw) Map.empty)"

definition parse_cookies :: "rust_str \<Rightarrow> route_params" where
  "parse_cookies header =
     (if header = [] then Map.empty
      else fold (\<lambda>pair m.
             let trimmed = trim_text pair in
             if trimmed = [] then m
             else let (k, v) = split_pair trimmed in
               if trim_text k = [] then m else m(trim_text k \<mapsto> trim_text v))
           (split_on (\<lambda>b. b = 59) header) Map.empty)"

section \<open>Headers\<close>

definition mime_types :: "(string \<times> string) list" where
  "mime_types =
    [(''html'', ''text/html; charset=utf-8''), (''htm'', ''text/html; charset=utf-8''),
     (''css'', ''text/css; charset=utf-8''),
     (''js'', ''application/javascript; charset=utf-8''), (''mjs'', ''application/javascript; charset=utf-8''),
     (''json'', ''application/json; charset=utf-8''), (''png'', ''image/png''),
     (''jpg'', ''image/jpeg''), (''jpeg'', ''image/jpeg''), (''gif'', ''image/gif''), (''svg'', ''image/svg+xml''),
     (''ico'', ''image/x-icon''), (''webp'', ''image/webp''), (''avif'', ''image/avif''), (''mp4'', ''video/mp4''),
     (''webm'', ''video/webm''), (''ogg'', ''video/ogg''), (''mp3'', ''audio/mpeg''), (''wav'', ''audio/wav''),
     (''pdf'', ''application/pdf''), (''zip'', ''application/zip''), (''woff'', ''font/woff''),
     (''woff2'', ''font/woff2''), (''ttf'', ''font/ttf''), (''otf'', ''font/otf''),
     (''txt'', ''text/plain; charset=utf-8''), (''xml'', ''application/xml; charset=utf-8''), (''wasm'', ''application/wasm'')]"

definition get_mime_type_for_extension :: "rust_str \<Rightarrow> string" where
  "get_mime_type_for_extension ext =
     (case map_of (map (\<lambda>(e, t). (bytes_of e, t)) mime_types) ext of
        Some t \<Rightarrow> t | None \<Rightarrow> ''application/octet-stream'')"

definition status_lines :: "(nat \<times> string) list" where
  "status_lines =
    [(200, ''200 OK''), (201, ''201 Created''), (202, ''202 Accepted''), (204, ''204 No Content''),
     (206, ''206 Partial Content''), (301, ''301 Moved Permanently''), (302, ''302 Found''), (304, ''304 Not Modified''),
     (307, ''307 Temporary Redirect''), (308, ''308 Permanent Redirect''), (400, ''400 Bad Request''),
     (401, ''401 Unauthorized''), (403, ''403 Forbidden''), (404, ''404 Not Found''), (405, ''405 Method Not Allowed''),
     (409, ''409 Conflict''), (416, ''416 Range Not Satisfiable''), (429, ''429 Too Many Requests''),
     (500, ''500 Internal Server Error''), (501, ''501 Not Implemented''), (502, ''502 Bad Gateway''),
     (503, ''503 Service Unavailable'')]"

definition status_code_to_status_line :: "nat \<Rightarrow> string" where
  "status_code_to_status_line n = (case map_of status_lines n of Some l \<Rightarrow> l | None \<Rightarrow> ''200 OK'')"

fun hex_of_nat :: "nat \<Rightarrow> string" where
  "hex_of_nat n =
     (let c = (\<lambda>k. char_of (if k < 10 then 48 + k else 87 + k)) in
      if n < 16 then [c n] else hex_of_nat (n div 16) @ [c (n mod 16)])"

declare hex_of_nat.simps [simp del]

definition calculate_etag :: "u64 \<Rightarrow> u64 \<Rightarrow> u32 \<Rightarrow> string" where
  "calculate_etag file_len secs nanos =
     CHR 0x22 # hex_of_nat (unat file_len) @ ''-'' @ hex_of_nat (unat secs) @ hex_of_nat (unat nanos) @ [CHR 0x22]"

section \<open>Ranges\<close>

datatype range_header = Satisfiable u64 u64 | Unsatisfiable | No_Range

text \<open>\<^verbatim>\<open>str::parse::<u64>\<close>\<close>

definition parse_u64 :: "rust_str \<Rightarrow> u64 option" where
  "parse_u64 s =
     (let ds = (if starts_with s [43] then drop 1 s else s);
          n = foldl (\<lambda>a b. 10 * a + (unat b - 48)) (0 :: nat) ds
      in if ds = [] \<or> (\<exists>b \<in> set ds. b < 48 \<or> 57 < b) \<or> 2 ^ 64 \<le> n then None else Some (of_nat n))"

definition last_byte :: "u64 \<Rightarrow> u64" where
  "last_byte file_len = (if 0 < file_len then file_len - 1 else 0)"

definition suffix_range :: "u64 \<Rightarrow> u64 \<Rightarrow> range_header" where
  "suffix_range n file_len =
     (if n = 0 then Unsatisfiable
      else Satisfiable (if file_len \<le> n then 0 else file_len - n) (last_byte file_len))"

definition open_range :: "u64 \<Rightarrow> u64 \<Rightarrow> range_header" where
  "open_range start file_len = (if file_len \<le> start then Unsatisfiable else Satisfiable start (last_byte file_len))"

definition closed_range :: "u64 \<Rightarrow> u64 \<Rightarrow> u64 \<Rightarrow> range_header" where
  "closed_range start end_pos file_len =
     (if end_pos < start \<or> file_len \<le> start then Unsatisfiable else Satisfiable start (min end_pos (last_byte file_len)))"

definition parse_range_header :: "rust_str \<Rightarrow> u64 \<Rightarrow> range_header" where
  "parse_range_header range_str file_len =
     (let trimmed = trim_text range_str in
      if \<not> starts_with trimmed (bytes_of ''bytes='') then No_Range
      else
        let first_range = trim_text (takeWhile (\<lambda>b. b \<noteq> 44) (drop 6 trimmed)) in
        if 45 \<notin> set first_range then Unsatisfiable
        else
          let start_str = trim_text (takeWhile (\<lambda>b. b \<noteq> 45) first_range);
              end_str = trim_text (drop 1 (dropWhile (\<lambda>b. b \<noteq> 45) first_range))
          in if start_str = [] then
               (case parse_u64 end_str of Some n \<Rightarrow> suffix_range n file_len | None \<Rightarrow> Unsatisfiable)
             else if end_str = [] then
               (case parse_u64 start_str of Some s \<Rightarrow> open_range s file_len | None \<Rightarrow> Unsatisfiable)
             else
               (case (parse_u64 start_str, parse_u64 end_str) of
                  (Some s, Some e) \<Rightarrow> closed_range s e file_len
                | _ \<Rightarrow> Unsatisfiable))"

section \<open>Files\<close>

record file_system =
  fs_is_dir :: "rust_str \<Rightarrow> bool"
  fs_is_file :: "rust_str \<Rightarrow> bool"
  fs_metadata :: "rust_str \<Rightarrow> (u64 \<times> u64 \<times> u32) option"
  fs_read :: "rust_str \<Rightarrow> u8 list option"

record http_response =
  hr_status :: string
  hr_headers :: "(string \<times> rust_str) list"
  hr_body :: "u8 list"

text \<open>\<^verbatim>\<open>Path::join\<close> on Unix: an absolute path replaces the base.\<close>

definition path_join :: "rust_str \<Rightarrow> rust_str \<Rightarrow> rust_str" where
  "path_join base p =
     (if starts_with p [47] then p
      else if base = [] \<or> ends_with base [47] then base @ p
      else base @ [47] @ p)"

text \<open>\<^verbatim>\<open>Path::file_name\<close> and \<^verbatim>\<open>Path::extension\<close>\<close>

definition file_name :: "rust_str \<Rightarrow> rust_str option" where
  "file_name p =
     (let cs = filter (\<lambda>c. c \<noteq> [] \<and> c \<noteq> [46]) (split_on (\<lambda>b. b = 47) p)
      in if cs = [] \<or> last cs = [46, 46] then None else Some (last cs))"

definition path_extension :: "rust_str \<Rightarrow> rust_str option" where
  "path_extension p =
     (case file_name p of
        None \<Rightarrow> None
      | Some f \<Rightarrow> (case rfind_sub [46] f of
            None \<Rightarrow> None
          | Some i \<Rightarrow> if i = 0 then None else Some (drop (i + 1) f)))"

definition str_or :: "rust_str option \<Rightarrow> rust_str" where
  "str_or r = (case r of Some t \<Rightarrow> t | None \<Rightarrow> [])"

text \<open>Seeking and reading exactly \<open>n\<close> bytes.\<close>

definition read_at :: "file_system \<Rightarrow> rust_str \<Rightarrow> nat \<Rightarrow> nat \<Rightarrow> u8 list option" where
  "read_at fs path start n =
     (case fs_read fs path of
        None \<Rightarrow> None
      | Some bs \<Rightarrow> if start + n \<le> length bs then Some (take n (drop start bs)) else None)"

definition not_modified :: "string \<Rightarrow> http_response" where
  "not_modified etag = \<lparr>hr_status = ''304 Not Modified'', hr_headers = [(''ETag'', bytes_of etag)], hr_body = []\<rparr>"

definition partial_content :: "string \<Rightarrow> string \<Rightarrow> u64 \<Rightarrow> u64 \<Rightarrow> u64 \<Rightarrow> u8 list \<Rightarrow> http_response" where
  "partial_content mime etag start end_pos file_len body =
     \<lparr>hr_status = ''206 Partial Content'',
      hr_headers =
        [(''Content-Type'', bytes_of mime),
         (''Content-Range'', bytes_of (''bytes '' @ digits_of_nat (unat start) @ ''-'' @ digits_of_nat (unat end_pos) @ ''/'' @
            digits_of_nat (unat file_len))),
         (''Content-Length'', bytes_of (digits_of_nat (length body))),
         (''Accept-Ranges'', bytes_of ''bytes''), (''ETag'', bytes_of etag)],
      hr_body = body\<rparr>"

definition not_satisfiable :: "u64 \<Rightarrow> http_response" where
  "not_satisfiable file_len =
     \<lparr>hr_status = ''416 Range Not Satisfiable'',
      hr_headers = [(''Content-Range'', bytes_of (''bytes */'' @ digits_of_nat (unat file_len)))], hr_body = []\<rparr>"

definition full_content :: "string \<Rightarrow> string \<Rightarrow> string \<Rightarrow> u8 list \<Rightarrow> http_response" where
  "full_content mime etag last_modified content =
     \<lparr>hr_status = ''200 OK'',
      hr_headers =
        [(''Content-Type'', bytes_of mime), (''Accept-Ranges'', bytes_of ''bytes''), (''ETag'', bytes_of etag),
         (''Last-Modified'', bytes_of last_modified), (''Content-Length'', bytes_of (digits_of_nat (length content)))],
      hr_body = content\<rparr>"

text \<open>A conditional request that need not be answered with content.\<close>

definition is_fresh :: "route_params \<Rightarrow> string \<Rightarrow> string \<Rightarrow> bool" where
  "is_fresh hdrs etag last_modified \<longleftrightarrow>
     (case hdrs (bytes_of ''if-none-match'') of
        Some v \<Rightarrow> find_sub (bytes_of etag) v \<noteq> None \<or> trim_text v = bytes_of ''*''
      | None \<Rightarrow> False) \<or>
     (case hdrs (bytes_of ''if-modified-since'') of
        Some v \<Rightarrow> trim_text v = bytes_of last_modified
      | None \<Rightarrow> False)"

text \<open>The answer to a range; \<^verbatim>\<open>None\<close> when the whole file is to be sent.\<close>

definition range_response :: "file_system \<Rightarrow> rust_str \<Rightarrow> string \<Rightarrow> string \<Rightarrow> u64 \<Rightarrow> range_header \<Rightarrow> http_response option" where
  "range_response fs path mime etag file_len r =
     (case r of
        Satisfiable start end_pos \<Rightarrow>
          map_option (partial_content mime etag start end_pos file_len)
            (read_at fs path (unat start) (unat (end_pos - start + 1)))
      | Unsatisfiable \<Rightarrow> Some (not_satisfiable file_len)
      | No_Range \<Rightarrow> None)"

definition serve_static_file :: "file_system \<Rightarrow> rust_str \<Rightarrow> route_params \<Rightarrow> http_response option" where
  "serve_static_file fs path hdrs =
     (if \<not> fs_is_file fs path then None
      else case fs_metadata fs path of
        None \<Rightarrow> None
      | Some (file_len, secs, nanos) \<Rightarrow>
          let etag = calculate_etag file_len secs nanos;
              last_modified = format_http_date secs;
              mime = get_mime_type_for_extension (str_or (path_extension path));
              full = map_option (full_content mime etag last_modified) (fs_read fs path)
          in if is_fresh hdrs etag last_modified then Some (not_modified etag)
             else case hdrs (bytes_of ''range'') of
               None \<Rightarrow> full
             | Some v \<Rightarrow> or_else (range_response fs path mime etag file_len (parse_range_header v file_len)) full)"

section \<open>Mounts\<close>

text \<open>The file a mount offers for the path of a request.\<close>

definition mount_target :: "file_system \<Rightarrow> rust_str \<Rightarrow> rust_str \<Rightarrow> rust_str \<Rightarrow> rust_str option" where
  "mount_target fs prefix root req =
     (if req = prefix \<or> starts_with req (prefix @ [47]) then
        let rel = (if req = prefix then [] else drop (length prefix + 1) req);
            decoded = percent_decode rel
        in if find_sub (bytes_of ''..'') decoded \<noteq> None then None
           else
             let t = path_join root (if decoded = [] then bytes_of ''index.html'' else decoded);
                 target = (if fs_is_dir fs t then path_join t (bytes_of ''index.html'') else t)
             in if fs_is_file fs target then Some target else None
      else None)"

text \<open>The first mount that can serve the request answers it, with the path of the file it read.\<close>

fun serve_mounts :: "file_system \<Rightarrow> (rust_str \<times> rust_str) list \<Rightarrow> route_params \<Rightarrow> rust_str \<Rightarrow> (rust_str \<times> http_response) option" where
  "serve_mounts fs [] hdrs req = None"
| "serve_mounts fs ((prefix, root) # mounts) hdrs req =
     (case mount_target fs prefix root req of
        None \<Rightarrow> serve_mounts fs mounts hdrs req
      | Some target \<Rightarrow>
          (case serve_static_file fs target hdrs of
             None \<Rightarrow> serve_mounts fs mounts hdrs req
           | Some r \<Rightarrow> Some (target, r)))"

definition not_found :: http_response where
  "not_found = \<lparr>hr_status = ''404 Not Found'', hr_headers = [], hr_body = bytes_of ''404 Not Found''\<rparr>"

definition native_static_route_handler :: "file_system \<Rightarrow> (rust_str \<times> rust_str) list \<Rightarrow> route_params \<Rightarrow> rust_str \<Rightarrow> http_response" where
  "native_static_route_handler fs mounts hdrs req =
     (case serve_mounts fs mounts hdrs req of Some (target, r) \<Rightarrow> r | None \<Rightarrow> not_found)"

text \<open>Mounting a directory; the patterns are registered for \<^verbatim>\<open>GET\<close> and \<^verbatim>\<open>HEAD\<close>.\<close>

definition clean_prefix :: "rust_str \<Rightarrow> rust_str" where
  "clean_prefix p = (if 1 < length p \<and> ends_with p [47] then butlast p else p)"

definition mount_static :: "rust_str \<Rightarrow> rust_str \<Rightarrow> (rust_str \<times> rust_str) list \<Rightarrow> (rust_str \<times> rust_str) list" where
  "mount_static prefix root mounts = mounts @ [(clean_prefix prefix, root)]"

definition static_patterns :: "rust_str \<Rightarrow> rust_str list" where
  "static_patterns prefix =
     (let p = clean_prefix prefix in
      if p = [47] \<or> p = [] then [bytes_of ''/*filepath''] else [p @ bytes_of ''/*filepath'', p])"

section \<open>Ranges lie inside the file\<close>








text \<open>A file system with one file, readable by everyone.\<close>

definition one_file :: "rust_str \<Rightarrow> u8 list \<Rightarrow> file_system" where
  "one_file path bs =
     \<lparr>fs_is_dir = (\<lambda>p. False), fs_is_file = (\<lambda>p. p = path),
      fs_metadata = (\<lambda>p. if p = path then Some (of_nat (length bs), 0, 0) else None),
      fs_read = (\<lambda>p. if p = path then Some bs else None)\<rparr>"


section \<open>Files below the mounts\<close>

text \<open>A path that stays below where it starts: relative, and without two dots in a row.\<close>

definition below :: "rust_str \<Rightarrow> bool" where
  "below p \<longleftrightarrow> \<not> starts_with p [47] \<and> find_sub (bytes_of ''..'') p = None"

lemma path_join_relative:
  assumes "p \<noteq> []" "\<not> starts_with p [47]" "\<not> starts_with q [47]"
  shows "path_join (path_join base p) q = path_join base (path_join p q)"
proof -
  have "ends_with (base @ p) [47] = ends_with p [47]" "ends_with (base @ [47] @ p) [47] = ends_with p [47]" for base
    using assms(1) by (cases p rule: rev_cases; simp add: ends_with_def)+
  moreover have "\<not> starts_with (p @ q') [47]" for q' using assms(1,2) by (cases p) auto
  ultimately show ?thesis using assms by (simp add: path_join_def)
qed

lemma mount_target_file: "mount_target fs prefix root req = Some t \<Longrightarrow> fs_is_file fs t"
  by (auto simp: mount_target_def Let_def split: if_splits)

lemma dots: "bytes_of ''..'' = [46, 46]" "bytes_of ''index.html'' = 105 # bytes_of ''ndex.html''"
  by (simp_all add: bytes_of_def)

lemma no_dots_append:
  "find_sub [46, 46] p = None \<Longrightarrow> find_sub [46, 46] q = None \<Longrightarrow> \<not> starts_with q [46] \<Longrightarrow> find_sub [46, 46] (p @ q) = None"
proof (induction p)
  case (Cons c p)
  have "starts_with (p @ q) [46] \<longleftrightarrow> (if p = [] then starts_with q [46] else starts_with p [46])" by (cases p) simp_all
  then show ?case using Cons by (auto split: if_splits)
qed simp

lemma below_index: "below (bytes_of ''index.html'')"
  by (simp add: below_def bytes_of_def)

lemma below_join_index:
  assumes "p \<noteq> []" "below p"
  shows "below (path_join p (bytes_of ''index.html''))"
proof -
  have "find_sub [46, 46] (bytes_of ''index.html'') = None" "find_sub [46, 46] ([47] @ bytes_of ''index.html'') = None"
    by (simp_all add: bytes_of_def)
  moreover have "\<not> starts_with (p @ q) [47]" for q using assms by (cases p) (auto simp: below_def)
  ultimately show ?thesis
    using assms no_dots_append [of p "bytes_of ''index.html''"] no_dots_append [of p "[47] @ bytes_of ''index.html''"]
    by (simp add: below_def path_join_def dots)
qed

lemma mount_target_below:
  assumes "mount_target fs prefix root req = Some t"
  obtains rel where "req = prefix @ rel"
    "(\<exists>x. below x \<and> t = path_join root x) \<or>
     starts_with (percent_decode (drop 1 rel)) [47] \<and>
       t \<in> {percent_decode (drop 1 rel), path_join (percent_decode (drop 1 rel)) (bytes_of ''index.html'')}"
proof -
  from assms obtain rel where rel: "req = prefix @ rel" "rel = [] \<or> (\<exists>q. rel = 47 # q)"
    by (auto simp: mount_target_def starts_with_iff split: if_splits)
  let ?d = "percent_decode (drop 1 rel)"
  let ?i = "bytes_of ''index.html''"
  let ?b = "if ?d = [] then ?i else ?d"
  have d: "(if req = prefix then [] else drop (length prefix + 1) req) = drop 1 rel" using rel by auto
  have t: "find_sub (bytes_of ''..'') ?d = None" "t = path_join root ?b \<or> t = path_join (path_join root ?b) ?i"
    using assms unfolding mount_target_def d Let_def by (auto split: if_splits)
  show ?thesis
  proof (cases "starts_with ?d [47]")
    case True
    then have "path_join root ?b = ?d" by (auto simp: path_join_def)
    then show ?thesis using True t(2) rel(1) that by auto
  next
    case False
    then have b: "below ?b" "?b \<noteq> []" using t(1) below_index by (auto simp: below_def dots(2))
    have "path_join (path_join root ?b) ?i = path_join root (path_join ?b ?i)"
      using b by (intro path_join_relative) (auto simp: below_def dots(2))
    then show ?thesis using t(2) b below_join_index [OF b(2,1)] rel(1) that by metis
  qed
qed

text \<open>A directory mounted at the root answers no path below it: the prefix is a slash, and the path would have to
  begin with two.\<close>

lemma root_mount_serves_nothing: "c \<noteq> 47 \<Longrightarrow> mount_target fs (clean_prefix [47]) root (47 # c # cs) = None"
  by (simp add: mount_target_def clean_prefix_def)

text \<open>C40: A file the static handler serves lies below the directory of a mount whose prefix the request has, or the
  decoded rest of the request is an absolute path and names the file itself.\<close>

theorem static_files_below_mounts:
  assumes "serve_mounts fs mounts hdrs req = Some (t, r)"
  shows "fs_is_file fs t \<and> (\<exists>(prefix, root) \<in> set mounts. \<exists>rel. req = prefix @ rel \<and>
    ((\<exists>x. below x \<and> t = path_join root x) \<or>
     starts_with (percent_decode (drop 1 rel)) [47] \<and>
       t \<in> {percent_decode (drop 1 rel), path_join (percent_decode (drop 1 rel)) (bytes_of ''index.html'')}))"
  using assms
proof (induction mounts)
  case (Cons mt mounts)
  obtain prefix root where mt: "mt = (prefix, root)" by (cases mt)
  show ?case
  proof (cases "\<exists>r'. mount_target fs prefix root req = Some t \<and> serve_static_file fs t hdrs = Some r'")
    case True
    then obtain rel where "req = prefix @ rel"
        "(\<exists>x. below x \<and> t = path_join root x) \<or>
         starts_with (percent_decode (drop 1 rel)) [47] \<and>
           t \<in> {percent_decode (drop 1 rel), path_join (percent_decode (drop 1 rel)) (bytes_of ''index.html'')}"
      using mount_target_below by metis
    moreover have "fs_is_file fs t" using True mount_target_file by blast
    ultimately show ?thesis unfolding mt by (intro conjI bexI [of _ "(prefix, root)"]) auto
  next
    case False
    then have "serve_mounts fs mounts hdrs req = Some (t, r)"
      using Cons.prems by (auto simp: mt split: option.splits)
    then show ?thesis using Cons.IH by auto
  qed
qed simp

theorem static_files_below_mounts_witness:
  "\<exists>t r. serve_mounts (one_file (bytes_of ''/srv/a'') [7]) [(bytes_of ''/s'', bytes_of ''/srv'')] Map.empty (bytes_of ''/s/a'') =
      Some (t, r) \<and> (\<exists>x. below x \<and> t = path_join (bytes_of ''/srv'') x)"
proof -
  let ?fs = "one_file (bytes_of ''/srv/a'') [7]"
  have target: "mount_target ?fs (bytes_of ''/s'') (bytes_of ''/srv'') (bytes_of ''/s/a'') = Some (bytes_of ''/srv/a'')"
    by (simp add: mount_target_def one_file_def path_join_def percent_decode_def ends_with_def bytes_of_def)
  obtain r where "serve_static_file ?fs (bytes_of ''/srv/a'') Map.empty = Some r"
    by (simp add: serve_static_file_def one_file_def is_fresh_def Let_def)
  then have served: "serve_mounts ?fs [(bytes_of ''/s'', bytes_of ''/srv'')] Map.empty (bytes_of ''/s/a'') =
      Some (bytes_of ''/srv/a'', r)"
    by (simp add: target)
  show ?thesis using static_files_below_mounts [OF served] served
    by (auto simp: percent_decode_def bytes_of_def)
qed

text \<open>The second case is real: after the prefix of a mount and a slash, an absolute path without dots gets the file
  of that path, whatever the directory of the mount.\<close>

lemma static_serves_absolute_paths:
  assumes "starts_with p [47]" and "percent_decode p = p" and "find_sub (bytes_of ''..'') p = None"
    and "fs_is_file fs p" and "\<not> fs_is_dir fs p" and "serve_static_file fs p hdrs = Some r"
  shows "native_static_route_handler fs ((prefix, root) # mounts) hdrs (prefix @ [47] @ p) = r"
proof -
  have "p \<noteq> []" using assms(1) by (cases p) auto
  moreover have "starts_with (prefix @ [47] @ p) (prefix @ [47])" by (simp add: starts_with_iff)
  ultimately have "mount_target fs prefix root (prefix @ [47] @ p) = Some p"
    using assms(1-5) by (simp add: mount_target_def path_join_def)
  then show ?thesis using assms(6) by (simp add: native_static_route_handler_def)
qed

end
