(* ===== verification/Spec2Isabelle.thy ===== *)
theory Spec2Isabelle
  imports Gc_Collect Shapes Bytecode Lexer_Spelling Parser_Roundtrip Comp_Sound Vm_Loop
    Sem_Program Sem_Strings Vm_Fair Web_Static
begin

text \<open>
  A verification development for Eronom, a scripting language with its own front end, bytecode
  compiler and virtual machine, written in Rust. Source text is lexed and parsed
  (\<^verbatim>\<open>crates/eronom-frontend\<close>), analysed for effects, compiled to register bytecode
  (\<^verbatim>\<open>crates/eronom-vm/src/compiler\<close>) and run by an interpreter over NaN-boxed values and a
  garbage-collected heap (\<^verbatim>\<open>crates/eronom-core\<close>, \<^verbatim>\<open>crates/eronom-vm/src/execute\<close>). The theories
  follow that pipeline; each opens with what it holds.

  \<^bold>\<open>Shared.\<close> \<open>Prelude\<close> has the named collections and the lemmas on lists, strings and maps that
  every part uses. \<open>Doubles\<close> is IEEE double arithmetic on 64-bit words (rounding, comparison,
  conversion, parsing, printing), since both numbers and tags live in the same word.

  \<^bold>\<open>Values and bytecode\<close> (\<^verbatim>\<open>eronom-core/src/value.rs\<close>, \<^verbatim>\<open>bytecode.rs\<close>, \<^verbatim>\<open>frame.rs\<close>). \<open>Values\<close>: the
  tagged 64-bit word, its constructors and tests, inline strings, equality, map keys and their
  hash. \<open>Bytecode\<close>: instructions, chunks, functions and the search for the innermost exception handler.
  The lemmas show that every word has one kind, that packing is lossless, that equality is an equivalence
  and agrees with hashing.

  \<^bold>\<open>Heap\<close> (\<^verbatim>\<open>eronom-core/src/gc\<close>, \<^verbatim>\<open>execute/gc_integration.rs\<close>). \<open>Gc_State\<close> has the thread-local
  \<^verbatim>\<open>GC_STATE\<close> as one record, memory as a partial map from addresses to cells, and all operations;
  following a pointer to unwritten memory is \<open>None\<close>. \<open>Gc_Mark\<close>, \<open>Gc_Sweep\<close> and \<open>Gc_Collect\<close> prove
  marking, sweeping and the whole collection against reachability, the write barrier against the
  tri-colour invariant, and the allocator and interning against the contract that a locale states for
  their clients. Loops that need not end are \<^theory_text>\<open>partial_function\<close>s, and their termination is
  part of what is proved. Two relations are kept apart: what the tracer follows (\<open>traced\<close>, \<open>reach\<close>) and what
  a cell really holds (\<open>held\<close>, \<open>reach_held\<close>). They differ in the value of a fulfilled promise and in the
  values inside a descriptor, which the collector does not mark: it is proved safe up to these, and shown to free
  the value of a live promise.

  \<^bold>\<open>Hidden classes\<close> (\<^verbatim>\<open>eronom-core/src/shape.rs\<close>). \<open>Shapes\<close>: descriptors, the shape caches, transitions
  and field access, with stability of shapes and the record laws of fields.

  \<^bold>\<open>Front end\<close> (\<^verbatim>\<open>eronom-frontend/src\<close>). \<open>Tokens\<close>, \<open>Lexer\<close>: the lexer, with fuel
  \<open>4 * length + 4\<close>, which \<open>Lexer_Total\<close> shows to be enough (each token consumes a character, and an
  interpolation is lexed from a proper substring); \<open>Lexer_Spelling\<close> shows that lexing inverts spelling.
  \<open>Ast\<close>: syntax trees. \<open>Parser_State\<close>, \<open>Parser_Type\<close>, \<open>Parser_Expr\<close>, \<open>Parser_Stmt\<close>: the parser, one
  definition per method, over an explicit state with panics and exhausted fuel as outcomes; the
  recursion between nonterminals goes through a record tied with one unit of fuel per token.
  \<open>Parser_Runs\<close> is a total-correctness calculus for it, \<open>Parser_Safe\<close> and \<open>Parser_Scopes\<close> use it
  inside locales to show that no parsing function panics, loops or leaves a scope open, \<open>Frontend\<close>
  concludes for whole texts. \<open>Parser_Steps\<close>, \<open>Parser_Print\<close> and \<open>Parser_Roundtrip\<close> show that
  parsing inverts a printer that writes the fewest parentheses.

  \<^bold>\<open>Effects\<close> (\<^verbatim>\<open>eronom-frontend/src/effects.rs\<close>). \<open>Effects\<close>: the rungs pure, impure, suspends of
  every expression and statement and the rounds of inference; the ten rounds are enough for five
  declarations, and of a chain of calls, of any length, they find the last ten.

  \<^bold>\<open>Compiler\<close> (\<^verbatim>\<open>eronom-vm/src/compiler\<close>). \<open>Comp_Structs\<close>: struct tables and flattening. \<open>Comp_Types\<close>:
  the checks against declared types, what they accept of a struct literal and where they do not return. \<open>Comp_State\<close>: the compiler record, the chain of compilers that stands
  for the parent pointers, emission, patching, upvalues, allocation of constants. \<open>Comp_Expr\<close>,
  \<open>Comp_Stmt\<close>: every expression and statement form. \<open>Comp_Wf\<close>: the invariant of the compiler at work, from
  which the bytecode is well formed and the compiler does not panic. The recursion is cut by fuel
  because a cyclic type alias makes the source recurse for ever; the theorems hold for every fuel.

  \<^bold>\<open>Virtual machine\<close> (\<^verbatim>\<open>eronom-vm/src/execute\<close>). \<open>Vm_State\<close>: the machine, its fibers and roots, and the
  result of a step: a value, an error, a fault (memory the code reads although nothing is there), an
  abort (a Rust panic or exhausted memory), or no fuel. \<open>Vm_Math\<close>: operators and the text of values.
  \<open>Vm_Object\<close>: properties, indices, the struct cache. \<open>Vm_Call\<close>: calls, closures and upvalues, struct
  constructors, await. \<open>Vm_Strings\<close>, \<open>Vm_Builtins\<close>: methods of strings, arrays and objects. \<open>Vm_Loop\<close>: every
  instruction, exceptions, calls back into the machine, running a program; a loop of the interpreter has
  one unit of fuel per instruction. What lies outside the machine (native functions, the clock, what worker
  threads post, a JSON parser, the Unicode tables of letter case, the bits of a fresh NaN, the order of a
  hash map, the allocator's addresses, the wording of errors) is one record of parameters, the platform.
  \<open>Sem_Strings\<close>: searching and splitting texts.

  \<^bold>\<open>Fibers and events\<close> (\<^verbatim>\<open>execute/scheduler.rs\<close>, \<^verbatim>\<open>fiber.rs\<close>, \<^verbatim>\<open>event_loop.rs\<close>, \<^verbatim>\<open>types.rs\<close>). \<open>Vm_Fiber\<close>: the
  scheduler and the natives of fibers. \<open>Vm_Events\<close>: timers, the tasks that resolve promises, the turns of
  the ready fibers, the loop, with fuel for its rounds and for the timers of a round. \<open>Vm_Frame\<close> is a frame
  calculus: a locale of the relations between states that every run of the machine keeps, with one rule per
  operation. \<open>Vm_Sched\<close> instantiates it twice, for the queue of ready fibers and for the tables of waiters,
  and shows that the fiber natives keep both; \<open>Vm_Fair\<close> concludes that no waiter is lost, that resolving
  a promise queues its waiters, that a tick serves the whole queue, and that the event
  loop ends with the waiters of a cancelled fiber still suspended.

  \<^bold>\<open>HTTP\<close> (\<^verbatim>\<open>eronom-vm/src/router.rs\<close>, \<^verbatim>\<open>er_http\<close>). \<open>Web_Router\<close>: the tree of URL patterns, which is shown to find the
  best registered pattern and to bind its parameters. \<open>Web_Date\<close>: dates in headers, against a count of days in
  the Gregorian calendar. \<open>Web_Static\<close>: percent decoding, query strings, cookies, ranges and the files below
  a mounted directory, over a file system that is a parameter; ranges are exact, and a file outside the directory
  is served only for an absolute path in the request, which is shown to happen.

  \<^bold>\<open>Reference semantics and correctness of the compiler.\<close> \<open>Sem_Ref\<close>: an evaluator on ideal values for
  the core of the language (literals, variables, operators, conditionals, assignment, \<open>let\<close>, blocks,
  \<open>if\<close>, \<open>while\<close>, \<open>break\<close>, \<open>continue\<close>), which knows no registers, tags, jumps or heap. \<open>Sem_Heap\<close> is a
  locale of what a running program keeps of the heap, interpreted on the allocator. \<open>Sem_Values\<close> relates
  ideal values and words, operator by operator. \<open>Sem_Machine\<close> is a calculus of machine runs.
  \<open>Sem_Compile\<close>, \<open>Sem_Expr\<close>, \<open>Sem_Stmt\<close> say what code the compiler emits for each form; \<open>Sem_Eval\<close>,
  \<open>Sem_Correct\<close>, \<open>Sem_Exec\<close> run it, by induction on the reference evaluator; \<open>Sem_Program\<close> concludes for whole
  programs: for all large enough fuel the machine returns what the reference returns, or fails with the
  error the reference fails with. Nothing is claimed where the reference is out of fuel or says
  \<open>R_Wild\<close> (a number the tagged word cannot hold, an order asked of a NaN), or where memory is exhausted.

  \<^bold>\<open>Not modelled.\<close> The JIT and ahead-of-time back ends (they need a model of the processor and of
  Cranelift); the rest of the HTTP server, its client and the file system natives (I/O over libraries outside
  the repository); the static checker of the command line, the template compiler, the
  transpilers and the command line; the Debug printer of values; capacities of pooled vectors and
  profiling counters. Strings are lists of code points below 256. Error messages keep their parts in
  place of the formatted text.
\<close>

end
